(* ===== verification/Dive_Prelude.thy ===== *)
theory Dive_Prelude
  imports Main "HOL-Library.Word"
begin

text \<open>
  Shared vocabulary of the development: machine integers at their C++ widths, byte buffers,
  \<^verbatim>\<open>absl::Status\<close> results as sum values, decimal printing, and the list and word lemmas that
  several components use.

  \<^item> \<^verbatim>\<open>uint8_t\<close>, \<^verbatim>\<open>uint32_t\<close>, \<^verbatim>\<open>uint64_t\<close> are \<open>8 word\<close>, \<open>32 word\<close>, \<open>64 word\<close>; their
    arithmetic wraps.
  \<^item> \<^verbatim>\<open>std::string\<close> is \<open>string\<close>: a list of 8-bit characters, of any length and content.
  \<^item> \<^verbatim>\<open>absl::StatusOr<T>\<close> is \<open>status + 'a\<close>: \<open>Inl\<close> carries the status code and the message, \<open>Inr\<close>
    the value; \<^verbatim>\<open>absl::Status\<close> is \<open>status + unit\<close>. The stack-trace payload that
    \<^verbatim>\<open>Dive::AddStackTrace\<close> attaches is debugging data that no code path reads, and is left out.
\<close>

unbundle bit_operations_syntax

type_synonym byte = "8 word"
type_synonym u32 = "32 word"
type_synonym u64 = "64 word"
type_synonym buffer = "byte list"

named_theorems codec_intros
  \<open>introduction rules that show a reader to invert an encoding\<close>
named_theorems codec_dests
  \<open>what a successful read tells about the value and the consumed bytes\<close>
named_theorems write_simps
  \<open>writers as appending a fixed encoding\<close>
named_theorems inv_simps
  \<open>rewrite rules for invariants of the stateful components\<close>

section \<open>Status values\<close>

datatype status_code =
    kCancelled | kInvalidArgument | kDeadlineExceeded | kNotFound | kAlreadyExists
  | kPermissionDenied | kFailedPrecondition | kAborted | kOutOfRange | kUnimplemented
  | kInternal | kUnavailable | kDataLoss

datatype status = Status (status_code: status_code) (status_message: string)

type_synonym 'a status_or = "status + 'a"

abbreviation OkStatus :: "unit status_or" where
  "OkStatus \<equiv> Inr ()"

definition InvalidArgumentError :: "string \<Rightarrow> 'a status_or" where
  "InvalidArgumentError msg = Inl (Status kInvalidArgument msg)"

definition NotFoundError :: "string \<Rightarrow> 'a status_or" where
  "NotFoundError msg = Inl (Status kNotFound msg)"

definition FailedPreconditionError :: "string \<Rightarrow> 'a status_or" where
  "FailedPreconditionError msg = Inl (Status kFailedPrecondition msg)"

definition UnavailableError :: "string \<Rightarrow> 'a status_or" where
  "UnavailableError msg = Inl (Status kUnavailable msg)"

definition AlreadyExistsError :: "string \<Rightarrow> 'a status_or" where
  "AlreadyExistsError msg = Inl (Status kAlreadyExists msg)"

definition AbortedError :: "string \<Rightarrow> 'a status_or" where
  "AbortedError msg = Inl (Status kAborted msg)"

definition DataLossError :: "string \<Rightarrow> 'a status_or" where
  "DataLossError msg = Inl (Status kDataLoss msg)"

definition DeadlineExceededError :: "string \<Rightarrow> 'a status_or" where
  "DeadlineExceededError msg = Inl (Status kDeadlineExceeded msg)"

definition InternalError :: "string \<Rightarrow> 'a status_or" where
  "InternalError msg = Inl (Status kInternal msg)"

definition OutOfRangeError :: "string \<Rightarrow> 'a status_or" where
  "OutOfRangeError msg = Inl (Status kOutOfRange msg)"

definition PermissionDeniedError :: "string \<Rightarrow> 'a status_or" where
  "PermissionDeniedError msg = Inl (Status kPermissionDenied msg)"

lemmas status_defs = InvalidArgumentError_def NotFoundError_def FailedPreconditionError_def
  UnavailableError_def AlreadyExistsError_def AbortedError_def DataLossError_def
  DeadlineExceededError_def InternalError_def OutOfRangeError_def PermissionDeniedError_def

text \<open>\<^verbatim>\<open>Dive::StatusWithContext\<close> prepends a context to the message and keeps the code.\<close>

definition StatusWithContext :: "status \<Rightarrow> string \<Rightarrow> status" where
  "StatusWithContext st context =
     Status (status_code st) (context @ '': '' @ status_message st)"

lemma status_code_StatusWithContext [simp]:
  "status_code (StatusWithContext st c) = status_code st"
  by (simp add: StatusWithContext_def)

section \<open>Decimal printing of unsigned integers\<close>

definition digit_char :: "nat \<Rightarrow> char" where
  "digit_char d = char_of (48 + d)"

fun show_nat :: "nat \<Rightarrow> string" where
  "show_nat n =
     (if n < 10 then [digit_char n] else show_nat (n div 10) @ [digit_char (n mod 10)])"

declare show_nat.simps [simp del]

section \<open>Characters and bytes\<close>

definition byte_of_char :: "char \<Rightarrow> byte" where
  "byte_of_char c = word_of_nat (of_char c)"

definition char_of_byte :: "byte \<Rightarrow> char" where
  "char_of_byte b = char_of (unat b)"

lemma of_char_less_256: "(of_char c :: nat) < 256"
  by simp

lemma char_of_byte_of_char [simp]: "char_of_byte (byte_of_char c) = c"
  by (simp add: char_of_byte_def byte_of_char_def unat_of_nat of_char_less_256)

lemma byte_of_char_of_byte [simp]: "byte_of_char (char_of_byte b) = b"
proof -
  have "unat b < 256"
    by (rule unsigned_less [of b, simplified])
  then have "(of_char (char_of (unat b) :: char) :: nat) = unat b"
    by simp
  then show ?thesis
    by (simp add: char_of_byte_def byte_of_char_def)
qed

lemma map_char_of_byte_of_char [simp]: "map char_of_byte (map byte_of_char s) = s"
  by (simp add: comp_def)

lemma map_byte_of_char_of_byte [simp]: "map byte_of_char (map char_of_byte bs) = bs"
  by (simp add: comp_def)

section \<open>Words\<close>

lemma unat_eqD: "unat a = unat b \<Longrightarrow> a = b"
  by (rule unsigned_word_eqI)

lemma unat_ucast_32_64: "unat (ucast (w :: u32) :: u64) = unat w"
proof -
  have "unat w < 2 ^ 32"
    using unsigned_less [of w] by simp
  then show ?thesis
    by (simp add: unsigned_ucast_eq take_bit_nat_eq_self)
qed

section \<open>Lists\<close>

lemma take_drop_middle [simp]: "take (length bs) (drop (length pre) (pre @ bs @ post)) = bs"
  by simp

lemma nth_upd: "l < length xs \<Longrightarrow> xs[i := y] ! l = (if i = l then y else xs ! l)"
  by (auto simp: nth_list_update)

lemma nth_append_middle: "i < length bs \<Longrightarrow> (pre @ bs @ post) ! (length pre + i) = bs ! i"
  by (simp add: nth_append)

text \<open>
  \<^verbatim>\<open>DIVE_ASSERT\<close> of \<^verbatim>\<open>dive_core/common/common.h\<close>: a failing assertion ends a debug build
  (\<open>None\<close>) and is compiled out of a release build.
\<close>

definition DIVE_ASSERT :: "bool \<Rightarrow> bool \<Rightarrow> unit option" where
  "DIVE_ASSERT debug c = (if c \<or> \<not> debug then Some () else None)"

lemma DIVE_ASSERT_True [simp]: "DIVE_ASSERT debug True = Some ()"
  by (simp add: DIVE_ASSERT_def)

lemma DIVE_ASSERT_release [simp]: "DIVE_ASSERT False c = Some ()"
  by (simp add: DIVE_ASSERT_def)

end
