(* ===== verification/Net_Buffer.thy ===== *)
theory Net_Buffer
  imports Dive_Prelude
begin

text \<open>
  The byte-level primitives of \<^verbatim>\<open>network/messages.cc\<close>: the four \<^verbatim>\<open>Write*ToBuffer\<close> and the four
  \<^verbatim>\<open>Read*FromBuffer\<close> functions, and the \<^verbatim>\<open>ASSIGN_OR_RETURN\<close> macro that chains reads.

  A reader takes the source buffer and the offset and returns either a status or the value with
  the advanced offset. Offsets and sizes are \<^verbatim>\<open>size_t\<close>; they are natural numbers here, since every
  sum the code forms is at most the buffer size plus \<open>2^32\<close> and cannot wrap in 64 bits.

  The locale \<open>wire_codec\<close> is the contract between the primitives and the messages built from them:
  a reader inverts an encoding wherever it stands in a buffer, and never reads past the end.
\<close>

type_synonym 'a reader = "buffer \<Rightarrow> nat \<Rightarrow> ('a \<times> nat) status_or"

section \<open>Writers\<close>

definition WriteBoolToBuffer :: "bool \<Rightarrow> buffer \<Rightarrow> buffer" where
  "WriteBoolToBuffer value dest = dest @ [if value then 1 else 0]"

text \<open>\<open>htonl\<close> followed by a copy of the four bytes: most significant byte first.\<close>

definition htonl_bytes :: "u32 \<Rightarrow> buffer" where
  "htonl_bytes v = [ucast (drop_bit 24 v), ucast (drop_bit 16 v), ucast (drop_bit 8 v), ucast v]"

definition ntohl_bytes :: "buffer \<Rightarrow> u32" where
  "ntohl_bytes bs =
     push_bit 24 (ucast (bs ! 0)) OR push_bit 16 (ucast (bs ! 1)) OR
     push_bit 8 (ucast (bs ! 2)) OR ucast (bs ! 3)"

definition WriteUint32ToBuffer :: "u32 \<Rightarrow> buffer \<Rightarrow> buffer" where
  "WriteUint32ToBuffer value dest = dest @ htonl_bytes value"

definition WriteUint64ToBuffer :: "u64 \<Rightarrow> buffer \<Rightarrow> buffer" where
  "WriteUint64ToBuffer value dest =
     WriteUint32ToBuffer (ucast (value AND 0xFFFFFFFF))
       (WriteUint32ToBuffer (ucast (drop_bit 32 value)) dest)"

text \<open>The length is cast to 32 bits; the characters follow.\<close>

definition WriteStringToBuffer :: "string \<Rightarrow> buffer \<Rightarrow> buffer" where
  "WriteStringToBuffer str dest =
     WriteUint32ToBuffer (word_of_nat (length str)) dest @ map byte_of_char str"

section \<open>Readers\<close>

definition ReadBoolFromBuffer :: "bool reader" where
  "ReadBoolFromBuffer src offset =
     (if length src < offset + 1
      then InvalidArgumentError ''Buffer too small to read a bool.''
      else Inr (src ! offset \<noteq> 0, offset + 1))"

definition ReadUint32FromBuffer :: "u32 reader" where
  "ReadUint32FromBuffer src offset =
     (if length src < offset + 4
      then InvalidArgumentError ''Buffer too small to read an uint32_t.''
      else Inr (ntohl_bytes (take 4 (drop offset src)), offset + 4))"

definition assign_or_return :: "'a reader \<Rightarrow> ('a \<Rightarrow> 'b reader) \<Rightarrow> 'b reader" where
  "assign_or_return r k src offset =
     (case r src offset of
        Inl e \<Rightarrow> Inl e
      | Inr (v, offset') \<Rightarrow> k v src offset')"

definition return_value :: "'a \<Rightarrow> 'a reader" where
  "return_value v src offset = Inr (v, offset)"

definition ReadUint64FromBuffer :: "u64 reader" where
  "ReadUint64FromBuffer =
     assign_or_return ReadUint32FromBuffer (\<lambda>high.
     assign_or_return ReadUint32FromBuffer (\<lambda>low.
     return_value (push_bit 32 (ucast high) OR ucast low)))"

definition ReadStringFromBuffer :: "string reader" where
  "ReadStringFromBuffer =
     assign_or_return ReadUint32FromBuffer (\<lambda>len src offset.
       if length src < offset + unat len
       then InvalidArgumentError ''Buffer too small for declared string length.''
       else Inr (map char_of_byte (take (unat len) (drop offset src)), offset + unat len))"

text \<open>A loop that reads a counted sequence of elements and appends each to the result.\<close>

fun read_elements :: "'a reader \<Rightarrow> nat \<Rightarrow> 'a list reader" where
  "read_elements r 0 = return_value []"
| "read_elements r (Suc n) =
     assign_or_return r (\<lambda>x. assign_or_return (read_elements r n) (\<lambda>xs. return_value (x # xs)))"

text \<open>The check every \<^verbatim>\<open>Deserialize\<close> ends with: the whole source must have been consumed.\<close>

definition read_whole :: "string \<Rightarrow> 'a reader \<Rightarrow> buffer \<Rightarrow> 'a status_or" where
  "read_whole trailing_msg r src =
     (case r src 0 of
        Inl e \<Rightarrow> Inl e
      | Inr (v, offset) \<Rightarrow>
          if offset \<noteq> length src then InvalidArgumentError trailing_msg else Inr v)"

section \<open>The codec contract\<close>

text \<open>
  \<open>parses r bs x\<close>: wherever \<open>bs\<close> stands in a buffer, the reader placed at its start returns \<open>x\<close>
  and the offset just after it.
\<close>

definition parses :: "'a reader \<Rightarrow> buffer \<Rightarrow> 'a \<Rightarrow> bool" where
  "parses r bs x \<longleftrightarrow>
     (\<forall>pre post. r (pre @ bs @ post) (length pre) = Inr (x, length pre + length bs))"

lemma parsesD:
  "parses r bs x \<Longrightarrow> r (pre @ bs @ post) (length pre) = Inr (x, length pre + length bs)"
  by (simp add: parses_def)

text \<open>
  \<open>consumes r enc ok\<close>: a successful read stays inside the buffer, returns a representable value
  and advances by exactly the size of that value's encoding.
\<close>

definition consumes :: "'a reader \<Rightarrow> ('a \<Rightarrow> buffer) \<Rightarrow> ('a \<Rightarrow> bool) \<Rightarrow> bool" where
  "consumes r enc ok \<longleftrightarrow>
     (\<forall>src off x off'. off \<le> length src \<longrightarrow> r src off = Inr (x, off') \<longrightarrow>
        ok x \<and> off' = off + length (enc x) \<and> off' \<le> length src)"

locale wire_codec =
  fixes rd :: "'a reader"
    and enc :: "'a \<Rightarrow> buffer"
    and ok :: "'a \<Rightarrow> bool"
  assumes rd_enc: "ok x \<Longrightarrow> parses rd (enc x) x"
    and rd_consumes: "consumes rd enc ok"
begin

lemma rd_whole_enc: "ok x \<Longrightarrow> read_whole m rd (enc x) = Inr x"
  using parsesD [OF rd_enc, of x "[]" "[]"] by (simp add: read_whole_def)

lemma rd_whole_ok:
  assumes "read_whole m rd src = Inr x"
  shows "ok x" and "length (enc x) = length src"
proof -
  from assms have "rd src 0 = Inr (x, length src)"
    by (auto simp: read_whole_def status_defs split: sum.splits if_splits)
  then have *: "ok x \<and> length src = 0 + length (enc x)"
    using rd_consumes unfolding consumes_def by blast
  then show "ok x" and "length (enc x) = length src"
    by simp_all
qed

lemma rd_whole_stable: "read_whole m rd src = Inr x \<Longrightarrow> read_whole m rd (enc x) = Inr x"
  by (rule rd_whole_enc) (rule rd_whole_ok)

lemma rd_whole_trailing:
  assumes "ok x" and "extra \<noteq> []"
  shows "read_whole m rd (enc x @ extra) = InvalidArgumentError m"
  using parsesD [OF rd_enc [OF assms(1)], of "[]" extra] assms(2)
  by (simp add: read_whole_def)

end

section \<open>Chaining reads\<close>

lemma parses_return [codec_intros]: "parses (return_value x) [] x"
  by (simp add: parses_def return_value_def)

lemma parses_bind [codec_intros]:
  assumes "parses r bs x" and "parses (k x) cs y"
  shows "parses (assign_or_return r k) (bs @ cs) y"
proof (unfold parses_def, intro allI)
  fix pre post
  show "assign_or_return r k (pre @ (bs @ cs) @ post) (length pre) =
      Inr (y, length pre + length (bs @ cs))"
    using parsesD [OF assms(1), of pre "cs @ post"] parsesD [OF assms(2), of "pre @ bs" post]
    by (simp add: assign_or_return_def add.assoc)
qed

lemma parses_bind_last:
  assumes "parses r bs x" and "parses (k x) [] y"
  shows "parses (assign_or_return r k) bs y"
  using parses_bind [of r bs x k "[]" y] assms by simp

lemma assign_or_return_Inr:
  "assign_or_return r k src off = Inr z \<longleftrightarrow>
     (\<exists>x off'. r src off = Inr (x, off') \<and> k x src off' = Inr z)"
  by (auto simp: assign_or_return_def split: sum.splits)

lemma return_value_Inr [simp]: "return_value v src off = Inr z \<longleftrightarrow> z = (v, off)"
  by (auto simp: return_value_def)

lemma consumesD:
  assumes "consumes r enc ok" and "r src off = Inr (x, off')" and "off \<le> length src"
  shows "ok x" and "off' = off + length (enc x)" and "off' \<le> length src"
  using assms unfolding consumes_def by blast+

section \<open>The primitives satisfy the contract\<close>

lemma length_htonl_bytes [simp]: "length (htonl_bytes v) = 4"
  by (simp add: htonl_bytes_def)

lemma ntohl_htonl [simp]: "ntohl_bytes (htonl_bytes v) = v"
proof (rule bit_word_eqI)
  fix n
  assume "n < LENGTH(32)"
  then consider "n < 8" | "8 \<le> n" "n < 16" | "16 \<le> n" "n < 24" | "24 \<le> n" "n < 32"
    by force
  then show "bit (ntohl_bytes (htonl_bytes v)) n = bit v n"
    by cases (auto simp: ntohl_bytes_def htonl_bytes_def bit_simps)
qed

lemma word64_halves:
  "push_bit 32 (ucast (ucast (drop_bit 32 v) :: u32)) OR ucast (ucast (v AND 0xFFFFFFFF) :: u32) =
   (v :: u64)"
proof -
  have m: "(0xFFFFFFFF :: u64) = mask 32"
    by (simp add: mask_eq_exp_minus_1)
  show ?thesis
    unfolding m by (rule bit_word_eqI) (auto simp: bit_simps)
qed

abbreviation enc_bool :: "bool \<Rightarrow> buffer" where
  "enc_bool v \<equiv> WriteBoolToBuffer v []"

abbreviation enc_u32 :: "u32 \<Rightarrow> buffer" where
  "enc_u32 v \<equiv> WriteUint32ToBuffer v []"

abbreviation enc_u64 :: "u64 \<Rightarrow> buffer" where
  "enc_u64 v \<equiv> WriteUint64ToBuffer v []"

abbreviation enc_string :: "string \<Rightarrow> buffer" where
  "enc_string s \<equiv> WriteStringToBuffer s []"

definition string_ok :: "string \<Rightarrow> bool" where
  "string_ok s \<longleftrightarrow> length s < 2 ^ 32"

lemma WriteBool_enc [write_simps]: "NO_MATCH [] d \<Longrightarrow> WriteBoolToBuffer v d = d @ enc_bool v"
  by (simp add: WriteBoolToBuffer_def)

lemma WriteUint32_enc [write_simps]:
  "NO_MATCH [] d \<Longrightarrow> WriteUint32ToBuffer v d = d @ enc_u32 v"
  by (simp add: WriteUint32ToBuffer_def)

lemma WriteUint64_enc [write_simps]:
  "NO_MATCH [] d \<Longrightarrow> WriteUint64ToBuffer v d = d @ enc_u64 v"
  by (simp add: WriteUint64ToBuffer_def WriteUint32ToBuffer_def)

lemma WriteString_enc [write_simps]:
  "NO_MATCH [] d \<Longrightarrow> WriteStringToBuffer s d = d @ enc_string s"
  by (simp add: WriteStringToBuffer_def WriteUint32ToBuffer_def)

lemma length_enc [simp]:
  "length (enc_bool b) = 1"
  "length (enc_u32 v) = 4"
  "length (enc_u64 w) = 8"
  "length (enc_string s) = 4 + length s"
  by (simp_all add: WriteBoolToBuffer_def WriteUint32ToBuffer_def WriteUint64ToBuffer_def
      WriteStringToBuffer_def)

lemma parses_bool [codec_intros]: "parses ReadBoolFromBuffer (enc_bool v) v"
  by (simp add: parses_def ReadBoolFromBuffer_def WriteBoolToBuffer_def)

lemma parses_u32 [codec_intros]: "parses ReadUint32FromBuffer (enc_u32 v) v"
  by (simp add: parses_def ReadUint32FromBuffer_def WriteUint32ToBuffer_def)

lemma parses_u64 [codec_intros]: "parses ReadUint64FromBuffer (enc_u64 v) v"
proof -
  have "parses ReadUint64FromBuffer
     (enc_u32 (ucast (drop_bit 32 v)) @ enc_u32 (ucast (v AND 0xFFFFFFFF)) @ [])
     (push_bit 32 (ucast (ucast (drop_bit 32 v) :: u32)) OR
       ucast (ucast (v AND 0xFFFFFFFF) :: u32))"
    unfolding ReadUint64FromBuffer_def by (rule codec_intros)+
  then show ?thesis
    unfolding word64_halves by (simp add: WriteUint64ToBuffer_def WriteUint32ToBuffer_def)
qed

lemma parses_string [codec_intros]:
  assumes "string_ok s"
  shows "parses ReadStringFromBuffer (enc_string s) s"
proof -
  let ?len = "word_of_nat (length s) :: u32"
  have len: "unat ?len = length s"
    using assms by (simp add: string_ok_def unat_of_nat)
  have "parses ReadStringFromBuffer (enc_u32 ?len @ map byte_of_char s) s"
    unfolding ReadStringFromBuffer_def
  proof (rule parses_bind [OF parses_u32])
    show "parses (\<lambda>src offset.
        if length src < offset + unat ?len
        then InvalidArgumentError ''Buffer too small for declared string length.''
        else Inr (map char_of_byte (take (unat ?len) (drop offset src)), offset + unat ?len))
      (map byte_of_char s) s"
      by (simp add: parses_def len comp_def)
  qed
  then show ?thesis
    by (simp add: WriteStringToBuffer_def)
qed

lemma consumes_bool: "consumes ReadBoolFromBuffer enc_bool (\<lambda>_. True)"
  by (auto simp: consumes_def ReadBoolFromBuffer_def status_defs split: if_splits)

lemma consumes_u32: "consumes ReadUint32FromBuffer enc_u32 (\<lambda>_. True)"
  by (auto simp: consumes_def ReadUint32FromBuffer_def status_defs split: if_splits)

lemmas consumes_u32D = consumesD [OF consumes_u32]

lemma consumes_u64: "consumes ReadUint64FromBuffer enc_u64 (\<lambda>_. True)"
  unfolding consumes_def
  by (fastforce simp: ReadUint64FromBuffer_def assign_or_return_Inr dest: consumes_u32D)

lemma consumes_string: "consumes ReadStringFromBuffer enc_string string_ok"
  unfolding consumes_def
proof (intro allI impI)
  fix src off s off'
  assume "off \<le> length src" and "ReadStringFromBuffer src off = Inr (s, off')"
  then obtain len off1 where rd: "ReadUint32FromBuffer src off = Inr (len, off1)"
    and le: "off1 + unat len \<le> length src"
    and s: "s = map char_of_byte (take (unat len) (drop off1 src))"
    and off': "off' = off1 + unat len"
    by (auto simp: ReadStringFromBuffer_def assign_or_return_Inr status_defs split: if_splits)
  have "off1 = off + 4"
    using consumes_u32D(2) [OF rd \<open>off \<le> length src\<close>] by simp
  moreover have "length s = unat len"
    using le s by simp
  moreover have "unat len < 2 ^ 32"
    using unsigned_less [of len] by simp
  ultimately show "string_ok s \<and> off' = off + length (enc_string s) \<and> off' \<le> length src"
    using le off' by (simp add: string_ok_def)
qed

text \<open>Every primitive reads at least one byte, so success alone bounds the offset.\<close>

lemma ReadBool_InrD [codec_dests]:
  "ReadBoolFromBuffer src off = Inr (x, off') \<Longrightarrow> off' = off + 1 \<and> off' \<le> length src"
  by (auto simp: ReadBoolFromBuffer_def status_defs split: if_splits)

lemma ReadUint32_InrD [codec_dests]:
  "ReadUint32FromBuffer src off = Inr (x, off') \<Longrightarrow> off' = off + 4 \<and> off' \<le> length src"
  by (auto simp: ReadUint32FromBuffer_def status_defs split: if_splits)

lemma ReadUint64_InrD [codec_dests]:
  "ReadUint64FromBuffer src off = Inr (x, off') \<Longrightarrow> off' = off + 8 \<and> off' \<le> length src"
  by (auto simp: ReadUint64FromBuffer_def assign_or_return_Inr dest!: ReadUint32_InrD)

lemma ReadString_InrD [codec_dests]:
  assumes "ReadStringFromBuffer src off = Inr (s, off')"
  shows "string_ok s \<and> off' = off + 4 + length s \<and> off' \<le> length src"
proof -
  have "off \<le> length src"
    using assms by (auto simp: ReadStringFromBuffer_def assign_or_return_Inr dest!: ReadUint32_InrD)
  from consumesD [OF consumes_string assms this] show ?thesis
    by simp
qed

interpretation bool_codec: wire_codec ReadBoolFromBuffer enc_bool "\<lambda>_. True"
  by unfold_locales (auto intro: codec_intros consumes_bool)

interpretation u32_codec: wire_codec ReadUint32FromBuffer enc_u32 "\<lambda>_. True"
  by unfold_locales (auto intro: codec_intros consumes_u32)

interpretation u64_codec: wire_codec ReadUint64FromBuffer enc_u64 "\<lambda>_. True"
  by unfold_locales (auto intro: codec_intros consumes_u64)

interpretation string_codec: wire_codec ReadStringFromBuffer enc_string string_ok
  by unfold_locales (auto intro: codec_intros consumes_string)

section \<open>Counted sequences\<close>

lemma parses_elements [codec_intros]:
  assumes "\<And>x. x \<in> set xs \<Longrightarrow> parses r (enc x) x" and "n = length xs"
  shows "parses (read_elements r n) (concat (map enc xs)) xs"
  using assms
proof (induction xs arbitrary: n)
  case Nil
  then show ?case by (simp add: parses_return)
next
  case (Cons x xs)
  have "parses (assign_or_return (read_elements r (length xs)) (\<lambda>xs. return_value (x # xs)))
      (concat (map enc xs)) (x # xs)"
    by (rule parses_bind_last [OF Cons.IH parses_return]) (simp_all add: Cons.prems)
  then have "parses (read_elements r (Suc (length xs))) (enc x @ concat (map enc xs)) (x # xs)"
    unfolding read_elements.simps by (rule parses_bind [rotated]) (simp add: Cons.prems)
  with Cons.prems show ?case by simp
qed

lemma consumes_elements:
  assumes "consumes r enc ok"
  shows "consumes (read_elements r n) (\<lambda>xs. concat (map enc xs)) (\<lambda>xs. length xs = n \<and> list_all ok xs)"
proof (induction n)
  case 0
  then show ?case by (simp add: consumes_def)
next
  case (Suc n)
  note elem = consumesD [OF assms] and rest = consumesD [OF Suc.IH]
  show ?case
    unfolding consumes_def
    by (auto simp: assign_or_return_Inr dest: elem rest) (use elem rest in fastforce)+
qed

end
