(* ===== verification/Net_Messages.thy ===== *)
theory Net_Messages
  imports Net_Buffer
begin

text \<open>
  The messages of \<^verbatim>\<open>network/messages.h\<close> and their \<^verbatim>\<open>Serialize\<close> / \<^verbatim>\<open>Deserialize\<close> methods in
  \<^verbatim>\<open>network/messages.cc\<close>. Each class with data members is a record; the sum \<open>message\<close> has one
  constructor per concrete class, so that the dynamic type behind an \<^verbatim>\<open>ISerializable\<close> pointer is
  its constructor. \<^verbatim>\<open>Serialize(Buffer& dest)\<close> takes the destination buffer and returns it
  updated. \<^verbatim>\<open>Deserialize\<close> returns the object that a successful call leaves behind; on failure
  the caller drops the object, so the partial update is not represented.

  Every message is shown to be a \<open>wire_codec\<close>; the root theory combines these into the round trip
  of the whole protocol.
\<close>

section \<open>Message types\<close>

datatype MessageType =
    HANDSHAKE_REQUEST | HANDSHAKE_RESPONSE | PING_MESSAGE | PONG_MESSAGE
  | PM4_CAPTURE_REQUEST | PM4_CAPTURE_RESPONSE | DOWNLOAD_FILE_REQUEST | DOWNLOAD_FILE_RESPONSE
  | FILE_SIZE_REQUEST | FILE_SIZE_RESPONSE | REMOVE_FILE_REQUEST | REMOVE_FILE_RESPONSE
  | DRAWCALL_FILTER_CONFIG_REQUEST | DRAWCALL_FILTER_CONFIG_RESPONSE
  | LIVE_PSOS_REQUEST | LIVE_PSOS_RESPONSE
  | LIVE_RENDER_PASSES_REQUEST | LIVE_RENDER_PASSES_RESPONSE
  | DISABLE_TIMESTAMP_REQUEST | DISABLE_TIMESTAMP_RESPONSE

fun MessageType_value :: "MessageType \<Rightarrow> u32" where
  "MessageType_value HANDSHAKE_REQUEST = 1"
| "MessageType_value HANDSHAKE_RESPONSE = 2"
| "MessageType_value PING_MESSAGE = 3"
| "MessageType_value PONG_MESSAGE = 4"
| "MessageType_value PM4_CAPTURE_REQUEST = 5"
| "MessageType_value PM4_CAPTURE_RESPONSE = 6"
| "MessageType_value DOWNLOAD_FILE_REQUEST = 7"
| "MessageType_value DOWNLOAD_FILE_RESPONSE = 8"
| "MessageType_value FILE_SIZE_REQUEST = 9"
| "MessageType_value FILE_SIZE_RESPONSE = 10"
| "MessageType_value REMOVE_FILE_REQUEST = 11"
| "MessageType_value REMOVE_FILE_RESPONSE = 12"
| "MessageType_value DRAWCALL_FILTER_CONFIG_REQUEST = 13"
| "MessageType_value DRAWCALL_FILTER_CONFIG_RESPONSE = 14"
| "MessageType_value LIVE_PSOS_REQUEST = 15"
| "MessageType_value LIVE_PSOS_RESPONSE = 16"
| "MessageType_value LIVE_RENDER_PASSES_REQUEST = 17"
| "MessageType_value LIVE_RENDER_PASSES_RESPONSE = 18"
| "MessageType_value DISABLE_TIMESTAMP_REQUEST = 19"
| "MessageType_value DISABLE_TIMESTAMP_RESPONSE = 20"

section \<open>Message data\<close>

record HandshakeMessage =
  m_major_version :: u32
  m_minor_version :: u32

record RemoveFileResponse =
  rf_error_reason :: string
  rf_success :: bool

record DownloadFileResponse =
  df_found :: bool
  df_error_reason :: string
  df_file_path :: string
  df_file_size :: u64

record FileSizeResponse =
  fs_found :: bool
  fs_error_reason :: string
  fs_file_size :: u64

record DrawcallFilterConfigRequest =
  m_target_render_pass_name :: string
  m_vertex_count :: u32
  m_index_count :: u32
  m_instance_count :: u32
  m_max_drawcalls :: u32
  m_filter_by_vertex_count :: bool
  m_filter_by_index_count :: bool
  m_filter_by_instance_count :: bool
  m_enable_drawcall_limit :: bool
  m_filter_by_alpha_blended :: bool
  m_filter_by_render_pass :: bool

record PSOInfo =
  pso_name :: string
  pipeline_handle :: u64
  has_alpha_blend :: bool

record RenderPassInfo =
  rp_name :: string
  render_pass_handle :: u64

datatype message =
    HandshakeRequest HandshakeMessage
  | HandshakeResponse HandshakeMessage
  | PingMessage
  | PongMessage
  | Pm4CaptureRequest
  | Pm4CaptureResponse string
  | DownloadFileRequest string
  | DownloadFileResponseMsg DownloadFileResponse
  | FileSizeRequest string
  | FileSizeResponseMsg FileSizeResponse
  | RemoveFileRequest string
  | RemoveFileResponseMsg RemoveFileResponse
  | DrawcallFilterConfigRequestMsg DrawcallFilterConfigRequest
  | DrawcallFilterConfigResponse
  | LivePSOsRequest
  | LivePSOsResponse "PSOInfo list"
  | LiveRenderPassesRequest
  | LiveRenderPassesResponse "RenderPassInfo list"
  | DisableTimestampRequest bool
  | DisableTimestampResponse

fun GetMessageType :: "message \<Rightarrow> MessageType" where
  "GetMessageType (HandshakeRequest _) = HANDSHAKE_REQUEST"
| "GetMessageType (HandshakeResponse _) = HANDSHAKE_RESPONSE"
| "GetMessageType PingMessage = PING_MESSAGE"
| "GetMessageType PongMessage = PONG_MESSAGE"
| "GetMessageType Pm4CaptureRequest = PM4_CAPTURE_REQUEST"
| "GetMessageType (Pm4CaptureResponse _) = PM4_CAPTURE_RESPONSE"
| "GetMessageType (DownloadFileRequest _) = DOWNLOAD_FILE_REQUEST"
| "GetMessageType (DownloadFileResponseMsg _) = DOWNLOAD_FILE_RESPONSE"
| "GetMessageType (FileSizeRequest _) = FILE_SIZE_REQUEST"
| "GetMessageType (FileSizeResponseMsg _) = FILE_SIZE_RESPONSE"
| "GetMessageType (RemoveFileRequest _) = REMOVE_FILE_REQUEST"
| "GetMessageType (RemoveFileResponseMsg _) = REMOVE_FILE_RESPONSE"
| "GetMessageType (DrawcallFilterConfigRequestMsg _) = DRAWCALL_FILTER_CONFIG_REQUEST"
| "GetMessageType DrawcallFilterConfigResponse = DRAWCALL_FILTER_CONFIG_RESPONSE"
| "GetMessageType LivePSOsRequest = LIVE_PSOS_REQUEST"
| "GetMessageType (LivePSOsResponse _) = LIVE_PSOS_RESPONSE"
| "GetMessageType LiveRenderPassesRequest = LIVE_RENDER_PASSES_REQUEST"
| "GetMessageType (LiveRenderPassesResponse _) = LIVE_RENDER_PASSES_RESPONSE"
| "GetMessageType (DisableTimestampRequest _) = DISABLE_TIMESTAMP_REQUEST"
| "GetMessageType DisableTimestampResponse = DISABLE_TIMESTAMP_RESPONSE"

section \<open>Serialize\<close>

text \<open>Every override but \<^verbatim>\<open>EmptyMessage\<close> first clears the destination.\<close>

definition HandshakeMessage_Serialize :: "HandshakeMessage \<Rightarrow> buffer \<Rightarrow> buffer" where
  "HandshakeMessage_Serialize m dest =
     (let dest = [];
          dest = WriteUint32ToBuffer (m_major_version m) dest
      in WriteUint32ToBuffer (m_minor_version m) dest)"

definition EmptyMessage_Serialize :: "buffer \<Rightarrow> buffer" where
  "EmptyMessage_Serialize dest = dest"

definition StringMessage_Serialize :: "string \<Rightarrow> buffer \<Rightarrow> buffer" where
  "StringMessage_Serialize m_str dest = (let dest = [] in WriteStringToBuffer m_str dest)"

definition RemoveFileResponse_Serialize :: "RemoveFileResponse \<Rightarrow> buffer \<Rightarrow> buffer" where
  "RemoveFileResponse_Serialize m dest =
     (let dest = [];
          dest = WriteStringToBuffer (rf_error_reason m) dest
      in WriteBoolToBuffer (rf_success m) dest)"

definition DownloadFileResponse_Serialize :: "DownloadFileResponse \<Rightarrow> buffer \<Rightarrow> buffer" where
  "DownloadFileResponse_Serialize m dest =
     (let dest = [];
          dest = WriteBoolToBuffer (df_found m) dest;
          dest = WriteStringToBuffer (df_error_reason m) dest;
          dest = WriteStringToBuffer (df_file_path m) dest
      in WriteUint64ToBuffer (df_file_size m) dest)"

definition FileSizeResponse_Serialize :: "FileSizeResponse \<Rightarrow> buffer \<Rightarrow> buffer" where
  "FileSizeResponse_Serialize m dest =
     (let dest = [];
          dest = WriteBoolToBuffer (fs_found m) dest;
          dest = WriteStringToBuffer (fs_error_reason m) dest
      in WriteUint64ToBuffer (fs_file_size m) dest)"

definition DrawcallFilterConfigRequest_Serialize ::
    "DrawcallFilterConfigRequest \<Rightarrow> buffer \<Rightarrow> buffer" where
  "DrawcallFilterConfigRequest_Serialize m dest =
     (let dest = [];
          dest = WriteStringToBuffer (m_target_render_pass_name m) dest;
          dest = WriteUint32ToBuffer (m_vertex_count m) dest;
          dest = WriteUint32ToBuffer (m_index_count m) dest;
          dest = WriteUint32ToBuffer (m_instance_count m) dest;
          dest = WriteUint32ToBuffer (m_max_drawcalls m) dest;
          dest = WriteBoolToBuffer (m_filter_by_vertex_count m) dest;
          dest = WriteBoolToBuffer (m_filter_by_index_count m) dest;
          dest = WriteBoolToBuffer (m_filter_by_instance_count m) dest;
          dest = WriteBoolToBuffer (m_enable_drawcall_limit m) dest;
          dest = WriteBoolToBuffer (m_filter_by_alpha_blended m) dest
      in WriteBoolToBuffer (m_filter_by_render_pass m) dest)"

definition write_PSOInfo :: "PSOInfo \<Rightarrow> buffer \<Rightarrow> buffer" where
  "write_PSOInfo pso dest =
     (let dest = WriteStringToBuffer (pso_name pso) dest;
          dest = WriteUint64ToBuffer (pipeline_handle pso) dest
      in WriteBoolToBuffer (has_alpha_blend pso) dest)"

definition LivePSOsResponse_Serialize :: "PSOInfo list \<Rightarrow> buffer \<Rightarrow> buffer" where
  "LivePSOsResponse_Serialize m_psos dest =
     (let dest = [];
          dest = WriteUint32ToBuffer (word_of_nat (length m_psos)) dest
      in fold write_PSOInfo m_psos dest)"

definition write_RenderPassInfo :: "RenderPassInfo \<Rightarrow> buffer \<Rightarrow> buffer" where
  "write_RenderPassInfo rp dest =
     (let dest = WriteStringToBuffer (rp_name rp) dest
      in WriteUint64ToBuffer (render_pass_handle rp) dest)"

definition LiveRenderPassesResponse_Serialize :: "RenderPassInfo list \<Rightarrow> buffer \<Rightarrow> buffer" where
  "LiveRenderPassesResponse_Serialize m_rps dest =
     (let dest = [];
          dest = WriteUint32ToBuffer (word_of_nat (length m_rps)) dest
      in fold write_RenderPassInfo m_rps dest)"

definition DisableTimestampRequest_Serialize :: "bool \<Rightarrow> buffer \<Rightarrow> buffer" where
  "DisableTimestampRequest_Serialize m_disable dest =
     (let dest = [] in WriteBoolToBuffer m_disable dest)"

text \<open>Dynamic dispatch of \<^verbatim>\<open>ISerializable::Serialize\<close>; every override returns an OK status.\<close>

fun Serialize :: "message \<Rightarrow> buffer \<Rightarrow> buffer status_or" where
  "Serialize (HandshakeRequest m) dest = Inr (HandshakeMessage_Serialize m dest)"
| "Serialize (HandshakeResponse m) dest = Inr (HandshakeMessage_Serialize m dest)"
| "Serialize PingMessage dest = Inr (EmptyMessage_Serialize dest)"
| "Serialize PongMessage dest = Inr (EmptyMessage_Serialize dest)"
| "Serialize Pm4CaptureRequest dest = Inr (EmptyMessage_Serialize dest)"
| "Serialize (Pm4CaptureResponse s) dest = Inr (StringMessage_Serialize s dest)"
| "Serialize (DownloadFileRequest s) dest = Inr (StringMessage_Serialize s dest)"
| "Serialize (DownloadFileResponseMsg m) dest = Inr (DownloadFileResponse_Serialize m dest)"
| "Serialize (FileSizeRequest s) dest = Inr (StringMessage_Serialize s dest)"
| "Serialize (FileSizeResponseMsg m) dest = Inr (FileSizeResponse_Serialize m dest)"
| "Serialize (RemoveFileRequest s) dest = Inr (StringMessage_Serialize s dest)"
| "Serialize (RemoveFileResponseMsg m) dest = Inr (RemoveFileResponse_Serialize m dest)"
| "Serialize (DrawcallFilterConfigRequestMsg m) dest =
     Inr (DrawcallFilterConfigRequest_Serialize m dest)"
| "Serialize DrawcallFilterConfigResponse dest = Inr (EmptyMessage_Serialize dest)"
| "Serialize LivePSOsRequest dest = Inr (EmptyMessage_Serialize dest)"
| "Serialize (LivePSOsResponse psos) dest = Inr (LivePSOsResponse_Serialize psos dest)"
| "Serialize LiveRenderPassesRequest dest = Inr (EmptyMessage_Serialize dest)"
| "Serialize (LiveRenderPassesResponse rps) dest =
     Inr (LiveRenderPassesResponse_Serialize rps dest)"
| "Serialize (DisableTimestampRequest b) dest = Inr (DisableTimestampRequest_Serialize b dest)"
| "Serialize DisableTimestampResponse dest = Inr (EmptyMessage_Serialize dest)"

section \<open>Deserialize\<close>

text \<open>
  The field readers of each class, in the order of its \<^verbatim>\<open>ASSIGN_OR_RETURN\<close> lines; the
  \<^verbatim>\<open>Deserialize\<close> method runs them from offset 0 and rejects trailing data.
\<close>

definition HandshakeMessage_fields :: "HandshakeMessage reader" where
  "HandshakeMessage_fields =
     assign_or_return ReadUint32FromBuffer (\<lambda>major.
     assign_or_return ReadUint32FromBuffer (\<lambda>minor.
     return_value \<lparr>m_major_version = major, m_minor_version = minor\<rparr>))"

definition HandshakeMessage_Deserialize :: "buffer \<Rightarrow> HandshakeMessage status_or" where
  "HandshakeMessage_Deserialize =
     read_whole ''Handshake message has unexpected trailing data.'' HandshakeMessage_fields"

text \<open>\<^verbatim>\<open>EmptyMessage::Deserialize\<close> accepts any payload.\<close>

definition EmptyMessage_Deserialize :: "buffer \<Rightarrow> unit status_or" where
  "EmptyMessage_Deserialize src = OkStatus"

definition StringMessage_Deserialize :: "buffer \<Rightarrow> string status_or" where
  "StringMessage_Deserialize =
     read_whole ''String message has unexpected trailing data.'' ReadStringFromBuffer"

definition RemoveFileResponse_fields :: "RemoveFileResponse reader" where
  "RemoveFileResponse_fields =
     assign_or_return ReadStringFromBuffer (\<lambda>error_reason.
     assign_or_return ReadBoolFromBuffer (\<lambda>success.
     return_value \<lparr>rf_error_reason = error_reason, rf_success = success\<rparr>))"

definition RemoveFileResponse_Deserialize :: "buffer \<Rightarrow> RemoveFileResponse status_or" where
  "RemoveFileResponse_Deserialize =
     read_whole ''RemoveFileResponse has unexpected trailing data.'' RemoveFileResponse_fields"

definition DownloadFileResponse_fields :: "DownloadFileResponse reader" where
  "DownloadFileResponse_fields =
     assign_or_return ReadBoolFromBuffer (\<lambda>found.
     assign_or_return ReadStringFromBuffer (\<lambda>error_reason.
     assign_or_return ReadStringFromBuffer (\<lambda>file_path.
     assign_or_return ReadUint64FromBuffer (\<lambda>file_size.
     return_value \<lparr>df_found = found, df_error_reason = error_reason,
       df_file_path = file_path, df_file_size = file_size\<rparr>))))"

definition DownloadFileResponse_Deserialize :: "buffer \<Rightarrow> DownloadFileResponse status_or" where
  "DownloadFileResponse_Deserialize =
     read_whole ''Message has unexpected trailing data.'' DownloadFileResponse_fields"

definition FileSizeResponse_fields :: "FileSizeResponse reader" where
  "FileSizeResponse_fields =
     assign_or_return ReadBoolFromBuffer (\<lambda>found.
     assign_or_return ReadStringFromBuffer (\<lambda>error_reason.
     assign_or_return ReadUint64FromBuffer (\<lambda>file_size.
     return_value \<lparr>fs_found = found, fs_error_reason = error_reason,
       fs_file_size = file_size\<rparr>)))"

definition FileSizeResponse_Deserialize :: "buffer \<Rightarrow> FileSizeResponse status_or" where
  "FileSizeResponse_Deserialize =
     read_whole ''Message has unexpected trailing data.'' FileSizeResponse_fields"

definition DrawcallFilterConfigRequest_fields :: "DrawcallFilterConfigRequest reader" where
  "DrawcallFilterConfigRequest_fields =
     assign_or_return ReadStringFromBuffer (\<lambda>name.
     assign_or_return ReadUint32FromBuffer (\<lambda>vertex_count.
     assign_or_return ReadUint32FromBuffer (\<lambda>index_count.
     assign_or_return ReadUint32FromBuffer (\<lambda>instance_count.
     assign_or_return ReadUint32FromBuffer (\<lambda>max_drawcalls.
     assign_or_return ReadBoolFromBuffer (\<lambda>by_vertex.
     assign_or_return ReadBoolFromBuffer (\<lambda>by_index.
     assign_or_return ReadBoolFromBuffer (\<lambda>by_instance.
     assign_or_return ReadBoolFromBuffer (\<lambda>limit.
     assign_or_return ReadBoolFromBuffer (\<lambda>by_alpha.
     assign_or_return ReadBoolFromBuffer (\<lambda>by_rp.
     return_value \<lparr>m_target_render_pass_name = name, m_vertex_count = vertex_count,
       m_index_count = index_count, m_instance_count = instance_count,
       m_max_drawcalls = max_drawcalls, m_filter_by_vertex_count = by_vertex,
       m_filter_by_index_count = by_index, m_filter_by_instance_count = by_instance,
       m_enable_drawcall_limit = limit, m_filter_by_alpha_blended = by_alpha,
       m_filter_by_render_pass = by_rp\<rparr>)))))))))))"

definition DrawcallFilterConfigRequest_Deserialize ::
    "buffer \<Rightarrow> DrawcallFilterConfigRequest status_or" where
  "DrawcallFilterConfigRequest_Deserialize =
     read_whole ''DrawcallFilteringRequest has unexpected trailing data.''
       DrawcallFilterConfigRequest_fields"

definition read_PSOInfo :: "PSOInfo reader" where
  "read_PSOInfo =
     assign_or_return ReadStringFromBuffer (\<lambda>name.
     assign_or_return ReadUint64FromBuffer (\<lambda>handle.
     assign_or_return ReadBoolFromBuffer (\<lambda>alpha.
     return_value \<lparr>pso_name = name, pipeline_handle = handle, has_alpha_blend = alpha\<rparr>)))"

definition LivePSOsResponse_fields :: "PSOInfo list reader" where
  "LivePSOsResponse_fields =
     assign_or_return ReadUint32FromBuffer (\<lambda>count. read_elements read_PSOInfo (unat count))"

definition LivePSOsResponse_Deserialize :: "buffer \<Rightarrow> PSOInfo list status_or" where
  "LivePSOsResponse_Deserialize =
     read_whole ''LivePSOsResponse has unexpected trailing data.'' LivePSOsResponse_fields"

definition read_RenderPassInfo :: "RenderPassInfo reader" where
  "read_RenderPassInfo =
     assign_or_return ReadStringFromBuffer (\<lambda>name.
     assign_or_return ReadUint64FromBuffer (\<lambda>handle.
     return_value \<lparr>rp_name = name, render_pass_handle = handle\<rparr>))"

definition LiveRenderPassesResponse_fields :: "RenderPassInfo list reader" where
  "LiveRenderPassesResponse_fields =
     assign_or_return ReadUint32FromBuffer
       (\<lambda>count. read_elements read_RenderPassInfo (unat count))"

definition LiveRenderPassesResponse_Deserialize :: "buffer \<Rightarrow> RenderPassInfo list status_or" where
  "LiveRenderPassesResponse_Deserialize =
     read_whole ''LiveRenderPassesResponse has unexpected trailing data.''
       LiveRenderPassesResponse_fields"

definition DisableTimestampRequest_Deserialize :: "buffer \<Rightarrow> bool status_or" where
  "DisableTimestampRequest_Deserialize =
     read_whole ''DisableTimestampRequest has unexpected trailing data.'' ReadBoolFromBuffer"

text \<open>
  The switch of \<^verbatim>\<open>ReceiveSocketMessage\<close>: the 32-bit type selects the class to create, and its
  \<^verbatim>\<open>Deserialize\<close> is run on the payload. \<open>None\<close> is the \<^verbatim>\<open>default\<close> branch (unknown type).
\<close>

definition deserialize_as :: "u32 \<Rightarrow> buffer \<Rightarrow> message status_or option" where
  "deserialize_as type payload =
    (if type = 1 then
       Some (map_sum id HandshakeRequest (HandshakeMessage_Deserialize payload))
     else if type = 2 then
       Some (map_sum id HandshakeResponse (HandshakeMessage_Deserialize payload))
     else if type = 3 then
       Some (map_sum id (\<lambda>_. PingMessage) (EmptyMessage_Deserialize payload))
     else if type = 4 then
       Some (map_sum id (\<lambda>_. PongMessage) (EmptyMessage_Deserialize payload))
     else if type = 5 then
       Some (map_sum id (\<lambda>_. Pm4CaptureRequest) (EmptyMessage_Deserialize payload))
     else if type = 6 then
       Some (map_sum id Pm4CaptureResponse (StringMessage_Deserialize payload))
     else if type = 7 then
       Some (map_sum id DownloadFileRequest (StringMessage_Deserialize payload))
     else if type = 8 then
       Some (map_sum id DownloadFileResponseMsg (DownloadFileResponse_Deserialize payload))
     else if type = 9 then
       Some (map_sum id FileSizeRequest (StringMessage_Deserialize payload))
     else if type = 10 then
       Some (map_sum id FileSizeResponseMsg (FileSizeResponse_Deserialize payload))
     else if type = 11 then
       Some (map_sum id RemoveFileRequest (StringMessage_Deserialize payload))
     else if type = 12 then
       Some (map_sum id RemoveFileResponseMsg (RemoveFileResponse_Deserialize payload))
     else if type = 13 then
       Some (map_sum id DrawcallFilterConfigRequestMsg
         (DrawcallFilterConfigRequest_Deserialize payload))
     else if type = 14 then
       Some (map_sum id (\<lambda>_. DrawcallFilterConfigResponse) (EmptyMessage_Deserialize payload))
     else if type = 15 then
       Some (map_sum id (\<lambda>_. LivePSOsRequest) (EmptyMessage_Deserialize payload))
     else if type = 16 then
       Some (map_sum id LivePSOsResponse (LivePSOsResponse_Deserialize payload))
     else if type = 17 then
       Some (map_sum id (\<lambda>_. LiveRenderPassesRequest) (EmptyMessage_Deserialize payload))
     else if type = 18 then
       Some (map_sum id LiveRenderPassesResponse (LiveRenderPassesResponse_Deserialize payload))
     else if type = 19 then
       Some (map_sum id DisableTimestampRequest (DisableTimestampRequest_Deserialize payload))
     else if type = 20 then
       Some (map_sum id (\<lambda>_. DisableTimestampResponse) (EmptyMessage_Deserialize payload))
     else None)"

section \<open>Each message is a codec\<close>

text \<open>What a value must satisfy for its 32-bit length fields to be exact.\<close>

definition psos_ok :: "PSOInfo list \<Rightarrow> bool" where
  "psos_ok = (\<lambda>psos. length psos < 2 ^ 32 \<and> list_all (\<lambda>p. string_ok (pso_name p)) psos)"

definition render_passes_ok :: "RenderPassInfo list \<Rightarrow> bool" where
  "render_passes_ok = (\<lambda>rps. length rps < 2 ^ 32 \<and> list_all (\<lambda>r. string_ok (rp_name r)) rps)"

lemmas serialize_defs =
  HandshakeMessage_Serialize_def StringMessage_Serialize_def RemoveFileResponse_Serialize_def
  DownloadFileResponse_Serialize_def FileSizeResponse_Serialize_def
  DrawcallFilterConfigRequest_Serialize_def write_PSOInfo_def write_RenderPassInfo_def
  DisableTimestampRequest_Serialize_def

lemmas fields_defs =
  HandshakeMessage_fields_def RemoveFileResponse_fields_def DownloadFileResponse_fields_def
  FileSizeResponse_fields_def DrawcallFilterConfigRequest_fields_def read_PSOInfo_def
  read_RenderPassInfo_def

text \<open>Goals of the shape \<open>parses fields (enc_1 @ \<dots> @ enc_n) record\<close> go field by field.\<close>

lemma parses_field:
  "parses r bs x \<Longrightarrow> parses (k x) cs y \<Longrightarrow> parses (assign_or_return r k) (bs @ cs) y"
  by (rule parses_bind)

lemma parses_last_field:
  "parses r bs x \<Longrightarrow> k x = return_value y \<Longrightarrow> parses (assign_or_return r k) bs y"
  by (rule parses_bind_last) (auto intro: parses_return)

lemmas parses_rules = parses_field parses_last_field parses_bool parses_u32 parses_u64
  parses_string refl

lemmas codec_simps = serialize_defs fields_defs write_simps assign_or_return_Inr

interpretation handshake: wire_codec HandshakeMessage_fields
  "\<lambda>m. HandshakeMessage_Serialize m []" "\<lambda>_. True"
proof unfold_locales
  fix m :: HandshakeMessage
  show "parses HandshakeMessage_fields (HandshakeMessage_Serialize m []) m"
    by (cases m, simp add: serialize_defs fields_defs write_simps) (rule parses_rules)+
next
  show "consumes HandshakeMessage_fields (\<lambda>m. HandshakeMessage_Serialize m []) (\<lambda>_. True)"
    unfolding consumes_def by (auto simp: codec_simps dest!: codec_dests)
qed

interpretation remove_file: wire_codec RemoveFileResponse_fields
  "\<lambda>m. RemoveFileResponse_Serialize m []" "\<lambda>m. string_ok (rf_error_reason m)"
proof unfold_locales
  fix m :: RemoveFileResponse
  assume "string_ok (rf_error_reason m)"
  then show "parses RemoveFileResponse_fields (RemoveFileResponse_Serialize m []) m"
    by (cases m, simp add: serialize_defs fields_defs write_simps) (rule parses_rules | assumption)+
next
  show "consumes RemoveFileResponse_fields (\<lambda>m. RemoveFileResponse_Serialize m [])
      (\<lambda>m. string_ok (rf_error_reason m))"
    unfolding consumes_def by (auto simp: codec_simps dest!: codec_dests)
qed

definition download_ok :: "DownloadFileResponse \<Rightarrow> bool" where
  "download_ok m \<longleftrightarrow> string_ok (df_error_reason m) \<and> string_ok (df_file_path m)"

interpretation download: wire_codec DownloadFileResponse_fields
  "\<lambda>m. DownloadFileResponse_Serialize m []" download_ok
proof unfold_locales
  fix m :: DownloadFileResponse
  assume "download_ok m"
  then show "parses DownloadFileResponse_fields (DownloadFileResponse_Serialize m []) m"
    by (cases m, simp add: download_ok_def serialize_defs fields_defs write_simps)
      (elim conjE, (rule parses_rules | assumption)+)
next
  show "consumes DownloadFileResponse_fields (\<lambda>m. DownloadFileResponse_Serialize m []) download_ok"
    unfolding consumes_def by (auto simp: download_ok_def codec_simps dest!: codec_dests)
qed

interpretation file_size: wire_codec FileSizeResponse_fields
  "\<lambda>m. FileSizeResponse_Serialize m []" "\<lambda>m. string_ok (fs_error_reason m)"
proof unfold_locales
  fix m :: FileSizeResponse
  assume "string_ok (fs_error_reason m)"
  then show "parses FileSizeResponse_fields (FileSizeResponse_Serialize m []) m"
    by (cases m, simp add: serialize_defs fields_defs write_simps) (rule parses_rules | assumption)+
next
  show "consumes FileSizeResponse_fields (\<lambda>m. FileSizeResponse_Serialize m [])
      (\<lambda>m. string_ok (fs_error_reason m))"
    unfolding consumes_def by (auto simp: codec_simps dest!: codec_dests)
qed

interpretation filter_config: wire_codec DrawcallFilterConfigRequest_fields
  "\<lambda>m. DrawcallFilterConfigRequest_Serialize m []"
  "\<lambda>m. string_ok (m_target_render_pass_name m)"
proof unfold_locales
  fix m :: DrawcallFilterConfigRequest
  assume "string_ok (m_target_render_pass_name m)"
  then show "parses DrawcallFilterConfigRequest_fields
      (DrawcallFilterConfigRequest_Serialize m []) m"
    by (cases m, simp add: serialize_defs fields_defs write_simps) (rule parses_rules | assumption)+
next
  show "consumes DrawcallFilterConfigRequest_fields
      (\<lambda>m. DrawcallFilterConfigRequest_Serialize m [])
      (\<lambda>m. string_ok (m_target_render_pass_name m))"
    unfolding consumes_def by (auto simp: codec_simps dest!: codec_dests)
qed

interpretation pso: wire_codec read_PSOInfo
  "\<lambda>p. write_PSOInfo p []" "\<lambda>p. string_ok (pso_name p)"
proof unfold_locales
  fix p :: PSOInfo
  assume "string_ok (pso_name p)"
  then show "parses read_PSOInfo (write_PSOInfo p []) p"
    by (cases p, simp add: serialize_defs fields_defs write_simps) (rule parses_rules | assumption)+
next
  show "consumes read_PSOInfo (\<lambda>p. write_PSOInfo p []) (\<lambda>p. string_ok (pso_name p))"
    unfolding consumes_def by (auto simp: codec_simps dest!: codec_dests)
qed

interpretation render_pass: wire_codec read_RenderPassInfo
  "\<lambda>r. write_RenderPassInfo r []" "\<lambda>r. string_ok (rp_name r)"
proof unfold_locales
  fix r :: RenderPassInfo
  assume "string_ok (rp_name r)"
  then show "parses read_RenderPassInfo (write_RenderPassInfo r []) r"
    by (cases r, simp add: serialize_defs fields_defs write_simps) (rule parses_rules | assumption)+
next
  show "consumes read_RenderPassInfo (\<lambda>r. write_RenderPassInfo r []) (\<lambda>r. string_ok (rp_name r))"
    unfolding consumes_def by (auto simp: codec_simps dest!: codec_dests)
qed

section \<open>Counted vectors\<close>

text \<open>
  A 32-bit count followed by the elements: the shape of the two \<^verbatim>\<open>Live...Response\<close> messages, built
  once from any element codec.
\<close>

context wire_codec
begin

lemma parses_counted:
  assumes "length xs < 2 ^ 32" and "list_all ok xs"
  shows "parses (assign_or_return ReadUint32FromBuffer (\<lambda>count. read_elements rd (unat count)))
    (enc_u32 (word_of_nat (length xs)) @ concat (map enc xs)) xs"
proof (rule parses_bind [OF parses_u32])
  have "unat (word_of_nat (length xs) :: u32) = length xs"
    using assms(1) by (simp add: unat_of_nat)
  then show "parses (read_elements rd (unat (word_of_nat (length xs) :: u32)))
      (concat (map enc xs)) xs"
    using assms(2) by (intro parses_elements rd_enc) (auto simp: list_all_iff)
qed

lemma consumes_counted:
  "consumes (assign_or_return ReadUint32FromBuffer (\<lambda>count. read_elements rd (unat count)))
     (\<lambda>xs. enc_u32 (word_of_nat (length xs)) @ concat (map enc xs))
     (\<lambda>xs. length xs < 2 ^ 32 \<and> list_all ok xs)"
  unfolding consumes_def
proof (intro allI impI)
  fix src off xs off'
  assume le: "off \<le> length src"
    and "assign_or_return ReadUint32FromBuffer (\<lambda>count. read_elements rd (unat count)) src off =
      Inr (xs, off')"
  then obtain count off1 where c: "ReadUint32FromBuffer src off = Inr (count, off1)"
    and e: "read_elements rd (unat count) src off1 = Inr (xs, off')"
    by (auto simp: assign_or_return_Inr)
  note cD = consumes_u32D [OF c le]
  note eD = consumesD [OF consumes_elements [OF rd_consumes] e cD(3)]
  have "unat count < 2 ^ 32"
    using unsigned_less [of count] by simp
  then show "(length xs < 2 ^ 32 \<and> list_all ok xs) \<and>
      off' = off + length (enc_u32 (word_of_nat (length xs)) @ concat (map enc xs)) \<and>
      off' \<le> length src"
    using cD eD by simp
qed

end

lemma fold_write_PSOInfo: "fold write_PSOInfo ps d = d @ concat (map (\<lambda>p. write_PSOInfo p []) ps)"
  by (induction ps arbitrary: d) (simp_all add: write_PSOInfo_def write_simps)

lemma fold_write_RenderPassInfo:
  "fold write_RenderPassInfo rs d = d @ concat (map (\<lambda>r. write_RenderPassInfo r []) rs)"
  by (induction rs arbitrary: d) (simp_all add: write_RenderPassInfo_def write_simps)

lemma LivePSOsResponse_Serialize_eq:
  "LivePSOsResponse_Serialize ps d =
     enc_u32 (word_of_nat (length ps)) @ concat (map (\<lambda>p. write_PSOInfo p []) ps)"
  by (simp add: LivePSOsResponse_Serialize_def fold_write_PSOInfo)

lemma LiveRenderPassesResponse_Serialize_eq:
  "LiveRenderPassesResponse_Serialize rs d =
     enc_u32 (word_of_nat (length rs)) @ concat (map (\<lambda>r. write_RenderPassInfo r []) rs)"
  by (simp add: LiveRenderPassesResponse_Serialize_def fold_write_RenderPassInfo)

interpretation live_psos: wire_codec LivePSOsResponse_fields
  "\<lambda>ps. LivePSOsResponse_Serialize ps []" psos_ok
  unfolding psos_ok_def LivePSOsResponse_Serialize_eq LivePSOsResponse_fields_def
  by unfold_locales (blast intro: pso.parses_counted pso.consumes_counted)+

interpretation live_render_passes: wire_codec LiveRenderPassesResponse_fields
  "\<lambda>rs. LiveRenderPassesResponse_Serialize rs []" render_passes_ok
  unfolding render_passes_ok_def LiveRenderPassesResponse_Serialize_eq
    LiveRenderPassesResponse_fields_def
  by unfold_locales (blast intro: render_pass.parses_counted render_pass.consumes_counted)+

interpretation string_message: wire_codec ReadStringFromBuffer
  "\<lambda>s. StringMessage_Serialize s []" string_ok
  by unfold_locales (simp_all add: StringMessage_Serialize_def parses_string consumes_string)

interpretation disable_timestamp: wire_codec ReadBoolFromBuffer
  "\<lambda>b. DisableTimestampRequest_Serialize b []" "\<lambda>_. True"
  by unfold_locales
    (simp_all add: DisableTimestampRequest_Serialize_def parses_bool consumes_bool)

section \<open>The whole message type\<close>

fun message_ok :: "message \<Rightarrow> bool" where
  "message_ok (Pm4CaptureResponse s) = string_ok s"
| "message_ok (DownloadFileRequest s) = string_ok s"
| "message_ok (DownloadFileResponseMsg m) = download_ok m"
| "message_ok (FileSizeRequest s) = string_ok s"
| "message_ok (FileSizeResponseMsg m) = string_ok (fs_error_reason m)"
| "message_ok (RemoveFileRequest s) = string_ok s"
| "message_ok (RemoveFileResponseMsg m) = string_ok (rf_error_reason m)"
| "message_ok (DrawcallFilterConfigRequestMsg m) = string_ok (m_target_render_pass_name m)"
| "message_ok (LivePSOsResponse psos) = psos_ok psos"
| "message_ok (LiveRenderPassesResponse rps) = render_passes_ok rps"
| "message_ok _ = True"

lemmas deserialize_defs =
  HandshakeMessage_Deserialize_def EmptyMessage_Deserialize_def StringMessage_Deserialize_def
  RemoveFileResponse_Deserialize_def DownloadFileResponse_Deserialize_def
  FileSizeResponse_Deserialize_def DrawcallFilterConfigRequest_Deserialize_def
  LivePSOsResponse_Deserialize_def LiveRenderPassesResponse_Deserialize_def
  DisableTimestampRequest_Deserialize_def

lemmas whole_enc =
  handshake.rd_whole_enc remove_file.rd_whole_enc download.rd_whole_enc file_size.rd_whole_enc
  filter_config.rd_whole_enc live_psos.rd_whole_enc live_render_passes.rd_whole_enc
  string_message.rd_whole_enc disable_timestamp.rd_whole_enc

lemmas whole_ok =
  remove_file.rd_whole_ok(1) download.rd_whole_ok(1) file_size.rd_whole_ok(1)
  filter_config.rd_whole_ok(1) live_psos.rd_whole_ok(1) live_render_passes.rd_whole_ok(1)
  string_message.rd_whole_ok(1)

lemma Serialize_total: "\<exists>bs. Serialize m dest = Inr bs"
  by (cases m) simp_all

lemma deserialize_Serialize:
  assumes "message_ok m" and "Serialize m [] = Inr bs"
  shows "deserialize_as (MessageType_value (GetMessageType m)) bs = Some (Inr m)"
  using assms
  by (cases m) (auto simp: deserialize_as_def deserialize_defs whole_enc)

lemma deserialize_as_ok:
  assumes "deserialize_as type bs = Some (Inr m)"
  shows "message_ok m" and "MessageType_value (GetMessageType m) = type"
  using assms unfolding deserialize_as_def deserialize_defs
  by (auto split: if_splits sum.splits simp: map_sum_def dest: whole_ok)

text \<open>
  A serialized message holds all its strings and elements, so a buffer below \<open>2^32\<close> bytes can only
  come from a message whose length fields are exact.
\<close>

lemma concat_map_bounds:
  assumes "\<And>x. x \<in> set xs \<Longrightarrow> 1 \<le> length (f x)"
  shows "length xs \<le> length (concat (map f xs))"
    and "x \<in> set xs \<Longrightarrow> length (f x) \<le> length (concat (map f xs))"
proof -
  show "length xs \<le> length (concat (map f xs))"
    using assms
  proof (induction xs)
    case Nil
    then show ?case by simp
  next
    case (Cons a xs)
    then have "length xs \<le> length (concat (map f xs))" and "1 \<le> length (f a)"
      by (simp_all del: One_nat_def)
    then show ?case by simp
  qed
  show "x \<in> set xs \<Longrightarrow> length (f x) \<le> length (concat (map f xs))"
    by (induction xs) auto
qed

lemma psos_size:
  assumes "length (LivePSOsResponse_Serialize psos d) < 2 ^ 32"
  shows "psos_ok psos"
proof -
  let ?f = "\<lambda>p. write_PSOInfo p []"
  have len: "length (?f p) = 13 + length (pso_name p)" for p
    by (simp add: write_PSOInfo_def write_simps)
  have "length (concat (map ?f psos)) < 2 ^ 32"
    using assms by (simp add: LivePSOsResponse_Serialize_eq)
  with concat_map_bounds [of psos ?f] show ?thesis
    by (fastforce simp: psos_ok_def list_all_iff string_ok_def len)
qed

lemma render_passes_size:
  assumes "length (LiveRenderPassesResponse_Serialize rps d) < 2 ^ 32"
  shows "render_passes_ok rps"
proof -
  let ?f = "\<lambda>r. write_RenderPassInfo r []"
  have len: "length (?f r) = 12 + length (rp_name r)" for r
    by (simp add: write_RenderPassInfo_def write_simps)
  have "length (concat (map ?f rps)) < 2 ^ 32"
    using assms by (simp add: LiveRenderPassesResponse_Serialize_eq)
  with concat_map_bounds [of rps ?f] show ?thesis
    by (fastforce simp: render_passes_ok_def list_all_iff string_ok_def len)
qed

lemma message_size_ok:
  assumes "Serialize m [] = Inr bs" and "length bs < 2 ^ 32"
  shows "message_ok m"
  using assms
  by (cases m) (auto simp: serialize_defs write_simps string_ok_def download_ok_def
      intro!: psos_size render_passes_size)

lemmas whole_trailing =
  handshake.rd_whole_trailing remove_file.rd_whole_trailing download.rd_whole_trailing
  file_size.rd_whole_trailing filter_config.rd_whole_trailing live_psos.rd_whole_trailing
  live_render_passes.rd_whole_trailing string_message.rd_whole_trailing
  disable_timestamp.rd_whole_trailing

text \<open>Bytes after a message that has fields are an error; messages without fields ignore them.\<close>

lemma deserialize_trailing:
  assumes "message_ok m" and "Serialize m [] = Inr bs" and "bs \<noteq> []" and "extra \<noteq> []"
  shows "\<exists>e. deserialize_as (MessageType_value (GetMessageType m)) (bs @ extra) = Some (Inl e)"
  using assms
  by (cases m) (auto simp: deserialize_as_def deserialize_defs whole_trailing status_defs
      EmptyMessage_Serialize_def)

end
