(* ===== verification/Net_Socket.thy ===== *)
theory Net_Socket
  imports Dive_Prelude
begin

text \<open>
  \<^verbatim>\<open>network/socket_connection.cc\<close> (the POSIX branches): the state of a \<^verbatim>\<open>SocketConnection\<close> and its
  operations.

  The operating system is a parameter: the record \<open>'w os\<close> holds the system calls and file-stream
  operations the code uses, as functions on an opaque world \<open>'w\<close> that they may change. What the
  properties rely on is stated by \<open>stream_laws\<close> (the documented behaviour of a connected stream
  socket: bytes are appended to and taken from two queues, in order) and \<open>readable_laws\<close> (data that
  has arrived is reported by \<open>poll\<close> and delivered by \<open>recv\<close>).

  Each operation maps the connection and the world to a result, the new connection and the new
  world. The loops are recursive functions over the number of bytes transferred so far.
\<close>

section \<open>The operating system as a parameter\<close>

datatype errno = EAGAIN | EWOULDBLOCK | EPIPE | ECONNRESET | OtherErrno nat

text \<open>Outcome of \<open>poll\<close> on one descriptor: negative, zero, or an event set with or without \<open>POLLIN\<close>.\<close>

datatype poll_result = PollError errno | PollTimeout | PollEvents bool

type_synonym addrinfo = nat

record 'w os =
  strerror :: "errno \<Rightarrow> string"
  sys_socket :: "'w \<Rightarrow> (errno + int) \<times> 'w"
  sys_bind :: "int \<Rightarrow> string \<Rightarrow> 'w \<Rightarrow> (errno + unit) \<times> 'w"
  sys_listen :: "int \<Rightarrow> 'w \<Rightarrow> (errno + unit) \<times> 'w"
  sys_accept :: "int \<Rightarrow> 'w \<Rightarrow> (errno + int) \<times> 'w"
  sys_getaddrinfo :: "string \<Rightarrow> string \<Rightarrow> 'w \<Rightarrow> (string + addrinfo list) \<times> 'w"
  sys_socket_for :: "addrinfo \<Rightarrow> 'w \<Rightarrow> (errno + int) \<times> 'w"
  sys_connect :: "int \<Rightarrow> addrinfo \<Rightarrow> 'w \<Rightarrow> (errno + unit) \<times> 'w"
  sys_send :: "int \<Rightarrow> buffer \<Rightarrow> 'w \<Rightarrow> (errno + nat) \<times> 'w"
  sys_poll :: "int \<Rightarrow> int \<Rightarrow> 'w \<Rightarrow> poll_result \<times> 'w"
  sys_recv :: "int \<Rightarrow> nat \<Rightarrow> 'w \<Rightarrow> (errno + buffer) \<times> 'w"
  sys_shutdown_close :: "int \<Rightarrow> 'w \<Rightarrow> 'w"
  ifstream_open_size :: "string \<Rightarrow> 'w \<Rightarrow> int option"
  ifstream_read :: "string \<Rightarrow> nat \<Rightarrow> nat \<Rightarrow> 'w \<Rightarrow> buffer option"
  ofstream_open :: "string \<Rightarrow> 'w \<Rightarrow> bool \<times> 'w"
  ofstream_write :: "string \<Rightarrow> buffer \<Rightarrow> 'w \<Rightarrow> bool \<times> 'w"

section \<open>Connection state\<close>

record SocketConnection =
  m_socket :: int
  m_is_listening :: bool
  m_accept_timout_ms :: int

definition kInvalidSocketValue :: int where
  "kInvalidSocketValue = -1"

definition kNoTimeout :: int where
  "kNoTimeout = -1"

definition kAcceptTimeout :: int where
  "kAcceptTimeout = 2000"

text \<open>The constructor; \<^verbatim>\<open>Create\<close> only adds the WinSock start-up check, which is true on POSIX.\<close>

definition SocketConnection_new :: "int \<Rightarrow> SocketConnection" where
  "SocketConnection_new initial_socket_value =
     \<lparr>m_socket = initial_socket_value, m_is_listening = False,
      m_accept_timout_ms = kAcceptTimeout\<rparr>"

definition IsOpen :: "SocketConnection \<Rightarrow> bool" where
  "IsOpen c \<longleftrightarrow> m_socket c \<noteq> kInvalidSocketValue"

type_synonym ('a, 'w) socket_op =
  "SocketConnection \<Rightarrow> 'w \<Rightarrow> 'a status_or \<times> SocketConnection \<times> 'w"

definition Close :: "'w os \<Rightarrow> SocketConnection \<Rightarrow> 'w \<Rightarrow> SocketConnection \<times> 'w" where
  "Close os c w =
     (if m_socket c \<noteq> kInvalidSocketValue
      then (c\<lparr>m_socket := kInvalidSocketValue, m_is_listening := False\<rparr>,
            sys_shutdown_close os (m_socket c) w)
      else (c, w))"

section \<open>Server side: bind, listen, accept\<close>

definition BindAndListenOnUnixDomain :: "'w os \<Rightarrow> string \<Rightarrow> (unit, 'w) socket_op" where
  "BindAndListenOnUnixDomain os server_address c w =
    (let (c, w) = (if IsOpen c then Close os c w else (c, w)) in
     case sys_socket os w of
       (Inl e, w) \<Rightarrow>
         (InternalError (''BindAndListenOnUnixDomain: socket() creation failed: '' @ strerror os e),
          c\<lparr>m_socket := kInvalidSocketValue\<rparr>, w)
     | (Inr fd, w) \<Rightarrow>
         let c = c\<lparr>m_socket := fd\<rparr> in
         (case sys_bind os fd server_address w of
            (Inl e, w) \<Rightarrow>
              (InternalError (''BindAndListenOnUnixDomain: bind() failed: '' @ strerror os e),
               Close os c w)
          | (Inr _, w) \<Rightarrow>
              (case sys_listen os fd w of
                 (Inl e, w) \<Rightarrow>
                   (InternalError
                      (''BindAndListenOnUnixDomain: listen() failed: '' @ strerror os e),
                    Close os c w)
               | (Inr _, w) \<Rightarrow> (OkStatus, c\<lparr>m_is_listening := True\<rparr>, w))))"

definition Accept :: "'w os \<Rightarrow> (SocketConnection, 'w) socket_op" where
  "Accept os c w =
    (if \<not> IsOpen c \<or> \<not> m_is_listening c
     then (FailedPreconditionError ''Accept: Socket not created or not listening.'', c, w)
     else
       (case sys_poll os (m_socket c) (m_accept_timout_ms c) w of
          (PollError e, w) \<Rightarrow>
            (InternalError (''Accept: poll() failed: '' @ strerror os e), c, w)
        | (PollTimeout, w) \<Rightarrow>
            (DeadlineExceededError ''Accept: Timeout waiting for connection.'', c, w)
        | (PollEvents pollin, w) \<Rightarrow>
            if \<not> pollin
            then (InternalError
                    ''Accept: poll() returned without POLLIN or known error event.'', c, w)
            else
              (case sys_accept os (m_socket c) w of
                 (Inl e, w) \<Rightarrow>
                   if e = EAGAIN \<or> e = EWOULDBLOCK
                   then (UnavailableError ''Accept: accept() would block.'', c, w)
                   else (InternalError (''Accept: accept() system call failed: '' @ strerror os e),
                         c, w)
               | (Inr new_socket, w) \<Rightarrow> (Inr (SocketConnection_new new_socket), c, w))))"

section \<open>Client side: connect\<close>

definition show_int :: "int \<Rightarrow> string" where
  "show_int i = (if i < 0 then ''-'' @ show_nat (nat (- i)) else show_nat (nat i))"

text \<open>The loop over the addresses; its first argument is \<^verbatim>\<open>last_attempt_status\<close>.\<close>

fun connect_loop :: "'w os \<Rightarrow> unit status_or \<Rightarrow> addrinfo list \<Rightarrow> (unit, 'w) socket_op" where
  "connect_loop os last_attempt_status [] c w = (last_attempt_status, c, w)"
| "connect_loop os last_attempt_status (p # ps) c w =
    (case sys_socket_for os p w of
       (Inl e, w) \<Rightarrow>
         connect_loop os (InternalError (''Connect: socket() creation failed: '' @ strerror os e))
           ps (c\<lparr>m_socket := kInvalidSocketValue\<rparr>) w
     | (Inr fd, w) \<Rightarrow>
         let c = c\<lparr>m_socket := fd\<rparr> in
         (case sys_connect os fd p w of
            (Inl e, w) \<Rightarrow>
              let (c, w) = Close os c w in
              connect_loop os
                (UnavailableError (''Connect: connect() system call failed: '' @ strerror os e))
                ps c w
          | (Inr _, w) \<Rightarrow> (OkStatus, c, w)))"

definition SocketConnection_Connect :: "'w os \<Rightarrow> string \<Rightarrow> int \<Rightarrow> (unit, 'w) socket_op" where
  "SocketConnection_Connect os host port c w =
    (let (c, w) = (if IsOpen c then Close os c w else (c, w)) in
     case sys_getaddrinfo os host (show_int port) w of
       (Inl err, w) \<Rightarrow> (UnavailableError (''Connect: getaddrinfo failed: '' @ err), c, w)
     | (Inr server_info, w) \<Rightarrow>
         (case connect_loop os OkStatus server_info c w of
            (Inl e, c, w) \<Rightarrow> (Inl e, c, w)
          | (Inr _, c, w) \<Rightarrow> (OkStatus, c\<lparr>m_is_listening := False\<rparr>, w)))"

section \<open>Send and receive\<close>

function send_loop :: "'w os \<Rightarrow> buffer \<Rightarrow> nat \<Rightarrow> (unit, 'w) socket_op" where
  "send_loop os data total_sent c w =
    (if total_sent < length data then
       (case sys_send os (m_socket c) (drop total_sent data) w of
          (Inl e, w) \<Rightarrow>
            if e = EAGAIN \<or> e = EWOULDBLOCK
            then (UnavailableError ''Send: Operation would block.'', c, w)
            else if e = EPIPE \<or> e = ECONNRESET
            then (AbortedError ''Send: Connection reset by peer (EPIPE/ECONNRESET).'', Close os c w)
            else (InternalError (''Send: send() failed: '' @ strerror os e), c, w)
        | (Inr sent, w) \<Rightarrow>
            if sent = 0
            then (AbortedError ''Send: Peer has closed the connection.'', c, w)
            else send_loop os data (total_sent + sent) c w)
     else (OkStatus, c, w))"
  by pat_completeness auto
termination
  by (relation "measure (\<lambda>(os, data, total_sent, c, w). length data - total_sent)") auto

declare send_loop.simps [simp del]

definition Send :: "'w os \<Rightarrow> buffer \<Rightarrow> (unit, 'w) socket_op" where
  "Send os data c w =
    (if \<not> IsOpen c \<or> m_is_listening c
     then (FailedPreconditionError
             ''Send: Socket is invalid or operation not supported on a listening socket.'', c, w)
     else if length data = 0 then (OkStatus, c, w)
     else send_loop os data 0 c w)"

text \<open>
  The receive loop; \<open>data\<close> is what the destination buffer holds so far, its length is
  \<^verbatim>\<open>total_received\<close>.
\<close>

function recv_loop :: "'w os \<Rightarrow> buffer \<Rightarrow> nat \<Rightarrow> int \<Rightarrow> (buffer, 'w) socket_op" where
  "recv_loop os data req_size timeout_ms c w =
    (if length data < req_size then
       (case sys_poll os (m_socket c) timeout_ms w of
          (PollError e, w) \<Rightarrow> (InternalError (''Recv: poll() failed: '' @ strerror os e), c, w)
        | (PollTimeout, w) \<Rightarrow> (DeadlineExceededError ''Recv: Timeout waiting for data.'', c, w)
        | (PollEvents pollin, w) \<Rightarrow>
            if \<not> pollin
            then (InternalError ''Recv: poll() returned an error event on the socket.'', c, w)
            else
              (case sys_recv os (m_socket c) (req_size - length data) w of
                 (Inl e, w) \<Rightarrow>
                   if e = EAGAIN \<or> e = EWOULDBLOCK
                   then (UnavailableError ''Recv: Operation would block.'', c, w)
                   else if e = ECONNRESET
                   then (AbortedError ''Recv: Connection reset by peer.'', Close os c w)
                   else (InternalError (''Recv: recv() system call failed: '' @ strerror os e), c, w)
               | (Inr received, w) \<Rightarrow>
                   if length received = 0
                   then (OutOfRangeError ''Recv: Connection gracefully closed by peer.'', c, w)
                   else recv_loop os (data @ received) req_size timeout_ms c w))
     else (Inr data, c, w))"
  by pat_completeness auto
termination
  by (relation "measure (\<lambda>(os, data, req_size, timeout_ms, c, w). req_size - length data)")
    (auto intro!: diff_less_mono2)

declare recv_loop.simps [simp del]

definition Recv :: "'w os \<Rightarrow> nat \<Rightarrow> int \<Rightarrow> (buffer, 'w) socket_op" where
  "Recv os req_size timeout_ms c w =
    (if \<not> IsOpen c \<or> m_is_listening c
     then (FailedPreconditionError
             ''Recv: Socket is invalid or operation not supported on a listening socket.'', c, w)
     else if req_size = 0 then (Inr [], c, w)
     else recv_loop os [] req_size timeout_ms c w)"

text \<open>A successful receive returns at least the requested number of bytes.\<close>

lemma recv_loop_length:
  "recv_loop os data req_size t c w = (Inr data', c', w') \<Longrightarrow> req_size \<le> length data'"
proof (induction os data req_size t c w rule: recv_loop.induct)
  case (1 os data req_size t c w)
  show ?case
    using "1.prems" "1.IH"
    by (subst (asm) recv_loop.simps)
      (auto simp: status_defs split: if_splits prod.splits sum.splits poll_result.splits)
qed

lemma Recv_length: "Recv os n t c w = (Inr data, c', w') \<Longrightarrow> n \<le> length data"
  by (auto simp: Recv_def status_defs split: if_splits dest: recv_loop_length)

section \<open>Null-terminated strings\<close>

definition SendString :: "'w os \<Rightarrow> string \<Rightarrow> (unit, 'w) socket_op" where
  "SendString os s = Send os (map byte_of_char s @ [0])"

text \<open>
  \<^verbatim>\<open>ReceiveString\<close> reads until a null byte arrives; a peer that never sends one keeps it reading,
  so the loop is a partial function: \<open>None\<close> stands for not returning.
\<close>

partial_function (option) receive_string_loop ::
    "'w os \<Rightarrow> string \<Rightarrow> SocketConnection \<Rightarrow> 'w \<Rightarrow> (string status_or \<times> SocketConnection \<times> 'w) option"
  where
  "receive_string_loop os received_string c w =
    (case Recv os 1 kNoTimeout c w of
       (Inl e, c, w) \<Rightarrow>
         Some (if status_code e = kOutOfRange
               then DataLossError ''Connection closed before a null terminator was received.''
               else Inl e, c, w)
     | (Inr data, c, w) \<Rightarrow>
         if hd data = 0 then Some (Inr received_string, c, w)
         else receive_string_loop os (received_string @ [char_of_byte (hd data)]) c w)"

definition ReceiveString ::
    "'w os \<Rightarrow> SocketConnection \<Rightarrow> 'w \<Rightarrow> (string status_or \<times> SocketConnection \<times> 'w) option" where
  "ReceiveString os = receive_string_loop os []"

section \<open>Files\<close>

definition CHUNK_SIZE :: nat where
  "CHUNK_SIZE = 4096"

function send_file_loop :: "'w os \<Rightarrow> string \<Rightarrow> nat \<Rightarrow> nat \<Rightarrow> (unit, 'w) socket_op" where
  "send_file_loop os file_path file_size total_sent c w =
    (if total_sent < file_size then
       (case ifstream_read os file_path total_sent (min CHUNK_SIZE (file_size - total_sent)) w of
          None \<Rightarrow>
            (InternalError (''SendFile: Failed to read chunk from file '' @ [CHR 0x27] @ file_path @
               [CHR 0x27]), c, w)
        | Some chunk \<Rightarrow>
            if length chunk = 0
            then (DataLossError (''SendFile: File size mismatch. Read 0 bytes before reaching '' @
                    ''expected end of file '' @ [CHR 0x27] @ file_path @ [CHR 0x27]), c, w)
            else
              (case Send os chunk c w of
                 (Inl e, c, w) \<Rightarrow>
                   (Inl (StatusWithContext e (''SendFile: Failed to send chunk for file '' @
                      [CHR 0x27] @ file_path @ [CHR 0x27])), c, w)
               | (Inr _, c, w) \<Rightarrow>
                   send_file_loop os file_path file_size (total_sent + length chunk) c w))
     else (OkStatus, c, w))"
  by pat_completeness auto
termination
  by (relation
      "measure (\<lambda>(os, file_path, file_size, total_sent, c, w). file_size - total_sent)")
    (auto intro!: diff_less_mono2)

declare send_file_loop.simps [simp del]

definition SendFile :: "'w os \<Rightarrow> string \<Rightarrow> (unit, 'w) socket_op" where
  "SendFile os file_path c w =
    (case ifstream_open_size os file_path w of
       None \<Rightarrow>
         (NotFoundError (''SendFile: Failed to open file '' @ [CHR 0x27] @ file_path @ [CHR 0x27]),
          c, w)
     | Some file_size \<Rightarrow>
         if file_size < 0
         then (InternalError (''SendFile: Failed to determine size of file '' @ [CHR 0x27] @
                 file_path @ [CHR 0x27]), c, w)
         else send_file_loop os file_path (nat file_size) 0 c w)"

text \<open>\<^verbatim>\<open>progress_callback\<close> acts on the world; an empty \<^verbatim>\<open>std::function\<close> is \<open>None\<close>.\<close>

function receive_file_loop ::
    "'w os \<Rightarrow> string \<Rightarrow> nat \<Rightarrow> (nat \<Rightarrow> 'w \<Rightarrow> 'w) option \<Rightarrow> nat \<Rightarrow> (unit, 'w) socket_op" where
  "receive_file_loop os file_path file_size progress_callback total_received c w =
    (if total_received < file_size then
       (case Recv os (min CHUNK_SIZE (file_size - total_received)) kNoTimeout c w of
          (Inl e, c, w) \<Rightarrow>
            (Inl (StatusWithContext e (''ReceiveFile: Failed to receive chunk for '' @ [CHR 0x27] @
               file_path @ [CHR 0x27])), c, w)
        | (Inr chunk, c, w) \<Rightarrow>
            (case ofstream_write os file_path chunk w of
               (written, w) \<Rightarrow>
                 if \<not> written
                 then (InternalError (''ReceiveFile: Failed to write to file '' @ [CHR 0x27] @
                         file_path @ [CHR 0x27]), c, w)
                 else
                   receive_file_loop os file_path file_size progress_callback
                     (total_received + length chunk) c
                     (case progress_callback of
                        None \<Rightarrow> w
                      | Some f \<Rightarrow> f (total_received + length chunk) w)))
     else (OkStatus, c, w))"
  by pat_completeness auto
termination
  by (relation "measure (\<lambda>(os, file_path, file_size, cb, total_received, c, w).
      file_size - total_received)") (auto simp: CHUNK_SIZE_def dest!: Recv_length [OF sym])

declare receive_file_loop.simps [simp del]

definition ReceiveFile ::
    "'w os \<Rightarrow> string \<Rightarrow> nat \<Rightarrow> (nat \<Rightarrow> 'w \<Rightarrow> 'w) option \<Rightarrow> (unit, 'w) socket_op" where
  "ReceiveFile os file_path file_size progress_callback c w =
    (case ofstream_open os file_path w of
       (opened, w) \<Rightarrow>
         if \<not> opened
         then (PermissionDeniedError (''ReceiveFile: Failed to open file '' @ [CHR 0x27] @ file_path @
                 [CHR 0x27] @ '' for writing.''), c, w)
         else receive_file_loop os file_path file_size progress_callback 0 c w)"

section \<open>What a connected stream socket guarantees\<close>

text \<open>
  \<open>sent w\<close> is the sequence of bytes the kernel has accepted on the descriptor so far, \<open>pending w\<close>
  the bytes the peer's stream still delivers. \<open>send\<close> accepts a prefix of what it is given, \<open>recv\<close>
  takes a prefix of what is pending, and neither touches the other direction.
\<close>

definition stream_laws ::
    "'w os \<Rightarrow> int \<Rightarrow> ('w \<Rightarrow> buffer) \<Rightarrow> ('w \<Rightarrow> buffer) \<Rightarrow> bool" where
  "stream_laws os fd sent pending \<longleftrightarrow>
     (\<forall>bs w e w'. sys_send os fd bs w = (Inl e, w') \<longrightarrow>
        sent w' = sent w \<and> pending w' = pending w) \<and>
     (\<forall>bs w n w'. sys_send os fd bs w = (Inr n, w') \<longrightarrow>
        n \<le> length bs \<and> sent w' = sent w @ take n bs \<and> pending w' = pending w) \<and>
     (\<forall>n w e w'. sys_recv os fd n w = (Inl e, w') \<longrightarrow>
        sent w' = sent w \<and> pending w' = pending w) \<and>
     (\<forall>n w bs w'. sys_recv os fd n w = (Inr bs, w') \<longrightarrow>
        length bs \<le> n \<and> pending w = bs @ pending w' \<and> sent w' = sent w) \<and>
     (\<forall>t w r w'. sys_poll os fd t w = (r, w') \<longrightarrow> sent w' = sent w \<and> pending w' = pending w) \<and>
     (\<forall>w. sent (sys_shutdown_close os fd w) = sent w)"

text \<open>Pending data is reported as readable and delivered; nothing is said when none is pending.\<close>

definition readable_laws :: "'w os \<Rightarrow> int \<Rightarrow> ('w \<Rightarrow> buffer) \<Rightarrow> bool" where
  "readable_laws os fd pending \<longleftrightarrow>
     (\<forall>t w. pending w \<noteq> [] \<longrightarrow> fst (sys_poll os fd t w) = PollEvents True) \<and>
     (\<forall>n w. pending w \<noteq> [] \<longrightarrow> 0 < n \<longrightarrow> (\<exists>bs. bs \<noteq> [] \<and> fst (sys_recv os fd n w) = Inr bs))"

lemma stream_lawsD:
  assumes "stream_laws os fd sent pending"
  shows "sys_send os fd bs w = (Inl e, w') \<Longrightarrow> sent w' = sent w \<and> pending w' = pending w"
    and "sys_send os fd bs w = (Inr n, w') \<Longrightarrow>
      n \<le> length bs \<and> sent w' = sent w @ take n bs \<and> pending w' = pending w"
    and "sys_recv os fd n w = (Inl e, w') \<Longrightarrow> sent w' = sent w \<and> pending w' = pending w"
    and "sys_recv os fd n w = (Inr bs, w') \<Longrightarrow>
      length bs \<le> n \<and> pending w = bs @ pending w' \<and> sent w' = sent w"
    and "sys_poll os fd t w = (r, w') \<Longrightarrow> sent w' = sent w \<and> pending w' = pending w"
    and "sent (sys_shutdown_close os fd w) = sent w"
  using assms unfolding stream_laws_def by simp_all

lemma Close_sent:
  assumes "stream_laws os (m_socket c) sent pending"
  shows "sent (snd (Close os c w)) = sent w"
  using stream_lawsD(6) [OF assms] by (simp add: Close_def)

lemma send_loop_stream:
  assumes "stream_laws os (m_socket c) sent pending"
    and "send_loop os data k c w = (r, c', w')" and "k \<le> length data"
  shows "\<exists>j \<ge> k. j \<le> length data \<and> sent w' = sent w @ take (j - k) (drop k data) \<and>
    (r = OkStatus \<longrightarrow> j = length data \<and> c' = c \<and> pending w' = pending w)"
  using assms
proof (induction os data k c w rule: send_loop.induct)
  case (1 os data k c w)
  note laws = stream_lawsD [OF "1.prems"(1)]
  show ?case
  proof (cases "k < length data")
    case False
    with "1.prems"(2,3) show ?thesis
      by (subst (asm) send_loop.simps) auto
  next
    case True
    obtain res w1 where snd1: "sys_send os (m_socket c) (drop k data) w = (res, w1)"
      by (cases "sys_send os (m_socket c) (drop k data) w")
    show ?thesis
    proof (cases res)
      case (Inl e)
      have w1: "sent w1 = sent w"
        using laws(1) snd1 Inl by blast
      have "r \<noteq> OkStatus \<and> sent w' = sent w"
        using "1.prems"(2) True snd1 Inl w1 Close_sent [OF "1.prems"(1), of w1]
        by (subst (asm) send_loop.simps) (auto simp: status_defs split: if_splits)
      then show ?thesis using "1.prems"(3) by (intro exI [of _ k]) simp
    next
      case (Inr n)
      have w1: "n \<le> length data - k" "sent w1 = sent w @ take n (drop k data)"
        "pending w1 = pending w"
        using laws(2) snd1 Inr by fastforce+
      show ?thesis
      proof (cases "n = 0")
        case True
        with "1.prems"(2,3) \<open>k < length data\<close> snd1 Inr w1 show ?thesis
          by (subst (asm) send_loop.simps) (auto simp: status_defs)
      next
        case False
        then have "send_loop os data (k + n) c w1 = (r, c', w')"
          using "1.prems"(2) True snd1 Inr by (subst (asm) send_loop.simps) simp
        moreover have "k + n \<le> length data"
          using w1(1) True by linarith
        ultimately obtain j where j: "k + n \<le> j" "j \<le> length data"
          "sent w' = sent w1 @ take (j - (k + n)) (drop (k + n) data)"
          "r = OkStatus \<longrightarrow> j = length data \<and> c' = c \<and> pending w' = pending w1"
          using "1.IH" [OF True snd1 [symmetric] Inr False "1.prems"(1)] by blast
        have "take n (drop k data) @ take (j - (k + n)) (drop (k + n) data) =
            take (n + (j - (k + n))) (drop k data)"
          by (simp add: take_add add.commute)
        with j w1 show ?thesis
          by (intro exI [of _ j]) (auto simp: add.commute)
      qed
    qed
  qed
qed

lemma Send_stream:
  assumes "stream_laws os (m_socket c) sent pending" and "Send os data c w = (r, c', w')"
  shows "\<exists>j \<le> length data. sent w' = sent w @ take j data \<and>
    (r = OkStatus \<longrightarrow> j = length data \<and> c' = c \<and> pending w' = pending w)"
proof (cases "\<not> IsOpen c \<or> m_is_listening c \<or> data = []")
  case True
  with assms(2) show ?thesis
    by (intro exI [of _ 0]) (auto simp: Send_def status_defs split: if_splits)
next
  case False
  with assms(2) have "send_loop os data 0 c w = (r, c', w')"
    by (simp add: Send_def)
  from send_loop_stream [OF assms(1) this] show ?thesis
    by auto
qed

text \<open>A send leaves the connection and the incoming direction alone, unless it closed the socket.\<close>

lemma send_loop_conn:
  assumes "stream_laws os (m_socket c) sent pending"
    and "send_loop os data k c w = (r, c', w')"
  shows "c' = c \<and> pending w' = pending w \<or> \<not> IsOpen c'"
  using assms
proof (induction os data k c w rule: send_loop.induct)
  case (1 os data k c w)
  note laws = stream_lawsD [OF "1.prems"(1)]
  obtain res w1 where snd1: "sys_send os (m_socket c) (drop k data) w = (res, w1)"
    by (cases "sys_send os (m_socket c) (drop k data) w")
  have w1: "pending w1 = pending w"
    using laws(1,2) snd1 by (cases res) blast+
  show ?case
    using "1.prems"(2) snd1 w1 "1.IH" [OF _ snd1 [symmetric] _ _ "1.prems"(1)]
    by (subst (asm) send_loop.simps)
      (auto simp: Close_def IsOpen_def split: if_splits sum.splits)
qed

lemma Send_conn:
  assumes "stream_laws os (m_socket c) sent pending" and "Send os data c w = (r, c', w')"
  shows "c' = c \<and> pending w' = pending w \<or> \<not> IsOpen c'"
  using assms(2) send_loop_conn [OF assms(1)] by (auto simp: Send_def split: if_splits)

lemma recv_loop_stream:
  assumes "stream_laws os (m_socket c) sent pending"
    and "recv_loop os data n t c w = (Inr data', c', w')" and "length data \<le> n"
  shows "\<exists>got. data' = data @ got \<and> length data' = n \<and> pending w = got @ pending w' \<and>
    sent w' = sent w \<and> c' = c"
  using assms
proof (induction os data n t c w rule: recv_loop.induct)
  case (1 os data n t c w)
  note laws = stream_lawsD [OF "1.prems"(1)]
  show ?case
  proof (cases "length data < n")
    case False
    with "1.prems"(2,3) show ?thesis
      by (subst (asm) recv_loop.simps) auto
  next
    case True
    with "1.prems"(2) obtain w1 w2 bs where
      poll: "sys_poll os (m_socket c) t w = (PollEvents True, w1)" and
      recv: "sys_recv os (m_socket c) (n - length data) w1 = (Inr bs, w2)" and
      ne: "bs \<noteq> []" and
      loop: "recv_loop os (data @ bs) n t c w2 = (Inr data', c', w')"
      by (subst (asm) recv_loop.simps)
        (auto simp: status_defs split: prod.splits poll_result.splits if_splits sum.splits)
    note eqs = laws(5) [OF poll] laws(4) [OF recv]
    have "\<exists>got. data' = (data @ bs) @ got \<and> length data' = n \<and> pending w2 = got @ pending w' \<and>
        sent w' = sent w2 \<and> c' = c"
      by (rule "1.IH" [OF True poll [symmetric] refl _ recv [symmetric] refl _ "1.prems"(1) loop])
        (use eqs True ne in auto)
    with eqs show ?thesis by auto
  qed
qed

lemma Recv_stream:
  assumes "stream_laws os (m_socket c) sent pending" and "Recv os n t c w = (Inr data, c', w')"
  shows "length data = n" and "pending w = data @ pending w'" and "sent w' = sent w" and "c' = c"
  using assms(2) recv_loop_stream [OF assms(1), of "[]" n t w data c' w']
  by (auto simp: Recv_def status_defs split: if_splits)

text \<open>If enough data is pending and delivered, a receive succeeds.\<close>

lemma recv_loop_delivers:
  assumes "stream_laws os (m_socket c) sent pending" and "readable_laws os (m_socket c) pending"
    and "length data \<le> n" and "n - length data \<le> length (pending w)"
  shows "\<exists>data' w'. recv_loop os data n t c w = (Inr data', c, w')"
  using assms
proof (induction os data n t c w rule: recv_loop.induct)
  case (1 os data n t c w)
  note laws = stream_lawsD [OF "1.prems"(1)]
  show ?case
  proof (cases "length data < n")
    case False
    then show ?thesis by (subst recv_loop.simps) simp
  next
    case True
    then have ne: "pending w \<noteq> []"
      using "1.prems"(4) by auto
    then obtain w1 where poll: "sys_poll os (m_socket c) t w = (PollEvents True, w1)"
      using "1.prems"(2) unfolding readable_laws_def by (metis prod.collapse)
    then have w1: "pending w1 = pending w"
      using laws(5) by blast
    have "\<exists>bs. bs \<noteq> [] \<and> fst (sys_recv os (m_socket c) (n - length data) w1) = Inr bs"
      using "1.prems"(2) ne w1 True unfolding readable_laws_def by simp
    then obtain bs w2 where recv: "sys_recv os (m_socket c) (n - length data) w1 = (Inr bs, w2)"
      and bs: "bs \<noteq> []"
      by (metis prod.collapse)
    note eqs = laws(4) [OF recv]
    have "\<exists>data' w'. recv_loop os (data @ bs) n t c w2 = (Inr data', c, w')"
      by (rule "1.IH" [OF True poll [symmetric] refl _ recv [symmetric] refl])
        (use "1.prems" eqs w1 bs True in auto)
    with True poll recv bs show ?thesis
      by (subst recv_loop.simps) simp
  qed
qed

lemma Recv_delivers:
  assumes "stream_laws os (m_socket c) sent pending" and "readable_laws os (m_socket c) pending"
    and "IsOpen c" and "\<not> m_is_listening c" and "pending w = data @ rest" and "length data = n"
  shows "\<exists>w'. Recv os n t c w = (Inr data, c, w') \<and> pending w' = rest \<and> sent w' = sent w"
proof -
  have "\<exists>data' w'. Recv os n t c w = (Inr data', c, w')"
    using recv_loop_delivers [OF assms(1,2), of "[]" n w t] assms(3-6) by (auto simp: Recv_def)
  then obtain data' w' where r: "Recv os n t c w = (Inr data', c, w')" by blast
  note eqs = Recv_stream [OF assms(1) r]
  have "data' = data" and "pending w' = rest"
    using eqs(1,2) assms(5,6) by auto
  with r eqs(3) show ?thesis by blast
qed

text \<open>A peer that keeps accepting data: every send of a non-empty buffer makes progress.\<close>

definition writable_laws :: "'w os \<Rightarrow> int \<Rightarrow> bool" where
  "writable_laws os fd \<longleftrightarrow>
     (\<forall>bs w. bs \<noteq> [] \<longrightarrow> (\<exists>n > 0. fst (sys_send os fd bs w) = Inr n))"

lemma send_loop_delivers:
  assumes "writable_laws os (m_socket c)"
  shows "\<exists>w'. send_loop os data k c w = (OkStatus, c, w')"
  using assms
proof (induction os data k c w rule: send_loop.induct)
  case (1 os data k c w)
  show ?case
  proof (cases "k < length data")
    case False
    then show ?thesis by (subst send_loop.simps) simp
  next
    case True
    then obtain n w1 where s: "0 < n" "sys_send os (m_socket c) (drop k data) w = (Inr n, w1)"
      using "1.prems" unfolding writable_laws_def by (metis drop_eq_Nil leD prod.collapse)
    from "1.IH" [OF True s(2) [symmetric] refl _ "1.prems"] s(1)
    have "\<exists>w'. send_loop os data (k + n) c w1 = (OkStatus, c, w')" by simp
    with True s show ?thesis by (subst send_loop.simps) simp
  qed
qed

lemma Send_delivers:
  assumes "writable_laws os (m_socket c)" and "IsOpen c" and "\<not> m_is_listening c"
  shows "\<exists>w'. Send os data c w = (OkStatus, c, w')"
  using send_loop_delivers [OF assms(1)] assms(2,3) by (auto simp: Send_def)

section \<open>Strings and files over the stream\<close>

lemma ReceiveString_delivers:
  assumes "stream_laws os (m_socket c) sent pending" and "readable_laws os (m_socket c) pending"
    and "IsOpen c" and "\<not> m_is_listening c"
    and "pending w = map byte_of_char s @ [0] @ rest" and "\<forall>ch \<in> set s. byte_of_char ch \<noteq> 0"
  shows "\<exists>w'. receive_string_loop os acc c w = Some (Inr (acc @ s), c, w') \<and> pending w' = rest"
  using assms(5,6)
proof (induction s arbitrary: acc w)
  case Nil
  from Recv_delivers [OF assms(1-4), of w "[0]" rest 1 kNoTimeout] Nil
  obtain w' where "Recv os 1 kNoTimeout c w = (Inr [0], c, w')" "pending w' = rest"
    by auto
  then show ?case by (subst receive_string_loop.simps) simp
next
  case (Cons ch s)
  from Recv_delivers [OF assms(1-4), of w "[byte_of_char ch]" "map byte_of_char s @ [0] @ rest" 1]
    Cons.prems
  obtain w1 where r: "Recv os 1 kNoTimeout c w = (Inr [byte_of_char ch], c, w1)"
    and p: "pending w1 = map byte_of_char s @ [0] @ rest"
    by fastforce
  from Cons.IH [OF p, of "acc @ [ch]"] Cons.prems(2) r show ?case
    by (subst receive_string_loop.simps) simp
qed

text \<open>A file whose contents do not change while it is sent.\<close>

definition source_file_laws :: "'w os \<Rightarrow> string \<Rightarrow> buffer \<Rightarrow> bool" where
  "source_file_laws os path contents \<longleftrightarrow>
     (\<forall>w. ifstream_open_size os path w = Some (int (length contents))) \<and>
     (\<forall>pos n w. pos + n \<le> length contents \<longrightarrow>
        ifstream_read os path pos n w = Some (take n (drop pos contents)))"

lemma send_file_loop_stream:
  assumes "stream_laws os (m_socket c) sent pending" and "source_file_laws os path contents"
    and "send_file_loop os path (length contents) k c w = (OkStatus, c', w')"
    and "k \<le> length contents"
  shows "sent w' = sent w @ drop k contents \<and> c' = c \<and> pending w' = pending w"
  using assms
proof (induction "length contents - k" arbitrary: k w rule: less_induct)
  case less
  show ?case
  proof (cases "k < length contents")
    case False
    with less.prems(3,4) show ?thesis
      by (subst (asm) send_file_loop.simps) auto
  next
    case True
    define n where "n = min CHUNK_SIZE (length contents - k)"
    have n: "0 < n" "k + n \<le> length contents"
      using True by (auto simp: n_def CHUNK_SIZE_def)
    have rd: "ifstream_read os path k n w = Some (take n (drop k contents))"
      using less.prems(2) n(2) unfolding source_file_laws_def by blast
    have len: "length (take n (drop k contents)) = n"
      using n by simp
    obtain r c1 w1 where snd1: "Send os (take n (drop k contents)) c w = (r, c1, w1)"
      by (cases "Send os (take n (drop k contents)) c w")
    have ok: "r = OkStatus" and loop: "send_file_loop os path (length contents) (k + n) c1 w1 =
        (OkStatus, c', w')"
      using less.prems(3) True rd len n snd1 unfolding n_def [symmetric]
      by (subst (asm) send_file_loop.simps, auto simp: n_def [symmetric] split: sum.splits)+
    from Send_stream [OF less.prems(1) snd1] ok n
    have s1: "sent w1 = sent w @ take n (drop k contents)" "c1 = c" "pending w1 = pending w"
      by auto
    have "sent w' = sent w1 @ drop (k + n) contents \<and> c' = c \<and> pending w' = pending w1"
      by (rule less.hyps) (use n loop s1 less.prems True in auto)
    with s1 show ?thesis
      by (metis append_assoc append_take_drop_id drop_drop add.commute)
  qed
qed

lemma SendFile_stream:
  assumes "stream_laws os (m_socket c) sent pending" and "source_file_laws os path contents"
    and "SendFile os path c w = (OkStatus, c', w')"
  shows "sent w' = sent w @ contents" and "c' = c" and "pending w' = pending w"
proof -
  have "send_file_loop os path (length contents) 0 c w = (OkStatus, c', w')"
    using assms(2,3) by (auto simp: SendFile_def source_file_laws_def)
  from send_file_loop_stream [OF assms(1,2) this]
  show "sent w' = sent w @ contents" and "c' = c" and "pending w' = pending w"
    by simp_all
qed

text \<open>Whatever the file yields, sending it only appends and keeps or closes the connection.\<close>

lemma send_file_loop_appends:
  assumes "stream_laws os (m_socket c) sent pending"
    and "send_file_loop os path n k c w = (r, c', w')"
  shows "(\<exists>bs. sent w' = sent w @ bs) \<and> (c' = c \<and> pending w' = pending w \<or> \<not> IsOpen c')"
  using assms
proof (induction os path n k c w rule: send_file_loop.induct)
  case (1 os path n k c w)
  show ?case
  proof (cases "\<exists>chunk. k < n \<and> chunk \<noteq> [] \<and>
      ifstream_read os path k (min CHUNK_SIZE (n - k)) w = Some chunk")
    case False
    with "1.prems"(2) show ?thesis
      by (subst (asm) send_file_loop.simps) (auto split: if_splits option.splits)
  next
    case True
    then obtain chunk where k: "k < n" and ne: "chunk \<noteq> []"
      and rd: "ifstream_read os path k (min CHUNK_SIZE (n - k)) w = Some chunk" by blast
    obtain r1 c1 w1 where s: "Send os chunk c w = (r1, c1, w1)"
      by (cases "Send os chunk c w")
    obtain bs where bs: "sent w1 = sent w @ bs"
      using Send_stream [OF "1.prems"(1) s] by auto
    show ?thesis
    proof (cases r1)
      case (Inl e)
      then have "c' = c1" "w' = w1"
        using "1.prems"(2) k ne rd s by (subst (asm) send_file_loop.simps, simp)+
      with bs Send_conn [OF "1.prems"(1) s] show ?thesis by blast
    next
      case (Inr u)
      then have ok: "c1 = c" "pending w1 = pending w"
        using Send_stream [OF "1.prems"(1) s] by auto
      have loop: "send_file_loop os path n (k + length chunk) c1 w1 = (r, c', w')"
        using "1.prems"(2) k ne rd s Inr by (subst (asm) send_file_loop.simps) simp
      have "(\<exists>bs. sent w' = sent w1 @ bs) \<and>
          (c' = c1 \<and> pending w' = pending w1 \<or> \<not> IsOpen c')"
        by (rule "1.IH" [OF k rd _ s [symmetric] Inr refl _ loop])
          (use ne ok "1.prems"(1) in auto)
      with bs ok show ?thesis by auto
    qed
  qed
qed

lemma SendFile_appends:
  assumes "stream_laws os (m_socket c) sent pending" and "SendFile os path c w = (r, c', w')"
  shows "(\<exists>bs. sent w' = sent w @ bs) \<and> (c' = c \<and> pending w' = pending w \<or> \<not> IsOpen c')"
  using assms(2) send_file_loop_appends [OF assms(1)]
  by (auto simp: SendFile_def split: option.splits if_splits)

lemma send_file_loop_keeps:
  assumes "writable_laws os (m_socket c)" and "IsOpen c" and "\<not> m_is_listening c"
    and "send_file_loop os path n k c w = (r, c', w')"
  shows "c' = c"
  using assms
proof (induction os path n k c w rule: send_file_loop.induct)
  case (1 os path n k c w)
  show ?case
  proof (cases "\<exists>chunk. k < n \<and> chunk \<noteq> [] \<and>
      ifstream_read os path k (min CHUNK_SIZE (n - k)) w = Some chunk")
    case False
    with "1.prems"(4) show ?thesis
      by (subst (asm) send_file_loop.simps) (auto split: if_splits option.splits)
  next
    case True
    then obtain chunk where k: "k < n" and ne: "chunk \<noteq> []"
      and rd: "ifstream_read os path k (min CHUNK_SIZE (n - k)) w = Some chunk" by blast
    obtain w1 where s: "Send os chunk c w = (OkStatus, c, w1)"
      using Send_delivers [OF "1.prems"(1-3)] by blast
    have "send_file_loop os path n (k + length chunk) c w1 = (r, c', w')"
      using "1.prems"(4) k ne rd s by (subst (asm) send_file_loop.simps) simp
    from "1.IH" [OF k rd _ s [symmetric] refl refl "1.prems"(1-3) this] ne show ?thesis by simp
  qed
qed

lemma SendFile_keeps:
  assumes "writable_laws os (m_socket c)" and "IsOpen c" and "\<not> m_is_listening c"
    and "SendFile os path c w = (r, c', w')"
  shows "c' = c"
  using assms(4) send_file_loop_keeps [OF assms(1-3)]
  by (auto simp: SendFile_def split: option.splits if_splits)

text \<open>
  A destination file: opening truncates it, a successful write appends, socket calls leave it
  alone, and writing does not touch the stream.
\<close>

definition sink_file_laws ::
    "'w os \<Rightarrow> int \<Rightarrow> string \<Rightarrow> ('w \<Rightarrow> buffer) \<Rightarrow> ('w \<Rightarrow> buffer) \<Rightarrow> bool" where
  "sink_file_laws os fd path written pending \<longleftrightarrow>
     (\<forall>w w'. ofstream_open os path w = (True, w') \<longrightarrow> written w' = [] \<and> pending w' = pending w) \<and>
     (\<forall>bs w w'. ofstream_write os path bs w = (True, w') \<longrightarrow>
        written w' = written w @ bs \<and> pending w' = pending w) \<and>
     (\<forall>n w r w'. sys_recv os fd n w = (r, w') \<longrightarrow> written w' = written w) \<and>
     (\<forall>t w r w'. sys_poll os fd t w = (r, w') \<longrightarrow> written w' = written w)"

lemma recv_loop_written:
  assumes "sink_file_laws os (m_socket c) path written pending"
    and "recv_loop os data n t c w = (Inr data', c', w')"
  shows "written w' = written w"
  using assms
proof (induction os data n t c w rule: recv_loop.induct)
  case (1 os data n t c w)
  show ?case
  proof (cases "length data < n")
    case False
    with "1.prems"(2) show ?thesis
      by (subst (asm) recv_loop.simps) auto
  next
    case True
    with "1.prems"(2) obtain w1 w2 bs where
      poll: "sys_poll os (m_socket c) t w = (PollEvents True, w1)" and
      recv: "sys_recv os (m_socket c) (n - length data) w1 = (Inr bs, w2)" and
      ne: "bs \<noteq> []" and
      loop: "recv_loop os (data @ bs) n t c w2 = (Inr data', c', w')"
      by (subst (asm) recv_loop.simps)
        (auto simp: status_defs split: prod.splits poll_result.splits if_splits sum.splits)
    have "written w' = written w2"
      by (rule "1.IH" [OF True poll [symmetric] refl _ recv [symmetric] refl _ "1.prems"(1) loop])
        (use ne in auto)
    then show ?thesis
      using "1.prems"(1) poll recv unfolding sink_file_laws_def by metis
  qed
qed

lemma Recv_written:
  assumes "sink_file_laws os (m_socket c) path written pending"
    and "Recv os n t c w = (Inr data, c', w')"
  shows "written w' = written w"
  using assms(2) recv_loop_written [OF assms(1)]
  by (auto simp: Recv_def status_defs split: if_splits)

definition callback_frame ::
    "(nat \<Rightarrow> 'w \<Rightarrow> 'w) option \<Rightarrow> ('w \<Rightarrow> buffer) \<Rightarrow> ('w \<Rightarrow> buffer) \<Rightarrow> bool" where
  "callback_frame cb written pending \<longleftrightarrow>
     (\<forall>f. cb = Some f \<longrightarrow> (\<forall>k w. written (f k w) = written w \<and> pending (f k w) = pending w))"

lemma callback_frameD:
  assumes "callback_frame cb written pending"
  shows "written (case cb of None \<Rightarrow> w | Some f \<Rightarrow> f k w) = written w"
    and "pending (case cb of None \<Rightarrow> w | Some f \<Rightarrow> f k w) = pending w"
  using assms by (auto simp: callback_frame_def split: option.splits)

lemma receive_file_loop_stream:
  assumes "stream_laws os (m_socket c) sent pending"
    and "sink_file_laws os (m_socket c) path written pending"
    and "callback_frame cb written pending"
    and "receive_file_loop os path n cb k c w = (OkStatus, c', w')" and "k \<le> n"
  shows "\<exists>got. written w' = written w @ got \<and> pending w = got @ pending w' \<and>
    length got = n - k \<and> c' = c"
  using assms
proof (induction "n - k" arbitrary: k w rule: less_induct)
  case less
  show ?case
  proof (cases "k < n")
    case False
    with less.prems(4,5) show ?thesis
      by (subst (asm) receive_file_loop.simps) auto
  next
    case True
    define q where "q = min CHUNK_SIZE (n - k)"
    have q: "0 < q" "k + q \<le> n"
      using True by (auto simp: q_def CHUNK_SIZE_def)
    from less.prems(4) True obtain chunk c1 w1 w2 where
      recv: "Recv os q kNoTimeout c w = (Inr chunk, c1, w1)" and
      wr: "ofstream_write os path chunk w1 = (True, w2)" and
      loop: "receive_file_loop os path n cb (k + length chunk) c1
          (case cb of None \<Rightarrow> w2 | Some f \<Rightarrow> f (k + length chunk) w2) = (OkStatus, c', w')"
      unfolding q_def
      by (subst (asm) receive_file_loop.simps)
        (auto simp: status_defs split: sum.splits prod.splits if_splits)
    note r = Recv_stream [OF less.prems(1) recv] Recv_written [OF less.prems(2) recv]
    have w2: "written w2 = written w1 @ chunk" "pending w2 = pending w1"
      using less.prems(2) wr unfolding sink_file_laws_def by blast+
    define w3 where "w3 = (case cb of None \<Rightarrow> w2 | Some f \<Rightarrow> f (k + length chunk) w2)"
    have w3: "written w3 = written w1 @ chunk" "pending w3 = pending w1"
      using callback_frameD [OF less.prems(3)] w2 unfolding w3_def by auto
    have "\<exists>got. written w' = written w3 @ got \<and> pending w3 = got @ pending w' \<and>
        length got = n - (k + q) \<and> c' = c"
      by (rule less.hyps) (use less.prems loop q r in \<open>auto simp: w3_def\<close>)
    then obtain got where "written w' = written w3 @ got" "pending w3 = got @ pending w'"
      "length got = n - (k + q)" "c' = c"
      by blast
    with r w3 q show ?thesis
      by (intro exI [of _ "chunk @ got"]) auto
  qed
qed

lemma ReceiveFile_stream:
  assumes "stream_laws os (m_socket c) sent pending"
    and "sink_file_laws os (m_socket c) path written pending"
    and "callback_frame cb written pending"
    and "ReceiveFile os path n cb c w = (OkStatus, c', w')"
  shows "pending w = written w' @ pending w'" and "length (written w') = n" and "c' = c"
proof -
  obtain w1 where o: "ofstream_open os path w = (True, w1)"
    and loop: "receive_file_loop os path n cb 0 c w1 = (OkStatus, c', w')"
    using assms(4) by (auto simp: ReceiveFile_def status_defs split: prod.splits if_splits)
  have "written w1 = []" "pending w1 = pending w"
    using assms(2) o unfolding sink_file_laws_def by blast+
  with receive_file_loop_stream [OF assms(1-3) loop]
  show "pending w = written w' @ pending w'" and "length (written w') = n" and "c' = c"
    by auto
qed

section \<open>A successful transfer leaves the connection object alone\<close>

lemma send_loop_ok: "send_loop os data k c w = (Inr u, c', w') \<Longrightarrow> c' = c"
proof (induction os data k c w rule: send_loop.induct)
  case (1 os data k c w)
  show ?case
    using "1.prems" "1.IH"
    by (subst (asm) send_loop.simps)
      (auto simp: status_defs split: if_splits prod.splits sum.splits)
qed

lemma Send_ok: "Send os data c w = (Inr u, c', w') \<Longrightarrow> c' = c"
  by (auto simp: Send_def status_defs split: if_splits dest: send_loop_ok)

lemma recv_loop_ok: "recv_loop os data n t c w = (Inr data', c', w') \<Longrightarrow> c' = c"
proof (induction os data n t c w rule: recv_loop.induct)
  case (1 os data n t c w)
  show ?case
    using "1.prems" "1.IH"
    by (subst (asm) recv_loop.simps)
      (auto simp: status_defs split: if_splits prod.splits sum.splits poll_result.splits)
qed

lemma Recv_ok: "Recv os n t c w = (Inr data, c', w') \<Longrightarrow> c' = c"
  by (auto simp: Recv_def status_defs split: if_splits dest: recv_loop_ok)

lemma receive_file_loop_ok: "receive_file_loop os path n cb k c w = (Inr u, c', w') \<Longrightarrow> c' = c"
proof (induction os path n cb k c w rule: receive_file_loop.induct)
  case (1 os path n cb k c w)
  show ?case
    using "1.prems" "1.IH" Recv_ok
    by (subst (asm) receive_file_loop.simps)
      (fastforce simp: status_defs split: if_splits prod.splits sum.splits)
qed

lemma ReceiveFile_ok: "ReceiveFile os path n cb c w = (Inr u, c', w') \<Longrightarrow> c' = c"
  by (auto simp: ReceiveFile_def status_defs split: if_splits prod.splits dest: receive_file_loop_ok)

section \<open>Complete transfers\<close>

text \<open>A destination that can be opened and takes every write.\<close>

definition sink_accepts :: "'w os \<Rightarrow> string \<Rightarrow> bool" where
  "sink_accepts os path \<longleftrightarrow>
     (\<forall>w. fst (ofstream_open os path w)) \<and> (\<forall>bs w. fst (ofstream_write os path bs w))"

lemma receive_file_loop_succeeds:
  assumes "stream_laws os (m_socket c) sent pending" and "readable_laws os (m_socket c) pending"
    and "sink_file_laws os (m_socket c) path written pending" and "sink_accepts os path"
    and "callback_frame cb written pending" and "IsOpen c" and "\<not> m_is_listening c"
    and "n - k \<le> length (pending w)"
  shows "\<exists>w'. receive_file_loop os path n cb k c w = (OkStatus, c, w')"
  using assms(8)
proof (induction "n - k" arbitrary: k w rule: less_induct)
  case less
  show ?case
  proof (cases "k < n")
    case False
    then show ?thesis by (subst receive_file_loop.simps) simp
  next
    case True
    define q where "q = min CHUNK_SIZE (n - k)"
    have q: "0 < q" "k + q \<le> n" "q \<le> length (pending w)"
      using True less.prems by (auto simp: q_def CHUNK_SIZE_def)
    obtain w1 where recv: "Recv os q kNoTimeout c w = (Inr (take q (pending w)), c, w1)"
      and p1: "pending w1 = drop q (pending w)"
      using Recv_delivers [OF assms(1,2,6,7), of w "take q (pending w)" "drop q (pending w)" q] q
      by auto
    obtain w2 where wr: "ofstream_write os path (take q (pending w)) w1 = (True, w2)"
      using assms(4) unfolding sink_accepts_def by (metis prod.collapse)
    then have p2: "pending w2 = pending w1"
      using assms(3) unfolding sink_file_laws_def by blast
    define w3 where "w3 = (case cb of None \<Rightarrow> w2 | Some f \<Rightarrow> f (k + q) w2)"
    have "pending w3 = pending w1"
      using callback_frameD(2) [OF assms(5)] p2 by (simp add: w3_def)
    then have "\<exists>w'. receive_file_loop os path n cb (k + q) c w3 = (OkStatus, c, w')"
      using less.hyps [of "k + q" w3] less.prems q p1 True by simp
    with True recv wr q show ?thesis
      by (subst receive_file_loop.simps, cases cb) (simp_all add: q_def [symmetric] w3_def)
  qed
qed

lemma ReceiveFile_delivers:
  assumes "stream_laws os (m_socket c) sent pending" and "readable_laws os (m_socket c) pending"
    and "sink_file_laws os (m_socket c) path written pending" and "sink_accepts os path"
    and "callback_frame cb written pending" and "IsOpen c" and "\<not> m_is_listening c"
    and "pending w = contents @ rest"
  shows "\<exists>w'. ReceiveFile os path (length contents) cb c w = (OkStatus, c, w') \<and>
    written w' = contents \<and> pending w' = rest"
proof -
  obtain w1 where o: "ofstream_open os path w = (True, w1)"
    using assms(4) unfolding sink_accepts_def by (metis prod.collapse)
  then have "pending w1 = pending w"
    using assms(3) unfolding sink_file_laws_def by blast
  then obtain w' where r: "ReceiveFile os path (length contents) cb c w = (OkStatus, c, w')"
    using receive_file_loop_succeeds [OF assms(1-7), of "length contents" 0 w1] assms(8) o
    by (auto simp: ReceiveFile_def)
  with ReceiveFile_stream [OF assms(1,3,5) r] assms(8) show ?thesis by auto
qed

lemma send_file_loop_succeeds:
  assumes "writable_laws os (m_socket c)" and "source_file_laws os path contents"
    and "IsOpen c" and "\<not> m_is_listening c" and "k \<le> length contents"
  shows "\<exists>w'. send_file_loop os path (length contents) k c w = (OkStatus, c, w')"
  using assms(5)
proof (induction "length contents - k" arbitrary: k w rule: less_induct)
  case less
  show ?case
  proof (cases "k < length contents")
    case False
    then show ?thesis by (subst send_file_loop.simps) simp
  next
    case True
    define q where "q = min CHUNK_SIZE (length contents - k)"
    have q: "0 < q" "k + q \<le> length contents"
      using True by (auto simp: q_def CHUNK_SIZE_def)
    have rd: "ifstream_read os path k q w = Some (take q (drop k contents))"
      using assms(2) q(2) unfolding source_file_laws_def by blast
    obtain w1 where "Send os (take q (drop k contents)) c w = (OkStatus, c, w1)"
      using Send_delivers [OF assms(1,3,4)] by blast
    moreover have "\<exists>w'. send_file_loop os path (length contents) (k + q) c w1 = (OkStatus, c, w')"
      using less.hyps [of "k + q" w1] q True by simp
    ultimately show ?thesis
      using True rd q by (subst send_file_loop.simps) (simp add: q_def [symmetric])
  qed
qed

lemma SendFile_delivers:
  assumes "stream_laws os (m_socket c) sent pending" and "writable_laws os (m_socket c)"
    and "source_file_laws os path contents" and "IsOpen c" and "\<not> m_is_listening c"
  shows "\<exists>w'. SendFile os path c w = (OkStatus, c, w') \<and> sent w' = sent w @ contents \<and>
    pending w' = pending w"
proof -
  obtain w' where "SendFile os path c w = (OkStatus, c, w')"
    using send_file_loop_succeeds [OF assms(2-5), of 0 w] assms(3)
    by (auto simp: SendFile_def source_file_laws_def)
  with SendFile_stream [OF assms(1,3) this] show ?thesis by blast
qed

end
