(* ===== verification/Net_Framing.thy ===== *)
theory Net_Framing
  imports Net_Messages Net_Socket
begin

text \<open>
  The type-length-value framing at the end of \<^verbatim>\<open>network/messages.cc\<close>: an 8-byte header (message
  type and payload length, both big-endian) followed by the payload. A \<^verbatim>\<open>SocketConnection*\<close> that may
  be null is an optional connection.

  The lemmas show what goes on the wire, that a receiver never turns a well-formed frame into any
  other message, and that it delivers the message when the bytes arrive.
\<close>

type_synonym ('a, 'w) conn_op =
  "SocketConnection option \<Rightarrow> 'w \<Rightarrow> 'a status_or \<times> SocketConnection option \<times> 'w"

definition kMaxPayloadSize :: nat where
  "kMaxPayloadSize = 16 * 1024 * 1024"

definition kHeaderSize :: nat where
  "kHeaderSize = 8"

text \<open>Run a socket operation on a connection that is known not to be null.\<close>

definition on_conn :: "('a, 'w) socket_op \<Rightarrow> SocketConnection \<Rightarrow> 'w \<Rightarrow>
    'a status_or \<times> SocketConnection option \<times> 'w" where
  "on_conn op c w = (case op c w of (r, c', w') \<Rightarrow> (r, Some c', w'))"

definition null_conn_error :: "'a status_or" where
  "null_conn_error = InvalidArgumentError ''Provided SocketConnection is null.''"

function receive_buffer_loop :: "'w os \<Rightarrow> buffer \<Rightarrow> nat \<Rightarrow> int \<Rightarrow> (buffer, 'w) socket_op" where
  "receive_buffer_loop os data n timeout_ms c w =
    (if length data < n then
       (case Recv os (n - length data) timeout_ms c w of
          (Inl e, c, w) \<Rightarrow> (Inl e, c, w)
        | (Inr received, c, w) \<Rightarrow> receive_buffer_loop os (data @ received) n timeout_ms c w)
     else (Inr data, c, w))"
  by pat_completeness auto
termination
  by (relation "measure (\<lambda>(os, data, n, timeout_ms, c, w). n - length data)")
    (auto dest!: Recv_length [OF sym])

declare receive_buffer_loop.simps [simp del]

definition ReceiveBuffer :: "'w os \<Rightarrow> nat \<Rightarrow> int \<Rightarrow> (buffer, 'w) conn_op" where
  "ReceiveBuffer os n timeout_ms conn w =
    (case conn of
       None \<Rightarrow> (null_conn_error, conn, w)
     | Some c \<Rightarrow> on_conn (receive_buffer_loop os [] n timeout_ms) c w)"

definition SendBuffer :: "'w os \<Rightarrow> buffer \<Rightarrow> (unit, 'w) conn_op" where
  "SendBuffer os data conn w =
    (case conn of
       None \<Rightarrow> (null_conn_error, conn, w)
     | Some c \<Rightarrow> on_conn (Send os data) c w)"

definition close_conn :: "'w os \<Rightarrow> SocketConnection option \<Rightarrow> 'w \<Rightarrow> SocketConnection option \<times> 'w" where
  "close_conn os conn w =
    (case conn of None \<Rightarrow> (conn, w) | Some c \<Rightarrow> (case Close os c w of (c, w) \<Rightarrow> (Some c, w)))"

definition ReceiveSocketMessage :: "'w os \<Rightarrow> int \<Rightarrow> (message, 'w) conn_op" where
  "ReceiveSocketMessage os timeout_ms conn w =
    (if conn = None then (null_conn_error, conn, w)
     else
      (case ReceiveBuffer os kHeaderSize timeout_ms conn w of
         (Inl e, conn, w) \<Rightarrow> (Inl e, conn, w)
       | (Inr header_buffer, conn, w) \<Rightarrow>
          let type = ntohl_bytes (take 4 header_buffer);
              payload_length = unat (ntohl_bytes (take 4 (drop 4 header_buffer)))
          in
          if payload_length > kMaxPayloadSize
          then (InvalidArgumentError
                  (''Payload size '' @ show_nat payload_length @ '' exceeds limit.''),
                close_conn os conn w)
          else
            (case ReceiveBuffer os payload_length timeout_ms conn w of
               (Inl e, conn, w) \<Rightarrow> (Inl e, conn, w)
             | (Inr payload_buffer, conn, w) \<Rightarrow>
                 (case deserialize_as type payload_buffer of
                    None \<Rightarrow>
                      (InvalidArgumentError (''Unknown message type: '' @ show_nat (unat type)),
                       close_conn os conn w)
                  | Some (Inl e) \<Rightarrow> (Inl e, close_conn os conn w)
                  | Some (Inr message) \<Rightarrow> (Inr message, conn, w)))))"

definition SendSocketMessage :: "'w os \<Rightarrow> message \<Rightarrow> (unit, 'w) conn_op" where
  "SendSocketMessage os message conn w =
    (if conn = None then (null_conn_error, conn, w)
     else
      (case Serialize message [] of
         Inl e \<Rightarrow> (Inl e, conn, w)
       | Inr payload_buffer \<Rightarrow>
           if length payload_buffer > kMaxPayloadSize
           then (InvalidArgumentError ''Serialized payload size exceeds limit.'', conn, w)
           else
             let header_buffer =
                   htonl_bytes (MessageType_value (GetMessageType message)) @
                   htonl_bytes (word_of_nat (length payload_buffer))
             in
             (case SendBuffer os header_buffer conn w of
                (Inl e, conn, w) \<Rightarrow> (Inl e, conn, w)
              | (Inr _, conn, w) \<Rightarrow> SendBuffer os payload_buffer conn w)))"

section \<open>The bytes of a frame\<close>

definition frame :: "message \<Rightarrow> buffer" where
  "frame m =
    (case Serialize m [] of
       Inl _ \<Rightarrow> []
     | Inr payload \<Rightarrow>
         htonl_bytes (MessageType_value (GetMessageType m)) @
         htonl_bytes (word_of_nat (length payload)) @ payload)"

definition fits :: "message \<Rightarrow> bool" where
  "fits m \<longleftrightarrow> (\<exists>payload. Serialize m [] = Inr payload \<and> length payload \<le> kMaxPayloadSize)"

lemma fits_ok: "fits m \<Longrightarrow> message_ok m"
  unfolding fits_def kMaxPayloadSize_def
  by (auto elim!: message_size_ok)

lemma receive_buffer_loop_eq:
  assumes "stream_laws os (m_socket c) sent pending"
    and "receive_buffer_loop os data n t c w = (Inr data', c', w')" and "length data \<le> n"
  shows "\<exists>got. data' = data @ got \<and> length data' = n \<and> pending w = got @ pending w' \<and>
    sent w' = sent w \<and> c' = c"
proof (cases "length data < n")
  case False
  with assms(2,3) show ?thesis
    by (subst (asm) receive_buffer_loop.simps) auto
next
  case True
  with assms(2) obtain bs c1 w1 where r: "Recv os (n - length data) t c w = (Inr bs, c1, w1)"
    and l: "receive_buffer_loop os (data @ bs) n t c1 w1 = (Inr data', c', w')"
    by (subst (asm) receive_buffer_loop.simps) (auto split: prod.splits sum.splits)
  note eqs = Recv_stream [OF assms(1) r]
  with l True have "data' = data @ bs" "c' = c1" "w' = w1"
    by (subst (asm) receive_buffer_loop.simps, simp)+
  with eqs True show ?thesis by auto
qed

lemma ReceiveBuffer_stream:
  assumes "stream_laws os (m_socket c) sent pending"
    and "ReceiveBuffer os n t (Some c) w = (Inr data, conn', w')"
  shows "length data = n" "pending w = data @ pending w'" "sent w' = sent w" "conn' = Some c"
  using assms(2) receive_buffer_loop_eq [OF assms(1), of "[]" n t w data]
  by (auto simp: ReceiveBuffer_def on_conn_def split: prod.splits)

lemma ReceiveBuffer_delivers:
  assumes "stream_laws os (m_socket c) sent pending" and "readable_laws os (m_socket c) pending"
    and "IsOpen c" and "\<not> m_is_listening c" and "pending w = data @ rest" and "length data = n"
  shows "\<exists>w'. ReceiveBuffer os n t (Some c) w = (Inr data, Some c, w') \<and> pending w' = rest \<and>
    sent w' = sent w"
proof (cases "n = 0")
  case True
  with assms show ?thesis
    by (simp add: ReceiveBuffer_def on_conn_def receive_buffer_loop.simps)
next
  case False
  from Recv_delivers [OF assms, of t]
  obtain w' where "Recv os n t c w = (Inr data, c, w')" "pending w' = rest" "sent w' = sent w"
    by blast
  with False assms(6) show ?thesis
    by (simp add: ReceiveBuffer_def on_conn_def receive_buffer_loop.simps)
qed

section \<open>Sending a frame\<close>

lemma take_append_prefix: "j \<le> length xs \<Longrightarrow> take j xs = take j (xs @ ys)"
  by simp

lemma SendSocketMessage_wire:
  assumes "stream_laws os (m_socket c) sent pending" and "fits m"
    and "SendSocketMessage os m (Some c) w = (r, conn', w')"
  shows "\<exists>j \<le> length (frame m). sent w' = sent w @ take j (frame m) \<and>
    (r = OkStatus \<longrightarrow> j = length (frame m) \<and> conn' = Some c \<and> pending w' = pending w)"
proof -
  obtain p where p: "Serialize m [] = Inr p" "length p \<le> kMaxPayloadSize"
    using assms(2) by (auto simp: fits_def)
  define h where "h = htonl_bytes (MessageType_value (GetMessageType m)) @
      htonl_bytes (word_of_nat (length p))"
  have f: "frame m = h @ p"
    by (simp add: frame_def p h_def)
  obtain r1 c1 w1 where s1: "Send os h c w = (r1, c1, w1)"
    by (cases "Send os h c w")
  note st1 = Send_stream [OF assms(1) s1]
  show ?thesis
  proof (cases r1)
    case (Inl e)
    with st1 obtain j where "j \<le> length h" "sent w1 = sent w @ take j h"
      by auto
    moreover have "r = Inl e" "w' = w1"
      using assms(3) p s1 Inl
      by (auto simp: SendSocketMessage_def SendBuffer_def on_conn_def h_def [symmetric] Let_def)
    ultimately show ?thesis
      by (intro exI [of _ j]) (simp add: f)
  next
    case (Inr u)
    with st1 have w1: "sent w1 = sent w @ h" "c1 = c" "pending w1 = pending w"
      by auto
    obtain r2 c2 w2 where s2: "Send os p c w1 = (r2, c2, w2)"
      by (cases "Send os p c w1")
    from Send_stream [OF assms(1) s2] obtain j where
      "j \<le> length p" "sent w2 = sent w1 @ take j p"
      "r2 = OkStatus \<longrightarrow> j = length p \<and> c2 = c \<and> pending w2 = pending w1"
      by blast
    moreover have "r = r2" "conn' = Some c2" "w' = w2"
      using assms(3) p s1 Inr s2 w1
      by (auto simp: SendSocketMessage_def SendBuffer_def on_conn_def h_def [symmetric] Let_def)
    ultimately show ?thesis
      using w1 by (intro exI [of _ "length h + j"]) (auto simp: f)
  qed
qed

lemma SendSocketMessage_too_big:
  assumes "\<not> fits m"
  shows "SendSocketMessage os m (Some c) w =
    (InvalidArgumentError ''Serialized payload size exceeds limit.'', Some c, w)"
  using assms Serialize_total [of m "[]"] by (auto simp: SendSocketMessage_def fits_def)

lemma SendSocketMessage_conn:
  assumes "stream_laws os (m_socket c) sent pending"
    and "SendSocketMessage os m (Some c) w = (r, conn', w')"
  shows "\<exists>c'. conn' = Some c' \<and> (c' = c \<and> pending w' = pending w \<or> \<not> IsOpen c')"
proof -
  have send: "\<exists>c'. conn1 = Some c' \<and> (c' = c \<and> pending w1 = pending w0 \<or> \<not> IsOpen c')"
    if "SendBuffer os bs (Some c) w0 = (r1, conn1, w1)" for bs w0 r1 conn1 w1
    using that Send_conn [OF assms(1)] by (auto simp: SendBuffer_def on_conn_def split: prod.splits)
  have closed: "\<not> IsOpen c' \<Longrightarrow> SendBuffer os bs (Some c') w1 = (r1, conn1, w2) \<Longrightarrow> conn1 = Some c'"
    for c' bs w1 r1 conn1 w2
    by (auto simp: SendBuffer_def on_conn_def Send_def)
  show ?thesis
    using assms(2) send closed
    by (auto simp: SendSocketMessage_def Let_def split: sum.splits prod.splits if_splits) metis+
qed

lemma SendSocketMessage_keeps:
  assumes "writable_laws os (m_socket c)" and "IsOpen c" and "\<not> m_is_listening c"
  shows "\<exists>w'. SendSocketMessage os m (Some c) w =
    (if fits m then OkStatus
     else InvalidArgumentError ''Serialized payload size exceeds limit.'', Some c, w')"
proof (cases "fits m")
  case True
  then obtain p where p: "Serialize m [] = Inr p" "length p \<le> kMaxPayloadSize"
    by (auto simp: fits_def)
  define h where "h = htonl_bytes (MessageType_value (GetMessageType m)) @
      htonl_bytes (word_of_nat (length p))"
  obtain w1 w2 where "Send os h c w = (OkStatus, c, w1)" "Send os p c w1 = (OkStatus, c, w2)"
    using Send_delivers [OF assms] by meson
  with True p show ?thesis
    by (simp add: SendSocketMessage_def SendBuffer_def on_conn_def Let_def flip: h_def)
qed (simp add: SendSocketMessage_too_big)

lemma SendSocketMessage_delivers:
  assumes "stream_laws os (m_socket c) sent pending" and "writable_laws os (m_socket c)"
    and "IsOpen c" and "\<not> m_is_listening c" and "fits m"
  shows "\<exists>w'. SendSocketMessage os m (Some c) w = (OkStatus, Some c, w') \<and>
    sent w' = sent w @ frame m \<and> pending w' = pending w"
proof -
  obtain w' where s: "SendSocketMessage os m (Some c) w = (OkStatus, Some c, w')"
    using SendSocketMessage_keeps [OF assms(2-4), of m w] assms(5) by auto
  from SendSocketMessage_wire [OF assms(1,5) s] s show ?thesis by auto
qed

section \<open>Receiving a frame\<close>

text \<open>The header of a frame decodes to the type and the exact payload length.\<close>

lemma frame_header:
  assumes "fits m"
  obtains h p where "frame m = h @ p" "length h = kHeaderSize" "Serialize m [] = Inr p"
    "ntohl_bytes (take 4 h) = MessageType_value (GetMessageType m)"
    "unat (ntohl_bytes (take 4 (drop 4 h))) = length p" "length p \<le> kMaxPayloadSize"
proof -
  obtain p where p: "Serialize m [] = Inr p" "length p \<le> kMaxPayloadSize"
    using assms by (auto simp: fits_def)
  have "unat (word_of_nat (length p) :: u32) = length p"
    using p(2) by (simp add: kMaxPayloadSize_def unat_of_nat)
  with p show ?thesis
    by (intro that [of "htonl_bytes (MessageType_value (GetMessageType m)) @
          htonl_bytes (word_of_nat (length p))" p])
      (simp_all add: frame_def kHeaderSize_def)
qed

lemma ReceiveSocketMessage_sound:
  assumes "stream_laws os (m_socket c) sent pending" and "fits m"
    and "pending w = frame m @ rest"
    and "ReceiveSocketMessage os t (Some c) w = (Inr m', conn', w')"
  shows "m' = m" and "pending w' = rest" and "conn' = Some c" and "sent w' = sent w"
proof -
  from assms(2) obtain h p where f: "frame m = h @ p" "length h = kHeaderSize"
    "Serialize m [] = Inr p" "ntohl_bytes (take 4 h) = MessageType_value (GetMessageType m)"
    "unat (ntohl_bytes (take 4 (drop 4 h))) = length p" "length p \<le> kMaxPayloadSize"
    by (rule frame_header)
  obtain h' conn1 w1 where r1: "ReceiveBuffer os kHeaderSize t (Some c) w = (Inr h', conn1, w1)"
    using assms(4) by (auto simp: ReceiveSocketMessage_def split: prod.splits sum.splits)
  note e1 = ReceiveBuffer_stream [OF assms(1) r1]
  have h': "h' = h" "pending w1 = p @ rest"
    using e1(1,2) assms(3) f(1,2) by auto
  obtain p' conn2 w2 where r2: "ReceiveBuffer os (length p) t (Some c) w1 = (Inr p', conn2, w2)"
    using assms(4) r1 e1(4) h' f(5,6)
    by (auto simp: ReceiveSocketMessage_def Let_def status_defs split: prod.splits sum.splits)
  note e2 = ReceiveBuffer_stream [OF assms(1) r2]
  have p': "p' = p" "pending w2 = rest"
    using e2(1,2) h'(2) by auto
  have "deserialize_as (MessageType_value (GetMessageType m)) p = Some (Inr m)"
    using deserialize_Serialize [OF fits_ok [OF assms(2)] f(3)] .
  then have "(Inr m', conn', w') = (Inr m :: message status_or, Some c, w2)"
    using assms(4) r1 r2 e1 e2 h' p' f
    by (auto simp: ReceiveSocketMessage_def Let_def)
  with p' e1 e2 show "m' = m" and "pending w' = rest" and "conn' = Some c" and "sent w' = sent w"
    by auto
qed

lemma ReceiveSocketMessage_delivers:
  assumes "stream_laws os (m_socket c) sent pending" and "readable_laws os (m_socket c) pending"
    and "IsOpen c" and "\<not> m_is_listening c" and "fits m" and "pending w = frame m @ rest"
  shows "\<exists>w'. ReceiveSocketMessage os t (Some c) w = (Inr m, Some c, w') \<and> pending w' = rest \<and>
    sent w' = sent w"
proof -
  from assms(5) obtain h p where f: "frame m = h @ p" "length h = kHeaderSize"
    "Serialize m [] = Inr p" "ntohl_bytes (take 4 h) = MessageType_value (GetMessageType m)"
    "unat (ntohl_bytes (take 4 (drop 4 h))) = length p" "length p \<le> kMaxPayloadSize"
    by (rule frame_header)
  have "pending w = h @ (p @ rest)"
    using assms(6) f(1) by simp
  from ReceiveBuffer_delivers [OF assms(1-4) this f(2), of t]
  obtain w1 where r1: "ReceiveBuffer os kHeaderSize t (Some c) w = (Inr h, Some c, w1)"
    and w1: "pending w1 = p @ rest" "sent w1 = sent w" by blast
  from ReceiveBuffer_delivers [OF assms(1-4) w1(1) refl, of t]
  obtain w2 where r2: "ReceiveBuffer os (length p) t (Some c) w1 = (Inr p, Some c, w2)"
    and w2: "pending w2 = rest" "sent w2 = sent w1" by blast
  have "deserialize_as (MessageType_value (GetMessageType m)) p = Some (Inr m)"
    using deserialize_Serialize [OF fits_ok [OF assms(5)] f(3)] .
  with r1 r2 f w1 w2 show ?thesis
    by (simp add: ReceiveSocketMessage_def Let_def)
qed

text \<open>A frame that is too long, of unknown type or undecodable closes the connection.\<close>

lemma ReceiveSocketMessage_malformed:
  assumes "stream_laws os (m_socket c) sent pending" and "readable_laws os (m_socket c) pending"
    and "IsOpen c" and "\<not> m_is_listening c"
    and "pending w = htonl_bytes type @ htonl_bytes n @ payload @ rest"
    and "kMaxPayloadSize < unat n \<or>
      length payload = unat n \<and> (\<forall>m. deserialize_as type payload \<noteq> Some (Inr m))"
  shows "\<exists>e c' w'. ReceiveSocketMessage os t (Some c) w = (Inl e, Some c', w') \<and> \<not> IsOpen c'"
proof -
  let ?h = "htonl_bytes type @ htonl_bytes n"
  have "pending w = ?h @ (payload @ rest)" "length ?h = kHeaderSize"
    using assms(5) by (simp_all add: kHeaderSize_def)
  from ReceiveBuffer_delivers [OF assms(1-4) this, of t]
  obtain w1 where r1: "ReceiveBuffer os kHeaderSize t (Some c) w = (Inr ?h, Some c, w1)"
    and w1: "pending w1 = payload @ rest" by blast
  have closed: "\<exists>c' w'. close_conn os (Some c) w2 = (Some c', w') \<and> \<not> IsOpen c'" for w2
    using assms(3) by (simp add: close_conn_def Close_def IsOpen_def)
  show ?thesis
  proof (cases "kMaxPayloadSize < unat n")
    case True
    with r1 closed [of w1] show ?thesis
      by (auto simp: ReceiveSocketMessage_def Let_def status_defs)
  next
    case False
    with assms(6) have p: "length payload = unat n" "\<forall>m. deserialize_as type payload \<noteq> Some (Inr m)"
      by auto
    from ReceiveBuffer_delivers [OF assms(1-4) w1 p(1), of t] obtain w2 where
      "ReceiveBuffer os (unat n) t (Some c) w1 = (Inr payload, Some c, w2)" by blast
    with False r1 p(2) closed [of w2] show ?thesis
      by (auto simp: ReceiveSocketMessage_def Let_def status_defs split: option.splits sum.splits)
  qed
qed

section \<open>A successful exchange leaves the connection object alone\<close>

lemma SendSocketMessage_ok: "SendSocketMessage os m conn w = (Inr u, conn', w') \<Longrightarrow> conn' = conn"
  by (auto simp: SendSocketMessage_def SendBuffer_def on_conn_def Let_def status_defs null_conn_error_def
      split: sum.splits prod.splits if_splits option.splits dest!: Send_ok)

lemma receive_buffer_loop_ok:
  "receive_buffer_loop os data n t c w = (Inr data', c', w') \<Longrightarrow> c' = c"
proof (induction os data n t c w rule: receive_buffer_loop.induct)
  case (1 os data n t c w)
  show ?case
    using "1.prems" "1.IH" Recv_ok
    by (subst (asm) receive_buffer_loop.simps) (fastforce split: if_splits prod.splits sum.splits)
qed

lemma ReceiveSocketMessage_ok:
  "ReceiveSocketMessage os t conn w = (Inr m, conn', w') \<Longrightarrow> conn' = conn"
  by (auto simp: ReceiveSocketMessage_def ReceiveBuffer_def on_conn_def Let_def status_defs
        null_conn_error_def close_conn_def
      split: sum.splits prod.splits if_splits option.splits dest!: receive_buffer_loop_ok)

end
