(* ===== verification/Net_Server.thy ===== *)
theory Net_Server
  imports Net_Framing "HOL-Library.Sublist"
begin

text \<open>
  The server side: the request helpers of \<^verbatim>\<open>network/message_utils.cc\<close>, the handlers
  \<^verbatim>\<open>DefaultMessageHandler\<close> (\<^verbatim>\<open>network/unix_domain_server.cc\<close>) and \<^verbatim>\<open>BaseMessageHandler\<close>
  (\<^verbatim>\<open>network/base_message_handler.cc\<close>), and the accept-and-handle loop of \<^verbatim>\<open>UnixDomainServer\<close>.

  \<^verbatim>\<open>std::filesystem\<close> is a parameter, the record \<open>'w filesystem\<close>; an \<^verbatim>\<open>std::error_code\<close> that is set
  is its message. Log output is not modelled.

  The locale \<open>message_handler\<close> is the contract between the loop and any handler: handling a message
  only appends to the outgoing stream and either leaves the connection as it was or closes it.
\<close>

record 'w filesystem =
  path_is_regular_file :: "string \<Rightarrow> 'w \<Rightarrow> bool \<times> string option"
  path_file_size :: "string \<Rightarrow> 'w \<Rightarrow> u64 \<times> string option"
  path_remove :: "string \<Rightarrow> 'w \<Rightarrow> (bool \<times> string option) \<times> 'w"

section \<open>Request helpers\<close>

definition SendPong :: "'w os \<Rightarrow> (unit, 'w) conn_op" where
  "SendPong os = SendSocketMessage os PongMessage"

definition Handshake :: "'w os \<Rightarrow> HandshakeMessage \<Rightarrow> (unit, 'w) conn_op" where
  "Handshake os request =
     SendSocketMessage os
       (HandshakeResponse \<lparr>m_major_version = m_major_version request,
          m_minor_version = m_minor_version request\<rparr>)"

text \<open>The response object as the branches of \<^verbatim>\<open>DownloadFile\<close> fill it in.\<close>

definition download_response :: "'w filesystem \<Rightarrow> string \<Rightarrow> 'w \<Rightarrow> DownloadFileResponse" where
  "download_response fs file_path w =
    (let response = \<lparr>df_found = False, df_error_reason = [], df_file_path = [], df_file_size = 0\<rparr> in
     case path_is_regular_file fs file_path w of
       (True, _) \<Rightarrow>
         (case path_file_size fs file_path w of
            (file_size, None) \<Rightarrow>
              response\<lparr>df_found := True, df_file_path := file_path, df_file_size := file_size\<rparr>
          | (_, Some ec) \<Rightarrow> response\<lparr>df_found := False, df_error_reason := ec\<rparr>)
     | (False, ec) \<Rightarrow>
         response\<lparr>df_found := False,
           df_error_reason :=
             (case ec of Some m \<Rightarrow> m
              | None \<Rightarrow> ''Path does not exist or is not a regular file'')\<rparr>)"

definition DownloadFile :: "'w os \<Rightarrow> 'w filesystem \<Rightarrow> string \<Rightarrow> (unit, 'w) conn_op" where
  "DownloadFile os fs file_path conn w =
    (let response = download_response fs file_path w in
     case SendSocketMessage os (DownloadFileResponseMsg response) conn w of
       (Inl e, conn, w) \<Rightarrow> (Inl (StatusWithContext e ''DownloadFile''), conn, w)
     | (Inr _, conn, w) \<Rightarrow>
         if \<not> df_found response then (NotFoundError (df_error_reason response), conn, w)
         else (case conn of
                 None \<Rightarrow> (null_conn_error, conn, w)
               | Some c \<Rightarrow> on_conn (SendFile os file_path) c w))"

definition file_size_response :: "'w filesystem \<Rightarrow> string \<Rightarrow> 'w \<Rightarrow> FileSizeResponse" where
  "file_size_response fs file_path w =
    (let response = \<lparr>fs_found = False, fs_error_reason = [], fs_file_size = 0\<rparr> in
     case path_is_regular_file fs file_path w of
       (True, _) \<Rightarrow>
         (case path_file_size fs file_path w of
            (file_size, None) \<Rightarrow> response\<lparr>fs_found := True, fs_file_size := file_size\<rparr>
          | (_, Some ec) \<Rightarrow> response\<lparr>fs_found := False, fs_error_reason := ec\<rparr>)
     | (False, ec) \<Rightarrow>
         response\<lparr>fs_found := False,
           fs_error_reason :=
             (case ec of Some m \<Rightarrow> m
              | None \<Rightarrow> ''Path does not exist or is not a regular file'')\<rparr>)"

definition GetFileSize :: "'w os \<Rightarrow> 'w filesystem \<Rightarrow> string \<Rightarrow> (unit, 'w) conn_op" where
  "GetFileSize os fs file_path conn w =
     SendSocketMessage os (FileSizeResponseMsg (file_size_response fs file_path w)) conn w"

definition RemoveFile :: "'w os \<Rightarrow> 'w filesystem \<Rightarrow> string \<Rightarrow> (unit, 'w) conn_op" where
  "RemoveFile os fs file_path conn w =
    (case path_remove fs file_path w of
       ((removed, ec), w) \<Rightarrow>
         let response =
               (if removed then \<lparr>rf_error_reason = [], rf_success = True\<rparr>
                else \<lparr>rf_error_reason = (case ec of Some m \<Rightarrow> m | None \<Rightarrow> ''Unknown error''),
                      rf_success = False\<rparr>)
         in SendSocketMessage os (RemoveFileResponseMsg response) conn w)"

section \<open>Handlers\<close>

text \<open>
  \<^verbatim>\<open>HandleMessage\<close> returns nothing: a failed status is only logged. A null client connection is
  logged and ignored; the message the loop passes is never null.
\<close>

type_synonym 'w handle_fun =
  "message \<Rightarrow> SocketConnection option \<Rightarrow> 'w \<Rightarrow> SocketConnection option \<times> 'w"

definition ignore_status ::
    "(unit, 'w) conn_op \<Rightarrow> SocketConnection option \<Rightarrow> 'w \<Rightarrow> SocketConnection option \<times> 'w" where
  "ignore_status op client_conn w =
    (if client_conn = None then (client_conn, w)
     else (case op client_conn w of (_, conn', w') \<Rightarrow> (conn', w')))"

fun DefaultMessageHandler_HandleMessage :: "'w os \<Rightarrow> 'w handle_fun" where
  "DefaultMessageHandler_HandleMessage os (HandshakeRequest request) =
     ignore_status (SendSocketMessage os
       (HandshakeResponse \<lparr>m_major_version = m_major_version request,
          m_minor_version = m_minor_version request\<rparr>))"
| "DefaultMessageHandler_HandleMessage os PingMessage =
     ignore_status (SendSocketMessage os PongMessage)"
| "DefaultMessageHandler_HandleMessage os _ = Pair"

fun BaseMessageHandler_HandleMessage :: "'w filesystem \<Rightarrow> 'w os \<Rightarrow> 'w handle_fun" where
  "BaseMessageHandler_HandleMessage fs os PingMessage = ignore_status (SendPong os)"
| "BaseMessageHandler_HandleMessage fs os (HandshakeRequest request) =
     ignore_status (Handshake os request)"
| "BaseMessageHandler_HandleMessage fs os (DownloadFileRequest path) =
     ignore_status (DownloadFile os fs path)"
| "BaseMessageHandler_HandleMessage fs os (FileSizeRequest path) =
     ignore_status (GetFileSize os fs path)"
| "BaseMessageHandler_HandleMessage fs os (RemoveFileRequest path) =
     ignore_status (RemoveFile os fs path)"
| "BaseMessageHandler_HandleMessage fs os _ = Pair"

section \<open>The accept-and-handle loop\<close>

text \<open>
  The server thread runs \<^verbatim>\<open>AcceptAndHandleClientLoop\<close> while \<^verbatim>\<open>Stop\<close> may run in another thread. The
  loop is cut where the other thread can be observed: at its head and when a blocking call has
  returned but its result has not been used yet. \<open>events\<close> records the calls made to the handler.
\<close>

datatype handler_event = OnConnect | HandleMessage message | OnDisconnect

datatype loop_pc =
    LoopHead
  | AcceptReturned "SocketConnection status_or"
  | ClientReady
  | ReceiveReturned "message status_or"
  | Exited

record 'w UnixDomainServer =
  m_listen_connection :: "SocketConnection option"
  m_client_connection :: "SocketConnection option"
  m_is_running :: bool
  pc :: loop_pc
  events :: "handler_event list"
  world :: 'w

text \<open>Destroying a connection object closes its socket.\<close>

definition destroy_conn :: "'w os \<Rightarrow> SocketConnection option \<Rightarrow> 'w \<Rightarrow> 'w" where
  "destroy_conn os conn w = (case conn of None \<Rightarrow> w | Some c \<Rightarrow> snd (Close os c w))"

definition ResetClientConnection :: "'w os \<Rightarrow> 'w UnixDomainServer \<Rightarrow> 'w UnixDomainServer" where
  "ResetClientConnection os s =
     s\<lparr>m_client_connection := None, world := destroy_conn os (m_client_connection s) (world s)\<rparr>"

definition log_event :: "handler_event \<Rightarrow> 'w UnixDomainServer \<Rightarrow> 'w UnixDomainServer" where
  "log_event e s = s\<lparr>events := events s @ [e]\<rparr>"

text \<open>\<^verbatim>\<open>Start\<close>: binds a fresh connection and starts the loop thread.\<close>

definition Start :: "'w os \<Rightarrow> string \<Rightarrow> 'w UnixDomainServer \<Rightarrow> unit status_or \<times> 'w UnixDomainServer"
  where
  "Start os server_address s =
    (if m_is_running s then (AlreadyExistsError ''Start: Server is already running.'', s)
     else
       (case BindAndListenOnUnixDomain os server_address (SocketConnection_new kInvalidSocketValue)
               (world s) of
          (Inl e, c, w) \<Rightarrow>
            (Inl (StatusWithContext e ''Start: Failed to bind and listen socket''),
             s\<lparr>world := destroy_conn os (Some c) w\<rparr>)
        | (Inr _, c, w) \<Rightarrow>
            (OkStatus,
             s\<lparr>m_listen_connection := Some c, m_is_running := True, pc := LoopHead,
               world := destroy_conn os (m_listen_connection s) w\<rparr>)))"

text \<open>\<^verbatim>\<open>Stop\<close>, up to joining the thread.\<close>

definition Stop :: "'w os \<Rightarrow> 'w UnixDomainServer \<Rightarrow> 'w UnixDomainServer" where
  "Stop os s =
     ResetClientConnection os
       (s\<lparr>m_is_running := False, m_listen_connection := None,
          world := destroy_conn os (m_listen_connection s) (world s)\<rparr>)"

definition exit_loop :: "'w UnixDomainServer \<Rightarrow> 'w UnixDomainServer" where
  "exit_loop s = s\<lparr>m_is_running := False, pc := Exited\<rparr>"

fun loop_step :: "'w os \<Rightarrow> 'w handle_fun \<Rightarrow> 'w UnixDomainServer \<Rightarrow> 'w UnixDomainServer" where
  "loop_step os handle s =
    (case pc s of
       LoopHead \<Rightarrow>
         if \<not> m_is_running s then exit_loop s
         else (case m_client_connection s of
                 Some _ \<Rightarrow> s\<lparr>pc := ClientReady\<rparr>
               | None \<Rightarrow>
                   (case m_listen_connection s of
                      None \<Rightarrow> exit_loop s
                    | Some l \<Rightarrow>
                        if \<not> IsOpen l then exit_loop s
                        else (case Accept os l (world s) of
                                (acc_connection, l, w) \<Rightarrow>
                                  s\<lparr>m_listen_connection := Some l, world := w,
                                    pc := AcceptReturned acc_connection\<rparr>)))
     | AcceptReturned (Inl _) \<Rightarrow>
         if \<not> m_is_running s then exit_loop s else s\<lparr>pc := LoopHead\<rparr>
     | AcceptReturned (Inr c) \<Rightarrow>
         log_event OnConnect (s\<lparr>m_client_connection := Some c, pc := ClientReady\<rparr>)
     | ClientReady \<Rightarrow>
         (case m_client_connection s of
            None \<Rightarrow> s\<lparr>pc := LoopHead\<rparr>
          | Some c \<Rightarrow>
              if \<not> IsOpen c
              then (ResetClientConnection os (log_event OnDisconnect s))\<lparr>pc := LoopHead\<rparr>
              else (case ReceiveSocketMessage os kNoTimeout (Some c) (world s) of
                      (recv_message, conn, w) \<Rightarrow>
                        s\<lparr>m_client_connection := conn, world := w,
                          pc := ReceiveReturned recv_message\<rparr>))
     | ReceiveReturned (Inl _) \<Rightarrow>
         if \<not> m_is_running s then exit_loop (log_event OnDisconnect s)
         else (ResetClientConnection os (log_event OnDisconnect s))\<lparr>pc := LoopHead\<rparr>
     | ReceiveReturned (Inr m) \<Rightarrow>
         (case handle m (m_client_connection s) (world s) of
            (conn, w) \<Rightarrow>
              log_event (HandleMessage m)
                (s\<lparr>m_client_connection := conn, world := w, pc := LoopHead\<rparr>))
     | Exited \<Rightarrow> s)"

declare loop_step.simps [simp del]

inductive server_step ::
    "'w os \<Rightarrow> 'w handle_fun \<Rightarrow> 'w UnixDomainServer \<Rightarrow> 'w UnixDomainServer \<Rightarrow> bool"
  for os :: "'w os" and handle :: "'w handle_fun" where
  loop: "server_step os handle s (loop_step os handle s)"
| stop: "server_step os handle s (Stop os s)"

inductive server_run ::
    "'w os \<Rightarrow> 'w handle_fun \<Rightarrow> 'w UnixDomainServer \<Rightarrow> 'w UnixDomainServer \<Rightarrow> bool"
  for os :: "'w os" and handle :: "'w handle_fun" where
  here: "server_run os handle s s"
| step: "server_run os handle s t \<Longrightarrow> server_step os handle t u \<Longrightarrow> server_run os handle s u"

inductive_cases server_stepE: "server_step os handle s t"

text \<open>A freshly started server: running, at the loop head, no client.\<close>

definition started :: "'w UnixDomainServer \<Rightarrow> bool" where
  "started s \<longleftrightarrow> m_is_running s \<and> pc s = LoopHead \<and> m_client_connection s = None \<and> events s = []"

section \<open>The handler contract\<close>

locale message_handler =
  fixes handle :: "'w os \<Rightarrow> 'w handle_fun"
    and env :: "('w \<Rightarrow> buffer) \<Rightarrow> ('w \<Rightarrow> buffer) \<Rightarrow> bool"
  assumes handle_null: "handle os m None w = (None, w)"
    and handle_conn: "fst (handle os m (Some c) w) \<noteq> None"
    and handle_appends:
      "stream_laws os (m_socket c) sent pending \<Longrightarrow> env sent pending \<Longrightarrow>
       handle os m (Some c) w = (Some c', w') \<Longrightarrow>
       (\<exists>bs. sent w' = sent w @ bs) \<and> (c' = c \<and> pending w' = pending w \<or> \<not> IsOpen c')"
    and handle_keeps:
      "writable_laws os (m_socket c) \<Longrightarrow> IsOpen c \<Longrightarrow> \<not> m_is_listening c \<Longrightarrow>
       fst (handle os m (Some c) w) = Some c"

lemma ignore_status_null [simp]: "ignore_status op None w = (None, w)"
  by (simp add: ignore_status_def)

lemma SendSocketMessage_appends:
  assumes "stream_laws os (m_socket c) sent pending"
    and "SendSocketMessage os m (Some c) w = (r, conn', w')"
  shows "\<exists>bs. sent w' = sent w @ bs"
proof (cases "fits m")
  case True
  from SendSocketMessage_wire [OF assms(1) True assms(2)] show ?thesis by blast
next
  case False
  with assms(2) show ?thesis by (simp add: SendSocketMessage_too_big)
qed

text \<open>What each reply operation contributes to the contract.\<close>

definition reply_op ::
    "'w os \<Rightarrow> (('w \<Rightarrow> buffer) \<Rightarrow> ('w \<Rightarrow> buffer) \<Rightarrow> bool) \<Rightarrow> (unit, 'w) conn_op \<Rightarrow> bool" where
  "reply_op os env op \<longleftrightarrow>
     (\<forall>c w r conn' w'. op (Some c) w = (r, conn', w') \<longrightarrow>
        conn' \<noteq> None \<and>
        (writable_laws os (m_socket c) \<longrightarrow> IsOpen c \<longrightarrow> \<not> m_is_listening c \<longrightarrow> conn' = Some c) \<and>
        (\<forall>sent pending. stream_laws os (m_socket c) sent pending \<longrightarrow> env sent pending \<longrightarrow>
           (\<exists>bs. sent w' = sent w @ bs) \<and>
           (conn' = Some c \<and> pending w' = pending w \<or> \<not> IsOpen (the conn'))))"

lemma reply_opI:
  assumes "\<And>c w r conn' w'. op (Some c) w = (r, conn', w') \<Longrightarrow> conn' \<noteq> None"
    and "\<And>c w r conn' w'. op (Some c) w = (r, conn', w') \<Longrightarrow> writable_laws os (m_socket c) \<Longrightarrow>
      IsOpen c \<Longrightarrow> \<not> m_is_listening c \<Longrightarrow> conn' = Some c"
    and "\<And>c w r conn' w' sent pending. op (Some c) w = (r, conn', w') \<Longrightarrow>
      stream_laws os (m_socket c) sent pending \<Longrightarrow> env sent pending \<Longrightarrow>
      (\<exists>bs. sent w' = sent w @ bs) \<and>
      (conn' = Some c \<and> pending w' = pending w \<or> \<not> IsOpen (the conn'))"
  shows "reply_op os env op"
  using assms unfolding reply_op_def by blast

lemma SendSocketMessage_nonnull:
  "SendSocketMessage os m (Some c) w = (r, conn', w') \<Longrightarrow> conn' \<noteq> None"
  by (auto simp: SendSocketMessage_def SendBuffer_def on_conn_def Let_def
      split: sum.splits prod.splits if_splits)

lemma reply_SendSocketMessage: "reply_op os env (SendSocketMessage os m)"
proof (rule reply_opI)
  fix c w r conn' w' sent pending
  assume "SendSocketMessage os m (Some c) w = (r, conn', w')"
    and "stream_laws os (m_socket c) sent pending"
  then show "(\<exists>bs. sent w' = sent w @ bs) \<and>
      (conn' = Some c \<and> pending w' = pending w \<or> \<not> IsOpen (the conn'))"
    using SendSocketMessage_appends SendSocketMessage_conn by (metis option.sel)
next
  fix c w r conn' w'
  assume "SendSocketMessage os m (Some c) w = (r, conn', w')" and "writable_laws os (m_socket c)"
    and "IsOpen c" and "\<not> m_is_listening c"
  then show "conn' = Some c"
    using SendSocketMessage_keeps [of os c m w] by auto
qed (rule SendSocketMessage_nonnull)

text \<open>Removing a file does not touch the client's stream.\<close>

definition filesystem_frame ::
    "'w filesystem \<Rightarrow> ('w \<Rightarrow> buffer) \<Rightarrow> ('w \<Rightarrow> buffer) \<Rightarrow> bool" where
  "filesystem_frame fs sent pending \<longleftrightarrow>
     (\<forall>path w r w'. path_remove fs path w = (r, w') \<longrightarrow>
        sent w' = sent w \<and> pending w' = pending w)"

lemma reply_RemoveFile: "reply_op os (filesystem_frame fs) (RemoveFile os fs path)"
proof (rule reply_opI)
  fix c w r conn' w' sent pending
  assume op: "RemoveFile os fs path (Some c) w = (r, conn', w')"
    and laws: "stream_laws os (m_socket c) sent pending"
    and fr: "filesystem_frame fs sent pending"
  obtain x w1 where rm: "path_remove fs path w = (x, w1)"
    by (cases "path_remove fs path w")
  from op rm obtain m where "SendSocketMessage os m (Some c) w1 = (r, conn', w')"
    by (auto simp: RemoveFile_def Let_def split: prod.splits)
  moreover have "sent w1 = sent w" "pending w1 = pending w"
    using fr rm unfolding filesystem_frame_def by blast+
  ultimately show "(\<exists>bs. sent w' = sent w @ bs) \<and>
      (conn' = Some c \<and> pending w' = pending w \<or> \<not> IsOpen (the conn'))"
    using SendSocketMessage_appends [OF laws] SendSocketMessage_conn [OF laws]
    by (metis option.sel)
next
  fix c w r conn' w'
  assume "RemoveFile os fs path (Some c) w = (r, conn', w')" and "writable_laws os (m_socket c)"
    and "IsOpen c" and "\<not> m_is_listening c"
  then show "conn' = Some c"
    using SendSocketMessage_keeps [of os c]
    by (auto simp: RemoveFile_def Let_def split: prod.splits) (metis prod.inject)+
qed (auto simp: RemoveFile_def Let_def split: prod.splits dest: SendSocketMessage_nonnull)

lemma DownloadFile_cases:
  assumes "DownloadFile os fs path (Some c) w = (r, conn', w')"
  obtains (response_only) r1 where
      "SendSocketMessage os (DownloadFileResponseMsg (download_response fs path w)) (Some c) w =
        (r1, conn', w')"
    | (with_file) c1 w1 c' where
      "SendSocketMessage os (DownloadFileResponseMsg (download_response fs path w)) (Some c) w =
        (OkStatus, Some c1, w1)"
      "df_found (download_response fs path w)"
      "SendFile os path c1 w1 = (r, c', w')" "conn' = Some c'"
  using assms
  by (auto simp: DownloadFile_def Let_def on_conn_def
      split: sum.splits prod.splits option.splits if_splits)

lemma reply_DownloadFile: "reply_op os env (DownloadFile os fs path)"
proof (rule reply_opI)
  fix c w r conn' w' sent pending
  assume op: "DownloadFile os fs path (Some c) w = (r, conn', w')"
    and laws: "stream_laws os (m_socket c) sent pending"
  from op show "(\<exists>bs. sent w' = sent w @ bs) \<and>
      (conn' = Some c \<and> pending w' = pending w \<or> \<not> IsOpen (the conn'))"
  proof (cases rule: DownloadFile_cases)
    case (response_only r1)
    with laws show ?thesis
      using SendSocketMessage_appends SendSocketMessage_conn by (metis option.sel)
  next
    case (with_file c1 w1 c')
    let ?m = "DownloadFileResponseMsg (download_response fs path w)"
    obtain bs where bs: "sent w1 = sent w @ bs"
      using SendSocketMessage_appends [OF laws with_file(1)] by blast
    have fits: "fits ?m"
      using with_file(1) SendSocketMessage_too_big [of ?m os c w]
      by (auto simp: status_defs)
    then have "c1 = c" "pending w1 = pending w"
      using SendSocketMessage_wire [OF laws fits with_file(1)] by auto
    with SendFile_appends [OF _ with_file(3), of sent pending] laws bs with_file(4) show ?thesis
      by auto
  qed
next
  fix c w r conn' w'
  assume op: "DownloadFile os fs path (Some c) w = (r, conn', w')"
    and env: "writable_laws os (m_socket c)" "IsOpen c" "\<not> m_is_listening c"
  from op show "conn' = Some c"
  proof (cases rule: DownloadFile_cases)
    case (response_only r1)
    with SendSocketMessage_keeps [OF env] show ?thesis by (metis prod.inject)
  next
    case (with_file c1 w1 c')
    then have "c1 = c"
      using SendSocketMessage_keeps [OF env] by (metis prod.inject option.inject)
    with SendFile_keeps [OF env] with_file(3,4) show ?thesis by blast
  qed
qed (auto elim!: DownloadFile_cases dest: SendSocketMessage_nonnull)

lemma reply_op_dependent:
  assumes "\<And>w. reply_op os env (op w)"
  shows "reply_op os env (\<lambda>conn w. op w conn w)"
  unfolding reply_op_def
proof (intro allI impI)
  fix c w r conn' w'
  assume "op w (Some c) w = (r, conn', w')"
  from assms [of w, unfolded reply_op_def, rule_format, OF this]
  show "conn' \<noteq> None \<and>
      (writable_laws os (m_socket c) \<longrightarrow> IsOpen c \<longrightarrow> \<not> m_is_listening c \<longrightarrow> conn' = Some c) \<and>
      (\<forall>sent pending. stream_laws os (m_socket c) sent pending \<longrightarrow> env sent pending \<longrightarrow>
         (\<exists>bs. sent w' = sent w @ bs) \<and>
         (conn' = Some c \<and> pending w' = pending w \<or> \<not> IsOpen (the conn')))"
    by simp
qed

lemma reply_GetFileSize: "reply_op os env (GetFileSize os fs path)"
  using reply_op_dependent [OF reply_SendSocketMessage] by (simp add: GetFileSize_def [abs_def])

lemma ignore_status_reply:
  assumes "reply_op os env op"
  shows "fst (ignore_status op (Some c) w) \<noteq> None"
    and "writable_laws os (m_socket c) \<Longrightarrow> IsOpen c \<Longrightarrow> \<not> m_is_listening c \<Longrightarrow>
      fst (ignore_status op (Some c) w) = Some c"
    and "stream_laws os (m_socket c) sent pending \<Longrightarrow> env sent pending \<Longrightarrow>
      ignore_status op (Some c) w = (Some c', w') \<Longrightarrow>
      (\<exists>bs. sent w' = sent w @ bs) \<and> (c' = c \<and> pending w' = pending w \<or> \<not> IsOpen c')"
proof -
  obtain r conn1 w1 where op: "op (Some c) w = (r, conn1, w1)"
    by (cases "op (Some c) w")
  note * = assms [unfolded reply_op_def, rule_format, OF op]
  show "fst (ignore_status op (Some c) w) \<noteq> None"
    using op * by (simp add: ignore_status_def)
  show "writable_laws os (m_socket c) \<Longrightarrow> IsOpen c \<Longrightarrow> \<not> m_is_listening c \<Longrightarrow>
      fst (ignore_status op (Some c) w) = Some c"
    using op * by (simp add: ignore_status_def)
  show "stream_laws os (m_socket c) sent pending \<Longrightarrow> env sent pending \<Longrightarrow>
      ignore_status op (Some c) w = (Some c', w') \<Longrightarrow>
      (\<exists>bs. sent w' = sent w @ bs) \<and> (c' = c \<and> pending w' = pending w \<or> \<not> IsOpen c')"
    using op * by (auto simp: ignore_status_def)
qed

lemma handler_from_replies:
  assumes "\<And>os m. h os m = Pair \<or> (\<exists>op. h os m = ignore_status op \<and> reply_op os env op)"
  shows "message_handler h env"
proof (unfold_locales, goal_cases)
  case (1 os m w)
  then show ?case using assms [of os m] by auto
next
  case (2 os m c w)
  then show ?case using assms [of os m] ignore_status_reply(1) by fastforce
next
  case (3 os c sent pending m w c' w')
  show ?case
  proof (cases "h os m = Pair")
    case True
    with 3(3) show ?thesis by auto
  next
    case False
    then obtain op where "h os m = ignore_status op" "reply_op os env op"
      using assms [of os m] by blast
    with ignore_status_reply(3) [of os env op c sent pending w c' w'] 3 show ?thesis by simp
  qed
next
  case (4 os c m w)
  then show ?case using assms [of os m] ignore_status_reply(2) by fastforce
qed

interpretation default_handler: message_handler DefaultMessageHandler_HandleMessage "\<lambda>_ _. True"
proof (rule handler_from_replies)
  fix os :: "'w os" and m
  show "DefaultMessageHandler_HandleMessage os m = Pair \<or>
      (\<exists>op. DefaultMessageHandler_HandleMessage os m = ignore_status op \<and> reply_op os (\<lambda>_ _. True) op)"
    by (cases m) (auto intro: reply_SendSocketMessage)
qed

interpretation base_handler:
  message_handler "BaseMessageHandler_HandleMessage fs" "filesystem_frame fs" for fs :: "'w filesystem"
proof (rule handler_from_replies)
  fix os :: "'w os" and m
  show "BaseMessageHandler_HandleMessage fs os m = Pair \<or>
      (\<exists>op. BaseMessageHandler_HandleMessage fs os m = ignore_status op \<and>
        reply_op os (filesystem_frame fs) op)"
    by (cases m, simp_all only: BaseMessageHandler_HandleMessage.simps SendPong_def Handshake_def)
      ((rule disjI1, rule refl) | (rule disjI2, rule exI, rule conjI, rule refl,
        rule reply_SendSocketMessage reply_DownloadFile reply_GetFileSize reply_RemoveFile))+
qed

section \<open>Sessions\<close>

text \<open>
  The calls a handler may see: connect, any number of messages, disconnect, and again. The state
  says whether a session is open; \<open>None\<close> is a call out of order.
\<close>

fun session_next :: "bool option \<Rightarrow> handler_event \<Rightarrow> bool option" where
  "session_next (Some False) OnConnect = Some True"
| "session_next (Some True) (HandleMessage m) = Some True"
| "session_next (Some True) OnDisconnect = Some False"
| "session_next _ _ = None"

definition session_state :: "handler_event list \<Rightarrow> bool option" where
  "session_state evs = foldl session_next (Some False) evs"

definition server_inv :: "'w UnixDomainServer \<Rightarrow> bool" where
  "server_inv s \<longleftrightarrow>
    (case pc s of
       LoopHead \<Rightarrow>
         (case m_client_connection s of
            Some _ \<Rightarrow> session_state (events s) = Some True
          | None \<Rightarrow> session_state (events s) = Some False \<or>
                    session_state (events s) = Some True \<and> \<not> m_is_running s)
     | AcceptReturned _ \<Rightarrow> session_state (events s) = Some False \<and> m_client_connection s = None
     | ClientReady \<Rightarrow> session_state (events s) = Some True \<and>
                      (m_client_connection s = None \<longrightarrow> \<not> m_is_running s)
     | ReceiveReturned _ \<Rightarrow> session_state (events s) = Some True \<and>
                            (m_client_connection s = None \<longrightarrow> \<not> m_is_running s)
     | Exited \<Rightarrow> session_state (events s) \<noteq> None \<and> \<not> m_is_running s)"

lemma session_state_snoc [simp]:
  "session_state (evs @ [e]) = session_next (session_state evs) e"
  by (simp add: session_state_def)

lemmas server_updates = ResetClientConnection_def log_event_def exit_loop_def Stop_def

lemma server_inv_started: "started s \<Longrightarrow> server_inv s"
  by (simp add: started_def server_inv_def session_state_def)

lemma server_inv_stop: "server_inv s \<Longrightarrow> server_inv (Stop os s)"
  by (auto simp: server_inv_def server_updates split: loop_pc.splits option.splits)

lemma ReceiveSocketMessage_nonnull:
  "ReceiveSocketMessage os t (Some c) w = (r, conn', w') \<Longrightarrow> conn' \<noteq> None"
  by (auto simp: ReceiveSocketMessage_def ReceiveBuffer_def on_conn_def close_conn_def Let_def
      split: sum.splits prod.splits if_splits option.splits)

context message_handler
begin

lemma server_inv_loop: "server_inv s \<Longrightarrow> server_inv (loop_step os (handle os) s)"
proof (cases "pc s")
  case (ReceiveReturned r)
  assume inv: "server_inv s"
  show ?thesis
  proof (cases r)
    case (Inl e)
    with inv ReceiveReturned show ?thesis
      by (auto simp: server_inv_def loop_step.simps server_updates)
  next
    case (Inr m)
    obtain conn w where h: "handle os m (m_client_connection s) (world s) = (conn, w)"
      by (cases "handle os m (m_client_connection s) (world s)")
    have "conn = None \<Longrightarrow> m_client_connection s = None"
      using h handle_conn by (metis fst_conv option.exhaust)
    with inv ReceiveReturned Inr h show ?thesis
      by (auto simp: server_inv_def loop_step.simps server_updates split: option.splits)
  qed
next
  case ClientReady
  assume "server_inv s"
  with ClientReady show ?thesis
    by (auto simp: server_inv_def loop_step.simps server_updates
        split: option.splits prod.splits dest: ReceiveSocketMessage_nonnull)
qed (auto simp: server_inv_def loop_step.simps server_updates
    split: option.splits prod.splits sum.splits)

lemma server_run_inv: "server_run os (handle os) s t \<Longrightarrow> server_inv s \<Longrightarrow> server_inv t"
proof (induction rule: server_run.induct)
  case (step s t u)
  from step.hyps(2) show ?case
    by (rule server_stepE) (use step in \<open>auto intro: server_inv_loop server_inv_stop\<close>)
qed

lemma server_run_session:
  assumes "started s" and "server_run os (handle os) s t"
  shows "session_state (events t) \<noteq> None"
  using server_run_inv [OF assms(2) server_inv_started [OF assms(1)]]
  by (auto simp: server_inv_def split: loop_pc.splits option.splits)

end

section \<open>Messages reach the handler in order\<close>

lemma ReceiveSocketMessage_needs_bytes:
  assumes "stream_laws os (m_socket c) sent pending"
    and "ReceiveSocketMessage os t (Some c) w = (Inr m, conn', w')"
  shows "pending w \<noteq> []"
proof -
  obtain h conn1 w1 where "ReceiveBuffer os kHeaderSize t (Some c) w = (Inr h, conn1, w1)"
    using assms(2) by (auto simp: ReceiveSocketMessage_def split: prod.splits sum.splits)
  from ReceiveBuffer_stream(1,2) [OF assms(1) this] show ?thesis
    by (auto simp: kHeaderSize_def)
qed

text \<open>
  The state of one session whose peer sends the messages \<open>ms\<close>: \<open>hs\<close> have been handled, \<open>todo\<close> are
  still to come.
\<close>

definition session_open ::
    "('w \<Rightarrow> buffer) \<Rightarrow> SocketConnection \<Rightarrow> message list \<Rightarrow> 'w UnixDomainServer \<Rightarrow> bool" where
  "session_open pending c todo t \<longleftrightarrow>
     pc t = Exited \<or> (\<exists>e. pc t = ReceiveReturned (Inl e)) \<or>
     pc t \<in> {LoopHead, ClientReady} \<and>
       (m_client_connection t = None \<and> \<not> m_is_running t \<or>
        (\<exists>c'. m_client_connection t = Some c' \<and>
           (c' = c \<and> pending (world t) = concat (map frame todo) \<or> \<not> IsOpen c'))) \<or>
     (\<exists>m todo'. todo = m # todo' \<and> pc t = ReceiveReturned (Inr m) \<and>
        (m_client_connection t = None \<and> \<not> m_is_running t \<or>
         m_client_connection t = Some c \<and> pending (world t) = concat (map frame todo')))"

definition session_trace ::
    "('w \<Rightarrow> buffer) \<Rightarrow> SocketConnection \<Rightarrow> handler_event list \<Rightarrow> message list \<Rightarrow>
     'w UnixDomainServer \<Rightarrow> bool" where
  "session_trace pending c evs ms t \<longleftrightarrow>
     (\<exists>hs todo. ms = hs @ todo \<and>
        (events t = evs @ map HandleMessage hs \<and> session_open pending c todo t \<or>
         (\<exists>es. events t = evs @ map HandleMessage hs @ OnDisconnect # es)))"

lemma session_trace_closed:
  assumes "events t = evs @ map HandleMessage hs @ OnDisconnect # es" and "ms = hs @ todo"
    and "\<exists>es'. events u = events t @ es'"
  shows "session_trace pending c evs ms u"
  using assms unfolding session_trace_def by auto

lemma session_traceI:
  assumes "events t = evs @ map HandleMessage hs" and "session_open pending c todo t"
  shows "session_trace pending c evs (hs @ todo) t"
  using assms unfolding session_trace_def by (intro exI [of _ hs] exI [of _ todo]) simp

lemma session_trace_disconnect:
  assumes "events t = (evs @ map HandleMessage hs) @ [OnDisconnect]"
  shows "session_trace pending c evs (hs @ todo) t"
  using assms unfolding session_trace_def by (intro exI [of _ hs] exI [of _ todo]) simp

lemma session_openE:
  assumes "session_open pending c todo t"
  obtains (exited) "pc t = Exited"
    | (failed) e where "pc t = ReceiveReturned (Inl e)"
    | (none) "pc t \<in> {LoopHead, ClientReady}" "m_client_connection t = None" "\<not> m_is_running t"
    | (client) c' where "pc t \<in> {LoopHead, ClientReady}" "m_client_connection t = Some c'"
        "c' = c \<and> pending (world t) = concat (map frame todo) \<or> \<not> IsOpen c'"
    | (got) m todo' where "todo = m # todo'" "pc t = ReceiveReturned (Inr m)"
        "m_client_connection t = None \<and> \<not> m_is_running t \<or>
         m_client_connection t = Some c \<and> pending (world t) = concat (map frame todo')"
  using assms unfolding session_open_def by metis

lemma loop_step_events: "\<exists>es. events (loop_step os handle s) = events s @ es"
  by (auto simp: loop_step.simps server_updates
      split: loop_pc.splits option.splits prod.splits sum.splits)

lemma Stop_events: "events (Stop os s) = events s"
  by (simp add: server_updates)

context message_handler
begin

lemma session_receive:
  assumes "stream_laws os (m_socket c) sent pending" and "\<forall>m \<in> set todo. fits m"
    and "pending w = concat (map frame todo)"
    and "ReceiveSocketMessage os t (Some c) w = (Inr m, conn', w')"
  shows "\<exists>todo'. todo = m # todo' \<and> conn' = Some c \<and> pending w' = concat (map frame todo')"
proof (cases todo)
  case Nil
  with assms(3) ReceiveSocketMessage_needs_bytes [OF assms(1,4)] show ?thesis by simp
next
  case (Cons m1 todo')
  with assms(2,3) have "fits m1" "pending w = frame m1 @ concat (map frame todo')"
    by simp_all
  from ReceiveSocketMessage_sound [OF assms(1) this assms(4)] Cons show ?thesis by simp
qed

lemma session_open_receive:
  assumes laws: "stream_laws os (m_socket c) sent pending" and fit: "\<forall>m \<in> set todo. fits m"
    and ready: "pc t = ClientReady" "m_client_connection t = Some c" "IsOpen c"
    and pend: "pending (world t) = concat (map frame todo)"
  shows "session_open pending c todo (loop_step os (handle os) t)"
    and "events (loop_step os (handle os) t) = events t"
proof -
  obtain r conn' w' where
    recv: "ReceiveSocketMessage os kNoTimeout (Some c) (world t) = (r, conn', w')"
    by (cases "ReceiveSocketMessage os kNoTimeout (Some c) (world t)")
  show "session_open pending c todo (loop_step os (handle os) t)"
  proof (cases r)
    case (Inl e)
    with ready recv show ?thesis
      by (simp add: loop_step.simps session_open_def)
  next
    case (Inr m)
    with recv have
      "ReceiveSocketMessage os kNoTimeout (Some c) (world t) = (Inr m, conn', w')" by simp
    from session_receive [OF laws fit pend this] recv Inr ready show ?thesis
      by (auto simp: loop_step.simps session_open_def)
  qed
  from ready recv show "events (loop_step os (handle os) t) = events t"
    by (simp add: loop_step.simps)
qed

lemma session_open_handle:
  assumes laws: "stream_laws os (m_socket c) sent pending" "env sent pending"
    and got: "pc t = ReceiveReturned (Inr m)"
      "m_client_connection t = None \<and> \<not> m_is_running t \<or>
       m_client_connection t = Some c \<and> pending (world t) = concat (map frame todo)"
  shows "session_open pending c todo (loop_step os (handle os) t)"
    and "events (loop_step os (handle os) t) = events t @ [HandleMessage m]"
proof -
  obtain conn' w' where h: "handle os m (m_client_connection t) (world t) = (conn', w')"
    by (cases "handle os m (m_client_connection t) (world t)")
  have "conn' = None \<and> \<not> m_is_running t \<or>
      (\<exists>c'. conn' = Some c' \<and> (c' = c \<and> pending w' = concat (map frame todo) \<or> \<not> IsOpen c'))"
  proof (cases "m_client_connection t")
    case None
    with h got(2) handle_null show ?thesis by auto
  next
    case (Some c0)
    with got(2) have c0: "m_client_connection t = Some c"
      "pending (world t) = concat (map frame todo)" by auto
    with h obtain c' where c': "conn' = Some c'"
      using handle_conn by (metis fst_conv option.exhaust)
    with h c0 have "handle os m (Some c) (world t) = (Some c', w')" by simp
    from handle_appends [OF laws this] c' c0 show ?thesis by auto
  qed
  with got h show "session_open pending c todo (loop_step os (handle os) t)"
    and "events (loop_step os (handle os) t) = events t @ [HandleMessage m]"
    by (auto simp: loop_step.simps session_open_def server_updates)
qed

lemma session_open_loop:
  assumes laws: "stream_laws os (m_socket c) sent pending" "env sent pending" "IsOpen c"
    and fit: "\<forall>m \<in> set todo. fits m" and "session_open pending c todo t"
    and ev: "events t = evs @ map HandleMessage hs"
  shows "session_trace pending c evs (hs @ todo) (loop_step os (handle os) t)"
  using assms(5)
proof (cases rule: session_openE)
  case exited
  then show ?thesis
    using ev by (intro session_traceI) (auto simp: loop_step.simps session_open_def)
next
  case (failed e)
  then show ?thesis
    using ev by (intro session_trace_disconnect) (auto simp: loop_step.simps server_updates)
next
  case none
  then show ?thesis
    using ev by (intro session_traceI) (auto simp: loop_step.simps session_open_def server_updates)
next
  case (client c')
  consider (head) "pc t = LoopHead" | (closed) "pc t = ClientReady" "\<not> IsOpen c'"
    | (ready) "pc t = ClientReady" "c' = c" "pending (world t) = concat (map frame todo)"
    using client by blast
  then show ?thesis
  proof cases
    case head
    then show ?thesis
      using ev client
      by (intro session_traceI) (auto simp: loop_step.simps session_open_def server_updates)
  next
    case closed
    then show ?thesis
      using ev client by (intro session_trace_disconnect) (simp add: loop_step.simps server_updates)
  next
    case ready
    then show ?thesis
      using ev client session_open_receive [OF laws(1) fit, of t] laws(3)
      by (intro session_traceI) auto
  qed
next
  case (got m todo')
  from session_open_handle [OF laws(1,2) got(2,3)] ev got(1) show ?thesis
    unfolding session_trace_def by (intro exI [of _ "hs @ [m]"] exI [of _ todo']) auto
qed

lemma session_trace_run:
  assumes laws: "stream_laws os (m_socket c) sent pending" "env sent pending" "IsOpen c"
    and fit: "\<forall>m \<in> set ms. fits m"
    and run: "server_run os (handle os) s t"
    and init: "session_trace pending c evs ms s"
  shows "session_trace pending c evs ms t"
  using run init
proof (induction rule: server_run.induct)
  case (step s t u)
  from step.IH [OF step.prems] obtain hs todo where ms: "ms = hs @ todo"
    and d: "events t = evs @ map HandleMessage hs \<and> session_open pending c todo t \<or>
      (\<exists>es. events t = evs @ map HandleMessage hs @ OnDisconnect # es)"
    unfolding session_trace_def by blast
  have more: "\<exists>es. events u = events t @ es"
    using step.hyps(2) by (rule server_stepE) (auto simp: loop_step_events Stop_events)
  show ?case
  proof (cases "\<exists>es. events t = evs @ map HandleMessage hs @ OnDisconnect # es")
    case True
    with session_trace_closed [OF _ ms more] show ?thesis by blast
  next
    case False
    with d have o: "events t = evs @ map HandleMessage hs" "session_open pending c todo t"
      by auto
    from step.hyps(2) show ?thesis
    proof (rule server_stepE)
      assume "u = loop_step os (handle os) t"
      with session_open_loop [OF laws _ o(2,1)] fit ms show ?thesis by simp
    next
      assume u: "u = Stop os t"
      with o(2) have "session_open pending c todo u"
        by (auto simp: session_open_def server_updates)
      with u o(1) ms show ?thesis
        unfolding session_trace_def by (intro exI [of _ hs] exI [of _ todo]) (auto simp: Stop_events)
    qed
  qed
qed

text \<open>Once stopped, the loop leaves within two steps unless a client has just been accepted.\<close>

lemma Stop_exits:
  assumes "\<forall>c. pc s \<noteq> AcceptReturned (Inr c)"
  shows "pc ((loop_step os (handle os) ^^ 2) (Stop os s)) = Exited"
proof (cases "pc s")
  case (AcceptReturned r)
  with assms show ?thesis
    by (cases r) (auto simp: numeral_2_eq_2 loop_step.simps server_updates)
next
  case (ReceiveReturned r)
  then show ?thesis
    by (cases r) (auto simp: numeral_2_eq_2 loop_step.simps server_updates handle_null)
qed (auto simp: numeral_2_eq_2 loop_step.simps server_updates)

text \<open>Three loop steps handle the next message when the peer neither stalls nor stops reading.\<close>

lemma loop_handles_one:
  assumes "stream_laws os (m_socket c) sent pending" "env sent pending"
    and "readable_laws os (m_socket c) pending" "writable_laws os (m_socket c)"
    and "IsOpen c" "\<not> m_is_listening c" "fits m"
    and "m_is_running s" "pc s = LoopHead" "m_client_connection s = Some c"
    and "pending (world s) = frame m @ rest"
  shows "\<exists>t. t = (loop_step os (handle os) ^^ 3) s \<and> m_is_running t \<and> pc t = LoopHead \<and>
    m_client_connection t = Some c \<and> events t = events s @ [HandleMessage m] \<and>
    pending (world t) = rest"
proof -
  let ?step = "loop_step os (handle os)"
  have s1: "?step s = s\<lparr>pc := ClientReady\<rparr>"
    using assms(8-10) by (simp add: loop_step.simps)
  obtain w1 where recv: "ReceiveSocketMessage os kNoTimeout (Some c) (world s) = (Inr m, Some c, w1)"
    and w1: "pending w1 = rest"
    using ReceiveSocketMessage_delivers [OF assms(1,3,5,6,7,11)] by blast
  define s2 where "s2 = s\<lparr>m_client_connection := Some c, world := w1, pc := ReceiveReturned (Inr m)\<rparr>"
  have step2: "?step (s\<lparr>pc := ClientReady\<rparr>) = s2"
    using assms(5,10) recv by (simp add: loop_step.simps s2_def)
  obtain w2 where h: "handle os m (Some c) w1 = (Some c, w2)"
    using handle_keeps [OF assms(4,5,6), of m w1] by (metis prod.collapse)
  then have w2: "pending w2 = rest"
    using handle_appends [OF assms(1,2) h] assms(5) w1 by auto
  have step3: "?step s2 = log_event (HandleMessage m)
      (s2\<lparr>m_client_connection := Some c, world := w2, pc := LoopHead\<rparr>)"
    using h by (simp add: loop_step.simps s2_def)
  show ?thesis
    using s1 step2 step3 w2 assms(8) by (simp add: numeral_3_eq_3 s2_def log_event_def)
qed

lemma loop_handles_all:
  assumes "stream_laws os (m_socket c) sent pending" "env sent pending"
    and "readable_laws os (m_socket c) pending" "writable_laws os (m_socket c)"
    and "IsOpen c" "\<not> m_is_listening c" "\<forall>m \<in> set ms. fits m"
    and "m_is_running s" "pc s = LoopHead" "m_client_connection s = Some c"
    and "pending (world s) = concat (map frame ms) @ rest"
  shows "events ((loop_step os (handle os) ^^ (3 * length ms)) s) = events s @ map HandleMessage ms"
  using assms(7-11)
proof (induction ms arbitrary: s)
  case Nil
  then show ?case by simp
next
  case (Cons m ms)
  obtain t where t: "t = (loop_step os (handle os) ^^ 3) s" "m_is_running t" "pc t = LoopHead"
    "m_client_connection t = Some c" "events t = events s @ [HandleMessage m]"
    "pending (world t) = concat (map frame ms) @ rest"
    using loop_handles_one [OF assms(1-6), of m s "concat (map frame ms) @ rest"] Cons.prems
    by auto
  have "3 * length (m # ms) = 3 * length ms + 3" by simp
  then have "(loop_step os (handle os) ^^ (3 * length (m # ms))) s =
      (loop_step os (handle os) ^^ (3 * length ms)) t"
    unfolding t(1) by (simp only: funpow_add comp_apply)
  moreover have "events ((loop_step os (handle os) ^^ (3 * length ms)) t) =
      events t @ map HandleMessage ms"
    using Cons.prems(1) t(2-4,6) by (intro Cons.IH) auto
  ultimately show ?case using t(5) by simp
qed

end

section \<open>What a download sends\<close>

lemma DownloadFile_bytes:
  assumes "stream_laws os (m_socket c) sent pending" and "source_file_laws os path contents"
    and "DownloadFile os fs path (Some c) w = (OkStatus, conn', w')"
    and "df_found (download_response fs path w)"
  shows "fits (DownloadFileResponseMsg (download_response fs path w)) \<and>
    sent w' = sent w @ frame (DownloadFileResponseMsg (download_response fs path w)) @ contents"
proof -
  let ?m = "DownloadFileResponseMsg (download_response fs path w)"
  obtain r1 conn1 w1 where s: "SendSocketMessage os ?m (Some c) w = (r1, conn1, w1)"
    by (cases "SendSocketMessage os ?m (Some c) w")
  have ok: "r1 = OkStatus"
    using assms(3) s by (cases r1) (auto simp: DownloadFile_def Let_def)
  have fits: "fits ?m"
    using s ok SendSocketMessage_too_big [of ?m os c w] by (auto simp: status_defs)
  from SendSocketMessage_wire [OF assms(1) fits s] ok
  have w1: "sent w1 = sent w @ frame ?m" "conn1 = Some c" by auto
  obtain c' where "SendFile os path c w1 = (OkStatus, c', w')"
    using assms(3,4) s ok w1(2) by (auto simp: DownloadFile_def on_conn_def split: prod.splits)
  from SendFile_stream [OF assms(1,2) this] w1 fits show ?thesis by simp
qed

lemma DownloadFile_delivers:
  assumes "stream_laws os (m_socket c) sent pending" and "writable_laws os (m_socket c)"
    and "source_file_laws os path contents" and "IsOpen c" and "\<not> m_is_listening c"
    and "fits (DownloadFileResponseMsg (download_response fs path w))"
    and "df_found (download_response fs path w)"
  shows "\<exists>w'. DownloadFile os fs path (Some c) w = (OkStatus, Some c, w')"
proof -
  obtain w1 where "SendSocketMessage os (DownloadFileResponseMsg (download_response fs path w))
      (Some c) w = (OkStatus, Some c, w1)"
    using SendSocketMessage_delivers [OF assms(1,2,4-6)] by blast
  moreover obtain w2 where "SendFile os path c w1 = (OkStatus, c, w2)"
    using SendFile_delivers [OF assms(1-5)] by blast
  ultimately show ?thesis
    using assms(7) by (simp add: DownloadFile_def on_conn_def)
qed

end
