(* ===== verification/Net_Client.thy ===== *)
theory Net_Client
  imports Net_Framing
begin

text \<open>
  \<^verbatim>\<open>network/tcp_client.cc\<close>: the client object, its request operations, and the keep-alive thread.

  Every request takes \<^verbatim>\<open>m_connection_mutex\<close> for its whole body, and \<^verbatim>\<open>Connect\<close> and \<^verbatim>\<open>Disconnect\<close>
  first join the keep-alive thread, so the operations and the iterations of \<^verbatim>\<open>KeepAliveLoop\<close> are
  atomic steps that interleave: \<open>client_step\<close>. The keep-alive thread is represented by whether its
  \<^verbatim>\<open>std::thread\<close> is joinable and by the \<^verbatim>\<open>running\<close> flag; starting a thread over a joinable one would
  end the program (\<^verbatim>\<open>std::terminate\<close>), which \<open>terminated\<close> records. Console output is left out.
\<close>

datatype ClientStatus = DISCONNECTED | CONNECTING | CONNECTED | CONNECTION_FAILED

record TcpClient =
  m_connection :: "SocketConnection option"
  m_status :: ClientStatus
  keep_alive_joinable :: bool
  keep_alive_running :: bool
  terminated :: bool

type_synonym ('a, 'w) client_op = "TcpClient \<Rightarrow> 'w \<Rightarrow> 'a status_or \<times> TcpClient \<times> 'w"

record DrawcallFilterConfig =
  target_render_pass_name :: string
  target_vertex_count :: u32
  target_index_count :: u32
  target_instance_count :: u32
  max_drawcalls :: u32
  filter_by_vertex_count :: bool
  filter_by_index_count :: bool
  filter_by_instance_count :: bool
  enable_drawcall_limit :: bool
  filter_by_alpha_blended :: bool
  filter_by_render_pass :: bool

definition kPingTimeoutMs :: int where
  "kPingTimeoutMs = 5000"

definition kHandshakeMajorVersion :: u32 where
  "kHandshakeMajorVersion = 1"

definition kHandshakeMinorVersion :: u32 where
  "kHandshakeMinorVersion = 0"

definition TcpClient_new :: TcpClient where
  "TcpClient_new =
     \<lparr>m_connection = None, m_status = DISCONNECTED, keep_alive_joinable = False,
      keep_alive_running = False, terminated = False\<rparr>"

definition SetClientStatus :: "ClientStatus \<Rightarrow> TcpClient \<Rightarrow> TcpClient" where
  "SetClientStatus st cl = cl\<lparr>m_status := st\<rparr>"

definition SetStatusAndReturnError ::
    "ClientStatus \<Rightarrow> status \<Rightarrow> TcpClient \<Rightarrow> 'w \<Rightarrow> 'a status_or \<times> TcpClient \<times> 'w" where
  "SetStatusAndReturnError st error_status cl w = (Inl error_status, SetClientStatus st cl, w)"

definition IsConnected :: "TcpClient \<Rightarrow> bool" where
  "IsConnected cl \<longleftrightarrow>
     m_status cl = CONNECTED \<and> (case m_connection cl of None \<Rightarrow> False | Some c \<Rightarrow> IsOpen c)"

text \<open>\<^verbatim>\<open>m_connection.reset()\<close>: the destructor closes the socket.\<close>

definition reset_connection :: "'w os \<Rightarrow> TcpClient \<Rightarrow> 'w \<Rightarrow> TcpClient \<times> 'w" where
  "reset_connection os cl w =
     (cl\<lparr>m_connection := None\<rparr>,
      case m_connection cl of None \<Rightarrow> w | Some c \<Rightarrow> snd (Close os c w))"

section \<open>Request and response\<close>

text \<open>
  The body all requests share: the connection check, the send, the receive, and the check of the
  response's type. The texts are those of the particular operation.
\<close>

record request_texts =
  not_connected_text :: string
  send_fail_text :: string
  receive_fail_text :: string
  unexpected_text :: string

definition request_response ::
    "'w os \<Rightarrow> request_texts \<Rightarrow> message \<Rightarrow> int \<Rightarrow> MessageType \<Rightarrow> (message, 'w) client_op" where
  "request_response os texts request timeout_ms expected cl w =
    (if \<not> IsConnected cl then (FailedPreconditionError (not_connected_text texts), cl, w)
     else
      (case SendSocketMessage os request (m_connection cl) w of
         (Inl e, conn, w) \<Rightarrow>
           SetStatusAndReturnError CONNECTION_FAILED (StatusWithContext e (send_fail_text texts))
             (cl\<lparr>m_connection := conn\<rparr>) w
       | (Inr _, conn, w) \<Rightarrow>
          (case ReceiveSocketMessage os timeout_ms conn w of
             (Inl e, conn, w) \<Rightarrow>
               SetStatusAndReturnError CONNECTION_FAILED
                 (StatusWithContext e (receive_fail_text texts)) (cl\<lparr>m_connection := conn\<rparr>) w
           | (Inr response, conn, w) \<Rightarrow>
               if GetMessageType response \<noteq> expected
               then (FailedPreconditionError
                       (unexpected_text texts @ ''(Expected: '' @
                        show_nat (unat (MessageType_value expected)) @ '', Got: '' @
                        show_nat (unat (MessageType_value (GetMessageType response))) @ '').''),
                     cl\<lparr>m_connection := conn\<rparr>, w)
               else (Inr response, cl\<lparr>m_connection := conn\<rparr>, w))))"

text \<open>Run the rest of an operation on the response.\<close>

definition then_response ::
    "(message, 'w) client_op \<Rightarrow> (message \<Rightarrow> ('a, 'w) client_op) \<Rightarrow> ('a, 'w) client_op" where
  "then_response op k cl w =
    (case op cl w of
       (Inl e, cl, w) \<Rightarrow> (Inl e, cl, w)
     | (Inr response, cl, w) \<Rightarrow> k response cl w)"

definition StartPm4Capture :: "'w os \<Rightarrow> (string, 'w) client_op" where
  "StartPm4Capture os =
     then_response
       (request_response os
          \<lparr>not_connected_text = ''StartPm4Capture: Client is not connected.'',
           send_fail_text = ''StartPm4Capture: SendSocketMessage fail'',
           receive_fail_text = ''StartPm4Capture: ReceiveSocketMessage fail'',
           unexpected_text = ''StartPm4Capture: Unexpected message type in Capture response ''\<rparr>
          Pm4CaptureRequest kNoTimeout PM4_CAPTURE_RESPONSE)
       (\<lambda>response cl w.
          (case response of
             Pm4CaptureResponse str \<Rightarrow> Inr str
           | _ \<Rightarrow> InternalError
               ''StartPm4Capture: Failed to cast received message to Pm4CaptureResponse.'', cl, w))"

definition DownloadFileFromServer ::
    "'w os \<Rightarrow> string \<Rightarrow> string \<Rightarrow> (nat \<Rightarrow> 'w \<Rightarrow> 'w) option \<Rightarrow> (unit, 'w) client_op" where
  "DownloadFileFromServer os remote_file_path local_save_path progress_callback =
     then_response
       (request_response os
          \<lparr>not_connected_text = ''DownloadFileFromServer: Client is not connected.'',
           send_fail_text = ''DownloadFileFromServer: SendSocketMessage fail'',
           receive_fail_text = ''DownloadFileFromServer: ReceiveSocketMessage fail'',
           unexpected_text =
             ''DownloadFileFromServer: Unexpected message type in Download response ''\<rparr>
          (DownloadFileRequest remote_file_path) kNoTimeout DOWNLOAD_FILE_RESPONSE)
       (\<lambda>response cl w.
          case (response, m_connection cl) of
            (DownloadFileResponseMsg download_response, Some c) \<Rightarrow>
              if \<not> df_found download_response
              then (NotFoundError
                      (''DownloadFileFromServer: Server could not provide file. Reason: '' @
                       df_error_reason download_response), cl, w)
              else
                (case ReceiveFile os local_save_path (unat (df_file_size download_response))
                        progress_callback c w of
                   (Inl e, c, w) \<Rightarrow>
                     SetStatusAndReturnError CONNECTION_FAILED
                       (StatusWithContext e ''DownloadFileFromServer: ReceiveFile fail'')
                       (cl\<lparr>m_connection := Some c\<rparr>) w
                 | (Inr _, c, w) \<Rightarrow> (OkStatus, cl\<lparr>m_connection := Some c\<rparr>, w))
          | _ \<Rightarrow> (InternalError ''unreachable: the response type was checked'', cl, w))"

definition GetCaptureFileSize :: "'w os \<Rightarrow> string \<Rightarrow> (u64, 'w) client_op" where
  "GetCaptureFileSize os remote_file_path =
     then_response
       (request_response os
          \<lparr>not_connected_text = ''GetCaptureFileSize: Client is not connected.'',
           send_fail_text = ''GetCaptureFileSize: SendSocketMessage fail'',
           receive_fail_text = ''GetCaptureFileSize: ReceiveSocketMessage fail'',
           unexpected_text = ''GetCaptureFileSize: Unexpected message type in response ''\<rparr>
          (FileSizeRequest remote_file_path) kNoTimeout FILE_SIZE_RESPONSE)
       (\<lambda>response cl w.
          (case response of
             FileSizeResponseMsg file_size_response \<Rightarrow>
               if \<not> fs_found file_size_response
               then NotFoundError (''GetCaptureFileSize: Server could not find file. Reason: '' @
                      fs_error_reason file_size_response)
               else Inr (fs_file_size file_size_response)
           | _ \<Rightarrow> InternalError ''unreachable: the response type was checked'', cl, w))"

definition TcpClient_RemoveFile :: "'w os \<Rightarrow> string \<Rightarrow> (unit, 'w) client_op" where
  "TcpClient_RemoveFile os remote_file_path =
     then_response
       (request_response os
          \<lparr>not_connected_text = ''RemoveFile: Client is not connected.'',
           send_fail_text = ''RemoveFile: SendSocketMessage fail'',
           receive_fail_text = ''RemoveFile: ReceiveSocketMessage fail'',
           unexpected_text = ''RemoveFile: Unexpected message type in response ''\<rparr>
          (RemoveFileRequest remote_file_path) kNoTimeout REMOVE_FILE_RESPONSE)
       (\<lambda>response cl w.
          (case response of
             RemoveFileResponseMsg remove_response \<Rightarrow>
               if \<not> rf_success remove_response
               then InternalError (''RemoveFile: Server failed to remove file. Reason: '' @
                      rf_error_reason remove_response)
               else OkStatus
           | _ \<Rightarrow> InternalError
               ''RemoveFile: Failed to cast received message to RemoveFileResponse.'', cl, w))"

definition SendDrawcallFilterConfig :: "'w os \<Rightarrow> DrawcallFilterConfig \<Rightarrow> (unit, 'w) client_op" where
  "SendDrawcallFilterConfig os config =
     then_response
       (request_response os
          \<lparr>not_connected_text = ''SendDrawcallFilterConfig: Client is not connected.'',
           send_fail_text = ''SendDrawcallFilterConfig: SendSocketMessage fail'',
           receive_fail_text = ''SendDrawcallFilterConfig: ReceiveSocketMessage fail'',
           unexpected_text = ''SendDrawcallFilterConfig: Unexpected message type in response ''\<rparr>
          (DrawcallFilterConfigRequestMsg
             \<lparr>m_target_render_pass_name = target_render_pass_name config,
              m_vertex_count = target_vertex_count config,
              m_index_count = target_index_count config,
              m_instance_count = target_instance_count config,
              m_max_drawcalls = max_drawcalls config,
              m_filter_by_vertex_count = filter_by_vertex_count config,
              m_filter_by_index_count = filter_by_index_count config,
              m_filter_by_instance_count = filter_by_instance_count config,
              m_enable_drawcall_limit = enable_drawcall_limit config,
              m_filter_by_alpha_blended = filter_by_alpha_blended config,
              m_filter_by_render_pass = filter_by_render_pass config\<rparr>)
          kNoTimeout DRAWCALL_FILTER_CONFIG_RESPONSE)
       (\<lambda>response cl w. (OkStatus, cl, w))"

definition GetLivePSOs :: "'w os \<Rightarrow> (PSOInfo list, 'w) client_op" where
  "GetLivePSOs os =
     then_response
       (request_response os
          \<lparr>not_connected_text = ''GetLivePSOs: Client not connected.'',
           send_fail_text = ''GetLivePSOs: SendSocketMessage fail'',
           receive_fail_text = ''GetLivePSOs: ReceiveSocketMessage fail'',
           unexpected_text = ''GetLivePSOs: Unexpected message type in response ''\<rparr>
          LivePSOsRequest kNoTimeout LIVE_PSOS_RESPONSE)
       (\<lambda>response cl w.
          (case response of
             LivePSOsResponse psos \<Rightarrow> Inr psos
           | _ \<Rightarrow> InternalError ''unreachable: the response type was checked'', cl, w))"

definition GetLiveRenderPasses :: "'w os \<Rightarrow> (RenderPassInfo list, 'w) client_op" where
  "GetLiveRenderPasses os =
     then_response
       (request_response os
          \<lparr>not_connected_text = ''GetLiveRenderPasses: Client not connected.'',
           send_fail_text = ''GetLiveRenderPasses: SendSocketMessage fail'',
           receive_fail_text = ''GetLiveRenderPasses: ReceiveSocketMessage fail'',
           unexpected_text = ''GetLiveRenderPasses: Unexpected message type in response ''\<rparr>
          LiveRenderPassesRequest kNoTimeout LIVE_RENDER_PASSES_RESPONSE)
       (\<lambda>response cl w.
          (case response of
             LiveRenderPassesResponse rps \<Rightarrow> Inr rps
           | _ \<Rightarrow> InternalError ''unreachable: the response type was checked'', cl, w))"

definition SendDisableTimestamp :: "'w os \<Rightarrow> bool \<Rightarrow> (unit, 'w) client_op" where
  "SendDisableTimestamp os disable =
     then_response
       (request_response os
          \<lparr>not_connected_text = ''SendDisableTimestamp: Client is not connected.'',
           send_fail_text = ''SendDisableTimestamp: SendSocketMessage fail'',
           receive_fail_text = ''SendDisableTimestamp: ReceiveSocketMessage fail'',
           unexpected_text = ''SendDisableTimestamp: Unexpected message type in response ''\<rparr>
          (DisableTimestampRequest disable) kNoTimeout DISABLE_TIMESTAMP_RESPONSE)
       (\<lambda>response cl w. (OkStatus, cl, w))"

definition PingServer :: "'w os \<Rightarrow> (unit, 'w) client_op" where
  "PingServer os =
     then_response
       (request_response os
          \<lparr>not_connected_text = ''PingServer: Client is not connected.'',
           send_fail_text = ''PingServer: SendSocketMessage fail'',
           receive_fail_text = ''PingServer: ReceiveSocketMessage fail'',
           unexpected_text = ''PingServer: Unexpected message type in Ping response ''\<rparr>
          PingMessage kPingTimeoutMs PONG_MESSAGE)
       (\<lambda>response cl w.
          (case response of
             PongMessage \<Rightarrow> OkStatus
           | _ \<Rightarrow> InternalError ''PingServer: Failed to cast received message to PongMessage.'',
           cl, w))"

definition PerformHandshake :: "'w os \<Rightarrow> (unit, 'w) client_op" where
  "PerformHandshake os =
     then_response
       (request_response os
          \<lparr>not_connected_text = ''PerformHandshake: Client is not connected.'',
           send_fail_text = ''PerformHandshake: SendSocketMessage fail'',
           receive_fail_text = ''PerformHandshake: ReceiveSocketMessage failed'',
           unexpected_text = ''PerformHandshake: Unexpected message type in Handshake response ''\<rparr>
          (HandshakeRequest \<lparr>m_major_version = kHandshakeMajorVersion,
             m_minor_version = kHandshakeMinorVersion\<rparr>)
          kNoTimeout HANDSHAKE_RESPONSE)
       (\<lambda>response cl w.
          (case response of
             HandshakeResponse hs_response \<Rightarrow>
               if m_major_version hs_response \<noteq> kHandshakeMajorVersion \<or>
                  m_minor_version hs_response \<noteq> kHandshakeMinorVersion
               then FailedPreconditionError
                 (''PerformHandshake: Handshake version mismatch. Server is v'' @
                  show_nat (unat (m_major_version hs_response)) @ ''.'' @
                  show_nat (unat (m_minor_version hs_response)) @ '' Client requires v'' @
                  show_nat (unat kHandshakeMajorVersion) @ ''.'' @
                  show_nat (unat kHandshakeMinorVersion))
               else OkStatus
           | _ \<Rightarrow> InternalError
               ''PerformHandshake: Failed to cast received message to HandShakeResponse.'', cl, w))"

section \<open>Connecting and keep-alive\<close>

definition StopKeepAlive :: "TcpClient \<Rightarrow> TcpClient" where
  "StopKeepAlive cl = cl\<lparr>keep_alive_running := False, keep_alive_joinable := False\<rparr>"

definition StartKeepAlive :: "TcpClient \<Rightarrow> unit status_or \<times> TcpClient" where
  "StartKeepAlive cl =
    (if keep_alive_running cl
     then (AlreadyExistsError ''StartKeepAlive: Keep-alive is already running.'', cl)
     else if \<not> IsConnected cl
     then (FailedPreconditionError ''StartKeepAlive: Client is not connected.'', cl)
     else (OkStatus,
           cl\<lparr>keep_alive_running := True,
              terminated := terminated cl \<or> keep_alive_joinable cl,
              keep_alive_joinable := True\<rparr>))"

text \<open>
  One iteration of \<^verbatim>\<open>KeepAliveLoop\<close> after its two-second wait has expired without a stop signal.
\<close>

definition keep_alive_tick :: "'w os \<Rightarrow> TcpClient \<Rightarrow> 'w \<Rightarrow> TcpClient \<times> 'w" where
  "keep_alive_tick os cl w =
    (if \<not> keep_alive_running cl then (cl, w)
     else if IsConnected cl
     then (case PingServer os cl w of
             (Inl _, cl, w) \<Rightarrow>
               ((SetClientStatus CONNECTION_FAILED cl)\<lparr>keep_alive_running := False\<rparr>, w)
           | (Inr _, cl, w) \<Rightarrow> (cl, w))
     else (cl\<lparr>keep_alive_running := False\<rparr>, w))"

text \<open>\<^verbatim>\<open>Connect\<close> once the socket is connected and the status is \<open>CONNECTED\<close>.\<close>

definition connect_established :: "'w os \<Rightarrow> (unit, 'w) client_op" where
  "connect_established os cl w =
    (case PerformHandshake os cl w of
       (Inl e, cl, w) \<Rightarrow>
         (case reset_connection os cl w of
            (cl, w) \<Rightarrow>
              SetStatusAndReturnError CONNECTION_FAILED
                (StatusWithContext e ''Connect: Handshake failed'') cl w)
     | (Inr _, cl, w) \<Rightarrow>
         (case StartKeepAlive cl of
            (Inl e, cl) \<Rightarrow>
              if status_code e = kAlreadyExists then (OkStatus, cl, w)
              else
                (case reset_connection os cl w of
                   (cl, w) \<Rightarrow>
                     SetStatusAndReturnError CONNECTION_FAILED
                       (StatusWithContext e ''Connect: KeepAlive fail'') cl w)
          | (Inr _, cl) \<Rightarrow> (OkStatus, cl, w)))"

definition TcpClient_Connect :: "'w os \<Rightarrow> string \<Rightarrow> int \<Rightarrow> (unit, 'w) client_op" where
  "TcpClient_Connect os host port cl w =
    (if m_status cl = CONNECTED \<or> m_status cl = CONNECTING
     then (AlreadyExistsError
             ''Connect: Client is already connected or in the process of connecting.'', cl, w)
     else
      (case reset_connection os (StopKeepAlive cl) w of
         (cl, w) \<Rightarrow>
           (case SocketConnection_Connect os host port (SocketConnection_new kInvalidSocketValue) w of
              (Inl e, c, w) \<Rightarrow>
                (case reset_connection os
                        ((SetClientStatus CONNECTING cl)\<lparr>m_connection := Some c\<rparr>) w of
                   (cl, w) \<Rightarrow>
                     SetStatusAndReturnError CONNECTION_FAILED
                       (StatusWithContext e ''Connect: Connect fail'') cl w)
            | (Inr _, c, w) \<Rightarrow>
                connect_established os
                  (SetClientStatus CONNECTED
                    ((SetClientStatus CONNECTING cl)\<lparr>m_connection := Some c\<rparr>)) w)))"

definition Disconnect :: "'w os \<Rightarrow> TcpClient \<Rightarrow> 'w \<Rightarrow> TcpClient \<times> 'w" where
  "Disconnect os cl w =
    (let (cl, w) = reset_connection os (StopKeepAlive cl) w in (SetClientStatus DISCONNECTED cl, w))"

section \<open>Calls on a client\<close>

text \<open>
  The public operations and the keep-alive iterations, as atomic calls. The callback of a download
  is fixed to none; it does not act on the client.
\<close>

datatype client_call =
    CallConnect string int
  | CallDisconnect
  | CallStartPm4Capture
  | CallDownloadFileFromServer string string
  | CallGetCaptureFileSize string
  | CallRemoveFile string
  | CallSendDrawcallFilterConfig DrawcallFilterConfig
  | CallGetLivePSOs
  | CallGetLiveRenderPasses
  | CallSendDisableTimestamp bool
  | KeepAliveTick

fun client_exec :: "'w os \<Rightarrow> client_call \<Rightarrow> TcpClient \<times> 'w \<Rightarrow> TcpClient \<times> 'w" where
  "client_exec os (CallConnect host port) (cl, w) = snd (TcpClient_Connect os host port cl w)"
| "client_exec os CallDisconnect (cl, w) = Disconnect os cl w"
| "client_exec os CallStartPm4Capture (cl, w) = snd (StartPm4Capture os cl w)"
| "client_exec os (CallDownloadFileFromServer remote loc) (cl, w) =
     snd (DownloadFileFromServer os remote loc None cl w)"
| "client_exec os (CallGetCaptureFileSize remote) (cl, w) = snd (GetCaptureFileSize os remote cl w)"
| "client_exec os (CallRemoveFile remote) (cl, w) = snd (TcpClient_RemoveFile os remote cl w)"
| "client_exec os (CallSendDrawcallFilterConfig config) (cl, w) =
     snd (SendDrawcallFilterConfig os config cl w)"
| "client_exec os CallGetLivePSOs (cl, w) = snd (GetLivePSOs os cl w)"
| "client_exec os CallGetLiveRenderPasses (cl, w) = snd (GetLiveRenderPasses os cl w)"
| "client_exec os (CallSendDisableTimestamp disable) (cl, w) =
     snd (SendDisableTimestamp os disable cl w)"
| "client_exec os KeepAliveTick (cl, w) = keep_alive_tick os cl w"

definition client_run :: "'w os \<Rightarrow> client_call list \<Rightarrow> TcpClient \<times> 'w \<Rightarrow> TcpClient \<times> 'w" where
  "client_run os calls s = foldl (\<lambda>s call. client_exec os call s) s calls"

section \<open>The contract of a request\<close>

text \<open>
  What every request operation does to the client object: without a connection nothing, on success
  nothing, and on an error either nothing or the status becomes \<open>CONNECTION_FAILED\<close>.
\<close>

locale client_request =
  fixes op :: "('a, 'w) client_op"
  assumes op_not_connected: "\<not> IsConnected cl \<Longrightarrow> \<exists>e. op cl w = (Inl e, cl, w)"
    and op_ok: "op cl w = (Inr x, cl', w') \<Longrightarrow> cl' = cl"
    and op_error: "op cl w = (Inl e, cl', w') \<Longrightarrow>
      cl' = cl \<or> (\<exists>c. cl' = cl\<lparr>m_connection := Some c, m_status := CONNECTION_FAILED\<rparr>)"

text \<open>The state of a client between calls.\<close>

definition client_inv :: "TcpClient \<Rightarrow> bool" where
  "client_inv cl \<longleftrightarrow>
     m_status cl \<noteq> CONNECTING \<and>
     (m_status cl = CONNECTED \<longrightarrow> IsConnected cl) \<and>
     (m_status cl = DISCONNECTED \<longrightarrow> m_connection cl = None \<and> \<not> keep_alive_running cl) \<and>
     (keep_alive_running cl \<longrightarrow> keep_alive_joinable cl) \<and>
     \<not> terminated cl"

context client_request
begin

lemma op_cases:
  obtains x w' where "op cl w = (Inr x, cl, w')"
    | e w' where "op cl w = (Inl e, cl, w')"
    | e c w' where "op cl w = (Inl e, cl\<lparr>m_connection := Some c, m_status := CONNECTION_FAILED\<rparr>, w')"
proof -
  obtain r cl' w' where op: "op cl w = (r, cl', w')" by (cases "op cl w")
  show ?thesis
    using op that op_ok [of cl w] op_error [of cl w] by (cases r) blast+
qed

lemma op_keeps_inv:
  assumes "client_inv cl"
  shows "client_inv (fst (snd (op cl w)))"
  using assms by (cases rule: op_cases [of cl w]) (auto simp: client_inv_def)

lemma op_keeps_thread:
  "keep_alive_joinable (fst (snd (op cl w))) = keep_alive_joinable cl \<and>
   keep_alive_running (fst (snd (op cl w))) = keep_alive_running cl \<and>
   terminated (fst (snd (op cl w))) = terminated cl"
  by (cases rule: op_cases [of cl w]) auto

lemma op_still_connected:
  "m_status (fst (snd (op cl w))) = CONNECTED \<Longrightarrow> fst (snd (op cl w)) = cl"
  by (cases rule: op_cases [of cl w]) auto

end

lemma ReceiveSocketMessage_some:
  "ReceiveSocketMessage os t (Some c) w = (r, conn', w') \<Longrightarrow> \<exists>c'. conn' = Some c'"
  by (auto simp: ReceiveSocketMessage_def ReceiveBuffer_def on_conn_def close_conn_def Let_def
      split: sum.splits prod.splits if_splits option.splits)

lemma SendSocketMessage_some:
  "SendSocketMessage os m (Some c) w = (r, conn', w') \<Longrightarrow> \<exists>c'. conn' = Some c'"
  by (auto simp: SendSocketMessage_def SendBuffer_def on_conn_def Let_def
      split: sum.splits prod.splits if_splits)

lemma IsConnected_conn: "IsConnected cl \<Longrightarrow> \<exists>c. m_connection cl = Some c \<and> IsOpen c"
  by (auto simp: IsConnected_def split: option.splits)

interpretation request: client_request "request_response os texts request timeout_ms expected"
  for os :: "'w os" and texts request timeout_ms expected
proof (unfold_locales, goal_cases)
  case (1 cl w)
  then show ?case by (simp add: request_response_def status_defs)
next
  case (2 cl w x cl' w')
  then show ?case
    by (auto simp: request_response_def SetStatusAndReturnError_def status_defs
        split: if_splits prod.splits sum.splits
        dest!: SendSocketMessage_ok ReceiveSocketMessage_ok)
next
  case (3 cl w e cl' w')
  then show ?case
    by (auto simp: request_response_def SetStatusAndReturnError_def SetClientStatus_def status_defs
        split: if_splits prod.splits sum.splits
        dest!: SendSocketMessage_ok ReceiveSocketMessage_ok IsConnected_conn)
      (blast dest: SendSocketMessage_some ReceiveSocketMessage_some)+
qed

text \<open>A request followed by work that keeps the client, or fails the connection, is a request.\<close>

lemma client_request_then:
  assumes req: "client_request op"
    and ok: "\<And>m cl w x cl' w'. IsConnected cl \<Longrightarrow> k m cl w = (Inr x, cl', w') \<Longrightarrow> cl' = cl"
    and err: "\<And>m cl w e cl' w'. IsConnected cl \<Longrightarrow> k m cl w = (Inl e, cl', w') \<Longrightarrow>
      cl' = cl \<or> (\<exists>c. cl' = cl\<lparr>m_connection := Some c, m_status := CONNECTION_FAILED\<rparr>)"
  shows "client_request (then_response op k)"
proof -
  note r = client_request.op_not_connected [OF req] client_request.op_ok [OF req]
    client_request.op_error [OF req]
  have conn: "IsConnected cl" if "op cl w = (Inr m, cl, w')" for cl w m w'
    using r(1) [of cl w] that by auto
  show ?thesis
  proof (unfold_locales, goal_cases)
    case (1 cl w)
    with r(1) [of cl w] show ?case by (auto simp: then_response_def)
  next
    case (2 cl w x cl' w')
    with r(2) conn ok show ?case
      by (auto simp: then_response_def split: prod.splits sum.splits) blast
  next
    case (3 cl w e cl' w')
    show ?case
    proof (cases "fst (op cl w)")
      case (Inl e1)
      with 3 r(3) [of cl w] show ?thesis
        by (auto simp: then_response_def split: prod.splits)
    next
      case (Inr m)
      then obtain w1 where "op cl w = (Inr m, cl, w1)"
        using r(2) [of cl w m] by (cases "op cl w") auto
      with 3 conn err [of cl m w1] show ?thesis
        by (simp add: then_response_def)
    qed
  qed
qed

lemma client_request_read:
  assumes "client_request op"
  shows "client_request (then_response op (\<lambda>m cl w. (f m, cl, w)))"
  using assms by (rule client_request_then) auto

interpretation pm4_capture: client_request "StartPm4Capture os" for os :: "'w os"
  unfolding StartPm4Capture_def
  by (rule client_request_read) (rule request.client_request_axioms)

interpretation capture_file_size: client_request "GetCaptureFileSize os path" for os :: "'w os" and path
  unfolding GetCaptureFileSize_def
  by (rule client_request_read) (rule request.client_request_axioms)

interpretation remove_file_request: client_request "TcpClient_RemoveFile os path"
  for os :: "'w os" and path
  unfolding TcpClient_RemoveFile_def
  by (rule client_request_read) (rule request.client_request_axioms)

interpretation filter_config_request: client_request "SendDrawcallFilterConfig os config"
  for os :: "'w os" and config
  unfolding SendDrawcallFilterConfig_def
  by (rule client_request_read) (rule request.client_request_axioms)

interpretation psos_request: client_request "GetLivePSOs os" for os :: "'w os"
  unfolding GetLivePSOs_def
  by (rule client_request_read) (rule request.client_request_axioms)

interpretation render_passes_request: client_request "GetLiveRenderPasses os" for os :: "'w os"
  unfolding GetLiveRenderPasses_def
  by (rule client_request_read) (rule request.client_request_axioms)

interpretation timestamp_request: client_request "SendDisableTimestamp os disable"
  for os :: "'w os" and disable
  unfolding SendDisableTimestamp_def
  by (rule client_request_read) (rule request.client_request_axioms)

interpretation ping: client_request "PingServer os" for os :: "'w os"
  unfolding PingServer_def
  by (rule client_request_read) (rule request.client_request_axioms)

interpretation perform_handshake: client_request "PerformHandshake os" for os :: "'w os"
  unfolding PerformHandshake_def
  by (rule client_request_read) (rule request.client_request_axioms)

interpretation download_request: client_request "DownloadFileFromServer os remote loc cb"
  for os :: "'w os" and remote loc cb
  unfolding DownloadFileFromServer_def
proof (rule client_request_then, rule request.client_request_axioms, goal_cases)
  case (1 m cl w x cl' w')
  then show ?case
    by (auto simp: SetStatusAndReturnError_def status_defs
        split: message.splits option.splits if_splits prod.splits sum.splits dest!: ReceiveFile_ok)
next
  case (2 m cl w e cl' w')
  then show ?case
    by (auto simp: SetStatusAndReturnError_def SetClientStatus_def status_defs
        split: message.splits option.splits if_splits prod.splits sum.splits dest!: ReceiveFile_ok)
qed

section \<open>The client invariant\<close>

lemma client_inv_new: "client_inv TcpClient_new"
  by (simp add: client_inv_def TcpClient_new_def)

lemmas client_updates = reset_connection_def StopKeepAlive_def SetClientStatus_def
  SetStatusAndReturnError_def

lemma Disconnect_inv: "client_inv cl \<Longrightarrow> client_inv (fst (Disconnect os cl w))"
  by (simp add: client_inv_def Disconnect_def client_updates IsConnected_def)

lemma keep_alive_tick_inv:
  assumes "client_inv cl"
  shows "client_inv (fst (keep_alive_tick os cl w))"
proof (cases rule: ping.op_cases [of os cl w])
  case (1 x w')
  with assms show ?thesis
    by (auto simp: keep_alive_tick_def client_inv_def IsConnected_def split: option.splits)
next
  case (2 e w')
  with assms show ?thesis
    by (auto simp: keep_alive_tick_def client_inv_def IsConnected_def SetClientStatus_def)
next
  case (3 e c w')
  with assms show ?thesis
    by (auto simp: keep_alive_tick_def client_inv_def IsConnected_def SetClientStatus_def)
qed

text \<open>A connected client without a keep-alive thread either completes or ends failed.\<close>

lemma connect_established_cases [consumes 4, case_names failed connected]:
  assumes "connect_established os cl w = (r, cl', w')"
    and "m_status cl = CONNECTED" "\<not> keep_alive_joinable cl" "\<not> keep_alive_running cl"
  obtains (failed) e where "r = Inl e"
      "cl' = cl\<lparr>m_connection := None, m_status := CONNECTION_FAILED\<rparr>"
    | (connected) "r = OkStatus" "IsConnected cl"
      "cl' = cl\<lparr>keep_alive_joinable := True, keep_alive_running := True\<rparr>"
proof (cases rule: perform_handshake.op_cases [of os cl w])
  case (1 x w1)
  moreover from 1 have "IsConnected cl"
    using perform_handshake.op_not_connected [of cl os w] by auto
  ultimately show ?thesis
    using assms connected
    by (cases cl) (auto simp: connect_established_def StartKeepAlive_def)
next
  case (2 e w1)
  with assms(1) failed show ?thesis
    by (auto simp: connect_established_def client_updates)
next
  case (3 e c w1)
  with assms(1) failed show ?thesis
    by (auto simp: connect_established_def client_updates)
qed

text \<open>
  \<^verbatim>\<open>Connect\<close> ends in one of three ways: refused because a connection exists, failed with the
  connection destroyed, or connected with a handshake done and the keep-alive thread started.
\<close>

lemma TcpClient_Connect_cases:
  assumes "TcpClient_Connect os host port cl w = (r, cl', w')"
  obtains (refused) e where "m_status cl \<in> {CONNECTED, CONNECTING}" "r = Inl e" "cl' = cl" "w' = w"
    | (failed) e where "r = Inl e" "m_status cl \<notin> {CONNECTED, CONNECTING}"
        "cl' = \<lparr>m_connection = None, m_status = CONNECTION_FAILED, keep_alive_joinable = False,
          keep_alive_running = False, terminated = terminated cl\<rparr>"
    | (connected) c where "r = OkStatus" "m_status cl \<notin> {CONNECTED, CONNECTING}" "IsOpen c"
        "cl' = \<lparr>m_connection = Some c, m_status = CONNECTED, keep_alive_joinable = True,
          keep_alive_running = True, terminated = terminated cl\<rparr>"
proof (cases "m_status cl \<in> {CONNECTED, CONNECTING}")
  case True
  with assms have "Inl (Status kAlreadyExists
      ''Connect: Client is already connected or in the process of connecting.'') = r"
    "cl' = cl" "w' = w"
    by (simp_all add: TcpClient_Connect_def status_defs)
  with True show ?thesis
    using refused by blast
next
  case False
  define w0 where "w0 = snd (reset_connection os (StopKeepAlive cl) w)"
  obtain r1 c1 w1 where sc: "SocketConnection_Connect os host port
      (SocketConnection_new kInvalidSocketValue) w0 = (r1, c1, w1)"
    by (cases "SocketConnection_Connect os host port (SocketConnection_new kInvalidSocketValue) w0")
  define cl1 where "cl1 = \<lparr>m_connection = Some c1, m_status = CONNECTED,
    keep_alive_joinable = False, keep_alive_running = False, terminated = terminated cl\<rparr>"
  show ?thesis
  proof (cases r1)
    case (Inl e)
    with assms False sc show ?thesis
      by (intro failed [of "StatusWithContext e ''Connect: Connect fail''"])
        (auto simp: TcpClient_Connect_def w0_def client_updates)
  next
    case (Inr u)
    have "connect_established os cl1 w1 = (r, cl', w')"
      using assms False sc Inr
      by (cases cl) (simp add: TcpClient_Connect_def w0_def client_updates cl1_def)
    moreover have "m_status cl1 = CONNECTED" "\<not> keep_alive_joinable cl1" "\<not> keep_alive_running cl1"
      by (simp_all add: cl1_def)
    ultimately show ?thesis
    proof (cases rule: connect_established_cases)
      case (failed e)
      then show ?thesis using that(2) False by (simp add: cl1_def)
    next
      case connected
      then show ?thesis using that(3) False by (simp add: cl1_def IsConnected_def)
    qed
  qed
qed

lemma TcpClient_Connect_inv:
  assumes "client_inv cl"
  shows "client_inv (fst (snd (TcpClient_Connect os host port cl w)))"
proof -
  obtain r cl' w' where eq: "TcpClient_Connect os host port cl w = (r, cl', w')"
    by (cases "TcpClient_Connect os host port cl w")
  then have "client_inv cl'"
    using assms
    by (cases rule: TcpClient_Connect_cases) (auto simp: client_inv_def IsConnected_def)
  with eq show ?thesis by simp
qed

lemma client_exec_inv:
  assumes "client_inv cl"
  shows "client_inv (fst (client_exec os call (cl, w)))"
  using assms
  by (cases call) (simp_all add: TcpClient_Connect_inv Disconnect_inv keep_alive_tick_inv
      pm4_capture.op_keeps_inv download_request.op_keeps_inv capture_file_size.op_keeps_inv
      remove_file_request.op_keeps_inv filter_config_request.op_keeps_inv
      psos_request.op_keeps_inv render_passes_request.op_keeps_inv timestamp_request.op_keeps_inv)

lemma client_run_inv: "client_inv (fst s) \<Longrightarrow> client_inv (fst (client_run os calls s))"
proof (induction calls arbitrary: s)
  case (Cons call calls)
  then show ?case
    using client_exec_inv [of "fst s" os call "snd s"] by (simp add: client_run_def)
qed (simp add: client_run_def)

section \<open>Exchanges with a peer\<close>

text \<open>
  With a connected stream, the request goes out as one frame, the response is the next frame of the
  peer, and the client object is unchanged.
\<close>

definition peer_laws :: "'w os \<Rightarrow> TcpClient \<Rightarrow> SocketConnection \<Rightarrow> ('w \<Rightarrow> buffer) \<Rightarrow> ('w \<Rightarrow> buffer) \<Rightarrow> bool"
  where
  "peer_laws os cl c sent pending \<longleftrightarrow>
     IsConnected cl \<and> m_connection cl = Some c \<and> \<not> m_is_listening c \<and>
     stream_laws os (m_socket c) sent pending \<and> readable_laws os (m_socket c) pending \<and>
     writable_laws os (m_socket c)"

lemma peer_lawsD:
  assumes "peer_laws os cl c sent pending"
  shows "IsConnected cl" "m_connection cl = Some c" "IsOpen c" "\<not> m_is_listening c"
    "stream_laws os (m_socket c) sent pending" "readable_laws os (m_socket c) pending"
    "writable_laws os (m_socket c)"
  using assms by (auto simp: peer_laws_def IsConnected_def)

lemma request_exchange:
  assumes "peer_laws os cl c sent pending" and "fits request" and "fits response"
    and "pending w = frame response @ rest"
  shows "\<exists>w'. request_response os texts request timeout_ms expected cl w =
      (if GetMessageType response = expected then Inr response
       else FailedPreconditionError
         (unexpected_text texts @ ''(Expected: '' @
          show_nat (unat (MessageType_value expected)) @ '', Got: '' @
          show_nat (unat (MessageType_value (GetMessageType response))) @ '').''), cl, w') \<and>
    sent w' = sent w @ frame request \<and> pending w' = rest"
proof -
  note p = peer_lawsD [OF assms(1)]
  obtain w1 where s: "SendSocketMessage os request (Some c) w = (OkStatus, Some c, w1)"
    "sent w1 = sent w @ frame request" "pending w1 = frame response @ rest"
    using SendSocketMessage_delivers [OF p(5,7,3,4) assms(2)] assms(4) by metis
  obtain w2 where r: "ReceiveSocketMessage os timeout_ms (Some c) w1 = (Inr response, Some c, w2)"
    "pending w2 = rest" "sent w2 = sent w1"
    using ReceiveSocketMessage_delivers [OF p(5,6,3,4) assms(3) s(3)] by blast
  have "cl\<lparr>m_connection := Some c\<rparr> = cl"
    using p(2) by simp
  with p(1,2) s r show ?thesis
    by (simp add: request_response_def)
qed

lemma then_exchange:
  assumes "peer_laws os cl c sent pending" and "fits request" and "fits response"
    and "pending w = frame response @ rest" and "GetMessageType response = expected"
  shows "\<exists>w'. then_response (request_response os texts request timeout_ms expected) k cl w =
      k response cl w' \<and> sent w' = sent w @ frame request \<and> pending w' = rest"
  using request_exchange [OF assms(1-4), of texts timeout_ms expected] assms(5)
  by (auto simp: then_response_def)

text \<open>The client's download of a file that is found.\<close>

lemma DownloadFileFromServer_exchange:
  assumes peer: "peer_laws os cl c sent pending"
    and sink: "sink_file_laws os (m_socket c) loc written pending" "sink_accepts os loc"
      "callback_frame cb written pending"
    and fit: "fits (DownloadFileRequest remote)" "fits (DownloadFileResponseMsg resp)"
    and found: "df_found resp" "unat (df_file_size resp) = length contents"
    and pend: "pending w = frame (DownloadFileResponseMsg resp) @ contents @ rest"
  shows "\<exists>w'. DownloadFileFromServer os remote loc cb cl w = (OkStatus, cl, w') \<and>
    written w' = contents \<and> pending w' = rest"
proof -
  note p = peer_lawsD [OF peer]
  let ?texts = "\<lparr>not_connected_text = ''DownloadFileFromServer: Client is not connected.'',
           send_fail_text = ''DownloadFileFromServer: SendSocketMessage fail'',
           receive_fail_text = ''DownloadFileFromServer: ReceiveSocketMessage fail'',
           unexpected_text =
             ''DownloadFileFromServer: Unexpected message type in Download response ''\<rparr>"
  obtain w1 where ex: "request_response os ?texts (DownloadFileRequest remote) kNoTimeout
      DOWNLOAD_FILE_RESPONSE cl w = (Inr (DownloadFileResponseMsg resp), cl, w1)"
    and w1: "pending w1 = contents @ rest"
    using request_exchange [OF peer fit pend, of ?texts kNoTimeout DOWNLOAD_FILE_RESPONSE] by auto
  obtain w2 where "ReceiveFile os loc (length contents) cb c w1 = (OkStatus, c, w2)"
    "written w2 = contents" "pending w2 = rest"
    using ReceiveFile_delivers [OF p(5,6) sink p(3,4) w1] by blast
  moreover have "cl\<lparr>m_connection := Some c\<rparr> = cl"
    using p(2) by simp
  ultimately show ?thesis
    using ex p(2) found by (simp add: DownloadFileFromServer_def then_response_def)
qed

lemma then_exchange_result:
  assumes "peer_laws os cl c sent pending" and "pending w = frame response @ rest"
    and "fits request" and "fits response" and "GetMessageType response = expected"
    and "\<And>w'. k response cl w' = (r, cl, w')"
  shows "\<exists>w'. then_response (request_response os texts request timeout_ms expected) k cl w =
      (r, cl, w') \<and> sent w' = sent w @ frame request \<and> pending w' = rest"
  using then_exchange [OF assms(1,3,4,2,5), of texts timeout_ms k] assms(6) by auto

text \<open>What the operations that only read the response make of it.\<close>

lemma PerformHandshake_exchange:
  assumes "peer_laws os cl c sent pending" and "pending w = frame (HandshakeResponse hs) @ rest"
    and "fits (HandshakeResponse hs)"
    and "m_major_version hs = kHandshakeMajorVersion" "m_minor_version hs = kHandshakeMinorVersion"
    and "fits (HandshakeRequest \<lparr>m_major_version = kHandshakeMajorVersion,
            m_minor_version = kHandshakeMinorVersion\<rparr>)"
  shows "\<exists>w'. PerformHandshake os cl w = (OkStatus, cl, w') \<and>
    sent w' = sent w @ frame (HandshakeRequest \<lparr>m_major_version = kHandshakeMajorVersion,
      m_minor_version = kHandshakeMinorVersion\<rparr>) \<and> pending w' = rest"
  unfolding PerformHandshake_def
  by (rule then_exchange_result [OF assms(1,2,6,3)]) (simp_all add: assms(4,5))

lemma GetCaptureFileSize_exchange:
  assumes "peer_laws os cl c sent pending" and "pending w = frame (FileSizeResponseMsg resp) @ rest"
    and "fits (FileSizeRequest path)" and "fits (FileSizeResponseMsg resp)"
  shows "\<exists>w'. GetCaptureFileSize os path cl w =
      (if fs_found resp then Inr (fs_file_size resp)
       else NotFoundError (''GetCaptureFileSize: Server could not find file. Reason: '' @
              fs_error_reason resp), cl, w') \<and>
    sent w' = sent w @ frame (FileSizeRequest path) \<and> pending w' = rest"
  unfolding GetCaptureFileSize_def
  by (rule then_exchange_result [OF assms]) simp_all

lemma RemoveFile_exchange:
  assumes "peer_laws os cl c sent pending" and "pending w = frame (RemoveFileResponseMsg resp) @ rest"
    and "fits (RemoveFileRequest path)" and "fits (RemoveFileResponseMsg resp)"
  shows "\<exists>w'. TcpClient_RemoveFile os path cl w =
      (if rf_success resp then OkStatus
       else InternalError (''RemoveFile: Server failed to remove file. Reason: '' @
              rf_error_reason resp), cl, w') \<and>
    sent w' = sent w @ frame (RemoveFileRequest path) \<and> pending w' = rest"
  unfolding TcpClient_RemoveFile_def
  by (rule then_exchange_result [OF assms]) simp_all

lemma GetLivePSOs_exchange:
  assumes "peer_laws os cl c sent pending" and "pending w = frame (LivePSOsResponse psos) @ rest"
    and "fits LivePSOsRequest" and "fits (LivePSOsResponse psos)"
  shows "\<exists>w'. GetLivePSOs os cl w = (Inr psos, cl, w') \<and>
    sent w' = sent w @ frame LivePSOsRequest \<and> pending w' = rest"
  unfolding GetLivePSOs_def
  by (rule then_exchange_result [OF assms]) simp_all

end
