(* ===== verification/Net_Loopback.thy ===== *)
theory Net_Loopback
  imports Net_Server Net_Client
begin

text \<open>
  A concrete operating system on which the laws of \<open>Net_Socket\<close> hold, used to show that they can be
  met together. The world is one stream in each direction and one output file. Sends take at most
  three bytes and receives give at most two, so every transfer loop has to go round; each file that
  is read has the contents \<open>rom\<close>.
\<close>

record loop_world =
  lw_sent :: buffer
  lw_pending :: buffer
  lw_written :: buffer

definition loopback_os :: "buffer \<Rightarrow> loop_world os" where
  "loopback_os rom =
    \<lparr>strerror = (\<lambda>_. ''error''),
     sys_socket = (\<lambda>w. (Inr 4, w)),
     sys_bind = (\<lambda>fd addr w. (Inr (), w)),
     sys_listen = (\<lambda>fd w. (Inr (), w)),
     sys_accept = (\<lambda>fd w. (Inr 5, w)),
     sys_getaddrinfo = (\<lambda>host port w. (Inr [0], w)),
     sys_socket_for = (\<lambda>p w. (Inr 6, w)),
     sys_connect = (\<lambda>fd p w. (Inr (), w)),
     sys_send = (\<lambda>fd bs w. (Inr (min 3 (length bs)), w\<lparr>lw_sent := lw_sent w @ take (min 3 (length bs)) bs\<rparr>)),
     sys_poll = (\<lambda>fd t w. (if lw_pending w = [] then PollTimeout else PollEvents True, w)),
     sys_recv = (\<lambda>fd n w. (Inr (take (min 2 n) (lw_pending w)),
                            w\<lparr>lw_pending := drop (min 2 n) (lw_pending w)\<rparr>)),
     sys_shutdown_close = (\<lambda>fd w. w),
     ifstream_open_size = (\<lambda>path w. Some (int (length rom))),
     ifstream_read = (\<lambda>path pos n w. Some (take n (drop pos rom))),
     ofstream_open = (\<lambda>path w. (True, w\<lparr>lw_written := []\<rparr>)),
     ofstream_write = (\<lambda>path bs w. (True, w\<lparr>lw_written := lw_written w @ bs\<rparr>))\<rparr>"

definition loopback_fs :: "buffer \<Rightarrow> loop_world filesystem" where
  "loopback_fs rom =
    \<lparr>path_is_regular_file = (\<lambda>path w. (True, None)),
     path_file_size = (\<lambda>path w. (word_of_nat (length rom), None)),
     path_remove = (\<lambda>path w. ((True, None), w))\<rparr>"

text \<open>A world in which the peer delivers the given bytes and nothing has been sent yet.\<close>

definition incoming :: "buffer \<Rightarrow> loop_world" where
  "incoming bs = \<lparr>lw_sent = [], lw_pending = bs, lw_written = []\<rparr>"

definition loop_conn :: SocketConnection where
  "loop_conn = SocketConnection_new 5"

definition loop_client :: TcpClient where
  "loop_client = TcpClient_new\<lparr>m_connection := Some loop_conn, m_status := CONNECTED,
     keep_alive_joinable := True, keep_alive_running := True\<rparr>"

definition loop_server :: "buffer \<Rightarrow> loop_world UnixDomainServer" where
  "loop_server bs =
    \<lparr>m_listen_connection = Some (loop_conn\<lparr>m_is_listening := True\<rparr>), m_client_connection = None,
     m_is_running = True, pc = LoopHead, events = [],
     world = incoming bs\<rparr>"

text \<open>The server with a client connected whose bytes are the given ones.\<close>

definition loop_server_busy :: "buffer \<Rightarrow> loop_world UnixDomainServer" where
  "loop_server_busy bs =
     (loop_server bs)\<lparr>m_client_connection := Some loop_conn, events := [OnConnect]\<rparr>"

lemma incoming_sel [simp]: "lw_sent (incoming bs) = []" "lw_pending (incoming bs) = bs"
  by (simp_all add: incoming_def)

lemma fits_small [simp]:
  "fits PingMessage" "fits PongMessage" "fits Pm4CaptureRequest" "fits (HandshakeRequest h)"
  "fits (HandshakeResponse h)"
  by (simp_all add: fits_def EmptyMessage_Serialize_def HandshakeMessage_Serialize_def
      kMaxPayloadSize_def write_simps)

lemma loopback_stream [simp]: "stream_laws (loopback_os rom) fd lw_sent lw_pending"
  unfolding stream_laws_def loopback_os_def by auto

lemma loopback_readable [simp]: "readable_laws (loopback_os rom) fd lw_pending"
  unfolding readable_laws_def loopback_os_def by auto

lemma loopback_writable [simp]: "writable_laws (loopback_os rom) fd"
  unfolding writable_laws_def loopback_os_def by auto

lemma loopback_source [simp]: "source_file_laws (loopback_os rom) path rom"
  unfolding source_file_laws_def loopback_os_def by auto

lemma loopback_sink [simp]: "sink_file_laws (loopback_os rom) fd path lw_written lw_pending"
  unfolding sink_file_laws_def loopback_os_def by auto

lemma loopback_accepts [simp]: "sink_accepts (loopback_os rom) path"
  unfolding sink_accepts_def loopback_os_def by auto

lemma loopback_callback [simp]: "callback_frame None written pending"
  by (simp add: callback_frame_def)

lemma loopback_filesystem [simp]: "filesystem_frame (loopback_fs rom) sent pending"
  by (simp add: filesystem_frame_def loopback_fs_def)

lemma loop_conn_open [simp]: "IsOpen loop_conn" "\<not> m_is_listening loop_conn"
  by (simp_all add: loop_conn_def IsOpen_def SocketConnection_new_def kInvalidSocketValue_def)

lemma loopback_peer [simp]: "peer_laws (loopback_os rom) loop_client loop_conn lw_sent lw_pending"
  by (simp add: peer_laws_def loop_client_def IsConnected_def)

end
