(* ===== verification/Gpu_Slot_Allocator.thy ===== *)
theory Gpu_Slot_Allocator
  imports Dive_Prelude
begin

text \<open>
  \<^verbatim>\<open>GPUTime::TimeStampSlotAllocator\<close> (\<^verbatim>\<open>gpu_time/gpu_time.h\<close>, \<^verbatim>\<open>gpu_time/gpu_time.cpp\<close>): a bitmap of 128
  blocks of 64 slots. The locale \<open>slot_pool\<close> is what its client relies on; the interpretation shows
  that the bitmap implements it. The last part takes the compare-and-exchange loops apart into atomic
  steps of concurrent threads.

  Slot indices are \<^verbatim>\<open>uint32_t\<close>; every index the code forms is below \<open>2 * kTotalSlots\<close>, so natural
  numbers do not wrap. An access outside \<^verbatim>\<open>m_masks\<close> is undefined behaviour in the source and \<open>None\<close>
  here.
\<close>

unbundle bit_operations_syntax

definition kSlotsPerBlock :: nat where
  "kSlotsPerBlock = 64"

definition kNumBlocks :: nat where
  "kNumBlocks = 128"

definition kTotalSlots :: nat where
  "kTotalSlots = kSlotsPerBlock * kNumBlocks"

definition kInvalidIndex :: nat where
  "kInvalidIndex = 2 ^ 32 - 1"

record TimeStampSlotAllocator =
  m_masks :: "u64 list"
  m_cur :: nat

definition TimeStampSlotAllocator_Reset :: TimeStampSlotAllocator where
  "TimeStampSlotAllocator_Reset = \<lparr>m_masks = replicate kNumBlocks 0, m_cur = 0\<rparr>"

definition slot_mask :: "nat \<Rightarrow> u64" where
  "slot_mask slot = push_bit (slot mod kSlotsPerBlock) 1"

text \<open>The scan from \<^verbatim>\<open>current_idx\<close>; without other threads the exchange succeeds at once.\<close>

function alloc_scan ::
    "TimeStampSlotAllocator \<Rightarrow> nat \<Rightarrow> nat \<Rightarrow> nat \<times> TimeStampSlotAllocator" where
  "alloc_scan a current_idx i =
    (if i < kTotalSlots then
       (let slot_idx = (current_idx + i) mod kTotalSlots;
            block_idx = slot_idx div kSlotsPerBlock;
            old_mask = m_masks a ! block_idx
        in if old_mask AND slot_mask slot_idx = 0
           then (slot_idx,
                 a\<lparr>m_masks := (m_masks a)[block_idx := old_mask OR slot_mask slot_idx],
                   m_cur := (slot_idx + 1) mod kTotalSlots\<rparr>)
           else alloc_scan a current_idx (Suc i))
     else (kInvalidIndex, a))"
  by pat_completeness auto
termination
  by (relation "measure (\<lambda>(a, current_idx, i). kTotalSlots - i)") auto

declare alloc_scan.simps [simp del]

definition AllocateSlot :: "TimeStampSlotAllocator \<Rightarrow> nat \<times> TimeStampSlotAllocator" where
  "AllocateSlot a = alloc_scan a (m_cur a) 0"

definition free_slot :: "nat \<Rightarrow> TimeStampSlotAllocator \<Rightarrow> TimeStampSlotAllocator option" where
  "free_slot slot a =
    (let block_idx = slot div kSlotsPerBlock in
     if block_idx < length (m_masks a)
     then Some (a\<lparr>m_masks := (m_masks a)[block_idx := (m_masks a ! block_idx) AND NOT (slot_mask slot)]\<rparr>)
     else None)"

fun FreeSlots :: "nat list \<Rightarrow> TimeStampSlotAllocator \<Rightarrow> TimeStampSlotAllocator option" where
  "FreeSlots [] a = Some a"
| "FreeSlots (slot # slots) a =
    (case free_slot slot a of None \<Rightarrow> None | Some a \<Rightarrow> FreeSlots slots a)"

section \<open>The set of used slots\<close>

definition alloc_inv :: "TimeStampSlotAllocator \<Rightarrow> bool" where
  "alloc_inv a \<longleftrightarrow> length (m_masks a) = kNumBlocks \<and> m_cur a < kTotalSlots"

definition masks_used :: "u64 list \<Rightarrow> nat set" where
  "masks_used ms = {s. s < kTotalSlots \<and> bit (ms ! (s div kSlotsPerBlock)) (s mod kSlotsPerBlock)}"

definition used_slots :: "TimeStampSlotAllocator \<Rightarrow> nat set" where
  "used_slots a = masks_used (m_masks a)"

lemmas slot_consts = kSlotsPerBlock_def kNumBlocks_def kTotalSlots_def

lemma kTotalSlots_pos [simp]: "0 < kTotalSlots"
  by (simp add: slot_consts)

lemma kInvalidIndex_big [simp]: "\<not> kInvalidIndex < kTotalSlots"
  by (simp add: slot_consts kInvalidIndex_def)

lemma slot_block_less: "slot < kTotalSlots \<Longrightarrow> slot div kSlotsPerBlock < kNumBlocks"
  by (simp add: slot_consts div_less_iff_less_mult)

lemma bit_slot_mask: "bit (slot_mask slot) k \<longleftrightarrow> k = slot mod kSlotsPerBlock"
  by (auto simp: slot_mask_def bit_exp_iff slot_consts push_bit_of_1)

lemma slot_mod_less [simp]: "slot mod kSlotsPerBlock < 64"
  by (simp add: slot_consts)

lemma slot_eqI:
  "slot div kSlotsPerBlock = t div kSlotsPerBlock \<Longrightarrow> slot mod kSlotsPerBlock = t mod kSlotsPerBlock \<Longrightarrow> slot = t"
  by (metis div_mult_mod_eq)

lemma slot_mask_test: "w AND slot_mask slot = 0 \<longleftrightarrow> \<not> bit w (slot mod kSlotsPerBlock)"
proof
  assume "w AND slot_mask slot = 0"
  then have "\<not> bit (w AND slot_mask slot) (slot mod kSlotsPerBlock)" by simp
  then show "\<not> bit w (slot mod kSlotsPerBlock)"
    by (simp add: bit_and_iff bit_slot_mask)
next
  assume "\<not> bit w (slot mod kSlotsPerBlock)"
  then show "w AND slot_mask slot = 0"
    by (intro bit_eqI) (auto simp: bit_and_iff bit_slot_mask)
qed

lemma masks_used_set:
  assumes "length ms = kNumBlocks" and "slot < kTotalSlots"
  shows "masks_used (ms[slot div kSlotsPerBlock := ms ! (slot div kSlotsPerBlock) OR slot_mask slot])
    = insert slot (masks_used ms)"
proof -
  have "slot div kSlotsPerBlock < length ms"
    using assms slot_block_less by simp
  then show ?thesis
    using assms(2)
    by (auto simp: masks_used_def nth_list_update bit_or_iff bit_slot_mask dest: slot_eqI)
qed

lemma masks_used_clear:
  assumes "length ms = kNumBlocks" and "slot < kTotalSlots"
  shows "masks_used (ms[slot div kSlotsPerBlock := ms ! (slot div kSlotsPerBlock) AND NOT (slot_mask slot)])
    = masks_used ms - {slot}"
proof -
  have "slot div kSlotsPerBlock < length ms"
    using assms slot_block_less by simp
  then show ?thesis
    by (auto simp: masks_used_def nth_list_update bit_and_iff bit_not_iff bit_slot_mask
        dest: slot_eqI)
qed

lemma used_slots_bound: "used_slots a \<subseteq> {..<kTotalSlots}"
  by (auto simp: used_slots_def masks_used_def)

lemma Reset_used [simp]: "used_slots TimeStampSlotAllocator_Reset = {}"
proof -
  have "\<not> bit (replicate kNumBlocks (0 :: u64) ! (s div kSlotsPerBlock)) k" if "s < kTotalSlots" for s k
    using slot_block_less [OF that] by simp
  then show ?thesis
    by (auto simp: used_slots_def masks_used_def TimeStampSlotAllocator_Reset_def)
qed

lemma Reset_inv [simp]: "alloc_inv TimeStampSlotAllocator_Reset"
  by (simp add: alloc_inv_def TimeStampSlotAllocator_Reset_def)

text \<open>The scan returns the first slot that is free in cyclic order, or the invalid index.\<close>

lemma alloc_scan_cases:
  assumes "alloc_inv a" and "\<forall>j < i. (cur + j) mod kTotalSlots \<in> used_slots a"
    and "alloc_scan a cur i = (s, a')"
  shows "s = kInvalidIndex \<and> a' = a \<and> (\<forall>j < kTotalSlots. (cur + j) mod kTotalSlots \<in> used_slots a) \<or>
    (\<exists>k < kTotalSlots. s = (cur + k) mod kTotalSlots \<and> s \<notin> used_slots a \<and>
       (\<forall>j < k. (cur + j) mod kTotalSlots \<in> used_slots a) \<and>
       used_slots a' = insert s (used_slots a) \<and> alloc_inv a' \<and> m_cur a' = (s + 1) mod kTotalSlots)"
  using assms
proof (induction a cur i rule: alloc_scan.induct)
  case (1 a cur i)
  define slot where "slot = (cur + i) mod kTotalSlots"
  have slot: "slot < kTotalSlots" by (simp add: slot_def)
  have used: "slot \<in> used_slots a \<longleftrightarrow>
      m_masks a ! (slot div kSlotsPerBlock) AND slot_mask slot \<noteq> 0"
    using slot by (simp add: used_slots_def masks_used_def slot_mask_test)
  show ?case
  proof (cases "i < kTotalSlots")
    case False
    then have "(s, a') = (kInvalidIndex, a)"
      using "1.prems"(3) by (simp add: alloc_scan.simps)
    with False "1.prems"(2) show ?thesis by auto
  next
    case True
    show ?thesis
    proof (cases "slot \<in> used_slots a")
      case False
      then have "s = slot" "a' = a\<lparr>m_masks := (m_masks a)[slot div kSlotsPerBlock :=
          m_masks a ! (slot div kSlotsPerBlock) OR slot_mask slot], m_cur := (slot + 1) mod kTotalSlots\<rparr>"
        using "1.prems"(3) True used by (auto simp: alloc_scan.simps Let_def slot_def)
      with False True slot "1.prems"(1,2) show ?thesis
        by (intro disjI2 exI [of _ i])
          (auto simp: slot_def used_slots_def alloc_inv_def masks_used_set)
    next
      case used_slot: True
      have "\<forall>j < Suc i. (cur + j) mod kTotalSlots \<in> used_slots a"
        using "1.prems"(2) used_slot by (auto simp: slot_def less_Suc_eq)
      with "1.IH" [OF True refl refl refl, of] "1.prems"(1,3) True used used_slot show ?thesis
        by (simp add: alloc_scan.simps [of a cur i] Let_def slot_def)
    qed
  qed
qed

lemma cyclic_cover: "s < kTotalSlots \<Longrightarrow> \<exists>j < kTotalSlots. (cur + j) mod kTotalSlots = s"
proof (rule exI [of _ "(s + kTotalSlots - cur mod kTotalSlots) mod kTotalSlots"])
  assume s: "s < kTotalSlots"
  have "(cur + (s + kTotalSlots - cur mod kTotalSlots) mod kTotalSlots) mod kTotalSlots =
      (cur mod kTotalSlots + (s + kTotalSlots - cur mod kTotalSlots)) mod kTotalSlots"
    by (simp add: mod_add_left_eq mod_add_right_eq)
  also have "cur mod kTotalSlots + (s + kTotalSlots - cur mod kTotalSlots) = s + kTotalSlots"
    using mod_less_divisor [OF kTotalSlots_pos, of cur] by linarith
  finally show "(s + kTotalSlots - cur mod kTotalSlots) mod kTotalSlots < kTotalSlots \<and>
      (cur + (s + kTotalSlots - cur mod kTotalSlots) mod kTotalSlots) mod kTotalSlots = s"
    using s by simp
qed

lemma AllocateSlot_full:
  assumes "alloc_inv a" and "used_slots a = {..<kTotalSlots}"
  shows "AllocateSlot a = (kInvalidIndex, a)"
proof -
  obtain s a' where "alloc_scan a (m_cur a) 0 = (s, a')"
    by (cases "alloc_scan a (m_cur a) 0")
  with alloc_scan_cases [OF assms(1) _ this] assms(2) show ?thesis
    by (auto simp: AllocateSlot_def)
qed

lemma AllocateSlot_free:
  assumes "alloc_inv a" and "used_slots a \<noteq> {..<kTotalSlots}" and "AllocateSlot a = (s, a')"
  shows "s < kTotalSlots" "s \<notin> used_slots a" "used_slots a' = insert s (used_slots a)"
    "alloc_inv a'" "m_cur a' = (s + 1) mod kTotalSlots"
    "\<exists>k < kTotalSlots. s = (m_cur a + k) mod kTotalSlots \<and>
      (\<forall>j < k. (m_cur a + j) mod kTotalSlots \<in> used_slots a)"
proof -
  obtain t where t: "t < kTotalSlots" "t \<notin> used_slots a"
    using assms(2) used_slots_bound [of a] by blast
  then have "\<not> (\<forall>j < kTotalSlots. (m_cur a + j) mod kTotalSlots \<in> used_slots a)"
    using cyclic_cover [of t "m_cur a"] by auto
  with alloc_scan_cases [OF assms(1) _ assms(3) [unfolded AllocateSlot_def]]
  show "s < kTotalSlots" "s \<notin> used_slots a" "used_slots a' = insert s (used_slots a)"
    "alloc_inv a'" "m_cur a' = (s + 1) mod kTotalSlots"
    "\<exists>k < kTotalSlots. s = (m_cur a + k) mod kTotalSlots \<and>
      (\<forall>j < k. (m_cur a + j) mod kTotalSlots \<in> used_slots a)"
    by auto
qed

lemma free_slot_some:
  assumes "alloc_inv a" and "slot < kTotalSlots"
  shows "\<exists>a'. free_slot slot a = Some a' \<and> alloc_inv a' \<and> used_slots a' = used_slots a - {slot}"
  using assms slot_block_less [OF assms(2)] masks_used_clear [of "m_masks a" slot]
  by (simp add: free_slot_def alloc_inv_def used_slots_def Let_def)

lemma FreeSlots_some:
  assumes "alloc_inv a" and "set slots \<subseteq> {..<kTotalSlots}"
  shows "\<exists>a'. FreeSlots slots a = Some a' \<and> alloc_inv a' \<and> used_slots a' = used_slots a - set slots"
  using assms
proof (induction slots arbitrary: a)
  case (Cons slot slots)
  then obtain a1 where "free_slot slot a = Some a1" "alloc_inv a1" "used_slots a1 = used_slots a - {slot}"
    using free_slot_some by force
  with Cons.IH [of a1] Cons.prems show ?case by auto
qed simp

text \<open>Freeing an index outside the bitmap, such as the invalid index, is undefined.\<close>

lemma FreeSlots_outside:
  assumes "alloc_inv a" and "slot \<in> set slots" and "kTotalSlots \<le> slot"
  shows "FreeSlots slots a = None"
  using assms(1,2)
proof (induction slots arbitrary: a)
  case (Cons t slots)
  show ?case
  proof (cases "t < kTotalSlots")
    case True
    with Cons.prems assms(3) have "slot \<in> set slots" by auto
    moreover obtain a1 where "free_slot t a = Some a1" "alloc_inv a1"
      using free_slot_some Cons.prems(1) True by blast
    ultimately show ?thesis using Cons.IH by simp
  next
    case False
    then have "\<not> t div kSlotsPerBlock < kNumBlocks"
      by (auto simp: slot_consts div_less_iff_less_mult)
    with Cons.prems(1) show ?thesis by (simp add: free_slot_def alloc_inv_def)
  qed
qed simp

section \<open>The contract of a slot pool\<close>

text \<open>Allocate a number of slots one after another.\<close>

fun alloc_many :: "('a \<Rightarrow> nat \<times> 'a) \<Rightarrow> nat \<Rightarrow> 'a \<Rightarrow> nat list \<times> 'a" where
  "alloc_many alloc 0 a = ([], a)"
| "alloc_many alloc (Suc n) a =
    (case alloc a of (s, a) \<Rightarrow> (case alloc_many alloc n a of (ss, a) \<Rightarrow> (s # ss, a)))"

locale slot_pool =
  fixes alloc :: "'a \<Rightarrow> nat \<times> 'a"
    and free :: "nat list \<Rightarrow> 'a \<Rightarrow> 'a option"
    and used :: "'a \<Rightarrow> nat set"
    and inv :: "'a \<Rightarrow> bool"
    and capacity :: nat
    and invalid :: nat
  assumes used_bound: "inv a \<Longrightarrow> used a \<subseteq> {..<capacity}"
    and invalid_outside: "\<not> invalid < capacity"
    and alloc_full: "inv a \<Longrightarrow> used a = {..<capacity} \<Longrightarrow> alloc a = (invalid, a)"
    and alloc_free: "inv a \<Longrightarrow> used a \<noteq> {..<capacity} \<Longrightarrow> alloc a = (s, a') \<Longrightarrow>
      s < capacity \<and> s \<notin> used a \<and> used a' = insert s (used a) \<and> inv a'"
    and free_some: "inv a \<Longrightarrow> set ss \<subseteq> {..<capacity} \<Longrightarrow>
      \<exists>a'. free ss a = Some a' \<and> inv a' \<and> used a' = used a - set ss"
begin

lemma alloc_invalid_iff: "inv a \<Longrightarrow> fst (alloc a) = invalid \<longleftrightarrow> used a = {..<capacity}"
  using alloc_full [of a] alloc_free [of a "fst (alloc a)" "snd (alloc a)"] invalid_outside
  by (cases "used a = {..<capacity}") auto

lemma alloc_cases:
  assumes "inv a" and "alloc a = (s, a')"
  obtains (full) "s = invalid" "a' = a" "used a = {..<capacity}"
    | (slot) "s < capacity" "s \<noteq> invalid" "s \<notin> used a" "used a' = insert s (used a)" "inv a'"
proof (cases "used a = {..<capacity}")
  case True
  with assms alloc_full [OF assms(1) True] show ?thesis by (intro full) auto
next
  case False
  with alloc_free [OF assms(1) False assms(2)] invalid_outside show ?thesis by (intro slot) auto
qed

lemma alloc_keeps_inv:
  assumes "inv a" and "alloc a = (s, a')"
  shows "inv a'"
  using assms
proof (cases rule: alloc_cases)
  case full
  then show ?thesis using assms(1) by (simp only:)
qed

lemma alloc_many_fresh:
  assumes "inv a" and "card (used a) + n \<le> capacity" and "alloc_many alloc n a = (ss, a')"
  shows "length ss = n \<and> distinct ss \<and> set ss \<inter> used a = {} \<and> set ss \<subseteq> {..<capacity} \<and>
    used a' = used a \<union> set ss \<and> inv a'"
  using assms
proof (induction n arbitrary: a ss a')
  case (Suc n)
  obtain s a1 where s: "alloc a = (s, a1)" by (cases "alloc a")
  obtain ts where ts: "alloc_many alloc n a1 = (ts, a')" "ss = s # ts"
    using Suc.prems(3) s by (auto split: prod.splits)
  have "card (used a) \<noteq> card {..<capacity}"
    using Suc.prems(2) by simp
  then have "used a \<noteq> {..<capacity}"
    by metis
  with alloc_free [OF Suc.prems(1) _ s]
  have a1: "s < capacity" "s \<notin> used a" "used a1 = insert s (used a)" "inv a1" by auto
  have "finite (used a)"
    using used_bound [OF Suc.prems(1)] finite_subset by blast
  with a1 Suc.prems(2) have "card (used a1) + n \<le> capacity" by simp
  from Suc.IH [OF a1(4) this ts(1)]
  have IH: "length ts = n \<and> distinct ts \<and> set ts \<inter> insert s (used a) = {} \<and>
      set ts \<subseteq> {..<capacity} \<and> used a' = insert s (used a) \<union> set ts \<and> inv a'"
    unfolding a1(3) .
  then have "s \<notin> set ts" "set ts \<inter> used a = {}"
    by blast+
  with IH a1(1,2) show ?case
    unfolding ts(2) by simp
qed simp

lemma freed_reusable:
  assumes "inv a" and "s \<in> set ss" and "set ss \<subseteq> {..<capacity}" and "free ss a = Some a'"
  shows "fst (alloc a') \<noteq> invalid"
  using assms free_some [of a ss] alloc_invalid_iff [of a'] by auto

end

interpretation slots: slot_pool AllocateSlot FreeSlots used_slots alloc_inv kTotalSlots kInvalidIndex
proof (unfold_locales, goal_cases)
  case (1 a)
  show ?case by (rule used_slots_bound)
next
  case (4 a s a')
  then show ?case using AllocateSlot_free(1-4) by blast
next
  case (5 a ss)
  then show ?case by (rule FreeSlots_some)
qed (simp_all add: AllocateSlot_full)

section \<open>Concurrent threads\<close>

text \<open>
  The loops of \<^verbatim>\<open>AllocateSlot\<close> and \<^verbatim>\<open>FreeSlots\<close> cut at their atomic operations. A thread owns the slots
  it was given and has not started to free. \<^verbatim>\<open>compare_exchange_weak\<close> may fail at any time; it then
  reloads the block.
\<close>

datatype slot_pc =
    Idle
  | AllocScan nat nat
  | AllocTry nat nat u64
  | AllocStore nat
  | FreeLoad nat
  | FreeTry nat u64

record slot_thread =
  thread_pc :: slot_pc
  owned :: "nat set"

record slot_system =
  sys_masks :: "u64 list"
  sys_cur :: nat
  threads :: "nat \<Rightarrow> slot_thread"

definition block_of :: "nat \<Rightarrow> slot_system \<Rightarrow> u64" where
  "block_of slot s = sys_masks s ! (slot div kSlotsPerBlock)"

definition write_block :: "nat \<Rightarrow> u64 \<Rightarrow> slot_system \<Rightarrow> slot_system" where
  "write_block slot w s = s\<lparr>sys_masks := (sys_masks s)[slot div kSlotsPerBlock := w]\<rparr>"

definition goto :: "nat \<Rightarrow> slot_pc \<Rightarrow> slot_system \<Rightarrow> slot_system" where
  "goto t p s = s\<lparr>threads := (threads s)(t := (threads s t)\<lparr>thread_pc := p\<rparr>)\<rparr>"

definition set_owned :: "nat \<Rightarrow> nat set \<Rightarrow> slot_system \<Rightarrow> slot_system" where
  "set_owned t S s = s\<lparr>threads := (threads s)(t := (threads s t)\<lparr>owned := S\<rparr>)\<rparr>"

inductive slot_step :: "slot_system \<Rightarrow> slot_system \<Rightarrow> bool" where
  alloc_begin: "thread_pc (threads s t) = Idle \<Longrightarrow> slot_step s (goto t (AllocScan (sys_cur s) 0) s)"
| alloc_load: "thread_pc (threads s t) = AllocScan c i \<Longrightarrow> i < kTotalSlots \<Longrightarrow>
    slot_step s (goto t (AllocTry c i (block_of ((c + i) mod kTotalSlots) s)) s)"
| alloc_none: "thread_pc (threads s t) = AllocScan c i \<Longrightarrow> \<not> i < kTotalSlots \<Longrightarrow>
    slot_step s (goto t Idle s)"
| alloc_taken: "thread_pc (threads s t) = AllocTry c i old \<Longrightarrow>
    old AND slot_mask ((c + i) mod kTotalSlots) \<noteq> 0 \<Longrightarrow> slot_step s (goto t (AllocScan c (Suc i)) s)"
| alloc_cas: "thread_pc (threads s t) = AllocTry c i old \<Longrightarrow> slot = (c + i) mod kTotalSlots \<Longrightarrow>
    old AND slot_mask slot = 0 \<Longrightarrow> block_of slot s = old \<Longrightarrow>
    slot_step s (goto t (AllocStore slot) (write_block slot (old OR slot_mask slot) s))"
| alloc_cas_fails: "thread_pc (threads s t) = AllocTry c i old \<Longrightarrow> slot = (c + i) mod kTotalSlots \<Longrightarrow>
    old AND slot_mask slot = 0 \<Longrightarrow> slot_step s (goto t (AllocTry c i (block_of slot s)) s)"
| alloc_store: "thread_pc (threads s t) = AllocStore slot \<Longrightarrow>
    slot_step s (set_owned t (insert slot (owned (threads s t)))
      (goto t Idle (s\<lparr>sys_cur := (slot + 1) mod kTotalSlots\<rparr>)))"
| free_begin: "thread_pc (threads s t) = Idle \<Longrightarrow> slot \<in> owned (threads s t) \<Longrightarrow>
    slot_step s (set_owned t (owned (threads s t) - {slot}) (goto t (FreeLoad slot) s))"
| free_load: "thread_pc (threads s t) = FreeLoad slot \<Longrightarrow>
    slot_step s (goto t (FreeTry slot (block_of slot s)) s)"
| free_clear: "thread_pc (threads s t) = FreeTry slot old \<Longrightarrow> old AND slot_mask slot = 0 \<Longrightarrow>
    slot_step s (goto t Idle s)"
| free_cas: "thread_pc (threads s t) = FreeTry slot old \<Longrightarrow> old AND slot_mask slot \<noteq> 0 \<Longrightarrow>
    block_of slot s = old \<Longrightarrow>
    slot_step s (goto t Idle (write_block slot (old AND NOT (slot_mask slot)) s))"
| free_cas_fails: "thread_pc (threads s t) = FreeTry slot old \<Longrightarrow> old AND slot_mask slot \<noteq> 0 \<Longrightarrow>
    slot_step s (goto t (FreeTry slot (block_of slot s)) s)"

inductive slot_run :: "slot_system \<Rightarrow> slot_system \<Rightarrow> bool" where
  here: "slot_run s s"
| step: "slot_run s t \<Longrightarrow> slot_step t u \<Longrightarrow> slot_run s u"

definition slot_start :: slot_system where
  "slot_start = \<lparr>sys_masks = replicate kNumBlocks 0, sys_cur = 0,
     threads = (\<lambda>_. \<lparr>thread_pc = Idle, owned = {}\<rparr>)\<rparr>"

text \<open>The slots a thread has a right to, with the one it is working on.\<close>

fun pc_slot :: "slot_pc \<Rightarrow> nat set" where
  "pc_slot (AllocStore slot) = {slot}"
| "pc_slot (FreeLoad slot) = {slot}"
| "pc_slot (FreeTry slot _) = {slot}"
| "pc_slot _ = {}"

definition claim :: "slot_thread \<Rightarrow> nat set" where
  "claim th = owned th \<union> pc_slot (thread_pc th)"

definition slot_system_inv :: "slot_system \<Rightarrow> bool" where
  "slot_system_inv s \<longleftrightarrow>
     length (sys_masks s) = kNumBlocks \<and>
     masks_used (sys_masks s) = (\<Union>t. claim (threads s t)) \<and>
     (\<forall>t u. t \<noteq> u \<longrightarrow> claim (threads s t) \<inter> claim (threads s u) = {}) \<and>
     (\<forall>t. owned (threads s t) \<inter> pc_slot (thread_pc (threads s t)) = {}) \<and>
     (\<forall>t slot old. thread_pc (threads s t) = FreeTry slot old \<longrightarrow> old AND slot_mask slot \<noteq> 0)"

lemma slot_system_invD:
  assumes "slot_system_inv s"
  shows "length (sys_masks s) = kNumBlocks"
    and "masks_used (sys_masks s) = (\<Union>t. claim (threads s t))"
    and "t \<noteq> u \<Longrightarrow> claim (threads s t) \<inter> claim (threads s u) = {}"
    and "owned (threads s t) \<inter> pc_slot (thread_pc (threads s t)) = {}"
    and "thread_pc (threads s t) = FreeTry slot old \<Longrightarrow> old AND slot_mask slot \<noteq> 0"
  using assms unfolding slot_system_inv_def by blast+

text \<open>One thread changes its claim to \<open>C\<close>, and the used slots change with it.\<close>

lemma slot_system_inv_update:
  assumes "slot_system_inv s" and "length (sys_masks s') = kNumBlocks"
    and "threads s' = (threads s)(t := th)"
    and "masks_used (sys_masks s') = (masks_used (sys_masks s) - claim (threads s t)) \<union> claim th"
    and "claim th \<subseteq> claim (threads s t) \<union> (- masks_used (sys_masks s))"
    and "owned th \<inter> pc_slot (thread_pc th) = {}"
    and "\<And>slot old. thread_pc th = FreeTry slot old \<Longrightarrow> old AND slot_mask slot \<noteq> 0"
  shows "slot_system_inv s'"
proof -
  note I = slot_system_invD [OF assms(1)]
  have others: "claim (threads s u) \<inter> claim th = {}" if "u \<noteq> t" for u
    using I(2) I(3) [OF that] assms(5) by blast
  have rest: "masks_used (sys_masks s) - claim (threads s t) = (\<Union>u \<in> - {t}. claim (threads s u))"
    unfolding I(2) using I(3) by blast
  have th: "threads s' u = (if u = t then th else threads s u)" for u
    by (simp add: assms(3))
  show ?thesis
    unfolding slot_system_inv_def
  proof (intro conjI allI impI)
    show "masks_used (sys_masks s') = (\<Union>u. claim (threads s' u))"
      unfolding assms(4) rest th by (auto split: if_splits)
  next
    fix u v :: nat
    assume "u \<noteq> v"
    then show "claim (threads s' u) \<inter> claim (threads s' v) = {}"
      unfolding th using others [of u] others [of v] I(3) [of u v] by (auto split: if_splits)
  next
    fix u
    show "owned (threads s' u) \<inter> pc_slot (thread_pc (threads s' u)) = {}"
      unfolding th using assms(6) I(4) by simp
  next
    fix u slot old
    assume "thread_pc (threads s' u) = FreeTry slot old"
    then show "old AND slot_mask slot \<noteq> 0"
      unfolding th using assms(7) I(5) by (simp split: if_splits)
  qed (rule assms(2))
qed


lemmas slot_updates = goto_def write_block_def set_owned_def claim_def

lemma claimed_used: "slot_system_inv s \<Longrightarrow> slot \<in> claim (threads s t) \<Longrightarrow> slot \<in> masks_used (sys_masks s)"
  using slot_system_invD(2) by blast

lemma claimed_block:
  assumes "slot_system_inv s" and "slot \<in> claim (threads s t)"
  shows "block_of slot s AND slot_mask slot \<noteq> 0" and "slot < kTotalSlots"
  using claimed_used [OF assms] by (auto simp: masks_used_def slot_mask_test block_of_def)

text \<open>Steps that neither change the bitmap nor the claim.\<close>

lemma slot_inv_goto:
  assumes "slot_system_inv s" and "pc_slot p = pc_slot (thread_pc (threads s t))"
    and "\<And>slot old. p = FreeTry slot old \<Longrightarrow> old AND slot_mask slot \<noteq> 0"
  shows "slot_system_inv (goto t p s)"
  using slot_system_invD(1,2) [OF assms(1)] slot_system_invD(4) [OF assms(1), of t] assms(2,3)
  by (intro slot_system_inv_update [OF assms(1), where t = t
        and th = "(threads s t)\<lparr>thread_pc := p\<rparr>"]) (auto simp: slot_updates)

lemma slot_inv_cas_set:
  assumes "slot_system_inv s" and "slot < kTotalSlots" and "block_of slot s = old"
    and "old AND slot_mask slot = 0" and "pc_slot (thread_pc (threads s t)) = {}"
  shows "slot_system_inv (goto t (AllocStore slot) (write_block slot (old OR slot_mask slot) s))"
proof -
  note I = slot_system_invD [OF assms(1)]
  have fresh: "slot \<notin> masks_used (sys_masks s)"
    using assms(3,4) by (auto simp: masks_used_def slot_mask_test block_of_def)
  have new: "masks_used (sys_masks (write_block slot (old OR slot_mask slot) s)) =
      insert slot (masks_used (sys_masks s))"
    using masks_used_set [OF I(1) assms(2)] assms(3) by (simp add: write_block_def block_of_def)
  show ?thesis
    using I(1,2) fresh new assms(5) claimed_used [OF assms(1), of slot t]
    by (intro slot_system_inv_update [OF assms(1), where t = t]) (auto simp: slot_updates)
qed

lemma slot_inv_cas_clear:
  assumes "slot_system_inv s" and "thread_pc (threads s t) = FreeTry slot old"
    and "block_of slot s = old"
  shows "slot_system_inv (goto t Idle (write_block slot (old AND NOT (slot_mask slot)) s))"
proof -
  note I = slot_system_invD [OF assms(1)]
  have slot: "slot \<in> claim (threads s t)" "slot \<notin> owned (threads s t)"
    using assms(2) I(4) [of t] by (auto simp: claim_def)
  have "masks_used (sys_masks (write_block slot (old AND NOT (slot_mask slot)) s)) =
      masks_used (sys_masks s) - {slot}"
    using masks_used_clear [OF I(1) claimed_block(2) [OF assms(1) slot(1)]] assms(3)
    by (simp add: write_block_def block_of_def)
  then show ?thesis
    using I(1,2) slot assms(2)
    by (intro slot_system_inv_update [OF assms(1), where t = t]) (auto simp: slot_updates)
qed

lemma slot_inv_transfer:
  assumes "slot_system_inv s" and "S \<union> pc_slot p = claim (threads s t)" and "S \<inter> pc_slot p = {}"
    and "\<And>slot old. p \<noteq> FreeTry slot old"
  shows "slot_system_inv (set_owned t S (goto t p (s\<lparr>sys_cur := c\<rparr>)))"
proof -
  have "claim ((threads s t)\<lparr>thread_pc := p, owned := S\<rparr>) = claim (threads s t)"
    using assms(2) by (simp add: claim_def)
  moreover have "claim (threads s t) \<subseteq> masks_used (sys_masks s)"
    using claimed_used [OF assms(1)] by blast
  ultimately show ?thesis
    using slot_system_invD(1) [OF assms(1)] assms(3,4)
    by (intro slot_system_inv_update [OF assms(1), where t = t
          and th = "(threads s t)\<lparr>thread_pc := p, owned := S\<rparr>"])
      (auto simp: goto_def set_owned_def)
qed

lemma slot_step_inv: "slot_step s s' \<Longrightarrow> slot_system_inv s \<Longrightarrow> slot_system_inv s'"
proof (induction rule: slot_step.induct)
  case (alloc_cas s t c i old slot)
  then show ?case by (intro slot_inv_cas_set) simp_all
next
  case (alloc_store s t slot)
  then show ?case
    using slot_system_invD(4) [of s t] by (intro slot_inv_transfer) (auto simp: claim_def)
next
  case (free_begin s t slot)
  then show ?case
    using slot_inv_transfer [of s "owned (threads s t) - {slot}" "FreeLoad slot" t "sys_cur s"]
    by (auto simp: claim_def)
next
  case (free_load s t slot)
  then show ?case
    using claimed_block(1) [of s slot t] by (intro slot_inv_goto) (auto simp: claim_def)
next
  case (free_clear s t slot old)
  then show ?case using slot_system_invD(5) by blast
next
  case (free_cas s t slot old)
  then show ?case by (intro slot_inv_cas_clear)
next
  case (free_cas_fails s t slot old)
  then show ?case
    using claimed_block(1) [of s slot t] by (intro slot_inv_goto) (auto simp: claim_def)
qed (auto intro!: slot_inv_goto)

lemma slot_start_inv: "slot_system_inv slot_start"
proof -
  have "masks_used (sys_masks slot_start) = {}"
    using Reset_used by (simp add: used_slots_def slot_start_def TimeStampSlotAllocator_Reset_def)
  then show ?thesis
    by (simp add: slot_system_inv_def slot_start_def claim_def)
qed

lemma slot_run_inv: "slot_run s t \<Longrightarrow> slot_system_inv s \<Longrightarrow> slot_system_inv t"
  by (induction rule: slot_run.induct) (auto intro: slot_step_inv)

end
