(* ===== verification/Gpu_Frame_Boundary.thy ===== *)
theory Gpu_Frame_Boundary
  imports Dive_Prelude
begin

text \<open>
  \<^verbatim>\<open>FrameBoundaryDetector\<close> (\<^verbatim>\<open>gpu_time/frame_boundary_detector.cpp\<close>) and the parts of the Vulkan
  interface that the GPU timing code reads. Handles are numbers, zero the null handle; a pointer
  argument that may be null is an option, and an array with its count is a list.
\<close>

section \<open>Vulkan arguments\<close>

type_synonym VkCommandBuffer = nat
type_synonym VkCommandPool = nat

datatype VkCommandBufferLevel = VK_COMMAND_BUFFER_LEVEL_PRIMARY | VK_COMMAND_BUFFER_LEVEL_SECONDARY

record VkCommandBufferAllocateInfo =
  level :: VkCommandBufferLevel
  commandPool :: VkCommandPool

record VkSubmitInfo =
  pCommandBuffers :: "VkCommandBuffer list option"

section \<open>The detector\<close>

record BoundaryInfo =
  fb_pool :: VkCommandPool
  is_frameboundary :: bool

record BoundaryStatus =
  bs_message :: string
  bs_success :: bool

type_synonym FrameBoundaryDetector = "VkCommandBuffer \<rightharpoonup> BoundaryInfo"

definition kVulkanVrFrameDelimiterString :: string where
  "kVulkanVrFrameDelimiterString = ''vr-marker,frame_end,type,application''"

fun track_all :: "VkCommandPool \<Rightarrow> VkCommandBuffer list \<Rightarrow> FrameBoundaryDetector \<Rightarrow> FrameBoundaryDetector"
  where
  "track_all pool [] d = d"
| "track_all pool (cmd # cmds) d =
     track_all pool cmds (d(cmd \<mapsto> \<lparr>fb_pool = pool, is_frameboundary = False\<rparr>))"

definition Detector_OnAllocateCommandBuffers ::
    "VkCommandBufferAllocateInfo option \<Rightarrow> VkCommandBuffer list option \<Rightarrow>
     FrameBoundaryDetector \<Rightarrow> FrameBoundaryDetector" where
  "Detector_OnAllocateCommandBuffers allocate_info_ptr command_buffers_ptr d =
    (case (allocate_info_ptr, command_buffers_ptr) of
       (Some info, Some cmds) \<Rightarrow>
         if level info = VK_COMMAND_BUFFER_LEVEL_SECONDARY then d
         else track_all (commandPool info) cmds d
     | _ \<Rightarrow> d)"

fun untrack_all :: "VkCommandBuffer list \<Rightarrow> FrameBoundaryDetector \<Rightarrow> FrameBoundaryDetector" where
  "untrack_all [] d = d"
| "untrack_all (cmd # cmds) d = untrack_all cmds (d(cmd := None))"

definition Detector_OnFreeCommandBuffers ::
    "VkCommandBuffer list option \<Rightarrow> FrameBoundaryDetector \<Rightarrow> FrameBoundaryDetector" where
  "Detector_OnFreeCommandBuffers command_buffers_ptr d =
    (case command_buffers_ptr of None \<Rightarrow> d | Some cmds \<Rightarrow> untrack_all cmds d)"

definition set_flag :: "bool \<Rightarrow> BoundaryInfo \<Rightarrow> BoundaryInfo" where
  "set_flag b info = info\<lparr>is_frameboundary := b\<rparr>"

definition Detector_OnResetCommandBuffer ::
    "VkCommandBuffer \<Rightarrow> FrameBoundaryDetector \<Rightarrow> FrameBoundaryDetector" where
  "Detector_OnResetCommandBuffer command_buffer d =
    (case d command_buffer of
       None \<Rightarrow> d
     | Some info \<Rightarrow> d(command_buffer \<mapsto> set_flag False info))"

definition Detector_OnResetCommandPool ::
    "VkCommandPool \<Rightarrow> FrameBoundaryDetector \<Rightarrow> FrameBoundaryDetector" where
  "Detector_OnResetCommandPool command_pool d =
    (\<lambda>cmd. map_option (\<lambda>info. if fb_pool info = command_pool then set_flag False info else info) (d cmd))"

text \<open>\<open>None\<close> stands for a null label or a label without a name.\<close>

definition MarkBoundary ::
    "VkCommandBuffer \<Rightarrow> string option \<Rightarrow> FrameBoundaryDetector \<Rightarrow> BoundaryStatus \<times> FrameBoundaryDetector"
  where
  "MarkBoundary command_buffer label_info d =
    (case label_info of
       None \<Rightarrow>
         (\<lparr>bs_message = ''label_info_ptr or label_info_ptr->pLabelName is null!'', bs_success = False\<rparr>, d)
     | Some name \<Rightarrow>
         if name = kVulkanVrFrameDelimiterString then
           (case d command_buffer of
              Some info \<Rightarrow>
                (\<lparr>bs_message = [], bs_success = True\<rparr>, d(command_buffer \<mapsto> set_flag True info))
            | None \<Rightarrow>
                (\<lparr>bs_message = ''command_buffer is not in the cmd cache '' @
                    ''(a frame boundary should be always in a primary command buffer)'',
                  bs_success = False\<rparr>, d))
         else (\<lparr>bs_message = [], bs_success = True\<rparr>, d))"

definition IsFrameBoundary :: "FrameBoundaryDetector \<Rightarrow> VkCommandBuffer \<Rightarrow> bool" where
  "IsFrameBoundary d command_buffer =
    (case d command_buffer of None \<Rightarrow> False | Some info \<Rightarrow> is_frameboundary info)"

fun submit_has_boundary :: "FrameBoundaryDetector \<Rightarrow> VkCommandBuffer list \<Rightarrow> bool" where
  "submit_has_boundary d [] = False"
| "submit_has_boundary d (cmd # cmds) =
    (if (case d cmd of None \<Rightarrow> False | Some info \<Rightarrow> is_frameboundary info) then True
     else submit_has_boundary d cmds)"

fun submits_have_boundary :: "FrameBoundaryDetector \<Rightarrow> VkSubmitInfo list \<Rightarrow> bool" where
  "submits_have_boundary d [] = False"
| "submits_have_boundary d (submit # submits) =
    (case pCommandBuffers submit of
       None \<Rightarrow> submits_have_boundary d submits
     | Some cmds \<Rightarrow> if submit_has_boundary d cmds then True else submits_have_boundary d submits)"

definition ContainsFrameBoundary :: "FrameBoundaryDetector \<Rightarrow> VkSubmitInfo list option \<Rightarrow> bool" where
  "ContainsFrameBoundary d submits_ptr =
    (case submits_ptr of None \<Rightarrow> False | Some submits \<Rightarrow> submits_have_boundary d submits)"

fun clear_flags :: "VkCommandBuffer list \<Rightarrow> FrameBoundaryDetector \<Rightarrow> FrameBoundaryDetector" where
  "clear_flags [] d = d"
| "clear_flags (cmd # cmds) d =
    clear_flags cmds
      (case d cmd of
         Some info \<Rightarrow> if is_frameboundary info then d(cmd \<mapsto> set_flag False info) else d
       | None \<Rightarrow> d)"

fun clear_submits :: "VkSubmitInfo list \<Rightarrow> FrameBoundaryDetector \<Rightarrow> FrameBoundaryDetector" where
  "clear_submits [] d = d"
| "clear_submits (submit # submits) d =
    clear_submits submits
      (case pCommandBuffers submit of None \<Rightarrow> d | Some cmds \<Rightarrow> clear_flags cmds d)"

definition ClearBoundaryFlags ::
    "VkSubmitInfo list option \<Rightarrow> FrameBoundaryDetector \<Rightarrow> FrameBoundaryDetector" where
  "ClearBoundaryFlags submits_ptr d =
    (case submits_ptr of None \<Rightarrow> d | Some submits \<Rightarrow> clear_submits submits d)"

section \<open>What the flags mean\<close>

definition submitted_cmds :: "VkSubmitInfo list \<Rightarrow> VkCommandBuffer set" where
  "submitted_cmds submits =
    (\<Union>submit \<in> set submits. case pCommandBuffers submit of None \<Rightarrow> {} | Some cmds \<Rightarrow> set cmds)"

lemma submitted_cmds_simps [simp]:
  "submitted_cmds [] = {}"
  "submitted_cmds (submit # submits) =
    (case pCommandBuffers submit of None \<Rightarrow> {} | Some cmds \<Rightarrow> set cmds) \<union> submitted_cmds submits"
  by (simp_all add: submitted_cmds_def)

lemma submit_has_boundary_iff: "submit_has_boundary d cmds \<longleftrightarrow> (\<exists>cmd \<in> set cmds. IsFrameBoundary d cmd)"
  by (induction cmds) (auto simp: IsFrameBoundary_def)

lemma ContainsFrameBoundary_iff:
  "ContainsFrameBoundary d (Some submits) \<longleftrightarrow> (\<exists>cmd \<in> submitted_cmds submits. IsFrameBoundary d cmd)"
proof -
  have "submits_have_boundary d submits \<longleftrightarrow> (\<exists>cmd \<in> submitted_cmds submits. IsFrameBoundary d cmd)"
    by (induction submits) (auto simp: submit_has_boundary_iff split: option.splits)
  then show ?thesis by (simp add: ContainsFrameBoundary_def)
qed

lemma IsFrameBoundary_track_all:
  "IsFrameBoundary (track_all pool cmds d) cmd \<longleftrightarrow> cmd \<notin> set cmds \<and> IsFrameBoundary d cmd"
  by (induction cmds arbitrary: d) (auto simp: IsFrameBoundary_def)

lemma dom_track_all: "dom (track_all pool cmds d) = dom d \<union> set cmds"
  by (induction cmds arbitrary: d) auto

lemma untrack_all_apply: "untrack_all cmds d cmd = (if cmd \<in> set cmds then None else d cmd)"
  by (induction cmds arbitrary: d) auto

lemma IsFrameBoundary_clear_flags:
  "IsFrameBoundary (clear_flags cmds d) cmd \<longleftrightarrow> cmd \<notin> set cmds \<and> IsFrameBoundary d cmd"
  by (induction cmds arbitrary: d) (auto simp: IsFrameBoundary_def set_flag_def split: option.splits)

lemma IsFrameBoundary_clear_submits:
  "IsFrameBoundary (clear_submits submits d) cmd \<longleftrightarrow>
     cmd \<notin> submitted_cmds submits \<and> IsFrameBoundary d cmd"
  by (induction submits arbitrary: d) (auto simp: IsFrameBoundary_clear_flags split: option.splits)

lemma IsFrameBoundary_reset:
  "IsFrameBoundary (Detector_OnResetCommandBuffer c d) cmd \<longleftrightarrow> cmd \<noteq> c \<and> IsFrameBoundary d cmd"
  by (auto simp: IsFrameBoundary_def Detector_OnResetCommandBuffer_def set_flag_def split: option.splits)

lemma IsFrameBoundary_reset_pool:
  "IsFrameBoundary (Detector_OnResetCommandPool pool d) cmd \<longleftrightarrow>
     IsFrameBoundary d cmd \<and> map_option fb_pool (d cmd) \<noteq> Some pool"
  by (auto simp: IsFrameBoundary_def Detector_OnResetCommandPool_def set_flag_def split: option.splits)

lemma IsFrameBoundary_mark:
  "IsFrameBoundary (snd (MarkBoundary c label d)) cmd \<longleftrightarrow>
     IsFrameBoundary d cmd \<or>
     cmd = c \<and> label = Some kVulkanVrFrameDelimiterString \<and> c \<in> dom d"
  by (auto simp: IsFrameBoundary_def MarkBoundary_def set_flag_def split: option.splits)

section \<open>Histories of the detector\<close>

text \<open>
  The calls as events. The flag of a command buffer is true exactly when, among the calls that
  concern it, the last one put the delimiter label into it while it was tracked.
\<close>

datatype boundary_event =
    Allocate VkCommandBufferAllocateInfo "VkCommandBuffer list"
  | Free "VkCommandBuffer list"
  | ResetBuffer VkCommandBuffer
  | ResetPool VkCommandPool
  | Label VkCommandBuffer "string option"
  | Clear "VkSubmitInfo list"

fun boundary_apply :: "FrameBoundaryDetector \<Rightarrow> boundary_event \<Rightarrow> FrameBoundaryDetector" where
  "boundary_apply d (Allocate info cmds) = Detector_OnAllocateCommandBuffers (Some info) (Some cmds) d"
| "boundary_apply d (Free cmds) = Detector_OnFreeCommandBuffers (Some cmds) d"
| "boundary_apply d (ResetBuffer cmd) = Detector_OnResetCommandBuffer cmd d"
| "boundary_apply d (ResetPool pool) = Detector_OnResetCommandPool pool d"
| "boundary_apply d (Label cmd label) = snd (MarkBoundary cmd label d)"
| "boundary_apply d (Clear submits) = ClearBoundaryFlags (Some submits) d"

definition boundary_history :: "boundary_event list \<Rightarrow> FrameBoundaryDetector" where
  "boundary_history = foldl boundary_apply (\<lambda>_. None)"

text \<open>The pool a command buffer is tracked under, from the allocations and frees alone.\<close>

fun tracked_pool :: "VkCommandBuffer \<Rightarrow> VkCommandPool option \<Rightarrow> boundary_event \<Rightarrow> VkCommandPool option"
  where
  "tracked_pool cmd p (Allocate info cmds) =
     (if cmd \<in> set cmds \<and> level info = VK_COMMAND_BUFFER_LEVEL_PRIMARY then Some (commandPool info) else p)"
| "tracked_pool cmd p (Free cmds) = (if cmd \<in> set cmds then None else p)"
| "tracked_pool cmd p _ = p"

text \<open>Whether an event removes the mark of a command buffer tracked under \<open>p\<close>.\<close>

fun removes_mark :: "VkCommandBuffer \<Rightarrow> VkCommandPool option \<Rightarrow> boundary_event \<Rightarrow> bool" where
  "removes_mark cmd p (Allocate info cmds) =
     (cmd \<in> set cmds \<and> level info = VK_COMMAND_BUFFER_LEVEL_PRIMARY)"
| "removes_mark cmd p (Free cmds) = (cmd \<in> set cmds)"
| "removes_mark cmd p (ResetBuffer c) = (cmd = c)"
| "removes_mark cmd p (ResetPool pool) = (p = Some pool)"
| "removes_mark cmd p (Clear submits) = (cmd \<in> submitted_cmds submits)"
| "removes_mark cmd p (Label _ _) = False"

definition pool_after :: "VkCommandBuffer \<Rightarrow> boundary_event list \<Rightarrow> VkCommandPool option" where
  "pool_after cmd evs = foldl (tracked_pool cmd) None evs"

definition marked_last :: "boundary_event list \<Rightarrow> VkCommandBuffer \<Rightarrow> bool" where
  "marked_last evs cmd \<longleftrightarrow>
    (\<exists>i < length evs. evs ! i = Label cmd (Some kVulkanVrFrameDelimiterString) \<and>
       pool_after cmd (take i evs) \<noteq> None \<and>
       (\<forall>k < length evs. i < k \<longrightarrow> \<not> removes_mark cmd (pool_after cmd (take k evs)) (evs ! k)))"

lemma level_not_secondary: "level info \<noteq> VK_COMMAND_BUFFER_LEVEL_SECONDARY \<longleftrightarrow>
    level info = VK_COMMAND_BUFFER_LEVEL_PRIMARY"
  by (cases "level info") auto

lemma track_all_apply:
  "track_all pool cmds d cmd =
    (if cmd \<in> set cmds then Some \<lparr>fb_pool = pool, is_frameboundary = False\<rparr> else d cmd)"
  by (induction cmds arbitrary: d) auto

lemma clear_flags_pool: "map_option fb_pool (clear_flags cmds d cmd) = map_option fb_pool (d cmd)"
  by (induction cmds arbitrary: d) (auto simp: set_flag_def split: option.splits if_splits)

lemma clear_submits_pool:
  "map_option fb_pool (clear_submits submits d cmd) = map_option fb_pool (d cmd)"
  by (induction submits arbitrary: d) (auto simp: clear_flags_pool split: option.splits)

lemma boundary_apply_pool:
  "map_option fb_pool (boundary_apply d e cmd) = tracked_pool cmd (map_option fb_pool (d cmd)) e"
proof (cases e)
  case (Allocate info cmds)
  then show ?thesis
    by (cases "level info") (auto simp: Detector_OnAllocateCommandBuffers_def track_all_apply)
next
  case (ResetPool pool)
  then show ?thesis
    by (cases "d cmd") (auto simp: Detector_OnResetCommandPool_def set_flag_def)
qed (auto simp: Detector_OnFreeCommandBuffers_def untrack_all_apply Detector_OnResetCommandBuffer_def
      MarkBoundary_def ClearBoundaryFlags_def clear_submits_pool set_flag_def split: option.splits)

lemma boundary_apply_flag:
  "IsFrameBoundary (boundary_apply d e) cmd \<longleftrightarrow>
     IsFrameBoundary d cmd \<and> \<not> removes_mark cmd (map_option fb_pool (d cmd)) e \<or>
     e = Label cmd (Some kVulkanVrFrameDelimiterString) \<and> d cmd \<noteq> None"
proof (cases e)
  case (Allocate info cmds)
  then show ?thesis
    by (auto simp: Detector_OnAllocateCommandBuffers_def IsFrameBoundary_track_all level_not_secondary)
next
  case (Free cmds)
  then show ?thesis
    by (auto simp: Detector_OnFreeCommandBuffers_def IsFrameBoundary_def untrack_all_apply)
qed (auto simp: IsFrameBoundary_reset IsFrameBoundary_reset_pool IsFrameBoundary_mark
    ClearBoundaryFlags_def IsFrameBoundary_clear_submits)

lemma boundary_history_pool: "map_option fb_pool (boundary_history evs cmd) = pool_after cmd evs"
  by (induction evs rule: rev_induct)
    (simp_all add: boundary_history_def pool_after_def boundary_apply_pool)

lemma marked_last_snoc:
  "marked_last (evs @ [e]) cmd \<longleftrightarrow>
     marked_last evs cmd \<and> \<not> removes_mark cmd (pool_after cmd evs) e \<or>
     e = Label cmd (Some kVulkanVrFrameDelimiterString) \<and> pool_after cmd evs \<noteq> None"
  unfolding marked_last_def
  by (simp add: nth_append Ex_less_Suc All_less_Suc) (auto simp: nth_append)

lemma boundary_history_flag: "IsFrameBoundary (boundary_history evs) cmd \<longleftrightarrow> marked_last evs cmd"
proof (induction evs rule: rev_induct)
  case Nil
  then show ?case by (simp add: boundary_history_def IsFrameBoundary_def marked_last_def)
next
  case (snoc e evs)
  have "boundary_history (evs @ [e]) = boundary_apply (boundary_history evs) e"
    by (simp add: boundary_history_def)
  with snoc boundary_history_pool [of evs cmd] show ?case
    by (auto simp: boundary_apply_flag marked_last_snoc)
qed

end
