(* ===== verification/Gpu_Frame_Metrics.thy ===== *)
theory Gpu_Frame_Metrics
  imports Complex_Main Dive_Prelude "HOL-Library.Multiset"
begin

text \<open>
  \<^verbatim>\<open>GPUTime::FrameMetrics\<close> (\<^verbatim>\<open>gpu_time/gpu_time.cpp\<close>): the sliding window of frame, command buffer and
  render pass times, and the statistics over it. Times are \<^verbatim>\<open>double\<close> in the source and real numbers
  here: rounding is not modelled. A \<^verbatim>\<open>std::deque\<close> is a list, its front first.
\<close>

definition kFrameMetricsLimit :: nat where
  "kFrameMetricsLimit = 1000"

definition kInvalidRenderPassCount :: nat where
  "kInvalidRenderPassCount = 2 ^ 64 - 1"

definition double_max :: real where
  "double_max = (2 - 1 / 2 ^ 52) * 2 ^ 1023"

record FrameMetrics =
  m_frame_time :: "real list"
  m_cmd_renderpass_count_vec :: "nat list"
  m_cmd_time_vec :: "real list list"
  m_renderpass_time_vec :: "real list list"

record Stats =
  average :: real
  median :: real
  stat_min :: real
  stat_max :: real
  stddev :: real

definition FrameMetrics_new :: FrameMetrics where
  "FrameMetrics_new =
    \<lparr>m_frame_time = [], m_cmd_renderpass_count_vec = [], m_cmd_time_vec = [],
     m_renderpass_time_vec = []\<rparr>"

definition Stats_new :: Stats where
  "Stats_new =
    \<lparr>average = 0, median = 0, stat_min = double_max, stat_max = - double_max, stddev = 0\<rparr>"

section \<open>Adding a frame\<close>

definition FrameMetrics_Reset :: "FrameMetrics \<Rightarrow> FrameMetrics" where
  "FrameMetrics_Reset fm =
     fm\<lparr>m_frame_time := [], m_cmd_time_vec := [], m_renderpass_time_vec := []\<rparr>"

text \<open>The loop that appends \<open>ts[i]\<close> to the \<open>i\<close>-th deque, for \<open>i\<close> below the length of \<open>ts\<close>.\<close>

definition push_times :: "real list \<Rightarrow> real list list \<Rightarrow> real list list" where
  "push_times ts ds = fold (\<lambda>i ds. ds[i := ds ! i @ [ts ! i]]) [0..<length ts] ds"

definition AddFrameData ::
    "real \<Rightarrow> real list \<Rightarrow> real list \<Rightarrow> nat list \<Rightarrow> FrameMetrics \<Rightarrow> FrameMetrics" where
  "AddFrameData frame_time cmd_time_vec renderpass_time_vec cmd_renderpass_count_vec fm =
    (let new_frame_cmd_count = length cmd_time_vec;
         new_frame_renderpass_count = length renderpass_time_vec;
         fm =
           (if length (m_cmd_time_vec fm) \<noteq> new_frame_cmd_count \<or>
               length (m_renderpass_time_vec fm) \<noteq> new_frame_renderpass_count
            then (FrameMetrics_Reset fm)
                   \<lparr>m_cmd_time_vec := replicate new_frame_cmd_count [],
                    m_renderpass_time_vec := replicate new_frame_renderpass_count [],
                    m_cmd_renderpass_count_vec := cmd_renderpass_count_vec\<rparr>
            else fm);
         fm =
           (if length (m_frame_time fm) = kFrameMetricsLimit
            then fm\<lparr>m_frame_time := tl (m_frame_time fm),
                    m_cmd_time_vec := map tl (m_cmd_time_vec fm),
                    m_renderpass_time_vec := map tl (m_renderpass_time_vec fm)\<rparr>
            else fm)
     in fm\<lparr>m_frame_time := m_frame_time fm @ [frame_time],
           m_cmd_time_vec := push_times cmd_time_vec (m_cmd_time_vec fm),
           m_renderpass_time_vec := push_times renderpass_time_vec (m_renderpass_time_vec fm)\<rparr>)"

section \<open>Statistics\<close>

definition CalculateAverage :: "real list \<Rightarrow> real" where
  "CalculateAverage data =
    (if data = [] then 0 else foldl (+) 0 data / real (length data))"

definition CalculateMedian :: "real list \<Rightarrow> real" where
  "CalculateMedian data =
    (if data = [] then 0
     else
       (let sorted_data = sort data; n = length sorted_data in
        if n mod 2 = 0 then (sorted_data ! (n div 2 - 1) + sorted_data ! (n div 2)) / 2
        else sorted_data ! (n div 2)))"

definition CalculateStdDev :: "real list \<Rightarrow> real \<Rightarrow> real" where
  "CalculateStdDev data avg =
    (if length data < 2 then 0
     else sqrt (foldl (\<lambda>variance d. variance + (d - avg) * (d - avg)) 0 data / real (length data - 1)))"

definition GetStatistics :: "real list \<Rightarrow> Stats" where
  "GetStatistics data =
    \<lparr>average = CalculateAverage data,
     median = CalculateMedian data,
     stat_min = foldl min double_max data,
     stat_max = foldl max (- double_max) data,
     stddev = CalculateStdDev data (CalculateAverage data)\<rparr>"

definition GetFrameTimeStats :: "FrameMetrics \<Rightarrow> Stats" where
  "GetFrameTimeStats fm = GetStatistics (m_frame_time fm)"

definition GetFrameCmdTimeStats :: "nat \<Rightarrow> FrameMetrics \<Rightarrow> Stats" where
  "GetFrameCmdTimeStats index fm =
    (if index \<ge> length (m_cmd_time_vec fm) then Stats_new
     else GetStatistics (m_cmd_time_vec fm ! index))"

definition GetFrameRenderPassTimeStats :: "nat \<Rightarrow> FrameMetrics \<Rightarrow> Stats" where
  "GetFrameRenderPassTimeStats index fm =
    (if index \<ge> length (m_renderpass_time_vec fm) then Stats_new
     else GetStatistics (m_renderpass_time_vec fm ! index))"

definition GetFrameCmdCount :: "FrameMetrics \<Rightarrow> nat" where
  "GetFrameCmdCount fm = length (m_cmd_time_vec fm)"

definition GetFrameRenderPassCount :: "FrameMetrics \<Rightarrow> nat" where
  "GetFrameRenderPassCount fm = length (m_renderpass_time_vec fm)"

definition GetCmdRenderPassCount :: "nat \<Rightarrow> FrameMetrics \<Rightarrow> nat" where
  "GetCmdRenderPassCount index fm =
    (if index \<ge> length (m_cmd_renderpass_count_vec fm) then kInvalidRenderPassCount
     else m_cmd_renderpass_count_vec fm ! index)"

section \<open>The window as a list of frames\<close>

text \<open>
  The specification: the metrics are a list of frames of one shape, the latest last, cut to the
  limit; a frame of another shape starts a new list.
\<close>

record frame =
  fr_time :: real
  fr_cmds :: "real list"
  fr_passes :: "real list"

definition same_shape :: "frame \<Rightarrow> frame \<Rightarrow> bool" where
  "same_shape f g \<longleftrightarrow>
     length (fr_cmds f) = length (fr_cmds g) \<and> length (fr_passes f) = length (fr_passes g)"

definition window_add :: "frame \<Rightarrow> frame list \<Rightarrow> frame list" where
  "window_add f fs =
    (let fs = (if fs \<noteq> [] \<and> \<not> same_shape f (last fs) then [] else fs);
         fs = (if length fs = kFrameMetricsLimit then tl fs else fs)
     in fs @ [f])"

text \<open>Column \<open>i\<close> of the frames' rows.\<close>

definition columns :: "(frame \<Rightarrow> real list) \<Rightarrow> nat \<Rightarrow> frame list \<Rightarrow> real list list" where
  "columns row n fs = map (\<lambda>i. map (\<lambda>f. row f ! i) fs) [0..<n]"

definition metrics_window :: "FrameMetrics \<Rightarrow> frame list \<Rightarrow> bool" where
  "metrics_window fm fs \<longleftrightarrow>
     length fs \<le> kFrameMetricsLimit \<and>
     (\<forall>f \<in> set fs. length (fr_cmds f) = length (m_cmd_time_vec fm) \<and>
        length (fr_passes f) = length (m_renderpass_time_vec fm)) \<and>
     m_frame_time fm = map fr_time fs \<and>
     m_cmd_time_vec fm = columns fr_cmds (length (m_cmd_time_vec fm)) fs \<and>
     m_renderpass_time_vec fm = columns fr_passes (length (m_renderpass_time_vec fm)) fs"

lemma fold_update_prefix:
  assumes "n \<le> length ds"
  shows "fold (\<lambda>i ds. ds[i := ds ! i @ [ts ! i]]) [0..<n] ds =
    map (\<lambda>i. if i < n then ds ! i @ [ts ! i] else ds ! i) [0..<length ds]"
  using assms
proof (induction n)
  case 0
  then show ?case by (simp add: map_nth)
next
  case (Suc n)
  then show ?case
    by (intro nth_equalityI) (auto simp: nth_list_update less_Suc_eq)
qed

lemma push_times_eq:
  assumes "length ts = length ds"
  shows "push_times ts ds = map (\<lambda>i. ds ! i @ [ts ! i]) [0..<length ds]"
  using assms fold_update_prefix [of "length ts" ds ts]
  by (auto simp: push_times_def intro: map_cong)

lemma length_columns [simp]: "length (columns row n fs) = n"
  by (simp add: columns_def)

lemma push_times_columns:
  "length (row f) = n \<Longrightarrow> push_times (row f) (columns row n fs) = columns row n (fs @ [f])"
  by (simp add: push_times_eq) (simp add: columns_def)

lemma columns_Nil: "columns row n [] = replicate n []"
  by (simp add: columns_def map_replicate_trivial)

lemma map_tl_columns: "map tl (columns row n fs) = columns row n (tl fs)"
  by (simp add: columns_def map_tl)

lemma metrics_window_new: "metrics_window FrameMetrics_new []"
  by (simp add: metrics_window_def FrameMetrics_new_def columns_def kFrameMetricsLimit_def)

text \<open>The two stages of \<^verbatim>\<open>AddFrameData\<close> before the new times are appended.\<close>

lemma window_after_limit:
  assumes "metrics_window fm fs" and "length (fr_cmds f) = length (m_cmd_time_vec fm)"
    and "length (fr_passes f) = length (m_renderpass_time_vec fm)"
  shows "metrics_window (AddFrameData (fr_time f) (fr_cmds f) (fr_passes f) counts fm)
    ((if length fs = kFrameMetricsLimit then tl fs else fs) @ [f])"
proof -
  define gs where "gs = (if length fs = kFrameMetricsLimit then tl fs else fs)"
  let ?n = "length (m_cmd_time_vec fm)" and ?k = "length (m_renderpass_time_vec fm)"
  note w = assms(1) [unfolded metrics_window_def]
  have gs: "length gs < kFrameMetricsLimit" "set gs \<subseteq> set fs"
    using w by (auto simp: gs_def kFrameMetricsLimit_def dest: list.set_sel(2) [rotated])
  have lim: "AddFrameData (fr_time f) (fr_cmds f) (fr_passes f) counts fm =
      fm\<lparr>m_frame_time := map fr_time gs @ [fr_time f],
         m_cmd_time_vec := push_times (fr_cmds f) (columns fr_cmds ?n gs),
         m_renderpass_time_vec := push_times (fr_passes f) (columns fr_passes ?k gs)\<rparr>"
  proof (cases "length fs = kFrameMetricsLimit")
    case True
    have "map tl (m_cmd_time_vec fm) = columns fr_cmds ?n gs"
      "map tl (m_renderpass_time_vec fm) = columns fr_passes ?k gs"
      "tl (m_frame_time fm) = map fr_time gs" "length (m_frame_time fm) = kFrameMetricsLimit"
      using w True map_tl_columns [of fr_cmds ?n fs] map_tl_columns [of fr_passes ?k fs]
      by (auto simp: gs_def map_tl)
    then show ?thesis
      using assms(2,3) by (simp add: AddFrameData_def Let_def)
  next
    case False
    then show ?thesis
      using w assms(2,3) by (simp add: AddFrameData_def Let_def gs_def)
  qed
  have "metrics_window (fm\<lparr>m_frame_time := map fr_time gs @ [fr_time f],
         m_cmd_time_vec := columns fr_cmds ?n (gs @ [f]),
         m_renderpass_time_vec := columns fr_passes ?k (gs @ [f])\<rparr>) (gs @ [f])"
    using gs w assms(2,3) unfolding metrics_window_def by auto
  then show ?thesis
    using lim assms(2,3) by (simp add: push_times_columns gs_def)
qed

lemma window_reset:
  assumes "length (m_cmd_time_vec fm) \<noteq> length cs \<or> length (m_renderpass_time_vec fm) \<noteq> length rs"
  shows "AddFrameData t cs rs counts fm =
    AddFrameData t cs rs counts
      \<lparr>m_frame_time = [], m_cmd_renderpass_count_vec = counts,
       m_cmd_time_vec = replicate (length cs) [], m_renderpass_time_vec = replicate (length rs) []\<rparr>"
  using assms by (simp add: AddFrameData_def FrameMetrics_Reset_def Let_def kFrameMetricsLimit_def)

lemma AddFrameData_window:
  assumes "metrics_window fm fs"
  shows "metrics_window (AddFrameData (fr_time f) (fr_cmds f) (fr_passes f) counts fm) (window_add f fs)"
proof (cases "length (fr_cmds f) = length (m_cmd_time_vec fm) \<and>
    length (fr_passes f) = length (m_renderpass_time_vec fm)")
  case True
  have "fs \<noteq> [] \<Longrightarrow> same_shape f (last fs)"
    using assms True unfolding metrics_window_def same_shape_def by (metis last_in_set)
  then have "window_add f fs = (if length fs = kFrameMetricsLimit then tl fs else fs) @ [f]"
    by (auto simp: window_add_def Let_def)
  with window_after_limit [OF assms] True show ?thesis by simp
next
  case False
  let ?fm = "\<lparr>m_frame_time = [], m_cmd_renderpass_count_vec = counts,
       m_cmd_time_vec = replicate (length (fr_cmds f)) [],
       m_renderpass_time_vec = replicate (length (fr_passes f)) []\<rparr>"
  have "fs = [] \<or> \<not> same_shape f (last fs)"
    using assms False unfolding metrics_window_def same_shape_def by (metis last_in_set)
  then have "window_add f fs = [f]"
    by (auto simp: window_add_def Let_def kFrameMetricsLimit_def)
  moreover have "metrics_window ?fm []"
    by (simp add: metrics_window_def columns_Nil)
  from window_after_limit [OF this, of f counts]
  have "metrics_window (AddFrameData (fr_time f) (fr_cmds f) (fr_passes f) counts ?fm) [f]"
    by (simp add: kFrameMetricsLimit_def)
  moreover have "AddFrameData (fr_time f) (fr_cmds f) (fr_passes f) counts fm =
      AddFrameData (fr_time f) (fr_cmds f) (fr_passes f) counts ?fm"
    using False by (intro window_reset) auto
  ultimately show ?thesis by simp
qed

text \<open>The counts of render passes per command buffer fit the vectors.\<close>

definition counts_ok :: "FrameMetrics \<Rightarrow> bool" where
  "counts_ok fm \<longleftrightarrow>
     length (m_cmd_renderpass_count_vec fm) = length (m_cmd_time_vec fm) \<and>
     sum_list (m_cmd_renderpass_count_vec fm) = length (m_renderpass_time_vec fm)"

lemma counts_ok_new: "counts_ok FrameMetrics_new"
  by (simp add: counts_ok_def FrameMetrics_new_def)

lemma length_push_times [simp]: "length (push_times ts ds) = length ds"
proof -
  have "length (fold (\<lambda>i ds. ds[i := ds ! i @ [ts ! i]]) is ds) = length ds" for "is"
    by (induction "is" arbitrary: ds) simp_all
  then show ?thesis by (simp add: push_times_def)
qed

lemma AddFrameData_counts:
  assumes "counts_ok fm" and "length counts = length cs" and "sum_list counts = length rs"
  shows "counts_ok (AddFrameData t cs rs counts fm)"
  using assms by (auto simp: counts_ok_def AddFrameData_def FrameMetrics_Reset_def Let_def)

lemma AddFrameData_lengths:
  "length (m_cmd_time_vec (AddFrameData t cs rs counts fm)) = length cs"
  "length (m_renderpass_time_vec (AddFrameData t cs rs counts fm)) = length rs"
  by (auto simp: AddFrameData_def Let_def FrameMetrics_Reset_def)

section \<open>Histories of frames\<close>

text \<open>
  A frame as the application submits it: its time, and its command buffers in order, each with its
  time and the times of its render passes. \<open>add_timed\<close> adds it the way \<^verbatim>\<open>UpdateFrameMetrics\<close> does, with the
  render passes of all command buffers in one vector.
\<close>

type_synonym timed_frame = "real \<times> (real \<times> real list) list"

definition frame_passes :: "timed_frame \<Rightarrow> real list" where
  "frame_passes f = concat (map snd (snd f))"

definition pass_counts :: "timed_frame \<Rightarrow> nat list" where
  "pass_counts f = map (length \<circ> snd) (snd f)"

definition add_timed :: "timed_frame \<Rightarrow> FrameMetrics \<Rightarrow> FrameMetrics" where
  "add_timed f fm = AddFrameData (fst f) (map fst (snd f)) (frame_passes f) (pass_counts f) fm"

definition flat_frame :: "timed_frame \<Rightarrow> frame" where
  "flat_frame f = \<lparr>fr_time = fst f, fr_cmds = map fst (snd f), fr_passes = frame_passes f\<rparr>"

text \<open>
  The current run: the last frames of the history that have as many command buffers and as many
  render passes as the last one. The metrics cover its last 1000 frames.
\<close>

definition same_totals :: "timed_frame \<Rightarrow> timed_frame \<Rightarrow> bool" where
  "same_totals f g \<longleftrightarrow>
     length (snd f) = length (snd g) \<and> length (frame_passes f) = length (frame_passes g)"

definition current_run :: "timed_frame list \<Rightarrow> timed_frame list" where
  "current_run fs = rev (takeWhile (same_totals (last fs)) (rev fs))"

definition last_frames :: "nat \<Rightarrow> 'a list \<Rightarrow> 'a list" where
  "last_frames n xs = drop (length xs - n) xs"

definition current_window :: "timed_frame list \<Rightarrow> timed_frame list" where
  "current_window fs = last_frames kFrameMetricsLimit (current_run fs)"

definition frame_history :: "FrameMetrics \<Rightarrow> bool" where
  "frame_history fm \<longleftrightarrow> (\<exists>fs. fm = fold add_timed fs FrameMetrics_new)"

lemma sum_pass_counts: "sum_list (pass_counts f) = length (frame_passes f)"
  by (simp add: pass_counts_def frame_passes_def length_concat comp_def)

lemma length_pass_counts [simp]: "length (pass_counts f) = length (snd f)"
  by (simp add: pass_counts_def)

lemma flat_frame_simps [simp]:
  "fr_time (flat_frame f) = fst f" "fr_cmds (flat_frame f) = map fst (snd f)"
  "fr_passes (flat_frame f) = frame_passes f"
  by (simp_all add: flat_frame_def)

lemma same_shape_flat: "same_shape (flat_frame f) (flat_frame g) = same_totals f g"
  by (simp add: same_shape_def same_totals_def)

lemma same_totals_refl [simp]: "same_totals f f"
  by (simp add: same_totals_def)

lemma current_run_snoc:
  "current_run (fs @ [f]) = (if fs \<noteq> [] \<and> same_totals f (last fs) then current_run fs @ [f] else [f])"
proof (cases "fs = []")
  case False
  then have rev: "rev fs = last fs # rev (butlast fs)"
    by (metis append_butlast_last_id rev.simps(2) rev_rev_ident)
  have "same_totals f = same_totals (last fs)" if "same_totals f (last fs)"
    using that by (auto simp: same_totals_def fun_eq_iff)
  moreover have "takeWhile (same_totals f) (rev fs) = []" if "\<not> same_totals f (last fs)"
    using that by (simp add: rev)
  ultimately show ?thesis
    using False by (auto simp: current_run_def)
qed (simp add: current_run_def)

lemma current_run_single [simp]: "current_run [f] = [f]"
  using current_run_snoc [of "[]"] by simp

lemma last_current_run: "fs \<noteq> [] \<Longrightarrow> current_run fs \<noteq> [] \<and> last (current_run fs) = last fs"
  by (cases fs rule: rev_cases) (auto simp: current_run_snoc)

lemma current_run_totals: "f \<in> set (current_run fs) \<Longrightarrow> same_totals (last fs) f"
  unfolding current_run_def by (auto dest: set_takeWhileD)

lemma last_frames_snoc:
  "0 < n \<Longrightarrow> last_frames n (xs @ [x]) =
     (if length (last_frames n xs) = n then tl (last_frames n xs) else last_frames n xs) @ [x]"
  by (auto simp: last_frames_def drop_Suc tl_drop Suc_diff_le not_less_eq_eq)

lemma last_last_frames: "0 < n \<Longrightarrow> xs \<noteq> [] \<Longrightarrow> last_frames n xs \<noteq> [] \<and> last (last_frames n xs) = last xs"
  by (cases xs rule: rev_cases) (auto simp: last_frames_snoc)

lemma current_window_snoc:
  "map flat_frame (current_window (fs @ [f])) = window_add (flat_frame f) (map flat_frame (current_window fs))"
proof (cases "fs = []")
  case True
  then show ?thesis
    by (simp add: current_window_def current_run_snoc window_add_def kFrameMetricsLimit_def
        last_frames_def current_run_def)
next
  case False
  note l = last_last_frames [of kFrameMetricsLimit, OF _ conjunct1 [OF last_current_run [OF False]]]
  show ?thesis
    using l last_current_run [OF False] False
    by (auto simp: current_window_def current_run_snoc window_add_def last_frames_snoc
        kFrameMetricsLimit_def last_map same_shape_flat map_tl last_frames_def [of _ "[f]"] Let_def)
qed

text \<open>The metrics after a history, the counts of render passes included.\<close>

lemma history_window: "metrics_window (fold add_timed fs FrameMetrics_new) (map flat_frame (current_window fs))"
proof (induction fs rule: rev_induct)
  case Nil
  then show ?case
    by (simp add: current_window_def current_run_def last_frames_def metrics_window_new)
next
  case (snoc f fs)
  from AddFrameData_window [OF this, of "flat_frame f" "pass_counts f"] show ?case
    by (simp add: add_timed_def current_window_snoc)
qed

lemma history_lengths:
  assumes "fs \<noteq> []"
  shows "length (m_cmd_time_vec (fold add_timed fs FrameMetrics_new)) = length (snd (last fs))"
    and "length (m_renderpass_time_vec (fold add_timed fs FrameMetrics_new)) = length (frame_passes (last fs))"
  using assms by (cases fs rule: rev_cases; simp add: add_timed_def AddFrameData_lengths)+

lemma add_timed_counts:
  "m_cmd_renderpass_count_vec (add_timed f fm) =
    (if length (m_cmd_time_vec fm) \<noteq> length (snd f) \<or>
        length (m_renderpass_time_vec fm) \<noteq> length (frame_passes f)
     then pass_counts f else m_cmd_renderpass_count_vec fm)"
  by (simp add: add_timed_def AddFrameData_def Let_def)

lemma history_counts:
  assumes "fs \<noteq> []"
  shows "m_cmd_renderpass_count_vec (fold add_timed fs FrameMetrics_new) = pass_counts (hd (current_run fs))"
  using assms
proof (induction fs rule: rev_induct)
  case (snoc f fs)
  show ?case
  proof (cases "fs = []")
    case True
    then show ?thesis
      by (auto simp: add_timed_counts FrameMetrics_new_def pass_counts_def)
  next
    case False
    from snoc.IH [OF False] history_lengths [OF False] last_current_run [OF False] False
    show ?thesis
      by (auto simp: add_timed_counts current_run_snoc same_totals_def)
  qed
qed simp

lemma history_new: "frame_history FrameMetrics_new"
  unfolding frame_history_def by (rule exI [of _ "[]"]) simp

text \<open>Any times whose counts fit are those of a frame.\<close>

lemma split_by_counts:
  "sum_list counts = length rs \<Longrightarrow> \<exists>pss. map length pss = counts \<and> concat pss = rs"
proof (induction counts arbitrary: rs)
  case (Cons c counts)
  then obtain pss where "map length pss = counts" "concat pss = drop c rs"
    using Cons.IH [of "drop c rs"] Cons.prems by fastforce
  with Cons.prems show ?case
    by (intro exI [of _ "take c rs # pss"]) auto
qed simp

lemma history_add:
  assumes "frame_history fm" and "length counts = length cs" and "sum_list counts = length rs"
  shows "frame_history (AddFrameData t cs rs counts fm)"
proof -
  obtain fs where fs: "fm = fold add_timed fs FrameMetrics_new"
    using assms(1) by (auto simp: frame_history_def)
  obtain pss where pss: "map length pss = counts" "concat pss = rs"
    using split_by_counts [OF assms(3)] by blast
  have "length cs = length pss"
    using assms(2) pss(1) by auto
  then have "AddFrameData t cs rs counts fm = add_timed (t, zip cs pss) fm"
    using pss by (simp add: add_timed_def frame_passes_def pass_counts_def flip: map_map)
  then show ?thesis
    unfolding frame_history_def fs by (intro exI [of _ "fs @ [(t, zip cs pss)]"]) simp
qed

section \<open>Facts about the statistics\<close>

lemma foldl_add_sum_list: "foldl (+) a xs = a + sum_list xs" for a :: real
  by (induction xs arbitrary: a) simp_all

lemma foldl_add_map: "foldl (\<lambda>v d. v + g d) a xs = a + (\<Sum>d \<leftarrow> xs. g d)" for a :: real
  by (induction xs arbitrary: a) simp_all

lemma foldl_min_Min: "foldl min a xs = Min (insert a (set xs))" for a :: real
proof (induction xs arbitrary: a)
  case (Cons x xs)
  then show ?case
    by (cases "xs = []") (simp_all add: min.assoc min.commute min.left_commute)
qed simp

lemma foldl_max_Max: "foldl max a xs = Max (insert a (set xs))" for a :: real
proof (induction xs arbitrary: a)
  case (Cons x xs)
  then show ?case
    by (cases "xs = []") (simp_all add: max.assoc max.commute max.left_commute)
qed simp

text \<open>Everything the statistics report depends only on the multiset of the data.\<close>

lemma GetStatistics_mset:
  assumes "mset data = mset data'"
  shows "GetStatistics data = GetStatistics data'"
proof -
  have len: "length data = length data'" and set: "set data = set data'"
    using mset_eq_length [OF assms] mset_eq_setD [OF assms] .
  have sums: "(\<Sum>d \<leftarrow> data. g d) = (\<Sum>d \<leftarrow> data'. g d)" for g :: "real \<Rightarrow> real"
    using assms by (metis mset_map sum_mset_sum_list)
  have sorted: "sort data = sort data'"
    using assms by (metis properties_for_sort mset_sort sorted_sort)
  have "data = [] \<longleftrightarrow> data' = []"
    using len by auto
  then show ?thesis
    using len set sorted sums [of id] sums
    by (simp add: GetStatistics_def CalculateAverage_def CalculateMedian_def CalculateStdDev_def
        foldl_add_sum_list foldl_add_map foldl_min_Min foldl_max_Max Let_def)
qed

lemma average_bounds:
  assumes "data \<noteq> []" and "\<forall>d \<in> set data. lo \<le> d \<and> d \<le> hi"
  shows "lo \<le> CalculateAverage data \<and> CalculateAverage data \<le> hi"
proof -
  have "real (length data) * lo \<le> sum_list data \<and> sum_list data \<le> real (length data) * hi"
    using assms(2) by (induction data) (auto simp: algebra_simps intro: add_mono)
  then show ?thesis
    using assms(1) by (simp add: CalculateAverage_def foldl_add_sum_list field_simps)
qed

lemma median_between:
  assumes "data \<noteq> []"
  shows "sort data ! ((length data - 1) div 2) \<le> CalculateMedian data \<and>
    CalculateMedian data \<le> sort data ! (length data div 2)"
proof (cases "length data mod 2 = 0")
  case True
  moreover have "(length data - 1) div 2 = length data div 2 - 1" and "0 < length data div 2"
    using True assms by (cases data; auto; presburger)+
  moreover have "sort data ! (length data div 2 - 1) \<le> sort data ! (length data div 2)"
    using assms by (intro sorted_nth_mono) auto
  ultimately show ?thesis
    using assms by (simp add: CalculateMedian_def Let_def)
next
  case False
  then have "(length data - 1) div 2 = length data div 2" by presburger
  with False assms show ?thesis by (simp add: CalculateMedian_def Let_def)
qed

text \<open>At least half of the data lie at or below the median, and at least half at or above it.\<close>

lemma sorted_count_le:
  assumes "sorted xs" and "k < length xs" and "xs ! k \<le> m"
  shows "Suc k \<le> length (filter (\<lambda>d. d \<le> m) xs)"
proof -
  have "\<forall>d \<in> set (take (Suc k) xs). d \<le> m"
    using assms sorted_nth_mono [OF assms(1), of _ k]
    by (fastforce simp: in_set_conv_nth less_Suc_eq_le)
  then have "filter (\<lambda>d. d \<le> m) (take (Suc k) xs) = take (Suc k) xs"
    by (simp add: filter_id_conv)
  then have "length (filter (\<lambda>d. d \<le> m) (take (Suc k) xs @ drop (Suc k) xs)) \<ge> Suc k"
    using assms(2) by (simp only: filter_append length_append length_take)
  then show ?thesis by (simp only: append_take_drop_id)
qed

lemma sorted_count_ge:
  assumes "sorted xs" and "k < length xs" and "m \<le> xs ! k"
  shows "length xs - k \<le> length (filter (\<lambda>d. m \<le> d) xs)"
proof -
  have "m \<le> xs ! (k + i)" if "i < length xs - k" for i
    by (rule order_trans [OF assms(3) sorted_nth_mono [OF assms(1)]]) (use that in auto)
  then have "\<forall>d \<in> set (drop k xs). m \<le> d"
    by (auto simp: in_set_conv_nth)
  then have "filter (\<lambda>d. m \<le> d) (drop k xs) = drop k xs"
    by (simp add: filter_id_conv)
  then have "length (filter (\<lambda>d. m \<le> d) (take k xs @ drop k xs)) \<ge> length xs - k"
    by (simp only: filter_append length_append length_drop)
  then show ?thesis by (simp only: append_take_drop_id)
qed

lemma length_filter_sort: "length (filter P (sort xs)) = length (filter P xs)"
  by (metis mset_filter mset_sort size_mset)

lemma median_halves:
  assumes "data \<noteq> []"
  shows "length data \<le> 2 * length (filter (\<lambda>d. d \<le> CalculateMedian data) data)"
    and "length data \<le> 2 * length (filter (\<lambda>d. CalculateMedian data \<le> d) data)"
proof -
  note m = median_between [OF assms]
  have l: "(length data - 1) div 2 < length (sort data)" "length data div 2 < length (sort data)"
    using assms by (cases data; simp; presburger)+
  from sorted_count_le [OF sorted_sort l(1)] m
  show "length data \<le> 2 * length (filter (\<lambda>d. d \<le> CalculateMedian data) data)"
    by (fastforce simp: length_filter_sort)
  from sorted_count_ge [OF sorted_sort l(2)] m
  show "length data \<le> 2 * length (filter (\<lambda>d. CalculateMedian data \<le> d) data)"
    by (fastforce simp: length_filter_sort)
qed

lemma stat_extremes:
  assumes "data \<noteq> []" and "\<forall>d \<in> set data. \<bar>d\<bar> \<le> double_max"
  shows "stat_min (GetStatistics data) = Min (set data)" "stat_max (GetStatistics data) = Max (set data)"
proof -
  have ne: "set data \<noteq> {}"
    using assms(1) by simp
  have "Min (set data) \<le> double_max" "- double_max \<le> Max (set data)"
    using abs_le_D1 [OF bspec [OF assms(2) Min_in [OF finite_set ne]]]
      abs_le_D2 [OF bspec [OF assms(2) Max_in [OF finite_set ne]]]
    by linarith+
  then show "stat_min (GetStatistics data) = Min (set data)"
    "stat_max (GetStatistics data) = Max (set data)"
    using assms(1) by (simp_all add: GetStatistics_def foldl_min_Min foldl_max_Max)
qed

lemma stddev_square:
  assumes "2 \<le> length data"
  shows "(stddev (GetStatistics data))\<^sup>2 * real (length data - 1) =
    (\<Sum>d \<leftarrow> data. (d - average (GetStatistics data))\<^sup>2)"
proof -
  have "0 \<le> (\<Sum>d \<leftarrow> data. (d - CalculateAverage data) * (d - CalculateAverage data))"
    by (intro sum_list_nonneg) auto
  with assms show ?thesis
    by (simp add: GetStatistics_def CalculateStdDev_def foldl_add_map power2_eq_square)
qed

end
