(* ===== verification/Gpu_Time.thy ===== *)
theory Gpu_Time
  imports Gpu_Slot_Allocator Gpu_Frame_Boundary Gpu_Frame_Metrics "HOL-Library.AList"
    "HOL-Library.Monad_Syntax"
begin

text \<open>
  \<^verbatim>\<open>GPUTime\<close> (\<^verbatim>\<open>gpu_time/gpu_time.cpp\<close>): the object that a Vulkan layer tells about command buffers,
  submissions and frame boundaries and that measures them with timestamp queries.

  The Vulkan functions it is handed are a parameter, the record \<open>'v vk\<close> of functions on an opaque
  world \<open>'v\<close>. Every operation holds \<^verbatim>\<open>m_mutex\<close> for its body, so operations are atomic; only
  \<^verbatim>\<open>OnQueueSubmit\<close> releases it while it waits for the device, and is therefore split in two.
  \<^verbatim>\<open>std::unordered_map\<close> is an association list with distinct keys, whose order stands for the
  unspecified iteration order. The result \<open>None\<close> of an operation is undefined behaviour in the source:
  an access outside \<^verbatim>\<open>m_masks\<close> or outside a vector.
\<close>

type_synonym VkDevice = nat
type_synonym VkQueue = nat
type_synonym VkQueryPool = nat

datatype VkResult = VK_SUCCESS | VK_NOT_READY | VkOther int

datatype VkPipelineStage = VK_PIPELINE_STAGE_TOP_OF_PIPE_BIT | VK_PIPELINE_STAGE_BOTTOM_OF_PIPE_BIT

record VkCommandBufferUsage =
  one_time_submit_bit :: bool
  simultaneous_use_bit :: bool

record 'v vk =
  vkCreateQueryPool :: "VkDevice \<Rightarrow> nat \<Rightarrow> nat \<Rightarrow> 'v \<Rightarrow> VkResult \<times> VkQueryPool \<times> 'v"
  vkResetQueryPool :: "VkDevice \<Rightarrow> VkQueryPool \<Rightarrow> nat \<Rightarrow> nat \<Rightarrow> 'v \<Rightarrow> 'v"
  vkDestroyQueryPool :: "VkDevice \<Rightarrow> VkQueryPool \<Rightarrow> nat \<Rightarrow> 'v \<Rightarrow> 'v"
  vkQueueWaitIdle :: "VkQueue \<Rightarrow> 'v \<Rightarrow> 'v"
  vkDeviceWaitIdle :: "VkDevice \<Rightarrow> 'v \<Rightarrow> 'v"
  vkCmdWriteTimestamp :: "VkCommandBuffer \<Rightarrow> VkPipelineStage \<Rightarrow> VkQueryPool \<Rightarrow> nat \<Rightarrow> 'v \<Rightarrow> 'v"
  vkGetQueryPoolResults :: "VkDevice \<Rightarrow> VkQueryPool \<Rightarrow> u64 list \<Rightarrow> 'v \<Rightarrow> VkResult \<times> u64 list \<times> 'v"
  sleep_for_ms :: "nat \<Rightarrow> 'v \<Rightarrow> 'v"
  show_pointer :: "nat \<Rightarrow> string"

section \<open>State\<close>

record GpuTimeStatus =
  gs_message :: string
  gs_success :: bool

record CommandBufferInfo =
  renderpass_slots :: "nat list"
  pool :: VkCommandPool
  begin_timestamp_offset :: nat
  end_timestamp_offset :: nat
  usage_one_submit :: bool
  reusable :: bool

record GPUTime =
  m_boundary_detector :: FrameBoundaryDetector
  m_timestamps_with_availability :: "u64 list"
  m_metrics :: FrameMetrics
  m_queues :: "VkQueue list"
  m_cmds :: "(VkCommandBuffer \<times> CommandBufferInfo) list"
  m_frame_cmds :: "VkCommandBuffer list"
  m_timestamp_allocator :: TimeStampSlotAllocator
  m_device :: VkDevice
  m_allocator :: nat
  m_query_pool :: VkQueryPool
  m_timestamp_period :: real
  m_frame_index :: u64
  m_valid_frame :: bool
  m_enable :: bool

type_synonym ('r, 'v) gpu_op = "GPUTime \<Rightarrow> 'v \<Rightarrow> ('r \<times> GPUTime \<times> 'v) option"

definition gpu_ok :: GpuTimeStatus where
  "gpu_ok = \<lparr>gs_message = [], gs_success = True\<rparr>"

definition gpu_error :: "string \<Rightarrow> GpuTimeStatus" where
  "gpu_error msg = \<lparr>gs_message = msg, gs_success = False\<rparr>"

definition GPUTime_new :: GPUTime where
  "GPUTime_new =
    \<lparr>m_boundary_detector = (\<lambda>_. None),
     m_timestamps_with_availability = replicate (kTotalSlots * 2) 0,
     m_metrics = FrameMetrics_new, m_queues = [], m_cmds = [], m_frame_cmds = [],
     m_timestamp_allocator = TimeStampSlotAllocator_Reset,
     m_device = 0, m_allocator = 0, m_query_pool = 0, m_timestamp_period = 0,
     m_frame_index = 0, m_valid_frame = True, m_enable = False\<rparr>"

definition CommandBufferInfo_new :: CommandBufferInfo where
  "CommandBufferInfo_new =
    \<lparr>renderpass_slots = [], pool = 0, begin_timestamp_offset = kInvalidIndex,
     end_timestamp_offset = kInvalidIndex, usage_one_submit = False, reusable = False\<rparr>"

definition CommandBufferInfo_Reset :: "CommandBufferInfo \<Rightarrow> CommandBufferInfo" where
  "CommandBufferInfo_Reset info = info\<lparr>usage_one_submit := False, reusable := False\<rparr>"

definition SetEnable :: "bool \<Rightarrow> GPUTime \<Rightarrow> GPUTime" where
  "SetEnable enable g = g\<lparr>m_enable := enable\<rparr>"

definition find_cmd :: "GPUTime \<Rightarrow> VkCommandBuffer \<Rightarrow> CommandBufferInfo option" where
  "find_cmd g cmd = map_of (m_cmds g) cmd"

definition set_cmd :: "VkCommandBuffer \<Rightarrow> CommandBufferInfo \<Rightarrow> GPUTime \<Rightarrow> GPUTime" where
  "set_cmd cmd info g = g\<lparr>m_cmds := AList.update cmd info (m_cmds g)\<rparr>"

definition erase_cmd :: "VkCommandBuffer \<Rightarrow> GPUTime \<Rightarrow> GPUTime" where
  "erase_cmd cmd g = g\<lparr>m_cmds := AList.delete cmd (m_cmds g)\<rparr>"

definition free_in :: "nat list \<Rightarrow> GPUTime \<Rightarrow> GPUTime option" where
  "free_in slots g =
    (case FreeSlots slots (m_timestamp_allocator g) of
       None \<Rightarrow> None
     | Some a \<Rightarrow> Some (g\<lparr>m_timestamp_allocator := a\<rparr>))"

section \<open>Device and queues\<close>

definition show_result :: "VkResult \<Rightarrow> string" where
  "show_result r =
    (case r of VK_SUCCESS \<Rightarrow> ''0'' | VK_NOT_READY \<Rightarrow> ''1''
     | VkOther i \<Rightarrow> (if i < 0 then ''-'' @ show_nat (nat (- i)) else show_nat (nat i)))"

definition OnCreateDevice :: "'v vk \<Rightarrow> VkDevice \<Rightarrow> nat \<Rightarrow> real \<Rightarrow> (GpuTimeStatus, 'v) gpu_op" where
  "OnCreateDevice vk device allocator_ptr timestamp_period g v =
    (if device = 0
     then Some (gpu_error ''Need to pass in a valid device!'', g\<lparr>m_valid_frame := False\<rparr>, v)
     else
       (case vkCreateQueryPool vk device kTotalSlots allocator_ptr v of
          (result, query_pool, v) \<Rightarrow>
            let g = g\<lparr>m_allocator := allocator_ptr, m_device := device,
                      m_timestamp_period := timestamp_period, m_query_pool := query_pool\<rparr> in
            if result \<noteq> VK_SUCCESS
            then Some (gpu_error (''vkCreateQueryPool failed with VkResult: '' @ show_result result),
                       g\<lparr>m_valid_frame := False\<rparr>, v)
            else Some (gpu_ok, g, vkResetQueryPool vk device query_pool 0 kTotalSlots v)))"

definition OnDestroyDevice :: "'v vk \<Rightarrow> VkDevice \<Rightarrow> (GpuTimeStatus, 'v) gpu_op" where
  "OnDestroyDevice vk device g v =
    (if device \<noteq> m_device g
     then Some (gpu_ok\<lparr>gs_message := ''Not destroying the cached device!''\<rparr>, g, v)
     else if m_device g \<noteq> 0 \<and> m_query_pool g \<noteq> 0
     then
       if m_queues g = [] then Some (gpu_ok\<lparr>gs_message := ''vk queue is empty!''\<rparr>, g, v)
       else
         let v = fold (vkQueueWaitIdle vk) (m_queues g) v;
             v = vkDestroyQueryPool vk (m_device g) (m_query_pool g) (m_allocator g) v
         in Some (gpu_ok, g\<lparr>m_queues := [], m_query_pool := 0, m_allocator := 0, m_device := 0\<rparr>, v)
     else Some (gpu_ok, g\<lparr>m_device := 0\<rparr>, v))"

definition GPUTime_destroy :: "'v vk \<Rightarrow> GPUTime \<Rightarrow> 'v \<Rightarrow> 'v" where
  "GPUTime_destroy vk g v =
    (if m_query_pool g \<noteq> 0
     then vkDestroyQueryPool vk (m_device g) (m_query_pool g) (m_allocator g) v else v)"

definition OnGetDeviceQueue :: "VkQueue \<Rightarrow> (GpuTimeStatus, 'v) gpu_op" where
  "OnGetDeviceQueue queue g v = Some (gpu_ok, g\<lparr>m_queues := insort_insert queue (m_queues g)\<rparr>, v)"

section \<open>Command buffers\<close>

definition RemoveCmdFromFrameCache :: "VkCommandBuffer \<Rightarrow> GPUTime \<Rightarrow> GPUTime option" where
  "RemoveCmdFromFrameCache cmd g =
    (case find_cmd g cmd of
       None \<Rightarrow> Some g
     | Some info \<Rightarrow>
         do {
           g \<leftarrow> free_in (renderpass_slots info) g;
           let g = set_cmd cmd (CommandBufferInfo_Reset (info\<lparr>renderpass_slots := []\<rparr>)) g;
           Some (g\<lparr>m_frame_cmds := removeAll cmd (m_frame_cmds g)\<rparr>)
         })"

text \<open>Free the slots of a cached command buffer and forget it.\<close>

definition drop_cmd :: "VkCommandBuffer \<Rightarrow> CommandBufferInfo \<Rightarrow> GPUTime \<Rightarrow> GPUTime option" where
  "drop_cmd cmd info g =
    do {
      g \<leftarrow> free_in [begin_timestamp_offset info, end_timestamp_offset info] g;
      g \<leftarrow> RemoveCmdFromFrameCache cmd g;
      Some (erase_cmd cmd g)
    }"

text \<open>The loop over \<^verbatim>\<open>m_cmds\<close>: the keys it visits are those present at its start.\<close>

fun destroy_pool_loop :: "VkCommandPool \<Rightarrow> VkCommandBuffer list \<Rightarrow> GPUTime \<Rightarrow> GPUTime option" where
  "destroy_pool_loop command_pool [] g = Some g"
| "destroy_pool_loop command_pool (cmd # cmds) g =
    (case find_cmd g cmd of
       None \<Rightarrow> destroy_pool_loop command_pool cmds g
     | Some info \<Rightarrow>
         if pool info = command_pool
         then do { g \<leftarrow> drop_cmd cmd info g; destroy_pool_loop command_pool cmds g }
         else destroy_pool_loop command_pool cmds g)"

definition OnDestroyCommandPool :: "VkCommandPool \<Rightarrow> (GpuTimeStatus, 'v) gpu_op" where
  "OnDestroyCommandPool command_pool g v =
    (if command_pool = 0 then Some (gpu_ok, g, v)
     else
       do {
         g \<leftarrow> destroy_pool_loop command_pool (map fst (m_cmds g)) g;
         Some (gpu_ok, g, v)
       })"

fun allocate_loop :: "'v vk \<Rightarrow> VkCommandPool \<Rightarrow> VkCommandBuffer list \<Rightarrow> GPUTime \<Rightarrow> GpuTimeStatus \<times> GPUTime"
  where
  "allocate_loop vk command_pool [] g = (gpu_ok, g)"
| "allocate_loop vk command_pool (cmd # cmds) g =
    (if find_cmd g cmd \<noteq> None
     then (gpu_error (show_pointer vk cmd @ '' has been already added!''), g\<lparr>m_valid_frame := False\<rparr>)
     else
       (case AllocateSlot (m_timestamp_allocator g) of
          (begin_slot, a) \<Rightarrow>
            (case AllocateSlot a of
               (end_slot, a) \<Rightarrow>
                 let g = g\<lparr>m_timestamp_allocator := a\<rparr> in
                 if begin_slot = kInvalidIndex \<or> end_slot = kInvalidIndex
                 then (gpu_error ''Exceeded maximum number of query slots.'', g)
                 else
                   allocate_loop vk command_pool cmds
                     (g\<lparr>m_cmds :=
                        (cmd, \<lparr>renderpass_slots = [], pool = command_pool,
                               begin_timestamp_offset = begin_slot, end_timestamp_offset = end_slot,
                               usage_one_submit = False, reusable = False\<rparr>) # m_cmds g\<rparr>))))"

definition OnAllocateCommandBuffers ::
    "'v vk \<Rightarrow> VkCommandBufferAllocateInfo \<Rightarrow> VkCommandBuffer list \<Rightarrow> (GpuTimeStatus, 'v) gpu_op" where
  "OnAllocateCommandBuffers vk allocate_info command_buffers g v =
    (let g = g\<lparr>m_boundary_detector :=
                Detector_OnAllocateCommandBuffers (Some allocate_info) (Some command_buffers)
                  (m_boundary_detector g)\<rparr>
     in
     if level allocate_info = VK_COMMAND_BUFFER_LEVEL_SECONDARY then Some (gpu_ok, g, v)
     else (case allocate_loop vk (commandPool allocate_info) command_buffers g of
             (st, g) \<Rightarrow> Some (st, g, v)))"

fun free_loop :: "VkCommandBuffer list \<Rightarrow> GPUTime \<Rightarrow> GPUTime option" where
  "free_loop [] g = Some g"
| "free_loop (cmd # cmds) g =
    (case find_cmd g cmd of
       None \<Rightarrow> free_loop cmds g
     | Some info \<Rightarrow> do { g \<leftarrow> drop_cmd cmd info g; free_loop cmds g })"

definition OnFreeCommandBuffers :: "VkCommandBuffer list \<Rightarrow> (GpuTimeStatus, 'v) gpu_op" where
  "OnFreeCommandBuffers command_buffers g v =
    do {
      g \<leftarrow> free_loop command_buffers
        (g\<lparr>m_boundary_detector :=
             Detector_OnFreeCommandBuffers (Some command_buffers) (m_boundary_detector g)\<rparr>);
      Some (gpu_ok, g, v)
    }"

definition OnResetCommandBuffer :: "VkCommandBuffer \<Rightarrow> (GpuTimeStatus, 'v) gpu_op" where
  "OnResetCommandBuffer command_buffer g v =
    (let g = g\<lparr>m_boundary_detector :=
                Detector_OnResetCommandBuffer command_buffer (m_boundary_detector g)\<rparr>
     in
     if find_cmd g command_buffer = None then Some (gpu_ok, g, v)
     else do { g \<leftarrow> RemoveCmdFromFrameCache command_buffer g; Some (gpu_ok, g, v) })"

fun reset_pool_loop :: "VkCommandPool \<Rightarrow> VkCommandBuffer list \<Rightarrow> GPUTime \<Rightarrow> GPUTime option" where
  "reset_pool_loop command_pool [] g = Some g"
| "reset_pool_loop command_pool (cmd # cmds) g =
    (case find_cmd g cmd of
       None \<Rightarrow> reset_pool_loop command_pool cmds g
     | Some info \<Rightarrow>
         if pool info = command_pool
         then do { g \<leftarrow> RemoveCmdFromFrameCache cmd g; reset_pool_loop command_pool cmds g }
         else reset_pool_loop command_pool cmds g)"

definition OnResetCommandPool :: "VkCommandPool \<Rightarrow> (GpuTimeStatus, 'v) gpu_op" where
  "OnResetCommandPool command_pool g v =
    do {
      g \<leftarrow> reset_pool_loop command_pool (map fst (m_cmds g))
        (g\<lparr>m_boundary_detector :=
             Detector_OnResetCommandPool command_pool (m_boundary_detector g)\<rparr>);
      Some (gpu_ok, g, v)
    }"

definition OnBeginCommandBuffer ::
    "'v vk \<Rightarrow> VkCommandBuffer \<Rightarrow> VkCommandBufferUsage \<Rightarrow> (GpuTimeStatus, 'v) gpu_op" where
  "OnBeginCommandBuffer vk command_buffer flags g v =
    (if \<not> m_enable g then Some (gpu_ok, g, v)
     else
       (case find_cmd g command_buffer of
          None \<Rightarrow> Some (gpu_ok, g, v)
        | Some info \<Rightarrow>
            do {
              g \<leftarrow> free_in (renderpass_slots info) g;
              let info = info\<lparr>renderpass_slots := []\<rparr>;
              let info = (if usage_one_submit info then CommandBufferInfo_Reset info else info);
              let info = info\<lparr>usage_one_submit := one_time_submit_bit flags,
                              reusable := simultaneous_use_bit flags\<rparr>;
              Some (gpu_ok, set_cmd command_buffer info g,
                    vkCmdWriteTimestamp vk command_buffer VK_PIPELINE_STAGE_TOP_OF_PIPE_BIT
                      (m_query_pool g) (begin_timestamp_offset info) v)
            }))"

definition OnEndCommandBuffer :: "'v vk \<Rightarrow> VkCommandBuffer \<Rightarrow> (GpuTimeStatus, 'v) gpu_op" where
  "OnEndCommandBuffer vk command_buffer g v =
    (if \<not> m_enable g then Some (gpu_ok, g, v)
     else
       (case find_cmd g command_buffer of
          None \<Rightarrow> Some (gpu_ok, g, v)
        | Some info \<Rightarrow>
            Some (gpu_ok, g,
                  vkCmdWriteTimestamp vk command_buffer VK_PIPELINE_STAGE_BOTTOM_OF_PIPE_BIT
                    (m_query_pool g) (end_timestamp_offset info) v)))"

text \<open>\<^verbatim>\<open>BeginRenderPass\<close> and \<^verbatim>\<open>EndRenderPass\<close> differ in the pipeline stage only.\<close>

definition render_pass_timestamp ::
    "VkPipelineStage \<Rightarrow> 'v vk \<Rightarrow> VkCommandBuffer \<Rightarrow> (GpuTimeStatus, 'v) gpu_op" where
  "render_pass_timestamp stage vk command_buffer g v =
    (if \<not> m_enable g then Some (gpu_ok, g, v)
     else
       (case find_cmd g command_buffer of
          None \<Rightarrow> Some (gpu_ok, g, v)
        | Some info \<Rightarrow>
            (case AllocateSlot (m_timestamp_allocator g) of
               (slot, a) \<Rightarrow>
                 Some (gpu_ok,
                       set_cmd command_buffer
                         (info\<lparr>renderpass_slots := renderpass_slots info @ [slot]\<rparr>)
                         (g\<lparr>m_timestamp_allocator := a\<rparr>),
                       vkCmdWriteTimestamp vk command_buffer stage (m_query_pool g) slot v))))"

definition BeginRenderPass :: "'v vk \<Rightarrow> VkCommandBuffer \<Rightarrow> (GpuTimeStatus, 'v) gpu_op" where
  "BeginRenderPass = render_pass_timestamp VK_PIPELINE_STAGE_TOP_OF_PIPE_BIT"

definition EndRenderPass :: "'v vk \<Rightarrow> VkCommandBuffer \<Rightarrow> (GpuTimeStatus, 'v) gpu_op" where
  "EndRenderPass = render_pass_timestamp VK_PIPELINE_STAGE_BOTTOM_OF_PIPE_BIT"

definition OnCmdInsertDebugUtilsLabelEXT ::
    "VkCommandBuffer \<Rightarrow> string option \<Rightarrow> (GpuTimeStatus, 'v) gpu_op" where
  "OnCmdInsertDebugUtilsLabelEXT command_buffer label_info g v =
    (case MarkBoundary command_buffer label_info (m_boundary_detector g) of
       (st, d) \<Rightarrow>
         let g = g\<lparr>m_boundary_detector := d\<rparr> in
         if \<not> bs_success st then Some (gpu_error (bs_message st), g, v) else Some (gpu_ok, g, v))"

definition ClearFrameCache :: "(unit, 'v) gpu_op" where
  "ClearFrameCache g v = Some ((), g\<lparr>m_frame_cmds := []\<rparr>, v)"

section \<open>Frame boundaries\<close>

definition query_timestamps :: "'v vk \<Rightarrow> GPUTime \<Rightarrow> 'v \<Rightarrow> VkResult \<times> GPUTime \<times> 'v" where
  "query_timestamps vk g v =
    (case vkGetQueryPoolResults vk (m_device g) (m_query_pool g) (m_timestamps_with_availability g) v of
       (result, timestamps, v) \<Rightarrow> (result, g\<lparr>m_timestamps_with_availability := timestamps\<rparr>, v))"

definition slot_available :: "u64 list \<Rightarrow> nat \<Rightarrow> bool" where
  "slot_available timestamps offset \<longleftrightarrow> timestamps ! (offset * 2 + 1) \<noteq> 0"

text \<open>The \<^verbatim>\<open>for\<close> loop of the retry: is there a cached frame command whose timestamps are missing?\<close>

fun some_cmd_unavailable :: "GPUTime \<Rightarrow> VkCommandBuffer list \<Rightarrow> bool" where
  "some_cmd_unavailable g [] = False"
| "some_cmd_unavailable g (cmd # cmds) =
    (case find_cmd g cmd of
       None \<Rightarrow> some_cmd_unavailable g cmds
     | Some info \<Rightarrow>
         if begin_timestamp_offset info = kInvalidIndex \<or> end_timestamp_offset info = kInvalidIndex
         then some_cmd_unavailable g cmds
         else if \<not> slot_available (m_timestamps_with_availability g) (begin_timestamp_offset info) \<or>
                 \<not> slot_available (m_timestamps_with_availability g) (end_timestamp_offset info)
         then True
         else some_cmd_unavailable g cmds)"

definition kMaxQueryCount :: nat where
  "kMaxQueryCount = 5"

text \<open>
  The \<^verbatim>\<open>do ... while\<close> loop, with the number of queries it may still make; its result says whether
  all timestamps were available at the last look.
\<close>

fun wait_available :: "'v vk \<Rightarrow> nat \<Rightarrow> GPUTime \<Rightarrow> 'v \<Rightarrow> bool \<times> GPUTime \<times> 'v" where
  "wait_available vk 0 g v = (False, g, v)"
| "wait_available vk (Suc n) g v =
    (if \<not> some_cmd_unavailable g (m_frame_cmds g) then (True, g, v)
     else (case query_timestamps vk g (sleep_for_ms vk 14 v) of
             (_, g, v) \<Rightarrow> wait_available vk n g v))"

definition hex_digit :: "nat \<Rightarrow> char" where
  "hex_digit n = (if n < 10 then char_of (48 + n) else char_of (87 + n))"

definition ToHexString :: "nat \<Rightarrow> string" where
  "ToHexString cmd = map (\<lambda>i. hex_digit (cmd div 16 ^ i mod 16)) [3, 2, 1, 0]"

definition cmd_availability_line :: "GPUTime \<Rightarrow> nat \<Rightarrow> VkCommandBuffer \<Rightarrow> string" where
  "cmd_availability_line g cmd_index cmd =
    (let info = the (find_cmd g cmd);
         available =
           (begin_timestamp_offset info \<noteq> kInvalidIndex \<and> end_timestamp_offset info \<noteq> kInvalidIndex \<and>
            slot_available (m_timestamps_with_availability g) (begin_timestamp_offset info) \<and>
            slot_available (m_timestamps_with_availability g) (end_timestamp_offset info))
     in show_nat cmd_index @ (if available then ''_A : '' else ''_NA: '') @ ''0x'' @ ToHexString cmd @
        '' : S'' @ show_nat (begin_timestamp_offset info) @
        '' : E'' @ show_nat (end_timestamp_offset info) @ [CHR 0x0A])"

text \<open>
  The report for a frame whose timestamps never arrived. \<^verbatim>\<open>m_cmds[cmd]\<close> inserts a default entry for
  a command buffer that is not cached.
\<close>

fun availability_report :: "nat \<Rightarrow> VkCommandBuffer list \<Rightarrow> GPUTime \<Rightarrow> string \<times> GPUTime" where
  "availability_report cmd_index [] g = ([], g)"
| "availability_report cmd_index (cmd # cmds) g =
    (let g = (if find_cmd g cmd = None then g\<lparr>m_cmds := (cmd, CommandBufferInfo_new) # m_cmds g\<rparr> else g)
     in case availability_report (Suc cmd_index) cmds g of
          (rest, g') \<Rightarrow> (cmd_availability_line g cmd_index cmd @ rest, g'))"

definition GetTimeDuration :: "GPUTime \<Rightarrow> nat \<Rightarrow> nat \<Rightarrow> real option" where
  "GetTimeDuration g begin_offset end_offset =
    (let timestamps = m_timestamps_with_availability g in
     if begin_offset = kInvalidIndex \<or> end_offset = kInvalidIndex then None
     else if \<not> slot_available timestamps begin_offset \<or> \<not> slot_available timestamps end_offset then None
     else Some (real (unat (timestamps ! (end_offset * 2) - timestamps ! (begin_offset * 2))) *
                m_timestamp_period g * (1 / 1000000)))"

text \<open>
  The render pass loop of one command buffer over its slots, two at a time from position \<open>r\<close>. The
  outer option is undefined behaviour (a slot without its partner), the sum an unavailable result at
  \<open>r\<close> or the times.
\<close>

fun renderpass_times :: "GPUTime \<Rightarrow> nat \<Rightarrow> nat list \<Rightarrow> (nat + real list) option" where
  "renderpass_times g r [] = Some (Inr [])"
| "renderpass_times g r [s] = None"
| "renderpass_times g r (s # t # slots) =
    (case GetTimeDuration g s t of
       None \<Rightarrow> Some (Inl r)
     | Some d \<Rightarrow>
         (case renderpass_times g (r + 2) slots of
            None \<Rightarrow> None
          | Some (Inl r) \<Rightarrow> Some (Inl r)
          | Some (Inr ds) \<Rightarrow> Some (Inr (d # ds))))"

record frame_data =
  fd_time :: real
  fd_cmds :: "real list"
  fd_passes :: "real list"
  fd_counts :: "nat list"

definition unavailable_message :: "'v vk \<Rightarrow> string \<Rightarrow> VkCommandBuffer \<Rightarrow> CommandBufferInfo \<Rightarrow> string" where
  "unavailable_message vk what cmd info =
    ''Query result is not available for '' @ what @ show_pointer vk cmd @
    '' Begin Offset:'' @ show_nat (begin_timestamp_offset info) @
    '' End Offset:'' @ show_nat (end_timestamp_offset info)"

text \<open>The measuring loop over the frame's command buffers.\<close>

fun measure_cmds :: "'v vk \<Rightarrow> GPUTime \<Rightarrow> VkCommandBuffer list \<Rightarrow> frame_data \<Rightarrow> (string + frame_data) option"
  where
  "measure_cmds vk g [] fd = Some (Inr fd)"
| "measure_cmds vk g (cmd # cmds) fd =
    (case find_cmd g cmd of
       None \<Rightarrow> measure_cmds vk g cmds fd
     | Some info \<Rightarrow>
         (case GetTimeDuration g (begin_timestamp_offset info) (end_timestamp_offset info) of
            None \<Rightarrow> Some (Inl (unavailable_message vk ''cmd '' cmd info))
          | Some elapsed \<Rightarrow>
              (case renderpass_times g 0 (renderpass_slots info) of
                 None \<Rightarrow> None
               | Some (Inl r) \<Rightarrow>
                   Some (Inl (unavailable_message vk
                     (''renderpass '' @ show_nat r @ '' in the cmd '') cmd info))
               | Some (Inr ds) \<Rightarrow>
                   measure_cmds vk g cmds
                     \<lparr>fd_time = fd_time fd + elapsed, fd_cmds = fd_cmds fd @ [elapsed],
                      fd_passes = fd_passes fd @ ds,
                      fd_counts = fd_counts fd @ [length (renderpass_slots info) div 2]\<rparr>)))"

definition frame_data_new :: frame_data where
  "frame_data_new = \<lparr>fd_time = 0, fd_cmds = [], fd_passes = [], fd_counts = []\<rparr>"

definition measure_frame :: "'v vk \<Rightarrow> GPUTime \<Rightarrow> 'v \<Rightarrow> (GpuTimeStatus \<times> GPUTime \<times> 'v) option" where
  "measure_frame vk g v =
    (case measure_cmds vk g (m_frame_cmds g) frame_data_new of
       None \<Rightarrow> None
     | Some (Inl msg) \<Rightarrow> Some (gpu_error msg, g\<lparr>m_valid_frame := False\<rparr>, v)
     | Some (Inr fd) \<Rightarrow>
         Some (gpu_ok,
               if m_valid_frame g
               then g\<lparr>m_metrics := AddFrameData (fd_time fd) (fd_cmds fd) (fd_passes fd) (fd_counts fd)
                        (m_metrics g)\<rparr>
               else g, v))"

definition UpdateFrameMetrics :: "'v vk \<Rightarrow> (GpuTimeStatus, 'v) gpu_op" where
  "UpdateFrameMetrics vk g v =
    (case query_timestamps vk g v of
       (VK_SUCCESS, g, v) \<Rightarrow> measure_frame vk g v
     | (VK_NOT_READY, g, v) \<Rightarrow>
         (case wait_available vk kMaxQueryCount g v of
            (True, g, v) \<Rightarrow> measure_frame vk g v
          | (False, g, v) \<Rightarrow>
              (case availability_report 0 (m_frame_cmds g) (g\<lparr>m_valid_frame := False\<rparr>) of
                 (report, g) \<Rightarrow>
                   Some (gpu_error (show_nat (length (m_frame_cmds g)) @ '' cmds:'' @ [CHR 0x0A] @ report),
                         g, v)))
     | (VkOther code, g, v) \<Rightarrow>
         Some (gpu_error (''vkGetQueryPoolResults failed with VkResult: '' @ show_result (VkOther code)),
               g\<lparr>m_valid_frame := False\<rparr>, v))"

definition OnFrameBoundary :: "'v vk \<Rightarrow> (GpuTimeStatus, 'v) gpu_op" where
  "OnFrameBoundary vk g v =
    do {
      (update_status, g, v) \<leftarrow> (if m_valid_frame g then UpdateFrameMetrics vk g v else Some (gpu_ok, g, v));
      let g = g\<lparr>m_frame_index := m_frame_index g + 1, m_frame_cmds := []\<rparr>;
      let v = vkResetQueryPool vk (m_device g) (m_query_pool g) 0 kTotalSlots v;
      Some (update_status, g\<lparr>m_valid_frame := True\<rparr>, v)
    }"

section \<open>Submission\<close>

record SubmitStatus =
  gpu_time_status :: GpuTimeStatus
  contains_frame_boundary :: bool

text \<open>The inner loops over the command buffers of a submission.\<close>

fun submit_cmds :: "'v vk \<Rightarrow> VkCommandBuffer list \<Rightarrow> GPUTime \<Rightarrow> SubmitStatus option \<times> GPUTime" where
  "submit_cmds vk [] g = (None, g)"
| "submit_cmds vk (cmd # cmds) g =
    (case find_cmd g cmd of
       None \<Rightarrow>
         (Some \<lparr>gpu_time_status = gpu_error (show_pointer vk cmd @ '' is not in the cmd cache!''),
                contains_frame_boundary = False\<rparr>, g\<lparr>m_valid_frame := False\<rparr>)
     | Some info \<Rightarrow>
         if reusable info
         then (Some \<lparr>gpu_time_status =
                       gpu_error (show_pointer vk cmd @ '' Reusable cmd is not supported!''),
                     contains_frame_boundary = IsFrameBoundary (m_boundary_detector g) cmd\<rparr>,
               g\<lparr>m_valid_frame := False\<rparr>)
         else submit_cmds vk cmds (g\<lparr>m_frame_cmds := m_frame_cmds g @ [cmd]\<rparr>))"

fun submit_loop :: "'v vk \<Rightarrow> VkSubmitInfo list \<Rightarrow> GPUTime \<Rightarrow> SubmitStatus option \<times> GPUTime" where
  "submit_loop vk [] g = (None, g)"
| "submit_loop vk (submit # submits) g =
    (case submit_cmds vk (case pCommandBuffers submit of None \<Rightarrow> [] | Some cmds \<Rightarrow> cmds) g of
       (None, g) \<Rightarrow> submit_loop vk submits g
     | (Some st, g) \<Rightarrow> (Some st, g))"

text \<open>\<^verbatim>\<open>OnQueueSubmit\<close> up to the point where the mutex is released: an early result, or the flag.\<close>

definition OnQueueSubmit_record ::
    "'v vk \<Rightarrow> VkSubmitInfo list option \<Rightarrow> GPUTime \<Rightarrow> (SubmitStatus + bool) \<times> GPUTime" where
  "OnQueueSubmit_record vk submits_ptr g =
    (if \<not> m_enable g
     then (Inl \<lparr>gpu_time_status = gpu_ok, contains_frame_boundary = False\<rparr>, g)
     else
       let is_frame_boundary = ContainsFrameBoundary (m_boundary_detector g) submits_ptr in
       case submits_ptr of
         Some (submit # submits) \<Rightarrow>
           if pCommandBuffers submit = None then (Inr is_frame_boundary, g)
           else
             (case submit_loop vk (submit # submits) g of
                (Some st, g) \<Rightarrow> (Inl st, g)
              | (None, g) \<Rightarrow> (Inr is_frame_boundary, g))
       | _ \<Rightarrow> (Inr is_frame_boundary, g))"

text \<open>The rest, once the device is idle and the mutex held again.\<close>

definition OnQueueSubmit_finish :: "'v vk \<Rightarrow> bool \<Rightarrow> (SubmitStatus, 'v) gpu_op" where
  "OnQueueSubmit_finish vk is_frame_boundary g v =
    (if is_frame_boundary
     then
       do {
         (update_status, g, v) \<leftarrow> OnFrameBoundary vk g v;
         if \<not> gs_success update_status
         then Some (\<lparr>gpu_time_status = update_status, contains_frame_boundary = True\<rparr>, g, v)
         else Some (\<lparr>gpu_time_status = gpu_ok, contains_frame_boundary = is_frame_boundary\<rparr>, g, v)
       }
     else Some (\<lparr>gpu_time_status = gpu_ok, contains_frame_boundary = is_frame_boundary\<rparr>, g, v))"

definition OnQueueSubmit :: "'v vk \<Rightarrow> VkSubmitInfo list option \<Rightarrow> (SubmitStatus, 'v) gpu_op" where
  "OnQueueSubmit vk submits_ptr g v =
    (case OnQueueSubmit_record vk submits_ptr g of
       (Inl st, g) \<Rightarrow> Some (st, g, v)
     | (Inr is_frame_boundary, g) \<Rightarrow>
         OnQueueSubmit_finish vk is_frame_boundary g
           (if is_frame_boundary then vkDeviceWaitIdle vk (m_device g) v else v))"

definition OnQueuePresent :: "'v vk \<Rightarrow> (GpuTimeStatus, 'v) gpu_op" where
  "OnQueuePresent vk g v =
    (if \<not> m_enable g then Some (gpu_ok, g, v)
     else OnFrameBoundary vk g (vkDeviceWaitIdle vk (m_device g) v))"

section \<open>Ownership of slots\<close>

text \<open>
  The slots a cached command buffer holds. When no slot was free, a render pass timestamp records the
  invalid index, which is not a slot.
\<close>

definition cmd_slots :: "CommandBufferInfo \<Rightarrow> nat list" where
  "cmd_slots info = begin_timestamp_offset info # end_timestamp_offset info # renderpass_slots info"

definition valid_slots :: "CommandBufferInfo \<Rightarrow> nat set" where
  "valid_slots info = set (cmd_slots info) - {kInvalidIndex}"

definition info_ok :: "TimeStampSlotAllocator \<Rightarrow> CommandBufferInfo \<Rightarrow> bool" where
  "info_ok a info \<longleftrightarrow>
     valid_slots info \<subseteq> used_slots a \<and>
     distinct (filter (\<lambda>s. s \<noteq> kInvalidIndex) (cmd_slots info)) \<and>
     begin_timestamp_offset info \<noteq> kInvalidIndex \<and> end_timestamp_offset info \<noteq> kInvalidIndex"

definition slots_inv :: "TimeStampSlotAllocator \<Rightarrow> (VkCommandBuffer \<rightharpoonup> CommandBufferInfo) \<Rightarrow> bool" where
  "slots_inv a m \<longleftrightarrow>
     alloc_inv a \<and>
     (\<forall>c info. m c = Some info \<longrightarrow> info_ok a info) \<and>
     (\<forall>c c' info info'. c \<noteq> c' \<longrightarrow> m c = Some info \<longrightarrow> m c' = Some info' \<longrightarrow>
        valid_slots info \<inter> valid_slots info' = {})"

lemma slots_invD:
  assumes "slots_inv a m"
  shows "alloc_inv a" and "m c = Some info \<Longrightarrow> info_ok a info"
    and "c \<noteq> c' \<Longrightarrow> m c = Some info \<Longrightarrow> m c' = Some info' \<Longrightarrow> valid_slots info \<inter> valid_slots info' = {}"
  using assms unfolding slots_inv_def by blast+

text \<open>The general update: entry \<open>c\<close> becomes \<open>x\<close>, and every slot of another entry stays used.\<close>

lemma slots_inv_update:
  assumes "slots_inv a m" and "alloc_inv a'"
    and "\<And>c' info'. c' \<noteq> c \<Longrightarrow> m c' = Some info' \<Longrightarrow> valid_slots info' \<subseteq> used_slots a'"
    and "\<And>info. x = Some info \<Longrightarrow> info_ok a' info"
    and "\<And>info c' info'. x = Some info \<Longrightarrow> c' \<noteq> c \<Longrightarrow> m c' = Some info' \<Longrightarrow>
      valid_slots info \<inter> valid_slots info' = {}"
  shows "slots_inv a' (m(c := x))"
proof -
  have "info_ok a' info'" if "c' \<noteq> c" "m c' = Some info'" for c' info'
    using slots_invD(2) [OF assms(1) that(2)] assms(3) [OF that] by (simp add: info_ok_def)
  moreover have "valid_slots i \<inter> valid_slots i' = {}"
    if "d \<noteq> d'" "(m(c := x)) d = Some i" "(m(c := x)) d' = Some i'" for d d' i i'
    using that assms(5) [of i d' i'] assms(5) [of i' d i] slots_invD(3) [OF assms(1) that(1), of i i']
    by (auto split: if_splits)
  ultimately show ?thesis
    using assms(2,4) unfolding slots_inv_def by (auto split: if_splits)
qed

lemma FreeSlots_Some:
  assumes "alloc_inv a" and "FreeSlots slots a = Some a'"
  shows "set slots \<subseteq> {..<kTotalSlots}" "alloc_inv a'" "used_slots a' = used_slots a - set slots"
proof -
  show sub: "set slots \<subseteq> {..<kTotalSlots}"
    using FreeSlots_outside [OF assms(1)] assms(2) by (metis lessThan_iff not_less option.distinct(1) subsetI)
  from FreeSlots_some [OF assms(1) this] assms(2)
  show "alloc_inv a'" "used_slots a' = used_slots a - set slots" by auto
qed

lemma valid_slots_release:
  "valid_slots info = insert (begin_timestamp_offset info)
     (insert (end_timestamp_offset info) (set (renderpass_slots info))) - {kInvalidIndex}"
  by (auto simp: valid_slots_def cmd_slots_def)

lemma slots_not_invalid: "set slots \<subseteq> {..<kTotalSlots} \<Longrightarrow> kInvalidIndex \<notin> set slots"
  using kInvalidIndex_big by blast

text \<open>Giving back the render pass slots of one command buffer.\<close>

lemma slots_inv_release:
  assumes "slots_inv a m" and "m c = Some info" and "FreeSlots (renderpass_slots info) a = Some a'"
    and "begin_timestamp_offset info' = begin_timestamp_offset info"
    and "end_timestamp_offset info' = end_timestamp_offset info" and "renderpass_slots info' = []"
  shows "slots_inv a' (m(c \<mapsto> info'))"
proof (rule slots_inv_update [OF assms(1)])
  note I = slots_invD [OF assms(1)]
  note F = FreeSlots_Some [OF I(1) assms(3)]
  have info: "info_ok a info" using I(2) assms(2) by blast
  have rp: "set (renderpass_slots info) \<subseteq> valid_slots info"
    using slots_not_invalid [OF F(1)] by (auto simp: valid_slots_release)
  show "alloc_inv a'" by (rule F(2))
  show "valid_slots j \<subseteq> used_slots a'" if "d \<noteq> c" "m d = Some j" for d j
    using I(2) [OF that(2)] I(3) [OF that(1) that(2) assms(2)] rp unfolding F(3) info_ok_def by blast
  have sub: "valid_slots info' \<subseteq> valid_slots info"
    using assms(4-6) by (auto simp: valid_slots_release)
  have "begin_timestamp_offset info \<notin> set (renderpass_slots info)"
    "end_timestamp_offset info \<notin> set (renderpass_slots info)"
    "begin_timestamp_offset info \<noteq> end_timestamp_offset info"
    using info by (auto simp: info_ok_def cmd_slots_def split: if_splits)
  then show "info_ok a' j" if "Some info' = Some j" for j
    using that info assms(4-6) unfolding info_ok_def F(3)
    by (auto simp: valid_slots_release cmd_slots_def)
  show "valid_slots j \<inter> valid_slots k = {}" if "Some info' = Some j" "d \<noteq> c" "m d = Some k" for j d k
    using that I(3) [OF that(2) that(3) assms(2)] sub by blast
qed

text \<open>Changing an entry without changing its slots.\<close>

lemma slots_inv_same:
  assumes "slots_inv a m" and "m c = Some info" and "valid_slots info' = valid_slots info"
    and "info_ok a info'"
  shows "slots_inv a (m(c \<mapsto> info'))"
proof (rule slots_inv_update [OF assms(1)])
  note I = slots_invD [OF assms(1)]
  show "alloc_inv a" by (rule I(1))
  show "valid_slots j \<subseteq> used_slots a" if "d \<noteq> c" "m d = Some j" for d j
    using I(2) [OF that(2)] unfolding info_ok_def by blast
  show "info_ok a j" if "Some info' = Some j" for j
    using that assms(4) by simp
  show "valid_slots j \<inter> valid_slots k = {}" if "Some info' = Some j" "d \<noteq> c" "m d = Some k" for j d k
    using that(1) I(3) [OF that(2) that(3) assms(2)] assms(3) by blast
qed

text \<open>Adding a fresh slot, or the invalid index, to the render pass slots.\<close>

lemma slots_inv_push:
  assumes "slots_inv a m" and "m c = Some info" and "AllocateSlot a = (slot, a')"
    and "new = info\<lparr>renderpass_slots := renderpass_slots info @ [slot]\<rparr>"
  shows "slots_inv a' (m(c \<mapsto> new))"
proof -
  note I = slots_invD [OF assms(1)]
  have info: "info_ok a info" using I(2) assms(2) by blast
  show ?thesis
    using I(1) assms(3)
  proof (cases rule: slots.alloc_cases)
    case full
    have "valid_slots new = valid_slots info" "info_ok a new"
      using info by (auto simp: full(1) assms(4) valid_slots_def info_ok_def cmd_slots_def)
    with slots_inv_same [OF assms(1,2)] show ?thesis
      unfolding full(2) by blast
  next
    case slot
    have new: "valid_slots new = insert slot (valid_slots info)"
      using slot(2) by (auto simp: assms(4) valid_slots_release)
    have others: "slot \<notin> valid_slots j" if "m d = Some j" for d j
      using I(2) [OF that] slot(3) unfolding info_ok_def by blast
    show ?thesis
    proof (rule slots_inv_update [OF assms(1)])
      show "valid_slots j \<subseteq> used_slots a'" if "d \<noteq> c" "m d = Some j" for d j
        using I(2) [OF that(2)] unfolding slot(4) info_ok_def by blast
      have slots_new: "cmd_slots new = cmd_slots info @ [slot]"
        by (simp add: assms(4) cmd_slots_def)
      have "distinct (filter (\<lambda>s. s \<noteq> kInvalidIndex) (cmd_slots new))"
        using info others [OF assms(2)] slot(2) slots_new
        by (simp add: info_ok_def valid_slots_def)
      moreover have "valid_slots new \<subseteq> used_slots a'"
        using info unfolding new slot(4) info_ok_def by blast
      ultimately have "info_ok a' new"
        using info by (simp add: info_ok_def assms(4))
      then show "info_ok a' j" if "Some new = Some j" for j
        using that by simp
      show "valid_slots j \<inter> valid_slots k = {}" if "Some new = Some j" "d \<noteq> c" "m d = Some k" for j d k
      proof -
        have "valid_slots info \<inter> valid_slots k = {}"
          using I(3) [OF that(2) that(3) assms(2)] by (simp only: Int_commute)
        then show ?thesis
          using that(1) others [OF that(3)] new by simp
      qed
    qed (rule slot(5))
  qed
qed

text \<open>A command buffer that gets two fresh slots.\<close>

lemma slots_inv_add:
  assumes "slots_inv a m" and "m c = None"
    and "AllocateSlot a = (b, a1)" and "AllocateSlot a1 = (e, a2)"
    and "b \<noteq> kInvalidIndex" and "e \<noteq> kInvalidIndex"
    and "info = \<lparr>renderpass_slots = [], pool = p, begin_timestamp_offset = b,
      end_timestamp_offset = e, usage_one_submit = False, reusable = False\<rparr>"
  shows "slots_inv a2 (m(c \<mapsto> info))"
proof -
  note I = slots_invD [OF assms(1)]
  have b: "b \<notin> used_slots a" "used_slots a1 = insert b (used_slots a)" "alloc_inv a1"
    using I(1) assms(3,5) by (cases rule: slots.alloc_cases; simp)+
  have e: "e \<notin> used_slots a1" "used_slots a2 = insert e (used_slots a1)" "alloc_inv a2"
    using b(3) assms(4,6) by (cases rule: slots.alloc_cases; simp)+
  have info: "valid_slots info = {b, e}"
    using assms(5-7) by (auto simp: valid_slots_release)
  show ?thesis
  proof (rule slots_inv_update [OF assms(1)])
    show "valid_slots j \<subseteq> used_slots a2" if "d \<noteq> c" "m d = Some j" for d j
      using I(2) [OF that(2)] b(2) e(2) by (auto simp: info_ok_def)
    show "info_ok a2 j" if "Some info = Some j" for j
      using that info b(2) e(1,2) assms(5-7) by (auto simp: info_ok_def cmd_slots_def)
    show "valid_slots j \<inter> valid_slots k = {}" if "Some info = Some j" "d \<noteq> c" "m d = Some k" for j d k
      using that info I(2) [OF that(3)] b e(1) by (auto simp: info_ok_def)
  qed (rule e(3))
qed

text \<open>Slots that were allocated but not handed to a command buffer stay used.\<close>

lemma slots_inv_alloc:
  assumes "slots_inv a m" and "AllocateSlot a = (s, a')"
  shows "slots_inv a' m"
proof -
  note I = slots_invD [OF assms(1)]
  have "used_slots a \<subseteq> used_slots a'" "alloc_inv a'"
    using I(1) assms(2) by (cases rule: slots.alloc_cases; auto)+
  then show ?thesis
    using I unfolding slots_inv_def info_ok_def by (metis subset_trans)
qed

section \<open>The invariant\<close>

definition gpu_inv :: "GPUTime \<Rightarrow> bool" where
  "gpu_inv g \<longleftrightarrow>
     distinct (map fst (m_cmds g)) \<and>
     slots_inv (m_timestamp_allocator g) (find_cmd g) \<and>
     (\<forall>c \<in> set (m_frame_cmds g). find_cmd g c \<noteq> None) \<and>
     length (m_timestamps_with_availability g) = kTotalSlots * 2 \<and>
     counts_ok (m_metrics g) \<and> (\<exists>fs. metrics_window (m_metrics g) fs) \<and> frame_history (m_metrics g)"

lemma find_cmd_set_cmd [simp]: "find_cmd (set_cmd c info g) = (find_cmd g)(c \<mapsto> info)"
  by (auto simp: find_cmd_def set_cmd_def update_conv')

lemma find_cmd_erase_cmd [simp]: "find_cmd (erase_cmd c g) = (find_cmd g)(c := None)"
  by (auto simp: find_cmd_def erase_cmd_def delete_conv')

lemma set_cmd_fields [simp]:
  "m_timestamp_allocator (set_cmd c info g) = m_timestamp_allocator g"
  "m_frame_cmds (set_cmd c info g) = m_frame_cmds g"
  by (simp_all add: set_cmd_def)

lemma find_cmd_updates [simp]:
  "find_cmd (g\<lparr>m_timestamp_allocator := a\<rparr>) = find_cmd g"
  "find_cmd (g\<lparr>m_boundary_detector := d\<rparr>) = find_cmd g"
  "find_cmd (g\<lparr>m_frame_cmds := cs\<rparr>) = find_cmd g"
  "find_cmd (g\<lparr>m_valid_frame := b\<rparr>) = find_cmd g"
  "find_cmd (g\<lparr>m_frame_index := i\<rparr>) = find_cmd g"
  "find_cmd (g\<lparr>m_timestamps_with_availability := ts\<rparr>) = find_cmd g"
  "find_cmd (g\<lparr>m_metrics := fm\<rparr>) = find_cmd g"
  "find_cmd (g\<lparr>m_cmds := (c, info) # m_cmds g\<rparr>) = (find_cmd g)(c \<mapsto> info)"
  by (auto simp: fun_eq_iff find_cmd_def)

lemma gpu_inv_new: "gpu_inv GPUTime_new"
  using metrics_window_new history_new
  by (auto simp: gpu_inv_def GPUTime_new_def slots_inv_def find_cmd_def counts_ok_new)

text \<open>
  What an operation on the cache leaves alone: the measurements and everything about the device.
\<close>

definition same_frame :: "GPUTime \<Rightarrow> GPUTime \<Rightarrow> bool" where
  "same_frame g g' \<longleftrightarrow>
     m_timestamps_with_availability g' = m_timestamps_with_availability g \<and>
     m_metrics g' = m_metrics g \<and> m_enable g' = m_enable g \<and> m_query_pool g' = m_query_pool g \<and>
     m_device g' = m_device g \<and> m_frame_index g' = m_frame_index g"

lemma same_frame_refl [simp]: "same_frame g g"
  by (simp add: same_frame_def)

lemma same_frame_trans: "same_frame g g' \<Longrightarrow> same_frame g' g'' \<Longrightarrow> same_frame g g''"
  by (simp add: same_frame_def)

lemma RemoveCmd_effect:
  assumes "RemoveCmdFromFrameCache c g = Some g'" and "find_cmd g c = Some info"
  shows "FreeSlots (renderpass_slots info) (m_timestamp_allocator g) = Some (m_timestamp_allocator g')"
    and "find_cmd g' = (find_cmd g)(c \<mapsto> CommandBufferInfo_Reset (info\<lparr>renderpass_slots := []\<rparr>))"
    and "m_frame_cmds g' = removeAll c (m_frame_cmds g)"
    and "same_frame g g'" and "distinct (map fst (m_cmds g)) \<Longrightarrow> distinct (map fst (m_cmds g'))"
  using assms
  by (auto simp: RemoveCmdFromFrameCache_def free_in_def set_cmd_def find_cmd_def update_conv'
      same_frame_def distinct_update split: option.splits bind_splits)

lemma gpu_inv_remove:
  assumes "gpu_inv g" and "RemoveCmdFromFrameCache c g = Some g'"
  shows "gpu_inv g'" "same_frame g g'"
proof -
  have "gpu_inv g' \<and> same_frame g g'"
  proof (cases "find_cmd g c")
    case None
    with assms show ?thesis by (simp add: RemoveCmdFromFrameCache_def)
  next
    case (Some info)
    note E = RemoveCmd_effect [OF assms(2) Some]
    have "slots_inv (m_timestamp_allocator g') (find_cmd g')"
      unfolding E(2) using assms(1) Some E(1)
      by (intro slots_inv_release) (auto simp: gpu_inv_def CommandBufferInfo_Reset_def)
    with assms(1) E show ?thesis
      by (auto simp: gpu_inv_def same_frame_def)
  qed
  then show "gpu_inv g'" "same_frame g g'" by auto
qed

lemma drop_cmd_effect:
  assumes "gpu_inv g" and "find_cmd g c = Some info" and "drop_cmd c info g = Some g'"
  shows "gpu_inv g'" "same_frame g g'" "find_cmd g' = (find_cmd g)(c := None)"
    and "used_slots (m_timestamp_allocator g') = used_slots (m_timestamp_allocator g) - valid_slots info"
proof -
  obtain a1 g2 where f1: "FreeSlots [begin_timestamp_offset info, end_timestamp_offset info]
      (m_timestamp_allocator g) = Some a1"
    and r: "RemoveCmdFromFrameCache c (g\<lparr>m_timestamp_allocator := a1\<rparr>) = Some g2"
    and g': "g' = erase_cmd c g2"
    using assms(3) by (auto simp: drop_cmd_def free_in_def split: option.splits bind_splits)
  have "find_cmd (g\<lparr>m_timestamp_allocator := a1\<rparr>) c = Some info"
    using assms(2) by (simp add: find_cmd_def)
  note E = RemoveCmd_effect [OF r this]
  note I = slots_invD [of "m_timestamp_allocator g" "find_cmd g"]
  have inv: "slots_inv (m_timestamp_allocator g) (find_cmd g)"
    using assms(1) by (simp add: gpu_inv_def)
  note F1 = FreeSlots_Some [OF I(1) [OF inv] f1]
  have F2: "set (renderpass_slots info) \<subseteq> {..<kTotalSlots}" "alloc_inv (m_timestamp_allocator g2)"
    "used_slots (m_timestamp_allocator g2) = used_slots a1 - set (renderpass_slots info)"
    using FreeSlots_Some [OF F1(2), of "renderpass_slots info" "m_timestamp_allocator g2"] E(1) by auto
  have vs: "valid_slots info = {begin_timestamp_offset info, end_timestamp_offset info} \<union>
      set (renderpass_slots info)"
    using slots_not_invalid [OF F1(1)] slots_not_invalid [OF F2(1)]
    by (auto simp: valid_slots_release)
  show used: "used_slots (m_timestamp_allocator g') =
      used_slots (m_timestamp_allocator g) - valid_slots info"
    using F1(3) F2(3) vs by (auto simp: g' erase_cmd_def)
  show find: "find_cmd g' = (find_cmd g)(c := None)"
    using E(2) by (simp add: g')
  show "same_frame g g'"
    using E(4) by (simp add: g' erase_cmd_def same_frame_def)
  have "slots_inv (m_timestamp_allocator g') (find_cmd g')"
    unfolding find
  proof (rule slots_inv_update [OF inv])
    show "alloc_inv (m_timestamp_allocator g')"
      using F2(2) by (simp add: g' erase_cmd_def)
    show "valid_slots j \<subseteq> used_slots (m_timestamp_allocator g')"
      if "d \<noteq> c" "find_cmd g d = Some j" for d j
      using I(2) [OF inv that(2)] I(3) [OF inv that(1) that(2) assms(2)]
      unfolding used info_ok_def by blast
  qed simp_all
  with assms(1) E(3-5) find show "gpu_inv g'"
    by (auto simp: gpu_inv_def g' erase_cmd_def same_frame_def distinct_delete)
qed

section \<open>Every operation keeps the invariant\<close>

lemma gpu_inv_fields:
  assumes "gpu_inv g"
  shows "gpu_inv (g\<lparr>m_boundary_detector := d\<rparr>)" "gpu_inv (g\<lparr>m_valid_frame := b\<rparr>)"
    "gpu_inv (g\<lparr>m_frame_cmds := []\<rparr>)" "gpu_inv (g\<lparr>m_frame_index := i\<rparr>)"
  using assms by (simp_all add: gpu_inv_def)

lemma destroy_pool_loop_inv:
  "gpu_inv g \<Longrightarrow> destroy_pool_loop p cmds g = Some g' \<Longrightarrow> gpu_inv g'"
proof (induction cmds arbitrary: g)
  case (Cons cmd cmds)
  then show ?case
    by (auto split: option.splits if_splits bind_splits dest: drop_cmd_effect(1))
qed simp

lemma free_loop_inv: "gpu_inv g \<Longrightarrow> free_loop cmds g = Some g' \<Longrightarrow> gpu_inv g'"
proof (induction cmds arbitrary: g)
  case (Cons cmd cmds)
  then show ?case
    by (auto split: option.splits bind_splits dest: drop_cmd_effect(1))
qed simp

lemma reset_pool_loop_inv:
  "gpu_inv g \<Longrightarrow> reset_pool_loop p cmds g = Some g' \<Longrightarrow> gpu_inv g'"
proof (induction cmds arbitrary: g)
  case (Cons cmd cmds)
  then show ?case
    by (auto split: option.splits if_splits bind_splits dest: gpu_inv_remove(1))
qed simp

lemma allocate_loop_inv:
  "gpu_inv g \<Longrightarrow> allocate_loop vk p cmds g = (st, g') \<Longrightarrow> gpu_inv g'"
proof (induction cmds arbitrary: g)
  case (Cons cmd cmds)
  show ?case
  proof (cases "find_cmd g cmd")
    case (Some info)
    with Cons.prems show ?thesis by (auto intro: gpu_inv_fields)
  next
    case None
    obtain b a1 where b: "AllocateSlot (m_timestamp_allocator g) = (b, a1)"
      by (cases "AllocateSlot (m_timestamp_allocator g)")
    obtain e a2 where e: "AllocateSlot a1 = (e, a2)" by (cases "AllocateSlot a1")
    have inv: "slots_inv (m_timestamp_allocator g) (find_cmd g)"
      using Cons.prems(1) by (simp add: gpu_inv_def)
    show ?thesis
    proof (cases "b = kInvalidIndex \<or> e = kInvalidIndex")
      case True
      have "slots_inv a2 (find_cmd g)"
        using slots_inv_alloc [OF slots_inv_alloc [OF inv b] e] .
      with Cons.prems None b e True show ?thesis
        by (auto simp: gpu_inv_def Let_def)
    next
      case False
      define info where "info = \<lparr>renderpass_slots = [], pool = p, begin_timestamp_offset = b,
        end_timestamp_offset = e, usage_one_submit = False, reusable = False\<rparr>"
      define g1 where "g1 = g\<lparr>m_timestamp_allocator := a2, m_cmds := (cmd, info) # m_cmds g\<rparr>"
      have find: "find_cmd g1 = (find_cmd g)(cmd \<mapsto> info)"
        by (auto simp: g1_def find_cmd_def fun_eq_iff)
      have "slots_inv a2 (find_cmd g1)"
        unfolding find using slots_inv_add [OF inv None b e] False info_def by blast
      moreover have "cmd \<notin> fst ` set (m_cmds g)"
        using None by (simp add: find_cmd_def map_of_eq_None_iff)
      ultimately have "gpu_inv g1"
        using Cons.prems(1) find by (auto simp: gpu_inv_def g1_def)
      moreover have "allocate_loop vk p cmds g1 = (st, g')"
        using Cons.prems(2) None b e False by (simp add: g1_def info_def)
      ultimately show ?thesis using Cons.IH by blast
    qed
  qed
qed simp

lemma OnBeginCommandBuffer_inv:
  assumes "gpu_inv g" and "OnBeginCommandBuffer vk c flags g v = Some (st, g', v')"
  shows "gpu_inv g'"
proof (cases "m_enable g \<and> find_cmd g c \<noteq> None")
  case True
  then obtain info where info: "find_cmd g c = Some info" by auto
  obtain a1 info' where f: "FreeSlots (renderpass_slots info) (m_timestamp_allocator g) = Some a1"
    and g': "g' = set_cmd c info' (g\<lparr>m_timestamp_allocator := a1\<rparr>)"
    and info': "begin_timestamp_offset info' = begin_timestamp_offset info"
      "end_timestamp_offset info' = end_timestamp_offset info" "renderpass_slots info' = []"
    using assms(2) True info
    by (auto simp: OnBeginCommandBuffer_def free_in_def Let_def CommandBufferInfo_Reset_def
        split: option.splits bind_splits if_splits)
  have "slots_inv (m_timestamp_allocator g) (find_cmd g)"
    using assms(1) by (simp add: gpu_inv_def)
  from slots_inv_release [OF this info f info'] assms(1) show ?thesis
    by (auto simp: gpu_inv_def g' set_cmd_def distinct_update find_cmd_def [abs_def] update_conv')
next
  case False
  with assms show ?thesis by (auto simp: OnBeginCommandBuffer_def split: option.splits if_splits)
qed

lemma render_pass_timestamp_inv:
  assumes "gpu_inv g" and "render_pass_timestamp stage vk c g v = Some (st, g', v')"
  shows "gpu_inv g'"
proof (cases "m_enable g \<and> find_cmd g c \<noteq> None")
  case True
  then obtain info where info: "find_cmd g c = Some info" by auto
  obtain slot a1 where al: "AllocateSlot (m_timestamp_allocator g) = (slot, a1)"
    by (cases "AllocateSlot (m_timestamp_allocator g)")
  define new where "new = info\<lparr>renderpass_slots := renderpass_slots info @ [slot]\<rparr>"
  have g': "g' = set_cmd c new (g\<lparr>m_timestamp_allocator := a1\<rparr>)"
    using assms(2) True info al by (auto simp: render_pass_timestamp_def new_def)
  have "slots_inv (m_timestamp_allocator g) (find_cmd g)"
    using assms(1) by (simp add: gpu_inv_def)
  from slots_inv_push [OF this info al new_def] assms(1) show ?thesis
    by (auto simp: gpu_inv_def g' set_cmd_def distinct_update find_cmd_def [abs_def] update_conv')
next
  case False
  with assms show ?thesis by (auto simp: render_pass_timestamp_def split: option.splits if_splits)
qed

text \<open>Reading the query pool writes the buffer and keeps its size.\<close>

definition query_laws :: "'v vk \<Rightarrow> bool" where
  "query_laws vk \<longleftrightarrow>
     (\<forall>device query_pool ts v result ts' v'.
        vkGetQueryPoolResults vk device query_pool ts v = (result, ts', v') \<longrightarrow> length ts' = length ts)"

text \<open>Two states that differ in the timestamps read at most.\<close>

definition reread :: "GPUTime \<Rightarrow> GPUTime \<Rightarrow> bool" where
  "reread g g' \<longleftrightarrow>
     (\<exists>ts. length ts = length (m_timestamps_with_availability g) \<and>
        g' = g\<lparr>m_timestamps_with_availability := ts\<rparr>)"

lemma reread_refl [simp]: "reread g g"
  by (auto simp: reread_def intro: exI [of _ "m_timestamps_with_availability g"])

lemma reread_trans: "reread g g' \<Longrightarrow> reread g' g'' \<Longrightarrow> reread g g''"
  by (auto simp: reread_def)

lemma reread_inv: "reread g g' \<Longrightarrow> gpu_inv g \<Longrightarrow> gpu_inv g'"
  by (auto simp: reread_def gpu_inv_def)

lemma query_reread:
  assumes "query_laws vk" and "query_timestamps vk g v = (r, g', v')"
  shows "reread g g'"
proof -
  obtain ts where "vkGetQueryPoolResults vk (m_device g) (m_query_pool g)
      (m_timestamps_with_availability g) v = (r, ts, v')"
    and "g' = g\<lparr>m_timestamps_with_availability := ts\<rparr>"
    using assms(2) by (auto simp: query_timestamps_def split: prod.splits)
  then show ?thesis
    using assms(1) unfolding query_laws_def reread_def by blast
qed

lemma wait_reread: "query_laws vk \<Longrightarrow> wait_available vk n g v = (b, g', v') \<Longrightarrow> reread g g'"
proof (induction n arbitrary: g v)
  case (Suc n)
  then show ?case
    by (auto split: if_splits prod.splits dest!: query_reread intro: reread_trans)
qed simp

lemma wait_available_True:
  "wait_available vk n g v = (True, g', v') \<Longrightarrow> \<not> some_cmd_unavailable g' (m_frame_cmds g')"
  by (induction n arbitrary: g v) (auto split: if_splits prod.splits)

lemma renderpass_times_length:
  "renderpass_times g r slots = Some (Inr ds) \<Longrightarrow> length slots = 2 * length ds"
  by (induction g r slots arbitrary: ds rule: renderpass_times.induct)
    (auto split: option.splits sum.splits)

lemma renderpass_times_even: "even (length slots) \<Longrightarrow> renderpass_times g r slots \<noteq> None"
proof (induction g r slots rule: renderpass_times.induct)
  case (3 g r s t slots)
  then show ?case
    by (cases "GetTimeDuration g s t") (auto split: option.splits sum.splits)
qed auto

definition frame_data_ok :: "frame_data \<Rightarrow> bool" where
  "frame_data_ok fd \<longleftrightarrow>
     length (fd_counts fd) = length (fd_cmds fd) \<and> sum_list (fd_counts fd) = length (fd_passes fd) \<and>
     fd_time fd = sum_list (fd_cmds fd)"

lemma measure_cmds_ok:
  "measure_cmds vk g cmds fd = Some (Inr fd') \<Longrightarrow> frame_data_ok fd \<Longrightarrow> frame_data_ok fd'"
proof (induction vk g cmds fd rule: measure_cmds.induct)
  case (2 vk g cmd cmds fd)
  show ?case
  proof (cases "find_cmd g cmd")
    case None
    with "2.prems" "2.IH"(1) show ?thesis by simp
  next
    case (Some info)
    with "2.prems"(1) obtain elapsed ds where
      t: "GetTimeDuration g (begin_timestamp_offset info) (end_timestamp_offset info) = Some elapsed"
      and rp: "renderpass_times g 0 (renderpass_slots info) = Some (Inr ds)"
      by (auto split: option.splits sum.splits)
    from "2.IH"(2) [OF Some t rp refl] "2.prems" Some t rp renderpass_times_length [OF rp]
    show ?thesis by (simp add: frame_data_ok_def)
  qed
qed simp

lemma measure_frame_inv:
  assumes "gpu_inv g" and "measure_frame vk g v = Some (st, g', v')"
  shows "gpu_inv g' \<and> find_cmd g' = find_cmd g"
proof (cases "measure_cmds vk g (m_frame_cmds g) frame_data_new")
  case None
  with assms show ?thesis by (simp add: measure_frame_def)
next
  case (Some r)
  show ?thesis
  proof (cases r)
    case (Inl msg)
    with assms Some show ?thesis by (auto simp: measure_frame_def intro: gpu_inv_fields)
  next
    case (Inr fd)
    then have fd: "frame_data_ok fd"
      using measure_cmds_ok [of vk g _ frame_data_new fd] Some
      by (simp add: frame_data_ok_def frame_data_new_def)
    define fm where "fm = AddFrameData (fd_time fd) (fd_cmds fd) (fd_passes fd) (fd_counts fd) (m_metrics g)"
    obtain fs where fs: "metrics_window (m_metrics g) fs"
      using assms(1) by (auto simp: gpu_inv_def)
    from AddFrameData_window [OF fs, of "\<lparr>fr_time = fd_time fd, fr_cmds = fd_cmds fd, fr_passes = fd_passes fd\<rparr>"]
    have "\<exists>fs. metrics_window fm fs"
      by (auto simp: fm_def)
    moreover have "counts_ok fm"
      using assms(1) fd AddFrameData_counts [of "m_metrics g"]
      by (auto simp: gpu_inv_def frame_data_ok_def fm_def)
    moreover have "frame_history fm"
      using assms(1) fd history_add [of "m_metrics g"]
      by (auto simp: gpu_inv_def frame_data_ok_def fm_def)
    ultimately have "gpu_inv (g\<lparr>m_metrics := fm\<rparr>)"
      using assms(1) by (simp add: gpu_inv_def)
    with assms Some Inr show ?thesis
      by (auto simp: measure_frame_def fm_def [symmetric] split: if_splits)
  qed
qed

lemma availability_report_cached:
  "\<forall>c \<in> set cmds. find_cmd g c \<noteq> None \<Longrightarrow> snd (availability_report i cmds g) = g"
  by (induction i cmds g rule: availability_report.induct) (auto simp: Let_def split: prod.splits)

lemma UpdateFrameMetrics_inv:
  assumes "query_laws vk" and "gpu_inv g" and "UpdateFrameMetrics vk g v = Some (st, g', v')"
  shows "gpu_inv g' \<and> find_cmd g' = find_cmd g"
proof -
  obtain result g1 v1 where q: "query_timestamps vk g v = (result, g1, v1)"
    by (cases "query_timestamps vk g v")
  note g1 = reread_inv [OF query_reread [OF assms(1) q] assms(2)]
  have find: "find_cmd h' = find_cmd h" if "reread h h'" for h h'
    using that by (auto simp: reread_def)
  note f1 = find [OF query_reread [OF assms(1) q]]
  show ?thesis
  proof (cases result)
    case VK_SUCCESS
    with assms(3) q measure_frame_inv [OF g1] f1 show ?thesis by (simp add: UpdateFrameMetrics_def)
  next
    case (VkOther code)
    with assms(3) q g1 f1 show ?thesis by (auto simp: UpdateFrameMetrics_def intro: gpu_inv_fields)
  next
    case VK_NOT_READY
    obtain b g2 v2 where w: "wait_available vk kMaxQueryCount g1 v1 = (b, g2, v2)"
      by (cases "wait_available vk kMaxQueryCount g1 v1")
    note g2 = reread_inv [OF wait_reread [OF assms(1) w] g1]
    note f2 = find [OF wait_reread [OF assms(1) w]]
    show ?thesis
    proof (cases b)
      case True
      with assms(3) q VK_NOT_READY w measure_frame_inv [OF g2] f1 f2 show ?thesis
        by (simp add: UpdateFrameMetrics_def)
    next
      case False
      have "snd (availability_report 0 (m_frame_cmds g2) (g2\<lparr>m_valid_frame := False\<rparr>)) =
          g2\<lparr>m_valid_frame := False\<rparr>"
        using g2 by (intro availability_report_cached) (simp add: gpu_inv_def)
      with assms(3) q VK_NOT_READY w False g2 f1 f2 show ?thesis
        by (auto simp: UpdateFrameMetrics_def intro: gpu_inv_fields split: prod.splits)
    qed
  qed
qed

lemma OnFrameBoundary_inv:
  assumes "query_laws vk" and "gpu_inv g" and "OnFrameBoundary vk g v = Some (st, g', v')"
  shows "gpu_inv g'"
proof -
  obtain g1 v1 where "(if m_valid_frame g then UpdateFrameMetrics vk g v else Some (gpu_ok, g, v)) =
      Some (st, g1, v1)"
    and g': "g' = g1\<lparr>m_frame_index := m_frame_index g1 + 1, m_frame_cmds := [], m_valid_frame := True\<rparr>"
    using assms(3) by (auto simp: OnFrameBoundary_def Let_def split: bind_splits)
  then have "gpu_inv g1"
    using assms(2) UpdateFrameMetrics_inv [OF assms(1,2)] by (auto split: if_splits)
  then show ?thesis
    unfolding g' by (intro gpu_inv_fields)
qed

lemma submit_cmds_inv: "gpu_inv g \<Longrightarrow> submit_cmds vk cmds g = (r, g') \<Longrightarrow> gpu_inv g'"
proof (induction vk cmds g rule: submit_cmds.induct)
  case (2 vk cmd cmds g)
  show ?case
  proof (cases "find_cmd g cmd")
    case None
    with "2.prems" show ?thesis by (auto intro: gpu_inv_fields)
  next
    case (Some info)
    then have "gpu_inv (g\<lparr>m_frame_cmds := m_frame_cmds g @ [cmd]\<rparr>)"
      using "2.prems"(1) by (auto simp: gpu_inv_def)
    with "2.IH" [OF Some] "2.prems" Some show ?thesis
      by (auto intro: gpu_inv_fields split: if_splits)
  qed
qed simp

lemma submit_loop_inv: "gpu_inv g \<Longrightarrow> submit_loop vk submits g = (r, g') \<Longrightarrow> gpu_inv g'"
proof (induction vk submits g rule: submit_loop.induct)
  case (2 vk submit submits g)
  then show ?case
    by (auto split: prod.splits option.splits dest: submit_cmds_inv)
qed simp

lemma OnQueueSubmit_record_inv:
  assumes "gpu_inv g" and "OnQueueSubmit_record vk submits g = (r, g')"
  shows "gpu_inv g'"
proof -
  have "g' = g \<or> (\<exists>st ss. submit_loop vk ss g = (st, g'))"
    using assms(2)
    by (auto simp: OnQueueSubmit_record_def Let_def simp del: submit_loop.simps
        split: if_splits option.splits list.splits prod.splits)
  with assms(1) show ?thesis by (auto dest: submit_loop_inv)
qed

lemma OnQueueSubmit_finish_inv:
  assumes "query_laws vk" and "gpu_inv g" and "OnQueueSubmit_finish vk b g v = Some (st, g', v')"
  shows "gpu_inv g'"
  using assms OnFrameBoundary_inv [OF assms(1,2)]
  by (auto simp: OnQueueSubmit_finish_def split: if_splits bind_splits)

section \<open>Sequences of calls\<close>

datatype gpu_call =
    CreateDevice VkDevice nat real
  | DestroyDevice VkDevice
  | GetDeviceQueue VkQueue
  | DestroyCommandPool VkCommandPool
  | AllocateCommandBuffers VkCommandBufferAllocateInfo "VkCommandBuffer list"
  | FreeCommandBuffers "VkCommandBuffer list"
  | ResetCommandBuffer VkCommandBuffer
  | ResetCommandPool VkCommandPool
  | BeginCommandBuffer VkCommandBuffer VkCommandBufferUsage
  | EndCommandBuffer VkCommandBuffer
  | BeginPass VkCommandBuffer
  | EndPass VkCommandBuffer
  | InsertLabel VkCommandBuffer "string option"
  | SubmitRecord "VkSubmitInfo list option"
  | SubmitFinish bool
  | QueuePresent
  | ClearCache
  | Enable bool

text \<open>
  One call. A submission is its two halves as separate calls, so that calls of other threads can come
  between them.
\<close>

fun gpu_exec :: "'v vk \<Rightarrow> gpu_call \<Rightarrow> GPUTime \<times> 'v \<Rightarrow> (GPUTime \<times> 'v) option" where
  "gpu_exec vk (CreateDevice d a p) (g, v) = map_option snd (OnCreateDevice vk d a p g v)"
| "gpu_exec vk (DestroyDevice d) (g, v) = map_option snd (OnDestroyDevice vk d g v)"
| "gpu_exec vk (GetDeviceQueue q) (g, v) = map_option snd (OnGetDeviceQueue q g v)"
| "gpu_exec vk (DestroyCommandPool p) (g, v) = map_option snd (OnDestroyCommandPool p g v)"
| "gpu_exec vk (AllocateCommandBuffers info cmds) (g, v) =
     map_option snd (OnAllocateCommandBuffers vk info cmds g v)"
| "gpu_exec vk (FreeCommandBuffers cmds) (g, v) = map_option snd (OnFreeCommandBuffers cmds g v)"
| "gpu_exec vk (ResetCommandBuffer c) (g, v) = map_option snd (OnResetCommandBuffer c g v)"
| "gpu_exec vk (ResetCommandPool p) (g, v) = map_option snd (OnResetCommandPool p g v)"
| "gpu_exec vk (BeginCommandBuffer c flags) (g, v) = map_option snd (OnBeginCommandBuffer vk c flags g v)"
| "gpu_exec vk (EndCommandBuffer c) (g, v) = map_option snd (OnEndCommandBuffer vk c g v)"
| "gpu_exec vk (BeginPass c) (g, v) = map_option snd (BeginRenderPass vk c g v)"
| "gpu_exec vk (EndPass c) (g, v) = map_option snd (EndRenderPass vk c g v)"
| "gpu_exec vk (InsertLabel c label) (g, v) = map_option snd (OnCmdInsertDebugUtilsLabelEXT c label g v)"
| "gpu_exec vk (SubmitRecord submits) (g, v) = Some (snd (OnQueueSubmit_record vk submits g), v)"
| "gpu_exec vk (SubmitFinish b) (g, v) =
     map_option snd (OnQueueSubmit_finish vk b g (if b then vkDeviceWaitIdle vk (m_device g) v else v))"
| "gpu_exec vk QueuePresent (g, v) = map_option snd (OnQueuePresent vk g v)"
| "gpu_exec vk ClearCache (g, v) = map_option snd (ClearFrameCache g v)"
| "gpu_exec vk (Enable b) (g, v) = Some (SetEnable b g, v)"

fun gpu_run :: "'v vk \<Rightarrow> gpu_call list \<Rightarrow> GPUTime \<times> 'v \<Rightarrow> (GPUTime \<times> 'v) option" where
  "gpu_run vk [] s = Some s"
| "gpu_run vk (call # calls) s = (case gpu_exec vk call s of None \<Rightarrow> None | Some s \<Rightarrow> gpu_run vk calls s)"

lemma gpu_inv_cong:
  assumes "gpu_inv g" and "m_cmds g' = m_cmds g" and "m_timestamp_allocator g' = m_timestamp_allocator g"
    and "m_frame_cmds g' = m_frame_cmds g" and "m_metrics g' = m_metrics g"
    and "m_timestamps_with_availability g' = m_timestamps_with_availability g"
  shows "gpu_inv g'"
proof -
  have "find_cmd g' = find_cmd g"
    using assms(2) by (simp add: find_cmd_def fun_eq_iff)
  with assms show ?thesis by (simp add: gpu_inv_def)
qed

lemma gpu_exec_device_inv:
  assumes "gpu_inv g" and "call = CreateDevice d a p \<or> call = DestroyDevice d \<or> call = GetDeviceQueue q"
    and "gpu_exec vk call (g, v) = Some (g', v')"
  shows "gpu_inv g'"
  using assms(2,3)
  by (intro gpu_inv_cong [OF assms(1)])
    (auto simp: OnCreateDevice_def OnDestroyDevice_def OnGetDeviceQueue_def Let_def
      split: if_splits prod.splits)

lemma gpu_exec_inv:
  assumes "query_laws vk" and "gpu_inv g" and "gpu_exec vk call (g, v) = Some (g', v')"
  shows "gpu_inv g'"
proof (cases call)
  case (DestroyCommandPool p)
  with assms(2,3) show ?thesis
    by (auto simp: OnDestroyCommandPool_def split: if_splits bind_splits intro: destroy_pool_loop_inv)
next
  case (AllocateCommandBuffers info cmds)
  with assms(2,3) allocate_loop_inv [OF gpu_inv_fields(1) [OF assms(2)]] show ?thesis
    by (auto simp: OnAllocateCommandBuffers_def Let_def intro: gpu_inv_fields
        split: if_splits prod.splits)
next
  case (FreeCommandBuffers cmds)
  with assms(2,3) show ?thesis
    by (auto simp: OnFreeCommandBuffers_def split: bind_splits
        intro: free_loop_inv [OF gpu_inv_fields(1) [OF assms(2)]])
next
  case (ResetCommandBuffer c)
  with assms(2,3) show ?thesis
    by (auto simp: OnResetCommandBuffer_def Let_def split: if_splits bind_splits
        intro: gpu_inv_fields gpu_inv_remove(1) [OF gpu_inv_fields(1) [OF assms(2)]])
next
  case (ResetCommandPool p)
  with assms(2,3) show ?thesis
    by (auto simp: OnResetCommandPool_def split: bind_splits
        intro: reset_pool_loop_inv [OF gpu_inv_fields(1) [OF assms(2)]])
next
  case (SubmitRecord submits)
  with assms(2,3) show ?thesis
    by (cases "OnQueueSubmit_record vk submits g") (auto intro: OnQueueSubmit_record_inv)
next
  case (Enable b)
  with assms(2,3) show ?thesis
    by (auto simp: SetEnable_def intro: gpu_inv_cong)
qed (use assms gpu_exec_device_inv [OF assms(2) _ assms(3)] in \<open>auto simp:
      BeginRenderPass_def EndRenderPass_def OnEndCommandBuffer_def OnCmdInsertDebugUtilsLabelEXT_def
      ClearFrameCache_def OnQueuePresent_def Let_def
      intro: OnBeginCommandBuffer_inv render_pass_timestamp_inv gpu_inv_fields OnFrameBoundary_inv
        OnQueueSubmit_finish_inv
      split: if_splits option.splits prod.splits\<close>)

lemma gpu_run_inv:
  "query_laws vk \<Longrightarrow> gpu_inv (fst s) \<Longrightarrow> gpu_run vk calls s = Some s' \<Longrightarrow> gpu_inv (fst s')"
proof (induction calls arbitrary: s)
  case (Cons call calls)
  then show ?case
    using gpu_exec_inv [of vk "fst s" call "snd s"] by (auto split: option.splits)
qed simp

section \<open>When the operations are defined\<close>

text \<open>No cached command buffer carries the invalid index as a render pass slot.\<close>

definition healthy :: "GPUTime \<Rightarrow> bool" where
  "healthy g \<longleftrightarrow> (\<forall>c info. find_cmd g c = Some info \<longrightarrow> kInvalidIndex \<notin> set (renderpass_slots info))"

text \<open>Every command buffer of the frame has as many begin as end timestamps of render passes.\<close>

definition paired :: "GPUTime \<Rightarrow> bool" where
  "paired g \<longleftrightarrow>
     (\<forall>c \<in> set (m_frame_cmds g). \<forall>info. find_cmd g c = Some info \<longrightarrow> even (length (renderpass_slots info)))"

lemma cmd_slots_bound:
  assumes "gpu_inv g" and "healthy g" and "find_cmd g c = Some info"
  shows "set (cmd_slots info) \<subseteq> {..<kTotalSlots}"
proof -
  have ok: "info_ok (m_timestamp_allocator g) info"
    using assms(1,3) slots_invD(2) by (auto simp: gpu_inv_def)
  have "kInvalidIndex \<notin> set (cmd_slots info)"
    using ok assms(2,3) by (auto simp: info_ok_def cmd_slots_def healthy_def)
  with ok used_slots_bound show ?thesis
    by (fastforce simp: info_ok_def valid_slots_def)
qed

lemma RemoveCmd_defined:
  assumes "gpu_inv g" and "healthy g"
  shows "\<exists>g'. RemoveCmdFromFrameCache c g = Some g' \<and> gpu_inv g' \<and> healthy g'"
proof (cases "find_cmd g c")
  case None
  with assms show ?thesis by (simp add: RemoveCmdFromFrameCache_def)
next
  case (Some info)
  have bound: "set (renderpass_slots info) \<subseteq> {..<kTotalSlots}"
    using cmd_slots_bound [OF assms Some] by (simp add: cmd_slots_def)
  have "alloc_inv (m_timestamp_allocator g)"
    using assms(1) by (simp add: gpu_inv_def slots_inv_def)
  from FreeSlots_some [OF this bound]
  obtain a where "FreeSlots (renderpass_slots info) (m_timestamp_allocator g) = Some a"
    by blast
  then obtain g' where g': "RemoveCmdFromFrameCache c g = Some g'"
    using Some by (simp add: RemoveCmdFromFrameCache_def free_in_def Let_def)
  have "healthy g'"
    using assms(2) RemoveCmd_effect(2) [OF g' Some]
    by (auto simp: healthy_def CommandBufferInfo_Reset_def)
  with g' gpu_inv_remove [OF assms(1) g'] show ?thesis by blast
qed

lemma drop_cmd_defined:
  assumes "gpu_inv g" and "healthy g" and "find_cmd g c = Some info"
  shows "\<exists>g'. drop_cmd c info g = Some g' \<and> gpu_inv g' \<and> healthy g'"
proof -
  have alloc: "alloc_inv (m_timestamp_allocator g)"
    using assms(1) by (simp add: gpu_inv_def slots_inv_def)
  have b: "set [begin_timestamp_offset info, end_timestamp_offset info] \<subseteq> {..<kTotalSlots}"
    and rp: "set (renderpass_slots info) \<subseteq> {..<kTotalSlots}"
    using cmd_slots_bound [OF assms] by (auto simp: cmd_slots_def)
  obtain a1 where a1: "FreeSlots [begin_timestamp_offset info, end_timestamp_offset info]
      (m_timestamp_allocator g) = Some a1" "alloc_inv a1"
    using FreeSlots_some [OF alloc b] by blast
  obtain a2 where a2: "FreeSlots (renderpass_slots info) a1 = Some a2"
    using FreeSlots_some [OF a1(2) rp] by blast
  obtain g' where g': "drop_cmd c info g = Some g'"
    using a1(1) a2 assms(3) by (auto simp: drop_cmd_def free_in_def RemoveCmdFromFrameCache_def Let_def)
  have "healthy g'"
    using assms(2) drop_cmd_effect(3) [OF assms(1,3) g'] by (auto simp: healthy_def split: if_splits)
  with g' drop_cmd_effect(1) [OF assms(1,3) g'] show ?thesis by blast
qed

lemma destroy_pool_loop_defined:
  "gpu_inv g \<Longrightarrow> healthy g \<Longrightarrow> \<exists>g'. destroy_pool_loop p cmds g = Some g' \<and> healthy g'"
proof (induction cmds arbitrary: g)
  case (Cons cmd cmds)
  then show ?case
    by (auto split: option.splits dest: drop_cmd_defined)
qed simp

lemma free_loop_defined:
  "gpu_inv g \<Longrightarrow> healthy g \<Longrightarrow> \<exists>g'. free_loop cmds g = Some g' \<and> healthy g'"
proof (induction cmds arbitrary: g)
  case (Cons cmd cmds)
  then show ?case
    by (auto split: option.splits dest: drop_cmd_defined)
qed simp

lemma reset_pool_loop_defined:
  "gpu_inv g \<Longrightarrow> healthy g \<Longrightarrow> \<exists>g'. reset_pool_loop p cmds g = Some g' \<and> healthy g'"
proof (induction cmds arbitrary: g)
  case (Cons cmd cmds)
  obtain g1 where g1: "RemoveCmdFromFrameCache cmd g = Some g1" "gpu_inv g1" "healthy g1"
    using RemoveCmd_defined [OF Cons.prems] by blast
  from Cons.IH [OF g1(2,3)] Cons.IH [OF Cons.prems] g1(1) show ?case
    by (auto split: option.splits)
qed simp

lemma healthy_fields [simp]:
  "healthy (g\<lparr>m_boundary_detector := d\<rparr>) = healthy g" "healthy (g\<lparr>m_valid_frame := b\<rparr>) = healthy g"
  "healthy (g\<lparr>m_frame_cmds := cs\<rparr>) = healthy g" "healthy (g\<lparr>m_frame_index := i\<rparr>) = healthy g"
  by (simp_all add: healthy_def)

lemma allocate_loop_healthy:
  "healthy g \<Longrightarrow> allocate_loop vk p cmds g = (st, g') \<Longrightarrow> healthy g'"
proof (induction vk p cmds g rule: allocate_loop.induct)
  case (2 vk p cmd cmds g)
  show ?case
  proof (cases "find_cmd g cmd \<noteq> None")
    case True
    with "2.prems" show ?thesis by auto
  next
    case new: False
    obtain b a1 where b: "AllocateSlot (m_timestamp_allocator g) = (b, a1)"
      by (cases "AllocateSlot (m_timestamp_allocator g)")
    obtain e a2 where e: "AllocateSlot a1 = (e, a2)" by (cases "AllocateSlot a1")
    show ?thesis
    proof (cases "b = kInvalidIndex \<or> e = kInvalidIndex")
      case True
      with "2.prems" new b e show ?thesis by (auto simp: healthy_def)
    next
      case False
      have "healthy (g\<lparr>m_timestamp_allocator := a2, m_cmds := (cmd, \<lparr>renderpass_slots = [], pool = p,
          begin_timestamp_offset = b, end_timestamp_offset = e, usage_one_submit = False,
          reusable = False\<rparr>) # m_cmds g\<rparr>)"
        using "2.prems"(1) by (auto simp: healthy_def find_cmd_def)
      with "2.IH" [OF new b [symmetric] e [symmetric] refl False] "2.prems"(2) new b e False
      show ?thesis by simp
    qed
  qed
qed simp

lemma OnBeginCommandBuffer_defined:
  assumes "gpu_inv g" and "healthy g"
  shows "\<exists>st g' v'. OnBeginCommandBuffer vk c flags g v = Some (st, g', v') \<and> healthy g'"
proof (cases "m_enable g \<and> find_cmd g c \<noteq> None")
  case True
  then obtain info where info: "find_cmd g c = Some info" by auto
  have alloc: "alloc_inv (m_timestamp_allocator g)"
    using assms(1) by (simp add: gpu_inv_def slots_inv_def)
  obtain a where "FreeSlots (renderpass_slots info) (m_timestamp_allocator g) = Some a"
    using FreeSlots_some [OF alloc, of "renderpass_slots info"] cmd_slots_bound [OF assms info]
    by (auto simp: cmd_slots_def)
  with True info assms(2) show ?thesis
    by (auto simp: OnBeginCommandBuffer_def free_in_def Let_def healthy_def CommandBufferInfo_Reset_def
        split: if_splits)
next
  case False
  with assms(2) show ?thesis by (auto simp: OnBeginCommandBuffer_def split: option.splits)
qed

lemma render_pass_timestamp_defined:
  assumes "gpu_inv g" and "healthy g" and "used_slots (m_timestamp_allocator g) \<noteq> {..<kTotalSlots}"
  shows "\<exists>st g' v'. render_pass_timestamp stage vk c g v = Some (st, g', v') \<and> healthy g'"
proof (cases "m_enable g \<and> find_cmd g c \<noteq> None")
  case True
  then obtain info where info: "find_cmd g c = Some info" by auto
  obtain slot a where al: "AllocateSlot (m_timestamp_allocator g) = (slot, a)"
    by (cases "AllocateSlot (m_timestamp_allocator g)")
  have "alloc_inv (m_timestamp_allocator g)"
    using assms(1) by (simp add: gpu_inv_def slots_inv_def)
  from slots.alloc_invalid_iff [OF this] assms(3) al have "slot \<noteq> kInvalidIndex" by simp
  with True info assms(2) al show ?thesis
    by (auto simp: render_pass_timestamp_def healthy_def)
next
  case False
  with assms(2) show ?thesis by (auto simp: render_pass_timestamp_def split: option.splits)
qed

lemma measure_cmds_defined:
  assumes "\<forall>c \<in> set cmds. \<forall>info. find_cmd g c = Some info \<longrightarrow> even (length (renderpass_slots info))"
  shows "measure_cmds vk g cmds fd \<noteq> None"
  using assms
proof (induction cmds arbitrary: fd)
  case (Cons c cmds)
  then have "\<And>info. find_cmd g c = Some info \<Longrightarrow> renderpass_times g 0 (renderpass_slots info) \<noteq> None"
    by (simp add: renderpass_times_even)
  with Cons show ?case
    by (fastforce split: option.splits sum.splits)
qed simp

lemma measure_frame_defined: "paired g \<Longrightarrow> measure_frame vk g v \<noteq> None"
  using measure_cmds_defined [of "m_frame_cmds g" g vk frame_data_new]
  by (auto simp: measure_frame_def paired_def split: option.splits sum.splits)

lemma reread_paired: "reread g g' \<Longrightarrow> paired g \<Longrightarrow> paired g'"
  by (auto simp: reread_def paired_def)

lemma OnFrameBoundary_defined:
  assumes "query_laws vk" and "gpu_inv g" and "healthy g" and "paired g"
  shows "\<exists>st g' v'. OnFrameBoundary vk g v = Some (st, g', v') \<and> healthy g'"
proof -
  obtain r g1 v1 where q: "query_timestamps vk g v = (r, g1, v1)" by (cases "query_timestamps vk g v")
  obtain b g2 v2 where w: "wait_available vk kMaxQueryCount g1 v1 = (b, g2, v2)"
    by (cases "wait_available vk kMaxQueryCount g1 v1")
  have "paired g1" "paired g2"
    using reread_paired [OF query_reread [OF assms(1) q] assms(4)]
      reread_paired [OF wait_reread [OF assms(1) w]] by auto
  then have "UpdateFrameMetrics vk g v \<noteq> None"
    using q w measure_frame_defined [of g1 vk v1] measure_frame_defined [of g2 vk v2]
    by (auto simp: UpdateFrameMetrics_def split: VkResult.splits prod.splits bool.splits)
  then obtain st g3 v3 where u: "UpdateFrameMetrics vk g v = Some (st, g3, v3)" by auto
  have "healthy g3"
    using UpdateFrameMetrics_inv [OF assms(1,2) u] assms(3) by (simp add: healthy_def)
  with u assms(3) show ?thesis
    by (auto simp: OnFrameBoundary_def Let_def healthy_def)
qed

text \<open>
  What the application has to respect: a free slot when a render pass is timed, and closed render
  passes in the frame's command buffers when the frame ends.
\<close>

fun call_allowed :: "gpu_call \<Rightarrow> GPUTime \<Rightarrow> bool" where
  "call_allowed (BeginPass c) g \<longleftrightarrow> used_slots (m_timestamp_allocator g) \<noteq> {..<kTotalSlots}"
| "call_allowed (EndPass c) g \<longleftrightarrow> used_slots (m_timestamp_allocator g) \<noteq> {..<kTotalSlots}"
| "call_allowed QueuePresent g \<longleftrightarrow> paired g"
| "call_allowed (SubmitFinish b) g \<longleftrightarrow> paired g"
| "call_allowed _ g \<longleftrightarrow> True"

fun run_allowed :: "'v vk \<Rightarrow> gpu_call list \<Rightarrow> GPUTime \<times> 'v \<Rightarrow> bool" where
  "run_allowed vk [] s = True"
| "run_allowed vk (call # calls) s =
    (call_allowed call (fst s) \<and>
     (case gpu_exec vk call s of None \<Rightarrow> True | Some s \<Rightarrow> run_allowed vk calls s))"

lemma healthy_cong: "m_cmds g' = m_cmds g \<Longrightarrow> healthy g \<Longrightarrow> healthy g'"
  by (simp add: healthy_def find_cmd_def)

lemma submit_cmds_cache: "submit_cmds vk cmds g = (r, g') \<Longrightarrow> m_cmds g' = m_cmds g"
  by (induction vk cmds g rule: submit_cmds.induct) (auto split: option.splits if_splits)

lemma submit_loop_cache: "submit_loop vk submits g = (r, g') \<Longrightarrow> m_cmds g' = m_cmds g"
  by (induction vk submits g rule: submit_loop.induct)
    (auto split: prod.splits option.splits dest!: submit_cmds_cache)

lemma OnQueueSubmit_record_cache: "m_cmds (snd (OnQueueSubmit_record vk submits g)) = m_cmds g"
  by (auto simp: OnQueueSubmit_record_def Let_def simp del: submit_loop.simps dest: submit_loop_cache
      split: if_splits option.splits list.splits prod.splits)

lemma gpu_exec_simple_defined:
  assumes "healthy g"
    and "call = CreateDevice d a p \<or> call = DestroyDevice d \<or> call = GetDeviceQueue q \<or>
      call = EndCommandBuffer c \<or> call = InsertLabel c label \<or> call = ClearCache \<or> call = Enable b \<or>
      call = SubmitRecord submits"
  shows "\<exists>s'. gpu_exec vk call (g, v) = Some s' \<and> healthy (fst s')"
proof -
  have "\<exists>s'. gpu_exec vk call (g, v) = Some s' \<and> m_cmds (fst s') = m_cmds g"
    using assms(2) OnQueueSubmit_record_cache [of vk submits g]
    by (auto simp: OnCreateDevice_def OnDestroyDevice_def OnGetDeviceQueue_def OnEndCommandBuffer_def
        OnCmdInsertDebugUtilsLabelEXT_def ClearFrameCache_def SetEnable_def Let_def
        split: if_splits prod.splits option.splits)
  with assms(1) healthy_cong show ?thesis by blast
qed

lemma gpu_exec_defined:
  assumes "query_laws vk" and "gpu_inv g" and "healthy g" and "call_allowed call g"
  shows "\<exists>s'. gpu_exec vk call (g, v) = Some s' \<and> healthy (fst s')"
proof (cases call)
  case (DestroyCommandPool p)
  with destroy_pool_loop_defined [OF assms(2,3), of p "map fst (m_cmds g)"] assms(3) show ?thesis
    by (auto simp: OnDestroyCommandPool_def)
next
  case (AllocateCommandBuffers info cmds)
  with allocate_loop_healthy [of "g\<lparr>m_boundary_detector := Detector_OnAllocateCommandBuffers (Some info)
      (Some cmds) (m_boundary_detector g)\<rparr>"] assms(3) show ?thesis
    by (auto simp: OnAllocateCommandBuffers_def Let_def split: prod.splits)
next
  case (FreeCommandBuffers cmds)
  with free_loop_defined [OF gpu_inv_fields(1) [OF assms(2)],
      of "Detector_OnFreeCommandBuffers (Some cmds) (m_boundary_detector g)" cmds] assms(3)
  show ?thesis
    by (auto simp: OnFreeCommandBuffers_def)
next
  case (ResetCommandBuffer c)
  with RemoveCmd_defined [OF gpu_inv_fields(1) [OF assms(2)],
      of "Detector_OnResetCommandBuffer c (m_boundary_detector g)" c] assms(3)
  show ?thesis
    by (auto simp: OnResetCommandBuffer_def Let_def)
next
  case (ResetCommandPool p)
  with reset_pool_loop_defined [OF gpu_inv_fields(1) [OF assms(2)],
      of "Detector_OnResetCommandPool p (m_boundary_detector g)" p "map fst (m_cmds g)"] assms(3)
  show ?thesis
    by (auto simp: OnResetCommandPool_def)
next
  case (BeginCommandBuffer c flags)
  with OnBeginCommandBuffer_defined [OF assms(2,3), of vk c flags v] show ?thesis by auto
next
  case (BeginPass c)
  with render_pass_timestamp_defined [OF assms(2,3), of _ vk c v] assms(4) show ?thesis
    by (fastforce simp: BeginRenderPass_def)
next
  case (EndPass c)
  with render_pass_timestamp_defined [OF assms(2,3), of _ vk c v] assms(4) show ?thesis
    by (fastforce simp: EndRenderPass_def)
next
  case (SubmitFinish b)
  with OnFrameBoundary_defined [OF assms(1-3), of "vkDeviceWaitIdle vk (m_device g) v"] assms(3,4)
  show ?thesis
    by (auto simp: OnQueueSubmit_finish_def)
next
  case QueuePresent
  with OnFrameBoundary_defined [OF assms(1-3), of "vkDeviceWaitIdle vk (m_device g) v"] assms(3,4)
  show ?thesis
    by (auto simp: OnQueuePresent_def)
qed (rule gpu_exec_simple_defined [OF assms(3)], blast)+

lemma gpu_run_defined:
  "query_laws vk \<Longrightarrow> gpu_inv (fst s) \<Longrightarrow> healthy (fst s) \<Longrightarrow> run_allowed vk calls s \<Longrightarrow>
   \<exists>s'. gpu_run vk calls s = Some s'"
proof (induction calls arbitrary: s)
  case (Cons call calls)
  obtain s1 where s1: "gpu_exec vk call s = Some s1" "healthy (fst s1)"
    using gpu_exec_defined [OF Cons.prems(1-3), of call "snd s"] Cons.prems(4) by auto
  have "gpu_inv (fst s1)"
    using gpu_exec_inv [OF Cons.prems(1,2), of call "snd s" "fst s1" "snd s1"] s1(1) by simp
  with Cons.IH [OF Cons.prems(1) this s1(2)] Cons.prems(4) s1(1) show ?case by simp
qed simp

section \<open>What a frame boundary records\<close>

fun slot_pairs :: "nat list \<Rightarrow> (nat \<times> nat) list" where
  "slot_pairs (s # t # slots) = (s, t) # slot_pairs slots"
| "slot_pairs _ = []"

definition cmd_time :: "GPUTime \<Rightarrow> VkCommandBuffer \<Rightarrow> real" where
  "cmd_time g c =
    (let info = the (find_cmd g c)
     in the (GetTimeDuration g (begin_timestamp_offset info) (end_timestamp_offset info)))"

definition pass_times :: "GPUTime \<Rightarrow> VkCommandBuffer \<Rightarrow> real list" where
  "pass_times g c =
    map (\<lambda>(s, t). the (GetTimeDuration g s t)) (slot_pairs (renderpass_slots (the (find_cmd g c))))"

text \<open>The frame as the specification sees it: the frame's command buffers in submission order.\<close>

definition measured_frame :: "GPUTime \<Rightarrow> frame" where
  "measured_frame g =
    \<lparr>fr_time = sum_list (map (cmd_time g) (m_frame_cmds g)),
     fr_cmds = map (cmd_time g) (m_frame_cmds g),
     fr_passes = concat (map (pass_times g) (m_frame_cmds g))\<rparr>"

lemma renderpass_times_pairs:
  "renderpass_times g r slots = Some (Inr ds) \<Longrightarrow>
     ds = map (\<lambda>(s, t). the (GetTimeDuration g s t)) (slot_pairs slots)"
  by (induction g r slots arbitrary: ds rule: renderpass_times.induct)
    (auto split: option.splits sum.splits)

lemma measure_cmds_times:
  "measure_cmds vk g cmds fd = Some (Inr fd') \<Longrightarrow> \<forall>c \<in> set cmds. find_cmd g c \<noteq> None \<Longrightarrow>
   fd_cmds fd' = fd_cmds fd @ map (cmd_time g) cmds \<and>
   fd_passes fd' = fd_passes fd @ concat (map (pass_times g) cmds)"
proof (induction vk g cmds fd rule: measure_cmds.induct)
  case (2 vk g cmd cmds fd)
  then obtain info where info: "find_cmd g cmd = Some info" by auto
  with "2.prems"(1) obtain elapsed ds where
    t: "GetTimeDuration g (begin_timestamp_offset info) (end_timestamp_offset info) = Some elapsed"
    and rp: "renderpass_times g 0 (renderpass_slots info) = Some (Inr ds)"
    by (auto split: option.splits sum.splits)
  from "2.IH"(2) [OF info t rp refl] "2.prems" info t rp renderpass_times_pairs [OF rp]
  show ?case by (simp add: cmd_time_def pass_times_def)
qed simp

lemma measure_frame_recorded:
  assumes "gpu_inv g" and "m_valid_frame g" and "measure_frame vk g v = Some (st, g', v')"
    and "gs_success st" and "metrics_window (m_metrics g) fs"
  shows "metrics_window (m_metrics g') (window_add (measured_frame g) fs)"
proof -
  obtain fd where fd: "measure_cmds vk g (m_frame_cmds g) frame_data_new = Some (Inr fd)"
    using assms(3,4) by (auto simp: measure_frame_def gpu_error_def split: option.splits sum.splits)
  have times: "fd_cmds fd = map (cmd_time g) (m_frame_cmds g)"
    "fd_passes fd = concat (map (pass_times g) (m_frame_cmds g))"
    using measure_cmds_times [OF fd] assms(1) by (auto simp: gpu_inv_def frame_data_new_def)
  moreover have "fd_time fd = sum_list (fd_cmds fd)"
    using measure_cmds_ok [OF fd] by (simp add: frame_data_ok_def frame_data_new_def)
  ultimately have "m_metrics g' = AddFrameData (fr_time (measured_frame g)) (fr_cmds (measured_frame g))
      (fr_passes (measured_frame g)) (fd_counts fd) (m_metrics g)"
    using assms(2,3) fd by (auto simp: measure_frame_def measured_frame_def)
  with AddFrameData_window [OF assms(5)] show ?thesis by metis
qed

lemma OnFrameBoundary_recorded:
  assumes "query_laws vk" and "gpu_inv g" and "m_valid_frame g"
    and "OnFrameBoundary vk g v = Some (st, g', v')" and "gs_success st"
    and "metrics_window (m_metrics g) fs"
  shows "\<exists>g1. reread g g1 \<and> metrics_window (m_metrics g') (window_add (measured_frame g1) fs)"
proof -
  obtain g3 v3 where u: "UpdateFrameMetrics vk g v = Some (st, g3, v3)"
    and g': "m_metrics g' = m_metrics g3"
    using assms(3,4) by (auto simp: OnFrameBoundary_def Let_def split: bind_splits)
  have "\<exists>g1 v1. reread g g1 \<and> measure_frame vk g1 v1 = Some (st, g3, v3)"
    using u assms(5) query_reread [OF assms(1)] wait_reread [OF assms(1)]
    by (auto simp: UpdateFrameMetrics_def gpu_error_def
        split: VkResult.splits prod.splits bool.splits intro: reread_trans) (metis reread_trans)+
  then obtain g1 v1 where r: "reread g g1" and m: "measure_frame vk g1 v1 = Some (st, g3, v3)"
    by blast
  have "m_valid_frame g1" "m_metrics g1 = m_metrics g"
    using r assms(3) by (auto simp: reread_def)
  with measure_frame_recorded [OF reread_inv [OF r assms(2)] _ m assms(5)] assms(6) g' r show ?thesis
    by auto
qed

section \<open>The two undefined cases\<close>

lemma exhausted_render_pass:
  assumes "gpu_inv g" and "m_enable g" and "find_cmd g c = Some info"
    and "used_slots (m_timestamp_allocator g) = {..<kTotalSlots}"
  shows "\<exists>g' v'. BeginRenderPass vk c g v = Some (gpu_ok, g', v') \<and> OnResetCommandBuffer c g' w = None"
proof -
  have alloc: "alloc_inv (m_timestamp_allocator g)"
    using assms(1) by (simp add: gpu_inv_def slots_inv_def)
  have "AllocateSlot (m_timestamp_allocator g) = (kInvalidIndex, m_timestamp_allocator g)"
    using AllocateSlot_full [OF alloc assms(4)] .
  moreover have "FreeSlots (renderpass_slots info @ [kInvalidIndex]) (m_timestamp_allocator g) = None"
    using kInvalidIndex_big [unfolded not_less]
    by (intro FreeSlots_outside [OF alloc, of kInvalidIndex]) simp_all
  ultimately show ?thesis
    using assms(2,3)
    by (simp add: BeginRenderPass_def render_pass_timestamp_def OnResetCommandBuffer_def
        RemoveCmdFromFrameCache_def free_in_def Let_def)
qed

lemma odd_render_pass:
  assumes "m_valid_frame g" and "m_frame_cmds g = [c]" and "find_cmd g c = Some info"
    and "renderpass_slots info = [s]"
    and "query_timestamps vk g v = (VK_SUCCESS, g1, v1)"
    and "GetTimeDuration g1 (begin_timestamp_offset info) (end_timestamp_offset info) = Some d"
  shows "OnFrameBoundary vk g v = None"
proof -
  have "m_frame_cmds g1 = [c]" "find_cmd g1 c = Some info"
    using assms(2,3,5) by (auto simp: query_timestamps_def split: prod.splits)
  with assms show ?thesis
    by (simp add: OnFrameBoundary_def UpdateFrameMetrics_def measure_frame_def)
qed

section \<open>What a submission records\<close>

definition submit_list :: "VkSubmitInfo list \<Rightarrow> VkCommandBuffer list" where
  "submit_list submits =
     concat (map (\<lambda>submit. case pCommandBuffers submit of None \<Rightarrow> [] | Some cmds \<Rightarrow> cmds) submits)"

definition submittable :: "GPUTime \<Rightarrow> VkCommandBuffer \<Rightarrow> bool" where
  "submittable g cmd \<longleftrightarrow> (\<exists>info. find_cmd g cmd = Some info \<and> \<not> reusable info)"

lemma submit_cmds_all:
  "\<forall>cmd \<in> set cmds. submittable g cmd \<Longrightarrow>
   submit_cmds vk cmds g = (None, g\<lparr>m_frame_cmds := m_frame_cmds g @ cmds\<rparr>)"
  by (induction vk cmds g rule: submit_cmds.induct) (auto simp: submittable_def)

lemma submit_loop_all:
  "\<forall>cmd \<in> set (submit_list submits). submittable g cmd \<Longrightarrow>
   submit_loop vk submits g = (None, g\<lparr>m_frame_cmds := m_frame_cmds g @ submit_list submits\<rparr>)"
proof (induction submits arbitrary: g)
  case (Cons submit submits)
  let ?cmds = "case pCommandBuffers submit of None \<Rightarrow> [] | Some cmds \<Rightarrow> cmds"
  have "submit_cmds vk ?cmds g = (None, g\<lparr>m_frame_cmds := m_frame_cmds g @ ?cmds\<rparr>)"
    using Cons.prems by (intro submit_cmds_all) (auto simp: submit_list_def)
  moreover have "submit_list (submit # submits) = ?cmds @ submit_list submits"
    by (simp add: submit_list_def)
  moreover have "\<forall>cmd \<in> set (submit_list submits).
      submittable (g\<lparr>m_frame_cmds := m_frame_cmds g @ ?cmds\<rparr>) cmd"
    using Cons.prems by (simp add: calculation(2) submittable_def)
  ultimately show ?case
    using Cons.IH [of "g\<lparr>m_frame_cmds := m_frame_cmds g @ ?cmds\<rparr>"] by simp
qed (simp add: submit_list_def)

end
