(* ===== verification/Gpu_Report.thy ===== *)
theory Gpu_Report
  imports Gpu_Time
begin

text \<open>
  \<^verbatim>\<open>GPUTime::GetStatsString\<close> and \<^verbatim>\<open>GPUTime::GetStatsCSVString\<close> (\<^verbatim>\<open>gpu_time/gpu_time.cpp\<close>). Both walk over
  the command buffers and their render passes with a running render pass index; the walk is the
  list of rows, and the two formats print a row each in their own way.
\<close>

section \<open>Printing numbers\<close>

text \<open>\<^verbatim>\<open>std::fixed\<close> with \<^verbatim>\<open>std::setprecision\<close>: round to nearest, ties to even.\<close>

definition round_even :: "real \<Rightarrow> int" where
  "round_even x =
    (let f = \<lfloor>x\<rfloor>; r = x - of_int f in
     if r < 1 / 2 then f else if r > 1 / 2 then f + 1 else if even f then f else f + 1)"

definition pad_zeros :: "nat \<Rightarrow> string \<Rightarrow> string" where
  "pad_zeros n s = replicate (n - length s) (CHR ''0'') @ s"

definition show_fixed :: "nat \<Rightarrow> real \<Rightarrow> string" where
  "show_fixed p x =
    (let n = nat (round_even (\<bar>x\<bar> * 10 ^ p)) in
     (if x < 0 then ''-'' else []) @ show_nat (n div 10 ^ p) @ ''.'' @ pad_zeros p (show_nat (n mod 10 ^ p)))"

section \<open>The walk\<close>

datatype report_row =
    CmdRow nat Stats
  | PassRow nat Stats

fun pass_rows :: "FrameMetrics \<Rightarrow> nat \<Rightarrow> nat \<Rightarrow> report_row list" where
  "pass_rows fm renderpass_index 0 = []"
| "pass_rows fm renderpass_index (Suc n) =
    PassRow renderpass_index (GetFrameRenderPassTimeStats renderpass_index fm) #
    pass_rows fm (renderpass_index + 1) n"

text \<open>The rows of the command buffers from \<open>i\<close> on, of which \<open>n\<close> are left.\<close>

fun cmd_rows :: "FrameMetrics \<Rightarrow> nat \<Rightarrow> nat \<Rightarrow> nat \<Rightarrow> report_row list" where
  "cmd_rows fm i renderpass_index 0 = []"
| "cmd_rows fm i renderpass_index (Suc n) =
    (let renderpass_count = GetCmdRenderPassCount i fm in
     CmdRow i (GetFrameCmdTimeStats i fm) # pass_rows fm renderpass_index renderpass_count @
     cmd_rows fm (i + 1) (renderpass_index + renderpass_count) n)"

definition report_rows :: "FrameMetrics \<Rightarrow> report_row list" where
  "report_rows fm = cmd_rows fm 0 0 (GetFrameCmdCount fm)"

definition PopulateStatsString :: "Stats \<Rightarrow> nat \<Rightarrow> string" where
  "PopulateStatsString stats nLevel =
    (let indent = replicate nLevel (CHR 0x09) in
     indent @ ''  Mean: '' @ show_fixed 2 (average stats) @ '' ms'' @ [CHR 0x0A] @
     indent @ ''  Median: '' @ show_fixed 2 (median stats) @ '' ms'' @ [CHR 0x0A])"

fun stats_row :: "report_row \<Rightarrow> string" where
  "stats_row (CmdRow i stats) =
    [CHR 0x09] @ ''CommandBuffer'' @ show_nat i @ '': '' @ [CHR 0x0A] @ PopulateStatsString stats 1"
| "stats_row (PassRow i stats) =
    [CHR 0x09, CHR 0x09] @ ''RenderPass'' @ show_nat i @ '': '' @ [CHR 0x0A] @ PopulateStatsString stats 2"

definition GetStatsString :: "GPUTime \<Rightarrow> string" where
  "GetStatsString g =
    ''Frame '' @ show_nat (unat (m_frame_index g)) @ '' processed successfully.'' @ [CHR 0x0A] @
    ''FrameMetrics:'' @ [CHR 0x0A] @ PopulateStatsString (GetFrameTimeStats (m_metrics g)) 0 @
    ''Command Buffer Metrics:'' @ [CHR 0x0A] @ concat (map stats_row (report_rows (m_metrics g)))"

definition csv_line :: "string \<Rightarrow> nat \<Rightarrow> Stats \<Rightarrow> string" where
  "csv_line kind i stats =
    kind @ '','' @ show_nat i @ '','' @ show_fixed 3 (average stats) @ '','' @
    show_fixed 3 (median stats) @ [CHR 0x0A]"

fun csv_row :: "report_row \<Rightarrow> string" where
  "csv_row (CmdRow i stats) = csv_line ''CommandBuffer'' i stats"
| "csv_row (PassRow i stats) = csv_line ''RenderPass'' i stats"

definition GetStatsCSVString :: "GPUTime \<Rightarrow> string" where
  "GetStatsCSVString g =
    csv_line ''Frame'' (unat (m_frame_index g)) (GetFrameTimeStats (m_metrics g)) @
    concat (map csv_row (report_rows (m_metrics g)))"

section \<open>The rows of a history\<close>

text \<open>
  What a report is about: the frames of the current window, with command buffer \<open>i\<close>, and render pass
  \<open>j\<close> of command buffer \<open>i\<close>, of each of them. In a report every command buffer is followed by its
  render passes, which are numbered through the frame.
\<close>

definition cmd_stats :: "timed_frame list \<Rightarrow> nat \<Rightarrow> Stats" where
  "cmd_stats w i = GetStatistics (map (\<lambda>f. fst (snd f ! i)) w)"

definition pass_stats :: "timed_frame list \<Rightarrow> nat \<Rightarrow> nat \<Rightarrow> Stats" where
  "pass_stats w i j = GetStatistics (map (\<lambda>f. snd (snd f ! i) ! j) w)"

definition nested_rows :: "nat list \<Rightarrow> timed_frame list \<Rightarrow> report_row list" where
  "nested_rows counts w =
    concat (map (\<lambda>i. CmdRow i (cmd_stats w i) #
      map (\<lambda>j. PassRow (sum_list (take i counts) + j) (pass_stats w i j)) [0..<counts ! i]) [0..<length counts])"

text \<open>
  The code splits the render passes of a frame by the counts it has kept, whatever command buffers
  they belong to.
\<close>

definition split_rows :: "nat list \<Rightarrow> timed_frame list \<Rightarrow> report_row list" where
  "split_rows counts w =
    concat (map (\<lambda>i. CmdRow i (cmd_stats w i) #
      map (\<lambda>j. PassRow (sum_list (take i counts) + j)
          (GetStatistics (map (\<lambda>f. frame_passes f ! (sum_list (take i counts) + j)) w)))
        [0..<counts ! i]) [0..<length counts])"

lemma pass_rows_eq:
  "pass_rows fm i n = map (\<lambda>j. PassRow (i + j) (GetFrameRenderPassTimeStats (i + j) fm)) [0..<n]"
proof (induction fm i n rule: pass_rows.induct)
  case (2 fm i n)
  have "[0..<Suc n] = 0 # map Suc [0..<n]"
    by (simp add: map_Suc_upt upt_conv_Cons)
  with 2 show ?case by (simp add: comp_def)
qed simp

lemma cmd_rows_eq:
  "cmd_rows fm i rp n =
    concat (map (\<lambda>k. CmdRow (i + k) (GetFrameCmdTimeStats (i + k) fm) #
      pass_rows fm (rp + (\<Sum>l \<leftarrow> [0..<k]. GetCmdRenderPassCount (i + l) fm))
        (GetCmdRenderPassCount (i + k) fm)) [0..<n])"
proof (induction fm i rp n rule: cmd_rows.induct)
  case (2 fm i rp n)
  have upt: "[0..<Suc k] = 0 # map Suc [0..<k]" for k
    by (simp add: map_Suc_upt upt_conv_Cons)
  have "(\<Sum>l \<leftarrow> [0..<Suc k]. GetCmdRenderPassCount (i + l) fm) =
      GetCmdRenderPassCount i fm + (\<Sum>l \<leftarrow> [0..<k]. GetCmdRenderPassCount (Suc (i + l)) fm)" for k
    unfolding upt by (simp add: comp_def)
  with 2 show ?case
    unfolding upt [of n] by (simp add: Let_def comp_def add.assoc)
qed simp

lemma sum_counts_take:
  "k \<le> length (m_cmd_renderpass_count_vec fm) \<Longrightarrow>
     (\<Sum>l \<leftarrow> [0..<k]. GetCmdRenderPassCount l fm) = sum_list (take k (m_cmd_renderpass_count_vec fm))"
  by (rule arg_cong [where f = sum_list]) (auto intro!: nth_equalityI simp: GetCmdRenderPassCount_def)

lemma sum_take_nth_le: "i < length counts \<Longrightarrow> sum_list (take i counts) + counts ! i \<le> sum_list counts"
  for counts :: "nat list"
  by (metis append_take_drop_id le_add1 sum_list.append sum_list.Cons sum_list.Nil add_0_right
      take_Suc_conv_app_nth)

lemma history_rows:
  assumes "fs \<noteq> []"
  shows "report_rows (fold add_timed fs FrameMetrics_new) =
    split_rows (pass_counts (hd (current_run fs))) (current_window fs)"
proof -
  let ?fm = "fold add_timed fs FrameMetrics_new" and ?counts = "pass_counts (hd (current_run fs))"
  let ?w = "current_window fs"
  have same: "same_totals (last fs) (hd (current_run fs))"
    using last_current_run [OF assms] by (intro current_run_totals) simp
  have len: "length (m_cmd_time_vec ?fm) = length ?counts" "length (m_renderpass_time_vec ?fm) = sum_list ?counts"
    using history_lengths [OF assms] same by (simp_all add: sum_pass_counts same_totals_def)
  have cmd: "GetFrameCmdTimeStats i ?fm = cmd_stats ?w i" if "i < length ?counts" for i
  proof -
    have "i < length (snd f)" if "f \<in> set ?w" for f
      using that \<open>i < length ?counts\<close> same current_run_totals [of f fs]
      by (auto simp: current_window_def last_frames_def same_totals_def dest: in_set_dropD)
    then have "columns fr_cmds (length ?counts) (map flat_frame ?w) ! i = map (\<lambda>f. fst (snd f ! i)) ?w"
      using that by (simp add: columns_def)
    with that history_window [of fs] len show ?thesis
      by (simp add: GetFrameCmdTimeStats_def cmd_stats_def metrics_window_def)
  qed
  have pass: "GetFrameRenderPassTimeStats k ?fm = GetStatistics (map (\<lambda>f. frame_passes f ! k) ?w)"
    if "k < sum_list ?counts" for k
  proof -
    have "columns fr_passes (sum_list ?counts) (map flat_frame ?w) ! k = map (\<lambda>f. frame_passes f ! k) ?w"
      using that by (simp add: columns_def)
    with that history_window [of fs] len show ?thesis
      by (simp add: GetFrameRenderPassTimeStats_def metrics_window_def)
  qed
  have count: "GetCmdRenderPassCount i ?fm = ?counts ! i" if "i < length ?counts" for i
    using that history_counts [OF assms] by (simp add: GetCmdRenderPassCount_def)
  have first: "(\<Sum>l \<leftarrow> [0..<i]. GetCmdRenderPassCount l ?fm) = sum_list (take i ?counts)"
    if "i < length ?counts" for i
    using sum_counts_take [of i ?fm] that history_counts [OF assms] by simp
  have "CmdRow i (GetFrameCmdTimeStats i ?fm) #
      map (\<lambda>j. PassRow ((\<Sum>l \<leftarrow> [0..<i]. GetCmdRenderPassCount l ?fm) + j)
        (GetFrameRenderPassTimeStats ((\<Sum>l \<leftarrow> [0..<i]. GetCmdRenderPassCount l ?fm) + j) ?fm))
        [0..<GetCmdRenderPassCount i ?fm] =
    CmdRow i (cmd_stats ?w i) #
      map (\<lambda>j. PassRow (sum_list (take i ?counts) + j)
          (GetStatistics (map (\<lambda>f. frame_passes f ! (sum_list (take i ?counts) + j)) ?w)))
        [0..<?counts ! i]" if "i < length ?counts" for i
    unfolding count [OF that] first [OF that] cmd [OF that]
    by (intro arg_cong2 [where f = Cons] map_cong refl arg_cong2 [where f = PassRow] pass)
      (use sum_take_nth_le [OF that] in auto)
  then show ?thesis
    unfolding report_rows_def cmd_rows_eq split_rows_def GetFrameCmdCount_def len(1) pass_rows_eq
    by (intro arg_cong [where f = concat] map_cong) simp_all
qed

lemma nth_frame_passes:
  assumes "i < length (snd f)" and "j < length (snd (snd f ! i))"
  shows "frame_passes f ! (sum_list (take i (pass_counts f)) + j) = snd (snd f ! i) ! j"
proof -
  have "concat xss ! (sum_list (take i (map length xss)) + j) = xss ! i ! j"
    if "i < length xss" "j < length (xss ! i)" for xss :: "real list list"
    using that
  proof (induction xss arbitrary: i)
    case (Cons xs xss)
    then show ?case by (cases i) (simp_all add: nth_append)
  qed simp
  from this [of "map snd (snd f)"] assms show ?thesis
    by (simp add: frame_passes_def pass_counts_def)
qed

lemma split_rows_nested:
  assumes "\<forall>f \<in> set w. pass_counts f = counts"
  shows "split_rows counts w = nested_rows counts w"
  unfolding split_rows_def nested_rows_def
proof (intro arg_cong [where f = concat] map_cong refl)
  fix i assume "i \<in> set [0..<length counts]"
  then have "frame_passes f ! (sum_list (take i counts) + j) = snd (snd f ! i) ! j"
    if "f \<in> set w" "j < counts ! i" for f j
    using that assms nth_frame_passes [of i f j] by (auto simp: pass_counts_def)
  then show "CmdRow i (cmd_stats w i) #
      map (\<lambda>j. PassRow (sum_list (take i counts) + j)
          (GetStatistics (map (\<lambda>f. frame_passes f ! (sum_list (take i counts) + j)) w))) [0..<counts ! i] =
    CmdRow i (cmd_stats w i) #
      map (\<lambda>j. PassRow (sum_list (take i counts) + j) (pass_stats w i j)) [0..<counts ! i]"
    by (auto simp: pass_stats_def intro!: arg_cong [where f = GetStatistics])
qed

lemma window_in_run: "f \<in> set (current_window fs) \<Longrightarrow> f \<in> set (current_run fs)"
  by (auto simp: current_window_def last_frames_def dest: in_set_dropD)

end
