(* ===== verification/Gpu_Null_Device.thy ===== *)
theory Gpu_Null_Device
  imports Gpu_Report
begin

text \<open>
  A concrete set of Vulkan functions, to show that the assumptions on them can be met: a device that
  succeeds at everything and reports every timestamp as available, with the slot number times ten as
  its value.
\<close>

definition null_vk :: "unit vk" where
  "null_vk =
    \<lparr>vkCreateQueryPool = (\<lambda>device count allocator v. (VK_SUCCESS, 1, v)),
     vkResetQueryPool = (\<lambda>device query_pool first count v. v),
     vkDestroyQueryPool = (\<lambda>device query_pool allocator v. v),
     vkQueueWaitIdle = (\<lambda>queue v. v),
     vkDeviceWaitIdle = (\<lambda>device v. v),
     vkCmdWriteTimestamp = (\<lambda>cmd stage query_pool slot v. v),
     vkGetQueryPoolResults = (\<lambda>device query_pool ts v.
       (VK_SUCCESS, map (\<lambda>i. if odd i then 1 else word_of_nat (5 * i)) [0..<length ts], v)),
     sleep_for_ms = (\<lambda>n v. v),
     show_pointer = (\<lambda>p. show_nat p)\<rparr>"

lemma null_vk_laws [simp]: "query_laws null_vk"
  by (simp add: query_laws_def null_vk_def)

lemma healthy_new [simp]: "healthy GPUTime_new"
  by (simp add: healthy_def GPUTime_new_def find_cmd_def)

text \<open>A state with one recorded command buffer in the frame, holding the given render pass slots.\<close>

definition one_cmd :: "nat list \<Rightarrow> TimeStampSlotAllocator \<Rightarrow> GPUTime" where
  "one_cmd rps a =
     GPUTime_new\<lparr>m_enable := True, m_timestamp_allocator := a, m_frame_cmds := [9],
       m_cmds := [(9, \<lparr>renderpass_slots = rps, pool = 4, begin_timestamp_offset = 0,
         end_timestamp_offset = 1, usage_one_submit = False, reusable = False\<rparr>)]\<rparr>"

text \<open>An allocator with every slot taken.\<close>

definition full_allocator :: TimeStampSlotAllocator where
  "full_allocator = \<lparr>m_masks = replicate kNumBlocks (- 1), m_cur = 0\<rparr>"

lemma full_allocator_used: "used_slots full_allocator = {..<kTotalSlots}"
proof -
  have "bit (replicate kNumBlocks (- 1 :: u64) ! (s div kSlotsPerBlock)) (s mod kSlotsPerBlock)"
    if "s < kTotalSlots" for s
    using slot_block_less [OF that] by simp
  then show ?thesis
    by (auto simp: used_slots_def masks_used_def full_allocator_def)
qed

lemma full_allocator_inv: "alloc_inv full_allocator"
  by (simp add: alloc_inv_def full_allocator_def)

lemma one_cmd_inv:
  assumes "alloc_inv a" and "{0, 1} \<union> set rps \<subseteq> used_slots a" and "distinct (0 # 1 # rps)"
  shows "gpu_inv (one_cmd rps a)"
proof -
  have find: "find_cmd (one_cmd rps a) = [9 \<mapsto> \<lparr>renderpass_slots = rps, pool = 4,
      begin_timestamp_offset = 0, end_timestamp_offset = 1, usage_one_submit = False, reusable = False\<rparr>]"
    by (auto simp: find_cmd_def one_cmd_def fun_eq_iff)
  have "kInvalidIndex \<notin> used_slots a"
    using used_slots_bound [of a] kInvalidIndex_big by blast
  then have "slots_inv a (find_cmd (one_cmd rps a))"
    using assms unfolding find slots_inv_def
    by (auto simp: info_ok_def valid_slots_def cmd_slots_def kInvalidIndex_def)
  then show ?thesis
    using gpu_inv_new find by (simp add: gpu_inv_def one_cmd_def)
qed

end
