(* ===== verification/Pm4_Packet.thy ===== *)
theory Pm4_Packet
  imports Dive_Prelude "HOL-Library.Monad_Syntax"
begin

text \<open>
  PM4 packet headers and sizes of \<^verbatim>\<open>dive_core/common/emulate_pm4.{h,cpp}\<close>, and what the emulator uses
  of the code the build generates.

  A header is the 32-bit word of \<^verbatim>\<open>union Pm4Header\<close>; its bit fields are read from the low end, as the
  compilers for the supported targets lay them out. Packet numbers, packet structures and
  \<^verbatim>\<open>GetRegInfo\<close> come from headers that \<^verbatim>\<open>generateAdrenoHeader.py\<close> and \<^verbatim>\<open>generatePm4Info_adreno.py\<close>
  generate from register descriptions; they are the parameter \<open>pm4_isa\<close>.

  Shown here: \<^verbatim>\<open>CalcParity\<close> is the odd parity of all 32 bits; packet sizes are bounded, and
  positive exactly for the packet types the emulator knows.
\<close>

section \<open>Generated definitions\<close>

datatype pm4_op =
    CP_SET_MARKER | CP_CONTEXT_REG_BUNCH | CP_INDIRECT_BUFFER_PFE | CP_INDIRECT_BUFFER_PFD
  | CP_INDIRECT_BUFFER_CHAIN | CP_SET_AMBLE | CP_SET_DRAW_STATE | CP_START_BIN | CP_END_BIN
  | CP_FIXED_STRIDE_DRAW_TABLE | CP_EXEC_CS_INDIRECT | CP_EXEC_CS | CP_DRAW_INDX
  | CP_DRAW_INDX_OFFSET | CP_DRAW_INDIRECT | CP_DRAW_INDX_INDIRECT | CP_DRAW_INDIRECT_MULTI
  | CP_DRAW_AUTO

datatype a6xx_marker =
    RM6_DIRECT_RENDER | RM6_BIN_VISIBILITY | RM6_BIN_DIRECT | RM6_BIN_RENDER_START
  | RM6_BIN_END_OF_DRAWS | RM6_BIN_RESOLVE | RM6_COMPUTE | RM6_BIN_RENDER_END

record draw_state_element =
  ds_COUNT :: u32
  ds_DISABLE :: bool
  ds_DISABLE_ALL_GROUPS :: bool
  ds_BINNING :: u32
  ds_GMEM :: u32
  ds_SYSMEM :: u32
  ds_ADDR :: u64

text \<open>
  \<open>isa_op\<close> and \<open>isa_marker\<close> are the numbers of the enumerators, \<open>isa_reg_is_64\<close> is
  \<^verbatim>\<open>GetRegInfo(reg)->m_is_64_bit\<close> (\<open>None\<close> for a null pointer). For every packet structure there is its
  size in bytes and how its fields are read from its bytes.
\<close>

record pm4_isa =
  isa_op :: "pm4_op \<Rightarrow> u32"
  isa_marker :: "a6xx_marker \<Rightarrow> u32"
  isa_reg_is_64 :: "u32 \<Rightarrow> bool option"
  sizeof_set_marker :: nat
  set_marker_dword :: "buffer \<Rightarrow> u32"
  sizeof_indirect_buffer :: nat
  indirect_buffer_fields :: "buffer \<Rightarrow> u64 \<times> u32"
  sizeof_set_amble :: nat
  set_amble_fields :: "buffer \<Rightarrow> u64 \<times> u32"
  sizeof_set_draw_state :: nat
  sizeof_draw_state_element :: nat
  draw_state_fields :: "buffer \<Rightarrow> draw_state_element"
  sizeof_start_bin :: nat
  start_bin_fields :: "buffer \<Rightarrow> u32 \<times> u64 \<times> u32"
  sizeof_fixed_stride_draw_table :: nat
  fixed_stride_draw_table_fields :: "buffer \<Rightarrow> u64 \<times> u32 \<times> u32"

section \<open>Headers\<close>

type_synonym Pm4Header = u32

definition header_type :: "Pm4Header \<Rightarrow> u32" where
  "header_type h = drop_bit 28 h"

definition type4_count :: "Pm4Header \<Rightarrow> u32" where
  "type4_count h = h AND 0x7f"

definition type4_count_parity :: "Pm4Header \<Rightarrow> u32" where
  "type4_count_parity h = drop_bit 7 h AND 1"

definition type4_offset :: "Pm4Header \<Rightarrow> u32" where
  "type4_offset h = drop_bit 8 h AND 0x7ffff"

definition type4_offset_parity :: "Pm4Header \<Rightarrow> u32" where
  "type4_offset_parity h = drop_bit 27 h AND 1"

definition type7_count :: "Pm4Header \<Rightarrow> u32" where
  "type7_count h = h AND 0x7fff"

definition type7_count_parity :: "Pm4Header \<Rightarrow> u32" where
  "type7_count_parity h = drop_bit 15 h AND 1"

definition type7_opcode :: "Pm4Header \<Rightarrow> u32" where
  "type7_opcode h = drop_bit 16 h AND 0x7f"

definition type7_opcode_parity :: "Pm4Header \<Rightarrow> u32" where
  "type7_opcode_parity h = drop_bit 23 h AND 1"

definition type7_zeroes :: "Pm4Header \<Rightarrow> u32" where
  "type7_zeroes h = drop_bit 24 h AND 0xf"

definition is_op :: "pm4_isa \<Rightarrow> Pm4Header \<Rightarrow> pm4_op \<Rightarrow> bool" where
  "is_op isa h op \<longleftrightarrow> header_type h = 7 \<and> type7_opcode h = isa_op isa op"

text \<open>A 32-bit word as the little-endian targets store it.\<close>

definition le32 :: "buffer \<Rightarrow> u32" where
  "le32 bs = ucast (bs ! 0) OR push_bit 8 (ucast (bs ! 1)) OR push_bit 16 (ucast (bs ! 2)) OR
     push_bit 24 (ucast (bs ! 3))"

definition le32_bytes :: "u32 \<Rightarrow> buffer" where
  "le32_bytes w = [ucast w, ucast (drop_bit 8 w), ucast (drop_bit 16 w), ucast (drop_bit 24 w)]"

definition CalcParity :: "u32 \<Rightarrow> u32" where
  "CalcParity val =
    (let val = val XOR drop_bit 16 val;
         val = val XOR drop_bit 8 val;
         val = val XOR drop_bit 4 val;
         val = val AND 0xf
     in drop_bit (unat val) (NOT 0x6996) AND 1)"

definition bits_set :: "u32 \<Rightarrow> nat" where
  "bits_set val = length (filter (bit val) [0..<32])"

text \<open>The validity test of \<^verbatim>\<open>ExecuteSubmit\<close>.\<close>

definition valid_header :: "Pm4Header \<Rightarrow> bool" where
  "valid_header h \<longleftrightarrow>
     (if header_type h = 4
      then type4_offset_parity h = CalcParity (type4_offset h) \<and>
           type4_count_parity h = CalcParity (type4_count h)
      else if header_type h = 7
      then type7_opcode_parity h = CalcParity (type7_opcode h) \<and>
           type7_count_parity h = CalcParity (type7_count h) \<and> type7_zeroes h = 0
      else True)"

text \<open>
  \<^verbatim>\<open>GetPacketSize\<close> asserts that the type is known and returns 0 otherwise; a failing assertion ends a
  debug build (\<open>None\<close>) and does nothing in a release build.
\<close>

definition GetPacketSize :: "bool \<Rightarrow> Pm4Header \<Rightarrow> u32 option" where
  "GetPacketSize debug h =
    (if header_type h = 2 then Some 1
     else if header_type h = 4 then Some (type4_count h + 1)
     else if header_type h = 7 then Some (type7_count h + 1)
     else if debug then None else Some 0)"

definition IsDispatchEventOpcode :: "pm4_isa \<Rightarrow> u32 \<Rightarrow> bool" where
  "IsDispatchEventOpcode isa opcode \<longleftrightarrow>
     (\<exists>op \<in> set [CP_EXEC_CS_INDIRECT, CP_EXEC_CS]. opcode = isa_op isa op)"

definition IsDrawEventOpcode :: "pm4_isa \<Rightarrow> u32 \<Rightarrow> bool" where
  "IsDrawEventOpcode isa opcode \<longleftrightarrow>
     (\<exists>op \<in> set [CP_DRAW_INDX, CP_DRAW_INDX_OFFSET, CP_DRAW_INDIRECT, CP_DRAW_INDX_INDIRECT,
        CP_DRAW_INDIRECT_MULTI, CP_DRAW_AUTO]. opcode = isa_op isa op)"

definition IsDrawDispatchEventOpcode :: "pm4_isa \<Rightarrow> u32 \<Rightarrow> bool" where
  "IsDrawDispatchEventOpcode isa opcode \<longleftrightarrow> IsDrawEventOpcode isa opcode \<or> IsDispatchEventOpcode isa opcode"

section \<open>Words\<close>

lemma length_le32_bytes [simp]: "length (le32_bytes w) = 4"
  by (simp add: le32_bytes_def)

lemma le32_bytes_inverse [simp]: "le32 (le32_bytes w) = w"
proof (rule bit_word_eqI)
  fix n assume n: "n < LENGTH(32)"
  consider "n < 8" | "8 \<le> n" "n < 16" | "16 \<le> n" "n < 24" | "24 \<le> n"
    by linarith
  then show "bit (le32 (le32_bytes w)) n = bit w n"
    using n by cases (auto simp: le32_def le32_bytes_def bit_simps)
qed

section \<open>Parity\<close>

lemma odd_length_filter_xor:
  "odd (length (filter (\<lambda>x. P x \<noteq> Q x) xs)) = (odd (length (filter P xs)) \<noteq> odd (length (filter Q xs)))"
  by (induction xs) auto

lemma odd_filter_fold:
  "odd (length (filter P [0..<k + k])) = odd (length (filter (\<lambda>i. P i \<noteq> P (i + k)) [0..<k]))"
proof -
  have "[0..<k + k] = [0..<k] @ map (\<lambda>i. i + k) [0..<k]"
    using upt_add_eq_append [of 0 k k] by (simp add: map_add_upt add.commute)
  then show ?thesis
    unfolding odd_length_filter_xor by (simp add: filter_map comp_def)
qed

lemma word_below_16:
  assumes "(w :: u32) \<le> 15"
  shows "w \<in> set [0, 1, 2, 3, 4, 5, 6, 7, 8, 9, 10, 11, 12, 13, 14, 15]"
proof -
  have "unat w \<le> 15"
    using assms by (simp add: word_le_nat_alt)
  then have "unat w \<in> set [0..<16]"
    by simp
  moreover have "[0..<16] = [0, 1, 2, 3, 4, 5, 6, 7, 8, 9, 10, 11, 12, 13, 14, 15]"
    by (simp add: upt_rec)
  ultimately have "unat w \<in> set [0, 1, 2, 3, 4, 5, 6, 7, 8, 9, 10, 11, 12, 13, 14, 15]"
    by (simp only:)
  then have "word_of_nat (unat w) \<in> set (map word_of_nat [0, 1, 2, 3, 4, 5, 6, 7, 8, 9, 10, 11, 12, 13, 14, 15] :: u32 list)"
    by (simp only: set_map image_eqI [OF refl])
  then show ?thesis
    by simp
qed

lemma parity_nibble:
  assumes "w \<le> 15"
  shows "drop_bit (unat (w :: u32)) (NOT (0x6996 :: u32)) AND 1 = 
   (if odd (length (filter (bit w) [0..<4])) then 0 else 1)"
  using word_below_16 [OF assms] by (auto simp: upt_rec)

lemma bit_nibble: "i < 4 \<Longrightarrow> bit ((w :: u32) AND 15) i = bit w i"
  by (auto simp: bit_and_iff less_Suc_eq numeral_eq_Suc)

lemma CalcParity_eq: "CalcParity v = (if odd (bits_set v) then 0 else 1)"
proof -
  define a where "a = v XOR drop_bit 16 v"
  define b where "b = a XOR drop_bit 8 a"
  define c where "c = b XOR drop_bit 4 b"
  have xor: "bit (w XOR drop_bit k w) = (\<lambda>i. bit w i \<noteq> bit w (i + k))" for w :: u32 and k
    by (auto simp: fun_eq_iff bit_xor_iff bit_drop_bit_eq add.commute)
  have "odd (bits_set v) = odd (length (filter (bit a) [0..<16]))"
    using odd_filter_fold [of "bit v" 16] unfolding bits_set_def a_def xor by simp
  also have "\<dots> = odd (length (filter (bit b) [0..<8]))"
    using odd_filter_fold [of "bit a" 8] unfolding b_def xor by simp
  also have "\<dots> = odd (length (filter (bit c) [0..<4]))"
    using odd_filter_fold [of "bit b" 4] unfolding c_def xor by simp
  also have "filter (bit c) [0..<4] = filter (bit (c AND 15)) [0..<4]"
    by (rule filter_cong) (simp_all add: bit_nibble)
  finally show ?thesis
    using parity_nibble [OF word_and_le1 [of c 15]]
    by (simp add: CalcParity_def Let_def a_def b_def c_def)
qed

section \<open>Packet sizes\<close>

lemma type4_count_le: "unat (type4_count h) \<le> 127"
  using word_and_le1 [of h "0x7f"] by (simp add: type4_count_def word_le_nat_alt)

lemma type7_count_le: "unat (type7_count h) \<le> 32767"
  using word_and_le1 [of h "0x7fff"] by (simp add: type7_count_def word_le_nat_alt)

definition known_type :: "Pm4Header \<Rightarrow> bool" where
  "known_type h \<longleftrightarrow> header_type h = 2 \<or> header_type h = 4 \<or> header_type h = 7"

lemma GetPacketSize_known:
  assumes "known_type h"
  obtains n where "GetPacketSize debug h = Some n" "1 \<le> unat n" "unat n \<le> 2 ^ 15"
proof -
  consider "header_type h = 2" | "header_type h = 4" | "header_type h = 7"
    using assms by (auto simp: known_type_def)
  then show thesis
  proof cases
    case 1
    then show thesis
      using that [of 1] by (simp add: GetPacketSize_def)
  next
    case 2
    then show thesis
      using that [of "type4_count h + 1"] type4_count_le [of h]
      by (simp add: GetPacketSize_def unat_word_ariths)
  next
    case 3
    then show thesis
      using that [of "type7_count h + 1"] type7_count_le [of h]
      by (simp add: GetPacketSize_def unat_word_ariths)
  qed
qed

lemma GetPacketSize_unknown:
  "\<not> known_type h \<Longrightarrow> GetPacketSize debug h = (if debug then None else Some 0)"
  by (simp add: GetPacketSize_def known_type_def)

end
