(* ===== verification/Pm4_State_Tracker.thy ===== *)
theory Pm4_State_Tracker
  imports Pm4_Packet
begin

text \<open>
  The register file of \<^verbatim>\<open>dive_core/common/emulate_pm4.cpp\<close>: class \<^verbatim>\<open>EmulateStateTracker\<close>.

  The tracker keeps three copies of the register file, one per rendering mode, and a bit per register
  that tells whether it was written; the bits are kept in bytes as in the code. A stack of enable masks
  selects which copies a write goes to. Accesses outside the arrays are undefined (\<open>None\<close>), as is a
  failing assertion of a debug build.

  The locale \<open>memory_reader\<close> is what the tracker and the emulator rely on when they read captured
  memory: reading a range whose content is known succeeds with that content.
\<close>

section \<open>Reading memory\<close>

text \<open>\<^verbatim>\<open>IMemoryManager\<close>; reading may change the reader's cache, and may be undefined.\<close>

type_synonym 'm retriever = "buffer \<Rightarrow> u32 \<Rightarrow> u64 \<Rightarrow> u64 \<Rightarrow> 'm \<Rightarrow> (bool \<times> buffer \<times> 'm) option"

text \<open>
  \<^verbatim>\<open>DIVE_VERIFY(RetrieveMemoryData(&packet, ...))\<close> into a zero-initialised structure of \<open>struct_size\<close> bytes:
  copying more than the structure holds is undefined, and a failed read leaves what was copied.
\<close>

definition read_struct ::
    "bool \<Rightarrow> 'm retriever \<Rightarrow> u32 \<Rightarrow> u64 \<Rightarrow> nat \<Rightarrow> nat \<Rightarrow> 'm \<Rightarrow> (buffer \<times> 'm) option" where
  "read_struct debug retrieve submit_index va_addr struct_size nbytes m =
    (if nbytes > struct_size then None
     else do {
       (ok, bs, m) \<leftarrow> retrieve (replicate nbytes 0) submit_index va_addr (word_of_nat nbytes) m;
       DIVE_ASSERT debug ok;
       Some (bs @ replicate (struct_size - nbytes) 0, m)
     })"

locale memory_reader =
  fixes retrieve :: "'m retriever"
    and ok :: "'m \<Rightarrow> bool"
    and content :: "'m \<Rightarrow> u32 \<Rightarrow> nat \<Rightarrow> byte option"
  assumes retrieve_content:
    "\<lbrakk>ok m; n \<noteq> 0; unat va + unat n < 2 ^ 64; length buf = unat n; length bs = unat n;
      \<And>k. k < unat n \<Longrightarrow> content m s (unat va + k) = Some (bs ! k)\<rbrakk> \<Longrightarrow>
     \<exists>m'. retrieve buf s va n m = Some (True, bs, m') \<and> ok m' \<and> content m' = content m"
begin

definition holds_bytes :: "'m \<Rightarrow> u32 \<Rightarrow> u64 \<Rightarrow> buffer \<Rightarrow> bool" where
  "holds_bytes m s va bs \<longleftrightarrow> unat va + length bs < 2 ^ 64 \<and>
     (\<forall>k < length bs. content m s (unat va + k) = Some (bs ! k))"

lemma read_struct_content:
  assumes "ok m" "holds_bytes m s va bs" "bs \<noteq> []" "length bs \<le> struct_size"
  obtains m' where "read_struct debug retrieve s va struct_size (length bs) m =
      Some (bs @ replicate (struct_size - length bs) 0, m')"
    "ok m'" "content m' = content m"
proof -
  have len: "length bs < 2 ^ 64"
    using assms(2) by (simp add: holds_bytes_def)
  then have n: "unat (word_of_nat (length bs) :: u64) = length bs"
    by (simp add: unat_of_nat)
  have nz: "(word_of_nat (length bs) :: u64) \<noteq> 0"
    using n assms(3) by (metis length_0_conv unsigned_0)
  obtain m' where "retrieve (replicate (length bs) 0) s va (word_of_nat (length bs)) m = Some (True, bs, m')"
      "ok m'" "content m' = content m"
    using retrieve_content [OF assms(1) nz, of va "replicate (length bs) 0" bs s] assms(2) n
    by (auto simp: holds_bytes_def)
  then show thesis
    using that assms(4) by (simp add: read_struct_def)
qed

end

section \<open>State\<close>

datatype ShaderEnableBit = kBINNING | kGMEM | kSYSMEM

definition enable_bit :: "ShaderEnableBit \<Rightarrow> nat" where
  "enable_bit b = (case b of kBINNING \<Rightarrow> 0 | kGMEM \<Rightarrow> 1 | kSYSMEM \<Rightarrow> 2)"

definition kShaderEnableBitCount :: nat where
  "kShaderEnableBitCount = 3"

definition kNumRegs :: nat where
  "kNumRegs = 0xffff + 1"

record EmulateStateTracker =
  m_reg :: "nat \<Rightarrow> nat \<Rightarrow> u32"
  m_reg_is_set :: "nat \<Rightarrow> nat \<Rightarrow> byte"
  m_enable_mask :: u32
  m_enable_mask_stack :: "u32 list"
  m_shader_enable_bit :: "ShaderEnableBit option"

definition EmulateStateTracker_new :: EmulateStateTracker where
  "EmulateStateTracker_new =
    \<lparr>m_reg = (\<lambda>_ _. 0), m_reg_is_set = (\<lambda>_ _. 0), m_enable_mask = push_bit kShaderEnableBitCount 1 - 1,
     m_enable_mask_stack = [], m_shader_enable_bit = None\<rparr>"

definition EmulateStateTracker_Reset :: "EmulateStateTracker \<Rightarrow> EmulateStateTracker" where
  "EmulateStateTracker_Reset tr =
    tr\<lparr>m_reg := (\<lambda>_ _. 0), m_reg_is_set := (\<lambda>_ _. 0), m_shader_enable_bit := None\<rparr>"

text \<open>The stack's back is the end of the list; popping an empty stack is undefined.\<close>

definition PushEnableMask :: "u32 \<Rightarrow> EmulateStateTracker \<Rightarrow> EmulateStateTracker" where
  "PushEnableMask enable_mask tr =
    tr\<lparr>m_enable_mask_stack := m_enable_mask_stack tr @ [m_enable_mask tr], m_enable_mask := enable_mask\<rparr>"

definition PopEnableMask :: "EmulateStateTracker \<Rightarrow> EmulateStateTracker option" where
  "PopEnableMask tr =
    (if m_enable_mask_stack tr = [] then None
     else Some (tr\<lparr>m_enable_mask := last (m_enable_mask_stack tr),
                   m_enable_mask_stack := butlast (m_enable_mask_stack tr)\<rparr>))"

section \<open>Registers\<close>

definition write_reg :: "nat \<Rightarrow> nat \<Rightarrow> u32 \<Rightarrow> EmulateStateTracker \<Rightarrow> EmulateStateTracker" where
  "write_reg i offset value tr =
    tr\<lparr>m_reg := (m_reg tr)(i := (m_reg tr i)(offset := value)),
       m_reg_is_set := (m_reg_is_set tr)
         (i := (m_reg_is_set tr i)
            (offset div 8 := m_reg_is_set tr i (offset div 8) OR push_bit (offset mod 8) 1))\<rparr>"

fun set_reg_loop :: "nat \<Rightarrow> nat \<Rightarrow> u32 \<Rightarrow> EmulateStateTracker \<Rightarrow> EmulateStateTracker option" where
  "set_reg_loop 0 offset value tr = Some tr"
| "set_reg_loop (Suc n) offset value tr =
    (let i = kShaderEnableBitCount - Suc n in
     if m_enable_mask tr AND push_bit i 1 \<noteq> 0
     then if offset \<ge> kNumRegs then None
          else set_reg_loop n offset value (write_reg i offset value tr)
     else set_reg_loop n offset value tr)"

definition SetReg :: "u32 \<Rightarrow> u32 \<Rightarrow> EmulateStateTracker \<Rightarrow> EmulateStateTracker option" where
  "SetReg offset value tr = set_reg_loop kShaderEnableBitCount (unat offset) value tr"

definition GetRegValue :: "u32 \<Rightarrow> ShaderEnableBit \<Rightarrow> EmulateStateTracker \<Rightarrow> u32 option" where
  "GetRegValue offset shader_enable_bit tr =
    (if unat offset \<ge> kNumRegs then None else Some (m_reg tr (enable_bit shader_enable_bit) (unat offset)))"

definition GetReg64Value :: "u32 \<Rightarrow> ShaderEnableBit \<Rightarrow> EmulateStateTracker \<Rightarrow> u64 option" where
  "GetReg64Value offset shader_enable_bit tr =
    do {
      lo \<leftarrow> GetRegValue offset shader_enable_bit tr;
      hi \<leftarrow> GetRegValue (offset + 1) shader_enable_bit tr;
      Some (ucast lo OR push_bit 32 (ucast hi))
    }"

text \<open>The array of flag bytes has one byte more than the registers need.\<close>

definition IsRegSet :: "u32 \<Rightarrow> ShaderEnableBit \<Rightarrow> EmulateStateTracker \<Rightarrow> bool option" where
  "IsRegSet offset shader_enable_bit tr =
    (if unat offset div 8 \<ge> kNumRegs div 8 + 1 then None
     else Some (m_reg_is_set tr (enable_bit shader_enable_bit) (unat offset div 8) AND
                push_bit (unat offset mod 8) 1 \<noteq> 0))"

text \<open>The variants without a mode use the current one; there must be one.\<close>

definition GetRegValue_current :: "u32 \<Rightarrow> EmulateStateTracker \<Rightarrow> u32 option" where
  "GetRegValue_current offset tr = Option.bind (m_shader_enable_bit tr) (\<lambda>b. GetRegValue offset b tr)"

definition GetReg64Value_current :: "u32 \<Rightarrow> EmulateStateTracker \<Rightarrow> u64 option" where
  "GetReg64Value_current offset tr = Option.bind (m_shader_enable_bit tr) (\<lambda>b. GetReg64Value offset b tr)"

definition IsRegSet_current :: "u32 \<Rightarrow> EmulateStateTracker \<Rightarrow> bool option" where
  "IsRegSet_current offset tr = Option.bind (m_shader_enable_bit tr) (\<lambda>b. IsRegSet offset b tr)"

datatype ShaderStage =
  kShaderStageCs | kShaderStageGs | kShaderStageHs | kShaderStagePs | kShaderStageVs | kShaderStageCount

definition shader_offset :: "ShaderStage \<Rightarrow> u32 option" where
  "shader_offset stage =
    (case stage of
       kShaderStageCs \<Rightarrow> Some 0xa9b4 | kShaderStageGs \<Rightarrow> Some 0xa88d | kShaderStageHs \<Rightarrow> Some 0xa834
     | kShaderStagePs \<Rightarrow> Some 0xa983 | kShaderStageVs \<Rightarrow> Some 0xa81c | kShaderStageCount \<Rightarrow> None)"

definition GetCurShaderAddr :: "ShaderStage \<Rightarrow> ShaderEnableBit \<Rightarrow> EmulateStateTracker \<Rightarrow> u64 option" where
  "GetCurShaderAddr stage shader_enable_bit tr =
    (case shader_offset stage of
       None \<Rightarrow> Some (- 1)
     | Some offset \<Rightarrow>
         do {
           is_set \<leftarrow> IsRegSet offset shader_enable_bit tr;
           if \<not> is_set then Some (- 1) else GetReg64Value offset shader_enable_bit tr
         })"

section \<open>Packets\<close>

text \<open>The switch on the render mode a \<^verbatim>\<open>CP_SET_MARKER\<close> announces.\<close>

definition marker_mode :: "pm4_isa \<Rightarrow> u32 \<Rightarrow> ShaderEnableBit option \<Rightarrow> ShaderEnableBit option" where
  "marker_mode isa marker mode =
    (if marker = isa_marker isa RM6_DIRECT_RENDER then Some kSYSMEM
     else if marker = isa_marker isa RM6_BIN_VISIBILITY \<or> marker = isa_marker isa RM6_BIN_DIRECT
     then Some kBINNING
     else if marker = isa_marker isa RM6_BIN_RENDER_START then Some kGMEM
     else if marker = isa_marker isa RM6_BIN_END_OF_DRAWS then None
     else if marker = isa_marker isa RM6_BIN_RESOLVE then Some kGMEM
     else if marker = isa_marker isa RM6_COMPUTE then mode
     else if marker = isa_marker isa RM6_BIN_RENDER_END then None
     else mode)"

definition is_64_bit :: "pm4_isa \<Rightarrow> u32 \<Rightarrow> bool" where
  "is_64_bit isa reg \<longleftrightarrow> isa_reg_is_64 isa reg = Some True"

text \<open>The loop over the register pairs of a \<^verbatim>\<open>CP_CONTEXT_REG_BUNCH\<close>.\<close>

function reg_bunch_loop ::
    "bool \<Rightarrow> pm4_isa \<Rightarrow> 'm retriever \<Rightarrow> u32 \<Rightarrow> u64 \<Rightarrow> nat \<Rightarrow> nat \<Rightarrow> EmulateStateTracker \<Rightarrow> 'm \<Rightarrow>
     (EmulateStateTracker \<times> 'm) option" where
  "reg_bunch_loop debug isa retrieve submit_index va_addr count dword tr m =
    (if dword < count
     then do {
       (pair, m) \<leftarrow> read_struct debug retrieve submit_index (va_addr + 4 + word_of_nat dword * 4) 8 8 m;
       tr \<leftarrow> SetReg (le32 pair) (le32 (drop 4 pair)) tr;
       if is_64_bit isa (le32 pair)
       then do {
         (new_pair, m) \<leftarrow>
           read_struct debug retrieve submit_index (va_addr + 4 + word_of_nat (dword + 2) * 4) 8 8 m;
         if le32 new_pair = le32 pair + 1
         then do {
           tr \<leftarrow> SetReg (le32 new_pair) (le32 (drop 4 new_pair)) tr;
           reg_bunch_loop debug isa retrieve submit_index va_addr count (dword + 4) tr m
         }
         else reg_bunch_loop debug isa retrieve submit_index va_addr count (dword + 2) tr m
       }
       else reg_bunch_loop debug isa retrieve submit_index va_addr count (dword + 2) tr m
     }
     else Some (tr, m))"
  by pat_completeness auto

termination
  by (relation "measure (\<lambda>(debug, isa, retrieve, submit_index, va_addr, count, dword, tr, m). count - dword)")
    auto

declare reg_bunch_loop.simps [simp del]

text \<open>The inner and the outer loop of a type 4 packet.\<close>

fun reg_value_loop ::
    "bool \<Rightarrow> 'm retriever \<Rightarrow> u32 \<Rightarrow> u64 \<Rightarrow> u32 \<Rightarrow> nat \<Rightarrow> nat \<Rightarrow> EmulateStateTracker \<Rightarrow> 'm \<Rightarrow>
     (EmulateStateTracker \<times> 'm) option" where
  "reg_value_loop debug retrieve submit_index reg_va_addr reg_offset i 0 tr m = Some (tr, m)"
| "reg_value_loop debug retrieve submit_index reg_va_addr reg_offset i (Suc n) tr m =
    do {
      (bs, m) \<leftarrow> read_struct debug retrieve submit_index (reg_va_addr + word_of_nat i * 4) 4 4 m;
      tr \<leftarrow> SetReg (reg_offset + word_of_nat i) (le32 bs) tr;
      reg_value_loop debug retrieve submit_index reg_va_addr reg_offset (i + 1) n tr m
    }"

function type4_loop ::
    "bool \<Rightarrow> pm4_isa \<Rightarrow> 'm retriever \<Rightarrow> u32 \<Rightarrow> u64 \<Rightarrow> u32 \<Rightarrow> nat \<Rightarrow> nat \<Rightarrow> EmulateStateTracker \<Rightarrow> 'm \<Rightarrow>
     (EmulateStateTracker \<times> 'm) option" where
  "type4_loop debug isa retrieve submit_index va_addr offset count dword tr m =
    (if dword < count
     then do {
       let reg_va_addr = va_addr + 4 + word_of_nat (4 * dword);
       let reg_offset = offset + word_of_nat dword;
       DIVE_ASSERT debug (unat reg_offset < kNumRegs);
       let size_in_dwords = (if is_64_bit isa reg_offset then 2 else 1);
       (tr, m) \<leftarrow> reg_value_loop debug retrieve submit_index reg_va_addr reg_offset 0 size_in_dwords tr m;
       type4_loop debug isa retrieve submit_index va_addr offset count (dword + size_in_dwords) tr m
     }
     else Some (tr, m))"
  by pat_completeness auto

termination
  by (relation "measure (\<lambda>(debug, isa, retrieve, submit_index, va_addr, offset, count, dword, tr, m). count - dword)")
    (auto split: if_splits)

declare type4_loop.simps [simp del]

definition EmulateStateTracker_OnPacket ::
    "bool \<Rightarrow> pm4_isa \<Rightarrow> 'm retriever \<Rightarrow> u32 \<Rightarrow> u64 \<Rightarrow> Pm4Header \<Rightarrow> EmulateStateTracker \<Rightarrow> 'm \<Rightarrow>
     (bool \<times> EmulateStateTracker \<times> 'm) option" where
  "EmulateStateTracker_OnPacket debug isa retrieve submit_index va_addr header tr m =
    do {
      (tr, m) \<leftarrow>
        (if is_op isa header CP_SET_MARKER
         then do {
           (packet, m) \<leftarrow>
             read_struct debug retrieve submit_index va_addr (sizeof_set_marker isa) (sizeof_set_marker isa) m;
           DIVE_ASSERT debug (set_marker_dword isa packet AND 0x100 = 0);
           Some (tr\<lparr>m_shader_enable_bit :=
                      marker_mode isa (set_marker_dword isa packet AND 0xf) (m_shader_enable_bit tr)\<rparr>, m)
         }
         else Some (tr, m));
      (tr, m) \<leftarrow>
        (if is_op isa header CP_CONTEXT_REG_BUNCH
         then reg_bunch_loop debug isa retrieve submit_index va_addr (unat (type7_count header)) 0 tr m
         else if header_type header = 4
         then type4_loop debug isa retrieve submit_index va_addr (type4_offset header)
                (unat (type4_count header)) 0 tr m
         else Some (tr, m));
      Some (True, tr, m)
    }"

section \<open>The register file as a map\<close>

definition reg_flag :: "EmulateStateTracker \<Rightarrow> nat \<Rightarrow> nat \<Rightarrow> bool" where
  "reg_flag tr i offset \<longleftrightarrow> bit (m_reg_is_set tr i (offset div 8)) (offset mod 8)"

definition reg_view :: "EmulateStateTracker \<Rightarrow> nat \<Rightarrow> nat \<Rightarrow> u32 option" where
  "reg_view tr i offset = (if reg_flag tr i offset then Some (m_reg tr i offset) else None)"

text \<open>What a write does to the map: the copies the emask enables get the value.\<close>

definition view_write ::
    "u32 \<Rightarrow> nat \<Rightarrow> u32 \<Rightarrow> (nat \<Rightarrow> nat \<Rightarrow> u32 option) \<Rightarrow> (nat \<Rightarrow> nat \<Rightarrow> u32 option)" where
  "view_write emask offset value view =
    (\<lambda>i p. if i < kShaderEnableBitCount \<and> bit emask i \<and> p = offset then Some value else view i p)"

fun view_writes ::
    "u32 \<Rightarrow> nat \<Rightarrow> u32 list \<Rightarrow> (nat \<Rightarrow> nat \<Rightarrow> u32 option) \<Rightarrow> (nat \<Rightarrow> nat \<Rightarrow> u32 option)" where
  "view_writes emask offset [] view = view"
| "view_writes emask offset (v # vs) view = view_writes emask (offset + 1) vs (view_write emask offset v view)"

definition same_modes :: "EmulateStateTracker \<Rightarrow> EmulateStateTracker \<Rightarrow> bool" where
  "same_modes tr tr' \<longleftrightarrow>
     m_enable_mask tr' = m_enable_mask tr \<and> m_enable_mask_stack tr' = m_enable_mask_stack tr \<and>
     m_shader_enable_bit tr' = m_shader_enable_bit tr"

lemma same_modes_refl [simp]: "same_modes tr tr"
  by (simp add: same_modes_def)

lemma same_modes_trans: "same_modes a b \<Longrightarrow> same_modes b c \<Longrightarrow> same_modes a c"
  by (simp add: same_modes_def)

lemma reg_flag_write:
  "reg_flag (write_reg i offset value tr) j p = (reg_flag tr j p \<or> j = i \<and> p = offset)"
proof (cases "j = i \<and> p div 8 = offset div 8")
  case True
  have "p = offset \<longleftrightarrow> p mod 8 = offset mod 8"
    using True by (metis mod_mult_div_eq)
  moreover have "p mod 8 < 8"
    by simp
  ultimately show ?thesis
    using True by (auto simp: reg_flag_def write_reg_def bit_or_iff bit_exp_iff)
next
  case False
  then show ?thesis
    by (auto simp: reg_flag_def write_reg_def)
qed

lemma reg_view_write:
  "reg_view (write_reg i offset value tr) j p = (if j = i \<and> p = offset then Some value else reg_view tr j p)"
  unfolding reg_view_def reg_flag_write by (auto simp: write_reg_def)

lemma same_modes_write [simp]: "same_modes tr (write_reg i offset value tr)"
  by (simp add: same_modes_def write_reg_def)

lemma set_reg_loop_view:
  assumes "offset < kNumRegs" "n \<le> kShaderEnableBitCount"
  shows "\<exists>tr'. set_reg_loop n offset value tr = Some tr' \<and> same_modes tr tr' \<and>
    (\<forall>i p. reg_view tr' i p =
       (if kShaderEnableBitCount - n \<le> i \<and> i < kShaderEnableBitCount \<and> bit (m_enable_mask tr) i \<and> p = offset
        then Some value else reg_view tr i p))"
  using assms(2)
proof (induction n arbitrary: tr)
  case 0
  then show ?case
    by auto
next
  case (Suc n)
  let ?i = "kShaderEnableBitCount - Suc n"
  let ?tr = "if bit (m_enable_mask tr) ?i then write_reg ?i offset value tr else tr"
  have i: "?i < 32" "kShaderEnableBitCount - n = Suc ?i" "?i < kShaderEnableBitCount"
    using Suc.prems by (simp_all add: kShaderEnableBitCount_def)
  obtain tr' where tr': "set_reg_loop n offset value ?tr = Some tr'" "same_modes ?tr tr'"
      "\<And>i p. reg_view tr' i p =
       (if kShaderEnableBitCount - n \<le> i \<and> i < kShaderEnableBitCount \<and> bit (m_enable_mask ?tr) i \<and> p = offset
        then Some value else reg_view ?tr i p)"
    using Suc.IH [of ?tr] Suc.prems by auto
  have emask: "m_enable_mask ?tr = m_enable_mask tr" and "same_modes tr ?tr"
    by (simp_all add: write_reg_def same_modes_def)
  have "set_reg_loop (Suc n) offset value tr = Some tr'"
    using tr'(1) assms(1) by (simp add: Let_def and_exp_eq_0_iff_not_bit split: if_splits)
  moreover have "reg_view tr' j p =
      (if ?i \<le> j \<and> j < kShaderEnableBitCount \<and> bit (m_enable_mask tr) j \<and> p = offset
       then Some value else reg_view tr j p)" for j p
    unfolding tr'(3) emask i(2) using i(3) by (auto simp: reg_view_write le_Suc_eq not_less_eq_eq)
  ultimately show ?case
    using same_modes_trans [OF \<open>same_modes tr ?tr\<close> tr'(2)] by auto
qed

lemma SetReg_view:
  assumes "unat offset < kNumRegs"
  obtains tr' where "SetReg offset v tr = Some tr'" "same_modes tr tr'"
    "reg_view tr' = view_write (m_enable_mask tr) (unat offset) v (reg_view tr)"
  using set_reg_loop_view [OF assms order.refl, of v tr]
  by (auto simp: SetReg_def view_write_def fun_eq_iff)

lemma SetReg_out_of_bounds:
  assumes "kNumRegs \<le> unat offset" "bit (m_enable_mask tr) 0"
  shows "SetReg offset value tr = None"
  using assms by (simp add: SetReg_def kShaderEnableBitCount_def numeral_3_eq_3 and_one_eq odd_iff_mod_2_eq_one bit_0)

lemma enable_bit_less [simp]: "enable_bit b < kShaderEnableBitCount"
  by (cases b) (simp_all add: enable_bit_def kShaderEnableBitCount_def)

lemma IsRegSet_view:
  "unat offset < kNumRegs \<Longrightarrow> IsRegSet offset b tr = Some (reg_view tr (enable_bit b) (unat offset) \<noteq> None)"
  by (auto simp: IsRegSet_def reg_view_def reg_flag_def kNumRegs_def and_exp_eq_0_iff_not_bit)

lemma GetRegValue_view:
  "unat offset < kNumRegs \<Longrightarrow> reg_view tr (enable_bit b) (unat offset) = Some v \<Longrightarrow> GetRegValue offset b tr = Some v"
  by (auto simp: GetRegValue_def reg_view_def split: if_splits)

lemma Pop_Push [simp]: "PopEnableMask (PushEnableMask emask tr) = Some tr"
  by (simp add: PopEnableMask_def PushEnableMask_def)

lemma view_writes_nth:
  "view_writes emask offset vs view i p =
    (if i < kShaderEnableBitCount \<and> bit emask i \<and> offset \<le> p \<and> p < offset + length vs
     then Some (vs ! (p - offset)) else view i p)"
proof (induction vs arbitrary: offset view)
  case (Cons v vs)
  show ?case
    unfolding view_writes.simps Cons.IH by (auto simp: view_write_def nth_Cons')
qed auto

lemma view_writes_append:
  "view_writes emask offset (xs @ ys) view =
    view_writes emask (offset + length xs) ys (view_writes emask offset xs view)"
  by (induction xs arbitrary: offset view) simp_all

section \<open>Register packets\<close>

text \<open>The payload of a packet in memory, one little-endian word after the other.\<close>

definition le32_stream :: "u32 list \<Rightarrow> buffer" where
  "le32_stream ws = concat (map le32_bytes ws)"

lemma length_le32_stream [simp]: "length (le32_stream ws) = 4 * length ws"
  by (induction ws) (simp_all add: le32_stream_def)

lemma nth_le32_stream:
  assumes "k < length ws" "j < 4"
  shows "le32_stream ws ! (4 * k + j) = le32_bytes (ws ! k) ! j"
  using assms(1)
proof (induction ws arbitrary: k)
  case (Cons w ws)
  show ?case
  proof (cases k)
    case 0
    then show ?thesis
      using assms(2) by (simp add: le32_stream_def nth_append)
  next
    case (Suc l)
    then have "le32_stream (w # ws) ! (4 * k + j) = le32_stream ws ! (4 * l + j)"
      by (simp add: le32_stream_def nth_append)
    then show ?thesis
      using Cons.IH [of l] Cons.prems Suc by simp
  qed
qed simp

lemma le32_stream_drop: "le32_stream (drop k ws) = drop (4 * k) (le32_stream ws)"
proof (induction ws arbitrary: k)
  case (Cons w ws)
  show ?case
    using Cons.IH by (cases k) (simp_all add: le32_stream_def)
qed (simp add: le32_stream_def)

context memory_reader
begin

lemma holds_drop:
  assumes "holds_bytes m s va bs" "k \<le> length bs"
  shows "holds_bytes m s (va + word_of_nat k) (drop k bs)"
proof -
  have lt: "unat va + length bs < 2 ^ 64"
    using assms(1) by (simp add: holds_bytes_def)
  then have "k < 2 ^ 64"
    using assms(2) by simp
  then have "unat (va + word_of_nat k) = unat va + k"
    using lt assms(2) by (simp add: unat_word_ariths unat_of_nat)
  then show ?thesis
    using assms by (simp add: holds_bytes_def add.assoc)
qed

lemma holds_word:
  assumes "holds_bytes m s va (le32_stream ws)" "k < length ws"
  shows "holds_bytes m s (va + word_of_nat (4 * k)) (le32_bytes (ws ! k))"
proof -
  have lt: "unat va + 4 * length ws < 2 ^ 64"
    using assms(1) by (simp add: holds_bytes_def)
  then have "4 * k < 2 ^ 64"
    using assms(2) by simp
  then have "unat (word_of_nat (4 * k) :: u64) = 4 * k"
    by (simp only: unat_of_nat) simp
  then have va: "unat (va + word_of_nat (4 * k)) = unat va + 4 * k"
    using lt assms(2) by (simp add: unat_word_ariths)
  have "content m s (unat va + 4 * k + j) = Some (le32_bytes (ws ! k) ! j)" if "j < 4" for j
    using assms nth_le32_stream [OF assms(2) that] that
    unfolding holds_bytes_def by (auto simp: add.assoc)
  then show ?thesis
    using lt assms(2) va by (simp add: holds_bytes_def)
qed

lemma read_word:
  assumes "ok m" "holds_bytes m s va (le32_bytes w)"
  obtains bs m' where "read_struct debug retrieve s va 4 4 m = Some (bs, m')" "le32 bs = w"
    "ok m'" "content m' = content m"
proof -
  have "le32_bytes w \<noteq> []"
    by (metis length_le32_bytes list.size(3) zero_neq_numeral)
  then obtain m' where "read_struct debug retrieve s va 4 4 m = Some (le32_bytes w, m')" "ok m'" "content m' = content m"
    using read_struct_content [OF assms, of 4 debug] by auto
  then show thesis
    using that [of "le32_bytes w" m'] by simp
qed

lemma holds_bytes_cong: "content m' = content m \<Longrightarrow> holds_bytes m' s va bs = holds_bytes m s va bs"
  by (simp add: holds_bytes_def)

lemma reg_value_loop_sets:
  assumes "ok m" "holds_bytes m s va (le32_stream ws)" "i + n \<le> length ws"
    and "unat off + i + n \<le> kNumRegs"
  shows "\<exists>tr' m'. reg_value_loop debug retrieve s va off i n tr m = Some (tr', m') \<and>
    ok m' \<and> content m' = content m \<and> same_modes tr tr' \<and>
    reg_view tr' = view_writes (m_enable_mask tr) (unat off + i) (take n (drop i ws)) (reg_view tr)"
  using assms
proof (induction n arbitrary: i tr m)
  case 0
  then show ?case
    by simp
next
  case (Suc n)
  have i: "i < length ws"
    using Suc.prems(3) by simp
  obtain bs m1 where m1: "read_struct debug retrieve s (va + word_of_nat i * 4) 4 4 m = Some (bs, m1)"
      "le32 bs = ws ! i" "ok m1" "content m1 = content m"
    using read_word [OF Suc.prems(1) holds_word [OF Suc.prems(2) i], of debug] by (auto simp: mult.commute)
  have off: "unat (off + word_of_nat i) = unat off + i"
    using Suc.prems(4) by (simp add: unat_word_ariths unat_of_nat kNumRegs_def)
  obtain tr1 where tr1: "SetReg (off + word_of_nat i) (ws ! i) tr = Some tr1" "same_modes tr tr1"
      "reg_view tr1 = view_write (m_enable_mask tr) (unat off + i) (ws ! i) (reg_view tr)"
    using SetReg_view [of "off + word_of_nat i" "ws ! i" tr] Suc.prems(4) off by auto
  obtain tr' m' where "reg_value_loop debug retrieve s va off (i + 1) n tr1 m1 = Some (tr', m')"
      "ok m'" "content m' = content m1" "same_modes tr1 tr'"
      "reg_view tr' = view_writes (m_enable_mask tr1) (unat off + (i + 1)) (take n (drop (i + 1) ws)) (reg_view tr1)"
    using Suc.IH [of m1 "i + 1" tr1] Suc.prems(2-4) m1 holds_bytes_cong [OF m1(4)] by auto
  moreover have "take (Suc n) (drop i ws) = ws ! i # take n (drop (i + 1) ws)"
    using i by (metis Cons_nth_drop_Suc Suc_eq_plus1 take_Suc_Cons)
  ultimately show ?case
    using m1 tr1 same_modes_trans [OF tr1(2)] by (auto simp: same_modes_def)
qed

text \<open>
  A packet that does not end in the middle of a 64-bit register writes its words to consecutive
  registers.
\<close>

lemma type4_loop_sets:
  assumes "ok m" "holds_bytes m s (va + 4) (le32_stream ws)" "dword \<le> length ws"
    and "unat off + length ws \<le> kNumRegs"
    and "ws \<noteq> [] \<Longrightarrow> \<not> is_64_bit isa (off + word_of_nat (length ws - 1))"
  shows "\<exists>tr' m'. type4_loop debug isa retrieve s va off (length ws) dword tr m = Some (tr', m') \<and>
    ok m' \<and> content m' = content m \<and> same_modes tr tr' \<and>
    reg_view tr' = view_writes (m_enable_mask tr) (unat off + dword) (drop dword ws) (reg_view tr)"
  using assms
proof (induction "length ws - dword" arbitrary: dword tr m rule: less_induct)
  case less
  show ?case
  proof (cases "dword < length ws")
    case False
    then show ?thesis
      using less.prems(1,3) by (subst type4_loop.simps) auto
  next
    case True
    let ?off = "off + word_of_nat dword" and ?va = "va + 4 + word_of_nat (4 * dword)"
    define n :: nat where "n = (if is_64_bit isa ?off then 2 else 1)"
    have off: "unat ?off = unat off + dword"
      using less.prems(4) True by (simp add: unat_word_ariths unat_of_nat kNumRegs_def)
    have n: "dword + n \<le> length ws" "0 < n"
    proof -
      have "ws \<noteq> []"
        using True by auto
      then have "dword \<noteq> length ws - 1" if "is_64_bit isa ?off"
        using less.prems(5) that by metis
      then show "dword + n \<le> length ws" "0 < n"
        using True by (auto simp: n_def)
    qed
    have mem: "holds_bytes m s ?va (le32_stream (drop dword ws))"
      using holds_drop [OF less.prems(2), of "4 * dword"] less.prems(3) by (simp add: le32_stream_drop)
    have b: "0 + n \<le> length (drop dword ws)" "unat ?off + 0 + n \<le> kNumRegs"
      using n less.prems(4) off by auto
    obtain tr1 m1 where 1: "reg_value_loop debug retrieve s ?va ?off 0 n tr m = Some (tr1, m1)"
        "ok m1" "content m1 = content m" "same_modes tr tr1"
        "reg_view tr1 = view_writes (m_enable_mask tr) (unat off + dword) (take n (drop dword ws)) (reg_view tr)"
      using reg_value_loop_sets [OF less.prems(1) mem b, of debug tr] off by auto
    have dec: "length ws - (dword + n) < length ws - dword"
      using n True by linarith
    obtain tr' m' where 2: "type4_loop debug isa retrieve s va off (length ws) (dword + n) tr1 m1 = Some (tr', m')"
        "ok m'" "content m' = content m1" "same_modes tr1 tr'"
        "reg_view tr' = view_writes (m_enable_mask tr1) (unat off + (dword + n)) (drop (dword + n) ws) (reg_view tr1)"
      using less.hyps [OF dec, of m1 tr1] less.prems(2,4,5) n 1(2) holds_bytes_cong [OF 1(3)] by auto
    have "reg_view tr' = view_writes (m_enable_mask tr) (unat off + dword) (drop dword ws) (reg_view tr)"
    proof -
      have "drop dword ws = take n (drop dword ws) @ drop (dword + n) ws"
        by (metis add.commute append_take_drop_id drop_drop)
      moreover have "length (take n (drop dword ws)) = n"
        using n(1) by simp
      moreover have "reg_view tr' = view_writes (m_enable_mask tr) (unat off + dword + n) (drop (dword + n) ws)
          (view_writes (m_enable_mask tr) (unat off + dword) (take n (drop dword ws)) (reg_view tr))"
        using 1(4,5) 2(5) by (simp add: same_modes_def add.assoc)
      ultimately show ?thesis
        using view_writes_append [of "m_enable_mask tr" "unat off + dword" "take n (drop dword ws)" "drop (dword + n) ws" "reg_view tr"]
        by simp
    qed
    moreover have "type4_loop debug isa retrieve s va off (length ws) dword tr m = Some (tr', m')"
      using True 1(1) 2(1) off less.prems(4)
      by (subst type4_loop.simps) (simp add: Let_def n_def)
    ultimately show ?thesis
      using 1 2 same_modes_trans by auto
  qed
qed

end

end
