(* ===== verification/Pm4_Emulator.thy ===== *)
theory Pm4_Emulator
  imports Pm4_State_Tracker
begin

text \<open>
  The command-stream emulator of \<^verbatim>\<open>dive_core/common/emulate_pm4.cpp\<close>: class \<^verbatim>\<open>EmulatePM4\<close> and the driver
  \<^verbatim>\<open>EmulateCallbacksBase::ProcessSubmits\<close>.

  The emulator walks the packets of the indirect buffers (IBs) of a submit, with a stack of IB levels
  and a queue of pending IBs per level, and calls back for every IB it enters or leaves and for every
  packet. The callbacks are virtual and the memory manager is an interface, so both are parameters: the
  record \<open>emu_env\<close>, over a client state \<open>'c\<close> and a memory state \<open>'m\<close>.

  \<open>None\<close> stands for a failing assertion of a debug build, for undefined behaviour (a stack level or a
  packet structure overrun), and for not returning. Functions return the result of the C++ function
  with the state it leaves, also when they return false.

  The queue of a level is kept as the list of its first \<^verbatim>\<open>m_ib_queue_size\<close> entries, which are all
  the code reads; \<^verbatim>\<open>QueueIB\<close> keeps it within \<^verbatim>\<open>kMaxPendingIbs\<close>.
\<close>

section \<open>Types\<close>

datatype IbType =
    kNormal | kCall | kChain | kContextSwitchIb | kDrawState | kBinPrefix | kBinCommon
  | kFixedStrideDrawTable

record IndirectBufferInfo =
  ib_va_addr :: u64
  ib_size_in_dwords :: u32
  ib_level :: nat
  ib_enable_mask :: u32
  ib_skip :: bool

datatype EngineType =
    EngineType_kUniversal | EngineType_kCompute | EngineType_kDma | EngineType_kTimer
  | EngineType_kOther | EngineType_kNone | EngineType_kCount

datatype QueueType =
    QueueType_kUniversal | QueueType_kCompute | QueueType_kDma | QueueType_kTimer
  | QueueType_kOther | QueueType_kNone | QueueType_kCount

record SubmitInfo =
  m_engine_type :: EngineType
  m_queue_type :: QueueType
  m_engine_index :: byte
  m_is_dummy_submit :: bool
  m_ibs :: "IndirectBufferInfo list"

definition kPrimaryRing :: nat where "kPrimaryRing = 0"
definition kTotalIbLevels :: nat where "kTotalIbLevels = 5"
definition kMaxPendingIbs :: nat where "kMaxPendingIbs = 600"

record queued_ib =
  q_type :: IbType
  q_addr :: u64
  q_size_in_dwords :: u32
  q_skip :: bool
  q_enable_mask :: u32

record IbStack =
  stk_cur_va :: u64
  stk_cur_ib_addr :: u64
  stk_cur_ib_size_in_dwords :: u32
  stk_cur_ib_skip :: bool
  stk_cur_ib_enable_mask :: u32
  stk_cur_ib_type :: IbType
  stk_queue :: "queued_ib list"
  stk_queue_index :: nat

record EmulateState =
  es_ib_index :: u32
  es_submit_index :: u32
  es_ib_stack :: "IbStack list"
  es_top_of_stack :: nat

record ('c, 'm) emu_env =
  env_debug :: bool
  env_isa :: pm4_isa
  env_retrieve :: "'m retriever"
  env_is_valid :: "u32 \<Rightarrow> u64 \<Rightarrow> u64 \<Rightarrow> 'm \<Rightarrow> bool option"
  env_OnIbStart :: "u32 \<Rightarrow> u32 \<Rightarrow> IndirectBufferInfo \<Rightarrow> IbType \<Rightarrow> 'c \<Rightarrow> (bool \<times> 'c) option"
  env_OnIbEnd :: "u32 \<Rightarrow> u32 \<Rightarrow> IndirectBufferInfo \<Rightarrow> 'c \<Rightarrow> (bool \<times> 'c) option"
  env_OnPacket :: "u32 \<Rightarrow> u32 \<Rightarrow> u64 \<Rightarrow> Pm4Header \<Rightarrow> 'c \<Rightarrow> 'm \<Rightarrow> (bool \<times> 'c \<times> 'm) option"
  env_OnSubmitStart :: "u32 \<Rightarrow> SubmitInfo \<Rightarrow> 'c \<Rightarrow> 'c"
  env_OnSubmitEnd :: "u32 \<Rightarrow> SubmitInfo \<Rightarrow> 'c \<Rightarrow> 'c"

type_synonym ('c, 'm) emu = "EmulateState \<times> 'c \<times> 'm"
type_synonym ('c, 'm) emu_op = "('c, 'm) emu \<Rightarrow> (bool \<times> ('c, 'm) emu) option"

text \<open>\<^verbatim>\<open>if (!f()) return false; g()\<close>\<close>

definition and_then :: "(bool \<times> 's) option \<Rightarrow> ('s \<Rightarrow> (bool \<times> 's) option) \<Rightarrow> (bool \<times> 's) option" where
  "and_then r f = Option.bind r (\<lambda>(ok, s). if ok then f s else Some (False, s))"

section \<open>The stack of IBs\<close>

definition EndOfCurIb :: "IbStack \<Rightarrow> bool" where
  "EndOfCurIb stk \<longleftrightarrow>
     stk_cur_ib_skip stk \<or>
     stk_cur_va stk \<ge> stk_cur_ib_addr stk + ucast (stk_cur_ib_size_in_dwords stk) * 4"

definition GetCurIb :: "EmulateState \<Rightarrow> IbStack" where
  "GetCurIb es = es_ib_stack es ! es_top_of_stack es"

definition set_level :: "nat \<Rightarrow> IbStack \<Rightarrow> EmulateState \<Rightarrow> EmulateState" where
  "set_level i stk es = es\<lparr>es_ib_stack := (es_ib_stack es)[i := stk]\<rparr>"

definition set_cur :: "IbStack \<Rightarrow> EmulateState \<Rightarrow> EmulateState" where
  "set_cur stk es = set_level (es_top_of_stack es) stk es"

definition reset_queue :: "EmulateState \<Rightarrow> EmulateState" where
  "reset_queue es = set_cur ((GetCurIb es)\<lparr>stk_queue := [], stk_queue_index := 0\<rparr>) es"

definition QueueIB ::
    "bool \<Rightarrow> u64 \<Rightarrow> u32 \<Rightarrow> bool \<Rightarrow> IbType \<Rightarrow> u32 \<Rightarrow> EmulateState \<Rightarrow> (bool \<times> EmulateState) option" where
  "QueueIB debug ib_addr n_dwords skip ib_type enable_mask es =
    (let cur_ib_level = GetCurIb es in
     if n_dwords = 0 then Some (True, es)
     else if length (stk_queue cur_ib_level) \<ge> kMaxPendingIbs
     then do { DIVE_ASSERT debug False; Some (False, es) }
     else Some (True,
       set_cur (cur_ib_level\<lparr>stk_queue := stk_queue cur_ib_level @
         [\<lparr>q_type = ib_type, q_addr = ib_addr, q_size_in_dwords = n_dwords, q_skip = skip,
           q_enable_mask = enable_mask\<rparr>]\<rparr>) es))"

text \<open>Entering the next level with a CALL, and replacing the current IB with a CHAIN.\<close>

definition enter_ib :: "queued_ib \<Rightarrow> EmulateState \<Rightarrow> EmulateState" where
  "enter_ib q es =
    (let prev = GetCurIb es;
         es = (if q_type q = kNormal then es\<lparr>es_ib_index := word_of_nat (stk_queue_index prev)\<rparr> else es);
         top = es_top_of_stack es;
         es = es\<lparr>es_top_of_stack := top + 1\<rparr>;
         new_ib_level =
           \<lparr>stk_cur_va = q_addr q, stk_cur_ib_addr = q_addr q,
            stk_cur_ib_size_in_dwords = q_size_in_dwords q, stk_cur_ib_skip = q_skip q,
            stk_cur_ib_enable_mask = q_enable_mask q, stk_cur_ib_type = q_type q,
            stk_queue = [], stk_queue_index = 0\<rparr>;
         es = set_level (top + 1) new_ib_level es
     in set_level top (prev\<lparr>stk_queue_index := stk_queue_index prev + 1\<rparr>) es)"

definition chain_ib :: "queued_ib \<Rightarrow> EmulateState \<Rightarrow> EmulateState" where
  "chain_ib q es =
    (let cur = GetCurIb es in
     set_cur (cur\<lparr>stk_cur_va := q_addr q, stk_cur_ib_addr := q_addr q,
                  stk_cur_ib_size_in_dwords := q_size_in_dwords q, stk_cur_ib_skip := q_skip q,
                  stk_cur_ib_enable_mask := q_enable_mask q,
                  stk_queue_index := stk_queue_index cur + 1\<rparr>) es)"

definition cur_ib_end :: "IbStack \<Rightarrow> u64" where
  "cur_ib_end stk = stk_cur_ib_addr stk + ucast (stk_cur_ib_size_in_dwords stk) * 4"

text \<open>The last part of \<^verbatim>\<open>AdvanceToQueuedIB\<close>: the validity check and the callback.\<close>

definition start_ib :: "('c, 'm) emu_env \<Rightarrow> ('c, 'm) emu_op" where
  "start_ib env = (\<lambda>(es, c, m). do {
     let cur = GetCurIb es;
     valid \<leftarrow> env_is_valid env (es_submit_index es) (stk_cur_va cur)
                (ucast (stk_cur_ib_size_in_dwords cur) * 4) m;
     let cur = cur\<lparr>stk_cur_ib_skip := stk_cur_ib_skip cur \<or> \<not> valid\<rparr>;
     let es = set_cur cur es;
     let call_chain_ib_info =
       \<lparr>ib_va_addr = stk_cur_va cur, ib_size_in_dwords = stk_cur_ib_size_in_dwords cur,
        ib_level = es_top_of_stack es, ib_enable_mask = stk_cur_ib_enable_mask cur,
        ib_skip = stk_cur_ib_skip cur\<rparr>;
     (ok, c) \<leftarrow> env_OnIbStart env (es_submit_index es) (es_ib_index es) call_chain_ib_info
                  (stk_cur_ib_type cur) c;
     Some (ok, es, c, m)
   })"

definition AdvanceToQueuedIB :: "('c, 'm) emu_env \<Rightarrow> ('c, 'm) emu_op" where
  "AdvanceToQueuedIB env = (\<lambda>(es, c, m).
     let prev = GetCurIb es in
     if stk_queue_index prev \<ge> length (stk_queue prev) then Some (True, es, c, m)
     else
       let q = stk_queue prev ! stk_queue_index prev in
       if q_type q \<noteq> kChain
       then do {
         DIVE_ASSERT (env_debug env) (es_top_of_stack es < kTotalIbLevels - 1);
         if es_top_of_stack es + 1 \<ge> length (es_ib_stack es) then None
         else start_ib env (enter_ib q es, c, m)
       }
       else do {
         DIVE_ASSERT (env_debug env) (length (stk_queue prev) = 1);
         DIVE_ASSERT (env_debug env) (stk_queue_index prev = 0);
         if stk_cur_va prev \<noteq> cur_ib_end prev
         then do { DIVE_ASSERT (env_debug env) False; Some (False, es, c, m) }
         else start_ib env (chain_ib (stk_queue prev ! 0) es, c, m)
       })"

definition AdvanceOutOfIB :: "('c, 'm) emu_env \<Rightarrow> ('c, 'm) emu_op" where
  "AdvanceOutOfIB env = (\<lambda>(es, c, m).
     let cur = GetCurIb es in
     if es_top_of_stack es = 0 then None
     else
       let es = es\<lparr>es_top_of_stack := es_top_of_stack es - 1\<rparr>;
           ib_info =
             \<lparr>ib_va_addr = stk_cur_ib_addr cur, ib_size_in_dwords = stk_cur_ib_size_in_dwords cur,
              ib_level = es_top_of_stack es, ib_enable_mask = 0, ib_skip = stk_cur_ib_skip cur\<rparr>
       in
       do {
         (ok, c) \<leftarrow> env_OnIbEnd env (es_submit_index es) (es_ib_index es) ib_info c;
         Some (ok, es, c, m)
       })"

text \<open>
  The IBs that are still queued on the levels of the stack: every round of the loop of
  \<^verbatim>\<open>CheckAndAdvanceIB\<close> leaves a level, and enters a new one only for a queued IB.
\<close>

definition pending_ibs :: "EmulateState \<Rightarrow> nat" where
  "pending_ibs es =
    (\<Sum>l \<in> {..es_top_of_stack es}.
       if l < length (es_ib_stack es)
       then length (stk_queue (es_ib_stack es ! l)) - stk_queue_index (es_ib_stack es ! l) else 0)"

lemma pending_set_skip [simp]:
  "pending_ibs (set_cur ((GetCurIb es)\<lparr>stk_cur_ib_skip := b\<rparr>) es) = pending_ibs es"
  unfolding pending_ibs_def
  by (rule sum.cong) (auto simp: set_cur_def set_level_def GetCurIb_def nth_upd)

lemma set_cur_simps [simp]:
  "es_top_of_stack (set_cur stk es) = es_top_of_stack es"
  "es_ib_index (set_cur stk es) = es_ib_index es"
  "es_submit_index (set_cur stk es) = es_submit_index es"
  "length (es_ib_stack (set_cur stk es)) = length (es_ib_stack es)"
  "es_top_of_stack es < length (es_ib_stack es) \<Longrightarrow> GetCurIb (set_cur stk es) = stk"
  by (simp_all add: set_cur_def set_level_def GetCurIb_def)

lemma start_ib_pending:
  assumes "start_ib env (es, c, m) = Some (ok, es', c', m')"
  shows "pending_ibs es' = pending_ibs es \<and> es_top_of_stack es' = es_top_of_stack es"
  using assms by (auto simp: start_ib_def Let_def split: bind_splits)

lemma enter_ib_top [simp]: "es_top_of_stack (enter_ib q es) = es_top_of_stack es + 1"
  by (simp add: enter_ib_def Let_def set_level_def)

lemma pending_enter:
  assumes "es_top_of_stack es + 1 < length (es_ib_stack es)"
    and "stk_queue_index (GetCurIb es) < length (stk_queue (GetCurIb es))"
  shows "pending_ibs (enter_ib q es) < pending_ibs es"
proof -
  let ?t = "es_top_of_stack es"
  let ?f = "\<lambda>e l. if l < length (es_ib_stack e)
      then length (stk_queue (es_ib_stack e ! l)) - stk_queue_index (es_ib_stack e ! l) else 0"
  have top: "?f (enter_ib q es) (Suc ?t) = 0"
    using assms(1) by (simp add: enter_ib_def Let_def set_level_def)
  have "pending_ibs (enter_ib q es) = (\<Sum>l \<in> {..?t}. ?f (enter_ib q es) l)"
    using top unfolding pending_ibs_def by (simp add: atMost_Suc)
  also have "\<dots> < (\<Sum>l \<in> {..?t}. ?f es l)"
  proof (rule sum_strict_mono_ex1)
    show "\<forall>l \<in> {..?t}. ?f (enter_ib q es) l \<le> ?f es l"
      using assms by (auto simp: enter_ib_def Let_def set_level_def GetCurIb_def nth_upd)
    show "\<exists>l \<in> {..?t}. ?f (enter_ib q es) l < ?f es l"
      using assms by (intro bexI [of _ ?t]) (auto simp: enter_ib_def Let_def set_level_def GetCurIb_def)
  qed simp
  finally show ?thesis
    by (simp add: pending_ibs_def)
qed

lemma pending_chain: "pending_ibs (chain_ib q es) \<le> pending_ibs es" "es_top_of_stack (chain_ib q es) = es_top_of_stack es"
  unfolding pending_ibs_def chain_ib_def
  by (auto simp: Let_def intro!: sum_mono simp: set_cur_def set_level_def GetCurIb_def nth_upd)

lemma AdvanceToQueuedIB_pending:
  assumes "AdvanceToQueuedIB env (es, c, m) = Some (ok, es', c', m')"
  shows "pending_ibs es' < pending_ibs es \<and> es_top_of_stack es' = es_top_of_stack es + 1 \<or>
    pending_ibs es' \<le> pending_ibs es \<and> es_top_of_stack es' = es_top_of_stack es"
  using assms pending_enter [of es] pending_chain [of _ es]
  by (auto simp: AdvanceToQueuedIB_def Let_def not_le split: if_splits bind_splits dest!: start_ib_pending)

lemma AdvanceOutOfIB_pending:
  assumes "AdvanceOutOfIB env (es, c, m) = Some (ok, es', c', m')"
  shows "pending_ibs es' \<le> pending_ibs es" "es_top_of_stack es' + 1 = es_top_of_stack es"
    "es' = es\<lparr>es_top_of_stack := es_top_of_stack es - 1\<rparr>"
proof -
  show es': "es' = es\<lparr>es_top_of_stack := es_top_of_stack es - 1\<rparr>" and "es_top_of_stack es' + 1 = es_top_of_stack es"
    using assms by (auto simp: AdvanceOutOfIB_def Let_def split: if_splits bind_splits)
  show "pending_ibs es' \<le> pending_ibs es"
    unfolding pending_ibs_def es' by (simp cong: if_cong, rule sum_mono2) auto
qed

function CheckAndAdvanceIB :: "('c, 'm) emu_env \<Rightarrow> ('c, 'm) emu_op" where
  "CheckAndAdvanceIB env (es, c, m) =
    (if stk_cur_va (GetCurIb es) \<noteq> - 1 \<and> EndOfCurIb (GetCurIb es)
     then
       case AdvanceOutOfIB env (es, c, m) of
         None \<Rightarrow> None
       | Some (False, s) \<Rightarrow> Some (False, s)
       | Some (True, s) \<Rightarrow>
           (case AdvanceToQueuedIB env s of
              None \<Rightarrow> None
            | Some (False, s) \<Rightarrow> Some (False, s)
            | Some (True, s) \<Rightarrow> CheckAndAdvanceIB env s)
     else Some (True, es, c, m))"
  by pat_completeness auto

termination
proof (relation "measure (\<lambda>(env, es, c, m). 2 * pending_ibs es + es_top_of_stack es)", goal_cases)
  case 1
  show ?case
    by simp
next
  case (2 env es c m x ok s x' ok' s')
  obtain es1 c1 m1 where s: "s = (es1, c1, m1)"
    by (cases s) auto
  obtain es2 c2 m2 where s': "s' = (es2, c2, m2)"
    by (cases s') auto
  have "AdvanceOutOfIB env (es, c, m) = Some (True, es1, c1, m1)"
      "AdvanceToQueuedIB env (es1, c1, m1) = Some (True, es2, c2, m2)"
    using 2 s s' by simp_all
  note out = AdvanceOutOfIB_pending [OF this(1)] and queued = AdvanceToQueuedIB_pending [OF this(2)]
  show ?case
    unfolding s' using out(1,2) queued by auto
qed

declare CheckAndAdvanceIB.simps [simp del]

section \<open>Advancing past a packet\<close>

definition AdvancePacket :: "bool \<Rightarrow> Pm4Header \<Rightarrow> EmulateState \<Rightarrow> EmulateState option" where
  "AdvancePacket debug header es =
    map_option
      (\<lambda>packet_size. set_cur ((GetCurIb es)\<lparr>stk_cur_va := stk_cur_va (GetCurIb es) + ucast packet_size * 4\<rparr>) es)
      (GetPacketSize debug header)"

definition read_cur ::
    "('c, 'm) emu_env \<Rightarrow> EmulateState \<Rightarrow> u64 \<Rightarrow> nat \<Rightarrow> nat \<Rightarrow> 'm \<Rightarrow> (buffer \<times> 'm) option" where
  "read_cur env es va_addr struct_size nbytes m =
    read_struct (env_debug env) (env_retrieve env) (es_submit_index es) va_addr struct_size nbytes m"

text \<open>\<^verbatim>\<open>CP_INDIRECT_BUFFER_*\<close>: a call or a chain.\<close>

definition advance_indirect :: "('c, 'm) emu_env \<Rightarrow> Pm4Header \<Rightarrow> ('c, 'm) emu_op" where
  "advance_indirect env header = (\<lambda>(es, c, m). do {
     let size = sizeof_indirect_buffer (env_isa env);
     (packet, m) \<leftarrow> read_cur env es (stk_cur_va (GetCurIb es)) size size m;
     let (ib_base, ib_size) = indirect_buffer_fields (env_isa env) packet;
     let ib_type = (if type7_opcode header = isa_op (env_isa env) CP_INDIRECT_BUFFER_CHAIN then kChain else kCall);
     (ok, es) \<leftarrow> QueueIB (env_debug env) ib_base ib_size False ib_type 7 (reset_queue es);
     if \<not> ok then Some (False, es, c, m)
     else do {
       es \<leftarrow> AdvancePacket (env_debug env) header es;
       AdvanceToQueuedIB env (es, c, m)
     }
   })"

definition advance_amble :: "('c, 'm) emu_env \<Rightarrow> Pm4Header \<Rightarrow> ('c, 'm) emu_op" where
  "advance_amble env header = (\<lambda>(es, c, m). do {
     (packet, m) \<leftarrow> read_cur env es (stk_cur_va (GetCurIb es)) (sizeof_set_amble (env_isa env))
                      (unat (type7_count header + 1) * 4) m;
     let (addr, dwords) = set_amble_fields (env_isa env) packet;
     es \<leftarrow> AdvancePacket (env_debug env) header es;
     if dwords \<noteq> 0
     then do {
       (ok, es) \<leftarrow> QueueIB (env_debug env) addr dwords False kContextSwitchIb 7 (reset_queue es);
       if \<not> ok then Some (False, es, c, m) else AdvanceToQueuedIB env (es, c, m)
     }
     else Some (True, es, c, m)
   })"

text \<open>The elements of \<^verbatim>\<open>CP_SET_DRAW_STATE\<close>: the result tells whether all could be queued and whether there was one.\<close>

fun queue_draw_states ::
    "bool \<Rightarrow> draw_state_element list \<Rightarrow> bool \<Rightarrow> EmulateState \<Rightarrow> (bool \<times> bool \<times> EmulateState) option" where
  "queue_draw_states debug [] ib_queued es = Some (True, ib_queued, es)"
| "queue_draw_states debug (e # elems) ib_queued es =
    (if ds_DISABLE_ALL_GROUPS e then Some (True, ib_queued, es)
     else if ds_DISABLE e then queue_draw_states debug elems ib_queued es
     else do {
       let enable_mask = ds_BINNING e OR push_bit 1 (ds_GMEM e) OR push_bit 2 (ds_SYSMEM e);
       (ok, es) \<leftarrow> QueueIB debug (ds_ADDR e) (ds_COUNT e) False kDrawState enable_mask es;
       if \<not> ok then Some (False, True, es) else queue_draw_states debug elems True es
     })"

definition draw_state_array :: "pm4_isa \<Rightarrow> buffer \<Rightarrow> nat \<Rightarrow> draw_state_element list" where
  "draw_state_array isa packet n =
    map (\<lambda>i. draw_state_fields isa
           (take (sizeof_draw_state_element isa) (drop (4 + i * sizeof_draw_state_element isa) packet)))
      [0..<n]"

definition advance_draw_state :: "('c, 'm) emu_env \<Rightarrow> Pm4Header \<Rightarrow> ('c, 'm) emu_op" where
  "advance_draw_state env header = (\<lambda>(es, c, m). do {
     let isa = env_isa env;
     (packet, m) \<leftarrow> read_cur env es (stk_cur_va (GetCurIb es)) (sizeof_set_draw_state isa)
                      (unat (type7_count header + 1) * 4) m;
     let packet_size = unat (type7_count (le32 packet)) * 4;
     let array_size = packet_size div sizeof_draw_state_element isa;
     DIVE_ASSERT (env_debug env) (packet_size mod sizeof_draw_state_element isa = 0);
     (ok, ib_queued, es) \<leftarrow>
       queue_draw_states (env_debug env) (draw_state_array isa packet array_size) False (reset_queue es);
     if \<not> ok then Some (False, es, c, m)
     else do {
       es \<leftarrow> AdvancePacket (env_debug env) header es;
       if ib_queued then AdvanceToQueuedIB env (es, c, m) else Some (True, es, c, m)
     }
   })"

text \<open>Looking ahead for the \<^verbatim>\<open>CP_END_BIN\<close> of the common block, from \<open>temp_va\<close> on.\<close>

partial_function (option) find_end_bin ::
    "('c, 'm) emu_env \<Rightarrow> EmulateState \<Rightarrow> u64 \<Rightarrow> 'm \<Rightarrow> (u64 \<times> 'm) option" where
  "find_end_bin env es temp_va m =
    Option.bind (read_cur env es temp_va 4 4 m) (\<lambda>(bs, m).
      if is_op (env_isa env) (le32 bs) CP_END_BIN then Some (temp_va, m)
      else
        Option.bind (GetPacketSize (env_debug env) (le32 bs)) (\<lambda>packet_size.
          Option.bind
            (DIVE_ASSERT (env_debug env) (temp_va + ucast packet_size * 4 < cur_ib_end (GetCurIb es))) (\<lambda>_.
              find_end_bin env es (temp_va + ucast packet_size * 4) m)))"

fun queue_bins ::
    "bool \<Rightarrow> nat \<Rightarrow> u32 \<Rightarrow> u64 \<Rightarrow> u32 \<Rightarrow> u64 \<Rightarrow> u32 \<Rightarrow> EmulateState \<Rightarrow> (bool \<times> EmulateState) option" where
  "queue_bins debug 0 bin prefix_addr prefix_dwords common_va common_dwords es = Some (True, es)"
| "queue_bins debug (Suc n) bin prefix_addr prefix_dwords common_va common_dwords es =
    do {
      (ok, es) \<leftarrow> QueueIB debug (prefix_addr + ucast (bin * prefix_dwords) * 4) prefix_dwords False
                    kBinPrefix 7 es;
      if \<not> ok then Some (False, es)
      else do {
        (ok, es) \<leftarrow> QueueIB debug common_va common_dwords False kBinCommon 7 es;
        if \<not> ok then Some (False, es)
        else queue_bins debug n (bin + 1) prefix_addr prefix_dwords common_va common_dwords es
      }
    }"

definition advance_start_bin :: "('c, 'm) emu_env \<Rightarrow> Pm4Header \<Rightarrow> ('c, 'm) emu_op" where
  "advance_start_bin env header = (\<lambda>(es, c, m). do {
     let size = sizeof_start_bin (env_isa env);
     (packet, m) \<leftarrow> read_cur env es (stk_cur_va (GetCurIb es)) size size m;
     let (bin_count, prefix_addr, prefix_dwords) = start_bin_fields (env_isa env) packet;
     header_size \<leftarrow> GetPacketSize (env_debug env) header;
     let cp_start_common_block_va = stk_cur_va (GetCurIb es) + ucast header_size * 4;
     (end_va, m) \<leftarrow> find_end_bin env es (stk_cur_va (GetCurIb es)) m;
     let common_block_dword_size = (ucast ((end_va - cp_start_common_block_va) div 4) :: u32);
     DIVE_ASSERT (env_debug env) (common_block_dword_size \<noteq> - 1);
     let es = set_cur ((GetCurIb es)\<lparr>stk_cur_va :=
                cp_start_common_block_va + ucast common_block_dword_size * 4\<rparr>) es;
     (ok, es) \<leftarrow> queue_bins (env_debug env) (unat bin_count) 0 prefix_addr prefix_dwords
                   cp_start_common_block_va common_block_dword_size es;
     if \<not> ok then Some (False, es, c, m) else AdvanceToQueuedIB env (es, c, m)
   })"

fun queue_draw_table ::
    "bool \<Rightarrow> nat \<Rightarrow> u32 \<Rightarrow> u64 \<Rightarrow> u32 \<Rightarrow> EmulateState \<Rightarrow> (bool \<times> EmulateState) option" where
  "queue_draw_table debug 0 draw ib_base stride es = Some (True, es)"
| "queue_draw_table debug (Suc n) draw ib_base stride es =
    do {
      (ok, es) \<leftarrow> QueueIB debug (ib_base + ucast (draw * stride) * 4) stride False kFixedStrideDrawTable 7 es;
      if \<not> ok then Some (False, es) else queue_draw_table debug n (draw + 1) ib_base stride es
    }"

definition advance_draw_table :: "('c, 'm) emu_env \<Rightarrow> Pm4Header \<Rightarrow> ('c, 'm) emu_op" where
  "advance_draw_table env header = (\<lambda>(es, c, m). do {
     let size = sizeof_fixed_stride_draw_table (env_isa env);
     (packet, m) \<leftarrow> read_cur env es (stk_cur_va (GetCurIb es)) size size m;
     let (ib_base, stride, count) = fixed_stride_draw_table_fields (env_isa env) packet;
     (ok, es) \<leftarrow> queue_draw_table (env_debug env) (unat count) 0 ib_base stride es;
     if \<not> ok then Some (False, es, c, m)
     else do {
       es \<leftarrow> AdvancePacket (env_debug env) header es;
       AdvanceToQueuedIB env (es, c, m)
     }
   })"

text \<open>The cases of \<^verbatim>\<open>AdvanceCb\<close>, and what follows all of them.\<close>

definition advance_case :: "('c, 'm) emu_env \<Rightarrow> Pm4Header \<Rightarrow> ('c, 'm) emu_op" where
  "advance_case env header = (\<lambda>(es, c, m).
     let op = is_op (env_isa env) header in
     if op CP_INDIRECT_BUFFER_PFE \<or> op CP_INDIRECT_BUFFER_PFD \<or> op CP_INDIRECT_BUFFER_CHAIN
     then advance_indirect env header (es, c, m)
     else if op CP_SET_AMBLE then advance_amble env header (es, c, m)
     else if op CP_SET_DRAW_STATE then advance_draw_state env header (es, c, m)
     else if op CP_START_BIN then advance_start_bin env header (es, c, m)
     else if op CP_FIXED_STRIDE_DRAW_TABLE then advance_draw_table env header (es, c, m)
     else map_option (\<lambda>es. (True, es, c, m)) (AdvancePacket (env_debug env) header es))"

definition AdvanceCb :: "('c, 'm) emu_env \<Rightarrow> Pm4Header \<Rightarrow> ('c, 'm) emu_op" where
  "AdvanceCb env header s = and_then (advance_case env header s) (CheckAndAdvanceIB env)"

section \<open>Submits\<close>

text \<open>One round of the loop of \<^verbatim>\<open>ExecuteSubmit\<close>.\<close>

definition emulate_packet :: "('c, 'm) emu_env \<Rightarrow> ('c, 'm) emu_op" where
  "emulate_packet env = (\<lambda>(es, c, m). do {
     let va = stk_cur_va (GetCurIb es);
     (bs, m) \<leftarrow> read_cur env es va 4 4 m;
     let header = le32 bs;
     if \<not> valid_header header then Some (False, es, c, m)
     else do {
       (ok, c, m) \<leftarrow> env_OnPacket env (es_submit_index es) (es_ib_index es) va header c m;
       if \<not> ok then Some (False, es, c, m) else AdvanceCb env header (es, c, m)
     }
   })"

partial_function (option) emulate_loop ::
    "('c, 'm) emu_env \<Rightarrow> ('c, 'm) emu \<Rightarrow> (bool \<times> ('c, 'm) emu) option" where
  "emulate_loop env s =
    (if es_top_of_stack (fst s) = kPrimaryRing then Some (True, s)
     else Option.bind (emulate_packet env s) (\<lambda>(ok, s). if ok then emulate_loop env s else Some (False, s)))"

definition zero_level :: IbStack where
  "zero_level =
    \<lparr>stk_cur_va = 0, stk_cur_ib_addr = 0, stk_cur_ib_size_in_dwords = 0, stk_cur_ib_skip = False,
     stk_cur_ib_enable_mask = 0, stk_cur_ib_type = kNormal, stk_queue = [], stk_queue_index = 0\<rparr>"

definition EmulateState_start :: "u32 \<Rightarrow> EmulateState" where
  "EmulateState_start submit_index =
    \<lparr>es_ib_index = 0, es_submit_index = submit_index,
     es_ib_stack = (replicate kTotalIbLevels zero_level)[kPrimaryRing := zero_level\<lparr>stk_cur_va := - 1\<rparr>],
     es_top_of_stack = kPrimaryRing\<rparr>"

fun queue_submit_ibs ::
    "bool \<Rightarrow> IndirectBufferInfo list \<Rightarrow> EmulateState \<Rightarrow> (bool \<times> EmulateState) option" where
  "queue_submit_ibs debug [] es = Some (True, es)"
| "queue_submit_ibs debug (ib # ibs) es =
    do {
      (ok, es) \<leftarrow> QueueIB debug (ib_va_addr ib) (ib_size_in_dwords ib) (ib_skip ib) kNormal 7 es;
      if \<not> ok then Some (False, es) else queue_submit_ibs debug ibs es
    }"

definition ExecuteSubmit ::
    "('c, 'm) emu_env \<Rightarrow> u32 \<Rightarrow> IndirectBufferInfo list \<Rightarrow> 'c \<Rightarrow> 'm \<Rightarrow> (bool \<times> ('c, 'm) emu) option" where
  "ExecuteSubmit env submit_index ibs c m =
    do {
      (ok, es) \<leftarrow> queue_submit_ibs (env_debug env) ibs (EmulateState_start submit_index);
      if \<not> ok then Some (False, es, c, m)
      else
        and_then (AdvanceToQueuedIB env (es, c, m)) (\<lambda>s.
          and_then (CheckAndAdvanceIB env s) (emulate_loop env))
    }"

text \<open>\<^verbatim>\<open>GetIndirectBufferInfoPtr\<close> takes the address of the first IB, which a debug build asserts to exist.\<close>

fun process_submits ::
    "('c, 'm) emu_env \<Rightarrow> u32 \<Rightarrow> SubmitInfo list \<Rightarrow> 'c \<Rightarrow> 'm \<Rightarrow> (bool \<times> 'c \<times> 'm) option" where
  "process_submits env submit_index [] c m = Some (True, c, m)"
| "process_submits env submit_index (submit_info # submits) c m =
    (let c = env_OnSubmitStart env submit_index submit_info c in
     if m_is_dummy_submit submit_info \<or>
        (m_engine_type submit_info \<noteq> EngineType_kUniversal \<and> m_engine_type submit_info \<noteq> EngineType_kCompute)
     then process_submits env (submit_index + 1) submits (env_OnSubmitEnd env submit_index submit_info c) m
     else do {
       DIVE_ASSERT (env_debug env) (m_ibs submit_info \<noteq> []);
       (ok, es, c, m) \<leftarrow> ExecuteSubmit env submit_index (m_ibs submit_info) c m;
       if \<not> ok then Some (False, c, m)
       else process_submits env (submit_index + 1) submits (env_OnSubmitEnd env submit_index submit_info c) m
     })"

definition ProcessSubmits ::
    "('c, 'm) emu_env \<Rightarrow> SubmitInfo list \<Rightarrow> 'c \<Rightarrow> 'm \<Rightarrow> (bool \<times> 'c \<times> 'm) option" where
  "ProcessSubmits env submits c m = process_submits env 0 submits c m"

section \<open>Well-formed emulator states\<close>

definition level_ok :: "IbStack \<Rightarrow> bool" where
  "level_ok stk \<longleftrightarrow> stk_queue_index stk \<le> length (stk_queue stk) \<and> length (stk_queue stk) \<le> kMaxPendingIbs"

definition ring_ok :: "IbStack \<Rightarrow> bool" where
  "ring_ok stk \<longleftrightarrow> stk_cur_va stk = - 1 \<and> (\<forall>q \<in> set (stk_queue stk). q_type q = kNormal)"

definition es_ok :: "EmulateState \<Rightarrow> bool" where
  "es_ok es \<longleftrightarrow>
     length (es_ib_stack es) = kTotalIbLevels \<and> es_top_of_stack es < kTotalIbLevels \<and>
     (\<forall>stk \<in> set (es_ib_stack es). level_ok stk) \<and> ring_ok (es_ib_stack es ! kPrimaryRing)"

lemma es_ok_cur:
  assumes "es_ok es"
  shows "es_top_of_stack es < length (es_ib_stack es)" "level_ok (GetCurIb es)"
  using assms by (simp_all add: es_ok_def GetCurIb_def)

lemma es_ok_set_level:
  assumes "es_ok es" "level_ok stk" "i = kPrimaryRing \<Longrightarrow> ring_ok stk"
  shows "es_ok (set_level i stk es)"
  using assms set_update_subset_insert [of "es_ib_stack es" i stk]
  by (auto simp: es_ok_def set_level_def kPrimaryRing_def kTotalIbLevels_def nth_upd)

lemma es_ok_set_cur:
  assumes "es_ok es" "level_ok stk" "es_top_of_stack es = kPrimaryRing \<Longrightarrow> ring_ok stk"
  shows "es_ok (set_cur stk es)"
  unfolding set_cur_def using es_ok_set_level [OF assms(1,2)] assms(3) by blast

lemma es_ok_top: "es_ok es \<Longrightarrow> t < kTotalIbLevels \<Longrightarrow> es_ok (es\<lparr>es_top_of_stack := t\<rparr>)"
  by (simp add: es_ok_def)

lemma es_ok_ib_index: "es_ok (es\<lparr>es_ib_index := i\<rparr>) = es_ok es"
  by (simp add: es_ok_def)

lemma EmulateState_start_ok: "es_ok (EmulateState_start s)"
  by (auto simp: es_ok_def EmulateState_start_def kPrimaryRing_def kTotalIbLevels_def
      level_ok_def ring_ok_def zero_level_def numeral_eq_Suc)

text \<open>
  Operations that keep the level and the enable masks and types of all levels; unless \<open>ch\<close>, they queue no
  CHAIN.
\<close>

definition masks :: "EmulateState \<Rightarrow> u32 list" where
  "masks es = map stk_cur_ib_enable_mask (es_ib_stack es)"

definition cur_types :: "EmulateState \<Rightarrow> IbType list" where
  "cur_types es = map stk_cur_ib_type (es_ib_stack es)"

definition no_chain :: "EmulateState \<Rightarrow> bool" where
  "no_chain es \<longleftrightarrow> (\<forall>stk \<in> set (es_ib_stack es). \<forall>q \<in> set (stk_queue stk). q_type q \<noteq> kChain)"

definition ring_queue :: "EmulateState \<Rightarrow> queued_ib list" where
  "ring_queue es = stk_queue (es_ib_stack es ! kPrimaryRing)"

definition same_level :: "bool \<Rightarrow> EmulateState \<Rightarrow> EmulateState \<Rightarrow> bool" where
  "same_level ch es es' \<longleftrightarrow> es_ok es' \<and> es_top_of_stack es' = es_top_of_stack es \<and>
     es_submit_index es' = es_submit_index es \<and> es_ib_index es' = es_ib_index es \<and>
     masks es' = masks es \<and> cur_types es' = cur_types es \<and> (\<not> ch \<and> no_chain es \<longrightarrow> no_chain es') \<and>
     (es_top_of_stack es \<noteq> kPrimaryRing \<longrightarrow> ring_queue es' = ring_queue es)"

lemma ring_queue_simps [simp]:
  "ring_queue (es\<lparr>es_top_of_stack := i\<rparr>) = ring_queue es"
  "ring_queue (es\<lparr>es_ib_index := j\<rparr>) = ring_queue es"
  by (simp_all add: ring_queue_def)

lemma same_level_refl: "es_ok es \<Longrightarrow> same_level ch es es"
  by (simp add: same_level_def)

lemma same_level_trans: "same_level ch a b \<Longrightarrow> same_level ch b c \<Longrightarrow> same_level ch a c"
  by (simp add: same_level_def)

lemma same_level_mono: "same_level False a b \<Longrightarrow> same_level ch a b"
  by (simp add: same_level_def)

lemma masks_set_level:
  "i < length (es_ib_stack es) \<Longrightarrow> masks (set_level i stk es) = (masks es)[i := stk_cur_ib_enable_mask stk]"
  by (simp add: masks_def set_level_def map_update)

lemma cur_types_set_level:
  "cur_types (set_level i stk es) = (cur_types es)[i := stk_cur_ib_type stk]"
  by (simp add: cur_types_def set_level_def map_update)

lemma no_chain_set_level:
  "no_chain es \<Longrightarrow> \<forall>q \<in> set (stk_queue stk). q_type q \<noteq> kChain \<Longrightarrow> no_chain (set_level i stk es)"
  using set_update_subset_insert [of "es_ib_stack es" i stk] by (auto simp: no_chain_def set_level_def)

lemma no_chain_cur: "no_chain es \<Longrightarrow> es_ok es \<Longrightarrow> q \<in> set (stk_queue (GetCurIb es)) \<Longrightarrow> q_type q \<noteq> kChain"
  using nth_mem [OF es_ok_cur(1) [of es]] by (auto simp: no_chain_def GetCurIb_def)

lemma same_level_set_cur:
  assumes "es_ok es" "level_ok stk" "es_top_of_stack es = kPrimaryRing \<Longrightarrow> ring_ok stk"
    and "stk_cur_ib_enable_mask stk = stk_cur_ib_enable_mask (GetCurIb es)"
    and "stk_cur_ib_type stk = stk_cur_ib_type (GetCurIb es)"
    and "\<And>q. \<not> ch \<Longrightarrow> no_chain es \<Longrightarrow> q \<in> set (stk_queue stk) \<Longrightarrow> q_type q \<noteq> kChain"
  shows "same_level ch es (set_cur stk es)"
proof -
  have "masks (set_cur stk es) = masks es"
    using masks_set_level [OF es_ok_cur(1) [OF assms(1)], of stk] assms(4) es_ok_cur(1) [OF assms(1)]
    by (simp add: set_cur_def masks_def GetCurIb_def list_update_same_conv)
  moreover have "cur_types (set_cur stk es) = cur_types es"
    using assms(5) es_ok_cur(1) [OF assms(1)]
    by (simp add: set_cur_def set_level_def cur_types_def GetCurIb_def map_update list_update_same_conv)
  moreover have "\<not> ch \<and> no_chain es \<longrightarrow> no_chain (set_cur stk es)"
    unfolding set_cur_def using no_chain_set_level assms(6) by blast
  moreover have "es_top_of_stack es \<noteq> kPrimaryRing \<longrightarrow> ring_queue (set_cur stk es) = ring_queue es"
    by (simp add: ring_queue_def set_cur_def set_level_def)
  ultimately show ?thesis
    using es_ok_set_cur [OF assms(1-3)] by (simp add: same_level_def)
qed

lemma reset_queue_ok: "es_ok es \<Longrightarrow> same_level ch es (reset_queue es)"
proof -
  assume ok: "es_ok es"
  have "es_top_of_stack es = kPrimaryRing \<Longrightarrow> ring_ok (GetCurIb es)"
    using ok by (simp add: es_ok_def GetCurIb_def)
  then show ?thesis
    unfolding reset_queue_def by (intro same_level_set_cur ok) (auto simp: level_ok_def ring_ok_def)
qed

lemma QueueIB_ok:
  assumes "es_ok es" "QueueIB debug addr n skip type emask es = Some (ok, es')"
    and "es_top_of_stack es = kPrimaryRing \<Longrightarrow> type = kNormal" "type = kChain \<Longrightarrow> ch"
  shows "same_level ch es es'"
proof -
  have "es_top_of_stack es = kPrimaryRing \<Longrightarrow> ring_ok (GetCurIb es)"
    using assms(1) by (simp add: es_ok_def GetCurIb_def)
  then show ?thesis
    using assms es_ok_cur [OF assms(1)] no_chain_cur [OF _ assms(1)]
    by (auto simp: QueueIB_def Let_def ring_ok_def level_ok_def same_level_refl
        split: if_splits bind_splits intro!: same_level_set_cur)
qed

lemma AdvancePacket_ok:
  assumes "es_ok es" "AdvancePacket debug h es = Some es'" "es_top_of_stack es \<noteq> kPrimaryRing"
  shows "same_level ch es es'"
  using assms es_ok_cur [OF assms(1)] no_chain_cur [OF _ assms(1)]
  by (auto simp: AdvancePacket_def level_ok_def intro!: same_level_set_cur)

text \<open>The loops that queue IBs one after the other, all with types from \<open>T\<close>.\<close>

inductive queued :: "IbType set \<Rightarrow> EmulateState \<Rightarrow> EmulateState \<Rightarrow> bool" for T where
  queued_refl: "queued T es es"
| queued_step: "\<lbrakk>QueueIB debug addr n skip type emask es = Some (ok, es1); type \<in> T; queued T es1 es2\<rbrakk> \<Longrightarrow>
    queued T es es2"

lemma queued_bind:
  assumes "Option.bind (QueueIB debug addr n skip type emask es) k = Some r" "type \<in> T"
    and "\<And>ok es1. k (ok, es1) = Some r \<Longrightarrow> queued T es1 es2"
  shows "queued T es es2"
  using assms by (auto simp: bind_eq_Some_conv intro: queued_step)

lemma queue_draw_states_queued:
  "queue_draw_states debug elems b es = Some (ok, b', es') \<Longrightarrow> queued {kDrawState} es es'"
proof (induction elems arbitrary: b es)
  case (Cons e elems)
  then show ?case
    by (auto simp: Let_def split: if_splits intro: queued_refl elim!: queued_bind)
qed (simp add: queued_refl)

lemma queue_draw_table_queued:
  "queue_draw_table debug n draw ib stride es = Some (ok, es') \<Longrightarrow> queued {kFixedStrideDrawTable} es es'"
proof (induction n arbitrary: draw es)
  case (Suc n)
  then show ?case
    by (auto split: if_splits intro: queued_refl elim!: queued_bind)
qed (simp add: queued_refl)

lemma queue_bins_queued:
  "queue_bins debug n bin pa pd ca cd es = Some (ok, es') \<Longrightarrow> queued {kBinPrefix, kBinCommon} es es'"
proof (induction n arbitrary: bin es)
  case (Suc n)
  then show ?case
    by (auto simp: queued_refl split: if_splits elim!: queued_bind)
qed (simp add: queued_refl)

lemma queue_submit_ibs_queued:
  "queue_submit_ibs debug ibs es = Some (ok, es') \<Longrightarrow> queued {kNormal} es es'"
proof (induction ibs arbitrary: es)
  case (Cons ib ibs)
  then show ?case
    by (auto split: if_splits intro: queued_refl elim!: queued_bind)
qed (simp add: queued_refl)

lemma queued_ok:
  assumes "queued T es es'" "es_ok es" "es_top_of_stack es = kPrimaryRing \<Longrightarrow> T \<subseteq> {kNormal}" "kChain \<notin> T"
  shows "same_level ch es es'"
  using assms
proof induction
  case (queued_refl es)
  then show ?case
    by (simp add: same_level_refl)
next
  case (queued_step debug addr n skip type emask es ok es1 es2)
  have "same_level ch es es1"
    by (rule QueueIB_ok [OF queued_step.prems(1) queued_step.hyps(1)]) (use queued_step in auto)
  then show ?case
    using queued_step.IH queued_step.prems same_level_trans by (auto simp: same_level_def)
qed

text \<open>All IBs of the submit have been taken from the queue of the primary ring.\<close>

definition ring_done :: "EmulateState \<Rightarrow> bool" where
  "ring_done es \<longleftrightarrow>
     stk_queue_index (es_ib_stack es ! kPrimaryRing) = length (stk_queue (es_ib_stack es ! kPrimaryRing))"

definition moved_on :: "EmulateState \<Rightarrow> EmulateState \<Rightarrow> bool" where
  "moved_on es es' \<longleftrightarrow>
     es_ok es' \<and> es_submit_index es' = es_submit_index es \<and> ring_queue es' = ring_queue es"

lemma moved_on_trans: "moved_on a b \<Longrightarrow> moved_on b c \<Longrightarrow> moved_on a c"
  by (simp add: moved_on_def)

lemma moved_on_refl: "es_ok es \<Longrightarrow> moved_on es es"
  by (simp add: moved_on_def)

lemma start_ib_ok:
  assumes "es_ok es" "es_top_of_stack es \<noteq> kPrimaryRing" "start_ib env (es, c, m) = Some (ok, es', c', m')"
  shows "same_level ch es es' \<and> m' = m"
proof -
  obtain b where es': "es' = set_cur ((GetCurIb es)\<lparr>stk_cur_ib_skip := b\<rparr>) es" and m: "m' = m"
    using assms(3) by (auto simp: start_ib_def Let_def split: bind_splits)
  show ?thesis
    unfolding es' using assms(2) es_ok_cur [OF assms(1)] no_chain_cur [OF _ assms(1)]
    by (auto intro!: same_level_set_cur assms(1) simp: level_ok_def m)
qed

lemma enter_ib_ok:
  assumes "es_ok es" "es_top_of_stack es + 1 < length (es_ib_stack es)"
    and "stk_queue_index (GetCurIb es) < length (stk_queue (GetCurIb es))"
  shows "es_ok (enter_ib q es)" "es_submit_index (enter_ib q es) = es_submit_index es"
proof -
  let ?t = "es_top_of_stack es"
  have t: "Suc ?t < kTotalIbLevels"
    using assms(1,2) by (simp add: es_ok_def)
  have ring: "?t = kPrimaryRing \<Longrightarrow> ring_ok (GetCurIb es)" and lv: "level_ok (GetCurIb es)"
    using assms(1) es_ok_cur [OF assms(1)] by (simp_all add: es_ok_def GetCurIb_def)
  show "es_ok (enter_ib q es)"
    unfolding enter_ib_def Let_def
    using ring lv t assms(3)
    by (intro es_ok_set_level es_ok_top)
      (auto simp: es_ok_ib_index assms(1) level_ok_def ring_ok_def kPrimaryRing_def kMaxPendingIbs_def
        split: if_splits)
  show "es_submit_index (enter_ib q es) = es_submit_index es"
    by (simp add: enter_ib_def Let_def set_level_def)
qed

lemma enter_ib_ring: "ring_queue (enter_ib q es) = ring_queue es"
  by (cases "es_ib_stack es") (auto simp: enter_ib_def Let_def ring_queue_def set_level_def GetCurIb_def kPrimaryRing_def
      nth_list_update split: nat.split)

lemma chain_ib_ring: "es_top_of_stack es \<noteq> kPrimaryRing \<Longrightarrow> ring_queue (chain_ib q es) = ring_queue es"
  by (simp add: chain_ib_def Let_def ring_queue_def set_cur_def set_level_def)

lemma chain_ib_ok:
  assumes "es_ok es" "es_top_of_stack es \<noteq> kPrimaryRing"
    and "stk_queue_index (GetCurIb es) < length (stk_queue (GetCurIb es))"
  shows "es_ok (chain_ib q es)"
  unfolding chain_ib_def Let_def using assms es_ok_cur [OF assms(1)]
  by (intro es_ok_set_cur) (auto simp: level_ok_def)

lemma chain_ib_simps [simp]:
  "es_top_of_stack (chain_ib q es) = es_top_of_stack es" "es_submit_index (chain_ib q es) = es_submit_index es"
  by (simp_all add: chain_ib_def Let_def)

lemma AdvanceToQueuedIB_ok:
  assumes ok: "es_ok es" and r: "AdvanceToQueuedIB env (es, c, m) = Some (b, es', c', m')"
  shows "moved_on es es' \<and> m' = m \<and> (es_top_of_stack es' = kPrimaryRing \<longrightarrow> ring_done es')"
proof -
  let ?cur = "GetCurIb es"
  have lv: "level_ok ?cur"
    using es_ok_cur [OF ok] by simp
  consider (idle) "stk_queue_index ?cur \<ge> length (stk_queue ?cur)" "es' = es" "m' = m"
    | (call) q where "stk_queue_index ?cur < length (stk_queue ?cur)"
        "es_top_of_stack es + 1 < length (es_ib_stack es)"
        "start_ib env (enter_ib q es, c, m) = Some (b, es', c', m')"
    | (chain) "stk_queue_index ?cur < length (stk_queue ?cur)" "q_type (stk_queue ?cur ! stk_queue_index ?cur) = kChain"
    using r by (auto simp: AdvanceToQueuedIB_def Let_def not_le split: if_splits bind_splits)
  then show ?thesis
  proof cases
    case idle
    then show ?thesis
      using lv ok by (auto simp: ring_done_def level_ok_def GetCurIb_def moved_on_refl)
  next
    case call
    have "same_level False (enter_ib q es) es' \<and> m' = m"
      by (rule start_ib_ok [OF enter_ib_ok(1) [OF ok call(2,1)] _ call(3)]) (simp add: kPrimaryRing_def)
    then show ?thesis
      using enter_ib_ok(2) [OF ok call(2,1)] enter_ib_ring [of q es]
      by (auto simp: same_level_def moved_on_def kPrimaryRing_def)
  next
    case chain
    have top: "es_top_of_stack es \<noteq> kPrimaryRing"
    proof
      assume "es_top_of_stack es = kPrimaryRing"
      then have "ring_ok ?cur"
        using ok by (simp add: es_ok_def GetCurIb_def)
      then show False
        using chain by (simp add: ring_ok_def)
    qed
    consider "es' = es" "m' = m" | q where "start_ib env (chain_ib q es, c, m) = Some (b, es', c', m')"
      using r chain by (auto simp: AdvanceToQueuedIB_def Let_def split: if_splits bind_splits)
    then show ?thesis
    proof cases
      case 1
      then show ?thesis
        using top ok by (simp add: moved_on_refl)
    next
      case 2
      have "same_level False (chain_ib q es) es' \<and> m' = m"
        using start_ib_ok [OF chain_ib_ok [OF ok top chain(1)] _ 2] top by simp
      then show ?thesis
        using top chain_ib_ring [OF top, of q] by (simp add: same_level_def moved_on_def)
    qed
  qed
qed

lemma AdvanceOutOfIB_ok:
  assumes "es_ok es" "AdvanceOutOfIB env (es, c, m) = Some (b, es', c', m')"
  shows "moved_on es es' \<and> m' = m"
  using assms es_ok_top [OF assms(1), of "es_top_of_stack es - 1"]
  by (auto simp: AdvanceOutOfIB_def Let_def moved_on_def es_ok_def split: if_splits bind_splits)

lemma CheckAndAdvanceIB_ok:
  assumes "es_ok es" "CheckAndAdvanceIB env (es, c, m) = Some (b, es', c', m')"
    and "es_top_of_stack es = kPrimaryRing \<Longrightarrow> ring_done es"
  shows "moved_on es es' \<and> m' = m \<and> (b \<and> es_top_of_stack es' = kPrimaryRing \<longrightarrow> ring_done es')"
  using assms
proof (induction env "(es, c, m)" arbitrary: es c m rule: CheckAndAdvanceIB.induct)
  case (1 env es c m)
  show ?case
  proof (cases "stk_cur_va (GetCurIb es) \<noteq> - 1 \<and> EndOfCurIb (GetCurIb es)")
    case False
    then show ?thesis
      using "1.prems" by (subst (asm) CheckAndAdvanceIB.simps) (auto simp: moved_on_refl)
  next
    case True
    obtain b1 es1 c1 m1 where out: "AdvanceOutOfIB env (es, c, m) = Some (b1, es1, c1, m1)"
      using "1.prems"(2) True by (subst (asm) CheckAndAdvanceIB.simps) (auto split: option.splits)
    note o1 = AdvanceOutOfIB_ok [OF "1.prems"(1) out]
    show ?thesis
    proof (cases b1)
      case False
      then show ?thesis
        using "1.prems"(2) True out o1 by (subst (asm) CheckAndAdvanceIB.simps) auto
    next
      case b1: True
      obtain b2 es2 c2 m2 where adv: "AdvanceToQueuedIB env (es1, c1, m1) = Some (b2, es2, c2, m2)"
        using "1.prems"(2) True out b1 by (subst (asm) CheckAndAdvanceIB.simps) (auto split: option.splits)
      have o2: "moved_on es1 es2 \<and> m2 = m1 \<and> (es_top_of_stack es2 = kPrimaryRing \<longrightarrow> ring_done es2)"
        using AdvanceToQueuedIB_ok [OF _ adv] o1 by (simp add: moved_on_def)
      show ?thesis
      proof (cases b2)
        case False
        then show ?thesis
          using "1.prems"(2) True out b1 adv o1 o2 moved_on_trans
          by (subst (asm) CheckAndAdvanceIB.simps) (auto simp: moved_on_def)
      next
        case b2: True
        have "CheckAndAdvanceIB env (es2, c2, m2) = Some (b, es', c', m')"
          using "1.prems"(2) True out b1 adv b2 by (subst (asm) CheckAndAdvanceIB.simps) simp
        then have "moved_on es2 es' \<and> m' = m2 \<and> (b \<and> es_top_of_stack es' = kPrimaryRing \<longrightarrow> ring_done es')"
          using "1.hyps" [OF True out _ refl adv _ refl, of es2 c2 m2] b1 b2 o2 by (auto simp: moved_on_def)
        then show ?thesis
          using o1 o2 by (auto simp: moved_on_def)
      qed
    qed
  qed
qed

text \<open>What the two steps of a round keep holds when \<^verbatim>\<open>CheckAndAdvanceIB\<close> returns.\<close>

lemma CheckAndAdvanceIB_induct:
  assumes "CheckAndAdvanceIB env s = Some (b, s')" "P s"
    and out: "\<And>s b s'. P s \<Longrightarrow> AdvanceOutOfIB env s = Some (b, s') \<Longrightarrow> if b then Q s' else F s'"
    and adv: "\<And>s b s'. Q s \<Longrightarrow> AdvanceToQueuedIB env s = Some (b, s') \<Longrightarrow> if b then P s' else F s'"
  shows "if b then P s' else F s'"
proof -
  have "if b then P s' else F s'"
    if "e = env" "P (es, c, m)" "CheckAndAdvanceIB e (es, c, m) = Some (b, s')" for e es c m
    using that
  proof (induction e "(es, c, m)" arbitrary: es c m rule: CheckAndAdvanceIB.induct)
    case (1 e es c m)
    show ?case
    proof (cases "stk_cur_va (GetCurIb es) \<noteq> - 1 \<and> EndOfCurIb (GetCurIb es)")
      case False
      then show ?thesis
        using "1.prems" by (subst (asm) CheckAndAdvanceIB.simps) auto
    next
      case True
      obtain b1 s1 where o: "AdvanceOutOfIB env (es, c, m) = Some (b1, s1)"
        using "1.prems" True by (subst (asm) CheckAndAdvanceIB.simps) (auto split: option.splits)
      show ?thesis
      proof (cases b1)
        case False
        then show ?thesis
          using "1.prems" True o out [OF "1.prems"(2) o] by (subst (asm) CheckAndAdvanceIB.simps) auto
      next
        case b1: True
        obtain b2 es2 c2 m2 where a: "AdvanceToQueuedIB env s1 = Some (b2, es2, c2, m2)"
          using "1.prems" True o b1 by (subst (asm) CheckAndAdvanceIB.simps) (auto split: option.splits)
        have o': "AdvanceOutOfIB e (es, c, m) = Some (b1, s1)" and a': "AdvanceToQueuedIB e s1 = Some (b2, es2, c2, m2)"
          using o a "1.prems"(1) by simp_all
        have k: "if b2 then P (es2, c2, m2) else F (es2, c2, m2)"
          using adv [OF _ a] out [OF "1.prems"(2) o] b1 by simp
        show ?thesis
        proof (cases b2)
          case False
          then show ?thesis
            using "1.prems" True o b1 a k by (subst (asm) CheckAndAdvanceIB.simps) auto
        next
          case b2: True
          have "CheckAndAdvanceIB e (es2, c2, m2) = Some (b, s')"
            using "1.prems" True o b1 a b2 by (subst (asm) CheckAndAdvanceIB.simps) simp
          then show ?thesis
            using "1.hyps" [OF True o' _ refl a' _ refl "1.prems"(1)] b1 b2 k by simp
        qed
      qed
    qed
  qed
  then show ?thesis
    using assms(1,2) by (cases s) auto
qed

text \<open>
  Every case of \<^verbatim>\<open>AdvanceCb\<close> stays at its level, and then goes on to a queued IB or not.
\<close>

definition staged ::
    "bool \<Rightarrow> ('c, 'm) emu_env \<Rightarrow> EmulateState \<Rightarrow> 'c \<Rightarrow> bool \<Rightarrow> EmulateState \<Rightarrow> 'c \<Rightarrow> 'm \<Rightarrow> bool" where
  "staged ch env es c b es' c' m' \<longleftrightarrow>
     (\<exists>es1. same_level ch es es1 \<and>
        (es' = es1 \<and> c' = c \<or> (\<exists>m1. AdvanceToQueuedIB env (es1, c, m1) = Some (b, es', c', m'))))"

lemma stagedI:
  assumes "same_level ch es es1" "es' = es1 \<and> c' = c \<or> AdvanceToQueuedIB env (es1, c, mm) = Some (b, es', c', m')"
  shows "staged ch env es c b es' c' m'"
  using assms unfolding staged_def by blast

lemma AdvancePacket_step:
  assumes "same_level ch es es1" "AdvancePacket debug h es1 = Some es2" "es_top_of_stack es \<noteq> kPrimaryRing"
  shows "same_level ch es es2"
proof -
  have "same_level ch es1 es2"
    by (rule AdvancePacket_ok [OF _ assms(2)]) (use assms in \<open>auto simp: same_level_def\<close>)
  then show ?thesis
    by (rule same_level_trans [OF assms(1)])
qed

lemma QueueIB_reset_step:
  assumes "es_ok es" "QueueIB debug addr n skip type emask (reset_queue es) = Some (b, es1)"
    and "es_top_of_stack es \<noteq> kPrimaryRing" "type = kChain \<Longrightarrow> ch"
  shows "same_level ch es es1"
proof -
  note r = reset_queue_ok [OF assms(1), of ch]
  have "same_level ch (reset_queue es) es1"
    by (rule QueueIB_ok [OF _ assms(2)]) (use assms r in \<open>auto simp: same_level_def\<close>)
  then show ?thesis
    by (rule same_level_trans [OF r])
qed

lemma advance_indirect_ok:
  assumes "es_ok es" "es_top_of_stack es \<noteq> kPrimaryRing"
    and "advance_indirect env h (es, c, m) = Some (b, es', c', m')"
  shows "staged (type7_opcode h = isa_op (env_isa env) CP_INDIRECT_BUFFER_CHAIN) env es c b es' c' m'"
proof -
  let ?ch = "type7_opcode h = isa_op (env_isa env) CP_INDIRECT_BUFFER_CHAIN"
  obtain addr n type b1 es1 m1 where q: "QueueIB (env_debug env) addr n False type 7 (reset_queue es) = Some (b1, es1)"
    and type: "type = (if ?ch then kChain else kCall)"
    and k: "es' = es1 \<and> c' = c \<or>
      (\<exists>es2. AdvancePacket (env_debug env) h es1 = Some es2 \<and>
             AdvanceToQueuedIB env (es2, c, m1) = Some (b, es', c', m'))"
    using assms(3) unfolding advance_indirect_def
    by (fastforce simp: Let_def split: prod.splits bind_splits if_splits)
  have s1: "same_level ?ch es es1"
    by (rule QueueIB_reset_step [OF assms(1) q assms(2)]) (simp add: type split: if_splits)
  from k show ?thesis
  proof (elim disjE exE)
    assume "es' = es1 \<and> c' = c"
    then show ?thesis
      by (intro stagedI [OF s1, where mm = m] disjI1)
  next
    fix es2 assume a: "AdvancePacket (env_debug env) h es1 = Some es2 \<and>
             AdvanceToQueuedIB env (es2, c, m1) = Some (b, es', c', m')"
    show ?thesis
      by (rule stagedI [OF AdvancePacket_step [OF s1 conjunct1 [OF a] assms(2)] disjI2 [OF conjunct2 [OF a]]])
  qed
qed

lemma advance_amble_ok:
  assumes "es_ok es" "es_top_of_stack es \<noteq> kPrimaryRing"
    and "advance_amble env h (es, c, m) = Some (b, es', c', m')"
  shows "staged ch env es c b es' c' m'"
proof -
  obtain es1 m1 where p: "AdvancePacket (env_debug env) h es = Some es1"
    and k: "es' = es1 \<and> c' = c \<or>
      (\<exists>addr n b2 es2. QueueIB (env_debug env) addr n False kContextSwitchIb 7 (reset_queue es1) = Some (b2, es2) \<and>
         (es' = es2 \<and> c' = c \<or> AdvanceToQueuedIB env (es2, c, m1) = Some (b, es', c', m')))"
    using assms(3) unfolding advance_amble_def
    by (fastforce simp: Let_def split: prod.splits bind_splits if_splits)
  have s1: "same_level ch es es1"
    by (rule AdvancePacket_ok [OF assms(1) p assms(2)])
  from k show ?thesis
  proof (elim disjE [of "es' = es1 \<and> c' = c"] exE)
    assume "es' = es1 \<and> c' = c"
    then show ?thesis
      by (intro stagedI [OF s1, where mm = m] disjI1)
  next
    fix addr n b2 es2
    assume a: "QueueIB (env_debug env) addr n False kContextSwitchIb 7 (reset_queue es1) = Some (b2, es2) \<and>
         (es' = es2 \<and> c' = c \<or> AdvanceToQueuedIB env (es2, c, m1) = Some (b, es', c', m'))"
    have "same_level ch es1 es2"
      by (rule QueueIB_reset_step [OF _ conjunct1 [OF a]]) (use s1 assms(2) in \<open>auto simp: same_level_def\<close>)
    then show ?thesis
      by (rule stagedI [OF same_level_trans [OF s1] conjunct2 [OF a]])
  qed
qed

lemma advance_draw_state_ok:
  assumes "es_ok es" "es_top_of_stack es \<noteq> kPrimaryRing"
    and "advance_draw_state env h (es, c, m) = Some (b, es', c', m')"
  shows "staged ch env es c b es' c' m'"
proof -
  obtain elems b1 ib_queued es1 m1 where
    q: "queue_draw_states (env_debug env) elems False (reset_queue es) = Some (b1, ib_queued, es1)"
    and k: "es' = es1 \<and> c' = c \<or>
      (\<exists>es2. AdvancePacket (env_debug env) h es1 = Some es2 \<and>
             (es' = es2 \<and> c' = c \<or> AdvanceToQueuedIB env (es2, c, m1) = Some (b, es', c', m')))"
    using assms(3) unfolding advance_draw_state_def
    by (fastforce simp: Let_def split: prod.splits bind_splits if_splits)
  note s0 = reset_queue_ok [OF assms(1), of ch]
  have "same_level ch (reset_queue es) es1"
    by (rule queued_ok [OF queue_draw_states_queued [OF q]]) (use s0 assms(2) in \<open>auto simp: same_level_def\<close>)
  then have s1: "same_level ch es es1"
    by (rule same_level_trans [OF s0])
  from k show ?thesis
  proof (elim disjE [of "es' = es1 \<and> c' = c"] exE)
    assume "es' = es1 \<and> c' = c"
    then show ?thesis
      by (intro stagedI [OF s1, where mm = m] disjI1)
  next
    fix es2 assume a: "AdvancePacket (env_debug env) h es1 = Some es2 \<and>
             (es' = es2 \<and> c' = c \<or> AdvanceToQueuedIB env (es2, c, m1) = Some (b, es', c', m'))"
    show ?thesis
      by (rule stagedI [OF AdvancePacket_step [OF s1 conjunct1 [OF a] assms(2)] conjunct2 [OF a]])
  qed
qed

lemma advance_start_bin_ok:
  assumes "es_ok es" "es_top_of_stack es \<noteq> kPrimaryRing"
    and "advance_start_bin env h (es, c, m) = Some (b, es', c', m')"
  shows "staged ch env es c b es' c' m'"
proof -
  obtain va n pa pd ca cd b1 es1 m1 where
    q: "queue_bins (env_debug env) n 0 pa pd ca cd (set_cur ((GetCurIb es)\<lparr>stk_cur_va := va\<rparr>) es) = Some (b1, es1)"
    and k: "es' = es1 \<and> c' = c \<or> AdvanceToQueuedIB env (es1, c, m1) = Some (b, es', c', m')"
    using assms(3) unfolding advance_start_bin_def
    by (fastforce simp: Let_def split: prod.splits bind_splits if_splits)
  have s0: "same_level ch es (set_cur ((GetCurIb es)\<lparr>stk_cur_va := va\<rparr>) es)"
    using assms(1,2) es_ok_cur [OF assms(1)] no_chain_cur [OF _ assms(1)]
    by (intro same_level_set_cur) (auto simp: level_ok_def)
  have "same_level ch (set_cur ((GetCurIb es)\<lparr>stk_cur_va := va\<rparr>) es) es1"
    by (rule queued_ok [OF queue_bins_queued [OF q]]) (use s0 assms(2) in \<open>auto simp: same_level_def\<close>)
  then show ?thesis
    by (rule stagedI [OF same_level_trans [OF s0] k])
qed

lemma advance_draw_table_ok:
  assumes "es_ok es" "es_top_of_stack es \<noteq> kPrimaryRing"
    and "advance_draw_table env h (es, c, m) = Some (b, es', c', m')"
  shows "staged ch env es c b es' c' m'"
proof -
  obtain n ib stride b1 es1 m1 where
    q: "queue_draw_table (env_debug env) n 0 ib stride es = Some (b1, es1)"
    and k: "es' = es1 \<and> c' = c \<or>
      (\<exists>es2. AdvancePacket (env_debug env) h es1 = Some es2 \<and>
             AdvanceToQueuedIB env (es2, c, m1) = Some (b, es', c', m'))"
    using assms(3) unfolding advance_draw_table_def
    by (fastforce simp: Let_def split: prod.splits bind_splits if_splits)
  have s1: "same_level ch es es1"
    by (rule queued_ok [OF queue_draw_table_queued [OF q]]) (use assms in auto)
  from k show ?thesis
  proof (elim disjE exE)
    assume "es' = es1 \<and> c' = c"
    then show ?thesis
      by (intro stagedI [OF s1, where mm = m] disjI1)
  next
    fix es2 assume a: "AdvancePacket (env_debug env) h es1 = Some es2 \<and>
             AdvanceToQueuedIB env (es2, c, m1) = Some (b, es', c', m')"
    show ?thesis
      by (rule stagedI [OF AdvancePacket_step [OF s1 conjunct1 [OF a] assms(2)] disjI2 [OF conjunct2 [OF a]]])
  qed
qed

lemma advance_plain_ok:
  assumes "es_ok es" "es_top_of_stack es \<noteq> kPrimaryRing" "AdvancePacket debug h es = Some es'"
  shows "staged ch env es c True es' c m"
  by (rule stagedI [OF AdvancePacket_ok [OF assms(1,3,2)], where mm = m]) simp

lemmas advance_ok = advance_amble_ok advance_draw_state_ok advance_start_bin_ok advance_draw_table_ok

lemma and_then_Some:
  assumes "and_then r f = Some (b, s)"
  obtains (stop) "\<not> b" "r = Some (False, s)" | (continue) s1 where "r = Some (True, s1)" "f s1 = Some (b, s)"
  using assms by (auto simp: and_then_def split: bind_splits if_splits)

lemma advance_case_ok:
  assumes "es_ok es" "es_top_of_stack es \<noteq> kPrimaryRing"
    and "advance_case env h (es, c, m) = Some (b, es', c', m')"
  shows "staged (is_op (env_isa env) h CP_INDIRECT_BUFFER_CHAIN) env es c b es' c' m'"
proof -
  let ?op = "is_op (env_isa env) h" and ?ch = "is_op (env_isa env) h CP_INDIRECT_BUFFER_CHAIN"
  show ?thesis
  proof (cases "?op CP_INDIRECT_BUFFER_PFE \<or> ?op CP_INDIRECT_BUFFER_PFD \<or> ?op CP_INDIRECT_BUFFER_CHAIN")
    case True
    then have "(type7_opcode h = isa_op (env_isa env) CP_INDIRECT_BUFFER_CHAIN) = ?ch"
      by (auto simp: is_op_def)
    then show ?thesis
      using advance_indirect_ok [OF assms(1,2), of env h c m] assms(3) True
      by (simp add: advance_case_def Let_def)
  next
    case False
    then show ?thesis
      using assms(3)
      by (auto simp: advance_case_def Let_def split: if_splits
          dest: advance_ok [OF assms(1,2), where ch = ?ch] advance_plain_ok [OF assms(1,2), where ch = ?ch])
  qed
qed

lemma staged_moved_on:
  assumes "staged ch env es c b es' c' m'" "es_top_of_stack es \<noteq> kPrimaryRing"
  shows "moved_on es es' \<and> (es_top_of_stack es' = kPrimaryRing \<longrightarrow> ring_done es')"
  using assms(1) unfolding staged_def
proof (elim exE conjE disjE)
  fix es1 assume "same_level ch es es1" "es' = es1"
  then show ?thesis
    using assms(2) by (simp add: same_level_def moved_on_def)
next
  fix es1 m1 assume s: "same_level ch es es1" and a: "AdvanceToQueuedIB env (es1, c, m1) = Some (b, es', c', m')"
  show ?thesis
    using AdvanceToQueuedIB_ok [OF _ a] s assms(2) by (auto simp: same_level_def moved_on_def)
qed

lemma AdvanceCb_ok:
  assumes ok: "es_ok es" and top: "es_top_of_stack es \<noteq> kPrimaryRing"
    and r: "AdvanceCb env h (es, c, m) = Some (b, es', c', m')"
  shows "moved_on es es' \<and> (b \<and> es_top_of_stack es' = kPrimaryRing \<longrightarrow> ring_done es')"
  using r [unfolded AdvanceCb_def]
proof (cases rule: and_then_Some)
  case stop
  then show ?thesis
    using staged_moved_on [OF advance_case_ok [OF ok top stop(2)] top] by simp
next
  case (continue s1)
  obtain es1 c1 m1 where s1: "s1 = (es1, c1, m1)"
    by (cases s1) auto
  note a = staged_moved_on [OF advance_case_ok [OF ok top continue(1) [unfolded s1]] top]
  then have "moved_on es1 es' \<and> m' = m1 \<and> (b \<and> es_top_of_stack es' = kPrimaryRing \<longrightarrow> ring_done es')"
    using CheckAndAdvanceIB_ok [OF _ continue(2) [unfolded s1]] by (simp add: moved_on_def)
  then show ?thesis
    using a by (auto simp: moved_on_def)
qed

lemma emulate_packet_ok:
  assumes "es_ok es" "es_top_of_stack es \<noteq> kPrimaryRing"
    and "emulate_packet env (es, c, m) = Some (b, es', c', m')"
  shows "moved_on es es' \<and> (b \<and> es_top_of_stack es' = kPrimaryRing \<longrightarrow> ring_done es')"
proof -
  consider "es' = es" "\<not> b" | h c1 m1 where "AdvanceCb env h (es, c1, m1) = Some (b, es', c', m')"
    using assms(3) by (auto simp: emulate_packet_def Let_def split: if_splits bind_splits)
  then show ?thesis
  proof cases
    case 1
    then show ?thesis
      using assms(1) by (simp add: moved_on_refl)
  next
    case 2
    show ?thesis
      by (rule AdvanceCb_ok [OF assms(1,2) 2])
  qed
qed

text \<open>What every round keeps holds when the loop returns.\<close>

lemma emulate_loop_induct:
  assumes "emulate_loop env s = Some (b, s')" "P s"
    and "\<And>s b s'. P s \<Longrightarrow> es_top_of_stack (fst s) \<noteq> kPrimaryRing \<Longrightarrow> emulate_packet env s = Some (b, s') \<Longrightarrow>
           (if b then P s' else Q s')"
  shows "if b then P s' \<and> es_top_of_stack (fst s') = kPrimaryRing else Q s'"
proof -
  have "env = env \<longrightarrow> P s \<longrightarrow>
      (if fst y then P (snd y) \<and> es_top_of_stack (fst (snd y)) = kPrimaryRing else Q (snd y))"
    if y: "emulate_loop env s = Some y" for y
  proof (rule emulate_loop.raw_induct [where P = "\<lambda>e s y. e = env \<longrightarrow> P s \<longrightarrow>
      (if fst y then P (snd y) \<and> es_top_of_stack (fst (snd y)) = kPrimaryRing else Q (snd y))", OF _ y], intro impI)
    fix f :: "('a, 'b) emu_env \<Rightarrow> EmulateState \<times> 'a \<times> 'b \<Rightarrow> (bool \<times> EmulateState \<times> 'a \<times> 'b) option"
    fix e s y
    assume IH: "\<And>e s y. f e s = Some y \<Longrightarrow> e = env \<longrightarrow> P s \<longrightarrow>
        (if fst y then P (snd y) \<and> es_top_of_stack (fst (snd y)) = kPrimaryRing else Q (snd y))"
      and body: "(if es_top_of_stack (fst s) = kPrimaryRing then Some (True, s)
        else Option.bind (emulate_packet e s) (\<lambda>(ok, s). if ok then f e s else Some (False, s))) = Some y"
      and e: "e = env" and P: "P s"
    show "if fst y then P (snd y) \<and> es_top_of_stack (fst (snd y)) = kPrimaryRing else Q (snd y)"
    proof (cases "es_top_of_stack (fst s) = kPrimaryRing")
      case True
      then show ?thesis
        using body P by auto
    next
      case False
      obtain ok s1 where p: "emulate_packet env s = Some (ok, s1)"
          and k: "(if ok then f env s1 else Some (False, s1)) = Some y"
        using body False e by (auto simp: bind_eq_Some_conv)
      show ?thesis
        using assms(3) [OF P False p] k IH [of env s1 y] by (auto split: if_splits)
    qed
  qed
  then show ?thesis
    using assms(1,2) by fastforce
qed

text \<open>What the ring holds when the IBs of a submit are queued: those that are not empty, in order.\<close>

definition submitted_ibs :: "IndirectBufferInfo list \<Rightarrow> queued_ib list" where
  "submitted_ibs ibs =
     map (\<lambda>ib. \<lparr>q_type = kNormal, q_addr = ib_va_addr ib, q_size_in_dwords = ib_size_in_dwords ib,
         q_skip = ib_skip ib, q_enable_mask = 7\<rparr>)
       (filter (\<lambda>ib. ib_size_in_dwords ib \<noteq> 0) ibs)"

lemma QueueIB_ring:
  assumes "QueueIB debug addr n skip type emask es = Some (True, es')" "es_ok es" "es_top_of_stack es = kPrimaryRing"
  shows "ring_queue es' = ring_queue es @
    (if n = 0 then []
     else [\<lparr>q_type = type, q_addr = addr, q_size_in_dwords = n, q_skip = skip, q_enable_mask = emask\<rparr>])"
  using assms es_ok_cur(1) [OF assms(2)]
  by (auto simp: QueueIB_def Let_def ring_queue_def set_cur_def set_level_def GetCurIb_def
      split: if_splits bind_splits)

lemma queue_submit_ibs_ring:
  assumes "queue_submit_ibs debug ibs es = Some (True, es')" "es_ok es" "es_top_of_stack es = kPrimaryRing"
  shows "ring_queue es' = ring_queue es @ submitted_ibs ibs"
  using assms
proof (induction ibs arbitrary: es)
  case (Cons ib ibs)
  obtain es1 where q: "QueueIB debug (ib_va_addr ib) (ib_size_in_dwords ib) (ib_skip ib) kNormal 7 es = Some (True, es1)"
    and k: "queue_submit_ibs debug ibs es1 = Some (True, es')"
    using Cons.prems(1) by (auto split: if_splits bind_splits)
  have "same_level False es es1"
    by (rule QueueIB_ok [OF Cons.prems(2) q]) simp_all
  then show ?case
    using Cons.IH [OF k] QueueIB_ring [OF q Cons.prems(2,3)] Cons.prems(3)
    by (simp add: same_level_def submitted_ibs_def)
qed (simp add: submitted_ibs_def)

lemma start_ring:
  "ring_queue (EmulateState_start s) = []" "es_top_of_stack (EmulateState_start s) = kPrimaryRing"
  by (simp_all add: ring_queue_def EmulateState_start_def kPrimaryRing_def kTotalIbLevels_def zero_level_def)

lemma ExecuteSubmit_ok:
  assumes "ExecuteSubmit env s ibs c m = Some (b, es, c', m')"
  shows "es_ok es \<and> es_submit_index es = s \<and>
    (b \<longrightarrow> es_top_of_stack es = kPrimaryRing \<and> ring_done es \<and> ring_queue es = submitted_ibs ibs)"
proof -
  obtain b1 es1 where q: "queue_submit_ibs (env_debug env) ibs (EmulateState_start s) = Some (b1, es1)"
    and k: "(if \<not> b1 then Some (False, es1, c, m)
       else and_then (AdvanceToQueuedIB env (es1, c, m)) (\<lambda>s. and_then (CheckAndAdvanceIB env s) (emulate_loop env))) =
       Some (b, es, c', m')"
    using assms by (auto simp: ExecuteSubmit_def bind_eq_Some_conv)
  note start = EmulateState_start_ok [of s]
  have s1: "same_level False (EmulateState_start s) es1"
    by (rule queued_ok [OF queue_submit_ibs_queued [OF q] start]) auto
  have sub: "es_submit_index es1 = s" and ok1: "es_ok es1"
    using s1 by (simp_all add: same_level_def EmulateState_start_def)
  have ring: "b1 \<Longrightarrow> ring_queue es1 = submitted_ibs ibs"
    using queue_submit_ibs_ring [OF _ start] q by (simp add: start_ring)
  show ?thesis
  proof (cases b1)
    case False
    then show ?thesis
      using k sub ok1 by simp
  next
    case True
    with k have "and_then (AdvanceToQueuedIB env (es1, c, m))
        (\<lambda>s. and_then (CheckAndAdvanceIB env s) (emulate_loop env)) = Some (b, es, c', m')"
      by simp
    then show ?thesis
    proof (cases rule: and_then_Some)
      case stop
      then show ?thesis
        using AdvanceToQueuedIB_ok [OF ok1 stop(2)] sub by (simp add: moved_on_def)
    next
      case (continue s2)
      obtain es2 c2 m2 where s2: "s2 = (es2, c2, m2)"
        by (cases s2) auto
      have o2: "moved_on es1 es2" "es_top_of_stack es2 = kPrimaryRing \<Longrightarrow> ring_done es2"
        using AdvanceToQueuedIB_ok [OF ok1 continue(1) [unfolded s2]] by auto
      from continue(2) show ?thesis
      proof (cases rule: and_then_Some)
        case stop
        then show ?thesis
          using CheckAndAdvanceIB_ok [OF _ stop(2) [unfolded s2] o2(2)] o2(1) sub by (auto simp: moved_on_def)
      next
        case (continue s3)
        obtain es3 c3 m3 where s3: "s3 = (es3, c3, m3)"
          by (cases s3) auto
        have o3: "moved_on es2 es3" "es_top_of_stack es3 = kPrimaryRing \<Longrightarrow> ring_done es3"
          using CheckAndAdvanceIB_ok [OF _ continue(1) [unfolded s2 s3] o2(2)] o2(1) by (auto simp: moved_on_def)
        let ?P = "\<lambda>(es, c, m). es_ok es \<and> es_submit_index es = s \<and> ring_queue es = submitted_ibs ibs \<and>
            (es_top_of_stack es = kPrimaryRing \<longrightarrow> ring_done es)"
        let ?Q = "\<lambda>(es, c, m). es_ok es \<and> es_submit_index es = s"
        have "if b then ?P (es, c', m') \<and> es_top_of_stack (fst (es, c', m')) = kPrimaryRing else ?Q (es, c', m')"
        proof (rule emulate_loop_induct [where P = ?P and Q = ?Q, OF continue(2)])
          show "?P s3"
            using o2 o3 sub s3 ring [OF True] by (auto simp: moved_on_def)
        next
          fix x b' x' assume x: "?P x" "es_top_of_stack (fst x) \<noteq> kPrimaryRing" "emulate_packet env x = Some (b', x')"
          obtain e1 d1 n1 e2 d2 n2 where eq: "x = (e1, d1, n1)" "x' = (e2, d2, n2)"
            by (cases x, cases x') auto
          have "es_ok e1" "es_submit_index e1 = s" "ring_queue e1 = submitted_ibs ibs" "es_top_of_stack e1 \<noteq> kPrimaryRing"
            using x(1,2) eq by simp_all
          then show "if b' then ?P x' else ?Q x'"
            using emulate_packet_ok [OF _ _ x(3) [unfolded eq]] by (simp add: eq moved_on_def)
        qed
        then show ?thesis
          by (auto split: if_splits)
      qed
    qed
  qed
qed

end
