(* ===== verification/Pm4_Memory.thy ===== *)
theory Pm4_Memory
  imports Dive_Prelude "HOL-Library.Multiset" "HOL-Library.Product_Lexorder" "HOL-Library.Monad_Syntax"
begin

text \<open>
  The captured GPU memory of \<^verbatim>\<open>dive_core/pm4_capture_data.cpp\<close>: the classes \<^verbatim>\<open>MemoryManager\<close> and
  \<^verbatim>\<open>MemoryAllocationInfo\<close>.

  A memory block is the bytes captured at a GPU address for a submit; \<^verbatim>\<open>m_data_ptr\<close> and
  \<^verbatim>\<open>m_data_size\<close> are a list of bytes and its size. Addresses are 64-bit words, so that every sum
  wraps as in the code. \<^verbatim>\<open>m_last_used_block_ptr\<close> points into the vector of blocks: growing or
  replacing the vector leaves it dangling, and using it then is undefined (\<open>None\<close>).

  Shown here: what \<^verbatim>\<open>RetrieveMemoryData\<close> returns does not depend on the cached block and is the
  content of the flat memory that the blocks describe; \<^verbatim>\<open>GetMaxContiguousSize\<close>, \<^verbatim>\<open>IsValid\<close> and
  \<^verbatim>\<open>GetMemoryOfUnknownSizeViaCallback\<close> agree with it; \<^verbatim>\<open>Finalize\<close> establishes the order of the
  blocks they rely on.
\<close>

section \<open>State\<close>

record MemoryData =
  md_data_size :: u32
  md_data :: buffer

record MemoryBlock =
  mb_va_addr :: u64
  mb_submit_index :: u32
  mb_data_size :: u32
  mb_data :: buffer

datatype block_ptr = null_block | block_at nat | dangling_block

record MemoryAllocationData =
  ma_gpu_virt_addr :: u64
  ma_size :: u64

datatype MemoryAllocationsType = kInternalAllocs | kGlobalAllocs | kOtherAllocs

record MemoryAllocationInfo =
  m_internal_allocs :: "MemoryAllocationData list"
  m_global_allocs :: "MemoryAllocationData list"

record MemoryManager =
  m_last_used_block_ptr :: block_ptr
  m_memory_blocks :: "MemoryBlock list"
  m_memory_allocations :: MemoryAllocationInfo
  m_same_submit_only :: bool

definition MemoryManager_new :: MemoryManager where
  "MemoryManager_new =
    \<lparr>m_last_used_block_ptr = null_block, m_memory_blocks = [],
     m_memory_allocations = \<lparr>m_internal_allocs = [], m_global_allocs = []\<rparr>,
     m_same_submit_only = True\<rparr>"

section \<open>Allocations\<close>

fun find_allocation :: "MemoryAllocationData list \<Rightarrow> u64 \<Rightarrow> u64 \<Rightarrow> MemoryAllocationData option" where
  "find_allocation [] va_addr nbytes = None"
| "find_allocation (alloc_data # allocs) va_addr nbytes =
    (if ma_gpu_virt_addr alloc_data \<le> va_addr \<and>
        va_addr + nbytes \<le> ma_gpu_virt_addr alloc_data + ma_size alloc_data
     then Some alloc_data else find_allocation allocs va_addr nbytes)"

definition FindInternalAllocation ::
    "MemoryAllocationInfo \<Rightarrow> u64 \<Rightarrow> u64 \<Rightarrow> MemoryAllocationData option" where
  "FindInternalAllocation info va_addr nbytes = find_allocation (m_internal_allocs info) va_addr nbytes"

definition FindGlobalAllocation ::
    "MemoryAllocationInfo \<Rightarrow> u64 \<Rightarrow> u64 \<Rightarrow> MemoryAllocationData option" where
  "FindGlobalAllocation info va_addr nbytes = find_allocation (m_global_allocs info) va_addr nbytes"

text \<open>
  \<open>kOtherAllocs\<close> stands for the values outside the enumeration that a capture file can hold. There can
  be only one set of internal and one of global allocations.
\<close>

definition MemoryAllocationInfo_AddMemoryAllocations ::
    "bool \<Rightarrow> MemoryAllocationsType \<Rightarrow> MemoryAllocationData list \<Rightarrow> MemoryAllocationInfo \<Rightarrow>
     MemoryAllocationInfo option" where
  "MemoryAllocationInfo_AddMemoryAllocations debug type allocations info =
    (case type of
       kInternalAllocs \<Rightarrow> do {
         DIVE_ASSERT debug (m_internal_allocs info = []);
         Some (info\<lparr>m_internal_allocs := allocations\<rparr>)
       }
     | kGlobalAllocs \<Rightarrow> do {
         DIVE_ASSERT debug (m_global_allocs info = []);
         Some (info\<lparr>m_global_allocs := allocations\<rparr>)
       }
     | kOtherAllocs \<Rightarrow> Some info)"

definition MemoryManager_AddMemoryAllocations ::
    "bool \<Rightarrow> MemoryAllocationsType \<Rightarrow> MemoryAllocationData list \<Rightarrow> MemoryManager \<Rightarrow> MemoryManager option" where
  "MemoryManager_AddMemoryAllocations debug type allocations mm =
    map_option (\<lambda>info. mm\<lparr>m_memory_allocations := info\<rparr>)
      (MemoryAllocationInfo_AddMemoryAllocations debug type allocations (m_memory_allocations mm))"

section \<open>Adding blocks and finalizing\<close>

text \<open>\<^verbatim>\<open>push_back\<close> may reallocate, so a pointer to a block does not survive it.\<close>

definition moved :: "block_ptr \<Rightarrow> block_ptr" where
  "moved p = (if p = null_block then null_block else dangling_block)"

definition AddMemoryBlock :: "u32 \<Rightarrow> u64 \<Rightarrow> MemoryData \<Rightarrow> MemoryManager \<Rightarrow> MemoryManager" where
  "AddMemoryBlock submit_index va_addr data mm =
    mm\<lparr>m_memory_blocks := m_memory_blocks mm @
         [\<lparr>mb_va_addr = va_addr, mb_submit_index = submit_index,
           mb_data_size = md_data_size data, mb_data = md_data data\<rparr>],
       m_last_used_block_ptr := moved (m_last_used_block_ptr mm)\<rparr>"

definition sort_blocks :: "bool \<Rightarrow> MemoryBlock list \<Rightarrow> MemoryBlock list" where
  "sort_blocks same_submit_only bs =
    (if same_submit_only then sort_key (\<lambda>b. (mb_submit_index b, mb_va_addr b)) bs
     else sort_key mb_va_addr bs)"

text \<open>
  The loop that removes re-captured blocks, with \<^verbatim>\<open>prev_addr\<close>, \<^verbatim>\<open>prev_submit\<close> and \<^verbatim>\<open>prev_size\<close>.
  \<open>temp\<close> is \<^verbatim>\<open>temp_memory_blocks\<close>; reading the back of an empty vector is undefined.
\<close>

fun dedup_blocks ::
    "bool \<Rightarrow> u64 \<Rightarrow> u32 \<Rightarrow> u32 \<Rightarrow> MemoryBlock list \<Rightarrow> MemoryBlock list \<Rightarrow> MemoryBlock list option" where
  "dedup_blocks debug prev_addr prev_submit prev_size temp [] = Some temp"
| "dedup_blocks debug prev_addr prev_submit prev_size temp (b # bs) =
    (if mb_submit_index b \<noteq> prev_submit
     then dedup_blocks debug (mb_va_addr b) (mb_submit_index b) (mb_data_size b) (temp @ [b]) bs
     else if mb_va_addr b \<ge> prev_addr + ucast prev_size
     then dedup_blocks debug (mb_va_addr b) prev_submit (mb_data_size b) (temp @ [b]) bs
     else if debug \<and> mb_va_addr b \<noteq> prev_addr then None
     else if temp = [] then None
     else if mb_data_size b \<ge> mb_data_size (last temp)
     then dedup_blocks debug (mb_va_addr b) prev_submit (mb_data_size b) (butlast temp @ [b]) bs
     else dedup_blocks debug (mb_va_addr b) prev_submit (mb_data_size b) temp bs)"

definition block_end :: "MemoryBlock \<Rightarrow> u64" where
  "block_end b = mb_va_addr b + ucast (mb_data_size b)"

text \<open>
  The sanity checks of a debug build; the two loops assert the same of \<^verbatim>\<open>cur_addr\<close> and
  \<^verbatim>\<open>cur_submit\<close>.
\<close>

fun no_overlaps :: "u64 \<Rightarrow> u32 \<Rightarrow> MemoryBlock list \<Rightarrow> bool" where
  "no_overlaps cur_addr cur_submit [] = True"
| "no_overlaps cur_addr cur_submit (b # bs) =
    ((mb_submit_index b \<noteq> cur_submit \<or> mb_va_addr b \<ge> cur_addr) \<and>
     no_overlaps (block_end b) (mb_submit_index b) bs)"

definition MemoryManager_Finalize :: "bool \<Rightarrow> bool \<Rightarrow> bool \<Rightarrow> MemoryManager \<Rightarrow> MemoryManager option" where
  "MemoryManager_Finalize debug same_submit_copy_only duplicate_ib_capture mm =
    (let mm = mm\<lparr>m_same_submit_only := same_submit_copy_only,
                 m_memory_blocks := sort_blocks same_submit_copy_only (m_memory_blocks mm)\<rparr> in
     if same_submit_copy_only
     then do {
       temp \<leftarrow> dedup_blocks debug 0 0 0 [] (m_memory_blocks mm);
       DIVE_ASSERT debug (no_overlaps 0 0 temp);
       Some (mm\<lparr>m_memory_blocks := temp, m_last_used_block_ptr := moved (m_last_used_block_ptr mm)\<rparr>)
     }
     else do {
       DIVE_ASSERT debug (duplicate_ib_capture \<or> no_overlaps 0 0 (m_memory_blocks mm));
       Some mm
     })"

section \<open>Reading\<close>

definition valid_submit :: "MemoryManager \<Rightarrow> u32 \<Rightarrow> MemoryBlock \<Rightarrow> bool" where
  "valid_submit mm submit_index b \<longleftrightarrow>
     (if m_same_submit_only mm then submit_index = mb_submit_index b else True)"

text \<open>\<^verbatim>\<open>memcpy\<close> of a piece of a block into the buffer.\<close>

definition copy_into :: "buffer \<Rightarrow> nat \<Rightarrow> buffer \<Rightarrow> buffer" where
  "copy_into buf dst_offset src =
    take dst_offset buf @ src @ drop (dst_offset + length src) buf"

definition block_bytes :: "MemoryBlock \<Rightarrow> u64 \<Rightarrow> u64 \<Rightarrow> buffer" where
  "block_bytes b src_offset nbytes = take (unat nbytes) (drop (unat src_offset) (mb_data b))"

text \<open>The loop over the blocks below index \<open>n\<close>, from the last one down.\<close>

fun retrieve_loop ::
    "u32 \<Rightarrow> u64 \<Rightarrow> u64 \<Rightarrow> nat \<Rightarrow> u64 \<Rightarrow> buffer \<Rightarrow> MemoryManager \<Rightarrow> bool \<times> buffer \<times> MemoryManager" where
  "retrieve_loop submit_index va_addr nbytes 0 amount_copied buf mm = (False, buf, mm)"
| "retrieve_loop submit_index va_addr nbytes (Suc i) amount_copied buf mm =
    (let mem_block = m_memory_blocks mm ! i;
         mem_block_end_addr = block_end mem_block;
         end_addr = va_addr + nbytes;
         overlaps = (va_addr < mem_block_end_addr \<and> mb_va_addr mem_block < end_addr)
     in
     if valid_submit mm submit_index mem_block \<and> overlaps
     then
       let mm = mm\<lparr>m_last_used_block_ptr := block_at i\<rparr>;
           max_start_addr = max va_addr (mb_va_addr mem_block);
           min_end_addr = min mem_block_end_addr end_addr;
           src_offset = max_start_addr - mb_va_addr mem_block;
           dst_offset = max_start_addr - va_addr;
           size_to_copy = min_end_addr - max_start_addr;
           buf = copy_into buf (unat dst_offset) (block_bytes mem_block src_offset size_to_copy);
           amount_copied = amount_copied + size_to_copy
       in
       if amount_copied = nbytes then (True, buf, mm)
       else retrieve_loop submit_index va_addr nbytes i amount_copied buf mm
     else retrieve_loop submit_index va_addr nbytes i amount_copied buf mm)"

definition retrieve_search ::
    "buffer \<Rightarrow> u32 \<Rightarrow> u64 \<Rightarrow> u64 \<Rightarrow> MemoryManager \<Rightarrow> bool \<times> buffer \<times> MemoryManager" where
  "retrieve_search buf submit_index va_addr nbytes mm =
    retrieve_loop submit_index va_addr nbytes (length (m_memory_blocks mm)) 0 buf mm"

definition RetrieveMemoryData ::
    "buffer \<Rightarrow> u32 \<Rightarrow> u64 \<Rightarrow> u64 \<Rightarrow> MemoryManager \<Rightarrow> (bool \<times> buffer \<times> MemoryManager) option" where
  "RetrieveMemoryData buf submit_index va_addr nbytes mm =
    (case m_last_used_block_ptr mm of
       null_block \<Rightarrow> Some (retrieve_search buf submit_index va_addr nbytes mm)
     | dangling_block \<Rightarrow> None
     | block_at i \<Rightarrow>
         if i \<ge> length (m_memory_blocks mm) then None
         else
           let mem_block = m_memory_blocks mm ! i;
               encompasses = (mb_va_addr mem_block \<le> va_addr \<and> va_addr + nbytes \<le> block_end mem_block)
           in
           if valid_submit mm submit_index mem_block \<and> encompasses
           then Some (True,
                      copy_into buf 0 (block_bytes mem_block (va_addr - mb_va_addr mem_block) nbytes), mm)
           else Some (retrieve_search buf submit_index va_addr nbytes mm))"

fun contiguous_loop :: "MemoryManager \<Rightarrow> u32 \<Rightarrow> u64 \<Rightarrow> u64 \<Rightarrow> MemoryBlock list \<Rightarrow> u64" where
  "contiguous_loop mm submit_index va_addr cur_addr [] = cur_addr - va_addr"
| "contiguous_loop mm submit_index va_addr cur_addr (b # bs) =
    (if \<not> valid_submit mm submit_index b then contiguous_loop mm submit_index va_addr cur_addr bs
     else if cur_addr = va_addr
     then
       if mb_va_addr b \<le> va_addr \<and> va_addr < block_end b
       then contiguous_loop mm submit_index va_addr (block_end b) bs
       else contiguous_loop mm submit_index va_addr cur_addr bs
     else if cur_addr = mb_va_addr b
     then contiguous_loop mm submit_index va_addr (block_end b) bs
     else cur_addr - va_addr)"

definition GetMaxContiguousSize :: "MemoryManager \<Rightarrow> u32 \<Rightarrow> u64 \<Rightarrow> u64" where
  "GetMaxContiguousSize mm submit_index va_addr =
    contiguous_loop mm submit_index va_addr va_addr (m_memory_blocks mm)"

definition MemoryManager_IsValid :: "MemoryManager \<Rightarrow> u32 \<Rightarrow> u64 \<Rightarrow> u64 \<Rightarrow> bool" where
  "MemoryManager_IsValid mm submit_index addr nbytes \<longleftrightarrow>
     GetMaxContiguousSize mm submit_index addr \<ge> nbytes"

text \<open>
  The client's callback gets the data, its address and its size, and answers whether to go on; its
  state is the memory behind \<^verbatim>\<open>user_ptr\<close>.
\<close>

type_synonym 'c get_memory = "buffer \<Rightarrow> u64 \<Rightarrow> u64 \<Rightarrow> 'c \<Rightarrow> bool \<times> 'c"

fun unknown_size_loop ::
    "'c get_memory \<Rightarrow> MemoryManager \<Rightarrow> u32 \<Rightarrow> u64 \<Rightarrow> u64 \<Rightarrow> MemoryBlock list \<Rightarrow> 'c \<Rightarrow> 'c" where
  "unknown_size_loop data_callback mm submit_index va_addr cur_addr [] user = user"
| "unknown_size_loop data_callback mm submit_index va_addr cur_addr (b # bs) user =
    (if \<not> valid_submit mm submit_index b
     then unknown_size_loop data_callback mm submit_index va_addr cur_addr bs user
     else if cur_addr = va_addr
     then
       if mb_va_addr b \<le> va_addr \<and> va_addr < block_end b
       then
         case data_callback (drop (unat (va_addr - mb_va_addr b)) (mb_data b)) va_addr
                (block_end b - va_addr) user of
           (go_on, user) \<Rightarrow>
             if \<not> go_on then user
             else unknown_size_loop data_callback mm submit_index va_addr (block_end b) bs user
       else unknown_size_loop data_callback mm submit_index va_addr cur_addr bs user
     else if cur_addr = mb_va_addr b
     then
       case data_callback (mb_data b) cur_addr (ucast (mb_data_size b)) user of
         (go_on, user) \<Rightarrow>
           if \<not> go_on then user
           else unknown_size_loop data_callback mm submit_index va_addr (block_end b) bs user
     else user)"

definition GetMemoryOfUnknownSizeViaCallback ::
    "'c get_memory \<Rightarrow> MemoryManager \<Rightarrow> u32 \<Rightarrow> u64 \<Rightarrow> 'c \<Rightarrow> bool \<times> 'c" where
  "GetMemoryOfUnknownSizeViaCallback data_callback mm submit_index va_addr user =
    (True, unknown_size_loop data_callback mm submit_index va_addr va_addr (m_memory_blocks mm) user)"

section \<open>The flat memory the blocks describe\<close>

definition blk_lo :: "MemoryBlock \<Rightarrow> nat" where
  "blk_lo b = unat (mb_va_addr b)"

definition blk_hi :: "MemoryBlock \<Rightarrow> nat" where
  "blk_hi b = blk_lo b + length (mb_data b)"

text \<open>The size is that of the data, and the block does not reach the end of the address space.\<close>

definition block_ok :: "MemoryBlock \<Rightarrow> bool" where
  "block_ok b \<longleftrightarrow> length (mb_data b) = unat (mb_data_size b) \<and> blk_hi b < 2 ^ 64"

text \<open>A block before another one that the same reads can see lies below it.\<close>

definition below :: "bool \<Rightarrow> MemoryBlock \<Rightarrow> MemoryBlock \<Rightarrow> bool" where
  "below same_submit_only b c \<longleftrightarrow>
     ((same_submit_only \<longrightarrow> mb_submit_index b = mb_submit_index c) \<longrightarrow> blk_hi b \<le> blk_lo c)"

definition blocks_ok :: "MemoryManager \<Rightarrow> bool" where
  "blocks_ok mm \<longleftrightarrow>
     (\<forall>b \<in> set (m_memory_blocks mm). block_ok b) \<and>
     sorted_wrt (below (m_same_submit_only mm)) (m_memory_blocks mm)"

definition ptr_ok :: "MemoryManager \<Rightarrow> bool" where
  "ptr_ok mm \<longleftrightarrow>
     (case m_last_used_block_ptr mm of
        null_block \<Rightarrow> True | block_at i \<Rightarrow> i < length (m_memory_blocks mm) | dangling_block \<Rightarrow> False)"

definition mem_ok :: "MemoryManager \<Rightarrow> bool" where
  "mem_ok mm \<longleftrightarrow> blocks_ok mm \<and> ptr_ok mm"

definition holds :: "MemoryManager \<Rightarrow> u32 \<Rightarrow> nat \<Rightarrow> MemoryBlock \<Rightarrow> bool" where
  "holds mm submit a b \<longleftrightarrow> valid_submit mm submit b \<and> blk_lo b \<le> a \<and> a < blk_hi b"

definition captured :: "MemoryManager \<Rightarrow> u32 \<Rightarrow> nat \<Rightarrow> byte option" where
  "captured mm submit a =
    map_option (\<lambda>b. mb_data b ! (a - blk_lo b)) (find (holds mm submit a) (m_memory_blocks mm))"

lemma unat_block_end: "block_ok b \<Longrightarrow> unat (block_end b) = blk_hi b"
proof -
  assume ok: "block_ok b"
  have "unat (ucast (mb_data_size b) :: u64) = length (mb_data b)"
    using ok by (simp add: block_ok_def unat_ucast_32_64)
  then show ?thesis
    using ok by (simp add: block_end_def block_ok_def blk_hi_def blk_lo_def unat_word_ariths)
qed

lemma blocks_ok_block: "blocks_ok mm \<Longrightarrow> i < length (m_memory_blocks mm) \<Longrightarrow> block_ok (m_memory_blocks mm ! i)"
  by (simp add: blocks_ok_def)

lemma below_nth:
  assumes "blocks_ok mm" "i < j" "j < length (m_memory_blocks mm)"
    and "valid_submit mm s (m_memory_blocks mm ! i)" "valid_submit mm s (m_memory_blocks mm ! j)"
  shows "blk_hi (m_memory_blocks mm ! i) \<le> blk_lo (m_memory_blocks mm ! j)"
proof -
  have "below (m_same_submit_only mm) (m_memory_blocks mm ! i) (m_memory_blocks mm ! j)"
    using assms(1-3) by (simp add: blocks_ok_def sorted_wrt_iff_nth_less)
  then show ?thesis
    using assms(4,5) by (auto simp: below_def valid_submit_def split: if_splits)
qed

lemma holds_unique:
  assumes "blocks_ok mm" "i < length (m_memory_blocks mm)" "j < length (m_memory_blocks mm)"
    and "holds mm s a (m_memory_blocks mm ! i)" "holds mm s a (m_memory_blocks mm ! j)"
  shows "i = j"
  using below_nth [OF assms(1), of i j s] below_nth [OF assms(1), of j i s] assms(2-5)
  by (cases i j rule: linorder_cases) (auto simp: holds_def)

lemma captured_nth:
  assumes "blocks_ok mm" "i < length (m_memory_blocks mm)" "holds mm s a (m_memory_blocks mm ! i)"
  shows "captured mm s a = Some (mb_data (m_memory_blocks mm ! i) ! (a - blk_lo (m_memory_blocks mm ! i)))"
proof -
  obtain j where j: "j < length (m_memory_blocks mm)" "holds mm s a (m_memory_blocks mm ! j)"
      "find (holds mm s a) (m_memory_blocks mm) = Some (m_memory_blocks mm ! j)"
    using assms(2,3) by (cases "find (holds mm s a) (m_memory_blocks mm)")
      (auto simp: find_None_iff find_Some_iff)
  then have "j = i"
    using holds_unique [OF assms(1)] assms(2,3) by blast
  then show ?thesis
    using j by (simp add: captured_def)
qed

lemma captured_iff:
  "captured mm s a \<noteq> None \<longleftrightarrow>
     (\<exists>i < length (m_memory_blocks mm). holds mm s a (m_memory_blocks mm ! i))"
  by (auto simp: captured_def find_None_iff in_set_conv_nth)

section \<open>Copying\<close>

lemma length_copy_into:
  "d + length src \<le> length buf \<Longrightarrow> length (copy_into buf d src) = length buf"
  by (simp add: copy_into_def)

lemma nth_copy_into:
  assumes "d + length src \<le> length buf" "k < length buf"
  shows "copy_into buf d src ! k = (if d \<le> k \<and> k < d + length src then src ! (k - d) else buf ! k)"
  using assms by (auto simp: copy_into_def nth_append min_def)

lemma length_block_bytes:
  "unat off + unat n \<le> length (mb_data b) \<Longrightarrow> length (block_bytes b off n) = unat n"
  by (simp add: block_bytes_def)

lemma nth_block_bytes:
  "k < unat n \<Longrightarrow> unat off + unat n \<le> length (mb_data b) \<Longrightarrow>
     block_bytes b off n ! k = mb_data b ! (unat off + k)"
  by (simp add: block_bytes_def)

section \<open>Retrieving\<close>

text \<open>The addresses of the range that the blocks from index \<open>i\<close> on hold.\<close>

definition found :: "MemoryManager \<Rightarrow> u32 \<Rightarrow> u64 \<Rightarrow> u64 \<Rightarrow> nat \<Rightarrow> nat set" where
  "found mm s va n i =
    {a. unat va \<le> a \<and> a < unat va + unat n \<and>
        (\<exists>j \<ge> i. j < length (m_memory_blocks mm) \<and> holds mm s a (m_memory_blocks mm ! j))}"

definition chunk :: "u64 \<Rightarrow> u64 \<Rightarrow> MemoryBlock \<Rightarrow> nat set" where
  "chunk va n b = {max (unat va) (blk_lo b) ..< min (blk_hi b) (unat va + unat n)}"

lemma found_subset: "found mm s va n i \<subseteq> {unat va ..< unat va + unat n}"
  by (auto simp: found_def)

lemma found_range: "a \<in> found mm s va n i \<Longrightarrow> unat va \<le> a \<and> a < unat va + unat n"
  by (simp add: found_def)

lemma finite_found [simp]: "finite (found mm s va n i)"
  by (rule finite_subset [OF found_subset]) simp

lemma card_found_le: "card (found mm s va n i) \<le> unat n"
  using card_mono [OF _ found_subset [of mm s va n i]] by simp

lemma found_all: "card (found mm s va n i) = unat n \<Longrightarrow> found mm s va n i = {unat va ..< unat va + unat n}"
  by (rule card_subset_eq [OF _ found_subset]) simp_all

lemma found_start: "found mm s va n (length (m_memory_blocks mm)) = {}"
  by (auto simp: found_def)

lemma found_Suc:
  assumes "i < length (m_memory_blocks mm)"
  shows "found mm s va n i = found mm s va n (Suc i) \<union>
    (if valid_submit mm s (m_memory_blocks mm ! i) then chunk va n (m_memory_blocks mm ! i) else {})"
proof -
  have "(\<exists>j \<ge> i. j < length (m_memory_blocks mm) \<and> holds mm s a (m_memory_blocks mm ! j)) \<longleftrightarrow>
        holds mm s a (m_memory_blocks mm ! i) \<or>
        (\<exists>j \<ge> Suc i. j < length (m_memory_blocks mm) \<and> holds mm s a (m_memory_blocks mm ! j))" for a
    using assms by (metis Suc_leD dual_order.order_iff_strict Suc_leI)
  then have "found mm s va n i =
      {a. unat va \<le> a \<and> a < unat va + unat n \<and> holds mm s a (m_memory_blocks mm ! i)} \<union>
      found mm s va n (Suc i)"
    unfolding found_def by blast
  moreover have "{a. unat va \<le> a \<and> a < unat va + unat n \<and> holds mm s a (m_memory_blocks mm ! i)} =
      (if valid_submit mm s (m_memory_blocks mm ! i) then chunk va n (m_memory_blocks mm ! i) else {})"
    by (auto simp: chunk_def holds_def)
  ultimately show ?thesis
    by (simp only: Un_commute)
qed

lemma chunk_disjoint:
  assumes "blocks_ok mm" "i < length (m_memory_blocks mm)" "valid_submit mm s (m_memory_blocks mm ! i)"
  shows "found mm s va n (Suc i) \<inter> chunk va n (m_memory_blocks mm ! i) = {}"
proof -
  have False if a: "a \<in> found mm s va n (Suc i)" "a \<in> chunk va n (m_memory_blocks mm ! i)" for a
  proof -
    obtain j where j: "Suc i \<le> j" "j < length (m_memory_blocks mm)" "holds mm s a (m_memory_blocks mm ! j)"
      using a(1) unfolding found_def by blast
    have "holds mm s a (m_memory_blocks mm ! i)"
      using a(2) assms(3) by (auto simp: chunk_def holds_def)
    then show False
      using holds_unique [OF assms(1,2) j(2)] j by simp
  qed
  then show ?thesis
    by blast
qed

text \<open>What the loop keeps: the found addresses are copied, and counted.\<close>

definition copied :: "MemoryManager \<Rightarrow> u32 \<Rightarrow> u64 \<Rightarrow> u64 \<Rightarrow> nat \<Rightarrow> u64 \<Rightarrow> buffer \<Rightarrow> bool" where
  "copied mm s va n i amount buf \<longleftrightarrow>
     unat amount = card (found mm s va n i) \<and> length buf = unat n \<and>
     (\<forall>a \<in> found mm s va n i. Some (buf ! (a - unat va)) = captured mm s a)"

definition same_blocks :: "MemoryManager \<Rightarrow> MemoryManager \<Rightarrow> bool" where
  "same_blocks mm mm' \<longleftrightarrow>
     m_memory_blocks mm' = m_memory_blocks mm \<and> m_same_submit_only mm' = m_same_submit_only mm"

lemma same_blocks_refl [simp]: "same_blocks mm mm"
  by (simp add: same_blocks_def)

lemma same_blocks_ptr [simp]: "same_blocks mm (mm\<lparr>m_last_used_block_ptr := p\<rparr>)"
  by (simp add: same_blocks_def)

lemma same_blocks_simps:
  assumes "same_blocks mm mm'"
  shows "m_memory_blocks mm' = m_memory_blocks mm" "valid_submit mm' s b = valid_submit mm s b"
    "captured mm' s a = captured mm s a" "found mm' s va n i = found mm s va n i"
    "blocks_ok mm' = blocks_ok mm"
proof -
  show *: "m_memory_blocks mm' = m_memory_blocks mm" "valid_submit mm' s b = valid_submit mm s b" for b
    using assms by (simp_all add: same_blocks_def valid_submit_def)
  have h: "holds mm' s a b = holds mm s a b" for a b
    by (simp add: holds_def *)
  show "captured mm' s a = captured mm s a" "found mm' s va n i = found mm s va n i"
    by (simp_all add: captured_def found_def * h [abs_def])
  show "blocks_ok mm' = blocks_ok mm"
    using assms by (simp add: same_blocks_def blocks_ok_def)
qed

lemma overlap_words:
  assumes "block_ok b" "unat va + unat n < 2 ^ 64"
    and ov: "va < block_end b" "mb_va_addr b < va + n"
  defines "start \<equiv> max va (mb_va_addr b)" and "stop \<equiv> min (block_end b) (va + n)"
  shows "unat (start - mb_va_addr b) = max (unat va) (blk_lo b) - blk_lo b"
    and "unat (start - va) = max (unat va) (blk_lo b) - unat va"
    and "unat (stop - start) = card (chunk va n b)"
    and "max (unat va) (blk_lo b) + card (chunk va n b) = min (blk_hi b) (unat va + unat n)"
proof -
  have e: "unat (va + n) = unat va + unat n"
    using assms(2) by (simp add: unat_word_ariths)
  have s: "unat start = max (unat va) (blk_lo b)" and t: "unat stop = min (blk_hi b) (unat va + unat n)"
    using unat_block_end [OF assms(1)]
    by (auto simp: start_def stop_def max_def min_def word_le_nat_alt blk_lo_def e)
  have lt: "unat va < blk_hi b" "blk_lo b < unat va + unat n" "blk_lo b \<le> blk_hi b"
    using ov unat_block_end [OF assms(1)] by (simp_all add: word_less_nat_alt e blk_lo_def blk_hi_def)
  then have le: "max (unat va) (blk_lo b) \<le> min (blk_hi b) (unat va + unat n)"
    by simp
  show "unat (start - mb_va_addr b) = max (unat va) (blk_lo b) - blk_lo b"
    by (subst unat_sub) (auto simp: start_def s [unfolded start_def] blk_lo_def)
  show "unat (start - va) = max (unat va) (blk_lo b) - unat va"
    by (subst unat_sub) (auto simp: start_def s [unfolded start_def])
  have "start \<le> stop"
    using le s t by (simp add: word_le_nat_alt)
  then show "unat (stop - start) = card (chunk va n b)"
    by (simp add: unat_sub s t chunk_def)
  show "max (unat va) (blk_lo b) + card (chunk va n b) = min (blk_hi b) (unat va + unat n)"
    using le by (simp add: chunk_def)
qed

lemma chunk_empty:
  assumes "block_ok b" "unat va + unat n < 2 ^ 64" "\<not> (va < block_end b \<and> mb_va_addr b < va + n)"
  shows "chunk va n b = {}"
proof -
  have "unat (va + n) = unat va + unat n"
    using assms(2) by (simp add: unat_word_ariths)
  then show ?thesis
    using assms(3) unat_block_end [OF assms(1)] by (auto simp: chunk_def word_less_nat_alt blk_lo_def)
qed

lemma copied_skip:
  assumes "blocks_ok mm" "i < length (m_memory_blocks mm)" "unat va + unat n < 2 ^ 64"
    and "\<not> (valid_submit mm s (m_memory_blocks mm ! i) \<and>
             va < block_end (m_memory_blocks mm ! i) \<and> mb_va_addr (m_memory_blocks mm ! i) < va + n)"
  shows "found mm s va n i = found mm s va n (Suc i)"
  using found_Suc [OF assms(2), of s va n] chunk_empty [OF blocks_ok_block [OF assms(1,2)] assms(3)] assms(4)
  by auto

lemma copied_step:
  assumes ok: "blocks_ok mm" "i < length (m_memory_blocks mm)" and nowrap: "unat va + unat n < 2 ^ 64"
    and b: "b = m_memory_blocks mm ! i" and v: "valid_submit mm s b"
    and ov: "va < block_end b" "mb_va_addr b < va + n"
    and c: "copied mm s va n (Suc i) amount buf"
  defines "start \<equiv> max va (mb_va_addr b)" and "stop \<equiv> min (block_end b) (va + n)"
  shows "copied mm s va n i (amount + (stop - start))
           (copy_into buf (unat (start - va)) (block_bytes b (start - mb_va_addr b) (stop - start)))"
proof -
  have bok: "block_ok b"
    using blocks_ok_block [OF ok] b by simp
  note w = overlap_words [OF bok nowrap ov, folded start_def stop_def]
  let ?C = "chunk va n b" and ?m = "max (unat va) (blk_lo b)"
  have f: "found mm s va n i = found mm s va n (Suc i) \<union> ?C"
    and disj: "found mm s va n (Suc i) \<inter> ?C = {}"
    using found_Suc [OF ok(2)] chunk_disjoint [OF ok] v b by auto
  have card: "card (found mm s va n i) = card (found mm s va n (Suc i)) + card ?C"
    unfolding f by (rule card_Un_disjoint [OF _ _ disj]) (simp_all add: chunk_def)
  have amount: "unat (amount + (stop - start)) = card (found mm s va n i)"
    using c card card_found_le [of mm s va n i] nowrap w(3)
    by (simp add: copied_def unat_word_ariths)
  have src: "unat (start - mb_va_addr b) + unat (stop - start) \<le> length (mb_data b)"
    using w(1,3,4) by (auto simp: blk_hi_def)
  have len: "length (block_bytes b (start - mb_va_addr b) (stop - start)) = card ?C"
    using length_block_bytes [OF src] w(3) by simp
  have buf: "length buf = unat n"
    using c by (simp add: copied_def)
  have dst: "unat (start - va) + card ?C \<le> length buf"
    using w(2,4) buf by auto
  note nth = nth_copy_into [of "unat (start - va)" "block_bytes b (start - mb_va_addr b) (stop - start)" buf]
  have "Some (copy_into buf (unat (start - va)) (block_bytes b (start - mb_va_addr b) (stop - start)) !
           (a - unat va)) = captured mm s a" if a: "a \<in> found mm s va n i" for a
  proof (cases "a \<in> ?C")
    case True
    then have r: "?m \<le> a" "a < ?m + card ?C"
      unfolding w(4) by (auto simp: chunk_def)
    have h: "holds mm s a b"
      using True v by (auto simp: holds_def chunk_def)
    have k: "a - unat va - (?m - unat va) = a - ?m" "a - ?m + (?m - blk_lo b) = a - blk_lo b"
      using r by auto
    have less: "a - ?m < card ?C"
      using r by linarith
    have "copy_into buf (unat (start - va)) (block_bytes b (start - mb_va_addr b) (stop - start)) !
           (a - unat va) = block_bytes b (start - mb_va_addr b) (stop - start) ! (a - ?m)"
      using nth [of "a - unat va"] dst r len w(2) k(1) by auto
    also have "\<dots> = mb_data b ! (a - blk_lo b)"
      using nth_block_bytes [OF _ src, of "a - ?m"] less w(1,3) k(2) by (simp add: add.commute)
    finally show ?thesis
      using captured_nth [OF ok, of s a] h b by simp
  next
    case False
    then have old: "a \<in> found mm s va n (Suc i)"
      using a f by blast
    then have "a - unat va < length buf"
      using found_range [OF old] buf by auto
    moreover have "\<not> (unat (start - va) \<le> a - unat va \<and> a - unat va < unat (start - va) + card ?C)"
      using False found_range [OF old] w(2,4) by (auto simp: chunk_def)
    ultimately have "copy_into buf (unat (start - va)) (block_bytes b (start - mb_va_addr b) (stop - start)) !
           (a - unat va) = buf ! (a - unat va)"
      using nth [of "a - unat va"] dst unfolding len by presburger
    then show ?thesis
      using c old by (simp add: copied_def)
  qed
  then show ?thesis
    using amount length_copy_into [of "unat (start - va)"] dst len buf by (simp add: copied_def)
qed

text \<open>The bytes of a range, when all of it was captured.\<close>

definition captured_bytes :: "MemoryManager \<Rightarrow> u32 \<Rightarrow> u64 \<Rightarrow> u64 \<Rightarrow> buffer option" where
  "captured_bytes mm s va n = those (map (captured mm s) [unat va ..< unat va + unat n])"

lemma those_map_Some: "those (map f xs) = Some ys \<longleftrightarrow> map f xs = map Some ys"
proof (induction xs arbitrary: ys)
  case (Cons x xs)
  show ?case
    by (cases ys) (auto simp: Cons.IH split: option.splits)
qed auto

lemma those_map_None: "those (map f xs) = None \<longleftrightarrow> (\<exists>x \<in> set xs. f x = None)"
  by (induction xs) (auto split: option.splits)

lemma captured_bytesI:
  assumes "length buf = unat n" "\<And>a. unat va \<le> a \<Longrightarrow> a < unat va + unat n \<Longrightarrow> captured mm s a = Some (buf ! (a - unat va))"
  shows "captured_bytes mm s va n = Some buf"
  unfolding captured_bytes_def those_map_Some
  by (rule nth_equalityI) (use assms in auto)

lemma captured_bytes_None:
  "captured_bytes mm s va n = None \<longleftrightarrow> (\<exists>a. unat va \<le> a \<and> a < unat va + unat n \<and> captured mm s a = None)"
  by (auto simp: captured_bytes_def those_map_None)

lemma captured_bytes_nth:
  assumes "captured_bytes mm s va n = Some bs"
  shows "length bs = unat n" "k < unat n \<Longrightarrow> captured mm s (unat va + k) = Some (bs ! k)"
proof -
  have m: "map (captured mm s) [unat va ..< unat va + unat n] = map Some bs"
    using assms by (simp add: captured_bytes_def those_map_Some)
  then show l: "length bs = unat n"
    using arg_cong [OF m, of length] unfolding length_map by simp
  show "captured mm s (unat va + k) = Some (bs ! k)" if "k < unat n"
    using arg_cong [OF m, of "\<lambda>xs. xs ! k"] that l by simp
qed

lemma found_0: "found mm s va n 0 = {a. unat va \<le> a \<and> a < unat va + unat n \<and> captured mm s a \<noteq> None}"
  unfolding found_def captured_iff by auto

lemma copied_complete:
  assumes "copied mm s va n i n buf"
  shows "captured_bytes mm s va n = Some buf"
proof (rule captured_bytesI)
  show "length buf = unat n"
    using assms by (simp add: copied_def)
  fix a assume "unat va \<le> a" "a < unat va + unat n"
  then have "a \<in> found mm s va n i"
    by (intro found_all [THEN equalityD2, THEN subsetD]) (use assms in \<open>simp_all add: copied_def\<close>)
  then show "captured mm s a = Some (buf ! (a - unat va))"
    using assms by (simp add: copied_def)
qed

lemma retrieve_loop_correct:
  assumes "blocks_ok mm" "i \<le> length (m_memory_blocks mm)" "unat va + unat n < 2 ^ 64"
    and "copied mm s va n i amount buf" "amount \<noteq> n"
    and "retrieve_loop s va n i amount buf mm = (ok, buf', mm')"
  shows "(if ok then captured_bytes mm s va n = Some buf' else captured_bytes mm s va n = None) \<and>
    same_blocks mm mm' \<and> (ptr_ok mm \<longrightarrow> ptr_ok mm')"
  using assms
proof (induction i arbitrary: amount buf mm)
  case 0
  have "captured_bytes mm s va n = None"
  proof (rule ccontr)
    assume "captured_bytes mm s va n \<noteq> None"
    then have "found mm s va n 0 = {unat va ..< unat va + unat n}"
      unfolding found_0 captured_bytes_None by auto
    then have "unat amount = unat n"
      using 0 by (simp add: copied_def)
    then have "amount = n"
      by (rule unsigned_word_eqI)
    then show False
      using 0 by simp
  qed
  then show ?case
    using 0 by auto
next
  case (Suc i)
  let ?b = "m_memory_blocks mm ! i" and ?mm = "mm\<lparr>m_last_used_block_ptr := block_at i\<rparr>"
  have i: "i < length (m_memory_blocks mm)"
    using Suc.prems by simp
  have sb: "same_blocks mm ?mm"
    by simp
  note sbs = same_blocks_simps [OF sb]
  have cong: "captured_bytes ?mm s va n = captured_bytes mm s va n"
    unfolding captured_bytes_def
    by (intro arg_cong [where f = those] map_cong) (simp_all add: sbs)
  have copied_cong: "copied ?mm s va n i x y = copied mm s va n i x y" for x y
    by (simp add: copied_def sbs)
  have ptr: "ptr_ok ?mm"
    using i by (simp add: ptr_ok_def)
  show ?case
  proof (cases "valid_submit mm s ?b \<and> va < block_end ?b \<and> mb_va_addr ?b < va + n")
    case True
    define start where "start = max va (mb_va_addr ?b)"
    define stop where "stop = min (block_end ?b) (va + n)"
    let ?buf = "copy_into buf (unat (start - va)) (block_bytes ?b (start - mb_va_addr ?b) (stop - start))"
    have step: "copied mm s va n i (amount + (stop - start)) ?buf"
      unfolding start_def stop_def
      by (rule copied_step [OF Suc.prems(1) i Suc.prems(3) refl _ _ _ Suc.prems(4)]) (use True in auto)
    have loop: "(if amount + (stop - start) = n then (True, ?buf, ?mm)
        else retrieve_loop s va n i (amount + (stop - start)) ?buf ?mm) = (ok, buf', mm')"
      using Suc.prems(6) unfolding retrieve_loop.simps Let_def start_def stop_def if_P [OF True] .
    show ?thesis
    proof (cases "amount + (stop - start) = n")
      case True
      then show ?thesis
        using loop copied_complete step sb ptr by auto
    next
      case False
      have "(if ok then captured_bytes ?mm s va n = Some buf' else captured_bytes ?mm s va n = None) \<and>
          same_blocks ?mm mm' \<and> (ptr_ok ?mm \<longrightarrow> ptr_ok mm')"
        by (rule Suc.IH [of ?mm "amount + (stop - start)" ?buf])
          (use Suc.prems(1,3) i step copied_cong loop False sbs in \<open>auto simp: Let_def\<close>)
      then show ?thesis
        using ptr unfolding cong by (simp add: same_blocks_def)
    qed
  next
    case False
    have f: "found mm s va n i = found mm s va n (Suc i)"
      using copied_skip [OF Suc.prems(1) i Suc.prems(3) False] .
    have "retrieve_loop s va n i amount buf mm = (ok, buf', mm')"
      using Suc.prems(6) False by (auto simp: Let_def)
    moreover have "copied mm s va n i amount buf"
      using Suc.prems(4) f by (simp add: copied_def)
    ultimately show ?thesis
      using Suc.IH [OF Suc.prems(1) _ Suc.prems(3)] Suc.prems(5) i by auto
  qed
qed

lemma copied_start:
  "length buf = unat n \<Longrightarrow> copied mm s va n (length (m_memory_blocks mm)) 0 buf"
  by (simp add: copied_def found_start)

lemma retrieve_search_correct:
  assumes "blocks_ok mm" "unat va + unat n < 2 ^ 64" "n \<noteq> 0" "length buf = unat n"
    and "retrieve_search buf s va n mm = (ok, buf', mm')"
  shows "(if ok then captured_bytes mm s va n = Some buf' else captured_bytes mm s va n = None) \<and>
    same_blocks mm mm' \<and> (ptr_ok mm \<longrightarrow> ptr_ok mm')"
  using retrieve_loop_correct [OF assms(1) order.refl assms(2) copied_start [OF assms(4)]] assms(3,5)
  by (metis retrieve_search_def)

lemma cached_block_correct:
  assumes "blocks_ok mm" "i < length (m_memory_blocks mm)" "unat va + unat n < 2 ^ 64" "length buf = unat n"
    and b: "b = m_memory_blocks mm ! i"
    and "valid_submit mm s b" "mb_va_addr b \<le> va" "va + n \<le> block_end b"
  shows "captured_bytes mm s va n = Some (copy_into buf 0 (block_bytes b (va - mb_va_addr b) n))"
proof (rule captured_bytesI)
  have bok: "block_ok b"
    using blocks_ok_block [OF assms(1,2)] b by simp
  have e: "unat (va + n) = unat va + unat n"
    using assms(3) by (simp add: unat_word_ariths)
  have lo: "blk_lo b \<le> unat va" and hi: "unat va + unat n \<le> blk_hi b"
    using assms(7,8) unat_block_end [OF bok] by (simp_all add: word_le_nat_alt e blk_lo_def)
  have off: "unat (va - mb_va_addr b) = unat va - blk_lo b"
    using assms(7) by (simp add: unat_sub blk_lo_def)
  then have src: "unat (va - mb_va_addr b) + unat n \<le> length (mb_data b)"
    using lo hi by (simp add: blk_hi_def)
  have c: "copy_into buf 0 (block_bytes b (va - mb_va_addr b) n) = block_bytes b (va - mb_va_addr b) n"
    using assms(4) length_block_bytes [OF src] by (simp add: copy_into_def)
  show "length (copy_into buf 0 (block_bytes b (va - mb_va_addr b) n)) = unat n"
    unfolding c by (rule length_block_bytes [OF src])
  fix a assume a: "unat va \<le> a" "a < unat va + unat n"
  then have "holds mm s a (m_memory_blocks mm ! i)"
    using assms(6) b lo hi by (simp add: holds_def)
  moreover have "unat va - blk_lo b + (a - unat va) = a - blk_lo b"
    using a lo by simp
  ultimately show "captured mm s a = Some (copy_into buf 0 (block_bytes b (va - mb_va_addr b) n) ! (a - unat va))"
    using captured_nth [OF assms(1,2)] nth_block_bytes [OF _ src, of "a - unat va"] a b
    unfolding c off by (auto simp: add.commute)
qed

lemma RetrieveMemoryData_correct:
  assumes "mem_ok mm" "unat va + unat n < 2 ^ 64" "n \<noteq> 0" "length buf = unat n"
  obtains ok buf' mm' where "RetrieveMemoryData buf s va n mm = Some (ok, buf', mm')"
    and "if ok then captured_bytes mm s va n = Some buf' else captured_bytes mm s va n = None"
    and "same_blocks mm mm'" "mem_ok mm'"
proof -
  have bl: "blocks_ok mm" and p: "ptr_ok mm"
    using assms(1) by (simp_all add: mem_ok_def)
  obtain ok buf' mm' where sr: "retrieve_search buf s va n mm = (ok, buf', mm')"
    using prod_cases3 by blast
  note search = retrieve_search_correct [OF bl assms(2-4) sr]
  have mm': "mem_ok mm'"
    using search p bl by (auto simp: mem_ok_def same_blocks_simps(5))
  show thesis
  proof (cases "m_last_used_block_ptr mm")
    case null_block
    then show thesis
      using that [of ok buf' mm'] search sr mm' by (auto simp: RetrieveMemoryData_def)
  next
    case dangling_block
    then show thesis
      using p by (simp add: ptr_ok_def)
  next
    case (block_at i)
    then have i: "i < length (m_memory_blocks mm)"
      using p by (simp add: ptr_ok_def)
    let ?b = "m_memory_blocks mm ! i"
    let ?buf = "copy_into buf 0 (block_bytes ?b (va - mb_va_addr ?b) n)"
    let ?hit = "valid_submit mm s ?b \<and> mb_va_addr ?b \<le> va \<and> va + n \<le> block_end ?b"
    show thesis
    proof (cases ?hit)
      case True
      have "captured_bytes mm s va n = Some ?buf"
        by (rule cached_block_correct [OF bl i assms(2,4) refl]) (use True in auto)
      moreover have "RetrieveMemoryData buf s va n mm = Some (True, ?buf, mm)"
        using block_at i True by (simp add: RetrieveMemoryData_def Let_def)
      ultimately show thesis
        using that [of True ?buf mm] assms(1) by simp
    next
      case False
      then have "RetrieveMemoryData buf s va n mm = Some (ok, buf', mm')"
        using block_at i sr by (auto simp: RetrieveMemoryData_def)
      then show thesis
        using that [of ok buf' mm'] search mm' by auto
    qed
  qed
qed

section \<open>Contiguous memory\<close>

text \<open>\<open>n\<close> bytes from \<open>lo\<close> on were captured, and the next one was not.\<close>

definition contiguous :: "MemoryManager \<Rightarrow> u32 \<Rightarrow> nat \<Rightarrow> nat \<Rightarrow> bool" where
  "contiguous mm s lo n \<longleftrightarrow>
     (\<forall>a. lo \<le> a \<and> a < lo + n \<longrightarrow> captured mm s a \<noteq> None) \<and> captured mm s (lo + n) = None"

lemma captured_set:
  "captured mm s a \<noteq> None \<longleftrightarrow> (\<exists>b \<in> set (m_memory_blocks mm). holds mm s a b)"
  by (auto simp: captured_def find_None_iff)

lemma captured_NoneI: "(\<And>b. b \<in> set (m_memory_blocks mm) \<Longrightarrow> \<not> holds mm s a b) \<Longrightarrow> captured mm s a = None"
  using captured_set by blast

lemma below_split:
  assumes "blocks_ok mm" "m_memory_blocks mm = pre @ b # bs" "valid_submit mm s b"
  shows "c \<in> set pre \<Longrightarrow> valid_submit mm s c \<Longrightarrow> blk_hi c \<le> blk_lo b"
    and "c \<in> set bs \<Longrightarrow> valid_submit mm s c \<Longrightarrow> blk_hi b \<le> blk_lo c"
    and "block_ok b"
  using assms by (auto simp: blocks_ok_def sorted_wrt_append below_def valid_submit_def split: if_splits)

lemma blk_lo_le_hi: "blk_lo b \<le> blk_hi b"
  by (simp add: blk_hi_def)

lemma contiguous_from:
  assumes "blocks_ok mm" "m_memory_blocks mm = pre @ bs" "unat va < unat cur"
    and "\<And>a. unat va \<le> a \<Longrightarrow> a < unat cur \<Longrightarrow> captured mm s a \<noteq> None"
    and "\<And>b. b \<in> set pre \<Longrightarrow> valid_submit mm s b \<Longrightarrow> blk_hi b \<le> unat cur"
    and "\<exists>b \<in> set pre. valid_submit mm s b \<and> blk_hi b = unat cur"
  shows "contiguous mm s (unat va) (unat (contiguous_loop mm s va cur bs))"
  using assms
proof (induction bs arbitrary: pre cur)
  case Nil
  have "captured mm s (unat cur) = None"
    by (rule captured_NoneI) (use Nil.prems(2,5) in \<open>fastforce simp: holds_def\<close>)
  moreover have "unat (cur - va) = unat cur - unat va"
    using Nil.prems(3) by (simp add: unat_sub word_le_nat_alt)
  ultimately show ?case
    using Nil.prems(3,4) by (simp add: contiguous_def)
next
  case (Cons b bs)
  have ne: "cur \<noteq> va"
    using Cons.prems(3) by auto
  show ?case
  proof (cases "valid_submit mm s b")
    case False
    have "contiguous mm s (unat va) (unat (contiguous_loop mm s va cur bs))"
      by (rule Cons.IH [of "pre @ [b]"]) (use Cons.prems False in auto)
    then show ?thesis
      using False by simp
  next
    case True
    note bl = below_split [OF Cons.prems(1,2) True]
    note lohi = blk_lo_le_hi [of b]
    show ?thesis
    proof (cases "cur = mb_va_addr b")
      case eq: True
      have e: "unat (block_end b) = blk_hi b" and l: "unat cur = blk_lo b"
        using unat_block_end [OF bl(3)] eq by (simp_all add: blk_lo_def)
      have cap: "captured mm s a \<noteq> None" if "unat va \<le> a" "a < blk_hi b" for a
      proof (cases "a < unat cur")
        case False
        then have "holds mm s a b"
          using that True l by (simp add: holds_def)
        then show ?thesis
          using captured_set Cons.prems(2) by auto
      qed (use Cons.prems(4) that in blast)
      have "contiguous mm s (unat va) (unat (contiguous_loop mm s va (block_end b) bs))"
        by (rule Cons.IH [of "pre @ [b]"])
          (use Cons.prems(1-3) cap bl(1) True e l lohi in \<open>auto intro: order.trans\<close>)
      then show ?thesis
        using ne eq True by simp
    next
      case False
      have gt: "unat cur < blk_lo b"
      proof -
        have "unat cur \<le> blk_lo b"
          using Cons.prems(6) bl(1) by metis
        then show ?thesis
          using False by (metis blk_lo_def le_neq_implies_less unsigned_word_eqI)
      qed
      have "\<not> holds mm s (unat cur) c" if c: "c \<in> set (m_memory_blocks mm)" for c
      proof
        assume h: "holds mm s (unat cur) c"
        consider "c \<in> set pre" | "c = b" | "c \<in> set bs"
          using c Cons.prems(2) by auto
        then show False
          using h Cons.prems(5) [of c] bl(2) [of c] gt lohi by cases (auto simp: holds_def)
      qed
      then have "captured mm s (unat cur) = None"
        by (rule captured_NoneI)
      moreover have "unat (cur - va) = unat cur - unat va"
        using Cons.prems(3) by (simp add: unat_sub word_le_nat_alt)
      ultimately show ?thesis
        using Cons.prems(3,4) False True ne by (simp add: contiguous_def)
    qed
  qed
qed

lemma contiguous_loop_correct:
  assumes "blocks_ok mm" "m_memory_blocks mm = pre @ bs"
    and "\<And>b. b \<in> set pre \<Longrightarrow> \<not> holds mm s (unat va) b"
  shows "contiguous mm s (unat va) (unat (contiguous_loop mm s va va bs))"
  using assms
proof (induction bs arbitrary: pre)
  case Nil
  then have "captured mm s (unat va) = None"
    by (intro captured_NoneI) simp
  then show ?case
    by (auto simp: contiguous_def)
next
  case (Cons b bs)
  show ?case
  proof (cases "valid_submit mm s b \<and> mb_va_addr b \<le> va \<and> va < block_end b")
    case False
    have "\<not> holds mm s (unat va) b"
      using False unat_block_end [of b] Cons.prems(1,2)
      by (auto simp: holds_def blocks_ok_def word_le_nat_alt word_less_nat_alt blk_lo_def)
    then have "contiguous mm s (unat va) (unat (contiguous_loop mm s va va bs))"
      by (intro Cons.IH [of "pre @ [b]"]) (use Cons.prems in auto)
    then show ?thesis
      using False by auto
  next
    case True
    have v: "valid_submit mm s b"
      using True by simp
    note bl = below_split [OF Cons.prems(1,2) v]
    have e: "unat (block_end b) = blk_hi b"
      using unat_block_end [OF bl(3)] .
    have lo: "blk_lo b \<le> unat va" "unat va < blk_hi b"
      using True e by (simp_all add: word_le_nat_alt word_less_nat_alt blk_lo_def)
    have pre_hi: "blk_hi c \<le> blk_hi b" if "c \<in> set pre" "valid_submit mm s c" for c
      using order.trans [OF bl(1) blk_lo_le_hi] that .
    have "contiguous mm s (unat va) (unat (contiguous_loop mm s va (block_end b) bs))"
    proof (rule contiguous_from [of mm "pre @ [b]"])
      fix a assume "unat va \<le> a" "a < unat (block_end b)"
      then have "holds mm s a b"
        using lo v e by (simp add: holds_def)
      then show "captured mm s a \<noteq> None"
        using captured_set Cons.prems(2) by auto
    qed (use Cons.prems(1,2) lo v e pre_hi in auto)
    then show ?thesis
      using True by simp
  qed
qed

lemma GetMaxContiguousSize_contiguous:
  "blocks_ok mm \<Longrightarrow> contiguous mm s (unat va) (unat (GetMaxContiguousSize mm s va))"
  unfolding GetMaxContiguousSize_def by (rule contiguous_loop_correct [of _ "[]"]) simp_all

lemma IsValid_captured:
  assumes "blocks_ok mm"
  shows "MemoryManager_IsValid mm s va n \<longleftrightarrow> captured_bytes mm s va n \<noteq> None"
proof -
  note c = GetMaxContiguousSize_contiguous [OF assms, of s va, unfolded contiguous_def]
  show ?thesis
  proof
    assume "MemoryManager_IsValid mm s va n"
    then have "unat n \<le> unat (GetMaxContiguousSize mm s va)"
      by (simp add: MemoryManager_IsValid_def word_le_nat_alt)
    then show "captured_bytes mm s va n \<noteq> None"
      using c unfolding captured_bytes_None by (meson add_left_mono less_le_trans)
  next
    assume a: "captured_bytes mm s va n \<noteq> None"
    have "\<not> unat (GetMaxContiguousSize mm s va) < unat n"
    proof
      assume "unat (GetMaxContiguousSize mm s va) < unat n"
      then show False
        using c a unfolding captured_bytes_None by (meson le_add1 add_strict_left_mono)
    qed
    then show "MemoryManager_IsValid mm s va n"
      by (simp add: MemoryManager_IsValid_def word_le_nat_alt)
  qed
qed

text \<open>The callback that collects everything it is given.\<close>

definition collect_memory :: "buffer get_memory" where
  "collect_memory data va_addr nbytes user = (True, user @ data)"

lemma case_collect_memory [simp]:
  "(case collect_memory data va_addr nbytes user of (go_on, user') \<Rightarrow> f go_on user') = f True (user @ data)"
  by (simp add: collect_memory_def)

definition memory_slice :: "MemoryManager \<Rightarrow> u32 \<Rightarrow> nat \<Rightarrow> nat \<Rightarrow> buffer" where
  "memory_slice mm s lo hi = map (\<lambda>a. the (captured mm s a)) [lo ..< hi]"

lemma memory_slice_append: "lo \<le> mid \<Longrightarrow> mid \<le> hi \<Longrightarrow> memory_slice mm s lo mid @ memory_slice mm s mid hi = memory_slice mm s lo hi"
  by (metis (no_types, lifting) le_iff_add map_append memory_slice_def upt_add_eq_append)

lemma memory_slice_block:
  assumes "blocks_ok mm" "b \<in> set (m_memory_blocks mm)" "valid_submit mm s b" "blk_lo b \<le> lo" "lo \<le> blk_hi b"
  shows "memory_slice mm s lo (blk_hi b) = drop (lo - blk_lo b) (mb_data b)"
proof (rule nth_equalityI)
  show "length (memory_slice mm s lo (blk_hi b)) = length (drop (lo - blk_lo b) (mb_data b))"
    using assms(4,5) by (simp add: memory_slice_def blk_hi_def)
  fix k assume "k < length (memory_slice mm s lo (blk_hi b))"
  then have k: "lo + k < blk_hi b"
    by (simp add: memory_slice_def)
  obtain i where i: "i < length (m_memory_blocks mm)" "m_memory_blocks mm ! i = b"
    using assms(2) by (auto simp: in_set_conv_nth)
  have "captured mm s (lo + k) = Some (mb_data b ! (lo + k - blk_lo b))"
    using captured_nth [OF assms(1) i(1)] i(2) assms(3,4) k by (simp add: holds_def)
  moreover have "memory_slice mm s lo (blk_hi b) ! k = the (captured mm s (lo + k))"
    using k nth_upt [OF k] by (simp add: memory_slice_def)
  ultimately show "memory_slice mm s lo (blk_hi b) ! k = drop (lo - blk_lo b) (mb_data b) ! k"
    using k assms(4) by (simp add: blk_hi_def)
qed

lemma contiguous_loop_ge:
  assumes "blocks_ok mm" "m_memory_blocks mm = pre @ bs" "unat va < unat cur"
  shows "unat cur \<le> unat va + unat (contiguous_loop mm s va cur bs)"
  using assms
proof (induction bs arbitrary: pre cur)
  case Nil
  then show ?case
    by (simp add: unat_sub word_le_nat_alt)
next
  case (Cons b bs)
  have *: "unat cur - unat va + unat va = unat cur" "unat (cur - va) = unat cur - unat va"
    using Cons.prems(3) by (simp_all add: unat_sub word_le_nat_alt)
  have "block_ok b"
    using Cons.prems(1,2) by (simp add: blocks_ok_def)
  then have e: "unat (block_end b) = blk_hi b"
    by (rule unat_block_end)
  have IH: "unat va < unat cur' \<Longrightarrow> unat cur' \<le> unat va + unat (contiguous_loop mm s va cur' bs)" for cur'
    by (rule Cons.IH [of "pre @ [b]"]) (use Cons.prems in auto)
  show ?case
    using IH [of cur] IH [of "block_end b"] Cons.prems(3) * blk_lo_le_hi [of b] e
    by (auto simp: blk_lo_def)
qed

lemma unknown_size_from:
  assumes "blocks_ok mm" "m_memory_blocks mm = pre @ bs" "unat va < unat cur"
  shows "unknown_size_loop collect_memory mm s va cur bs u =
    u @ memory_slice mm s (unat cur) (unat va + unat (contiguous_loop mm s va cur bs))"
  using assms
proof (induction bs arbitrary: pre cur u)
  case Nil
  then show ?case
    by (simp add: unat_sub word_le_nat_alt memory_slice_def)
next
  case (Cons b bs)
  have ne: "cur \<noteq> va"
    using Cons.prems(3) by auto
  have bok: "block_ok b" and mem: "b \<in> set (m_memory_blocks mm)"
    using Cons.prems(1,2) by (simp_all add: blocks_ok_def)
  have IH: "unat va < unat cur' \<Longrightarrow> unknown_size_loop collect_memory mm s va cur' bs u =
      u @ memory_slice mm s (unat cur') (unat va + unat (contiguous_loop mm s va cur' bs))" for cur' u
    by (rule Cons.IH [of "pre @ [b]"]) (use Cons.prems in auto)
  consider "\<not> valid_submit mm s b" | "valid_submit mm s b" "cur = mb_va_addr b"
    | "valid_submit mm s b" "cur \<noteq> mb_va_addr b"
    by blast
  then show ?case
  proof cases
    case 1
    then show ?thesis
      using IH [OF Cons.prems(3)] by simp
  next
    case 2
    have e: "unat (block_end b) = blk_hi b" "unat cur = blk_lo b"
      using unat_block_end [OF bok] 2 by (simp_all add: blk_lo_def)
    have lt: "unat va < unat (block_end b)"
      using Cons.prems(3) e blk_lo_le_hi [of b] by simp
    have "mb_data b = memory_slice mm s (unat cur) (blk_hi b)"
      using memory_slice_block [OF Cons.prems(1) mem 2(1) order.refl blk_lo_le_hi] e(2) by simp
    moreover have "blk_hi b \<le> unat va + unat (contiguous_loop mm s va (block_end b) bs)"
      using contiguous_loop_ge [of mm "pre @ [b]" bs va "block_end b" s] Cons.prems(1,2) lt e by simp
    ultimately have "mb_data b @ memory_slice mm s (blk_hi b)
          (unat va + unat (contiguous_loop mm s va (block_end b) bs)) =
        memory_slice mm s (unat cur) (unat va + unat (contiguous_loop mm s va (block_end b) bs))"
      using memory_slice_append e blk_lo_le_hi [of b] by simp
    then show ?thesis
      using 2 ne IH [OF lt] e(1) by simp
  next
    case 3
    have "unat va + unat (cur - va) = unat cur"
      using Cons.prems(3) by (simp add: unat_sub word_le_nat_alt)
    then show ?thesis
      using 3 ne by (simp add: memory_slice_def)
  qed
qed

lemma unknown_size_collects:
  assumes "blocks_ok mm" "m_memory_blocks mm = pre @ bs"
  shows "unknown_size_loop collect_memory mm s va va bs u =
    u @ memory_slice mm s (unat va) (unat va + unat (contiguous_loop mm s va va bs))"
  using assms
proof (induction bs arbitrary: pre)
  case Nil
  then show ?case
    by (simp add: memory_slice_def)
next
  case (Cons b bs)
  show ?case
  proof (cases "valid_submit mm s b \<and> mb_va_addr b \<le> va \<and> va < block_end b")
    case False
    have "unknown_size_loop collect_memory mm s va va bs u =
        u @ memory_slice mm s (unat va) (unat va + unat (contiguous_loop mm s va va bs))"
      by (rule Cons.IH [of "pre @ [b]"]) (use Cons.prems in auto)
    then show ?thesis
      using False by auto
  next
    case True
    have bok: "block_ok b" and mem: "b \<in> set (m_memory_blocks mm)"
      using Cons.prems by (simp_all add: blocks_ok_def)
    have e: "unat (block_end b) = blk_hi b"
      using unat_block_end [OF bok] .
    have lo: "blk_lo b \<le> unat va" "unat va < blk_hi b" "unat (va - mb_va_addr b) = unat va - blk_lo b"
      using True e by (simp_all add: word_le_nat_alt word_less_nat_alt blk_lo_def unat_sub)
    have rest: "unknown_size_loop collect_memory mm s va (block_end b) bs u' =
        u' @ memory_slice mm s (blk_hi b) (unat va + unat (contiguous_loop mm s va (block_end b) bs))" for u'
      using unknown_size_from [of mm "pre @ [b]" bs va "block_end b" s u'] Cons.prems lo e by simp
    have "blk_hi b \<le> unat va + unat (contiguous_loop mm s va (block_end b) bs)"
      using contiguous_loop_ge [of mm "pre @ [b]" bs va "block_end b" s] Cons.prems lo e by simp
    then have "drop (unat va - blk_lo b) (mb_data b) @
          memory_slice mm s (blk_hi b) (unat va + unat (contiguous_loop mm s va (block_end b) bs)) =
        memory_slice mm s (unat va) (unat va + unat (contiguous_loop mm s va (block_end b) bs))"
      using memory_slice_block [OF Cons.prems(1) mem _ lo(1)] memory_slice_append True lo(2)
      by (metis less_imp_le)
    then show ?thesis
      using True rest lo(3) by simp
  qed
qed

section \<open>Finalizing\<close>

text \<open>
  What the capture promises: blocks are not empty, and blocks of one submit that overlap are
  re-captures of the same address. \<open>block_key\<close> is what the sort compares; the winner of a key is
  the last one, in the order of capture, of the largest blocks with that key.
\<close>

definition block_key :: "MemoryBlock \<Rightarrow> u32 \<times> u64" where
  "block_key b = (mb_submit_index b, mb_va_addr b)"

definition apart :: "MemoryBlock \<Rightarrow> MemoryBlock \<Rightarrow> bool" where
  "apart b c \<longleftrightarrow> blk_hi b \<le> blk_lo c \<or> blk_hi c \<le> blk_lo b"

definition capture_ok :: "MemoryBlock list \<Rightarrow> bool" where
  "capture_ok bs \<longleftrightarrow>
     (\<forall>b \<in> set bs. block_ok b \<and> mb_data b \<noteq> [] \<and>
        (\<forall>c \<in> set bs. mb_submit_index b = mb_submit_index c \<longrightarrow> blk_lo b = blk_lo c \<or> apart b c))"

definition larger :: "MemoryBlock \<Rightarrow> MemoryBlock option \<Rightarrow> MemoryBlock option" where
  "larger b acc =
    (case acc of None \<Rightarrow> Some b | Some c \<Rightarrow> if mb_data_size b \<ge> mb_data_size c then Some b else Some c)"

definition winner :: "MemoryBlock list \<Rightarrow> u32 \<times> u64 \<Rightarrow> MemoryBlock option" where
  "winner bs k = fold larger (filter (\<lambda>b. block_key b = k) bs) None"

lemma winner_Nil [simp]: "winner [] k = None"
  by (simp add: winner_def)

lemma winner_snoc: "winner (bs @ [b]) k = (if block_key b = k then larger b (winner bs k) else winner bs k)"
  by (simp add: winner_def)

lemma larger_not_None [simp]: "larger b acc \<noteq> None"
  by (simp add: larger_def split: option.split)

lemma winner_None: "winner bs k = None \<longleftrightarrow> (\<forall>b \<in> set bs. block_key b \<noteq> k)"
  by (induction bs rule: rev_induct) (auto simp: winner_snoc)

lemma winner_Some:
  "winner bs k = Some c \<Longrightarrow> c \<in> set bs \<and> block_key c = k \<and> (\<forall>b \<in> set bs. block_key b = k \<longrightarrow> mb_data_size b \<le> mb_data_size c)"
proof (induction bs arbitrary: c rule: rev_induct)
  case (snoc b bs)
  show ?case
  proof (cases "block_key b = k")
    case True
    then show ?thesis
    proof (cases "winner bs k")
      case None
      then show ?thesis
        using snoc.prems True winner_None [of bs k] by (auto simp: winner_snoc larger_def)
    next
      case (Some d)
      then show ?thesis
        using snoc.prems snoc.IH [OF Some] True by (auto simp: winner_snoc larger_def split: if_splits)
    qed
  next
    case False
    then show ?thesis
      using snoc by (auto simp: winner_snoc)
  qed
qed simp

definition winners :: "MemoryBlock list \<Rightarrow> MemoryBlock set" where
  "winners bs = {c. winner bs (block_key c) = Some c}"

text \<open>The state of the loop after the blocks \<open>pre\<close>.\<close>

definition dedup_inv :: "MemoryBlock list \<Rightarrow> MemoryBlock list \<Rightarrow> bool" where
  "dedup_inv pre temp \<longleftrightarrow>
     sorted_wrt (below True) temp \<and>
     set temp = winners pre \<and>
     (pre \<noteq> [] \<longrightarrow> temp \<noteq> [] \<and> block_key (last temp) = block_key (last pre))"

lemma dedup_inv_mem:
  assumes "dedup_inv pre temp" "c \<in> set temp"
  shows "c \<in> set pre" "winner pre (block_key c) = Some c"
proof -
  have "c \<in> winners pre"
    using assms unfolding dedup_inv_def by blast
  then show "winner pre (block_key c) = Some c"
    by (simp add: winners_def)
  then show "c \<in> set pre"
    using winner_Some by blast
qed

lemma dedup_inv_push:
  assumes "dedup_inv pre temp" and new: "\<And>c. c \<in> set pre \<Longrightarrow> block_key c \<noteq> block_key b"
    and "\<And>c. c \<in> set pre \<Longrightarrow> below True c b"
  shows "dedup_inv (pre @ [b]) (temp @ [b])"
proof -
  have w: "winner (pre @ [b]) k = (if k = block_key b then Some b else winner pre k)" for k
    using new winner_None [of pre "block_key b"] by (auto simp: winner_snoc larger_def)
  have "winner pre (block_key b) = None"
    using new by (simp add: winner_None)
  then have "winners (pre @ [b]) = insert b (winners pre)"
    unfolding winners_def w by auto
  then show ?thesis
    using assms(1) dedup_inv_mem(1) [OF assms(1)] assms(3) by (auto simp: dedup_inv_def sorted_wrt_append)
qed

lemma below_irrefl: "mb_data b \<noteq> [] \<Longrightarrow> \<not> below x b b"
  by (simp add: below_def blk_hi_def)

lemma dedup_inv_same:
  assumes inv: "dedup_inv pre temp" and "pre \<noteq> []" and same: "block_key b = block_key (last pre)"
    and ne: "\<And>c. c \<in> set pre \<Longrightarrow> mb_data c \<noteq> []"
  shows "dedup_inv (pre @ [b])
    (if mb_data_size b \<ge> mb_data_size (last temp) then butlast temp @ [b] else temp)"
proof -
  have t: "temp \<noteq> []" and kt: "block_key (last temp) = block_key b"
    using assms by (auto simp: dedup_inv_def)
  have lt: "winner pre (block_key b) = Some (last temp)"
    using dedup_inv_mem(2) [OF inv last_in_set [OF t]] kt by simp
  define d where "d = (if mb_data_size b \<ge> mb_data_size (last temp) then b else last temp)"
  have w: "winner (pre @ [b]) k = (if k = block_key b then Some d else winner pre k)" for k
    using lt by (auto simp: winner_snoc larger_def d_def)
  have eq: "(if mb_data_size b \<ge> mb_data_size (last temp) then butlast temp @ [b] else temp) = butlast temp @ [d]"
    using t by (simp add: d_def)
  have split: "temp = butlast temp @ [last temp]"
    using t by simp
  have sorted: "sorted_wrt (below True) (butlast temp @ [last temp])"
    using inv unfolding dedup_inv_def by (metis split)
  have key_d: "block_key d = block_key (last temp)" "block_key d = block_key b"
    using kt by (simp_all add: d_def)
  then have below_d: "below True c d = below True c (last temp)" for c
    by (simp add: below_def block_key_def blk_lo_def)
  have "mb_data (last temp) \<noteq> []"
    using ne dedup_inv_mem(1) [OF inv last_in_set [OF t]] .
  then have notin: "last temp \<notin> set (butlast temp)"
    using sorted below_irrefl by (auto simp: sorted_wrt_append)
  have "set (butlast temp) = set temp - {last temp}"
    using arg_cong [OF split, of set] notin by auto
  also have "\<dots> = {c. block_key c \<noteq> block_key b \<and> winner pre (block_key c) = Some c}"
    using inv lt kt unfolding dedup_inv_def winners_def by auto
  finally have "set (butlast temp @ [d]) = winners (pre @ [b])"
    unfolding winners_def w using key_d by auto
  moreover have "sorted_wrt (below True) (butlast temp @ [d])"
    using sorted by (simp add: sorted_wrt_append below_d)
  ultimately show ?thesis
    unfolding eq dedup_inv_def using key_d by simp
qed

text \<open>A later block of the sorted sequence starts no earlier.\<close>

lemma sorted_blocks_le:
  assumes "sorted (map block_key (pre @ b # bs))" "c \<in> set pre"
  shows "block_key c \<le> block_key b"
  using assms by (auto simp: sorted_append)

lemma dedup_blocks_correct:
  assumes "sorted (map block_key (pre @ bs))" "capture_ok (pre @ bs)" "dedup_inv pre temp"
    and "pre \<noteq> [] \<Longrightarrow> prev_addr = mb_va_addr (last pre) \<and> prev_submit = mb_submit_index (last pre) \<and>
           prev_size = mb_data_size (last pre)"
    and "pre = [] \<Longrightarrow> prev_addr = 0 \<and> prev_size = 0"
  shows "\<exists>temp'. dedup_blocks debug prev_addr prev_submit prev_size temp bs = Some temp' \<and> dedup_inv (pre @ bs) temp'"
  using assms
proof (induction bs arbitrary: pre temp prev_addr prev_submit prev_size)
  case Nil
  then show ?case
    by simp
next
  case (Cons b bs)
  have ok: "\<And>c. c \<in> set (pre @ [b]) \<Longrightarrow> block_ok c \<and> mb_data c \<noteq> []"
    and ap: "\<And>c. c \<in> set pre \<Longrightarrow> mb_submit_index c = mb_submit_index b \<Longrightarrow> blk_lo c = blk_lo b \<or> apart c b"
    using Cons.prems(2) by (auto simp: capture_ok_def)
  have le: "block_key c \<le> block_key b" if "c \<in> set pre" for c
    using sorted_blocks_le [OF Cons.prems(1) that] .
  have IH: "\<exists>temp'. dedup_blocks debug (mb_va_addr b) (mb_submit_index b) (mb_data_size b) t bs = Some temp' \<and>
      dedup_inv (pre @ b # bs) temp'" if "dedup_inv (pre @ [b]) t" for t
    using Cons.IH [of "pre @ [b]" t "mb_va_addr b" "mb_submit_index b" "mb_data_size b"] Cons.prems(1,2) that
    by simp
  have push: "dedup_inv (pre @ [b]) (temp @ [b])"
    if "\<And>c. c \<in> set pre \<Longrightarrow> mb_submit_index c = mb_submit_index b \<Longrightarrow> blk_lo c \<noteq> blk_lo b"
  proof (rule dedup_inv_push [OF Cons.prems(3)])
    fix c assume c: "c \<in> set pre"
    show "block_key c \<noteq> block_key b"
      using that [OF c] by (auto simp: block_key_def blk_lo_def)
    show "below True c b"
      using le [OF c] ap [OF c] that [OF c] ok [of c] ok [of b] c blk_lo_le_hi [of c] blk_lo_le_hi [of b]
      by (auto simp: below_def block_key_def apart_def less_eq_prod_def blk_lo_def word_le_nat_alt)
  qed
  show ?case
  proof (cases "pre = []")
    case True
    then have "temp = []" "prev_addr = 0" "prev_size = 0"
      using Cons.prems(3,5) by (auto simp: dedup_inv_def winners_def)
    then show ?thesis
      using IH [OF push] True by auto
  next
    case False
    let ?p = "last pre"
    have p: "?p \<in> set pre" "prev_addr = mb_va_addr ?p" "prev_submit = mb_submit_index ?p"
        "prev_size = mb_data_size ?p"
      using False Cons.prems(4) by auto
    have max: "block_key c \<le> block_key ?p" if "c \<in> set pre" for c
    proof -
      have "pre = butlast pre @ [?p]"
        using False by simp
      moreover from this have "sorted (map block_key (butlast pre @ ?p # b # bs))"
        using Cons.prems(1) by (metis append.assoc append_Cons append_Nil)
      ultimately show ?thesis
        using sorted_blocks_le that by (metis Un_iff order.refl set_ConsD set_append empty_iff empty_set)
    qed
    have hi: "unat (prev_addr + ucast prev_size) = blk_hi ?p"
      using unat_block_end [of ?p] ok [of ?p] p by (simp add: block_end_def)
    have temp: "temp \<noteq> []"
      using Cons.prems(3) False by (simp add: dedup_inv_def)
    consider (submit) "mb_submit_index b \<noteq> prev_submit"
      | (beyond) "mb_submit_index b = prev_submit" "prev_addr + ucast prev_size \<le> mb_va_addr b"
      | (same) "mb_submit_index b = prev_submit" "\<not> prev_addr + ucast prev_size \<le> mb_va_addr b"
      by blast
    then show ?thesis
    proof cases
      case submit
      have "mb_submit_index c \<noteq> mb_submit_index b" if "c \<in> set pre" for c
        using max [OF that] le [OF p(1)] submit p(3) by (auto simp: block_key_def less_eq_prod_def)
      then show ?thesis
        using IH [OF push] submit by simp
    next
      case beyond
      have "blk_hi ?p \<le> blk_lo b"
        using beyond(2) hi by (simp add: word_le_nat_alt blk_lo_def)
      moreover have "blk_lo ?p < blk_hi ?p"
        using ok [of ?p] p(1) by (simp add: blk_hi_def)
      ultimately have "blk_lo c \<noteq> blk_lo b" if "c \<in> set pre" "mb_submit_index c = mb_submit_index b" for c
        using max [OF that(1)] that(2) beyond(1) p(3)
        by (auto simp: block_key_def less_eq_prod_def blk_lo_def word_le_nat_alt)
      then show ?thesis
        using IH [OF push] beyond by simp
    next
      case same
      have "blk_lo b < blk_hi ?p"
        using same(2) hi by (simp add: word_le_nat_alt blk_lo_def)
      moreover have "blk_lo ?p \<le> blk_lo b"
        using le [OF p(1)] same(1) p(3) by (auto simp: block_key_def less_eq_prod_def blk_lo_def word_le_nat_alt)
      moreover have "blk_lo b < blk_hi b"
        using ok [of b] by (simp add: blk_hi_def)
      ultimately have "blk_lo ?p = blk_lo b"
        using ap [OF p(1)] same(1) p(3) by (auto simp: apart_def)
      then have "block_key b = block_key ?p"
        using same(1) p(3) unat_eqD [of "mb_va_addr b" "mb_va_addr ?p"]
        by (simp add: block_key_def blk_lo_def)
      then have "dedup_inv (pre @ [b])
          (if mb_data_size b \<ge> mb_data_size (last temp) then butlast temp @ [b] else temp)"
        by (rule dedup_inv_same [OF Cons.prems(3) False]) (use ok in simp)
      then show ?thesis
        using IH temp same \<open>block_key b = block_key ?p\<close> p(2) by (auto simp: block_key_def split: if_splits)
    qed
  qed
qed

lemma winner_sort: "winner (sort_key block_key bs) k = winner bs k"
proof -
  have "filter (\<lambda>b. block_key b = k) (sort_key block_key bs) = filter (\<lambda>b. block_key b = k) bs"
    using sort_key_stable [of block_key k bs] by (simp add: eq_commute)
  then show ?thesis
    by (simp add: winner_def)
qed

text \<open>Sorted blocks pass the sanity checks.\<close>

lemma no_overlaps_below:
  assumes "sorted_wrt (below x) bs" "\<forall>b \<in> set bs. block_ok b"
    and "\<And>b. bs \<noteq> [] \<Longrightarrow> b = hd bs \<Longrightarrow> mb_submit_index b = s \<Longrightarrow> a \<le> mb_va_addr b"
  shows "no_overlaps a s bs"
  using assms
proof (induction bs arbitrary: a s)
  case (Cons b bs)
  have "block_end b \<le> mb_va_addr c" if "bs \<noteq> []" "c = hd bs" "mb_submit_index c = mb_submit_index b" for c
  proof -
    have "below x b c"
      using Cons.prems(1) that by simp
    then show ?thesis
      using that(3) unat_block_end [of b] Cons.prems(2) by (simp add: below_def word_le_nat_alt blk_lo_def)
  qed
  then show ?case
    using Cons by auto
qed simp

lemma Finalize_same_submit:
  assumes "capture_ok (m_memory_blocks mm)"
  obtains mm' where "MemoryManager_Finalize debug True dup mm = Some mm'" "blocks_ok mm'" "m_same_submit_only mm'"
    "set (m_memory_blocks mm') = winners (m_memory_blocks mm)"
    "m_last_used_block_ptr mm' = moved (m_last_used_block_ptr mm)"
proof -
  let ?bs = "sort_key block_key (m_memory_blocks mm)"
  have key: "block_key = (\<lambda>b. (mb_submit_index b, mb_va_addr b))"
    by (simp add: fun_eq_iff block_key_def)
  obtain temp where temp: "dedup_blocks debug 0 0 0 [] ?bs = Some temp" "dedup_inv ?bs temp"
    using dedup_blocks_correct [of "[]" ?bs "[]" 0 0 0 debug] assms
    by (auto simp: capture_ok_def dedup_inv_def winners_def)
  have w: "set temp = winners (m_memory_blocks mm)"
    using temp(2) unfolding dedup_inv_def winners_def by (simp add: winner_sort)
  have "block_ok b" if "b \<in> set temp" for b
    using dedup_inv_mem(1) [OF temp(2) that] assms by (simp add: capture_ok_def)
  moreover from this have "no_overlaps 0 0 temp"
    using temp(2) by (intro no_overlaps_below [of True]) (auto simp: dedup_inv_def)
  ultimately show thesis
    using that [of "mm\<lparr>m_same_submit_only := True, m_memory_blocks := temp,
                       m_last_used_block_ptr := moved (m_last_used_block_ptr mm)\<rparr>"] temp w
    by (auto simp: MemoryManager_Finalize_def sort_blocks_def blocks_ok_def dedup_inv_def key)
qed

text \<open>Without the restriction to one submit the capture must not hold any address twice.\<close>

definition flat_ok :: "MemoryBlock list \<Rightarrow> bool" where
  "flat_ok bs \<longleftrightarrow> (\<forall>b \<in> set bs. block_ok b \<and> mb_data b \<noteq> []) \<and> sorted_wrt apart bs"

lemma apart_sym: "apart b c = apart c b"
  by (auto simp: apart_def)

lemma sorted_wrt_perm:
  assumes "\<And>x y. R x y = R y x" "mset xs = mset ys" "sorted_wrt R xs"
  shows "sorted_wrt R ys"
  using assms(2,3)
proof (induction xs arbitrary: ys)
  case (Cons x xs)
  obtain us vs where ys: "ys = us @ x # vs"
    using Cons.prems(1) by (metis list.set_intros(1) mset_eq_setD split_list)
  then have m: "mset xs = mset (us @ vs)"
    using Cons.prems(1) by simp
  have "sorted_wrt R (us @ vs)"
    using Cons.IH [OF m] Cons.prems(2) by simp
  moreover have "R x y" if "y \<in> set (us @ vs)" for y
    using mset_eq_setD [OF m] that Cons.prems(2) by auto
  ultimately show ?case
    using assms(1) ys by (auto simp: sorted_wrt_append)
qed simp

lemma Finalize_flat:
  assumes "flat_ok (m_memory_blocks mm)"
  obtains mm' where "MemoryManager_Finalize debug False dup mm = Some mm'" "blocks_ok mm'" "\<not> m_same_submit_only mm'"
    "mset (m_memory_blocks mm') = mset (m_memory_blocks mm)"
    "m_last_used_block_ptr mm' = m_last_used_block_ptr mm"
proof -
  let ?bs = "sort_key mb_va_addr (m_memory_blocks mm)"
  have "sorted_wrt apart ?bs"
    using sorted_wrt_perm [of apart "m_memory_blocks mm" ?bs] apart_sym assms by (simp add: flat_ok_def)
  moreover have "sorted_wrt (\<lambda>b c. mb_va_addr b \<le> mb_va_addr c) ?bs"
    using sorted_sort_key [of mb_va_addr "m_memory_blocks mm"] by (simp add: sorted_map)
  ultimately have "sorted_wrt (\<lambda>b c. apart b c \<and> mb_va_addr b \<le> mb_va_addr c) ?bs"
    by (simp add: sorted_wrt_iff_nth_less)
  then have "sorted_wrt (below False) ?bs"
  proof (rule sorted_wrt_mono_rel [rotated])
    fix b c assume bc: "b \<in> set ?bs" "c \<in> set ?bs" "apart b c \<and> mb_va_addr b \<le> mb_va_addr c"
    have "blk_lo c < blk_hi c"
      using bc(2) assms by (simp add: flat_ok_def blk_hi_def)
    then show "below False b c"
      using bc(3) by (auto simp: below_def apart_def blk_lo_def word_le_nat_alt)
  qed
  moreover from this have "no_overlaps 0 0 ?bs"
    using assms by (intro no_overlaps_below [of False]) (auto simp: flat_ok_def)
  ultimately show thesis
    using that [of "mm\<lparr>m_same_submit_only := False, m_memory_blocks := ?bs\<rparr>"] assms
    by (auto simp: MemoryManager_Finalize_def sort_blocks_def blocks_ok_def flat_ok_def)
qed

end
