(* ===== verification/Pm4_Callbacks.thy ===== *)
theory Pm4_Callbacks
  imports Pm4_Emulator Pm4_Memory
begin

text \<open>
  \<^verbatim>\<open>EmulateCallbacksBase\<close> of \<^verbatim>\<open>dive_core/common/emulate_pm4.h\<close> as callbacks of the emulator, and the
  balance of the enable masks it pushes and pops.

  The callbacks keep the register tracker and, beside it, the list of all calls they got
  (\<open>cb_events\<close>, a ghost of the model that no operation reads).

  Shown here: without a CHAIN packet the stack of enable masks of the tracker is the list of the masks
  of the IB levels the emulator is in, so a submit leaves the tracker's masks as it found them; a CHAIN
  pushes a mask that nothing pops.
\<close>

section \<open>The callbacks\<close>

datatype cb_event =
    ev_SubmitStart u32 | ev_SubmitEnd u32 | ev_IbStart u32 u32 IndirectBufferInfo IbType
  | ev_IbEnd u32 u32 IndirectBufferInfo | ev_Packet u32 u32 u64 Pm4Header

record EmulateCallbacksBase =
  m_state_tracker :: EmulateStateTracker
  cb_events :: "cb_event list"

definition EmulateCallbacksBase_new :: EmulateCallbacksBase where
  "EmulateCallbacksBase_new = \<lparr>m_state_tracker = EmulateStateTracker_new, cb_events = []\<rparr>"

definition log_event :: "cb_event \<Rightarrow> EmulateCallbacksBase \<Rightarrow> EmulateCallbacksBase" where
  "log_event e cb = cb\<lparr>cb_events := cb_events cb @ [e]\<rparr>"

definition EmulateCallbacksBase_OnIbStart ::
    "u32 \<Rightarrow> u32 \<Rightarrow> IndirectBufferInfo \<Rightarrow> IbType \<Rightarrow> EmulateCallbacksBase \<Rightarrow> (bool \<times> EmulateCallbacksBase) option" where
  "EmulateCallbacksBase_OnIbStart submit_index index ib_info type cb =
    Some (True, log_event (ev_IbStart submit_index index ib_info type)
      (cb\<lparr>m_state_tracker := PushEnableMask (ib_enable_mask ib_info) (m_state_tracker cb)\<rparr>))"

definition EmulateCallbacksBase_OnIbEnd ::
    "u32 \<Rightarrow> u32 \<Rightarrow> IndirectBufferInfo \<Rightarrow> EmulateCallbacksBase \<Rightarrow> (bool \<times> EmulateCallbacksBase) option" where
  "EmulateCallbacksBase_OnIbEnd submit_index index ib_info cb =
    map_option (\<lambda>tr. (True, log_event (ev_IbEnd submit_index index ib_info) (cb\<lparr>m_state_tracker := tr\<rparr>)))
      (PopEnableMask (m_state_tracker cb))"

definition EmulateCallbacksBase_OnPacket ::
    "bool \<Rightarrow> pm4_isa \<Rightarrow> 'm retriever \<Rightarrow> u32 \<Rightarrow> u32 \<Rightarrow> u64 \<Rightarrow> Pm4Header \<Rightarrow> EmulateCallbacksBase \<Rightarrow> 'm \<Rightarrow>
     (bool \<times> EmulateCallbacksBase \<times> 'm) option" where
  "EmulateCallbacksBase_OnPacket debug isa retrieve submit_index index va_addr header cb m =
    map_option
      (\<lambda>(ok, tr, m). (ok, log_event (ev_Packet submit_index index va_addr header) (cb\<lparr>m_state_tracker := tr\<rparr>), m))
      (EmulateStateTracker_OnPacket debug isa retrieve submit_index va_addr header (m_state_tracker cb) m)"

definition base_env ::
    "bool \<Rightarrow> pm4_isa \<Rightarrow> 'm retriever \<Rightarrow> (u32 \<Rightarrow> u64 \<Rightarrow> u64 \<Rightarrow> 'm \<Rightarrow> bool option) \<Rightarrow>
     (EmulateCallbacksBase, 'm) emu_env" where
  "base_env debug isa retrieve is_valid =
    \<lparr>env_debug = debug, env_isa = isa, env_retrieve = retrieve, env_is_valid = is_valid,
     env_OnIbStart = EmulateCallbacksBase_OnIbStart,
     env_OnIbEnd = EmulateCallbacksBase_OnIbEnd,
     env_OnPacket = EmulateCallbacksBase_OnPacket debug isa retrieve,
     env_OnSubmitStart = (\<lambda>i _. log_event (ev_SubmitStart i)),
     env_OnSubmitEnd = (\<lambda>i _. log_event (ev_SubmitEnd i))\<rparr>"

lemma base_env_simps [simp]:
  "env_debug (base_env d isa r v) = d" "env_isa (base_env d isa r v) = isa"
  "env_retrieve (base_env d isa r v) = r" "env_is_valid (base_env d isa r v) = v"
  "env_OnIbStart (base_env d isa r v) = EmulateCallbacksBase_OnIbStart"
  "env_OnIbEnd (base_env d isa r v) = EmulateCallbacksBase_OnIbEnd"
  "env_OnPacket (base_env d isa r v) = EmulateCallbacksBase_OnPacket d isa r"
  "env_OnSubmitStart (base_env d isa r v) = (\<lambda>i _. log_event (ev_SubmitStart i))"
  "env_OnSubmitEnd (base_env d isa r v) = (\<lambda>i _. log_event (ev_SubmitEnd i))"
  by (simp_all add: base_env_def)

section \<open>Packets keep the enable masks\<close>

definition tracker_masks :: "EmulateStateTracker \<Rightarrow> u32 list" where
  "tracker_masks tr = m_enable_mask_stack tr @ [m_enable_mask tr]"

lemma set_reg_loop_masks: "set_reg_loop n offset v tr = Some tr' \<Longrightarrow> tracker_masks tr' = tracker_masks tr"
proof (induction n arbitrary: tr)
  case (Suc n)
  then show ?case
    by (auto simp: Let_def tracker_masks_def write_reg_def split: if_splits dest!: Suc.IH)
qed simp

lemma SetReg_masks: "SetReg offset v tr = Some tr' \<Longrightarrow> tracker_masks tr' = tracker_masks tr"
  by (simp add: SetReg_def set_reg_loop_masks)

lemma reg_bunch_loop_masks:
  "reg_bunch_loop debug isa retrieve s va cnt dword tr m = Some (tr', m') \<Longrightarrow>
   tracker_masks tr' = tracker_masks tr"
proof (induction "cnt - dword" arbitrary: dword tr m rule: less_induct)
  case less
  have IH: "tracker_masks tr' = tracker_masks tr1"
    if "dword < cnt" "reg_bunch_loop debug isa retrieve s va cnt (dword + Suc k) tr1 m1 = Some (tr', m')" for k tr1 m1
    using less.hyps [OF _ that(2)] that(1) by simp
  show ?case
    using less.prems IH [of 1] IH [of 3]
    by (subst (asm) reg_bunch_loop.simps) (auto split: if_splits bind_splits dest!: SetReg_masks)
qed

lemma reg_value_loop_masks:
  "reg_value_loop debug retrieve s va off i n tr m = Some (tr', m') \<Longrightarrow> tracker_masks tr' = tracker_masks tr"
proof (induction n arbitrary: i tr m)
  case (Suc n)
  then show ?case
    by (auto split: bind_splits dest!: SetReg_masks Suc.IH)
qed simp

lemma type4_loop_masks:
  "type4_loop debug isa retrieve s va off cnt dword tr m = Some (tr', m') \<Longrightarrow> tracker_masks tr' = tracker_masks tr"
proof (induction "cnt - dword" arbitrary: dword tr m rule: less_induct)
  case less
  have IH: "tracker_masks tr' = tracker_masks tr1"
    if "dword < cnt" "type4_loop debug isa retrieve s va off cnt (dword + Suc k) tr1 m1 = Some (tr', m')" for k tr1 m1
    using less.hyps [OF _ that(2)] that(1) by simp
  show ?case
    using less.prems IH [of 0] IH [of 1]
    by (subst (asm) type4_loop.simps)
      (auto simp: Let_def simp del: reg_value_loop.simps split: if_splits bind_splits dest!: reg_value_loop_masks)
qed

lemma OnPacket_masks:
  assumes "EmulateStateTracker_OnPacket debug isa retrieve s va h tr m = Some (ok, tr', m')"
  shows "tracker_masks tr' = tracker_masks tr \<and> ok"
proof -
  have "tracker_masks (tr1\<lparr>m_shader_enable_bit := b\<rparr>) = tracker_masks tr1" for tr1 b
    by (simp add: tracker_masks_def)
  then show ?thesis
    using assms unfolding EmulateStateTracker_OnPacket_def
    by (auto simp: Let_def split: if_splits bind_splits dest!: reg_bunch_loop_masks type4_loop_masks)
qed

section \<open>The masks of the IB levels\<close>

text \<open>The packets emulated so far, and the masks of the levels the emulator is in.\<close>

definition emulated :: "EmulateCallbacksBase \<Rightarrow> Pm4Header list" where
  "emulated cb = concat (map (\<lambda>e. case e of ev_Packet s i va h \<Rightarrow> [h] | _ \<Rightarrow> []) (cb_events cb))"

definition cb_masks :: "EmulateCallbacksBase \<Rightarrow> u32 list" where
  "cb_masks cb = tracker_masks (m_state_tracker cb)"

definition level_masks :: "EmulateState \<Rightarrow> u32 list" where
  "level_masks es = take (es_top_of_stack es) (drop 1 (masks es))"

definition balanced :: "u32 list \<Rightarrow> EmulateState \<Rightarrow> EmulateCallbacksBase \<Rightarrow> bool" where
  "balanced M es cb \<longleftrightarrow> M \<noteq> [] \<and> es_ok es \<and> no_chain es \<and> cb_masks cb = M @ level_masks es"

lemma tracker_masks_Push [simp]: "tracker_masks (PushEnableMask x tr) = tracker_masks tr @ [x]"
  by (simp add: tracker_masks_def PushEnableMask_def)

lemma tracker_masks_Pop: "PopEnableMask tr = Some tr' \<Longrightarrow> tracker_masks tr' = butlast (tracker_masks tr)"
  by (auto simp: tracker_masks_def PopEnableMask_def split: if_splits)

lemma emulated_simps [simp]:
  "emulated (log_event (ev_IbStart s i info type) cb) = emulated cb"
  "emulated (log_event (ev_IbEnd s i info) cb) = emulated cb"
  "emulated (log_event (ev_SubmitStart s) cb) = emulated cb"
  "emulated (log_event (ev_SubmitEnd s) cb) = emulated cb"
  "emulated (log_event (ev_Packet s i va h) cb) = emulated cb @ [h]"
  "emulated (cb\<lparr>m_state_tracker := tr\<rparr>) = emulated cb"
  "cb_masks (log_event e cb) = cb_masks cb"
  "cb_masks (cb\<lparr>m_state_tracker := tr\<rparr>) = tracker_masks tr"
  by (simp_all add: emulated_def log_event_def cb_masks_def)

lemma length_masks [simp]: "length (masks es) = length (es_ib_stack es)"
  by (simp add: masks_def)

lemma masks_cur: "es_ok es \<Longrightarrow> masks es ! es_top_of_stack es = stk_cur_ib_enable_mask (GetCurIb es)"
  using es_ok_cur(1) [of es] by (simp add: masks_def GetCurIb_def)

lemma same_level_masks: "same_level ch es es' \<Longrightarrow> level_masks es' = level_masks es"
  by (simp add: same_level_def level_masks_def)

lemma balanced_same_level:
  "balanced M es cb \<Longrightarrow> same_level ch es es' \<Longrightarrow> \<not> ch \<Longrightarrow> cb_masks cb' = cb_masks cb \<Longrightarrow> balanced M es' cb'"
  using same_level_masks [of ch es es'] by (simp add: balanced_def same_level_def)

lemma enter_ib_masks:
  assumes "es_ok es" "es_top_of_stack es + 1 < length (es_ib_stack es)"
  shows "level_masks (enter_ib q es) = level_masks es @ [q_enable_mask q]"
    and "no_chain es \<Longrightarrow> no_chain (enter_ib q es)"
proof -
  let ?t = "es_top_of_stack es"
  let ?prev = "GetCurIb es"
  have t: "?t < length (es_ib_stack es)"
    using assms(2) by simp
  have "masks (enter_ib q es) = (masks es)[?t + 1 := q_enable_mask q, ?t := stk_cur_ib_enable_mask ?prev]"
    by (simp add: enter_ib_def Let_def masks_def set_level_def map_update)
  also have "\<dots> = (masks es)[?t + 1 := q_enable_mask q]"
    using list_update_id [of "(masks es)[?t + 1 := q_enable_mask q]" ?t]
    by (simp add: masks_cur [OF assms(1), symmetric])
  finally have "masks (enter_ib q es) = (masks es)[Suc ?t := q_enable_mask q]"
    by simp
  moreover have "level_masks es' = take ?t xs @ [q_enable_mask q]"
    if "masks es = x # xs" "masks es' = (masks es)[Suc ?t := q_enable_mask q]" "es_top_of_stack es' = Suc ?t"
    for x xs es'
  proof -
    have "length (es_ib_stack es) = Suc (length xs)"
      using length_masks [of es] unfolding that(1) by simp
    then show ?thesis
      using assms(2) that by (simp add: level_masks_def take_Suc_conv_app_nth)
  qed
  ultimately show "level_masks (enter_ib q es) = level_masks es @ [q_enable_mask q]"
    using t by (cases "masks es") (auto simp: level_masks_def masks_def)
  show "no_chain (enter_ib q es)" if nc: "no_chain es"
  proof -
    have "no_chain (es\<lparr>es_ib_index := i, es_top_of_stack := k\<rparr>) = no_chain es"
      "no_chain (es\<lparr>es_top_of_stack := k\<rparr>) = no_chain es" for i k
      by (simp_all add: no_chain_def)
    moreover have "\<forall>q' \<in> set (stk_queue ?prev). q_type q' \<noteq> kChain"
      using no_chain_cur [OF nc assms(1)] by blast
    ultimately show ?thesis
      unfolding enter_ib_def Let_def using nc by (intro no_chain_set_level) auto
  qed
qed

lemma start_ib_base:
  assumes "es_ok es" "es_top_of_stack es \<noteq> kPrimaryRing"
    and "start_ib (base_env d isa r v) (es, cb, m) = Some (b, es', cb', m')"
  shows "b \<and> same_level False es es' \<and> emulated cb' = emulated cb \<and>
    cb_masks cb' = cb_masks cb @ [stk_cur_ib_enable_mask (GetCurIb es)]"
proof -
  have "cb_masks cb = tracker_masks (m_state_tracker cb)"
    by (simp add: cb_masks_def)
  then show ?thesis
    using start_ib_ok [OF assms] assms(3)
    by (auto simp: start_ib_def Let_def EmulateCallbacksBase_OnIbStart_def split: bind_splits)
qed

lemma AdvanceToQueuedIB_balanced:
  assumes bal: "balanced M es cb" and r: "AdvanceToQueuedIB (base_env d isa rt v) (es, cb, m) = Some (b, es', cb', m')"
  shows "b \<and> balanced M es' cb'"
proof -
  let ?cur = "GetCurIb es"
  have ok: "es_ok es" and nc: "no_chain es"
    using bal by (simp_all add: balanced_def)
  consider (idle) "es' = es" "cb' = cb" "b"
    | (call) q where "stk_queue_index ?cur < length (stk_queue ?cur)"
        "es_top_of_stack es + 1 < length (es_ib_stack es)"
        "start_ib (base_env d isa rt v) (enter_ib q es, cb, m) = Some (b, es', cb', m')"
    | (chain) "stk_queue_index ?cur < length (stk_queue ?cur)" "q_type (stk_queue ?cur ! stk_queue_index ?cur) = kChain"
    using r by (auto simp: AdvanceToQueuedIB_def Let_def not_le split: if_splits bind_splits)
  then show ?thesis
  proof cases
    case idle
    then show ?thesis
      using bal by simp
  next
    case call
    have ok': "es_ok (enter_ib q es)" and top: "es_top_of_stack (enter_ib q es) \<noteq> kPrimaryRing"
      using enter_ib_ok(1) [OF ok call(2,1)] by (simp_all add: kPrimaryRing_def)
    have cur: "stk_cur_ib_enable_mask (GetCurIb (enter_ib q es)) = q_enable_mask q"
      using call(2) by (simp add: enter_ib_def Let_def GetCurIb_def set_level_def nth_upd)
    note s = start_ib_base [OF ok' top call(3), unfolded cur] and e = enter_ib_masks [OF ok call(2), of q]
    have "same_level False (enter_ib q es) es'"
      using s by simp
    then have "level_masks es' = level_masks es @ [q_enable_mask q]" "no_chain es'" "es_ok es'"
      using same_level_masks [of False "enter_ib q es" es'] e(1) e(2) [OF nc]
      by (simp_all only: simp_thms, simp_all add: same_level_def)
    then show ?thesis
      using s bal by (simp add: balanced_def)
  next
    case chain
    then show ?thesis
      using no_chain_cur [OF nc ok nth_mem] by simp
  qed
qed

lemma AdvanceOutOfIB_balanced:
  assumes bal: "balanced M es cb" and r: "AdvanceOutOfIB (base_env d isa rt v) (es, cb, m) = Some (b, es', cb', m')"
  shows "b \<and> balanced M es' cb'"
proof -
  let ?t = "es_top_of_stack es"
  have es': "es' = es\<lparr>es_top_of_stack := ?t - 1\<rparr>" and t: "?t \<noteq> 0"
    using AdvanceOutOfIB_pending(2,3) [OF r] by auto
  obtain tr where pop: "PopEnableMask (m_state_tracker cb) = Some tr"
    and cb': "b" "emulated cb' = emulated cb" "cb_masks cb' = tracker_masks tr"
    using r by (auto simp: AdvanceOutOfIB_def EmulateCallbacksBase_OnIbEnd_def Let_def split: if_splits bind_splits)
  have ok: "es_ok es"
    using bal by (simp add: balanced_def)
  then have len: "?t < length (masks es)"
    using es_ok_cur(1) by simp
  have "level_masks es = level_masks es' @ [masks es ! ?t]"
    using t len by (cases ?t) (simp_all add: es' level_masks_def masks_def take_Suc_conv_app_nth)
  then have "cb_masks cb' = M @ level_masks es'"
    using bal tracker_masks_Pop [OF pop] cb'(3) by (simp add: balanced_def cb_masks_def butlast_append)
  moreover have "es_ok es'" "no_chain es'"
    using bal es_ok_top [OF ok, of "?t - 1"] ok by (auto simp: es' balanced_def no_chain_def es_ok_def)
  ultimately show ?thesis
    using bal cb' by (simp add: balanced_def)
qed

lemma CheckAndAdvanceIB_balanced:
  assumes "balanced M es cb" "CheckAndAdvanceIB (base_env d isa rt v) (es, cb, m) = Some (b, es', cb', m')"
  shows "b \<and> balanced M es' cb'"
proof -
  let ?P = "\<lambda>(es, cb, m). balanced M es cb"
  have "if b then ?P (es', cb', m') else False"
    by (rule CheckAndAdvanceIB_induct [where P = ?P and Q = ?P and F = "\<lambda>_. False", OF assms(2)])
      (use assms(1) AdvanceOutOfIB_balanced AdvanceToQueuedIB_balanced in fastforce)+
  then show ?thesis
    by (simp split: if_splits)
qed

lemma advance_case_balanced:
  assumes bal: "balanced M es cb" and top: "es_top_of_stack es \<noteq> kPrimaryRing"
    and r: "advance_case (base_env d isa rt v) h (es, cb, m) = Some (b, es', cb', m')"
    and nch: "\<not> is_op isa h CP_INDIRECT_BUFFER_CHAIN"
  shows "balanced M es' cb'"
proof -
  have ok: "es_ok es"
    using bal by (simp add: balanced_def)
  obtain es1 where s: "same_level False es es1"
    and k: "es' = es1 \<and> cb' = cb \<or> (\<exists>m1. AdvanceToQueuedIB (base_env d isa rt v) (es1, cb, m1) = Some (b, es', cb', m'))"
    using advance_case_ok [OF ok top r] nch by (auto simp: staged_def)
  have "balanced M es1 cb"
    by (rule balanced_same_level [OF bal s]) simp_all
  then show ?thesis
    using k AdvanceToQueuedIB_balanced [of M es1 cb d isa rt v] by auto
qed

lemma AdvanceCb_balanced:
  assumes bal: "balanced M es cb" and top: "es_top_of_stack es \<noteq> kPrimaryRing"
    and r: "AdvanceCb (base_env d isa rt v) h (es, cb, m) = Some (b, es', cb', m')"
    and nch: "\<not> is_op isa h CP_INDIRECT_BUFFER_CHAIN"
  shows "balanced M es' cb'"
  using r [unfolded AdvanceCb_def]
proof (cases rule: and_then_Some)
  case stop
  then show ?thesis
    using advance_case_balanced [OF bal top stop(2) nch] by simp
next
  case (continue s1)
  obtain es1 cb1 m1 where s1: "s1 = (es1, cb1, m1)"
    by (cases s1) auto
  note a = advance_case_balanced [OF bal top continue(1) [unfolded s1] nch]
  then show ?thesis
    using CheckAndAdvanceIB_balanced [OF _ continue(2) [unfolded s1]] by simp
qed

text \<open>Whether a CHAIN was emulated: the balance holds until then.\<close>

definition chained :: "pm4_isa \<Rightarrow> EmulateCallbacksBase \<Rightarrow> bool" where
  "chained isa cb \<longleftrightarrow> (\<exists>h \<in> set (emulated cb). is_op isa h CP_INDIRECT_BUFFER_CHAIN)"

lemma AdvanceToQueuedIB_emulated:
  "AdvanceToQueuedIB (base_env d isa rt v) (es, cb, m) = Some (b, es', cb', m') \<Longrightarrow> emulated cb' = emulated cb"
  by (auto simp: AdvanceToQueuedIB_def start_ib_def EmulateCallbacksBase_OnIbStart_def Let_def
      split: if_splits bind_splits)

lemma AdvanceOutOfIB_emulated:
  "AdvanceOutOfIB (base_env d isa rt v) (es, cb, m) = Some (b, es', cb', m') \<Longrightarrow> emulated cb' = emulated cb"
  by (auto simp: AdvanceOutOfIB_def EmulateCallbacksBase_OnIbEnd_def Let_def split: if_splits bind_splits)

lemma CheckAndAdvanceIB_emulated:
  assumes "CheckAndAdvanceIB (base_env d isa rt v) (es, cb, m) = Some (b, es', cb', m')"
  shows "emulated cb' = emulated cb"
proof -
  let ?P = "\<lambda>(es1, cb1, m1). emulated cb1 = emulated cb"
  have "if b then ?P (es', cb', m') else ?P (es', cb', m')"
    by (rule CheckAndAdvanceIB_induct [where P = ?P and Q = ?P and F = ?P, OF assms])
      (auto dest: AdvanceOutOfIB_emulated AdvanceToQueuedIB_emulated)
  then show ?thesis
    by (simp split: if_splits)
qed

lemma AdvanceCb_emulated:
  assumes "es_ok es" "es_top_of_stack es \<noteq> kPrimaryRing"
    and "AdvanceCb (base_env d isa rt v) h (es, cb, m) = Some (b, es', cb', m')"
  shows "emulated cb' = emulated cb"
proof -
  have adv: "emulated cb1 = emulated cb"
    if "advance_case (base_env d isa rt v) h (es, cb, m) = Some (b1, es1, cb1, m1)" for b1 es1 cb1 m1
    using advance_case_ok [OF assms(1,2) that] by (auto simp: staged_def dest: AdvanceToQueuedIB_emulated)
  show ?thesis
    using assms(3) [unfolded AdvanceCb_def]
  proof (cases rule: and_then_Some)
    case stop
    then show ?thesis
      using adv by simp
  next
    case (continue s1)
    then show ?thesis
      using adv CheckAndAdvanceIB_emulated [of d isa rt v] by (cases s1) auto
  qed
qed

text \<open>What every round of \<^verbatim>\<open>ExecuteSubmit\<close> keeps, starting from the masks \<open>M\<close>.\<close>

definition unchained_balanced :: "pm4_isa \<Rightarrow> u32 list \<Rightarrow> (EmulateCallbacksBase, 'm) emu \<Rightarrow> bool" where
  "unchained_balanced isa M s \<longleftrightarrow>
     es_ok (fst s) \<and> (\<not> chained isa (fst (snd s)) \<longrightarrow> balanced M (fst s) (fst (snd s)))"

lemma emulate_packet_balanced:
  assumes bal: "unchained_balanced isa M (es, cb, m)" and top: "es_top_of_stack es \<noteq> kPrimaryRing"
    and r: "emulate_packet (base_env d isa rt v) (es, cb, m) = Some (b, es', cb', m')"
  shows "unchained_balanced isa M (es', cb', m') \<and> (chained isa cb \<longrightarrow> chained isa cb')"
proof -
  have ok: "es_ok es" "es_ok es'"
    using emulate_packet_ok [OF _ top r] bal by (simp_all add: unchained_balanced_def moved_on_def)
  consider (invalid) "es' = es" "cb' = cb"
    | (packet) va h tr m1 where "tracker_masks tr = tracker_masks (m_state_tracker cb)"
        "AdvanceCb (base_env d isa rt v) h
           (es, log_event (ev_Packet (es_submit_index es) (es_ib_index es) va h) (cb\<lparr>m_state_tracker := tr\<rparr>), m1) =
         Some (b, es', cb', m')"
    using r by (auto simp: emulate_packet_def EmulateCallbacksBase_OnPacket_def Let_def
        split: if_splits bind_splits dest!: OnPacket_masks)
  then show ?thesis
  proof cases
    case invalid
    then show ?thesis
      using bal by (simp add: unchained_balanced_def)
  next
    case packet
    let ?cb1 = "log_event (ev_Packet (es_submit_index es) (es_ib_index es) va h) (cb\<lparr>m_state_tracker := tr\<rparr>)"
    have em: "emulated cb' = emulated cb @ [h]"
      using AdvanceCb_emulated [OF ok(1) top packet(2)] by simp
    have "balanced M es' cb'" if "\<not> chained isa cb'"
    proof -
      have "\<not> chained isa cb" and nch: "\<not> is_op isa h CP_INDIRECT_BUFFER_CHAIN"
        using that em by (auto simp: chained_def)
      then have "balanced M es ?cb1"
        using bal packet(1) by (simp add: unchained_balanced_def balanced_def cb_masks_def [of cb])
      then show ?thesis
        by (rule AdvanceCb_balanced [OF _ top packet(2) nch])
    qed
    then show ?thesis
      using ok em by (auto simp: unchained_balanced_def chained_def)
  qed
qed

lemma ExecuteSubmit_balanced:
  assumes "ExecuteSubmit (base_env d isa rt v) s ibs cb m = Some (True, es, cb', m')"
  shows "(chained isa cb \<longrightarrow> chained isa cb') \<and> (\<not> chained isa cb' \<longrightarrow> cb_masks cb' = cb_masks cb)"
proof -
  let ?env = "base_env d isa rt v"
  obtain es1 s2 s3 where q: "queue_submit_ibs d ibs (EmulateState_start s) = Some (True, es1)"
    and adv: "AdvanceToQueuedIB ?env (es1, cb, m) = Some (True, s2)"
    and chk: "CheckAndAdvanceIB ?env s2 = Some (True, s3)"
    and loop: "emulate_loop ?env s3 = Some (True, es, cb', m')"
    using assms by (auto simp: ExecuteSubmit_def and_then_def bind_eq_Some_conv split: if_splits)
  obtain es2 cb2 m2 es3 cb3 m3 where s2: "s2 = (es2, cb2, m2)" and s3: "s3 = (es3, cb3, m3)"
    by (metis prod.collapse)
  have s1: "same_level False (EmulateState_start s) es1"
    by (rule queued_ok [OF queue_submit_ibs_queued [OF q] EmulateState_start_ok]) auto
  have start: "no_chain (EmulateState_start s)" "level_masks (EmulateState_start s) = []"
    by (auto simp: no_chain_def level_masks_def EmulateState_start_def kPrimaryRing_def kTotalIbLevels_def
        zero_level_def numeral_eq_Suc)
  have "cb_masks cb \<noteq> []"
    by (simp add: cb_masks_def tracker_masks_def)
  then have b1: "balanced (cb_masks cb) es1 cb"
    using s1 start same_level_masks [OF s1] by (simp add: balanced_def same_level_def)
  then have "balanced (cb_masks cb) es2 cb2"
    using AdvanceToQueuedIB_balanced [OF _ adv [unfolded s2]] by simp
  then have b3: "balanced (cb_masks cb) es3 cb3"
    using CheckAndAdvanceIB_balanced [OF _ chk [unfolded s2 s3]] by simp
  have em: "emulated cb3 = emulated cb"
    using AdvanceToQueuedIB_emulated [OF adv [unfolded s2]] CheckAndAdvanceIB_emulated [OF chk [unfolded s2 s3]]
    by simp
  let ?P = "\<lambda>x. unchained_balanced isa (cb_masks cb) x \<and> (chained isa cb \<longrightarrow> chained isa (fst (snd x)))"
  have "if True then ?P (es, cb', m') \<and> es_top_of_stack (fst (es, cb', m')) = kPrimaryRing else True"
  proof (rule emulate_loop_induct [where P = ?P and Q = "\<lambda>_. True", OF loop])
    show "?P s3"
      using b3 em by (simp add: unchained_balanced_def s3 balanced_def chained_def)
  next
    fix x b' x' assume x: "?P x" "es_top_of_stack (fst x) \<noteq> kPrimaryRing" "emulate_packet ?env x = Some (b', x')"
    obtain e1 c1 n1 e2 c2 n2 where eq: "x = (e1, c1, n1)" "x' = (e2, c2, n2)"
      by (metis prod.collapse)
    show "if b' then ?P x' else True"
      using emulate_packet_balanced [of isa "cb_masks cb" e1 c1 n1 d rt v b' e2 c2 n2] x by (simp add: eq)
  qed
  then show ?thesis
    by (auto simp: unchained_balanced_def balanced_def level_masks_def kPrimaryRing_def)
qed

lemma process_submits_balanced:
  assumes "process_submits (base_env d isa rt v) i submits cb m = Some (True, cb', m')"
  shows "(chained isa cb \<longrightarrow> chained isa cb') \<and> (\<not> chained isa cb' \<longrightarrow> cb_masks cb' = cb_masks cb)"
  using assms
proof (induction submits arbitrary: i cb m)
  case (Cons submit_info submits)
  let ?start = "log_event (ev_SubmitStart i) cb"
  consider (skip) "process_submits (base_env d isa rt v) (i + 1) submits (log_event (ev_SubmitEnd i) ?start) m =
      Some (True, cb', m')"
    | (submit) es cb1 m1 where "ExecuteSubmit (base_env d isa rt v) i (m_ibs submit_info) ?start m = Some (True, es, cb1, m1)"
        "process_submits (base_env d isa rt v) (i + 1) submits (log_event (ev_SubmitEnd i) cb1) m1 = Some (True, cb', m')"
    using Cons.prems by (auto simp: Let_def split: if_splits bind_splits)
  then show ?case
  proof cases
    case skip
    then show ?thesis
      using Cons.IH [OF skip] by (simp add: chained_def)
  next
    case submit
    then show ?thesis
      using Cons.IH [OF submit(2)] ExecuteSubmit_balanced [OF submit(1)] by (auto simp: chained_def)
  qed
qed simp

text \<open>After a CHAIN the tracker has one mask more than the emulator has levels.\<close>

lemma chain_pushes:
  assumes ok: "es_ok es" and q: "stk_queue (GetCurIb es) = [q]" "stk_queue_index (GetCurIb es) = 0" "q_type q = kChain"
    and at_end: "stk_cur_va (GetCurIb es) = cur_ib_end (GetCurIb es)"
    and r: "AdvanceToQueuedIB (base_env d isa rt v) (es, cb, m) = Some (b, es', cb', m')"
  shows "b \<and> es_top_of_stack es' = es_top_of_stack es \<and> cb_masks cb' = cb_masks cb @ [q_enable_mask q]"
proof -
  let ?cur = "GetCurIb es"
  have top: "es_top_of_stack es \<noteq> kPrimaryRing"
  proof
    assume "es_top_of_stack es = kPrimaryRing"
    then have "ring_ok ?cur"
      using ok by (simp add: es_ok_def GetCurIb_def)
    then show False
      using q by (simp add: ring_ok_def)
  qed
  have r': "start_ib (base_env d isa rt v) (chain_ib q es, cb, m) = Some (b, es', cb', m')"
    using r q at_end by (simp add: AdvanceToQueuedIB_def Let_def)
  have ok': "es_ok (chain_ib q es)"
    using chain_ib_ok [OF ok top, of q] q by simp
  have "stk_cur_ib_enable_mask (GetCurIb (chain_ib q es)) = q_enable_mask q"
    using es_ok_cur(1) [OF ok] by (simp add: chain_ib_def Let_def)
  then show ?thesis
    using start_ib_base [OF ok' _ r'] top by (simp add: same_level_def)
qed

end
