(* ===== verification/Pm4_Linear.thy ===== *)
theory Pm4_Linear
  imports Pm4_Callbacks
begin

text \<open>
  What \<^verbatim>\<open>EmulatePM4::ExecuteSubmit\<close> does for submits without jumps, and the two memory managers it runs
  on: \<^verbatim>\<open>MemoryManager\<close> of \<^verbatim>\<open>pm4_capture_data.cpp\<close> and \<^verbatim>\<open>TempMemoryManager\<close> of
  \<^verbatim>\<open>command_hierarchy.cpp\<close>.

  A submit is linear when the memory of each of its IBs holds a sequence of packets that neither call,
  chain nor queue an IB. For such a submit the emulator returns, and it has called back for every IB, and
  between its start and its end for every packet at its address, in order (\<open>submit_events\<close>).
\<close>

section \<open>Linear submits\<close>

text \<open>Callbacks that only record the calls they get.\<close>

definition trace_env ::
    "bool \<Rightarrow> pm4_isa \<Rightarrow> 'm retriever \<Rightarrow> (u32 \<Rightarrow> u64 \<Rightarrow> u64 \<Rightarrow> 'm \<Rightarrow> bool option) \<Rightarrow>
     (cb_event list, 'm) emu_env" where
  "trace_env debug isa retrieve is_valid =
    \<lparr>env_debug = debug, env_isa = isa, env_retrieve = retrieve, env_is_valid = is_valid,
     env_OnIbStart = (\<lambda>s i info type c. Some (True, c @ [ev_IbStart s i info type])),
     env_OnIbEnd = (\<lambda>s i info c. Some (True, c @ [ev_IbEnd s i info])),
     env_OnPacket = (\<lambda>s i va h c m. Some (True, c @ [ev_Packet s i va h], m)),
     env_OnSubmitStart = (\<lambda>i _ c. c @ [ev_SubmitStart i]),
     env_OnSubmitEnd = (\<lambda>i _ c. c @ [ev_SubmitEnd i])\<rparr>"

lemma trace_env_simps [simp]:
  "env_debug (trace_env d isa r v) = d" "env_isa (trace_env d isa r v) = isa"
  "env_retrieve (trace_env d isa r v) = r" "env_is_valid (trace_env d isa r v) = v"
  "env_OnIbStart (trace_env d isa r v) = (\<lambda>s i info type c. Some (True, c @ [ev_IbStart s i info type]))"
  "env_OnIbEnd (trace_env d isa r v) = (\<lambda>s i info c. Some (True, c @ [ev_IbEnd s i info]))"
  "env_OnPacket (trace_env d isa r v) = (\<lambda>s i va h c m. Some (True, c @ [ev_Packet s i va h], m))"
  by (simp_all add: trace_env_def)

text \<open>A packet is the list of its words, the header first.\<close>

definition jump_op :: "pm4_isa \<Rightarrow> Pm4Header \<Rightarrow> bool" where
  "jump_op isa h \<longleftrightarrow>
     (\<exists>op \<in> set [CP_INDIRECT_BUFFER_PFE, CP_INDIRECT_BUFFER_PFD, CP_INDIRECT_BUFFER_CHAIN, CP_SET_AMBLE,
        CP_SET_DRAW_STATE, CP_START_BIN, CP_FIXED_STRIDE_DRAW_TABLE]. is_op isa h op)"

definition plain_packet :: "pm4_isa \<Rightarrow> u32 list \<Rightarrow> bool" where
  "plain_packet isa pk \<longleftrightarrow> pk \<noteq> [] \<and> valid_header (hd pk) \<and> \<not> jump_op isa (hd pk) \<and>
     GetPacketSize True (hd pk) = Some (word_of_nat (length pk)) \<and> length pk \<le> 2 ^ 15"

fun packet_events :: "u32 \<Rightarrow> u32 \<Rightarrow> u64 \<Rightarrow> u32 list list \<Rightarrow> cb_event list" where
  "packet_events s i va [] = []"
| "packet_events s i va (pk # pks) =
    ev_Packet s i va (hd pk) # packet_events s i (va + word_of_nat (4 * length pk)) pks"

definition ib_events :: "u32 \<Rightarrow> u32 \<Rightarrow> IndirectBufferInfo \<Rightarrow> u32 list list \<Rightarrow> cb_event list" where
  "ib_events s i ib pks =
    ev_IbStart s i (ib\<lparr>ib_level := 1, ib_enable_mask := 7\<rparr>) kNormal #
    packet_events s i (ib_va_addr ib) pks @
    [ev_IbEnd s i (ib\<lparr>ib_level := 0, ib_enable_mask := 0\<rparr>)]"

fun submit_events :: "u32 \<Rightarrow> nat \<Rightarrow> (IndirectBufferInfo \<times> u32 list list) list \<Rightarrow> cb_event list" where
  "submit_events s k [] = []"
| "submit_events s k ((ib, pks) # ibs) = ib_events s (word_of_nat k) ib pks @ submit_events s (k + 1) ibs"

lemma unat_minus_one_64: "unat (- 1 :: u64) = 2 ^ 64 - 1"
  by (simp add: unsigned_minus_1_eq_mask mask_eq_exp_minus_1)

lemma le32_stream_append: "le32_stream (xs @ ys) = le32_stream xs @ le32_stream ys"
  by (simp add: le32_stream_def)

lemma GetPacketSize_debug: "GetPacketSize True h = Some n \<Longrightarrow> GetPacketSize debug h = Some n"
  by (simp add: GetPacketSize_def split: if_splits)

section \<open>The levels of a linear submit\<close>

text \<open>Parked at the primary ring with \<open>k\<close> of the IBs \<open>qs\<close> taken, and in the last one taken.\<close>

definition at_ring :: "u32 \<Rightarrow> queued_ib list \<Rightarrow> nat \<Rightarrow> EmulateState \<Rightarrow> bool" where
  "at_ring s qs k es \<longleftrightarrow>
     es_top_of_stack es = kPrimaryRing \<and> length (es_ib_stack es) = kTotalIbLevels \<and> es_submit_index es = s \<and>
     stk_cur_va (es_ib_stack es ! 0) = - 1 \<and> stk_queue (es_ib_stack es ! 0) = qs \<and>
     stk_queue_index (es_ib_stack es ! 0) = k"

definition in_ib :: "u32 \<Rightarrow> queued_ib list \<Rightarrow> nat \<Rightarrow> IbStack \<Rightarrow> EmulateState \<Rightarrow> bool" where
  "in_ib s qs k lv es \<longleftrightarrow>
     es_top_of_stack es = 1 \<and> at_ring s qs (Suc k) (es\<lparr>es_top_of_stack := kPrimaryRing\<rparr>) \<and>
     es_ib_index es = word_of_nat k \<and> GetCurIb es = lv"

lemma in_ib_set_cur: "in_ib s qs k lv es \<Longrightarrow> in_ib s qs k lv' (set_cur lv' es)"
  by (auto simp: in_ib_def at_ring_def set_cur_def set_level_def GetCurIb_def kTotalIbLevels_def)

definition level_of :: "queued_ib \<Rightarrow> IbStack" where
  "level_of q =
    \<lparr>stk_cur_va = q_addr q, stk_cur_ib_addr = q_addr q, stk_cur_ib_size_in_dwords = q_size_in_dwords q,
     stk_cur_ib_skip = q_skip q, stk_cur_ib_enable_mask = q_enable_mask q, stk_cur_ib_type = q_type q,
     stk_queue = [], stk_queue_index = 0\<rparr>"

lemma in_ib_enter:
  "at_ring s qs k es \<Longrightarrow> q_type q = kNormal \<Longrightarrow> in_ib s qs k (level_of q) (enter_ib q es)"
  by (auto simp: in_ib_def at_ring_def enter_ib_def level_of_def Let_def set_level_def GetCurIb_def
      kTotalIbLevels_def kPrimaryRing_def)

definition queued_of :: "IndirectBufferInfo \<Rightarrow> queued_ib" where
  "queued_of ib =
    \<lparr>q_type = kNormal, q_addr = ib_va_addr ib, q_size_in_dwords = ib_size_in_dwords ib, q_skip = ib_skip ib,
     q_enable_mask = 7\<rparr>"

lemma queue_submit_ibs_at_ring:
  assumes "at_ring s qs 0 es" "\<forall>ib \<in> set ibs. ib_size_in_dwords ib \<noteq> 0" "length qs + length ibs \<le> kMaxPendingIbs"
  shows "\<exists>es'. queue_submit_ibs debug ibs es = Some (True, es') \<and> at_ring s (qs @ map queued_of ibs) 0 es'"
  using assms
proof (induction ibs arbitrary: es qs)
  case (Cons ib ibs)
  let ?es = "set_cur ((GetCurIb es)\<lparr>stk_queue := qs @ [queued_of ib]\<rparr>) es"
  have "at_ring s (qs @ [queued_of ib]) 0 ?es"
    using Cons.prems(1)
    by (auto simp: at_ring_def set_cur_def set_level_def GetCurIb_def kTotalIbLevels_def kPrimaryRing_def)
  moreover have "QueueIB debug (ib_va_addr ib) (ib_size_in_dwords ib) (ib_skip ib) kNormal 7 es = Some (True, ?es)"
    using Cons.prems
    by (auto simp: QueueIB_def Let_def at_ring_def GetCurIb_def kPrimaryRing_def queued_of_def)
  ultimately show ?case
    using Cons.IH [of "qs @ [queued_of ib]" ?es] Cons.prems(2,3) by simp
qed simp

lemma start_at_ring: "at_ring s [] 0 (EmulateState_start s)"
  by (simp add: at_ring_def EmulateState_start_def kPrimaryRing_def kTotalIbLevels_def zero_level_def numeral_eq_Suc)

section \<open>Running\<close>

definition run_ibs :: "('c, 'm) emu_env \<Rightarrow> ('c, 'm) emu_op" where
  "run_ibs env s = and_then (CheckAndAdvanceIB env s) (emulate_loop env)"

lemma and_then_simps [simp]:
  "and_then (Some (True, s)) f = f s" "and_then (Some (False, s)) f = Some (False, s)" "and_then None f = None"
  by (simp_all add: and_then_def)

lemma and_then_assoc: "and_then (and_then r f) g = and_then r (\<lambda>s. and_then (f s) g)"
  by (cases r) (auto simp: and_then_def)

lemma CheckAndAdvanceIB_and_then:
  "CheckAndAdvanceIB env (es, c, m) =
    (if stk_cur_va (GetCurIb es) \<noteq> - 1 \<and> EndOfCurIb (GetCurIb es)
     then and_then (AdvanceOutOfIB env (es, c, m)) (\<lambda>s. and_then (AdvanceToQueuedIB env s) (CheckAndAdvanceIB env))
     else Some (True, es, c, m))"
  by (subst CheckAndAdvanceIB.simps) (auto simp: and_then_def split: option.splits bool.splits)

lemma emulate_loop_and_then:
  "emulate_loop env s =
    (if es_top_of_stack (fst s) = kPrimaryRing then Some (True, s)
     else and_then (emulate_packet env s) (emulate_loop env))"
  by (subst emulate_loop.simps) (auto simp: and_then_def bind_def split: option.splits)

lemma run_at_ring: "at_ring s qs k es \<Longrightarrow> run_ibs env (es, c, m) = Some (True, es, c, m)"
  by (simp add: run_ibs_def CheckAndAdvanceIB_and_then emulate_loop_and_then at_ring_def GetCurIb_def kPrimaryRing_def)

text \<open>At the end of an IB the emulator leaves it, and goes on with the next one.\<close>

definition ib_end :: "IbStack \<Rightarrow> IndirectBufferInfo" where
  "ib_end lv =
    \<lparr>ib_va_addr = stk_cur_ib_addr lv, ib_size_in_dwords = stk_cur_ib_size_in_dwords lv, ib_level = 0,
     ib_enable_mask = 0, ib_skip = stk_cur_ib_skip lv\<rparr>"

lemma run_end_of_ib:
  assumes "in_ib s qs k lv es" "stk_cur_va lv \<noteq> - 1" "EndOfCurIb lv"
  shows "run_ibs (trace_env d isa rt v) (es, c, m) =
    and_then (AdvanceToQueuedIB (trace_env d isa rt v)
      (es\<lparr>es_top_of_stack := kPrimaryRing\<rparr>, c @ [ev_IbEnd s (word_of_nat k) (ib_end lv)], m))
      (run_ibs (trace_env d isa rt v))"
proof -
  have "AdvanceOutOfIB (trace_env d isa rt v) (es, c, m) =
      Some (True, es\<lparr>es_top_of_stack := kPrimaryRing\<rparr>, c @ [ev_IbEnd s (word_of_nat k) (ib_end lv)], m)"
    using assms(1) by (simp add: AdvanceOutOfIB_def in_ib_def at_ring_def Let_def ib_end_def kPrimaryRing_def)
  moreover have "GetCurIb es = lv"
    using assms(1) by (simp add: in_ib_def)
  ultimately show ?thesis
    using assms(2,3) by (simp add: run_ibs_def CheckAndAdvanceIB_and_then and_then_assoc run_ibs_def [abs_def])
qed

lemma advance_case_plain:
  assumes "\<not> jump_op isa h" "env_isa env = isa"
  shows "advance_case env h (es, c, m) = map_option (\<lambda>es. (True, es, c, m)) (AdvancePacket (env_debug env) h es)"
  using assms by (simp add: advance_case_def Let_def jump_op_def)

section \<open>Packets in captured memory\<close>

text \<open>Memory that can also tell whether a range is there, as the emulator asks for every IB.\<close>

locale captured_memory = memory_reader retrieve ok content
  for retrieve :: "'m retriever" and ok :: "'m \<Rightarrow> bool" and content :: "'m \<Rightarrow> u32 \<Rightarrow> nat \<Rightarrow> byte option" +
  fixes is_valid :: "u32 \<Rightarrow> u64 \<Rightarrow> u64 \<Rightarrow> 'm \<Rightarrow> bool option"
  assumes is_valid_content:
    "ok m \<Longrightarrow> \<exists>b. is_valid s va n m = Some b \<and>
       ((\<forall>k < unat n. content m s (unat va + k) \<noteq> None) \<longrightarrow> b)"
begin

definition ib_packets :: "pm4_isa \<Rightarrow> 'm \<Rightarrow> u32 \<Rightarrow> IndirectBufferInfo \<Rightarrow> u32 list list \<Rightarrow> bool" where
  "ib_packets isa m s ib pks \<longleftrightarrow>
     (if ib_skip ib then pks = [] \<and> ib_va_addr ib \<noteq> - 1
      else pks \<noteq> [] \<and> (\<forall>pk \<in> set pks. plain_packet isa pk) \<and>
           unat (ib_size_in_dwords ib) = length (concat pks) \<and>
           ib_va_addr ib + word_of_nat (4 * length (concat pks)) \<noteq> - 1 \<and>
           holds_bytes m s (ib_va_addr ib) (le32_stream (concat pks)))"

lemma ib_packets_cong: "content m' = content m \<Longrightarrow> ib_packets isa m' s ib pks = ib_packets isa m s ib pks"
  using holds_bytes_cong [of m' m] by (simp add: ib_packets_def)

lemma run_packet:
  assumes ib: "in_ib s qs k lv es" and va: "stk_cur_va lv \<noteq> - 1" "\<not> EndOfCurIb lv"
    and pk: "plain_packet isa pk" and mem: "ok m" "holds_bytes m s (stk_cur_va lv) (le32_bytes (hd pk))"
  defines "lv' \<equiv> lv\<lparr>stk_cur_va := stk_cur_va lv + word_of_nat (4 * length pk)\<rparr>"
  obtains m' where "run_ibs (trace_env d isa retrieve v) (es, c, m) =
      run_ibs (trace_env d isa retrieve v)
        (set_cur lv' es, c @ [ev_Packet s (word_of_nat k) (stk_cur_va lv) (hd pk)], m')"
    "ok m'" "content m' = content m"
proof -
  let ?env = "trace_env d isa retrieve v"
  let ?ev = "ev_Packet s (word_of_nat k) (stk_cur_va lv) (hd pk)"
  obtain bs m' where rd: "read_struct d retrieve s (stk_cur_va lv) 4 4 m = Some (bs, m')" "le32 bs = hd pk"
      "ok m'" "content m' = content m"
    using read_word [OF mem] by metis
  have es: "GetCurIb es = lv" "es_submit_index es = s" "es_ib_index es = word_of_nat k"
      "es_top_of_stack es \<noteq> kPrimaryRing"
    using ib by (simp_all add: in_ib_def at_ring_def kPrimaryRing_def)
  have len: "length pk < 2 ^ 32"
    using pk by (simp add: plain_packet_def)
  have "ucast (word_of_nat (length pk) :: u32) * 4 = (word_of_nat (4 * length pk) :: u64)"
    using len by (simp add: unsigned_of_nat take_bit_nat_eq_self mult.commute)
  then have "AdvancePacket d (hd pk) es = Some (set_cur lv' es)"
    using GetPacketSize_debug [of "hd pk" "word_of_nat (length pk)" d] pk
    by (simp add: AdvancePacket_def plain_packet_def es lv'_def)
  then have "emulate_packet ?env (es, c, m) =
      CheckAndAdvanceIB ?env (set_cur lv' es, c @ [?ev], m')"
    using rd pk advance_case_plain [of isa "hd pk" ?env]
    by (simp add: emulate_packet_def read_cur_def es AdvanceCb_def plain_packet_def)
  then show thesis
    using that [OF _ rd(3,4)] va es
    by (simp add: run_ibs_def CheckAndAdvanceIB_and_then [of ?env es] emulate_loop_and_then [of ?env "(es, c, m)"])
qed

lemma not_end_of_ib:
  assumes "\<not> stk_cur_ib_skip lv" "unat (stk_cur_va lv) + 4 * n < 2 ^ 64" "n \<noteq> 0"
    and "stk_cur_va lv + word_of_nat (4 * n) = cur_ib_end lv"
  shows "\<not> EndOfCurIb lv" "stk_cur_va lv \<noteq> - 1"
proof -
  have "unat (word_of_nat (4 * n) :: u64) = 4 * n"
    using assms(2) by (simp only: unat_of_nat) simp
  then have u: "unat (stk_cur_va lv + word_of_nat (4 * n)) = unat (stk_cur_va lv) + 4 * n"
    using assms(2) by (simp add: unat_word_ariths)
  then show "\<not> EndOfCurIb lv"
    using assms(1,3,4) by (simp add: EndOfCurIb_def cur_ib_end_def word_le_nat_alt)
  show "stk_cur_va lv \<noteq> - 1"
  proof
    assume "stk_cur_va lv = - 1"
    then have "unat (stk_cur_va lv) = 2 ^ 64 - 1"
      by (simp add: unat_minus_one_64)
    then show False
      using assms(2,3) by simp
  qed
qed

lemma run_packets:
  assumes "in_ib s qs k lv es" "\<not> stk_cur_ib_skip lv" "\<forall>pk \<in> set pks. plain_packet isa pk" "pks \<noteq> []"
    and "stk_cur_va lv + word_of_nat (4 * length (concat pks)) = cur_ib_end lv"
    and "ok m" "cur_ib_end lv \<noteq> - 1" "holds_bytes m s (stk_cur_va lv) (le32_stream (concat pks))"
  shows "\<exists>es' m'. run_ibs (trace_env d isa retrieve v) (es, c, m) =
      and_then (AdvanceToQueuedIB (trace_env d isa retrieve v)
        (es', c @ packet_events s (word_of_nat k) (stk_cur_va lv) pks @ [ev_IbEnd s (word_of_nat k) (ib_end lv)], m'))
        (run_ibs (trace_env d isa retrieve v)) \<and>
    at_ring s qs (Suc k) es' \<and> ok m' \<and> content m' = content m"
  using assms
proof (induction pks arbitrary: lv es c m)
  case (Cons pk pks)
  let ?env = "trace_env d isa retrieve v"
  let ?n = "length (concat (pk # pks))"
  let ?lv' = "lv\<lparr>stk_cur_va := stk_cur_va lv + word_of_nat (4 * length pk)\<rparr>"
  let ?c' = "c @ [ev_Packet s (word_of_nat k) (stk_cur_va lv) (hd pk)]"
  have pk: "plain_packet isa pk" and n: "?n \<noteq> 0"
    using Cons.prems(3) by (auto simp: plain_packet_def)
  have lt: "unat (stk_cur_va lv) + 4 * ?n < 2 ^ 64"
    using Cons.prems(8) by (simp add: holds_bytes_def)
  note notend = not_end_of_ib [OF Cons.prems(2) lt n Cons.prems(5)]
  have hd: "holds_bytes m s (stk_cur_va lv) (le32_bytes (hd pk))"
    using holds_word [OF Cons.prems(8), of 0] pk n
    by (cases pk) (auto simp: plain_packet_def)
  obtain m1 where m1: "run_ibs ?env (es, c, m) = run_ibs ?env (set_cur ?lv' es, ?c', m1)" "ok m1" "content m1 = content m"
    using run_packet [OF Cons.prems(1) notend(2,1) pk Cons.prems(6) hd, of d v c] by metis
  have ib': "in_ib s qs k ?lv' (set_cur ?lv' es)"
    by (rule in_ib_set_cur [OF Cons.prems(1)])
  have u: "unat (word_of_nat (4 * length pk) :: u64) = 4 * length pk"
    "unat (stk_cur_va lv + word_of_nat (4 * length pk)) = unat (stk_cur_va lv) + 4 * length pk"
  proof -
    have l: "unat (stk_cur_va lv) + 4 * length pk < 2 ^ 64"
      using lt by simp
    then show "unat (word_of_nat (4 * length pk) :: u64) = 4 * length pk"
      by (simp only: unat_of_nat) simp
    then show "unat (stk_cur_va lv + word_of_nat (4 * length pk)) = unat (stk_cur_va lv) + 4 * length pk"
      using l by (simp add: unat_word_ariths)
  qed
  have e': "stk_cur_va ?lv' + word_of_nat (4 * length (concat pks)) = cur_ib_end ?lv'"
    using Cons.prems(5) by (simp add: cur_ib_end_def algebra_simps)
  show ?case
  proof (cases "pks = []")
    case True
    have "stk_cur_va ?lv' \<noteq> - 1"
      using Cons.prems(7) e' True by (simp add: cur_ib_end_def)
    moreover have "EndOfCurIb ?lv'"
      using e' True by (simp add: EndOfCurIb_def cur_ib_end_def)
    ultimately have "run_ibs ?env (set_cur ?lv' es, ?c', m1) =
        and_then (AdvanceToQueuedIB ?env ((set_cur ?lv' es)\<lparr>es_top_of_stack := kPrimaryRing\<rparr>,
          ?c' @ [ev_IbEnd s (word_of_nat k) (ib_end ?lv')], m1)) (run_ibs ?env)"
      by (intro run_end_of_ib [OF ib'])
    moreover have "at_ring s qs (Suc k) ((set_cur ?lv' es)\<lparr>es_top_of_stack := kPrimaryRing\<rparr>)"
      using ib' by (simp add: in_ib_def)
    ultimately show ?thesis
      using m1 True by (auto simp: ib_end_def)
  next
    case False
    have "holds_bytes m1 s (stk_cur_va ?lv') (le32_stream (concat pks))"
      using holds_drop [OF Cons.prems(8), of "4 * length pk"] holds_bytes_cong [OF m1(3)]
      by (simp add: le32_stream_append)
    then obtain es' m' where "run_ibs ?env (set_cur ?lv' es, ?c', m1) =
      and_then (AdvanceToQueuedIB ?env (es', ?c' @ packet_events s (word_of_nat k) (stk_cur_va ?lv') pks @
         [ev_IbEnd s (word_of_nat k) (ib_end ?lv')], m')) (run_ibs ?env)"
       "at_ring s qs (Suc k) es'" "ok m'" "content m' = content m1"
      using Cons.IH [OF ib' _ _ False e' m1(2), of ?c'] Cons.prems(2,3,7) by (auto simp: cur_ib_end_def)
    then show ?thesis
      using m1 by (auto simp: ib_end_def)
  qed
qed simp

text \<open>The submit from IB \<open>k\<close> on.\<close>

lemma run_linear:
  assumes "at_ring s (qs @ map (queued_of \<circ> fst) ibs) (length qs) es"
    and "\<forall>(ib, pks) \<in> set ibs. ib_packets isa m s ib pks" "ok m"
  shows "\<exists>es' m'. and_then (AdvanceToQueuedIB (trace_env d isa retrieve is_valid) (es, c, m))
        (run_ibs (trace_env d isa retrieve is_valid)) =
      Some (True, es', c @ submit_events s (length qs) ibs, m') \<and> es_top_of_stack es' = kPrimaryRing"
  using assms
proof (induction ibs arbitrary: qs es c m)
  case Nil
  then have "AdvanceToQueuedIB (trace_env d isa retrieve is_valid) (es, c, m) = Some (True, es, c, m)"
    by (simp add: AdvanceToQueuedIB_def Let_def at_ring_def GetCurIb_def kPrimaryRing_def)
  moreover have "run_ibs (trace_env d isa retrieve is_valid) (es, c, m) = Some (True, es, c, m)"
      "es_top_of_stack es = kPrimaryRing"
    using Nil by (auto intro: run_at_ring simp: at_ring_def)
  ultimately show ?case
    by simp
next
  case (Cons p ibs)
  let ?env = "trace_env d isa retrieve is_valid"
  obtain ib pks where p: "p = (ib, pks)"
    by (cases p)
  let ?q = "queued_of ib" and ?qs = "qs @ [queued_of ib]"
  let ?all = "?qs @ map (queued_of \<circ> fst) ibs" and ?k = "word_of_nat (length qs) :: u32"
  have ring: "at_ring s ?all (length qs) es"
    using Cons.prems(1) p by (simp add: comp_def)
  have packets: "ib_packets isa m s ib pks"
    using Cons.prems(2) p by auto
  have ib0: "in_ib s ?all (length qs) (level_of ?q) (enter_ib ?q es)"
    by (rule in_ib_enter [OF ring]) (simp add: queued_of_def)
  obtain b where b: "is_valid s (ib_va_addr ib) (ucast (ib_size_in_dwords ib) * 4) m = Some b"
    and bc: "(\<forall>j < unat (ucast (ib_size_in_dwords ib) * 4 :: u64). content m s (unat (ib_va_addr ib) + j) \<noteq> None) \<Longrightarrow> b"
    using is_valid_content [OF Cons.prems(3)] by metis
  define skip where "skip = (ib_skip ib \<or> \<not> b)"
  let ?lv = "(level_of ?q)\<lparr>stk_cur_ib_skip := skip\<rparr>"
  let ?es1 = "set_cur ?lv (enter_ib ?q es)"
  let ?c1 = "c @ [ev_IbStart s ?k (ib\<lparr>ib_level := 1, ib_enable_mask := 7, ib_skip := skip\<rparr>) kNormal]"
  have "start_ib ?env (enter_ib ?q es, c, m) = Some (True, ?es1, ?c1, m)"
    using ib0 b by (simp add: start_ib_def in_ib_def at_ring_def Let_def skip_def level_of_def queued_of_def)
  moreover have "AdvanceToQueuedIB ?env (es, c, m) = start_ib ?env (enter_ib ?q es, c, m)"
    using ring by (simp add: AdvanceToQueuedIB_def Let_def at_ring_def GetCurIb_def kPrimaryRing_def
        kTotalIbLevels_def nth_append queued_of_def DIVE_ASSERT_def)
  ultimately have adv: "AdvanceToQueuedIB ?env (es, c, m) = Some (True, ?es1, ?c1, m)"
    by simp
  have ib1: "in_ib s ?all (length qs) ?lv ?es1"
    by (rule in_ib_set_cur [OF ib0])
  have "\<exists>es2 m2. run_ibs ?env (?es1, ?c1, m) =
      and_then (AdvanceToQueuedIB ?env (es2, c @ ib_events s ?k ib pks, m2)) (run_ibs ?env) \<and>
      at_ring s ?all (Suc (length qs)) es2 \<and> ok m2 \<and> content m2 = content m"
  proof (cases "ib_skip ib")
    case True
    then have sk: "skip" "pks = []" "ib_va_addr ib \<noteq> - 1"
      using packets by (simp_all add: skip_def ib_packets_def)
    have "run_ibs ?env (?es1, ?c1, m) =
        and_then (AdvanceToQueuedIB ?env (?es1\<lparr>es_top_of_stack := kPrimaryRing\<rparr>,
          ?c1 @ [ev_IbEnd s ?k (ib_end ?lv)], m)) (run_ibs ?env)"
      by (rule run_end_of_ib [OF ib1]) (use sk in \<open>simp_all add: level_of_def queued_of_def EndOfCurIb_def\<close>)
    moreover have "?c1 @ [ev_IbEnd s ?k (ib_end ?lv)] = c @ ib_events s ?k ib pks"
      using True sk by (simp add: ib_events_def ib_end_def level_of_def queued_of_def)
    ultimately show ?thesis
      using ib1 Cons.prems(3) by (auto simp: in_ib_def)
  next
    case False
    then have pk: "pks \<noteq> []" "\<forall>pk \<in> set pks. plain_packet isa pk"
        "unat (ib_size_in_dwords ib) = length (concat pks)"
        "holds_bytes m s (ib_va_addr ib) (le32_stream (concat pks))"
        "ib_va_addr ib + word_of_nat (4 * length (concat pks)) \<noteq> - 1"
      using packets by (simp_all add: ib_packets_def)
    let ?sz = "ucast (ib_size_in_dwords ib) * 4 :: u64"
    have w: "?sz = word_of_nat (4 * length (concat pks))"
      by (simp add: pk(3) [symmetric] mult.commute)
    have "unat (ib_va_addr ib) + 4 * length (concat pks) < 2 ^ 64"
      using pk(4) by (simp add: holds_bytes_def)
    then have "unat ?sz = 4 * length (concat pks)"
      unfolding w by (simp only: unat_of_nat) simp
    then have b: "b"
      using bc pk(4) by (auto simp: holds_bytes_def)
    then have sk: "\<not> skip" and lv: "?lv = level_of ?q"
      using False by (simp_all add: skip_def level_of_def queued_of_def)
    obtain es2 m2 where 2: "run_ibs ?env (?es1, ?c1, m) =
      and_then (AdvanceToQueuedIB ?env (es2, ?c1 @ packet_events s ?k (stk_cur_va ?lv) pks @
        [ev_IbEnd s ?k (ib_end ?lv)], m2)) (run_ibs ?env)"
      "at_ring s ?all (Suc (length qs)) es2" "ok m2" "content m2 = content m"
      using run_packets [OF ib1 _ pk(2,1) _ Cons.prems(3), of d is_valid ?c1] sk pk(4,5) w
      by (auto simp: level_of_def queued_of_def cur_ib_end_def)
    moreover have "?c1 @ packet_events s ?k (stk_cur_va ?lv) pks @ [ev_IbEnd s ?k (ib_end ?lv)] =
        c @ ib_events s ?k ib pks"
      using False sk by (simp add: ib_events_def ib_end_def level_of_def queued_of_def)
    ultimately show ?thesis
      by auto
  qed
  then obtain es2 m2 where 2: "run_ibs ?env (?es1, ?c1, m) =
      and_then (AdvanceToQueuedIB ?env (es2, c @ ib_events s ?k ib pks, m2)) (run_ibs ?env)"
      "at_ring s ?all (Suc (length qs)) es2" "ok m2" "content m2 = content m"
    by blast
  have rest: "\<forall>(ib, pks) \<in> set ibs. ib_packets isa m2 s ib pks"
    using Cons.prems(2) ib_packets_cong [OF 2(4)] by auto
  have "length ?qs = Suc (length qs)"
    by simp
  then show ?case
    using Cons.IH [of ?qs es2 m2 "c @ ib_events s ?k ib pks"] 2 rest adv p by (simp add: comp_def)
qed

lemma ExecuteSubmit_linear:
  assumes "ok m" "\<forall>(ib, pks) \<in> set ibs. ib_packets isa m s ib pks \<and> ib_size_in_dwords ib \<noteq> 0"
    and "length ibs \<le> kMaxPendingIbs"
  shows "\<exists>es' m'. ExecuteSubmit (trace_env d isa retrieve is_valid) s (map fst ibs) c m =
    Some (True, es', c @ submit_events s 0 ibs, m')"
proof -
  let ?env = "trace_env d isa retrieve is_valid"
  obtain es where es: "queue_submit_ibs d (map fst ibs) (EmulateState_start s) = Some (True, es)"
      "at_ring s ([] @ map queued_of (map fst ibs)) 0 es"
    using queue_submit_ibs_at_ring [OF start_at_ring, of "map fst ibs" d s] assms(2,3) by fastforce
  then have ring: "at_ring s ([] @ map (queued_of \<circ> fst) ibs) (length []) es"
    by simp
  have pks: "\<forall>(ib, pks) \<in> set ibs. ib_packets isa m s ib pks"
    using assms(2) by blast
  show ?thesis
    using run_linear [OF ring pks assms(1), of d c] es(1)
    by (auto simp: ExecuteSubmit_def run_ibs_def [abs_def])
qed

end

section \<open>Packets of an unknown type\<close>

text \<open>
  In a release build the size of a packet of unknown type is 0, so the emulator stays where it is and
  never returns; a debug build fails an assertion.
\<close>

context captured_memory
begin

lemma emulate_unknown:
  assumes ib: "in_ib s qs k lv es" and va: "stk_cur_va lv \<noteq> - 1" "\<not> EndOfCurIb lv"
    and mem: "ok m" "holds_bytes m s (stk_cur_va lv) (le32_bytes h)" and h: "\<not> known_type h"
    and r: "emulate_packet (trace_env d isa retrieve v) (es, c, m) = Some (b, es', c', m')"
  shows "b \<and> es' = es \<and> ok m' \<and> content m' = content m"
proof -
  obtain bs m1 where rd: "read_struct d retrieve s (stk_cur_va lv) 4 4 m = Some (bs, m1)" "le32 bs = h"
      "ok m1" "content m1 = content m"
    using read_word [OF mem] by metis
  have es: "GetCurIb es = lv" "es_submit_index es = s" "es_top_of_stack es < length (es_ib_stack es)"
    using ib by (simp_all add: in_ib_def at_ring_def kTotalIbLevels_def)
  have t: "header_type h \<noteq> 4" "header_type h \<noteq> 7"
    using h by (simp_all add: known_type_def)
  then have "valid_header h" and plain: "\<not> jump_op isa h"
    by (simp_all add: valid_header_def jump_op_def is_op_def)
  moreover have "set_cur lv es = es"
    using es by (auto simp: set_cur_def set_level_def GetCurIb_def)
  ultimately show ?thesis
    using r rd va advance_case_plain [OF plain, of "trace_env d isa retrieve v"] GetPacketSize_unknown [OF h]
    by (auto simp: emulate_packet_def read_cur_def es AdvanceCb_def AdvancePacket_def CheckAndAdvanceIB_and_then
        split: if_splits)
qed

lemma run_unknown:
  assumes ib: "in_ib s qs k lv es" and va: "stk_cur_va lv \<noteq> - 1" "\<not> EndOfCurIb lv"
    and mem: "ok m" "holds_bytes m s (stk_cur_va lv) (le32_bytes h)" and h: "\<not> known_type h"
  shows "run_ibs (trace_env d isa retrieve v) (es, c, m) = None"
proof (rule ccontr)
  let ?env = "trace_env d isa retrieve v"
  let ?P = "\<lambda>(es1, c1 :: cb_event list, m1). es1 = es \<and> ok m1 \<and> content m1 = content m"
  have cur: "GetCurIb es = lv" "es_top_of_stack es \<noteq> kPrimaryRing"
    using ib by (simp_all add: in_ib_def kPrimaryRing_def)
  assume "run_ibs ?env (es, c, m) \<noteq> None"
  then obtain b s' where loop: "emulate_loop ?env (es, c, m) = Some (b, s')"
    using va cur by (auto simp: run_ibs_def CheckAndAdvanceIB_and_then)
  have "if b then ?P s' \<and> es_top_of_stack (fst s') = kPrimaryRing else False"
  proof (rule emulate_loop_induct [where P = ?P and Q = "\<lambda>_. False", OF loop])
    show "?P (es, c, m)"
      using mem(1) by simp
  next
    fix x b' x' assume x: "?P x" "emulate_packet ?env x = Some (b', x')"
    obtain c1 m1 e2 c2 m2 where eq: "x = (es, c1, m1)" "x' = (e2, c2, m2)"
      using x(1) by (cases x, cases x') auto
    show "if b' then ?P x' else False"
      using emulate_unknown [OF ib va, of m1 h d isa v c1 b' e2 c2 m2] x mem(2) h holds_bytes_cong [of m1 m] eq
      by auto
  qed
  then show False
    using cur by (auto split: if_splits)
qed

lemma ExecuteSubmit_unknown:
  assumes "ok m" "\<not> ib_skip ib" "ib_va_addr ib + ucast (ib_size_in_dwords ib) * 4 > ib_va_addr ib"
    and "holds_bytes m s (ib_va_addr ib) (le32_bytes h)" "\<not> known_type h"
    and valid: "is_valid s (ib_va_addr ib) (ucast (ib_size_in_dwords ib) * 4) m = Some True"
  shows "ExecuteSubmit (trace_env d isa retrieve is_valid) s [ib] c m = None"
proof -
  let ?env = "trace_env d isa retrieve is_valid" and ?q = "queued_of ib"
  have nz: "ib_size_in_dwords ib \<noteq> 0"
    using assms(3) by auto
  obtain es where es: "queue_submit_ibs d [ib] (EmulateState_start s) = Some (True, es)"
      "at_ring s [?q] 0 es"
    using queue_submit_ibs_at_ring [OF start_at_ring, of "[ib]" d s] nz by (auto simp: kMaxPendingIbs_def)
  have ib0: "in_ib s [?q] 0 (level_of ?q) (enter_ib ?q es)"
    by (rule in_ib_enter [OF es(2)]) (simp add: queued_of_def)
  let ?es1 = "set_cur (level_of ?q) (enter_ib ?q es)"
  have lv: "\<not> EndOfCurIb (level_of ?q)" "stk_cur_va (level_of ?q) \<noteq> - 1"
    using assms(2,3) by (auto simp: EndOfCurIb_def level_of_def queued_of_def not_le)
  have lv_id: "(level_of ?q)\<lparr>stk_cur_ib_skip := stk_cur_ib_skip (level_of ?q)\<rparr> = level_of ?q"
    by simp
  obtain c1 where "start_ib ?env (enter_ib ?q es, c, m) = Some (True, ?es1, c1, m)"
    using ib0 valid lv_id by (simp add: start_ib_def in_ib_def at_ring_def Let_def) (simp add: level_of_def queued_of_def assms(2) valid)
  moreover have "AdvanceToQueuedIB ?env (es, c, m) = start_ib ?env (enter_ib ?q es, c, m)"
    using es(2) by (simp add: AdvanceToQueuedIB_def Let_def at_ring_def GetCurIb_def kPrimaryRing_def
        kTotalIbLevels_def queued_of_def DIVE_ASSERT_def)
  moreover have "run_ibs ?env (?es1, c1, m) = None"
    by (rule run_unknown [OF in_ib_set_cur [OF ib0] lv(2,1) assms(1) _ assms(5)])
      (simp add: level_of_def queued_of_def assms(4))
  ultimately show ?thesis
    using es(1) by (simp add: ExecuteSubmit_def run_ibs_def [abs_def])
qed

end

section \<open>The memory managers\<close>

definition capture_is_valid :: "u32 \<Rightarrow> u64 \<Rightarrow> u64 \<Rightarrow> MemoryManager \<Rightarrow> bool option" where
  "capture_is_valid submit_index addr nbytes mm = Some (MemoryManager_IsValid mm submit_index addr nbytes)"

interpretation capture_data: captured_memory RetrieveMemoryData mem_ok captured capture_is_valid
proof
  fix mm :: MemoryManager and n va :: u64 and buf bs :: buffer and s :: u32
  assume a: "mem_ok mm" "n \<noteq> 0" "unat va + unat n < 2 ^ 64" "length buf = unat n" "length bs = unat n"
    and k: "\<And>k. k < unat n \<Longrightarrow> captured mm s (unat va + k) = Some (bs ! k)"
  have "map (captured mm s) [unat va ..< unat va + unat n] = map Some bs"
    by (rule nth_equalityI) (simp_all add: a(5) k)
  then have cb: "captured_bytes mm s va n = Some bs"
    by (simp add: captured_bytes_def those_map_Some)
  obtain ok buf' mm' where r: "RetrieveMemoryData buf s va n mm = Some (ok, buf', mm')"
      "if ok then captured_bytes mm s va n = Some buf' else captured_bytes mm s va n = None"
      "same_blocks mm mm'" "mem_ok mm'"
    using RetrieveMemoryData_correct [OF a(1,3,2,4), of s] by metis
  then have "ok" "buf' = bs"
    using cb by (auto split: if_splits)
  moreover have "captured mm' = captured mm"
    using same_blocks_simps(3) [OF r(3)] by (simp add: fun_eq_iff)
  ultimately show "\<exists>m'. RetrieveMemoryData buf s va n mm = Some (True, bs, m') \<and> mem_ok m' \<and> captured m' = captured mm"
    using r by auto
next
  fix mm :: MemoryManager and s :: u32 and va n :: u64
  assume "mem_ok mm"
  then have "MemoryManager_IsValid mm s va n \<longleftrightarrow> captured_bytes mm s va n \<noteq> None"
    by (simp add: IsValid_captured mem_ok_def)
  then show "\<exists>b. capture_is_valid s va n mm = Some b \<and>
      ((\<forall>k < unat n. captured mm s (unat va + k) \<noteq> None) \<longrightarrow> b)"
    unfolding captured_bytes_None capture_is_valid_def by (metis le_add_diff_inverse nat_add_left_cancel_less)
qed

text \<open>
  \<^verbatim>\<open>TempMemoryManager\<close>: a command buffer without a capture, whose addresses are byte offsets. Copying
  past the end of the vector is undefined, and the operations that are not to be called assert it.
\<close>

record TempMemoryManager =
  m_command_dwords :: "u32 list"
  m_size_in_dwords :: u32

definition TempMemoryManager_RetrieveMemoryData ::
    "buffer \<Rightarrow> u32 \<Rightarrow> u64 \<Rightarrow> u64 \<Rightarrow> TempMemoryManager \<Rightarrow> (bool \<times> buffer \<times> TempMemoryManager) option" where
  "TempMemoryManager_RetrieveMemoryData buf submit_index va_addr nbytes mm =
    (if va_addr + nbytes > ucast (m_size_in_dwords mm) * 4 then Some (False, buf, mm)
     else if unat va_addr + unat nbytes > 4 * length (m_command_dwords mm) then None
     else Some (True,
            copy_into buf 0 (take (unat nbytes) (drop (unat va_addr) (le32_stream (m_command_dwords mm)))), mm))"

definition TempMemoryManager_IsValid :: "bool \<Rightarrow> u32 \<Rightarrow> u64 \<Rightarrow> u64 \<Rightarrow> TempMemoryManager \<Rightarrow> bool option" where
  "TempMemoryManager_IsValid debug submit_index addr nbytes mm = do { DIVE_ASSERT debug False; Some True }"

definition temp_ok :: "TempMemoryManager \<Rightarrow> bool" where
  "temp_ok mm \<longleftrightarrow> unat (m_size_in_dwords mm) \<le> length (m_command_dwords mm)"

definition temp_content :: "TempMemoryManager \<Rightarrow> u32 \<Rightarrow> nat \<Rightarrow> byte option" where
  "temp_content mm s a =
    (if a < 4 * unat (m_size_in_dwords mm) then Some (le32_stream (m_command_dwords mm) ! a) else None)"

text \<open>In a release build it serves the emulator; a debug build stops at the validity check.\<close>

interpretation command_buffer: captured_memory TempMemoryManager_RetrieveMemoryData temp_ok temp_content
  "TempMemoryManager_IsValid False"
proof
  fix mm :: TempMemoryManager and n va :: u64 and buf bs :: buffer and s :: u32
  assume ok: "temp_ok mm" "n \<noteq> 0" "unat va + unat n < 2 ^ 64" "length buf = unat n" "length bs = unat n"
    and k: "\<And>k. k < unat n \<Longrightarrow> temp_content mm s (unat va + k) = Some (bs ! k)"
  let ?sz = "unat (m_size_in_dwords mm)" and ?st = "le32_stream (m_command_dwords mm)"
  have n: "unat n \<noteq> 0"
    using ok(2) by (simp add: unat_eq_zero)
  then have "temp_content mm s (unat va + (unat n - 1)) \<noteq> None"
    using k [of "unat n - 1"] by simp
  then have le: "unat va + unat n \<le> 4 * ?sz"
    using n by (auto simp: temp_content_def split: if_splits)
  have "?sz < 2 ^ 32"
    using unsigned_less [of "m_size_in_dwords mm"] by simp
  then have "unat (ucast (m_size_in_dwords mm) * 4 :: u64) = 4 * ?sz"
    by (simp add: unat_word_ariths unat_ucast_32_64)
  moreover have "unat (va + n) = unat va + unat n"
    using ok(3) by (simp add: unat_word_ariths)
  ultimately have "\<not> va + n > ucast (m_size_in_dwords mm) * 4" and "unat va + unat n \<le> 4 * length (m_command_dwords mm)"
    using le ok(1) by (simp_all add: word_less_nat_alt temp_ok_def)
  moreover have "take (unat n) (drop (unat va) ?st) = bs"
  proof (rule nth_equalityI)
    show "length (take (unat n) (drop (unat va) ?st)) = length bs"
      using ok(5) le ok(1) by (simp add: temp_ok_def)
  next
    fix i assume "i < length (take (unat n) (drop (unat va) ?st))"
    then have i: "i < unat n" "unat va \<le> length ?st"
      by auto
    then show "take (unat n) (drop (unat va) ?st) ! i = bs ! i"
      using k [OF i(1)] by (auto simp: temp_content_def split: if_splits)
  qed
  ultimately have "TempMemoryManager_RetrieveMemoryData buf s va n mm = Some (True, copy_into buf 0 bs, mm)"
    by (simp add: TempMemoryManager_RetrieveMemoryData_def)
  moreover have "copy_into buf 0 bs = bs"
    using ok(4,5) by (simp add: copy_into_def)
  ultimately show "\<exists>m'. TempMemoryManager_RetrieveMemoryData buf s va n mm = Some (True, bs, m') \<and>
      temp_ok m' \<and> temp_content m' = temp_content mm"
    using ok(1) by simp
next
  fix mm :: TempMemoryManager and s :: u32 and va n :: u64
  show "\<exists>b. TempMemoryManager_IsValid False s va n mm = Some b \<and>
      ((\<forall>k < unat n. temp_content mm s (unat va + k) \<noteq> None) \<longrightarrow> b)"
    by (intro exI [of _ True]) (simp add: TempMemoryManager_IsValid_def)
qed

section \<open>Captures\<close>

text \<open>What the emulator needs of an IB, in terms of the captured memory.\<close>

definition capture_holds :: "MemoryManager \<Rightarrow> u32 \<Rightarrow> u64 \<Rightarrow> buffer \<Rightarrow> bool" where
  "capture_holds mm s va bs \<longleftrightarrow> unat va + length bs < 2 ^ 64 \<and>
     captured_bytes mm s va (word_of_nat (length bs)) = Some bs"

definition linear_ib :: "pm4_isa \<Rightarrow> MemoryManager \<Rightarrow> u32 \<Rightarrow> IndirectBufferInfo \<Rightarrow> u32 list list \<Rightarrow> bool" where
  "linear_ib isa mm s ib pks \<longleftrightarrow> ib_size_in_dwords ib \<noteq> 0 \<and>
     (if ib_skip ib then pks = [] \<and> ib_va_addr ib \<noteq> - 1
      else (\<forall>pk \<in> set pks. plain_packet isa pk) \<and>
           unat (ib_size_in_dwords ib) = length (concat pks) \<and>
           ib_va_addr ib + word_of_nat (4 * length (concat pks)) \<noteq> - 1 \<and>
           capture_holds mm s (ib_va_addr ib) (le32_stream (concat pks)))"

lemma capture_holds_bytes: "capture_holds mm s va bs \<Longrightarrow> capture_data.holds_bytes mm s va bs"
proof -
  assume h: "capture_holds mm s va bs"
  then have "length bs < 2 ^ 64"
    by (simp add: capture_holds_def)
  then have "unat (word_of_nat (length bs) :: u64) = length bs"
    by (simp only: unat_of_nat) simp
  then show ?thesis
    using h captured_bytes_nth(2) [of mm s va "word_of_nat (length bs)" bs]
    by (simp add: capture_holds_def capture_data.holds_bytes_def)
qed

lemma linear_ib_packets:
  "linear_ib isa mm s ib pks \<Longrightarrow> capture_data.ib_packets isa mm s ib pks \<and> ib_size_in_dwords ib \<noteq> 0"
  using capture_holds_bytes by (auto simp: linear_ib_def capture_data.ib_packets_def unat_eq_zero)

text \<open>A type 4 packet in captured memory, at the tracker.\<close>

lemma OnPacket_type4:
  assumes "mem_ok mm" "header_type h = 4" "capture_holds mm s (va + 4) (le32_stream ws)"
    and "length ws = unat (type4_count h)" "unat (type4_offset h) + length ws \<le> kNumRegs"
    and "\<not> is_64_bit isa (type4_offset h + type4_count h - 1)"
  shows "\<exists>tr' mm'. EmulateStateTracker_OnPacket debug isa RetrieveMemoryData s va h tr mm = Some (True, tr', mm') \<and>
    mem_ok mm' \<and> captured mm' = captured mm \<and> same_modes tr tr' \<and>
    reg_view tr' = view_writes (m_enable_mask tr) (unat (type4_offset h)) ws (reg_view tr)"
proof -
  have last: "\<not> is_64_bit isa (type4_offset h + word_of_nat (length ws - 1))" if "ws \<noteq> []"
  proof -
    have "word_of_nat (length ws - 1) = (type4_count h - 1 :: u32)"
    proof (rule unat_eqD)
      have "type4_count h \<noteq> 0" "unat (type4_count h) < 2 ^ 32"
        using that assms(4) type4_count_le [of h] by (auto simp flip: length_0_conv)
      then show "unat (word_of_nat (length ws - 1) :: u32) = unat (type4_count h - 1)"
        using assms(4) by (simp add: unat_of_nat unat_minus_one)
    qed
    then show ?thesis
      using assms(6) by (simp add: add_diff_eq)
  qed
  have ops: "\<not> is_op isa h op" for op
    using assms(2) by (simp add: is_op_def)
  obtain tr' mm' where "type4_loop debug isa RetrieveMemoryData s va (type4_offset h) (length ws) 0 tr mm = Some (tr', mm')"
      "mem_ok mm'" "captured mm' = captured mm" "same_modes tr tr'"
      "reg_view tr' = view_writes (m_enable_mask tr) (unat (type4_offset h)) ws (reg_view tr)"
    using capture_data.type4_loop_sets [OF assms(1) capture_holds_bytes [OF assms(3)] le0 assms(5) last, of debug tr]
    by auto
  then show ?thesis
    using assms(2,4) by (simp add: EmulateStateTracker_OnPacket_def ops)
qed

section \<open>Samples\<close>

text \<open>An instruction set and a capture of one block for the examples of the properties.\<close>

definition sample_isa :: pm4_isa where
  "sample_isa =
    \<lparr>isa_op = (\<lambda>op. if op = CP_INDIRECT_BUFFER_CHAIN then 0x57 else if op = CP_SET_MARKER then 0x65 else 0x10),
     isa_marker = (\<lambda>_. 1), isa_reg_is_64 = (\<lambda>_. Some False),
     sizeof_set_marker = 8, set_marker_dword = (\<lambda>bs. le32 (drop 4 bs)),
     sizeof_indirect_buffer = 16, indirect_buffer_fields = (\<lambda>bs. (ucast (le32 (drop 4 bs)), le32 (drop 12 bs))),
     sizeof_set_amble = 16, set_amble_fields = (\<lambda>bs. (ucast (le32 (drop 4 bs)), le32 (drop 12 bs))),
     sizeof_set_draw_state = 16, sizeof_draw_state_element = 12,
     draw_state_fields = (\<lambda>bs. \<lparr>ds_COUNT = le32 bs, ds_DISABLE = False, ds_DISABLE_ALL_GROUPS = False,
       ds_BINNING = 1, ds_GMEM = 1, ds_SYSMEM = 1, ds_ADDR = ucast (le32 (drop 4 bs))\<rparr>),
     sizeof_start_bin = 20, start_bin_fields = (\<lambda>bs. (le32 (drop 4 bs), ucast (le32 (drop 8 bs)), le32 (drop 16 bs))),
     sizeof_fixed_stride_draw_table = 20,
     fixed_stride_draw_table_fields = (\<lambda>bs. (ucast (le32 (drop 4 bs)), le32 (drop 12 bs), le32 (drop 16 bs)))\<rparr>"

definition sample_block :: "u64 \<Rightarrow> u32 list \<Rightarrow> MemoryBlock" where
  "sample_block va ws =
    \<lparr>mb_va_addr = va, mb_submit_index = 0, mb_data_size = word_of_nat (4 * length ws), mb_data = le32_stream ws\<rparr>"

definition sample_capture :: "u64 \<Rightarrow> u32 list \<Rightarrow> MemoryManager" where
  "sample_capture va ws = MemoryManager_new\<lparr>m_memory_blocks := [sample_block va ws]\<rparr>"

lemma sample_mem_ok:
  assumes "unat va + 4 * length ws < 2 ^ 64" "4 * length ws < 2 ^ 32"
  shows "mem_ok (sample_capture va ws)"
proof -
  have "unat (word_of_nat (4 * length ws) :: u32) = 4 * length ws"
    using assms(2) by (simp only: unat_of_nat) simp
  then show ?thesis
    using assms(1)
    by (simp add: mem_ok_def blocks_ok_def ptr_ok_def block_ok_def sample_capture_def sample_block_def
        MemoryManager_new_def blk_hi_def blk_lo_def)
qed

lemma sample_holds:
  assumes "unat va + 4 * length ws < 2 ^ 64" "4 * k \<le> 4 * length ws"
  shows "capture_holds (sample_capture va ws) 0 (va + word_of_nat (4 * k)) (le32_stream (drop k ws))"
proof -
  have "4 * k < 2 ^ 64"
    using assms by simp
  then have "unat (word_of_nat (4 * k) :: u64) = 4 * k"
    by (simp only: unat_of_nat) simp
  then have va: "unat (va + word_of_nat (4 * k)) = unat va + 4 * k"
    using assms by (simp add: unat_word_ariths)
  have len: "length (le32_stream (drop k ws)) = 4 * length ws - 4 * k"
    by simp
  then have n: "unat (word_of_nat (4 * length ws - 4 * k) :: u64) = 4 * length ws - 4 * k"
    using assms(1) by (simp only: unat_of_nat) simp
  have "captured (sample_capture va ws) 0 (unat va + 4 * k + i) = Some (le32_stream (drop k ws) ! i)"
    if "i < 4 * length ws - 4 * k" for i
    using that assms(2)
    by (simp add: captured_def holds_def sample_capture_def sample_block_def MemoryManager_new_def
        valid_submit_def blk_hi_def blk_lo_def le32_stream_drop add.assoc)
  then have "map (captured (sample_capture va ws) 0) [unat va + 4 * k ..< unat va + 4 * length ws] =
      map Some (le32_stream (drop k ws))"
    using assms(2) by (intro nth_equalityI) simp_all
  moreover have "unat va + 4 * k + (4 * length ws - 4 * k) = unat va + 4 * length ws"
    using assms(2) by simp
  ultimately show ?thesis
    unfolding capture_holds_def captured_bytes_def va len n using assms by (simp add: those_map_Some)
qed

end
