(* ===== verification/Pm4_Capture_Data.thy ===== *)
theory Pm4_Capture_Data
  imports Pm4_Memory Pm4_Emulator
begin

text \<open>
  The state of \<^verbatim>\<open>Pm4CaptureData\<close> (\<^verbatim>\<open>src/dive_core/pm4_capture_data.h\<close>) that loading a capture file
  fills, the records of \<^verbatim>\<open>common/dive_capture_format.h\<close> that are kept in it, and the GPU id, which is
  global in the code.
\<close>

type_synonym u16 = "16 word"

datatype LoadResult = kSuccess | kFileIoError | kCorruptData | kVersionError

text \<open>The fields of \<^verbatim>\<open>CaptureDataHeader\<close> that the loader looks at; the flags as one word.\<close>

record CaptureDataHeader =
  h_major_version :: u16
  h_minor_version :: u16
  h_revision :: u16
  h_capture_type :: byte
  h_flags :: u32

definition kCaptureMajorVersion :: u16 where "kCaptureMajorVersion = 0"
definition kCaptureMinorVersion :: u16 where "kCaptureMinorVersion = 4"
definition kCaptureRevision :: u16 where "kCaptureRevision = 1"

definition CaptureDataHeader_new :: CaptureDataHeader where
  "CaptureDataHeader_new =
     \<lparr>h_major_version = kCaptureMajorVersion, h_minor_version = kCaptureMinorVersion,
      h_revision = kCaptureRevision, h_capture_type = 0, h_flags = 0\<rparr>"

definition h_reset_memory_tracker :: "CaptureDataHeader \<Rightarrow> bool" where
  "h_reset_memory_tracker h \<longleftrightarrow> bit (h_flags h) 5"

text \<open>\<^verbatim>\<open>PresentInfo\<close>; a present without valid data has only its default members.\<close>

record PresentInfo =
  p_valid_data :: bool
  p_submit_index :: u32
  p_engine_type :: byte
  p_queue_type :: byte
  p_full_screen :: bool
  p_addr :: u64
  p_size :: u64
  p_vk_format :: u32
  p_vk_color_space :: u32

definition PresentInfo_new :: PresentInfo where
  "PresentInfo_new =
     \<lparr>p_valid_data = False, p_submit_index = 0, p_engine_type = 5, p_queue_type = 5,
      p_full_screen = False, p_addr = 0, p_size = 0, p_vk_format = 0, p_vk_color_space = 0\<rparr>"

record TextInfo =
  t_name :: buffer
  t_size :: u64
  t_text :: buffer

text \<open>A wave: its state, as the words of \<^verbatim>\<open>WaveState\<close> in their order, and its registers.\<close>

record WaveStateInfo =
  w_state :: "u32 list"
  w_sgprs :: "u32 list"
  w_vgprs :: "u32 list"
  w_ttmps :: "u32 list"

record Pm4CaptureData =
  m_capture_type :: byte
  m_submits :: "SubmitInfo list"
  m_presents :: "PresentInfo list"
  m_text :: "TextInfo list"
  m_waves :: "WaveStateInfo list"
  m_registers :: "buffer \<rightharpoonup> u32"
  m_memory :: MemoryManager
  m_cur_capture_file :: string
  m_data_header :: CaptureDataHeader
  g_sGPU_id :: u32
  g_sGPU_variant :: u32

definition Pm4CaptureData_new :: Pm4CaptureData where
  "Pm4CaptureData_new =
     \<lparr>m_capture_type = 0, m_submits = [], m_presents = [], m_text = [], m_waves = [],
      m_registers = Map.empty, m_memory = MemoryManager_new, m_cur_capture_file = [],
      m_data_header = CaptureDataHeader_new, g_sGPU_id = 0, g_sGPU_variant = 0\<rparr>"

definition HasPm4Data :: "Pm4CaptureData \<Rightarrow> bool" where
  "HasPm4Data cd \<longleftrightarrow> length (m_submits cd) > 0"

definition GetFileFormatVersion :: "Pm4CaptureData \<Rightarrow> string" where
  "GetFileFormatVersion cd =
     show_nat (unat (h_major_version (m_data_header cd))) @ ''.'' @
     show_nat (unat (h_minor_version (m_data_header cd))) @ ''.'' @
     show_nat (unat (h_revision (m_data_header cd)))"

definition kGPUVariantNone :: u32 where "kGPUVariantNone = 0"

definition SetGPUID :: "u32 \<Rightarrow> Pm4CaptureData \<Rightarrow> Pm4CaptureData" where
  "SetGPUID gpu_id cd =
     (let gpu_series = gpu_id div 100 in
      cd\<lparr>g_sGPU_id := gpu_id,
         g_sGPU_variant :=
           (if gpu_series \<ge> 2 \<and> gpu_series \<le> 7 then push_bit (unat (gpu_series - 2)) 1
            else kGPUVariantNone)\<rparr>)"

end
