(* ===== verification/Pm4_Rd_Loading.thy ===== *)
theory Pm4_Rd_Loading
  imports Pm4_Capture_Data
begin

text \<open>
  Loading an Adreno \<^verbatim>\<open>.rd\<close> capture (\<^verbatim>\<open>src/dive_core/pm4_capture_data.cpp\<close>): \<^verbatim>\<open>FileReader::Read\<close>
  over the archive library, the loop over the sections of the file, and the loaders of addresses,
  memory blocks and command streams. The result is the list of submits that the emulator runs over and
  the memory it reads.

  The archive library (\<^verbatim>\<open>archive_read_data\<close>), the device table of freedreno (\<^verbatim>\<open>fd_dev_info\<close>)
  and the content of a freshly allocated array are parameters. A read that comes up short leaves the
  rest of its variable as it was, as in the code. \<open>None\<close> is a failed assertion of a debug build,
  undefined behaviour, or a loop that does not end.
\<close>

section \<open>Reading\<close>

text \<open>
  \<open>archive_read_data\<close> gets the number of bytes asked for: an error code, or the bytes delivered, none
  at the end.
\<close>

record 'h rd_env =
  rd_debug :: bool
  archive_read_data :: "nat \<Rightarrow> 'h \<Rightarrow> (int + buffer) \<times> 'h"
  fresh_array :: "nat \<Rightarrow> buffer"
  fd_dev_chip :: "u64 \<Rightarrow> u32"

function read_loop :: "'h rd_env \<Rightarrow> nat \<Rightarrow> 'h \<Rightarrow> int \<Rightarrow> buffer \<Rightarrow> int \<times> buffer \<times> 'h" where
  "read_loop env nbytes h ret buf =
     (if nbytes > 0
      then case archive_read_data env nbytes h of
          (Inl n, h) \<Rightarrow> (n, buf, h)
        | (Inr bytes, h) \<Rightarrow>
            if bytes = [] then (ret, buf, h)
            else read_loop env (nbytes - length bytes) h (ret + int (length bytes)) (buf @ bytes)
      else (ret, buf, h))"
  by pat_completeness auto
termination
  by (relation "measure (\<lambda>(env, nbytes, h, ret, buf). nbytes)") auto

declare read_loop.simps [simp del]

text \<open>The returned number, the bytes that were stored, and the handle.\<close>

definition FileReader_Read :: "'h rd_env \<Rightarrow> nat \<Rightarrow> 'h \<Rightarrow> int \<times> buffer \<times> 'h" where
  "FileReader_Read env nbytes h = read_loop env nbytes h 0 []"

definition overwrite :: "buffer \<Rightarrow> buffer \<Rightarrow> buffer" where
  "overwrite old bytes = bytes @ drop (length bytes) old"

section \<open>State\<close>

text \<open>The variables of the loop: the last address and size, and the two flags.\<close>

record rd_vars =
  cur_gpu_addr :: u64
  cur_size :: u32
  is_new_submit :: bool
  skip_commands :: bool
  capture :: Pm4CaptureData

definition rd_vars_new :: "Pm4CaptureData \<Rightarrow> rd_vars" where
  "rd_vars_new cd =
     \<lparr>cur_gpu_addr = - 1, cur_size = - 1, is_new_submit = False, skip_commands = False, capture = cd\<rparr>"

section \<open>Loaders of sections\<close>

definition read_dword :: "'h rd_env \<Rightarrow> u32 \<Rightarrow> 'h \<Rightarrow> int \<times> u32 \<times> 'h" where
  "read_dword env dword h =
     (case FileReader_Read env 4 h of
        (ret, bytes, h) \<Rightarrow> (ret, le32 (overwrite (le32_bytes dword) bytes), h))"

text \<open>\<open>Some None\<close> is \<^verbatim>\<open>return false\<close>; only a result of zero counts as a failed read.\<close>

definition LoadGpuAddressAndSize ::
    "'h rd_env \<Rightarrow> u32 \<Rightarrow> 'h \<Rightarrow> ((u64 \<times> u32) option \<times> 'h) option" where
  "LoadGpuAddressAndSize env block_size h =
     do {
       DIVE_ASSERT (rd_debug env) (block_size \<ge> 8);
       (case read_dword env 0 h of
          (ret, low, h) \<Rightarrow>
            if ret = 0 then Some (None, h)
            else case read_dword env low h of
              (ret, nbytes, h) \<Rightarrow>
                if ret = 0 then Some (None, h)
                else if block_size > 8
                then case read_dword env nbytes h of
                  (ret, high, h) \<Rightarrow>
                    if ret = 0 then Some (None, h)
                    else Some (Some (ucast low OR push_bit 32 (ucast high), nbytes), h)
                else Some (Some (ucast low, nbytes), h))
     }"

definition LoadMemoryBlockAdreno ::
    "'h rd_env \<Rightarrow> u64 \<Rightarrow> u32 \<Rightarrow> 'h \<Rightarrow> Pm4CaptureData \<Rightarrow> bool \<times> 'h \<times> Pm4CaptureData" where
  "LoadMemoryBlockAdreno env gpu_addr nbytes h cd =
     (case FileReader_Read env (unat nbytes) h of
        (ret, bytes, h) \<Rightarrow>
          if ret = 0 then (False, h, cd)
          else
            (let submit_index = word_of_nat (length (m_submits cd)) in
             (True, h,
              cd\<lparr>m_memory := AddMemoryBlock submit_index gpu_addr
                   \<lparr>md_data_size = nbytes,
                    md_data = overwrite (fresh_array env (unat nbytes)) bytes\<rparr> (m_memory cd)\<rparr>)))"

definition AppendIb :: "IndirectBufferInfo \<Rightarrow> SubmitInfo \<Rightarrow> SubmitInfo" where
  "AppendIb ib submit = submit\<lparr>m_ibs := m_ibs submit @ [ib]\<rparr>"

definition rd_ib :: "u64 \<Rightarrow> u32 \<Rightarrow> bool \<Rightarrow> IndirectBufferInfo" where
  "rd_ib gpu_addr size_in_dwords skip =
     \<lparr>ib_va_addr = gpu_addr, ib_size_in_dwords = size_in_dwords, ib_level = 0, ib_enable_mask = 0,
      ib_skip = skip\<rparr>"

definition rd_submit :: "IndirectBufferInfo list \<Rightarrow> SubmitInfo" where
  "rd_submit ibs =
     \<lparr>m_engine_type = EngineType_kUniversal, m_queue_type = QueueType_kUniversal, m_engine_index = 0,
      m_is_dummy_submit = False, m_ibs = ibs\<rparr>"

definition add_command_stream ::
    "bool \<Rightarrow> IndirectBufferInfo \<Rightarrow> Pm4CaptureData \<Rightarrow> Pm4CaptureData option" where
  "add_command_stream create_new_submit ib cd =
     (if create_new_submit then Some (cd\<lparr>m_submits := m_submits cd @ [rd_submit [ib]]\<rparr>)
      else if m_submits cd = [] then None
      else Some (cd\<lparr>m_submits := butlast (m_submits cd) @ [AppendIb ib (last (m_submits cd))]\<rparr>))"

definition LoadCmdStreamBlockAdreno ::
    "'h rd_env \<Rightarrow> u32 \<Rightarrow> bool \<Rightarrow> bool \<Rightarrow> 'h \<Rightarrow> Pm4CaptureData \<Rightarrow> (bool \<times> 'h \<times> Pm4CaptureData) option" where
  "LoadCmdStreamBlockAdreno env block_size create_new_submit skip h cd =
     do {
       (addr_size, h) \<leftarrow> LoadGpuAddressAndSize env block_size h;
       case addr_size of
         None \<Rightarrow> Some (False, h, cd)
       | Some (gpu_addr, size_in_dwords) \<Rightarrow> do {
           cd \<leftarrow> add_command_stream create_new_submit (rd_ib gpu_addr size_in_dwords skip) cd;
           Some (True, h, cd)
         }
     }"

text \<open>\<^verbatim>\<open>strcmp\<close> on an array that need not hold a terminator: reading past it is undefined.\<close>

fun strcmp_equal :: "buffer \<Rightarrow> buffer \<Rightarrow> bool option" where
  "strcmp_equal [] lit = None"
| "strcmp_equal (b # bs) [] = Some (b = 0)"
| "strcmp_equal (b # bs) (c # cs) = (if b = c then strcmp_equal bs cs else Some False)"

definition literal :: "string \<Rightarrow> buffer" where
  "literal s = map byte_of_char s"

definition is_system_process :: "buffer \<Rightarrow> bool option" where
  "is_system_process process_name =
     do {
       fdperf \<leftarrow> strcmp_equal process_name (literal ''fdperf'');
       chrome \<leftarrow> strcmp_equal process_name (literal ''chrome'');
       surfaceflinger \<leftarrow> strcmp_equal process_name (literal ''surfaceflinger'');
       Some (fdperf \<or> chrome \<or> surfaceflinger \<or> hd process_name = byte_of_char (CHR ''X''))
     }"

section \<open>The section types\<close>

definition RD_NONE :: u32 where "RD_NONE = 0"
definition RD_TEST :: u32 where "RD_TEST = 1"
definition RD_CMD :: u32 where "RD_CMD = 2"
definition RD_GPUADDR :: u32 where "RD_GPUADDR = 3"
definition RD_CONTEXT :: u32 where "RD_CONTEXT = 4"
definition RD_CMDSTREAM :: u32 where "RD_CMDSTREAM = 5"
definition RD_CMDSTREAM_ADDR :: u32 where "RD_CMDSTREAM_ADDR = 6"
definition RD_PARAM :: u32 where "RD_PARAM = 7"
definition RD_FLUSH :: u32 where "RD_FLUSH = 8"
definition RD_PROGRAM :: u32 where "RD_PROGRAM = 9"
definition RD_VERT_SHADER :: u32 where "RD_VERT_SHADER = 10"
definition RD_FRAG_SHADER :: u32 where "RD_FRAG_SHADER = 11"
definition RD_BUFFER_CONTENTS :: u32 where "RD_BUFFER_CONTENTS = 12"
definition RD_GPU_ID :: u32 where "RD_GPU_ID = 13"
definition RD_CHIP_ID :: u32 where "RD_CHIP_ID = 14"

lemmas rd_type_defs = RD_NONE_def RD_TEST_def RD_CMD_def RD_GPUADDR_def RD_CONTEXT_def
  RD_CMDSTREAM_def RD_CMDSTREAM_ADDR_def RD_PARAM_def RD_FLUSH_def RD_PROGRAM_def
  RD_VERT_SHADER_def RD_FRAG_SHADER_def RD_BUFFER_CONTENTS_def RD_GPU_ID_def RD_CHIP_ID_def

definition skipped_types :: "u32 list" where
  "skipped_types = [RD_NONE, RD_TEST, RD_CONTEXT, RD_CMDSTREAM, RD_PARAM, RD_FLUSH, RD_PROGRAM,
     RD_VERT_SHADER, RD_FRAG_SHADER]"

section \<open>The loop over the sections\<close>

text \<open>
  One section, given its type and size: \<open>Some r\<close> is \<^verbatim>\<open>return r\<close>. The variable of \<^verbatim>\<open>RD_GPU_ID\<close> has
  four bytes, that of \<^verbatim>\<open>RD_CHIP_ID\<close> eight; a larger section would overrun it.
\<close>

definition rd_section ::
    "'h rd_env \<Rightarrow> u32 \<Rightarrow> u32 \<Rightarrow> 'h \<Rightarrow> rd_vars \<Rightarrow> (LoadResult option \<times> 'h \<times> rd_vars) option" where
  "rd_section env block_type data_size h v =
     (if block_type = RD_GPUADDR then do {
        (addr_size, h) \<leftarrow> LoadGpuAddressAndSize env data_size h;
        case addr_size of
          None \<Rightarrow> Some (Some kFileIoError, h, v)
        | Some (gpu_addr, nbytes) \<Rightarrow>
            Some (None, h, v\<lparr>cur_gpu_addr := gpu_addr, cur_size := nbytes, is_new_submit := True\<rparr>)
      }
      else if block_type = RD_CMDSTREAM_ADDR then do {
        (ok, h, cd) \<leftarrow> LoadCmdStreamBlockAdreno env data_size (is_new_submit v) (skip_commands v) h (capture v);
        if \<not> ok then Some (Some kFileIoError, h, v)
        else Some (None, h, v\<lparr>is_new_submit := False, capture := cd\<rparr>)
      }
      else if block_type = RD_BUFFER_CONTENTS then
        (if data_size \<noteq> cur_size v then Some (Some kCorruptData, h, v)
         else case LoadMemoryBlockAdreno env (cur_gpu_addr v) (cur_size v) h (capture v) of
           (ok, h, cd) \<Rightarrow>
             if \<not> ok then Some (Some kFileIoError, h, v) else Some (None, h, v\<lparr>capture := cd\<rparr>))
      else if block_type = RD_CMD then
        (case FileReader_Read env (unat data_size) h of
           (ret, bytes, h) \<Rightarrow>
             if ret = 0 then Some (Some kFileIoError, h, v\<lparr>skip_commands := False\<rparr>)
             else do {
               skip \<leftarrow> is_system_process (overwrite (fresh_array env (unat data_size)) bytes);
               Some (None, h, v\<lparr>skip_commands := skip\<rparr>)
             })
      else if block_type \<in> set skipped_types then
        (case FileReader_Read env (unat data_size) h of (ret, bytes, h) \<Rightarrow> Some (None, h, v))
      else if block_type = RD_GPU_ID then do {
        DIVE_ASSERT (rd_debug env) (data_size = 4);
        if data_size > 4 then None
        else case FileReader_Read env (unat data_size) h of
          (ret, bytes, h) \<Rightarrow>
            Some (None, h, v\<lparr>capture := SetGPUID (le32 (overwrite (le32_bytes 0) bytes)) (capture v)\<rparr>)
      }
      else if block_type = RD_CHIP_ID then
        (if g_sGPU_id (capture v) = 0 \<or> g_sGPU_variant (capture v) = kGPUVariantNone
         then do {
           DIVE_ASSERT (rd_debug env) (data_size = 8);
           if data_size > 8 then None
           else case FileReader_Read env (unat data_size) h of
             (ret, bytes, h) \<Rightarrow>
               (let chip_id = overwrite (replicate 8 0) bytes;
                    chip = fd_dev_chip env (ucast (le32 chip_id) OR push_bit 32 (ucast (le32 (drop 4 chip_id))))
                in Some (None, h,
                     if chip \<noteq> 0 then v\<lparr>capture := SetGPUID (chip * 100) (capture v)\<rparr> else v))
         }
         else Some (None, h, v))
      else Some (None, h, v))"

definition block_type_of :: "buffer \<Rightarrow> u32" where
  "block_type_of block_info = le32 block_info"

definition data_size_of :: "buffer \<Rightarrow> u32" where
  "data_size_of block_info = le32 (drop 4 block_info)"

text \<open>The inner loop over padding; \<open>Some None\<close> means the file ended in it.\<close>

partial_function (option) skip_padding ::
    "'h rd_env \<Rightarrow> buffer \<Rightarrow> 'h \<Rightarrow> (buffer option \<times> 'h) option" where
  "skip_padding env block_info h =
     (if block_type_of block_info = 0xffffffff \<and> data_size_of block_info = 0xffffffff
      then case FileReader_Read env 8 h of
          (ret, bytes, h) \<Rightarrow>
            if ret \<le> 0 then Some (None, h) else skip_padding env (overwrite block_info bytes) h
      else Some (Some block_info, h))"

partial_function (option) rd_loop ::
    "'h rd_env \<Rightarrow> buffer \<Rightarrow> 'h \<Rightarrow> rd_vars \<Rightarrow> (LoadResult option \<times> rd_vars) option" where
  "rd_loop env block_info h v =
     (case FileReader_Read env 8 h of
        (ret, bytes, h) \<Rightarrow>
          if ret \<le> 0 then Some (None, v)
          else do {
            (header, h) \<leftarrow> skip_padding env (overwrite block_info bytes) h;
            case header of
              None \<Rightarrow> Some (Some kCorruptData, v)
            | Some block_info \<Rightarrow> do {
                (r, h, v) \<leftarrow> rd_section env (block_type_of block_info) (data_size_of block_info) h v;
                case r of
                  Some result \<Rightarrow> Some (Some result, v)
                | None \<Rightarrow> rd_loop env block_info h v
              }
          })"

text \<open>After the last section the memory is finalized.\<close>

definition LoadAdrenoRdFile_reader :: "'h rd_env \<Rightarrow> 'h \<Rightarrow> Pm4CaptureData \<Rightarrow> (LoadResult \<times> Pm4CaptureData) option"
  where
  "LoadAdrenoRdFile_reader env h cd =
     do {
       (r, v) \<leftarrow> rd_loop env (replicate 8 0) h (rd_vars_new cd);
       case r of
         Some result \<Rightarrow> Some (result, capture v)
       | None \<Rightarrow> do {
           mm \<leftarrow> MemoryManager_Finalize (rd_debug env) True True (m_memory (capture v));
           Some (kSuccess, (capture v)\<lparr>m_memory := mm\<rparr>)
         }
     }"

text \<open>A file that cannot be opened is \<open>None\<close>.\<close>

definition LoadAdrenoRdFile ::
    "'h rd_env \<Rightarrow> string \<Rightarrow> 'h option \<Rightarrow> Pm4CaptureData \<Rightarrow> (LoadResult \<times> Pm4CaptureData) option" where
  "LoadAdrenoRdFile env file_name reader cd =
     (case reader of
        None \<Rightarrow> Some (kFileIoError, cd)
      | Some h \<Rightarrow> do {
          (result, cd) \<leftarrow> LoadAdrenoRdFile_reader env h cd;
          Some (result, if result = kSuccess then cd\<lparr>m_cur_capture_file := file_name\<rparr> else cd)
        })"

section \<open>Reading from a well-behaved archive\<close>

text \<open>
  The documented behaviour of the archive library on an intact file: each call delivers some of the
  bytes that are left, in order, and nothing only at the end. \<open>rest\<close> gives the bytes that are left.
\<close>

definition archive_laws :: "'h rd_env \<Rightarrow> ('h \<Rightarrow> buffer) \<Rightarrow> bool" where
  "archive_laws env rest \<longleftrightarrow>
     (\<forall>n h. n > 0 \<longrightarrow>
        (case archive_read_data env n h of
           (Inl _, _) \<Rightarrow> False
         | (Inr bytes, h') \<Rightarrow>
             rest h = bytes @ rest h' \<and> length bytes \<le> n \<and> (bytes = [] \<longrightarrow> rest h = [])))"

lemma archive_read_cases:
  assumes "archive_laws env rest" "n > 0"
  obtains bytes h' where "archive_read_data env n h = (Inr bytes, h')" "rest h = bytes @ rest h'"
    "length bytes \<le> n" "bytes = [] \<longrightarrow> rest h = []"
proof -
  obtain r h' where r: "archive_read_data env n h = (r, h')"
    by (cases "archive_read_data env n h")
  have "case archive_read_data env n h of
      (Inl _, _) \<Rightarrow> False
    | (Inr bytes, h') \<Rightarrow> rest h = bytes @ rest h' \<and> length bytes \<le> n \<and> (bytes = [] \<longrightarrow> rest h = [])"
    using assms by (simp add: archive_laws_def)
  then show ?thesis
    using that r by (cases r) auto
qed

lemma read_loop_exact:
  assumes laws: "archive_laws env rest"
  shows "\<exists>h'. read_loop env n h ret buf =
      (ret + int (length (take n (rest h))), buf @ take n (rest h), h') \<and> rest h' = drop n (rest h)"
proof (induction n arbitrary: h ret buf rule: less_induct)
  case (less n)
  show ?case
  proof (cases "n = 0")
    case True
    then show ?thesis
      by (subst read_loop.simps) simp
  next
    case False
    then have n: "n > 0"
      by simp
    obtain bytes h1 where read: "archive_read_data env n h = (Inr bytes, h1)"
        "rest h = bytes @ rest h1" "length bytes \<le> n" "bytes = [] \<longrightarrow> rest h = []"
      by (rule archive_read_cases [OF laws n])
    show ?thesis
    proof (cases "bytes = []")
      case True
      then show ?thesis
        using False read by (subst read_loop.simps) simp
    next
      case nonempty: False
      obtain h2 where h2: "read_loop env (n - length bytes) h1 (ret + int (length bytes)) (buf @ bytes) =
          (ret + int (length bytes) + int (length (take (n - length bytes) (rest h1))),
           (buf @ bytes) @ take (n - length bytes) (rest h1), h2)"
          "rest h2 = drop (n - length bytes) (rest h1)"
        using less.IH [of "n - length bytes" h1 "ret + int (length bytes)" "buf @ bytes"] nonempty False
        by auto
      have "read_loop env n h ret buf =
          read_loop env (n - length bytes) h1 (ret + int (length bytes)) (buf @ bytes)"
        using False nonempty read(1) by (subst read_loop.simps) simp
      then show ?thesis
        using h2 read(2,3) by (intro exI [of _ h2]) simp
    qed
  qed
qed

lemma Read_exact:
  assumes "archive_laws env rest"
  obtains h' where "FileReader_Read env n h = (int (length (take n (rest h))), take n (rest h), h')"
    "rest h' = drop n (rest h)"
  using read_loop_exact [OF assms, of n h 0 "[]"] by (auto simp: FileReader_Read_def)

lemma Read_prefix:
  assumes "archive_laws env rest" "rest h = bytes @ more_bytes" "length bytes = n"
  obtains h' where "FileReader_Read env n h = (int n, bytes, h')" "rest h' = more_bytes"
  using Read_exact [OF assms(1), of n h] assms(2,3) by auto

lemma overwrite_all [simp]: "length bytes = length old \<Longrightarrow> overwrite old bytes = bytes"
  by (simp add: overwrite_def)

lemma read_dword_prefix:
  assumes "archive_laws env rest" "rest h = le32_bytes w @ more_bytes"
  obtains h' where "read_dword env dword h = (4, w, h')" "rest h' = more_bytes"
proof -
  obtain h' where "FileReader_Read env 4 h = (int 4, le32_bytes w, h')" "rest h' = more_bytes"
    by (rule Read_prefix [OF assms, of 4]) simp
  then show ?thesis
    using that by (simp add: read_dword_def)
qed

section \<open>The sections of a file\<close>

text \<open>
  Sections as they are written: 64-bit addresses with both halves, or the low half only; a size; the
  content of a buffer; a process name; a section that is skipped; the two ids. Of a section of unknown
  type only the header is a section: the loader does not skip its content, and takes what follows for
  the next section.
\<close>

datatype rd_sec =
    SecGpuaddr u64 u32
  | SecGpuaddr32 u32 u32
  | SecCmdstreamAddr u64 u32
  | SecBufferContents buffer
  | SecCmd buffer
  | SecSkipped u32 buffer
  | SecUnknown u32 u32
  | SecGpuId u32
  | SecChipId u64

definition low_half :: "u64 \<Rightarrow> u32" where "low_half a = ucast a"
definition high_half :: "u64 \<Rightarrow> u32" where "high_half a = ucast (drop_bit 32 a)"

fun sec_type :: "rd_sec \<Rightarrow> u32" where
  "sec_type (SecGpuaddr a n) = RD_GPUADDR"
| "sec_type (SecGpuaddr32 a n) = RD_GPUADDR"
| "sec_type (SecCmdstreamAddr a n) = RD_CMDSTREAM_ADDR"
| "sec_type (SecBufferContents bytes) = RD_BUFFER_CONTENTS"
| "sec_type (SecCmd name) = RD_CMD"
| "sec_type (SecSkipped t bytes) = t"
| "sec_type (SecUnknown t n) = t"
| "sec_type (SecGpuId i) = RD_GPU_ID"
| "sec_type (SecChipId i) = RD_CHIP_ID"

fun sec_data :: "rd_sec \<Rightarrow> buffer" where
  "sec_data (SecGpuaddr a n) = le32_bytes (low_half a) @ le32_bytes n @ le32_bytes (high_half a)"
| "sec_data (SecGpuaddr32 a n) = le32_bytes a @ le32_bytes n"
| "sec_data (SecCmdstreamAddr a n) = le32_bytes (low_half a) @ le32_bytes n @ le32_bytes (high_half a)"
| "sec_data (SecBufferContents bytes) = bytes"
| "sec_data (SecCmd name) = name"
| "sec_data (SecSkipped t bytes) = bytes"
| "sec_data (SecUnknown t n) = []"
| "sec_data (SecGpuId i) = le32_bytes i"
| "sec_data (SecChipId i) = le32_bytes (low_half i) @ le32_bytes (high_half i)"

fun sec_size :: "rd_sec \<Rightarrow> u32" where
  "sec_size (SecUnknown t n) = n"
| "sec_size s = word_of_nat (length (sec_data s))"

definition padding :: buffer where
  "padding = le32_bytes 0xffffffff @ le32_bytes 0xffffffff"

definition encode_sec :: "nat \<times> rd_sec \<Rightarrow> buffer" where
  "encode_sec ps =
     concat (replicate (fst ps) padding) @
     le32_bytes (sec_type (snd ps)) @ le32_bytes (sec_size (snd ps)) @ sec_data (snd ps)"

text \<open>
  What a section means: for the variables, and whether the loader returns. \<open>None\<close> is undefined behaviour:
  a name that is not terminated, a command stream before any submit.
\<close>

definition chip_wanted :: "rd_vars \<Rightarrow> bool" where
  "chip_wanted v \<longleftrightarrow> g_sGPU_id (capture v) = 0 \<or> g_sGPU_variant (capture v) = kGPUVariantNone"

fun sec_effect :: "'h rd_env \<Rightarrow> rd_sec \<Rightarrow> rd_vars \<Rightarrow> (LoadResult option \<times> rd_vars) option" where
  "sec_effect env (SecGpuaddr a n) v =
     Some (None, v\<lparr>cur_gpu_addr := a, cur_size := n, is_new_submit := True\<rparr>)"
| "sec_effect env (SecGpuaddr32 a n) v =
     Some (None, v\<lparr>cur_gpu_addr := ucast a, cur_size := n, is_new_submit := True\<rparr>)"
| "sec_effect env (SecCmdstreamAddr a n) v =
     map_option (\<lambda>cd. (None, v\<lparr>is_new_submit := False, capture := cd\<rparr>))
       (add_command_stream (is_new_submit v) (rd_ib a n (skip_commands v)) (capture v))"
| "sec_effect env (SecBufferContents bytes) v =
     (if length bytes \<noteq> unat (cur_size v) then Some (Some kCorruptData, v)
      else if bytes = [] then Some (Some kFileIoError, v)
      else Some (None, v\<lparr>capture := (capture v)\<lparr>m_memory :=
              AddMemoryBlock (word_of_nat (length (m_submits (capture v)))) (cur_gpu_addr v)
                \<lparr>md_data_size = cur_size v, md_data = bytes\<rparr> (m_memory (capture v))\<rparr>\<rparr>))"
| "sec_effect env (SecCmd name) v =
     (if name = [] then Some (Some kFileIoError, v\<lparr>skip_commands := False\<rparr>)
      else map_option (\<lambda>skip. (None, v\<lparr>skip_commands := skip\<rparr>)) (is_system_process name))"
| "sec_effect env (SecSkipped t bytes) v = Some (None, v)"
| "sec_effect env (SecUnknown t n) v = Some (None, v)"
| "sec_effect env (SecGpuId i) v = Some (None, v\<lparr>capture := SetGPUID i (capture v)\<rparr>)"
| "sec_effect env (SecChipId i) v =
     Some (None, if chip_wanted v \<and> fd_dev_chip env i \<noteq> 0
                 then v\<lparr>capture := SetGPUID (fd_dev_chip env i * 100) (capture v)\<rparr> else v)"

fun sec_effects :: "'h rd_env \<Rightarrow> rd_sec list \<Rightarrow> rd_vars \<Rightarrow> (LoadResult option \<times> rd_vars) option" where
  "sec_effects env [] v = Some (None, v)"
| "sec_effects env (s # ss) v = do {
     (r, v) \<leftarrow> sec_effect env s v;
     case r of Some result \<Rightarrow> Some (Some result, v) | None \<Rightarrow> sec_effects env ss v }"

definition sec_fits :: "rd_sec \<Rightarrow> bool" where
  "sec_fits s \<longleftrightarrow> length (sec_data s) < 2 ^ 32"

text \<open>
  The sections of a file, up to the one at which the loader returns. Once the GPU id is known the loader
  takes the eight bytes of a chip id for the header of a section (see below); here that must be one of
  unknown type.
\<close>

fun sec_ok :: "rd_sec \<Rightarrow> rd_vars \<Rightarrow> bool" where
  "sec_ok (SecSkipped t bytes) v = (t \<in> set skipped_types \<and> length bytes < 2 ^ 32)"
| "sec_ok (SecUnknown t n) v = (t > RD_CHIP_ID \<and> \<not> (t = 0xffffffff \<and> n = 0xffffffff))"
| "sec_ok (SecChipId i) v = (chip_wanted v \<or> low_half i > RD_CHIP_ID \<and> i \<noteq> - 1)"
| "sec_ok s v = sec_fits s"

fun secs_ok :: "'h rd_env \<Rightarrow> rd_sec list \<Rightarrow> rd_vars \<Rightarrow> bool" where
  "secs_ok env [] v = True"
| "secs_ok env (s # ss) v =
     (sec_ok s v \<and> (case sec_effect env s v of Some (None, v) \<Rightarrow> secs_ok env ss v | _ \<Rightarrow> True))"

definition fresh_laws :: "'h rd_env \<Rightarrow> bool" where
  "fresh_laws env \<longleftrightarrow> (\<forall>n. length (fresh_array env n) = n)"

lemma halves [simp]: "ucast (low_half a) OR push_bit 32 (ucast (high_half a)) = a"
  by (rule bit_word_eqI) (auto simp: low_half_def high_half_def bit_simps)

lemma LoadGpuAddressAndSize_12:
  assumes laws: "archive_laws env rest"
    and h: "rest h = le32_bytes (low_half a) @ le32_bytes n @ le32_bytes (high_half a) @ r"
  obtains h' where "LoadGpuAddressAndSize env 12 h = Some (Some (a, n), h')" "rest h' = r"
proof -
  obtain h1 where h1: "read_dword env 0 h = (4, low_half a, h1)"
      "rest h1 = le32_bytes n @ le32_bytes (high_half a) @ r"
    by (rule read_dword_prefix [OF laws h])
  obtain h2 where h2: "read_dword env (low_half a) h1 = (4, n, h2)" "rest h2 = le32_bytes (high_half a) @ r"
    by (rule read_dword_prefix [OF laws h1(2)])
  obtain h3 where "read_dword env n h2 = (4, high_half a, h3)" "rest h3 = r"
    by (rule read_dword_prefix [OF laws h2(2)])
  then show ?thesis
    using that h1(1) h2(1) by (simp add: LoadGpuAddressAndSize_def)
qed

lemma LoadGpuAddressAndSize_8:
  assumes laws: "archive_laws env rest" and h: "rest h = le32_bytes a @ le32_bytes n @ r"
  obtains h' where "LoadGpuAddressAndSize env 8 h = Some (Some (ucast a, n), h')" "rest h' = r"
proof -
  obtain h1 where h1: "read_dword env 0 h = (4, a, h1)" "rest h1 = le32_bytes n @ r"
    by (rule read_dword_prefix [OF laws h])
  obtain h2 where "read_dword env a h1 = (4, n, h2)" "rest h2 = r"
    by (rule read_dword_prefix [OF laws h1(2)])
  then show ?thesis
    using that h1(1) by (simp add: LoadGpuAddressAndSize_def)
qed

lemma skipped_types_other:
  "t \<in> set skipped_types \<Longrightarrow> t \<noteq> RD_GPUADDR \<and> t \<noteq> RD_CMDSTREAM_ADDR \<and> t \<noteq> RD_BUFFER_CONTENTS \<and> t \<noteq> RD_CMD"
  by (auto simp: skipped_types_def rd_type_defs)

lemma rd_types_distinct [simp]:
  "RD_CMDSTREAM_ADDR \<noteq> RD_GPUADDR" "RD_BUFFER_CONTENTS \<noteq> RD_GPUADDR" "RD_CMD \<noteq> RD_GPUADDR"
  "RD_GPU_ID \<noteq> RD_GPUADDR" "RD_CHIP_ID \<noteq> RD_GPUADDR" "RD_BUFFER_CONTENTS \<noteq> RD_CMDSTREAM_ADDR"
  "RD_CMD \<noteq> RD_CMDSTREAM_ADDR" "RD_GPU_ID \<noteq> RD_CMDSTREAM_ADDR" "RD_CHIP_ID \<noteq> RD_CMDSTREAM_ADDR"
  "RD_CMD \<noteq> RD_BUFFER_CONTENTS" "RD_GPU_ID \<noteq> RD_BUFFER_CONTENTS" "RD_CHIP_ID \<noteq> RD_BUFFER_CONTENTS"
  "RD_GPU_ID \<noteq> RD_CMD" "RD_CHIP_ID \<noteq> RD_CMD" "RD_CHIP_ID \<noteq> RD_GPU_ID"
  "RD_GPU_ID \<notin> set skipped_types" "RD_CHIP_ID \<notin> set skipped_types"
  by (simp_all add: skipped_types_def rd_type_defs)

lemma le32_append: "length bs = 4 \<Longrightarrow> le32 (bs @ r) = le32 bs"
  by (simp add: le32_def nth_append)

lemma rd_section_unknown:
  assumes "t > RD_CHIP_ID"
  shows "rd_section env t n h v = Some (None, h, v)"
proof -
  have ne: "t \<noteq> x" if "x \<le> RD_CHIP_ID" for x
    using assms that by auto
  have le: "RD_NONE \<le> RD_CHIP_ID" "RD_TEST \<le> RD_CHIP_ID" "RD_CMD \<le> RD_CHIP_ID" "RD_GPUADDR \<le> RD_CHIP_ID"
    "RD_CONTEXT \<le> RD_CHIP_ID" "RD_CMDSTREAM \<le> RD_CHIP_ID" "RD_CMDSTREAM_ADDR \<le> RD_CHIP_ID"
    "RD_PARAM \<le> RD_CHIP_ID" "RD_FLUSH \<le> RD_CHIP_ID" "RD_PROGRAM \<le> RD_CHIP_ID"
    "RD_VERT_SHADER \<le> RD_CHIP_ID" "RD_FRAG_SHADER \<le> RD_CHIP_ID"
    "RD_BUFFER_CONTENTS \<le> RD_CHIP_ID" "RD_GPU_ID \<le> RD_CHIP_ID"
    by (simp_all add: rd_type_defs)
  show ?thesis
    by (simp add: rd_section_def skipped_types_def ne [OF order.refl] ne [OF le(1)] ne [OF le(2)]
        ne [OF le(3)] ne [OF le(4)] ne [OF le(5)] ne [OF le(6)] ne [OF le(7)] ne [OF le(8)]
        ne [OF le(9)] ne [OF le(10)] ne [OF le(11)] ne [OF le(12)] ne [OF le(13)] ne [OF le(14)])
qed

lemma rd_section_effect:
  assumes laws: "archive_laws env rest" and fresh: "fresh_laws env" and ok: "sec_ok s v"
    and known: "\<And>i. s = SecChipId i \<Longrightarrow> chip_wanted v" and h: "rest h = sec_data s @ r"
  shows "case sec_effect env s v of
      None \<Rightarrow> rd_section env (sec_type s) (sec_size s) h v = None
    | Some (res, v') \<Rightarrow>
        \<exists>h'. rd_section env (sec_type s) (sec_size s) h v = Some (res, h', v') \<and> (res = None \<longrightarrow> rest h' = r)"
proof -
  have fill: "overwrite (fresh_array env (length bytes)) bytes = bytes" for bytes
    using fresh by (simp add: fresh_laws_def)
  have data: "\<exists>h'. FileReader_Read env (length (sec_data s)) h = (int (length (sec_data s)), sec_data s, h') \<and>
      rest h' = r"
    by (rule Read_prefix [OF laws h refl]) auto
  have len: "unat (word_of_nat n :: u32) = n" if "n < 2 ^ 32" for n
    using that by (simp add: unat_of_nat)
  show ?thesis
  proof (cases s)
    case (SecGpuaddr a n)
    obtain h' where "LoadGpuAddressAndSize env 12 h = Some (Some (a, n), h')" "rest h' = r"
      by (rule LoadGpuAddressAndSize_12 [OF laws, of h a n r]) (use h SecGpuaddr in auto)
    then show ?thesis
      using SecGpuaddr by (auto simp: rd_section_def)
  next
    case (SecGpuaddr32 a n)
    obtain h' where "LoadGpuAddressAndSize env 8 h = Some (Some (ucast a, n), h')" "rest h' = r"
      by (rule LoadGpuAddressAndSize_8 [OF laws, of h a n r]) (use h SecGpuaddr32 in auto)
    then show ?thesis
      using SecGpuaddr32 by (auto simp: rd_section_def)
  next
    case (SecCmdstreamAddr a n)
    obtain h' where "LoadGpuAddressAndSize env 12 h = Some (Some (a, n), h')" "rest h' = r"
      by (rule LoadGpuAddressAndSize_12 [OF laws, of h a n r]) (use h SecCmdstreamAddr in auto)
    then show ?thesis
      using SecCmdstreamAddr by (auto simp: rd_section_def LoadCmdStreamBlockAdreno_def split: option.split)
  next
    case (SecBufferContents bytes)
    have "length bytes = unat (word_of_nat (length bytes) :: u32)"
      using len [of "length bytes"] ok SecBufferContents by (simp add: sec_fits_def)
    then have "word_of_nat (length bytes) = cur_size v \<longleftrightarrow> length bytes = unat (cur_size v)"
      by (metis unsigned_word_eqI)
    moreover obtain h' where "FileReader_Read env (length bytes) h = (int (length bytes), bytes, h')"
        "rest h' = r"
      using data SecBufferContents by auto
    ultimately show ?thesis
    proof (cases "length bytes = unat (cur_size v)")
      case True
      note n = True [symmetric]
      show ?thesis
        using SecBufferContents fill [of bytes] \<open>FileReader_Read env (length bytes) h = _\<close> \<open>rest h' = r\<close>
          \<open>(word_of_nat (length bytes) = cur_size v) = _\<close>
        by (cases "bytes = []") (simp_all add: rd_section_def LoadMemoryBlockAdreno_def n)
    next
      case False
      then show ?thesis
        using SecBufferContents \<open>(word_of_nat (length bytes) = cur_size v) = _\<close>
        by (simp add: rd_section_def)
    qed
  next
    case (SecCmd name)
    then show ?thesis
      using data ok fill [of name] by (auto simp: rd_section_def sec_fits_def len split: option.split)
  next
    case (SecSkipped t bytes)
    then show ?thesis
      using data ok len skipped_types_other [of t] by (auto simp: rd_section_def)
  next
    case (SecUnknown t n)
    then show ?thesis
      using ok h rd_section_unknown [of t env n h v] by simp
  next
    case (SecGpuId i)
    then show ?thesis
      using data by (auto simp: rd_section_def)
  next
    case (SecChipId i)
    then show ?thesis
      using data known [OF SecChipId]
      by (auto simp: rd_section_def chip_wanted_def le32_append Let_def split: if_splits)
  qed
qed

lemma le32_header [simp]:
  "block_type_of (le32_bytes t @ le32_bytes n) = t" "data_size_of (le32_bytes t @ le32_bytes n) = n"
  by (simp_all add: block_type_of_def data_size_of_def le32_append)

lemma skip_padding_padding:
  assumes laws: "archive_laws env rest" and header: "\<not> (t = 0xffffffff \<and> n = 0xffffffff)"
    and h: "rest h = concat (replicate k padding) @ le32_bytes t @ le32_bytes n @ r"
  shows "\<exists>h'. FileReader_Read env 8 h = (8, take 8 (rest h), h') \<and>
    (\<exists>h''. skip_padding env (take 8 (rest h)) h' = Some (Some (le32_bytes t @ le32_bytes n), h'') \<and>
      rest h'' = r)"
  using h
proof (induction k arbitrary: h)
  case 0
  have h8: "rest h = (le32_bytes t @ le32_bytes n) @ r"
    using 0 by simp
  obtain h' where h': "FileReader_Read env 8 h = (int 8, le32_bytes t @ le32_bytes n, h')" "rest h' = r"
    by (rule Read_prefix [OF laws h8, of 8]) simp
  then show ?case
    using h8 header by (subst skip_padding.simps) auto
next
  case (Suc k)
  have h8: "rest h = padding @ concat (replicate k padding) @ le32_bytes t @ le32_bytes n @ r"
    using Suc.prems by simp
  obtain h' where h': "FileReader_Read env 8 h = (int 8, padding, h')"
      "rest h' = concat (replicate k padding) @ le32_bytes t @ le32_bytes n @ r"
    by (rule Read_prefix [OF laws h8, of 8]) (simp add: padding_def)
  have pad: "block_type_of padding = 0xffffffff" "data_size_of padding = 0xffffffff"
    by (simp_all add: padding_def)
  obtain h1 h2 where h1: "FileReader_Read env 8 h' = (8, take 8 (rest h'), h1)"
      "skip_padding env (take 8 (rest h')) h1 = Some (Some (le32_bytes t @ le32_bytes n), h2)"
      "rest h2 = r"
    using Suc.IH [OF h'(2)] by blast
  have len: "length (take 8 (rest h')) = length padding"
  proof (cases k)
    case 0
    then show ?thesis
      using h'(2) by (simp add: padding_def)
  next
    case (Suc j)
    then show ?thesis
      using h'(2) by (simp add: padding_def)
  qed
  have "skip_padding env padding h' = Some (Some (le32_bytes t @ le32_bytes n), h2)"
    using h1 len by (subst skip_padding.simps) (simp add: pad)
  moreover have "take 8 (rest h) = padding"
    using h8 by (simp add: padding_def)
  ultimately show ?case
    using h'(1) h1(3) by auto
qed

lemma rd_loop_header:
  assumes laws: "archive_laws env rest" and header: "\<not> (t = 0xffffffff \<and> n = 0xffffffff)"
    and h: "rest h = concat (replicate k padding) @ le32_bytes t @ le32_bytes n @ r" and "length block_info = 8"
  obtains h' where "rest h' = r"
    "rd_loop env block_info h v =
      do { (result, h, v) \<leftarrow> rd_section env t n h' v;
           case result of Some result \<Rightarrow> Some (Some result, v)
           | None \<Rightarrow> rd_loop env (le32_bytes t @ le32_bytes n) h v }"
proof -
  obtain h1 h2 where h1: "FileReader_Read env 8 h = (8, take 8 (rest h), h1)"
      "skip_padding env (take 8 (rest h)) h1 = Some (Some (le32_bytes t @ le32_bytes n), h2)"
      "rest h2 = r"
    using skip_padding_padding [OF laws header h] by blast
  have "length (take 8 (rest h)) = 8"
    unfolding h by (cases k) (simp_all add: padding_def)
  then have "rd_loop env block_info h v =
      do { (result, h, v) \<leftarrow> rd_section env t n h2 v;
           case result of Some result \<Rightarrow> Some (Some result, v)
           | None \<Rightarrow> rd_loop env (le32_bytes t @ le32_bytes n) h v }"
    using h1(1,2) assms(4) by (subst rd_loop.simps) simp
  then show ?thesis
    using that h1(3) by blast
qed

text \<open>Padding at the end of the file makes it corrupt.\<close>

lemma skip_padding_end:
  assumes laws: "archive_laws env rest" and h: "rest h = concat (replicate k padding)"
  shows "\<exists>h'. skip_padding env padding h = Some (None, h')"
  using h
proof (induction k arbitrary: h)
  case 0
  obtain h' where "FileReader_Read env 8 h = (0, [], h')"
    using Read_exact [OF laws, of 8 h] 0 by auto
  then show ?case
    by (subst skip_padding.simps) (simp add: padding_def)
next
  case (Suc k)
  have h8: "rest h = padding @ concat (replicate k padding)"
    using Suc.prems by simp
  obtain h' where h': "FileReader_Read env 8 h = (int 8, padding, h')" "rest h' = concat (replicate k padding)"
    by (rule Read_prefix [OF laws h8, of 8]) (simp add: padding_def)
  then show ?case
    using Suc.IH [OF h'(2)] by (subst skip_padding.simps) (simp add: padding_def)
qed

lemma rd_loop_end:
  assumes laws: "archive_laws env rest" and h: "rest h = concat (replicate k padding)" and "length block_info = 8"
  shows "rd_loop env block_info h v = Some (if k = 0 then None else Some kCorruptData, v)"
proof (cases k)
  case 0
  obtain h' where "FileReader_Read env 8 h = (0, [], h')"
    using Read_exact [OF laws, of 8 h] h 0 by auto
  then show ?thesis
    using 0 by (subst rd_loop.simps) simp
next
  case (Suc j)
  have h8: "rest h = padding @ concat (replicate j padding)"
    using h Suc by simp
  obtain h' where h': "FileReader_Read env 8 h = (int 8, padding, h')" "rest h' = concat (replicate j padding)"
    by (rule Read_prefix [OF laws h8, of 8]) (simp add: padding_def)
  obtain h'' where "skip_padding env padding h' = Some (None, h'')"
    using skip_padding_end [OF laws h'(2)] by blast
  moreover have "overwrite block_info padding = padding"
    using assms(3) by (intro overwrite_all) (simp add: padding_def)
  ultimately show ?thesis
    using Suc h'(1) by (subst rd_loop.simps) simp
qed

lemma sec_header: "sec_ok s v \<Longrightarrow> \<not> (sec_type s = 0xffffffff \<and> sec_size s = 0xffffffff)"
  by (cases s) (auto simp: rd_type_defs skipped_types_def)

lemma low_high_all: "low_half i = 0xffffffff \<Longrightarrow> high_half i = 0xffffffff \<Longrightarrow> i = - 1"
  using halves [of i] by simp

text \<open>Once the GPU id is known the eight bytes of a chip id are taken for a header.\<close>

lemma chip_id_ignored:
  assumes laws: "archive_laws env rest" and len: "length block_info = 8"
    and known: "\<not> chip_wanted v" and chip: "low_half i > RD_CHIP_ID" "i \<noteq> - 1"
    and h: "rest h = encode_sec (k, SecChipId i) @ r"
  shows "\<exists>h' b. rd_loop env block_info h v = rd_loop env b h' v \<and> rest h' = r \<and> length b = 8"
proof -
  have h0: "rest h = concat (replicate k padding) @ le32_bytes RD_CHIP_ID @ le32_bytes 8 @
      (le32_bytes (low_half i) @ le32_bytes (high_half i) @ r)"
    using h by (simp add: encode_sec_def)
  obtain h1 where h1: "rest h1 = le32_bytes (low_half i) @ le32_bytes (high_half i) @ r"
    and step1: "rd_loop env block_info h v = rd_loop env (le32_bytes RD_CHIP_ID @ le32_bytes 8) h1 v"
    by (rule rd_loop_header [OF laws _ h0 len, of v])
      (use known in \<open>simp_all add: rd_section_def chip_wanted_def RD_CHIP_ID_def [symmetric]\<close>)
  have h1': "rest h1 = concat (replicate 0 padding) @ le32_bytes (low_half i) @ le32_bytes (high_half i) @ r"
    using h1 by simp
  obtain h2 where h2: "rest h2 = r"
    and step2: "rd_loop env (le32_bytes RD_CHIP_ID @ le32_bytes 8) h1 v =
      do { (result, h, v) \<leftarrow> rd_section env (low_half i) (high_half i) h2 v;
           case result of Some result \<Rightarrow> Some (Some result, v)
           | None \<Rightarrow> rd_loop env (le32_bytes (low_half i) @ le32_bytes (high_half i)) h v }"
    by (rule rd_loop_header [OF laws _ h1', of "le32_bytes RD_CHIP_ID @ le32_bytes 8" v])
      (use chip low_high_all [of i] in auto)
  have "rd_section env (low_half i) (high_half i) h2 v = Some (None, h2, v)"
    by (rule rd_section_unknown [OF chip(1)])
  then have "rd_loop env block_info h v = rd_loop env (le32_bytes (low_half i) @ le32_bytes (high_half i)) h2 v"
    using step1 step2 by simp
  moreover have "length (le32_bytes (low_half i) @ le32_bytes (high_half i)) = 8"
    by simp
  ultimately show ?thesis
    using h2 by blast
qed

text \<open>The loop over one section.\<close>

lemma rd_loop_section:
  assumes laws: "archive_laws env rest" and fresh: "fresh_laws env" and ok: "sec_ok s v"
    and h: "rest h = encode_sec (k, s) @ r" and len: "length block_info = 8"
  shows "case sec_effect env s v of
      None \<Rightarrow> rd_loop env block_info h v = None
    | Some (Some result, v') \<Rightarrow> rd_loop env block_info h v = Some (Some result, v')
    | Some (None, v') \<Rightarrow>
        \<exists>h' b. rd_loop env block_info h v = rd_loop env b h' v' \<and> rest h' = r \<and> length b = 8"
proof (cases "(\<exists>i. s = SecChipId i) \<and> \<not> chip_wanted v")
  case True
  then obtain i where i: "s = SecChipId i" "\<not> chip_wanted v"
    by blast
  then show ?thesis
    using chip_id_ignored [OF laws len i(2), of i h k r] ok h by simp
next
  case False
  have rest: "rest h = concat (replicate k padding) @ le32_bytes (sec_type s) @ le32_bytes (sec_size s) @
      (sec_data s @ r)"
    using h by (simp add: encode_sec_def)
  obtain h1 where h1: "rest h1 = sec_data s @ r" and step:
    "rd_loop env block_info h v =
      do { (result, h, v) \<leftarrow> rd_section env (sec_type s) (sec_size s) h1 v;
           case result of Some result \<Rightarrow> Some (Some result, v)
           | None \<Rightarrow> rd_loop env (le32_bytes (sec_type s) @ le32_bytes (sec_size s)) h v }"
    by (rule rd_loop_header [OF laws sec_header [OF ok] rest len])
  have b: "length (le32_bytes (sec_type s) @ le32_bytes (sec_size s)) = 8"
    by simp
  show ?thesis
    using rd_section_effect [OF laws fresh ok _ h1] False b unfolding step
    by (auto split: option.splits prod.splits) (metis b)+
qed

lemma rd_loop_sections:
  assumes laws: "archive_laws env rest" and fresh: "fresh_laws env"
    and "secs_ok env (map snd pss) v"
    and "rest h = concat (map encode_sec pss) @ concat (replicate k padding)" and "length block_info = 8"
  shows "rd_loop env block_info h v =
    do { (r, v) \<leftarrow> sec_effects env (map snd pss) v;
         Some (if r = None \<and> k > 0 then Some kCorruptData else r, v) }"
  using assms(3-)
proof (induction pss arbitrary: h v block_info)
  case Nil
  then show ?case
    using rd_loop_end [OF laws, of h k] by simp
next
  case (Cons ps pss)
  obtain k' s where ps: "ps = (k', s)"
    by (cases ps)
  have h: "rest h = encode_sec (k', s) @ (concat (map encode_sec pss) @ concat (replicate k padding))"
    using Cons.prems(2) ps by simp
  have ok: "sec_ok s v"
    using Cons.prems(1) ps by simp
  note step = rd_loop_section [OF laws fresh ok h Cons.prems(3)]
  show ?case
  proof (cases "sec_effect env s v")
    case None
    then show ?thesis
      using step ps by simp
  next
    case (Some x)
    obtain res v1 where x: "x = (res, v1)"
      by (cases x)
    show ?thesis
    proof (cases res)
      case None
      then obtain h1 b where "rd_loop env block_info h v = rd_loop env b h1 v1"
          "rest h1 = concat (map encode_sec pss) @ concat (replicate k padding)" "length b = 8"
        using step Some x by auto
      then show ?thesis
        using Cons.IH [of v1 h1 b] Cons.prems(1) Some x None ps by simp
    next
      case (Some result)
      then show ?thesis
        using step \<open>sec_effect env s v = Some x\<close> x ps by simp
    qed
  qed
qed

text \<open>The loader as a fold of the meaning of the sections, however the library splits the file.\<close>

lemma sec_effect_error: "sec_effect env s v = Some (Some result, v') \<Longrightarrow> result \<noteq> kSuccess"
  by (cases s) (auto split: if_splits)

lemma sec_effects_error: "sec_effects env ss v = Some (Some result, v') \<Longrightarrow> result \<noteq> kSuccess"
proof (induction ss arbitrary: v)
  case (Cons s ss)
  then show ?case
    using sec_effect_error [of env s v result v'] by (auto split: bind_splits option.splits)
qed simp

lemma rd_sections_loaded:
  assumes "archive_laws env rest" "fresh_laws env" "secs_ok env (map snd pss) (rd_vars_new cd)"
    and "rest h = concat (map encode_sec pss) @ concat (replicate k padding)"
  shows "LoadAdrenoRdFile env name (Some h) cd =
    do {
      (r, v) \<leftarrow> sec_effects env (map snd pss) (rd_vars_new cd);
      case r of
        Some result \<Rightarrow> Some (result, capture v)
      | None \<Rightarrow>
          if k > 0 then Some (kCorruptData, capture v)
          else do {
            mm \<leftarrow> MemoryManager_Finalize (rd_debug env) True True (m_memory (capture v));
            Some (kSuccess, (capture v)\<lparr>m_memory := mm, m_cur_capture_file := name\<rparr>)
          }
    }"
proof -
  have "rd_loop env (replicate 8 0) h (rd_vars_new cd) =
    do { (r, v) \<leftarrow> sec_effects env (map snd pss) (rd_vars_new cd);
         Some (if r = None \<and> k > 0 then Some kCorruptData else r, v) }"
    by (rule rd_loop_sections [OF assms]) simp
  note loop = this
  show ?thesis
  proof (cases "sec_effects env (map snd pss) (rd_vars_new cd)")
    case None
    then show ?thesis
      by (simp add: LoadAdrenoRdFile_def LoadAdrenoRdFile_reader_def loop)
  next
    case (Some x)
    obtain res v where x: "x = (res, v)"
      by (cases x)
    show ?thesis
      using loop Some x sec_effects_error [of env "map snd pss" "rd_vars_new cd" _ v]
      by (cases res; cases "k > 0") (auto simp: LoadAdrenoRdFile_def LoadAdrenoRdFile_reader_def)
  qed
qed

section \<open>From the capture to the emulator's memory\<close>

text \<open>
  A capture as it is taken: for each submit the buffers it refers to, at least one, and then its
  command streams, at least one.
\<close>

record rd_frame =
  fr_buffers :: "(u64 \<times> buffer) list"
  fr_streams :: "(u64 \<times> u32) list"

definition buffer_secs :: "u64 \<times> buffer \<Rightarrow> rd_sec list" where
  "buffer_secs ab = [SecGpuaddr (fst ab) (word_of_nat (length (snd ab))), SecBufferContents (snd ab)]"

definition frame_secs :: "rd_frame \<Rightarrow> rd_sec list" where
  "frame_secs f =
     concat (map buffer_secs (fr_buffers f)) @ map (\<lambda>(a, n). SecCmdstreamAddr a n) (fr_streams f)"

definition frame_ok :: "rd_frame \<Rightarrow> bool" where
  "frame_ok f \<longleftrightarrow> fr_buffers f \<noteq> [] \<and> fr_streams f \<noteq> [] \<and>
     (\<forall>ab\<in>set (fr_buffers f). snd ab \<noteq> [] \<and> length (snd ab) < 2 ^ 32)"

definition captured_block :: "nat \<Rightarrow> u64 \<times> buffer \<Rightarrow> MemoryBlock" where
  "captured_block k ab =
     \<lparr>mb_va_addr = fst ab, mb_submit_index = word_of_nat k,
      mb_data_size = word_of_nat (length (snd ab)), mb_data = snd ab\<rparr>"

fun captured_blocks :: "nat \<Rightarrow> rd_frame list \<Rightarrow> MemoryBlock list" where
  "captured_blocks k [] = []"
| "captured_blocks k (f # fs) = map (captured_block k) (fr_buffers f) @ captured_blocks (Suc k) fs"

definition frame_submit :: "bool \<Rightarrow> rd_frame \<Rightarrow> SubmitInfo" where
  "frame_submit skip f = rd_submit (map (\<lambda>(a, n). rd_ib a n skip) (fr_streams f))"

definition add_blocks :: "MemoryBlock list \<Rightarrow> MemoryManager \<Rightarrow> MemoryManager" where
  "add_blocks bs mm =
     mm\<lparr>m_memory_blocks := m_memory_blocks mm @ bs,
        m_last_used_block_ptr := (if bs = [] then id else moved) (m_last_used_block_ptr mm)\<rparr>"

lemma moved_moved [simp]: "moved (moved p) = moved p"
  by (simp add: moved_def)

lemma add_blocks_add: "add_blocks ys (add_blocks xs mm) = add_blocks (xs @ ys) mm"
  by (simp add: add_blocks_def)

lemma sec_effects_append:
  "sec_effects env (xs @ ys) v =
     do { (r, v) \<leftarrow> sec_effects env xs v;
          case r of Some result \<Rightarrow> Some (Some result, v) | None \<Rightarrow> sec_effects env ys v }"
  by (induction xs arbitrary: v) (auto split: bind_split option.splits)

lemma secs_okI: "(\<And>s v. s \<in> set ss \<Longrightarrow> sec_ok s v) \<Longrightarrow> secs_ok env ss v"
  by (induction ss arbitrary: v) (auto split: option.splits)

lemma buffers_effect:
  assumes "\<forall>ab\<in>set bufs. snd ab \<noteq> [] \<and> length (snd ab) < 2 ^ 32"
  shows "\<exists>a n. sec_effects env (concat (map buffer_secs bufs)) v =
    Some (None, v\<lparr>cur_gpu_addr := a, cur_size := n, is_new_submit := is_new_submit v \<or> bufs \<noteq> [],
      capture := (capture v)\<lparr>m_memory :=
        add_blocks (map (captured_block (length (m_submits (capture v)))) bufs) (m_memory (capture v))\<rparr>\<rparr>)"
  using assms
proof (induction bufs arbitrary: v)
  case Nil
  then show ?case
    by (intro exI [of _ "cur_gpu_addr v"] exI [of _ "cur_size v"]) (simp add: add_blocks_def)
next
  case (Cons ab bufs)
  let ?v = "v\<lparr>cur_gpu_addr := fst ab, cur_size := word_of_nat (length (snd ab)), is_new_submit := True,
      capture := (capture v)\<lparr>m_memory :=
        add_blocks [captured_block (length (m_submits (capture v))) ab] (m_memory (capture v))\<rparr>\<rparr>"
  have "sec_effects env (buffer_secs ab) v = Some (None, ?v)"
    using Cons.prems by (simp add: buffer_secs_def unat_of_nat captured_block_def AddMemoryBlock_def
        add_blocks_def)
  moreover obtain a n where "sec_effects env (concat (map buffer_secs bufs)) ?v =
    Some (None, ?v\<lparr>cur_gpu_addr := a, cur_size := n, is_new_submit := is_new_submit ?v \<or> bufs \<noteq> [],
      capture := (capture ?v)\<lparr>m_memory :=
        add_blocks (map (captured_block (length (m_submits (capture ?v)))) bufs) (m_memory (capture ?v))\<rparr>\<rparr>)"
    using Cons.IH [of ?v] Cons.prems by auto
  ultimately show ?case
    by (intro exI [of _ a] exI [of _ n], cases "capture v")
      (simp add: sec_effects_append add_blocks_add)
qed

lemma more_streams_effect:
  assumes "\<not> is_new_submit v" "m_submits (capture v) = ss @ [rd_submit ibs]"
  shows "sec_effects env (map (\<lambda>(a, n). SecCmdstreamAddr a n) ans) v =
    Some (None, v\<lparr>capture := (capture v)\<lparr>m_submits :=
      ss @ [rd_submit (ibs @ map (\<lambda>(a, n). rd_ib a n (skip_commands v)) ans)]\<rparr>\<rparr>)"
  using assms
proof (induction ans arbitrary: v ibs)
  case Nil
  then show ?case by simp
next
  case (Cons an ans)
  then show ?case
    using Cons.IH [of "v\<lparr>capture := (capture v)\<lparr>m_submits :=
        ss @ [rd_submit (ibs @ [rd_ib (fst an) (snd an) (skip_commands v)])]\<rparr>\<rparr>"]
    by (cases an) (simp add: add_command_stream_def AppendIb_def rd_submit_def)
qed

lemma frame_effect:
  assumes "frame_ok f"
  shows "\<exists>a n. sec_effects env (frame_secs f) v =
    Some (None, v\<lparr>cur_gpu_addr := a, cur_size := n, is_new_submit := False,
      capture := (capture v)
        \<lparr>m_submits := m_submits (capture v) @ [frame_submit (skip_commands v) f],
         m_memory := add_blocks (map (captured_block (length (m_submits (capture v)))) (fr_buffers f))
           (m_memory (capture v))\<rparr>\<rparr>)"
proof -
  obtain x ns ans where streams: "fr_streams f = (x, ns) # ans"
    using assms by (cases "fr_streams f") (auto simp: frame_ok_def)
  obtain a n where "sec_effects env (concat (map buffer_secs (fr_buffers f))) v =
    Some (None, v\<lparr>cur_gpu_addr := a, cur_size := n, is_new_submit := True,
      capture := (capture v)\<lparr>m_memory :=
        add_blocks (map (captured_block (length (m_submits (capture v)))) (fr_buffers f))
          (m_memory (capture v))\<rparr>\<rparr>)"
    using buffers_effect [of "fr_buffers f" env v] assms by (auto simp: frame_ok_def)
  then show ?thesis
    using more_streams_effect [of "v\<lparr>cur_gpu_addr := a, cur_size := n, is_new_submit := False,
      capture := (capture v)
        \<lparr>m_submits := m_submits (capture v) @ [rd_submit [rd_ib x ns (skip_commands v)]],
         m_memory := add_blocks (map (captured_block (length (m_submits (capture v)))) (fr_buffers f))
           (m_memory (capture v))\<rparr>\<rparr>" "m_submits (capture v)" "[rd_ib x ns (skip_commands v)]" env ans]
    by (intro exI [of _ a] exI [of _ n], cases "capture v")
      (simp add: frame_secs_def sec_effects_append streams add_command_stream_def frame_submit_def)
qed

lemma frames_effect:
  assumes "\<forall>f\<in>set fs. frame_ok f"
  shows "\<exists>a n b. sec_effects env (concat (map frame_secs fs)) v =
    Some (None, v\<lparr>cur_gpu_addr := a, cur_size := n, is_new_submit := b,
      capture := (capture v)
        \<lparr>m_submits := m_submits (capture v) @ map (frame_submit (skip_commands v)) fs,
         m_memory := add_blocks (captured_blocks (length (m_submits (capture v))) fs)
           (m_memory (capture v))\<rparr>\<rparr>)"
  using assms
proof (induction fs arbitrary: v)
  case Nil
  then show ?case
    by (intro exI [of _ "cur_gpu_addr v"] exI [of _ "cur_size v"] exI [of _ "is_new_submit v"])
      (simp add: add_blocks_def)
next
  case (Cons f fs)
  obtain a n where f: "sec_effects env (frame_secs f) v =
    Some (None, v\<lparr>cur_gpu_addr := a, cur_size := n, is_new_submit := False,
      capture := (capture v)
        \<lparr>m_submits := m_submits (capture v) @ [frame_submit (skip_commands v) f],
         m_memory := add_blocks (map (captured_block (length (m_submits (capture v)))) (fr_buffers f))
           (m_memory (capture v))\<rparr>\<rparr>)" (is "_ = Some (None, ?v)")
    using frame_effect [of f env v] Cons.prems by auto
  obtain a' n' b where "sec_effects env (concat (map frame_secs fs)) ?v =
    Some (None, ?v\<lparr>cur_gpu_addr := a', cur_size := n', is_new_submit := b,
      capture := (capture ?v)
        \<lparr>m_submits := m_submits (capture ?v) @ map (frame_submit (skip_commands ?v)) fs,
         m_memory := add_blocks (captured_blocks (length (m_submits (capture ?v))) fs)
           (m_memory (capture ?v))\<rparr>\<rparr>)"
    using Cons.IH [of ?v] Cons.prems by auto
  then show ?case
    using f by (intro exI [of _ a'] exI [of _ n'] exI [of _ b], cases "capture v")
      (simp add: sec_effects_append add_blocks_add)
qed

lemma block_readable:
  assumes "mem_ok mm" "b \<in> set (m_memory_blocks mm)" "mb_data b \<noteq> []"
    and "length buf = length (mb_data b)"
  shows "\<exists>mm'. RetrieveMemoryData buf (mb_submit_index b) (mb_va_addr b) (ucast (mb_data_size b)) mm =
    Some (True, mb_data b, mm')"
proof -
  have bl: "blocks_ok mm"
    using assms(1) by (simp add: mem_ok_def)
  have b: "block_ok b"
    using bl assms(2) by (simp add: blocks_ok_def)
  obtain i where i: "i < length (m_memory_blocks mm)" "m_memory_blocks mm ! i = b"
    using assms(2) by (auto simp: in_set_conv_nth)
  have n: "unat (ucast (mb_data_size b) :: u64) = length (mb_data b)"
    using b by (simp add: block_ok_def unat_ucast_32_64)
  have bytes: "captured_bytes mm (mb_submit_index b) (mb_va_addr b) (ucast (mb_data_size b)) = Some (mb_data b)"
  proof (rule captured_bytesI)
    fix a
    assume "unat (mb_va_addr b) \<le> a" "a < unat (mb_va_addr b) + unat (ucast (mb_data_size b) :: u64)"
    then show "captured mm (mb_submit_index b) a = Some (mb_data b ! (a - unat (mb_va_addr b)))"
      using captured_nth [OF bl i(1), of "mb_submit_index b" a] i(2) n
      by (simp add: holds_def valid_submit_def blk_hi_def blk_lo_def)
  qed (simp add: n)
  have nonzero: "(ucast (mb_data_size b) :: u64) \<noteq> 0"
    using n assms(3) by (metis length_0_conv unsigned_0)
  have bound: "unat (mb_va_addr b) + unat (ucast (mb_data_size b) :: u64) < 2 ^ 64"
    using b n by (simp add: block_ok_def blk_hi_def blk_lo_def)
  have len: "length buf = unat (ucast (mb_data_size b) :: u64)"
    using n assms(4) by simp
  obtain ok buf' mm' where r: "RetrieveMemoryData buf (mb_submit_index b) (mb_va_addr b)
        (ucast (mb_data_size b)) mm = Some (ok, buf', mm')"
    and ok: "if ok then captured_bytes mm (mb_submit_index b) (mb_va_addr b) (ucast (mb_data_size b)) = Some buf'
      else captured_bytes mm (mb_submit_index b) (mb_va_addr b) (ucast (mb_data_size b)) = None"
    by (rule RetrieveMemoryData_correct [OF assms(1) bound nonzero len])
  have "ok" "buf' = mb_data b"
    using ok by (simp_all add: bytes split: if_splits)
  then show ?thesis
    using r by simp
qed

text \<open>
  The captured block at place \<open>i\<close> is kept: no earlier one of the same address and submit is larger, and
  no later one is at least as large.
\<close>

definition kept_at :: "MemoryBlock list \<Rightarrow> nat \<Rightarrow> bool" where
  "kept_at ms i \<longleftrightarrow> i < length ms \<and>
     (\<forall>j < i. block_key (ms ! j) = block_key (ms ! i) \<longrightarrow> mb_data_size (ms ! j) \<le> mb_data_size (ms ! i)) \<and>
     (\<forall>j. i < j \<and> j < length ms \<and> block_key (ms ! j) = block_key (ms ! i) \<longrightarrow>
        mb_data_size (ms ! j) < mb_data_size (ms ! i))"

lemma kept_at_snoc:
  "kept_at (ms @ [b]) i \<longleftrightarrow>
     i < length ms \<and> kept_at ms i \<and>
       (block_key b = block_key (ms ! i) \<longrightarrow> mb_data_size b < mb_data_size (ms ! i)) \<or>
     i = length ms \<and> (\<forall>c \<in> set ms. block_key c = block_key b \<longrightarrow> mb_data_size c \<le> mb_data_size b)"
proof (cases "i < length ms")
  case True
  then show ?thesis
    by (auto simp: kept_at_def nth_append less_Suc_eq)
next
  case False
  then show ?thesis
    by (auto simp: kept_at_def nth_append) (metis in_set_conv_nth)+
qed

lemma winner_kept: "winner ms k = Some c \<longleftrightarrow> (\<exists>i. kept_at ms i \<and> ms ! i = c \<and> block_key c = k)"
proof (induction ms arbitrary: c rule: rev_induct)
  case Nil
  then show ?case by (simp add: kept_at_def)
next
  case (snoc b ms)
  have old: "(\<exists>i. kept_at (ms @ [b]) i \<and> (ms @ [b]) ! i = c \<and> block_key c = k) \<longleftrightarrow>
      winner ms k = Some c \<and> (block_key b = k \<longrightarrow> mb_data_size b < mb_data_size c) \<or>
      c = b \<and> block_key b = k \<and> (\<forall>d \<in> set ms. block_key d = k \<longrightarrow> mb_data_size d \<le> mb_data_size b)"
    (is "?l \<longleftrightarrow> ?a \<or> ?b")
  proof
    assume ?l
    then obtain i where i: "kept_at (ms @ [b]) i" "(ms @ [b]) ! i = c" "block_key c = k"
      by blast
    from i(1) [unfolded kept_at_snoc] show "?a \<or> ?b"
    proof
      assume old: "i < length ms \<and> kept_at ms i \<and> (block_key b = block_key (ms ! i) \<longrightarrow> mb_data_size b < mb_data_size (ms ! i))"
      then have "ms ! i = c"
        using i(2) by (simp add: nth_append)
      then show ?thesis
        using old i(3) snoc.IH [of c] by auto
    next
      assume "i = length ms \<and> (\<forall>c \<in> set ms. block_key c = block_key b \<longrightarrow> mb_data_size c \<le> mb_data_size b)"
      then show ?thesis
        using i(2,3) by auto
    qed
  next
    assume "?a \<or> ?b"
    then show ?l
    proof
      assume a: ?a
      then obtain i where i: "kept_at ms i" "ms ! i = c" "block_key c = k"
        using snoc.IH [of c] by blast
      then have "i < length ms"
        by (simp add: kept_at_def)
      then show ?l
        using i a by (intro exI [of _ i]) (auto simp: kept_at_snoc nth_append)
    next
      assume ?b
      then show ?l
        by (intro exI [of _ "length ms"]) (auto simp: kept_at_snoc)
    qed
  qed
  show ?case
  proof (cases "block_key b = k")
    case True
    show ?thesis
    proof (cases "winner ms k")
      case None
      then show ?thesis
        unfolding old using True winner_None [of ms k] by (auto simp: winner_snoc larger_def)
    next
      case (Some d)
      then show ?thesis
        unfolding old using True winner_Some [OF Some] by (auto simp: winner_snoc larger_def not_le)
    qed
  next
    case False
    then show ?thesis
      unfolding old by (simp add: winner_snoc)
  qed
qed

lemma winners_kept: "winners ms = {ms ! i |i. kept_at ms i}"
  by (auto simp: winners_def winner_kept)

lemma kept_exists:
  assumes "b \<in> set ms"
  shows "\<exists>i. kept_at ms i \<and> block_key (ms ! i) = block_key b \<and> mb_data_size b \<le> mb_data_size (ms ! i)"
proof -
  obtain c where c: "winner ms (block_key b) = Some c"
    using winner_None [of ms "block_key b"] assms by auto
  then show ?thesis
    using winner_kept [of ms "block_key b" c] winner_Some [OF c] assms by auto
qed

lemma rd_capture_loads:
  assumes laws: "archive_laws env rest" "fresh_laws env" and frames: "\<forall>f\<in>set fs. frame_ok f"
    and blocks: "capture_ok (captured_blocks 0 fs)"
    and pss: "map snd pss = concat (map frame_secs fs)" "rest h = concat (map encode_sec pss)"
  shows "\<exists>cd. LoadAdrenoRdFile env name (Some h) Pm4CaptureData_new = Some (kSuccess, cd) \<and>
    m_submits cd = map (frame_submit False) fs \<and> mem_ok (m_memory cd) \<and>
    set (m_memory_blocks (m_memory cd)) = winners (captured_blocks 0 fs)"
proof -
  obtain v where v: "sec_effects env (map snd pss) (rd_vars_new Pm4CaptureData_new) = Some (None, v)"
      "m_submits (capture v) = map (frame_submit False) fs"
      "m_memory_blocks (m_memory (capture v)) = captured_blocks 0 fs"
      "m_last_used_block_ptr (m_memory (capture v)) = null_block"
    using frames_effect [OF frames, of env "rd_vars_new Pm4CaptureData_new"]
    by (auto simp: pss(1) rd_vars_new_def Pm4CaptureData_new_def MemoryManager_new_def add_blocks_def
        moved_def)
  have ok: "secs_ok env (map snd pss) (rd_vars_new Pm4CaptureData_new)"
  proof (rule secs_okI)
    fix s and w :: rd_vars
    assume "s \<in> set (map snd pss)"
    then show "sec_ok s w"
      using frames unfolding pss(1)
      by (force simp: frame_secs_def buffer_secs_def sec_fits_def frame_ok_def)
  qed
  have "rest h = concat (map encode_sec pss) @ concat (replicate 0 padding)"
    by (simp add: pss(2))
  from rd_sections_loaded [OF laws ok this, of name]
  have load: "LoadAdrenoRdFile env name (Some h) Pm4CaptureData_new = do {
      mm \<leftarrow> MemoryManager_Finalize (rd_debug env) True True (m_memory (capture v));
      Some (kSuccess, (capture v)\<lparr>m_memory := mm, m_cur_capture_file := name\<rparr>) }"
    by (simp add: v(1))
  obtain mm where mm: "MemoryManager_Finalize (rd_debug env) True True (m_memory (capture v)) = Some mm"
      "blocks_ok mm" "set (m_memory_blocks mm) = winners (captured_blocks 0 fs)"
      "m_last_used_block_ptr mm = null_block"
    using Finalize_same_submit [of "m_memory (capture v)" "rd_debug env" True] blocks v(3,4)
    by (auto simp: moved_def)
  then have "mem_ok mm"
    by (simp add: mem_ok_def ptr_ok_def)
  then show ?thesis
    using load mm v(2) by simp
qed

section \<open>The chip id of a file that has a GPU id\<close>

text \<open>
  The eight bytes of a chip id that are taken for a header do no harm as long as their low half is not a
  section type, and load the wrong section otherwise.
\<close>

lemma chip_id_misread:
  assumes laws: "archive_laws env rest" and len: "length block_info = 8"
    and known: "\<not> chip_wanted v" and h: "rest h = encode_sec (0, SecChipId 2) @ r"
  shows "\<exists>v'. rd_loop env block_info h v = Some (Some kFileIoError, v')"
proof -
  have halves: "low_half 2 = RD_CMD" "high_half 2 = 0"
    by (simp_all add: low_half_def high_half_def RD_CMD_def)
  have h0: "rest h = concat (replicate 0 padding) @ le32_bytes RD_CHIP_ID @ le32_bytes 8 @ (le32_bytes RD_CMD @ le32_bytes 0 @ r)"
    using h by (simp add: encode_sec_def halves RD_CMD_def)
  obtain h1 where "rest h1 = le32_bytes RD_CMD @ le32_bytes 0 @ r"
    and step1: "rd_loop env block_info h v = rd_loop env (le32_bytes RD_CHIP_ID @ le32_bytes 8) h1 v"
    by (rule rd_loop_header [OF laws _ h0 len, of v]) (use known in \<open>simp_all add: rd_section_def chip_wanted_def\<close>)
  then have h1: "rest h1 = concat (replicate 0 padding) @ le32_bytes RD_CMD @ le32_bytes 0 @ r"
    by simp
  obtain h2 where "rest h2 = r"
    and step2: "rd_loop env (le32_bytes RD_CHIP_ID @ le32_bytes 8) h1 v =
      do { (result, h, v) \<leftarrow> rd_section env RD_CMD 0 h2 v;
           case result of Some result \<Rightarrow> Some (Some result, v)
           | None \<Rightarrow> rd_loop env (le32_bytes RD_CMD @ le32_bytes 0) h v }"
    by (rule rd_loop_header [OF laws _ h1, of "le32_bytes RD_CHIP_ID @ le32_bytes 8" v]) auto
  have "FileReader_Read env 0 h2 = (0, [], h2)"
    by (simp add: FileReader_Read_def read_loop.simps)
  then show ?thesis
    using step1 step2 by (simp add: rd_section_def)
qed

section \<open>A file in memory\<close>

text \<open>An archive that delivers at most three bytes at a time, and a capture, for concrete runs.\<close>

definition memory_archive :: "buffer rd_env" where
  "memory_archive =
     \<lparr>rd_debug = True, archive_read_data = (\<lambda>n h. (Inr (take (min n 3) h), drop (min n 3) h)),
      fresh_array = (\<lambda>n. replicate n 0xcd), fd_dev_chip = (\<lambda>i. 0)\<rparr>"

lemma memory_archive_laws: "archive_laws memory_archive (\<lambda>h. h)" "fresh_laws memory_archive"
  by (auto simp: memory_archive_def archive_laws_def fresh_laws_def)

definition sample_frames :: "rd_frame list" where
  "sample_frames =
     [\<lparr>fr_buffers = [(0x1000, [1, 2, 3, 4])], fr_streams = [(0x1000, 1)]\<rparr>,
      \<lparr>fr_buffers = [(0x1000, [5, 6]), (0x2000, [7]), (0x1000, [8, 9, 10]), (0x2000, [11])],
       fr_streams = [(0x1000, 1), (0x2000, 1)]\<rparr>]"

end
