(* ===== verification/Pm4_Dive_Loading.thy ===== *)
theory Pm4_Dive_Loading
  imports Pm4_Rd_Loading
begin

text \<open>
  Loading a \<^verbatim>\<open>.dive\<close> capture (\<^verbatim>\<open>src/dive_core/pm4_capture_data.cpp\<close>, the format of
  \<^verbatim>\<open>common/dive_capture_format.h\<close>): the blocks of the file with their loaders, the version checks,
  \<^verbatim>\<open>Finalize\<close>, and the choice between the two formats by the extension of the file.

  Structures are read as their bytes in memory: little-endian fields at the offsets the ABI gives
  them. An input stream is the bytes of the file, the position, and whether the stream is good: a read
  that comes up short takes what is left and ends the stream. \<open>None\<close> is a failed assertion of a debug
  build, or a loop that does not end.
\<close>

section \<open>Input streams\<close>

record istream =
  in_bytes :: buffer
  in_pos :: nat
  in_good :: bool

definition in_rest :: "istream \<Rightarrow> buffer" where
  "in_rest s = drop (in_pos s) (in_bytes s)"

definition istream_read :: "nat \<Rightarrow> istream \<Rightarrow> bool \<times> buffer \<times> istream" where
  "istream_read n s =
     (if \<not> in_good s then (False, [], s)
      else if n \<le> length (in_rest s) then (True, take n (in_rest s), s\<lparr>in_pos := in_pos s + n\<rparr>)
      else (False, in_rest s, s\<lparr>in_pos := in_pos s + length (in_rest s), in_good := False\<rparr>))"

text \<open>\<^verbatim>\<open>std::getline\<close> up to a null character; the end of the file ends a line that is not empty.\<close>

definition istream_getline :: "istream \<Rightarrow> bool \<times> buffer \<times> istream" where
  "istream_getline s =
     (if \<not> in_good s then (False, [], s)
      else
        (let line = takeWhile (\<lambda>b. b \<noteq> 0) (in_rest s) in
         if length line < length (in_rest s) then (True, line, s\<lparr>in_pos := in_pos s + length line + 1\<rparr>)
         else (line \<noteq> [], line, s\<lparr>in_pos := in_pos s + length line, in_good := False\<rparr>)))"

text \<open>\<^verbatim>\<open>seekg\<close> from the current position; the offset is signed.\<close>

definition istream_seekg :: "u64 \<Rightarrow> istream \<Rightarrow> istream" where
  "istream_seekg offset s =
     (let target = int (in_pos s) + sint offset in
      if \<not> in_good s then s
      else if target < 0 then s\<lparr>in_good := False\<rparr>
      else s\<lparr>in_pos := nat target\<rparr>)"

section \<open>Fields\<close>

definition le16 :: "buffer \<Rightarrow> u16" where
  "le16 bs = ucast (bs ! 0) OR push_bit 8 (ucast (bs ! 1))"

definition le64 :: "buffer \<Rightarrow> u64" where
  "le64 bs = ucast (le32 bs) OR push_bit 32 (ucast (le32 (drop 4 bs)))"

fun le32_array :: "nat \<Rightarrow> buffer \<Rightarrow> u32 list" where
  "le32_array 0 bs = []"
| "le32_array (Suc n) bs = le32 bs # le32_array n (drop 4 bs)"

definition four_cc :: "string \<Rightarrow> u32" where
  "four_cc s = le32 (map byte_of_char s)"

definition kDiveFileId :: u32 where "kDiveFileId = four_cc ''DIVE''"
definition kDiveFileVersion :: u32 where "kDiveFileVersion = 1"

definition block_kCapture :: u32 where "block_kCapture = four_cc ''CAPT''"
definition block_kMemoryAlloc :: u32 where "block_kMemoryAlloc = four_cc ''ALLC''"
definition block_kSubmit :: u32 where "block_kSubmit = four_cc ''SUBM''"
definition block_kMemoryRaw :: u32 where "block_kMemoryRaw = four_cc ''MEMR''"
definition block_kPresent :: u32 where "block_kPresent = four_cc ''PRST''"
definition block_kText :: u32 where "block_kText = four_cc ''TEXT''"
definition block_kRegisters :: u32 where "block_kRegisters = four_cc ''REGS''"
definition block_kWaveState :: u32 where "block_kWaveState = four_cc ''WAVE''"
definition block_kVulkanMetadata :: u32 where "block_kVulkanMetadata = four_cc ''VULK''"

definition kMaxNumMemAlloc :: nat where "kMaxNumMemAlloc = 6291456"
definition kMaxMemAllocSize :: nat where "kMaxMemAllocSize = 2 ^ 30"
definition kMaxStrLen :: nat where "kMaxStrLen = 100 * 2 ^ 20"
definition kMaxNumWavesPerBlock :: nat where "kMaxNumWavesPerBlock = 2 ^ 20"
definition kMaxNumSGPRPerWave :: nat where "kMaxNumSGPRPerWave = 2 ^ 20"
definition kMaxNumVGPRPerWave :: nat where "kMaxNumVGPRPerWave = 2 ^ 20"

definition sizeof_BlockInfo :: nat where "sizeof_BlockInfo = 16"
definition sizeof_CaptureDataHeader :: nat where "sizeof_CaptureDataHeader = 32"
definition sizeof_MemoryAllocationData :: nat where "sizeof_MemoryAllocationData = 56"

section \<open>Loaders of blocks\<close>

type_synonym loader = "istream \<Rightarrow> Pm4CaptureData \<Rightarrow> (bool \<times> istream \<times> Pm4CaptureData) option"

text \<open>\<^verbatim>\<open>if (!capture_file.read(...)) return false;\<close>\<close>

definition read_or_fail :: "nat \<Rightarrow> (buffer \<Rightarrow> loader) \<Rightarrow> loader" where
  "read_or_fail n k s cd =
     (case istream_read n s of
        (False, bs, s) \<Rightarrow> Some (False, s, cd)
      | (True, bs, s) \<Rightarrow> k bs s cd)"

definition line_or_fail :: "(buffer \<Rightarrow> loader) \<Rightarrow> loader" where
  "line_or_fail k s cd =
     (case istream_getline s of
        (False, line, s) \<Rightarrow> Some (False, s, cd)
      | (True, line, s) \<Rightarrow> k line s cd)"

definition allocation_of :: "buffer \<Rightarrow> MemoryAllocationData" where
  "allocation_of bs = \<lparr>ma_gpu_virt_addr = le64 bs, ma_size = le64 (drop 8 bs)\<rparr>"

fun allocations_of :: "nat \<Rightarrow> buffer \<Rightarrow> MemoryAllocationData list" where
  "allocations_of 0 bs = []"
| "allocations_of (Suc n) bs =
     allocation_of bs # allocations_of n (drop sizeof_MemoryAllocationData bs)"

definition allocations_type :: "u32 \<Rightarrow> MemoryAllocationsType" where
  "allocations_type t = (if t = 0 then kInternalAllocs else if t = 1 then kGlobalAllocs else kOtherAllocs)"

text \<open>\<^verbatim>\<open>allocations[0]\<close> asserts that there is one.\<close>

definition LoadMemoryAllocBlock :: "bool \<Rightarrow> loader" where
  "LoadMemoryAllocBlock debug =
     read_or_fail 8 (\<lambda>header s cd.
       let n = unat (le32 header) in
       if n > kMaxNumMemAlloc then Some (False, s, cd)
       else do {
         DIVE_ASSERT debug (n > 0);
         read_or_fail (n * sizeof_MemoryAllocationData) (\<lambda>bs s cd. do {
             mm \<leftarrow> MemoryManager_AddMemoryAllocations debug (allocations_type (le32 (drop 4 header)))
                     (allocations_of n bs) (m_memory cd);
             Some (True, s, cd\<lparr>m_memory := mm\<rparr>)
           }) s cd
       })"

definition ib_of :: "buffer \<Rightarrow> IndirectBufferInfo" where
  "ib_of bs = rd_ib (le64 bs) (le32 (drop 8 bs)) False"

fun load_ibs :: "nat \<Rightarrow> (IndirectBufferInfo list \<Rightarrow> loader) \<Rightarrow> IndirectBufferInfo list \<Rightarrow> loader" where
  "load_ibs 0 k ibs = k ibs"
| "load_ibs (Suc n) k ibs = read_or_fail 16 (\<lambda>bs. load_ibs n k (ibs @ [ib_of bs]))"

text \<open>Enumerators by their number; a number without enumerator is only known to be none of them.\<close>

definition engine_type_of :: "byte \<Rightarrow> EngineType" where
  "engine_type_of b =
     (if b = 0 then EngineType_kUniversal else if b = 1 then EngineType_kCompute
      else if b = 2 then EngineType_kDma else if b = 3 then EngineType_kTimer
      else if b = 4 then EngineType_kOther else if b = 5 then EngineType_kNone
      else EngineType_kCount)"

definition queue_type_of :: "byte \<Rightarrow> QueueType" where
  "queue_type_of b =
     (if b = 0 then QueueType_kUniversal else if b = 1 then QueueType_kCompute
      else if b = 2 then QueueType_kDma else if b = 3 then QueueType_kTimer
      else if b = 4 then QueueType_kOther else if b = 5 then QueueType_kNone
      else QueueType_kCount)"

definition submit_of :: "buffer \<Rightarrow> IndirectBufferInfo list \<Rightarrow> SubmitInfo" where
  "submit_of header ibs =
     \<lparr>m_engine_type = engine_type_of (header ! 2), m_queue_type = queue_type_of (header ! 3),
      m_engine_index = ucast (le16 (drop 4 header) AND 7), m_is_dummy_submit = bit (header ! 1) 7,
      m_ibs = ibs\<rparr>"

definition LoadSubmitBlock :: loader where
  "LoadSubmitBlock =
     read_or_fail 6 (\<lambda>header.
       load_ibs (unat (header ! 0))
         (\<lambda>ibs s cd. Some (True, s, cd\<lparr>m_submits := m_submits cd @ [submit_of header ibs]\<rparr>)) [])"

text \<open>A block before any submit gets the index \<^verbatim>\<open>0xffffffff\<close>.\<close>

definition LoadMemoryBlock :: loader where
  "LoadMemoryBlock =
     read_or_fail 16 (\<lambda>header s cd.
       let size_in_bytes = le32 (drop 8 header) in
       if unat size_in_bytes > kMaxMemAllocSize then Some (False, s, cd)
       else read_or_fail (unat size_in_bytes) (\<lambda>bs s cd.
         Some (True, s,
           cd\<lparr>m_memory := AddMemoryBlock (word_of_nat (length (m_submits cd)) - 1) (le64 header)
                \<lparr>md_data_size = size_in_bytes, md_data = bs\<rparr> (m_memory cd)\<rparr>)) s cd)"

definition present_of :: "u32 \<Rightarrow> buffer \<Rightarrow> PresentInfo" where
  "present_of submit_index bs =
     (if bit (bs ! 0) 0
      then \<lparr>p_valid_data = True, p_submit_index = submit_index,
            p_engine_type = drop_bit 1 (bs ! 0) AND 7, p_queue_type = drop_bit 4 (bs ! 0) AND 3,
            p_full_screen = bit (bs ! 0) 6, p_addr = le64 (drop 8 bs), p_size = le64 (drop 16 bs),
            p_vk_format = le32 (drop 24 bs), p_vk_color_space = le32 (drop 28 bs)\<rparr>
      else PresentInfo_new)"

definition LoadPresentBlock :: loader where
  "LoadPresentBlock =
     read_or_fail 32 (\<lambda>bs s cd.
       Some (True, s,
         cd\<lparr>m_presents := m_presents cd @ [present_of (word_of_nat (length (m_submits cd)) - 1) bs]\<rparr>))"

definition LoadTextBlock :: loader where
  "LoadTextBlock =
     read_or_fail 24 (\<lambda>header s cd.
       if unat (le32 header) > kMaxStrLen \<or> unat (le64 (drop 8 header)) > kMaxMemAllocSize
       then Some (False, s, cd)
       else line_or_fail (\<lambda>name.
         read_or_fail (unat (le64 (drop 8 header))) (\<lambda>text s cd.
           Some (True, s,
             cd\<lparr>m_text := m_text cd @
                  [\<lparr>t_name = name, t_size = le64 (drop 8 header), t_text = text\<rparr>]\<rparr>))) s cd)"

text \<open>An array of registers; none are read when it is empty.\<close>

definition read_words :: "nat \<Rightarrow> (u32 list \<Rightarrow> loader) \<Rightarrow> loader" where
  "read_words n k =
     (if n > 0 then read_or_fail (n * 4) (\<lambda>bs. k (le32_array n bs)) else k [])"

definition captured_ttmps :: "CaptureDataHeader \<Rightarrow> u32 \<Rightarrow> bool" where
  "captured_ttmps h wave_status \<longleftrightarrow>
     \<not> (h_major_version h = 0 \<and> h_minor_version h \<le> 3 \<and> h_revision h < 11) \<and> bit wave_status 6"

fun load_waves :: "bool \<Rightarrow> CaptureDataHeader \<Rightarrow> nat \<Rightarrow> WaveStateInfo list \<Rightarrow> loader" where
  "load_waves debug h 0 waves = (\<lambda>s cd. Some (True, s, cd\<lparr>m_waves := waves\<rparr>))"
| "load_waves debug h (Suc n) waves =
     read_or_fail 84 (\<lambda>bs s cd.
       let state = le32_array 21 bs; num_threads = state ! 0;
           num_sgprs = unat (state ! 1); num_vgprs = unat (state ! 2) in
       do {
         DIVE_ASSERT debug (num_threads = 64);
         DIVE_ASSERT debug (state ! 2 mod num_threads = 0);
         if num_sgprs > kMaxNumSGPRPerWave \<or> num_vgprs > kMaxNumVGPRPerWave then Some (False, s, cd)
         else
           read_words num_sgprs (\<lambda>sgprs. read_words num_vgprs (\<lambda>vgprs.
             read_words (if captured_ttmps h (state ! 4) then 16 else 0) (\<lambda>ttmps.
               load_waves debug h n
                 (waves @ [\<lparr>w_state = state, w_sgprs = sgprs, w_vgprs = vgprs, w_ttmps = ttmps\<rparr>])))) s cd
       })"

definition LoadWaveStateBlock :: "bool \<Rightarrow> CaptureDataHeader \<Rightarrow> loader" where
  "LoadWaveStateBlock debug h s cd =
     do {
       DIVE_ASSERT debug (m_waves cd = []);
       read_or_fail 16 (\<lambda>header s cd.
         if unat (le32 header) > kMaxNumWavesPerBlock then Some (False, s, cd)
         else load_waves debug h (unat (le32 header)) [] s cd) s cd
     }"

text \<open>\<^verbatim>\<open>emplace\<close> keeps the first value of a name.\<close>

fun load_registers :: "nat \<Rightarrow> (buffer \<rightharpoonup> u32) \<Rightarrow> loader" where
  "load_registers 0 regs = (\<lambda>s cd. Some (True, s, cd\<lparr>m_registers := regs\<rparr>))"
| "load_registers (Suc n) regs =
     line_or_fail (\<lambda>name. read_or_fail 4 (\<lambda>bs.
       load_registers n (if regs name = None then regs(name \<mapsto> le32 bs) else regs)))"

definition LoadRegisterBlock :: "bool \<Rightarrow> loader" where
  "LoadRegisterBlock debug s cd =
     do {
       DIVE_ASSERT debug (m_registers cd = Map.empty);
       read_or_fail 16 (\<lambda>header. load_registers (unat (le32 header)) Map.empty) s cd
     }"

definition LoadVulkanMetaDataBlock :: loader where
  "LoadVulkanMetaDataBlock s cd = Some (True, s, cd)"

section \<open>The file\<close>

definition data_header_of :: "buffer \<Rightarrow> CaptureDataHeader" where
  "data_header_of bs =
     \<lparr>h_major_version = le16 bs, h_minor_version = le16 (drop 2 bs), h_revision = le16 (drop 4 bs),
      h_capture_type = bs ! 6, h_flags = le32 (drop 12 bs)\<rparr>"

definition incompatible_version :: "CaptureDataHeader \<Rightarrow> bool" where
  "incompatible_version h \<longleftrightarrow>
     h_major_version h \<noteq> kCaptureMajorVersion \<or> h_minor_version h > kCaptureMinorVersion \<or>
     (h_major_version h = 0 \<and> (h_minor_version h = 1 \<or> h_minor_version h = 2))"

definition later_capture :: "CaptureDataHeader \<Rightarrow> bool" where
  "later_capture h \<longleftrightarrow>
     h_major_version h > kCaptureMajorVersion \<or>
     (h_major_version h = kCaptureMajorVersion \<and> h_minor_version h > kCaptureMinorVersion) \<or>
     (h_major_version h = kCaptureMajorVersion \<and> h_minor_version h = kCaptureMinorVersion \<and>
      h_revision h > kCaptureRevision)"

definition Pm4CaptureData_Finalize :: "bool \<Rightarrow> CaptureDataHeader \<Rightarrow> Pm4CaptureData \<Rightarrow> Pm4CaptureData option" where
  "Pm4CaptureData_Finalize debug h cd =
     (let duplicate_ib_capture =
            (h_major_version h = 0 \<and>
             (h_minor_version h < 3 \<or> (h_minor_version h = 3 \<and> h_revision h < 2)))
      in map_option (\<lambda>mm. cd\<lparr>m_memory := mm\<rparr>)
           (MemoryManager_Finalize debug (h_reset_memory_tracker h) duplicate_ib_capture (m_memory cd)))"

text \<open>The switch of \<^verbatim>\<open>LoadCapture\<close>; a block of a later revision is skipped.\<close>

definition load_block :: "bool \<Rightarrow> CaptureDataHeader \<Rightarrow> buffer \<Rightarrow> loader" where
  "load_block debug h info s cd =
     (let t = le32 info in
      if t = block_kMemoryAlloc then LoadMemoryAllocBlock debug s cd
      else if t = block_kSubmit then LoadSubmitBlock s cd
      else if t = block_kMemoryRaw then LoadMemoryBlock s cd
      else if t = block_kPresent then LoadPresentBlock s cd
      else if t = block_kWaveState then LoadWaveStateBlock debug h s cd
      else if t = block_kText then LoadTextBlock s cd
      else if t = block_kRegisters then LoadRegisterBlock debug s cd
      else if t = block_kVulkanMetadata then LoadVulkanMetaDataBlock s cd
      else if \<not> later_capture h then do { DIVE_ASSERT debug False; Some (False, s, cd) }
      else Some (True, istream_seekg (le64 (drop 8 info)) s, cd))"

partial_function (option) load_blocks_loop :: "bool \<Rightarrow> CaptureDataHeader \<Rightarrow> loader" where
  "load_blocks_loop debug h s cd =
     (case istream_read sizeof_BlockInfo s of
        (more_blocks, info, s) \<Rightarrow>
          if \<not> more_blocks then Some (True, s, cd)
          else do {
            (ok, s, cd) \<leftarrow> load_block debug h info s cd;
            if \<not> ok then Some (False, s, cd) else load_blocks_loop debug h s cd
          })"

definition LoadCapture :: "bool \<Rightarrow> CaptureDataHeader \<Rightarrow> loader" where
  "LoadCapture debug h s cd =
     do {
       (ok, s, cd) \<leftarrow> load_blocks_loop debug h s cd;
       if \<not> ok then Some (False, s, cd)
       else do { cd \<leftarrow> Pm4CaptureData_Finalize debug h cd; Some (True, s, cd) }
     }"

text \<open>
  The result of reading the metadata of a capture block is not looked at: what the stream did not
  deliver of it keeps the value it was reset to.
\<close>

definition data_header_bytes :: "CaptureDataHeader \<Rightarrow> buffer" where
  "data_header_bytes h =
     [ucast (h_major_version h), ucast (drop_bit 8 (h_major_version h)),
      ucast (h_minor_version h), ucast (drop_bit 8 (h_minor_version h)),
      ucast (h_revision h), ucast (drop_bit 8 (h_revision h)), h_capture_type h, 0, 0, 0, 0, 0] @
     le32_bytes (h_flags h) @ replicate 16 0"

partial_function (option) capture_stream_loop ::
    "bool \<Rightarrow> istream \<Rightarrow> Pm4CaptureData \<Rightarrow> (LoadResult \<times> Pm4CaptureData) option" where
  "capture_stream_loop debug s cd =
     (case istream_read sizeof_BlockInfo s of
        (more_blocks, info, s) \<Rightarrow>
          if \<not> more_blocks then Some (kSuccess, cd)
          else if le32 info = block_kCapture
          then
            (case istream_read sizeof_CaptureDataHeader s of
               (ok, bs, s) \<Rightarrow>
                 (let h = data_header_of (overwrite (data_header_bytes CaptureDataHeader_new) bs);
                      cd = cd\<lparr>m_data_header := h\<rparr> in
                  if incompatible_version h then Some (kVersionError, cd)
                  else do {
                    (ok, s, cd) \<leftarrow> LoadCapture debug h s (cd\<lparr>m_capture_type := h_capture_type h\<rparr>);
                    if \<not> ok then Some (kCorruptData, cd) else capture_stream_loop debug s cd
                  }))
          else do { DIVE_ASSERT debug False; Some (kCorruptData, cd) })"

definition LoadCaptureFileStream ::
    "bool \<Rightarrow> istream \<Rightarrow> Pm4CaptureData \<Rightarrow> (LoadResult \<times> Pm4CaptureData) option" where
  "LoadCaptureFileStream debug s cd =
     (case istream_read 8 s of
        (False, bs, s) \<Rightarrow> Some (kFileIoError, cd)
      | (True, file_header, s) \<Rightarrow>
          if le32 file_header \<noteq> kDiveFileId then Some (kCorruptData, cd)
          else if le32 (drop 4 file_header) \<noteq> kDiveFileVersion then Some (kVersionError, cd)
          else capture_stream_loop debug s cd)"

definition LoadDiveFile ::
    "bool \<Rightarrow> string \<Rightarrow> buffer option \<Rightarrow> Pm4CaptureData \<Rightarrow> (LoadResult \<times> Pm4CaptureData) option" where
  "LoadDiveFile debug file_name content cd =
     (case content of
        None \<Rightarrow> Some (kFileIoError, cd)
      | Some bytes \<Rightarrow> do {
          (result, cd) \<leftarrow> LoadCaptureFileStream debug \<lparr>in_bytes = bytes, in_pos = 0, in_good = True\<rparr> cd;
          Some (result, if result = kSuccess then cd\<lparr>m_cur_capture_file := file_name\<rparr> else cd)
        })"

text \<open>\<^verbatim>\<open>std::filesystem::path::extension\<close> on a path with \<open>/\<close> between its parts.\<close>

definition path_filename :: "string \<Rightarrow> string" where
  "path_filename p = rev (takeWhile (\<lambda>c. c \<noteq> CHR ''/'') (rev p))"

definition path_extension :: "string \<Rightarrow> string" where
  "path_extension p =
     (let f = path_filename p; ext = rev (takeWhile (\<lambda>c. c \<noteq> CHR ''.'') (rev f)) in
      if f = ''.'' \<or> f = ''..'' \<or> length ext + 1 \<ge> length f then [] else CHR ''.'' # ext)"

text \<open>The file is given by its content for the stream and by its reader for the archive library.\<close>

definition LoadCaptureFile ::
    "'h rd_env \<Rightarrow> string \<Rightarrow> buffer option \<Rightarrow> 'h option \<Rightarrow> Pm4CaptureData \<Rightarrow>
     (LoadResult \<times> Pm4CaptureData) option" where
  "LoadCaptureFile env file_name content reader cd =
     (if path_extension file_name = ''.dive'' then LoadDiveFile (rd_debug env) file_name content cd
      else if path_extension file_name = ''.rd'' then LoadAdrenoRdFile env file_name reader cd
      else Some (kCorruptData, cd))"

section \<open>Reading what was written\<close>

definition stream_at :: "istream \<Rightarrow> buffer \<Rightarrow> bool" where
  "stream_at s r \<longleftrightarrow> in_good s \<and> in_rest s = r"

lemma in_rest_advance [simp]: "in_rest (s\<lparr>in_pos := in_pos s + n\<rparr>) = drop n (in_rest s)"
  by (simp add: in_rest_def add.commute)

lemma read_prefix:
  assumes "stream_at s (bs @ r)" "length bs = n"
  obtains s' where "istream_read n s = (True, bs, s')" "stream_at s' r"
  using that [of "s\<lparr>in_pos := in_pos s + n\<rparr>"] assms
  by (simp add: istream_read_def stream_at_def)

lemma read_or_fail_prefix:
  assumes "stream_at s (bs @ r)" "length bs = n"
  shows "\<exists>s'. read_or_fail n k s cd = k bs s' cd \<and> stream_at s' r"
proof -
  obtain s' where "istream_read n s = (True, bs, s')" "stream_at s' r"
    by (rule read_prefix [OF assms])
  then show ?thesis
    by (auto simp: read_or_fail_def)
qed

lemma takeWhile_line: "0 \<notin> set line \<Longrightarrow> takeWhile (\<lambda>b. b \<noteq> 0) (line @ 0 # r) = (line :: buffer)"
  by (induction line) auto

lemma line_or_fail_prefix:
  assumes "stream_at s (line @ 0 # r)" "0 \<notin> set line"
  shows "\<exists>s'. line_or_fail k s cd = k line s' cd \<and> stream_at s' r"
proof -
  have "stream_at (s\<lparr>in_pos := in_pos s + length line + 1\<rparr>) r"
    using assms(1) in_rest_advance [of s "length line + 1"] by (simp add: stream_at_def add.assoc)
  moreover have "istream_getline s = (True, line, s\<lparr>in_pos := in_pos s + length line + 1\<rparr>)"
    using assms by (simp add: istream_getline_def stream_at_def takeWhile_line)
  ultimately show ?thesis
    by (auto simp: line_or_fail_def)
qed

definition le64_bytes :: "u64 \<Rightarrow> buffer" where
  "le64_bytes a = le32_bytes (low_half a) @ le32_bytes (high_half a)"

lemma length_le64_bytes [simp]: "length (le64_bytes a) = 8"
  by (simp add: le64_bytes_def)

lemma le64_append [simp]: "le64 (le64_bytes a @ r) = a"
  by (simp add: le64_def le64_bytes_def le32_append)

lemma le32_append_bytes [simp]: "le32 (le32_bytes w @ r) = w"
  by (simp add: le32_append)

subsection \<open>Blocks\<close>

text \<open>
  All blocks of the format. The loader of Vulkan metadata reads nothing, whatever size the header of the
  block gives, so that only the header is a block and what follows is the next one. A block of a type
  that a later revision has added is skipped by its size.
\<close>

datatype dive_block =
    DSubmit EngineType QueueType byte bool "(u64 \<times> u32) list"
  | DMemory u64 buffer
  | DText buffer buffer
  | DRegisters "(buffer \<times> u32) list"
  | DAlloc u32 "MemoryAllocationData list"
  | DPresent buffer
  | DWaves "WaveStateInfo list"
  | DVulkan nat
  | DLater u32 buffer

fun engine_byte :: "EngineType \<Rightarrow> byte" where
  "engine_byte EngineType_kUniversal = 0" | "engine_byte EngineType_kCompute = 1"
| "engine_byte EngineType_kDma = 2" | "engine_byte EngineType_kTimer = 3"
| "engine_byte EngineType_kOther = 4" | "engine_byte EngineType_kNone = 5"
| "engine_byte EngineType_kCount = 6"

fun queue_byte :: "QueueType \<Rightarrow> byte" where
  "queue_byte QueueType_kUniversal = 0" | "queue_byte QueueType_kCompute = 1"
| "queue_byte QueueType_kDma = 2" | "queue_byte QueueType_kTimer = 3"
| "queue_byte QueueType_kOther = 4" | "queue_byte QueueType_kNone = 5"
| "queue_byte QueueType_kCount = 6"

definition ib_bytes :: "u64 \<times> u32 \<Rightarrow> buffer" where
  "ib_bytes an = le64_bytes (fst an) @ le32_bytes (snd an) @ [0, 0, 0, 0]"

definition register_bytes :: "buffer \<times> u32 \<Rightarrow> buffer" where
  "register_bytes nv = fst nv @ 0 # le32_bytes (snd nv)"

definition allocation_bytes :: "MemoryAllocationData \<Rightarrow> buffer" where
  "allocation_bytes a = le64_bytes (ma_gpu_virt_addr a) @ le64_bytes (ma_size a) @ replicate 40 0"

definition words_bytes :: "u32 list \<Rightarrow> buffer" where
  "words_bytes ws = concat (map le32_bytes ws)"

definition wave_bytes :: "WaveStateInfo \<Rightarrow> buffer" where
  "wave_bytes w = words_bytes (w_state w) @ words_bytes (w_sgprs w) @ words_bytes (w_vgprs w) @ words_bytes (w_ttmps w)"

fun block_type_code :: "dive_block \<Rightarrow> u32" where
  "block_type_code (DSubmit _ _ _ _ _) = block_kSubmit"
| "block_type_code (DMemory _ _) = block_kMemoryRaw"
| "block_type_code (DText _ _) = block_kText"
| "block_type_code (DRegisters _) = block_kRegisters"
| "block_type_code (DAlloc _ _) = block_kMemoryAlloc"
| "block_type_code (DPresent _) = block_kPresent"
| "block_type_code (DWaves _) = block_kWaveState"
| "block_type_code (DVulkan _) = block_kVulkanMetadata"
| "block_type_code (DLater t _) = t"

fun block_body :: "dive_block \<Rightarrow> buffer" where
  "block_body (DSubmit e q i dummy ibs) =
     [word_of_nat (length ibs), if dummy then 0x80 else 0, engine_byte e, queue_byte q, i, 0] @
     concat (map ib_bytes ibs)"
| "block_body (DMemory a bytes) =
     le64_bytes a @ le32_bytes (word_of_nat (length bytes)) @ [0, 0, 0, 0] @ bytes"
| "block_body (DText name text) =
     le32_bytes (word_of_nat (length name)) @ [0, 0, 0, 0] @
     le64_bytes (word_of_nat (length text)) @ replicate 8 0 @ name @ 0 # text"
| "block_body (DRegisters regs) =
     le32_bytes (word_of_nat (length regs)) @ replicate 12 0 @ concat (map register_bytes regs)"
| "block_body (DAlloc t as) =
     le32_bytes (word_of_nat (length as)) @ le32_bytes t @ concat (map allocation_bytes as)"
| "block_body (DPresent bytes) = bytes"
| "block_body (DWaves ws) =
     le32_bytes (word_of_nat (length ws)) @ replicate 12 0 @ concat (map wave_bytes ws)"
| "block_body (DVulkan n) = []"
| "block_body (DLater t bytes) = bytes"

fun block_size :: "dive_block \<Rightarrow> nat" where
  "block_size (DVulkan n) = n"
| "block_size b = length (block_body b)"

definition block_header :: "u32 \<Rightarrow> nat \<Rightarrow> buffer" where
  "block_header t n = le32_bytes t @ [0, 0, 0, 0] @ le64_bytes (word_of_nat n)"

definition encode_block :: "dive_block \<Rightarrow> buffer" where
  "encode_block b = block_header (block_type_code b) (block_size b) @ block_body b"

definition known_blocks :: "u32 list" where
  "known_blocks = [block_kMemoryAlloc, block_kSubmit, block_kMemoryRaw, block_kPresent, block_kWaveState,
     block_kText, block_kRegisters, block_kVulkanMetadata]"

text \<open>A wave has the registers that its state counts, and the TTMPs if they were captured.\<close>

definition wave_fits :: "CaptureDataHeader \<Rightarrow> WaveStateInfo \<Rightarrow> bool" where
  "wave_fits h w \<longleftrightarrow> length (w_state w) = 21 \<and>
     length (w_sgprs w) = unat (w_state w ! 1) \<and> length (w_sgprs w) \<le> kMaxNumSGPRPerWave \<and>
     length (w_vgprs w) = unat (w_state w ! 2) \<and> length (w_vgprs w) \<le> kMaxNumVGPRPerWave \<and>
     length (w_ttmps w) = (if captured_ttmps h (w_state w ! 4) then 16 else 0)"

text \<open>The blocks of a file whose capture has the header \<open>h\<close>.\<close>

fun block_fits :: "CaptureDataHeader \<Rightarrow> dive_block \<Rightarrow> bool" where
  "block_fits h (DSubmit e q i dummy ibs) \<longleftrightarrow> length ibs < 256 \<and> i < 8"
| "block_fits h (DMemory a bytes) \<longleftrightarrow> length bytes \<le> kMaxMemAllocSize"
| "block_fits h (DText name text) \<longleftrightarrow>
     0 \<notin> set name \<and> length name \<le> kMaxStrLen \<and> length text \<le> kMaxMemAllocSize"
| "block_fits h (DRegisters regs) \<longleftrightarrow> length regs < 2 ^ 32 \<and> (\<forall>nv\<in>set regs. 0 \<notin> set (fst nv))"
| "block_fits h (DAlloc t as) \<longleftrightarrow> length as \<le> kMaxNumMemAlloc"
| "block_fits h (DPresent bytes) \<longleftrightarrow> length bytes = 32"
| "block_fits h (DWaves ws) \<longleftrightarrow> length ws \<le> kMaxNumWavesPerBlock \<and> (\<forall>w\<in>set ws. wave_fits h w)"
| "block_fits h (DVulkan n) \<longleftrightarrow> True"
| "block_fits h (DLater t bytes) \<longleftrightarrow> later_capture h \<and> t \<notin> set known_blocks \<and> length bytes < 2 ^ 63"

fun emplace_all :: "(buffer \<times> u32) list \<Rightarrow> (buffer \<rightharpoonup> u32) \<Rightarrow> (buffer \<rightharpoonup> u32)" where
  "emplace_all [] regs = regs"
| "emplace_all (nv # nvs) regs =
     emplace_all nvs (if regs (fst nv) = None then regs(fst nv \<mapsto> snd nv) else regs)"

text \<open>
  The meaning of a block. A debug build asserts that registers, waves and each kind of allocations come in
  one block, that there are allocations in a block of them, and the shape of a wave.
\<close>

definition wave_checked :: "WaveStateInfo \<Rightarrow> bool" where
  "wave_checked w \<longleftrightarrow> w_state w ! 0 = 64 \<and> w_state w ! 2 mod w_state w ! 0 = 0"


fun block_effect :: "bool \<Rightarrow> dive_block \<Rightarrow> Pm4CaptureData \<Rightarrow> Pm4CaptureData option" where
  "block_effect debug (DSubmit e q i dummy ibs) cd =
     Some (cd\<lparr>m_submits := m_submits cd @
       [\<lparr>m_engine_type = e, m_queue_type = q, m_engine_index = i, m_is_dummy_submit = dummy,
         m_ibs = map (\<lambda>(a, n). rd_ib a n False) ibs\<rparr>]\<rparr>)"
| "block_effect debug (DMemory a bytes) cd =
     Some (cd\<lparr>m_memory := AddMemoryBlock (word_of_nat (length (m_submits cd)) - 1) a
       \<lparr>md_data_size = word_of_nat (length bytes), md_data = bytes\<rparr> (m_memory cd)\<rparr>)"
| "block_effect debug (DText name text) cd =
     Some (cd\<lparr>m_text := m_text cd @
       [\<lparr>t_name = name, t_size = word_of_nat (length text), t_text = text\<rparr>]\<rparr>)"
| "block_effect debug (DRegisters regs) cd =
     do {
       DIVE_ASSERT debug (m_registers cd = Map.empty);
       Some (cd\<lparr>m_registers := emplace_all regs Map.empty\<rparr>)
     }"
| "block_effect debug (DAlloc t as) cd =
     do {
       DIVE_ASSERT debug (as \<noteq> []);
       mm \<leftarrow> MemoryManager_AddMemoryAllocations debug (allocations_type t) as (m_memory cd);
       Some (cd\<lparr>m_memory := mm\<rparr>)
     }"
| "block_effect debug (DPresent bytes) cd =
     Some (cd\<lparr>m_presents := m_presents cd @ [present_of (word_of_nat (length (m_submits cd)) - 1) bytes]\<rparr>)"
| "block_effect debug (DWaves ws) cd =
     do {
       DIVE_ASSERT debug (m_waves cd = []);
       DIVE_ASSERT debug (list_all wave_checked ws);
       Some (cd\<lparr>m_waves := ws\<rparr>)
     }"
| "block_effect debug (DVulkan n) cd = Some cd"
| "block_effect debug (DLater t bytes) cd = Some cd"

fun block_effects :: "bool \<Rightarrow> dive_block list \<Rightarrow> Pm4CaptureData \<Rightarrow> Pm4CaptureData option" where
  "block_effects debug [] cd = Some cd"
| "block_effects debug (b # bs) cd = do { cd \<leftarrow> block_effect debug b cd; block_effects debug bs cd }"

lemma engine_byte_inverse [simp]: "engine_type_of (engine_byte e) = e"
  by (cases e) (simp_all add: engine_type_of_def)

lemma queue_byte_inverse [simp]: "queue_type_of (queue_byte q) = q"
  by (cases q) (simp_all add: queue_type_of_def)

lemma load_ibs_prefix:
  assumes "stream_at s (concat (map ib_bytes ans) @ r)"
  shows "\<exists>s'. load_ibs (length ans) k ibs s cd = k (ibs @ map (\<lambda>(a, n). rd_ib a n False) ans) s' cd \<and>
    stream_at s' r"
  using assms
proof (induction ans arbitrary: ibs s)
  case (Cons an ans)
  have st: "stream_at s (ib_bytes an @ concat (map ib_bytes ans) @ r)"
    using Cons.prems by simp
  have "length (ib_bytes an) = 16"
    by (simp add: ib_bytes_def)
  then obtain s1 where s1: "read_or_fail 16 (\<lambda>bs. load_ibs (length ans) k (ibs @ [ib_of bs])) s cd =
      load_ibs (length ans) k (ibs @ [ib_of (ib_bytes an)]) s1 cd"
      "stream_at s1 (concat (map ib_bytes ans) @ r)"
    using read_or_fail_prefix [OF st, of 16 "\<lambda>bs. load_ibs (length ans) k (ibs @ [ib_of bs])" cd] by blast
  moreover have "ib_of (ib_bytes an) = rd_ib (fst an) (snd an) False"
    by (simp add: ib_of_def ib_bytes_def)
  ultimately show ?case
    using Cons.IH [OF s1(2), of "ibs @ [ib_of (ib_bytes an)]"] by (auto simp: case_prod_beta)
qed auto

lemma load_registers_prefix:
  assumes "stream_at s (concat (map register_bytes nvs) @ r)" "\<forall>nv\<in>set nvs. 0 \<notin> set (fst nv)"
  shows "\<exists>s'. load_registers (length nvs) regs s cd =
      Some (True, s', cd\<lparr>m_registers := emplace_all nvs regs\<rparr>) \<and> stream_at s' r"
  using assms
proof (induction nvs arbitrary: regs s)
  case (Cons nv nvs)
  let ?rest = "concat (map register_bytes nvs) @ r"
  define F where "F name bs = load_registers (length nvs)
      (if regs name = None then regs(name \<mapsto> le32 bs) else regs)" for name bs
  define K where "K name = read_or_fail 4 (F name)" for name
  have st: "stream_at s (fst nv @ 0 # (le32_bytes (snd nv) @ ?rest))" and nz: "0 \<notin> set (fst nv)"
    using Cons.prems by (simp_all add: register_bytes_def [of nv])
  obtain s1 where s1: "line_or_fail K s cd = K (fst nv) s1 cd" "stream_at s1 (le32_bytes (snd nv) @ ?rest)"
    using line_or_fail_prefix [OF st nz, of K cd] by blast
  have len: "length (le32_bytes (snd nv)) = 4"
    by simp
  obtain s2 where s2: "K (fst nv) s1 cd = F (fst nv) (le32_bytes (snd nv)) s2 cd" "stream_at s2 ?rest"
    using read_or_fail_prefix [OF s1(2) len, of "F (fst nv)" cd] unfolding K_def by blast
  have start: "load_registers (length (nv # nvs)) regs s cd = line_or_fail K s cd"
    by (simp add: K_def [abs_def] F_def [abs_def])
  have w: "le32 (le32_bytes (snd nv)) = snd nv"
    using le32_append_bytes [of "snd nv" "[]"] by simp
  have nzs: "\<forall>nv\<in>set nvs. 0 \<notin> set (fst nv)"
    using Cons.prems by simp
  show ?case
    unfolding start s1(1) s2(1) F_def w emplace_all.simps
    by (rule Cons.IH [OF s2(2) nzs])
qed (auto simp: stream_at_def)

subsection \<open>One block\<close>

lemmas block_type_defs =
  block_kMemoryAlloc_def block_kSubmit_def block_kMemoryRaw_def block_kPresent_def block_kText_def
  block_kRegisters_def block_kWaveState_def block_kVulkanMetadata_def

lemma block_types_distinct:
  "distinct [block_kMemoryAlloc, block_kSubmit, block_kMemoryRaw, block_kPresent, block_kText,
     block_kRegisters, block_kWaveState, block_kVulkanMetadata]"
  by code_simp

lemma block_types_neq [simp]:
  "block_kSubmit \<noteq> block_kMemoryAlloc" "block_kMemoryRaw \<noteq> block_kMemoryAlloc" "block_kMemoryRaw \<noteq> block_kSubmit"
  "block_kPresent \<noteq> block_kMemoryAlloc" "block_kPresent \<noteq> block_kSubmit" "block_kPresent \<noteq> block_kMemoryRaw"
  "block_kWaveState \<noteq> block_kMemoryAlloc" "block_kWaveState \<noteq> block_kSubmit" "block_kWaveState \<noteq> block_kMemoryRaw"
  "block_kWaveState \<noteq> block_kPresent"
  "block_kText \<noteq> block_kMemoryAlloc" "block_kText \<noteq> block_kSubmit" "block_kText \<noteq> block_kMemoryRaw"
  "block_kText \<noteq> block_kPresent" "block_kText \<noteq> block_kWaveState"
  "block_kRegisters \<noteq> block_kMemoryAlloc" "block_kRegisters \<noteq> block_kSubmit"
  "block_kRegisters \<noteq> block_kMemoryRaw" "block_kRegisters \<noteq> block_kPresent"
  "block_kRegisters \<noteq> block_kWaveState" "block_kRegisters \<noteq> block_kText"
  "block_kVulkanMetadata \<noteq> block_kMemoryAlloc" "block_kVulkanMetadata \<noteq> block_kSubmit"
  "block_kVulkanMetadata \<noteq> block_kMemoryRaw" "block_kVulkanMetadata \<noteq> block_kPresent"
  "block_kVulkanMetadata \<noteq> block_kWaveState" "block_kVulkanMetadata \<noteq> block_kText"
  "block_kVulkanMetadata \<noteq> block_kRegisters"
  using block_types_distinct by auto

lemma le32_block_header [simp]: "le32 (block_header t n) = t"
  by (simp add: block_header_def)

lemma length_block_header [simp]: "length (block_header t n) = sizeof_BlockInfo"
  by (simp add: block_header_def sizeof_BlockInfo_def)

lemma engine_index_inverse:
  assumes "i < 8"
  shows "ucast (le16 [i, 0] AND 7) = (i :: byte)"
proof -
  have "i AND 7 = i"
  proof (rule iffD2 [OF word_unat_eq_iff])
    have "i AND 7 = take_bit 3 i"
      by (simp add: take_bit_eq_mask mask_eq_decr_exp)
    moreover have "unat i < 8"
      using assms by (simp add: word_less_nat_alt)
    ultimately show "unat (i AND 7) = unat i"
      by (simp add: unsigned_take_bit_eq take_bit_nat_eq_self)
  qed
  moreover have "ucast (ucast i AND (7 :: u16)) = i AND (7 :: byte)"
    by (rule bit_eqI) (auto simp: bit_simps)
  ultimately show ?thesis
    by (simp add: le16_def)
qed

definition loads_block :: "bool \<Rightarrow> loader \<Rightarrow> dive_block \<Rightarrow> bool" where
  "loads_block debug ld b \<longleftrightarrow>
     (\<forall>s cd r. stream_at s (block_body b @ r) \<longrightarrow>
        (\<exists>s'. ld s cd = map_option (\<lambda>cd'. (True, s', cd')) (block_effect debug b cd) \<and> stream_at s' r))"

lemma submit_block_loads:
  assumes "length ibs < 256" "i < 8"
  shows "loads_block debug LoadSubmitBlock (DSubmit e q i dummy ibs)"
  unfolding loads_block_def
proof (intro allI impI)
  fix s cd r
  let ?h = "[word_of_nat (length ibs), if dummy then 0x80 else 0, engine_byte e, queue_byte q, i, 0] :: buffer"
  assume "stream_at s (block_body (DSubmit e q i dummy ibs) @ r)"
  then have st: "stream_at s (?h @ concat (map ib_bytes ibs) @ r)"
    by simp
  define F where "F header = load_ibs (unat (header ! 0))
         (\<lambda>ibs s cd. Some (True, s, cd\<lparr>m_submits := m_submits cd @ [submit_of header ibs]\<rparr>)) []"
    for header :: buffer
  obtain s1 where s1: "read_or_fail 6 F s cd = F ?h s1 cd" "stream_at s1 (concat (map ib_bytes ibs) @ r)"
    using read_or_fail_prefix [OF st, of 6 F cd] by auto
  have n: "unat (?h ! 0) = length ibs"
    using assms(1) by (simp add: unat_of_nat)
  have sub: "submit_of ?h is = \<lparr>m_engine_type = e, m_queue_type = q, m_engine_index = i,
      m_is_dummy_submit = dummy, m_ibs = is\<rparr>" for "is"
    using engine_index_inverse [OF assms(2)] by (simp add: submit_of_def bit_simps)
  have start: "LoadSubmitBlock s cd = read_or_fail 6 F s cd"
    by (simp add: LoadSubmitBlock_def F_def [abs_def])
  show "\<exists>s'. LoadSubmitBlock s cd =
      map_option (\<lambda>cd'. (True, s', cd')) (block_effect debug (DSubmit e q i dummy ibs) cd) \<and> stream_at s' r"
    using load_ibs_prefix [OF s1(2), of
        "\<lambda>ibs s cd. Some (True, s, cd\<lparr>m_submits := m_submits cd @ [submit_of ?h ibs]\<rparr>)" "[]" cd]
    unfolding start s1(1) F_def n sub by simp
qed

lemma memory_block_loads:
  assumes "length bytes \<le> kMaxMemAllocSize"
  shows "loads_block debug LoadMemoryBlock (DMemory a bytes)"
  unfolding loads_block_def
proof (intro allI impI)
  fix s cd r
  let ?n = "word_of_nat (length bytes) :: u32"
  let ?h = "le64_bytes a @ le32_bytes ?n @ [0, 0, 0, 0]"
  assume "stream_at s (block_body (DMemory a bytes) @ r)"
  then have st: "stream_at s (?h @ bytes @ r)"
    by simp
  define G where "G header bs s cd =
      Some (True, s :: istream,
           cd\<lparr>m_memory := AddMemoryBlock (word_of_nat (length (m_submits cd)) - 1) (le64 header)
                \<lparr>md_data_size = le32 (drop 8 header), md_data = bs\<rparr> (m_memory cd)\<rparr>)"
    for header bs :: buffer and s and cd :: Pm4CaptureData
  define F where "F header s cd =
      (if unat (le32 (drop 8 header)) > kMaxMemAllocSize then Some (False, s, cd)
       else read_or_fail (unat (le32 (drop 8 header))) (G header) s cd)" for header s cd
  have n: "unat ?n = length bytes"
    using assms by (simp add: unat_of_nat kMaxMemAllocSize_def)
  have h: "le32 (drop 8 ?h) = ?n" "le64 ?h = a"
    by simp_all
  have start: "LoadMemoryBlock s cd = read_or_fail 16 F s cd"
    by (simp add: LoadMemoryBlock_def F_def [abs_def] G_def [abs_def] Let_def cong: if_cong)
  obtain s1 where s1: "read_or_fail 16 F s cd = F ?h s1 cd" "stream_at s1 (bytes @ r)"
    using read_or_fail_prefix [OF st, of 16 F cd] by auto
  obtain s2 where s2: "read_or_fail (length bytes) (G ?h) s1 cd = G ?h bytes s2 cd" "stream_at s2 r"
    using read_or_fail_prefix [OF s1(2) refl, of "G ?h" cd] by blast
  have "F ?h s1 cd = G ?h bytes s2 cd"
    unfolding F_def h n using assms s2(1) by simp
  then show "\<exists>s'. LoadMemoryBlock s cd =
      map_option (\<lambda>cd'. (True, s', cd')) (block_effect debug (DMemory a bytes) cd) \<and> stream_at s' r"
    using s2(2) unfolding start s1(1) by (auto simp: G_def h)
qed

lemma text_block_loads:
  assumes "0 \<notin> set name" "length name \<le> kMaxStrLen" "length text \<le> kMaxMemAllocSize"
  shows "loads_block debug LoadTextBlock (DText name text)"
  unfolding loads_block_def
proof (intro allI impI)
  fix s cd r
  let ?n = "word_of_nat (length name) :: u32"
  let ?m = "word_of_nat (length text) :: u64"
  let ?h = "le32_bytes ?n @ [0, 0, 0, 0] @ le64_bytes ?m @ replicate 8 0"
  assume "stream_at s (block_body (DText name text) @ r)"
  then have st: "stream_at s (?h @ name @ 0 # text @ r)"
    by simp
  define H where "H header name body s cd =
      Some (True, s :: istream, cd\<lparr>m_text := m_text cd @
        [\<lparr>t_name = name, t_size = le64 (drop 8 header), t_text = body\<rparr>]\<rparr>)"
    for header name body :: buffer and s and cd :: Pm4CaptureData
  define G where "G header name = read_or_fail (unat (le64 (drop 8 header))) (H header name)" for header name
  define F where "F header s cd =
      (if unat (le32 header) > kMaxStrLen \<or> unat (le64 (drop 8 header)) > kMaxMemAllocSize
       then Some (False, s, cd) else line_or_fail (G header) s cd)" for header s cd
  have n: "unat ?n = length name" "unat ?m = length text"
    using assms by (simp_all add: unat_of_nat kMaxStrLen_def kMaxMemAllocSize_def)
  have h: "le32 ?h = ?n" "le64 (drop 8 ?h) = ?m"
    by simp_all
  have start: "LoadTextBlock s cd = read_or_fail 24 F s cd"
    by (simp add: LoadTextBlock_def F_def [abs_def] G_def [abs_def] H_def [abs_def] cong: if_cong)
  obtain s1 where s1: "read_or_fail 24 F s cd = F ?h s1 cd" "stream_at s1 (name @ 0 # text @ r)"
    using read_or_fail_prefix [OF st, of 24 F cd] by auto
  obtain s2 where s2: "line_or_fail (G ?h) s1 cd = G ?h name s2 cd" "stream_at s2 (text @ r)"
    using line_or_fail_prefix [OF s1(2) assms(1), of "G ?h" cd] by blast
  obtain s3 where s3: "read_or_fail (length text) (H ?h name) s2 cd = H ?h name text s3 cd" "stream_at s3 r"
    using read_or_fail_prefix [OF s2(2) refl, of "H ?h name" cd] by blast
  have "G ?h name s2 cd = H ?h name text s3 cd"
    unfolding G_def h n by (rule s3(1))
  moreover have "F ?h s1 cd = G ?h name s2 cd"
    unfolding F_def h n using assms s2(1) by simp
  ultimately show "\<exists>s'. LoadTextBlock s cd =
      map_option (\<lambda>cd'. (True, s', cd')) (block_effect debug (DText name text) cd) \<and> stream_at s' r"
    using s3(2) unfolding start s1(1) by (auto simp: H_def h)
qed

lemma registers_block_loads:
  assumes "length regs < 2 ^ 32" "\<forall>nv\<in>set regs. 0 \<notin> set (fst nv)"
  shows "loads_block debug (LoadRegisterBlock debug) (DRegisters regs)"
  unfolding loads_block_def
proof (intro allI impI)
  fix s cd r
  let ?n = "word_of_nat (length regs) :: u32"
  let ?h = "le32_bytes ?n @ replicate 12 0"
  assume "stream_at s (block_body (DRegisters regs) @ r)"
  then have st: "stream_at s (?h @ concat (map register_bytes regs) @ r)"
    by simp
  define F where "F header = load_registers (unat (le32 header)) Map.empty" for header
  have n: "unat ?n = length regs"
    using assms(1) by (simp add: unat_of_nat)
  obtain s1 where s1: "read_or_fail 16 F s cd = F ?h s1 cd"
      "stream_at s1 (concat (map register_bytes regs) @ r)"
    using read_or_fail_prefix [OF st, of 16 F cd] by auto
  have Fh: "F ?h = load_registers (length regs) Map.empty"
    by (simp add: F_def n)
  obtain s2 where s2: "F ?h s1 cd = Some (True, s2, cd\<lparr>m_registers := emplace_all regs Map.empty\<rparr>)"
      "stream_at s2 r"
    unfolding Fh using load_registers_prefix [OF s1(2) assms(2), of Map.empty cd] by blast
  have start: "LoadRegisterBlock debug s cd =
      do { DIVE_ASSERT debug (m_registers cd = Map.empty); read_or_fail 16 F s cd }"
    by (simp add: LoadRegisterBlock_def F_def [abs_def])
  show "\<exists>s'. LoadRegisterBlock debug s cd =
      map_option (\<lambda>cd'. (True, s', cd')) (block_effect debug (DRegisters regs) cd) \<and> stream_at s' r"
    using s2(2) unfolding start s1(1) s2(1)
    by (cases "DIVE_ASSERT debug (m_registers cd = Map.empty)") auto
qed

lemma length_words_bytes [simp]: "length (words_bytes ws) = 4 * length ws"
  by (induction ws) (simp_all add: words_bytes_def)

lemma le32_array_words [simp]: "le32_array (length ws) (words_bytes ws @ r) = ws"
  by (induction ws) (simp_all add: words_bytes_def)

lemma le32_array_all [simp]: "le32_array (length ws) (words_bytes ws) = ws"
  using le32_array_words [of ws "[]"] by simp

lemma allocations_inverse [simp]: "allocations_of (length as) (concat (map allocation_bytes as)) = as"
proof (induction as)
  case (Cons a as)
  have "allocation_of (allocation_bytes a @ r) = a" for r
    by (simp add: allocation_of_def allocation_bytes_def)
  moreover have "length (allocation_bytes a) = sizeof_MemoryAllocationData"
    by (simp add: allocation_bytes_def sizeof_MemoryAllocationData_def)
  ultimately show ?case
    using Cons by simp
qed simp

lemma length_allocations [simp]:
  "length (concat (map allocation_bytes as)) = length as * sizeof_MemoryAllocationData"
  by (induction as) (simp_all add: allocation_bytes_def sizeof_MemoryAllocationData_def)

lemma alloc_block_loads:
  assumes "length as \<le> kMaxNumMemAlloc"
  shows "loads_block debug (LoadMemoryAllocBlock debug) (DAlloc t as)"
  unfolding loads_block_def
proof (intro allI impI)
  fix s cd r
  let ?n = "word_of_nat (length as) :: u32"
  let ?h = "le32_bytes ?n @ le32_bytes t"
  assume "stream_at s (block_body (DAlloc t as) @ r)"
  then have st: "stream_at s (?h @ concat (map allocation_bytes as) @ r)"
    by simp
  define G where "G header n bs s cd = do {
      mm \<leftarrow> MemoryManager_AddMemoryAllocations debug (allocations_type (le32 (drop 4 header)))
              (allocations_of n bs) (m_memory cd);
      Some (True, s :: istream, cd\<lparr>m_memory := mm\<rparr>) }" for header bs :: buffer and n s and cd :: Pm4CaptureData
  define F where "F header s cd =
      (if unat (le32 header) > kMaxNumMemAlloc then Some (False, s, cd)
       else do { DIVE_ASSERT debug (unat (le32 header) > 0);
                 read_or_fail (unat (le32 header) * sizeof_MemoryAllocationData) (G header (unat (le32 header))) s cd })"
    for header s cd
  have n: "unat ?n = length as"
    using assms by (simp add: unat_of_nat kMaxNumMemAlloc_def)
  have h: "le32 ?h = ?n" "le32 (drop 4 ?h) = t"
    by (simp_all add: le32_append [of _ "[]", simplified])
  have start: "LoadMemoryAllocBlock debug s cd = read_or_fail 8 F s cd"
    by (simp add: LoadMemoryAllocBlock_def F_def [abs_def] G_def [abs_def] Let_def cong: if_cong)
  obtain s1 where s1: "read_or_fail 8 F s cd = F ?h s1 cd" "stream_at s1 (concat (map allocation_bytes as) @ r)"
    using read_or_fail_prefix [OF st, of 8 F cd] by auto
  obtain s2 where s2: "read_or_fail (length as * sizeof_MemoryAllocationData) (G ?h (length as)) s1 cd =
      G ?h (length as) (concat (map allocation_bytes as)) s2 cd" "stream_at s2 r"
    using read_or_fail_prefix [OF s1(2) length_allocations, of "G ?h (length as)" cd] by blast
  have "F ?h s1 cd = do { DIVE_ASSERT debug (as \<noteq> []);
      G ?h (length as) (concat (map allocation_bytes as)) s2 cd }"
    unfolding F_def h(1) n using assms s2(1) by simp
  then show "\<exists>s'. LoadMemoryAllocBlock debug s cd =
      map_option (\<lambda>cd'. (True, s', cd')) (block_effect debug (DAlloc t as) cd) \<and> stream_at s' r"
    using s2(2) unfolding start s1(1)
    by (intro exI [of _ s2]) (simp add: G_def h map_option_case split: bind_split option.split)
qed

lemma present_block_loads:
  assumes "length bytes = 32"
  shows "loads_block debug LoadPresentBlock (DPresent bytes)"
  unfolding loads_block_def
proof (intro allI impI)
  fix s cd r
  assume "stream_at s (block_body (DPresent bytes) @ r)"
  then have "stream_at s (bytes @ r)"
    by simp
  from read_or_fail_prefix [OF this assms]
  show "\<exists>s'. LoadPresentBlock s cd =
      map_option (\<lambda>cd'. (True, s', cd')) (block_effect debug (DPresent bytes) cd) \<and> stream_at s' r"
    by (fastforce simp: LoadPresentBlock_def)
qed

lemma read_words_prefix:
  assumes "stream_at s (words_bytes ws @ r)"
  shows "\<exists>s'. read_words (length ws) k s cd = k ws s' cd \<and> stream_at s' r"
proof (cases "ws = []")
  case True
  then show ?thesis
    using assms by (auto simp: read_words_def words_bytes_def)
next
  case False
  have len: "length (words_bytes ws) = length ws * 4"
    by simp
  obtain s' where "read_or_fail (length ws * 4) (\<lambda>bs. k (le32_array (length ws) bs)) s cd =
      k (le32_array (length ws) (words_bytes ws)) s' cd" "stream_at s' r"
    using read_or_fail_prefix [OF assms len, of "\<lambda>bs. k (le32_array (length ws) bs)" cd] by blast
  then show ?thesis
    using False by (auto simp: read_words_def)
qed

definition read_wave :: "CaptureDataHeader \<Rightarrow> u32 list \<Rightarrow> (WaveStateInfo \<Rightarrow> loader) \<Rightarrow> loader" where
  "read_wave h state k =
     read_words (unat (state ! 1)) (\<lambda>sgprs. read_words (unat (state ! 2)) (\<lambda>vgprs.
       read_words (if captured_ttmps h (state ! 4) then 16 else 0) (\<lambda>ttmps.
         k \<lparr>w_state = state, w_sgprs = sgprs, w_vgprs = vgprs, w_ttmps = ttmps\<rparr>)))"

lemma load_waves_step:
  "load_waves debug h (Suc n) waves =
     read_or_fail 84 (\<lambda>bs s cd. do {
       DIVE_ASSERT debug (le32_array 21 bs ! 0 = 64);
       DIVE_ASSERT debug (le32_array 21 bs ! 2 mod le32_array 21 bs ! 0 = 0);
       if unat (le32_array 21 bs ! 1) > kMaxNumSGPRPerWave \<or> unat (le32_array 21 bs ! 2) > kMaxNumVGPRPerWave
       then Some (False, s, cd)
       else read_wave h (le32_array 21 bs) (\<lambda>w. load_waves debug h n (waves @ [w])) s cd
     })"
  by (simp add: Let_def read_wave_def del: le32_array.simps cong: if_cong)

lemma read_wave_prefix:
  assumes "wave_fits h w" and "stream_at s (words_bytes (w_sgprs w) @ words_bytes (w_vgprs w) @ words_bytes (w_ttmps w) @ r)"
  shows "\<exists>s'. read_wave h (w_state w) k s cd = k w s' cd \<and> stream_at s' r"
proof -
  define C where "C sgprs vgprs ttmps = k \<lparr>w_state = w_state w, w_sgprs = sgprs, w_vgprs = vgprs, w_ttmps = ttmps\<rparr>"
    for sgprs vgprs ttmps
  define B where "B sgprs vgprs = read_words (length (w_ttmps w)) (C sgprs vgprs)" for sgprs vgprs
  define A where "A sgprs = read_words (length (w_vgprs w)) (B sgprs)" for sgprs
  have n: "unat (w_state w ! 1) = length (w_sgprs w)" "unat (w_state w ! 2) = length (w_vgprs w)"
    "(if captured_ttmps h (w_state w ! 4) then 16 else 0) = length (w_ttmps w)"
    using assms(1) by (simp_all add: wave_fits_def)
  have start: "read_wave h (w_state w) k = read_words (length (w_sgprs w)) A"
    unfolding read_wave_def n by (simp add: A_def [abs_def] B_def [abs_def] C_def [abs_def])
  obtain s1 where s1: "read_words (length (w_sgprs w)) A s cd = A (w_sgprs w) s1 cd"
      "stream_at s1 (words_bytes (w_vgprs w) @ words_bytes (w_ttmps w) @ r)"
    using read_words_prefix [OF assms(2), of A cd] by blast
  obtain s2 where s2: "A (w_sgprs w) s1 cd = B (w_sgprs w) (w_vgprs w) s2 cd" "stream_at s2 (words_bytes (w_ttmps w) @ r)"
    using read_words_prefix [OF s1(2), of "B (w_sgprs w)" cd] unfolding A_def by blast
  obtain s3 where s3: "B (w_sgprs w) (w_vgprs w) s2 cd = C (w_sgprs w) (w_vgprs w) (w_ttmps w) s3 cd" "stream_at s3 r"
    using read_words_prefix [OF s2(2), of "C (w_sgprs w) (w_vgprs w)" cd] unfolding B_def by blast
  moreover have "C (w_sgprs w) (w_vgprs w) (w_ttmps w) = k w"
    by (cases w) (simp add: C_def)
  ultimately show ?thesis
    unfolding start s1(1) s2(1) by auto
qed

lemma wave_state_read:
  assumes "wave_fits h w"
  shows "length (words_bytes (w_state w)) = 84" "le32_array 21 (words_bytes (w_state w)) = w_state w"
  using assms le32_array_all [of "w_state w"] by (simp_all add: wave_fits_def del: le32_array_all)

lemma load_waves_prefix:
  assumes "stream_at s (concat (map wave_bytes ws) @ r)" "\<forall>w\<in>set ws. wave_fits h w"
  shows "\<exists>s'. load_waves debug h (length ws) waves s cd =
      do { DIVE_ASSERT debug (list_all wave_checked ws); Some (True, s', cd\<lparr>m_waves := waves @ ws\<rparr>) } \<and> stream_at s' r"
  using assms
proof (induction ws arbitrary: waves s)
  case (Cons w ws)
  have fits: "wave_fits h w" and fits': "\<forall>w\<in>set ws. wave_fits h w"
    using Cons.prems(2) by simp_all
  let ?r = "concat (map wave_bytes ws) @ r"
  define F where "F bs s cd = do {
       DIVE_ASSERT debug (le32_array 21 bs ! 0 = 64);
       DIVE_ASSERT debug (le32_array 21 bs ! 2 mod le32_array 21 bs ! 0 = 0);
       if unat (le32_array 21 bs ! 1) > kMaxNumSGPRPerWave \<or> unat (le32_array 21 bs ! 2) > kMaxNumVGPRPerWave
       then Some (False, s, cd)
       else read_wave h (le32_array 21 bs) (\<lambda>w. load_waves debug h (length ws) (waves @ [w])) s cd }" for bs s cd
  have st: "stream_at s (words_bytes (w_state w) @ words_bytes (w_sgprs w) @ words_bytes (w_vgprs w) @ words_bytes (w_ttmps w) @ ?r)"
    using Cons.prems(1) by (simp add: wave_bytes_def [of w])
  have start: "load_waves debug h (length (w # ws)) waves s cd = read_or_fail 84 F s cd"
    unfolding length_Cons load_waves_step F_def [abs_def] ..
  obtain s1 where s1: "read_or_fail 84 F s cd = F (words_bytes (w_state w)) s1 cd"
      "stream_at s1 (words_bytes (w_sgprs w) @ words_bytes (w_vgprs w) @ words_bytes (w_ttmps w) @ ?r)"
    using read_or_fail_prefix [OF st wave_state_read(1) [OF fits], of F cd] by blast
  obtain s2 where s2: "read_wave h (w_state w) (\<lambda>w. load_waves debug h (length ws) (waves @ [w])) s1 cd =
      load_waves debug h (length ws) (waves @ [w]) s2 cd" "stream_at s2 ?r"
    using read_wave_prefix [OF fits s1(2), of "\<lambda>w. load_waves debug h (length ws) (waves @ [w])" cd] by blast
  obtain s3 where s3: "load_waves debug h (length ws) (waves @ [w]) s2 cd =
      do { DIVE_ASSERT debug (list_all wave_checked ws); Some (True, s3, cd\<lparr>m_waves := (waves @ [w]) @ ws\<rparr>) }"
      "stream_at s3 r"
    using Cons.IH [OF s2(2) fits', of "waves @ [w]"] by blast
  have F: "F (words_bytes (w_state w)) s1 cd = do {
      DIVE_ASSERT debug (wave_checked w);
      load_waves debug h (length ws) (waves @ [w]) s2 cd }"
    using fits s2(1) unfolding F_def wave_state_read(2) [OF fits]
    by (auto simp: wave_fits_def wave_checked_def DIVE_ASSERT_def)
  show ?case
    unfolding start s1(1) F s3(1) using s3(2) by (intro exI [of _ s3]) (simp add: DIVE_ASSERT_def)
qed auto

lemma waves_block_loads:
  assumes "length ws \<le> kMaxNumWavesPerBlock" "\<forall>w\<in>set ws. wave_fits h w"
  shows "loads_block debug (LoadWaveStateBlock debug h) (DWaves ws)"
  unfolding loads_block_def
proof (intro allI impI)
  fix s cd r
  let ?n = "word_of_nat (length ws) :: u32"
  let ?h = "le32_bytes ?n @ replicate 12 0"
  assume "stream_at s (block_body (DWaves ws) @ r)"
  then have st: "stream_at s (?h @ concat (map wave_bytes ws) @ r)"
    by simp
  define F where "F header s cd = (if unat (le32 header) > kMaxNumWavesPerBlock then Some (False, s, cd)
      else load_waves debug h (unat (le32 header)) [] s cd)" for header s cd
  have n: "unat ?n = length ws"
    using assms(1) by (simp add: unat_of_nat kMaxNumWavesPerBlock_def)
  obtain s1 where s1: "read_or_fail 16 F s cd = F ?h s1 cd" "stream_at s1 (concat (map wave_bytes ws) @ r)"
    using read_or_fail_prefix [OF st, of 16 F cd] by auto
  obtain s2 where s2: "load_waves debug h (length ws) [] s1 cd =
      do { DIVE_ASSERT debug (list_all wave_checked ws); Some (True, s2, cd\<lparr>m_waves := [] @ ws\<rparr>) }" "stream_at s2 r"
    using load_waves_prefix [OF s1(2) assms(2), of debug "[]" cd] by blast
  have Fh: "F ?h s1 cd = load_waves debug h (length ws) [] s1 cd"
    using assms(1) by (simp add: F_def n)
  have start: "LoadWaveStateBlock debug h s cd = do { DIVE_ASSERT debug (m_waves cd = []); read_or_fail 16 F s cd }"
    by (simp add: LoadWaveStateBlock_def F_def [abs_def])
  show "\<exists>s'. LoadWaveStateBlock debug h s cd =
      map_option (\<lambda>cd'. (True, s', cd')) (block_effect debug (DWaves ws) cd) \<and> stream_at s' r"
    unfolding start s1(1) Fh s2(1) using s2(2) by (intro exI [of _ s2]) (simp add: DIVE_ASSERT_def)
qed

lemma sint_of_size: "n < 2 ^ 63 \<Longrightarrow> sint (word_of_nat n :: u64) = int n"
  by (simp add: signed_of_nat signed_take_bit_int_eq_self)

lemma load_block_later:
  assumes "later_capture h" "t \<notin> set known_blocks"
  shows "load_block debug h (block_header t n) s cd = Some (True, istream_seekg (word_of_nat n) s, cd)"
proof -
  have size: "le64 (drop 8 (block_header t n)) = word_of_nat n"
    by (simp add: block_header_def le64_append [of _ "[]", simplified])
  show ?thesis
    using assms by (simp add: load_block_def known_blocks_def size)
qed

lemma seekg_forward:
  assumes "n < 2 ^ 63" "in_good s"
  shows "istream_seekg (word_of_nat n) s = s\<lparr>in_pos := in_pos s + n\<rparr>"
  using assms by (simp add: istream_seekg_def sint_of_size nat_add_distrib Let_def)

lemma later_block_loads:
  assumes "block_fits h (DLater t bytes)"
  shows "loads_block debug (load_block debug h (block_header t (length bytes))) (DLater t bytes)"
  using assms unfolding loads_block_def
  by (auto simp: load_block_later seekg_forward stream_at_def)

lemma load_block_prefix:
  assumes "block_fits h b" "stream_at s (block_body b @ r)"
  obtains s' where "load_block debug h (block_header (block_type_code b) (block_size b)) s cd =
      map_option (\<lambda>cd'. (True, s', cd')) (block_effect debug b cd)" "stream_at s' r"
proof -
  have "loads_block debug (load_block debug h (block_header (block_type_code b) (block_size b))) b"
  proof (cases b)
    case (DSubmit e q i dummy ibs)
    then have "load_block debug h (block_header (block_type_code b) (block_size b)) = LoadSubmitBlock"
      by (intro ext) (simp add: load_block_def)
    then show ?thesis
      using submit_block_loads assms(1) DSubmit by simp
  next
    case (DMemory a bytes)
    then have "load_block debug h (block_header (block_type_code b) (block_size b)) = LoadMemoryBlock"
      by (intro ext) (simp add: load_block_def)
    then show ?thesis
      using memory_block_loads assms(1) DMemory by simp
  next
    case (DText name content)
    then have "load_block debug h (block_header (block_type_code b) (block_size b)) = LoadTextBlock"
      by (intro ext) (simp add: load_block_def)
    then show ?thesis
      using text_block_loads assms(1) DText by simp
  next
    case (DRegisters regs)
    then have "load_block debug h (block_header (block_type_code b) (block_size b)) = LoadRegisterBlock debug"
      by (intro ext) (simp add: load_block_def)
    then show ?thesis
      using registers_block_loads assms(1) DRegisters by simp
  next
    case (DAlloc t as)
    then have "load_block debug h (block_header (block_type_code b) (block_size b)) = LoadMemoryAllocBlock debug"
      by (intro ext) (simp add: load_block_def)
    then show ?thesis
      using alloc_block_loads assms(1) DAlloc by simp
  next
    case (DPresent bytes)
    then have "load_block debug h (block_header (block_type_code b) (block_size b)) = LoadPresentBlock"
      by (intro ext) (simp add: load_block_def)
    then show ?thesis
      using present_block_loads assms(1) DPresent by simp
  next
    case (DWaves ws)
    then have "load_block debug h (block_header (block_type_code b) (block_size b)) = LoadWaveStateBlock debug h"
      by (intro ext) (simp add: load_block_def)
    then show ?thesis
      using waves_block_loads assms(1) DWaves by simp
  next
    case (DVulkan n)
    then have "load_block debug h (block_header (block_type_code b) (block_size b)) = LoadVulkanMetaDataBlock"
      by (intro ext) (simp add: load_block_def)
    then show ?thesis
      using DVulkan by (auto simp: loads_block_def LoadVulkanMetaDataBlock_def)
  next
    case (DLater t bytes)
    then show ?thesis
      using later_block_loads assms(1) by simp
  qed
  then show thesis
    using assms(2) that unfolding loads_block_def by blast
qed

subsection \<open>The whole file\<close>

text \<open>The loop over whole blocks goes on with what stands behind them.\<close>

lemma load_blocks_append:
  assumes "\<forall>b\<in>set bs. block_fits h b" "stream_at s (concat (map encode_block bs) @ r)"
  shows "\<exists>s'. load_blocks_loop debug h s cd =
      Option.bind (block_effects debug bs cd) (load_blocks_loop debug h s') \<and> stream_at s' r"
  using assms
proof (induction bs arbitrary: s cd)
  case Nil
  then show ?case
    by auto
next
  case (Cons b bs)
  let ?info = "block_header (block_type_code b) (block_size b)"
  let ?rest = "concat (map encode_block bs) @ r"
  have st: "stream_at s (?info @ block_body b @ ?rest)"
    using Cons.prems(2) by (simp add: encode_block_def [of b])
  obtain s1 where s1: "istream_read sizeof_BlockInfo s = (True, ?info, s1)" "stream_at s1 (block_body b @ ?rest)"
    by (rule read_prefix [OF st length_block_header])
  have fits: "block_fits h b" and rest: "\<forall>b\<in>set bs. block_fits h b"
    using Cons.prems(1) by simp_all
  obtain s2 where s2: "load_block debug h ?info s1 cd =
      map_option (\<lambda>cd'. (True, s2, cd')) (block_effect debug b cd)" "stream_at s2 ?rest"
    by (rule load_block_prefix [OF fits s1(2)])
  have step: "load_blocks_loop debug h s cd =
      Option.bind (block_effect debug b cd) (load_blocks_loop debug h s2)"
    by (simp add: load_blocks_loop.simps [of debug h s] s1(1) s2(1) map_option_case split: option.split)
  show ?case
  proof (cases "block_effect debug b cd")
    case None
    then show ?thesis
      using Cons.IH [OF rest s2(2), of cd] by (auto simp: step)
  next
    case (Some cd1)
    then show ?thesis
      using Cons.IH [OF rest s2(2), of cd1] by (auto simp: step)
  qed
qed

text \<open>
  What may stand behind the last block without being noticed: less than the header of a block, or a
  block to be skipped that is cut short.
\<close>

definition unnoticed :: "CaptureDataHeader \<Rightarrow> buffer \<Rightarrow> bool" where
  "unnoticed h r \<longleftrightarrow> length r < sizeof_BlockInfo \<or>
     (\<exists>t n tail. r = block_header t n @ tail \<and> length tail < n \<and> n < 2 ^ 63 \<and>
        later_capture h \<and> t \<notin> set known_blocks)"

lemma unnoticed_ends:
  assumes "unnoticed h r" "stream_at s r"
  shows "\<exists>s'. (\<forall>cd. load_blocks_loop debug h s cd = Some (True, s', cd)) \<and> \<not> in_good s'"
proof (cases "length r < sizeof_BlockInfo")
  case True
  let ?s = "s\<lparr>in_pos := in_pos s + length r, in_good := False\<rparr>"
  have "load_blocks_loop debug h s cd = Some (True, ?s, cd)" for cd
    using assms(2) True
    by (simp add: load_blocks_loop.simps [of debug h s] istream_read_def stream_at_def)
  then show ?thesis
    by (intro exI [of _ ?s]) simp
next
  case False
  then obtain t n tail where r: "r = block_header t n @ tail" "length tail < n" "n < 2 ^ 63"
      "later_capture h" "t \<notin> set known_blocks"
    using assms(1) by (auto simp: unnoticed_def)
  obtain s1 where s1: "istream_read sizeof_BlockInfo s = (True, block_header t n, s1)" "stream_at s1 tail"
    by (rule read_prefix [OF assms(2) [unfolded r(1)] length_block_header])
  let ?s = "s1\<lparr>in_pos := in_pos s1 + n\<rparr>"
  have "in_rest ?s = []"
    using s1(2) r(2) by (simp add: stream_at_def)
  then have ended: "istream_read sizeof_BlockInfo ?s = (False, [], ?s\<lparr>in_good := False\<rparr>)"
    using s1(2) by (simp add: istream_read_def stream_at_def sizeof_BlockInfo_def)
  have "load_block debug h (block_header t n) s1 cd = Some (True, ?s, cd)" for cd
    using load_block_later [OF r(4,5)] seekg_forward [OF r(3)] s1(2) by (simp add: stream_at_def)
  then have "load_blocks_loop debug h s cd = load_blocks_loop debug h ?s cd" for cd
    by (simp add: load_blocks_loop.simps [of debug h s] s1(1))
  moreover have "load_blocks_loop debug h ?s cd = Some (True, ?s\<lparr>in_good := False\<rparr>, cd)" for cd
    by (simp add: load_blocks_loop.simps [of debug h ?s] ended)
  ultimately show ?thesis
    by (intro exI [of _ "?s\<lparr>in_good := False\<rparr>"]) simp
qed

lemma load_blocks_prefix:
  assumes "\<forall>b\<in>set bs. block_fits h b" "stream_at s (concat (map encode_block bs) @ r)" and "unnoticed h r"
  shows "\<exists>s'. load_blocks_loop debug h s cd =
      map_option (\<lambda>cd'. (True, s', cd')) (block_effects debug bs cd) \<and> \<not> in_good s'"
proof -
  obtain s1 where s1: "load_blocks_loop debug h s cd =
      Option.bind (block_effects debug bs cd) (load_blocks_loop debug h s1)" "stream_at s1 r"
    using load_blocks_append [OF assms(1,2), of debug cd] by auto
  obtain s2 where "\<And>cd. load_blocks_loop debug h s1 cd = Some (True, s2, cd)" "\<not> in_good s2"
    using unnoticed_ends [OF assms(3) s1(2), of debug] by blast
  then show ?thesis
    using s1(1) by (intro exI [of _ s2]) (simp add: map_option_case split: option.split)
qed

text \<open>A capture file of one capture: the header of the file, the capture block, its blocks.\<close>

definition dive_file :: "CaptureDataHeader \<Rightarrow> dive_block list \<Rightarrow> buffer" where
  "dive_file h bs =
     le32_bytes kDiveFileId @ le32_bytes kDiveFileVersion @
     block_header block_kCapture sizeof_CaptureDataHeader @ data_header_bytes h @
     concat (map encode_block bs)"

text \<open>What the file means: its header, then the effects of its blocks in order, then \<open>Finalize\<close>.\<close>

definition dive_capture ::
    "bool \<Rightarrow> CaptureDataHeader \<Rightarrow> dive_block list \<Rightarrow> Pm4CaptureData \<Rightarrow> Pm4CaptureData option" where
  "dive_capture debug h bs cd =
     do {
       cd \<leftarrow> block_effects debug bs (cd\<lparr>m_data_header := h, m_capture_type := h_capture_type h\<rparr>);
       Pm4CaptureData_Finalize debug h cd
     }"

lemma le16_bytes [simp]: "le16 (ucast a # ucast (drop_bit 8 a) # r) = (a :: u16)"
  by (rule bit_eqI) (auto simp: le16_def bit_simps)

lemma data_header_inverse [simp]: "data_header_of (data_header_bytes h) = h"
  by (simp add: data_header_of_def data_header_bytes_def)

lemma length_data_header [simp]: "length (data_header_bytes h) = sizeof_CaptureDataHeader"
  by (simp add: data_header_bytes_def sizeof_CaptureDataHeader_def)

lemma stream_ended: "\<not> in_good s \<Longrightarrow> istream_read n s = (False, [], s)"
  by (simp add: istream_read_def)

text \<open>The headers of the file and of the capture block lead to \<^verbatim>\<open>LoadCapture\<close>.\<close>

lemma dive_headers:
  assumes "stream_at s (dive_file h bs @ r)" "\<not> incompatible_version h"
  shows "\<exists>s'. LoadCaptureFileStream debug s cd =
      (do { (ok, s, cd) \<leftarrow> LoadCapture debug h s' (cd\<lparr>m_data_header := h, m_capture_type := h_capture_type h\<rparr>);
            if \<not> ok then Some (kCorruptData, cd) else capture_stream_loop debug s cd }) \<and>
    stream_at s' (concat (map encode_block bs) @ r)"
proof -
  let ?blocks = "concat (map encode_block bs) @ r"
  let ?fh = "le32_bytes kDiveFileId @ le32_bytes kDiveFileVersion"
  let ?info = "block_header block_kCapture sizeof_CaptureDataHeader"
  have st: "stream_at s (?fh @ ?info @ data_header_bytes h @ ?blocks)"
    using assms(1) by (simp add: dive_file_def)
  obtain s1 where s1: "istream_read 8 s = (True, ?fh, s1)" "stream_at s1 (?info @ data_header_bytes h @ ?blocks)"
    by (rule read_prefix [OF st, of 8]) simp_all
  obtain s2 where s2: "istream_read sizeof_BlockInfo s1 = (True, ?info, s2)" "stream_at s2 (data_header_bytes h @ ?blocks)"
    by (rule read_prefix [OF s1(2) length_block_header])
  obtain s3 where s3: "istream_read sizeof_CaptureDataHeader s2 = (True, data_header_bytes h, s3)" "stream_at s3 ?blocks"
    by (rule read_prefix [OF s2(2) length_data_header])
  have "capture_stream_loop debug s1 cd =
      (do { (ok, s, cd) \<leftarrow> LoadCapture debug h s3 (cd\<lparr>m_data_header := h, m_capture_type := h_capture_type h\<rparr>);
            if \<not> ok then Some (kCorruptData, cd) else capture_stream_loop debug s cd })"
    using assms(2) by (simp add: capture_stream_loop.simps [of debug s1] s2(1) s3(1))
  then show ?thesis
    using s3(2) by (intro exI [of _ s3])
      (simp add: LoadCaptureFileStream_def s1(1) le32_append_bytes [of _ "[]", simplified])
qed

text \<open>
  What is not noticed at the end of the file does not matter: the loop takes the short read for the end.
\<close>

lemma LoadDiveFile_loads:
  assumes "\<forall>b\<in>set bs. block_fits h b" "\<not> incompatible_version h" "unnoticed h r"
  shows "LoadDiveFile debug file_name (Some (dive_file h bs @ r)) cd =
      map_option (\<lambda>cd. (kSuccess, cd\<lparr>m_cur_capture_file := file_name\<rparr>)) (dive_capture debug h bs cd)"
proof -
  let ?s = "\<lparr>in_bytes = dive_file h bs @ r, in_pos = 0, in_good = True\<rparr>"
  let ?cd = "cd\<lparr>m_data_header := h, m_capture_type := h_capture_type h\<rparr>"
  have st: "stream_at ?s (dive_file h bs @ r)"
    by (simp add: stream_at_def in_rest_def)
  obtain s3 where s3: "LoadCaptureFileStream debug ?s cd =
      (do { (ok, s, cd) \<leftarrow> LoadCapture debug h s3 ?cd;
            if \<not> ok then Some (kCorruptData, cd) else capture_stream_loop debug s cd })"
      "stream_at s3 (concat (map encode_block bs) @ r)"
    using dive_headers [OF st assms(2), of debug cd] by auto
  obtain s4 where s4: "load_blocks_loop debug h s3 ?cd =
      map_option (\<lambda>cd'. (True, s4, cd')) (block_effects debug bs ?cd)" "\<not> in_good s4"
    using load_blocks_prefix [OF assms(1) s3(2) assms(3), of debug ?cd] by blast
  have ended: "capture_stream_loop debug s4 cd' = Some (kSuccess, cd')" for cd'
    by (simp add: capture_stream_loop.simps [of debug s4] stream_ended [OF s4(2)])
  have "LoadCapture debug h s3 ?cd = map_option (\<lambda>cd'. (True, s4, cd')) (dive_capture debug h bs cd)"
    by (simp add: LoadCapture_def s4(1) dive_capture_def map_option_case split: option.split)
  then have "LoadCaptureFileStream debug ?s cd = map_option (\<lambda>cd. (kSuccess, cd)) (dive_capture debug h bs cd)"
    by (simp add: s3(1) ended map_option_case split: option.split)
  then show ?thesis
    by (simp add: LoadDiveFile_def map_option_case split: option.split)
qed

subsection \<open>Files cut short\<close>

definition refuses :: "loader \<Rightarrow> buffer \<Rightarrow> bool" where
  "refuses ld r \<longleftrightarrow> (\<forall>s cd. stream_at s r \<longrightarrow> (\<exists>s'. ld s cd = Some (False, s', cd)))"

lemma read_or_fail_short:
  assumes "length r < n"
  shows "refuses (read_or_fail n k) r"
  using assms by (auto simp: refuses_def read_or_fail_def istream_read_def stream_at_def)

text \<open>A read is refused on a cut input when its continuation is refused on what stands behind the read.\<close>

lemma read_or_fail_cut:
  assumes "length bs = n" "j < length (bs @ r)"
    and rest: "\<And>i. i < length r \<Longrightarrow> refuses (k bs) (take i r)"
  shows "refuses (read_or_fail n k) (take j (bs @ r))"
proof (cases "j < n")
  case True
  then show ?thesis
    using assms(1) by (intro read_or_fail_short) simp
next
  case False
  then have cut: "take j (bs @ r) = bs @ take (j - n) r" and i: "j - n < length r"
    using assms(1,2) by auto
  show ?thesis
    unfolding refuses_def cut
  proof (intro allI impI)
    fix s cd
    assume "stream_at s (bs @ take (j - n) r)"
    then obtain s1 where "read_or_fail n k s cd = k bs s1 cd" "stream_at s1 (take (j - n) r)"
      using read_or_fail_prefix [OF _ assms(1)] by blast
    then show "\<exists>s'. read_or_fail n k s cd = Some (False, s', cd)"
      using rest [OF i] by (auto simp: refuses_def)
  qed
qed

text \<open>A line that the end of the file cut short is delivered; then the stream has ended.\<close>

lemma line_or_fail_cut:
  assumes "0 \<notin> set line" "j < length (line @ 0 # r)"
    and rest: "\<And>i. i < length r \<Longrightarrow> refuses (k line) (take i r)"
    and ended: "\<And>cut s cd. \<not> in_good s \<Longrightarrow> \<exists>s'. k cut s cd = Some (False, s', cd)"
  shows "refuses (line_or_fail k) (take j (line @ 0 # r))"
proof (cases "j \<le> length line")
  case True
  have nz: "\<forall>b\<in>set (take j line). b \<noteq> 0"
    using assms(1) by (metis in_set_takeD)
  then have line: "takeWhile (\<lambda>b. b \<noteq> 0) (take j line) = take j line"
    by (simp add: takeWhile_eq_all_conv)
  show ?thesis
    unfolding refuses_def
  proof (intro allI impI)
    fix s cd
    assume "stream_at s (take j (line @ 0 # r))"
    then have st: "in_good s" "in_rest s = take j line"
      using True by (simp_all add: stream_at_def)
    show "\<exists>s'. line_or_fail k s cd = Some (False, s', cd)"
      using ended [of "s\<lparr>in_pos := in_pos s + length (take j line), in_good := False\<rparr>" "take j line" cd]
      by (auto simp: line_or_fail_def istream_getline_def st line Let_def split: bool.split)
  qed
next
  case False
  then have cut: "take j (line @ 0 # r) = line @ 0 # take (j - length line - 1) r"
    and i: "j - length line - 1 < length r"
    using assms(2) by (auto simp: take_Cons' )
  show ?thesis
    unfolding refuses_def cut
  proof (intro allI impI)
    fix s cd
    assume "stream_at s (line @ 0 # take (j - length line - 1) r)"
    then obtain s1 where "line_or_fail k s cd = k line s1 cd" "stream_at s1 (take (j - length line - 1) r)"
      using line_or_fail_prefix [OF _ assms(1)] by blast
    then show "\<exists>s'. line_or_fail k s cd = Some (False, s', cd)"
      using rest [OF i] by (auto simp: refuses_def)
  qed
qed

lemma read_or_fail_ended: "\<not> in_good s \<Longrightarrow> \<exists>s'. read_or_fail n k s cd = Some (False, s', cd)"
  by (simp add: read_or_fail_def stream_ended)

lemma load_ibs_cut:
  "j < length (concat (map ib_bytes ans)) \<Longrightarrow>
   refuses (load_ibs (length ans) k ibs) (take j (concat (map ib_bytes ans)))"
proof (induction ans arbitrary: ibs j)
  case (Cons an ans)
  have "refuses (read_or_fail 16 (\<lambda>bs. load_ibs (length ans) k (ibs @ [ib_of bs])))
      (take j (ib_bytes an @ concat (map ib_bytes ans)))"
    by (rule read_or_fail_cut) (use Cons in \<open>simp_all add: ib_bytes_def [of an]\<close>)
  then show ?case
    by simp
qed simp

lemma load_registers_cut:
  assumes "\<forall>nv\<in>set nvs. 0 \<notin> set (fst nv)" "j < length (concat (map register_bytes nvs))"
  shows "refuses (load_registers (length nvs) regs) (take j (concat (map register_bytes nvs)))"
  using assms
proof (induction nvs arbitrary: regs j)
  case (Cons nv nvs)
  have inner: "refuses (read_or_fail 4 (\<lambda>bs. load_registers (length nvs)
      (if regs (fst nv) = None then regs(fst nv \<mapsto> le32 bs) else regs)))
      (take i (le32_bytes (snd nv) @ concat (map register_bytes nvs)))"
    if "i < length (le32_bytes (snd nv) @ concat (map register_bytes nvs))" for i
    by (rule read_or_fail_cut [OF _ that]) (use Cons in simp_all)
  have "refuses (load_registers (length (nv # nvs)) regs)
      (take j (fst nv @ 0 # (le32_bytes (snd nv) @ concat (map register_bytes nvs))))"
    unfolding length_Cons load_registers.simps
    by (rule line_or_fail_cut)
      (use Cons.prems inner in \<open>simp_all add: register_bytes_def [of nv] read_or_fail_ended\<close>)
  then show ?case
    by (simp add: register_bytes_def [of nv])
qed simp

text \<open>What the assertions of a debug build ask of the blocks that are loaded into \<open>cd\<close>.\<close>

fun is_registers :: "dive_block \<Rightarrow> bool" where
  "is_registers (DRegisters regs) \<longleftrightarrow> True"
| "is_registers _ \<longleftrightarrow> False"

fun is_waves :: "dive_block \<Rightarrow> bool" where
  "is_waves (DWaves ws) \<longleftrightarrow> True"
| "is_waves _ \<longleftrightarrow> False"

fun is_allocs :: "MemoryAllocationsType \<Rightarrow> dive_block \<Rightarrow> bool" where
  "is_allocs type (DAlloc t as) \<longleftrightarrow> allocations_type t = type"
| "is_allocs type _ \<longleftrightarrow> False"

fun is_later :: "dive_block \<Rightarrow> bool" where
  "is_later (DLater t bytes) \<longleftrightarrow> True"
| "is_later _ \<longleftrightarrow> False"

fun block_checked :: "dive_block \<Rightarrow> bool" where
  "block_checked (DAlloc t as) \<longleftrightarrow> as \<noteq> []"
| "block_checked (DWaves ws) \<longleftrightarrow> list_all wave_checked ws"
| "block_checked _ \<longleftrightarrow> True"

definition at_most_one :: "(dive_block \<Rightarrow> bool) \<Rightarrow> bool \<Rightarrow> dive_block list \<Rightarrow> bool" where
  "at_most_one P none_yet bs \<longleftrightarrow> length (filter P bs) \<le> (if none_yet then 1 else 0)"

definition asserts_hold :: "bool \<Rightarrow> dive_block list \<Rightarrow> Pm4CaptureData \<Rightarrow> bool" where
  "asserts_hold debug bs cd \<longleftrightarrow>
     (debug \<longrightarrow> list_all block_checked bs \<and>
        at_most_one is_registers (m_registers cd = Map.empty) bs \<and> at_most_one is_waves (m_waves cd = []) bs \<and>
        at_most_one (is_allocs kInternalAllocs) (m_internal_allocs (m_memory_allocations (m_memory cd)) = []) bs \<and>
        at_most_one (is_allocs kGlobalAllocs) (m_global_allocs (m_memory_allocations (m_memory cd)) = []) bs)"

lemma at_most_one_Cons: "at_most_one P n (b # bs) \<longleftrightarrow> (if P b then n \<and> filter P bs = [] else at_most_one P n bs)"
  by (auto simp: at_most_one_def)

lemma at_most_one_none: "filter P bs = [] \<Longrightarrow> at_most_one P n bs"
  by (simp add: at_most_one_def)

text \<open>The assertions for the first block hold, and those for the others after it.\<close>

lemma asserts_hold_Cons:
  assumes "asserts_hold debug (b # bs) cd"
  shows "asserts_hold debug [b] cd \<and> (\<exists>cd'. block_effect debug b cd = Some cd' \<and> asserts_hold debug bs cd')"
proof -
  have "asserts_hold debug [b] cd"
    using assms by (auto simp: asserts_hold_def at_most_one_def)
  moreover have "\<exists>cd'. block_effect debug b cd = Some cd' \<and> asserts_hold debug bs cd'"
  proof (cases b)
    case (DAlloc t as)
    then show ?thesis
      using assms
      by (cases "allocations_type t"; cases debug)
        (auto simp: asserts_hold_def at_most_one_Cons at_most_one_none MemoryManager_AddMemoryAllocations_def
          MemoryAllocationInfo_AddMemoryAllocations_def split: if_splits)
  qed (use assms in \<open>cases debug; auto simp: asserts_hold_def at_most_one_Cons at_most_one_none AddMemoryBlock_def\<close>)+
  ultimately show ?thesis by blast
qed

lemma asserts_hold_append:
  "asserts_hold debug (bs @ [b]) cd \<Longrightarrow>
     asserts_hold debug bs cd \<and> (\<exists>cd'. block_effects debug bs cd = Some cd' \<and> asserts_hold debug [b] cd')"
proof (induction bs arbitrary: cd)
  case Nil
  then show ?case
    by (auto simp: asserts_hold_def at_most_one_def)
next
  case (Cons c bs)
  obtain cd1 where "block_effect debug c cd = Some cd1" "asserts_hold debug (bs @ [b]) cd1"
    using asserts_hold_Cons [of debug c "bs @ [b]" cd] Cons.prems by auto
  moreover have "asserts_hold debug (c # bs) cd"
    using Cons.prems by (auto simp: asserts_hold_def at_most_one_def split: if_splits)
  ultimately show ?case
    using Cons.IH [of cd1] by auto
qed

lemma alloc_block_cut:
  assumes "length as \<le> kMaxNumMemAlloc" "debug \<longrightarrow> as \<noteq> []" "j < length (block_body (DAlloc t as))"
  shows "refuses (LoadMemoryAllocBlock debug) (take j (block_body (DAlloc t as)))"
proof -
  let ?h = "le32_bytes (word_of_nat (length as)) @ le32_bytes t"
  have n: "unat (le32 ?h) = length as"
    using assms(1) by (simp add: unat_of_nat kMaxNumMemAlloc_def)
  have "DIVE_ASSERT debug (0 < length as) = Some ()"
    using assms(2) by (auto simp: DIVE_ASSERT_def)
  then have "refuses (LoadMemoryAllocBlock debug) (take j (?h @ concat (map allocation_bytes as)))"
    unfolding LoadMemoryAllocBlock_def Let_def
    by (intro read_or_fail_cut) (use assms(1,3) n in \<open>simp_all add: read_or_fail_short\<close>)
  then show ?thesis by simp
qed

lemma read_words_cut:
  assumes "j < length (words_bytes ws @ r)" and rest: "\<And>i. i < length r \<Longrightarrow> refuses (k ws) (take i r)"
  shows "refuses (read_words (length ws) k) (take j (words_bytes ws @ r))"
proof (cases "ws = []")
  case True
  then show ?thesis
    using assms by (simp add: read_words_def words_bytes_def)
next
  case False
  have "refuses (read_or_fail (length ws * 4) (\<lambda>bs. k (le32_array (length ws) bs))) (take j (words_bytes ws @ r))"
    by (rule read_or_fail_cut [OF _ assms(1)]) (simp_all add: rest)
  then show ?thesis
    using False by (simp add: read_words_def)
qed

lemma read_wave_cut:
  assumes "wave_fits h w"
    and "j < length (words_bytes (w_sgprs w) @ words_bytes (w_vgprs w) @ words_bytes (w_ttmps w) @ r)"
    and rest: "\<And>i. i < length r \<Longrightarrow> refuses (k w) (take i r)"
  shows "refuses (read_wave h (w_state w) k)
    (take j (words_bytes (w_sgprs w) @ words_bytes (w_vgprs w) @ words_bytes (w_ttmps w) @ r))"
proof -
  have n: "unat (w_state w ! 1) = length (w_sgprs w)" "unat (w_state w ! 2) = length (w_vgprs w)"
    "(if captured_ttmps h (w_state w ! 4) then 16 else 0) = length (w_ttmps w)"
    using assms(1) by (simp_all add: wave_fits_def)
  have w: "\<lparr>w_state = w_state w, w_sgprs = w_sgprs w, w_vgprs = w_vgprs w, w_ttmps = w_ttmps w\<rparr> = w"
    by (cases w) simp
  show ?thesis
    unfolding read_wave_def n by (intro read_words_cut assms(2)) (simp_all add: w rest)
qed

lemma load_waves_cut:
  assumes "\<forall>w\<in>set ws. wave_fits h w" "debug \<longrightarrow> list_all wave_checked ws" "j < length (concat (map wave_bytes ws))"
  shows "refuses (load_waves debug h (length ws) waves) (take j (concat (map wave_bytes ws)))"
  using assms
proof (induction ws arbitrary: waves j)
  case (Cons w ws)
  let ?r = "concat (map wave_bytes ws)"
  let ?regs = "words_bytes (w_sgprs w) @ words_bytes (w_vgprs w) @ words_bytes (w_ttmps w) @ ?r"
  have fits: "wave_fits h w" "\<forall>w\<in>set ws. wave_fits h w"
    using Cons.prems(1) by simp_all
  note st = wave_state_read [OF fits(1)]
  have checks: "DIVE_ASSERT debug (w_state w ! 0 = 64) = Some ()"
    "DIVE_ASSERT debug (w_state w ! 2 mod w_state w ! 0 = 0) = Some ()"
    using Cons.prems(2) by (auto simp: DIVE_ASSERT_def wave_checked_def)
  have small: "\<not> (unat (w_state w ! 1) > kMaxNumSGPRPerWave \<or> unat (w_state w ! 2) > kMaxNumVGPRPerWave)"
    using fits(1) by (auto simp: wave_fits_def)
  have inner: "refuses (read_wave h (w_state w) (\<lambda>w. load_waves debug h (length ws) (waves @ [w]))) (take i ?regs)"
    if "i < length ?regs" for i
    by (rule read_wave_cut [OF fits(1) that]) (use Cons.IH fits(2) Cons.prems(2) in simp)
  have "refuses (load_waves debug h (length (w # ws)) waves) (take j (words_bytes (w_state w) @ ?regs))"
    unfolding length_Cons load_waves_step
    by (rule read_or_fail_cut [OF st(1)])
      (use Cons.prems(3) inner small in
        \<open>simp_all add: wave_bytes_def [of w] st(2) checks(1) checks(2) [simplified] refuses_def del: take_append\<close>)
  then show ?case
    by (simp add: wave_bytes_def [of w])
qed simp

lemma load_block_cut:
  assumes "block_fits h b" "j < length (block_body b)" "\<not> is_later b" "asserts_hold debug [b] cd"
    and "stream_at s (take j (block_body b))"
  shows "\<exists>s'. load_block debug h (block_header (block_type_code b) n) s cd = Some (False, s', cd)"
proof (cases b)
  case (DSubmit e q i dummy ibs)
  let ?h = "[word_of_nat (length ibs), if dummy then 0x80 else 0, engine_byte e, queue_byte q, i, 0] :: buffer"
  have ld: "load_block debug h (block_header (block_type_code b) n) = LoadSubmitBlock"
    using DSubmit by (intro ext) (simp add: load_block_def)
  have n: "unat (?h ! 0) = length ibs"
    using assms(1) DSubmit by (simp add: unat_of_nat)
  have "refuses LoadSubmitBlock (take j (?h @ concat (map ib_bytes ibs)))"
    unfolding LoadSubmitBlock_def
  proof (rule read_or_fail_cut)
    show "refuses (load_ibs (unat (?h ! 0)) (\<lambda>ibs s cd. Some (True, s,
        cd\<lparr>m_submits := m_submits cd @ [submit_of ?h ibs]\<rparr>)) []) (take i (concat (map ib_bytes ibs)))"
      if "i < length (concat (map ib_bytes ibs))" for i
      unfolding n by (rule load_ibs_cut [OF that])
  qed (use assms(2) DSubmit in simp_all)
  then show ?thesis
    using assms(5) unfolding ld by (simp add: DSubmit refuses_def)
next
  case (DMemory a bytes)
  let ?h = "le64_bytes a @ le32_bytes (word_of_nat (length bytes)) @ [0, 0, 0, 0]"
  have ld: "load_block debug h (block_header (block_type_code b) n) = LoadMemoryBlock"
    using DMemory by (intro ext) (simp add: load_block_def)
  have n: "unat (le32 (drop 8 ?h)) = length bytes" "length bytes \<le> kMaxMemAllocSize"
    using assms(1) DMemory by (simp_all add: unat_of_nat kMaxMemAllocSize_def)
  have "refuses LoadMemoryBlock (take j (?h @ bytes))"
    unfolding LoadMemoryBlock_def Let_def
    by (rule read_or_fail_cut)
      (use assms(2) DMemory n in \<open>simp_all add: read_or_fail_short\<close>)
  then show ?thesis
    using assms(5) unfolding ld by (simp add: DMemory refuses_def)
next
  case (DText name content)
  let ?h = "le32_bytes (word_of_nat (length name)) @ [0, 0, 0, 0] @
      le64_bytes (word_of_nat (length content)) @ replicate 8 0"
  have ld: "load_block debug h (block_header (block_type_code b) n) = LoadTextBlock"
    using DText by (intro ext) (simp add: load_block_def)
  have n: "unat (le32 ?h) = length name" "unat (le64 (drop 8 ?h)) = length content"
      "length name \<le> kMaxStrLen" "length content \<le> kMaxMemAllocSize" "0 \<notin> set name"
    using assms(1) DText by (simp_all add: unat_of_nat kMaxMemAllocSize_def kMaxStrLen_def)
  define H where "H nm body s cd = Some (True, s :: istream, cd\<lparr>m_text := m_text cd @
      [\<lparr>t_name = nm, t_size = le64 (drop 8 ?h), t_text = body\<rparr>]\<rparr>)"
    for nm body :: buffer and s and cd :: Pm4CaptureData
  have inner: "refuses (line_or_fail (\<lambda>nm. read_or_fail (length content) (H nm)))
      (take i (name @ 0 # content))" if "i < length (name @ 0 # content)" for i
    by (rule line_or_fail_cut [OF n(5) that]) (auto intro: read_or_fail_short read_or_fail_ended)
  have "refuses LoadTextBlock (take j (?h @ (name @ 0 # content)))"
    unfolding LoadTextBlock_def
    by (rule read_or_fail_cut)
      (use assms(2) DText n inner in \<open>simp_all add: refuses_def H_def [abs_def] del: take_append\<close>)
  then show ?thesis
    using assms(5) unfolding ld by (simp add: DText refuses_def)
next
  case (DRegisters regs)
  let ?h = "le32_bytes (word_of_nat (length regs)) @ replicate 12 0"
  have ld: "load_block debug h (block_header (block_type_code b) n) = LoadRegisterBlock debug"
    using DRegisters by (intro ext) (simp add: load_block_def)
  have n: "unat (le32 ?h) = length regs"
    using assms(1) DRegisters by (simp add: unat_of_nat)
  have "refuses (read_or_fail 16 (\<lambda>header. load_registers (unat (le32 header)) Map.empty))
      (take j (?h @ concat (map register_bytes regs)))"
    by (rule read_or_fail_cut) (use assms DRegisters n load_registers_cut in simp_all)
  moreover have "DIVE_ASSERT debug (m_registers cd = Map.empty) = Some ()"
    using assms(4) DRegisters by (auto simp: asserts_hold_def at_most_one_def DIVE_ASSERT_def split: if_splits)
  ultimately show ?thesis
    using assms(5) unfolding ld by (simp add: DRegisters LoadRegisterBlock_def refuses_def)
next
  case (DAlloc t as)
  have ld: "load_block debug h (block_header (block_type_code b) n) = LoadMemoryAllocBlock debug"
    using DAlloc by (intro ext) (simp add: load_block_def)
  have "refuses (LoadMemoryAllocBlock debug) (take j (block_body b))"
    unfolding DAlloc by (rule alloc_block_cut) (use assms(1,2,4) DAlloc in \<open>simp_all add: asserts_hold_def\<close>)
  then show ?thesis
    using assms(5) unfolding ld by (simp add: refuses_def)
next
  case (DPresent bytes)
  have ld: "load_block debug h (block_header (block_type_code b) n) = LoadPresentBlock"
    using DPresent by (intro ext) (simp add: load_block_def)
  have "refuses LoadPresentBlock (take j (block_body b))"
    unfolding LoadPresentBlock_def by (rule read_or_fail_short) (use assms(1,2) DPresent in simp)
  then show ?thesis
    using assms(5) unfolding ld by (simp add: refuses_def)
next
  case (DWaves ws)
  let ?h = "le32_bytes (word_of_nat (length ws)) @ replicate 12 0"
  have ld: "load_block debug h (block_header (block_type_code b) n) = LoadWaveStateBlock debug h"
    using DWaves by (intro ext) (simp add: load_block_def)
  have n: "unat (le32 ?h) = length ws" "length ws \<le> kMaxNumWavesPerBlock"
    using assms(1) DWaves by (simp_all add: unat_of_nat kMaxNumWavesPerBlock_def)
  have waves: "refuses (load_waves debug h (length ws) []) (take i (concat (map wave_bytes ws)))"
    if "i < length (concat (map wave_bytes ws))" for i
    by (rule load_waves_cut [OF _ _ that]) (use assms(1,4) DWaves in \<open>simp_all add: asserts_hold_def\<close>)
  have "refuses (read_or_fail 16 (\<lambda>header s cd. if unat (le32 header) > kMaxNumWavesPerBlock then Some (False, s, cd)
      else load_waves debug h (unat (le32 header)) [] s cd)) (take j (?h @ concat (map wave_bytes ws)))"
    by (rule read_or_fail_cut) (use assms(2) DWaves n waves in \<open>simp_all add: refuses_def del: take_append\<close>)
  moreover have "DIVE_ASSERT debug (m_waves cd = []) = Some ()"
    using assms(4) DWaves by (auto simp: asserts_hold_def at_most_one_def DIVE_ASSERT_def split: if_splits)
  ultimately show ?thesis
    using assms(5) unfolding ld by (simp add: DWaves LoadWaveStateBlock_def refuses_def)
qed (use assms(2,3) in simp_all)

text \<open>
  A file that ends inside a block, behind its header, is refused as corrupt; the blocks before it stay
  loaded.
\<close>

lemma LoadDiveFile_cut:
  assumes "\<forall>b\<in>set bs. block_fits h b" "block_fits h b" "\<not> is_later b" "\<not> incompatible_version h"
    and "j < length (block_body b)"
    and cd: "block_effects debug bs (cd\<lparr>m_data_header := h, m_capture_type := h_capture_type h\<rparr>) = Some cd'"
      "asserts_hold debug [b] cd'"
  shows "LoadDiveFile debug file_name
      (Some (dive_file h bs @ block_header (block_type_code b) (block_size b) @ take j (block_body b))) cd =
      Some (kCorruptData, cd')"
proof -
  let ?cut = "block_header (block_type_code b) (block_size b) @ take j (block_body b)"
  let ?s = "\<lparr>in_bytes = dive_file h bs @ ?cut, in_pos = 0, in_good = True\<rparr>"
  let ?cd = "cd\<lparr>m_data_header := h, m_capture_type := h_capture_type h\<rparr>"
  let ?rest = "concat (map encode_block bs) @ ?cut"
  have st: "stream_at ?s (dive_file h bs @ ?cut)"
    by (simp add: stream_at_def in_rest_def)
  obtain s3 where s3: "LoadCaptureFileStream debug ?s cd =
      (do { (ok, s, cd) \<leftarrow> LoadCapture debug h s3 ?cd;
            if \<not> ok then Some (kCorruptData, cd) else capture_stream_loop debug s cd })" "stream_at s3 ?rest"
    using dive_headers [OF st assms(4), of debug cd] by auto
  obtain s4 where s4: "load_blocks_loop debug h s3 ?cd = load_blocks_loop debug h s4 cd'" "stream_at s4 ?cut"
    using load_blocks_append [OF assms(1) s3(2), of debug ?cd] cd(1) by auto
  obtain s5 where s5: "istream_read sizeof_BlockInfo s4 =
      (True, block_header (block_type_code b) (block_size b), s5)" "stream_at s5 (take j (block_body b))"
    by (rule read_prefix [OF s4(2) length_block_header])
  obtain s6 where "load_block debug h (block_header (block_type_code b) (block_size b)) s5 cd' =
      Some (False, s6, cd')"
    using load_block_cut [OF assms(2,5,3) cd(2) s5(2)] by blast
  then have "load_blocks_loop debug h s4 cd' = Some (False, s6, cd')"
    by (simp add: load_blocks_loop.simps [of debug h s4] s5(1))
  then have "LoadCapture debug h s3 ?cd = Some (False, s6, cd')"
    by (simp add: LoadCapture_def s4(1))
  then show ?thesis
    by (simp add: LoadDiveFile_def s3(1))
qed

text \<open>
  A block that a later revision added is skipped by its size, which the stream takes as signed: a block
  of size \<open>2 ^ 64 - 16\<close> is read again and again.
\<close>

lemma unknown_block_read_forever:
  assumes "later_capture h" "t \<notin> set known_blocks" "stream_at s (block_header t (2 ^ 64 - 16) @ r)"
  shows "load_blocks_loop debug h s cd = None"
proof -
  let ?info = "block_header t (2 ^ 64 - 16)"
  let ?s = "s\<lparr>in_pos := in_pos s + sizeof_BlockInfo\<rparr>"
  have read: "istream_read sizeof_BlockInfo s = (True, ?info, ?s)"
    using assms(3) by (simp add: istream_read_def stream_at_def)
  have size: "le64 (drop 8 ?info) = - 16"
    by (simp add: block_header_def le64_append [of _ "[]", simplified])
  have "istream_seekg (- 16) ?s = s"
    using assms(3) by (simp add: istream_seekg_def stream_at_def sizeof_BlockInfo_def)
  then have skip: "load_block debug' h ?info ?s cd' = Some (True, s, cd')" for debug' cd'
    using assms(1,2) by (simp add: load_block_def known_blocks_def size [simplified])
  have "t = s \<longrightarrow> g \<noteq> h" if "load_blocks_loop d g t c = Some y" for d g t c y
    by (rule load_blocks_loop.raw_induct [where P = "\<lambda>d g t c y. t = s \<longrightarrow> g \<noteq> h", OF _ that])
      (fastforce simp: read skip [simplified])
  then show ?thesis
    by (metis not_None_eq)
qed


subsection \<open>What a file leaves\<close>

fun file_submits :: "dive_block list \<Rightarrow> SubmitInfo list" where
  "file_submits [] = []"
| "file_submits (DSubmit e q i dummy ibs # bs) =
     \<lparr>m_engine_type = e, m_queue_type = q, m_engine_index = i, m_is_dummy_submit = dummy,
      m_ibs = map (\<lambda>(a, n). rd_ib a n False) ibs\<rparr> # file_submits bs"
| "file_submits (_ # bs) = file_submits bs"

text \<open>The memory blocks and presents, each under the index of the submit that stands before it, \<open>k\<close> of them.\<close>

fun file_memory :: "nat \<Rightarrow> dive_block list \<Rightarrow> MemoryBlock list" where
  "file_memory k [] = []"
| "file_memory k (DSubmit e q i dummy ibs # bs) = file_memory (Suc k) bs"
| "file_memory k (DMemory a bytes # bs) =
     \<lparr>mb_va_addr = a, mb_submit_index = word_of_nat k - 1, mb_data_size = word_of_nat (length bytes),
      mb_data = bytes\<rparr> # file_memory k bs"
| "file_memory k (_ # bs) = file_memory k bs"

fun file_presents :: "nat \<Rightarrow> dive_block list \<Rightarrow> PresentInfo list" where
  "file_presents k [] = []"
| "file_presents k (DSubmit e q i dummy ibs # bs) = file_presents (Suc k) bs"
| "file_presents k (DPresent bytes # bs) = present_of (word_of_nat k - 1) bytes # file_presents k bs"
| "file_presents k (_ # bs) = file_presents k bs"

fun file_texts :: "dive_block list \<Rightarrow> TextInfo list" where
  "file_texts [] = []"
| "file_texts (DText name text # bs) =
     \<lparr>t_name = name, t_size = word_of_nat (length text), t_text = text\<rparr> # file_texts bs"
| "file_texts (_ # bs) = file_texts bs"

text \<open>The waves and registers are those of the last block of them.\<close>

fun file_waves :: "WaveStateInfo list \<Rightarrow> dive_block list \<Rightarrow> WaveStateInfo list" where
  "file_waves ws [] = ws"
| "file_waves ws (DWaves ws' # bs) = file_waves ws' bs"
| "file_waves ws (_ # bs) = file_waves ws bs"

fun file_registers :: "(buffer \<rightharpoonup> u32) \<Rightarrow> dive_block list \<Rightarrow> (buffer \<rightharpoonup> u32)" where
  "file_registers regs [] = regs"
| "file_registers regs (DRegisters nvs # bs) = file_registers (emplace_all nvs Map.empty) bs"
| "file_registers regs (_ # bs) = file_registers regs bs"

lemma AddMemoryAllocations_blocks:
  "MemoryManager_AddMemoryAllocations debug type as mm = Some mm' \<Longrightarrow>
     m_memory_blocks mm' = m_memory_blocks mm \<and> m_last_used_block_ptr mm' = m_last_used_block_ptr mm"
  by (auto simp: MemoryManager_AddMemoryAllocations_def)

lemma block_effects_leave:
  assumes "block_effects debug bs cd = Some cd'"
  shows "m_submits cd' = m_submits cd @ file_submits bs \<and>
    m_memory_blocks (m_memory cd') = m_memory_blocks (m_memory cd) @ file_memory (length (m_submits cd)) bs \<and>
    (m_last_used_block_ptr (m_memory cd) = null_block \<longrightarrow> m_last_used_block_ptr (m_memory cd') = null_block) \<and>
    m_presents cd' = m_presents cd @ file_presents (length (m_submits cd)) bs \<and>
    m_text cd' = m_text cd @ file_texts bs \<and> m_waves cd' = file_waves (m_waves cd) bs \<and>
    m_registers cd' = file_registers (m_registers cd) bs"
  using assms
proof (induction bs arbitrary: cd)
  case (Cons b bs)
  then obtain cd1 where cd1: "block_effect debug b cd = Some cd1" "block_effects debug bs cd1 = Some cd'"
    by (auto split: bind_splits)
  note IH = Cons.IH [OF cd1(2)]
  show ?case
  proof (cases b)
    case (DAlloc t as)
    obtain mm where mm: "MemoryManager_AddMemoryAllocations debug (allocations_type t) as (m_memory cd) = Some mm"
      "cd1 = cd\<lparr>m_memory := mm\<rparr>"
      using cd1(1) DAlloc by (auto split: bind_splits)
    show ?thesis
      using IH AddMemoryAllocations_blocks [OF mm(1)] DAlloc by (simp add: mm(2))
  next
    case (DRegisters regs)
    then have "cd1 = cd\<lparr>m_registers := emplace_all regs Map.empty\<rparr>"
      using cd1(1) by (auto split: bind_splits)
    then show ?thesis
      using IH DRegisters by simp
  next
    case (DWaves ws)
    then have "cd1 = cd\<lparr>m_waves := ws\<rparr>"
      using cd1(1) by (auto split: bind_splits)
    then show ?thesis
      using IH DWaves by simp
  next
    case (DMemory a bytes)
    then show ?thesis
      using IH cd1(1) by (auto simp: AddMemoryBlock_def moved_def)
  qed (use IH cd1(1) in auto)
qed simp

lemma block_effects_defined: "asserts_hold debug bs cd \<Longrightarrow> \<exists>cd'. block_effects debug bs cd = Some cd'"
proof (induction bs arbitrary: cd)
  case (Cons b bs)
  then show ?case
    using asserts_hold_Cons [OF Cons.prems] by auto
qed simp

text \<open>
  Whether memory is kept per submit or as one is a flag of the header; \<open>Finalize\<close> needs blocks that do
  not overlap, and keeps the largest of those captured again for a submit.
\<close>

definition memory_fits :: "CaptureDataHeader \<Rightarrow> MemoryBlock list \<Rightarrow> bool" where
  "memory_fits h ms \<longleftrightarrow> (if h_reset_memory_tracker h then capture_ok ms else flat_ok ms)"

definition kept_blocks :: "CaptureDataHeader \<Rightarrow> MemoryBlock list \<Rightarrow> MemoryBlock set" where
  "kept_blocks h ms = (if h_reset_memory_tracker h then winners ms else set ms)"

lemma Pm4CaptureData_Finalize_ok:
  assumes "memory_fits h (m_memory_blocks (m_memory cd))" "m_last_used_block_ptr (m_memory cd) = null_block"
  shows "\<exists>mm. Pm4CaptureData_Finalize debug h cd = Some (cd\<lparr>m_memory := mm\<rparr>) \<and> mem_ok mm \<and>
    set (m_memory_blocks mm) = kept_blocks h (m_memory_blocks (m_memory cd))"
proof -
  let ?dup = "h_major_version h = 0 \<and>
      (h_minor_version h < 3 \<or> (h_minor_version h = 3 \<and> h_revision h < 2))"
  obtain mm where mm: "MemoryManager_Finalize debug (h_reset_memory_tracker h) ?dup (m_memory cd) = Some mm"
      "blocks_ok mm" "m_last_used_block_ptr mm = null_block"
      "set (m_memory_blocks mm) = kept_blocks h (m_memory_blocks (m_memory cd))"
  proof (cases "h_reset_memory_tracker h")
    case True
    then have ok: "capture_ok (m_memory_blocks (m_memory cd))"
      using assms(1) by (simp add: memory_fits_def)
    show thesis
      by (rule Finalize_same_submit [OF ok, of debug ?dup])
        (rule that, use True assms(2) in \<open>simp_all add: kept_blocks_def moved_def\<close>)
  next
    case False
    then have ok: "flat_ok (m_memory_blocks (m_memory cd))"
      using assms(1) by (simp add: memory_fits_def)
    show thesis
    proof (rule Finalize_flat [OF ok, of debug ?dup])
      fix mm
      assume "MemoryManager_Finalize debug False ?dup (m_memory cd) = Some mm" "blocks_ok mm"
        and m: "mset (m_memory_blocks mm) = mset (m_memory_blocks (m_memory cd))"
        and "m_last_used_block_ptr mm = m_last_used_block_ptr (m_memory cd)"
      then show thesis
        using that [of mm] False assms(2) mset_eq_setD [OF m] by (simp add: kept_blocks_def)
    qed
  qed
  then show ?thesis
    by (auto simp: Pm4CaptureData_Finalize_def mem_ok_def ptr_ok_def)
qed

lemma asserts_hold_header:
  "asserts_hold debug bs (cd\<lparr>m_data_header := h, m_capture_type := t\<rparr>) = asserts_hold debug bs cd"
  by (simp add: asserts_hold_def)

lemma dive_file_loads:
  assumes "\<forall>b\<in>set bs. block_fits h b" "\<not> incompatible_version h"
    and "asserts_hold debug bs Pm4CaptureData_new" and "memory_fits h (file_memory 0 bs)"
  shows "\<exists>cd. LoadDiveFile debug file_name (Some (dive_file h bs)) Pm4CaptureData_new = Some (kSuccess, cd) \<and>
    m_submits cd = file_submits bs \<and> m_presents cd = file_presents 0 bs \<and> m_text cd = file_texts bs \<and>
    m_waves cd = file_waves [] bs \<and> m_registers cd = file_registers Map.empty bs \<and>
    mem_ok (m_memory cd) \<and> set (m_memory_blocks (m_memory cd)) = kept_blocks h (file_memory 0 bs)"
proof -
  let ?cd = "Pm4CaptureData_new\<lparr>m_data_header := h, m_capture_type := h_capture_type h\<rparr>"
  obtain cd where cd: "block_effects debug bs ?cd = Some cd"
    using block_effects_defined [of debug bs ?cd] assms(3) by (auto simp: asserts_hold_header)
  note fields = block_effects_leave [OF cd, simplified Pm4CaptureData_new_def MemoryManager_new_def, simplified]
  obtain mm where "Pm4CaptureData_Finalize debug h cd = Some (cd\<lparr>m_memory := mm\<rparr>)" "mem_ok mm"
      "set (m_memory_blocks mm) = kept_blocks h (file_memory 0 bs)"
    using Pm4CaptureData_Finalize_ok [of h cd debug] assms(4) fields by auto
  then show ?thesis
    using fields LoadDiveFile_loads [OF assms(1,2), of "[]" debug file_name Pm4CaptureData_new]
    by (simp add: dive_capture_def cd unnoticed_def sizeof_BlockInfo_def)
qed

text \<open>
  A cut inside the header of the last block, or inside a block that is skipped, loads the file without it;
  a cut inside the body of any other block makes the file corrupt.
\<close>

lemma dive_file_cut:
  assumes "\<forall>b\<in>set bs. block_fits h b" "block_fits h b" "\<not> incompatible_version h"
    and "asserts_hold debug (bs @ [b]) Pm4CaptureData_new" and "j < length (encode_block b)"
  shows "if j < sizeof_BlockInfo \<or> is_later b
    then LoadDiveFile debug file_name (Some (dive_file h bs @ take j (encode_block b))) Pm4CaptureData_new =
         LoadDiveFile debug file_name (Some (dive_file h bs)) Pm4CaptureData_new
    else \<exists>cd. LoadDiveFile debug file_name (Some (dive_file h bs @ take j (encode_block b))) Pm4CaptureData_new =
           Some (kCorruptData, cd) \<and>
         m_submits cd = file_submits bs \<and> m_memory_blocks (m_memory cd) = file_memory 0 bs"
proof (cases "j < sizeof_BlockInfo \<or> is_later b")
  case True
  have "unnoticed h (take j (encode_block b))"
  proof (cases "j < sizeof_BlockInfo")
    case False
    then obtain t bytes where b: "b = DLater t bytes"
      using True by (cases b) auto
    have "take j (encode_block b) = block_header t (length bytes) @ take (j - sizeof_BlockInfo) bytes"
      using False by (simp add: encode_block_def b)
    moreover have "length (take (j - sizeof_BlockInfo) bytes) < length bytes"
      using assms(5) False by (simp add: encode_block_def b)
    ultimately show ?thesis
      using assms(2) unfolding unnoticed_def b
      by (intro disjI2 exI [of _ t] exI [of _ "length bytes"] exI [of _ "take (j - sizeof_BlockInfo) bytes"]) simp
  qed (auto simp: unnoticed_def)
  moreover have "unnoticed h []"
    by (simp add: unnoticed_def sizeof_BlockInfo_def)
  ultimately show ?thesis
    using True LoadDiveFile_loads [OF assms(1,3), of _ debug file_name Pm4CaptureData_new]
    by (metis append_Nil2)
next
  case False
  let ?cd = "Pm4CaptureData_new\<lparr>m_data_header := h, m_capture_type := h_capture_type h\<rparr>"
  let ?j = "j - sizeof_BlockInfo"
  have j: "?j < length (block_body b)"
    using assms(5) False by (auto simp: encode_block_def)
  have cut: "take j (encode_block b) =
      block_header (block_type_code b) (block_size b) @ take ?j (block_body b)"
    using False by (simp add: encode_block_def)
  obtain cd where cd: "block_effects debug bs ?cd = Some cd" "asserts_hold debug [b] cd"
    using asserts_hold_append [of debug bs b ?cd] assms(4) by (auto simp: asserts_hold_header)
  show ?thesis
    using False LoadDiveFile_cut [OF assms(1,2) _ assms(3) j cd] block_effects_leave [OF cd(1)]
    by (simp add: cut Pm4CaptureData_new_def MemoryManager_new_def)
qed

lemma kept_blocks_nonempty:
  assumes "memory_fits h ms" "b \<in> kept_blocks h ms"
  shows "mb_data b \<noteq> []"
  using assms winner_Some [of ms "block_key b" b]
  by (auto simp: memory_fits_def kept_blocks_def winners_def capture_ok_def flat_ok_def split: if_splits)

subsection \<open>An example\<close>

definition sample_header :: CaptureDataHeader where
  "sample_header =
     \<lparr>h_major_version = kCaptureMajorVersion, h_minor_version = kCaptureMinorVersion, h_revision = 2,
      h_capture_type = 0, h_flags = 0x20\<rparr>"

definition sample_blocks :: "dive_block list" where
  "sample_blocks =
     [DSubmit EngineType_kUniversal QueueType_kUniversal 0 False [(0x1000, 1)],
      DMemory 0x1000 [1, 2, 3, 4], DMemory 0x2000 [5, 6],
      DText [97] [98, 99], DRegisters [([97], 7)], DAlloc 1 [\<lparr>ma_gpu_virt_addr = 0x1000, ma_size = 16\<rparr>],
      DPresent (replicate 32 0), DWaves [\<lparr>w_state = 64 # 1 # replicate 19 0, w_sgprs = [7], w_vgprs = [], w_ttmps = []\<rparr>],
      DVulkan 8, DLater 5 [12, 13],
      DSubmit EngineType_kCompute QueueType_kCompute 1 True [(0x1000, 1)],
      DMemory 0x1000 [8, 9, 10, 11]]"

end
