(* ===== verification/Gfxr_Dump_Resources.thy ===== *)
theory Gfxr_Dump_Resources
  imports Dive_Prelude "HOL-Library.Monad_Syntax"
begin

text \<open>
  The search for dumpable draw calls in a GFXR capture
  (\<^verbatim>\<open>src/gfxr_dump_resources/\<close>): the entry that is built (\<^verbatim>\<open>dump_entry.h\<close>), the three states
  and the state machine of one command buffer (\<^verbatim>\<open>states.cpp\<close>, \<^verbatim>\<open>state_machine.cpp\<close>), the consumer
  that keeps one machine per command buffer being recorded
  (\<^verbatim>\<open>dump_resources_builder_consumer.cpp\<close>), and the JSON text and the program around them
  (\<^verbatim>\<open>gfxr_dump_resources.cpp\<close>, \<^verbatim>\<open>gfxr_dump_resources_main.cpp\<close>). The decoder that turns a capture
  file into calls is third-party code: a capture is the list of its calls with their block
  indices. \<open>None\<close> is undefined behaviour of the C++ code (reading past an array, \<^verbatim>\<open>back()\<close> of an
  empty vector).
\<close>

type_synonym HandleId = u64
type_synonym block_index = u64

section \<open>Entries\<close>

record DumpRenderPass =
  begin_block_index :: block_index
  end_block_index :: block_index

definition DumpRenderPass_IsComplete :: "DumpRenderPass \<Rightarrow> bool" where
  "DumpRenderPass_IsComplete p \<longleftrightarrow> begin_block_index p \<noteq> 0 \<and> end_block_index p \<noteq> 0"

record DumpEntry =
  begin_command_buffer_block_index :: block_index
  render_passes :: "DumpRenderPass list"
  draws :: "block_index list"
  queue_submit_block_index :: block_index

definition DumpEntry_new :: DumpEntry where
  "DumpEntry_new =
     \<lparr>begin_command_buffer_block_index = 0, render_passes = [], draws = [],
      queue_submit_block_index = 0\<rparr>"

definition DumpEntry_IsComplete :: "DumpEntry \<Rightarrow> bool" where
  "DumpEntry_IsComplete e \<longleftrightarrow>
     begin_command_buffer_block_index e \<noteq> 0 \<and> queue_submit_block_index e \<noteq> 0 \<and>
     render_passes e \<noteq> [] \<and> draws e \<noteq> [] \<and>
     list_all DumpRenderPass_IsComplete (render_passes e)"

section \<open>Calls\<close>

text \<open>A decoded \<^verbatim>\<open>VkSubmitInfo\<close>: the count of its structure and the array of handles.\<close>

record Decoded_VkSubmitInfo =
  commandBufferCount :: nat
  command_buffer_ids :: "HandleId list"

datatype vk_call =
    vkBeginCommandBuffer HandleId
  | vkCmdBeginRenderPass HandleId
  | vkCmdBeginRenderPass2KHR HandleId
  | vkCmdDraw HandleId
  | vkCmdDrawIndexed HandleId
  | vkCmdEndRenderPass HandleId
  | vkCmdEndRenderPass2KHR HandleId
  | vkQueueSubmit nat "Decoded_VkSubmitInfo list"

text \<open>
  The handles that the two nested loops over a submission read, in order. The bound of the inner
  loop is the count of the first structure, whatever structure is visited; \<open>None\<close> is a read past
  the end of an array.
\<close>

definition read_at :: "nat \<Rightarrow> 'a list \<Rightarrow> 'a option" where
  "read_at i xs = (if i < length xs then Some (xs ! i) else None)"

definition submit_reads :: "nat \<Rightarrow> Decoded_VkSubmitInfo list \<Rightarrow> HandleId option list" where
  "submit_reads submitCount pSubmits =
     (case pSubmits of
        [] \<Rightarrow> (if submitCount = 0 then [] else [None])
      | first # _ \<Rightarrow>
          concat (map (\<lambda>submit_index.
              map (\<lambda>i. do { submit \<leftarrow> read_at submit_index pSubmits;
                            read_at i (command_buffer_ids submit) })
                [0..<commandBufferCount first])
            [0..<submitCount]))"

section \<open>The state machine\<close>

datatype dump_state = LookingForDraw | LookingForBeginRenderPass | LookingForBeginCommandBuffer

record StateMachine =
  command_buffer :: HandleId
  dump_entry :: DumpEntry
  dump_state :: dump_state

definition StateMachine_new :: "HandleId \<Rightarrow> StateMachine" where
  "StateMachine_new cb =
     \<lparr>command_buffer = cb, dump_entry = DumpEntry_new, dump_state = LookingForBeginCommandBuffer\<rparr>"

definition Transition :: "dump_state \<Rightarrow> StateMachine \<Rightarrow> StateMachine" where
  "Transition new_state sm = sm\<lparr>dump_state := new_state\<rparr>"

text \<open>What a call leaves: the machine, or one of the two callbacks that end it.\<close>

datatype outcome = Running StateMachine | Accepted DumpEntry | Rejected

definition Done :: "StateMachine \<Rightarrow> outcome" where
  "Done sm = (if DumpEntry_IsComplete (dump_entry sm) then Accepted (dump_entry sm) else Rejected)"

definition LookingForDraw_vkCmdDraw :: "block_index \<Rightarrow> StateMachine \<Rightarrow> StateMachine" where
  "LookingForDraw_vkCmdDraw index sm =
     sm\<lparr>dump_entry := (dump_entry sm)\<lparr>draws := draws (dump_entry sm) @ [index]\<rparr>\<rparr>"

definition LookingForDraw_vkCmdEndRenderPass :: "block_index \<Rightarrow> StateMachine \<Rightarrow> StateMachine option" where
  "LookingForDraw_vkCmdEndRenderPass index sm =
     (let e = dump_entry sm in
      if render_passes e = [] then None
      else Some (Transition LookingForBeginRenderPass
        (sm\<lparr>dump_entry := e\<lparr>render_passes :=
            butlast (render_passes e) @ [(last (render_passes e))\<lparr>end_block_index := index\<rparr>]\<rparr>\<rparr>)))"

definition LookingForBeginRenderPass_vkCmdBeginRenderPass ::
    "block_index \<Rightarrow> StateMachine \<Rightarrow> StateMachine" where
  "LookingForBeginRenderPass_vkCmdBeginRenderPass index sm =
     Transition LookingForDraw
       (sm\<lparr>dump_entry := (dump_entry sm)
           \<lparr>render_passes := render_passes (dump_entry sm) @
              [\<lparr>begin_block_index = index, end_block_index = 0\<rparr>]\<rparr>\<rparr>)"

text \<open>The loops end at the first handle that is the machine's own.\<close>

fun scan_submit :: "HandleId \<Rightarrow> HandleId option list \<Rightarrow> bool option" where
  "scan_submit cb [] = Some False"
| "scan_submit cb (None # reads) = None"
| "scan_submit cb (Some command_buffer_id # reads) =
     (if command_buffer_id \<noteq> cb then scan_submit cb reads else Some True)"

definition LookingForBeginRenderPass_vkQueueSubmit ::
    "block_index \<Rightarrow> HandleId option list \<Rightarrow> StateMachine \<Rightarrow> outcome option" where
  "LookingForBeginRenderPass_vkQueueSubmit index reads sm =
     do {
       hit \<leftarrow> scan_submit (command_buffer sm) reads;
       Some (if hit
             then Done (sm\<lparr>dump_entry := (dump_entry sm)\<lparr>queue_submit_block_index := index\<rparr>\<rparr>)
             else Running sm)
     }"

definition LookingForBeginCommandBuffer_vkBeginCommandBuffer ::
    "block_index \<Rightarrow> StateMachine \<Rightarrow> StateMachine" where
  "LookingForBeginCommandBuffer_vkBeginCommandBuffer index sm =
     Transition LookingForBeginRenderPass
       (sm\<lparr>dump_entry := (dump_entry sm)\<lparr>begin_command_buffer_block_index := index\<rparr>\<rparr>)"

text \<open>The virtual call on the current state; a call that a state does not override does nothing.\<close>

definition state_call :: "block_index \<Rightarrow> vk_call \<Rightarrow> StateMachine \<Rightarrow> outcome option" where
  "state_call index call sm =
     (case (dump_state sm, call) of
        (LookingForDraw, vkCmdDraw _) \<Rightarrow> Some (Running (LookingForDraw_vkCmdDraw index sm))
      | (LookingForDraw, vkCmdDrawIndexed _) \<Rightarrow> Some (Running (LookingForDraw_vkCmdDraw index sm))
      | (LookingForDraw, vkCmdEndRenderPass _) \<Rightarrow>
          map_option Running (LookingForDraw_vkCmdEndRenderPass index sm)
      | (LookingForDraw, vkCmdEndRenderPass2KHR _) \<Rightarrow>
          map_option Running (LookingForDraw_vkCmdEndRenderPass index sm)
      | (LookingForBeginRenderPass, vkCmdBeginRenderPass _) \<Rightarrow>
          Some (Running (LookingForBeginRenderPass_vkCmdBeginRenderPass index sm))
      | (LookingForBeginRenderPass, vkCmdBeginRenderPass2KHR _) \<Rightarrow>
          Some (Running (LookingForBeginRenderPass_vkCmdBeginRenderPass index sm))
      | (LookingForBeginRenderPass, vkQueueSubmit submitCount pSubmits) \<Rightarrow>
          LookingForBeginRenderPass_vkQueueSubmit index (submit_reads submitCount pSubmits) sm
      | (LookingForBeginCommandBuffer, vkBeginCommandBuffer _) \<Rightarrow>
          Some (Running (LookingForBeginCommandBuffer_vkBeginCommandBuffer index sm))
      | _ \<Rightarrow> Some (Running sm))"

section \<open>The consumer\<close>

text \<open>
  \<open>complete_dump_entries\<close> is what the callback of \<^verbatim>\<open>FindDumpableResources\<close> appends to. Both callbacks
  of a machine erase it from the map.
\<close>

record DumpResourcesBuilderConsumer =
  incomplete_dumps :: "HandleId \<rightharpoonup> StateMachine"
  complete_dump_entries :: "DumpEntry list"

definition consumer_new :: DumpResourcesBuilderConsumer where
  "consumer_new = \<lparr>incomplete_dumps = Map.empty, complete_dump_entries = []\<rparr>"

definition settle ::
    "HandleId \<Rightarrow> outcome \<Rightarrow> DumpResourcesBuilderConsumer \<Rightarrow> DumpResourcesBuilderConsumer" where
  "settle cb r c =
     (case r of
        Running sm \<Rightarrow> c\<lparr>incomplete_dumps := (incomplete_dumps c)(cb \<mapsto> sm)\<rparr>
      | Accepted e \<Rightarrow> c\<lparr>complete_dump_entries := complete_dump_entries c @ [e],
                       incomplete_dumps := (incomplete_dumps c)(cb := None)\<rparr>
      | Rejected \<Rightarrow> c\<lparr>incomplete_dumps := (incomplete_dumps c)(cb := None)\<rparr>)"

definition InvokeIfFound ::
    "HandleId \<Rightarrow> (StateMachine \<Rightarrow> outcome option) \<Rightarrow> DumpResourcesBuilderConsumer \<Rightarrow>
     DumpResourcesBuilderConsumer option" where
  "InvokeIfFound cb f c =
     (case incomplete_dumps c cb of
        None \<Rightarrow> Some c
      | Some sm \<Rightarrow> map_option (\<lambda>r. settle cb r c) (f sm))"

definition consumer_vkBeginCommandBuffer ::
    "block_index \<Rightarrow> HandleId \<Rightarrow> DumpResourcesBuilderConsumer \<Rightarrow> DumpResourcesBuilderConsumer option"
  where
  "consumer_vkBeginCommandBuffer index cb c =
     (let c = c\<lparr>incomplete_dumps := (incomplete_dumps c)(cb \<mapsto> StateMachine_new cb)\<rparr> in
      map_option (\<lambda>r. settle cb r c)
        (state_call index (vkBeginCommandBuffer cb) (StateMachine_new cb)))"

fun queue_submit_loop ::
    "(StateMachine \<Rightarrow> outcome option) \<Rightarrow> HandleId option list \<Rightarrow> DumpResourcesBuilderConsumer \<Rightarrow>
     DumpResourcesBuilderConsumer option" where
  "queue_submit_loop f [] c = Some c"
| "queue_submit_loop f (None # reads) c = None"
| "queue_submit_loop f (Some command_buffer_id # reads) c =
     do { c \<leftarrow> InvokeIfFound command_buffer_id f c; queue_submit_loop f reads c }"

definition consumer_vkQueueSubmit ::
    "block_index \<Rightarrow> nat \<Rightarrow> Decoded_VkSubmitInfo list \<Rightarrow> DumpResourcesBuilderConsumer \<Rightarrow>
     DumpResourcesBuilderConsumer option" where
  "consumer_vkQueueSubmit index submitCount pSubmits =
     queue_submit_loop (state_call index (vkQueueSubmit submitCount pSubmits))
       (submit_reads submitCount pSubmits)"

definition consumer_call ::
    "block_index \<times> vk_call \<Rightarrow> DumpResourcesBuilderConsumer \<Rightarrow> DumpResourcesBuilderConsumer option" where
  "consumer_call ic c =
     (let f = state_call (fst ic) (snd ic) in
      case snd ic of
        vkBeginCommandBuffer cb \<Rightarrow> consumer_vkBeginCommandBuffer (fst ic) cb c
      | vkCmdBeginRenderPass cb \<Rightarrow> InvokeIfFound cb f c
      | vkCmdBeginRenderPass2KHR cb \<Rightarrow> InvokeIfFound cb f c
      | vkCmdDraw cb \<Rightarrow> InvokeIfFound cb f c
      | vkCmdDrawIndexed cb \<Rightarrow> InvokeIfFound cb f c
      | vkCmdEndRenderPass cb \<Rightarrow> InvokeIfFound cb f c
      | vkCmdEndRenderPass2KHR cb \<Rightarrow> InvokeIfFound cb f c
      | vkQueueSubmit submitCount pSubmits \<Rightarrow>
          consumer_vkQueueSubmit (fst ic) submitCount pSubmits c)"

fun process_calls ::
    "(block_index \<times> vk_call) list \<Rightarrow> DumpResourcesBuilderConsumer \<Rightarrow> DumpResourcesBuilderConsumer option"
  where
  "process_calls [] c = Some c"
| "process_calls (ic # ics) c = do { c \<leftarrow> consumer_call ic c; process_calls ics c }"

text \<open>A capture that cannot be opened is \<open>None\<close>; the outer option is undefined behaviour.\<close>

definition FindDumpableResources ::
    "(block_index \<times> vk_call) list option \<Rightarrow> DumpEntry list option option" where
  "FindDumpableResources capture =
     (case capture of
        None \<Rightarrow> Some None
      | Some ics \<Rightarrow> map_option (\<lambda>c. Some (complete_dump_entries c)) (process_calls ics consumer_new))"

section \<open>One command buffer at a time\<close>

text \<open>
  The reference: the calls that concern one command buffer, by what they mean for it, and the
  machine they drive.
\<close>

datatype step_kind = StepBegin | StepBeginPass | StepDraw | StepEndPass | StepSubmit

fun kind_of :: "vk_call \<Rightarrow> step_kind" where
  "kind_of (vkBeginCommandBuffer _) = StepBegin"
| "kind_of (vkCmdBeginRenderPass _) = StepBeginPass"
| "kind_of (vkCmdBeginRenderPass2KHR _) = StepBeginPass"
| "kind_of (vkCmdDraw _) = StepDraw"
| "kind_of (vkCmdDrawIndexed _) = StepDraw"
| "kind_of (vkCmdEndRenderPass _) = StepEndPass"
| "kind_of (vkCmdEndRenderPass2KHR _) = StepEndPass"
| "kind_of (vkQueueSubmit _ _) = StepSubmit"

fun concerns :: "HandleId \<Rightarrow> vk_call \<Rightarrow> bool" where
  "concerns cb (vkBeginCommandBuffer x) = (x = cb)"
| "concerns cb (vkCmdBeginRenderPass x) = (x = cb)"
| "concerns cb (vkCmdBeginRenderPass2KHR x) = (x = cb)"
| "concerns cb (vkCmdDraw x) = (x = cb)"
| "concerns cb (vkCmdDrawIndexed x) = (x = cb)"
| "concerns cb (vkCmdEndRenderPass x) = (x = cb)"
| "concerns cb (vkCmdEndRenderPass2KHR x) = (x = cb)"
| "concerns cb (vkQueueSubmit n subs) = (Some cb \<in> set (submit_reads n subs))"

text \<open>No loop over a submission reads past the end of an array.\<close>

fun in_range :: "vk_call \<Rightarrow> bool" where
  "in_range (vkQueueSubmit n subs) = (None \<notin> set (submit_reads n subs))"
| "in_range _ = True"

definition project_calls :: "HandleId \<Rightarrow> (block_index \<times> vk_call) list \<Rightarrow> (block_index \<times> step_kind) list" where
  "project_calls cb ics = map (\<lambda>(i, call). (i, kind_of call)) (filter (\<lambda>(i, call). concerns cb call) ics)"

definition submit_index_set :: "block_index \<Rightarrow> StateMachine \<Rightarrow> DumpEntry" where
  "submit_index_set i sm = (dump_entry sm)\<lparr>queue_submit_block_index := i\<rparr>"

fun machine_step :: "HandleId \<Rightarrow> block_index \<times> step_kind \<Rightarrow> StateMachine option \<Rightarrow> StateMachine option" where
  "machine_step cb (i, StepBegin) m =
     Some (LookingForBeginCommandBuffer_vkBeginCommandBuffer i (StateMachine_new cb))"
| "machine_step cb (i, k) None = None"
| "machine_step cb (i, StepBeginPass) (Some sm) =
     Some (if dump_state sm = LookingForBeginRenderPass
           then LookingForBeginRenderPass_vkCmdBeginRenderPass i sm else sm)"
| "machine_step cb (i, StepDraw) (Some sm) =
     Some (if dump_state sm = LookingForDraw then LookingForDraw_vkCmdDraw i sm else sm)"
| "machine_step cb (i, StepEndPass) (Some sm) =
     (if dump_state sm = LookingForDraw then LookingForDraw_vkCmdEndRenderPass i sm else Some sm)"
| "machine_step cb (i, StepSubmit) (Some sm) =
     (if dump_state sm = LookingForBeginRenderPass then None else Some sm)"

definition machine_report :: "block_index \<times> step_kind \<Rightarrow> StateMachine option \<Rightarrow> DumpEntry set" where
  "machine_report ik m =
     {e. snd ik = StepSubmit \<and>
         (\<exists>sm. m = Some sm \<and> dump_state sm = LookingForBeginRenderPass \<and>
               e = submit_index_set (fst ik) sm \<and> DumpEntry_IsComplete e)}"

definition machine_ok :: "HandleId \<Rightarrow> StateMachine \<Rightarrow> bool" where
  "machine_ok cb sm \<longleftrightarrow>
     command_buffer sm = cb \<and> dump_state sm \<noteq> LookingForBeginCommandBuffer \<and>
     (dump_state sm = LookingForDraw \<longrightarrow> render_passes (dump_entry sm) \<noteq> [])"

definition consumer_ok :: "DumpResourcesBuilderConsumer \<Rightarrow> bool" where
  "consumer_ok c \<longleftrightarrow> (\<forall>cb sm. incomplete_dumps c cb = Some sm \<longrightarrow> machine_ok cb sm)"

named_theorems dump_defs \<open>the operations of the states and of the machine\<close>

declare machine_ok_def [dump_defs] Transition_def [dump_defs]
  LookingForDraw_vkCmdDraw_def [dump_defs] LookingForDraw_vkCmdEndRenderPass_def [dump_defs]
  LookingForBeginRenderPass_vkCmdBeginRenderPass_def [dump_defs]
  LookingForBeginCommandBuffer_vkBeginCommandBuffer_def [dump_defs]
  StateMachine_new_def [dump_defs] submit_index_set_def [dump_defs]

lemma machine_step_ok:
  assumes "\<forall>sm. m = Some sm \<longrightarrow> machine_ok cb sm" "machine_step cb ik m = Some sm'"
  shows "machine_ok cb sm'"
  using assms
  by (induction cb ik m rule: machine_step.induct) (auto simp: dump_defs Let_def split: if_splits)

lemma consumer_new_ok [simp]: "consumer_ok consumer_new"
  by (simp add: consumer_ok_def consumer_new_def)

lemma scan_submit_hit:
  "None \<notin> set reads \<Longrightarrow> scan_submit cb reads = Some (Some cb \<in> set reads)"
  by (induction cb reads rule: scan_submit.induct) auto

lemma machine_report_other [simp]: "k \<noteq> StepSubmit \<Longrightarrow> machine_report (i, k) m = {}"
  by (simp add: machine_report_def)

lemma machine_report_None [simp]: "machine_report ik None = {}"
  by (simp add: machine_report_def)

text \<open>What one call does to the map and to the entries that have been found.\<close>

definition effect ::
    "block_index \<times> step_kind \<Rightarrow> (HandleId \<Rightarrow> bool) \<Rightarrow> DumpResourcesBuilderConsumer \<Rightarrow>
     DumpResourcesBuilderConsumer \<Rightarrow> bool" where
  "effect ik on c c' \<longleftrightarrow>
     (\<forall>cb. incomplete_dumps c' cb =
        (if on cb then machine_step cb ik (incomplete_dumps c cb) else incomplete_dumps c cb)) \<and>
     set (complete_dump_entries c') =
       set (complete_dump_entries c) \<union> (\<Union>cb\<in>{cb. on cb}. machine_report ik (incomplete_dumps c cb))"

lemma effect_ok:
  assumes "consumer_ok c" "effect ik on c c'"
  shows "consumer_ok c'"
  unfolding consumer_ok_def
proof (intro allI impI)
  fix cb sm
  assume sm: "incomplete_dumps c' cb = Some sm"
  show "machine_ok cb sm"
  proof (cases "on cb")
    case True
    then have "machine_step cb ik (incomplete_dumps c cb) = Some sm"
      using assms(2) sm by (simp add: effect_def)
    then show ?thesis
      using assms(1) by (intro machine_step_ok) (auto simp: consumer_ok_def)
  next
    case False
    then show ?thesis
      using assms sm by (simp add: effect_def consumer_ok_def)
  qed
qed

lemma invoke_effect:
  assumes "consumer_ok c" "concerns cb call" "\<forall>n subs. call \<noteq> vkQueueSubmit n subs"
    "\<forall>x. call \<noteq> vkBeginCommandBuffer x"
  shows "\<exists>c'. InvokeIfFound cb (state_call i call) c = Some c' \<and>
    effect (i, kind_of call) (\<lambda>x. concerns x call) c c'"
proof (cases "incomplete_dumps c cb")
  case None
  then show ?thesis
    using assms by (cases call) (auto simp: InvokeIfFound_def effect_def)
next
  case (Some sm)
  then have ok: "machine_ok cb sm"
    using assms(1) by (simp add: consumer_ok_def)
  show ?thesis
    using assms Some ok
    by (cases call; cases "dump_state sm")
      (auto simp: InvokeIfFound_def effect_def state_call_def settle_def dump_defs Let_def)
qed

lemma begin_effect:
  "\<exists>c'. consumer_vkBeginCommandBuffer i cb c = Some c' \<and> effect (i, StepBegin) (\<lambda>x. cb = x) c c'"
  by (auto simp: consumer_vkBeginCommandBuffer_def state_call_def settle_def effect_def dump_defs)

lemma submit_effect:
  assumes "consumer_ok c" "None \<notin> set (submit_reads n subs)" "Some cb \<in> set (submit_reads n subs)"
  shows "\<exists>c'. InvokeIfFound cb (state_call i (vkQueueSubmit n subs)) c = Some c' \<and>
    effect (i, StepSubmit) (\<lambda>x. x = cb) c c'"
proof (cases "incomplete_dumps c cb")
  case None
  then show ?thesis
    by (auto simp: InvokeIfFound_def effect_def)
next
  case (Some sm)
  then have "machine_ok cb sm"
    using assms(1) by (simp add: consumer_ok_def)
  with Some assms show ?thesis
    by (cases "dump_state sm")
      (auto simp: InvokeIfFound_def effect_def state_call_def settle_def machine_ok_def
        LookingForBeginRenderPass_vkQueueSubmit_def scan_submit_hit Done_def submit_index_set_def
        machine_report_def)
qed

lemma effect_compose:
  assumes 1: "effect (i, StepSubmit) on c c1" and 2: "effect (i, StepSubmit) on' c1 c2"
  shows "effect (i, StepSubmit) (\<lambda>x. on x \<or> on' x) c c2"
proof -
  have idem: "machine_step cb (i, StepSubmit) (machine_step cb (i, StepSubmit) m) =
      machine_step cb (i, StepSubmit) m"
    and none: "machine_report (i, StepSubmit) (machine_step cb (i, StepSubmit) m) = {}" for cb m
    by (cases m; simp add: machine_report_def)+
  have inc: "incomplete_dumps c1 cb =
      (if on cb then machine_step cb (i, StepSubmit) (incomplete_dumps c cb)
       else incomplete_dumps c cb)" for cb
    using 1 by (simp add: effect_def)
  have "machine_report (i, StepSubmit) (incomplete_dumps c1 cb) =
      (if on cb then {} else machine_report (i, StepSubmit) (incomplete_dumps c cb))" for cb
    by (simp add: inc none)
  then show ?thesis
    using 1 2 unfolding effect_def by (auto simp: inc idem)
qed

lemma queue_submit_effect:
  assumes "consumer_ok c" "None \<notin> set (submit_reads n subs)" "set reads \<subseteq> set (submit_reads n subs)"
  shows "\<exists>c'. queue_submit_loop (state_call i (vkQueueSubmit n subs)) reads c = Some c' \<and>
    effect (i, StepSubmit) (\<lambda>x. Some x \<in> set reads) c c'"
  using assms
proof (induction reads arbitrary: c)
  case Nil
  then show ?case by (simp add: effect_def)
next
  case (Cons r reads)
  then obtain cb where r: "r = Some cb"
    by (cases r) auto
  obtain c1 where c1: "InvokeIfFound cb (state_call i (vkQueueSubmit n subs)) c = Some c1"
    "effect (i, StepSubmit) (\<lambda>x. x = cb) c c1"
    using submit_effect [OF Cons.prems(1,2), of cb i] Cons.prems(3) r by auto
  have ok: "consumer_ok c1"
    by (rule effect_ok [OF Cons.prems(1) c1(2)])
  obtain c2 where c2: "queue_submit_loop (state_call i (vkQueueSubmit n subs)) reads c1 = Some c2"
    "effect (i, StepSubmit) (\<lambda>x. Some x \<in> set reads) c1 c2"
    using Cons.IH [OF ok Cons.prems(2)] Cons.prems(3) by auto
  have "(\<lambda>x. x = cb \<or> Some x \<in> set reads) = (\<lambda>x. Some x \<in> set (r # reads))"
    using r by auto
  then show ?case
    using effect_compose [OF c1(2) c2(2)] c1(1) c2(1) r
    by (intro exI [of _ c2]) simp
qed

lemma consumer_call_effect:
  assumes "consumer_ok c" "in_range call"
  shows "\<exists>c'. consumer_call (i, call) c = Some c' \<and>
    effect (i, kind_of call) (\<lambda>cb. concerns cb call) c c'"
proof (cases call)
  case (vkBeginCommandBuffer cb)
  then show ?thesis
    using begin_effect [of i cb c] by (simp add: consumer_call_def)
next
  case (vkQueueSubmit n subs)
  then show ?thesis
    using queue_submit_effect [OF assms(1), of n subs "submit_reads n subs" i] assms(2)
    by (simp add: consumer_call_def consumer_vkQueueSubmit_def)
qed (use invoke_effect [OF assms(1), of _ call i] in \<open>auto simp: consumer_call_def\<close>)

text \<open>Each command buffer sees its own calls only, however the calls are interleaved.\<close>

lemma process_calls_append:
  "process_calls (xs @ ys) c = do { c \<leftarrow> process_calls xs c; process_calls ys c }"
  by (induction xs arbitrary: c) (auto split: option.splits bind_split)

lemma process_calls_project:
  assumes "consumer_ok c" "\<forall>(i, call)\<in>set ics. in_range call"
  shows "\<exists>c'. process_calls ics c = Some c' \<and> consumer_ok c' \<and>
    set (complete_dump_entries c) \<subseteq> set (complete_dump_entries c') \<and>
    (\<forall>cb. incomplete_dumps c' cb =
       fold (machine_step cb) (project_calls cb ics) (incomplete_dumps c cb))"
  using assms
proof (induction ics arbitrary: c)
  case Nil
  then show ?case by (simp add: project_calls_def)
next
  case (Cons ic ics)
  obtain i call where ic: "ic = (i, call)"
    by (cases ic)
  obtain c1 where c1: "consumer_call (i, call) c = Some c1"
    "effect (i, kind_of call) (\<lambda>cb. concerns cb call) c c1"
    using consumer_call_effect [OF Cons.prems(1), of call i] Cons.prems(2) ic by auto
  have ok: "consumer_ok c1"
    by (rule effect_ok [OF Cons.prems(1) c1(2)])
  show ?case
    using Cons.IH [OF ok] Cons.prems(2) c1 ic by (auto simp: effect_def project_calls_def)
qed

section \<open>A recorded command buffer\<close>

text \<open>
  The calls of a command buffer that is begun at \<open>b\<close> and records render passes, each from \<open>x\<close> to
  \<open>y\<close> with the draws \<open>ds\<close>; and the entry it is to give when it is submitted at \<open>q\<close>.
\<close>

type_synonym rec_pass = "block_index \<times> block_index list \<times> block_index"

definition pass_calls :: "rec_pass \<Rightarrow> (block_index \<times> step_kind) list" where
  "pass_calls p = (case p of (x, ds, y) \<Rightarrow>
     (x, StepBeginPass) # map (\<lambda>d. (d, StepDraw)) ds @ [(y, StepEndPass)])"

definition recording :: "block_index \<Rightarrow> rec_pass list \<Rightarrow> (block_index \<times> step_kind) list" where
  "recording b ps = (b, StepBegin) # concat (map pass_calls ps)"

definition recorded_entry :: "block_index \<Rightarrow> rec_pass list \<Rightarrow> block_index \<Rightarrow> DumpEntry" where
  "recorded_entry b ps q =
     \<lparr>begin_command_buffer_block_index = b,
      render_passes = map (\<lambda>(x, ds, y). \<lparr>begin_block_index = x, end_block_index = y\<rparr>) ps,
      draws = concat (map (\<lambda>(x, ds, y). ds) ps),
      queue_submit_block_index = q\<rparr>"

lemma fold_draws:
  assumes "dump_state sm = LookingForDraw"
  shows "fold (machine_step cb) (map (\<lambda>d. (d, StepDraw)) ds) (Some sm) =
    Some (sm\<lparr>dump_entry := (dump_entry sm)\<lparr>draws := draws (dump_entry sm) @ ds\<rparr>\<rparr>)"
  using assms by (induction ds arbitrary: sm) (simp_all add: LookingForDraw_vkCmdDraw_def)

lemma fold_pass:
  assumes "dump_state sm = LookingForBeginRenderPass"
  shows "fold (machine_step cb) (pass_calls (x, ds, y)) (Some sm) =
    Some (sm\<lparr>dump_entry := (dump_entry sm)
      \<lparr>render_passes := render_passes (dump_entry sm) @ [\<lparr>begin_block_index = x, end_block_index = y\<rparr>],
       draws := draws (dump_entry sm) @ ds\<rparr>\<rparr>)"
  using assms by (simp add: pass_calls_def fold_draws dump_defs Let_def)

lemma fold_passes:
  assumes "dump_state sm = LookingForBeginRenderPass"
  shows "fold (machine_step cb) (concat (map pass_calls ps)) (Some sm) =
    Some (sm\<lparr>dump_entry := (dump_entry sm)
      \<lparr>render_passes := render_passes (dump_entry sm) @
          map (\<lambda>(x, ds, y). \<lparr>begin_block_index = x, end_block_index = y\<rparr>) ps,
       draws := draws (dump_entry sm) @ concat (map (\<lambda>(x, ds, y). ds) ps)\<rparr>\<rparr>)"
  using assms
proof (induction ps arbitrary: sm)
  case (Cons p ps)
  then show ?case
    by (cases p) (simp add: fold_pass)
qed simp

lemma fold_recording:
  "fold (machine_step cb) (recording b ps) m =
    Some \<lparr>command_buffer = cb, dump_entry = recorded_entry b ps 0,
          dump_state = LookingForBeginRenderPass\<rparr>"
  by (simp add: recording_def fold_passes dump_defs recorded_entry_def DumpEntry_new_def)

lemma recording_reported:
  assumes calls: "\<forall>(i, call)\<in>set (ics @ [(q, submit)]). in_range call"
    and rec: "project_calls cb ics = earlier @ recording b ps"
    and submit: "concerns cb submit" "kind_of submit = StepSubmit"
    and complete: "DumpEntry_IsComplete (recorded_entry b ps q)"
  shows "\<exists>c. process_calls (ics @ [(q, submit)]) consumer_new = Some c \<and>
    incomplete_dumps c cb = None \<and> recorded_entry b ps q \<in> set (complete_dump_entries c)"
proof -
  obtain c1 where c1: "process_calls ics consumer_new = Some c1" "consumer_ok c1"
    and inc: "incomplete_dumps c1 cb =
      fold (machine_step cb) (project_calls cb ics) (incomplete_dumps consumer_new cb)"
    using process_calls_project [OF consumer_new_ok, of ics] calls by auto
  then have sm: "incomplete_dumps c1 cb =
      Some \<lparr>command_buffer = cb, dump_entry = recorded_entry b ps 0,
            dump_state = LookingForBeginRenderPass\<rparr>"
    by (simp add: rec fold_recording)
  obtain c2 where c2: "consumer_call (q, submit) c1 = Some c2"
    and eff: "effect (q, StepSubmit) (\<lambda>x. concerns x submit) c1 c2"
    using consumer_call_effect [OF c1(2), of submit q] calls submit(2) by auto
  have "recorded_entry b ps q \<in> machine_report (q, StepSubmit) (incomplete_dumps c1 cb)"
    using complete by (simp add: machine_report_def sm submit_index_set_def recorded_entry_def)
  then have "recorded_entry b ps q \<in> set (complete_dump_entries c2)"
    using eff submit(1) unfolding effect_def by blast
  moreover have "incomplete_dumps c2 cb = None"
    using eff submit(1) by (simp add: effect_def sm)
  ultimately show ?thesis
    using c1(1) c2 by (simp add: process_calls_append)
qed

section \<open>Every reported entry is complete and in order\<close>

definition pass_marks :: "DumpRenderPass list \<Rightarrow> block_index list" where
  "pass_marks ps = concat (map (\<lambda>p. [begin_block_index p, end_block_index p]) ps)"

definition inside :: "block_index \<Rightarrow> DumpRenderPass \<Rightarrow> bool" where
  "inside d p \<longleftrightarrow> begin_block_index p < d \<and> d < end_block_index p"

definition entry_ordered :: "DumpEntry \<Rightarrow> bool" where
  "entry_ordered e \<longleftrightarrow>
     sorted_wrt (<) (begin_command_buffer_block_index e # pass_marks (render_passes e) @
       [queue_submit_block_index e]) \<and>
     sorted_wrt (<) (draws e) \<and>
     (\<forall>d\<in>set (draws e). \<exists>p\<in>set (render_passes e). inside d p)"

text \<open>The same for an entry under construction, when the last call had the index \<open>k\<close>.\<close>

definition marks_ok :: "block_index \<Rightarrow> block_index list \<Rightarrow> DumpEntry \<Rightarrow> bool" where
  "marks_ok k marks e \<longleftrightarrow>
     sorted_wrt (<) marks \<and> sorted_wrt (<) (draws e) \<and>
     (\<forall>x\<in>set marks \<union> set (draws e). x \<le> k)"

definition recording_ok :: "block_index \<Rightarrow> StateMachine \<Rightarrow> bool" where
  "recording_ok k sm \<longleftrightarrow>
     (let e = dump_entry sm; b = begin_command_buffer_block_index e; ps = render_passes e in
      if dump_state sm = LookingForDraw
      then ps \<noteq> [] \<and> marks_ok k (b # pass_marks (butlast ps) @ [begin_block_index (last ps)]) e \<and>
        (\<forall>d\<in>set (draws e). begin_block_index (last ps) < d \<or> (\<exists>p\<in>set (butlast ps). inside d p))
      else dump_state sm = LookingForBeginRenderPass \<and> marks_ok k (b # pass_marks ps) e \<and>
        (\<forall>d\<in>set (draws e). \<exists>p\<in>set ps. inside d p))"

lemma marks_ok_later: "marks_ok k marks e \<Longrightarrow> k \<le> k' \<Longrightarrow> marks_ok k' marks e"
  unfolding marks_ok_def by (meson order.trans)

lemma recording_ok_later: "recording_ok k sm \<Longrightarrow> k \<le> k' \<Longrightarrow> recording_ok k' sm"
  unfolding recording_ok_def Let_def by (auto intro: marks_ok_later)

lemma marks_ok_add:
  assumes "marks_ok k marks e" "k < i" "draws e' = draws e"
  shows "marks_ok i (marks @ [i]) e'"
  using assms unfolding marks_ok_def
  by (auto simp: sorted_wrt_append intro: order.strict_implies_order order.strict_trans1)

lemma marks_ok_draw:
  assumes "marks_ok k marks e" "k < i"
  shows "marks_ok i marks (e\<lparr>draws := draws e @ [i]\<rparr>)"
  using assms unfolding marks_ok_def
  by (auto simp: sorted_wrt_append intro: order.strict_implies_order order.strict_trans1)

lemma pass_marks_snoc [simp]:
  "pass_marks (ps @ [p]) = pass_marks ps @ [begin_block_index p, end_block_index p]"
  by (simp add: pass_marks_def)

lemma pass_marks_Nil [simp]: "pass_marks [] = []"
  by (simp add: pass_marks_def)

lemma recording_ok_start:
  "recording_ok i (LookingForBeginCommandBuffer_vkBeginCommandBuffer i (StateMachine_new cb))"
  by (simp add: recording_ok_def dump_defs DumpEntry_new_def marks_ok_def)

lemma recording_ok_begin_pass:
  assumes "recording_ok k sm" "k < i" "dump_state sm = LookingForBeginRenderPass"
  shows "recording_ok i (LookingForBeginRenderPass_vkCmdBeginRenderPass i sm)"
proof -
  let ?e = "dump_entry sm"
  have "marks_ok i ((begin_command_buffer_block_index ?e # pass_marks (render_passes ?e)) @ [i])
      (?e\<lparr>render_passes := render_passes ?e @ [\<lparr>begin_block_index = i, end_block_index = 0\<rparr>]\<rparr>)"
    using assms by (intro marks_ok_add) (simp_all add: recording_ok_def Let_def)
  then show ?thesis
    using assms by (simp add: recording_ok_def Let_def dump_defs)
qed

lemma recording_ok_draw:
  assumes "recording_ok k sm" "k < i" "dump_state sm = LookingForDraw"
  shows "recording_ok i (LookingForDraw_vkCmdDraw i sm)"
proof -
  let ?e = "dump_entry sm"
  let ?marks = "begin_command_buffer_block_index ?e # pass_marks (butlast (render_passes ?e)) @
    [begin_block_index (last (render_passes ?e))]"
  have ok: "marks_ok k ?marks ?e"
    using assms by (simp add: recording_ok_def Let_def)
  then have "begin_block_index (last (render_passes ?e)) < i"
    using assms(2) by (auto simp: marks_ok_def)
  then show ?thesis
    using assms marks_ok_draw [OF ok assms(2)] by (auto simp: recording_ok_def Let_def dump_defs)
qed

lemma recording_ok_end_pass:
  assumes ok: "recording_ok k sm" and "k < i" "dump_state sm = LookingForDraw"
    "LookingForDraw_vkCmdEndRenderPass i sm = Some sm'"
  shows "recording_ok i sm'"
proof -
  let ?e = "dump_entry sm" and ?b = "begin_command_buffer_block_index (dump_entry sm)"
  obtain ps p where ps: "render_passes ?e = ps @ [p]"
    using assms by (cases "render_passes ?e" rule: rev_cases) (auto simp: recording_ok_def Let_def)
  let ?p = "p\<lparr>end_block_index := i\<rparr>"
  have sm': "sm' = sm\<lparr>dump_entry := ?e\<lparr>render_passes := ps @ [?p]\<rparr>,
      dump_state := LookingForBeginRenderPass\<rparr>"
    using assms by (simp add: dump_defs Let_def ps)
  have marks: "marks_ok k (?b # pass_marks ps @ [begin_block_index p]) ?e"
    and cover: "\<forall>d\<in>set (draws ?e). begin_block_index p < d \<or> (\<exists>p\<in>set ps. inside d p)"
    using assms by (auto simp: recording_ok_def Let_def ps)
  have "marks_ok i ((?b # pass_marks ps @ [begin_block_index p]) @ [i])
      (?e\<lparr>render_passes := ps @ [?p]\<rparr>)"
    by (rule marks_ok_add [OF marks \<open>k < i\<close>]) simp
  moreover have "d < i" if "d \<in> set (draws ?e)" for d
  proof -
    have "d \<le> k"
      using marks that by (simp add: marks_ok_def)
    then show ?thesis
      using \<open>k < i\<close> by simp
  qed
  then have "\<forall>d\<in>set (draws ?e). \<exists>p\<in>set (ps @ [?p]). inside d p"
    using cover by (auto simp: inside_def)
  ultimately show ?thesis
    by (simp add: sm' recording_ok_def)
qed

lemma recording_ok_step:
  assumes "\<forall>sm. m = Some sm \<longrightarrow> (\<exists>k. recording_ok k sm \<and> k < i)"
    "machine_step cb (i, kind) m = Some sm'"
  shows "recording_ok i sm'"
proof (cases m)
  case None
  then show ?thesis
    using assms(2) recording_ok_start by (cases kind) auto
next
  case (Some sm)
  then obtain k where k: "recording_ok k sm" "k < i"
    using assms(1) by auto
  then have same: "recording_ok i sm"
    by (auto intro: recording_ok_later order.strict_implies_order)
  show ?thesis
    using assms(2) Some same recording_ok_start recording_ok_begin_pass [OF k]
      recording_ok_draw [OF k] recording_ok_end_pass [OF k]
    by (cases kind) (auto split: if_splits)
qed

lemma report_ordered:
  assumes "e \<in> machine_report (i, kind) m" "\<forall>sm. m = Some sm \<longrightarrow> (\<exists>k. recording_ok k sm \<and> k < i)"
  shows "DumpEntry_IsComplete e \<and> entry_ordered e"
proof -
  obtain sm k where sm: "dump_state sm = LookingForBeginRenderPass" "e = submit_index_set i sm"
      "DumpEntry_IsComplete e" "recording_ok k sm" "k < i"
    using assms by (auto simp: machine_report_def)
  then have "marks_ok i ((begin_command_buffer_block_index (dump_entry sm) #
      pass_marks (render_passes (dump_entry sm))) @ [i]) e"
    by (intro marks_ok_add [of k _ "dump_entry sm"])
      (simp_all add: recording_ok_def submit_index_set_def Let_def)
  with sm show ?thesis
    by (simp add: entry_ordered_def marks_ok_def recording_ok_def submit_index_set_def Let_def)
qed

definition entries_inv :: "block_index set \<Rightarrow> DumpResourcesBuilderConsumer \<Rightarrow> bool" where
  "entries_inv later c \<longleftrightarrow>
     (\<forall>cb sm. incomplete_dumps c cb = Some sm \<longrightarrow>
        (\<exists>k. recording_ok k sm \<and> (\<forall>i\<in>later. k < i))) \<and>
     (\<forall>e\<in>set (complete_dump_entries c). DumpEntry_IsComplete e \<and> entry_ordered e)"

lemma entries_inv_known:
  "entries_inv (insert i later) c \<Longrightarrow>
   \<forall>sm. incomplete_dumps c cb = Some sm \<longrightarrow> (\<exists>k. recording_ok k sm \<and> k < i)"
  unfolding entries_inv_def by blast

lemma entries_inv_step:
  assumes inv: "entries_inv (insert i later) c" and eff: "effect (i, kind) on c c'"
    and later: "\<forall>i'\<in>later. i < i'"
  shows "entries_inv later c'"
  unfolding entries_inv_def
proof (intro conjI allI impI ballI)
  fix cb sm'
  assume sm': "incomplete_dumps c' cb = Some sm'"
  show "\<exists>k. recording_ok k sm' \<and> (\<forall>i\<in>later. k < i)"
  proof (cases "on cb")
    case True
    then have "machine_step cb (i, kind) (incomplete_dumps c cb) = Some sm'"
      using eff sm' by (simp add: effect_def)
    moreover note entries_inv_known [OF inv, of cb]
    ultimately show ?thesis
      using recording_ok_step later by blast
  next
    case False
    then have "incomplete_dumps c cb = Some sm'"
      using eff sm' by (simp add: effect_def)
    then show ?thesis
      using inv unfolding entries_inv_def by blast
  qed
next
  fix e
  assume "e \<in> set (complete_dump_entries c')"
  then consider "e \<in> set (complete_dump_entries c)"
    | cb where "e \<in> machine_report (i, kind) (incomplete_dumps c cb)"
    using eff by (auto simp: effect_def)
  then have "DumpEntry_IsComplete e \<and> entry_ordered e"
  proof cases
    case 1
    then show ?thesis
      using inv by (simp add: entries_inv_def)
  next
    case (2 cb)
    then show ?thesis
      by (rule report_ordered [OF _ entries_inv_known [OF inv]])
  qed
  then show "DumpEntry_IsComplete e" "entry_ordered e"
    by simp_all
qed

lemma process_calls_ordered:
  assumes "consumer_ok c" "\<forall>(i, call)\<in>set ics. in_range call" "sorted_wrt (<) (map fst ics)"
    "entries_inv (fst ` set ics) c"
  shows "\<exists>c'. process_calls ics c = Some c' \<and> entries_inv {} c'"
  using assms
proof (induction ics arbitrary: c)
  case (Cons ic ics)
  obtain i call where ic: "ic = (i, call)"
    by (cases ic)
  obtain c1 where c1: "consumer_call (i, call) c = Some c1"
    "effect (i, kind_of call) (\<lambda>cb. concerns cb call) c c1"
    using consumer_call_effect [OF Cons.prems(1), of call i] Cons.prems(2) ic by auto
  have "entries_inv (fst ` set ics) c1"
    using Cons.prems(3,4) ic by (intro entries_inv_step [OF _ c1(2)]) auto
  then show ?case
    using Cons.IH [OF effect_ok [OF Cons.prems(1) c1(2)]] Cons.prems(2,3) c1(1) ic by auto
qed simp

lemma found_entries_ordered:
  assumes "\<forall>(i, call)\<in>set ics. in_range call" "sorted_wrt (<) (map fst ics)"
  shows "\<exists>es. FindDumpableResources (Some ics) = Some (Some es) \<and>
    (\<forall>e\<in>set es. DumpEntry_IsComplete e \<and> entry_ordered e)"
  using process_calls_ordered [OF consumer_new_ok assms]
  by (auto simp: FindDumpableResources_def entries_inv_def consumer_new_def)

section \<open>The JSON file and the program\<close>

definition write_list :: "('a \<Rightarrow> string) \<Rightarrow> 'a list \<Rightarrow> string" where
  "write_list f xs =
     concat (map (\<lambda>i. (if i \<noteq> 0 then '','' else []) @ f (xs ! i)) [0..<length xs])"

definition show_u64 :: "u64 \<Rightarrow> string" where
  "show_u64 w = show_nat (unat w)"

definition dump_json :: "DumpEntry list \<Rightarrow> string" where
  "dump_json dumpables =
     ''{'' @ [CHR 0x0A] @
     ''  '' @ [CHR 0x22] @ ''DumpResourcesOptions'' @ [CHR 0x22] @ '': {'' @ [CHR 0x0A] @
     ''    '' @ [CHR 0x22] @ ''DumpAllImageSubresources'' @ [CHR 0x22] @ '': true'' @ [CHR 0x0A] @
     ''  },'' @ [CHR 0x0A] @
     ''  '' @ [CHR 0x22] @ ''BeginCommandBuffer'' @ [CHR 0x22] @ '': ['' @
       write_list (\<lambda>e. show_u64 (begin_command_buffer_block_index e)) dumpables @ ''],'' @ [CHR 0x0A] @
     ''  '' @ [CHR 0x22] @ ''RenderPass'' @ [CHR 0x22] @ '': ['' @
       write_list (\<lambda>e. ''['' @
         write_list (\<lambda>p. ''['' @ show_u64 (begin_block_index p) @ '','' @
           show_u64 (end_block_index p) @ '']'') (render_passes e) @ '']'') dumpables @
       ''],'' @ [CHR 0x0A] @
     ''  '' @ [CHR 0x22] @ ''Draw'' @ [CHR 0x22] @ '': ['' @
       write_list (\<lambda>e. ''['' @ write_list show_u64 (draws e) @ '']'') dumpables @ ''],'' @ [CHR 0x0A] @
     ''  '' @ [CHR 0x22] @ ''QueueSubmit'' @ [CHR 0x22] @ '': ['' @
       write_list (\<lambda>e. show_u64 (queue_submit_block_index e)) dumpables @ '']'' @ [CHR 0x0A] @
     ''}'' @ [CHR 0x0A]"

text \<open>
  The output file as the stream sees it: whether it opens, and whether everything up to \<^verbatim>\<open>close\<close>
  succeeded. The result is the returned flag and the text that was written.
\<close>

definition SaveAsJsonFile :: "bool \<Rightarrow> bool \<Rightarrow> DumpEntry list \<Rightarrow> bool \<times> string" where
  "SaveAsJsonFile opens closes dumpables =
     (if \<not> opens then (False, []) else (closes, dump_json dumpables))"

text \<open>\<^verbatim>\<open>--last_draw_only\<close>; \<^verbatim>\<open>draws.end() - 1\<close> of an empty vector is undefined.\<close>

definition keep_last_draw :: "DumpEntry \<Rightarrow> DumpEntry option" where
  "keep_last_draw e =
     (if length (draws e) = 1 then Some e
      else if draws e = [] then None
      else Some (e\<lparr>draws := [last (draws e)]\<rparr>))"

fun keep_last_draws :: "DumpEntry list \<Rightarrow> DumpEntry list option" where
  "keep_last_draws [] = Some []"
| "keep_last_draws (e # es) = do { e \<leftarrow> keep_last_draw e; es \<leftarrow> keep_last_draws es; Some (e # es) }"

text \<open>\<^verbatim>\<open>main\<close>: the exit code and the text written, if any.\<close>

definition gfxr_dump_resources_main ::
    "nat \<Rightarrow> bool \<Rightarrow> (block_index \<times> vk_call) list option \<Rightarrow> bool \<Rightarrow> bool \<Rightarrow> (nat \<times> string) option" where
  "gfxr_dump_resources_main positional_args last_draw_only capture opens closes =
     (if positional_args \<noteq> 3 then Some (1, [])
      else do {
        dumpables \<leftarrow> FindDumpableResources capture;
        case dumpables of
          None \<Rightarrow> Some (1, [])
        | Some es \<Rightarrow> do {
            es \<leftarrow> (if last_draw_only then keep_last_draws es else Some es);
            (case SaveAsJsonFile opens closes es of
               (ok, text) \<Rightarrow> Some (if ok then 0 else 1, text))
          }
      })"

definition last_draw :: "DumpEntry \<Rightarrow> DumpEntry" where
  "last_draw e = e\<lparr>draws := [last (draws e)]\<rparr>"

lemma keep_last_draws_ok:
  "\<forall>e\<in>set es. draws e \<noteq> [] \<Longrightarrow> keep_last_draws es = Some (map last_draw es)"
proof (induction es)
  case (Cons e es)
  then have "keep_last_draw e = Some (last_draw e)"
    by (auto simp: keep_last_draw_def last_draw_def length_Suc_conv)
  with Cons show ?case by simp
qed simp

section \<open>What the application submitted\<close>

text \<open>
  Without the loops of the code: the array of a decoded \<^verbatim>\<open>VkSubmitInfo\<close> has as many handles as its
  count says, and there are as many of them as the call says; a submission is of the command buffers
  in the arrays. The loops take the count of the first \<^verbatim>\<open>VkSubmitInfo\<close> for every other: with fewer
  command buffers in a later one they read past its array, with more they do not see the rest.
\<close>

fun decoded_ok :: "vk_call \<Rightarrow> bool" where
  "decoded_ok (vkQueueSubmit n subs) =
     (n = length subs \<and> (\<forall>s\<in>set subs. commandBufferCount s = length (command_buffer_ids s)))"
| "decoded_ok _ = True"

fun hands_over :: "HandleId \<Rightarrow> vk_call \<Rightarrow> bool" where
  "hands_over cb (vkQueueSubmit n subs) = (\<exists>s\<in>set subs. cb \<in> set (command_buffer_ids s))"
| "hands_over cb _ = False"

fun same_counts :: "vk_call \<Rightarrow> bool" where
  "same_counts (vkQueueSubmit n subs) =
     (\<forall>s\<in>set subs. commandBufferCount s = commandBufferCount (hd subs))"
| "same_counts _ = True"

fun fewer_later :: "vk_call \<Rightarrow> bool" where
  "fewer_later (vkQueueSubmit n subs) =
     (\<exists>s\<in>set subs. commandBufferCount s < commandBufferCount (hd subs))"
| "fewer_later _ = False"

text \<open>The calls of an application for one command buffer: those that record it and submit it.\<close>

definition calls_for :: "HandleId \<Rightarrow> (block_index \<times> vk_call) list \<Rightarrow> (block_index \<times> step_kind) list" where
  "calls_for cb ics =
     map (\<lambda>(i, call). (i, kind_of call))
       (filter (\<lambda>(i, call). if kind_of call = StepSubmit then hands_over cb call else concerns cb call) ics)"

definition array_reads :: "nat \<Rightarrow> 'a list \<Rightarrow> 'a option set" where
  "array_reads m xs = (\<lambda>i. read_at i xs) ` {..<m}"

lemma array_reads_past: "None \<in> array_reads m xs \<longleftrightarrow> length xs < m"
  by (auto simp: array_reads_def read_at_def image_iff not_less split: if_splits
      intro: bexI [of _ "length xs"])

lemma array_reads_all: "array_reads (length xs) xs = Some ` set xs"
  by (auto simp: array_reads_def read_at_def image_iff in_set_conv_nth)

lemma submit_reads_set:
  assumes "decoded_ok (vkQueueSubmit n subs)"
  shows "set (submit_reads n subs) =
    (\<Union>s\<in>set subs. array_reads (commandBufferCount (hd subs)) (command_buffer_ids s))"
proof (cases subs)
  case (Cons first rest)
  let ?row = "\<lambda>k. map (\<lambda>i. do { submit \<leftarrow> read_at k subs; read_at i (command_buffer_ids submit) })
    [0..<commandBufferCount first]"
  have row: "set (?row k) = array_reads (commandBufferCount first) (command_buffer_ids (subs ! k))"
    if "k < length subs" for k
    using that by (simp add: read_at_def [of k] array_reads_def lessThan_atLeast0)
  have "(\<Union>k\<in>{..<length subs}. set (?row k)) =
      (\<Union>k\<in>{..<length subs}. array_reads (commandBufferCount first) (command_buffer_ids (subs ! k)))"
    using row by (intro SUP_cong) simp_all
  also have "\<dots> = (\<Union>s\<in>(!) subs ` {..<length subs}. array_reads (commandBufferCount first) (command_buffer_ids s))"
    by (simp only: image_UN image_image)
  also have "(!) subs ` {..<length subs} = set subs"
    by (auto simp: in_set_conv_nth)
  finally show ?thesis
    using assms Cons by (simp add: submit_reads_def lessThan_atLeast0 del: upt_Suc)
qed (use assms in \<open>simp add: submit_reads_def\<close>)

lemma submit_reads_same:
  assumes "decoded_ok (vkQueueSubmit n subs)" and "same_counts (vkQueueSubmit n subs)"
  shows "set (submit_reads n subs) = (\<Union>s\<in>set subs. Some ` set (command_buffer_ids s))"
  unfolding submit_reads_set [OF assms(1)]
  using assms by (intro SUP_cong refl) (metis array_reads_all decoded_ok.simps(1) same_counts.simps(1))

lemma in_range_iff: "decoded_ok call \<Longrightarrow> in_range call \<longleftrightarrow> \<not> fewer_later call"
  by (cases call) (auto simp: submit_reads_set array_reads_past)

lemma same_counts_in_range: "decoded_ok call \<Longrightarrow> same_counts call \<Longrightarrow> in_range call"
  by (cases call) (auto simp: in_range_iff simp del: in_range.simps(1))

lemma submits_concerns:
  assumes "decoded_ok call" and "same_counts call" and "kind_of call = StepSubmit"
  shows "concerns cb call = hands_over cb call"
proof (cases call)
  case (vkQueueSubmit n subs)
  with assms submit_reads_same [of n subs] show ?thesis by auto
qed (use assms in simp_all)

lemma calls_for_project:
  assumes "\<forall>(i, call)\<in>set ics. decoded_ok call \<and> same_counts call"
  shows "calls_for cb ics = project_calls cb ics"
  unfolding calls_for_def project_calls_def
  using assms by (intro arg_cong2 [where f = map] filter_cong) (auto simp: submits_concerns)

text \<open>A read past an array is never made up for.\<close>

lemma queue_submit_past: "None \<in> set reads \<Longrightarrow> queue_submit_loop f reads c = None"
  by (induction f reads c rule: queue_submit_loop.induct) (auto split: bind_split)

lemma consumer_call_past: "\<not> in_range call \<Longrightarrow> consumer_call (i, call) c = None"
  by (cases call) (simp_all add: consumer_call_def consumer_vkQueueSubmit_def queue_submit_past)

lemma process_calls_past:
  "\<exists>(i, call)\<in>set ics. \<not> in_range call \<Longrightarrow> process_calls ics c = None"
proof (induction ics arbitrary: c)
  case (Cons ic ics)
  then show ?case
    by (cases ic) (auto simp: consumer_call_past split: bind_split)
qed simp

text \<open>The program on a capture that it can open.\<close>

lemma dump_main_ok:
  assumes "\<forall>(i, call)\<in>set ics. in_range call" and "sorted_wrt (<) (map fst ics)"
  shows "\<exists>es. FindDumpableResources (Some ics) = Some (Some es) \<and>
    gfxr_dump_resources_main 3 last_only (Some ics) True closes =
      Some (if closes then 0 else 1, dump_json (if last_only then map last_draw es else es)) \<and>
    (\<forall>e\<in>set es. DumpEntry_IsComplete e \<and> entry_ordered e)"
proof -
  obtain es where es: "FindDumpableResources (Some ics) = Some (Some es)"
      "\<forall>e\<in>set es. DumpEntry_IsComplete e \<and> entry_ordered e"
    using found_entries_ordered [OF assms] by blast
  moreover from this(2) have "keep_last_draws es = Some (map last_draw es)"
    by (intro keep_last_draws_ok) (auto simp: DumpEntry_IsComplete_def)
  ultimately show ?thesis
    by (auto simp: gfxr_dump_resources_main_def SaveAsJsonFile_def)
qed

lemma dump_main_past:
  assumes "\<exists>(i, call)\<in>set ics. \<not> in_range call"
  shows "gfxr_dump_resources_main 3 last_only (Some ics) opens closes = None"
  using process_calls_past [OF assms]
  by (simp add: gfxr_dump_resources_main_def FindDumpableResources_def)

end
