(* ===== verification/Gfxr_Block_Data.thy ===== *)
theory Gfxr_Block_Data
  imports Dive_Prelude
begin

text \<open>
  Editing a GFXR file block by block (\<^verbatim>\<open>src/gfxr_ext/decode/dive_block_data.cpp\<close>): the table of
  the blocks of the original file, the map of modifications, the traversal with its two visitors
  and the writing of the new file. The visitor is an interface of the code, and a locale here:
  what a traversal writes is proved once for every visitor.

  Files are byte lists. \<^verbatim>\<open>FileRead\<close> gives what is left of a file when less than asked for is left;
  what \<^verbatim>\<open>FileWrite\<close> does to the file is a parameter of the writer, because writing may fail.
\<close>

section \<open>Ordered maps\<close>

text \<open>\<^verbatim>\<open>std::map\<close>: the pairs in the order of their keys.\<close>

fun map_put :: "'k::linorder \<Rightarrow> 'v \<Rightarrow> ('k \<times> 'v) list \<Rightarrow> ('k \<times> 'v) list" where
  "map_put k v [] = [(k, v)]"
| "map_put k v ((k', v') # m) =
     (if k < k' then (k, v) # (k', v') # m
      else if k = k' then (k, v) # m
      else (k', v') # map_put k v m)"

definition map_erase :: "'k \<Rightarrow> ('k \<times> 'v) list \<Rightarrow> ('k \<times> 'v) list" where
  "map_erase k m = filter (\<lambda>(k', v). k' \<noteq> k) m"

definition map_sorted :: "('k::linorder \<times> 'v) list \<Rightarrow> bool" where
  "map_sorted m \<longleftrightarrow> sorted_wrt (<) (map fst m)"

lemma map_of_put [simp]: "map_sorted m \<Longrightarrow> map_of (map_put k v m) = (map_of m)(k \<mapsto> v)"
proof (induction k v m rule: map_put.induct)
  case (2 k v k' v' m)
  then have "map_sorted m"
    by (simp add: map_sorted_def)
  with 2 show ?case
    by (auto simp: fun_eq_iff)
qed simp

lemma set_map_put: "set (map fst (map_put k v m)) = insert k (set (map fst m))"
  by (induction k v m rule: map_put.induct) auto

lemma map_sorted_put [simp]: "map_sorted m \<Longrightarrow> map_sorted (map_put k v m)"
proof (induction k v m rule: map_put.induct)
  case (2 k v k' v' m)
  have "\<forall>x\<in>set (map fst (map_put k v m)). k' < x" if "k' < k"
    using 2 that unfolding set_map_put by (auto simp: map_sorted_def)
  with 2 show ?case
    by (auto simp: map_sorted_def)
qed (simp add: map_sorted_def)

lemma map_of_erase [simp]: "map_of (map_erase k m) = (map_of m)(k := None)"
  by (induction m) (auto simp: map_erase_def fun_eq_iff)

lemma map_sorted_erase [simp]: "map_sorted m \<Longrightarrow> map_sorted (map_erase k m)"
  unfolding map_sorted_def map_erase_def by (induction m) auto

lemma map_sorted_Nil [simp]: "map_sorted []"
  by (simp add: map_sorted_def)

lemma map_sorted_keys:
  assumes "map_sorted m"
  shows "map fst m = sorted_list_of_set (dom (map_of m))"
proof -
  have "sorted_list_of_set (set (map fst m)) = map fst m"
    using assms by (intro sorted_list_of_set.idem_if_sorted_distinct)
      (auto simp: map_sorted_def strict_sorted_iff)
  then show ?thesis
    by (simp add: dom_map_of_conv_image_fst)
qed

lemma map_sorted_pairs:
  assumes "map_sorted m"
  shows "m = map (\<lambda>k. (k, the (map_of m k))) (sorted_list_of_set (dom (map_of m)))"
proof -
  have "distinct (map fst m)"
    using assms by (simp add: map_sorted_def strict_sorted_iff)
  then have "map_of m (fst x) = Some (snd x)" if "x \<in> set m" for x
    using that by (simp add: map_of_is_SomeI)
  then have "map (\<lambda>k. (k, the (map_of m k))) (map fst m) = m"
    by (simp add: comp_def map_idI)
  then show ?thesis
    by (simp add: map_sorted_keys [OF assms])
qed

section \<open>Blocks and their table\<close>

record DiveOriginalBlock =
  blk_offset :: u64
  blk_size :: u64

datatype IDiveBlock = OriginalBlock DiveOriginalBlock | ModificationBlock buffer

text \<open>A null pointer in the map of modifications is \<open>None\<close>.\<close>

record DiveBlockData =
  original_blocks_map :: "DiveOriginalBlock list"
  original_header_block :: DiveOriginalBlock
  original_blocks_map_locked :: bool
  modifications_map :: "(nat \<times> (int \<times> IDiveBlock option) list) list"

definition DiveBlockData_new :: DiveBlockData where
  "DiveBlockData_new =
     \<lparr>original_blocks_map = [], original_header_block = \<lparr>blk_offset = 0, blk_size = 0\<rparr>,
      original_blocks_map_locked = False, modifications_map = []\<rparr>"

definition AddOriginalBlock :: "nat \<Rightarrow> u64 \<Rightarrow> DiveBlockData \<Rightarrow> bool \<times> DiveBlockData" where
  "AddOriginalBlock index offset d =
     (if original_blocks_map_locked d then (False, d)
      else if index \<noteq> length (original_blocks_map d) then (False, d)
      else (True, d\<lparr>original_blocks_map := original_blocks_map d @ [\<lparr>blk_offset = offset, blk_size = 0\<rparr>]\<rparr>))"

text \<open>The loop over neighbouring blocks; the last block ends with the file.\<close>

fun finalize_sizes :: "u64 \<Rightarrow> DiveOriginalBlock list \<Rightarrow> bool \<times> DiveOriginalBlock list" where
  "finalize_sizes file_size [] = (True, [])"
| "finalize_sizes file_size [b] = (True, [b\<lparr>blk_size := file_size - blk_offset b\<rparr>])"
| "finalize_sizes file_size (b # c # bs) =
     (if blk_offset b > blk_offset c then (False, b # c # bs)
      else case finalize_sizes file_size (c # bs) of
        (ok, cs) \<Rightarrow> (ok, b\<lparr>blk_size := blk_offset c - blk_offset b\<rparr> # cs))"

definition FinalizeOriginalBlocksMapSizes :: "u64 \<Rightarrow> DiveBlockData \<Rightarrow> bool \<times> DiveBlockData" where
  "FinalizeOriginalBlocksMapSizes file_size d =
     (if original_blocks_map_locked d then (True, d)
      else case original_blocks_map d of
        [] \<Rightarrow> (False, d)
      | first # _ \<Rightarrow>
          (let d = d\<lparr>original_header_block := \<lparr>blk_offset = 0, blk_size = blk_offset first\<rparr>\<rparr> in
           case finalize_sizes file_size (original_blocks_map d) of
             (ok, bs) \<Rightarrow>
               (ok, d\<lparr>original_blocks_map := bs,
                      original_blocks_map_locked := ok \<or> original_blocks_map_locked d\<rparr>)))"

section \<open>Modifications\<close>

definition inner_map :: "nat \<Rightarrow> DiveBlockData \<Rightarrow> (int \<times> IDiveBlock option) list" where
  "inner_map primary_id d =
     (case map_of (modifications_map d) primary_id of None \<Rightarrow> [] | Some m \<Rightarrow> m)"

definition ModificationExists :: "nat \<Rightarrow> int \<Rightarrow> DiveBlockData \<Rightarrow> bool" where
  "ModificationExists primary_id secondary_id d \<longleftrightarrow>
     (case map_of (modifications_map d) primary_id of
        None \<Rightarrow> False
      | Some m \<Rightarrow> map_of m secondary_id \<noteq> None)"

definition put_modification :: "nat \<Rightarrow> int \<Rightarrow> IDiveBlock option \<Rightarrow> DiveBlockData \<Rightarrow> DiveBlockData" where
  "put_modification primary_id secondary_id v d =
     d\<lparr>modifications_map :=
         map_put primary_id (map_put secondary_id v (inner_map primary_id d)) (modifications_map d)\<rparr>"

definition AddModification :: "nat \<Rightarrow> int \<Rightarrow> buffer option \<Rightarrow> DiveBlockData \<Rightarrow> bool \<times> DiveBlockData" where
  "AddModification primary_id secondary_id blob_ptr d =
     (if \<not> original_blocks_map_locked d then (False, d)
      else if ModificationExists primary_id secondary_id d then (False, d)
      else if primary_id \<ge> length (original_blocks_map d) then (False, d)
      else case blob_ptr of
        None \<Rightarrow>
          if secondary_id \<noteq> 0 then (False, d)
          else (True, put_modification primary_id secondary_id None d)
      | Some blob \<Rightarrow>
          (True, put_modification primary_id secondary_id (Some (ModificationBlock blob)) d))"

definition RemoveModification :: "nat \<Rightarrow> int \<Rightarrow> DiveBlockData \<Rightarrow> bool \<times> DiveBlockData" where
  "RemoveModification primary_id secondary_id d =
     (if \<not> ModificationExists primary_id secondary_id d then (False, d)
      else (True, d\<lparr>modifications_map :=
              map_put primary_id (map_erase secondary_id (inner_map primary_id d))
                (modifications_map d)\<rparr>))"

definition ClearAllModifications :: "DiveBlockData \<Rightarrow> DiveBlockData" where
  "ClearAllModifications d = d\<lparr>modifications_map := []\<rparr>"

section \<open>Traversal\<close>

text \<open>The blocks written for one primary id, in the order of the secondary ids.\<close>

definition blocks_to_write :: "nat \<Rightarrow> DiveBlockData \<Rightarrow> (int \<times> IDiveBlock option) list" where
  "blocks_to_write primary_id d =
     (let m = inner_map primary_id d in
      if map_of m 0 = None
      then map_put 0 (Some (OriginalBlock (original_blocks_map d ! primary_id))) m else m)"

fun visit_blocks ::
    "(IDiveBlock \<Rightarrow> 's \<Rightarrow> bool \<times> 's) \<Rightarrow> (int \<times> IDiveBlock option) list \<Rightarrow> 's \<Rightarrow> bool \<times> 's" where
  "visit_blocks visit [] s = (True, s)"
| "visit_blocks visit ((secondary_id, None) # bs) s = visit_blocks visit bs s"
| "visit_blocks visit ((secondary_id, Some b) # bs) s =
     (case visit b s of
        (False, s) \<Rightarrow> (False, s)
      | (True, s) \<Rightarrow> visit_blocks visit bs s)"

fun traverse_loop ::
    "(IDiveBlock \<Rightarrow> 's \<Rightarrow> bool \<times> 's) \<Rightarrow> DiveBlockData \<Rightarrow> nat list \<Rightarrow> 's \<Rightarrow> bool \<times> 's" where
  "traverse_loop visit d [] s = (True, s)"
| "traverse_loop visit d (primary_id # ids) s =
     (case visit_blocks visit (blocks_to_write primary_id d) s of
        (False, s) \<Rightarrow> (False, s)
      | (True, s) \<Rightarrow> traverse_loop visit d ids s)"

definition TraverseBlocks :: "(IDiveBlock \<Rightarrow> 's \<Rightarrow> bool \<times> 's) \<Rightarrow> DiveBlockData \<Rightarrow> 's \<Rightarrow> bool \<times> 's" where
  "TraverseBlocks visit d s = traverse_loop visit d [0..<length (original_blocks_map d)] s"

section \<open>The visitors\<close>

definition show_size :: "u64 \<Rightarrow> string" where
  "show_size w = show_nat (unat w)"

fun TestBlockVisitor_Visit :: "IDiveBlock \<Rightarrow> string list \<Rightarrow> bool \<times> string list" where
  "TestBlockVisitor_Visit (OriginalBlock b) traversed =
     (True, traversed @
       [''original, offset:'' @ show_size (blk_offset b) @ '', size:'' @ show_size (blk_size b)])"
| "TestBlockVisitor_Visit (ModificationBlock blob) traversed =
     (if blob = [] then (False, traversed)
      else (True, traversed @ [''modified, content length:'' @ show_nat (length blob)]))"

definition kDiveBlockBufferSize :: nat where "kDiveBlockBufferSize = 4096"

text \<open>
  The writer: the original file and the position in it, the copy buffer and the new file.
  \<open>file_write\<close> gives, from the new file and the data, whether \<^verbatim>\<open>FileWrite\<close> succeeds and the file
  it leaves.
\<close>

record WriterBlockVisitor =
  file_write :: "buffer \<Rightarrow> buffer \<Rightarrow> bool \<times> buffer"
  original_file :: buffer
  original_pos :: nat
  copy_buffer :: buffer
  new_file :: buffer

definition FileSeekSet :: "u64 \<Rightarrow> WriterBlockVisitor \<Rightarrow> bool \<times> WriterBlockVisitor" where
  "FileSeekSet offset s =
     (if unat offset \<ge> 2 ^ 63 then (False, s) else (True, s\<lparr>original_pos := unat offset\<rparr>))"

definition FileRead_copy :: "nat \<Rightarrow> WriterBlockVisitor \<Rightarrow> bool \<times> WriterBlockVisitor" where
  "FileRead_copy n s =
     (let bytes = take n (drop (original_pos s) (original_file s)) in
      (length bytes = n,
       s\<lparr>copy_buffer := bytes @ drop (length bytes) (copy_buffer s),
         original_pos := original_pos s + length bytes\<rparr>))"

definition FileWrite_new :: "buffer \<Rightarrow> WriterBlockVisitor \<Rightarrow> bool \<times> WriterBlockVisitor" where
  "FileWrite_new bytes s =
     (case file_write s (new_file s) bytes of (ok, f) \<Rightarrow> (ok, s\<lparr>new_file := f\<rparr>))"

text \<open>The copy loop; the results of reading and writing are not looked at.\<close>

function copy_loop :: "nat \<Rightarrow> WriterBlockVisitor \<Rightarrow> WriterBlockVisitor" where
  "copy_loop bytes_left_to_copy s =
     (if bytes_left_to_copy > 0
      then
        (let bytes_to_copy = min bytes_left_to_copy kDiveBlockBufferSize;
             s = snd (FileRead_copy bytes_to_copy s);
             s = snd (FileWrite_new (take bytes_to_copy (copy_buffer s)) s)
         in copy_loop (bytes_left_to_copy - bytes_to_copy) s)
      else s)"
  by pat_completeness auto
termination
  by (relation "measure fst") (auto simp: kDiveBlockBufferSize_def)

declare copy_loop.simps [simp del]

fun WriterBlockVisitor_Visit :: "IDiveBlock \<Rightarrow> WriterBlockVisitor \<Rightarrow> bool \<times> WriterBlockVisitor" where
  "WriterBlockVisitor_Visit (OriginalBlock b) s =
     (if blk_size b = 0 then (True, s)
      else case FileSeekSet (blk_offset b) s of
        (False, s) \<Rightarrow> (False, s)
      | (True, s) \<Rightarrow> (True, copy_loop (unat (blk_size b)) s))"
| "WriterBlockVisitor_Visit (ModificationBlock blob) s =
     (if blob = [] then (False, s) else FileWrite_new blob s)"

text \<open>
  \<^verbatim>\<open>WriteGFXRFile\<close>, with the outcome of opening and closing the two files as arguments; the two paths
  are taken to be different files. The result is the flag and the new file, if it was created.
\<close>

definition WriteGFXRFile ::
    "(buffer \<Rightarrow> buffer \<Rightarrow> bool \<times> buffer) \<Rightarrow> buffer option \<Rightarrow> bool \<Rightarrow> bool \<Rightarrow> bool \<Rightarrow> DiveBlockData \<Rightarrow>
     bool \<times> buffer option" where
  "WriteGFXRFile fwrite original new_opens original_closes new_closes d =
     (if \<not> original_blocks_map_locked d then (False, None)
      else case original of
        None \<Rightarrow> (False, None)
      | Some orig \<Rightarrow>
          if \<not> new_opens then (False, None)
          else
            (let writer = \<lparr>file_write = fwrite, original_file = orig, original_pos = 0,
                           copy_buffer = replicate kDiveBlockBufferSize 0, new_file = []\<rparr> in
             case WriterBlockVisitor_Visit (OriginalBlock (original_header_block d)) writer of
               (False, s) \<Rightarrow> (False, Some (new_file s))
             | (True, s) \<Rightarrow>
                 (case TraverseBlocks WriterBlockVisitor_Visit d s of
                    (False, s) \<Rightarrow> (False, Some (new_file s))
                  | (True, s) \<Rightarrow> (original_closes \<and> new_closes, Some (new_file s)))))"

section \<open>The visitor as an interface\<close>

text \<open>
  \<open>written\<close> is what has been emitted, \<open>emits\<close> what a block adds to it, \<open>accepts\<close> the blocks that a
  visitor takes and \<open>refuses\<close> those it stops at.
\<close>

locale block_visitor =
  fixes visit :: "IDiveBlock \<Rightarrow> 's \<Rightarrow> bool \<times> 's"
    and written :: "'s \<Rightarrow> 'e list"
    and emits :: "IDiveBlock \<Rightarrow> 'e list"
    and good :: "'s \<Rightarrow> bool"
    and accepts :: "IDiveBlock \<Rightarrow> bool"
    and refuses :: "IDiveBlock \<Rightarrow> bool"
  assumes visit_accepts: "good s \<Longrightarrow> accepts b \<Longrightarrow>
      \<exists>s'. visit b s = (True, s') \<and> good s' \<and> written s' = written s @ emits b"
    and visit_refuses: "good s \<Longrightarrow> refuses b \<Longrightarrow> \<exists>s'. visit b s = (False, s') \<and> written s' = written s"
begin

definition emitted :: "(int \<times> IDiveBlock option) list \<Rightarrow> 'e list" where
  "emitted bs = concat (map (\<lambda>(k, b). case b of None \<Rightarrow> [] | Some b \<Rightarrow> emits b) bs)"

lemma emitted_simps [simp]:
  "emitted [] = []"
  "emitted ((k, None) # bs) = emitted bs"
  "emitted ((k, Some b) # bs) = emits b @ emitted bs"
  by (simp_all add: emitted_def)

lemma visit_blocks_accepts:
  assumes "good s" "\<forall>(k, b)\<in>set bs. \<forall>x. b = Some x \<longrightarrow> accepts x"
  shows "\<exists>s'. visit_blocks visit bs s = (True, s') \<and> good s' \<and> written s' = written s @ emitted bs"
  using assms
proof (induction bs arbitrary: s)
  case (Cons kb bs)
  obtain k b where kb: "kb = (k, b)"
    by (cases kb)
  show ?case
  proof (cases b)
    case None
    then show ?thesis
      using Cons kb by simp
  next
    case (Some x)
    then obtain s1 where s1: "visit x s = (True, s1)" "good s1" "written s1 = written s @ emits x"
      using visit_accepts [of s x] Cons.prems kb by auto
    obtain s2 where "visit_blocks visit bs s1 = (True, s2)" "good s2"
        "written s2 = written s1 @ emitted bs"
      using Cons.IH [of s1] Cons.prems s1(2) by auto
    then show ?thesis
      using s1 kb Some by simp
  qed
qed simp

lemma traverse_loop_accepts:
  assumes "good s" "\<forall>i\<in>set ids. \<forall>(k, b)\<in>set (blocks_to_write i d). \<forall>x. b = Some x \<longrightarrow> accepts x"
  shows "\<exists>s'. traverse_loop visit d ids s = (True, s') \<and> good s' \<and>
    written s' = written s @ concat (map (\<lambda>i. emitted (blocks_to_write i d)) ids)"
  using assms
proof (induction ids arbitrary: s)
  case (Cons i ids)
  obtain s1 where s1: "visit_blocks visit (blocks_to_write i d) s = (True, s1)" "good s1"
      "written s1 = written s @ emitted (blocks_to_write i d)"
    using visit_blocks_accepts [of s "blocks_to_write i d"] Cons.prems by auto
  obtain s2 where "traverse_loop visit d ids s1 = (True, s2)" "good s2"
      "written s2 = written s1 @ concat (map (\<lambda>i. emitted (blocks_to_write i d)) ids)"
    using Cons.IH [of s1] Cons.prems s1(2) by auto
  then show ?case
    using s1 by simp
qed simp

lemma traverse_accepts:
  assumes "good s"
    "\<forall>i<length (original_blocks_map d). \<forall>(k, b)\<in>set (blocks_to_write i d). \<forall>x. b = Some x \<longrightarrow> accepts x"
  shows "\<exists>s'. TraverseBlocks visit d s = (True, s') \<and> good s' \<and>
    written s' = written s @
      concat (map (\<lambda>i. emitted (blocks_to_write i d)) [0..<length (original_blocks_map d)])"
  unfolding TraverseBlocks_def using assms by (intro traverse_loop_accepts) auto

text \<open>A refused block ends the traversal with an error, after what stands before it.\<close>

lemma visit_blocks_refuses:
  assumes "good s" "\<forall>(k, b)\<in>set bs. \<forall>x. b = Some x \<longrightarrow> accepts x" "refuses x"
  shows "\<exists>s'. visit_blocks visit (bs @ (k, Some x) # cs) s = (False, s') \<and>
    written s' = written s @ emitted bs"
  using assms
proof (induction bs arbitrary: s)
  case Nil
  then show ?case
    using visit_refuses [of s x] by auto
next
  case (Cons kb bs)
  obtain k' b where kb: "kb = (k', b)"
    by (cases kb)
  show ?case
  proof (cases b)
    case None
    then show ?thesis
      using Cons kb by simp
  next
    case (Some y)
    then obtain s1 where s1: "visit y s = (True, s1)" "good s1" "written s1 = written s @ emits y"
      using visit_accepts [of s y] Cons.prems kb by auto
    obtain s2 where "visit_blocks visit (bs @ (k, Some x) # cs) s1 = (False, s2)"
        "written s2 = written s1 @ emitted bs"
      using Cons.IH [of s1] Cons.prems s1(2) by auto
    then show ?thesis
      using s1 kb Some by simp
  qed
qed

end

section \<open>The writer implements the interface\<close>

definition original_slice :: "buffer \<Rightarrow> DiveOriginalBlock \<Rightarrow> buffer" where
  "original_slice orig b = take (unat (blk_size b)) (drop (unat (blk_offset b)) orig)"

fun block_text :: "buffer \<Rightarrow> IDiveBlock \<Rightarrow> buffer" where
  "block_text orig (OriginalBlock b) = original_slice orig b"
| "block_text orig (ModificationBlock blob) = blob"

fun writable_block :: "buffer \<Rightarrow> IDiveBlock \<Rightarrow> bool" where
  "writable_block orig (OriginalBlock b) =
     (unat (blk_offset b) + unat (blk_size b) \<le> length orig \<and> unat (blk_offset b) < 2 ^ 63)"
| "writable_block orig (ModificationBlock blob) = (blob \<noteq> [])"

fun empty_modification :: "IDiveBlock \<Rightarrow> bool" where
  "empty_modification (OriginalBlock b) = False"
| "empty_modification (ModificationBlock blob) = (blob = [])"

text \<open>Writes that succeed and append.\<close>

definition append_laws :: "(buffer \<Rightarrow> buffer \<Rightarrow> bool \<times> buffer) \<Rightarrow> bool" where
  "append_laws fwrite \<longleftrightarrow> (\<forall>f bytes. fwrite f bytes = (True, f @ bytes))"

definition writer_ok :: "buffer \<Rightarrow> WriterBlockVisitor \<Rightarrow> bool" where
  "writer_ok orig s \<longleftrightarrow>
     append_laws (file_write s) \<and> original_file s = orig \<and> length (copy_buffer s) = kDiveBlockBufferSize"

lemma copy_chunk:
  assumes "writer_ok orig s" "original_pos s + n \<le> length orig" "n \<le> kDiveBlockBufferSize"
    and s1: "s1 = snd (FileRead_copy n s)" and s2: "s2 = snd (FileWrite_new (take n (copy_buffer s1)) s1)"
  shows "writer_ok orig s2 \<and> original_pos s2 = original_pos s + n \<and>
    new_file s2 = new_file s @ take n (drop (original_pos s) orig)"
  using assms
  by (auto simp: FileRead_copy_def FileWrite_new_def writer_ok_def append_laws_def Let_def min_def)

lemma copy_loop_copies:
  assumes "writer_ok orig s" "original_pos s + n \<le> length orig"
  shows "writer_ok orig (copy_loop n s) \<and>
    new_file (copy_loop n s) = new_file s @ take n (drop (original_pos s) orig)"
  using assms
proof (induction n arbitrary: s rule: less_induct)
  case (less n)
  show ?case
  proof (cases "n = 0")
    case True
    then show ?thesis
      using less.prems by (simp add: copy_loop.simps [of 0])
  next
    case False
    define k where "k = min n kDiveBlockBufferSize"
    define s1 where "s1 = snd (FileRead_copy k s)"
    define s2 where "s2 = snd (FileWrite_new (take k (copy_buffer s1)) s1)"
    have k: "k \<le> n" "0 < k"
      using False by (simp_all add: k_def kDiveBlockBufferSize_def)
    have step: "copy_loop n s = copy_loop (n - k) s2"
      using False by (subst copy_loop.simps) (simp add: k_def s1_def s2_def Let_def)
    have s2: "writer_ok orig s2 \<and> original_pos s2 = original_pos s + k \<and>
        new_file s2 = new_file s @ take k (drop (original_pos s) orig)"
      by (rule copy_chunk [OF less.prems(1) _ _ s1_def s2_def])
        (use less.prems(2) k in \<open>simp_all add: k_def\<close>)
    have "take n (drop (original_pos s) orig) =
        take k (drop (original_pos s) orig) @ take (n - k) (drop (original_pos s + k) orig)"
      using k by (metis add.commute drop_drop le_add_diff_inverse take_add)
    then show ?thesis
      using less.IH [of "n - k" s2] s2 k less.prems(2) by (simp add: step)
  qed
qed

interpretation writer: block_visitor WriterBlockVisitor_Visit new_file "block_text orig"
    "writer_ok orig" "writable_block orig" empty_modification for orig
proof
  fix s b
  assume ok: "writer_ok orig s" and b: "writable_block orig b"
  show "\<exists>s'. WriterBlockVisitor_Visit b s = (True, s') \<and> writer_ok orig s' \<and>
      new_file s' = new_file s @ block_text orig b"
  proof (cases b)
    case (OriginalBlock ob)
    define s1 where "s1 = s\<lparr>original_pos := unat (blk_offset ob)\<rparr>"
    have "writer_ok orig s1" "original_pos s1 + unat (blk_size ob) \<le> length orig"
      using ok b by (simp_all add: s1_def writer_ok_def OriginalBlock)
    then have "writer_ok orig (copy_loop (unat (blk_size ob)) s1) \<and>
        new_file (copy_loop (unat (blk_size ob)) s1) =
          new_file s1 @ take (unat (blk_size ob)) (drop (original_pos s1) orig)"
      by (rule copy_loop_copies)
    then show ?thesis
      using ok b by (auto simp: OriginalBlock FileSeekSet_def s1_def original_slice_def)
  next
    case (ModificationBlock blob)
    then show ?thesis
      using ok b by (simp add: FileWrite_new_def writer_ok_def append_laws_def)
  qed
next
  fix s b
  assume "writer_ok orig s" "empty_modification b"
  then show "\<exists>s'. WriterBlockVisitor_Visit b s = (False, s') \<and> new_file s' = new_file s"
    by (cases b) auto
qed

text \<open>So does the visitor of the tests, on every state.\<close>

fun block_line :: "IDiveBlock \<Rightarrow> string list" where
  "block_line (OriginalBlock b) =
     [''original, offset:'' @ show_size (blk_offset b) @ '', size:'' @ show_size (blk_size b)]"
| "block_line (ModificationBlock blob) = [''modified, content length:'' @ show_nat (length blob)]"

interpretation test: block_visitor TestBlockVisitor_Visit id block_line "\<lambda>_. True"
    "\<lambda>b. \<not> empty_modification b" empty_modification
proof
  fix s b
  assume "\<not> empty_modification b"
  then show "\<exists>s'. TestBlockVisitor_Visit b s = (True, s') \<and> True \<and> id s' = id s @ block_line b"
    by (cases b) auto
next
  fix s b
  assume "empty_modification b"
  then show "\<exists>s'. TestBlockVisitor_Visit b s = (False, s') \<and> id s' = id s"
    by (cases b) auto
qed

section \<open>Loading the table of blocks\<close>

definition load_blocks :: "u64 list \<Rightarrow> DiveBlockData" where
  "load_blocks offs =
     fold (\<lambda>(i, offset) d. snd (AddOriginalBlock i offset d)) (enumerate 0 offs) DiveBlockData_new"

definition loaded_data :: "u64 list \<Rightarrow> u64 \<Rightarrow> bool \<times> DiveBlockData" where
  "loaded_data offs file_size = FinalizeOriginalBlocksMapSizes file_size (load_blocks offs)"

text \<open>The bytes between one offset and the next, or the end of the file.\<close>

definition segment_end :: "buffer \<Rightarrow> u64 list \<Rightarrow> nat \<Rightarrow> nat" where
  "segment_end orig offs i = (if Suc i < length offs then unat (offs ! Suc i) else length orig)"

definition original_text :: "buffer \<Rightarrow> u64 list \<Rightarrow> nat \<Rightarrow> buffer" where
  "original_text orig offs i = drop (unat (offs ! i)) (take (segment_end orig offs i) orig)"

definition offsets_ok :: "buffer \<Rightarrow> u64 list \<Rightarrow> bool" where
  "offsets_ok orig offs \<longleftrightarrow>
     offs \<noteq> [] \<and> sorted offs \<and> unat (last offs) \<le> length orig \<and> length orig < 2 ^ 63"

lemma load_blocks_simps:
  "original_blocks_map (load_blocks offs) = map (\<lambda>x. \<lparr>blk_offset = x, blk_size = 0\<rparr>) offs \<and>
   \<not> original_blocks_map_locked (load_blocks offs) \<and> modifications_map (load_blocks offs) = []"
proof (induction offs rule: rev_induct)
  case (snoc x offs)
  have "enumerate 0 (offs @ [x]) = enumerate 0 offs @ [(length offs, x)]"
    by (simp add: enumerate_append_eq)
  then have "load_blocks (offs @ [x]) = snd (AddOriginalBlock (length offs) x (load_blocks offs))"
    by (simp add: load_blocks_def)
  with snoc show ?case
    by (simp add: AddOriginalBlock_def)
qed (simp add: load_blocks_def DiveBlockData_new_def)

lemma finalize_sizes_slices:
  assumes "offs \<noteq> []" "sorted offs" "unat (last offs) \<le> length orig" "length orig < 2 ^ 63"
    "bs = map (\<lambda>x. \<lparr>blk_offset = x, blk_size = 0\<rparr>) offs"
  shows "\<exists>cs. finalize_sizes (word_of_nat (length orig)) bs = (True, cs) \<and> length cs = length offs \<and>
    blk_offset (hd cs) = hd offs \<and>
    (\<forall>i<length offs. original_slice orig (cs ! i) = original_text orig offs i \<and>
       writable_block orig (OriginalBlock (cs ! i)))"
  using assms
proof (induction "word_of_nat (length orig) :: u64" bs arbitrary: offs rule: finalize_sizes.induct)
  case (2 b)
  then obtain x where offs: "offs = [x]" and b: "b = \<lparr>blk_offset = x, blk_size = 0\<rparr>"
    by auto
  have len: "unat (word_of_nat (length orig) :: u64) = length orig"
    using \<open>length orig < 2 ^ 63\<close> by (simp add: unat_of_nat)
  have le: "x \<le> word_of_nat (length orig)"
    using 2 by (simp add: word_le_nat_alt len offs)
  then show ?case
    using 2 by (simp add: b offs original_slice_def original_text_def segment_end_def
        unat_sub len)
next
  case (3 b c bs)
  then obtain x y zs where offs: "offs = x # y # zs"
    and b: "b = \<lparr>blk_offset = x, blk_size = 0\<rparr>" and c: "c = \<lparr>blk_offset = y, blk_size = 0\<rparr>"
    by (cases offs; cases "tl offs") auto
  have xy: "x \<le> y" "sorted (y # zs)"
    using "3.prems" offs by auto
  obtain cs where cs: "finalize_sizes (word_of_nat (length orig)) (c # bs) = (True, cs)"
      "length cs = length (y # zs)" "blk_offset (hd cs) = y"
      "\<forall>i<length (y # zs). original_slice orig (cs ! i) = original_text orig (y # zs) i \<and>
         writable_block orig (OriginalBlock (cs ! i))"
  proof -
    have nlt: "\<not> blk_offset c < blk_offset b"
      using xy(1) b c by simp
    have "\<exists>cs. finalize_sizes (word_of_nat (length orig)) (c # bs) = (True, cs) \<and>
        length cs = length (y # zs) \<and> blk_offset (hd cs) = hd (y # zs) \<and>
        (\<forall>i<length (y # zs). original_slice orig (cs ! i) = original_text orig (y # zs) i \<and>
          writable_block orig (OriginalBlock (cs ! i)))"
      by (rule "3.hyps" [OF nlt]) (use "3.prems" offs xy(2) c in simp_all)
    then show ?thesis
      using that by (metis list.sel(1))
  qed
  have y: "unat y \<le> length orig"
    using "3.prems" offs xy(2)
    by (cases zs rule: rev_cases) (auto simp: word_le_nat_alt)
  have shift: "original_text orig offs (Suc i) = original_text orig (y # zs) i" for i
    by (simp add: original_text_def segment_end_def offs)
  have first: "original_slice orig (b\<lparr>blk_size := y - x\<rparr>) = original_text orig offs 0"
    using xy(1) by (simp add: original_slice_def original_text_def segment_end_def offs b
        unat_sub drop_take)
  have "unat x + (unat y - unat x) \<le> length orig" "unat x < 2 ^ 63"
    using xy(1) y \<open>length orig < 2 ^ 63\<close> by (simp_all add: word_le_nat_alt)
  then have "writable_block orig (OriginalBlock (b\<lparr>blk_size := y - x\<rparr>))"
    using xy(1) by (simp add: b unat_sub)
  then show ?case
    using cs first xy(1) b c offs shift
    by (auto simp: less_Suc_eq_0_disj)
qed auto

lemma loaded_data_ok:
  assumes "offsets_ok orig offs"
  shows "\<exists>d. loaded_data offs (word_of_nat (length orig)) = (True, d) \<and>
    original_blocks_map_locked d \<and> modifications_map d = [] \<and>
    length (original_blocks_map d) = length offs \<and>
    original_header_block d = \<lparr>blk_offset = 0, blk_size = hd offs\<rparr> \<and>
    (\<forall>i<length offs.
       original_slice orig (original_blocks_map d ! i) = original_text orig offs i \<and>
       writable_block orig (OriginalBlock (original_blocks_map d ! i)))"
proof -
  obtain cs where "finalize_sizes (word_of_nat (length orig)) (original_blocks_map (load_blocks offs)) =
        (True, cs)" "length cs = length offs"
      "\<forall>i<length offs. original_slice orig (cs ! i) = original_text orig offs i \<and>
         writable_block orig (OriginalBlock (cs ! i))"
    using finalize_sizes_slices [of offs orig] assms load_blocks_simps [of offs]
    by (auto simp: offsets_ok_def)
  moreover obtain x xs where "offs = x # xs"
    using assms by (cases offs) (auto simp: offsets_ok_def)
  ultimately show ?thesis
    using load_blocks_simps [of offs]
    by (auto simp: loaded_data_def FinalizeOriginalBlocksMapSizes_def)
qed

section \<open>Editing refines a map of modifications\<close>

datatype block_edit =
    EditAdd nat int "buffer option"
  | EditRemove nat int
  | EditClear

fun exec_edit :: "block_edit \<Rightarrow> DiveBlockData \<Rightarrow> DiveBlockData" where
  "exec_edit (EditAdd p k blob) d = snd (AddModification p k blob d)"
| "exec_edit (EditRemove p k) d = snd (RemoveModification p k d)"
| "exec_edit EditClear d = ClearAllModifications d"

type_synonym modifications = "nat \<times> int \<Rightarrow> IDiveBlock option option"

text \<open>The specification: what is recorded first stays until it is removed.\<close>

fun spec_edit :: "nat \<Rightarrow> block_edit \<Rightarrow> modifications \<Rightarrow> modifications" where
  "spec_edit n (EditAdd p k blob) M =
     (if M (p, k) = None \<and> p < n \<and> (blob = None \<longrightarrow> k = 0)
      then M((p, k) \<mapsto> map_option ModificationBlock blob) else M)"
| "spec_edit n (EditRemove p k) M = M((p, k) := None)"
| "spec_edit n EditClear M = (\<lambda>_. None)"

definition abs_modifications :: "DiveBlockData \<Rightarrow> modifications" where
  "abs_modifications d pk = map_of (inner_map (fst pk) d) (snd pk)"

definition modifications_ok :: "DiveBlockData \<Rightarrow> bool" where
  "modifications_ok d \<longleftrightarrow>
     map_sorted (modifications_map d) \<and> (\<forall>p. map_sorted (inner_map p d))"

lemma ModificationExists_abs: "ModificationExists p k d \<longleftrightarrow> abs_modifications d (p, k) \<noteq> None"
  by (simp add: ModificationExists_def abs_modifications_def inner_map_def split: option.splits)

lemma inner_map_put:
  assumes "map_sorted (modifications_map d)"
  shows "inner_map p' (d\<lparr>modifications_map := map_put p m (modifications_map d)\<rparr>) =
    (if p' = p then m else inner_map p' d)"
  using assms by (simp add: inner_map_def)

lemma exec_edit_refines:
  assumes "modifications_ok d" "original_blocks_map_locked d" "n = length (original_blocks_map d)"
  shows "modifications_ok (exec_edit e d) \<and>
    abs_modifications (exec_edit e d) = spec_edit n e (abs_modifications d) \<and>
    original_blocks_map (exec_edit e d) = original_blocks_map d \<and>
    original_header_block (exec_edit e d) = original_header_block d \<and>
    original_blocks_map_locked (exec_edit e d)"
proof (cases e)
  case (EditAdd p k blob)
  have put: "modifications_ok (put_modification p k v d)"
    "abs_modifications (put_modification p k v d) = (abs_modifications d)((p, k) \<mapsto> v)" for v
    using assms(1)
    by (auto simp: modifications_ok_def put_modification_def abs_modifications_def inner_map_put
        fun_eq_iff)
  have same: "original_blocks_map (put_modification p k v d) = original_blocks_map d"
    "original_header_block (put_modification p k v d) = original_header_block d"
    "original_blocks_map_locked (put_modification p k v d) = original_blocks_map_locked d" for v
    by (simp_all add: put_modification_def)
  show ?thesis
    using assms put same
    by (cases blob; cases "k = 0") (auto simp: EditAdd AddModification_def ModificationExists_abs)
next
  case (EditRemove p k)
  have erase: "modifications_ok (d\<lparr>modifications_map :=
        map_put p (map_erase k (inner_map p d)) (modifications_map d)\<rparr>)"
    "abs_modifications (d\<lparr>modifications_map :=
        map_put p (map_erase k (inner_map p d)) (modifications_map d)\<rparr>) =
      (abs_modifications d)((p, k) := None)"
    using assms(1)
    by (auto simp: modifications_ok_def abs_modifications_def inner_map_put fun_eq_iff)
  show ?thesis
    using assms erase
    by (auto simp: EditRemove RemoveModification_def ModificationExists_abs)
next
  case EditClear
  then show ?thesis
    using assms by (simp add: ClearAllModifications_def modifications_ok_def abs_modifications_def
        inner_map_def fun_eq_iff)
qed

lemma edits_refine:
  assumes "modifications_ok d" "original_blocks_map_locked d" "n = length (original_blocks_map d)"
  shows "modifications_ok (fold exec_edit es d) \<and>
    abs_modifications (fold exec_edit es d) = fold (spec_edit n) es (abs_modifications d) \<and>
    original_blocks_map (fold exec_edit es d) = original_blocks_map d \<and>
    original_header_block (fold exec_edit es d) = original_header_block d \<and>
    original_blocks_map_locked (fold exec_edit es d)"
  using assms
proof (induction es arbitrary: d)
  case (Cons e es)
  show ?case
    using Cons.IH [of "exec_edit e d"] exec_edit_refines [OF Cons.prems, of e] Cons.prems(3) by simp
qed simp

section \<open>The edited file\<close>

text \<open>What stands at one position: nothing recorded is the original block, and a null a deletion.\<close>

definition piece :: "buffer \<Rightarrow> u64 list \<Rightarrow> modifications \<Rightarrow> nat \<Rightarrow> int \<Rightarrow> buffer" where
  "piece orig offs M i k =
     (case M (i, k) of
        None \<Rightarrow> original_text orig offs i
      | Some None \<Rightarrow> []
      | Some (Some b) \<Rightarrow> block_text orig b)"

definition edited_segment :: "buffer \<Rightarrow> u64 list \<Rightarrow> modifications \<Rightarrow> nat \<Rightarrow> buffer" where
  "edited_segment orig offs M i =
     concat (map (piece orig offs M i) (sorted_list_of_set (insert 0 {k. M (i, k) \<noteq> None})))"

definition edited_file :: "buffer \<Rightarrow> u64 list \<Rightarrow> modifications \<Rightarrow> buffer" where
  "edited_file orig offs M =
     take (unat (hd offs)) orig @ concat (map (edited_segment orig offs M) [0..<length offs])"

definition no_empty_blobs :: "modifications \<Rightarrow> bool" where
  "no_empty_blobs M \<longleftrightarrow> (\<forall>pk. M pk \<noteq> Some (Some (ModificationBlock [])))"

text \<open>Only modification blocks are recorded.\<close>

lemma spec_edits_blobs:
  assumes "\<forall>pk b. M pk = Some (Some b) \<longrightarrow> (\<exists>blob. b = ModificationBlock blob)"
  shows "fold (spec_edit n) es M pk = Some (Some b) \<Longrightarrow> \<exists>blob. b = ModificationBlock blob"
  using assms
proof (induction es arbitrary: M)
  case (Cons e es)
  have "\<forall>pk b. spec_edit n e M pk = Some (Some b) \<longrightarrow> (\<exists>blob. b = ModificationBlock blob)"
    using Cons.prems(2) by (cases e) auto
  then show ?case
    using Cons.IH [of "spec_edit n e M"] Cons.prems(1) by simp
next
  case Nil
  then show ?case by (cases pk) simp
qed

lemma blocks_to_write_keys:
  assumes "modifications_ok d"
  shows "map_sorted (blocks_to_write i d) \<and>
    map_of (blocks_to_write i d) =
      (\<lambda>k. case abs_modifications d (i, k) of
         None \<Rightarrow> if k = 0 then Some (Some (OriginalBlock (original_blocks_map d ! i))) else None
       | Some v \<Rightarrow> Some v)"
proof -
  have "map_sorted (inner_map i d)"
    using assms by (simp add: modifications_ok_def)
  then show ?thesis
    by (auto simp: blocks_to_write_def Let_def abs_modifications_def fun_eq_iff split: option.splits)
qed

lemma emitted_segment:
  assumes ok: "modifications_ok d" and i: "i < length offs"
    and slices: "original_slice orig (original_blocks_map d ! i) = original_text orig offs i"
  shows "writer.emitted orig (blocks_to_write i d) = edited_segment orig offs (abs_modifications d) i"
proof -
  let ?M = "abs_modifications d" and ?m = "blocks_to_write i d"
  have keys: "map_sorted ?m" and val: "\<And>k. map_of ?m k =
      (case ?M (i, k) of
         None \<Rightarrow> if k = 0 then Some (Some (OriginalBlock (original_blocks_map d ! i))) else None
       | Some v \<Rightarrow> Some v)"
    using blocks_to_write_keys [OF ok, of i] by auto
  have dom: "dom (map_of ?m) = insert 0 {k. ?M (i, k) \<noteq> None}"
    by (auto simp: val dom_def split: option.splits if_splits)
  have "writer.emitted orig ?m =
      writer.emitted orig (map (\<lambda>k. (k, the (map_of ?m k))) (sorted_list_of_set (dom (map_of ?m))))"
    using map_sorted_pairs [OF keys] by simp
  also have "\<dots> = concat (map (piece orig offs ?M i) (sorted_list_of_set (dom (map_of ?m))))"
    unfolding writer.emitted_def map_map
  proof (intro arg_cong [where f = concat] map_cong refl)
    fix k
    assume "k \<in> set (sorted_list_of_set (dom (map_of ?m)))"
    then have "k \<in> dom (map_of ?m)"
      by (simp add: finite_dom_map_of)
    then have "k \<in> insert 0 {k. ?M (i, k) \<noteq> None}"
      unfolding dom .
    then show "((\<lambda>(k, b). case b of None \<Rightarrow> [] | Some b \<Rightarrow> block_text orig b) \<circ>
        (\<lambda>k. (k, the (map_of ?m k)))) k = piece orig offs ?M i k"
      by (auto simp: piece_def val slices split: option.splits)
  qed
  finally show ?thesis
    by (simp add: edited_segment_def dom)
qed

lemma edited_file_written:
  assumes offs: "offsets_ok orig offs" and fwrite: "append_laws fwrite"
    and M: "M = fold (spec_edit (length offs)) es (\<lambda>_. None)" "no_empty_blobs M"
    and d: "d = fold exec_edit es (snd (loaded_data offs (word_of_nat (length orig))))"
  shows "WriteGFXRFile fwrite (Some orig) True True True d = (True, Some (edited_file orig offs M))"
proof -
  obtain d0 where d0: "loaded_data offs (word_of_nat (length orig)) = (True, d0)"
      "original_blocks_map_locked d0" "modifications_map d0 = []"
      "length (original_blocks_map d0) = length offs"
      "original_header_block d0 = \<lparr>blk_offset = 0, blk_size = hd offs\<rparr>"
    and blocks: "\<forall>i<length offs.
       original_slice orig (original_blocks_map d0 ! i) = original_text orig offs i \<and>
       writable_block orig (OriginalBlock (original_blocks_map d0 ! i))"
    using loaded_data_ok [OF offs] by blast
  have ok0: "modifications_ok d0" and abs0: "abs_modifications d0 = (\<lambda>_. None)"
    using d0(3) by (auto simp: modifications_ok_def inner_map_def abs_modifications_def)
  have refine: "modifications_ok d" "abs_modifications d = M"
    and same: "original_blocks_map d = original_blocks_map d0"
      "original_header_block d = original_header_block d0" "original_blocks_map_locked d"
    using edits_refine [OF ok0 d0(2), of "length offs" es] d0(1,4) d M(1) abs0 by auto
  have accepts: "writable_block orig b"
    if "i < length offs" "(k, Some b) \<in> set (blocks_to_write i d)" for i k b
  proof -
    have keys: "map_sorted (blocks_to_write i d)"
      using blocks_to_write_keys [OF refine(1)] by blast
    then have "map_of (blocks_to_write i d) k = Some (Some b)"
      using that(2) by (simp add: map_sorted_def strict_sorted_iff)
    then consider "b = OriginalBlock (original_blocks_map d0 ! i)" | "M (i, k) = Some (Some b)"
      using blocks_to_write_keys [OF refine(1), of i] refine(2) same
      by (auto split: option.splits if_splits)
    then show ?thesis
    proof cases
      case 1
      then show ?thesis
        using blocks that(1) by simp
    next
      case 2
      then obtain blob where "b = ModificationBlock blob"
        using spec_edits_blobs [of "\<lambda>_. None"] M(1) by fastforce
      then show ?thesis
        using M(2) 2 by (auto simp: no_empty_blobs_def)
    qed
  qed
  define s0 where "s0 = \<lparr>file_write = fwrite, original_file = orig, original_pos = 0,
      copy_buffer = replicate kDiveBlockBufferSize 0, new_file = []\<rparr>"
  have "writer_ok orig s0"
    using fwrite by (simp add: s0_def writer_ok_def)
  moreover have "hd offs \<le> last offs"
    using offs by (cases offs) (auto simp: offsets_ok_def)
  then have "unat (hd offs) \<le> length orig"
    using offs by (simp add: offsets_ok_def word_le_nat_alt)
  then have "writable_block orig (OriginalBlock (original_header_block d))"
    by (simp add: same d0)
  ultimately obtain s1 where s1:
      "WriterBlockVisitor_Visit (OriginalBlock (original_header_block d)) s0 = (True, s1)"
      "writer_ok orig s1" "new_file s1 = take (unat (hd offs)) orig"
    using writer.visit_accepts [of orig s0 "OriginalBlock (original_header_block d)"]
    by (auto simp: s0_def same d0 original_slice_def)
  obtain s2 where "TraverseBlocks WriterBlockVisitor_Visit d s1 = (True, s2)"
      "new_file s2 = new_file s1 @ concat (map (\<lambda>i. writer.emitted orig (blocks_to_write i d))
        [0..<length (original_blocks_map d)])"
    using writer.traverse_accepts [OF s1(2), of d] accepts same d0(4) by auto
  moreover have "map (\<lambda>i. writer.emitted orig (blocks_to_write i d)) [0..<length offs] =
      map (edited_segment orig offs M) [0..<length offs]"
    using emitted_segment [OF refine(1)] refine(2) blocks same by (auto intro!: map_cong)
  ultimately show ?thesis
    using s1 same d0(4)
    by (simp add: WriteGFXRFile_def edited_file_def flip: s0_def)
qed

section \<open>A file without modifications is copied\<close>

lemma original_text_Suc:
  "original_text orig (x # y # zs) (Suc i) = original_text orig (y # zs) i"
  by (simp add: original_text_def segment_end_def)

lemma concat_original_text:
  assumes "offs \<noteq> []" "sorted offs" "unat (last offs) \<le> length orig"
  shows "concat (map (original_text orig offs) [0..<length offs]) = drop (unat (hd offs)) orig"
  using assms
proof (induction offs rule: induct_list012)
  case (3 x y zs)
  have rest: "concat (map (original_text orig (y # zs)) [0..<length (y # zs)]) = drop (unat y) orig"
    using "3.IH"(2) "3.prems" by auto
  have split: "[0..<length (x # y # zs)] = 0 # map Suc [0..<length (y # zs)]"
    by (simp add: map_Suc_upt upt_conv_Cons del: upt_Suc)
  have xy: "unat x \<le> unat y" "unat y \<le> length orig"
    using "3.prems" by (cases zs rule: rev_cases; auto simp: word_le_nat_alt)+
  have "concat (map (original_text orig (x # y # zs)) [0..<length (x # y # zs)]) =
      original_text orig (x # y # zs) 0 @ drop (unat y) orig"
    unfolding split rest [symmetric] by (simp add: comp_def original_text_Suc del: upt_Suc)
  also have "\<dots> = drop (unat x) (take (unat y) orig) @ drop (unat y) orig"
    by (simp add: original_text_def segment_end_def)
  also have "\<dots> = drop (unat x) orig"
    using xy by (metis append_take_drop_id drop_append length_take diff_is_0_eq drop_0 min.absorb2)
  finally show ?case
    by simp
qed (simp_all add: original_text_def segment_end_def)

lemma edited_file_unmodified:
  assumes "offsets_ok orig offs"
  shows "edited_file orig offs (\<lambda>_. None) = orig"
proof -
  have "edited_segment orig offs (\<lambda>_. None) = original_text orig offs"
    by (simp add: edited_segment_def piece_def fun_eq_iff)
  then show ?thesis
    using assms by (simp add: edited_file_def concat_original_text offsets_ok_def)
qed

text \<open>Edits that leave no modification, for example because each was removed again.\<close>

lemma unmodified_file_copied:
  assumes "offsets_ok orig offs" "append_laws fwrite"
    "fold (spec_edit (length offs)) es (\<lambda>_. None) = (\<lambda>_. None)"
  shows "WriteGFXRFile fwrite (Some orig) True True True
      (fold exec_edit es (snd (loaded_data offs (word_of_nat (length orig))))) = (True, Some orig)"
  using edited_file_written [OF assms(1,2) refl _ refl, of es] assms
  by (simp add: no_empty_blobs_def edited_file_unmodified)

section \<open>Errors\<close>

text \<open>
  The results of \<^verbatim>\<open>FileRead\<close> and \<^verbatim>\<open>FileWrite\<close> in the copy loop are ignored: a file without
  modifications is reported as written whatever the writes do.
\<close>

lemma original_block_reported_ok:
  assumes "unat (blk_offset b) < 2 ^ 63"
  shows "fst (WriterBlockVisitor_Visit (OriginalBlock b) s)"
  using assms by (auto simp: FileSeekSet_def)

lemma write_failure_ignored:
  "WriteGFXRFile (\<lambda>f bytes. (False, f)) (Some [7, 8, 9]) True True True (snd (loaded_data [1] 3)) =
     (True, Some [])"
proof -
  have loop: "new_file (copy_loop n s) = new_file s"
    if "file_write s = (\<lambda>f bytes. (False, f))" for n s
    using that
  proof (induction n s rule: copy_loop.induct)
    case (1 n s)
    then show ?case
      by (subst copy_loop.simps)
        (auto simp: Let_def FileRead_copy_def FileWrite_new_def)
  qed
  have fw: "file_write (copy_loop n s) = file_write s" for n s
  proof (induction n s rule: copy_loop.induct)
    case (1 n s)
    then show ?case
      by (subst copy_loop.simps)
        (auto simp: Let_def FileRead_copy_def FileWrite_new_def split: prod.splits)
  qed
  show ?thesis
    by (simp add: WriteGFXRFile_def loaded_data_def load_blocks_def AddOriginalBlock_def
        DiveBlockData_new_def FinalizeOriginalBlocksMapSizes_def FileSeekSet_def
        TraverseBlocks_def blocks_to_write_def inner_map_def loop fw)
qed

text \<open>A last offset past the end of the file is not noticed: the size of the last block wraps.\<close>

lemma last_block_size_wraps:
  "loaded_data [10] 4 =
     (True, DiveBlockData_new\<lparr>original_blocks_map := [\<lparr>blk_offset = 10, blk_size = - 6\<rparr>],
        original_header_block := \<lparr>blk_offset = 0, blk_size = 10\<rparr>,
        original_blocks_map_locked := True\<rparr>)"
  by (simp add: loaded_data_def load_blocks_def AddOriginalBlock_def DiveBlockData_new_def
      FinalizeOriginalBlocksMapSizes_def)

end
