(* ===== verification/Core_Vector.thy ===== *)
theory Core_Vector
  imports Dive_Prelude "HOL-Library.Monad_Syntax"
begin

text \<open>
  \<^verbatim>\<open>Dive::Vector\<close> of \<^verbatim>\<open>src/dive_core/stl_replacement.hpp\<close>, the growable array that the capture and the
  command hierarchy are kept in (\<^verbatim>\<open>DiveVector\<close>): a buffer of raw memory, how many elements it can hold,
  and how many it holds.

  Shown here: the capacity is rounded up to the least power of two; a program of constructors,
  assignments and operations on several vectors acts like the same program on lists, as long as it asks
  for nothing the operations do not allow (\<open>op_fits\<close>); and why that is needed and where the vector differs
  from a list: resizing leaves elements undetermined, appending one of its own elements to a full vector
  reads freed memory, and copies of elements that are not plain data assign to memory without objects.

  \<open>None\<close> is undefined behaviour, a failed assertion of a debug build, or a loop that does not end.
\<close>

section \<open>The representation\<close>

text \<open>A cell of the buffer holds no object, or the value of one.\<close>

datatype 'a cell = Raw | Live 'a

record 'a vector =
  v_buffer :: "'a cell list"
  v_reserved :: u64
  v_size :: u64

text \<open>
  What the code depends on of the type of the elements: \<^verbatim>\<open>std::is_trivially_constructible\<close>, whether
  values may be assigned to memory that holds no object, and the value of \<^verbatim>\<open>Type()\<close>.
\<close>

record 'a elem_type =
  trivially_constructible :: bool
  trivially_copyable :: bool
  default_value :: 'a

definition Vector_new :: "'a vector" where
  "Vector_new = \<lparr>v_buffer = [], v_reserved = 0, v_size = 0\<rparr>"

section \<open>Operations\<close>

text \<open>Rounding up to a power of two; the result of a size above \<open>2 ^ 63\<close> wraps to zero.\<close>

definition round_up :: "u64 \<Rightarrow> u64" where
  "round_up n =
     (let m = n - 1;
          m = m OR drop_bit 1 m;
          m = m OR drop_bit 2 m;
          m = m OR drop_bit 4 m;
          m = m OR drop_bit 8 m;
          m = m OR drop_bit 16 m;
          m = m OR drop_bit 32 m
      in m + 1)"

text \<open>
  The loop that moves the elements has a 32-bit counter, which never reaches a size of \<open>2 ^ 32\<close> or more.
  Moving keeps the values.
\<close>

definition reserve :: "u64 \<Rightarrow> 'a vector \<Rightarrow> 'a vector option" where
  "reserve n v =
     (if n > v_reserved v
      then
        (let reserved = round_up n; new_buffer = replicate (unat reserved) Raw in
         if v_buffer v \<noteq> [] \<and> unat (v_size v) \<ge> 2 ^ 32 then None
         else if unat (v_size v) > length new_buffer then None
         else
           Some (v\<lparr>v_reserved := reserved,
             v_buffer := take (unat (v_size v)) (v_buffer v) @ drop (unat (v_size v)) new_buffer\<rparr>))
      else Some v)"

text \<open>Writing a cell beyond the buffer is undefined.\<close>

definition set_cell :: "u64 \<Rightarrow> 'a cell \<Rightarrow> 'a vector \<Rightarrow> 'a vector option" where
  "set_cell i c v =
     (if unat i < length (v_buffer v) then Some (v\<lparr>v_buffer := (v_buffer v)[unat i := c]\<rparr>) else None)"

text \<open>An argument of \<^verbatim>\<open>push_back\<close> is a reference: to an object elsewhere, or into the vector.\<close>

datatype 'a argument = Elsewhere 'a | Within u64

definition push_back :: "'a argument \<Rightarrow> 'a vector \<Rightarrow> 'a vector option" where
  "push_back a v =
     do {
       v' \<leftarrow> reserve (v_size v + 1) v;
       c \<leftarrow> (case a of
               Elsewhere x \<Rightarrow> Some (Live x)
             | Within i \<Rightarrow>
                 if v_size v + 1 > v_reserved v \<or> unat i \<ge> length (v_buffer v') then None
                 else Some (v_buffer v' ! unat i));
       v' \<leftarrow> set_cell (v_size v') c v';
       Some (v'\<lparr>v_size := v_size v' + 1\<rparr>)
     }"

definition emplace_back :: "'a \<Rightarrow> 'a vector \<Rightarrow> 'a vector option" where
  "emplace_back x v =
     do {
       v \<leftarrow> reserve (v_size v + 1) v;
       v \<leftarrow> set_cell (v_size v) (Live x) v;
       Some (v\<lparr>v_size := v_size v + 1\<rparr>)
     }"

definition pop_back :: "'a vector \<Rightarrow> 'a vector option" where
  "pop_back v =
     (if v_size v > 0
      then map_option (\<lambda>v. v\<lparr>v_size := v_size v - 1\<rparr>) (set_cell (v_size v - 1) Raw v)
      else Some v)"

definition at_index :: "bool \<Rightarrow> u64 \<Rightarrow> 'a vector \<Rightarrow> 'a cell option" where
  "at_index debug i v =
     do {
       DIVE_ASSERT debug (i < v_size v);
       if unat i < length (v_buffer v) then Some (v_buffer v ! unat i) else None
     }"

definition vector_front :: "'a vector \<Rightarrow> 'a cell option" where
  "vector_front v = (if v_buffer v = [] then None else Some (v_buffer v ! 0))"

definition vector_back :: "'a vector \<Rightarrow> 'a cell option" where
  "vector_back v =
     (if unat (v_size v - 1) < length (v_buffer v) then Some (v_buffer v ! unat (v_size v - 1)) else None)"

definition vector_empty :: "'a vector \<Rightarrow> bool" where
  "vector_empty v \<longleftrightarrow> v_size v = 0"

text \<open>The cells from \<open>v_size\<close> to \<open>size\<close> get an object.\<close>

definition construct :: "u64 \<Rightarrow> 'a \<Rightarrow> 'a vector \<Rightarrow> 'a vector option" where
  "construct n x v =
     (if n \<le> v_size v then Some v
      else if unat n > length (v_buffer v) then None
      else Some (v\<lparr>v_buffer := take (unat (v_size v)) (v_buffer v) @
                    replicate (unat n - unat (v_size v)) (Live x) @ drop (unat n) (v_buffer v)\<rparr>))"

definition resize_with :: "u64 \<Rightarrow> 'a \<Rightarrow> 'a vector \<Rightarrow> 'a vector option" where
  "resize_with n x v =
     do {
       v \<leftarrow> reserve n v;
       v \<leftarrow> construct n x v;
       Some (v\<lparr>v_size := n\<rparr>)
     }"

definition resize :: "'a elem_type \<Rightarrow> u64 \<Rightarrow> 'a vector \<Rightarrow> 'a vector option" where
  "resize T n v =
     do {
       v \<leftarrow> reserve n v;
       v \<leftarrow> (if trivially_constructible T then Some v else construct n (default_value T) v);
       Some (v\<lparr>v_size := n\<rparr>)
     }"

definition Vector_sized :: "'a elem_type \<Rightarrow> u64 \<Rightarrow> 'a vector option" where
  "Vector_sized T n =
     do {
       v \<leftarrow> reserve n Vector_new;
       v \<leftarrow> construct n (default_value T) v;
       Some (v\<lparr>v_size := n\<rparr>)
     }"

text \<open>
  \<^verbatim>\<open>std::copy\<close> of \<open>cs\<close> to the front of the buffer: an assignment to a cell without an object is
  undefined unless the type is plain data.
\<close>

definition copy_to :: "'a elem_type \<Rightarrow> 'a cell list \<Rightarrow> 'a vector \<Rightarrow> 'a vector option" where
  "copy_to T cs v =
     (if length cs > length (v_buffer v) then None
      else if \<not> trivially_copyable T \<and> Raw \<in> set (take (length cs) (v_buffer v)) then None
      else Some (v\<lparr>v_buffer := cs @ drop (length cs) (v_buffer v)\<rparr>))"

definition used_cells :: "'a vector \<Rightarrow> 'a cell list" where
  "used_cells v = take (unat (v_size v)) (v_buffer v)"

definition Vector_copy :: "'a elem_type \<Rightarrow> 'a vector \<Rightarrow> 'a vector option" where
  "Vector_copy T a =
     do {
       v \<leftarrow> reserve (v_size a) Vector_new;
       copy_to T (used_cells a) (v\<lparr>v_size := v_size a\<rparr>)
     }"

definition Vector_of_list :: "'a elem_type \<Rightarrow> 'a list \<Rightarrow> 'a vector option" where
  "Vector_of_list T xs =
     do {
       v \<leftarrow> reserve (word_of_nat (length xs)) Vector_new;
       copy_to T (map Live xs) (v\<lparr>v_size := word_of_nat (length xs)\<rparr>)
     }"

text \<open>Copy assignment from another vector.\<close>

definition assign_copy :: "'a elem_type \<Rightarrow> 'a vector \<Rightarrow> 'a vector \<Rightarrow> 'a vector option" where
  "assign_copy T a v =
     do {
       v \<leftarrow> reserve (v_size a) v;
       copy_to T (used_cells a) (v\<lparr>v_size := v_size a\<rparr>)
     }"

text \<open>
  Move assignment from another vector: the results are the new vector, the one moved from, and the
  buffer that nothing points to any more.
\<close>

definition assign_move :: "'a vector \<Rightarrow> 'a vector \<Rightarrow> 'a vector \<times> 'a vector \<times> 'a cell list" where
  "assign_move a v = (a, Vector_new, v_buffer v)"

definition Vector_move :: "'a vector \<Rightarrow> 'a vector \<times> 'a vector" where
  "Vector_move a = (a, Vector_new)"

definition internal_clear :: "'a vector \<Rightarrow> 'a vector option" where
  "internal_clear v =
     (if v_buffer v \<noteq> [] \<and> unat (v_size v) \<ge> 2 ^ 32 then None else Some Vector_new)"

section \<open>Rounding up\<close>

text \<open>Every step doubles the distance over which the highest bit is smeared downwards.\<close>

definition smeared :: "nat \<Rightarrow> u64 \<Rightarrow> u64 \<Rightarrow> bool" where
  "smeared n x m \<longleftrightarrow> (\<forall>i. bit m i \<longleftrightarrow> (\<exists>j. i \<le> j \<and> j < i + n \<and> bit x j))"

lemma smeared_start: "smeared 1 x x"
  by (auto simp: smeared_def less_Suc_eq_le intro: exI [of _ i for i] dest: le_antisym)

lemma smeared_step:
  assumes "smeared n x m" "k = n + n"
  shows "smeared k x (m OR drop_bit n m)"
  unfolding smeared_def
proof
  fix i
  have "bit (m OR drop_bit n m) i \<longleftrightarrow> bit m i \<or> bit m (i + n)"
    by (auto simp: bit_simps add.commute dest: bit_imp_le_length)
  also have "\<dots> \<longleftrightarrow> (\<exists>j. i \<le> j \<and> j < i + n \<and> bit x j) \<or> (\<exists>j. i + n \<le> j \<and> j < i + n + n \<and> bit x j)"
    using assms(1) by (simp add: smeared_def)
  also have "\<dots> \<longleftrightarrow> (\<exists>j. i \<le> j \<and> j < i + k \<and> bit x j)"
    using assms(2) by (auto; metis add.assoc leI le_add1 le_trans trans_less_add1)
  finally show "bit (m OR drop_bit n m) i \<longleftrightarrow> (\<exists>j. i \<le> j \<and> j < i + k \<and> bit x j)" .
qed

lemma bit_of_unat: "bit (x :: u64) j \<longleftrightarrow> odd (unat x div 2 ^ j)"
proof -
  have "bit (unat x) j \<longleftrightarrow> bit x j"
    by (auto simp: bit_unsigned_iff dest: bit_imp_le_length)
  then show ?thesis
    by (simp add: bit_iff_odd)
qed

lemma smeared_mask:
  assumes "smeared 64 x m" "unat x < 2 ^ k" "k > 0 \<Longrightarrow> 2 ^ (k - 1) \<le> unat x"
  shows "m = mask k"
proof (rule bit_word_eqI)
  fix i
  assume i: "i < LENGTH(64)"
  have low: "j < k" if "bit x j" for j
  proof (rule ccontr)
    assume "\<not> j < k"
    then have "(2 :: nat) ^ k \<le> 2 ^ j"
      by (intro power_increasing) simp_all
    then have "unat x < 2 ^ j"
      by (rule order_less_le_trans [OF assms(2)])
    then show False
      using that by (simp add: bit_of_unat)
  qed
  have high: "bit x (k - 1)" if "k > 0"
  proof -
    have "unat x < 2 * 2 ^ (k - 1)"
      using assms(2) that by (cases k) simp_all
    then have "unat x div 2 ^ (k - 1) = 1"
      using assms(3) [OF that] by (simp add: div_nat_eqI)
    then show ?thesis
      by (simp add: bit_of_unat)
  qed
  have "bit m i \<longleftrightarrow> (\<exists>j. i \<le> j \<and> j < i + 64 \<and> bit x j)"
    using assms(1) by (simp add: smeared_def)
  also have "\<dots> \<longleftrightarrow> i < k"
    using low high bit_imp_le_length [of x "k - 1"]
    by (cases "k = 0") (auto intro!: exI [of _ "k - 1"] dest: le_less_trans)
  finally show "bit m i \<longleftrightarrow> bit (mask k :: u64) i"
    using i by (simp add: bit_mask_iff)
qed


lemma round_up_correct:
  assumes "0 < n" "unat n \<le> 2 ^ 63"
  obtains k where "unat (round_up n) = 2 ^ k" "unat n \<le> 2 ^ k" "2 ^ k < 2 * unat n" "k \<le> 63"
proof -
  let ?x = "n - 1"
  have x: "unat ?x = unat n - 1"
    using assms(1) by (simp add: unat_minus_one word_neq_0_conv)
  have pos: "0 < unat n"
    using assms(1) by (simp add: word_less_nat_alt)
  define k where "k = (LEAST k. unat ?x < 2 ^ k)"
  have ex: "unat ?x < 2 ^ k"
    unfolding k_def by (rule LeastI [of _ "unat ?x"]) simp
  have least: "2 ^ (k - 1) \<le> unat ?x" if "k > 0"
    using not_less_Least [of "k - 1" "\<lambda>k. unat ?x < 2 ^ k"] that unfolding k_def by simp
  have k63: "k \<le> 63"
    unfolding k_def by (rule Least_le) (use assms(2) pos x in simp)
  have "smeared 64 ?x (round_up n - 1)"
    unfolding round_up_def Let_def
    by (simp only: add_diff_cancel_right') (intro smeared_step smeared_start; simp)
  then have "round_up n - 1 = mask k"
    using ex least by (rule smeared_mask)
  then have r: "round_up n = mask k + 1"
    by (metis diff_add_cancel)
  have "unat (mask k :: u64) = take_bit k (unat (- 1 :: u64))"
    by (simp only: unsigned_take_bit_eq [symmetric] take_bit_minus_one_eq_mask)
  also have "\<dots> = take_bit k (mask 64)"
    by (simp only: unsigned_minus_1_eq_mask len_bit0 len_num1) simp
  also have "\<dots> = mask (min k 64)"
    by (rule take_bit_of_mask)
  also have "\<dots> = 2 ^ k - 1"
    using k63 by (simp add: min_def mask_eq_exp_minus_1)
  finally have "unat (mask k :: u64) = 2 ^ k - 1" .
  moreover have "(2 :: nat) ^ k < 2 ^ 64"
    using k63 by (intro power_strict_increasing) simp_all
  ultimately have "unat (round_up n) = 2 ^ k"
    unfolding r by (simp add: unat_word_ariths)
  moreover have "unat n \<le> 2 ^ k"
    using ex x by simp
  moreover have "2 ^ k < 2 * unat n"
    using least x pos by (cases k) auto
  ultimately show thesis
    using that k63 by blast
qed

section \<open>The vector as a list\<close>

text \<open>
  The contents of a vector: its capacity and its elements, \<open>None\<close> for an element that was never given a
  value. The capacity grows to the least power of two that is large enough.
\<close>

type_synonym 'a contents = "nat \<times> 'a option list"

fun next_power :: "nat \<Rightarrow> nat" where
  "next_power n = (if n \<le> 1 then 1 else 2 * next_power ((n + 1) div 2))"

declare next_power.simps [simp del]

lemma next_power_eq: "n \<le> 2 ^ k \<Longrightarrow> 2 ^ k < 2 * n \<Longrightarrow> next_power n = 2 ^ k"
proof (induction k arbitrary: n)
  case (Suc k)
  then have "next_power ((n + 1) div 2) = 2 ^ k"
    by (intro Suc.IH) (use Suc.prems in simp_all)
  then show ?case
    using Suc.prems by (subst next_power.simps) simp
qed (simp add: next_power.simps)

definition grown :: "nat \<Rightarrow> nat \<Rightarrow> nat" where
  "grown n c = (if n \<le> c then c else next_power n)"

lemma le_next_power: "n \<le> next_power n"
proof (induction n rule: next_power.induct)
  case (1 n)
  then show ?case
    by (cases "n \<le> 1") (subst next_power.simps; simp; linarith?)+
qed

lemma le_grown: "n \<le> grown n c" "c \<le> grown n c"
  using le_next_power [of n] by (auto simp: grown_def)

definition holds_value :: "'a cell \<Rightarrow> 'a option \<Rightarrow> bool" where
  "holds_value c x \<longleftrightarrow> (case x of None \<Rightarrow> True | Some a \<Rightarrow> c = Live a)"

lemma holds_value_simps [simp]: "holds_value c None" "holds_value c (Some a) \<longleftrightarrow> c = Live a"
  by (simp_all add: holds_value_def)

definition stores :: "'a vector \<Rightarrow> 'a contents \<Rightarrow> bool" where
  "stores v = (\<lambda>(c, xs). length (v_buffer v) = c \<and> unat (v_reserved v) = c \<and> unat (v_size v) = length xs \<and>
     list_all2 holds_value (used_cells v) xs)"

lemma stores_new: "stores Vector_new (0, [])"
  by (simp add: stores_def Vector_new_def used_cells_def)

text \<open>The buffer is the elements and the memory behind them.\<close>

lemma storesE:
  assumes "stores v (c, xs)"
  obtains us rest where "v_buffer v = us @ rest" "length us = length xs" "length us + length rest = c"
    "unat (v_reserved v) = c" "unat (v_size v) = length us" "list_all2 holds_value us xs"
proof
  show "v_buffer v = used_cells v @ drop (length xs) (v_buffer v)"
    using assms by (simp add: stores_def used_cells_def)
  show "length (used_cells v) = length xs"
    using assms by (auto simp: stores_def dest: list_all2_lengthD)
  then show "length (used_cells v) + length (drop (length xs) (v_buffer v)) = c"
    using assms by (auto simp: stores_def used_cells_def)
qed (use assms in \<open>auto simp: stores_def dest: list_all2_lengthD\<close>)

lemma storesI:
  assumes "v_buffer v = us @ rest" "length us + length rest = c" "unat (v_reserved v) = c"
    "unat (v_size v) = length us" "list_all2 holds_value us xs"
  shows "stores v (c, xs)"
  using assms list_all2_lengthD [OF assms(5)] by (simp add: stores_def used_cells_def)

lemma reserve_stores:
  assumes "stores v (c, xs)" "length xs < 2 ^ 32" "unat n \<le> 2 ^ 63"
  shows "\<exists>v'. reserve n v = Some v' \<and> stores v' (grown (unat n) c, xs) \<and> v_size v' = v_size v \<and>
    used_cells v' = used_cells v \<and> (n \<le> v_reserved v \<longrightarrow> v' = v)"
proof -
  obtain us rest where v: "v_buffer v = us @ rest" "length us = length xs" "length us + length rest = c"
      "unat (v_reserved v) = c" "unat (v_size v) = length us" "list_all2 holds_value us xs"
    using assms(1) by (rule storesE)
  show ?thesis
  proof (cases "n > v_reserved v")
    case True
    then have "0 < n" and c: "c < unat n"
      using v(4) by (simp_all add: word_greater_zero_iff word_less_nat_alt)
    then obtain k where k: "unat (round_up n) = 2 ^ k" "unat n \<le> 2 ^ k" "2 ^ k < 2 * unat n"
      using round_up_correct [OF _ assms(3)] by metis
    have p: "grown (unat n) c = 2 ^ k"
      using c next_power_eq [OF k(2,3)] by (simp add: grown_def)
    have le: "length us \<le> 2 ^ k"
      using v(3) c k(2) by simp
    let ?v = "v\<lparr>v_reserved := round_up n, v_buffer := us @ replicate (2 ^ k - length us) Raw\<rparr>"
    have "reserve n v = Some ?v"
      using True assms(2) v(1,2,5) k(1) le by (simp add: reserve_def Let_def)
    moreover have "stores ?v (grown (unat n) c, xs)"
      unfolding p by (rule storesI [where us = us and rest = "replicate (2 ^ k - length us) Raw"]) (use v k(1) le in simp_all)
    ultimately show ?thesis
      using True v(1,5) by (simp add: used_cells_def)
  next
    case False
    then have "reserve n v = Some v" "unat n \<le> c"
      using v(4) by (simp add: reserve_def, simp add: word_less_nat_alt)
    then show ?thesis
      using assms(1) by (simp add: grown_def)
  qed
qed

lemma holds_value_replicate: "list_all2 holds_value (replicate k (Live x)) (replicate k (Some x))"
  by (simp add: list_all2_conv_all_nth)

text \<open>Writing the cells behind the elements.\<close>

lemma construct_stores:
  assumes "stores v (c, xs)" "length xs \<le> unat n" "unat n \<le> c"
  shows "\<exists>v'. construct n x v = Some v' \<and>
    stores (v'\<lparr>v_size := n\<rparr>) (c, xs @ replicate (unat n - length xs) (Some x))"
proof -
  obtain us rest where v: "v_buffer v = us @ rest" "length us = length xs" "length us + length rest = c"
      "unat (v_reserved v) = c" "unat (v_size v) = length us" "list_all2 holds_value us xs"
    using assms(1) by (rule storesE)
  show ?thesis
  proof (cases "n \<le> v_size v")
    case True
    then have "unat n = length xs"
      using assms(2) v by (simp add: word_le_nat_alt)
    then show ?thesis
      using assms(1) True v by (auto simp: construct_def intro!: storesI [where us = us and rest = rest])
  next
    case False
    let ?cs = "us @ replicate (unat n - length us) (Live x)"
    let ?v = "v\<lparr>v_buffer := ?cs @ drop (unat n) (us @ rest)\<rparr>"
    have "construct n x v = Some ?v"
      using False assms(3) v by (simp add: construct_def)
    moreover have "stores (?v\<lparr>v_size := n\<rparr>) (c, xs @ replicate (unat n - length xs) (Some x))"
      by (rule storesI [where us = ?cs and rest = "drop (unat n) (us @ rest)"])
        (use v assms(2,3) in \<open>simp_all add: list_all2_appendI holds_value_replicate\<close>)
    ultimately show ?thesis
      by blast
  qed
qed

lemma stores_take:
  assumes "stores v (c, xs)" "unat n \<le> length xs"
  shows "stores (v\<lparr>v_size := n\<rparr>) (c, take (unat n) xs)"
proof -
  obtain us rest where v: "v_buffer v = us @ rest" "length us = length xs" "length us + length rest = c"
      "unat (v_reserved v) = c" "unat (v_size v) = length us" "list_all2 holds_value us xs"
    using assms(1) by (rule storesE)
  show ?thesis
    by (rule storesI [where us = "take (unat n) us" and rest = "drop (unat n) us @ rest"])
      (use v assms(2) in auto)
qed

lemma stores_append_cell:
  assumes "stores v (c, xs)" "length xs < c" "length xs + 1 < 2 ^ 32" "holds_value b x"
  shows "\<exists>v'. set_cell (v_size v) b v = Some v' \<and> v_size v' = v_size v \<and>
    stores (v'\<lparr>v_size := v_size v + 1\<rparr>) (c, xs @ [x])"
proof -
  obtain us rest where v: "v_buffer v = us @ rest" "length us = length xs" "length us + length rest = c"
      "unat (v_reserved v) = c" "unat (v_size v) = length us" "list_all2 holds_value us xs"
    using assms(1) by (rule storesE)
  then obtain r rs where rest: "rest = r # rs"
    using assms(2) by (cases rest) auto
  let ?v = "v\<lparr>v_buffer := (us @ [b]) @ rs\<rparr>"
  have "set_cell (v_size v) b v = Some ?v"
    using v rest by (simp add: set_cell_def list_update_append)
  moreover have "stores (?v\<lparr>v_size := v_size v + 1\<rparr>) (c, xs @ [x])"
    by (rule storesI [where us = "us @ [b]" and rest = rs])
      (use v rest assms(3,4) in \<open>auto intro!: list_all2_appendI simp: unat_word_ariths\<close>)
  ultimately show ?thesis
    by auto
qed


text \<open>The operations one by one.\<close>

lemma holds_value_cells:
  assumes "stores v (c, xs)" "i < length xs"
  shows "i < length (v_buffer v)" "holds_value (v_buffer v ! i) (xs ! i)"
  using assms(1) by (rule storesE, use assms(2) in \<open>simp add: nth_append list_all2_conv_all_nth\<close>)+

lemma emplace_back_stores:
  assumes "stores v (c, xs)" "length xs + 1 < 2 ^ 32"
  shows "\<exists>v'. emplace_back x v = Some v' \<and> stores v' (grown (length xs + 1) c, xs @ [Some x])"
proof -
  have n: "unat (v_size v + 1) = length xs + 1"
    using assms by (simp add: stores_def unat_word_ariths)
  obtain v1 where v1: "reserve (v_size v + 1) v = Some v1" "stores v1 (grown (length xs + 1) c, xs)"
      "v_size v1 = v_size v"
    using reserve_stores [OF assms(1), of "v_size v + 1"] assms(2) n by auto
  have "length xs < grown (length xs + 1) c"
    using le_grown(1) [of "length xs + 1" c] by simp
  then show ?thesis
    using stores_append_cell [OF v1(2), of "Live x" "Some x"] v1 assms(2) by (auto simp: emplace_back_def)
qed

lemma push_back_elsewhere_stores:
  assumes "stores v (c, xs)" "length xs + 1 < 2 ^ 32"
  shows "\<exists>v'. push_back (Elsewhere x) v = Some v' \<and> stores v' (grown (length xs + 1) c, xs @ [Some x])"
  using emplace_back_stores [OF assms, of x] by (auto simp: push_back_def emplace_back_def split: bind_splits)

lemma push_back_within_stores:
  assumes "stores v (c, xs)" "length xs + 1 < 2 ^ 32" "unat i < length xs" "length xs < c"
  shows "\<exists>v'. push_back (Within i) v = Some v' \<and> stores v' (c, xs @ [xs ! unat i])"
proof -
  have n: "unat (v_size v + 1) = length xs + 1"
    using assms by (simp add: stores_def unat_word_ariths)
  then have "\<not> v_size v + 1 > v_reserved v"
    using assms(1,4) by (simp add: stores_def word_less_nat_alt)
  moreover from this have "reserve (v_size v + 1) v = Some v"
    by (simp add: reserve_def)
  ultimately show ?thesis
    using stores_append_cell [OF assms(1,4,2) holds_value_cells(2) [OF assms(1,3)]] holds_value_cells(1) [OF assms(1,3)]
    by (auto simp: push_back_def)
qed

lemma pop_back_stores:
  assumes "stores v (c, xs)"
  shows "\<exists>v'. pop_back v = Some v' \<and> stores v' (c, butlast xs)"
proof (cases "xs = []")
  case True
  then have "v_size v = 0"
    using assms by (simp add: stores_def unat_eq_0)
  then show ?thesis
    using assms True by (simp add: pop_back_def)
next
  case False
  obtain us rest where v: "v_buffer v = us @ rest" "length us = length xs" "length us + length rest = c"
      "unat (v_reserved v) = c" "unat (v_size v) = length us" "list_all2 holds_value us xs"
    using assms by (rule storesE)
  have "v_size v \<noteq> 0"
    using False v(2,5) by auto
  then have n: "v_size v > 0" "unat (v_size v - 1) = length us - 1"
    using v(5) unat_minus_one [of "v_size v"] by (simp_all add: word_greater_zero_iff)
  obtain u w where us: "us = u @ [w]"
    using False v(2) by (metis append_butlast_last_id list.size(3) length_0_conv)
  obtain ys y where xs: "xs = ys @ [y]"
    using False by (metis append_butlast_last_id)
  let ?v = "v\<lparr>v_buffer := u @ Raw # rest, v_size := v_size v - 1\<rparr>"
  have "pop_back v = Some ?v"
    using n us v(1) by (simp add: pop_back_def set_cell_def)
  moreover have "stores ?v (c, ys)"
    by (rule storesI [where us = u and rest = "Raw # rest"])
      (use v n us xs in \<open>auto simp: list_all2_append\<close>)
  ultimately show ?thesis
    using xs by simp
qed

definition resized :: "nat \<Rightarrow> 'a option \<Rightarrow> 'a option list \<Rightarrow> 'a option list" where
  "resized n x xs = take n xs @ replicate (n - length xs) x"

lemma construct_shrinking: "stores v (c, xs) \<Longrightarrow> unat n \<le> length xs \<Longrightarrow> construct n x v = Some v"
  by (simp add: construct_def stores_def word_le_nat_alt)

lemma construct_resized:
  assumes "stores v (c, xs)" "unat n \<le> c"
  shows "\<exists>v'. construct n x v = Some v' \<and> stores (v'\<lparr>v_size := n\<rparr>) (c, resized (unat n) (Some x) xs)"
proof (cases "length xs \<le> unat n")
  case True
  then show ?thesis
    using construct_stores [OF assms(1) True assms(2), of x] by (simp add: resized_def)
next
  case False
  then show ?thesis
    using construct_shrinking [OF assms(1), of n x] stores_take [OF assms(1), of n] by (simp add: resized_def)
qed

lemma size_resized:
  assumes "stores v (c, xs)" "unat n \<le> c"
  shows "stores (v\<lparr>v_size := n\<rparr>) (c, resized (unat n) None xs)"
proof (cases "length xs \<le> unat n")
  case True
  obtain us rest where v: "v_buffer v = us @ rest" "length us = length xs" "length us + length rest = c"
      "unat (v_reserved v) = c" "unat (v_size v) = length us" "list_all2 holds_value us xs"
    using assms(1) by (rule storesE)
  let ?k = "unat n - length xs"
  have "list_all2 holds_value (take ?k rest) (replicate ?k None)"
    using v(2,3) assms(2) by (simp add: list_all2_conv_all_nth)
  then show ?thesis
    unfolding resized_def
    by (intro storesI [where us = "us @ take ?k rest" and rest = "drop ?k rest"])
      (use True v assms(2) in \<open>simp_all add: list_all2_appendI\<close>)
next
  case False
  then show ?thesis
    using stores_take [OF assms(1), of n] by (simp add: resized_def)
qed

lemma resize_with_stores:
  assumes "stores v (c, xs)" "length xs < 2 ^ 32" "unat n < 2 ^ 32"
  shows "\<exists>v'. resize_with n x v = Some v' \<and> stores v' (grown (unat n) c, resized (unat n) (Some x) xs)"
proof -
  obtain v1 where "reserve n v = Some v1" "stores v1 (grown (unat n) c, xs)"
    using reserve_stores [OF assms(1,2), of n] assms(3) by auto
  then show ?thesis
    using construct_resized [of v1 "grown (unat n) c" xs n x] by (auto simp: resize_with_def le_grown)
qed

definition fill :: "'a elem_type \<Rightarrow> 'a option" where
  "fill T = (if trivially_constructible T then None else Some (default_value T))"

lemma resize_stores:
  assumes "stores v (c, xs)" "length xs < 2 ^ 32" "unat n < 2 ^ 32"
  shows "\<exists>v'. resize T n v = Some v' \<and> stores v' (grown (unat n) c, resized (unat n) (fill T) xs)"
proof -
  obtain v1 where "reserve n v = Some v1" "stores v1 (grown (unat n) c, xs)"
    using reserve_stores [OF assms(1,2), of n] assms(3) by auto
  then show ?thesis
    using construct_resized [of v1 "grown (unat n) c" xs n "default_value T"]
      size_resized [of v1 "grown (unat n) c" xs n]
    by (auto simp: resize_def fill_def le_grown)
qed

lemma sized_stores:
  assumes "unat n < 2 ^ 32"
  shows "\<exists>v'. Vector_sized T n = Some v' \<and> stores v' (grown (unat n) 0, replicate (unat n) (Some (default_value T)))"
  using resize_with_stores [OF stores_new, of n "default_value T"] assms
  by (simp add: Vector_sized_def resize_with_def resized_def)

text \<open>Copies, to a buffer that may hold elements.\<close>

lemma copy_to_stores:
  assumes "stores v (c, xs)" "list_all2 holds_value cs ys" "unat n = length ys" "length ys \<le> c"
    and "trivially_copyable T \<or> length ys \<le> length xs \<and> None \<notin> set xs"
  shows "\<exists>v'. copy_to T cs (v\<lparr>v_size := n\<rparr>) = Some v' \<and> stores v' (c, ys)"
proof -
  obtain us rest where v: "v_buffer v = us @ rest" "length us = length xs" "length us + length rest = c"
      "unat (v_reserved v) = c" "unat (v_size v) = length us" "list_all2 holds_value us xs"
    using assms(1) by (rule storesE)
  have len: "length cs = length ys"
    using assms(2) by (rule list_all2_lengthD)
  have "Raw \<notin> set us" if "None \<notin> set xs"
    using v(6) that by (induction rule: list_all2_induct) (auto simp: holds_value_def split: option.splits)
  then have "trivially_copyable T \<or> Raw \<notin> set (take (length cs) (us @ rest))"
    using assms(5) v(2) len by (auto dest: in_set_takeD)
  then have "copy_to T cs (v\<lparr>v_size := n\<rparr>) = Some (v\<lparr>v_size := n, v_buffer := cs @ drop (length cs) (us @ rest)\<rparr>)"
    using v assms(4) len by (auto simp: copy_to_def)
  moreover have "stores (v\<lparr>v_size := n, v_buffer := cs @ drop (length cs) (us @ rest)\<rparr>) (c, ys)"
    by (rule storesI [where us = cs and rest = "drop (length cs) (us @ rest)"])
      (use v assms(2,3,4) len in simp_all)
  ultimately show ?thesis
    by blast
qed

lemma assign_copy_stores:
  assumes "stores v (c, xs)" "stores a (d, ys)" "length xs < 2 ^ 32" "length ys < 2 ^ 32"
    and "trivially_copyable T \<or> length ys \<le> length xs \<and> None \<notin> set xs"
  shows "\<exists>v'. assign_copy T a v = Some v' \<and> stores v' (grown (length ys) c, ys)"
proof -
  have a: "unat (v_size a) = length ys" "list_all2 holds_value (used_cells a) ys"
    using assms(2) by (simp_all add: stores_def)
  obtain v1 where "reserve (v_size a) v = Some v1" "stores v1 (grown (length ys) c, xs)"
    using reserve_stores [OF assms(1,3), of "v_size a"] assms(4) a(1) by auto
  then show ?thesis
    using copy_to_stores [of v1 "grown (length ys) c" xs, OF _ a(2,1) le_grown(1) assms(5)]
    by (auto simp: assign_copy_def)
qed

lemma copy_stores:
  assumes "stores a (d, ys)" "length ys < 2 ^ 32" "trivially_copyable T \<or> ys = []"
  shows "\<exists>v'. Vector_copy T a = Some v' \<and> stores v' (grown (length ys) 0, ys)"
  using assign_copy_stores [OF stores_new assms(1) _ assms(2), of T] assms(3)
  by (auto simp: assign_copy_def Vector_copy_def)

lemma of_list_stores:
  assumes "length ys < 2 ^ 32" "trivially_copyable T \<or> ys = []"
  shows "\<exists>v'. Vector_of_list T ys = Some v' \<and> stores v' (grown (length ys) 0, map Some ys)"
proof -
  have n: "unat (word_of_nat (length ys) :: u64) = length (map Some ys)"
    using assms(1) by (simp add: unsigned_of_nat take_bit_nat_eq_self)
  have "list_all2 holds_value (map Live ys) (map Some ys)"
    by (simp add: list_all2_conv_all_nth)
  moreover obtain v1 where "reserve (word_of_nat (length ys)) Vector_new = Some v1"
      "stores v1 (grown (length ys) 0, [] :: 'a option list)"
    using reserve_stores [OF stores_new, of "word_of_nat (length ys)"] assms(1) n by auto
  ultimately show ?thesis
    using copy_to_stores [of v1 "grown (length ys) 0" "[]" "map Live ys" "map Some ys" _ T] n assms(2) le_grown(1)
    by (auto simp: Vector_of_list_def)
qed

lemma internal_clear_new:
  assumes "stores v (c, xs)" "length xs < 2 ^ 32"
  shows "internal_clear v = Some Vector_new"
  using assms by (simp add: internal_clear_def stores_def)

text \<open>
  A program over several vectors. A constructor ends the life of the vector that the variable held.
\<close>

datatype 'a vector_op =
    Op_new nat | Op_sized nat u64 | Op_of_list nat "'a list" | Op_copy nat nat | Op_move nat nat
  | Op_assign_copy nat nat | Op_assign_move nat nat
  | Op_push_back nat "'a argument" | Op_emplace_back nat 'a | Op_pop_back nat
  | Op_resize nat u64 | Op_resize_with nat u64 'a | Op_reserve nat u64 | Op_clear nat

type_synonym 'a vectors = "nat \<Rightarrow> 'a vector"

definition changed :: "nat \<Rightarrow> ('a vector \<Rightarrow> 'a vector option) \<Rightarrow> 'a vectors \<Rightarrow> 'a vectors option" where
  "changed i f s = map_option (\<lambda>v. s(i := v)) (f (s i))"

definition constructed :: "nat \<Rightarrow> 'a vector option \<Rightarrow> 'a vectors \<Rightarrow> 'a vectors option" where
  "constructed i r = changed i (\<lambda>v. do { _ \<leftarrow> internal_clear v; r })"

fun apply_op :: "'a elem_type \<Rightarrow> 'a vector_op \<Rightarrow> 'a vectors \<Rightarrow> 'a vectors option" where
  "apply_op T (Op_new i) s = constructed i (Some Vector_new) s"
| "apply_op T (Op_sized i n) s = constructed i (Vector_sized T n) s"
| "apply_op T (Op_of_list i xs) s = constructed i (Vector_of_list T xs) s"
| "apply_op T (Op_copy i j) s = constructed i (Vector_copy T (s j)) s"
| "apply_op T (Op_move i j) s =
     (case Vector_move (s j) of (v, w) \<Rightarrow> map_option (\<lambda>s. s(j := w)) (constructed i (Some v) s))"
| "apply_op T (Op_assign_copy i j) s = (if i = j then Some s else changed i (assign_copy T (s j)) s)"
| "apply_op T (Op_assign_move i j) s =
     (if i = j then Some s else case assign_move (s j) (s i) of (v, w, lost) \<Rightarrow> Some (s(i := v, j := w)))"
| "apply_op T (Op_push_back i a) s = changed i (push_back a) s"
| "apply_op T (Op_emplace_back i x) s = changed i (emplace_back x) s"
| "apply_op T (Op_pop_back i) s = changed i pop_back s"
| "apply_op T (Op_resize i n) s = changed i (resize T n) s"
| "apply_op T (Op_resize_with i n x) s = changed i (resize_with n x) s"
| "apply_op T (Op_reserve i n) s = changed i (reserve n) s"
| "apply_op T (Op_clear i) s = changed i internal_clear s"

fun run_ops :: "'a elem_type \<Rightarrow> 'a vector_op list \<Rightarrow> 'a vectors \<Rightarrow> 'a vectors option" where
  "run_ops T [] s = Some s"
| "run_ops T (p # ps) s = do { s \<leftarrow> apply_op T p s; run_ops T ps s }"

text \<open>The same program over lists.\<close>

fun appended :: "'a option \<Rightarrow> 'a contents \<Rightarrow> 'a contents" where
  "appended x (c, xs) = (grown (length xs + 1) c, xs @ [x])"

fun op_contents :: "'a elem_type \<Rightarrow> 'a vector_op \<Rightarrow> (nat \<Rightarrow> 'a contents) \<Rightarrow> nat \<Rightarrow> 'a contents" where
  "op_contents T (Op_new i) s = s(i := (0, []))"
| "op_contents T (Op_sized i n) s =
     s(i := (grown (unat n) 0, replicate (unat n) (Some (default_value T))))"
| "op_contents T (Op_of_list i xs) s = s(i := (grown (length xs) 0, map Some xs))"
| "op_contents T (Op_copy i j) s = s(i := (grown (length (snd (s j))) 0, snd (s j)))"
| "op_contents T (Op_move i j) s = s(i := s j, j := (0, []))"
| "op_contents T (Op_assign_copy i j) s =
     (if i = j then s else s(i := (grown (length (snd (s j))) (fst (s i)), snd (s j))))"
| "op_contents T (Op_assign_move i j) s = (if i = j then s else s(i := s j, j := (0, [])))"
| "op_contents T (Op_push_back i (Elsewhere x)) s = s(i := appended (Some x) (s i))"
| "op_contents T (Op_push_back i (Within k)) s = s(i := appended (snd (s i) ! unat k) (s i))"
| "op_contents T (Op_emplace_back i x) s = s(i := appended (Some x) (s i))"
| "op_contents T (Op_pop_back i) s = s(i := (fst (s i), butlast (snd (s i))))"
| "op_contents T (Op_resize i n) s =
     s(i := (grown (unat n) (fst (s i)), resized (unat n) (fill T) (snd (s i))))"
| "op_contents T (Op_resize_with i n x) s =
     s(i := (grown (unat n) (fst (s i)), resized (unat n) (Some x) (snd (s i))))"
| "op_contents T (Op_reserve i n) s = s(i := (grown (unat n) (fst (s i)), snd (s i)))"
| "op_contents T (Op_clear i) s = s(i := (0, []))"

fun run_contents :: "'a elem_type \<Rightarrow> 'a vector_op list \<Rightarrow> (nat \<Rightarrow> 'a contents) \<Rightarrow> nat \<Rightarrow> 'a contents" where
  "run_contents T [] s = s"
| "run_contents T (p # ps) s = run_contents T ps (op_contents T p s)"

text \<open>
  What the operations ask for: sizes within the range of the index of the loops; a vector is not
  constructed from itself; an element of the vector itself is appended only while there is room, and only
  if it was given a value; and elements that are not plain data are assigned only from elements to elements.
\<close>

fun op_fits :: "'a elem_type \<Rightarrow> 'a vector_op \<Rightarrow> (nat \<Rightarrow> 'a contents) \<Rightarrow> bool" where
  "op_fits T (Op_new i) s \<longleftrightarrow> True"
| "op_fits T (Op_sized i n) s \<longleftrightarrow> unat n < 2 ^ 32"
| "op_fits T (Op_of_list i xs) s \<longleftrightarrow> length xs < 2 ^ 32 \<and> (trivially_copyable T \<or> xs = [])"
| "op_fits T (Op_copy i j) s \<longleftrightarrow> i \<noteq> j \<and> (trivially_copyable T \<or> snd (s j) = [])"
| "op_fits T (Op_move i j) s \<longleftrightarrow> i \<noteq> j"
| "op_fits T (Op_assign_copy i j) s \<longleftrightarrow>
     i = j \<or> trivially_copyable T \<or>
     length (snd (s j)) \<le> length (snd (s i)) \<and> None \<notin> set (snd (s i)) \<union> set (snd (s j))"
| "op_fits T (Op_assign_move i j) s \<longleftrightarrow> True"
| "op_fits T (Op_push_back i (Elsewhere x)) s \<longleftrightarrow> length (snd (s i)) + 1 < 2 ^ 32"
| "op_fits T (Op_push_back i (Within k)) s \<longleftrightarrow>
     length (snd (s i)) + 1 < 2 ^ 32 \<and> unat k < length (snd (s i)) \<and> snd (s i) ! unat k \<noteq> None \<and>
     length (snd (s i)) < fst (s i)"
| "op_fits T (Op_emplace_back i x) s \<longleftrightarrow> length (snd (s i)) + 1 < 2 ^ 32"
| "op_fits T (Op_pop_back i) s \<longleftrightarrow> True"
| "op_fits T (Op_resize i n) s \<longleftrightarrow> unat n < 2 ^ 32"
| "op_fits T (Op_resize_with i n x) s \<longleftrightarrow> unat n < 2 ^ 32"
| "op_fits T (Op_reserve i n) s \<longleftrightarrow> unat n \<le> 2 ^ 63"
| "op_fits T (Op_clear i) s \<longleftrightarrow> True"

fun ops_fit :: "'a elem_type \<Rightarrow> 'a vector_op list \<Rightarrow> (nat \<Rightarrow> 'a contents) \<Rightarrow> bool" where
  "ops_fit T [] s \<longleftrightarrow> True"
| "ops_fit T (p # ps) s \<longleftrightarrow> op_fits T p s \<and> ops_fit T ps (op_contents T p s)"

definition all_store :: "'a vectors \<Rightarrow> (nat \<Rightarrow> 'a contents) \<Rightarrow> bool" where
  "all_store s t \<longleftrightarrow> (\<forall>i. stores (s i) (t i) \<and> length (snd (t i)) < 2 ^ 32)"

lemma changed_store:
  assumes "all_store s t" "\<exists>v. f (s i) = Some v \<and> stores v x" "length (snd x) < 2 ^ 32"
  shows "\<exists>s'. changed i f s = Some s' \<and> all_store s' (t(i := x))"
  using assms by (auto simp: changed_def all_store_def)

lemma constructed_store:
  assumes "all_store s t" "\<exists>v. r = Some v \<and> stores v x" "length (snd x) < 2 ^ 32"
  shows "\<exists>s'. constructed i r s = Some s' \<and> all_store s' (t(i := x))"
proof -
  have "internal_clear (s i) = Some Vector_new"
    using assms(1) internal_clear_new [of "s i" "fst (t i)" "snd (t i)"] by (simp add: all_store_def)
  then show ?thesis
    unfolding constructed_def by (intro changed_store [OF assms(1) _ assms(3)]) (use assms(2) in simp)
qed

lemma stores_of: "all_store s t \<Longrightarrow> stores (s i) (fst (t i), snd (t i))"
  and fits_of: "all_store s t \<Longrightarrow> length (snd (t i)) < 2 ^ 32"
  by (simp_all add: all_store_def)

lemma moved_stores: "all_store s t \<Longrightarrow> all_store (s(i := s j, j := Vector_new)) (t(i := t j, j := (0, [])))"
  by (simp add: all_store_def stores_new)

lemma length_resized [simp]: "length (resized n x xs) = n"
  by (simp add: resized_def)

lemma push_back_op_store:
  assumes "all_store s t" "op_fits T (Op_push_back i a) t"
  shows "\<exists>s'. changed i (push_back a) s = Some s' \<and> all_store s' (op_contents T (Op_push_back i a) t)"
proof -
  obtain c xs where t: "t i = (c, xs)"
    by fastforce
  have st: "stores (s i) (c, xs)"
    using stores_of [OF assms(1), of i] t by simp
  show ?thesis
  proof (cases a)
    case (Elsewhere x)
    then show ?thesis
      using assms(2) t push_back_elsewhere_stores [OF st, of x]
      by simp (intro changed_store [OF assms(1)]; simp)
  next
    case (Within k)
    then show ?thesis
      using assms(2) t push_back_within_stores [OF st, of k]
      by simp (intro changed_store [OF assms(1)]; simp add: grown_def)
  qed
qed

lemma apply_op_store:
  assumes "all_store s t" "op_fits T p t"
  shows "\<exists>s'. apply_op T p s = Some s' \<and> all_store s' (op_contents T p t)"
proof -
  note st = stores_of [OF assms(1)] and len = fits_of [OF assms(1)]
  note ch = changed_store [OF assms(1)] and co = constructed_store [OF assms(1)]
  show ?thesis
  proof (cases p)
    case (Op_new i)
    then show ?thesis
      using co [of "Some Vector_new" "(0, [])" i] stores_new by simp
  next
    case (Op_sized i n)
    then show ?thesis
      using co [OF sized_stores] assms(2) by simp
  next
    case (Op_of_list i xs)
    then show ?thesis
      using co [OF of_list_stores [of xs T]] assms(2) by simp
  next
    case (Op_copy i j)
    then show ?thesis
      using co [OF copy_stores [OF st len, of T]] assms(2) len by simp
  next
    case (Op_move i j)
    then obtain s1 where s1: "constructed i (Some (s j)) s = Some s1" "all_store s1 (t(i := t j))"
      using co [of "Some (s j)" "t j" i] st [of j] len [of j] by auto
    then have "all_store (s1(j := Vector_new)) (t(i := t j, j := (0, [])))"
      using stores_new by (simp add: all_store_def)
    then show ?thesis
      using Op_move s1(1) by (simp add: Vector_move_def)
  next
    case (Op_assign_copy i j)
    then show ?thesis
      using assms ch [where f = "assign_copy T (s j)" and i = i, OF assign_copy_stores [OF st [of i] st [of j] len [of i] len [of j], of T]] len [of j] by auto
  next
    case (Op_assign_move i j)
    then show ?thesis
      using assms(1) moved_stores [OF assms(1)] by (simp add: assign_move_def)
  next
    case (Op_push_back i a)
    then show ?thesis
      using push_back_op_store [OF assms(1)] assms(2) by simp
  next
    case (Op_emplace_back i x)
    then show ?thesis
      using ch [where f = "emplace_back x" and i = i, OF emplace_back_stores [OF st, of i x]] assms(2) by (cases "t i") simp
  next
    case (Op_pop_back i)
    then show ?thesis
      using ch [where f = pop_back and i = i, OF pop_back_stores [OF st]] len [of i] by simp
  next
    case (Op_resize i n)
    then show ?thesis
      using ch [where f = "resize T n" and i = i, OF resize_stores [OF st len, of n T]] assms(2) by simp
  next
    case (Op_resize_with i n x)
    then show ?thesis
      using ch [where f = "resize_with n x" and i = i, OF resize_with_stores [OF st len, of n x]] assms(2) by simp
  next
    case (Op_reserve i n)
    then show ?thesis
      using ch [of "reserve n" i] reserve_stores [OF st len, of n i] assms(2) len [of i] by fastforce
  next
    case (Op_clear i)
    then show ?thesis
      using ch [of internal_clear i "(0, [])"] internal_clear_new [OF st len] stores_new by simp
  qed
qed

lemma run_ops_store:
  "all_store s t \<Longrightarrow> ops_fit T ps t \<Longrightarrow> \<exists>s'. run_ops T ps s = Some s' \<and> all_store s' (run_contents T ps t)"
proof (induction ps arbitrary: s t)
  case (Cons p ps)
  then obtain s1 where "apply_op T p s = Some s1" "all_store s1 (op_contents T p t)"
    using apply_op_store [of s t T p] by auto
  then show ?case
    using Cons.IH [of s1 "op_contents T p t"] Cons.prems(2) by simp
qed simp

text \<open>What reading a vector gives.\<close>

definition reads_as :: "bool \<Rightarrow> 'a vector \<Rightarrow> 'a contents \<Rightarrow> bool" where
  "reads_as debug v = (\<lambda>(c, xs).
     unat (v_reserved v) = c \<and> unat (v_size v) = length xs \<and> (vector_empty v \<longleftrightarrow> xs = []) \<and>
     (\<forall>k. unat k < length xs \<longrightarrow> (\<exists>b. at_index debug k v = Some b \<and> holds_value b (xs ! unat k))) \<and>
     (xs \<noteq> [] \<longrightarrow> (\<exists>b. vector_front v = Some b \<and> holds_value b (hd xs)) \<and>
       (\<exists>b. vector_back v = Some b \<and> holds_value b (last xs))))"

lemma stores_reads:
  assumes "stores v (c, xs)"
  shows "reads_as debug v (c, xs)"
proof -
  have size: "unat (v_size v) = length xs" and cap: "unat (v_reserved v) = c"
    using assms by (simp_all add: stores_def)
  have "v_size v = 0 \<longleftrightarrow> xs = []"
    using size by (metis length_0_conv unat_eq_0)
  moreover have "\<exists>b. at_index debug k v = Some b \<and> holds_value b (xs ! unat k)" if "unat k < length xs" for k
    using holds_value_cells [OF assms that] that size by (simp add: at_index_def word_less_nat_alt)
  moreover have "(\<exists>b. vector_front v = Some b \<and> holds_value b (hd xs)) \<and> (\<exists>b. vector_back v = Some b \<and> holds_value b (last xs))"
    if "xs \<noteq> []"
  proof -
    have "unat (v_size v - 1) = length xs - 1"
      using that size unat_minus_one [of "v_size v"] by (metis length_0_conv unat_eq_0)
    then show ?thesis
      using that holds_value_cells [OF assms, of 0] holds_value_cells [OF assms, of "length xs - 1"]
      by (simp add: vector_front_def vector_back_def hd_conv_nth last_conv_nth)
  qed
  ultimately show ?thesis
    using size cap by (simp add: reads_as_def vector_empty_def)
qed

lemma run_ops_reads:
  assumes "ops_fit T ps (\<lambda>_. (0, []))"
  shows "\<exists>s. run_ops T ps (\<lambda>_. Vector_new) = Some s \<and>
    (\<forall>i. reads_as debug (s i) (run_contents T ps (\<lambda>_. (0, [])) i))"
proof -
  have "all_store (\<lambda>_. Vector_new) (\<lambda>_. (0, []))"
    by (simp add: all_store_def stores_new)
  then obtain s where s: "run_ops T ps (\<lambda>_. Vector_new) = Some s" "all_store s (run_contents T ps (\<lambda>_. (0, [])))"
    using run_ops_store [OF _ assms] by blast
  then show ?thesis
    using stores_reads [OF stores_of [OF s(2)]] by (intro exI [of _ s]) simp
qed

section \<open>Where the vector is not a list\<close>

text \<open>Elements that \<^verbatim>\<open>resize\<close> adds are not initialised when the type is trivially constructible.\<close>

lemma resize_leaves_raw:
  assumes "trivially_constructible T"
  shows "\<exists>v. resize T 1 Vector_new = Some v \<and> at_index True 0 v = Some Raw"
  using assms by (simp add: resize_def reserve_def round_up_def Vector_new_def at_index_def)

text \<open>Shrinking keeps the old elements, and growing again brings them back.\<close>

lemma resize_brings_back:
  assumes "trivially_constructible T"
  shows "\<exists>v v1 v2. push_back (Elsewhere x) Vector_new = Some v \<and> resize T 0 v = Some v1 \<and>
    resize T 1 v1 = Some v2 \<and> at_index True 0 v2 = Some (Live x)"
  using assms
  by (simp add: resize_def push_back_def set_cell_def reserve_def round_up_def Vector_new_def at_index_def)

text \<open>Appending an element of the vector to a full vector reads the memory that was just freed.\<close>

lemma push_back_own_full:
  assumes "v_size v = v_reserved v" "v_size v \<noteq> - 1"
  shows "push_back (Within i) v = None"
proof -
  have "1 + v_size v \<noteq> 0"
    using assms(2) by (metis add.commute add_eq_0_iff)
  then have "v_size v < v_size v + 1"
    using unatSuc [of "v_size v"] by (simp add: word_less_nat_alt add.commute)
  then show ?thesis
    using assms(1) by (cases "reserve (v_size v + 1) v") (simp_all add: push_back_def)
qed

text \<open>
  Copying a vector assigns to memory without objects, which is undefined for elements that are not
  plain data; so is making one from an initialiser list.
\<close>

lemma copy_not_trivial:
  assumes "\<not> trivially_copyable T" "xs \<noteq> []"
  shows "Vector_of_list T xs = None"
  using assms
  by (auto simp: Vector_of_list_def reserve_def Vector_new_def copy_to_def Let_def take_replicate
      split: bind_splits)

end
