(* ===== verification/Hier_Topology.thy ===== *)
theory Hier_Topology
  imports Core_Vector
begin

text \<open>
  The topology of a command hierarchy (\<^verbatim>\<open>src/dive_core/command_hierarchy.cpp\<close>, classes \<^verbatim>\<open>Topology\<close> and
  \<^verbatim>\<open>SharedNodeTopology\<close>): which nodes are the children of a node, flattened into one list of children,
  and the shared children, which can have several parents.

  Vectors are lists here (\<open>Core_Vector\<close> shows that they act as such); an element that the code leaves
  undetermined is \<open>Raw\<close>. Node indices are 64 bits wide and bounded by the memory of the process, so they
  are natural numbers; \<^verbatim>\<open>UINT64_MAX\<close> stands for no node. \<open>None\<close> is undefined behaviour or a failed
  assertion of a debug build.

  Shown here: a topology built from the lists of children of a forest answers every query as these lists
  do, every node knows its parent and its place among the siblings, and \<^verbatim>\<open>GetNextNodeIndex\<close> walks the
  tree below the root in depth-first order, each node once.
\<close>

section \<open>The data\<close>

definition UINT64_MAX :: nat where "UINT64_MAX = 2 ^ 64 - 1"

definition kRootNodeIndex :: nat where "kRootNodeIndex = 0"

record ChildrenInfo =
  ci_start_index :: nat
  ci_num_children :: nat

definition ChildrenInfo_new :: ChildrenInfo where
  "ChildrenInfo_new = \<lparr>ci_start_index = UINT64_MAX, ci_num_children = 0\<rparr>"

record Topology =
  m_children_list :: "nat list"
  m_node_children :: "ChildrenInfo list"
  m_node_parent :: "nat list"
  m_node_child_index :: "nat list"

record SharedNodeTopology = Topology +
  m_shared_children_indices :: "nat list"
  m_node_shared_children :: "ChildrenInfo list"
  m_start_shared_child :: "nat cell list"
  m_end_shared_child :: "nat cell list"
  m_root_node_index :: "nat cell list"

definition SharedNodeTopology_new :: SharedNodeTopology where
  "SharedNodeTopology_new =
     \<lparr>m_children_list = [], m_node_children = [], m_node_parent = [], m_node_child_index = [],
      m_shared_children_indices = [], m_node_shared_children = [], m_start_shared_child = [],
      m_end_shared_child = [], m_root_node_index = []\<rparr>"

text \<open>Indexing a vector: beyond the end it is undefined, and asserted not to be in a debug build.\<close>

definition vec_at :: "'a list \<Rightarrow> nat \<Rightarrow> 'a option" where
  "vec_at xs i = (if i < length xs then Some (xs ! i) else None)"

definition vec_set :: "nat \<Rightarrow> 'a \<Rightarrow> 'a list \<Rightarrow> 'a list option" where
  "vec_set i x xs = (if i < length xs then Some (xs[i := x]) else None)"

definition vec_resize :: "nat \<Rightarrow> 'a \<Rightarrow> 'a list \<Rightarrow> 'a list" where
  "vec_resize n x xs = take n xs @ replicate (n - length xs) x"

section \<open>Queries\<close>

definition Topology_GetNumNodes :: "bool \<Rightarrow> 'a Topology_scheme \<Rightarrow> nat option" where
  "Topology_GetNumNodes debug t =
     do {
       DIVE_ASSERT debug (length (m_node_children t) = length (m_node_parent t));
       DIVE_ASSERT debug (length (m_node_children t) = length (m_node_child_index t));
       Some (length (m_node_children t))
     }"

definition GetParentNodeIndex :: "nat \<Rightarrow> 'a Topology_scheme \<Rightarrow> nat option" where
  "GetParentNodeIndex node_index t = vec_at (m_node_parent t) node_index"

definition GetChildIndex :: "nat \<Rightarrow> 'a Topology_scheme \<Rightarrow> nat option" where
  "GetChildIndex node_index t = vec_at (m_node_child_index t) node_index"

definition GetNumChildren :: "nat \<Rightarrow> 'a Topology_scheme \<Rightarrow> nat option" where
  "GetNumChildren node_index t = map_option ci_num_children (vec_at (m_node_children t) node_index)"

text \<open>A release build does not notice a child index beyond the children of the node.\<close>

definition GetChildNodeIndex :: "bool \<Rightarrow> nat \<Rightarrow> nat \<Rightarrow> 'a Topology_scheme \<Rightarrow> nat option" where
  "GetChildNodeIndex debug node_index child_index t =
     do {
       info \<leftarrow> vec_at (m_node_children t) node_index;
       DIVE_ASSERT debug (child_index < ci_num_children info);
       vec_at (m_children_list t) (ci_start_index info + child_index)
     }"

text \<open>The loop of \<^verbatim>\<open>GetNextNodeIndex\<close>: up to the first ancestor that has a next sibling.\<close>

partial_function (option) next_sibling :: "bool \<Rightarrow> nat \<Rightarrow> 'a Topology_scheme \<Rightarrow> nat option" where
  "next_sibling debug node_index t =
     (if node_index = kRootNodeIndex then Some UINT64_MAX
      else
        do {
          parent \<leftarrow> GetParentNodeIndex node_index t;
          child_index \<leftarrow> GetChildIndex node_index t;
          num_children \<leftarrow> GetNumChildren parent t;
          if child_index + 1 < num_children then GetChildNodeIndex debug parent (child_index + 1) t
          else next_sibling debug parent t
        })"

definition GetNextNodeIndex :: "bool \<Rightarrow> nat \<Rightarrow> 'a Topology_scheme \<Rightarrow> nat option" where
  "GetNextNodeIndex debug node_index t =
     do {
       num_children \<leftarrow> GetNumChildren node_index t;
       if num_children > 0 then GetChildNodeIndex debug node_index 0 t
       else next_sibling debug node_index t
     }"

definition GetNumNodes :: "bool \<Rightarrow> SharedNodeTopology \<Rightarrow> nat option" where
  "GetNumNodes debug t =
     do {
       DIVE_ASSERT debug (length (m_node_children t) = length (m_node_shared_children t));
       DIVE_ASSERT debug (length (m_node_children t) = length (m_node_parent t));
       DIVE_ASSERT debug (length (m_node_children t) = length (m_node_child_index t));
       DIVE_ASSERT debug (length (m_node_children t) = length (m_start_shared_child t));
       DIVE_ASSERT debug (length (m_node_children t) = length (m_end_shared_child t));
       DIVE_ASSERT debug (length (m_node_children t) = length (m_root_node_index t));
       Some (length (m_node_children t))
     }"

definition GetNumSharedChildren :: "nat \<Rightarrow> SharedNodeTopology \<Rightarrow> nat option" where
  "GetNumSharedChildren node_index t =
     map_option ci_num_children (vec_at (m_node_shared_children t) node_index)"

definition GetSharedChildNodeIndex :: "bool \<Rightarrow> nat \<Rightarrow> nat \<Rightarrow> SharedNodeTopology \<Rightarrow> nat option" where
  "GetSharedChildNodeIndex debug node_index child_index t =
     do {
       info \<leftarrow> vec_at (m_node_shared_children t) node_index;
       DIVE_ASSERT debug (child_index < ci_num_children info);
       vec_at (m_shared_children_indices t) (ci_start_index info + child_index)
     }"

definition GetStartSharedChildNodeIndex :: "nat \<Rightarrow> SharedNodeTopology \<Rightarrow> nat cell option" where
  "GetStartSharedChildNodeIndex node_index t = vec_at (m_start_shared_child t) node_index"

definition GetEndSharedChildNodeIndex :: "nat \<Rightarrow> SharedNodeTopology \<Rightarrow> nat cell option" where
  "GetEndSharedChildNodeIndex node_index t = vec_at (m_end_shared_child t) node_index"

definition GetSharedChildRootNodeIndex :: "nat \<Rightarrow> SharedNodeTopology \<Rightarrow> nat cell option" where
  "GetSharedChildRootNodeIndex node_index t = vec_at (m_root_node_index t) node_index"

section \<open>Building\<close>

definition SetNumNodes :: "nat \<Rightarrow> SharedNodeTopology \<Rightarrow> SharedNodeTopology" where
  "SetNumNodes num_nodes t =
     t\<lparr>m_node_children := vec_resize num_nodes ChildrenInfo_new (m_node_children t),
       m_node_shared_children := vec_resize num_nodes ChildrenInfo_new (m_node_shared_children t),
       m_node_parent := vec_resize num_nodes UINT64_MAX (m_node_parent t),
       m_node_child_index := vec_resize num_nodes UINT64_MAX (m_node_child_index t)\<rparr>"

text \<open>The last loop of \<^verbatim>\<open>AddChildren\<close>: the parent and the place of each child, from place \<open>i\<close> on.\<close>

fun set_parents :: "bool \<Rightarrow> nat \<Rightarrow> nat \<Rightarrow> nat list \<Rightarrow> 'a Topology_scheme \<Rightarrow> 'a Topology_scheme option" where
  "set_parents debug node_index i [] t = Some t"
| "set_parents debug node_index i (child # children) t =
     do {
       DIVE_ASSERT debug (child < length (m_node_children t));
       parent \<leftarrow> vec_at (m_node_parent t) child;
       DIVE_ASSERT debug (parent = UINT64_MAX);
       child_index \<leftarrow> vec_at (m_node_child_index t) child;
       DIVE_ASSERT debug (child_index = UINT64_MAX);
       parents \<leftarrow> vec_set child node_index (m_node_parent t);
       child_indices \<leftarrow> vec_set child i (m_node_child_index t);
       set_parents debug node_index (i + 1) children
         (t\<lparr>m_node_parent := parents, m_node_child_index := child_indices\<rparr>)
     }"

definition AddChildren :: "bool \<Rightarrow> nat \<Rightarrow> nat list \<Rightarrow> 'a Topology_scheme \<Rightarrow> 'a Topology_scheme option" where
  "AddChildren debug node_index children t =
     do {
       DIVE_ASSERT debug (length (m_node_children t) = length (m_node_parent t));
       DIVE_ASSERT debug (length (m_node_children t) = length (m_node_child_index t));
       let prev_size = length (m_children_list t);
       info \<leftarrow> vec_at (m_node_children t) node_index;
       DIVE_ASSERT debug (ci_num_children info = 0);
       infos \<leftarrow> vec_set node_index \<lparr>ci_start_index = prev_size, ci_num_children = length children\<rparr>
                  (m_node_children t);
       set_parents debug node_index 0 children
         (t\<lparr>m_children_list := m_children_list t @ children, m_node_children := infos\<rparr>)
     }"

definition AddSharedChildren :: "bool \<Rightarrow> nat \<Rightarrow> nat list \<Rightarrow> SharedNodeTopology \<Rightarrow> SharedNodeTopology option" where
  "AddSharedChildren debug node_index children t =
     do {
       DIVE_ASSERT debug (length (m_node_shared_children t) = length (m_node_parent t));
       DIVE_ASSERT debug (length (m_node_shared_children t) = length (m_node_child_index t));
       let prev_size = length (m_shared_children_indices t);
       info \<leftarrow> vec_at (m_node_shared_children t) node_index;
       DIVE_ASSERT debug (ci_num_children info = 0);
       infos \<leftarrow> vec_set node_index \<lparr>ci_start_index = prev_size, ci_num_children = length children\<rparr>
                  (m_node_shared_children t);
       Some (t\<lparr>m_shared_children_indices := m_shared_children_indices t @ children,
               m_node_shared_children := infos\<rparr>)
     }"

text \<open>
  The inner loop of \<^verbatim>\<open>CreateTopologies\<close>, from node \<open>i\<close> on: the normal and the shared children of the
  nodes, one after the other.
\<close>

fun add_all_children ::
    "bool \<Rightarrow> nat \<Rightarrow> nat list list \<Rightarrow> nat list list \<Rightarrow> SharedNodeTopology \<Rightarrow> SharedNodeTopology option" where
  "add_all_children debug i (children # cs) shared t =
     do {
       t \<leftarrow> AddChildren debug i children t;
       s \<leftarrow> vec_at shared 0;
       t \<leftarrow> AddSharedChildren debug i s t;
       add_all_children debug (i + 1) cs (tl shared) t
     }"
| "add_all_children debug i [] shared t = Some t"

text \<open>One topology of \<^verbatim>\<open>CreateTopologies\<close> from the lists collected for it.\<close>

definition create_topology ::
    "bool \<Rightarrow> nat list list \<Rightarrow> nat list list \<Rightarrow> nat cell list \<Rightarrow> nat cell list \<Rightarrow> nat cell list \<Rightarrow>
     SharedNodeTopology \<Rightarrow> SharedNodeTopology option" where
  "create_topology debug cs shared starts ends roots t =
     map_option (\<lambda>t. t\<lparr>m_start_shared_child := starts, m_end_shared_child := ends, m_root_node_index := roots\<rparr>)
       (add_all_children debug 0 cs shared (SetNumNodes (length cs) t))"

section \<open>Forests\<close>

text \<open>The lists of children of all nodes: no node is a child twice, and children come after their parent.\<close>

definition forest :: "nat list list \<Rightarrow> bool" where
  "forest cs \<longleftrightarrow> distinct (concat cs) \<and> (\<forall>i<length cs. \<forall>c\<in>set (cs ! i). i < c \<and> c < length cs)"

lemma forestD:
  assumes "forest cs" "i < length cs" "c \<in> set (cs ! i)"
  shows "i < c" "c < length cs"
  using assms unfolding forest_def by blast+

lemma forest_distinct: "forest cs \<Longrightarrow> distinct (concat cs)"
  by (simp add: forest_def)

lemma nth_concat_part: "i < length cs \<Longrightarrow> x \<in> set (cs ! i) \<Longrightarrow> x \<in> set (concat cs)"
  using nth_mem [of i cs] by auto

lemma distinct_concat_Cons:
  assumes "distinct (concat (xs # cs))" "k < length cs" "c \<in> set (cs ! k)"
  shows "c \<notin> set xs"
proof
  assume "c \<in> set xs"
  moreover have "c \<in> set (concat cs)"
    by (rule nth_concat_part [OF assms(2,3)])
  moreover have "set xs \<inter> set (concat cs) = {}"
    using assms(1) by (simp only: concat.simps distinct_append)
  ultimately show False
    by blast
qed

lemma distinct_concat_unique:
  assumes "distinct (concat cs)" "i < length cs" "j < length cs" "c \<in> set (cs ! i)" "c \<in> set (cs ! j)"
  shows "i = j"
  using assms
proof (induction cs arbitrary: i j)
  case (Cons xs cs)
  have d: "distinct (concat cs)"
    using Cons.prems(1) by simp
  note out = distinct_concat_Cons [OF Cons.prems(1)]
  consider "i = 0" "j = 0" | k where "i = 0" "j = Suc k" | k where "i = Suc k" "j = 0"
    | k l where "i = Suc k" "j = Suc l"
    by (cases i; cases j) simp_all
  then show ?case
  proof cases
    case (2 k)
    then show ?thesis
      using Cons.prems(3-5) out [of k c] by simp
  next
    case (3 k)
    then show ?thesis
      using Cons.prems(2,4,5) out [of k c] by simp
  next
    case (4 k l)
    then show ?thesis
      using Cons.prems(2-5) Cons.IH [OF d, of k l] by simp
  qed simp
qed simp

lemma distinct_concat_nth: "distinct (concat cs) \<Longrightarrow> i < length cs \<Longrightarrow> distinct (cs ! i)"
  by (simp add: distinct_concat_iff)

section \<open>What building gives\<close>

text \<open>The topology after the children of the first \<open>n\<close> nodes have been added.\<close>

definition represents :: "nat \<Rightarrow> nat list list \<Rightarrow> 'a Topology_scheme \<Rightarrow> bool" where
  "represents n cs t \<longleftrightarrow>
     length (m_node_children t) = length cs \<and> length (m_node_parent t) = length cs \<and>
     length (m_node_child_index t) = length cs \<and>
     m_children_list t = concat (take n cs) \<and>
     (\<forall>i<length cs. m_node_children t ! i =
        (if i < n then \<lparr>ci_start_index = length (concat (take i cs)), ci_num_children = length (cs ! i)\<rparr>
         else ChildrenInfo_new)) \<and>
     (\<forall>i<n. i < length cs \<longrightarrow> (\<forall>k<length (cs ! i).
        m_node_parent t ! (cs ! i ! k) = i \<and> m_node_child_index t ! (cs ! i ! k) = k)) \<and>
     (\<forall>c<length cs. c \<notin> set (concat (take n cs)) \<longrightarrow>
        m_node_parent t ! c = UINT64_MAX \<and> m_node_child_index t ! c = UINT64_MAX)"

text \<open>The parent and the place of children that had none; those of other nodes are kept.\<close>

lemma set_parents_correct:
  assumes "distinct children" "\<forall>c\<in>set children. c < length (m_node_children t)"
    and "length (m_node_parent t) = length (m_node_children t)" "length (m_node_child_index t) = length (m_node_children t)"
    and "\<forall>c\<in>set children. m_node_parent t ! c = UINT64_MAX \<and> m_node_child_index t ! c = UINT64_MAX"
  obtains ps ks where
    "set_parents debug p i children t = Some (t\<lparr>m_node_parent := ps, m_node_child_index := ks\<rparr>)"
    "length ps = length (m_node_parent t)" "length ks = length (m_node_child_index t)"
    "\<forall>k<length children. ps ! (children ! k) = p \<and> ks ! (children ! k) = i + k"
    "\<forall>c. c \<notin> set children \<longrightarrow> ps ! c = m_node_parent t ! c \<and> ks ! c = m_node_child_index t ! c"
  using assms
proof (induction children arbitrary: i t thesis)
  case Nil
  show ?case
    by (rule Nil(1) [where ps = "m_node_parent t" and ks = "m_node_child_index t"]) simp_all
next
  case (Cons c children)
  let ?t = "t\<lparr>m_node_parent := (m_node_parent t)[c := p], m_node_child_index := (m_node_child_index t)[c := i]\<rparr>"
  have c: "c < length (m_node_children t)" "m_node_parent t ! c = UINT64_MAX" "m_node_child_index t ! c = UINT64_MAX"
      "c \<notin> set children"
    using Cons.prems by simp_all
  obtain ps ks where r: "set_parents debug p (i + 1) children ?t = Some (?t\<lparr>m_node_parent := ps, m_node_child_index := ks\<rparr>)"
      "length ps = length (m_node_parent ?t)" "length ks = length (m_node_child_index ?t)"
      "\<forall>k<length children. ps ! (children ! k) = p \<and> ks ! (children ! k) = (i + 1) + k"
      "\<forall>c. c \<notin> set children \<longrightarrow> ps ! c = m_node_parent ?t ! c \<and> ks ! c = m_node_child_index ?t ! c"
  proof (rule Cons.IH [of "i + 1" ?t])
    show "\<forall>c'\<in>set children. m_node_parent ?t ! c' = UINT64_MAX \<and> m_node_child_index ?t ! c' = UINT64_MAX"
      using Cons.prems c(4) by (auto simp: nth_list_update)
  qed (use Cons.prems in simp_all)
  show ?case
  proof (rule Cons.prems(1) [where ps = ps and ks = ks])
    show "set_parents debug p i (c # children) t = Some (t\<lparr>m_node_parent := ps, m_node_child_index := ks\<rparr>)"
      using c r(1) Cons.prems(4,5) by (simp add: vec_at_def vec_set_def)
    show "\<forall>k<length (c # children). ps ! ((c # children) ! k) = p \<and> ks ! ((c # children) ! k) = i + k"
      using r(4,5) c Cons.prems(4,5) by (auto simp: nth_Cons split: nat.splits)
    show "\<forall>c'. c' \<notin> set (c # children) \<longrightarrow> ps ! c' = m_node_parent t ! c' \<and> ks ! c' = m_node_child_index t ! c'"
      using r(5) by (auto simp: nth_list_update)
  qed (use r(2,3) in simp_all)
qed

lemma concat_take_Suc: "n < length cs \<Longrightarrow> concat (take (Suc n) cs) = concat (take n cs) @ cs ! n"
  by (simp add: take_Suc_conv_app_nth)

lemma in_concat_take: "c \<in> set (concat (take n cs)) \<longleftrightarrow> (\<exists>i<n. i < length cs \<and> c \<in> set (cs ! i))"
  by (force simp: in_set_conv_nth set_concat)

lemma AddChildren_represents:
  assumes f: "forest cs" and n: "n < length cs" and r: "represents n cs t"
  shows "\<exists>t'. AddChildren debug n (cs ! n) t = Some t' \<and> represents (Suc n) cs t' \<and>
    (\<exists>a b c d. t' = t\<lparr>m_children_list := a, m_node_children := b, m_node_parent := c, m_node_child_index := d\<rparr>)"
proof -
  let ?info = "\<lparr>ci_start_index = length (m_children_list t), ci_num_children = length (cs ! n)\<rparr>"
  let ?t = "t\<lparr>m_children_list := m_children_list t @ cs ! n, m_node_children := (m_node_children t)[n := ?info]\<rparr>"
  have len: "length (m_node_children t) = length cs" "length (m_node_parent t) = length cs"
      "length (m_node_child_index t) = length cs" and list: "m_children_list t = concat (take n cs)"
    and info: "\<And>i. i < length cs \<Longrightarrow> m_node_children t ! i =
        (if i < n then \<lparr>ci_start_index = length (concat (take i cs)), ci_num_children = length (cs ! i)\<rparr>
         else ChildrenInfo_new)"
    and up: "\<And>i k. i < n \<Longrightarrow> i < length cs \<Longrightarrow> k < length (cs ! i) \<Longrightarrow>
        m_node_parent t ! (cs ! i ! k) = i \<and> m_node_child_index t ! (cs ! i ! k) = k"
    and none: "\<And>c. c < length cs \<Longrightarrow> c \<notin> set (concat (take n cs)) \<Longrightarrow>
        m_node_parent t ! c = UINT64_MAX \<and> m_node_child_index t ! c = UINT64_MAX"
    using r unfolding represents_def by blast+
  have d: "distinct (concat cs)"
    using f by (simp add: forest_def)
  have new: "c \<notin> set (concat (take n cs))" if "c \<in> set (cs ! n)" for c
    using distinct_concat_unique [OF d _ n _ that] unfolding in_concat_take by blast
  obtain ps ks where s: "set_parents debug n 0 (cs ! n) ?t = Some (?t\<lparr>m_node_parent := ps, m_node_child_index := ks\<rparr>)"
      "length ps = length (m_node_parent ?t)" "length ks = length (m_node_child_index ?t)"
      "\<forall>k<length (cs ! n). ps ! (cs ! n ! k) = n \<and> ks ! (cs ! n ! k) = 0 + k"
      "\<forall>c. c \<notin> set (cs ! n) \<longrightarrow> ps ! c = m_node_parent ?t ! c \<and> ks ! c = m_node_child_index ?t ! c"
  proof (rule set_parents_correct [of "cs ! n" ?t debug n 0])
    show "distinct (cs ! n)"
      by (rule distinct_concat_nth [OF d n])
    show "\<forall>c\<in>set (cs ! n). m_node_parent ?t ! c = UINT64_MAX \<and> m_node_child_index ?t ! c = UINT64_MAX"
      using none new forestD(2) [OF f n] by simp
  qed (use len forestD(2) [OF f n] in simp_all)
  let ?t' = "?t\<lparr>m_node_parent := ps, m_node_child_index := ks\<rparr>"
  have "AddChildren debug n (cs ! n) t = Some ?t'"
    using s(1) n len info [OF n] by (simp add: AddChildren_def Let_def vec_at_def vec_set_def ChildrenInfo_new_def)
  moreover have "represents (Suc n) cs ?t'"
    unfolding represents_def
  proof (intro conjI allI impI)
    show "m_children_list ?t' = concat (take (Suc n) cs)"
      using list n by (simp add: concat_take_Suc)
    fix i
    show "m_node_children ?t' ! i =
        (if i < Suc n then \<lparr>ci_start_index = length (concat (take i cs)), ci_num_children = length (cs ! i)\<rparr>
         else ChildrenInfo_new)" if "i < length cs"
      using info [OF that] len list n by (auto simp: nth_list_update)
    fix k
    assume i: "i < Suc n" "i < length cs" "k < length (cs ! i)"
    have "ps ! (cs ! i ! k) = i \<and> ks ! (cs ! i ! k) = k"
    proof (cases "i = n")
      case True
      then show ?thesis
        using s(4) i(3) by simp
    next
      case False
      then have "cs ! i ! k \<notin> set (cs ! n)"
        using distinct_concat_unique [OF d i(2) n] i(3) nth_mem by blast
      then show ?thesis
        using s(5) up [of i k] i False by simp
    qed
    then show "m_node_parent ?t' ! (cs ! i ! k) = i" "m_node_child_index ?t' ! (cs ! i ! k) = k"
      by simp_all
  next
    fix c
    assume c: "c < length cs" "c \<notin> set (concat (take (Suc n) cs))"
    then show "m_node_parent ?t' ! c = UINT64_MAX" "m_node_child_index ?t' ! c = UINT64_MAX"
      using s(5) none [of c] n by (simp_all add: concat_take_Suc)
  qed (use s(2,3) len in simp_all)
  ultimately show ?thesis
    by force
qed


definition represents_shared :: "nat \<Rightarrow> nat list list \<Rightarrow> SharedNodeTopology \<Rightarrow> bool" where
  "represents_shared n shared t \<longleftrightarrow>
     length (m_node_shared_children t) = length shared \<and>
     m_shared_children_indices t = concat (take n shared) \<and>
     (\<forall>i<length shared. m_node_shared_children t ! i =
        (if i < n then \<lparr>ci_start_index = length (concat (take i shared)), ci_num_children = length (shared ! i)\<rparr>
         else ChildrenInfo_new))"

lemma AddSharedChildren_represents:
  assumes "n < length shared" "represents_shared n shared t"
    and "length (m_node_parent t) = length shared" "length (m_node_child_index t) = length shared"
  shows "\<exists>t'. AddSharedChildren debug n (shared ! n) t = Some t' \<and> represents_shared (Suc n) shared t' \<and>
    (\<exists>a b. t' = t\<lparr>m_shared_children_indices := a, m_node_shared_children := b\<rparr>)"
  using assms
  by (auto simp: AddSharedChildren_def represents_shared_def Let_def vec_at_def vec_set_def ChildrenInfo_new_def
      concat_take_Suc nth_list_update)

lemma represents_shared_cong [simp]:
  "represents_shared n shared (t\<lparr>m_children_list := a, m_node_children := b, m_node_parent := c, m_node_child_index := d\<rparr>) =
   represents_shared n shared t"
  by (simp add: represents_shared_def)

lemma represents_cong [simp]:
  "represents n cs (t\<lparr>m_shared_children_indices := a, m_node_shared_children := b\<rparr>) = represents n cs t"
  "represents n cs (t\<lparr>m_start_shared_child := x, m_end_shared_child := y, m_root_node_index := z\<rparr>) = represents n cs t"
  by (simp_all add: represents_def)

lemma represents_shared_roots [simp]:
  "represents_shared n cs (t\<lparr>m_start_shared_child := x, m_end_shared_child := y, m_root_node_index := z\<rparr>) =
   represents_shared n cs t"
  by (simp add: represents_shared_def)

lemma add_all_children_correct:
  assumes "forest cs" "length shared = length cs" "n \<le> length cs"
    and "represents n cs t" "represents_shared n shared t"
  shows "\<exists>t'. add_all_children debug n (drop n cs) (drop n shared) t = Some t' \<and>
    represents (length cs) cs t' \<and> represents_shared (length cs) shared t'"
  using assms(3-5)
proof (induction "length cs - n" arbitrary: n t)
  case 0
  then show ?case
    by simp
next
  case (Suc k)
  then have n: "n < length cs"
    by simp
  obtain t1 where t1: "AddChildren debug n (cs ! n) t = Some t1" "represents (Suc n) cs t1" "represents_shared n shared t1"
    using AddChildren_represents [OF assms(1) n Suc.prems(2)] Suc.prems(3) by fastforce
  have len: "length (m_node_parent t1) = length shared" "length (m_node_child_index t1) = length shared"
    using t1(2) assms(2) by (simp_all add: represents_def)
  have ns: "n < length shared"
    using n assms(2) by simp
  obtain t2 where t2: "AddSharedChildren debug n (shared ! n) t1 = Some t2" "represents (Suc n) cs t2"
      "represents_shared (Suc n) shared t2"
    using AddSharedChildren_represents [OF ns t1(3) len] t1(2) by fastforce
  have "drop n cs = cs ! n # drop (Suc n) cs" "drop n shared = shared ! n # drop (Suc n) shared"
    using n ns by (simp_all add: Cons_nth_drop_Suc)
  then have "add_all_children debug n (drop n cs) (drop n shared) t =
      add_all_children debug (Suc n) (drop (Suc n) cs) (drop (Suc n) shared) t2"
    using t1(1) t2(1) by (simp add: vec_at_def)
  moreover have "k = length cs - Suc n"
    using Suc.hyps(2) by simp
  ultimately show ?case
    using Suc.hyps(1) [OF _ _ t2(2,3)] n by simp
qed

lemma create_topology_correct:
  assumes "forest cs" "length shared = length cs"
  obtains t where "create_topology debug cs shared starts ends roots SharedNodeTopology_new = Some t"
    "represents (length cs) cs t" "represents_shared (length cs) shared t"
    "m_start_shared_child t = starts" "m_end_shared_child t = ends" "m_root_node_index t = roots"
proof -
  let ?t = "SetNumNodes (length cs) SharedNodeTopology_new"
  have "represents 0 cs ?t" "represents_shared 0 shared ?t"
    using assms(2)
    by (simp_all add: represents_def represents_shared_def SetNumNodes_def SharedNodeTopology_new_def vec_resize_def)
  then obtain t where "add_all_children debug 0 cs shared ?t = Some t"
      "represents (length cs) cs t" "represents_shared (length cs) shared t"
    using add_all_children_correct [OF assms, of 0 ?t] by auto
  then show thesis
    using that [of "t\<lparr>m_start_shared_child := starts, m_end_shared_child := ends, m_root_node_index := roots\<rparr>"]
    by (simp add: create_topology_def)
qed

section \<open>Queries\<close>

text \<open>Every query is answered from the lists of children.\<close>

definition is_child :: "nat list list \<Rightarrow> nat \<Rightarrow> bool" where
  "is_child cs c \<longleftrightarrow> c \<in> set (concat cs)"

lemma GetNumChildren_represents:
  "represents (length cs) cs t \<Longrightarrow> i < length cs \<Longrightarrow> GetNumChildren i t = Some (length (cs ! i))"
  by (simp add: represents_def GetNumChildren_def vec_at_def)

lemma nth_concat_take:
  "i < length cs \<Longrightarrow> k < length (cs ! i) \<Longrightarrow> concat cs ! (length (concat (take i cs)) + k) = cs ! i ! k"
proof (induction cs arbitrary: i)
  case (Cons xs cs)
  then show ?case
    by (cases i) (simp_all add: nth_append)
qed simp

lemma length_concat_take:
  "i < length cs \<Longrightarrow> k < length (cs ! i) \<Longrightarrow> length (concat (take i cs)) + k < length (concat cs)"
proof (induction cs arbitrary: i)
  case (Cons xs cs)
  then show ?case
    by (cases i) simp_all
qed simp

lemma GetChildNodeIndex_represents:
  "represents (length cs) cs t \<Longrightarrow> i < length cs \<Longrightarrow> k < length (cs ! i) \<Longrightarrow>
   GetChildNodeIndex debug i k t = Some (cs ! i ! k)"
  using nth_concat_take [of i cs k] length_concat_take [of i cs k]
  by (simp add: represents_def GetChildNodeIndex_def vec_at_def)

lemma parent_represents:
  assumes "forest cs" "represents (length cs) cs t" "i < length cs" "k < length (cs ! i)"
  shows "GetParentNodeIndex (cs ! i ! k) t = Some i" "GetChildIndex (cs ! i ! k) t = Some k"
  using assms(2-4) forestD(2) [OF assms(1,3) nth_mem [OF assms(4)]]
  by (simp_all add: represents_def GetParentNodeIndex_def GetChildIndex_def vec_at_def)

lemma no_parent_represents:
  assumes "represents (length cs) cs t" "c < length cs" "\<not> is_child cs c"
  shows "GetParentNodeIndex c t = Some UINT64_MAX" "GetChildIndex c t = Some UINT64_MAX"
  using assms by (simp_all add: represents_def GetParentNodeIndex_def GetChildIndex_def vec_at_def is_child_def)

section \<open>Walking the tree\<close>

text \<open>The nodes of the tree below \<open>i\<close>, depth first.\<close>

function preorder :: "nat list list \<Rightarrow> nat \<Rightarrow> nat list" where
  "preorder cs i =
     i # concat (map (preorder cs) (if i < length cs then filter (\<lambda>c. i < c \<and> c < length cs) (cs ! i) else []))"
  by auto
termination
  by (relation "measure (\<lambda>(cs, i). length cs - i)") (auto split: if_splits)

declare preorder.simps [simp del]

lemma preorder_forest:
  assumes "forest cs" "i < length cs"
  shows "preorder cs i = i # concat (map (preorder cs) (cs ! i))"
proof -
  have "filter (\<lambda>c. i < c \<and> c < length cs) (cs ! i) = cs ! i"
    using forestD [OF assms] by (simp add: filter_id_conv)
  then show ?thesis
    using assms(2) by (subst preorder.simps) simp
qed

lemma preorder_nonempty: "preorder cs i \<noteq> []" "hd (preorder cs i) = i"
  by (simp_all add: preorder.simps [of cs i])

abbreviation next_is :: "bool \<Rightarrow> 'a Topology_scheme \<Rightarrow> nat \<Rightarrow> nat \<Rightarrow> bool" where
  "next_is debug t a b \<equiv> GetNextNodeIndex debug a t = Some b"

text \<open>From a subtree the walk goes on to where the climb from its root leads.\<close>

lemma walk_subtree:
  assumes f: "forest cs" and r: "represents (length cs) cs t"
  shows "i < length cs \<Longrightarrow> next_sibling debug i t = Some w \<Longrightarrow>
    successively (next_is debug t) (preorder cs i @ [w])"
proof (induction "length cs - i" arbitrary: i w rule: less_induct)
  case less
  let ?cs = "cs ! i"
  have num: "GetNumChildren i t = Some (length ?cs)"
    by (rule GetNumChildren_represents [OF r less.prems(1)])
  have child: "GetChildNodeIndex debug i k t = Some (?cs ! k)" if "k < length ?cs" for k
    by (rule GetChildNodeIndex_represents [OF r less.prems(1) that])
  have sib: "next_sibling debug (?cs ! k) t = Some (if k + 1 < length ?cs then ?cs ! (k + 1) else w)"
    if k: "k < length ?cs" for k
  proof -
    have "?cs ! k \<noteq> kRootNodeIndex"
      using forestD(1) [OF f less.prems(1) nth_mem [OF k]] by (simp add: kRootNodeIndex_def)
    then show ?thesis
      using parent_represents [OF f r less.prems(1) k] num child [of "k + 1"] less.prems(2)
      by (simp add: next_sibling.simps [of debug "?cs ! k"])
  qed
  have part: "k \<le> length ?cs \<Longrightarrow>
      successively (next_is debug t) (concat (map (preorder cs) (drop k ?cs)) @ [w]) \<and>
      hd (concat (map (preorder cs) (drop k ?cs)) @ [w]) = (if k < length ?cs then ?cs ! k else w)" for k
  proof (induction "length ?cs - k" arbitrary: k)
    case 0
    then show ?case
      by simp
  next
    case (Suc n)
    then have k: "k < length ?cs"
      by simp
    let ?rest = "concat (map (preorder cs) (drop (Suc k) ?cs)) @ [w]"
    have IH: "successively (next_is debug t) ?rest" "hd ?rest = (if Suc k < length ?cs then ?cs ! Suc k else w)"
      using Suc.hyps(1) [of "Suc k"] Suc.hyps(2) k by simp_all
    have c: "i < ?cs ! k" "?cs ! k < length cs"
      using forestD [OF f less.prems(1) nth_mem [OF k]] by simp_all
    have sub: "successively (next_is debug t) (preorder cs (?cs ! k) @ [hd ?rest])"
      using less.hyps [of "?cs ! k"] sib [OF k] c IH(2) by simp
    have "successively (next_is debug t) (preorder cs (?cs ! k) @ ?rest)"
      using sub IH(1) by (auto simp: successively_append_iff)
    then show ?case
      using k preorder_nonempty [of cs "?cs ! k"] by (simp add: Cons_nth_drop_Suc [symmetric])
  qed
  have "next_is debug t i (hd (concat (map (preorder cs) ?cs) @ [w]))"
    using num child [of 0] less.prems(2) part [of 0] by (simp add: GetNextNodeIndex_def)
  then show ?case
    using part [of 0] by (simp add: preorder_forest [OF f less.prems(1)] successively_Cons)
qed

lemma walk_root:
  assumes "forest cs" "represents (length cs) cs t" "cs \<noteq> []"
  shows "successively (next_is debug t) (preorder cs kRootNodeIndex @ [UINT64_MAX])"
proof -
  have "next_sibling debug kRootNodeIndex t = Some UINT64_MAX"
    by (simp add: next_sibling.simps [of debug kRootNodeIndex t])
  moreover have "kRootNodeIndex < length cs"
    using assms(3) by (simp add: kRootNodeIndex_def)
  ultimately show ?thesis
    by (intro walk_subtree [OF assms(1,2)])
qed

text \<open>The walk meets each node of the tree once.\<close>

lemma preorder_ge: "forest cs \<Longrightarrow> i < length cs \<Longrightarrow> x \<in> set (preorder cs i) \<Longrightarrow> i \<le> x \<and> x < length cs"
proof (induction "length cs - i" arbitrary: i rule: less_induct)
  case less
  show ?case
  proof (cases "x = i")
    case False
    then obtain c where c: "c \<in> set (cs ! i)" "x \<in> set (preorder cs c)"
      using less.prems by (auto simp: preorder_forest)
    have ci: "i < c" "c < length cs"
      using forestD [OF less.prems(1,2) c(1)] by simp_all
    then have "c \<le> x \<and> x < length cs"
      using less.hyps [OF _ less.prems(1) ci(2) c(2)] less.prems(2) by (simp add: diff_less_mono2)
    then show ?thesis
      using ci by simp
  qed (use less.prems in simp)
qed

lemma preorder_parent:
  assumes "forest cs" "i < length cs" "x \<in> set (preorder cs i)" "x \<noteq> i"
  shows "\<exists>p\<in>set (preorder cs i). p < length cs \<and> x \<in> set (cs ! p)"
  using assms(2-4)
proof (induction "length cs - i" arbitrary: i rule: less_induct)
  case less
  then obtain c where c: "c \<in> set (cs ! i)" "x \<in> set (preorder cs c)"
    by (auto simp: preorder_forest [OF assms(1)])
  have ci: "i < c" "c < length cs"
    using forestD [OF assms(1) less.prems(1) c(1)] by simp_all
  show ?case
  proof (cases "x = c")
    case True
    then show ?thesis
      using c(1) less.prems(1) by (auto simp: preorder_forest [OF assms(1)])
  next
    case False
    then obtain p where "p \<in> set (preorder cs c)" "p < length cs" "x \<in> set (cs ! p)"
      using less.hyps [OF _ ci(2) c(2)] diff_less_mono2 [OF ci(1) less.prems(1)] by blast
    then show ?thesis
      using c(1) less.prems(1) by (auto simp: preorder_forest [OF assms(1)])
  qed
qed

lemma preorder_comparable:
  assumes "forest cs" "i < j" "j < length cs" "x \<in> set (preorder cs i)" "x \<in> set (preorder cs j)"
  shows "j \<in> set (preorder cs i)"
  using assms(4,5)
proof (induction x rule: less_induct)
  case (less x)
  have i: "i < length cs"
    using assms(2,3) by simp
  show ?case
  proof (cases "x = j")
    case False
    have "x \<noteq> i"
      using preorder_ge [OF assms(1,3) less.prems(2)] assms(2) by simp
    then obtain p where p: "p \<in> set (preorder cs i)" "p < length cs" "x \<in> set (cs ! p)"
      using preorder_parent [OF assms(1) i less.prems(1)] by blast
    obtain q where q: "q \<in> set (preorder cs j)" "q < length cs" "x \<in> set (cs ! q)"
      using preorder_parent [OF assms(1,3) less.prems(2) False] by blast
    have "p = q"
      by (rule distinct_concat_unique [OF forest_distinct [OF assms(1)] p(2) q(2) p(3) q(3)])
    moreover have "p < x"
      by (rule forestD(1) [OF assms(1) p(2,3)])
    ultimately show ?thesis
      using less.IH p(1) q(1) by blast
  qed (use less.prems in simp)
qed

lemma siblings_disjoint:
  assumes f: "forest cs" and i: "i < length cs" and ab: "a \<in> set (cs ! i)" "b \<in> set (cs ! i)" "a < b"
  shows "set (preorder cs a) \<inter> set (preorder cs b) = {}"
proof (rule ccontr)
  assume "set (preorder cs a) \<inter> set (preorder cs b) \<noteq> {}"
  then obtain x where "x \<in> set (preorder cs a)" "x \<in> set (preorder cs b)"
    by blast
  then have "b \<in> set (preorder cs a)"
    using preorder_comparable [OF f ab(3) forestD(2) [OF f i ab(2)]] by blast
  then obtain p where p: "p \<in> set (preorder cs a)" "p < length cs" "b \<in> set (cs ! p)"
    using preorder_parent [OF f forestD(2) [OF f i ab(1)]] ab(3) by auto
  have "p = i"
    by (rule distinct_concat_unique [OF forest_distinct [OF f] p(2) i p(3) ab(2)])
  then show False
    using preorder_ge [OF f forestD(2) [OF f i ab(1)] p(1)] forestD(1) [OF f i ab(1)] by simp
qed

lemma distinct_concat_map:
  assumes "distinct xs" "\<And>x. x \<in> set xs \<Longrightarrow> distinct (g x)"
    and "\<And>x y. x \<in> set xs \<Longrightarrow> y \<in> set xs \<Longrightarrow> x \<noteq> y \<Longrightarrow> set (g x) \<inter> set (g y) = {}"
  shows "distinct (concat (map g xs))"
  using assms
proof (induction xs)
  case (Cons x xs)
  have "set (g x) \<inter> set (concat (map g xs)) = {}"
    using Cons.prems(1,3) by fastforce
  moreover have "distinct (concat (map g xs))"
    using Cons.IH Cons.prems by simp
  ultimately show ?case
    using Cons.prems(2) by simp
qed simp

lemma preorder_distinct:
  assumes "forest cs"
  shows "i < length cs \<Longrightarrow> distinct (preorder cs i)"
proof (induction "length cs - i" arbitrary: i rule: less_induct)
  case less
  note child = forestD [OF assms less.prems]
  have "distinct (concat (map (preorder cs) (cs ! i)))"
  proof (rule distinct_concat_map)
    show "distinct (cs ! i)"
      by (rule distinct_concat_nth [OF forest_distinct [OF assms] less.prems])
    show "distinct (preorder cs c)" if "c \<in> set (cs ! i)" for c
      using less.hyps [of c] child [OF that] by simp
    show "set (preorder cs a) \<inter> set (preorder cs b) = {}"
      if "a \<in> set (cs ! i)" "b \<in> set (cs ! i)" "a \<noteq> b" for a b
    proof (cases "a < b")
      case True
      show ?thesis
        by (rule siblings_disjoint [OF assms less.prems that(1,2) True])
    next
      case False
      then have "b < a"
        using that(3) by simp
      then show ?thesis
        using siblings_disjoint [OF assms less.prems that(2,1)] by (simp add: Int_commute)
    qed
  qed
  moreover have "i \<notin> set (preorder cs c)" if "c \<in> set (cs ! i)" for c
    using preorder_ge [OF assms child(2) [OF that], of i] child(1) [OF that] by auto
  ultimately show ?case
    by (simp add: preorder_forest [OF assms less.prems])
qed

end
