(* ===== verification/Pm4_Event_Info.thy ===== *)
theory Pm4_Event_Info
  imports Pm4_State_Tracker
begin

text \<open>
  Which packets are events, and what is shown of them (\<^verbatim>\<open>src/dive_core/capture_event_info.cpp\<close>).

  Packet structures, enumerators and register names are generated by the build. They are the parameter
  \<open>pm4_info\<close>, which gives them by their names in the code: the number of an enumerator, the size of a
  structure, and the value of a field of it from its bytes.

  Shown here: exactly the packets that \<^verbatim>\<open>IsEvent\<close> accepts have an event type, and for these no
  assertion of \<^verbatim>\<open>GetEventType\<close> fails.
\<close>

section \<open>Generated definitions\<close>

datatype info_op =
    CP_BLIT | CP_EVENT_WRITE7 | CP_WAIT_MEM_WRITES | CP_WAIT_FOR_IDLE | CP_WAIT_FOR_ME
  | CP_LOAD_STATE6 | CP_LOAD_STATE6_GEOM | CP_LOAD_STATE6_FRAG | CP_MEM_TO_REG

record RegField =
  rf_name :: string
  rf_type :: nat
  rf_enum_handle :: nat
  rf_mask :: u64
  rf_shift :: nat
  rf_shr :: nat
  rf_bit_width :: nat
  rf_radix :: nat

record RegInfo =
  ri_name :: string
  ri_type :: nat
  ri_enum_handle :: nat
  ri_is_64_bit :: bool
  ri_shr :: nat
  ri_bit_width :: nat
  ri_radix :: nat
  ri_fields :: "RegField list"

record PacketField =
  pf_name :: string
  pf_type :: nat
  pf_enum_handle :: nat
  pf_dword :: nat
  pf_mask :: u32
  pf_shift :: nat
  pf_shr :: nat

record PacketInfo =
  pi_max_array_size :: nat
  pi_fields :: "PacketField list"

text \<open>
  \<^verbatim>\<open>GetRegOffsetByName\<close>, \<^verbatim>\<open>GetRegInfo\<close>, \<^verbatim>\<open>GetPacketInfo\<close> (with the name, which is empty when not given),
  \<^verbatim>\<open>GetEnumString\<close> and \<^verbatim>\<open>GetOpCodeString\<close>; \<open>None\<close> is a null pointer.
\<close>

record pm4_info =
  info_isa :: pm4_isa
  info_op :: "info_op \<Rightarrow> u32"
  info_enum :: "string \<Rightarrow> u64"
  info_sizeof :: "string \<Rightarrow> nat"
  info_field :: "string \<Rightarrow> string \<Rightarrow> buffer \<Rightarrow> u64"
  info_GetRegOffsetByName :: "string \<Rightarrow> u32"
  info_GetRegInfo :: "u32 \<Rightarrow> RegInfo option"
  info_GetPacketInfo :: "u32 \<Rightarrow> string \<Rightarrow> PacketInfo option"
  info_GetEnumString :: "nat \<Rightarrow> u32 \<Rightarrow> string option"
  info_GetOpCodeString :: "u32 \<Rightarrow> string"

text \<open>Reading a packet as a structure, as a whole or as many words as the header tells.\<close>

definition read_packet ::
    "bool \<Rightarrow> pm4_info \<Rightarrow> 'm retriever \<Rightarrow> string \<Rightarrow> u32 \<Rightarrow> u64 \<Rightarrow> 'm \<Rightarrow> (buffer \<times> 'm) option" where
  "read_packet debug info retrieve struct submit_index va_addr =
     read_struct debug retrieve submit_index va_addr (info_sizeof info struct) (info_sizeof info struct)"

definition read_counted_packet ::
    "bool \<Rightarrow> pm4_info \<Rightarrow> 'm retriever \<Rightarrow> string \<Rightarrow> u32 \<Rightarrow> u64 \<Rightarrow> Pm4Header \<Rightarrow> 'm \<Rightarrow> (buffer \<times> 'm) option" where
  "read_counted_packet debug info retrieve struct submit_index va_addr header =
     read_struct debug retrieve submit_index va_addr (info_sizeof info struct)
       (unat (type7_count header + 1) * 4)"

section \<open>Kinds of events\<close>

datatype SyncType =
    Sync_kColorSysMemToGmemResolve | Sync_kColorGmemToSysMemResolve | Sync_kColorGmemToSysMemResolveAndClear
  | Sync_kColorClearGmem | Sync_kDepthSysMemToGmemResolve | Sync_kDepthGmemToSysMemResolve
  | Sync_kDepthGmemToSysMemResolveAndClear | Sync_kDepthClearGmem
  | Sync_kWaitMemWrites | Sync_kWaitForIdle | Sync_kWaitForMe | Sync_kNone

datatype EventType =
    Event_kUnknown | Event_kDraw | Event_kDispatch | Event_kBlit
  | Event_kColorSysMemToGmemResolve | Event_kColorGmemToSysMemResolve
  | Event_kColorGmemToSysMemResolveAndClear | Event_kColorClearGmem
  | Event_kDepthSysMemToGmemResolve | Event_kDepthGmemToSysMemResolve
  | Event_kDepthGmemToSysMemResolveAndClear | Event_kDepthClearGmem | Event_kSysmemToGmemResolve
  | Event_kWaitMemWrites | Event_kWaitForIdle | Event_kWaitForMe
  | Event_kEventWriteStart | Event_kEventWriteEnd

text \<open>The switch on the type of the resolve, from the value of \<^verbatim>\<open>RB_RESOLVE_OPERATION\<close>.\<close>

definition resolve_type :: "pm4_info \<Rightarrow> u32 \<Rightarrow> SyncType" where
  "resolve_type info reg =
     (let type = info_field info ''RB_RESOLVE_OPERATION'' ''TYPE'' (le32_bytes reg);
          depth = info_field info ''RB_RESOLVE_OPERATION'' ''DEPTH'' (le32_bytes reg) \<noteq> 0 in
      if type = info_enum info ''BLIT_EVENT_STORE''
      then (if depth then Sync_kDepthGmemToSysMemResolve else Sync_kColorGmemToSysMemResolve)
      else if type = info_enum info ''BLIT_EVENT_STORE_AND_CLEAR''
      then (if depth then Sync_kDepthGmemToSysMemResolveAndClear else Sync_kColorGmemToSysMemResolveAndClear)
      else if type = info_enum info ''BLIT_EVENT_CLEAR''
      then (if depth then Sync_kDepthClearGmem else Sync_kColorClearGmem)
      else if type = info_enum info ''BLIT_EVENT_LOAD''
      then (if depth then Sync_kDepthSysMemToGmemResolve else Sync_kColorSysMemToGmemResolve)
      else Sync_kNone)"

definition GetSyncType ::
    "bool \<Rightarrow> pm4_info \<Rightarrow> 'm retriever \<Rightarrow> u32 \<Rightarrow> u64 \<Rightarrow> u32 \<Rightarrow> EmulateStateTracker \<Rightarrow> 'm \<Rightarrow>
     (SyncType \<times> 'm) option" where
  "GetSyncType debug info retrieve submit_index addr opcode tr m =
     (if opcode = info_op info CP_EVENT_WRITE7
      then do {
        (packet, m) \<leftarrow> read_packet debug info retrieve ''PM4_CP_EVENT_WRITE'' submit_index addr m;
        if info_field info ''PM4_CP_EVENT_WRITE'' ''EVENT'' packet = info_enum info ''CCU_RESOLVE''
        then do {
          let offset = info_GetRegOffsetByName info ''RB_RESOLVE_OPERATION'';
          is_set \<leftarrow> IsRegSet_current offset tr;
          if is_set
          then do { reg \<leftarrow> GetRegValue_current offset tr; Some (resolve_type info reg, m) }
          else Some (Sync_kNone, m)
        }
        else Some (Sync_kNone, m)
      }
      else if opcode = info_op info CP_WAIT_MEM_WRITES then Some (Sync_kWaitMemWrites, m)
      else if opcode = info_op info CP_WAIT_FOR_IDLE then Some (Sync_kWaitForIdle, m)
      else if opcode = info_op info CP_WAIT_FOR_ME then Some (Sync_kWaitForMe, m)
      else Some (Sync_kNone, m))"

definition IsEvent ::
    "bool \<Rightarrow> pm4_info \<Rightarrow> 'm retriever \<Rightarrow> u32 \<Rightarrow> u64 \<Rightarrow> u32 \<Rightarrow> EmulateStateTracker \<Rightarrow> 'm \<Rightarrow>
     (bool \<times> 'm) option" where
  "IsEvent debug info retrieve submit_index addr opcode tr m =
     (if IsDrawDispatchEventOpcode (info_isa info) opcode then Some (True, m)
      else if opcode = info_op info CP_BLIT then Some (True, m)
      else do {
        (sync_type, m) \<leftarrow> GetSyncType debug info retrieve submit_index addr opcode tr m;
        Some (sync_type \<noteq> Sync_kNone, m)
      })"

text \<open>The switch of \<^verbatim>\<open>GetEventType\<close>; \<open>None\<close> is its default, which a debug build asserts not to reach.\<close>

fun sync_event_type :: "SyncType \<Rightarrow> EventType option" where
  "sync_event_type Sync_kColorSysMemToGmemResolve = Some Event_kColorSysMemToGmemResolve"
| "sync_event_type Sync_kColorGmemToSysMemResolve = Some Event_kColorGmemToSysMemResolve"
| "sync_event_type Sync_kColorGmemToSysMemResolveAndClear = Some Event_kColorGmemToSysMemResolveAndClear"
| "sync_event_type Sync_kColorClearGmem = Some Event_kColorClearGmem"
| "sync_event_type Sync_kDepthSysMemToGmemResolve = Some Event_kDepthSysMemToGmemResolve"
| "sync_event_type Sync_kDepthGmemToSysMemResolve = Some Event_kDepthGmemToSysMemResolve"
| "sync_event_type Sync_kDepthGmemToSysMemResolveAndClear = Some Event_kDepthGmemToSysMemResolveAndClear"
| "sync_event_type Sync_kDepthClearGmem = Some Event_kDepthClearGmem"
| "sync_event_type Sync_kWaitMemWrites = Some Event_kWaitMemWrites"
| "sync_event_type Sync_kWaitForIdle = Some Event_kWaitForIdle"
| "sync_event_type Sync_kWaitForMe = Some Event_kWaitForMe"
| "sync_event_type Sync_kNone = None"

definition GetEventType ::
    "bool \<Rightarrow> pm4_info \<Rightarrow> 'm retriever \<Rightarrow> u32 \<Rightarrow> u64 \<Rightarrow> u32 \<Rightarrow> EmulateStateTracker \<Rightarrow> 'm \<Rightarrow>
     (EventType \<times> 'm) option" where
  "GetEventType debug info retrieve submit_index va_addr opcode tr m =
     (if IsDrawEventOpcode (info_isa info) opcode then Some (Event_kDraw, m)
      else if IsDispatchEventOpcode (info_isa info) opcode then Some (Event_kDispatch, m)
      else if opcode = info_op info CP_BLIT then Some (Event_kBlit, m)
      else do {
        (sync_type, m) \<leftarrow> GetSyncType debug info retrieve submit_index va_addr opcode tr m;
        case sync_event_type sync_type of
          Some type \<Rightarrow> Some (type, m)
        | None \<Rightarrow> do { DIVE_ASSERT debug False; Some (Event_kUnknown, m) }
      })"

section \<open>Event strings\<close>

fun show_hex :: "nat \<Rightarrow> string" where
  "show_hex n =
     (let digit = (\<lambda>d. if d < 10 then char_of (48 + d) else char_of (87 + d :: nat)) in
      if n < 16 then [digit n] else show_hex (n div 16) @ [digit (n mod 16)])"

declare show_hex.simps [simp del]

definition dec :: "u64 \<Rightarrow> string" where "dec x = show_nat (unat x)"
definition hex :: "u64 \<Rightarrow> string" where "hex x = ''0x'' @ show_hex (unat x)"

text \<open>The branches of \<^verbatim>\<open>GetEventString\<close> on the fields of the packet, read by \<open>f\<close>.\<close>

definition draw_index_offset_string :: "bool \<Rightarrow> pm4_info \<Rightarrow> (string \<Rightarrow> u64) \<Rightarrow> string option" where
  "draw_index_offset_string debug info f =
     (if f ''SOURCE_SELECT'' = info_enum info ''DI_SRC_SEL_AUTO_INDEX''
      then Some (''DrawIndexOffset(AutoIndex,NumIndices:'' @ dec (f ''NUM_INDICES'') @
             '',NumInstances:'' @ dec (f ''NUM_INSTANCES'') @ '')'')
      else if f ''SOURCE_SELECT'' = info_enum info ''DI_SRC_SEL_DMA''
      then Some (''DrawIndexOffset(NumIndices:'' @ dec (f ''NUM_INDICES'') @
             '',NumInstances:'' @ dec (f ''NUM_INSTANCES'') @ '',IndexBase:'' @ hex (f ''INDX_BASE'') @ '')'')
      else do { DIVE_ASSERT debug False; Some ''DrawIndexOffset()'' })"

text \<open>The address of a \<^verbatim>\<open>CP_DRAW_INDIRECT\<close> is printed in decimal after \<^verbatim>\<open>0x\<close>.\<close>

definition hi_lo :: "u64 \<Rightarrow> u64 \<Rightarrow> u64" where
  "hi_lo hi lo = push_bit 32 hi OR lo"

definition draw_indirect_string :: "(string \<Rightarrow> u64) \<Rightarrow> string" where
  "draw_indirect_string f =
     ''DrawIndirect(Indirect:0x'' @ dec (hi_lo (f ''INDIRECT_HI'') (f ''INDIRECT_LO'')) @ '')''"

definition draw_index_indirect_string :: "(string \<Rightarrow> u64) \<Rightarrow> string" where
  "draw_index_indirect_string f =
     ''DrawIndexIndirect(IndexBase:'' @ hex (hi_lo (f ''INDX_BASE_HI'') (f ''INDX_BASE_LO'')) @
     '',MaxIndices:'' @ dec (f ''MAX_INDICES'') @
     '',Indirect:'' @ hex (hi_lo (f ''INDIRECT_HI'') (f ''INDIRECT_LO'')) @ '')''"

definition draw_auto_string :: "(string \<Rightarrow> u64) \<Rightarrow> string" where
  "draw_auto_string f =
     ''DrawAuto(NumInstances:'' @ dec (f ''NUM_INSTANCES'') @
     '',CounterBuffer:'' @ dec (f ''NUM_VERTICES_BASE'') @ '')''"

text \<open>The structures of \<^verbatim>\<open>CP_DRAW_INDIRECT_MULTI\<close>, after their common first fields.\<close>

definition multi_string :: "string \<Rightarrow> bool \<Rightarrow> bool \<Rightarrow> (string \<Rightarrow> u64) \<Rightarrow> string" where
  "multi_string title indexed counted f =
     title @ ''(DrawCount:'' @ dec (f ''DRAW_COUNT'') @
     (if indexed then '',Index:'' @ hex (f ''INDEX'') @ '',MaxIndices:'' @ dec (f ''MAX_INDICES'') else []) @
     '',Indirect:'' @ hex (f ''INDIRECT'') @
     (if counted then '',IndirectCount:'' @ dec (f ''INDIRECT_COUNT'') else []) @
     '',Stride:'' @ dec (f ''STRIDE'') @ '',DstOff:'' @ dec (f ''DST_OFF'') @ '')''"

definition multi_draw_string ::
    "bool \<Rightarrow> pm4_info \<Rightarrow> 'm retriever \<Rightarrow> u32 \<Rightarrow> u64 \<Rightarrow> 'm \<Rightarrow> (string \<times> 'm) option" where
  "multi_draw_string debug info retrieve submit_index va_addr m =
     do {
       let base = ''PM4_CP_DRAW_INDIRECT_MULTI_INDIRECT_OP_NORMAL'';
       (base_packet, m) \<leftarrow> read_packet debug info retrieve base submit_index va_addr m;
       let op = info_field info base ''OPCODE'' base_packet;
       let again = (\<lambda>struct title indexed counted. do {
             (packet, m) \<leftarrow> read_packet debug info retrieve struct submit_index va_addr m;
             Some (multi_string title indexed counted (\<lambda>n. info_field info struct n packet), m)
           });
       if op = info_enum info ''INDIRECT_OP_NORMAL''
       then Some (multi_string ''DrawIndirectMulti'' False False (\<lambda>n. info_field info base n base_packet), m)
       else if op = info_enum info ''INDIRECT_OP_INDEXED''
       then again ''PM4_CP_DRAW_INDIRECT_MULTI_INDEXED'' ''DrawIndirectMultiIndexed'' True False
       else if op = info_enum info ''INDIRECT_OP_INDIRECT_COUNT''
       then again ''PM4_CP_DRAW_INDIRECT_MULTI_INDIRECT'' ''DrawIndirectMultiIndirect'' False True
       else if op = info_enum info ''INDIRECT_OP_INDIRECT_COUNT_INDEXED''
       then again ''PM4_CP_DRAW_INDIRECT_MULTI_INDIRECT_INDEXED'' ''DrawIndirectMultiIndirectIndexed'' True True
       else Some ([], m)
     }"

definition exec_cs_indirect_string :: "(string \<Rightarrow> u64) \<Rightarrow> string" where
  "exec_cs_indirect_string f =
     ''ExecCsIndirect(x:'' @ dec (f ''LOCALSIZEX'') @ '',y:'' @ dec (f ''LOCALSIZEY'') @
     '',z:'' @ dec (f ''LOCALSIZEZ'') @ '',Addr:'' @ hex (f ''ADDR'') @ '')''"

definition exec_cs_string :: "(string \<Rightarrow> u64) \<Rightarrow> string" where
  "exec_cs_string f =
     ''ExecCsIndirect(x:'' @ dec (f ''NGROUPS_X'') @ '',y:'' @ dec (f ''NGROUPS_Y'') @
     '',z:'' @ dec (f ''NGROUPS_Z'') @ '')''"

definition blit_string :: "bool \<Rightarrow> pm4_info \<Rightarrow> Pm4Header \<Rightarrow> (string \<Rightarrow> u64) \<Rightarrow> string option" where
  "blit_string debug info header f =
     do {
       let op = (if f ''OP'' = info_enum info ''BLIT_OP_FILL'' then ''BLIT_OP_FILL''
                 else if f ''OP'' = info_enum info ''BLIT_OP_COPY'' then ''BLIT_OP_COPY''
                 else if f ''OP'' = info_enum info ''BLIT_OP_SCALE'' then ''BLIT_OP_SCALE'' else []);
       DIVE_ASSERT debug (type7_count header = 1 \<or>
         unat (type7_count header + 1) * 4 = info_sizeof info ''PM4_CP_BLIT'');
       Some (''CpBlit(op:'' @ op @
         (if type7_count header > 2
          then '',srcX1:'' @ dec (f ''SRC_X1'') @ '',srcY1:'' @ dec (f ''SRC_Y1'') @
               '',srcX2:'' @ dec (f ''SRC_X2'') @ '',srcY2:'' @ dec (f ''SRC_Y2'') @
               '',dstX1:'' @ dec (f ''DST_X1'') @ '',dstX1:'' @ dec (f ''DST_Y1'') @
               '',dstX2:'' @ dec (f ''DST_X2'') @ '',dstX2:'' @ dec (f ''DST_Y2'')
          else []) @ '')'')
     }"

text \<open>The name of the event of a \<^verbatim>\<open>CP_EVENT_WRITE\<close> that is no resolve; a null pointer is undefined.\<close>

definition event_write_string :: "bool \<Rightarrow> pm4_info \<Rightarrow> u32 \<Rightarrow> string option" where
  "event_write_string debug info opcode =
     do {
       packet_info \<leftarrow> info_GetPacketInfo info opcode [];
       DIVE_ASSERT debug (length (pi_fields packet_info) > 1);
       (case pi_fields packet_info of
          [] \<Rightarrow> None
        | field # _ \<Rightarrow> do {
            DIVE_ASSERT debug (pf_name field = ''EVENT'');
            enum_str \<leftarrow> info_GetEnumString info (pf_enum_handle field)
                          (ucast (info_enum info ''CACHE_INVALIDATE7'') + 12);
            Some (''CpEventWrite(type:'' @ enum_str @ '')'')
          })
     }"

fun resolve_string :: "SyncType \<Rightarrow> string option" where
  "resolve_string Sync_kColorSysMemToGmemResolve = Some ''Resolve(Color,SysMem-To-Gmem)''"
| "resolve_string Sync_kColorGmemToSysMemResolve = Some ''Resolve(Color,Gmem-To-SysMem)''"
| "resolve_string Sync_kColorGmemToSysMemResolveAndClear = Some ''Resolve(Color,Gmem-To-SysMem,ClearGmem)''"
| "resolve_string Sync_kColorClearGmem = Some ''Resolve(Color,ClearGmem)''"
| "resolve_string Sync_kDepthSysMemToGmemResolve = Some ''Resolve(Depth,SysMem-To-Gmem)''"
| "resolve_string Sync_kDepthGmemToSysMemResolve = Some ''Resolve(Depth,Gmem-To-SysMem)''"
| "resolve_string Sync_kDepthGmemToSysMemResolveAndClear = Some ''Resolve(Depth,Gmem-To-SysMem,ClearGmem)''"
| "resolve_string Sync_kDepthClearGmem = Some ''Resolve(Depth,ClearGmem)''"
| "resolve_string _ = None"

text \<open>A packet read as a structure and shown from its fields.\<close>

definition show_packet ::
    "bool \<Rightarrow> pm4_info \<Rightarrow> 'm retriever \<Rightarrow> string \<Rightarrow> ((string \<Rightarrow> u64) \<Rightarrow> string option) \<Rightarrow> u32 \<Rightarrow> u64 \<Rightarrow> 'm \<Rightarrow>
     (string \<times> 'm) option" where
  "show_packet debug info retrieve struct show submit_index va_addr m =
     do {
       (packet, m) \<leftarrow> read_packet debug info retrieve struct submit_index va_addr m;
       s \<leftarrow> show (\<lambda>n. info_field info struct n packet);
       Some (s, m)
     }"

definition show_counted_packet ::
    "bool \<Rightarrow> pm4_info \<Rightarrow> 'm retriever \<Rightarrow> string \<Rightarrow> ((string \<Rightarrow> u64) \<Rightarrow> string option) \<Rightarrow> u32 \<Rightarrow> u64 \<Rightarrow>
     Pm4Header \<Rightarrow> 'm \<Rightarrow> (string \<times> 'm) option" where
  "show_counted_packet debug info retrieve struct show submit_index va_addr header m =
     do {
       (packet, m) \<leftarrow> read_counted_packet debug info retrieve struct submit_index va_addr header m;
       s \<leftarrow> show (\<lambda>n. info_field info struct n packet);
       Some (s, m)
     }"

text \<open>Only a debug build evaluates the assertion that the packet is an event.\<close>

definition assert_event ::
    "bool \<Rightarrow> pm4_info \<Rightarrow> 'm retriever \<Rightarrow> u32 \<Rightarrow> u64 \<Rightarrow> u32 \<Rightarrow> EmulateStateTracker \<Rightarrow> 'm \<Rightarrow> 'm option" where
  "assert_event debug info retrieve submit_index va_addr opcode tr m =
     (if debug
      then do {
        (is_event, m) \<leftarrow> IsEvent debug info retrieve submit_index va_addr opcode tr m;
        DIVE_ASSERT debug is_event;
        Some m
      }
      else Some m)"

definition GetEventString ::
    "bool \<Rightarrow> pm4_info \<Rightarrow> 'm retriever \<Rightarrow> u32 \<Rightarrow> u64 \<Rightarrow> Pm4Header \<Rightarrow> EmulateStateTracker \<Rightarrow> 'm \<Rightarrow>
     (string \<times> 'm) option" where
  "GetEventString debug info retrieve submit_index va_addr header tr m =
     do {
       let opcode = type7_opcode header;
       let op = (\<lambda>x. opcode = isa_op (info_isa info) x);
       let iop = (\<lambda>x. opcode = info_op info x);
       let shown = (\<lambda>struct show. show_packet debug info retrieve struct show submit_index va_addr);
       let shown_counted = (\<lambda>struct show.
             show_counted_packet debug info retrieve struct show submit_index va_addr header);
       m \<leftarrow> assert_event debug info retrieve submit_index va_addr opcode tr m;
       if op CP_DRAW_INDX
       then shown ''PM4_CP_DRAW_INDX''
              (\<lambda>f. Some (''DrawIndexOffset(NumIndices:'' @ dec (f ''NUM_INDICES'') @ '')'')) m
       else if op CP_DRAW_INDX_OFFSET
       then shown_counted ''PM4_CP_DRAW_INDX_OFFSET'' (draw_index_offset_string debug info) m
       else if op CP_DRAW_INDIRECT
       then shown ''PM4_CP_DRAW_INDIRECT'' (Some \<circ> draw_indirect_string) m
       else if op CP_DRAW_INDX_INDIRECT
       then shown ''PM4_CP_DRAW_INDX_INDIRECT'' (Some \<circ> draw_index_indirect_string) m
       else if op CP_DRAW_INDIRECT_MULTI then multi_draw_string debug info retrieve submit_index va_addr m
       else if op CP_DRAW_AUTO then shown ''PM4_CP_DRAW_AUTO'' (Some \<circ> draw_auto_string) m
       else if op CP_EXEC_CS_INDIRECT
       then shown ''PM4_CP_EXEC_CS_INDIRECT'' (Some \<circ> exec_cs_indirect_string) m
       else if op CP_EXEC_CS then shown ''PM4_CP_EXEC_CS'' (Some \<circ> exec_cs_string) m
       else if iop CP_BLIT then shown_counted ''PM4_CP_BLIT'' (blit_string debug info header) m
       else if iop CP_EVENT_WRITE7
       then do {
         (sync_type, m) \<leftarrow> GetSyncType debug info retrieve submit_index va_addr opcode tr m;
         s \<leftarrow> (case resolve_string sync_type of Some s \<Rightarrow> Some s | None \<Rightarrow> event_write_string debug info opcode);
         Some (s, m)
       }
       else if iop CP_WAIT_MEM_WRITES then Some (''CpWaitMemWrites()'', m)
       else if iop CP_WAIT_FOR_IDLE then Some (''CpWaitForIdle()'', m)
       else if iop CP_WAIT_FOR_ME then Some (''CpWaitForMe()'', m)
       else do { DIVE_ASSERT debug False; Some ([], m) }
     }"

section \<open>Details of draws\<close>

definition ShouldIgnoreEventDuringCorrelation ::
    "bool \<Rightarrow> pm4_info \<Rightarrow> 'm retriever \<Rightarrow> u32 \<Rightarrow> u64 \<Rightarrow> Pm4Header \<Rightarrow> 'm \<Rightarrow> (bool \<times> 'm) option" where
  "ShouldIgnoreEventDuringCorrelation debug info retrieve submit_index va_addr header m =
     (if type7_opcode header \<noteq> isa_op (info_isa info) CP_DRAW_INDX_OFFSET then Some (False, m)
      else do {
        let struct = ''PM4_CP_DRAW_INDX_OFFSET'';
        (packet, m) \<leftarrow> read_counted_packet debug info retrieve struct submit_index va_addr header m;
        if info_field info struct ''PRIM_TYPE'' packet = info_enum info ''DI_PT_RECTLIST''
        then do {
          let n = info_field info struct ''NUM_INDICES'' packet;
          DIVE_ASSERT debug (n > 0 \<and> n mod 2 = 0);
          Some (True, m)
        }
        else Some (False, m)
      })"

definition GetIndexCount ::
    "bool \<Rightarrow> pm4_info \<Rightarrow> 'm retriever \<Rightarrow> u32 \<Rightarrow> u64 \<Rightarrow> Pm4Header \<Rightarrow> 'm \<Rightarrow> (u32 \<times> 'm) option" where
  "GetIndexCount debug info retrieve submit_index va_addr header m =
     (if type7_opcode header = isa_op (info_isa info) CP_DRAW_INDX
      then do {
        (packet, m) \<leftarrow> read_packet debug info retrieve ''PM4_CP_DRAW_INDX'' submit_index va_addr m;
        Some (ucast (info_field info ''PM4_CP_DRAW_INDX'' ''NUM_INDICES'' packet), m)
      }
      else if type7_opcode header = isa_op (info_isa info) CP_DRAW_INDX_OFFSET
      then do {
        (packet, m) \<leftarrow>
          read_counted_packet debug info retrieve ''PM4_CP_DRAW_INDX_OFFSET'' submit_index va_addr header m;
        Some (ucast (info_field info ''PM4_CP_DRAW_INDX_OFFSET'' ''NUM_INDICES'' packet), m)
      }
      else Some (0, m))"

datatype VkPrimitiveTopology =
    VK_LINE_LIST | VK_LINE_STRIP | VK_TRIANGLE_LIST | VK_TRIANGLE_FAN | VK_TRIANGLE_STRIP | VK_POINT_LIST
  | VK_LINE_LIST_WITH_ADJACENCY | VK_LINE_STRIP_WITH_ADJACENCY | VK_TRIANGLE_LIST_WITH_ADJACENCY
  | VK_TRIANGLE_STRIP_WITH_ADJACENCY

definition primtypes :: "(string \<times> VkPrimitiveTopology) list" where
  "primtypes =
     [(''DI_PT_LINELIST'', VK_LINE_LIST), (''DI_PT_LINESTRIP'', VK_LINE_STRIP),
      (''DI_PT_TRILIST'', VK_TRIANGLE_LIST), (''DI_PT_TRIFAN'', VK_TRIANGLE_FAN),
      (''DI_PT_TRISTRIP'', VK_TRIANGLE_STRIP), (''DI_PT_POINTLIST'', VK_POINT_LIST),
      (''DI_PT_LINE_ADJ'', VK_LINE_LIST_WITH_ADJACENCY),
      (''DI_PT_LINESTRIP_ADJ'', VK_LINE_STRIP_WITH_ADJACENCY),
      (''DI_PT_TRI_ADJ'', VK_TRIANGLE_LIST_WITH_ADJACENCY),
      (''DI_PT_TRISTRIP_ADJ'', VK_TRIANGLE_STRIP_WITH_ADJACENCY)]"

definition GetTopology ::
    "bool \<Rightarrow> pm4_info \<Rightarrow> 'm retriever \<Rightarrow> u32 \<Rightarrow> u64 \<Rightarrow> Pm4Header \<Rightarrow> 'm \<Rightarrow>
     (VkPrimitiveTopology option \<times> 'm) option" where
  "GetTopology debug info retrieve submit_index va_addr header m =
     do {
       let addr = va_addr + (if type7_opcode header = isa_op (info_isa info) CP_DRAW_INDX then 8 else 4);
       (bs, m) \<leftarrow> read_struct debug retrieve submit_index addr 4 4 m;
       let gpu_type = ucast (le32 bs AND 0x3f);
       Some (map_option snd (find (\<lambda>p. info_enum info (fst p) = gpu_type) primtypes), m)
     }"

section \<open>Events have a type\<close>

lemma sync_event_type_None: "sync_event_type s = None \<longleftrightarrow> s = Sync_kNone"
  by (cases s) simp_all

lemma sync_event_type_known: "sync_event_type s \<noteq> Some Event_kUnknown"
  by (cases s) simp_all

lemma event_has_type:
  assumes "IsEvent debug info retrieve s a opcode tr m = Some (b, m')"
  shows "if b then \<exists>type. GetEventType debug info retrieve s a opcode tr m = Some (type, m') \<and> type \<noteq> Event_kUnknown
    else GetEventType debug info retrieve s a opcode tr m = (if debug then None else Some (Event_kUnknown, m'))"
proof (cases "IsDrawDispatchEventOpcode (info_isa info) opcode \<or> opcode = info_op info CP_BLIT")
  case True
  then show ?thesis
    using assms by (auto simp: IsEvent_def GetEventType_def IsDrawDispatchEventOpcode_def split: if_splits)
next
  case False
  then obtain sync where sync: "GetSyncType debug info retrieve s a opcode tr m = Some (sync, m')" "b = (sync \<noteq> Sync_kNone)"
    using assms by (auto simp: IsEvent_def split: bind_splits)
  have "GetEventType debug info retrieve s a opcode tr m =
      (case sync_event_type sync of
         Some type \<Rightarrow> Some (type, m')
       | None \<Rightarrow> do { DIVE_ASSERT debug False; Some (Event_kUnknown, m') })"
    using False sync(1) by (simp add: GetEventType_def IsDrawDispatchEventOpcode_def)
  then show ?thesis
    using sync(2) sync_event_type_None [of sync] sync_event_type_known [of sync]
    by (cases "sync_event_type sync") (auto simp: DIVE_ASSERT_def)
qed

text \<open>In a debug build the string of an event fails no assertion about its kind: the last branch is not reached.\<close>

lemma event_string_branch:
  assumes "IsEvent debug info retrieve s a (type7_opcode header) tr m = Some (True, m')"
  shows "(\<exists>op\<in>{CP_DRAW_INDX, CP_DRAW_INDX_OFFSET, CP_DRAW_INDIRECT, CP_DRAW_INDX_INDIRECT, CP_DRAW_INDIRECT_MULTI,
        CP_DRAW_AUTO, CP_EXEC_CS_INDIRECT, CP_EXEC_CS}. type7_opcode header = isa_op (info_isa info) op) \<or>
    (\<exists>op\<in>{CP_BLIT, CP_EVENT_WRITE7, CP_WAIT_MEM_WRITES, CP_WAIT_FOR_IDLE, CP_WAIT_FOR_ME}.
        type7_opcode header = info_op info op)"
  using assms
  by (auto simp: IsEvent_def GetSyncType_def IsDrawDispatchEventOpcode_def IsDrawEventOpcode_def
      IsDispatchEventOpcode_def split: if_splits bind_splits)

end
