(* ===== verification/Hier_Nodes.thy ===== *)
theory Hier_Nodes
  imports Hier_Topology Pm4_Event_Info Pm4_Dive_Loading
begin

text \<open>
  The nodes of a command hierarchy (\<^verbatim>\<open>src/dive_core/command_hierarchy.{h,cpp}\<close>, classes
  \<^verbatim>\<open>CommandHierarchy::Nodes\<close>, \<^verbatim>\<open>CommandHierarchy::AuxInfo\<close> and the queries of \<^verbatim>\<open>CommandHierarchy\<close>): three
  parallel vectors with the type, the description and 64 bits of further data of each node, the indices
  of the event nodes, and the nodes that the filters of the event list exclude.

  \<open>AuxInfo\<close> is the union of the code as the 64 bits that all its members share (little endian).

  Shown here: each kind of \<open>AuxInfo\<close> is read back by the queries for its type of node, \<open>AddNode\<close> keeps what
  the queries say of the older nodes, and \<open>GetEventIndex\<close> finds the place of a node among the event nodes
  by binary search.
\<close>

section \<open>Kinds of nodes\<close>

datatype NodeType =
    kRootNode | kEngineNode | kSubmitNode | kIbNode | kMarkerNode | kEventNode | kPostambleStateNode
  | kPacketNode | kRegNode | kFieldNode | kPresentNode | kRenderMarkerNode | kGfxrVulkanSubmitNode
  | kGfxrVulkanBeginCommandBufferNode | kGfxrVulkanEndCommandBufferNode | kGfxrVulkanCommandNode
  | kGfxrVulkanCommandArgNode | kGfxrVulkanDrawCommandNode | kGfxrVulkanBeginRenderPassCommandNode
  | kGfxrVulkanEndRenderPassCommandNode | kGfxrBeginDebugUtilsLabelCommandNode
  | kGfxrVulkanCopyBufferCommandNode | kGfxrVulkanClearAttachmentsCommandNode
  | kGfxrVulkanClearColorImageCommandNode | kGfxrVulkanClearDepthStencilImageCommandNode
  | kGfxrVulkanResolveImageCommandNode | kGfxrRootFrameNode

datatype MarkerType = kBeginEnd | kInsert | kRgpInternal | kDiveMetadata | kBarrier | kMarkerTypeCount

datatype FilterListType = kBinningPassOnly | kFirstTilePassOnly | kBinningAndFirstTilePass

datatype TopologyType = kSubmitTopology | kAllEventTopology

section \<open>AuxInfo\<close>

type_synonym AuxInfo = u64

definition kMaxNumIbsBits :: nat where "kMaxNumIbsBits = 6"

text \<open>The values of the enumerations, in the order of their declarations.\<close>

definition ib_types :: "IbType list" where
  "ib_types = [kNormal, kCall, kChain, kContextSwitchIb, kDrawState, kBinPrefix, kBinCommon, kFixedStrideDrawTable]"

definition marker_types :: "MarkerType list" where
  "marker_types = [kBeginEnd, kInsert, kRgpInternal, kDiveMetadata, kBarrier, kMarkerTypeCount]"

definition event_types :: "EventType list" where
  "event_types =
     [Event_kUnknown, Event_kDraw, Event_kDispatch, Event_kBlit, Event_kColorSysMemToGmemResolve,
      Event_kColorGmemToSysMemResolve, Event_kColorGmemToSysMemResolveAndClear, Event_kColorClearGmem,
      Event_kDepthSysMemToGmemResolve, Event_kDepthGmemToSysMemResolve,
      Event_kDepthGmemToSysMemResolveAndClear, Event_kDepthClearGmem, Event_kSysmemToGmemResolve,
      Event_kWaitMemWrites, Event_kWaitForIdle, Event_kWaitForMe, Event_kEventWriteStart, Event_kEventWriteEnd]"

fun index_of :: "'a \<Rightarrow> 'a list \<Rightarrow> nat" where
  "index_of x [] = 0"
| "index_of x (y # ys) = (if x = y then 0 else Suc (index_of x ys))"

lemma nth_index_of: "x \<in> set xs \<Longrightarrow> vec_at xs (index_of x xs) = Some x"
  by (induction xs) (auto simp: vec_at_def split: if_splits)

lemma index_of_less: "x \<in> set xs \<Longrightarrow> index_of x xs < length xs"
  by (induction xs) auto

definition enum_value :: "'a list \<Rightarrow> 'a \<Rightarrow> u64" where
  "enum_value xs x = word_of_nat (index_of x xs)"

definition enum_of :: "'a list \<Rightarrow> u64 \<Rightarrow> 'a option" where
  "enum_of xs w = vec_at xs (unat w)"

text \<open>The bits of a field, from bit \<open>lo\<close> on.\<close>

definition bits :: "nat \<Rightarrow> nat \<Rightarrow> AuxInfo \<Rightarrow> u64" where
  "bits lo width info = take_bit width (drop_bit lo info)"

definition SubmitNode :: "EngineType \<Rightarrow> u32 \<Rightarrow> AuxInfo" where
  "SubmitNode engine_type submit_index = ucast (engine_byte engine_type) OR push_bit 32 (ucast submit_index)"

definition IbNode :: "bool \<Rightarrow> u32 \<Rightarrow> IbType \<Rightarrow> u32 \<Rightarrow> bool \<Rightarrow> AuxInfo option" where
  "IbNode debug ib_index ib_type size_in_dwords fully_captured =
     do {
       DIVE_ASSERT debug (take_bit kMaxNumIbsBits ib_index = ib_index);
       Some (enum_value ib_types ib_type OR push_bit 8 (ucast (take_bit kMaxNumIbsBits ib_index)) OR
         push_bit 14 (if fully_captured then 1 else 0) OR push_bit 32 (ucast size_in_dwords))
     }"

definition PacketNode :: "bool \<Rightarrow> u64 \<Rightarrow> byte \<Rightarrow> byte \<Rightarrow> AuxInfo option" where
  "PacketNode debug addr opcode level =
     do {
       DIVE_ASSERT debug (addr = take_bit 48 addr);
       Some (take_bit 48 addr OR push_bit 48 (ucast opcode) OR push_bit 56 (take_bit 3 (ucast level)))
     }"

definition RegFieldNode :: "bool \<Rightarrow> AuxInfo" where
  "RegFieldNode is_ce_packet = (if is_ce_packet then 1 else 0)"

definition EventNode :: "u32 \<Rightarrow> EventType \<Rightarrow> bool \<Rightarrow> AuxInfo" where
  "EventNode event_id type ignore_during_correlation =
     ucast event_id OR push_bit 32 (enum_value event_types type) OR
     push_bit 40 (if ignore_during_correlation then 1 else 0)"

definition MarkerNode :: "MarkerType \<Rightarrow> u32 \<Rightarrow> AuxInfo" where
  "MarkerNode type marker_id = enum_value marker_types type OR push_bit 32 (ucast marker_id)"

section \<open>The nodes and their queries\<close>

record Nodes =
  m_node_type :: "NodeType list"
  m_description :: "string list"
  m_aux_info :: "AuxInfo list"
  m_event_node_indices :: "nat list"

definition Nodes_new :: Nodes where
  "Nodes_new = \<lparr>m_node_type = [], m_description = [], m_aux_info = [], m_event_node_indices = []\<rparr>"

text \<open>Memory ends long before \<open>UINT64_MAX\<close> nodes, so this index always stands for none.\<close>

definition more_nodes :: "Nodes \<Rightarrow> unit option" where
  "more_nodes ns = (if length (m_node_type ns) < UINT64_MAX then Some () else None)"

definition Nodes_AddNode :: "bool \<Rightarrow> NodeType \<Rightarrow> string \<Rightarrow> AuxInfo \<Rightarrow> Nodes \<Rightarrow> (nat \<times> Nodes) option" where
  "Nodes_AddNode debug type desc aux_info ns =
     do {
       DIVE_ASSERT debug (length (m_node_type ns) = length (m_description ns));
       DIVE_ASSERT debug (length (m_node_type ns) = length (m_aux_info ns));
       more_nodes ns;
       Some (length (m_node_type ns),
         ns\<lparr>m_node_type := m_node_type ns @ [type], m_description := m_description ns @ [desc],
            m_aux_info := m_aux_info ns @ [aux_info]\<rparr>)
     }"

definition AddGfxrNode :: "bool \<Rightarrow> NodeType \<Rightarrow> string \<Rightarrow> Nodes \<Rightarrow> (nat \<times> Nodes) option" where
  "AddGfxrNode debug type desc ns =
     do {
       DIVE_ASSERT debug (length (m_node_type ns) = length (m_description ns));
       more_nodes ns;
       Some (length (m_node_type ns),
         ns\<lparr>m_node_type := m_node_type ns @ [type], m_description := m_description ns @ [desc],
            m_aux_info := m_aux_info ns @ [0]\<rparr>)
     }"

definition GetNodeType :: "nat \<Rightarrow> Nodes \<Rightarrow> NodeType option" where
  "GetNodeType node_index ns = vec_at (m_node_type ns) node_index"

definition GetNodeDesc :: "nat \<Rightarrow> Nodes \<Rightarrow> string option" where
  "GetNodeDesc node_index ns = vec_at (m_description ns) node_index"

definition SetNodeDesc :: "nat \<Rightarrow> string \<Rightarrow> Nodes \<Rightarrow> Nodes option" where
  "SetNodeDesc node_index desc ns =
     map_option (\<lambda>ds. ns\<lparr>m_description := ds\<rparr>) (vec_set node_index desc (m_description ns))"

text \<open>The data of a node of the type \<open>types\<close> allows; a debug build asserts the type.\<close>

definition aux_of :: "bool \<Rightarrow> NodeType set \<Rightarrow> nat \<Rightarrow> Nodes \<Rightarrow> AuxInfo option" where
  "aux_of debug types node_index ns =
     do {
       info \<leftarrow> vec_at (m_aux_info ns) node_index;
       type \<leftarrow> (if debug then vec_at (m_node_type ns) node_index else Some kRootNode);
       DIVE_ASSERT debug (type \<in> types);
       Some info
     }"

definition GetSubmitNodeEngineType :: "bool \<Rightarrow> nat \<Rightarrow> Nodes \<Rightarrow> EngineType option" where
  "GetSubmitNodeEngineType debug node_index ns =
     map_option (\<lambda>info. engine_type_of (ucast (bits 0 8 info))) (aux_of debug {kSubmitNode} node_index ns)"

definition GetSubmitNodeIndex :: "bool \<Rightarrow> nat \<Rightarrow> Nodes \<Rightarrow> u32 option" where
  "GetSubmitNodeIndex debug node_index ns =
     map_option (\<lambda>info. ucast (bits 32 32 info)) (aux_of debug {kSubmitNode} node_index ns)"

definition GetIbNodeIndex :: "bool \<Rightarrow> nat \<Rightarrow> Nodes \<Rightarrow> byte option" where
  "GetIbNodeIndex debug node_index ns =
     map_option (\<lambda>info. ucast (bits 8 kMaxNumIbsBits info)) (aux_of debug {kIbNode} node_index ns)"

definition GetIbNodeType :: "bool \<Rightarrow> nat \<Rightarrow> Nodes \<Rightarrow> IbType option" where
  "GetIbNodeType debug node_index ns =
     Option.bind (aux_of debug {kIbNode} node_index ns) (\<lambda>info. enum_of ib_types (bits 0 8 info))"

definition GetIbNodeSizeInDwords :: "bool \<Rightarrow> nat \<Rightarrow> Nodes \<Rightarrow> u32 option" where
  "GetIbNodeSizeInDwords debug node_index ns =
     map_option (\<lambda>info. ucast (bits 32 32 info)) (aux_of debug {kIbNode} node_index ns)"

definition GetIbNodeIsFullyCaptured :: "bool \<Rightarrow> nat \<Rightarrow> Nodes \<Rightarrow> bool option" where
  "GetIbNodeIsFullyCaptured debug node_index ns =
     map_option (\<lambda>info. bits 14 1 info \<noteq> 0) (aux_of debug {kIbNode} node_index ns)"

definition GetMarkerNodeType :: "bool \<Rightarrow> nat \<Rightarrow> Nodes \<Rightarrow> MarkerType option" where
  "GetMarkerNodeType debug node_index ns =
     Option.bind (aux_of debug {kMarkerNode} node_index ns) (\<lambda>info. enum_of marker_types (bits 0 32 info))"

definition GetMarkerNodeId :: "bool \<Rightarrow> nat \<Rightarrow> Nodes \<Rightarrow> u32 option" where
  "GetMarkerNodeId debug node_index ns =
     map_option (\<lambda>info. ucast (bits 32 32 info)) (aux_of debug {kMarkerNode} node_index ns)"

definition GetEventNodeType :: "bool \<Rightarrow> nat \<Rightarrow> Nodes \<Rightarrow> EventType option" where
  "GetEventNodeType debug node_index ns =
     Option.bind (aux_of debug {kEventNode} node_index ns) (\<lambda>info. enum_of event_types (bits 32 8 info))"

definition GetEventNodeId :: "bool \<Rightarrow> nat \<Rightarrow> Nodes \<Rightarrow> u32 option" where
  "GetEventNodeId debug node_index ns =
     map_option (\<lambda>info. ucast (bits 0 32 info)) (aux_of debug {kEventNode} node_index ns)"

definition GetPacketNodeAddr :: "bool \<Rightarrow> nat \<Rightarrow> Nodes \<Rightarrow> u64 option" where
  "GetPacketNodeAddr debug node_index ns =
     map_option (bits 0 48) (aux_of debug {kPacketNode} node_index ns)"

definition GetPacketNodeOpcode :: "bool \<Rightarrow> nat \<Rightarrow> Nodes \<Rightarrow> byte option" where
  "GetPacketNodeOpcode debug node_index ns =
     map_option (\<lambda>info. ucast (bits 48 8 info)) (aux_of debug {kPacketNode} node_index ns)"

definition GetPacketNodeIbLevel :: "bool \<Rightarrow> nat \<Rightarrow> Nodes \<Rightarrow> byte option" where
  "GetPacketNodeIbLevel debug node_index ns =
     map_option (\<lambda>info. ucast (bits 56 3 info)) (aux_of debug {kPacketNode} node_index ns)"

definition GetRegFieldNodeIsCe :: "bool \<Rightarrow> nat \<Rightarrow> Nodes \<Rightarrow> bool option" where
  "GetRegFieldNodeIsCe debug node_index ns =
     map_option (\<lambda>info. bits 0 8 info \<noteq> 0) (aux_of debug {kRegNode, kFieldNode} node_index ns)"

text \<open>This query does not look at the type: other nodes answer from unrelated bits of their data.\<close>

definition IsEventNodeIgnoredDuringCorrelation :: "nat \<Rightarrow> Nodes \<Rightarrow> bool option" where
  "IsEventNodeIgnoredDuringCorrelation node_index ns =
     map_option (\<lambda>info. bits 40 8 info \<noteq> 0) (vec_at (m_aux_info ns) node_index)"

text \<open>\<^verbatim>\<open>std::lower_bound\<close> on \<open>xs\<close>: halving the range that starts at \<open>first\<close>.\<close>

function lower_bound :: "nat list \<Rightarrow> nat \<Rightarrow> nat \<Rightarrow> nat \<Rightarrow> nat" where
  "lower_bound xs x first len =
     (if len = 0 then first
      else
        let half = len div 2 in
        if xs ! (first + half) < x then lower_bound xs x (first + half + 1) (len - (half + 1))
        else lower_bound xs x first half)"
  by pat_completeness auto
termination
  by (relation "measure (\<lambda>(xs, x, first, len). len)") auto

declare lower_bound.simps [simp del]

definition GetEventIndex :: "nat \<Rightarrow> Nodes \<Rightarrow> nat" where
  "GetEventIndex node_index ns =
     (let indices = m_event_node_indices ns;
          it = lower_bound indices node_index 0 (length indices) in
      if it = length indices \<or> indices ! it \<noteq> node_index then 0 else it + 1)"

section \<open>Reading back\<close>

lemma bits_or [simp]: "bits lo w (a OR b) = bits lo w a OR bits lo w b"
  by (simp add: bits_def)

lemma bits_push_same: "lo + w \<le> 64 \<Longrightarrow> bits lo w (push_bit lo x) = take_bit w x"
  by (rule bit_word_eqI) (auto simp: bits_def bit_simps)

lemma bits_push_above: "lo + w \<le> n \<Longrightarrow> bits lo w (push_bit n x) = 0"
  by (rule bit_word_eqI) (auto simp: bits_def bit_simps)

lemma bits_push_below: "take_bit k x = x \<Longrightarrow> n + k \<le> lo \<Longrightarrow> bits lo w (push_bit n x) = 0"
proof -
  assume k: "take_bit k x = x" "n + k \<le> lo"
  have "bits lo w (push_bit n (take_bit k x)) = 0"
    using k(2) by (intro bit_word_eqI) (auto simp: bits_def bit_simps)
  then show ?thesis
    by (simp only: k(1))
qed

lemma bits_below: "take_bit k x = x \<Longrightarrow> k \<le> lo \<Longrightarrow> bits lo w x = 0"
  using bits_push_below [of k x 0 lo w] by simp

lemma bits_low: "take_bit w x = x \<Longrightarrow> bits 0 w x = x"
  by (simp add: bits_def)

lemma take_bit_ucast_32 [simp]: "32 \<le> k \<Longrightarrow> take_bit k (ucast (x :: u32) :: u64) = ucast x"
  by (rule bit_word_eqI) (auto simp: bit_simps dest: bit_imp_le_length)

lemma take_bit_ucast_8 [simp]: "8 \<le> k \<Longrightarrow> take_bit k (ucast (x :: byte) :: u64) = ucast x"
  by (rule bit_word_eqI) (auto simp: bit_simps dest: bit_imp_le_length)

lemma ucast_ucast_64 [simp]:
  "ucast (ucast (x :: u32) :: u64) = x" "ucast (ucast (b :: byte) :: u64) = b"
  by (rule bit_word_eqI, simp add: bit_simps)+

lemma take_bit_flag [simp]: "0 < k \<Longrightarrow> take_bit k (if b then 1 else 0 :: u64) = (if b then 1 else 0)"
  by simp

lemma take_bit_small: "unat (x :: u64) < 2 ^ k \<Longrightarrow> take_bit k x = x"
  by (metis take_bit_nat_eq_self unsigned_take_bit_eq unat_eqD)

lemma enum_value_bits:
  assumes "x \<in> set xs" "length xs \<le> 2 ^ k" "k < 64"
  shows "take_bit k (enum_value xs x) = enum_value xs x" "enum_of xs (enum_value xs x) = Some x"
proof -
  have small: "index_of x xs < 2 ^ k"
    using index_of_less [OF assms(1)] assms(2) by simp
  moreover have "(2 :: nat) ^ k < 2 ^ 64"
    by (rule power_strict_increasing [OF assms(3)]) simp
  ultimately have "unat (enum_value xs x) = index_of x xs"
    by (simp add: enum_value_def unat_of_nat take_bit_nat_eq_self)
  then show "take_bit k (enum_value xs x) = enum_value xs x" "enum_of xs (enum_value xs x) = Some x"
    using small nth_index_of [OF assms(1)] by (simp_all add: take_bit_small enum_of_def)
qed

lemma all_ib_types: "t \<in> set ib_types"
  by (cases t) (simp_all add: ib_types_def)

lemma all_marker_types: "t \<in> set marker_types"
  by (cases t) (simp_all add: marker_types_def)

lemma all_event_types: "t \<in> set event_types"
  by (cases t) (simp_all add: event_types_def)

lemma ib_type_bits: "take_bit 8 (enum_value ib_types t) = enum_value ib_types t"
    "enum_of ib_types (enum_value ib_types t) = Some t"
  by (rule enum_value_bits [OF all_ib_types, where k = 8]; simp add: ib_types_def)+

lemma marker_type_bits: "take_bit 32 (enum_value marker_types t) = enum_value marker_types t"
    "enum_of marker_types (enum_value marker_types t) = Some t"
  by (rule enum_value_bits [OF all_marker_types, where k = 32]; simp add: marker_types_def)+

lemma event_type_bits: "take_bit 8 (enum_value event_types t) = enum_value event_types t"
    "enum_of event_types (enum_value event_types t) = Some t"
  by (rule enum_value_bits [OF all_event_types, where k = 8]; simp add: event_types_def)+

lemma engine_type_of_byte [simp]: "engine_type_of (engine_byte t) = t"
  by (cases t) (simp_all add: engine_type_of_def)

lemma SubmitNode_fields:
  "engine_type_of (ucast (bits 0 8 (SubmitNode e i))) = e" "ucast (bits 32 32 (SubmitNode e i)) = i"
  by (simp_all add: SubmitNode_def bits_low bits_push_above bits_push_same bits_below [of 8])

lemma IbNode_fields:
  assumes "IbNode debug i t n b = Some info"
  shows "enum_of ib_types (bits 0 8 info) = Some t" "ucast (bits 8 kMaxNumIbsBits info) = (ucast (take_bit 6 i) :: byte)"
    "bits 14 1 info \<noteq> 0 \<longleftrightarrow> b" "ucast (bits 32 32 info) = n"
proof -
  have info: "info = enum_value ib_types t OR push_bit 8 (ucast (take_bit 6 i)) OR
      push_bit 14 (if b then 1 else 0) OR push_bit 32 (ucast n)"
    using assms by (auto simp: IbNode_def kMaxNumIbsBits_def split: bind_splits)
  have six: "take_bit 6 (ucast (take_bit 6 i) :: u64) = ucast (take_bit 6 i)"
    by (rule bit_word_eqI) (auto simp: bit_simps)
  note below = bits_below [OF ib_type_bits(1)] bits_push_below [OF six] bits_push_below [of 1]
  show "enum_of ib_types (bits 0 8 info) = Some t"
    by (simp add: info bits_low ib_type_bits bits_push_above)
  have "bits 8 6 info = ucast (take_bit 6 i)"
    by (simp add: info below bits_push_above bits_push_same six)
  moreover have "ucast (ucast (take_bit 6 i) :: u64) = (ucast (take_bit 6 i) :: byte)"
    by (rule bit_word_eqI) (auto simp: bit_simps)
  ultimately show "ucast (bits 8 kMaxNumIbsBits info) = (ucast (take_bit 6 i) :: byte)"
    by (simp add: kMaxNumIbsBits_def)
  show "bits 14 1 info \<noteq> 0 \<longleftrightarrow> b"
    by (simp add: info below bits_push_above bits_push_same)
  show "ucast (bits 32 32 info) = n"
    by (simp add: info below bits_push_same)
qed

lemma PacketNode_fields:
  assumes "PacketNode debug a opc l = Some info"
  shows "bits 0 48 info = take_bit 48 a" "ucast (bits 48 8 info) = opc"
    "ucast (bits 56 3 info) = take_bit 3 l"
proof -
  have info: "info = take_bit 48 a OR push_bit 48 (ucast opc) OR push_bit 56 (take_bit 3 (ucast l))"
    using assms by (auto simp: PacketNode_def split: bind_splits)
  have "take_bit 48 (take_bit 48 a) = take_bit 48 a" "take_bit 8 (ucast opc :: u64) = ucast opc"
    by simp_all
  note below = bits_below [OF this(1)] bits_push_below [OF this(2)]
  show "bits 0 48 info = take_bit 48 a"
    by (simp add: info bits_low bits_push_above)
  show "ucast (bits 48 8 info) = opc"
    by (simp add: info below bits_push_above bits_push_same)
  have "ucast (take_bit 3 (ucast l :: u64)) = take_bit 3 l"
    by (rule bit_word_eqI) (auto simp: bit_simps)
  then show "ucast (bits 56 3 info) = take_bit 3 l"
    by (simp add: info below bits_push_same)
qed

lemma EventNode_fields:
  "ucast (bits 0 32 (EventNode i t b)) = i" "enum_of event_types (bits 32 8 (EventNode i t b)) = Some t"
  "bits 40 8 (EventNode i t b) \<noteq> 0 \<longleftrightarrow> b"
  by (simp_all add: EventNode_def bits_low bits_push_above bits_push_same event_type_bits
      bits_below [of 32] bits_push_below [OF event_type_bits(1)])

lemma MarkerNode_fields:
  "enum_of marker_types (bits 0 32 (MarkerNode t i)) = Some t" "ucast (bits 32 32 (MarkerNode t i)) = i"
  by (simp_all add: MarkerNode_def bits_low bits_push_above bits_push_same marker_type_bits
      bits_below [OF marker_type_bits(1)])

lemma RegFieldNode_fields: "bits 0 8 (RegFieldNode b) \<noteq> 0 \<longleftrightarrow> b"
  by (simp add: RegFieldNode_def bits_def)

section \<open>Adding nodes\<close>

definition nodes_ok :: "Nodes \<Rightarrow> bool" where
  "nodes_ok ns \<longleftrightarrow>
     length (m_description ns) = length (m_node_type ns) \<and> length (m_aux_info ns) = length (m_node_type ns)"

lemma Nodes_AddNode_result:
  assumes "Nodes_AddNode debug type desc aux ns = Some (i, ns')"
  shows "i = length (m_node_type ns)" "i < UINT64_MAX" "m_node_type ns' = m_node_type ns @ [type]"
    "m_description ns' = m_description ns @ [desc]" "m_aux_info ns' = m_aux_info ns @ [aux]"
    "m_event_node_indices ns' = m_event_node_indices ns"
  using assms by (auto simp: Nodes_AddNode_def more_nodes_def split: bind_splits if_splits)

lemma Nodes_AddNode_defined:
  assumes "nodes_ok ns" "length (m_node_type ns) < UINT64_MAX"
  shows "\<exists>ns'. Nodes_AddNode debug type desc aux ns = Some (length (m_node_type ns), ns') \<and> nodes_ok ns'"
  using assms by (simp add: Nodes_AddNode_def more_nodes_def nodes_ok_def)

lemma vec_at_append: "vec_at (xs @ ys) i = (if i < length xs then vec_at xs i else vec_at ys (i - length xs))"
  by (auto simp: vec_at_def nth_append)

text \<open>Older nodes keep their data, and the new node has the data given.\<close>

lemma aux_of_AddNode:
  assumes "nodes_ok ns" "Nodes_AddNode debug type desc aux ns = Some (n, ns')"
  shows "i < n \<Longrightarrow> aux_of d types i ns' = aux_of d types i ns"
    "type \<in> types \<Longrightarrow> aux_of d types n ns' = Some aux"
  using assms(1) Nodes_AddNode_result [OF assms(2)]
  by (simp_all add: aux_of_def vec_at_append nodes_ok_def) (simp_all add: vec_at_def)

section \<open>The index of an event\<close>

text \<open>Where the search stops: what is before is smaller, what is from there on is not.\<close>

definition splits_at :: "nat list \<Rightarrow> nat \<Rightarrow> nat \<Rightarrow> nat \<Rightarrow> bool" where
  "splits_at xs x lo hi \<longleftrightarrow>
     lo \<le> hi \<and> hi \<le> length xs \<and> (\<forall>i<lo. xs ! i < x) \<and> (\<forall>i<length xs. hi \<le> i \<longrightarrow> x \<le> xs ! i)"

lemma lower_bound_correct:
  "sorted xs \<Longrightarrow> splits_at xs x first (first + len) \<Longrightarrow>
   splits_at xs x (lower_bound xs x first len) (lower_bound xs x first len)"
proof (induction xs x first len rule: lower_bound.induct)
  case (1 xs x first len)
  let ?m = "first + len div 2"
  show ?case
  proof (cases "len = 0")
    case True
    then show ?thesis
      using 1 by (simp add: lower_bound.simps [of xs x first 0])
  next
    case False
    then have half: "len div 2 < len"
      by simp
    then have m: "?m < length xs"
      using "1.prems"(2) by (simp add: splits_at_def)
    show ?thesis
    proof (cases "xs ! ?m < x")
      case True
      have "\<forall>i<?m + 1. xs ! i < x"
        by (intro allI impI order_le_less_trans [OF sorted_nth_mono [OF "1.prems"(1) _ m] True]) simp
      moreover have "?m + 1 + (len - (len div 2 + 1)) = first + len"
        using half by simp
      ultimately have "splits_at xs x (?m + 1) (?m + 1 + (len - (len div 2 + 1)))"
        using "1.prems"(2) half by (simp add: splits_at_def)
      then show ?thesis
        using "1.IH"(1) [OF False refl True "1.prems"(1)] False True
        by (simp add: lower_bound.simps [of xs x first len] Let_def)
    next
      case False
      have "\<forall>i<length xs. ?m \<le> i \<longrightarrow> x \<le> xs ! i"
        using sorted_nth_mono [OF "1.prems"(1)] False by (meson le_trans not_le_imp_less order_less_imp_le)
      then have "splits_at xs x first ?m"
        using "1.prems"(2) half by (simp add: splits_at_def)
      then show ?thesis
        using "1.IH"(2) [OF \<open>len \<noteq> 0\<close> refl False "1.prems"(1)] False \<open>len \<noteq> 0\<close>
        by (simp add: lower_bound.simps [of xs x first len] Let_def)
    qed
  qed
qed

text \<open>The index is one more than the place of the node among the event nodes, and 0 for all others.\<close>

lemma GetEventIndex_nth:
  assumes "sorted_wrt (<) (m_event_node_indices ns)" "k < length (m_event_node_indices ns)"
  shows "GetEventIndex (m_event_node_indices ns ! k) ns = k + 1"
proof -
  let ?xs = "m_event_node_indices ns"
  let ?x = "?xs ! k"
  let ?it = "lower_bound ?xs ?x 0 (length ?xs)"
  have strict: "?xs ! i < ?xs ! j" if "i < j" "j < length ?xs" for i j
    using sorted_wrt_nth_less [OF assms(1) that] .
  have "splits_at ?xs ?x ?it ?it"
    using lower_bound_correct [OF strict_sorted_imp_sorted [OF assms(1)], of ?x 0 "length ?xs"] by (simp add: splits_at_def)
  moreover have "?it = k"
  proof (rule antisym)
    show "?it \<le> k"
      using calculation by (auto simp: splits_at_def not_le [symmetric])
    show "k \<le> ?it"
    proof (rule ccontr)
      assume "\<not> k \<le> ?it"
      then have "?it < k" "?it < length ?xs"
        using assms(2) by simp_all
      then have "?x \<le> ?xs ! ?it" "?xs ! ?it < ?x"
        using calculation strict [OF _ assms(2), of ?it] by (auto simp: splits_at_def)
      then show False
        by simp
    qed
  qed
  ultimately show ?thesis
    using assms(2) by (simp add: GetEventIndex_def)
qed

lemma GetEventIndex_none:
  assumes "sorted_wrt (<) (m_event_node_indices ns)" "x \<notin> set (m_event_node_indices ns)"
  shows "GetEventIndex x ns = 0"
proof -
  let ?xs = "m_event_node_indices ns"
  let ?it = "lower_bound ?xs x 0 (length ?xs)"
  have "splits_at ?xs x ?it ?it"
    using lower_bound_correct [OF strict_sorted_imp_sorted [OF assms(1)], of x 0 "length ?xs"] by (simp add: splits_at_def)
  then have "?it = length ?xs \<or> ?xs ! ?it \<in> set ?xs"
    by (metis le_neq_implies_less nth_mem splits_at_def)
  then show ?thesis
    using assms(2) by (auto simp: GetEventIndex_def Let_def)
qed

end
