(* ===== verification/Hier_Creator.thy ===== *)
theory Hier_Creator
  imports Complex_Main Hier_Nodes Pm4_Callbacks
begin

text \<open>
  Building a command hierarchy (\<^verbatim>\<open>src/dive_core/command_hierarchy.cpp\<close>, class \<^verbatim>\<open>CommandHierarchyCreator\<close>):
  callbacks of the emulator that add a node per submit, IB, packet, register, field, event, pass and
  present, and collect the children of every node for two topologies.

  The state has the members of the class and, as \<open>h_nodes\<close>, \<open>h_exclude\<close> and \<open>h_topology\<close>, those of the
  \<^verbatim>\<open>CommandHierarchy\<close> it builds. Vectors are lists; node indices are natural numbers, with \<open>UINT64_MAX\<close> for
  none. \<open>None\<close> is undefined behaviour (such as the back of an empty vector, an index beyond the end, or
  printing a null string) or a failed assertion of a debug build. Members that nothing reads are left out:
  \<^verbatim>\<open>m_renderpass_stack\<close> and \<^verbatim>\<open>m_last_user_push_parent_node\<close>, with the functions that nothing calls.

  How streams print floating-point numbers, the values of the Vulkan enumerators and everything the build
  generates are parameters (\<open>hier_env\<close>).
\<close>

section \<open>State\<close>

record hier_env =
  he_debug :: bool
  he_info :: pm4_info
  he_float :: "u32 \<Rightarrow> string"
  he_float_fixed :: "u32 \<Rightarrow> string"
  he_double :: "real \<Rightarrow> string"
  he_format_string :: "u32 \<Rightarrow> string option"
  he_color_space_string :: "u32 \<Rightarrow> string option"
  he_presents :: "PresentInfo list"

record CommandHierarchyCreator =
  h_nodes :: Nodes
  h_exclude :: "FilterListType \<Rightarrow> nat set"
  h_topology :: "TopologyType \<Rightarrow> SharedNodeTopology"
  h_base :: EmulateCallbacksBase
  m_cmd_begin_packet_node_indices :: "nat list"
  m_cmd_begin_event_node_indices :: "nat list"
  m_render_marker_index :: nat
  m_node_parent_info :: "TopologyType \<Rightarrow> nat \<Rightarrow> nat option"
  h_ib_stack :: "nat list"
  m_group_info :: "(nat \<times> u64) list"
  m_group_info_size :: nat
  m_start_bin_node_index :: nat
  m_draw_table_node_index :: nat
  m_num_events :: u32
  m_new_event_start :: bool
  m_new_ib_start :: bool
  m_tracking_first_tile_pass_start :: bool
  m_start_node_stack :: "TopologyType \<Rightarrow> nat list"
  m_last_added_node_index :: nat
  m_cur_submit_node_index :: nat
  m_cur_ib_packet_node_index :: nat
  m_cur_ib_level :: nat
  m_shared_node_ib_parent_stack :: "nat list"
  m_flatten_chain_nodes :: bool
  m_node_start_shared_children :: "TopologyType \<Rightarrow> nat cell list"
  m_node_end_shared_children :: "TopologyType \<Rightarrow> nat cell list"
  m_node_root_node_indices :: "TopologyType \<Rightarrow> nat cell list"
  h_children :: "TopologyType \<Rightarrow> nat list list"
  h_shared_children :: "TopologyType \<Rightarrow> nat list list"

definition CommandHierarchyCreator_new :: CommandHierarchyCreator where
  "CommandHierarchyCreator_new =
     \<lparr>h_nodes = Nodes_new, h_exclude = (\<lambda>_. {}), h_topology = (\<lambda>_. SharedNodeTopology_new),
      h_base = EmulateCallbacksBase_new,
      m_cmd_begin_packet_node_indices = [], m_cmd_begin_event_node_indices = [],
      m_render_marker_index = UINT64_MAX, m_node_parent_info = (\<lambda>_ _. None), h_ib_stack = [],
      m_group_info = replicate kMaxPendingIbs (0, 0), m_group_info_size = 0,
      m_start_bin_node_index = UINT64_MAX, m_draw_table_node_index = UINT64_MAX, m_num_events = 0,
      m_new_event_start = True, m_new_ib_start = True, m_tracking_first_tile_pass_start = False,
      m_start_node_stack = (\<lambda>_. []), m_last_added_node_index = 0, m_cur_submit_node_index = 0,
      m_cur_ib_packet_node_index = 0, m_cur_ib_level = 0,
      m_shared_node_ib_parent_stack = replicate kTotalIbLevels 0, m_flatten_chain_nodes = False,
      m_node_start_shared_children = (\<lambda>_. []), m_node_end_shared_children = (\<lambda>_. []),
      m_node_root_node_indices = (\<lambda>_. []), h_children = (\<lambda>_. []), h_shared_children = (\<lambda>_. [])\<rparr>"

type_synonym creator = CommandHierarchyCreator

section \<open>Nodes and children\<close>

text \<open>\<^verbatim>\<open>resize\<close> constructs the new lists of children but leaves the new indices undetermined.\<close>

definition add_topology_node :: "bool \<Rightarrow> nat \<Rightarrow> TopologyType \<Rightarrow> creator \<Rightarrow> creator option" where
  "add_topology_node debug node_index t cr =
     do {
       DIVE_ASSERT debug (length (h_children cr t) = node_index);
       DIVE_ASSERT debug (length (h_shared_children cr t) = node_index);
       let cr = cr\<lparr>h_children := (h_children cr)(t := h_children cr t @ [[]]),
                   h_shared_children := (h_shared_children cr)(t := h_shared_children cr t @ [[]]),
                   m_node_start_shared_children :=
                     (m_node_start_shared_children cr)(t := m_node_start_shared_children cr t @ [Raw]),
                   m_node_end_shared_children :=
                     (m_node_end_shared_children cr)(t := m_node_end_shared_children cr t @ [Raw]),
                   m_node_root_node_indices :=
                     (m_node_root_node_indices cr)(t := m_node_root_node_indices cr t @ [Raw])\<rparr>;
       DIVE_ASSERT debug
         (length (m_node_start_shared_children cr t) = length (m_node_end_shared_children cr t));
       DIVE_ASSERT debug
         (length (m_node_start_shared_children cr t) = length (m_node_root_node_indices cr t));
       Some cr
     }"

definition AddNode :: "bool \<Rightarrow> NodeType \<Rightarrow> string \<Rightarrow> AuxInfo \<Rightarrow> creator \<Rightarrow> (nat \<times> creator) option" where
  "AddNode debug type desc aux_info cr =
     do {
       (node_index, ns) \<leftarrow> Nodes_AddNode debug type desc aux_info (h_nodes cr);
       cr \<leftarrow> add_topology_node debug node_index kSubmitTopology (cr\<lparr>h_nodes := ns\<rparr>);
       cr \<leftarrow> add_topology_node debug node_index kAllEventTopology cr;
       Some (node_index, cr)
     }"

definition AppendEventNodeIndex :: "nat \<Rightarrow> creator \<Rightarrow> creator" where
  "AppendEventNodeIndex node_index cr =
     cr\<lparr>h_nodes := (h_nodes cr)\<lparr>m_event_node_indices := m_event_node_indices (h_nodes cr) @ [node_index]\<rparr>\<rparr>"

definition AddChild :: "TopologyType \<Rightarrow> nat \<Rightarrow> nat \<Rightarrow> creator \<Rightarrow> creator option" where
  "AddChild t node_index child_node_index cr =
     do {
       children \<leftarrow> vec_at (h_children cr t) node_index;
       cs \<leftarrow> vec_set node_index (children @ [child_node_index]) (h_children cr t);
       Some (cr\<lparr>h_children := (h_children cr)(t := cs)\<rparr>)
     }"

definition AddSharedChild :: "TopologyType \<Rightarrow> nat \<Rightarrow> nat \<Rightarrow> creator \<Rightarrow> creator option" where
  "AddSharedChild t node_index child_node_index cr =
     do {
       children \<leftarrow> vec_at (h_shared_children cr t) node_index;
       cs \<leftarrow> vec_set node_index (children @ [child_node_index]) (h_shared_children cr t);
       Some (cr\<lparr>h_shared_children := (h_shared_children cr)(t := cs)\<rparr>)
     }"

definition SetStartSharedChildrenNodeIndex :: "TopologyType \<Rightarrow> nat \<Rightarrow> nat \<Rightarrow> creator \<Rightarrow> creator option" where
  "SetStartSharedChildrenNodeIndex t node_index shared_child_node_index cr =
     map_option (\<lambda>xs. cr\<lparr>m_node_start_shared_children := (m_node_start_shared_children cr)(t := xs)\<rparr>)
       (vec_set node_index (Live shared_child_node_index) (m_node_start_shared_children cr t))"

definition SetEndSharedChildrenNodeIndex :: "TopologyType \<Rightarrow> nat \<Rightarrow> nat \<Rightarrow> creator \<Rightarrow> creator option" where
  "SetEndSharedChildrenNodeIndex t node_index shared_child_node_index cr =
     map_option (\<lambda>xs. cr\<lparr>m_node_end_shared_children := (m_node_end_shared_children cr)(t := xs)\<rparr>)
       (vec_set node_index (Live shared_child_node_index) (m_node_end_shared_children cr t))"

definition SetSharedChildRootNodeIndex :: "TopologyType \<Rightarrow> nat \<Rightarrow> nat \<Rightarrow> creator \<Rightarrow> creator option" where
  "SetSharedChildRootNodeIndex t node_index root_node_index cr =
     map_option (\<lambda>xs. cr\<lparr>m_node_root_node_indices := (m_node_root_node_indices cr)(t := xs)\<rparr>)
       (vec_set node_index (Live root_node_index) (m_node_root_node_indices cr t))"

definition creator_GetChildNodeIndex :: "TopologyType \<Rightarrow> nat \<Rightarrow> nat \<Rightarrow> creator \<Rightarrow> nat option" where
  "creator_GetChildNodeIndex t node_index child_index cr =
     Option.bind (vec_at (h_children cr t) node_index) (\<lambda>children. vec_at children child_index)"

definition GetChildCount :: "TopologyType \<Rightarrow> nat \<Rightarrow> creator \<Rightarrow> nat option" where
  "GetChildCount t node_index cr = map_option length (vec_at (h_children cr t) node_index)"

text \<open>A child in both topologies, which is how nodes of registers and fields are added.\<close>

definition add_to_both :: "nat \<Rightarrow> nat \<Rightarrow> creator \<Rightarrow> creator option" where
  "add_to_both node_index child_node_index cr =
     do {
       cr \<leftarrow> AddChild kSubmitTopology node_index child_node_index cr;
       AddChild kAllEventTopology node_index child_node_index cr
     }"

definition add_field_node :: "bool \<Rightarrow> nat \<Rightarrow> string \<Rightarrow> creator \<Rightarrow> (nat \<times> creator) option" where
  "add_field_node debug parent desc cr =
     do {
       (node_index, cr) \<leftarrow> AddNode debug kFieldNode desc (RegFieldNode False) cr;
       cr \<leftarrow> add_to_both parent node_index cr;
       Some (node_index, cr)
     }"

section \<open>Values\<close>

datatype ValueType =
  kBoolean | kUint | kInt | kFloat | kFixed | kUFixed | kAddress | kWaddress | kHex | kRegID | kOther

definition value_types :: "ValueType list" where
  "value_types = [kBoolean, kUint, kInt, kFloat, kFixed, kUFixed, kAddress, kWaddress, kHex, kRegID, kOther]"

definition ValueType_of :: "nat \<Rightarrow> ValueType" where
  "ValueType_of n = (if n < length value_types then value_types ! n else kOther)"

text \<open>
  \<^verbatim>\<open>OutputValue\<close>: shifting a 64-bit one by 64 is undefined; of a 64-bit value of an integer or floating-point
  type the upper half is dropped.
\<close>

definition OutputValue :: "hier_env \<Rightarrow> ValueType \<Rightarrow> u64 \<Rightarrow> nat \<Rightarrow> nat \<Rightarrow> string option" where
  "OutputValue env type val bit_width radix =
     (case type of
        kBoolean \<Rightarrow> Some (if val \<noteq> 0 then ''True'' else ''False'')
      | kUint \<Rightarrow> Some (dec val)
      | kInt \<Rightarrow> do {
          DIVE_ASSERT (he_debug env) (unat val < 2 ^ 32);
          let i = sint (ucast val :: u32);
          Some (if i < 0 then ''-'' @ show_nat (nat (- i)) else show_nat (nat i))
        }
      | kFloat \<Rightarrow> do {
          DIVE_ASSERT (he_debug env) (unat val < 2 ^ 32);
          Some (he_float env (ucast val))
        }
      | kFixed \<Rightarrow>
          (if bit_width + 1 \<ge> 64 \<or> radix \<ge> 64 then None
           else if val AND push_bit bit_width 1 \<noteq> 0
           then Some (he_double env (real (unat (push_bit (bit_width + 1) 1 - val)) / 2 ^ radix))
           else Some (he_double env (real (unat val) / 2 ^ radix)))
      | kUFixed \<Rightarrow>
          (if radix \<ge> 64 then None else Some (he_double env (real (unat val) / 2 ^ radix)))
      | kRegID \<Rightarrow> Some (''r'' @ dec (drop_bit 2 val) @ ''.'' @ [''xyzw'' ! unat (val AND 3)])
      | _ \<Rightarrow> Some (hex val))"

text \<open>The value as an enumerator when it has a name, as both registers and packet fields show it.\<close>

definition UINT8_MAX :: nat where "UINT8_MAX = 255"

definition show_field :: "hier_env \<Rightarrow> nat \<Rightarrow> nat \<Rightarrow> u64 \<Rightarrow> nat \<Rightarrow> nat \<Rightarrow> string option" where
  "show_field env enum_handle type val bit_width radix =
     (if enum_handle \<noteq> UINT8_MAX
      then (case info_GetEnumString (he_info env) enum_handle (ucast val) of
              Some enum_str \<Rightarrow> Some enum_str
            | None \<Rightarrow> OutputValue env (ValueType_of type) val 0 0)
      else OutputValue env (ValueType_of type) val bit_width radix)"

section \<open>Registers\<close>

definition reg_field_value :: "RegField \<Rightarrow> u64 \<Rightarrow> u64" where
  "reg_field_value f reg_value = push_bit (rf_shr f) (drop_bit (rf_shift f) (reg_value AND rf_mask f))"

fun add_reg_fields :: "hier_env \<Rightarrow> nat \<Rightarrow> u64 \<Rightarrow> RegField list \<Rightarrow> creator \<Rightarrow> creator option" where
  "add_reg_fields env reg_node_index reg_value [] cr = Some cr"
| "add_reg_fields env reg_node_index reg_value (f # fs) cr =
     do {
       shown \<leftarrow> show_field env (rf_enum_handle f) (rf_type f) (reg_field_value f reg_value)
                 (rf_bit_width f) (rf_radix f);
       (node_index, cr) \<leftarrow> add_field_node (he_debug env) reg_node_index (rf_name f @ '': '' @ shown) cr;
       add_reg_fields env reg_node_index reg_value fs cr
     }"

definition AddRegisterNode :: "hier_env \<Rightarrow> u64 \<Rightarrow> RegInfo \<Rightarrow> creator \<Rightarrow> (nat \<times> creator) option" where
  "AddRegisterNode env reg_value reg_info cr =
     do {
       let reg_value = push_bit (ri_shr reg_info) reg_value;
       shown \<leftarrow> (if ri_enum_handle reg_info \<noteq> UINT8_MAX
                 then info_GetEnumString (he_info env) (ri_enum_handle reg_info) (ucast reg_value)
                 else OutputValue env (ValueType_of (ri_type reg_info)) reg_value
                        (ri_bit_width reg_info) (ri_radix reg_info));
       (reg_node_index, cr) \<leftarrow>
         AddNode (he_debug env) kRegNode (ri_name reg_info @ '': '' @ shown) (RegFieldNode False) cr;
       cr \<leftarrow> add_reg_fields env reg_node_index reg_value (ri_fields reg_info) cr;
       Some (reg_node_index, cr)
     }"

text \<open>A register without information: its type is 0, the type of Booleans.\<close>

definition unknown_register :: RegInfo where
  "unknown_register =
     \<lparr>ri_name = ''Unknown'', ri_type = 0, ri_enum_handle = UINT8_MAX, ri_is_64_bit = False, ri_shr = 0,
      ri_bit_width = 0, ri_radix = 0, ri_fields = []\<rparr>"

definition reg_info_of :: "hier_env \<Rightarrow> u32 \<Rightarrow> RegInfo" where
  "reg_info_of env reg =
     (case info_GetRegInfo (he_info env) reg of None \<Rightarrow> unknown_register | Some reg_info \<Rightarrow> reg_info)"

text \<open>\<^verbatim>\<open>AppendRegNodes\<close> on pairs of offset and value.\<close>

function AppendRegNodes_pairs ::
    "hier_env \<Rightarrow> 'm retriever \<Rightarrow> u32 \<Rightarrow> u64 \<Rightarrow> nat \<Rightarrow> nat \<Rightarrow> nat \<Rightarrow> creator \<Rightarrow> 'm \<Rightarrow> (creator \<times> 'm) option" where
  "AppendRegNodes_pairs env retrieve submit_index va_addr dword_count dword packet_node_index cr m =
     (if dword < dword_count
      then do {
        (pair, m) \<leftarrow> read_struct (he_debug env) retrieve submit_index (va_addr + word_of_nat dword * 4) 8 8 m;
        let reg = le32 pair;
        let reg_info = reg_info_of env reg;
        let reg_value = ucast (le32 (drop 4 pair));
        (step, reg_value, m) \<leftarrow>
          (if ri_is_64_bit reg_info
           then do {
             (new_pair, m) \<leftarrow>
               read_struct (he_debug env) retrieve submit_index (va_addr + word_of_nat (dword + 2) * 4) 8 8 m;
             Some (if le32 new_pair = reg + 1
                   then (3, reg_value OR push_bit 32 (ucast (le32 (drop 4 new_pair))), m)
                   else (1, reg_value, m))
           }
           else Some (1, reg_value, m));
        (reg_node_index, cr) \<leftarrow> AddRegisterNode env reg_value reg_info cr;
        cr \<leftarrow> add_to_both packet_node_index reg_node_index cr;
        AppendRegNodes_pairs env retrieve submit_index va_addr dword_count (Suc dword + step)
          packet_node_index cr m
      }
      else Some (cr, m))"
  by pat_completeness auto
termination
  by (relation "measure (\<lambda>(env, retrieve, submit_index, va_addr, dword_count, dword, p, cr, m). dword_count - dword)")
    auto

declare AppendRegNodes_pairs.simps [simp del]

text \<open>\<^verbatim>\<open>AppendRegNodes\<close> on consecutive values, from the offset in the header.\<close>

function AppendRegNodes_seq ::
    "hier_env \<Rightarrow> 'm retriever \<Rightarrow> u32 \<Rightarrow> u64 \<Rightarrow> Pm4Header \<Rightarrow> nat \<Rightarrow> nat \<Rightarrow> nat \<Rightarrow> creator \<Rightarrow> 'm \<Rightarrow>
     (creator \<times> 'm) option" where
  "AppendRegNodes_seq env retrieve submit_index va_addr header packet_node_index offset_in_bytes dword cr m =
     (if dword < unat (type4_count header)
      then do {
        let reg_va_addr = va_addr + 4 + word_of_nat offset_in_bytes;
        let reg_info = reg_info_of env (type4_offset header + word_of_nat dword);
        let size_to_read = (if ri_is_64_bit reg_info then 8 else 4);
        (bs, m) \<leftarrow> read_struct (he_debug env) retrieve submit_index reg_va_addr 8 size_to_read m;
        (reg_node_index, cr) \<leftarrow> AddRegisterNode env (le64 bs) reg_info cr;
        cr \<leftarrow> add_to_both packet_node_index reg_node_index cr;
        AppendRegNodes_seq env retrieve submit_index va_addr header packet_node_index
          (offset_in_bytes + size_to_read) (Suc dword + (if ri_is_64_bit reg_info then 1 else 0)) cr m
      }
      else Some (cr, m))"
  by pat_completeness auto
termination
  by (relation "measure (\<lambda>(env, retrieve, submit_index, va_addr, header, p, off, dword, cr, m).
        unat (type4_count header) - dword)") auto

declare AppendRegNodes_seq.simps [simp del]

section \<open>Packet fields\<close>

text \<open>
  The loop over the fields of one array element: the result tells whether the packet ended early, and the
  last dword.
\<close>

fun append_fields ::
    "hier_env \<Rightarrow> 'm retriever \<Rightarrow> u32 \<Rightarrow> u64 \<Rightarrow> u32 \<Rightarrow> string \<Rightarrow> nat \<Rightarrow> u32 \<Rightarrow> u32 \<Rightarrow> PacketField list \<Rightarrow>
     creator \<Rightarrow> 'm \<Rightarrow> (bool \<times> u32 \<times> creator \<times> 'm) option" where
  "append_fields env retrieve submit_index va_addr dword_count prefix parent base_dword end_dword [] cr m =
     Some (False, end_dword, cr, m)"
| "append_fields env retrieve submit_index va_addr dword_count prefix parent base_dword end_dword (f # fs) cr m =
     (let field_dword = base_dword + word_of_nat (pf_dword f) in
      if field_dword > dword_count then Some (True, field_dword, cr, m)
      else do {
        (bs, m) \<leftarrow> read_struct (he_debug env) retrieve submit_index
                    (va_addr + ucast (field_dword - 1) * 4) 4 4 m;
        let field_value = push_bit (pf_shr f) (drop_bit (pf_shift f) (le32 bs AND pf_mask f));
        shown \<leftarrow> show_field env (pf_enum_handle f) (pf_type f) (ucast field_value) 0 0;
        (node_index, cr) \<leftarrow> add_field_node (he_debug env) parent (prefix @ pf_name f @ '': '' @ shown) cr;
        append_fields env retrieve submit_index va_addr dword_count prefix parent base_dword field_dword fs cr m
      })"

text \<open>The loop over the array elements \<open>array\<close>, \<open>array + 1\<close>, \dots, of which \<open>n\<close> are left.\<close>

fun append_arrays ::
    "hier_env \<Rightarrow> 'm retriever \<Rightarrow> u32 \<Rightarrow> u64 \<Rightarrow> u32 \<Rightarrow> string \<Rightarrow> PacketInfo \<Rightarrow> nat \<Rightarrow> nat \<Rightarrow> nat \<Rightarrow> u32 \<Rightarrow>
     creator \<Rightarrow> 'm \<Rightarrow> (u32 \<times> creator \<times> 'm) option" where
  "append_arrays env retrieve submit_index va_addr dword_count prefix info packet_node_index 0 array end_dword cr m =
     Some (end_dword, cr, m)"
| "append_arrays env retrieve submit_index va_addr dword_count prefix info packet_node_index (Suc n) array end_dword cr m =
     do {
       let base_dword = (if array \<noteq> 0 then end_dword else 0);
       (parent, cr) \<leftarrow>
         (if pi_max_array_size info > 1 \<and> base_dword < dword_count
          then add_field_node (he_debug env) packet_node_index (show_nat array) cr
          else Some (packet_node_index, cr));
       (packet_end_early, end_dword, cr, m) \<leftarrow>
         append_fields env retrieve submit_index va_addr dword_count prefix parent base_dword end_dword
           (pi_fields info) cr m;
       if packet_end_early then Some (end_dword, cr, m)
       else append_arrays env retrieve submit_index va_addr dword_count prefix info packet_node_index n
              (array + 1) end_dword cr m
     }"

text \<open>The dwords that the fields do not cover, from number \<open>i\<close> on.\<close>

fun append_dwords ::
    "hier_env \<Rightarrow> 'm retriever \<Rightarrow> u32 \<Rightarrow> u64 \<Rightarrow> string \<Rightarrow> nat \<Rightarrow> nat \<Rightarrow> nat \<Rightarrow> creator \<Rightarrow> 'm \<Rightarrow>
     (creator \<times> 'm) option" where
  "append_dwords env retrieve submit_index va_addr prefix packet_node_index 0 i cr m = Some (cr, m)"
| "append_dwords env retrieve submit_index va_addr prefix packet_node_index (Suc n) i cr m =
     do {
       (bs, m) \<leftarrow> read_struct (he_debug env) retrieve submit_index (va_addr + word_of_nat i * 4) 4 4 m;
       (node_index, cr) \<leftarrow> add_field_node (he_debug env) packet_node_index
         (prefix @ ''(DWORD '' @ show_nat i @ ''): '' @ hex (ucast (le32 bs))) cr;
       append_dwords env retrieve submit_index va_addr prefix packet_node_index n (i + 1) cr m
     }"

definition AppendPacketFieldNodes ::
    "hier_env \<Rightarrow> 'm retriever \<Rightarrow> u32 \<Rightarrow> u64 \<Rightarrow> u32 \<Rightarrow> bool \<Rightarrow> PacketInfo \<Rightarrow> nat \<Rightarrow> string \<Rightarrow> creator \<Rightarrow> 'm \<Rightarrow>
     (creator \<times> 'm) option" where
  "AppendPacketFieldNodes env retrieve submit_index va_addr dword_count append_extra_dwords info
     packet_node_index prefix cr m =
     do {
       (end_dword, cr, m) \<leftarrow> append_arrays env retrieve submit_index va_addr dword_count prefix info
          packet_node_index (pi_max_array_size info) 0 (- 1) cr m;
       if append_extra_dwords \<and> end_dword < dword_count
       then append_dwords env retrieve submit_index va_addr prefix packet_node_index
              (unat dword_count - unat end_dword) (unat end_dword + 1) cr m
       else Some (cr, m)
     }"

section \<open>Buffers that packets refer to\<close>

text \<open>How \<^verbatim>\<open>AddConstantsToPacketNode\<close> prints a value, for its two instances.\<close>

definition show_hex8 :: "u32 \<Rightarrow> string" where
  "show_hex8 x = (let s = show_hex (unat x) in ''0x'' @ replicate (8 - length s) (CHR ''0'') @ s)"

text \<open>One row of at most \<open>n\<close> values; the flag is false when memory is missing, which ends all rows.\<close>

fun constants_row ::
    "'m retriever \<Rightarrow> (u32 \<Rightarrow> string) \<Rightarrow> u32 \<Rightarrow> u64 \<Rightarrow> nat \<Rightarrow> nat \<Rightarrow> 'm \<Rightarrow> (bool \<times> string \<times> 'm) option" where
  "constants_row retrieve show_value submit_index ext_src_addr 0 i m = Some (True, [], m)"
| "constants_row retrieve show_value submit_index ext_src_addr (Suc n) i m =
     do {
       (ok, bs, m) \<leftarrow> retrieve (replicate 4 0) submit_index (ext_src_addr + word_of_nat (i * 4)) 4 m;
       if \<not> ok then Some (False, [], m)
       else do {
         (ok, s, m) \<leftarrow> constants_row retrieve show_value submit_index ext_src_addr n (i + 1) m;
         Some (ok, show_value (le32 bs) @ '' '' @ s, m)
       }
     }"

function AddConstantsToPacketNode ::
    "hier_env \<Rightarrow> 'm retriever \<Rightarrow> (u32 \<Rightarrow> string) \<Rightarrow> u64 \<Rightarrow> nat \<Rightarrow> nat \<Rightarrow> u32 \<Rightarrow> nat \<Rightarrow> nat \<Rightarrow> creator \<Rightarrow> 'm \<Rightarrow>
     (creator \<times> 'm) option" where
  "AddConstantsToPacketNode env retrieve show_value ext_src_addr packet_node_index num_dwords submit_index
     value_count_per_row i cr m =
     (if i < num_dwords \<and> 0 < value_count_per_row
      then do {
        (ok, desc, m) \<leftarrow> constants_row retrieve show_value submit_index ext_src_addr
           (min value_count_per_row (num_dwords - i)) i m;
        if \<not> ok then Some (cr, m)
        else do {
          (node_index, cr) \<leftarrow> add_field_node (he_debug env) packet_node_index desc cr;
          AddConstantsToPacketNode env retrieve show_value ext_src_addr packet_node_index num_dwords submit_index
            value_count_per_row (i + value_count_per_row) cr m
        }
      }
      else Some (cr, m))"
  by pat_completeness auto
termination
  by (relation "measure (\<lambda>(env, retrieve, show, a, p, num_dwords, s, v, i, cr, m). num_dwords - i)") auto

declare AddConstantsToPacketNode.simps [simp del]
end
