(* ===== verification/Hier_Callbacks.thy ===== *)
theory Hier_Callbacks
  imports Hier_Creator Pm4_Linear
begin

text \<open>
  The callbacks of \<^verbatim>\<open>CommandHierarchyCreator\<close> (\<^verbatim>\<open>src/dive_core/command_hierarchy.cpp\<close>): submits, IBs and
  packets as the emulator meets them, and \<^verbatim>\<open>CreateTrees\<close>, which runs the emulator with them.

  The emulator's interface has no undefined results for the callbacks around a submit, so its client state
  is an optional creator: \<open>None\<close> once such a callback has left the defined behaviour.
\<close>

section \<open>Shader state\<close>

datatype StateBlockCat = kTex | kShader | kUAV

definition tex_blocks :: "string list" where
  "tex_blocks = [''SB6_VS_TEX'', ''SB6_HS_TEX'', ''SB6_DS_TEX'', ''SB6_GS_TEX'', ''SB6_FS_TEX'', ''SB6_CS_TEX'']"

definition shader_blocks :: "string list" where
  "shader_blocks =
     [''SB6_VS_SHADER'', ''SB6_HS_SHADER'', ''SB6_DS_SHADER'', ''SB6_GS_SHADER'', ''SB6_FS_SHADER'', ''SB6_CS_SHADER'']"

definition uav_blocks :: "string list" where
  "uav_blocks = [''SB6_UAV'', ''SB6_CS_UAV'']"

definition among :: "pm4_info \<Rightarrow> u64 \<Rightarrow> string list \<Rightarrow> bool" where
  "among info x names \<longleftrightarrow> (\<exists>n\<in>set names. x = info_enum info n)"

definition state_block_cat :: "bool \<Rightarrow> pm4_info \<Rightarrow> u64 \<Rightarrow> StateBlockCat option" where
  "state_block_cat debug info block =
     (if among info block tex_blocks then Some kTex
      else if among info block shader_blocks then Some kShader
      else if among info block uav_blocks then Some kUAV
      else do { DIVE_ASSERT debug False; Some kTex })"

text \<open>
  The address of the state, and whether it is bindless. The registers of the bindless base are read in the
  current mode; a debug build asserts that they are set.
\<close>

definition ext_src_address ::
    "hier_env \<Rightarrow> u64 \<Rightarrow> (string \<Rightarrow> u64) \<Rightarrow> EmulateStateTracker \<Rightarrow> (u64 \<times> bool) option" where
  "ext_src_address env va_addr f tr =
     (let info = he_info env; src = f ''STATE_SRC''; u1 = (ucast (f ''u32All1'') :: u32) in
      if src = info_enum info ''SS6_DIRECT''
      then Some (va_addr + word_of_nat (info_sizeof info ''PM4_CP_LOAD_STATE6''), False)
      else if src = info_enum info ''SS6_BINDLESS''
      then do {
        let is_compute = among info (f ''STATE_BLOCK'') [''SB6_CS_TEX'', ''SB6_CS_SHADER'', ''SB6_CS_UAV''];
        let base_reg = info_GetRegOffsetByName info
              (if is_compute then ''HLSQ_CS_BINDLESS_BASE0_DESCRIPTOR'' else ''HLSQ_BINDLESS_BASE0_DESCRIPTOR'');
        let reg = base_reg + drop_bit 28 u1 * 2;
        _ \<leftarrow> (if he_debug env
              then do {
                set_lo \<leftarrow> IsRegSet_current reg tr;
                set_hi \<leftarrow> IsRegSet_current (reg + 1) tr;
                DIVE_ASSERT True (set_lo \<and> set_hi)
              }
              else Some ());
        lo \<leftarrow> GetRegValue_current reg tr;
        hi \<leftarrow> GetRegValue_current (reg + 1) tr;
        Some ((ucast (lo AND 0xfffffffc) OR push_bit 32 (ucast hi)) + ucast (4 * (u1 AND 0xffffff)), True)
      }
      else if src = info_enum info ''SS6_INDIRECT''
      then Some (ucast (u1 AND 0xfffffffc) OR push_bit 32 (f ''u32All2''), False)
      else Some (0, False))"

text \<open>The lambda \<^verbatim>\<open>AppendSharps\<close>: the descriptors \<open>i\<close>, \<open>i + 1\<close>, \dots, of which \<open>n\<close> are left.\<close>

fun append_sharps ::
    "hier_env \<Rightarrow> 'm retriever \<Rightarrow> u32 \<Rightarrow> u64 \<Rightarrow> string \<Rightarrow> u32 \<Rightarrow> nat \<Rightarrow> nat \<Rightarrow> nat \<Rightarrow> creator \<Rightarrow> 'm \<Rightarrow>
     (creator \<times> 'm) option" where
  "append_sharps env retrieve submit_index ext_src_addr name struct_size packet_node_index 0 i cr m = Some (cr, m)"
| "append_sharps env retrieve submit_index ext_src_addr name struct_size packet_node_index (Suc n) i cr m =
     do {
       info \<leftarrow> info_GetPacketInfo (he_info env) 0 name;
       (cr, m) \<leftarrow> AppendPacketFieldNodes env retrieve submit_index
          (ext_src_addr + ucast (word_of_nat i * struct_size)) (struct_size div 4) False info
          packet_node_index (''  ['' @ show_nat i @ ''] '') cr m;
       append_sharps env retrieve submit_index ext_src_addr name struct_size packet_node_index n (i + 1) cr m
     }"

definition AppendLoadStateExtBufferNode ::
    "hier_env \<Rightarrow> 'm retriever \<Rightarrow> u32 \<Rightarrow> u64 \<Rightarrow> nat \<Rightarrow> creator \<Rightarrow> 'm \<Rightarrow> (creator \<times> 'm) option" where
  "AppendLoadStateExtBufferNode env retrieve submit_index va_addr packet_node_index cr m =
     do {
       let info = he_info env;
       let debug = he_debug env;
       let struct = ''PM4_CP_LOAD_STATE6'';
       (packet, m) \<leftarrow> read_packet debug info retrieve struct submit_index va_addr m;
       let f = (\<lambda>n. info_field info struct n packet);
       cat \<leftarrow> state_block_cat debug info (f ''STATE_BLOCK'');
       (ext_src_addr, bindless) \<leftarrow> ext_src_address env va_addr f (m_state_tracker (h_base cr));
       let type = (\<lambda>n. f ''STATE_TYPE'' = info_enum info n);
       let num_unit = unat (f ''NUM_UNIT'');
       let struct_size = (\<lambda>bindless n. if bindless then 16 else word_of_nat (info_sizeof info n));
       let sharps = (\<lambda>n bindless.
             append_sharps env retrieve submit_index ext_src_addr n (struct_size bindless n) packet_node_index num_unit 0);
       (case cat of
          kTex \<Rightarrow>
            (if type ''ST6_SHADER'' then sharps ''A6XX_TEX_SAMP'' bindless cr m
             else if type ''ST6_CONSTANTS'' then sharps ''A6XX_TEX_CONST'' False cr m
             else if type ''ST6_UBO'' then sharps ''A6XX_UBO'' bindless cr m
             else Some (cr, m))
        | kShader \<Rightarrow>
            (if type ''ST6_SHADER'' then Some (cr, m)
             else if type ''ST6_CONSTANTS''
             then (if ext_src_addr \<noteq> 0
                   then AddConstantsToPacketNode env retrieve (he_float_fixed env) ext_src_addr packet_node_index
                          (num_unit * 4) submit_index 4 0 cr m
                   else Some (cr, m))
             else if type ''ST6_UBO'' then sharps ''A6XX_UBO'' bindless cr m
             else if type ''ST6_UAV''
             then do {
               DIVE_ASSERT debug (f ''STATE_BLOCK'' = info_enum info ''SB6_CS_SHADER'');
               sharps ''A6XX_TEX_CONST'' False cr m
             }
             else Some (cr, m))
        | kUAV \<Rightarrow>
            (if type ''ST6_SHADER'' then sharps ''A6XX_TEX_CONST'' bindless cr m
             else if type ''ST6_CONSTANTS''
             then AddConstantsToPacketNode env retrieve show_hex8 ext_src_addr packet_node_index
                    (num_unit * 2) submit_index 2 0 cr m
             else Some (cr, m)))
     }"

definition AppendMemRegNodes ::
    "hier_env \<Rightarrow> 'm retriever \<Rightarrow> u32 \<Rightarrow> u64 \<Rightarrow> nat \<Rightarrow> creator \<Rightarrow> 'm \<Rightarrow> (creator \<times> 'm) option" where
  "AppendMemRegNodes env retrieve submit_index va_addr packet_node_index cr m =
     do {
       let info = he_info env;
       let struct = ''PM4_CP_MEM_TO_REG'';
       (packet, m) \<leftarrow> read_packet (he_debug env) info retrieve struct submit_index va_addr m;
       let f = (\<lambda>n. info_field info struct n packet);
       let reg_info = reg_info_of env (ucast (f ''REG''));
       (reg_node_index, cr) \<leftarrow>
         AddNode (he_debug env) kRegNode (''Base Register: '' @ ri_name reg_info) (RegFieldNode False) cr;
       cr \<leftarrow> add_to_both packet_node_index reg_node_index cr;
       AddConstantsToPacketNode env retrieve show_hex8 (f ''SRC'') packet_node_index (unat (f ''CNT''))
         submit_index 8 0 cr m
     }"

section \<open>Packets\<close>

definition AddPacketNode ::
    "hier_env \<Rightarrow> 'm retriever \<Rightarrow> u32 \<Rightarrow> u64 \<Rightarrow> Pm4Header \<Rightarrow> creator \<Rightarrow> 'm \<Rightarrow> (nat \<times> creator \<times> 'm) option" where
  "AddPacketNode env retrieve submit_index va_addr header cr m =
     (let debug = he_debug env; info = he_info env in
      if header_type header = 7
      then do {
        let opcode = type7_opcode header;
        aux_info \<leftarrow> PacketNode debug va_addr (ucast opcode) (word_of_nat (m_cur_ib_level cr));
        (packet_node_index, cr) \<leftarrow>
          AddNode debug kPacketNode (info_GetOpCodeString info opcode @ '' '' @ hex (ucast header)) aux_info cr;
        (cr, m) \<leftarrow>
          (if opcode = isa_op (info_isa info) CP_CONTEXT_REG_BUNCH
           then AppendRegNodes_pairs env retrieve submit_index (va_addr + 4) (unat (type7_count header)) 0
                  packet_node_index cr m
           else do {
             packet_info \<leftarrow> info_GetPacketInfo info opcode '''';
             AppendPacketFieldNodes env retrieve submit_index (va_addr + 4) (type7_count header)
               (opcode \<notin> {info_op info CP_LOAD_STATE6, info_op info CP_LOAD_STATE6_GEOM, info_op info CP_LOAD_STATE6_FRAG})
               packet_info packet_node_index '''' cr m
           });
        Some (packet_node_index, cr, m)
      }
      else if header_type header = 4
      then do {
        aux_info \<leftarrow> PacketNode debug va_addr 255 (word_of_nat (m_cur_ib_level cr));
        (packet_node_index, cr) \<leftarrow>
          AddNode debug kPacketNode (''TYPE4 REGWRITE '' @ hex (ucast header)) aux_info cr;
        (cr, m) \<leftarrow> AppendRegNodes_seq env retrieve submit_index va_addr header packet_node_index 0 0 cr m;
        Some (packet_node_index, cr, m)
      }
      else Some (2 ^ 32 - 1, cr, m))"

text \<open>The groups \<open>i\<close>, \<open>i + 1\<close>, \dots of a \<^verbatim>\<open>CP_SET_DRAW_STATE\<close>, with the addresses of their IBs.\<close>

fun cache_groups ::
    "nat \<Rightarrow> nat list \<Rightarrow> draw_state_element list \<Rightarrow> (nat \<times> u64) list \<Rightarrow> (nat \<times> u64) list option" where
  "cache_groups i children [] groups = Some groups"
| "cache_groups i children (e # es) groups =
     do {
       child \<leftarrow> vec_at children i;
       groups \<leftarrow> vec_set i (child, ds_ADDR e) groups;
       cache_groups (i + 1) children es groups
     }"

definition CacheSetDrawStateGroupInfo ::
    "hier_env \<Rightarrow> 'm retriever \<Rightarrow> u32 \<Rightarrow> u64 \<Rightarrow> nat \<Rightarrow> Pm4Header \<Rightarrow> creator \<Rightarrow> 'm \<Rightarrow> (creator \<times> 'm) option" where
  "CacheSetDrawStateGroupInfo env retrieve submit_index va_addr set_draw_state_node_index header cr m =
     do {
       let isa = info_isa (he_info env);
       children \<leftarrow> vec_at (h_children cr kSubmitTopology) set_draw_state_node_index;
       (packet, m) \<leftarrow> read_struct (he_debug env) retrieve submit_index va_addr (sizeof_set_draw_state isa)
          (unat (type7_count header + 1) * 4) m;
       let total_size_bytes = unat (type7_count header) * 4;
       let array_size = total_size_bytes div sizeof_draw_state_element isa;
       DIVE_ASSERT (he_debug env) (total_size_bytes mod sizeof_draw_state_element isa = 0);
       DIVE_ASSERT (he_debug env) (length children = array_size);
       groups \<leftarrow> cache_groups 0 children (draw_state_array isa packet array_size) (m_group_info cr);
       Some (cr\<lparr>m_group_info := groups, m_group_info_size := array_size\<rparr>, m)
     }"

section \<open>Stacks of start nodes\<close>

text \<open>\<^verbatim>\<open>back\<close> of an empty vector is undefined, \<^verbatim>\<open>pop_back\<close> does nothing.\<close>

definition vec_back :: "'a list \<Rightarrow> 'a option" where
  "vec_back xs = (if xs = [] then None else Some (last xs))"

definition push_start :: "TopologyType \<Rightarrow> nat \<Rightarrow> creator \<Rightarrow> creator" where
  "push_start t node_index cr =
     cr\<lparr>m_start_node_stack := (m_start_node_stack cr)(t := m_start_node_stack cr t @ [node_index])\<rparr>"

definition pop_start :: "TopologyType \<Rightarrow> creator \<Rightarrow> creator" where
  "pop_start t cr = cr\<lparr>m_start_node_stack := (m_start_node_stack cr)(t := butlast (m_start_node_stack cr t))\<rparr>"

text \<open>The range of shared children of a node, from the start on top of the stack, which is popped.\<close>

definition set_range :: "TopologyType \<Rightarrow> nat \<Rightarrow> nat \<Rightarrow> creator \<Rightarrow> creator option" where
  "set_range t node_index end_index cr =
     do {
       start \<leftarrow> vec_back (m_start_node_stack cr t);
       cr \<leftarrow> SetStartSharedChildrenNodeIndex t node_index start cr;
       cr \<leftarrow> SetEndSharedChildrenNodeIndex t node_index end_index cr;
       cr \<leftarrow> SetSharedChildRootNodeIndex t node_index (m_cur_submit_node_index cr) cr;
       Some (pop_start t cr)
     }"

section \<open>IBs\<close>

definition ib_description :: "u32 \<Rightarrow> IndirectBufferInfo \<Rightarrow> IbType \<Rightarrow> string" where
  "ib_description ib_index ib_info type =
     (case type of
        kNormal \<Rightarrow> ''IB: '' @ show_nat (unat ib_index)
      | kCall \<Rightarrow> ''Call IB''
      | kChain \<Rightarrow> ''Chain IB''
      | kContextSwitchIb \<Rightarrow> ''ContextSwitch IB''
      | kBinPrefix \<Rightarrow> ''Bin Prefix IB''
      | kBinCommon \<Rightarrow> ''Bin Common IB''
      | kFixedStrideDrawTable \<Rightarrow> ''Fixed Stride Draw Table IB''
      | kDrawState \<Rightarrow> ''DrawState IB'') @
     '', Address: '' @ hex (ib_va_addr ib_info) @
     '', Size (DWORDS): '' @ show_nat (unat (ib_size_in_dwords ib_info)) @
     (if ib_skip ib_info then '', NOT CAPTURED'' else [])"

definition set_ib_parent :: "nat \<Rightarrow> creator \<Rightarrow> creator option" where
  "set_ib_parent node_index cr =
     map_option (\<lambda>xs. cr\<lparr>m_shared_node_ib_parent_stack := xs\<rparr>)
       (vec_set (m_cur_ib_level cr) node_index (m_shared_node_ib_parent_stack cr))"

text \<open>The group node cached for the address of a draw state.\<close>

definition group_index_of :: "u64 \<Rightarrow> creator \<Rightarrow> nat" where
  "group_index_of va_addr cr =
     (case find (\<lambda>(node, addr). addr = va_addr) (take (m_group_info_size cr) (m_group_info cr)) of
        None \<Rightarrow> UINT64_MAX
      | Some (node, addr) \<Rightarrow> node)"

text \<open>Below which node the packets of the IB are shown: its packet, or a node made for it.\<close>

definition start_ib_parent ::
    "hier_env \<Rightarrow> IndirectBufferInfo \<Rightarrow> IbType \<Rightarrow> string \<Rightarrow> creator \<Rightarrow> creator option" where
  "start_ib_parent env ib_info type desc cr =
     do {
       cr \<leftarrow> (if m_cur_ib_packet_node_index cr \<noteq> UINT64_MAX
             then set_ib_parent (m_cur_ib_packet_node_index cr) cr else Some cr);
       if type = kDrawState
       then do {
         let group_index = group_index_of (ib_va_addr ib_info) cr;
         DIVE_ASSERT (he_debug env) (group_index \<noteq> UINT64_MAX);
         set_ib_parent group_index cr
       }
       else if type = kBinPrefix \<or> type = kBinCommon
       then do {
         (node_index, cr) \<leftarrow> add_field_node (he_debug env) (m_start_bin_node_index cr) desc cr;
         set_ib_parent node_index cr
       }
       else if type = kFixedStrideDrawTable
       then do {
         (node_index, cr) \<leftarrow> add_field_node (he_debug env) (m_draw_table_node_index cr) desc cr;
         set_ib_parent node_index cr
       }
       else Some cr
     }"

text \<open>With flattening, a CHAIN IB becomes a child of the nearest IB on the stack that is not one.\<close>

fun nearest_unchained :: "bool \<Rightarrow> Nodes \<Rightarrow> nat list \<Rightarrow> nat \<Rightarrow> nat option" where
  "nearest_unchained debug ns [] parent = Some parent"
| "nearest_unchained debug ns (i # is) parent =
     do {
       cur_type \<leftarrow> GetIbNodeType debug i ns;
       if cur_type \<noteq> kChain then Some i else nearest_unchained debug ns is parent
     }"

definition ib_parent :: "hier_env \<Rightarrow> IbType \<Rightarrow> creator \<Rightarrow> nat option" where
  "ib_parent env type cr =
     (let parent = (if h_ib_stack cr \<noteq> [] then last (h_ib_stack cr) else m_cur_submit_node_index cr) in
      if m_flatten_chain_nodes cr \<and> type = kChain
      then nearest_unchained (he_debug env) (h_nodes cr) (rev (h_ib_stack cr)) parent
      else Some parent)"

definition OnIbStart ::
    "hier_env \<Rightarrow> u32 \<Rightarrow> u32 \<Rightarrow> IndirectBufferInfo \<Rightarrow> IbType \<Rightarrow> creator \<Rightarrow> (bool \<times> creator) option" where
  "OnIbStart env submit_index ib_index ib_info type cr =
     do {
       (_, base) \<leftarrow> EmulateCallbacksBase_OnIbStart submit_index ib_index ib_info type (h_base cr);
       let desc = ib_description ib_index ib_info type;
       cr \<leftarrow> start_ib_parent env ib_info type desc (cr\<lparr>h_base := base, m_cur_ib_level := ib_level ib_info\<rparr>);
       aux_info \<leftarrow> IbNode (he_debug env) ib_index type (ib_size_in_dwords ib_info) (\<not> ib_skip ib_info);
       (ib_node_index, cr) \<leftarrow> AddNode (he_debug env) kIbNode desc aux_info cr;
       parent_node_index \<leftarrow> ib_parent env type cr;
       cr \<leftarrow> AddChild kSubmitTopology parent_node_index ib_node_index cr;
       Some (True, cr\<lparr>h_ib_stack := h_ib_stack cr @ [ib_node_index],
         m_cmd_begin_packet_node_indices := [], m_cmd_begin_event_node_indices := [], m_new_ib_start := True\<rparr>)
     }"

text \<open>Popping the CHAIN IBs on top: the loop looks at the back once more after each.\<close>

function pop_chains :: "bool \<Rightarrow> IbType \<Rightarrow> creator \<Rightarrow> creator option" where
  "pop_chains debug type cr =
     (if h_ib_stack cr \<noteq> [] \<and> type = kChain
      then do {
        let cr = pop_start kSubmitTopology (cr\<lparr>h_ib_stack := butlast (h_ib_stack cr)\<rparr>);
        i \<leftarrow> vec_back (h_ib_stack cr);
        type \<leftarrow> GetIbNodeType debug i (h_nodes cr);
        pop_chains debug type cr
      }
      else Some cr)"
  by pat_completeness auto
termination
  by (relation "measure (\<lambda>(debug, type, cr). length (h_ib_stack cr))") (auto simp: pop_start_def)

declare pop_chains.simps [simp del]

definition OnIbEnd :: "hier_env \<Rightarrow> u32 \<Rightarrow> u32 \<Rightarrow> IndirectBufferInfo \<Rightarrow> creator \<Rightarrow> (bool \<times> creator) option" where
  "OnIbEnd env submit_index ib_index ib_info cr =
     do {
       (_, base) \<leftarrow> EmulateCallbacksBase_OnIbEnd submit_index ib_index ib_info (h_base cr);
       let cr = cr\<lparr>h_base := base\<rparr>;
       DIVE_ASSERT (he_debug env) (h_ib_stack cr \<noteq> []);
       cr \<leftarrow> (if m_new_ib_start cr then Some (cr\<lparr>m_new_ib_start := False\<rparr>)
             else do {
               DIVE_ASSERT (he_debug env) (length (m_start_node_stack cr kSubmitTopology) = length (h_ib_stack cr));
               i \<leftarrow> vec_back (h_ib_stack cr);
               set_range kSubmitTopology i (m_last_added_node_index cr) cr
             });
       i \<leftarrow> vec_back (h_ib_stack cr);
       type \<leftarrow> GetIbNodeType (he_debug env) i (h_nodes cr);
       cr \<leftarrow> pop_chains (he_debug env) type cr;
       Some (True, cr\<lparr>h_ib_stack := butlast (h_ib_stack cr), m_cmd_begin_packet_node_indices := [],
         m_cmd_begin_event_node_indices := [], m_cur_ib_level := ib_level ib_info\<rparr>)
     }"

section \<open>Events and passes\<close>

text \<open>The node of an event, from its packet.\<close>

definition add_event_node ::
    "hier_env \<Rightarrow> 'm retriever \<Rightarrow> u32 \<Rightarrow> u64 \<Rightarrow> Pm4Header \<Rightarrow> u32 \<Rightarrow> creator \<Rightarrow> 'm \<Rightarrow> (nat \<times> creator \<times> 'm) option" where
  "add_event_node env retrieve submit_index va_addr header opcode cr m =
     do {
       let info = he_info env;
       let debug = he_debug env;
       let tr = m_state_tracker (h_base cr);
       (event_string, m) \<leftarrow> GetEventString debug info retrieve submit_index va_addr header tr m;
       let event_id = m_num_events cr;
       let cr = cr\<lparr>m_num_events := event_id + 1\<rparr>;
       (type, m) \<leftarrow> GetEventType debug info retrieve submit_index va_addr opcode tr m;
       (ignored, m) \<leftarrow> ShouldIgnoreEventDuringCorrelation debug info retrieve submit_index va_addr header m;
       (node_index, cr) \<leftarrow> AddNode debug kEventNode event_string (EventNode event_id type ignored) cr;
       Some (node_index, AppendEventNodeIndex node_index cr, m)
     }"

definition on_event ::
    "hier_env \<Rightarrow> 'm retriever \<Rightarrow> u32 \<Rightarrow> u64 \<Rightarrow> Pm4Header \<Rightarrow> u32 \<Rightarrow> nat \<Rightarrow> creator \<Rightarrow> 'm \<Rightarrow>
     (creator \<times> 'm) option" where
  "on_event env retrieve submit_index va_addr header opcode packet_node_index cr m =
     do {
       let parent_node_index =
         (if m_render_marker_index cr \<noteq> UINT64_MAX then m_render_marker_index cr else m_cur_submit_node_index cr);
       (event_node_index, cr, m) \<leftarrow> add_event_node env retrieve submit_index va_addr header opcode cr m;
       let cr = cr\<lparr>m_cmd_begin_event_node_indices := m_cmd_begin_event_node_indices cr @ [event_node_index]\<rparr>;
       cr \<leftarrow> set_range kAllEventTopology event_node_index packet_node_index cr;
       let cr = cr\<lparr>m_new_event_start := True\<rparr>;
       cr \<leftarrow> AddChild kAllEventTopology parent_node_index event_node_index cr;
       Some (cr\<lparr>m_node_parent_info := (m_node_parent_info cr)(kAllEventTopology :=
               (m_node_parent_info cr kAllEventTopology)(event_node_index := Some parent_node_index))\<rparr>, m)
     }"

text \<open>The markers that begin a pass, with its description.\<close>

definition pass_markers :: "(a6xx_marker \<times> string) list" where
  "pass_markers =
     [(RM6_DIRECT_RENDER, ''Direct Rendering Pass''), (RM6_BIN_VISIBILITY, ''Binning Visibility Pass''),
      (RM6_BIN_DIRECT, ''Binning Direct Pass''), (RM6_BIN_RENDER_START, ''Tile Rendering Pass''),
      (RM6_BIN_RESOLVE, ''Resolve Pass''), (RM6_COMPUTE, ''Compute Dispatch'')]"

definition exclude_node :: "nat \<Rightarrow> FilterListType \<Rightarrow> creator \<Rightarrow> creator" where
  "exclude_node node_index filter_mode cr =
     cr\<lparr>h_exclude := (h_exclude cr)(filter_mode := insert node_index (h_exclude cr filter_mode))\<rparr>"

text \<open>Which filters exclude a pass, and whether the first tile pass is still to come.\<close>

definition update_filters :: "a6xx_marker \<Rightarrow> nat \<Rightarrow> creator \<Rightarrow> creator" where
  "update_filters marker node_index cr =
     (let cr = (if marker = RM6_BIN_VISIBILITY
                then exclude_node node_index kFirstTilePassOnly (cr\<lparr>m_tracking_first_tile_pass_start := True\<rparr>)
                else cr) in
      if marker = RM6_BIN_RENDER_START \<or> marker = RM6_BIN_RESOLVE
      then
        let cr = exclude_node node_index kBinningPassOnly cr;
            cr = (if \<not> m_tracking_first_tile_pass_start cr
                  then exclude_node node_index kBinningAndFirstTilePass (exclude_node node_index kFirstTilePassOnly cr)
                  else cr)
        in (if m_tracking_first_tile_pass_start cr \<and> marker = RM6_BIN_RESOLVE
            then cr\<lparr>m_tracking_first_tile_pass_start := False\<rparr> else cr)
      else cr)"

text \<open>The end of the pass under way, and the start of a new one.\<close>

definition end_pass :: "creator \<Rightarrow> creator option" where
  "end_pass cr =
     (if m_render_marker_index cr \<noteq> UINT64_MAX
      then set_range kAllEventTopology (m_render_marker_index cr) (m_last_added_node_index cr)
             (pop_start kAllEventTopology cr)
      else Some cr)"

definition start_pass :: "bool \<Rightarrow> a6xx_marker \<Rightarrow> string \<Rightarrow> nat \<Rightarrow> creator \<Rightarrow> creator option" where
  "start_pass debug marker desc packet_node_index cr =
     do {
       cr \<leftarrow> end_pass cr;
       (node_index, cr) \<leftarrow> AddNode debug kRenderMarkerNode desc 0 cr;
       let cr = update_filters marker node_index (cr\<lparr>m_render_marker_index := node_index\<rparr>);
       cr \<leftarrow> AddChild kAllEventTopology (m_cur_submit_node_index cr) node_index cr;
       Some ((push_start kAllEventTopology packet_node_index cr)\<lparr>m_new_event_start := True\<rparr>)
     }"

definition on_set_marker ::
    "hier_env \<Rightarrow> 'm retriever \<Rightarrow> u32 \<Rightarrow> u64 \<Rightarrow> nat \<Rightarrow> creator \<Rightarrow> 'm \<Rightarrow> (creator \<times> 'm) option" where
  "on_set_marker env retrieve submit_index va_addr packet_node_index cr m =
     do {
       let isa = info_isa (he_info env);
       let n = sizeof_set_marker isa;
       (packet, m) \<leftarrow> read_struct (he_debug env) retrieve submit_index va_addr n n m;
       DIVE_ASSERT (he_debug env) (set_marker_dword isa packet AND 0x100 = 0);
       let marker = set_marker_dword isa packet AND 0xf;
       (case find (\<lambda>p. isa_marker isa (fst p) = marker) pass_markers of
          None \<Rightarrow> Some (cr, m)
        | Some (k, desc) \<Rightarrow>
            map_option (\<lambda>cr. (cr, m)) (start_pass (he_debug env) k desc packet_node_index cr))
     }"

section \<open>OnPacket\<close>

text \<open>Where a packet starts an event or an IB, it is pushed as the start of the range.\<close>

definition push_starts :: "nat \<Rightarrow> creator \<Rightarrow> creator" where
  "push_starts packet_node_index cr =
     (let cr = (if m_new_event_start cr
                then push_start kAllEventTopology packet_node_index (cr\<lparr>m_new_event_start := False\<rparr>) else cr) in
      if m_new_ib_start cr
      then push_start kSubmitTopology packet_node_index (cr\<lparr>m_new_ib_start := False\<rparr>) else cr)"

text \<open>What follows for packets of particular kinds.\<close>

definition packet_case ::
    "hier_env \<Rightarrow> 'm retriever \<Rightarrow> u32 \<Rightarrow> u64 \<Rightarrow> Pm4Header \<Rightarrow> u32 \<Rightarrow> nat \<Rightarrow> creator \<Rightarrow> 'm \<Rightarrow>
     (creator \<times> 'm) option" where
  "packet_case env retrieve submit_index va_addr header opcode packet_node_index cr m =
     do {
       let info = he_info env;
       let op = (\<lambda>x. opcode = isa_op (info_isa info) x);
       let iop = (\<lambda>x. opcode = info_op info x);
       (is_event, m) \<leftarrow> IsEvent (he_debug env) info retrieve submit_index va_addr opcode
          (m_state_tracker (h_base cr)) m;
       if is_event then on_event env retrieve submit_index va_addr header opcode packet_node_index cr m
       else if op CP_INDIRECT_BUFFER_PFE \<or> op CP_INDIRECT_BUFFER_PFD \<or> op CP_INDIRECT_BUFFER_CHAIN \<or> op CP_SET_AMBLE
       then Some (cr\<lparr>m_cur_ib_packet_node_index := packet_node_index\<rparr>, m)
       else if iop CP_LOAD_STATE6 \<or> iop CP_LOAD_STATE6_GEOM \<or> iop CP_LOAD_STATE6_FRAG
       then AppendLoadStateExtBufferNode env retrieve submit_index va_addr packet_node_index cr m
       else if iop CP_MEM_TO_REG then AppendMemRegNodes env retrieve submit_index va_addr packet_node_index cr m
       else if op CP_START_BIN then Some (cr\<lparr>m_start_bin_node_index := packet_node_index\<rparr>, m)
       else if op CP_END_BIN then Some (cr\<lparr>m_start_bin_node_index := UINT64_MAX\<rparr>, m)
       else if op CP_FIXED_STRIDE_DRAW_TABLE then Some (cr\<lparr>m_draw_table_node_index := packet_node_index\<rparr>, m)
       else if op CP_SET_MARKER then on_set_marker env retrieve submit_index va_addr packet_node_index cr m
       else Some (cr, m)
     }"

text \<open>The packet as a shared child of the IB it is in, in both topologies.\<close>

definition add_shared_packet :: "nat \<Rightarrow> creator \<Rightarrow> creator option" where
  "add_shared_packet packet_node_index cr =
     do {
       parent_index \<leftarrow> vec_at (m_shared_node_ib_parent_stack cr) (m_cur_ib_level cr);
       cr \<leftarrow> AddSharedChild kSubmitTopology parent_index packet_node_index cr;
       AddSharedChild kAllEventTopology parent_index packet_node_index cr
     }"

text \<open>A packet within a pass is also a shared child of the pass.\<close>

definition add_to_pass :: "nat \<Rightarrow> creator \<Rightarrow> creator option" where
  "add_to_pass packet_node_index cr =
     (if m_render_marker_index cr \<noteq> UINT64_MAX
      then AddSharedChild kAllEventTopology (m_render_marker_index cr) packet_node_index cr
      else Some cr)"

text \<open>\<^verbatim>\<open>OnPacket\<close> for packets of type 4 and 7, after the state tracker has seen them.\<close>

definition show_packet_node ::
    "hier_env \<Rightarrow> 'm retriever \<Rightarrow> u32 \<Rightarrow> u64 \<Rightarrow> Pm4Header \<Rightarrow> creator \<Rightarrow> 'm \<Rightarrow> (creator \<times> 'm) option" where
  "show_packet_node env retrieve submit_index va_addr header cr m =
     do {
       (packet_node_index, cr, m) \<leftarrow> AddPacketNode env retrieve submit_index va_addr header cr m;
       let cr = push_starts packet_node_index cr;
       DIVE_ASSERT (he_debug env) (length (h_ib_stack cr) = length (m_start_node_stack cr kSubmitTopology));
       cr \<leftarrow> add_shared_packet packet_node_index cr;
       let opcode = (if header_type header = 7 then type7_opcode header else - 1);
       let cr = cr\<lparr>m_cmd_begin_packet_node_indices := m_cmd_begin_packet_node_indices cr @ [packet_node_index]\<rparr>;
       (cr, m) \<leftarrow>
         (if opcode = isa_op (info_isa (he_info env)) CP_SET_DRAW_STATE
          then CacheSetDrawStateGroupInfo env retrieve submit_index va_addr packet_node_index header cr m
          else Some (cr, m));
       (cr, m) \<leftarrow> packet_case env retrieve submit_index va_addr header opcode packet_node_index cr m;
       cr \<leftarrow> add_to_pass packet_node_index cr;
       Some (cr\<lparr>m_last_added_node_index := packet_node_index\<rparr>, m)
     }"

definition OnPacket ::
    "hier_env \<Rightarrow> 'm retriever \<Rightarrow> u32 \<Rightarrow> u32 \<Rightarrow> u64 \<Rightarrow> Pm4Header \<Rightarrow> creator \<Rightarrow> 'm \<Rightarrow> (bool \<times> creator \<times> 'm) option" where
  "OnPacket env retrieve submit_index ib_index va_addr header cr m =
     do {
       (ok, base, m) \<leftarrow> EmulateCallbacksBase_OnPacket (he_debug env) (info_isa (he_info env)) retrieve
          submit_index ib_index va_addr header (h_base cr) m;
       let cr = cr\<lparr>h_base := base\<rparr>;
       if \<not> ok then Some (False, cr, m)
       else if header_type header \<noteq> 4 \<and> header_type header \<noteq> 7 then Some (True, cr, m)
       else do {
         (cr, m) \<leftarrow> show_packet_node env retrieve submit_index va_addr header cr m;
         Some (True, cr, m)
       }
     }"

section \<open>Submits\<close>

definition kEngineTypeStrings :: "string list" where
  "kEngineTypeStrings = [''Universal'', ''Compute'', ''Dma'', ''Timer'', ''Other'', ''None'']"

definition kQueueTypeStrings :: "string list" where
  "kQueueTypeStrings = [''Universal'', ''Compute'', ''Dma'', ''Timer'', ''Other'', ''None'']"

definition submit_description :: "u32 \<Rightarrow> SubmitInfo \<Rightarrow> string option" where
  "submit_description submit_index submit_info =
     do {
       engine \<leftarrow> vec_at kEngineTypeStrings (unat (engine_byte (m_engine_type submit_info)));
       queue \<leftarrow> vec_at kQueueTypeStrings (unat (queue_byte (m_queue_type submit_info)));
       Some (''Submit: '' @ show_nat (unat submit_index) @
         '', Num IBs: '' @ show_nat (length (m_ibs submit_info)) @
         '', Engine: '' @ engine @ '', Queue: '' @ queue @
         '', Engine Index: '' @ show_nat (unat (m_engine_index submit_info)) @
         '', Dummy Submit: '' @ (if m_is_dummy_submit submit_info then ''1'' else ''0''))
     }"

definition OnSubmitStart :: "hier_env \<Rightarrow> u32 \<Rightarrow> SubmitInfo \<Rightarrow> creator \<Rightarrow> creator option" where
  "OnSubmitStart env submit_index submit_info cr =
     do {
       desc \<leftarrow> submit_description submit_index submit_info;
       (i, cr) \<leftarrow> AddNode (he_debug env) kSubmitNode desc (SubmitNode (m_engine_type submit_info) submit_index) cr;
       cr \<leftarrow> add_to_both kRootNodeIndex i cr;
       cr \<leftarrow> SetSharedChildRootNodeIndex kSubmitTopology i i cr;
       cr \<leftarrow> SetSharedChildRootNodeIndex kAllEventTopology i i cr;
       cr \<leftarrow> set_ib_parent i (cr\<lparr>m_cur_submit_node_index := i, m_cur_ib_level := 1\<rparr>);
       Some (cr\<lparr>m_cur_ib_packet_node_index := UINT64_MAX, h_ib_stack := [], m_start_node_stack := (\<lambda>_. []),
         m_render_marker_index := UINT64_MAX,
         h_base := (h_base cr)\<lparr>m_state_tracker := EmulateStateTracker_Reset (m_state_tracker (h_base cr))\<rparr>,
         m_new_event_start := True, m_new_ib_start := True, m_tracking_first_tile_pass_start := False\<rparr>)
     }"

text \<open>
  Sorting the IBs of the submit by their index. The order that \<^verbatim>\<open>std::sort\<close> leaves equal indices in is not
  specified; here it is the old one. The comparison asserts that its nodes are IBs.
\<close>

definition sort_submit_children :: "hier_env \<Rightarrow> creator \<Rightarrow> creator option" where
  "sort_submit_children env cr =
     do {
       children \<leftarrow> vec_at (h_children cr kSubmitTopology) (m_cur_submit_node_index cr);
       let key = (\<lambda>i. GetIbNodeIndex (he_debug env) i (h_nodes cr));
       if length children \<ge> 2 \<and> (\<exists>i\<in>set children. key i = None) then None
       else do {
         cs \<leftarrow> vec_set (m_cur_submit_node_index cr) (sort_key (\<lambda>i. unat (the (key i))) children)
                 (h_children cr kSubmitTopology);
         Some (cr\<lparr>h_children := (h_children cr)(kSubmitTopology := cs)\<rparr>)
       }
     }"

definition present_description :: "hier_env \<Rightarrow> nat \<Rightarrow> PresentInfo \<Rightarrow> string option" where
  "present_description env i p =
     (if p_valid_data p
      then do {
        format_string \<leftarrow> he_format_string env (p_vk_format p);
        color_space_string \<leftarrow> he_color_space_string env (p_vk_color_space p);
        engine \<leftarrow> vec_at kEngineTypeStrings (unat (p_engine_type p));
        queue \<leftarrow> vec_at kQueueTypeStrings (unat (p_queue_type p));
        Some (''Present: '' @ show_nat i @ '', FullScreen: '' @ (if p_full_screen p then ''1'' else ''0'') @
          '', Engine: '' @ engine @ '', Queue: '' @ queue @ '', SurfaceAddr: '' @ hex (p_addr p) @
          '', SurfaceSize: '' @ dec (p_size p) @ '', VkFormat: '' @ format_string @
          '', VkColorSpaceKHR: '' @ color_space_string)
      }
      else Some (''Present: '' @ show_nat i))"

fun add_presents :: "hier_env \<Rightarrow> u32 \<Rightarrow> nat \<Rightarrow> PresentInfo list \<Rightarrow> creator \<Rightarrow> creator option" where
  "add_presents env submit_index i [] cr = Some cr"
| "add_presents env submit_index i (p # ps) cr =
     (if submit_index \<noteq> p_submit_index p then add_presents env submit_index (i + 1) ps cr
      else do {
        desc \<leftarrow> present_description env i p;
        (node_index, cr) \<leftarrow> AddNode (he_debug env) kPresentNode desc 0 cr;
        cr \<leftarrow> AddChild kAllEventTopology kRootNodeIndex node_index cr;
        add_presents env submit_index (i + 1) ps cr
      })"

definition OnSubmitEnd :: "hier_env \<Rightarrow> u32 \<Rightarrow> creator \<Rightarrow> creator option" where
  "OnSubmitEnd env submit_index cr =
     do {
       cr \<leftarrow> sort_submit_children env cr;
       add_presents env submit_index 0 (he_presents env) cr
     }"

section \<open>The trees\<close>

definition creator_env ::
    "hier_env \<Rightarrow> 'm retriever \<Rightarrow> (u32 \<Rightarrow> u64 \<Rightarrow> u64 \<Rightarrow> 'm \<Rightarrow> bool option) \<Rightarrow> (creator option, 'm) emu_env" where
  "creator_env env retrieve is_valid =
    \<lparr>env_debug = he_debug env, env_isa = info_isa (he_info env), env_retrieve = retrieve, env_is_valid = is_valid,
     env_OnIbStart = (\<lambda>s i ib type c.
       Option.bind c (\<lambda>cr. map_option (apsnd Some) (OnIbStart env s i ib type cr))),
     env_OnIbEnd = (\<lambda>s i ib c.
       Option.bind c (\<lambda>cr. map_option (apsnd Some) (OnIbEnd env s i ib cr))),
     env_OnPacket = (\<lambda>s i va h c m.
       Option.bind c (\<lambda>cr. map_option (apsnd (apfst Some)) (OnPacket env retrieve s i va h cr m))),
     env_OnSubmitStart = (\<lambda>i info c. Option.bind c (OnSubmitStart env i info)),
     env_OnSubmitEnd = (\<lambda>i info c. Option.bind c (OnSubmitEnd env i))\<rparr>"

text \<open>One topology from the collected lists; \<^verbatim>\<open>std::move\<close> leaves the moved vectors empty.\<close>

definition create_topology_of :: "bool \<Rightarrow> TopologyType \<Rightarrow> creator \<Rightarrow> creator option" where
  "create_topology_of debug t cr =
     map_option
       (\<lambda>topology. cr\<lparr>h_topology := (h_topology cr)(t := topology),
          m_node_start_shared_children := (m_node_start_shared_children cr)(t := []),
          m_node_end_shared_children := (m_node_end_shared_children cr)(t := []),
          m_node_root_node_indices := (m_node_root_node_indices cr)(t := [])\<rparr>)
       (create_topology debug (h_children cr t) (h_shared_children cr t) (m_node_start_shared_children cr t)
          (m_node_end_shared_children cr t) (m_node_root_node_indices cr t) (h_topology cr t))"

definition CreateTopologies :: "bool \<Rightarrow> creator \<Rightarrow> creator option" where
  "CreateTopologies debug cr =
     Option.bind (create_topology_of debug kSubmitTopology cr) (create_topology_of debug kAllEventTopology)"

text \<open>
  \<^verbatim>\<open>CreateTrees\<close> empties the hierarchy but not the lists of the creator. The variant without a capture
  stops before the emulation, for a creator that merges several captures.
\<close>

definition CreateTrees_start :: "hier_env \<Rightarrow> bool \<Rightarrow> creator \<Rightarrow> creator option" where
  "CreateTrees_start env flatten_chain_nodes cr =
     do {
       let cr = cr\<lparr>h_nodes := Nodes_new, h_exclude := (\<lambda>_. {}), h_topology := (\<lambda>_. SharedNodeTopology_new)\<rparr>;
       (root_node_index, cr) \<leftarrow> AddNode (he_debug env) kRootNode [] 0 cr;
       DIVE_ASSERT (he_debug env) (root_node_index = kRootNodeIndex);
       Some (cr\<lparr>m_num_events := 0, m_flatten_chain_nodes := flatten_chain_nodes\<rparr>)
     }"

definition CreateTrees ::
    "hier_env \<Rightarrow> 'm retriever \<Rightarrow> (u32 \<Rightarrow> u64 \<Rightarrow> u64 \<Rightarrow> 'm \<Rightarrow> bool option) \<Rightarrow> SubmitInfo list \<Rightarrow> bool \<Rightarrow>
     creator \<Rightarrow> 'm \<Rightarrow> (bool \<times> creator \<times> 'm) option" where
  "CreateTrees env retrieve is_valid submits flatten_chain_nodes cr m =
     do {
       cr \<leftarrow> CreateTrees_start env flatten_chain_nodes cr;
       (ok, c, m) \<leftarrow> ProcessSubmits (creator_env env retrieve is_valid) submits (Some cr) m;
       cr \<leftarrow> c;
       if \<not> ok then Some (False, cr, m)
       else do {
         cr \<leftarrow> CreateTopologies (he_debug env) cr;
         Some (True, cr, m)
       }
     }"

text \<open>
  The variant for a command buffer without a capture: one submit of one IB at address 0. (The vector of
  submits is copied as if \<^verbatim>\<open>SubmitInfo\<close> were trivial, see \<open>Core_Vector\<close>.)
\<close>

definition CreateTrees_stream ::
    "hier_env \<Rightarrow> EngineType \<Rightarrow> QueueType \<Rightarrow> u32 list \<Rightarrow> u32 \<Rightarrow> creator \<Rightarrow> (bool \<times> creator) option" where
  "CreateTrees_stream env engine_type queue_type command_dwords size_in_dwords cr =
     (let ib_info = \<lparr>ib_va_addr = 0, ib_size_in_dwords = size_in_dwords, ib_level = 0, ib_enable_mask = 0,
            ib_skip = False\<rparr>;
          submit_info = \<lparr>m_engine_type = engine_type, m_queue_type = queue_type, m_engine_index = 0,
            m_is_dummy_submit = False, m_ibs = [ib_info]\<rparr>;
          mem_manager = \<lparr>m_command_dwords = command_dwords, m_size_in_dwords = size_in_dwords\<rparr> in
      map_option (\<lambda>(ok, cr, m). (ok, cr))
        (CreateTrees env TempMemoryManager_RetrieveMemoryData (TempMemoryManager_IsValid (he_debug env))
          [submit_info] False cr mem_manager))"

end
