(* ===== verification/Hier_Trees.thy ===== *)
theory Hier_Trees
  imports Hier_Callbacks
begin

text \<open>
  What adding nodes does to the lists of children (\<^verbatim>\<open>src/dive_core/command_hierarchy.cpp\<close>): every function
  that appends nodes keeps the lists of children of both topologies forests, because it makes a node the
  child of an older node, and only a node that nothing has as a child yet.

  \<open>ext S cr cr'\<close> says that \<open>cr'\<close> is \<open>cr\<close> with nodes of types \<open>S\<close> appended: the old nodes keep their
  data, none of them becomes a child, the state of the parser and the events are as before, and the lists
  of children are well formed (\<open>tree_ok\<close>).
\<close>

section \<open>Well-formed lists of children\<close>

definition num_nodes :: "creator \<Rightarrow> nat" where
  "num_nodes cr = length (m_node_type (h_nodes cr))"

definition attached :: "TopologyType \<Rightarrow> creator \<Rightarrow> nat set" where
  "attached t cr = set (concat (h_children cr t))"

text \<open>Node \<open>c\<close> is a child of node \<open>p\<close>.\<close>

definition below :: "TopologyType \<Rightarrow> nat \<Rightarrow> nat \<Rightarrow> creator \<Rightarrow> bool" where
  "below t p c cr \<longleftrightarrow> p < length (h_children cr t) \<and> c \<in> set (h_children cr t ! p)"

definition tree_ok :: "creator \<Rightarrow> bool" where
  "tree_ok cr \<longleftrightarrow> nodes_ok (h_nodes cr) \<and> 0 < num_nodes cr \<and> num_nodes cr \<le> UINT64_MAX \<and>
     (\<forall>t. length (h_children cr t) = num_nodes cr \<and> length (h_shared_children cr t) = num_nodes cr \<and>
          forest (h_children cr t))"

text \<open>The state of the parser: everything but the nodes and the lists with an entry per node.\<close>

definition parse_of :: "creator \<Rightarrow> creator" where
  "parse_of cr = cr\<lparr>h_nodes := Nodes_new, h_children := (\<lambda>_. []), h_shared_children := (\<lambda>_. []),
     m_node_start_shared_children := (\<lambda>_. []), m_node_end_shared_children := (\<lambda>_. []),
     m_node_root_node_indices := (\<lambda>_. [])\<rparr>"

lemma parse_of_fields:
  assumes "parse_of cr' = parse_of cr"
  shows "h_exclude cr' = h_exclude cr" "h_topology cr' = h_topology cr" "h_base cr' = h_base cr"
    "m_render_marker_index cr' = m_render_marker_index cr" "h_ib_stack cr' = h_ib_stack cr"
    "m_start_bin_node_index cr' = m_start_bin_node_index cr" "m_draw_table_node_index cr' = m_draw_table_node_index cr"
    "m_num_events cr' = m_num_events cr" "m_cur_submit_node_index cr' = m_cur_submit_node_index cr"
    "m_cur_ib_level cr' = m_cur_ib_level cr"
proof -
  show "h_exclude cr' = h_exclude cr" "h_topology cr' = h_topology cr" "h_base cr' = h_base cr"
    "m_render_marker_index cr' = m_render_marker_index cr" "h_ib_stack cr' = h_ib_stack cr"
    "m_start_bin_node_index cr' = m_start_bin_node_index cr" "m_draw_table_node_index cr' = m_draw_table_node_index cr"
    "m_num_events cr' = m_num_events cr" "m_cur_submit_node_index cr' = m_cur_submit_node_index cr"
    "m_cur_ib_level cr' = m_cur_ib_level cr"
    using assms [THEN arg_cong [where f = h_exclude]] assms [THEN arg_cong [where f = h_topology]]
      assms [THEN arg_cong [where f = h_base]] assms [THEN arg_cong [where f = m_render_marker_index]]
      assms [THEN arg_cong [where f = h_ib_stack]] assms [THEN arg_cong [where f = m_start_bin_node_index]]
      assms [THEN arg_cong [where f = m_draw_table_node_index]] assms [THEN arg_cong [where f = m_num_events]]
      assms [THEN arg_cong [where f = m_cur_submit_node_index]] assms [THEN arg_cong [where f = m_cur_ib_level]]
    by (simp_all add: parse_of_def)
qed

definition ext :: "NodeType set \<Rightarrow> creator \<Rightarrow> creator \<Rightarrow> bool" where
  "ext S cr cr' \<longleftrightarrow> tree_ok cr' \<and> parse_of cr' = parse_of cr \<and>
     (\<exists>added. zip (m_node_type (h_nodes cr')) (m_aux_info (h_nodes cr')) =
        zip (m_node_type (h_nodes cr)) (m_aux_info (h_nodes cr)) @ added \<and> fst ` set added \<subseteq> S) \<and>
     m_event_node_indices (h_nodes cr') = m_event_node_indices (h_nodes cr) \<and>
     num_nodes cr \<le> num_nodes cr' \<and>
     (\<forall>t. attached t cr' \<inter> {..<num_nodes cr} \<subseteq> attached t cr \<and>
          (\<forall>p c. below t p c cr \<longrightarrow> below t p c cr'))"

lemma ext_refl: "tree_ok cr \<Longrightarrow> ext S cr cr"
  by (auto simp: ext_def)

lemma ext_tree: "ext S cr cr' \<Longrightarrow> tree_ok cr'"
  by (simp add: ext_def)

lemma ext_num: "ext S cr cr' \<Longrightarrow> num_nodes cr \<le> num_nodes cr'"
  by (simp add: ext_def)

lemma ext_parse: "ext S cr cr' \<Longrightarrow> parse_of cr' = parse_of cr"
  by (simp add: ext_def)

lemma extI:
  assumes "tree_ok cr'" "parse_of cr' = parse_of cr"
    and "zip (m_node_type (h_nodes cr')) (m_aux_info (h_nodes cr')) =
        zip (m_node_type (h_nodes cr)) (m_aux_info (h_nodes cr)) @ added" "fst ` set added \<subseteq> S"
    and "m_event_node_indices (h_nodes cr') = m_event_node_indices (h_nodes cr)"
    and "num_nodes cr \<le> num_nodes cr'"
    and "\<And>t c. c \<in> attached t cr' \<Longrightarrow> c < num_nodes cr \<Longrightarrow> c \<in> attached t cr"
    and "\<And>t p c. below t p c cr \<Longrightarrow> below t p c cr'"
  shows "ext S cr cr'"
  unfolding ext_def using assms(1,2,5,6,8) by (intro conjI exI [of _ added] assms(3,4) allI impI) (auto dest: assms(7))

lemma extD:
  assumes "ext S cr cr'"
  shows "c \<in> attached t cr' \<Longrightarrow> c < num_nodes cr \<Longrightarrow> c \<in> attached t cr" "below t p c cr \<Longrightarrow> below t p c cr'"
    "m_event_node_indices (h_nodes cr') = m_event_node_indices (h_nodes cr)"
  using assms unfolding ext_def by (elim conjE, blast)+

lemma ext_added:
  assumes "ext S cr cr'"
  obtains added where "zip (m_node_type (h_nodes cr')) (m_aux_info (h_nodes cr')) =
      zip (m_node_type (h_nodes cr)) (m_aux_info (h_nodes cr)) @ added" "fst ` set added \<subseteq> S"
  using assms unfolding ext_def by (elim conjE exE)

lemma ext_trans:
  assumes "ext S cr cr1" "ext S' cr1 cr2"
  shows "ext (S \<union> S') cr cr2"
proof -
  obtain a where a: "zip (m_node_type (h_nodes cr1)) (m_aux_info (h_nodes cr1)) =
      zip (m_node_type (h_nodes cr)) (m_aux_info (h_nodes cr)) @ a" "fst ` set a \<subseteq> S"
    by (rule ext_added [OF assms(1)])
  obtain b where b: "zip (m_node_type (h_nodes cr2)) (m_aux_info (h_nodes cr2)) =
      zip (m_node_type (h_nodes cr1)) (m_aux_info (h_nodes cr1)) @ b" "fst ` set b \<subseteq> S'"
    by (rule ext_added [OF assms(2)])
  show ?thesis
  proof (rule extI)
    show "zip (m_node_type (h_nodes cr2)) (m_aux_info (h_nodes cr2)) =
        zip (m_node_type (h_nodes cr)) (m_aux_info (h_nodes cr)) @ (a @ b)"
      using a(1) b(1) by simp
    show "fst ` set (a @ b) \<subseteq> S \<union> S'"
      using a(2) b(2) by auto
    show "c \<in> attached t cr" if "c \<in> attached t cr2" "c < num_nodes cr" for t c
      using extD(1) [OF assms(1) extD(1) [OF assms(2) that(1)]] that(2) ext_num [OF assms(1)] by simp
    show "below t p c cr2" if "below t p c cr" for t p c
      by (rule extD(2) [OF assms(2) extD(2) [OF assms(1) that]])
    show "tree_ok cr2"
      by (rule ext_tree [OF assms(2)])
    show "parse_of cr2 = parse_of cr"
      by (rule trans [OF ext_parse [OF assms(2)] ext_parse [OF assms(1)]])
    show "m_event_node_indices (h_nodes cr2) = m_event_node_indices (h_nodes cr)"
      by (rule trans [OF extD(3) [OF assms(2)] extD(3) [OF assms(1)]])
    show "num_nodes cr \<le> num_nodes cr2"
      by (rule order_trans [OF ext_num [OF assms(1)] ext_num [OF assms(2)]])
  qed
qed

lemma ext_mono:
  assumes "ext S cr cr'" "S \<subseteq> S'"
  shows "ext S' cr cr'"
  using assms(1) unfolding ext_def
proof (elim conjE exE, intro conjI)
  fix added
  assume "zip (m_node_type (h_nodes cr')) (m_aux_info (h_nodes cr')) =
      zip (m_node_type (h_nodes cr)) (m_aux_info (h_nodes cr)) @ added" "fst ` set added \<subseteq> S"
  then show "\<exists>added. zip (m_node_type (h_nodes cr')) (m_aux_info (h_nodes cr')) =
      zip (m_node_type (h_nodes cr)) (m_aux_info (h_nodes cr)) @ added \<and> fst ` set added \<subseteq> S'"
    using assms(2) by blast
qed

lemma attached_less: "tree_ok cr \<Longrightarrow> c \<in> attached t cr \<Longrightarrow> c < num_nodes cr"
  using forestD(2) [of "h_children cr t"] by (fastforce simp: tree_ok_def attached_def in_set_conv_nth)


section \<open>Growing a forest\<close>

lemma forestI:
  assumes "distinct (concat cs)" "\<And>i c. i < length cs \<Longrightarrow> c \<in> set (cs ! i) \<Longrightarrow> i < c \<and> c < length cs"
  shows "forest cs"
  using assms unfolding forest_def by blast

lemma forest_snoc:
  assumes "forest cs"
  shows "forest (cs @ [[]])"
proof (rule forestI)
  show "distinct (concat (cs @ [[]]))"
    using forest_distinct [OF assms] by simp
  show "i < c \<and> c < length (cs @ [[]])" if "i < length (cs @ [[]])" "c \<in> set ((cs @ [[]]) ! i)" for i c
  proof (cases "i < length cs")
    case True
    then have c: "c \<in> set (cs ! i)"
      using that(2) by (simp add: nth_append)
    show ?thesis
      using forestD [OF assms True c] by simp
  qed (use that in \<open>simp add: nth_append\<close>)
qed

lemma concat_update:
  assumes "p < length cs"
  obtains A B where "concat cs = A @ cs ! p @ B" "\<And>ys. concat (cs[p := ys]) = A @ ys @ B"
proof
  show "concat cs = concat (take p cs) @ cs ! p @ concat (drop (Suc p) cs)"
    by (subst id_take_nth_drop [OF assms]) simp
  show "concat (cs[p := ys]) = concat (take p cs) @ ys @ concat (drop (Suc p) cs)" for ys
    by (simp add: upd_conv_take_nth_drop [OF assms])
qed

lemma forest_update:
  assumes "forest cs" "p < length cs" "distinct (concat (cs[p := ys]))"
    and "\<And>c. c \<in> set ys \<Longrightarrow> p < c \<and> c < length cs"
  shows "forest (cs[p := ys])"
proof (rule forestI [OF assms(3)])
  show "i < c \<and> c < length (cs[p := ys])" if "i < length (cs[p := ys])" "c \<in> set (cs[p := ys] ! i)" for i c
  proof (cases "i = p")
    case True
    then show ?thesis
      using that assms(2) assms(4) [of c] by simp
  next
    case False
    then have "i < length cs" "c \<in> set (cs ! i)"
      using that by simp_all
    from forestD [OF assms(1) this] show ?thesis
      by simp
  qed
qed

lemma forest_add:
  assumes "forest cs" "p < c" "c < length cs" "c \<notin> set (concat cs)"
  shows "forest (cs[p := cs ! p @ [c]])" "set (concat (cs[p := cs ! p @ [c]])) = insert c (set (concat cs))"
proof -
  have p: "p < length cs"
    using assms(2,3) by simp
  obtain A B where AB: "concat cs = A @ cs ! p @ B" "\<And>ys. concat (cs[p := ys]) = A @ ys @ B"
    using concat_update [OF p] by blast
  show "set (concat (cs[p := cs ! p @ [c]])) = insert c (set (concat cs))"
    unfolding AB by auto
  have "distinct (A @ cs ! p @ B)" "c \<notin> set (A @ cs ! p @ B)"
    using assms(4) forest_distinct [OF assms(1)] unfolding AB(1) by simp_all
  then have "distinct (concat (cs[p := cs ! p @ [c]]))"
    unfolding AB by auto
  then show "forest (cs[p := cs ! p @ [c]])"
  proof (rule forest_update [OF assms(1) p])
    show "p < x \<and> x < length cs" if "x \<in> set (cs ! p @ [c])" for x
      using that forestD [OF assms(1) p, of x] assms(2,3) by (cases "x = c") simp_all
  qed
qed

lemma forest_permute:
  assumes "forest cs" "p < length cs" "mset ys = mset (cs ! p)"
  shows "forest (cs[p := ys])" "set (concat (cs[p := ys])) = set (concat cs)"
proof -
  obtain A B where AB: "concat cs = A @ cs ! p @ B" "\<And>ys. concat (cs[p := ys]) = A @ ys @ B"
    using concat_update [OF assms(2)] by blast
  have ys: "mset (A @ ys @ B) = mset (A @ cs ! p @ B)" "set ys = set (cs ! p)"
    using assms(3) mset_eq_setD [OF assms(3)] by simp_all
  have "distinct (concat (cs[p := ys]))"
    using forest_distinct [OF assms(1)] mset_eq_imp_distinct_iff [OF ys(1)] by (simp only: AB)
  then show "forest (cs[p := ys])"
  proof (rule forest_update [OF assms(1,2)])
    show "p < x \<and> x < length cs" if "x \<in> set ys" for x
      using that forestD [OF assms(1,2), of x] ys(2) by simp
  qed
  show "set (concat (cs[p := ys])) = set (concat cs)"
    using ys(2) by (simp add: AB)
qed

section \<open>Adding nodes and children\<close>

lemma add_topology_node_fields:
  assumes "add_topology_node debug n t cr = Some cr'"
  shows "h_nodes cr' = h_nodes cr" "h_children cr' = (h_children cr)(t := h_children cr t @ [[]])"
    "h_shared_children cr' = (h_shared_children cr)(t := h_shared_children cr t @ [[]])" "parse_of cr' = parse_of cr"
proof -
  have "cr' = cr\<lparr>h_children := (h_children cr)(t := h_children cr t @ [[]]),
                   h_shared_children := (h_shared_children cr)(t := h_shared_children cr t @ [[]]),
                   m_node_start_shared_children :=
                     (m_node_start_shared_children cr)(t := m_node_start_shared_children cr t @ [Raw]),
                   m_node_end_shared_children :=
                     (m_node_end_shared_children cr)(t := m_node_end_shared_children cr t @ [Raw]),
                   m_node_root_node_indices :=
                     (m_node_root_node_indices cr)(t := m_node_root_node_indices cr t @ [Raw])\<rparr>"
    using assms unfolding add_topology_node_def Let_def by (auto simp: bind_eq_Some_conv)
  then show "h_nodes cr' = h_nodes cr" "h_children cr' = (h_children cr)(t := h_children cr t @ [[]])"
    "h_shared_children cr' = (h_shared_children cr)(t := h_shared_children cr t @ [[]])" "parse_of cr' = parse_of cr"
    by (simp_all add: parse_of_def)
qed

lemma AddNode_fields:
  assumes "AddNode debug T desc aux cr = Some (n, cr')"
  shows "n = num_nodes cr" "n < UINT64_MAX" "m_node_type (h_nodes cr') = m_node_type (h_nodes cr) @ [T]"
    "m_description (h_nodes cr') = m_description (h_nodes cr) @ [desc]"
    "m_aux_info (h_nodes cr') = m_aux_info (h_nodes cr) @ [aux]"
    "m_event_node_indices (h_nodes cr') = m_event_node_indices (h_nodes cr)"
    "h_children cr' t = h_children cr t @ [[]]" "h_shared_children cr' t = h_shared_children cr t @ [[]]"
    "parse_of cr' = parse_of cr"
proof -
  obtain ns cr1 where ns: "Nodes_AddNode debug T desc aux (h_nodes cr) = Some (n, ns)"
    and cr1: "add_topology_node debug n kSubmitTopology (cr\<lparr>h_nodes := ns\<rparr>) = Some cr1"
    and cr': "add_topology_node debug n kAllEventTopology cr1 = Some cr'"
    using assms by (auto simp: AddNode_def bind_eq_Some_conv)
  note r = Nodes_AddNode_result [OF ns] add_topology_node_fields [OF cr1] add_topology_node_fields [OF cr']
  show "h_children cr' t = h_children cr t @ [[]]" "h_shared_children cr' t = h_shared_children cr t @ [[]]"
    using r by (cases t; simp)+
  have "parse_of (cr\<lparr>h_nodes := ns\<rparr>) = parse_of cr"
    by (simp add: parse_of_def)
  then show "n = num_nodes cr" "n < UINT64_MAX" "m_node_type (h_nodes cr') = m_node_type (h_nodes cr) @ [T]"
    "m_description (h_nodes cr') = m_description (h_nodes cr) @ [desc]"
    "m_aux_info (h_nodes cr') = m_aux_info (h_nodes cr) @ [aux]"
    "m_event_node_indices (h_nodes cr') = m_event_node_indices (h_nodes cr)"
    "parse_of cr' = parse_of cr"
    using r by (simp_all add: num_nodes_def)
qed

lemma AddNode_ext:
  assumes "tree_ok cr" "AddNode debug T desc aux cr = Some (n, cr')"
  shows "ext {T} cr cr'" "n = num_nodes cr" "num_nodes cr' = Suc n" "attached t cr' = attached t cr"
    "n \<notin> attached t cr'" "n < UINT64_MAX"
proof -
  note f = AddNode_fields [OF assms(2)]
  show n: "n = num_nodes cr" and num: "num_nodes cr' = Suc n" and "n < UINT64_MAX"
    using f by (simp_all add: num_nodes_def)
  show att: "attached t cr' = attached t cr" for t
    by (simp add: attached_def f(7))
  then show "n \<notin> attached t cr'"
    using attached_less [OF assms(1), of n t] n by auto
  have "tree_ok cr'"
    using assms(1) f n num forest_snoc by (simp add: tree_ok_def nodes_ok_def Suc_le_eq)
  moreover have "length (m_node_type (h_nodes cr)) = length (m_aux_info (h_nodes cr))"
    using assms(1) by (simp add: tree_ok_def nodes_ok_def)
  moreover have "below t p c cr \<Longrightarrow> below t p c cr'" for t p c
    by (simp add: below_def f(7) nth_append)
  ultimately show "ext {T} cr cr'"
    unfolding ext_def using f n num att by (auto simp: zip_append)
qed

text \<open>A node becomes a child: it is older than nothing it is put below, and new to the topology.\<close>

lemma AddChild_fields:
  assumes "AddChild t p c cr = Some cr'"
  shows "p < length (h_children cr t)"
    "h_children cr' = (h_children cr)(t := (h_children cr t)[p := h_children cr t ! p @ [c]])"
    "h_nodes cr' = h_nodes cr" "h_shared_children cr' = h_shared_children cr" "parse_of cr' = parse_of cr"
  using assms by (auto simp: AddChild_def vec_at_def vec_set_def parse_of_def split: if_splits)

lemma AddChild_below:
  assumes "AddChild t p c cr = Some cr'"
  shows "below t p c cr'" "below u q d cr \<Longrightarrow> below u q d cr'"
  using AddChild_fields(1,2) [OF assms] by (auto simp: below_def nth_list_update)

lemma AddChild_tree:
  assumes "tree_ok cr" "p < c" "c < num_nodes cr" "c \<notin> attached t cr" "AddChild t p c cr = Some cr'"
  shows "tree_ok cr'" "attached t cr' = insert c (attached t cr)" "u \<noteq> t \<Longrightarrow> attached u cr' = attached u cr"
    "num_nodes cr' = num_nodes cr"
proof -
  note f = AddChild_fields [OF assms(5)]
  have cs: "forest (h_children cr t)" "length (h_children cr t) = num_nodes cr"
    using assms(1) by (simp_all add: tree_ok_def)
  note add = forest_add [OF cs(1) assms(2)]
  show num: "num_nodes cr' = num_nodes cr"
    by (simp add: num_nodes_def f(3))
  show "attached t cr' = insert c (attached t cr)"
    using add(2) assms(3,4) cs(2) by (simp add: attached_def f(2))
  show "attached u cr' = attached u cr" if "u \<noteq> t"
    using that by (simp add: attached_def f(2))
  have "forest ((h_children cr t)[p := h_children cr t ! p @ [c]])"
    using add(1) assms(3,4) cs(2) by (simp add: attached_def)
  then show "tree_ok cr'"
    using assms(1) f(2-4) num by (simp add: tree_ok_def)
qed

lemma ext_AddChild:
  assumes "ext S cr0 cr" "num_nodes cr0 \<le> c" "p < c" "c < num_nodes cr" "c \<notin> attached t cr"
    and "AddChild t p c cr = Some cr'"
  shows "ext S cr0 cr'"
proof -
  note f = AddChild_fields [OF assms(6)] AddChild_tree [OF ext_tree [OF assms(1)] assms(3-6)]
  have "attached u cr' \<subseteq> insert c (attached u cr)" for u
    using f(7) f(8) [of u] by (cases "u = t") auto
  then have "attached u cr' \<inter> {..<num_nodes cr0} \<subseteq> attached u cr \<inter> {..<num_nodes cr0}" for u
    using assms(2) by fastforce
  moreover have "below u q d cr0 \<Longrightarrow> below u q d cr'" for u q d
    using assms(1) AddChild_below(2) [OF assms(6)] by (simp add: ext_def)
  ultimately show ?thesis
    using assms(1) f(3,5,6,9) unfolding ext_def by fastforce
qed

lemma add_to_both_ext:
  assumes "ext S cr0 cr" "num_nodes cr0 \<le> c" "p < c" "c < num_nodes cr" "\<And>t. c \<notin> attached t cr"
    and "add_to_both p c cr = Some cr'"
  shows "ext S cr0 cr'"
proof -
  obtain cr1 where 1: "AddChild kSubmitTopology p c cr = Some cr1" and 2: "AddChild kAllEventTopology p c cr1 = Some cr'"
    using assms(6) by (auto simp: add_to_both_def bind_eq_Some_conv)
  note t1 = AddChild_tree [OF ext_tree [OF assms(1)] assms(3,4,5) 1]
  have "c < num_nodes cr1" "c \<notin> attached kAllEventTopology cr1"
    using t1(3,4) assms(4,5) by simp_all
  then show ?thesis
    using ext_AddChild [OF ext_AddChild [OF assms(1-5) 1] assms(2,3) _ _ 2] by blast
qed

end
