(* ===== verification/Hier_Append.thy ===== *)
theory Hier_Append
  imports Hier_Trees
begin

text \<open>
  The functions of \<^verbatim>\<open>CommandHierarchyCreator\<close> (\<^verbatim>\<open>src/dive_core/command_hierarchy.cpp\<close>) that show a packet: each
  of them only appends nodes for registers and fields to the hierarchy (\<open>ext shown_types\<close>), whatever the
  memory and the register information, and \<^verbatim>\<open>AddPacketNode\<close> puts a packet node before them.
\<close>

abbreviation shown_types :: "NodeType set" where
  "shown_types \<equiv> {kRegNode, kFieldNode}"

lemma ext_detached: "ext S cr cr' \<Longrightarrow> c < num_nodes cr \<Longrightarrow> c \<notin> attached t cr \<Longrightarrow> c \<notin> attached t cr'"
  unfolding ext_def by blast

lemma ext_shown: "ext shown_types cr cr1 \<Longrightarrow> ext shown_types cr1 cr2 \<Longrightarrow> ext shown_types cr cr2"
  using ext_trans by fastforce

lemma ext_less: "ext S cr cr' \<Longrightarrow> p < num_nodes cr \<Longrightarrow> p < num_nodes cr'"
  using ext_num by fastforce

lemma add_field_node_ext:
  assumes "tree_ok cr" "p \<noteq> num_nodes cr" "add_field_node debug p desc cr = Some (n, cr')"
  shows "ext shown_types cr cr'" "n = num_nodes cr" "n < num_nodes cr'"
proof -
  obtain cr1 where 1: "AddNode debug kFieldNode desc (RegFieldNode False) cr = Some (n, cr1)"
    and 2: "add_to_both p n cr1 = Some cr'"
    using assms(3) by (auto simp: add_field_node_def bind_eq_Some_conv)
  note a = AddNode_ext [OF assms(1) 1]
  have shown: "ext shown_types cr cr1"
    using ext_mono [OF a(1)] by simp
  have "p < length (h_children cr1 kSubmitTopology)"
    using 2 by (auto simp: add_to_both_def bind_eq_Some_conv dest: AddChild_fields(1))
  then have p: "p < n"
    using a(2,3) assms(2) ext_tree [OF a(1)] by (simp add: tree_ok_def)
  have n: "num_nodes cr \<le> n" "n < num_nodes cr1"
    using a(2,3) by simp_all
  show e: "ext shown_types cr cr'"
    by (rule add_to_both_ext [OF shown n(1) p n(2) a(5) 2])
  have "ext {} cr1 cr1"
    by (rule ext_refl [OF ext_tree [OF a(1)]])
  show "n = num_nodes cr"
    by (rule a(2))
  obtain cr2 where 3: "AddChild kSubmitTopology p n cr1 = Some cr2" and 4: "AddChild kAllEventTopology p n cr2 = Some cr'"
    using 2 by (auto simp: add_to_both_def bind_eq_Some_conv)
  show "n < num_nodes cr'"
    using n(2) AddChild_fields(3) [OF 3] AddChild_fields(3) [OF 4] by (simp add: num_nodes_def)
qed

text \<open>What holds of every result of a computation that may be undefined.\<close>

definition post :: "('a \<Rightarrow> bool) \<Rightarrow> 'a option \<Rightarrow> bool" where
  "post R x \<longleftrightarrow> (\<forall>y. x = Some y \<longrightarrow> R y)"

lemma postD: "post R x \<Longrightarrow> x = Some y \<Longrightarrow> R y"
  by (simp add: post_def)

lemma post_None: "post R None"
  by (simp add: post_def)

lemma post_Some: "R y \<Longrightarrow> post R (Some y)"
  by (simp add: post_def)

lemma post_bind: "(\<And>y. x = Some y \<Longrightarrow> post R (f y)) \<Longrightarrow> post R (Option.bind x f)"
  by (auto simp: post_def bind_eq_Some_conv)

lemma post_map: "post (\<lambda>y. R (f y)) x \<Longrightarrow> post R (map_option f x)"
  by (auto simp: post_def)

lemma post_prod: "(\<And>a b. p = (a, b) \<Longrightarrow> post R (f a b)) \<Longrightarrow> post R (case p of (a, b) \<Rightarrow> f a b)"
  by (cases p) simp

lemma post_if: "(b \<Longrightarrow> post R x) \<Longrightarrow> (\<not> b \<Longrightarrow> post R y) \<Longrightarrow> post R (if b then x else y)"
  by simp

lemma post_option:
  "(x = None \<Longrightarrow> post R a) \<Longrightarrow> (\<And>y. x = Some y \<Longrightarrow> post R (f y)) \<Longrightarrow>
   post R (case x of None \<Rightarrow> a | Some y \<Rightarrow> f y)"
  by (cases x) simp_all

lemma post_block:
  "\<lbrakk>c = kTex \<Longrightarrow> post R x; c = kShader \<Longrightarrow> post R y; c = kUAV \<Longrightarrow> post R z\<rbrakk> \<Longrightarrow>
   post R (case c of kTex \<Rightarrow> x | kShader \<Rightarrow> y | kUAV \<Rightarrow> z)"
  by (cases c) simp_all

lemmas post_rules = post_bind post_prod post_if post_option post_block post_None

section \<open>Registers\<close>

lemma add_reg_fields_ext:
  "tree_ok cr \<Longrightarrow> r < num_nodes cr \<Longrightarrow> add_reg_fields env r v fs cr = Some cr' \<Longrightarrow> ext shown_types cr cr'"
proof (induction env r v fs cr rule: add_reg_fields.induct)
  case (2 env r v f fs cr)
  obtain shown n cr1 where s: "show_field env (rf_enum_handle f) (rf_type f) (reg_field_value f v)
                 (rf_bit_width f) (rf_radix f) = Some shown"
    and 1: "add_field_node (he_debug env) r (rf_name f @ '': '' @ shown) cr = Some (n, cr1)"
    and k: "add_reg_fields env r v fs cr1 = Some cr'"
    using "2.prems"(3) by (auto simp: bind_eq_Some_conv)
  have e: "ext shown_types cr cr1"
    using add_field_node_ext(1) [OF "2.prems"(1) _ 1] "2.prems"(2) by simp
  show ?case
    using ext_shown [OF e "2.IH" [OF s 1 refl ext_tree [OF e] ext_less [OF e "2.prems"(2)] k]] .
qed (simp add: ext_refl)

lemma AddRegisterNode_ext:
  assumes "tree_ok cr" "AddRegisterNode env v info cr = Some (r, cr')"
  shows "ext shown_types cr cr'" "r = num_nodes cr" "r < num_nodes cr'" "r \<notin> attached t cr'"
proof -
  obtain desc v' cr1 where 1: "AddNode (he_debug env) kRegNode desc (RegFieldNode False) cr = Some (r, cr1)"
    and 2: "add_reg_fields env r v' (ri_fields info) cr1 = Some cr'"
    using assms(2) by (auto simp: AddRegisterNode_def Let_def bind_eq_Some_conv)
  note a = AddNode_ext [OF assms(1) 1]
  have r: "r < num_nodes cr1"
    using a(2,3) by simp
  have e: "ext shown_types cr1 cr'"
    by (rule add_reg_fields_ext [OF ext_tree [OF a(1)] r 2])
  then show "ext shown_types cr cr'"
    using ext_shown [OF ext_mono [OF a(1)]] by simp
  show "r = num_nodes cr" "r < num_nodes cr'" "r \<notin> attached t cr'"
    using a(2) ext_less [OF e r] ext_detached [OF e r a(5)] by simp_all
qed

text \<open>A register with its fields below its packet.\<close>

lemma register_below_ext:
  assumes "tree_ok cr" "p < num_nodes cr" "AddRegisterNode env v info cr = Some (r, cr1)" "add_to_both p r cr1 = Some cr'"
  shows "ext shown_types cr cr'"
proof -
  note a = AddRegisterNode_ext [OF assms(1,3)]
  show ?thesis
    by (rule add_to_both_ext [OF a(1) _ _ a(3) a(4) assms(4)]) (use a(2) assms(2) in simp_all)
qed

lemma AppendRegNodes_pairs_ext:
  "tree_ok cr \<Longrightarrow> p < num_nodes cr \<Longrightarrow>
   AppendRegNodes_pairs env retrieve s va n dword p cr m = Some (cr', m') \<Longrightarrow> ext shown_types cr cr'"
proof (induction "n - dword" arbitrary: dword cr m rule: less_induct)
  case less
  note step = less.prems(3) [unfolded AppendRegNodes_pairs.simps [of env retrieve s va n dword p cr m] Let_def]
  show ?case
  proof (cases "dword < n")
    case False
    then show ?thesis
      using step less.prems(1) by (simp add: ext_refl)
  next
    case True
    obtain v info r cr1 cr2 k m2 where a: "AddRegisterNode env v info cr = Some (r, cr1)" "add_to_both p r cr1 = Some cr2"
      and k: "AppendRegNodes_pairs env retrieve s va n (Suc dword + k) p cr2 m2 = Some (cr', m')"
      using step True by (auto simp: bind_eq_Some_conv)
    have e: "ext shown_types cr cr2"
      by (rule register_below_ext [OF less.prems(1,2) a])
    show ?thesis
      by (rule ext_shown [OF e less.hyps [OF _ ext_tree [OF e] ext_less [OF e less.prems(2)] k]]) (use True in simp)
  qed
qed

lemma AppendRegNodes_seq_ext:
  "tree_ok cr \<Longrightarrow> p < num_nodes cr \<Longrightarrow>
   AppendRegNodes_seq env retrieve s va h p off dword cr m = Some (cr', m') \<Longrightarrow> ext shown_types cr cr'"
proof (induction "unat (type4_count h) - dword" arbitrary: dword off cr m rule: less_induct)
  case less
  note step = less.prems(3) [unfolded AppendRegNodes_seq.simps [of env retrieve s va h p off dword cr m] Let_def]
  show ?case
  proof (cases "dword < unat (type4_count h)")
    case False
    then show ?thesis
      using step less.prems(1) by (simp add: ext_refl)
  next
    case True
    obtain v info r cr1 cr2 k off' m2 where a: "AddRegisterNode env v info cr = Some (r, cr1)"
        "add_to_both p r cr1 = Some cr2"
      and k: "AppendRegNodes_seq env retrieve s va h p off' (Suc dword + k) cr2 m2 = Some (cr', m')"
      using step True by (auto simp: bind_eq_Some_conv)
    have e: "ext shown_types cr cr2"
      by (rule register_below_ext [OF less.prems(1,2) a])
    show ?thesis
      by (rule ext_shown [OF e less.hyps [OF _ ext_tree [OF e] ext_less [OF e less.prems(2)] k]]) (use True in simp)
  qed
qed

section \<open>Packet fields\<close>

lemma append_fields_ext:
  "tree_ok cr \<Longrightarrow> p < num_nodes cr \<Longrightarrow>
   append_fields env retrieve s va n prefix p base end fs cr m = Some (early, end', cr', m') \<Longrightarrow>
   ext shown_types cr cr'"
proof (induction fs arbitrary: \<open>end\<close> cr m)
  case (Cons f fs)
  show ?case
  proof (cases "base + word_of_nat (pf_dword f) > n")
    case True
    then show ?thesis
      using Cons.prems by (auto simp: ext_refl)
  next
    case False
    obtain desc i cr1 m1 where 1: "add_field_node (he_debug env) p desc cr = Some (i, cr1)"
      and k: "append_fields env retrieve s va n prefix p base (base + word_of_nat (pf_dword f)) fs cr1 m1 =
        Some (early, end', cr', m')"
      using Cons.prems(3) False by (auto simp: Let_def bind_eq_Some_conv)
    have e: "ext shown_types cr cr1"
      using add_field_node_ext(1) [OF Cons.prems(1) _ 1] Cons.prems(2) by simp
    show ?thesis
      by (rule ext_shown [OF e Cons.IH [OF ext_tree [OF e] ext_less [OF e Cons.prems(2)] k]])
  qed
qed (auto simp: ext_refl)

lemma append_arrays_ext:
  "tree_ok cr \<Longrightarrow> p < num_nodes cr \<Longrightarrow>
   append_arrays env retrieve s va n prefix info p k array end cr m = Some (end', cr', m') \<Longrightarrow>
   ext shown_types cr cr'"
proof (induction k arbitrary: array \<open>end\<close> cr m)
  case (Suc k)
  let ?base = "if array \<noteq> 0 then end else 0"
  obtain parent cr1 early end1 cr2 m2 where
      1: "(if pi_max_array_size info > 1 \<and> ?base < n then add_field_node (he_debug env) p (show_nat array) cr
          else Some (p, cr)) = Some (parent, cr1)"
    and 2: "append_fields env retrieve s va n prefix parent ?base end (pi_fields info) cr1 m = Some (early, end1, cr2, m2)"
    and 3: "(if early then Some (end1, cr2, m2)
          else append_arrays env retrieve s va n prefix info p k (array + 1) end1 cr2 m2) = Some (end', cr', m')"
    using Suc.prems(3) by (auto simp: Let_def bind_eq_Some_conv simp del: append_fields.simps)
  have e1: "ext shown_types cr cr1 \<and> parent < num_nodes cr1"
    using 1 add_field_node_ext [OF Suc.prems(1), of p] Suc.prems(1,2) by (auto simp: ext_refl split: if_splits)
  then have e: "ext shown_types cr cr2"
    using append_fields_ext [OF ext_tree _ 2] ext_shown by blast
  show ?case
  proof (cases early)
    case True
    then show ?thesis
      using 3 e by simp
  next
    case False
    then have k: "append_arrays env retrieve s va n prefix info p k (array + 1) end1 cr2 m2 = Some (end', cr', m')"
      using 3 by simp
    show ?thesis
      by (rule ext_shown [OF e Suc.IH [OF ext_tree [OF e] ext_less [OF e Suc.prems(2)] k]])
  qed
qed (auto simp: ext_refl)

lemma append_dwords_ext:
  "tree_ok cr \<Longrightarrow> p < num_nodes cr \<Longrightarrow>
   append_dwords env retrieve s va prefix p k i cr m = Some (cr', m') \<Longrightarrow> ext shown_types cr cr'"
proof (induction k arbitrary: i cr m)
  case (Suc k)
  obtain desc j cr1 m1 where 1: "add_field_node (he_debug env) p desc cr = Some (j, cr1)"
    and k: "append_dwords env retrieve s va prefix p k (i + 1) cr1 m1 = Some (cr', m')"
    using Suc.prems(3) by (auto simp: bind_eq_Some_conv)
  have e: "ext shown_types cr cr1"
    using add_field_node_ext(1) [OF Suc.prems(1) _ 1] Suc.prems(2) by simp
  show ?case
    by (rule ext_shown [OF e Suc.IH [OF ext_tree [OF e] ext_less [OF e Suc.prems(2)] k]])
qed (auto simp: ext_refl)

lemma AppendPacketFieldNodes_ext:
  assumes "tree_ok cr" "p < num_nodes cr"
    and "AppendPacketFieldNodes env retrieve s va n extra info p prefix cr m = Some (cr', m')"
  shows "ext shown_types cr cr'"
proof -
  obtain end' cr1 m1 where 1: "append_arrays env retrieve s va n prefix info p (pi_max_array_size info) 0 (- 1) cr m =
        Some (end', cr1, m1)"
    and k: "(if extra \<and> end' < n then append_dwords env retrieve s va prefix p (unat n - unat end') (unat end' + 1) cr1 m1
        else Some (cr1, m1)) = Some (cr', m')"
    using assms(3) by (auto simp: AppendPacketFieldNodes_def bind_eq_Some_conv)
  have e: "ext shown_types cr cr1"
    by (rule append_arrays_ext [OF assms(1,2) 1])
  show ?thesis
  proof (cases "extra \<and> end' < n")
    case True
    then have "append_dwords env retrieve s va prefix p (unat n - unat end') (unat end' + 1) cr1 m1 = Some (cr', m')"
      using k by simp
    then show ?thesis
      by (rule ext_shown [OF e append_dwords_ext [OF ext_tree [OF e] ext_less [OF e assms(2)]]])
  qed (use k e in auto)
qed

section \<open>Buffers\<close>

lemma AddConstantsToPacketNode_ext:
  "tree_ok cr \<Longrightarrow> p < num_nodes cr \<Longrightarrow>
   AddConstantsToPacketNode env retrieve show a p n s row i cr m = Some (cr', m') \<Longrightarrow> ext shown_types cr cr'"
proof (induction "n - i" arbitrary: i cr m rule: less_induct)
  case less
  note step = less.prems(3) [unfolded AddConstantsToPacketNode.simps [of env retrieve \<open>show\<close> a p n s row i cr m]]
  consider "cr' = cr" | desc j cr1 m1 where "i < n" "0 < row" "add_field_node (he_debug env) p desc cr = Some (j, cr1)"
      "AddConstantsToPacketNode env retrieve show a p n s row (i + row) cr1 m1 = Some (cr', m')"
    using step by (auto simp: bind_eq_Some_conv split: if_splits)
  then show ?case
  proof cases
    case 2
    have e: "ext shown_types cr cr1"
      using add_field_node_ext(1) [OF less.prems(1) _ 2(3)] less.prems(2) by simp
    show ?thesis
      by (rule ext_shown [OF e less.hyps [OF _ ext_tree [OF e] ext_less [OF e less.prems(2)] 2(4)]]) (use 2 in simp)
  qed (use less.prems(1) in \<open>simp add: ext_refl\<close>)
qed

lemma append_sharps_ext:
  "tree_ok cr \<Longrightarrow> p < num_nodes cr \<Longrightarrow>
   append_sharps env retrieve s a name sz p k i cr m = Some (cr', m') \<Longrightarrow> ext shown_types cr cr'"
proof (induction k arbitrary: i cr m)
  case (Suc k)
  obtain info a' n prefix cr1 m1 where 1: "AppendPacketFieldNodes env retrieve s a' n False info p prefix cr m = Some (cr1, m1)"
    and k: "append_sharps env retrieve s a name sz p k (i + 1) cr1 m1 = Some (cr', m')"
    using Suc.prems(3) by (auto simp: bind_eq_Some_conv)
  have e: "ext shown_types cr cr1"
    by (rule AppendPacketFieldNodes_ext [OF Suc.prems(1,2) 1])
  show ?case
    by (rule ext_shown [OF e Suc.IH [OF ext_tree [OF e] ext_less [OF e Suc.prems(2)] k]])
qed (auto simp: ext_refl)

lemma AppendLoadStateExtBufferNode_ext:
  assumes "tree_ok cr" "p < num_nodes cr" "AppendLoadStateExtBufferNode env retrieve s va p cr m = Some (cr', m')"
  shows "ext shown_types cr cr'"
proof -
  let ?R = "\<lambda>(cr', m'). ext shown_types cr cr'"
  have sharps: "post ?R (append_sharps env retrieve s a name sz p k i cr m)" for a name sz k i m
    using append_sharps_ext [OF assms(1,2)] by (auto simp: post_def)
  have constants: "post ?R (AddConstantsToPacketNode env retrieve f a p n s row i cr m)" for f a n row i m
    using AddConstantsToPacketNode_ext [OF assms(1,2)] by (auto simp: post_def)
  have same: "post ?R (Some (cr, m))" for m
    using ext_refl [OF assms(1)] by (simp add: post_def)
  have "post ?R (AppendLoadStateExtBufferNode env retrieve s va p cr m)"
    unfolding AppendLoadStateExtBufferNode_def Let_def
    by (intro post_rules) (rule sharps constants same)+
  then show ?thesis
    using assms(3) by (auto simp: post_def)
qed

lemma AppendMemRegNodes_ext:
  assumes "tree_ok cr" "p < num_nodes cr" "AppendMemRegNodes env retrieve s va p cr m = Some (cr', m')"
  shows "ext shown_types cr cr'"
proof -
  obtain desc r cr1 cr2 a n m1 where 1: "AddNode (he_debug env) kRegNode desc (RegFieldNode False) cr = Some (r, cr1)"
    and 2: "add_to_both p r cr1 = Some cr2"
    and 3: "AddConstantsToPacketNode env retrieve show_hex8 a p n s 8 0 cr2 m1 = Some (cr', m')"
    using assms(3) unfolding AppendMemRegNodes_def Let_def by (auto simp: bind_eq_Some_conv)
  note a = AddNode_ext [OF assms(1) 1]
  have e: "ext shown_types cr cr2"
    by (rule add_to_both_ext [OF ext_mono [OF a(1)] _ _ _ a(5) 2]) (use a(2,3) assms(2) in simp_all)
  show ?thesis
    by (rule ext_shown [OF e AddConstantsToPacketNode_ext [OF ext_tree [OF e] ext_less [OF e assms(2)] 3]])
qed

section \<open>Packets\<close>

text \<open>The node of a packet of type 4 or 7, with everything below it.\<close>

definition packet_aux :: "hier_env \<Rightarrow> u64 \<Rightarrow> Pm4Header \<Rightarrow> creator \<Rightarrow> AuxInfo option" where
  "packet_aux env va h cr =
     PacketNode (he_debug env) va (if header_type h = 7 then ucast (type7_opcode h) else 255) (word_of_nat (m_cur_ib_level cr))"

lemma AddPacketNode_ext:
  assumes "tree_ok cr" "AddPacketNode env retrieve s va h cr m = Some (p, cr', m')" "header_type h \<in> {4, 7}"
  shows "\<exists>desc aux cr1. packet_aux env va h cr = Some aux \<and>
    AddNode (he_debug env) kPacketNode desc aux cr = Some (p, cr1) \<and> ext shown_types cr1 cr'"
proof -
  obtain desc aux cr1 where 1: "packet_aux env va h cr = Some aux"
      "AddNode (he_debug env) kPacketNode desc aux cr = Some (p, cr1)"
    and 2: "(\<exists>a n d. AppendRegNodes_pairs env retrieve s a n d p cr1 m = Some (cr', m')) \<or>
      (\<exists>a n b info prefix. AppendPacketFieldNodes env retrieve s a n b info p prefix cr1 m = Some (cr', m')) \<or>
      (\<exists>a off d. AppendRegNodes_seq env retrieve s a h p off d cr1 m = Some (cr', m'))"
  proof (cases "header_type h = 7")
    case True
    let ?A = "\<lambda>cr1. AppendRegNodes_pairs env retrieve s (va + 4) (unat (type7_count h)) 0 p cr1 m"
    let ?extra = "type7_opcode h \<notin> {info_op (he_info env) CP_LOAD_STATE6, info_op (he_info env) CP_LOAD_STATE6_GEOM,
             info_op (he_info env) CP_LOAD_STATE6_FRAG}"
    let ?B = "\<lambda>cr1 info. AppendPacketFieldNodes env retrieve s (va + 4) (type7_count h) ?extra info p '''' cr1 m"
    let ?info = "info_GetPacketInfo (he_info env) (type7_opcode h) ''''"
    let ?bunch = "type7_opcode h = isa_op (info_isa (he_info env)) CP_CONTEXT_REG_BUNCH"
    obtain aux cr1 where a: "PacketNode (he_debug env) va (ucast (type7_opcode h)) (word_of_nat (m_cur_ib_level cr)) = Some aux"
        "AddNode (he_debug env) kPacketNode
           (info_GetOpCodeString (he_info env) (type7_opcode h) @ '' '' @ hex (ucast h)) aux cr = Some (p, cr1)"
      and k: "(if ?bunch then ?A cr1 else Option.bind ?info (?B cr1)) = Some (cr', m')"
      using assms(2) unfolding AddPacketNode_def Let_def if_P [OF True]
      by (auto simp only: prod.case option.inject prod.inject bind_eq_Some_conv)
    have "?A cr1 = Some (cr', m') \<or> (\<exists>info. ?B cr1 info = Some (cr', m'))"
      using k by (cases ?bunch) (auto simp: bind_eq_Some_conv)
    moreover have "packet_aux env va h cr = Some aux"
      using a(1) True by (simp add: packet_aux_def)
    ultimately show thesis
      using that [OF _ a(2)] by blast
  next
    case False
    then have four: "header_type h = 4"
      using assms(3) by simp
    obtain aux cr1 where a: "PacketNode (he_debug env) va 255 (word_of_nat (m_cur_ib_level cr)) = Some aux"
        "AddNode (he_debug env) kPacketNode (''TYPE4 REGWRITE '' @ hex (ucast h)) aux cr = Some (p, cr1)"
      and k: "AppendRegNodes_seq env retrieve s va h p 0 0 cr1 m = Some (cr', m')"
      using assms(2) unfolding AddPacketNode_def Let_def if_not_P [OF False] if_P [OF four]
      by (auto simp: bind_eq_Some_conv)
    moreover have "packet_aux env va h cr = Some aux"
      using a(1) False by (simp add: packet_aux_def)
    ultimately show thesis
      using that [OF _ a(2)] by blast
  qed
  note a = AddNode_ext [OF assms(1) 1(2)]
  have "tree_ok cr1" "p < num_nodes cr1"
    using a(2,3) ext_tree [OF a(1)] by simp_all
  then have "ext shown_types cr1 cr'"
    using 2 by (elim disjE exE) (erule AppendRegNodes_pairs_ext AppendPacketFieldNodes_ext AppendRegNodes_seq_ext; assumption)+
  then show ?thesis
    using 1 by blast
qed

end
