(* ===== verification/Pm4_Callback_Invariant.thy ===== *)
theory Pm4_Callback_Invariant
  imports Pm4_Callbacks
begin

text \<open>
  What the emulator of \<^verbatim>\<open>dive_core/common/emulate_pm4.cpp\<close> promises to every class of callbacks: a property
  of the callbacks' state that each callback keeps holds after any emulation, whatever the memory and the
  packets are. No IB is ever started with the type CHAIN: the emulator replaces the current IB when it
  follows a CHAIN packet, but leaves its type as it was.

  The locale \<open>callback_invariant\<close> has the callbacks of an \<open>emu_env\<close> and the property as its parameters.
\<close>

definition unchained_types :: "EmulateState \<Rightarrow> bool" where
  "unchained_types es \<longleftrightarrow> es_ok es \<and> kChain \<notin> set (cur_types es)"

lemma unchained_same_level: "same_level ch es es' \<Longrightarrow> unchained_types es \<Longrightarrow> unchained_types es'"
  by (simp add: same_level_def unchained_types_def)

lemma unchained_cur:
  assumes "unchained_types es"
  shows "stk_cur_ib_type (GetCurIb es) \<noteq> kChain"
proof -
  have "es_top_of_stack es < length (es_ib_stack es)" "kChain \<notin> set (cur_types es)"
    using assms es_ok_cur(1) by (simp_all add: unchained_types_def)
  then show ?thesis
    by (metis GetCurIb_def cur_types_def imageI list.set_map nth_mem)
qed

lemma unchained_set_level:
  "kChain \<notin> set (cur_types es) \<Longrightarrow> stk_cur_ib_type stk \<noteq> kChain \<Longrightarrow>
   kChain \<notin> set (cur_types (set_level i stk es))"
  using set_update_subset_insert [of "cur_types es" i "stk_cur_ib_type stk"] by (auto simp: cur_types_set_level)

lemma unchained_enter:
  assumes "unchained_types es" "es_top_of_stack es + 1 < length (es_ib_stack es)"
    and "stk_queue_index (GetCurIb es) < length (stk_queue (GetCurIb es))" "q_type q \<noteq> kChain"
  shows "unchained_types (enter_ib q es)"
proof -
  have "cur_types (es\<lparr>es_ib_index := i\<rparr>) = cur_types es" "cur_types (es\<lparr>es_top_of_stack := t\<rparr>) = cur_types es" for es i t
    by (simp_all add: cur_types_def)
  then have "kChain \<notin> set (cur_types (enter_ib q es))"
    using assms(1) unchained_cur [OF assms(1)] assms(4) unfolding enter_ib_def Let_def
    by (intro unchained_set_level) (simp_all add: unchained_types_def)
  then show ?thesis
    using assms enter_ib_ok(1) [of es q] by (simp add: unchained_types_def)
qed

lemma unchained_chain:
  assumes "unchained_types es" "es_top_of_stack es \<noteq> kPrimaryRing"
    and "stk_queue_index (GetCurIb es) < length (stk_queue (GetCurIb es))"
  shows "unchained_types (chain_ib q es)"
proof -
  have "es_ok (chain_ib q es)"
    using chain_ib_ok [OF _ assms(2,3)] assms(1) by (simp add: unchained_types_def)
  then show ?thesis
    using unchained_cur [OF assms(1)] assms(1) unchained_set_level
    by (simp add: chain_ib_def Let_def set_cur_def unchained_types_def)
qed

lemma unchained_start: "unchained_types (EmulateState_start s)"
  using EmulateState_start_ok [of s]
  by (auto simp: unchained_types_def cur_types_def EmulateState_start_def zero_level_def kTotalIbLevels_def
      kPrimaryRing_def numeral_eq_Suc)

lemma unchained_out:
  assumes "unchained_types es" "AdvanceOutOfIB env (es, c, m) = Some (b, es', c', m')"
  shows "unchained_types es'"
  using AdvanceOutOfIB_ok [OF _ assms(2)] AdvanceOutOfIB_pending(3) [OF assms(2)] assms(1)
  by (simp add: unchained_types_def cur_types_def moved_on_def)

locale callback_invariant =
  fixes env :: "('c, 'm) emu_env" and P :: "'c \<Rightarrow> bool"
  assumes ib_start: "P c \<Longrightarrow> type \<noteq> kChain \<Longrightarrow> env_OnIbStart env s i info type c = Some (b, c') \<Longrightarrow> P c'"
    and ib_end: "P c \<Longrightarrow> env_OnIbEnd env s i info c = Some (b, c') \<Longrightarrow> P c'"
    and packet: "P c \<Longrightarrow> env_OnPacket env s i va h c m = Some (b, c', m') \<Longrightarrow> P c'"
    and submit_start: "P c \<Longrightarrow> P (env_OnSubmitStart env s submit_info c)"
    and submit_end: "P c \<Longrightarrow> P (env_OnSubmitEnd env s submit_info c)"
begin

definition kept :: "('c, 'm) emu \<Rightarrow> bool" where
  "kept = (\<lambda>(es, c, m). unchained_types es \<and> P c)"

lemma start_ib_kept:
  assumes "kept (es, c, m)" "es_top_of_stack es \<noteq> kPrimaryRing" "start_ib env (es, c, m) = Some (b, s')"
  shows "kept s'"
proof -
  obtain es' c' m' where s': "s' = (es', c', m')"
    by (cases s') auto
  have un: "unchained_types es" and "P c"
    using assms(1) by (simp_all add: kept_def)
  then have "unchained_types es'"
    using start_ib_ok [OF _ assms(2) assms(3) [unfolded s'], of False] unchained_same_level
    by (auto simp: unchained_types_def)
  moreover have "P c'"
    using assms(3) s' ib_start [OF \<open>P c\<close> unchained_cur [OF un]]
    by (auto simp: start_ib_def Let_def split: bind_splits)
  ultimately show ?thesis
    by (simp add: kept_def s')
qed

lemma to_queued_kept:
  assumes "kept (es, c, m)" "AdvanceToQueuedIB env (es, c, m) = Some (b, s')"
  shows "kept s'"
proof -
  let ?cur = "GetCurIb es"
  have un: "unchained_types es" and c: "P c"
    using assms(1) by (simp_all add: kept_def)
  then have ok: "es_ok es"
    by (simp add: unchained_types_def)
  consider (idle) "s' = (es, c, m)"
    | (call) q where "q_type q \<noteq> kChain" "stk_queue_index ?cur < length (stk_queue ?cur)"
        "es_top_of_stack es + 1 < length (es_ib_stack es)" "start_ib env (enter_ib q es, c, m) = Some (b, s')"
    | (chain) q where "stk_queue_index ?cur < length (stk_queue ?cur)"
        "q_type (stk_queue ?cur ! stk_queue_index ?cur) = kChain" "start_ib env (chain_ib q es, c, m) = Some (b, s')"
    using assms(2) by (auto simp: AdvanceToQueuedIB_def Let_def not_le split: if_splits bind_splits)
  then show ?thesis
  proof cases
    case idle
    then show ?thesis
      using assms(1) by simp
  next
    case call
    then show ?thesis
      using start_ib_kept [of "enter_ib q es" c m] unchained_enter [OF un, of q] c
      by (simp add: kept_def kPrimaryRing_def)
  next
    case chain
    have top: "es_top_of_stack es \<noteq> kPrimaryRing"
    proof
      assume "es_top_of_stack es = kPrimaryRing"
      then have "ring_ok ?cur"
        using ok by (simp add: es_ok_def GetCurIb_def)
      then show False
        using chain by (simp add: ring_ok_def)
    qed
    then show ?thesis
      using start_ib_kept [of "chain_ib q es" c m] unchained_chain [OF un top chain(1), of q] c chain(3)
      by (simp add: kept_def)
  qed
qed

lemma out_kept:
  assumes "kept s" "AdvanceOutOfIB env s = Some (b, s')"
  shows "kept s'"
proof -
  obtain es c m es' c' m' where s: "s = (es, c, m)" and s': "s' = (es', c', m')"
    by (cases s; cases s') auto
  have "unchained_types es'"
    using unchained_out assms s s' by (auto simp: kept_def)
  moreover from assms(2) obtain i info where out: "env_OnIbEnd env (es_submit_index es) i info c = Some (b, c')"
    unfolding AdvanceOutOfIB_def s s' Let_def by (force split: if_splits bind_splits)
  have "P c'"
    by (rule ib_end [OF _ out]) (use assms(1) in \<open>simp add: kept_def s\<close>)
  ultimately show ?thesis
    by (simp add: kept_def s')
qed

lemma check_kept:
  assumes "kept s" "CheckAndAdvanceIB env s = Some (b, s')"
  shows "kept s'"
proof -
  have "if b then kept s' else kept s'"
  proof (rule CheckAndAdvanceIB_induct [where P = kept and Q = kept and F = kept, OF assms(2,1)])
    show "if b then kept s' else kept s'" if "kept s" "AdvanceOutOfIB env s = Some (b, s')" for s b s'
      using out_kept [OF that] by simp
    show "if b then kept s' else kept s'" if "kept s" "AdvanceToQueuedIB env s = Some (b, s')" for s b s'
      using to_queued_kept [of "fst s" "fst (snd s)" "snd (snd s)" b s'] that by simp
  qed
  then show ?thesis
    by simp
qed

lemma case_kept:
  assumes "kept (es, c, m)" "es_top_of_stack es \<noteq> kPrimaryRing" "advance_case env h (es, c, m) = Some (b, s')"
  shows "kept s'"
proof -
  obtain es' c' m' where s': "s' = (es', c', m')"
    by (cases s') auto
  have un: "unchained_types es" and c: "P c"
    using assms(1) by (simp_all add: kept_def)
  then have "es_ok es"
    by (simp add: unchained_types_def)
  then obtain es1 where es1: "same_level (is_op (env_isa env) h CP_INDIRECT_BUFFER_CHAIN) es es1"
    and k: "es' = es1 \<and> c' = c \<or> (\<exists>m1. AdvanceToQueuedIB env (es1, c, m1) = Some (b, s'))"
    using advance_case_ok [OF _ assms(2) assms(3) [unfolded s']] by (auto simp: staged_def s')
  have k1: "kept (es1, c, m1)" for m1 :: 'm
    using unchained_same_level [OF es1 un] c by (simp add: kept_def)
  from k show ?thesis
  proof
    assume "es' = es1 \<and> c' = c"
    then show ?thesis
      using k1 s' by simp
  next
    assume "\<exists>m1. AdvanceToQueuedIB env (es1, c, m1) = Some (b, s')"
    then show ?thesis
      using to_queued_kept [OF k1] by blast
  qed
qed

lemma packet_kept:
  assumes "kept (es, c, m)" "es_top_of_stack es \<noteq> kPrimaryRing" "emulate_packet env (es, c, m) = Some (b, s')"
  shows "kept s'"
proof -
  obtain bs m1 where rd: "read_cur env es (stk_cur_va (GetCurIb es)) 4 4 m = Some (bs, m1)"
    and k: "(if \<not> valid_header (le32 bs) then Some (False, es, c, m1)
       else do {
         (ok, c, m) \<leftarrow> env_OnPacket env (es_submit_index es) (es_ib_index es) (stk_cur_va (GetCurIb es)) (le32 bs) c m1;
         if \<not> ok then Some (False, es, c, m) else AdvanceCb env (le32 bs) (es, c, m)
       }) = Some (b, s')"
    using assms(3) by (auto simp: emulate_packet_def Let_def bind_eq_Some_conv)
  show ?thesis
  proof (cases "valid_header (le32 bs)")
    case False
    then show ?thesis
      using k assms(1) by (auto simp: kept_def)
  next
    case True
    then obtain ok c1 m2 where p: "env_OnPacket env (es_submit_index es) (es_ib_index es) (stk_cur_va (GetCurIb es))
          (le32 bs) c m1 = Some (ok, c1, m2)"
      and k1: "(if \<not> ok then Some (False, es, c1, m2) else AdvanceCb env (le32 bs) (es, c1, m2)) = Some (b, s')"
      using k by (auto simp: bind_eq_Some_conv)
    have kept1: "kept (es, c1, m2)"
      using assms(1) packet [OF _ p] by (simp add: kept_def)
    show ?thesis
    proof (cases ok)
      case False
      then show ?thesis
        using k1 kept1 by simp
    next
      case True
      then have "AdvanceCb env (le32 bs) (es, c1, m2) = Some (b, s')"
        using k1 by simp
      then show ?thesis
        unfolding AdvanceCb_def
        by (cases rule: and_then_Some) (use case_kept [OF kept1 assms(2)] check_kept in blast)+
    qed
  qed
qed

lemma loop_kept:
  assumes "kept s" "emulate_loop env s = Some (b, s')"
  shows "kept s'"
proof -
  have "if b then kept s' \<and> es_top_of_stack (fst s') = kPrimaryRing else kept s'"
    by (rule emulate_loop_induct [where P = kept and Q = kept, OF assms(2,1)])
      (use packet_kept in \<open>auto split: prod.splits\<close>)
  then show ?thesis
    by (simp split: if_splits)
qed

lemma submit_kept:
  assumes "P c" "ExecuteSubmit env s ibs c m = Some (b, es', c', m')"
  shows "P c'"
proof -
  obtain b1 es1 where q: "queue_submit_ibs (env_debug env) ibs (EmulateState_start s) = Some (b1, es1)"
    and k: "(if \<not> b1 then Some (False, es1, c, m)
       else and_then (AdvanceToQueuedIB env (es1, c, m)) (\<lambda>s. and_then (CheckAndAdvanceIB env s) (emulate_loop env))) =
       Some (b, es', c', m')"
    using assms(2) by (auto simp: ExecuteSubmit_def bind_eq_Some_conv)
  have "same_level False (EmulateState_start s) es1"
    by (rule queued_ok [OF queue_submit_ibs_queued [OF q] EmulateState_start_ok]) auto
  then have "kept (es1, c, m)"
    using unchained_same_level unchained_start assms(1) by (auto simp: kept_def)
  note t = to_queued_kept [OF this]
  show ?thesis
  proof (cases b1)
    case True
    from k True have "and_then (AdvanceToQueuedIB env (es1, c, m))
        (\<lambda>s. and_then (CheckAndAdvanceIB env s) (emulate_loop env)) = Some (b, es', c', m')"
      by simp
    then have "kept (es', c', m')"
    proof (cases rule: and_then_Some)
      case stop
      then show ?thesis
        using t by blast
    next
      case (continue s1)
      from continue(2) show ?thesis
        by (cases rule: and_then_Some) (use t [OF continue(1)] check_kept loop_kept in blast)+
    qed
    then show ?thesis
      by (simp add: kept_def)
  qed (use k assms(1) in simp)
qed

lemma process_kept: "P c \<Longrightarrow> process_submits env i submits c m = Some (b, c', m') \<Longrightarrow> P c'"
proof (induction submits arbitrary: i c m)
  case (Cons info submits)
  let ?c = "env_OnSubmitStart env i info c"
  have start: "P ?c"
    by (rule submit_start [OF Cons.prems(1)])
  consider "process_submits env (i + 1) submits (env_OnSubmitEnd env i info ?c) m = Some (b, c', m')"
    | es c1 m1 where "ExecuteSubmit env i (m_ibs info) ?c m = Some (True, es, c1, m1)"
        "process_submits env (i + 1) submits (env_OnSubmitEnd env i info c1) m1 = Some (b, c', m')"
    | es where "ExecuteSubmit env i (m_ibs info) ?c m = Some (False, es, c', m')"
    using Cons.prems(2) by (auto simp: Let_def split: if_splits bind_splits)
  then show ?case
    by cases (use Cons.IH start submit_end submit_kept [OF start] in blast)+
qed simp

lemma ProcessSubmits_kept: "P c \<Longrightarrow> ProcessSubmits env submits c m = Some (b, c', m') \<Longrightarrow> P c'"
  unfolding ProcessSubmits_def by (rule process_kept)

end

text \<open>The callbacks of the base class: no IB they are told of is a CHAIN.\<close>

definition no_chain_started :: "EmulateCallbacksBase \<Rightarrow> bool" where
  "no_chain_started cb \<longleftrightarrow> (\<forall>s i info. ev_IbStart s i info kChain \<notin> set (cb_events cb))"

lemma no_chain_started_log [simp]:
  "no_chain_started (log_event e cb) \<longleftrightarrow> no_chain_started cb \<and> (\<forall>s i info. e \<noteq> ev_IbStart s i info kChain)"
  "no_chain_started (cb\<lparr>m_state_tracker := tr\<rparr>) \<longleftrightarrow> no_chain_started cb"
  by (auto simp: no_chain_started_def log_event_def)

interpretation base_callbacks: callback_invariant "base_env debug isa retrieve is_valid" no_chain_started
  by unfold_locales
    (auto simp: EmulateCallbacksBase_OnIbStart_def EmulateCallbacksBase_OnIbEnd_def EmulateCallbacksBase_OnPacket_def)

end
