(* ===== verification/Hier_Invariant.thy ===== *)
theory Hier_Invariant
  imports Hier_Append Pm4_Callback_Invariant
begin

text \<open>
  The invariant of \<^verbatim>\<open>CommandHierarchyCreator\<close> (\<^verbatim>\<open>src/dive_core/command_hierarchy.cpp\<close>) between two callbacks of
  the emulator, proved for every callback and so, by \<open>callback_invariant\<close>, for the whole emulation:

  the lists of children are forests; every submit and IB is below the root in the submit topology, and every
  submit, pass, event and present in the topology of all events; the indices the parser remembers are nodes
  of the right type; the events are numbered from 0 on and listed in order; and there is a packet node for
  each packet of type 4 or 7, and an IB node for each IB started, in the order of the callbacks.
\<close>

section \<open>The parts of the invariant\<close>

definition type_at :: "NodeType \<Rightarrow> nat \<Rightarrow> creator \<Rightarrow> bool" where
  "type_at T i cr \<longleftrightarrow> i < num_nodes cr \<and> m_node_type (h_nodes cr) ! i = T"

text \<open>The nodes that are in a topology as normal children.\<close>

fun placed_types :: "TopologyType \<Rightarrow> NodeType set" where
  "placed_types kSubmitTopology = {kSubmitNode, kIbNode}"
| "placed_types kAllEventTopology = {kSubmitNode, kRenderMarkerNode, kEventNode, kPresentNode}"

lemma placed_iff [simp]:
  "kIbNode \<in> placed_types t \<longleftrightarrow> t = kSubmitTopology" "kSubmitNode \<in> placed_types t"
  "kRenderMarkerNode \<in> placed_types t \<longleftrightarrow> t = kAllEventTopology"
  "kEventNode \<in> placed_types t \<longleftrightarrow> t = kAllEventTopology"
  "kPresentNode \<in> placed_types t \<longleftrightarrow> t = kAllEventTopology" "kPacketNode \<notin> placed_types t"
  by (cases t; simp)+

definition holds_nodes :: "TopologyType \<Rightarrow> nat \<Rightarrow> creator \<Rightarrow> bool" where
  "holds_nodes t p cr \<longleftrightarrow> p = 0 \<or> (\<exists>T\<in>placed_types t. type_at T p cr)"

text \<open>All nodes of these types are placed, except for \<open>N\<close>, which still wait for their parent.\<close>

definition placed_but :: "(TopologyType \<times> nat) set \<Rightarrow> creator \<Rightarrow> bool" where
  "placed_but N cr \<longleftrightarrow> (\<forall>t T c. T \<in> placed_types t \<longrightarrow> type_at T c cr \<longrightarrow> (t, c) \<notin> N \<longrightarrow>
     (\<exists>p. below t p c cr \<and> holds_nodes t p cr))"

abbreviation placed_ok :: "creator \<Rightarrow> bool" where
  "placed_ok \<equiv> placed_but {}"

definition refs_ok :: "creator \<Rightarrow> bool" where
  "refs_ok cr \<longleftrightarrow>
     (m_cur_submit_node_index cr = 0 \<or> type_at kSubmitNode (m_cur_submit_node_index cr) cr) \<and>
     (\<forall>i\<in>set (h_ib_stack cr). type_at kIbNode i cr) \<and>
     (m_render_marker_index cr = UINT64_MAX \<or> type_at kRenderMarkerNode (m_render_marker_index cr) cr) \<and>
     (m_start_bin_node_index cr = UINT64_MAX \<or> m_start_bin_node_index cr < num_nodes cr) \<and>
     (m_draw_table_node_index cr = UINT64_MAX \<or> m_draw_table_node_index cr < num_nodes cr)"

text \<open>The data of the nodes of a type, in their order.\<close>

definition data_of :: "NodeType \<Rightarrow> creator \<Rightarrow> AuxInfo list" where
  "data_of T cr = map snd (filter (\<lambda>(t, a). t = T) (zip (m_node_type (h_nodes cr)) (m_aux_info (h_nodes cr))))"

definition nodes_of :: "NodeType \<Rightarrow> creator \<Rightarrow> nat list" where
  "nodes_of T cr = filter (\<lambda>i. m_node_type (h_nodes cr) ! i = T) [0..<num_nodes cr]"

definition event_id_of :: "AuxInfo \<Rightarrow> u32" where
  "event_id_of a = ucast (bits 0 32 a)"

definition events_ok :: "creator \<Rightarrow> bool" where
  "events_ok cr \<longleftrightarrow> m_event_node_indices (h_nodes cr) = nodes_of kEventNode cr \<and>
     map event_id_of (data_of kEventNode cr) = map word_of_nat [0..<length (data_of kEventNode cr)] \<and>
     m_num_events cr = word_of_nat (length (data_of kEventNode cr))"

text \<open>What a packet node shows of its packet, and an IB node of its IB.\<close>

definition packet_view :: "AuxInfo \<Rightarrow> u64 \<times> byte" where
  "packet_view a = (bits 0 48 a, ucast (bits 48 8 a))"

fun shown_packet :: "cb_event \<Rightarrow> (u64 \<times> byte) list" where
  "shown_packet (ev_Packet s i va h) =
     (if header_type h = 7 then [(take_bit 48 va, ucast (type7_opcode h))]
      else if header_type h = 4 then [(take_bit 48 va, 255)] else [])"
| "shown_packet _ = []"

definition ib_view :: "AuxInfo \<Rightarrow> byte \<times> IbType option \<times> u32 \<times> bool" where
  "ib_view a = (ucast (bits 8 kMaxNumIbsBits a), enum_of ib_types (bits 0 8 a), ucast (bits 32 32 a), bits 14 1 a \<noteq> 0)"

fun shown_ib :: "cb_event \<Rightarrow> (byte \<times> IbType option \<times> u32 \<times> bool) list" where
  "shown_ib (ev_IbStart s i info type) =
     [(ucast (take_bit 6 i), Some type, ib_size_in_dwords info, \<not> ib_skip info)]"
| "shown_ib _ = []"

definition log_ok :: "cb_event list \<Rightarrow> creator \<Rightarrow> bool" where
  "log_ok es cr \<longleftrightarrow> map packet_view (data_of kPacketNode cr) = concat (map shown_packet es) \<and>
     map ib_view (data_of kIbNode cr) = concat (map shown_ib es)"

definition built :: "cb_event list \<Rightarrow> creator \<Rightarrow> bool" where
  "built es cr \<longleftrightarrow> tree_ok cr \<and> placed_ok cr \<and> refs_ok cr \<and> events_ok cr \<and> log_ok es cr \<and>
     h_topology cr = (\<lambda>_. SharedNodeTopology_new)"

definition creator_ok :: "creator \<Rightarrow> bool" where
  "creator_ok cr \<longleftrightarrow> built (cb_events (h_base cr)) cr"

section \<open>Appending nodes\<close>

lemma filter_zip_nth:
  assumes "length xs = length ys"
  shows "map snd (filter (\<lambda>(t, a). t = T) (zip xs ys)) = map ((!) ys) (filter (\<lambda>i. xs ! i = T) [0..<length xs])"
proof -
  have "zip xs ys = map (\<lambda>i. (xs ! i, ys ! i)) [0..<length xs]"
    using assms by (intro nth_equalityI) simp_all
  then show ?thesis
    by (simp add: filter_map o_def)
qed

lemma data_of_nth:
  assumes "tree_ok cr"
  shows "data_of T cr = map ((!) (m_aux_info (h_nodes cr))) (nodes_of T cr)"
  using assms by (simp add: data_of_def nodes_of_def filter_zip_nth tree_ok_def nodes_ok_def num_nodes_def)

lemma nodes_of_types: "m_node_type (h_nodes cr') = m_node_type (h_nodes cr) \<Longrightarrow> nodes_of T cr' = nodes_of T cr"
  by (simp add: nodes_of_def num_nodes_def)

lemma ext_types:
  assumes "ext S cr cr'" "tree_ok cr"
  obtains ts where "m_node_type (h_nodes cr') = m_node_type (h_nodes cr) @ ts" "set ts \<subseteq> S"
proof -
  obtain added where a: "zip (m_node_type (h_nodes cr')) (m_aux_info (h_nodes cr')) =
      zip (m_node_type (h_nodes cr)) (m_aux_info (h_nodes cr)) @ added" "fst ` set added \<subseteq> S"
    by (rule ext_added [OF assms(1)])
  have "map fst (zip (m_node_type (h_nodes cr')) (m_aux_info (h_nodes cr'))) = m_node_type (h_nodes cr')"
    "map fst (zip (m_node_type (h_nodes cr)) (m_aux_info (h_nodes cr))) = m_node_type (h_nodes cr)"
    using assms(2) ext_tree [OF assms(1)] by (simp_all add: tree_ok_def nodes_ok_def)
  then have "m_node_type (h_nodes cr') = m_node_type (h_nodes cr) @ map fst added"
    by (metis a(1) map_append)
  then show thesis
    using that [of "map fst added"] a(2) by simp
qed

lemma ext_data:
  assumes "ext S cr cr'" "T \<notin> S"
  shows "data_of T cr' = data_of T cr"
proof -
  obtain added where a: "zip (m_node_type (h_nodes cr')) (m_aux_info (h_nodes cr')) =
      zip (m_node_type (h_nodes cr)) (m_aux_info (h_nodes cr)) @ added" "fst ` set added \<subseteq> S"
    by (rule ext_added [OF assms(1)])
  have "filter (\<lambda>(t, a). t = T) added = []"
    using a(2) assms(2) by (force simp: filter_empty_conv)
  then show ?thesis
    by (simp add: data_of_def a(1))
qed

lemma nodes_of_append:
  assumes "m_node_type (h_nodes cr') = m_node_type (h_nodes cr) @ ts"
  shows "nodes_of T cr' = nodes_of T cr @ filter (\<lambda>i. m_node_type (h_nodes cr') ! i = T) [num_nodes cr..<num_nodes cr']"
proof -
  have "[0..<num_nodes cr'] = [0..<num_nodes cr] @ [num_nodes cr..<num_nodes cr']"
    using assms upt_add_eq_append [of 0 "num_nodes cr" "length ts"] by (simp add: num_nodes_def)
  moreover have "filter (\<lambda>i. m_node_type (h_nodes cr') ! i = T) [0..<num_nodes cr] = nodes_of T cr"
    unfolding nodes_of_def by (rule filter_cong) (simp_all add: assms num_nodes_def nth_append)
  ultimately show ?thesis
    by (simp add: nodes_of_def)
qed

lemma ext_nodes_of:
  assumes "ext S cr cr'" "tree_ok cr" "T \<notin> S"
  shows "nodes_of T cr' = nodes_of T cr"
proof -
  obtain ts where ts: "m_node_type (h_nodes cr') = m_node_type (h_nodes cr) @ ts" "set ts \<subseteq> S"
    by (rule ext_types [OF assms(1,2)])
  have "m_node_type (h_nodes cr') ! i \<noteq> T" if "num_nodes cr \<le> i" "i < num_nodes cr'" for i
  proof -
    have "m_node_type (h_nodes cr') ! i \<in> set ts"
      using that ts(1) by (simp add: num_nodes_def nth_append)
    then show ?thesis
      using ts(2) assms(3) by blast
  qed
  then have "filter (\<lambda>i. m_node_type (h_nodes cr') ! i = T) [num_nodes cr..<num_nodes cr'] = []"
    by (simp add: filter_empty_conv)
  then show ?thesis
    using nodes_of_append [OF ts(1)] by simp
qed

lemma ext_type_at:
  assumes "ext S cr cr'" "tree_ok cr"
  shows "type_at T i cr \<Longrightarrow> type_at T i cr'" "type_at T i cr' \<Longrightarrow> T \<notin> S \<Longrightarrow> type_at T i cr"
    "i < num_nodes cr \<Longrightarrow> type_at T i cr' \<Longrightarrow> type_at T i cr"
proof -
  obtain ts where ts: "m_node_type (h_nodes cr') = m_node_type (h_nodes cr) @ ts" "set ts \<subseteq> S"
    by (rule ext_types [OF assms])
  show "type_at T i cr \<Longrightarrow> type_at T i cr'"
    by (simp add: type_at_def num_nodes_def ts(1) nth_append)
  show old: "i < num_nodes cr \<Longrightarrow> type_at T i cr' \<Longrightarrow> type_at T i cr"
    by (simp add: type_at_def num_nodes_def ts(1) nth_append)
  show "type_at T i cr" if t: "type_at T i cr'" "T \<notin> S"
  proof (rule old [OF _ t(1)])
    have "T \<in> set ts" if "\<not> i < num_nodes cr"
      using that t(1) by (auto simp: type_at_def num_nodes_def ts(1) nth_append)
    then show "i < num_nodes cr"
      using t(2) ts(2) by blast
  qed
qed

lemma ext_holds_nodes: "ext S cr cr' \<Longrightarrow> tree_ok cr \<Longrightarrow> holds_nodes t p cr \<Longrightarrow> holds_nodes t p cr'"
  unfolding holds_nodes_def using ext_type_at(1) by blast

text \<open>The parts of the invariant when nodes are appended.\<close>

lemma ext_refs:
  assumes "ext S cr cr'" "tree_ok cr" "refs_ok cr"
  shows "refs_ok cr'"
  using assms(3) ext_type_at(1) [OF assms(1,2)] ext_less [OF assms(1)]
  unfolding refs_ok_def parse_of_fields [OF ext_parse [OF assms(1)]] by blast

lemma ext_events:
  assumes "ext S cr cr'" "tree_ok cr" "events_ok cr" "kEventNode \<notin> S"
  shows "events_ok cr'"
  using assms(3) ext_data [OF assms(1,4)] ext_nodes_of [OF assms(1,2,4)] extD(3) [OF assms(1)]
    parse_of_fields(8) [OF ext_parse [OF assms(1)]]
  by (simp add: events_ok_def)

lemma ext_log:
  assumes "ext S cr cr'" "log_ok es cr" "kPacketNode \<notin> S" "kIbNode \<notin> S"
  shows "log_ok es cr'"
  using assms(2) ext_data [OF assms(1,3)] ext_data [OF assms(1,4)] by (simp add: log_ok_def)

text \<open>New nodes of a placed type must have been put below a node.\<close>

lemma ext_placed:
  assumes "ext S cr cr'" "tree_ok cr" "placed_ok cr"
  shows "placed_but {(t, c). num_nodes cr \<le> c \<and> S \<inter> placed_types t \<noteq> {}} cr'"
  unfolding placed_but_def
proof (intro allI impI)
  fix t T c
  assume T: "T \<in> placed_types t" "type_at T c cr'" "(t, c) \<notin> {(t, c). num_nodes cr \<le> c \<and> S \<inter> placed_types t \<noteq> {}}"
  have "c < num_nodes cr \<or> T \<notin> S"
    using T(1,3) by auto
  then have "type_at T c cr"
    using ext_type_at(2,3) [OF assms(1,2)] T(2) by blast
  then obtain p where "below t p c cr" "holds_nodes t p cr"
    using assms(3) T(1) unfolding placed_but_def by blast
  then show "\<exists>p. below t p c cr' \<and> holds_nodes t p cr'"
    using extD(2) [OF assms(1)] ext_holds_nodes [OF assms(1,2)] by blast
qed

lemma placed_but_mono: "placed_but N cr \<Longrightarrow> N \<subseteq> N' \<Longrightarrow> placed_but N' cr"
  unfolding placed_but_def by blast

lemma ext_built:
  assumes "ext S cr cr'" "built es cr" "S \<inter> (placed_types kSubmitTopology \<union> placed_types kAllEventTopology \<union> {kPacketNode}) = {}"
  shows "built es cr'"
proof -
  have b: "tree_ok cr" "placed_ok cr" "refs_ok cr" "events_ok cr" "log_ok es cr" "h_topology cr = (\<lambda>_. SharedNodeTopology_new)"
    using assms(2) by (simp_all add: built_def)
  have S: "kEventNode \<notin> S" "kPacketNode \<notin> S" "kIbNode \<notin> S"
    using assms(3) by auto
  have "S \<inter> placed_types t = {}" for t
    using assms(3) by (cases t) auto
  then have "placed_ok cr'"
    using ext_placed [OF assms(1) b(1,2)] by simp
  then show ?thesis
    using ext_tree [OF assms(1)] ext_refs [OF assms(1) b(1,3)] ext_events [OF assms(1) b(1,4) S(1)]
      ext_log [OF assms(1) b(5) S(2,3)] b(6) parse_of_fields(2) [OF ext_parse [OF assms(1)]]
    by (simp add: built_def)
qed


section \<open>The parts of the state that matter\<close>

definition tree_core :: "creator \<Rightarrow> NodeType list \<times> string list \<times> AuxInfo list \<times> (TopologyType \<Rightarrow> nat list list) \<times> (TopologyType \<Rightarrow> nat)" where
  "tree_core cr = (m_node_type (h_nodes cr), m_description (h_nodes cr), m_aux_info (h_nodes cr), h_children cr,
     (\<lambda>t. length (h_shared_children cr t)))"

lemma tree_core_cong:
  assumes "tree_core cr' = tree_core cr"
  shows "num_nodes cr' = num_nodes cr" "attached t cr' = attached t cr" "below t p c cr' = below t p c cr"
    "tree_ok cr' = tree_ok cr" "type_at T i cr' = type_at T i cr" "holds_nodes t p cr' = holds_nodes t p cr"
    "placed_but N cr' = placed_but N cr" "data_of T cr' = data_of T cr" "nodes_of T cr' = nodes_of T cr"
    "log_ok es cr' = log_ok es cr"
proof -
  have c: "m_node_type (h_nodes cr') = m_node_type (h_nodes cr)" "m_description (h_nodes cr') = m_description (h_nodes cr)"
    "m_aux_info (h_nodes cr') = m_aux_info (h_nodes cr)" "h_children cr' = h_children cr"
    "length (h_shared_children cr' t) = length (h_shared_children cr t)" for t
    using assms by (simp_all add: tree_core_def fun_eq_iff)
  show num: "num_nodes cr' = num_nodes cr" and "attached t cr' = attached t cr" and below: "below t p c cr' = below t p c cr"
    for t p c by (simp_all add: num_nodes_def attached_def below_def c)
  show "tree_ok cr' = tree_ok cr"
    by (simp add: tree_ok_def nodes_ok_def num c)
  show type: "type_at T i cr' = type_at T i cr" for T i
    by (simp add: type_at_def num c)
  show holds: "holds_nodes t p cr' = holds_nodes t p cr" for t p
    by (simp add: holds_nodes_def type)
  show "placed_but N cr' = placed_but N cr"
    by (simp add: placed_but_def below type holds)
  show data: "data_of T cr' = data_of T cr" for T
    by (simp add: data_of_def c)
  show "nodes_of T cr' = nodes_of T cr"
    by (simp add: nodes_of_def num c)
  show "log_ok es cr' = log_ok es cr"
    by (simp add: log_ok_def data)
qed

definition refs_core :: "creator \<Rightarrow> nat \<times> nat list \<times> nat \<times> nat \<times> nat" where
  "refs_core cr = (m_cur_submit_node_index cr, h_ib_stack cr, m_render_marker_index cr, m_start_bin_node_index cr,
     m_draw_table_node_index cr)"

lemma refs_core_cong: "tree_core cr' = tree_core cr \<Longrightarrow> refs_core cr' = refs_core cr \<Longrightarrow> refs_ok cr' = refs_ok cr"
  using tree_core_cong(1,5) [of cr' cr] by (simp add: refs_ok_def refs_core_def)

definition core :: "creator \<Rightarrow> _" where
  "core cr = (tree_core cr, refs_core cr, m_event_node_indices (h_nodes cr), m_num_events cr, h_topology cr,
     cb_events (h_base cr))"

lemma core_built: "core cr' = core cr \<Longrightarrow> built es cr' = built es cr"
  using tree_core_cong [of cr' cr] refs_core_cong [of cr' cr] by (simp add: core_def built_def events_ok_def)

lemmas core_defs = core_def tree_core_def refs_core_def

text \<open>Bookkeeping that the invariant is not about.\<close>

lemma core_set_range: "set_range t i j cr = Some cr' \<Longrightarrow> core cr' = core cr"
  by (auto simp: set_range_def SetStartSharedChildrenNodeIndex_def SetEndSharedChildrenNodeIndex_def
      SetSharedChildRootNodeIndex_def pop_start_def core_defs bind_eq_Some_conv)

lemma core_starts [simp]: "core (push_start t i cr) = core cr" "core (pop_start t cr) = core cr" "core (push_starts i cr) = core cr"
  by (simp_all add: push_starts_def push_start_def pop_start_def core_defs Let_def)

lemma core_set_ib_parent: "set_ib_parent i cr = Some cr' \<Longrightarrow> core cr' = core cr"
  by (auto simp: set_ib_parent_def core_defs)

lemma core_AddSharedChild: "AddSharedChild t p c cr = Some cr' \<Longrightarrow> core cr' = core cr"
  by (auto simp: AddSharedChild_def vec_at_def vec_set_def core_defs bind_eq_Some_conv fun_eq_iff split: if_splits)

lemma core_shared_packet: "add_shared_packet i cr = Some cr' \<Longrightarrow> core cr' = core cr"
  by (auto simp: add_shared_packet_def bind_eq_Some_conv dest!: core_AddSharedChild)

lemma core_pass: "add_to_pass i cr = Some cr' \<Longrightarrow> core cr' = core cr"
  by (auto simp: add_to_pass_def dest!: core_AddSharedChild split: if_splits)

lemma core_cache: "CacheSetDrawStateGroupInfo env retrieve s va i h cr m = Some (cr', m') \<Longrightarrow> core cr' = core cr"
  by (auto simp: CacheSetDrawStateGroupInfo_def Let_def bind_eq_Some_conv core_defs)

lemma core_update_filters [simp]: "core (update_filters k i cr) = core cr"
  by (simp add: update_filters_def exclude_node_def Let_def core_defs)

lemma core_end_pass: "end_pass cr = Some cr' \<Longrightarrow> core cr' = core cr"
  by (auto simp: end_pass_def dest!: core_set_range split: if_splits)

lemma core_SetRoot: "SetSharedChildRootNodeIndex t i j cr = Some cr' \<Longrightarrow> core cr' = core cr"
  by (auto simp: SetSharedChildRootNodeIndex_def core_defs)

section \<open>Placing a new node\<close>

lemma AddNode_parts:
  assumes "built es cr" "AddNode debug T desc aux cr = Some (n, cr')"
  shows "tree_ok cr'" "placed_but {(t, c). c = n \<and> T \<in> placed_types t} cr'" "refs_ok cr'"
    "T \<noteq> kEventNode \<Longrightarrow> events_ok cr'" "T \<notin> {kPacketNode, kIbNode} \<Longrightarrow> log_ok es cr'"
    "h_topology cr' = (\<lambda>_. SharedNodeTopology_new)" "type_at T n cr'" "n = num_nodes cr" "0 < n" "n < num_nodes cr'"
    "n \<notin> attached t cr'" "ext {T} cr cr'"
    "data_of U cr' = data_of U cr @ (if U = T then [aux] else [])"
    "nodes_of U cr' = nodes_of U cr @ (if U = T then [n] else [])"
proof -
  have b: "tree_ok cr" "placed_ok cr" "refs_ok cr" "events_ok cr" "log_ok es cr" "h_topology cr = (\<lambda>_. SharedNodeTopology_new)"
    using assms(1) by (simp_all add: built_def)
  note a = AddNode_ext [OF b(1) assms(2)]
  show "ext {T} cr cr'" "n = num_nodes cr" "0 < n" "n < num_nodes cr'" "n \<notin> attached t cr'" for t
    using a b(1) by (simp_all add: tree_ok_def)
  show "tree_ok cr'"
    by (rule ext_tree [OF a(1)])
  show "placed_but {(t, c). c = n \<and> T \<in> placed_types t} cr'"
    using ext_placed [OF a(1) b(1,2)] a(2,3) unfolding placed_but_def type_at_def by fastforce
  show "refs_ok cr'" "T \<noteq> kEventNode \<Longrightarrow> events_ok cr'" "T \<notin> {kPacketNode, kIbNode} \<Longrightarrow> log_ok es cr'"
    using ext_refs [OF a(1) b(1,3)] ext_events [OF a(1) b(1,4)] ext_log [OF a(1) b(5)] by auto
  show "h_topology cr' = (\<lambda>_. SharedNodeTopology_new)"
    using b(6) parse_of_fields(2) [OF ext_parse [OF a(1)]] by simp
  note f = AddNode_fields [OF assms(2)]
  show "type_at T n cr'"
    using f(3) a(2) by (simp add: type_at_def num_nodes_def nth_append)
  show "data_of U cr' = data_of U cr @ (if U = T then [aux] else [])"
    using b(1) by (auto simp: data_of_def f(3,5) tree_ok_def nodes_ok_def)
  show "nodes_of U cr' = nodes_of U cr @ (if U = T then [n] else [])"
    using nodes_of_append [OF f(3), of U] a(2,3) by (simp add: f(3) num_nodes_def)
qed

lemma AddChild_parts:
  assumes "AddChild t p c cr = Some cr'"
  shows "refs_ok cr' = refs_ok cr" "events_ok cr' = events_ok cr" "log_ok es cr' = log_ok es cr"
    "type_at T i cr' = type_at T i cr" "holds_nodes u i cr' = holds_nodes u i cr" "num_nodes cr' = num_nodes cr"
    "h_topology cr' = h_topology cr" "h_base cr' = h_base cr"
proof -
  note f = AddChild_fields(3,5) [OF assms]
  note p = parse_of_fields [OF f(2)]
  show type: "type_at T i cr' = type_at T i cr" and num: "num_nodes cr' = num_nodes cr" for T i
    by (simp_all add: type_at_def num_nodes_def f)
  show "holds_nodes u i cr' = holds_nodes u i cr"
    by (simp add: holds_nodes_def type)
  show "refs_ok cr' = refs_ok cr" "events_ok cr' = events_ok cr" "log_ok es cr' = log_ok es cr"
    "h_topology cr' = h_topology cr" "h_base cr' = h_base cr"
    by (simp_all add: refs_ok_def type num p events_ok_def log_ok_def data_of_def nodes_of_def f)
qed

lemma AddChild_placed:
  assumes "AddChild t p c cr = Some cr'" "tree_ok cr" "placed_but N cr" "p < c" "c < num_nodes cr" "c \<notin> attached t cr"
    and "holds_nodes t p cr"
  shows "tree_ok cr'" "placed_but (N - {(t, c)}) cr'" "u \<noteq> t \<Longrightarrow> attached u cr' = attached u cr"
proof -
  show "tree_ok cr'" "u \<noteq> t \<Longrightarrow> attached u cr' = attached u cr"
    using AddChild_tree [OF assms(2,4-6,1)] by simp_all
  show "placed_but (N - {(t, c)}) cr'"
    unfolding placed_but_def AddChild_parts(4,5) [OF assms(1)]
  proof (intro allI impI)
    fix u T d
    assume "T \<in> placed_types u" "type_at T d cr" "(u, d) \<notin> N - {(t, c)}"
    then show "\<exists>q. below u q d cr' \<and> holds_nodes u q cr"
      using assms(3,7) AddChild_below [OF assms(1)] unfolding placed_but_def by (cases "(u, d) = (t, c)") blast+
  qed
qed

lemma h_base_tracker_events [simp]: "cb_events (b\<lparr>m_state_tracker := tr\<rparr>) = cb_events b"
  by simp

section \<open>Submits\<close>

lemma OnSubmitStart_built:
  assumes "built es cr" "OnSubmitStart env s info cr = Some cr'"
  shows "built es cr'" "cb_events (h_base cr') = cb_events (h_base cr)"
proof -
  obtain desc i cr1 cr2 cr3 cr4 cr5 cr6 where
      1: "AddNode (he_debug env) kSubmitNode desc (SubmitNode (m_engine_type info) s) cr = Some (i, cr1)"
    and 2: "AddChild kSubmitTopology kRootNodeIndex i cr1 = Some cr2"
    and 3: "AddChild kAllEventTopology kRootNodeIndex i cr2 = Some cr3"
    and 4: "SetSharedChildRootNodeIndex kSubmitTopology i i cr3 = Some cr4"
    and 5: "SetSharedChildRootNodeIndex kAllEventTopology i i cr4 = Some cr5"
    and 6: "set_ib_parent i (cr5\<lparr>m_cur_submit_node_index := i, m_cur_ib_level := 1\<rparr>) = Some cr6"
    and cr': "cr' = cr6\<lparr>m_cur_ib_packet_node_index := UINT64_MAX, h_ib_stack := [], m_start_node_stack := (\<lambda>_. []),
         m_render_marker_index := UINT64_MAX,
         h_base := (h_base cr6)\<lparr>m_state_tracker := EmulateStateTracker_Reset (m_state_tracker (h_base cr6))\<rparr>,
         m_new_event_start := True, m_new_ib_start := True, m_tracking_first_tile_pass_start := False\<rparr>"
    using assms(2) by (auto simp: OnSubmitStart_def add_to_both_def bind_eq_Some_conv)
  note a = AddNode_parts [OF assms(1) 1]
  have root: "kRootNodeIndex < i" "holds_nodes t kRootNodeIndex cr" for t cr
    using a(9) by (simp_all add: kRootNodeIndex_def holds_nodes_def)
  note c2 = AddChild_placed [OF 2 a(1,2) root(1) a(10,11) root(2)]
  have i2: "i < num_nodes cr2" "i \<notin> attached kAllEventTopology cr2"
    using a(10,11) AddChild_parts(6) [OF 2] c2(3) by simp_all
  note c3 = AddChild_placed [OF 3 c2(1,2) root(1) i2 root(2)]
  have "placed_ok cr3"
    by (rule placed_but_mono [OF c3(2)]) (use TopologyType.exhaust in auto)
  have "core cr5 = core cr3"
    using core_SetRoot [OF 4] core_SetRoot [OF 5] by simp
  moreover have "core cr6 = core (cr5\<lparr>m_cur_submit_node_index := i, m_cur_ib_level := 1\<rparr>)"
    by (rule core_set_ib_parent [OF 6])
  ultimately have same: "tree_core cr' = tree_core cr3" "m_event_node_indices (h_nodes cr') = m_event_node_indices (h_nodes cr3)"
      "m_num_events cr' = m_num_events cr3" "h_topology cr' = h_topology cr3" "m_cur_submit_node_index cr' = i"
      "h_ib_stack cr' = []" "m_render_marker_index cr' = UINT64_MAX"
      "m_start_bin_node_index cr' = m_start_bin_node_index cr3" "m_draw_table_node_index cr' = m_draw_table_node_index cr3"
      "cb_events (h_base cr') = cb_events (h_base cr3)"
    by (simp_all add: core_defs cr')
  note t = tree_core_cong [OF same(1)]
  have r3: "refs_ok cr3" "events_ok cr3" "log_ok es cr3" "h_topology cr3 = (\<lambda>_. SharedNodeTopology_new)" "type_at kSubmitNode i cr3"
    using a(3-7) by (simp_all add: AddChild_parts [OF 3] AddChild_parts [OF 2])
  have "refs_ok cr'"
    using r3(1,5) by (simp add: refs_ok_def same t)
  moreover have "events_ok cr'"
    using r3(2) by (simp add: events_ok_def same t)
  ultimately show "built es cr'"
    using c3(1) \<open>placed_ok cr3\<close> r3 by (simp add: built_def t same)
  have "h_base cr3 = h_base cr"
    using AddChild_parts(8) [OF 2] AddChild_parts(8) [OF 3] parse_of_fields(3) [OF ext_parse [OF a(12)]] by simp
  then show "cb_events (h_base cr') = cb_events (h_base cr)"
    using same(10) by simp
qed

text \<open>A node below the root, in the topology of all events.\<close>

lemma add_presents_built:
  "built es cr \<Longrightarrow> add_presents env s i ps cr = Some cr' \<Longrightarrow> built es cr' \<and> h_base cr' = h_base cr"
proof (induction ps arbitrary: i cr)
  case (Cons p ps)
  show ?case
  proof (cases "s = p_submit_index p")
    case False
    then show ?thesis
      using Cons by simp
  next
    case True
    obtain desc n cr1 cr2 where 1: "AddNode (he_debug env) kPresentNode desc 0 cr = Some (n, cr1)"
      and 2: "AddChild kAllEventTopology kRootNodeIndex n cr1 = Some cr2"
      and k: "add_presents env s (i + 1) ps cr2 = Some cr'"
      using Cons.prems(2) True by (auto simp: bind_eq_Some_conv)
    note a = AddNode_parts [OF Cons.prems(1) 1]
    have root: "kRootNodeIndex < n" "holds_nodes t kRootNodeIndex cr" for t cr
      using a(9) by (simp_all add: kRootNodeIndex_def holds_nodes_def)
    note c2 = AddChild_placed [OF 2 a(1,2) root(1) a(10,11) root(2)]
    have "placed_ok cr2"
      by (rule placed_but_mono [OF c2(2)]) auto
    then have "built es cr2"
      using c2(1) a(3-6) AddChild_parts [OF 2] by (simp add: built_def)
    moreover have "h_base cr2 = h_base cr"
      using AddChild_parts(8) [OF 2] parse_of_fields(3) [OF ext_parse [OF a(12)]] by simp
    ultimately show ?thesis
      using Cons.IH [OF _ k] by simp
  qed
qed simp

lemma sort_submit_children_built:
  assumes "built es cr" "sort_submit_children env cr = Some cr'"
  shows "built es cr'" "h_base cr' = h_base cr"
proof -
  let ?p = "m_cur_submit_node_index cr"
  let ?key = "\<lambda>i. unat (the (GetIbNodeIndex (he_debug env) i (h_nodes cr)))"
  let ?sorted = "sort_key ?key (h_children cr kSubmitTopology ! ?p)"
  have p: "?p < length (h_children cr kSubmitTopology)"
    and cr': "cr' = cr\<lparr>h_children := (h_children cr)(kSubmitTopology := (h_children cr kSubmitTopology)[?p := ?sorted])\<rparr>"
    using assms(2) by (auto simp: sort_submit_children_def Let_def vec_at_def vec_set_def bind_eq_Some_conv split: if_splits)
  have b: "tree_ok cr" "placed_ok cr" "refs_ok cr" "events_ok cr" "log_ok es cr" "h_topology cr = (\<lambda>_. SharedNodeTopology_new)"
    using assms(1) by (simp_all add: built_def)
  have "forest (h_children cr kSubmitTopology)"
    using b(1) by (simp add: tree_ok_def)
  then have perm: "forest ((h_children cr kSubmitTopology)[?p := ?sorted])"
    by (rule forest_permute(1)) (simp_all add: p)
  have num: "num_nodes cr' = num_nodes cr" and type: "type_at T i cr' = type_at T i cr" for T i
    by (simp_all add: cr' num_nodes_def type_at_def)
  have "below t q c cr' = below t q c cr" for t q c
    using p by (cases t) (auto simp: below_def cr' nth_list_update)
  moreover have "holds_nodes t q cr' = holds_nodes t q cr" for t q
    by (simp add: holds_nodes_def type)
  ultimately have "placed_ok cr'"
    using b(2) by (simp add: placed_but_def type)
  moreover have "tree_ok cr'"
    using b(1) perm by (auto simp: tree_ok_def num) (simp_all add: cr')
  moreover have "data_of T cr' = data_of T cr" "nodes_of T cr' = nodes_of T cr" for T
    by (simp_all add: cr' data_of_def nodes_of_def num_nodes_def)
  then have "refs_ok cr'" "events_ok cr'" "log_ok es cr'"
    using b by (simp_all add: refs_ok_def events_ok_def log_ok_def type num) (simp_all add: cr')
  moreover have "h_topology cr' = (\<lambda>_. SharedNodeTopology_new)"
    using b(6) by (simp add: cr')
  ultimately show "built es cr'"
    by (simp add: built_def)
  show "h_base cr' = h_base cr"
    by (simp add: cr')
qed

lemma OnSubmitEnd_built:
  assumes "built es cr" "OnSubmitEnd env s cr = Some cr'"
  shows "built es cr'" "h_base cr' = h_base cr"
proof -
  obtain cr1 where 1: "sort_submit_children env cr = Some cr1" and 2: "add_presents env s 0 (he_presents env) cr1 = Some cr'"
    using assms(2) by (auto simp: OnSubmitEnd_def bind_eq_Some_conv)
  note s = sort_submit_children_built [OF assms(1) 1]
  show "built es cr'" "h_base cr' = h_base cr"
    using add_presents_built [OF s(1) 2] s(2) by simp_all
qed


section \<open>IBs\<close>

lemma built_base [simp]: "built es (cr\<lparr>h_base := b\<rparr>) = built es cr"
proof -
  have "tree_core (cr\<lparr>h_base := b\<rparr>) = tree_core cr" "refs_core (cr\<lparr>h_base := b\<rparr>) = refs_core cr"
    by (simp_all add: tree_core_def refs_core_def)
  from tree_core_cong [OF this(1)] refs_core_cong [OF this] show ?thesis
    by (simp add: built_def events_ok_def)
qed

text \<open>A field node for an IB, below a packet that the parser remembers.\<close>

lemma add_remembered_built:
  assumes "built es cr" "p = UINT64_MAX \<or> p < num_nodes cr" "add_field_node debug p desc cr = Some (n, cr')"
  shows "built es cr'" "cb_events (h_base cr') = cb_events (h_base cr)"
proof -
  have "tree_ok cr"
    using assms(1) by (simp add: built_def)
  have "num_nodes cr < UINT64_MAX"
    using assms(3) AddNode_fields(1,2) by (fastforce simp: add_field_node_def bind_eq_Some_conv)
  then have "p \<noteq> num_nodes cr"
    using assms(2) by auto
  note e = add_field_node_ext(1) [OF \<open>tree_ok cr\<close> this assms(3)]
  show "built es cr'"
    by (rule ext_built [OF e assms(1)]) simp
  show "cb_events (h_base cr') = cb_events (h_base cr)"
    using parse_of_fields(3) [OF ext_parse [OF e]] by simp
qed

lemma core_events: "core cr' = core cr \<Longrightarrow> cb_events (h_base cr') = cb_events (h_base cr)"
  by (simp add: core_def)

lemma start_ib_parent_built:
  assumes "built es cr" "start_ib_parent env ib type desc cr = Some cr'"
  shows "built es cr'" "cb_events (h_base cr') = cb_events (h_base cr)"
proof -
  let ?R = "\<lambda>cr'. built es cr' \<and> cb_events (h_base cr') = cb_events (h_base cr)"
  have par: "post ?R (set_ib_parent i cr1)" if "?R cr1" for i cr1
  proof -
    have "?R cr2" if "set_ib_parent i cr1 = Some cr2" for cr2
      using \<open>?R cr1\<close> core_events [OF core_set_ib_parent [OF that]] by (simp add: core_built [OF core_set_ib_parent [OF that]])
    then show ?thesis
      by (simp add: post_def)
  qed
  have field: "post ?R (Option.bind (add_field_node debug p desc cr1) (\<lambda>(n, cr). set_ib_parent n cr))"
    if "?R cr1" "p = UINT64_MAX \<or> p < num_nodes cr1" for p cr1 and debug :: bool
  proof (intro post_bind post_prod)
    fix y n cr2
    assume "add_field_node debug p desc cr1 = Some y" "y = (n, cr2)"
    then have a: "add_field_node debug p desc cr1 = Some (n, cr2)"
      by simp
    have "built es cr1"
      using that(1) by simp
    from add_remembered_built [OF this that(2) a] show "post ?R (set_ib_parent n cr2)"
      by (intro par) (use that(1) in simp)
  qed
  have "post ?R (start_ib_parent env ib type desc cr)"
    unfolding start_ib_parent_def Let_def
  proof (rule post_bind)
    fix cr1
    assume 1: "(if m_cur_ib_packet_node_index cr \<noteq> UINT64_MAX
        then set_ib_parent (m_cur_ib_packet_node_index cr) cr else Some cr) = Some cr1"
    have R1: "?R cr1"
    proof (cases "m_cur_ib_packet_node_index cr \<noteq> UINT64_MAX")
      case True
      then have "set_ib_parent (m_cur_ib_packet_node_index cr) cr = Some cr1"
        using 1 by simp
      from postD [OF par this] show ?thesis
        using assms(1) by simp
    next
      case False
      then show ?thesis
        using 1 assms(1) by simp
    qed
    then have refs: "m_start_bin_node_index cr1 = UINT64_MAX \<or> m_start_bin_node_index cr1 < num_nodes cr1"
        "m_draw_table_node_index cr1 = UINT64_MAX \<or> m_draw_table_node_index cr1 < num_nodes cr1"
      by (simp_all add: built_def refs_ok_def)
    show "post ?R (if type = kDrawState
       then DIVE_ASSERT (he_debug env) (group_index_of (ib_va_addr ib) cr1 \<noteq> UINT64_MAX) \<bind>
         (\<lambda>_. set_ib_parent (group_index_of (ib_va_addr ib) cr1) cr1)
       else if type = kBinPrefix \<or> type = kBinCommon
       then add_field_node (he_debug env) (m_start_bin_node_index cr1) desc cr1 \<bind> (\<lambda>(n, cr). set_ib_parent n cr)
       else if type = kFixedStrideDrawTable
       then add_field_node (he_debug env) (m_draw_table_node_index cr1) desc cr1 \<bind> (\<lambda>(n, cr). set_ib_parent n cr)
       else Some cr1)"
      by (intro post_if field [OF R1 refs(1)] field [OF R1 refs(2)] post_Some R1 post_bind par)
  qed
  from postD [OF this assms(2)] show "built es cr'" "cb_events (h_base cr') = cb_events (h_base cr)"
    by simp_all
qed

lemma nearest_unchained_in: "nearest_unchained debug ns is q = Some p \<Longrightarrow> p \<in> set is \<or> p = q"
  by (induction "is") (auto simp: bind_eq_Some_conv split: if_splits)

lemma ib_parent_in:
  assumes "ib_parent env type cr = Some p"
  shows "p \<in> set (h_ib_stack cr) \<or> p = m_cur_submit_node_index cr"
  using assms nearest_unchained_in [of "he_debug env" "h_nodes cr" "rev (h_ib_stack cr)"]
  by (fastforce simp: ib_parent_def Let_def split: if_splits)

lemma IbNode_view:
  assumes "IbNode debug i type n c = Some a"
  shows "ib_view a = (ucast (take_bit 6 i), Some type, n, c)"
  using IbNode_fields [OF assms] by (simp add: ib_view_def)

lemma OnIbStart_ok:
  assumes "creator_ok cr" "OnIbStart env s i ib type cr = Some (b, cr')"
  shows "creator_ok cr' \<and> cb_events (h_base cr') = cb_events (h_base cr) @ [ev_IbStart s i ib type]"
proof -
  let ?es = "cb_events (h_base cr)" and ?e = "ev_IbStart s i ib type"
  obtain ok base where base: "EmulateCallbacksBase_OnIbStart s i ib type (h_base cr) = Some (ok, base)"
    using assms(2) by (auto simp: OnIbStart_def bind_eq_Some_conv)
  obtain cr1 a n cr2 p cr3 where
      1: "start_ib_parent env ib type (ib_description i ib type) (cr\<lparr>h_base := base, m_cur_ib_level := ib_level ib\<rparr>) = Some cr1"
    and a: "IbNode (he_debug env) i type (ib_size_in_dwords ib) (\<not> ib_skip ib) = Some a"
    and 2: "AddNode (he_debug env) kIbNode (ib_description i ib type) a cr1 = Some (n, cr2)"
    and p: "ib_parent env type cr2 = Some p" and 3: "AddChild kSubmitTopology p n cr2 = Some cr3"
    and cr': "cr' = cr3\<lparr>h_ib_stack := h_ib_stack cr3 @ [n], m_cmd_begin_packet_node_indices := [],
         m_cmd_begin_event_node_indices := [], m_new_ib_start := True\<rparr>"
    using assms(2) base by (auto simp: OnIbStart_def Let_def bind_eq_Some_conv)
  have events: "cb_events base = ?es @ [?e]"
    using base by (auto simp: EmulateCallbacksBase_OnIbStart_def log_event_def)
  have "core (cr\<lparr>h_base := base, m_cur_ib_level := ib_level ib\<rparr>) = core (cr\<lparr>h_base := base\<rparr>)"
    by (simp add: core_defs)
  from core_built [OF this] have "built ?es (cr\<lparr>h_base := base, m_cur_ib_level := ib_level ib\<rparr>)"
    using assms(1) by (simp add: creator_ok_def)
  note s = start_ib_parent_built [OF this 1]
  note n = AddNode_parts [OF s(1) 2]
  note parse = parse_of_fields [OF ext_parse [OF n(12)]]
  have "refs_ok cr1" "tree_ok cr1"
    using s(1) by (simp_all add: built_def)
  then have "p = 0 \<or> type_at kSubmitNode p cr1 \<or> type_at kIbNode p cr1"
    using ib_parent_in [OF p] by (auto simp: refs_ok_def parse)
  then have p_ok: "p < n" "holds_nodes kSubmitTopology p cr1"
    using n(8,9) by (auto simp: holds_nodes_def type_at_def)
  have "holds_nodes kSubmitTopology p cr2"
    by (rule ext_holds_nodes [OF n(12) \<open>tree_ok cr1\<close> p_ok(2)])
  note c = AddChild_placed [OF 3 n(1,2) p_ok(1) n(10,11) this]
  note q = AddChild_parts [OF 3]
  have "placed_ok cr3"
    by (rule placed_but_mono [OF c(2)]) auto
  have same: "tree_core cr' = tree_core cr3"
    by (simp add: tree_core_def cr')
  note t = tree_core_cong [OF same]
  have refs: "refs_ok cr3" "type_at kIbNode n cr3"
    using n(3,7) by (simp_all add: q)
  then have "refs_ok cr'"
    by (simp add: refs_ok_def t) (simp add: cr')
  moreover have "events_ok cr3"
    using n(4) by (simp add: q)
  then have "events_ok cr'"
    by (simp add: events_ok_def t) (simp add: cr')
  moreover have "log_ok ?es cr1"
    using s(1) by (simp add: built_def)
  then have "log_ok (?es @ [?e]) cr2"
    using IbNode_view [OF a] by (simp add: log_ok_def n(13))
  then have "log_ok (?es @ [?e]) cr'"
    by (simp add: t q)
  moreover have "h_topology cr' = (\<lambda>_. SharedNodeTopology_new)"
    using n(6) q(7) by (simp add: cr')
  ultimately have "built (?es @ [?e]) cr'"
    using c(1) \<open>placed_ok cr3\<close> by (simp add: built_def t)
  moreover have "cb_events (h_base cr') = ?es @ [?e]"
    using s(2) events parse(3) q(8) by (simp add: cr')
  ultimately show ?thesis
    by (simp add: creator_ok_def)
qed


lemma built_stack:
  assumes "built es cr" "set is \<subseteq> set (h_ib_stack cr)"
  shows "built es (cr\<lparr>h_ib_stack := is\<rparr>)"
proof -
  have "tree_core (cr\<lparr>h_ib_stack := is\<rparr>) = tree_core cr"
    by (simp add: tree_core_def)
  note t = tree_core_cong [OF this]
  have "refs_ok (cr\<lparr>h_ib_stack := is\<rparr>)"
    using assms by (auto simp: built_def refs_ok_def t)
  then show ?thesis
    using assms(1) by (simp add: built_def t events_ok_def)
qed

lemma pop_chains_ok:
  "built es cr \<Longrightarrow> pop_chains debug type cr = Some cr' \<Longrightarrow> built es cr' \<and> cb_events (h_base cr') = cb_events (h_base cr)"
proof (induction "length (h_ib_stack cr)" arbitrary: type cr rule: less_induct)
  case less
  note step = less.prems(2) [unfolded pop_chains.simps [of debug type cr] Let_def]
  show ?case
  proof (cases "h_ib_stack cr \<noteq> [] \<and> type = kChain")
    case False
    then show ?thesis
      using step less.prems(1) by (auto split: if_splits)
  next
    case True
    let ?cr = "pop_start kSubmitTopology (cr\<lparr>h_ib_stack := butlast (h_ib_stack cr)\<rparr>)"
    obtain ty where k: "pop_chains debug ty ?cr = Some cr'"
      using step True by (auto simp: bind_eq_Some_conv split: if_splits)
    have "built es (cr\<lparr>h_ib_stack := butlast (h_ib_stack cr)\<rparr>)"
      by (rule built_stack [OF less.prems(1)]) (auto dest: in_set_butlastD)
    then have "built es ?cr"
      using core_built [OF core_starts(2)] by blast
    moreover have "length (h_ib_stack ?cr) < length (h_ib_stack cr)"
      using True by (simp add: pop_start_def)
    ultimately have "built es cr' \<and> cb_events (h_base cr') = cb_events (h_base ?cr)"
      using less.hyps k by blast
    then show ?thesis
      by (simp add: pop_start_def)
  qed
qed


lemma OnIbEnd_ok:
  assumes "creator_ok cr" "OnIbEnd env s i ib cr = Some (b, cr')"
  shows "creator_ok cr' \<and> cb_events (h_base cr') = cb_events (h_base cr) @ [ev_IbEnd s i ib]"
proof -
  let ?es = "cb_events (h_base cr)" and ?e = "ev_IbEnd s i ib"
  let ?started = "\<lambda>cr. cr\<lparr>m_new_ib_start := False\<rparr>"
  obtain ok base where base: "EmulateCallbacksBase_OnIbEnd s i ib (h_base cr) = Some (ok, base)"
    using assms(2) by (auto simp: OnIbEnd_def bind_eq_Some_conv)
  let ?cr = "cr\<lparr>h_base := base\<rparr>"
  obtain cr1 j type cr2 where 1: "cr1 = ?started ?cr \<or> set_range kSubmitTopology j (m_last_added_node_index ?cr) ?cr = Some cr1"
    and 2: "pop_chains (he_debug env) type cr1 = Some cr2"
    and cr': "cr' = cr2\<lparr>h_ib_stack := butlast (h_ib_stack cr2), m_cmd_begin_packet_node_indices := [],
         m_cmd_begin_event_node_indices := [], m_cur_ib_level := ib_level ib\<rparr>"
    using assms(2) base by (auto simp: OnIbEnd_def Let_def bind_eq_Some_conv split: if_splits)
  have events: "cb_events base = ?es @ [?e]"
    using base by (auto simp: EmulateCallbacksBase_OnIbEnd_def log_event_def)
  have "core (?started ?cr) = core ?cr"
    by (simp add: core_defs)
  then have c1: "core cr1 = core ?cr"
    using 1 core_set_range [of _ _ _ ?cr cr1] by blast
  have "built ?es cr1"
    using assms(1) core_built [OF c1] by (simp add: creator_ok_def)
  then have "built (?es @ [?e]) cr1"
    by (simp add: built_def log_ok_def)
  from pop_chains_ok [OF this 2] have cr2: "built (?es @ [?e]) cr2" "cb_events (h_base cr2) = ?es @ [?e]"
    using core_events [OF c1] events by simp_all
  have same: "core cr' = core (cr2\<lparr>h_ib_stack := butlast (h_ib_stack cr2)\<rparr>)"
    by (simp add: core_defs cr')
  have "built (?es @ [?e]) (cr2\<lparr>h_ib_stack := butlast (h_ib_stack cr2)\<rparr>)"
    by (rule built_stack [OF cr2(1)]) (auto dest: in_set_butlastD)
  then have "built (?es @ [?e]) cr'"
    by (simp only: core_built [OF same])
  then show ?thesis
    using cr2(2) core_events [OF same] by (simp add: creator_ok_def)
qed


section \<open>Events and passes\<close>

lemma AddNode_num_events:
  "AddNode debug T desc aux (cr\<lparr>m_num_events := k\<rparr>) =
   map_option (\<lambda>(n, cr). (n, cr\<lparr>m_num_events := k\<rparr>)) (AddNode debug T desc aux cr)"
  by (simp add: AddNode_def add_topology_node_def Let_def split: bind_splits)

lemma event_id_of_EventNode [simp]: "event_id_of (EventNode k type b) = k"
  by (simp add: event_id_of_def EventNode_fields(1))

text \<open>The event node of a packet, numbered next and placed below its pass or submit.\<close>

lemma on_event_built:
  assumes "built es cr" "on_event env retrieve s va h opc p cr m = Some (cr', m')"
  shows "built es cr'" "cb_events (h_base cr') = cb_events (h_base cr)"
proof -
  let ?parent = "if m_render_marker_index cr \<noteq> UINT64_MAX then m_render_marker_index cr else m_cur_submit_node_index cr"
  obtain desc type ignored n cr1 cr2 cr3 where
      1: "AddNode (he_debug env) kEventNode desc (EventNode (m_num_events cr) type ignored)
        (cr\<lparr>m_num_events := m_num_events cr + 1\<rparr>) = Some (n, cr1)"
    and 2: "set_range kAllEventTopology n p ((AppendEventNodeIndex n cr1)
        \<lparr>m_cmd_begin_event_node_indices := m_cmd_begin_event_node_indices (AppendEventNodeIndex n cr1) @ [n]\<rparr>) = Some cr2"
    and 3: "AddChild kAllEventTopology ?parent n (cr2\<lparr>m_new_event_start := True\<rparr>) = Some cr3"
    and cr': "cr' = cr3\<lparr>m_node_parent_info := (m_node_parent_info cr3)(kAllEventTopology :=
               (m_node_parent_info cr3 kAllEventTopology)(n := Some ?parent))\<rparr>"
    using assms(2) by (auto simp: on_event_def add_event_node_def Let_def bind_eq_Some_conv)
  obtain cr0 where 0: "AddNode (he_debug env) kEventNode desc (EventNode (m_num_events cr) type ignored) cr = Some (n, cr0)"
    and cr1: "cr1 = cr0\<lparr>m_num_events := m_num_events cr + 1\<rparr>"
    using 1 by (auto simp: AddNode_num_events)
  note a = AddNode_parts [OF assms(1) 0]
  let ?cr = "cr2\<lparr>m_new_event_start := True\<rparr>"
  have "core ?cr = core (AppendEventNodeIndex n cr1)"
    using core_set_range [OF 2] by (simp add: core_defs)
  then have same: "tree_core ?cr = tree_core cr0" "refs_core ?cr = refs_core cr0"
      "m_event_node_indices (h_nodes ?cr) = m_event_node_indices (h_nodes cr0) @ [n]"
      "m_num_events ?cr = m_num_events cr + 1" "h_topology ?cr = h_topology cr0"
      "cb_events (h_base ?cr) = cb_events (h_base cr0)"
    by (simp_all add: core_defs AppendEventNodeIndex_def cr1)
  note t = tree_core_cong [OF same(1)]
  have old: "tree_ok cr" "refs_ok cr" "events_ok cr"
    using assms(1) by (simp_all add: built_def)
  have parse: "m_event_node_indices (h_nodes cr0) = m_event_node_indices (h_nodes cr)" "h_base cr0 = h_base cr"
    using extD(3) [OF a(12)] parse_of_fields(3) [OF ext_parse [OF a(12)]] by simp_all
  have "?parent = 0 \<or> type_at kSubmitNode ?parent cr \<or> type_at kRenderMarkerNode ?parent cr"
    using old(2) by (auto simp: refs_ok_def)
  then have parent: "?parent < n" "holds_nodes kAllEventTopology ?parent cr"
    using a(8,9) by (auto simp: holds_nodes_def type_at_def)
  have hold: "holds_nodes kAllEventTopology ?parent ?cr"
    using ext_holds_nodes [OF a(12) old(1) parent(2)] by (simp add: t)
  have "tree_ok ?cr" "placed_but {(t, c). c = n \<and> kEventNode \<in> placed_types t} ?cr" "n < num_nodes ?cr"
      "n \<notin> attached kAllEventTopology ?cr"
    using a(1,2,10,11) by (simp_all only: t not_False_eq_True)
  note c = AddChild_placed [OF 3 this(1,2) parent(1) this(3,4) hold]
  note q = AddChild_parts [OF 3]
  have "placed_ok cr3"
    by (rule placed_but_mono [OF c(2)]) auto
  moreover have "refs_ok cr3"
    using a(3) refs_core_cong [OF same(1,2)] by (simp add: q)
  moreover have "events_ok ?cr"
    using old(3) same(3,4) by (simp add: events_ok_def t a(13,14) parse)
  then have "events_ok cr3"
    by (simp add: q)
  moreover have "log_ok es cr3"
    using a(5) by (simp add: q t)
  moreover have "h_topology cr3 = (\<lambda>_. SharedNodeTopology_new)"
    using a(6) same(5) by (simp add: q)
  ultimately have "built es cr3"
    using c(1) by (simp add: built_def)
  moreover have final: "core cr' = core cr3"
    by (simp add: core_defs cr')
  ultimately show "built es cr'"
    by (simp only: core_built [OF final])
  show "cb_events (h_base cr') = cb_events (h_base cr)"
    using core_events [OF final] q(8) same(6) parse(2) by simp
qed

lemma start_pass_built:
  assumes "built es cr" "start_pass debug k desc p cr = Some cr'"
  shows "built es cr'" "cb_events (h_base cr') = cb_events (h_base cr)"
proof -
  obtain cr1 n cr2 cr3 where 1: "end_pass cr = Some cr1" and 2: "AddNode debug kRenderMarkerNode desc 0 cr1 = Some (n, cr2)"
    and 3: "AddChild kAllEventTopology (m_cur_submit_node_index (update_filters k n (cr2\<lparr>m_render_marker_index := n\<rparr>))) n
        (update_filters k n (cr2\<lparr>m_render_marker_index := n\<rparr>)) = Some cr3"
    and cr': "cr' = (push_start kAllEventTopology p cr3)\<lparr>m_new_event_start := True\<rparr>"
    using assms(2) by (auto simp: start_pass_def Let_def bind_eq_Some_conv)
  have c1: "core cr1 = core cr"
    by (rule core_end_pass [OF 1])
  then have b1: "built es cr1"
    using assms(1) core_built by blast
  note a = AddNode_parts [OF b1 2]
  let ?cr = "update_filters k n (cr2\<lparr>m_render_marker_index := n\<rparr>)"
  have "core ?cr = core (cr2\<lparr>m_render_marker_index := n\<rparr>)"
    by simp
  then have same: "tree_core ?cr = tree_core cr2" "m_cur_submit_node_index ?cr = m_cur_submit_node_index cr2"
      "h_ib_stack ?cr = h_ib_stack cr2" "m_render_marker_index ?cr = n" "m_start_bin_node_index ?cr = m_start_bin_node_index cr2"
      "m_draw_table_node_index ?cr = m_draw_table_node_index cr2"
      "m_event_node_indices (h_nodes ?cr) = m_event_node_indices (h_nodes cr2)"
      "m_num_events ?cr = m_num_events cr2" "h_topology ?cr = h_topology cr2"
      "cb_events (h_base ?cr) = cb_events (h_base cr2)"
    by (simp_all add: core_defs)
  note t = tree_core_cong [OF same(1)]
  note parse = parse_of_fields [OF ext_parse [OF a(12)]]
  have old: "tree_ok cr1" "refs_ok cr1"
    using b1 by (simp_all add: built_def)
  let ?parent = "m_cur_submit_node_index ?cr"
  have "?parent = 0 \<or> type_at kSubmitNode ?parent cr1"
    using old(2) by (simp add: refs_ok_def same parse)
  then have parent: "?parent < n" "holds_nodes kAllEventTopology ?parent cr1"
    using a(8,9) by (auto simp: holds_nodes_def type_at_def)
  have hold: "holds_nodes kAllEventTopology ?parent ?cr"
    using ext_holds_nodes [OF a(12) old(1) parent(2)] by (simp add: t)
  have "tree_ok ?cr" "placed_but {(t, c). c = n \<and> kRenderMarkerNode \<in> placed_types t} ?cr" "n < num_nodes ?cr"
      "n \<notin> attached kAllEventTopology ?cr"
    using a(1,2,10,11) by (simp_all only: t not_False_eq_True)
  note c = AddChild_placed [OF 3 this(1,2) parent(1) this(3,4) hold]
  note q = AddChild_parts [OF 3]
  have "placed_ok cr3"
    by (rule placed_but_mono [OF c(2)]) auto
  moreover have "refs_ok ?cr"
    using a(3,7) unfolding refs_ok_def same t by blast
  then have "refs_ok cr3"
    by (simp add: q)
  moreover have "events_ok ?cr"
    using a(4) by (simp add: events_ok_def same t)
  then have "events_ok cr3"
    by (simp add: q)
  moreover have "log_ok es cr3"
    using a(5) by (simp add: q t)
  moreover have "h_topology cr3 = (\<lambda>_. SharedNodeTopology_new)"
    using a(6) same(9) by (simp add: q)
  ultimately have "built es cr3"
    using c(1) by (simp add: built_def)
  moreover have final: "core cr' = core cr3"
    unfolding cr' by (rule trans [OF _ core_starts(1)]) (simp add: core_defs)
  ultimately show "built es cr'"
    by (simp only: core_built [OF final])
  show "cb_events (h_base cr') = cb_events (h_base cr)"
    using core_events [OF final] q(8) same(10) parse(3) core_events [OF c1] by simp
qed


lemma on_set_marker_built:
  assumes "built es cr" "on_set_marker env retrieve s va p cr m = Some (cr', m')"
  shows "built es cr' \<and> cb_events (h_base cr') = cb_events (h_base cr)"
proof -
  let ?isa = "info_isa (he_info env)"
  obtain packet m1 where k: "(case find (\<lambda>q. isa_marker ?isa (fst q) = set_marker_dword ?isa packet AND 0xf) pass_markers of
          None \<Rightarrow> Some (cr, m1)
        | Some (k, desc) \<Rightarrow> map_option (\<lambda>cr. (cr, m1)) (start_pass (he_debug env) k desc p cr)) = Some (cr', m')"
    using assms(2) by (auto simp: on_set_marker_def Let_def bind_eq_Some_conv)
  show ?thesis
  proof (cases "find (\<lambda>q. isa_marker ?isa (fst q) = set_marker_dword ?isa packet AND 0xf) pass_markers")
    case None
    then show ?thesis
      using k assms(1) by simp
  next
    case (Some q)
    then have "start_pass (he_debug env) (fst q) (snd q) p cr = Some cr'"
      using k by (auto split: prod.splits)
    then show ?thesis
      using start_pass_built [OF assms(1)] by blast
  qed
qed

section \<open>Packets\<close>

lemma built_remember:
  assumes "built es cr" "i = UINT64_MAX \<or> i < num_nodes cr"
  shows "built es (cr\<lparr>m_start_bin_node_index := i\<rparr>)" "built es (cr\<lparr>m_draw_table_node_index := i\<rparr>)"
proof -
  have "tree_core (cr\<lparr>m_start_bin_node_index := i\<rparr>) = tree_core cr" "tree_core (cr\<lparr>m_draw_table_node_index := i\<rparr>) = tree_core cr"
    by (simp_all add: tree_core_def)
  note t = tree_core_cong [OF this(1)] tree_core_cong [OF this(2)]
  show "built es (cr\<lparr>m_start_bin_node_index := i\<rparr>)" "built es (cr\<lparr>m_draw_table_node_index := i\<rparr>)"
    using assms by (simp_all add: built_def refs_ok_def events_ok_def t)
qed

lemma packet_case_built:
  assumes "built es cr" "p < num_nodes cr" "packet_case env retrieve s va h opc p cr m = Some (cr', m')"
  shows "built es cr' \<and> cb_events (h_base cr') = cb_events (h_base cr)"
proof -
  let ?R = "\<lambda>(cr', m'). built es cr' \<and> cb_events (h_base cr') = cb_events (h_base cr)"
  have tree: "tree_ok cr"
    using assms(1) by (simp add: built_def)
  have ext: "built es cr1 \<and> cb_events (h_base cr1) = cb_events (h_base cr)" if "ext shown_types cr cr1" for cr1
    using ext_built [OF that assms(1)] parse_of_fields(3) [OF ext_parse [OF that]] by simp
  have ib: "post ?R (Some (cr\<lparr>m_cur_ib_packet_node_index := p\<rparr>, m1))" for m1
  proof -
    have "core (cr\<lparr>m_cur_ib_packet_node_index := p\<rparr>) = core cr"
      by (simp add: core_defs)
    from core_built [OF this] show ?thesis
      using assms(1) by (simp add: post_def)
  qed
  have "post ?R (packet_case env retrieve s va h opc p cr m)"
    unfolding packet_case_def Let_def
  proof (intro post_bind post_prod post_if)
    show "post ?R (on_event env retrieve s va h opc p cr m1)" for m1
      using on_event_built [OF assms(1)] by (auto simp: post_def)
    show "post ?R (Some (cr\<lparr>m_cur_ib_packet_node_index := p\<rparr>, m1))" for m1
      by (rule ib)
    show "post ?R (Some (cr\<lparr>m_start_bin_node_index := p\<rparr>, m1))"
        "post ?R (Some (cr\<lparr>m_start_bin_node_index := UINT64_MAX\<rparr>, m1))"
        "post ?R (Some (cr\<lparr>m_draw_table_node_index := p\<rparr>, m1))" for m1
      using built_remember [OF assms(1)] assms(2) by (simp_all add: post_def)
    show "post ?R (AppendLoadStateExtBufferNode env retrieve s va p cr m1)" for m1
      by (auto simp: post_def dest!: ext [OF AppendLoadStateExtBufferNode_ext [OF tree assms(2)]])
    show "post ?R (AppendMemRegNodes env retrieve s va p cr m1)" for m1
      by (auto simp: post_def dest!: ext [OF AppendMemRegNodes_ext [OF tree assms(2)]])
    show "post ?R (on_set_marker env retrieve s va p cr m1)" for m1
      by (auto simp: post_def dest!: on_set_marker_built [OF assms(1)])
    show "post ?R (Some (cr, m1))" for m1
      using assms(1) by (simp add: post_def)
  qed
  from postD [OF this assms(3)] show ?thesis
    by simp
qed


lemma PacketNode_view:
  assumes "packet_aux env va h cr = Some a" "header_type h \<in> {4, 7}"
  shows "[packet_view a] = shown_packet (ev_Packet s i va h)"
  using PacketNode_fields(1,2) [OF assms(1) [unfolded packet_aux_def]] assms(2)
  by (auto simp: packet_view_def split: if_splits)

lemma show_packet_node_built:
  assumes "built es cr" "show_packet_node env retrieve s va h cr m = Some (cr', m')" "header_type h \<in> {4, 7}"
  shows "built (es @ [ev_Packet s i va h]) cr' \<and> cb_events (h_base cr') = cb_events (h_base cr)"
proof -
  let ?e = "ev_Packet s i va h"
  obtain p cr1 m1 cr2 cr3 m2 cr4 m3 opc cr5 where 1: "AddPacketNode env retrieve s va h cr m = Some (p, cr1, m1)"
    and 2: "add_shared_packet p (push_starts p cr1) = Some cr2"
    and 3: "(if opc = isa_op (info_isa (he_info env)) CP_SET_DRAW_STATE
        then CacheSetDrawStateGroupInfo env retrieve s va p h
          (cr2\<lparr>m_cmd_begin_packet_node_indices := m_cmd_begin_packet_node_indices cr2 @ [p]\<rparr>) m1
        else Some (cr2\<lparr>m_cmd_begin_packet_node_indices := m_cmd_begin_packet_node_indices cr2 @ [p]\<rparr>, m1)) = Some (cr3, m2)"
    and 4: "packet_case env retrieve s va h opc p cr3 m2 = Some (cr4, m3)"
    and 5: "add_to_pass p cr4 = Some cr5" and cr': "cr' = cr5\<lparr>m_last_added_node_index := p\<rparr>"
    using assms(2) unfolding show_packet_node_def Let_def
    by (auto simp only: prod.case option.inject prod.inject bind_eq_Some_conv)
  have old: "tree_ok cr" "log_ok es cr"
    using assms(1) by (simp_all add: built_def)
  obtain desc a cr0 where a: "packet_aux env va h cr = Some a" "AddNode (he_debug env) kPacketNode desc a cr = Some (p, cr0)"
      "ext shown_types cr0 cr1"
    using AddPacketNode_ext [OF old(1) 1 assms(3)] by blast
  note n = AddNode_parts [OF assms(1) a(2)]
  have "log_ok (es @ [?e]) cr0"
    using old(2) PacketNode_view [OF a(1) assms(3), of s i] by (simp add: log_ok_def n(13))
  then have "built (es @ [?e]) cr0"
    using n(1-4,6) placed_but_mono [OF n(2)] by (simp add: built_def)
  then have b1: "built (es @ [?e]) cr1"
    by (rule ext_built [OF a(3)]) simp
  have p1: "p < num_nodes cr1"
    using n(10) ext_num [OF a(3)] by simp
  have "core cr2 = core (push_starts p cr1)"
    by (rule core_shared_packet [OF 2])
  then have c2: "core cr2 = core cr1"
    by simp
  have "core (cr2\<lparr>m_cmd_begin_packet_node_indices := m_cmd_begin_packet_node_indices cr2 @ [p]\<rparr>) = core cr2"
    by (simp add: core_defs)
  then have c3: "core cr3 = core cr1"
    using 3 c2 core_cache by (cases "opc = isa_op (info_isa (he_info env)) CP_SET_DRAW_STATE") fastforce+
  have "tree_core cr3 = tree_core cr1"
    using c3 by (simp add: core_def)
  then have "p < num_nodes cr3"
    using p1 tree_core_cong(1) by metis
  moreover have "built (es @ [?e]) cr3"
    using b1 by (simp only: core_built [OF c3])
  ultimately have 6: "built (es @ [?e]) cr4" "cb_events (h_base cr4) = cb_events (h_base cr3)"
    using packet_case_built [OF _ _ 4] by simp_all
  have c5: "core cr' = core cr4"
    using core_pass [OF 5] by (simp add: core_defs cr')
  have "h_base cr1 = h_base cr"
    using parse_of_fields(3) [OF ext_parse [OF n(12)]] parse_of_fields(3) [OF ext_parse [OF a(3)]] by simp
  then show ?thesis
    using 6 core_events [OF c5] core_events [OF c3] by (simp add: core_built [OF c5])
qed

lemma OnPacket_ok:
  assumes "creator_ok cr" "OnPacket env retrieve s i va h cr m = Some (b, cr', m')"
  shows "creator_ok cr' \<and> cb_events (h_base cr') = cb_events (h_base cr) @ [ev_Packet s i va h]"
proof -
  let ?es = "cb_events (h_base cr)" and ?e = "ev_Packet s i va h"
  obtain ok base m1 where 1: "EmulateCallbacksBase_OnPacket (he_debug env) (info_isa (he_info env)) retrieve s i va h (h_base cr) m
        = Some (ok, base, m1)"
    and k: "(if \<not> ok then Some (False, cr\<lparr>h_base := base\<rparr>, m1)
       else if header_type h \<noteq> 4 \<and> header_type h \<noteq> 7 then Some (True, cr\<lparr>h_base := base\<rparr>, m1)
       else Option.bind (show_packet_node env retrieve s va h (cr\<lparr>h_base := base\<rparr>) m1) (\<lambda>(cr, m). Some (True, cr, m)))
       = Some (b, cr', m')"
    using assms(2) unfolding OnPacket_def Let_def
    by (auto simp only: prod.case option.inject prod.inject bind_eq_Some_conv)
  have ok and events: "cb_events base = ?es @ [?e]"
    using 1 by (auto simp: EmulateCallbacksBase_OnPacket_def EmulateStateTracker_OnPacket_def log_event_def bind_eq_Some_conv)
  have b: "built ?es (cr\<lparr>h_base := base\<rparr>)"
    using assms(1) by (simp add: creator_ok_def)
  show ?thesis
  proof (cases "header_type h = 4 \<or> header_type h = 7")
    case False
    then have "cr' = cr\<lparr>h_base := base\<rparr>"
      using k \<open>ok\<close> by simp
    moreover have "built (?es @ [?e]) (cr\<lparr>h_base := base\<rparr>)"
      using b False by (simp add: built_def log_ok_def)
    ultimately show ?thesis
      by (simp add: creator_ok_def events)
  next
    case True
    then obtain m2 where "show_packet_node env retrieve s va h (cr\<lparr>h_base := base\<rparr>) m1 = Some (cr', m2)"
      using k \<open>ok\<close> by (auto simp: bind_eq_Some_conv)
    from show_packet_node_built [OF b this, of i] show ?thesis
      using True events by (simp add: creator_ok_def)
  qed
qed

section \<open>The emulation\<close>

text \<open>The emulator never starts an IB as a CHAIN, so no IB node has this type.\<close>

definition creator_fine :: "creator option \<Rightarrow> bool" where
  "creator_fine c \<longleftrightarrow> (\<forall>cr. c = Some cr \<longrightarrow> creator_ok cr \<and> no_chain_started (h_base cr))"

lemma creator_fineI:
  assumes "creator_ok cr' \<and> cb_events (h_base cr') = cb_events (h_base cr) @ [e]" "creator_fine (Some cr)"
    and "\<And>s i info. e \<noteq> ev_IbStart s i info kChain"
  shows "creator_fine (Some cr')"
proof -
  have "no_chain_started (h_base cr')"
    using assms by (simp add: no_chain_started_def creator_fine_def) metis
  then show ?thesis
    using assms(1) by (simp add: creator_fine_def)
qed

lemma creator_fine_same:
  assumes "built (cb_events (h_base cr)) cr'" "cb_events (h_base cr') = cb_events (h_base cr)" "creator_fine (Some cr)"
  shows "creator_fine (Some cr')"
  using assms by (simp add: creator_fine_def creator_ok_def no_chain_started_def)

interpretation creator_callbacks: callback_invariant "creator_env env retrieve is_valid" creator_fine
proof
  fix c c' :: "creator option" and s i :: u32 and info type b
  assume *: "creator_fine c" "env_OnIbStart (creator_env env retrieve is_valid) s i info type c = Some (b, c')"
    and "type \<noteq> kChain"
  then obtain cr cr' where "c = Some cr" "c' = Some cr'" "OnIbStart env s i info type cr = Some (b, cr')"
    by (auto simp: creator_env_def bind_eq_Some_conv)
  moreover from this have "creator_ok cr"
    using *(1) by (simp add: creator_fine_def)
  ultimately show "creator_fine c'"
    using creator_fineI [OF OnIbStart_ok] *(1) \<open>type \<noteq> kChain\<close> by simp
next
  fix c c' :: "creator option" and s i :: u32 and info b
  assume *: "creator_fine c" "env_OnIbEnd (creator_env env retrieve is_valid) s i info c = Some (b, c')"
  then obtain cr cr' where "c = Some cr" "c' = Some cr'" "OnIbEnd env s i info cr = Some (b, cr')"
    by (auto simp: creator_env_def bind_eq_Some_conv)
  moreover from this have "creator_ok cr"
    using *(1) by (simp add: creator_fine_def)
  ultimately show "creator_fine c'"
    using creator_fineI [OF OnIbEnd_ok] *(1) by simp
next
  fix c c' :: "creator option" and s i :: u32 and va h and m :: 'a and b m'
  assume *: "creator_fine c" "env_OnPacket (creator_env env retrieve is_valid) s i va h c m = Some (b, c', m')"
  then obtain cr cr' where "c = Some cr" "c' = Some cr'" "OnPacket env retrieve s i va h cr m = Some (b, cr', m')"
    by (auto simp: creator_env_def bind_eq_Some_conv)
  moreover from this have "creator_ok cr"
    using *(1) by (simp add: creator_fine_def)
  ultimately show "creator_fine c'"
    using creator_fineI [OF OnPacket_ok] *(1) by simp
next
  fix c :: "creator option" and s :: u32 and info
  assume *: "creator_fine c"
  show "creator_fine (env_OnSubmitStart (creator_env env retrieve is_valid) s info c)"
  proof (cases "env_OnSubmitStart (creator_env env retrieve is_valid) s info c")
    case (Some cr')
    then obtain cr where cr: "c = Some cr" "OnSubmitStart env s info cr = Some cr'"
      by (auto simp: creator_env_def bind_eq_Some_conv)
    then have "built (cb_events (h_base cr)) cr"
      using * by (simp add: creator_fine_def creator_ok_def)
    note r = OnSubmitStart_built [OF this cr(2)]
    have "creator_fine (Some cr')"
      by (rule creator_fine_same [OF r(1)]) (use r(2) * cr(1) in simp_all)
    then show ?thesis
      by (simp add: Some)
  qed (simp add: creator_fine_def)
next
  fix c :: "creator option" and s :: u32 and info
  assume *: "creator_fine c"
  show "creator_fine (env_OnSubmitEnd (creator_env env retrieve is_valid) s info c)"
  proof (cases "env_OnSubmitEnd (creator_env env retrieve is_valid) s info c")
    case (Some cr')
    then obtain cr where cr: "c = Some cr" "OnSubmitEnd env s cr = Some cr'"
      by (auto simp: creator_env_def bind_eq_Some_conv)
    then have "built (cb_events (h_base cr)) cr"
      using * by (simp add: creator_fine_def creator_ok_def)
    note r = OnSubmitEnd_built [OF this cr(2)]
    have "creator_fine (Some cr')"
      by (rule creator_fine_same [OF r(1)]) (use r(2) * cr(1) in simp_all)
    then show ?thesis
      by (simp add: Some)
  qed (simp add: creator_fine_def)
qed

lemma CreateTrees_start_ok:
  assumes "CreateTrees_start env flat CommandHierarchyCreator_new = Some cr"
  shows "creator_ok cr \<and> no_chain_started (h_base cr)"
proof -
  let ?new = "CommandHierarchyCreator_new\<lparr>h_nodes := Nodes_new, h_exclude := (\<lambda>_. {}), h_topology := (\<lambda>_. SharedNodeTopology_new)\<rparr>"
  obtain r cr1 where 1: "AddNode (he_debug env) kRootNode [] 0 ?new = Some (r, cr1)"
    and cr: "cr = cr1\<lparr>m_num_events := 0, m_flatten_chain_nodes := flat\<rparr>"
    using assms by (auto simp: CreateTrees_start_def Let_def bind_eq_Some_conv)
  note f = AddNode_fields [OF 1]
  note p = parse_of_fields [OF f(9)]
  have nodes: "m_node_type (h_nodes cr) = [kRootNode]" "m_description (h_nodes cr) = [[]]" "m_aux_info (h_nodes cr) = [0]"
    "m_event_node_indices (h_nodes cr) = []" "h_children cr t = [[]]" "h_shared_children cr t = [[]]" for t
    using f by (simp_all add: cr Nodes_new_def CommandHierarchyCreator_new_def)
  have rest: "h_topology cr = (\<lambda>_. SharedNodeTopology_new)" "m_cur_submit_node_index cr = 0" "h_ib_stack cr = []"
    "m_render_marker_index cr = UINT64_MAX" "m_start_bin_node_index cr = UINT64_MAX"
    "m_draw_table_node_index cr = UINT64_MAX" "m_num_events cr = 0" "cb_events (h_base cr) = []"
    using p by (simp_all add: cr CommandHierarchyCreator_new_def EmulateCallbacksBase_new_def)
  have num: "num_nodes cr = 1"
    by (simp add: num_nodes_def nodes)
  have "forest [[]]"
    by (rule forestI) simp_all
  then have "tree_ok cr"
    by (simp add: tree_ok_def nodes_ok_def num nodes UINT64_MAX_def)
  moreover have "\<not> type_at T i cr" if "T \<in> placed_types t" for T i t
    using that by (cases t) (auto simp: type_at_def num nodes)
  then have "placed_ok cr"
    by (simp add: placed_but_def)
  moreover have "data_of kEventNode cr = []" "data_of kPacketNode cr = []" "data_of kIbNode cr = []" "nodes_of kEventNode cr = []"
    by (simp_all add: data_of_def nodes_of_def num nodes)
  ultimately show ?thesis
    by (simp add: creator_ok_def built_def refs_ok_def events_ok_def log_ok_def rest nodes no_chain_started_def)
qed

lemma create_topology_of_fields:
  assumes "create_topology_of debug t cr = Some cr'"
  shows "create_topology debug (h_children cr t) (h_shared_children cr t) (m_node_start_shared_children cr t)
      (m_node_end_shared_children cr t) (m_node_root_node_indices cr t) (h_topology cr t) = Some (h_topology cr' t)"
    "h_nodes cr' = h_nodes cr" "h_children cr' = h_children cr" "h_shared_children cr' = h_shared_children cr"
    "h_base cr' = h_base cr" "u \<noteq> t \<Longrightarrow> h_topology cr' u = h_topology cr u"
  using assms by (auto simp: create_topology_of_def)

section \<open>The hierarchy\<close>

lemma represents_create:
  assumes "forest cs" "length shared = length cs"
    and "create_topology debug cs shared starts ends roots SharedNodeTopology_new = Some u"
  shows "represents (length cs) cs u"
  using create_topology_correct [OF assms(1,2), of debug starts ends roots] assms(3) by (metis option.inject)

text \<open>A hierarchy that was built: the invariant of the lists, and the topologies made of them.\<close>

lemma CreateTrees_built:
  assumes "CreateTrees env retrieve is_valid submits flat CommandHierarchyCreator_new m = Some (ok, cr, m')"
  shows "tree_ok cr" "placed_ok cr" "events_ok cr" "log_ok (cb_events (h_base cr)) cr" "no_chain_started (h_base cr)"
    "ok \<Longrightarrow> represents (num_nodes cr) (h_children cr t) (h_topology cr t)"
proof -
  obtain cr1 cr2 m2 where 1: "CreateTrees_start env flat CommandHierarchyCreator_new = Some cr1"
    and 2: "ProcessSubmits (creator_env env retrieve is_valid) submits (Some cr1) m = Some (ok, Some cr2, m2)"
    and k: "(if \<not> ok then Some (False, cr2, m2)
       else Option.bind (CreateTopologies (he_debug env) cr2) (\<lambda>cr. Some (True, cr, m2))) = Some (ok, cr, m')"
    using assms by (auto simp: CreateTrees_def bind_eq_Some_conv split: if_splits)
  have "creator_fine (Some cr1)"
    using CreateTrees_start_ok [OF 1] by (simp add: creator_fine_def)
  from creator_callbacks.ProcessSubmits_kept [OF this 2] have c2: "creator_ok cr2" "no_chain_started (h_base cr2)"
    by (simp_all add: creator_fine_def)
  then have b2: "tree_ok cr2" "placed_ok cr2" "events_ok cr2" "log_ok (cb_events (h_base cr2)) cr2"
      "h_topology cr2 = (\<lambda>_. SharedNodeTopology_new)"
    by (simp_all add: creator_ok_def built_def)
  have "h_nodes cr = h_nodes cr2 \<and> h_children cr = h_children cr2 \<and> h_shared_children cr = h_shared_children cr2 \<and>
      h_base cr = h_base cr2 \<and> m_num_events cr = m_num_events cr2 \<and>
      (ok \<longrightarrow> represents (num_nodes cr2) (h_children cr2 t) (h_topology cr t))"
  proof (cases ok)
    case False
    then show ?thesis
      using k by simp
  next
    case True
    then obtain cr3 where 3: "create_topology_of (he_debug env) kSubmitTopology cr2 = Some cr3"
        "create_topology_of (he_debug env) kAllEventTopology cr3 = Some cr"
      using k by (auto simp: CreateTopologies_def bind_eq_Some_conv)
    note f = create_topology_of_fields [OF 3(1)] create_topology_of_fields [OF 3(2)]
    have cs: "forest (h_children cr2 u)" "length (h_shared_children cr2 u) = length (h_children cr2 u)"
        "length (h_children cr2 u) = num_nodes cr2" for u
      using b2(1) by (simp_all add: tree_ok_def)
    have "represents (num_nodes cr2) (h_children cr2 t) (h_topology cr t)"
    proof (cases t)
      case kSubmitTopology
      have "h_topology cr t = h_topology cr3 t"
        using f(12) [of t] kSubmitTopology by simp
      then show ?thesis
        using represents_create [OF cs(1,2)] f(1) b2(5) cs(3) kSubmitTopology by simp
    next
      case kAllEventTopology
      have "h_topology cr3 t = SharedNodeTopology_new"
        using f(6) [of t] kAllEventTopology b2(5) by simp
      then show ?thesis
        using represents_create [OF cs(1,2)] f(7) f(3,4) cs(3) kAllEventTopology by simp
    qed
    moreover have "m_num_events cr = m_num_events cr2"
      using 3 by (auto simp: create_topology_of_def)
    ultimately show ?thesis
      using f by simp
  qed
  then have same: "h_nodes cr = h_nodes cr2" "h_children cr = h_children cr2" "h_shared_children cr = h_shared_children cr2"
      "h_base cr = h_base cr2" "m_num_events cr = m_num_events cr2"
    and rep: "ok \<Longrightarrow> represents (num_nodes cr2) (h_children cr2 t) (h_topology cr t)"
    by simp_all
  have tc: "tree_core cr = tree_core cr2"
    by (simp add: tree_core_def same)
  note t = tree_core_cong [OF tc]
  show "tree_ok cr" "placed_ok cr" "log_ok (cb_events (h_base cr)) cr" "no_chain_started (h_base cr)"
    using b2 c2(2) by (simp_all add: t same)
  show "events_ok cr"
    using b2(3) by (simp add: events_ok_def t same)
  show "represents (num_nodes cr) (h_children cr t) (h_topology cr t)" if ok
    using rep [OF that] by (simp add: t same)
qed

text \<open>Placed nodes are met by the walk from the root.\<close>

lemma preorder_child:
  assumes "forest cs" "i < length cs" "p \<in> set (preorder cs i)" "c \<in> set (cs ! p)"
  shows "c \<in> set (preorder cs i)"
  using assms(2,3)
proof (induction "length cs - i" arbitrary: i rule: less_induct)
  case less
  note pre = preorder_forest [OF assms(1) less.prems(1)]
  show ?case
  proof (cases "p = i")
    case True
    then show ?thesis
      using assms(4) preorder_nonempty [of cs c] by (auto simp: pre intro!: bexI [of _ c] dest: hd_in_set)
  next
    case False
    then obtain d where d: "d \<in> set (cs ! i)" "p \<in> set (preorder cs d)"
      using less.prems(2) by (auto simp: pre)
    note f = forestD [OF assms(1) less.prems(1) d(1)]
    have "c \<in> set (preorder cs d)"
      by (rule less.hyps [OF _ f(2) d(2)]) (use f less.prems(1) in simp)
    then show ?thesis
      using d(1) by (auto simp: pre)
  qed
qed

lemma placed_walk:
  assumes "tree_ok cr" "placed_ok cr" "T \<in> placed_types t" "type_at T c cr"
  shows "c \<in> set (preorder (h_children cr t) 0)"
  using assms(3,4)
proof (induction c arbitrary: T rule: less_induct)
  case (less c)
  let ?cs = "h_children cr t"
  have cs: "forest ?cs" "0 < length ?cs"
    using assms(1) by (simp_all add: tree_ok_def)
  obtain p where p: "below t p c cr" "holds_nodes t p cr"
    using assms(2) less.prems unfolding placed_but_def by blast
  then have c: "p < length ?cs" "c \<in> set (?cs ! p)"
    by (simp_all add: below_def)
  have "p < c"
    by (rule forestD(1) [OF cs(1) c])
  then have "p \<in> set (preorder ?cs 0)"
    using p(2) less.IH preorder_nonempty [of ?cs 0] hd_in_set unfolding holds_nodes_def by metis
  then show ?case
    by (rule preorder_child [OF cs _ c(2)])
qed

text \<open>The event nodes through the queries.\<close>

lemma event_queries:
  assumes "tree_ok cr" "events_ok cr" "k < length (m_event_node_indices (h_nodes cr))"
  shows "GetEventIndex (m_event_node_indices (h_nodes cr) ! k) (h_nodes cr) = k + 1"
    "GetEventNodeId debug (m_event_node_indices (h_nodes cr) ! k) (h_nodes cr) = Some (word_of_nat k)"
    "GetNodeType (m_event_node_indices (h_nodes cr) ! k) (h_nodes cr) = Some kEventNode"
proof -
  let ?ns = "h_nodes cr" and ?i = "m_event_node_indices (h_nodes cr) ! k"
  have idx: "m_event_node_indices ?ns = nodes_of kEventNode cr"
    using assms(2) by (simp add: events_ok_def)
  then have "sorted_wrt (<) (m_event_node_indices ?ns)"
    by (simp add: nodes_of_def sorted_wrt_filter)
  then show "GetEventIndex ?i ?ns = k + 1"
    by (rule GetEventIndex_nth [OF _ assms(3)])
  have "?i \<in> set (nodes_of kEventNode cr)"
    using assms(3) idx by simp
  then have i: "?i < num_nodes cr" "m_node_type ?ns ! ?i = kEventNode"
    by (simp_all add: nodes_of_def)
  then show "GetNodeType ?i ?ns = Some kEventNode"
    by (simp add: GetNodeType_def vec_at_def num_nodes_def)
  have len: "length (data_of kEventNode cr) = length (m_event_node_indices ?ns)"
    by (simp add: data_of_nth [OF assms(1)] idx)
  have "map event_id_of (data_of kEventNode cr) ! k = map word_of_nat [0..<length (data_of kEventNode cr)] ! k"
    using assms(2) by (simp add: events_ok_def)
  then have "event_id_of (data_of kEventNode cr ! k) = word_of_nat k"
    using assms(3) len by simp
  moreover have "data_of kEventNode cr ! k = m_aux_info ?ns ! ?i"
    using assms(3) by (simp add: data_of_nth [OF assms(1)] idx)
  moreover have "length (m_aux_info ?ns) = length (m_node_type ?ns)"
    using assms(1) by (simp add: tree_ok_def nodes_ok_def)
  ultimately show "GetEventNodeId debug ?i ?ns = Some (word_of_nat k)"
    using i by (simp add: GetEventNodeId_def aux_of_def vec_at_def num_nodes_def event_id_of_def)
qed

text \<open>The data of a node through the queries of its type.\<close>

lemma aux_of_type:
  assumes "tree_ok cr" "i \<in> set (nodes_of T cr)"
  shows "aux_of debug {T} i (h_nodes cr) = Some (m_aux_info (h_nodes cr) ! i)"
  using assms by (simp add: aux_of_def vec_at_def nodes_of_def num_nodes_def tree_ok_def nodes_ok_def)

lemma packet_queries:
  assumes "tree_ok cr" "log_ok es cr"
  shows "map (\<lambda>i. (GetPacketNodeAddr debug i (h_nodes cr), GetPacketNodeOpcode debug i (h_nodes cr))) (nodes_of kPacketNode cr) =
    map (map_prod Some Some) (concat (map shown_packet es))"
proof -
  have "map (\<lambda>i. (GetPacketNodeAddr debug i (h_nodes cr), GetPacketNodeOpcode debug i (h_nodes cr))) (nodes_of kPacketNode cr) =
    map (map_prod Some Some) (map packet_view (data_of kPacketNode cr))"
    using aux_of_type [OF assms(1)]
    by (simp add: data_of_nth [OF assms(1)] GetPacketNodeAddr_def GetPacketNodeOpcode_def packet_view_def)
  also have "map packet_view (data_of kPacketNode cr) = concat (map shown_packet es)"
    using assms(2) by (simp add: log_ok_def)
  finally show ?thesis .
qed

lemma ib_queries:
  assumes "tree_ok cr" "log_ok es cr"
  shows "map (\<lambda>i. (GetIbNodeIndex debug i (h_nodes cr), GetIbNodeType debug i (h_nodes cr),
      GetIbNodeSizeInDwords debug i (h_nodes cr), GetIbNodeIsFullyCaptured debug i (h_nodes cr))) (nodes_of kIbNode cr) =
    map (\<lambda>(i, type, n, b). (Some i, type, Some n, Some b)) (concat (map shown_ib es))"
proof -
  have "map (\<lambda>i. (GetIbNodeIndex debug i (h_nodes cr), GetIbNodeType debug i (h_nodes cr),
      GetIbNodeSizeInDwords debug i (h_nodes cr), GetIbNodeIsFullyCaptured debug i (h_nodes cr))) (nodes_of kIbNode cr) =
    map (\<lambda>(i, type, n, b). (Some i, type, Some n, Some b)) (map ib_view (data_of kIbNode cr))"
    using aux_of_type [OF assms(1)]
    by (simp add: data_of_nth [OF assms(1)] GetIbNodeIndex_def GetIbNodeType_def GetIbNodeSizeInDwords_def
        GetIbNodeIsFullyCaptured_def ib_view_def)
  also have "map ib_view (data_of kIbNode cr) = concat (map shown_ib es)"
    using assms(2) by (simp add: log_ok_def)
  finally show ?thesis .
qed

lemma no_chain_shown:
  assumes "no_chain_started b"
  shows "(j, Some kChain, n, f) \<notin> set (concat (map shown_ib (cb_events b)))"
proof -
  have "(j, Some kChain, n, f) \<notin> set (shown_ib e)" if "e \<in> set (cb_events b)" for e
  proof (cases e)
    case (ev_IbStart s i info type)
    then have "type \<noteq> kChain"
      using that assms unfolding no_chain_started_def by blast
    then show ?thesis
      by (simp add: ev_IbStart)
  qed simp_all
  then show ?thesis
    by simp
qed

end
