(* ===== verification/Hier_Sample.thy ===== *)
theory Hier_Sample
  imports Hier_Invariant
begin

text \<open>
  A run of \<^verbatim>\<open>CreateTrees\<close> (\<^verbatim>\<open>src/dive_core/command_hierarchy.cpp\<close>) in full, evaluated step by step: a capture
  with one submit of one IB, whose only packet is a \<^verbatim>\<open>CP_WAIT_FOR_IDLE\<close>. The hierarchy has the submit, the IB,
  the packet and an event. The run shows that the hypotheses of the theorems on \<open>CreateTrees\<close> can hold.
\<close>

section \<open>The capture\<close>

definition sample_info :: pm4_info where
  "sample_info =
    \<lparr>info_isa = sample_isa, info_op = (\<lambda>op. if op = CP_WAIT_FOR_IDLE then 0x26 else 0x11), info_enum = (\<lambda>_. 0),
     info_sizeof = (\<lambda>_. 4), info_field = (\<lambda>_ _ _. 0), info_GetRegOffsetByName = (\<lambda>_. 0),
     info_GetRegInfo = (\<lambda>_. None),
     info_GetPacketInfo = (\<lambda>_ _. Some \<lparr>pi_max_array_size = 1, pi_fields = []\<rparr>),
     info_GetEnumString = (\<lambda>_ _. None), info_GetOpCodeString = (\<lambda>_. ''CP_WAIT_FOR_IDLE'')\<rparr>"

definition sample_env :: hier_env where
  "sample_env =
    \<lparr>he_debug = False, he_info = sample_info, he_float = (\<lambda>_. []), he_float_fixed = (\<lambda>_. []), he_double = (\<lambda>_. []),
     he_format_string = (\<lambda>_. None), he_color_space_string = (\<lambda>_. None), he_presents = []\<rparr>"

definition sample_packet_header :: Pm4Header where
  "sample_packet_header = 0x70268000"

text \<open>Memory that holds the packet at address 0.\<close>

definition sample_retrieve :: "unit retriever" where
  "sample_retrieve buf s va n m = Some (True, take (unat n) [0x00, 0x80, 0x26, 0x70], m)"

definition sample_ib :: IndirectBufferInfo where
  "sample_ib = \<lparr>ib_va_addr = 0, ib_size_in_dwords = 1, ib_level = 1, ib_enable_mask = 7, ib_skip = False\<rparr>"

definition sample_submit :: SubmitInfo where
  "sample_submit = \<lparr>m_engine_type = EngineType_kUniversal, m_queue_type = QueueType_kUniversal, m_engine_index = 0,
     m_is_dummy_submit = False, m_ibs = [sample_ib]\<rparr>"

lemma sample_env_simps:
  "he_debug sample_env = False" "he_info sample_env = sample_info" "he_presents sample_env = []"
  by (simp_all add: sample_env_def)

lemma sample_packet_header: "header_type sample_packet_header = 7" "type7_opcode sample_packet_header = 0x26" "type7_count sample_packet_header = 0"
  "valid_header sample_packet_header"
  by code_simp+

lemma sample_ops: "isa_op (info_isa sample_info) x \<noteq> 0x26" "0x26 \<noteq> isa_op (info_isa sample_info) x"
  "0x26 = info_op sample_info y \<longleftrightarrow> y = CP_WAIT_FOR_IDLE"
  "\<not> IsDrawDispatchEventOpcode (info_isa sample_info) 0x26" "\<not> IsDrawEventOpcode (info_isa sample_info) 0x26"
  "\<not> IsDispatchEventOpcode (info_isa sample_info) 0x26"
  by (simp_all add: sample_info_def sample_isa_def IsDrawDispatchEventOpcode_def IsDrawEventOpcode_def
      IsDispatchEventOpcode_def)

section \<open>The emulator on the IB\<close>

lemma sample_emulation:
  assumes env: "\<not> env_debug env" "env_isa env = sample_isa" "env_retrieve env = sample_retrieve"
    "env_is_valid env = (\<lambda>_ _ _ _. Some True)"
    and calls: "env_OnIbStart env 0 0 sample_ib kNormal c0 = Some (True, c1)"
      "env_OnPacket env 0 0 0 sample_packet_header c1 () = Some (True, c2, ())"
      "env_OnIbEnd env 0 0 (sample_ib\<lparr>ib_level := 0, ib_enable_mask := 0\<rparr>) c2 = Some (True, c3)"
  shows "\<exists>es. ExecuteSubmit env 0 [sample_ib] c0 () = Some (True, es, c3, ())"
proof -
  note emu = GetCurIb_def set_cur_def set_level_def
  define es1 where "es1 = EmulateState_start 0\<lparr>es_ib_stack := [zero_level\<lparr>stk_cur_va := - 1,
      stk_queue := [\<lparr>q_type = kNormal, q_addr = 0, q_size_in_dwords = 1, q_skip = False, q_enable_mask = 7\<rparr>]\<rparr>,
      zero_level, zero_level, zero_level, zero_level]\<rparr>"
  have 1: "queue_submit_ibs False [sample_ib] (EmulateState_start 0) = Some (True, es1)"
    by (simp add: es1_def EmulateState_start_def emu sample_ib_def QueueIB_def kTotalIbLevels_def kPrimaryRing_def kMaxPendingIbs_def zero_level_def numeral_eq_Suc)
  define es2 where "es2 = es1\<lparr>es_top_of_stack := 1, es_ib_stack := [zero_level\<lparr>stk_cur_va := - 1,
      stk_queue := [\<lparr>q_type = kNormal, q_addr = 0, q_size_in_dwords = 1, q_skip = False, q_enable_mask = 7\<rparr>], stk_queue_index := 1\<rparr>,
      zero_level\<lparr>stk_cur_ib_size_in_dwords := 1, stk_cur_ib_enable_mask := 7\<rparr>, zero_level, zero_level, zero_level]\<rparr>"
  have 2: "AdvanceToQueuedIB env (es1, c0, ()) = Some (True, es2, c1, ())"
    using calls(1) by (simp add: AdvanceToQueuedIB_def start_ib_def enter_ib_def env emu es1_def es2_def EmulateState_start_def zero_level_def kPrimaryRing_def sample_ib_def)
  have 3: "CheckAndAdvanceIB env (es2, c1, ()) = Some (True, es2, c1, ())"
    by (simp add: CheckAndAdvanceIB.simps emu es2_def zero_level_def EndOfCurIb_def)
  define es3 where "es3 = set_cur ((GetCurIb es2)\<lparr>stk_cur_va := 4\<rparr>) es2"
  have top: "es_top_of_stack es2 = 1" "es_submit_index es2 = 0" "es_ib_index es2 = 0" "stk_cur_va (GetCurIb es2) = 0"
    by (simp_all add: es2_def es1_def EmulateState_start_def emu zero_level_def)
  note h = sample_packet_header
  have r: "read_cur env es2 0 4 4 () = Some ([0x00, 0x80, 0x26, 0x70], ())"
    using env(1) by (simp add: read_cur_def read_struct_def env sample_retrieve_def)
  have le: "le32 [0x00, 0x80, 0x26, 0x70] = sample_packet_header"
    by code_simp
  have adv: "advance_case env sample_packet_header (es2, c2, ()) = Some (True, es3, c2, ())"
    by (simp add: advance_case_def AdvancePacket_def GetPacketSize_def is_op_def h env sample_isa_def es3_def top)
  define es4 where "es4 = es3\<lparr>es_top_of_stack := 0\<rparr>"
  have out: "AdvanceOutOfIB env (es3, c2, ()) = Some (True, es4, c3, ())"
    using calls(3) by (simp add: AdvanceOutOfIB_def es3_def es4_def emu es2_def es1_def EmulateState_start_def zero_level_def sample_ib_def)
  have 4: "AdvanceToQueuedIB env (es4, c3, ()) = Some (True, es4, c3, ())"
    by (simp add: AdvanceToQueuedIB_def es3_def es4_def emu es2_def es1_def EmulateState_start_def zero_level_def)
  have 5: "CheckAndAdvanceIB env (es4, c3, ()) = Some (True, es4, c3, ())"
    by (simp add: CheckAndAdvanceIB.simps es3_def es4_def emu es2_def es1_def EmulateState_start_def zero_level_def)
  have "stk_cur_va (GetCurIb es3) = 4" "EndOfCurIb (GetCurIb es3)"
    by (simp_all add: es3_def emu es2_def EndOfCurIb_def zero_level_def)
  then have 6: "CheckAndAdvanceIB env (es3, c2, ()) = Some (True, es4, c3, ())"
    by (simp add: CheckAndAdvanceIB.simps [of env es3] out 4 5)
  have 7: "emulate_packet env (es2, c1, ()) = Some (True, es4, c3, ())"
    by (simp add: emulate_packet_def top r le h calls(2) AdvanceCb_def and_then_def adv 6)
  have "es_top_of_stack es4 = kPrimaryRing"
    by (simp add: es4_def kPrimaryRing_def)
  then have 8: "emulate_loop env (es4, c3, ()) = Some (True, es4, c3, ())"
    by (simp add: emulate_loop.simps [of env "(es4, c3, ())"])
  have 9: "emulate_loop env (es2, c1, ()) = Some (True, es4, c3, ())"
    by (simp add: emulate_loop.simps [of env "(es2, c1, ())"] top kPrimaryRing_def 7 8)
  show ?thesis
    using env(1) by (simp add: ExecuteSubmit_def 1 2 3 9 and_then_def del: queue_submit_ibs.simps)
qed
section \<open>The callbacks\<close>

text \<open>Evaluation from the first step on: what follows a step waits for its result.\<close>

lemma bind_first: "x = y \<Longrightarrow> Option.bind x f = Option.bind y f"
  by simp

text \<open>A new node, with the lists of children that it gets in a topology.\<close>

definition with_topology_node :: "TopologyType \<Rightarrow> creator \<Rightarrow> creator" where
  "with_topology_node t cr = cr\<lparr>h_children := (h_children cr)(t := h_children cr t @ [[]]),
                   h_shared_children := (h_shared_children cr)(t := h_shared_children cr t @ [[]]),
                   m_node_start_shared_children :=
                     (m_node_start_shared_children cr)(t := m_node_start_shared_children cr t @ [Raw]),
                   m_node_end_shared_children :=
                     (m_node_end_shared_children cr)(t := m_node_end_shared_children cr t @ [Raw]),
                   m_node_root_node_indices :=
                     (m_node_root_node_indices cr)(t := m_node_root_node_indices cr t @ [Raw])\<rparr>"

lemma add_topology_node_release: "add_topology_node False i t cr = Some (with_topology_node t cr)"
  by (simp add: add_topology_node_def Let_def with_topology_node_def)

definition with_node :: "NodeType \<Rightarrow> string \<Rightarrow> AuxInfo \<Rightarrow> creator \<Rightarrow> creator" where
  "with_node T d a cr = with_topology_node kAllEventTopology (with_topology_node kSubmitTopology (cr\<lparr>h_nodes := (h_nodes cr)\<lparr>m_node_type := m_node_type (h_nodes cr) @ [T],
       m_description := m_description (h_nodes cr) @ [d], m_aux_info := m_aux_info (h_nodes cr) @ [a]\<rparr>\<rparr>))"

lemma AddNode_release:
  assumes "length (m_node_type (h_nodes cr)) < UINT64_MAX"
  shows "AddNode False T d a cr = Some (length (m_node_type (h_nodes cr)), with_node T d a cr)"
  using assms
  by (simp add: AddNode_def Nodes_AddNode_def more_nodes_def add_topology_node_release with_node_def)

lemma few_nodes: "n < 100 \<Longrightarrow> n < UINT64_MAX"
  by (simp add: UINT64_MAX_def)

lemmas creator_steps = AddNode_release few_nodes with_node_def with_topology_node_def kRootNodeIndex_def
  vec_at_def vec_set_def vec_back_def add_to_both_def AddChild_def AddSharedChild_def
  SetSharedChildRootNodeIndex_def SetStartSharedChildrenNodeIndex_def SetEndSharedChildrenNodeIndex_def
  set_ib_parent_def push_start_def pop_start_def set_range_def

lemma five_levels: "kTotalIbLevels = Suc (Suc (Suc (Suc (Suc 0))))"
  by (simp add: kTotalIbLevels_def)

lemma sample_tracker:
  "EmulateStateTracker_OnPacket False sample_isa sample_retrieve 0 0 sample_packet_header tr () = Some (True, tr, ())"
  by (simp add: EmulateStateTracker_OnPacket_def is_op_def sample_packet_header sample_isa_def)

lemma sample_sync: "GetSyncType False sample_info sample_retrieve 0 0 0x26 tr () = Some (Sync_kWaitForIdle, ())"
  by (simp add: GetSyncType_def sample_ops cong: bind_first)

lemma sample_event:
  "IsEvent False sample_info sample_retrieve 0 0 0x26 tr () = Some (True, ())"
  "GetEventType False sample_info sample_retrieve 0 0 0x26 tr () = Some (Event_kWaitForIdle, ())"
  by (simp_all add: IsEvent_def GetEventType_def sample_ops sample_sync cong: bind_first)

lemma sample_event_string:
  "GetEventString False sample_info sample_retrieve 0 0 sample_packet_header tr () = Some (''CpWaitForIdle()'', ())"
  by (simp add: GetEventString_def sample_ops sample_packet_header assert_event_def cong: bind_first)

lemma sample_ignored:
  "ShouldIgnoreEventDuringCorrelation False sample_info sample_retrieve 0 0 sample_packet_header () = Some (False, ())"
  by (simp add: ShouldIgnoreEventDuringCorrelation_def sample_ops sample_packet_header cong: bind_first)

lemma sample_packet_info: "info_GetPacketInfo sample_info op name = Some \<lparr>pi_max_array_size = 1, pi_fields = []\<rparr>"
  by (simp add: sample_info_def)

lemma sample_fields:
  "AppendPacketFieldNodes sample_env sample_retrieve 0 4 0 b \<lparr>pi_max_array_size = Suc 0, pi_fields = []\<rparr> i s cr m =
     Some (cr, m)"
  by (simp add: AppendPacketFieldNodes_def)

lemma sample_base_packet:
  "EmulateCallbacksBase_OnPacket False (info_isa sample_info) sample_retrieve 0 0 0 sample_packet_header b () =
     Some (True, log_event (ev_Packet 0 0 0 sample_packet_header) b, ())"
  by (simp add: EmulateCallbacksBase_OnPacket_def sample_info_def sample_tracker)

lemma sample_ib_node: "IbNode False 0 kNormal 1 True = Some 0x100004000" "enum_of ib_types (bits 0 8 0x100004000) = Some kNormal"
  by code_simp+

lemmas sample_packet = OnPacket_def sample_base_packet sample_packet_header sample_env_simps show_packet_node_def
  AddPacketNode_def PacketNode_def sample_ops sample_packet_info sample_fields push_starts_def add_shared_packet_def
  packet_case_def sample_event on_event_def add_event_node_def sample_event_string sample_ignored
  AppendEventNodeIndex_def add_to_pass_def creator_steps

lemma sample_steps:
  "(do {
      cr \<leftarrow> CreateTrees_start sample_env False CommandHierarchyCreator_new;
      cr \<leftarrow> OnSubmitStart sample_env 0 sample_submit cr;
      (ok, cr) \<leftarrow> OnIbStart sample_env 0 0 sample_ib kNormal cr;
      (ok', cr, m) \<leftarrow> OnPacket sample_env sample_retrieve 0 0 0 sample_packet_header cr ();
      (ok'', cr) \<leftarrow> OnIbEnd sample_env 0 0 (sample_ib\<lparr>ib_level := 0, ib_enable_mask := 0\<rparr>) cr;
      cr \<leftarrow> OnSubmitEnd sample_env 0 cr;
      Some (ok \<and> ok' \<and> ok'', m_node_type (h_nodes cr), m_event_node_indices (h_nodes cr), cb_events (h_base cr),
        h_children cr kSubmitTopology, h_children cr kAllEventTopology)
    }) =
   Some (True, [kRootNode, kSubmitNode, kIbNode, kPacketNode, kEventNode], [4],
     [ev_IbStart 0 0 sample_ib kNormal, ev_Packet 0 0 0 sample_packet_header,
      ev_IbEnd 0 0 (sample_ib\<lparr>ib_level := 0, ib_enable_mask := 0\<rparr>)],
     [[1], [2], [], [], []], [[1], [4], [], [], []])"
  apply (simp add: CreateTrees_start_def CommandHierarchyCreator_new_def Nodes_new_def five_levels
      OnSubmitStart_def submit_description_def sample_submit_def kEngineTypeStrings_def kQueueTypeStrings_def
      OnIbStart_def EmulateCallbacksBase_OnIbStart_def sample_ib_def start_ib_parent_def sample_ib_node [simplified]
      ib_parent_def sample_env_simps creator_steps cong: bind_first)
  apply (simp add: sample_packet cong: bind_first)
  apply (simp add: OnIbEnd_def EmulateCallbacksBase_OnIbEnd_def log_event_def GetIbNodeType_def aux_of_def
      EmulateCallbacksBase_new_def
      pop_chains.simps sample_ib_node sample_env_simps creator_steps cong: bind_first)
  apply (simp add: OnSubmitEnd_def sort_submit_children_def GetIbNodeIndex_def sample_env_simps sample_ib_def creator_steps
      cong: bind_first)
  done

section \<open>The run\<close>

lemma CreateTrees_returns:
  assumes 1: "CreateTrees_start env flat CommandHierarchyCreator_new = Some cr1"
    and 2: "ProcessSubmits (creator_env env retrieve is_valid) submits (Some cr1) m = Some (True, Some cr2, m2)"
  obtains cr where "CreateTrees env retrieve is_valid submits flat CommandHierarchyCreator_new m = Some (True, cr, m2)"
    "h_nodes cr = h_nodes cr2" "h_children cr = h_children cr2" "h_base cr = h_base cr2"
proof -
  have "creator_fine (Some cr1)"
    using CreateTrees_start_ok [OF 1] by (simp add: creator_fine_def)
  from creator_callbacks.ProcessSubmits_kept [OF this 2] have b: "tree_ok cr2" "h_topology cr2 = (\<lambda>_. SharedNodeTopology_new)"
    by (simp_all add: creator_fine_def creator_ok_def built_def)
  then have cs: "forest (h_children cr2 u)" "length (h_shared_children cr2 u) = length (h_children cr2 u)" for u
    by (simp_all add: tree_ok_def)
  obtain t where "create_topology (he_debug env) (h_children cr2 kSubmitTopology) (h_shared_children cr2 kSubmitTopology)
      (m_node_start_shared_children cr2 kSubmitTopology) (m_node_end_shared_children cr2 kSubmitTopology)
      (m_node_root_node_indices cr2 kSubmitTopology) SharedNodeTopology_new = Some t"
    by (rule create_topology_correct [OF cs])
  then obtain cr3 where 3: "create_topology_of (he_debug env) kSubmitTopology cr2 = Some cr3"
    using b(2) by (simp add: create_topology_of_def)
  note f = create_topology_of_fields [OF 3]
  obtain t' where "create_topology (he_debug env) (h_children cr2 kAllEventTopology) (h_shared_children cr2 kAllEventTopology)
      (m_node_start_shared_children cr3 kAllEventTopology) (m_node_end_shared_children cr3 kAllEventTopology)
      (m_node_root_node_indices cr3 kAllEventTopology) SharedNodeTopology_new = Some t'"
    by (rule create_topology_correct [OF cs])
  then obtain cr where 4: "create_topology_of (he_debug env) kAllEventTopology cr3 = Some cr"
    using b(2) f by (simp add: create_topology_of_def)
  show thesis
    by (rule that [of cr]) (simp_all add: CreateTrees_def 1 2 CreateTopologies_def 3 4 f create_topology_of_fields [OF 4])
qed

lemma sample_run:
  obtains cr where
    "CreateTrees sample_env sample_retrieve (\<lambda>_ _ _ _. Some True) [sample_submit] False CommandHierarchyCreator_new () =
       Some (True, cr, ())"
    "m_node_type (h_nodes cr) = [kRootNode, kSubmitNode, kIbNode, kPacketNode, kEventNode]"
    "m_event_node_indices (h_nodes cr) = [4]"
    "cb_events (h_base cr) = [ev_IbStart 0 0 sample_ib kNormal, ev_Packet 0 0 0 sample_packet_header,
      ev_IbEnd 0 0 (sample_ib\<lparr>ib_level := 0, ib_enable_mask := 0\<rparr>)]"
    "h_children cr kSubmitTopology = [[1], [2], [], [], []]" "h_children cr kAllEventTopology = [[1], [4], [], [], []]"
proof -
  let ?env = "creator_env sample_env sample_retrieve (\<lambda>_ _ _ _. Some True)"
  obtain cr0 cr1 cr2 cr3 cr4 cr5 where s: "CreateTrees_start sample_env False CommandHierarchyCreator_new = Some cr0"
      "OnSubmitStart sample_env 0 sample_submit cr0 = Some cr1"
      "OnIbStart sample_env 0 0 sample_ib kNormal cr1 = Some (True, cr2)"
      "OnPacket sample_env sample_retrieve 0 0 0 sample_packet_header cr2 () = Some (True, cr3, ())"
      "OnIbEnd sample_env 0 0 (sample_ib\<lparr>ib_level := 0, ib_enable_mask := 0\<rparr>) cr3 = Some (True, cr4)"
      "OnSubmitEnd sample_env 0 cr4 = Some cr5"
    and v: "m_node_type (h_nodes cr5) = [kRootNode, kSubmitNode, kIbNode, kPacketNode, kEventNode]"
      "m_event_node_indices (h_nodes cr5) = [4]"
      "cb_events (h_base cr5) = [ev_IbStart 0 0 sample_ib kNormal, ev_Packet 0 0 0 sample_packet_header,
        ev_IbEnd 0 0 (sample_ib\<lparr>ib_level := 0, ib_enable_mask := 0\<rparr>)]"
      "h_children cr5 kSubmitTopology = [[1], [2], [], [], []]" "h_children cr5 kAllEventTopology = [[1], [4], [], [], []]"
    using sample_steps by (auto simp only: bind_eq_Some_conv prod.case option.inject prod.inject unit_eq)
  have "\<exists>es. ExecuteSubmit ?env 0 [sample_ib] (Some cr1) () = Some (True, es, Some cr4, ())"
    by (rule sample_emulation [of _ _ "Some cr2" "Some cr3"])
      (simp_all add: creator_env_def s sample_env_simps, simp add: sample_info_def)
  then have "ProcessSubmits ?env [sample_submit] (Some cr0) () = Some (True, Some cr5, ())"
    by (auto simp: ProcessSubmits_def creator_env_def sample_submit_def s [unfolded sample_submit_def])
  from CreateTrees_returns [OF s(1) this] show thesis
    using that v by metis
qed

end
