(* ===== verification/Spec2Isabelle.thy ===== *)
theory Spec2Isabelle
  imports Net_Loopback Gpu_Null_Device Pm4_Linear Pm4_Dive_Loading Gfxr_Dump_Resources Gfxr_Block_Data
    Core_Vector Hier_Sample
begin

text \<open>
  A verification library for Dive, a GPU profiler and capture viewer for Android: a runtime layer on the
  device times command buffers, a service on the device serves capture files over a socket, and the host
  tool reads the captures, emulates the command streams in them and shows them as a hierarchy.

  \<^bold>\<open>Parts and theories.\<close>

  \<^item> The network between host and device (\<^verbatim>\<open>src/network\<close>). \<open>Net_Buffer\<close> is the byte encoding of
    \<^verbatim>\<open>message_utils\<close> and \<^verbatim>\<open>messages.cc\<close>; \<open>Net_Messages\<close> the message classes with their \<^verbatim>\<open>Serialize\<close>
    and \<^verbatim>\<open>Deserialize\<close> functions, the status values of \<^verbatim>\<open>dive/common/status.h\<close> and the type switch;
    \<open>Net_Socket\<close> the class \<^verbatim>\<open>SocketConnection\<close> over an operating system given by a parameter;
    \<open>Net_Framing\<close> \<^verbatim>\<open>SendSocketMessage\<close> and \<^verbatim>\<open>ReceiveSocketMessage\<close>; \<open>Net_Server\<close> the request handlers and
    \<^verbatim>\<open>UnixDomainServer\<close>; \<open>Net_Client\<close> \<^verbatim>\<open>TcpClient\<close> with its keep-alive thread; \<open>Net_Loopback\<close> an
    operating system that delivers what is sent, on which the assumptions about sockets hold.
  \<^item> GPU timing in the runtime layer (\<^verbatim>\<open>src/gpu_time\<close>). \<open>Gpu_Slot_Allocator\<close> is the lock-free
    \<^verbatim>\<open>TimeStampSlotAllocator\<close>, \<open>Gpu_Frame_Boundary\<close> the \<^verbatim>\<open>FrameBoundaryDetector\<close>, \<open>Gpu_Frame_Metrics\<close>
    the window of frame times and its statistics, \<open>Gpu_Time\<close> the class \<^verbatim>\<open>GPUTime\<close>, \<open>Gpu_Report\<close> its
    text reports, \<open>Gpu_Null_Device\<close> a Vulkan device on which the assumptions about Vulkan hold.
  \<^item> Editing GFXR captures (\<^verbatim>\<open>src/gfxr_dump_resources\<close>, \<^verbatim>\<open>src/gfxr_ext\<close>). \<open>Gfxr_Dump_Resources\<close> is the
    search for the draw calls whose resources can be dumped, \<open>Gfxr_Block_Data\<close> the table of blocks of a file
    with its modifications, and the writing of the modified file.
  \<^item> Captured command streams in the host (\<^verbatim>\<open>src/dive_core\<close>). \<open>Pm4_Memory\<close> is the captured GPU memory
    of \<^verbatim>\<open>pm4_capture_data.cpp\<close>, \<open>Pm4_Packet\<close> headers, parity and sizes of PM4 packets,
    \<open>Pm4_State_Tracker\<close> the register file, \<open>Pm4_Emulator\<close> the emulator with its stack and queues of
    indirect buffers, \<open>Pm4_Callbacks\<close> the base callbacks that connect emulator and register file, and
    \<open>Pm4_Linear\<close> the emulator on the memory managers of the program (all four of
    \<^verbatim>\<open>common/emulate_pm4.{h,cpp}\<close>). \<open>Pm4_Callback_Invariant\<close> is what the emulator promises to every class of
    callbacks. \<open>Pm4_Capture_Data\<close> is the state that loading fills, \<open>Pm4_Rd_Loading\<close> and \<open>Pm4_Dive_Loading\<close> the
    loading of \<^verbatim>\<open>.rd\<close> and \<^verbatim>\<open>.dive\<close> files; \<open>Core_Vector\<close> is the growable array of \<^verbatim>\<open>stl_replacement.hpp\<close>.
  \<^item> The command hierarchy (\<^verbatim>\<open>src/dive_core/command_hierarchy.{h,cpp}\<close>, \<^verbatim>\<open>capture_event_info.cpp\<close>).
    \<open>Pm4_Event_Info\<close> decides which packets are events and describes them; \<open>Hier_Topology\<close> is the flattened
    tree with its queries and its walk, \<open>Hier_Nodes\<close> the nodes with the packed data of their types,
    \<open>Hier_Creator\<close> the creator's state and the nodes it makes for registers and fields, \<open>Hier_Callbacks\<close> its
    callbacks and \<^verbatim>\<open>CreateTrees\<close>. \<open>Hier_Trees\<close> and \<open>Hier_Append\<close> are the frame lemmas of adding nodes,
    \<open>Hier_Invariant\<close> the invariant of the creator, and \<open>Hier_Sample\<close> a run evaluated in full.
  \<^item> \<open>Dive_Prelude\<close> holds types, error results and lemmas that all of them share. This theory imports
    everything and states the properties C1 to C40.

  \<^bold>\<open>How the parts interact.\<close> The client frames messages and writes them to a socket, the server reads the
  frames, switches on their type and answers; both rest on the contracts of the layer below: the byte
  buffers' round trips, the laws of a socket's stream, the loop that reads an exact number of bytes. GPU
  timing keeps three consistent structures (slots, cached command buffers, the frame under way) behind one
  class. The emulator reads packets through the interface \<^verbatim>\<open>IMemoryManager\<close>, which \<open>MemoryManager\<close> and
  \<open>TempMemoryManager\<close> provide, and drives callbacks, which keep the register file. Where one part relies on
  another, the laws are a locale that the provider's theory interprets on the model of the code: the sockets'
  laws, \<open>memory_reader\<close> and \<open>captured_memory\<close> between emulator and memory, \<open>block_visitor\<close> for the blocks of a
  file, and \<open>callback_invariant\<close>, by which a property that each callback keeps holds after the emulation. The
  base callbacks and the hierarchy's creator are its two interpretations.

  \<^bold>\<open>Correspondence.\<close> Definitions keep the names of the code; a class is a record with its members as fields,
  a method a function that returns its result with the new state. Machine integers are words of their width
  and wrap as in C++. A failing call is a value: \<open>Inl\<close> of a status, or false with the state it leaves.
  \<open>None\<close> is undefined behaviour, a failing assertion of a debug build, or a loop that does not end. Builds
  differ only in \<^verbatim>\<open>DIVE_ASSERT\<close>, so the emulator has the parameter \<open>debug\<close>. Operating system, Vulkan and
  the code the build generates (packet numbers and structures, register info) are parameters.

  \<^bold>\<open>What the lemmas show.\<close> Messages: decoding is the inverse of serialising within the payload limit, frames
  are exact, malformed ones close the connection, and downloads store the file (C1 to C5). Sessions: the
  server loop, the client's status and the handshake (C6 to C11). Timing: allocation is exact and thread safe,
  boundaries and windows are their histories, every call sequence keeps the invariant and, while slots last,
  stays defined, and the reports are complete (C12 to C19). GFXR: the entries found are exact and ordered, and
  the file written is the original with the modifications (C20 to C23). Captures: memory reads are those of
  one flat memory, finalizing establishes that, packets set registers, the emulator's state, balance and
  termination (C24 to C31), and loading a file gives the submits and the memory it describes (C32 to C35).
  A program on growable arrays acts as on lists, within the limits the code needs (C36). The hierarchy: it is a complete tree of what was emulated, its events are
  numbered, its packets and IBs are those the emulator reported, and no IB in it is a CHAIN (C37 to C40).

  \<^bold>\<open>Loops.\<close> Loops bounded by data are structural or have a termination proof: \<^verbatim>\<open>CheckAndAdvanceIB\<close> ends
  because each round leaves a level or takes a queued IB. The socket loops stop at the data they ask for. The
  main loop of the emulator, its search for \<^verbatim>\<open>CP_END_BIN\<close> and the climb to the next node of a topology need not
  end, and are partial functions: C31 proves that the first returns for linear submits, C30 that it does not
  for unknown packets, and C37 that the last returns in every hierarchy that was built. The server loop and
  concurrent slot allocation are step relations.

  \<^bold>\<open>Not modelled.\<close> Floating point is real arithmetic, or for the text of nodes a parameter; mutexes make
  operations atomic (the races in the code that are known are listed as findings); logging and text of status
  messages that nothing reads are left out. Of the other parts, the hierarchies of GFXR captures and the
  decoders and replay consumers are subclasses of the third-party gfxreconstruct;
  the readers of performance metrics and the tables of enumerator names are input and text; the user
  interface, the Vulkan layer glue, the device manager, plugins, command line tools and build scripts are
  input and output around these parts; \<^verbatim>\<open>event_state.h\<close> is generated; the packet headers under
  \<^verbatim>\<open>pm4_packets\<close> are declarations of bit fields; \<^verbatim>\<open>third_party\<close> and \<^verbatim>\<open>prebuild\<close> are not Dive's own code.
\<close>

section \<open>Messages\<close>

text \<open>
  C1. Every message that the sender accepts (its serialised form is within the payload limit) is
  rebuilt exactly by the receiver's type switch from its bytes, whatever its strings and lists are:
  the payload limit makes all the 32-bit length fields exact.
\<close>

theorem message_roundtrip:
  assumes "Serialize m [] = Inr bs" and "length bs \<le> kMaxPayloadSize"
  shows "deserialize_as (MessageType_value (GetMessageType m)) bs = Some (Inr m)"
  using assms deserialize_Serialize fits_ok [of m] by (auto simp: fits_def)

theorem message_roundtrip_witness:
  "deserialize_as (MessageType_value FILE_SIZE_RESPONSE)
     [1, 0, 0, 0, 2, 111, 107, 0, 0, 0, 1, 0, 0, 0, 7] =
   Some (Inr (FileSizeResponseMsg
     \<lparr>fs_found = True, fs_error_reason = ''ok'', fs_file_size = 0x100000007\<rparr>))"
  using message_roundtrip [of "FileSizeResponseMsg
     \<lparr>fs_found = True, fs_error_reason = ''ok'', fs_file_size = 0x100000007\<rparr>"
     "[1, 0, 0, 0, 2, 111, 107, 0, 0, 0, 1, 0, 0, 0, 7]"]
  by (simp add: FileSizeResponse_Serialize_def WriteBoolToBuffer_def WriteStringToBuffer_def
      WriteUint32ToBuffer_def WriteUint64ToBuffer_def htonl_bytes_def byte_of_char_def
      kMaxPayloadSize_def)

text \<open>
  Whatever bytes are decoded, the decoded message has the type the header named, and serialising
  it again gives bytes that decode to the same message.
\<close>

theorem decoded_message_stable:
  assumes "deserialize_as type bs = Some (Inr m)"
  shows "MessageType_value (GetMessageType m) = type \<and>
    (\<exists>bs'. Serialize m [] = Inr bs' \<and> deserialize_as type bs' = Some (Inr m))"
  using deserialize_as_ok [OF assms] Serialize_total [of m "[]"] deserialize_Serialize [of m]
  by auto

theorem decoded_message_stable_witness:
  "\<exists>bs'. Serialize (DisableTimestampRequest True) [] = Inr bs' \<and>
     deserialize_as 19 bs' = Some (Inr (DisableTimestampRequest True))"
  using decoded_message_stable [of 19 "[7]" "DisableTimestampRequest True"]
  by (simp add: deserialize_as_def DisableTimestampRequest_Deserialize_def read_whole_def
      ReadBoolFromBuffer_def)

text \<open>
  A message that has fields is not accepted with bytes left over after it.
\<close>

theorem trailing_data_rejected:
  assumes "Serialize m [] = Inr bs" and "length bs \<le> kMaxPayloadSize" and "bs \<noteq> []"
    and "extra \<noteq> []"
  shows "\<exists>e. deserialize_as (MessageType_value (GetMessageType m)) (bs @ extra) = Some (Inl e)"
  using assms deserialize_trailing fits_ok [of m] by (auto simp: fits_def)

theorem trailing_data_rejected_witness:
  "\<exists>e. deserialize_as (MessageType_value DISABLE_TIMESTAMP_REQUEST) [1, 0] = Some (Inl e)"
  using trailing_data_rejected [of "DisableTimestampRequest True" "[1]" "[0]"]
  by (simp add: DisableTimestampRequest_Serialize_def WriteBoolToBuffer_def kMaxPayloadSize_def)

section \<open>Frames on a stream\<close>

text \<open>
  C2. If sending a message succeeds, then a receiver whose stream starts with the bytes the sender's
  kernel accepted returns that same message and consumes exactly those bytes, however the two sides'
  sends and receives are split.
\<close>

theorem message_transfer:
  assumes "stream_laws os1 (m_socket c1) sent1 pending1"
    and "SendSocketMessage os1 m (Some c1) w1 = (OkStatus, conn1, w1')"
    and "sent1 w1' = sent1 w1 @ bytes"
    and "stream_laws os2 (m_socket c2) sent2 pending2"
    and "readable_laws os2 (m_socket c2) pending2"
    and "IsOpen c2" and "\<not> m_is_listening c2" and "pending2 w2 = bytes @ rest"
  shows "\<exists>w2'. ReceiveSocketMessage os2 t (Some c2) w2 = (Inr m, Some c2, w2') \<and>
    pending2 w2' = rest"
proof -
  have fits: "fits m"
    using assms(2) SendSocketMessage_too_big [of m os1 c1 w1] by (auto simp: status_defs)
  from SendSocketMessage_wire [OF assms(1) this assms(2)] assms(3) have "bytes = frame m"
    by auto
  with ReceiveSocketMessage_delivers [OF assms(4-7) fits] assms(8) show ?thesis by blast
qed

theorem message_transfer_witness:
  "\<exists>w1' w2'. SendSocketMessage (loopback_os []) PingMessage (Some loop_conn) (incoming []) =
       (OkStatus, Some loop_conn, w1') \<and>
     ReceiveSocketMessage (loopback_os []) 5000 (Some loop_conn) (incoming (lw_sent w1' @ [9])) =
       (Inr PingMessage, Some loop_conn, w2') \<and> lw_pending w2' = [9]"
proof -
  obtain w1' where s: "SendSocketMessage (loopback_os []) PingMessage (Some loop_conn) (incoming []) =
      (OkStatus, Some loop_conn, w1')"
    using SendSocketMessage_delivers [OF loopback_stream loopback_writable loop_conn_open]
      fits_small(1) by blast
  from message_transfer [OF loopback_stream s, of "lw_sent w1'" "loopback_os []" loop_conn
      lw_sent lw_pending "incoming (lw_sent w1' @ [9])" "[9]" 5000] s
  show ?thesis by auto
qed

text \<open>
  C3. Whatever happens to the socket while a message is sent, the bytes put on the stream are a
  prefix of the message's frame: success means the whole frame, a failure never corrupts it.
\<close>

theorem send_message_prefix:
  assumes "stream_laws os (m_socket c) sent pending"
    and "SendSocketMessage os m (Some c) w = (r, conn', w')"
  shows "\<exists>j \<le> length (frame m). sent w' = sent w @ take j (frame m) \<and>
    (r = OkStatus \<longrightarrow> j = length (frame m) \<and> conn' = Some c)"
proof (cases "fits m")
  case True
  with SendSocketMessage_wire [OF assms(1) True assms(2)] show ?thesis by blast
next
  case False
  with assms(2) show ?thesis
    by (auto simp: SendSocketMessage_too_big status_defs intro!: exI [of _ 0])
qed

theorem send_message_prefix_witness:
  "\<exists>j \<le> length (frame PongMessage).
     lw_sent (snd (snd (SendSocketMessage (loopback_os []) PongMessage (Some loop_conn) (incoming []))))
       = take j (frame PongMessage)"
  using send_message_prefix [OF loopback_stream [of "[]" "m_socket loop_conn"], of PongMessage
      "incoming []"]
  by (metis append_Nil incoming_sel(1) prod.collapse)

text \<open>
  A message whose serialised form exceeds the payload limit is refused before anything is sent
  and the connection stays usable; every other message is sent when the peer keeps reading.
\<close>

theorem send_message_limit:
  assumes "writable_laws os (m_socket c)" and "IsOpen c" and "\<not> m_is_listening c"
    and "Serialize m [] = Inr bs"
  shows "if kMaxPayloadSize < length bs
    then SendSocketMessage os m (Some c) w =
      (InvalidArgumentError ''Serialized payload size exceeds limit.'', Some c, w)
    else \<exists>w'. SendSocketMessage os m (Some c) w = (OkStatus, Some c, w')"
  using SendSocketMessage_keeps [OF assms(1-3), of m w] SendSocketMessage_too_big [of m os c w] assms(4)
  by (auto simp: fits_def)

theorem send_message_limit_witness:
  "\<exists>w'. SendSocketMessage (loopback_os []) PingMessage (Some loop_conn) (incoming []) =
     (OkStatus, Some loop_conn, w')"
  using send_message_limit [OF loopback_writable loop_conn_open, of PingMessage "[]" "[]" "incoming []"]
  by (simp add: EmptyMessage_Serialize_def)

text \<open>
  C4. A frame whose length field is over the limit, whose type is unknown or whose payload does not
  decode makes the receive fail and closes the connection.
\<close>

theorem malformed_frame_closes:
  assumes "stream_laws os (m_socket c) sent pending" and "readable_laws os (m_socket c) pending"
    and "IsOpen c" and "\<not> m_is_listening c"
    and "pending w = htonl_bytes type @ htonl_bytes n @ payload @ rest"
    and "kMaxPayloadSize < unat n \<or>
      length payload = unat n \<and> (\<forall>m. deserialize_as type payload \<noteq> Some (Inr m))"
  shows "\<exists>e c' w'. ReceiveSocketMessage os t (Some c) w = (Inl e, Some c', w') \<and> \<not> IsOpen c'"
  using ReceiveSocketMessage_malformed [OF assms] .

theorem malformed_frame_closes_witness:
  "\<exists>e c' w'. ReceiveSocketMessage (loopback_os []) kNoTimeout (Some loop_conn)
     (incoming (htonl_bytes 77 @ htonl_bytes 1 @ [5])) = (Inl e, Some c', w') \<and> \<not> IsOpen c'"
  using malformed_frame_closes [OF loopback_stream loopback_readable loop_conn_open,
      of "incoming (htonl_bytes 77 @ htonl_bytes 1 @ [5])" 77 1 "[5]" "[]"]
  by (simp add: deserialize_as_def)

text \<open>
  A successful receive returns exactly the requested number of bytes, in stream order, and
  consumes nothing else; it does not write and leaves the connection as it was.
\<close>

theorem recv_exact:
  assumes "stream_laws os (m_socket c) sent pending" and "Recv os n t c w = (Inr data, c', w')"
  shows "length data = n \<and> pending w = data @ pending w' \<and> sent w' = sent w \<and> c' = c"
  using Recv_stream [OF assms] by simp

theorem recv_exact_witness:
  "\<exists>w'. Recv (loopback_os []) 3 0 loop_conn (incoming [1, 2, 3, 4]) = (Inr [1, 2, 3], loop_conn, w') \<and>
     [1, 2, 3, 4] = [1, 2, 3] @ lw_pending w'"
proof -
  obtain w' where r: "Recv (loopback_os []) 3 0 loop_conn (incoming [1, 2, 3, 4]) =
      (Inr [1, 2, 3], loop_conn, w')"
    using Recv_delivers [OF loopback_stream loopback_readable loop_conn_open,
        where w = "incoming [1, 2, 3, 4]" and data = "[1, 2, 3]" and rest = "[4]" and n = 3 and t = 0]
    by auto
  from recv_exact [OF loopback_stream r] r show ?thesis by auto
qed

section \<open>Strings and files\<close>

text \<open>
  A string without null characters that was sent with \<^verbatim>\<open>SendString\<close> is returned by
  \<^verbatim>\<open>ReceiveString\<close>, which consumes it and its terminator and does return.
\<close>

theorem string_transfer:
  assumes "stream_laws os1 (m_socket c1) sent1 pending1"
    and "SendString os1 s c1 w1 = (OkStatus, c1', w1')"
    and "sent1 w1' = sent1 w1 @ bytes" and "\<forall>ch \<in> set s. byte_of_char ch \<noteq> 0"
    and "stream_laws os2 (m_socket c2) sent2 pending2"
    and "readable_laws os2 (m_socket c2) pending2"
    and "IsOpen c2" and "\<not> m_is_listening c2" and "pending2 w2 = bytes @ rest"
  shows "\<exists>w2'. ReceiveString os2 c2 w2 = Some (Inr s, c2, w2') \<and> pending2 w2' = rest"
proof -
  have "bytes = map byte_of_char s @ [0]"
    using Send_stream [OF assms(1) assms(2) [unfolded SendString_def]] assms(3) by auto
  with ReceiveString_delivers [OF assms(5-8), of w2 s rest "[]"] assms(4,9) show ?thesis
    by (simp add: ReceiveString_def)
qed

theorem string_transfer_witness:
  "\<exists>w1' w2'. SendString (loopback_os []) ''cap'' loop_conn (incoming []) = (OkStatus, loop_conn, w1') \<and>
     ReceiveString (loopback_os []) loop_conn (incoming (lw_sent w1' @ [1])) =
       Some (Inr ''cap'', loop_conn, w2') \<and> lw_pending w2' = [1]"
proof -
  obtain w1' where s: "SendString (loopback_os []) ''cap'' loop_conn (incoming []) =
      (OkStatus, loop_conn, w1')"
    using Send_delivers [OF loopback_writable loop_conn_open] by (fastforce simp: SendString_def)
  from string_transfer [OF loopback_stream s, where bytes = "lw_sent w1'" and ?os2.0 = "loopback_os []"
      and ?c2.0 = loop_conn and ?pending2.0 = lw_pending and ?sent2.0 = lw_sent
      and ?w2.0 = "incoming (lw_sent w1' @ [1])" and rest = "[1]"] s
  show ?thesis by (auto simp: byte_of_char_def)
qed

text \<open>
  C5. Downloading a file, end to end: when the server's \<^verbatim>\<open>DownloadFile\<close> succeeds for a regular file
  with the given contents, a client whose stream carries the bytes the server sent stores exactly
  those contents, succeeds, and leaves the rest of the stream untouched.
\<close>

theorem download_end_to_end:
  assumes server: "stream_laws os1 (m_socket c1) sent1 pending1"
      "source_file_laws os1 remote contents"
      "path_is_regular_file fs remote w1 = (True, ec)"
      "path_file_size fs remote w1 = (word_of_nat (length contents), None)"
      "length contents < 2 ^ 64"
      "DownloadFile os1 fs remote (Some c1) w1 = (OkStatus, conn1, w1')"
      "sent1 w1' = sent1 w1 @ bytes"
    and client: "peer_laws os2 cl c2 sent2 pending2"
      "sink_file_laws os2 (m_socket c2) loc written2 pending2" "sink_accepts os2 loc"
      "callback_frame cb written2 pending2" "fits (DownloadFileRequest remote)"
      "pending2 w2 = bytes @ rest"
  shows "\<exists>w2'. DownloadFileFromServer os2 remote loc cb cl w2 = (OkStatus, cl, w2') \<and>
    written2 w2' = contents \<and> pending2 w2' = rest"
proof -
  let ?resp = "download_response fs remote w1"
  have found: "df_found ?resp" "unat (df_file_size ?resp) = length contents"
    using server(3-5) by (simp_all add: download_response_def unat_of_nat)
  have sent: "fits (DownloadFileResponseMsg ?resp) \<and>
      bytes = frame (DownloadFileResponseMsg ?resp) @ contents"
    using DownloadFile_bytes [OF server(1,2,6) found(1)] server(7) by auto
  with DownloadFileFromServer_exchange [OF client(1-5) _ found] client(6) show ?thesis
    by auto
qed

theorem download_end_to_end_witness:
  "\<exists>w1' w2'. DownloadFile (loopback_os [7, 8, 9]) (loopback_fs [7, 8, 9]) ''f'' (Some loop_conn)
       (incoming []) = (OkStatus, Some loop_conn, w1') \<and>
     DownloadFileFromServer (loopback_os []) ''f'' ''g'' None loop_client (incoming (lw_sent w1')) =
       (OkStatus, loop_client, w2') \<and> lw_written w2' = [7, 8, 9]"
proof -
  let ?rom = "[7, 8, 9] :: buffer"
  obtain w1' where s: "DownloadFile (loopback_os ?rom) (loopback_fs ?rom) ''f'' (Some loop_conn)
      (incoming []) = (OkStatus, Some loop_conn, w1')"
    using DownloadFile_delivers [OF loopback_stream loopback_writable loopback_source [of ?rom]
        loop_conn_open,
        where fs = "loopback_fs ?rom" and w = "incoming []" and path = "''f''"]
    by (auto simp: fits_def download_response_def loopback_fs_def
        DownloadFileResponse_Serialize_def write_simps kMaxPayloadSize_def)
  from download_end_to_end [OF loopback_stream loopback_source _ _ _ s, where bytes = "lw_sent w1'"
      and ?os2.0 = "loopback_os []" and cl = loop_client and ?c2.0 = loop_conn
      and ?pending2.0 = lw_pending and ?sent2.0 = lw_sent and ?written2.0 = lw_written
      and ?w2.0 = "incoming (lw_sent w1')" and rest = "[]" and loc = "''g''" and cb = None] s
  show ?thesis
    by (auto simp: loopback_fs_def fits_def StringMessage_Serialize_def write_simps
        kMaxPayloadSize_def)
qed

section \<open>The server loop\<close>

text \<open>
  C6. On every run of the server, with \<^verbatim>\<open>Stop\<close> called at any moment from another thread, the
  handler sees a well-formed sequence of calls: sessions that start with \<^verbatim>\<open>OnConnect\<close>, contain only
  messages, and end with \<^verbatim>\<open>OnDisconnect\<close> before the next one starts.
\<close>

theorem server_session_protocol:
  assumes "started s" and "server_run os (BaseMessageHandler_HandleMessage fs os) s t"
  shows "session_state (events t) \<noteq> None"
  using base_handler.server_run_session [OF assms] .

theorem server_session_protocol_witness:
  "session_state (events (Stop (loopback_os [])
     (loop_step (loopback_os []) (BaseMessageHandler_HandleMessage (loopback_fs []) (loopback_os []))
       (loop_server [3])))) \<noteq> None"
  by (rule server_session_protocol [of "loop_server [3]" "loopback_os []" "loopback_fs []"],
      simp add: started_def loop_server_def)
    (blast intro: server_run.intros server_step.intros)

text \<open>
  C7. In a session whose client sends the frames of a list of messages, the messages handed to the
  handler between the client's connection and its disconnection are a prefix of that list: none is
  lost, repeated, reordered or altered, on any run and with \<^verbatim>\<open>Stop\<close> at any moment.
\<close>

theorem server_handles_in_order:
  assumes "stream_laws os (m_socket c) sent pending" and "filesystem_frame fs sent pending"
    and "IsOpen c" and "\<forall>m \<in> set ms. fits m"
    and "pc s = ClientReady" and "m_client_connection s = Some c" and "events s = evs"
    and "pending (world s) = concat (map frame ms)"
    and "server_run os (BaseMessageHandler_HandleMessage fs os) s t"
  shows "\<exists>hs. prefix hs ms \<and>
    (events t = evs @ map HandleMessage hs \<or>
     (\<exists>es. events t = evs @ map HandleMessage hs @ OnDisconnect # es))"
proof -
  have "session_trace pending c evs ms s"
    using session_traceI [of s evs "[]" pending c ms] assms(5-8) by (simp add: session_open_def)
  from base_handler.session_trace_run [OF assms(1-4,9) this] show ?thesis
    unfolding session_trace_def by (metis prefixI)
qed

theorem server_handles_in_order_witness:
  "\<exists>hs. prefix hs [PingMessage, PongMessage] \<and>
    (events (loop_step (loopback_os []) (BaseMessageHandler_HandleMessage (loopback_fs []) (loopback_os []))
        ((loop_server_busy (frame PingMessage @ frame PongMessage))\<lparr>pc := ClientReady\<rparr>)) =
       [OnConnect] @ map HandleMessage hs \<or>
     (\<exists>es. events (loop_step (loopback_os [])
         (BaseMessageHandler_HandleMessage (loopback_fs []) (loopback_os []))
         ((loop_server_busy (frame PingMessage @ frame PongMessage))\<lparr>pc := ClientReady\<rparr>)) =
       [OnConnect] @ map HandleMessage hs @ OnDisconnect # es))"
  by (rule server_handles_in_order [where os = "loopback_os []" and c = loop_conn and sent = lw_sent
      and pending = lw_pending and fs = "loopback_fs []"
      and s = "(loop_server_busy (frame PingMessage @ frame PongMessage))\<lparr>pc := ClientReady\<rparr>"])
    (auto simp: loop_server_busy_def loop_server_def intro: server_run.intros server_step.intros)

text \<open>
  C8. While it is running, a client keeps reading and its bytes arrive, the server does handle every
  message the client sends, in three steps of the loop for each.
\<close>

theorem server_handles_all:
  assumes "stream_laws os (m_socket c) sent pending" and "filesystem_frame fs sent pending"
    and "readable_laws os (m_socket c) pending" and "writable_laws os (m_socket c)"
    and "IsOpen c" and "\<not> m_is_listening c" and "\<forall>m \<in> set ms. fits m"
    and "m_is_running s" and "pc s = LoopHead" and "m_client_connection s = Some c"
    and "pending (world s) = concat (map frame ms) @ rest"
  shows "events ((loop_step os (BaseMessageHandler_HandleMessage fs os) ^^ (3 * length ms)) s) =
    events s @ map HandleMessage ms"
  using base_handler.loop_handles_all [OF assms] .

theorem server_handles_all_witness:
  "events ((loop_step (loopback_os []) (BaseMessageHandler_HandleMessage (loopback_fs []) (loopback_os []))
      ^^ 6) (loop_server_busy (frame PingMessage @ frame Pm4CaptureRequest @ [4]))) =
   [OnConnect, HandleMessage PingMessage, HandleMessage Pm4CaptureRequest]"
  using server_handles_all [where os = "loopback_os []" and c = loop_conn and sent = lw_sent
      and pending = lw_pending and fs = "loopback_fs []" and ms = "[PingMessage, Pm4CaptureRequest]"
      and s = "loop_server_busy (frame PingMessage @ frame Pm4CaptureRequest @ [4])" and rest = "[4]"]
  by (simp add: loop_server_busy_def loop_server_def)

text \<open>
  C9. After \<^verbatim>\<open>Stop\<close>, the loop leaves within two of its steps, so that the join returns, unless
  \<^verbatim>\<open>accept\<close> had just returned a new client; in that case the client is installed although the server
  no longer runs, and the loop goes on to wait for its first message without a timeout.
\<close>

theorem stop_ends_loop:
  "if \<forall>c. pc s \<noteq> AcceptReturned (Inr c)
   then pc ((loop_step os (BaseMessageHandler_HandleMessage fs os) ^^ 2) (Stop os s)) = Exited
   else \<exists>c. pc s = AcceptReturned (Inr c) \<and>
     m_client_connection (loop_step os (BaseMessageHandler_HandleMessage fs os) (Stop os s)) = Some c \<and>
     pc (loop_step os (BaseMessageHandler_HandleMessage fs os) (Stop os s)) = ClientReady \<and>
     \<not> m_is_running (loop_step os (BaseMessageHandler_HandleMessage fs os) (Stop os s))"
  using base_handler.Stop_exits [of s os fs]
  by (auto simp: loop_step.simps server_updates)

section \<open>The client\<close>

text \<open>
  C10. After any sequence of public calls and keep-alive iterations on a new client, whatever the
  operating system does: no call leaves it in the connecting state, a client that says it is
  connected has an open socket, a disconnected one holds no connection and no keep-alive work, and
  no thread object is ever overwritten while joinable (which would end the process).
\<close>

theorem client_invariant: "client_inv (fst (client_run os calls (TcpClient_new, w)))"
  by (rule client_run_inv) (simp add: client_inv_new)

text \<open>
  \<^verbatim>\<open>Connect\<close> succeeds exactly when it leaves the client connected over an open socket with the
  handshake done and the keep-alive thread running; otherwise it was refused without any effect
  because a connection exists, or it leaves no connection and the failed status.
\<close>

theorem connect_outcome:
  assumes "client_inv cl" and "TcpClient_Connect os host port cl w = (r, cl', w')"
  shows "(r = OkStatus \<longrightarrow> IsConnected cl' \<and> keep_alive_running cl') \<and>
    (\<forall>e. r = Inl e \<longrightarrow>
       m_status cl = CONNECTED \<and> cl' = cl \<and> w' = w \<or>
       m_status cl' = CONNECTION_FAILED \<and> m_connection cl' = None \<and> \<not> keep_alive_running cl')"
  using assms(2)
proof (cases rule: TcpClient_Connect_cases)
  case (refused e)
  with assms(1) show ?thesis by (auto simp: client_inv_def)
next
  case (connected c)
  then show ?thesis by (simp add: IsConnected_def)
qed auto

theorem connect_outcome_witness:
  "\<exists>r cl' w'. TcpClient_Connect (loopback_os []) ''localhost'' 1234 TcpClient_new (incoming []) =
       (r, cl', w') \<and>
     (r = OkStatus \<longrightarrow> IsConnected cl' \<and> keep_alive_running cl') \<and>
     (\<forall>e. r = Inl e \<longrightarrow> m_status cl' = CONNECTION_FAILED)"
proof -
  obtain r cl' w' where c: "TcpClient_Connect (loopback_os []) ''localhost'' 1234 TcpClient_new
      (incoming []) = (r, cl', w')"
    using prod_cases3 by blast
  from connect_outcome [OF client_inv_new c] c show ?thesis
    by (auto simp: TcpClient_new_def)
qed

text \<open>
  C11. The handshake between the client and the server's handler always succeeds: the handler answers
  with the versions of the request itself, so the client's version check, which compares the answer
  with its own constants, passes whatever version the server was built with.
\<close>

theorem handshake_end_to_end:
  assumes server: "stream_laws os1 (m_socket c1) sent1 pending1" "writable_laws os1 (m_socket c1)"
      "IsOpen c1" "\<not> m_is_listening c1"
      "BaseMessageHandler_HandleMessage fs os1
         (HandshakeRequest \<lparr>m_major_version = kHandshakeMajorVersion,
            m_minor_version = kHandshakeMinorVersion\<rparr>) (Some c1) w1 = (conn1, w1')"
      "sent1 w1' = sent1 w1 @ bytes"
    and client: "peer_laws os2 cl c2 sent2 pending2" "pending2 w2 = bytes @ rest"
  shows "\<exists>w2'. PerformHandshake os2 cl w2 = (OkStatus, cl, w2') \<and> pending2 w2' = rest"
proof -
  let ?h = "\<lparr>m_major_version = kHandshakeMajorVersion, m_minor_version = kHandshakeMinorVersion\<rparr>"
  obtain w where "SendSocketMessage os1 (HandshakeResponse ?h) (Some c1) w1 = (OkStatus, Some c1, w)"
    "sent1 w = sent1 w1 @ frame (HandshakeResponse ?h)"
    using SendSocketMessage_delivers [OF server(1-4), of "HandshakeResponse ?h" w1] by auto
  with server(5,6) have "bytes = frame (HandshakeResponse ?h)"
    by (simp add: Handshake_def ignore_status_def)
  with client(2) have "pending2 w2 = frame (HandshakeResponse ?h) @ rest" by simp
  from PerformHandshake_exchange [OF client(1) this] show ?thesis
    by auto
qed

theorem handshake_end_to_end_witness:
  "\<exists>w1' w2'. BaseMessageHandler_HandleMessage (loopback_fs []) (loopback_os [])
       (HandshakeRequest \<lparr>m_major_version = kHandshakeMajorVersion,
          m_minor_version = kHandshakeMinorVersion\<rparr>) (Some loop_conn) (incoming []) =
       (Some loop_conn, w1') \<and>
     PerformHandshake (loopback_os []) loop_client (incoming (lw_sent w1')) =
       (OkStatus, loop_client, w2')"
proof -
  let ?h = "HandshakeRequest \<lparr>m_major_version = kHandshakeMajorVersion,
    m_minor_version = kHandshakeMinorVersion\<rparr>"
  obtain w1' where s: "BaseMessageHandler_HandleMessage (loopback_fs []) (loopback_os []) ?h
      (Some loop_conn) (incoming []) = (Some loop_conn, w1')"
    using base_handler.handle_keeps [OF loopback_writable loop_conn_open] by (metis prod.collapse)
  from handshake_end_to_end [OF loopback_stream loopback_writable loop_conn_open s,
      where bytes = "lw_sent w1'" and ?os2.0 = "loopback_os []" and cl = loop_client
      and ?c2.0 = loop_conn and ?pending2.0 = lw_pending and ?sent2.0 = lw_sent
      and ?w2.0 = "incoming (lw_sent w1')" and rest = "[]"] s
  show ?thesis by auto
qed

text \<open>
  An iteration of the keep-alive thread keeps it running exactly when the client is connected
  and the server answers the ping; otherwise the client's status is \<open>CONNECTION_FAILED\<close>.
\<close>

theorem keep_alive_detects_failure:
  assumes "client_inv cl" and "keep_alive_running cl" and "keep_alive_tick os cl w = (cl', w')"
  shows "(keep_alive_running cl' \<longleftrightarrow> IsConnected cl \<and> fst (PingServer os cl w) = OkStatus) \<and>
    (\<not> keep_alive_running cl' \<longrightarrow> m_status cl' = CONNECTION_FAILED)"
proof (cases rule: ping.op_cases [of os cl w])
  case (1 x w1)
  with assms show ?thesis
    by (cases "m_status cl") (auto simp: keep_alive_tick_def client_inv_def SetClientStatus_def IsConnected_def
        split: if_splits)
next
  case (2 e w1)
  with assms show ?thesis
    by (cases "m_status cl") (auto simp: keep_alive_tick_def client_inv_def SetClientStatus_def IsConnected_def
        split: if_splits)
next
  case (3 e c w1)
  with assms show ?thesis
    by (cases "m_status cl") (auto simp: keep_alive_tick_def client_inv_def SetClientStatus_def IsConnected_def
        split: if_splits)
qed

theorem keep_alive_detects_failure_witness:
  "\<exists>cl' w'. keep_alive_tick (loopback_os []) loop_client (incoming []) = (cl', w') \<and>
     (\<not> keep_alive_running cl' \<longrightarrow> m_status cl' = CONNECTION_FAILED)"
proof -
  obtain cl' w' where t: "keep_alive_tick (loopback_os []) loop_client (incoming []) = (cl', w')"
    by (cases "keep_alive_tick (loopback_os []) loop_client (incoming [])")
  have "client_inv loop_client" "keep_alive_running loop_client"
    using loopback_peer [of "[]"]
    by (auto simp: client_inv_def loop_client_def TcpClient_new_def peer_laws_def)
  from keep_alive_detects_failure [OF this t] t show ?thesis by blast
qed

section \<open>GPU timestamps\<close>

text \<open>
  C12. The bitmap allocator returns the invalid index, unchanged, exactly when all 8192 slots are
  used; otherwise it returns the first slot that is free in cyclic order from its cursor, marks that
  slot and no other, and moves the cursor behind it.
\<close>

theorem allocate_slot_correct:
  assumes "alloc_inv a" and "AllocateSlot a = (s, a')"
  shows "if used_slots a = {..<kTotalSlots} then s = kInvalidIndex \<and> a' = a
    else s < kTotalSlots \<and> s \<notin> used_slots a \<and> used_slots a' = insert s (used_slots a) \<and>
      alloc_inv a' \<and> m_cur a' = (s + 1) mod kTotalSlots \<and>
      (\<exists>k < kTotalSlots. s = (m_cur a + k) mod kTotalSlots \<and>
         (\<forall>j < k. (m_cur a + j) mod kTotalSlots \<in> used_slots a))"
proof (cases "used_slots a = {..<kTotalSlots}")
  case True
  with AllocateSlot_full [OF assms(1) True] assms(2) show ?thesis
    unfolding if_P [OF True] by simp
next
  case False
  with AllocateSlot_free [OF assms(1) False assms(2)] show ?thesis
    unfolding if_not_P [OF False] by blast
qed

theorem allocate_slot_correct_witness:
  "fst (AllocateSlot TimeStampSlotAllocator_Reset) \<notin> used_slots TimeStampSlotAllocator_Reset \<and>
   used_slots (snd (AllocateSlot TimeStampSlotAllocator_Reset)) =
     {fst (AllocateSlot TimeStampSlotAllocator_Reset)}"
proof -
  have "({} :: nat set) \<noteq> {..<kTotalSlots}"
    using kTotalSlots_pos by blast
  with allocate_slot_correct [OF Reset_inv, of "fst (AllocateSlot TimeStampSlotAllocator_Reset)"
      "snd (AllocateSlot TimeStampSlotAllocator_Reset)"]
  show ?thesis by simp
qed

text \<open>
  C13. The compare-and-exchange loops are safe for any number of threads and any interleaving, with
  exchanges that fail at any time: no slot is owned by two threads, and the bits set in the bitmap
  are exactly the slots that threads own, are being given or are giving back, so none leaks.
\<close>

theorem slots_never_shared:
  assumes "slot_run slot_start s"
  shows "(\<forall>t u. t \<noteq> u \<longrightarrow> owned (threads s t) \<inter> owned (threads s u) = {}) \<and>
    masks_used (sys_masks s) = (\<Union>t. owned (threads s t) \<union> pc_slot (thread_pc (threads s t)))"
  using slot_system_invD(2,3) [OF slot_run_inv [OF assms slot_start_inv]] unfolding claim_def by blast

theorem slots_never_shared_witness:
  "owned (threads (goto 3 (AllocScan 0 0) slot_start) 3) \<inter>
     owned (threads (goto 3 (AllocScan 0 0) slot_start) 4) = {}"
proof -
  have "slot_step slot_start (goto 3 (AllocScan (sys_cur slot_start) 0) slot_start)"
    by (rule slot_step.alloc_begin) (simp add: slot_start_def)
  then have "slot_run slot_start (goto 3 (AllocScan 0 0) slot_start)"
    using slot_run.intros by (auto simp: slot_start_def)
  from slots_never_shared [OF this] show ?thesis by simp
qed

text \<open>
  C14. After any history of calls, the detector's flag of a command buffer is set exactly when the
  delimiter label was put into it while it was tracked and no later call re-allocated, freed, reset
  or cleared it.
\<close>

theorem boundary_flag_history: "IsFrameBoundary (boundary_history evs) cmd \<longleftrightarrow> marked_last evs cmd"
  by (rule boundary_history_flag)

text \<open>
  C15. Adding frame data implements a sliding window: the metrics hold, column by column, the last
  1000 frames of the current shape; a frame of another shape starts a new window.
\<close>

theorem frame_metrics_window:
  assumes "metrics_window fm fs"
  shows "metrics_window (AddFrameData (fr_time f) (fr_cmds f) (fr_passes f) counts fm) (window_add f fs)"
  using AddFrameData_window [OF assms] .

theorem frame_metrics_window_witness:
  "metrics_window (AddFrameData 3 [1, 2] [5] [1, 0] FrameMetrics_new)
     [\<lparr>fr_time = 3, fr_cmds = [1, 2], fr_passes = [5]\<rparr>]"
  using frame_metrics_window [OF metrics_window_new,
      of "\<lparr>fr_time = 3, fr_cmds = [1, 2], fr_passes = [5]\<rparr>" "[1, 0]"]
  by (simp add: window_add_def kFrameMetricsLimit_def)

text \<open>
  For a non-empty series of representable times, the minimum and maximum are those of the data,
  the average and the median lie between them, at least half of the data lie at or below and at or
  above the median, and the squared standard deviation is the sample variance.
\<close>

theorem statistics_correct:
  assumes "data \<noteq> []" and "\<forall>d \<in> set data. \<bar>d\<bar> \<le> double_max" and "s = GetStatistics data"
  shows "stat_min s = Min (set data) \<and> stat_max s = Max (set data) \<and>
    stat_min s \<le> average s \<and> average s \<le> stat_max s \<and>
    length data \<le> 2 * length (filter (\<lambda>d. d \<le> median s) data) \<and>
    length data \<le> 2 * length (filter (\<lambda>d. median s \<le> d) data) \<and>
    (2 \<le> length data \<longrightarrow>
       (stddev s)\<^sup>2 * real (length data - 1) = (\<Sum>d \<leftarrow> data. (d - average s)\<^sup>2))"
  using stat_extremes [OF assms(1,2)] median_halves [OF assms(1)] stddev_square [of data]
    average_bounds [OF assms(1), of "Min (set data)" "Max (set data)"]
  by (simp add: assms(3)) (simp add: GetStatistics_def)

theorem statistics_correct_witness:
  "stat_min (GetStatistics [4, 1, 3]) = 1 \<and> stat_max (GetStatistics [4, 1, 3]) = 4"
proof -
  have "(4 :: real) \<le> double_max"
    by (simp add: double_max_def)
  then show ?thesis
    using statistics_correct [of "[4, 1, 3]", OF _ _ refl] by simp
qed

text \<open>
  C16. On every sequence of calls from a new object, with the two halves of a submission interleaved
  with any other calls: the timestamp slots of cached command buffers are pairwise distinct and marked
  in the bitmap, every command buffer of the current frame is cached, and the metrics are consistent
  and those of a history of frames (which C19 is about).
\<close>

theorem gpu_time_invariant:
  assumes "query_laws vk" and "gpu_run vk calls (GPUTime_new, v) = Some (g, v')"
  shows "gpu_inv g"
  using gpu_run_inv [OF assms(1) _ assms(2)] by (simp add: gpu_inv_new)

theorem gpu_time_invariant_witness:
  "\<exists>g v'. gpu_run null_vk [Enable True, CreateDevice 1 0 1,
      AllocateCommandBuffers \<lparr>level = VK_COMMAND_BUFFER_LEVEL_PRIMARY, commandPool = 4\<rparr> [9, 10],
      BeginPass 9, EndPass 9, SubmitRecord (Some [\<lparr>pCommandBuffers = Some [9]\<rparr>])]
      (GPUTime_new, ()) = Some (g, v') \<and> gpu_inv g"
proof -
  have "\<exists>g v'. gpu_run null_vk [Enable True, CreateDevice 1 0 1,
      AllocateCommandBuffers \<lparr>level = VK_COMMAND_BUFFER_LEVEL_PRIMARY, commandPool = 4\<rparr> [9, 10],
      BeginPass 9, EndPass 9, SubmitRecord (Some [\<lparr>pCommandBuffers = Some [9]\<rparr>])]
      (GPUTime_new, ()) = Some (g, v')"
    by (auto simp: OnCreateDevice_def OnAllocateCommandBuffers_def BeginRenderPass_def EndRenderPass_def
        render_pass_timestamp_def Let_def simp del: allocate_loop.simps submit_loop.simps
        split: prod.splits option.splits)
  then show ?thesis
    using gpu_time_invariant [OF null_vk_laws] by blast
qed

text \<open>
  C17. If the application times a render pass only while a slot is free and ends a frame only when the
  render passes of its command buffers are closed, then no call of any sequence runs into undefined
  behaviour.
\<close>

theorem gpu_time_defined:
  assumes "query_laws vk" and "run_allowed vk calls (GPUTime_new, v)"
  shows "\<exists>s'. gpu_run vk calls (GPUTime_new, v) = Some s'"
  using gpu_run_defined [OF assms(1) _ _ assms(2)] by (simp add: gpu_inv_new)

theorem gpu_time_defined_witness:
  "\<exists>s'. gpu_run null_vk [Enable True,
      AllocateCommandBuffers \<lparr>level = VK_COMMAND_BUFFER_LEVEL_PRIMARY, commandPool = 4\<rparr> [9],
      ResetCommandPool 4, FreeCommandBuffers [9], DestroyCommandPool 4] (GPUTime_new, ()) = Some s'"
  by (rule gpu_time_defined) (simp_all split: option.splits)

text \<open>
  When all slots are used, timing a render pass reports success but stores the invalid index, and
  the next reset of the command buffer accesses the bitmap far outside its bounds.
\<close>

theorem exhausted_slots_undefined:
  assumes "gpu_inv g" and "m_enable g" and "find_cmd g c = Some info"
    and "used_slots (m_timestamp_allocator g) = {..<kTotalSlots}"
  shows "\<exists>g' v'. BeginRenderPass vk c g v = Some (gpu_ok, g', v') \<and> OnResetCommandBuffer c g' w = None"
  using exhausted_render_pass [OF assms] .

theorem exhausted_slots_undefined_witness:
  "\<exists>g' v'. BeginRenderPass null_vk 9 (one_cmd [] full_allocator) () = Some (gpu_ok, g', v') \<and>
     OnResetCommandBuffer 9 g' () = None"
proof (rule exhausted_slots_undefined)
  have "{0, 1} \<union> set [] \<subseteq> used_slots full_allocator"
    unfolding full_allocator_used by (simp add: slot_consts)
  then show "gpu_inv (one_cmd [] full_allocator)"
    by (intro one_cmd_inv full_allocator_inv) simp_all
qed (simp_all add: one_cmd_def find_cmd_def full_allocator_used)

text \<open>
  If a frame ends while one of its command buffers has an open render pass, for instance because
  another thread is recording it again, the measuring loop reads past the end of its slot vector.
\<close>

theorem open_render_pass_undefined:
  assumes "m_valid_frame g" and "m_frame_cmds g = [c]" and "find_cmd g c = Some info"
    and "renderpass_slots info = [s]"
    and "query_timestamps vk g v = (VK_SUCCESS, g1, v1)"
    and "GetTimeDuration g1 (begin_timestamp_offset info) (end_timestamp_offset info) = Some d"
  shows "OnFrameBoundary vk g v = None"
  using odd_render_pass [OF assms] .

theorem open_render_pass_undefined_witness:
  "OnFrameBoundary null_vk (one_cmd [2] TimeStampSlotAllocator_Reset) () = None"
  by (rule open_render_pass_undefined)
    (auto simp: one_cmd_def find_cmd_def GPUTime_new_def query_timestamps_def null_vk_def
      GetTimeDuration_def slot_available_def slot_consts kInvalidIndex_def)

text \<open>
  A frame boundary that succeeds on a valid frame adds to the window exactly the frame just read:
  for every submitted command buffer, in order, the difference of its two timestamps (modulo \<open>2^64\<close>)
  in milliseconds, likewise for its render passes, and their sum as the frame time.
\<close>

theorem frame_boundary_records:
  assumes "query_laws vk" and "gpu_inv g" and "m_valid_frame g"
    and "OnFrameBoundary vk g v = Some (st, g', v')" and "gs_success st"
    and "metrics_window (m_metrics g) fs"
  shows "\<exists>g1. reread g g1 \<and> metrics_window (m_metrics g') (window_add (measured_frame g1) fs)"
  using OnFrameBoundary_recorded [OF assms] .

theorem frame_boundary_records_witness:
  "\<exists>st g' v' g1. OnFrameBoundary null_vk GPUTime_new () = Some (st, g', v') \<and>
     metrics_window (m_metrics g') (window_add (measured_frame g1) [])"
proof -
  have "OnFrameBoundary null_vk GPUTime_new () =
      Some (gpu_ok, the (map_option (fst \<circ> snd) (OnFrameBoundary null_vk GPUTime_new ())), ())"
    by (simp add: OnFrameBoundary_def UpdateFrameMetrics_def measure_frame_def query_timestamps_def
        null_vk_def GPUTime_new_def)
  from frame_boundary_records [OF null_vk_laws gpu_inv_new _ this, of "[]"] this show ?thesis
    using metrics_window_new by (auto simp: gpu_ok_def GPUTime_new_def)
qed

text \<open>
  C18. A submission of cached, non-reusable command buffers appends exactly those, in order, to the
  frame, and is a frame boundary exactly when one of them is marked; but if the first submit info has
  no command buffers, nothing of the others is recorded.
\<close>

theorem submission_recorded:
  assumes "m_enable g" and "\<forall>cmd \<in> set (submit_list (submit # submits)). submittable g cmd"
  shows "OnQueueSubmit_record vk (Some (submit # submits)) g =
    (Inr (\<exists>cmd \<in> submitted_cmds (submit # submits). IsFrameBoundary (m_boundary_detector g) cmd),
     if pCommandBuffers submit = None then g
     else g\<lparr>m_frame_cmds := m_frame_cmds g @ submit_list (submit # submits)\<rparr>)"
  using assms(1) submit_loop_all [OF assms(2), of vk]
  by (simp add: OnQueueSubmit_record_def ContainsFrameBoundary_iff Let_def
      del: submit_loop.simps submitted_cmds_simps)

theorem submission_recorded_witness:
  "OnQueueSubmit_record null_vk (Some [\<lparr>pCommandBuffers = None\<rparr>, \<lparr>pCommandBuffers = Some [9]\<rparr>])
     (one_cmd [] TimeStampSlotAllocator_Reset) = (Inr False, one_cmd [] TimeStampSlotAllocator_Reset)"
  using submission_recorded [of "one_cmd [] TimeStampSlotAllocator_Reset" "\<lparr>pCommandBuffers = None\<rparr>"
      "[\<lparr>pCommandBuffers = Some [9]\<rparr>]" null_vk]
  by (simp add: one_cmd_def submit_list_def submittable_def find_cmd_def IsFrameBoundary_def
      GPUTime_new_def)

text \<open>
  C19. After any non-empty history of frames, the report goes through the command buffers in order and
  lists each with the statistics of its times over the current window, directly followed by its render
  passes, numbered through the frame, each with the statistics of its own times. This needs every frame
  of the current run to have the same numbers of render passes in its command buffers; in general the
  render passes of the window are split by the numbers of the first frame of the run, since a frame
  with the same totals but another distribution does not start a new run.
\<close>

theorem report_complete:
  assumes "fs \<noteq> []" and "fm = fold add_timed fs FrameMetrics_new"
  shows "report_rows fm = split_rows (pass_counts (hd (current_run fs))) (current_window fs) \<and>
    ((\<forall>f \<in> set (current_run fs). pass_counts f = pass_counts (last fs)) \<longrightarrow>
       report_rows fm = nested_rows (pass_counts (last fs)) (current_window fs))"
proof -
  have "hd (current_run fs) \<in> set (current_run fs)"
    using last_current_run [OF assms(1)] by simp
  with history_rows [OF assms(1)] split_rows_nested [of "current_window fs" "pass_counts (last fs)"]
    window_in_run [of _ fs] assms(2)
  show ?thesis by auto
qed

theorem report_complete_witness:
  "report_rows (fold add_timed [(10, [(4, [1, 2]), (5, [3])]), (12, [(6, [2, 4]), (7, [1])])] FrameMetrics_new) =
     [CmdRow 0 (GetStatistics [4, 6]), PassRow 0 (GetStatistics [1, 2]), PassRow 1 (GetStatistics [2, 4]),
      CmdRow 1 (GetStatistics [5, 7]), PassRow 2 (GetStatistics [3, 1])] \<and>
   report_rows (fold add_timed [(10, [(4, [1, 2]), (5, [3])]), (12, [(6, [2]), (7, [4, 1])])] FrameMetrics_new) =
     [CmdRow 0 (GetStatistics [4, 6]), PassRow 0 (GetStatistics [1, 2]), PassRow 1 (GetStatistics [2, 4]),
      CmdRow 1 (GetStatistics [5, 7]), PassRow 2 (GetStatistics [3, 1])]"
  using report_complete [OF _ refl, of "[(10, [(4, [1, 2]), (5, [3])]), (12, [(6, [2, 4]), (7, [1])])]"]
    report_complete [OF _ refl, of "[(10, [(4, [1, 2]), (5, [3])]), (12, [(6, [2]), (7, [4, 1])])]"]
  by (simp add: current_run_def current_window_def last_frames_def kFrameMetricsLimit_def same_totals_def
      frame_passes_def pass_counts_def split_rows_def nested_rows_def cmd_stats_def pass_stats_def
      upt_rec del: fold.simps)

section \<open>Captured memory\<close>

text \<open>
  C24. Reading captured memory returns true exactly when every byte of the range was captured in blocks
  the submit may see, and then the buffer holds these bytes, whether a block was cached by an earlier
  read or not, and however many blocks the range spans; the captured memory stays as it is.
\<close>

theorem retrieve_memory_correct:
  assumes "mem_ok mm" and "unat va + unat n < 2 ^ 64" and "n \<noteq> 0" and "length buf = unat n"
  shows "\<exists>ok buf' mm'. RetrieveMemoryData buf s va n mm = Some (ok, buf', mm') \<and>
    captured_bytes mm s va n = (if ok then Some buf' else None) \<and>
    captured mm' = captured mm \<and> mem_ok mm'"
proof -
  obtain ok buf' mm' where r: "RetrieveMemoryData buf s va n mm = Some (ok, buf', mm')"
      "if ok then captured_bytes mm s va n = Some buf' else captured_bytes mm s va n = None"
      "same_blocks mm mm'" "mem_ok mm'"
    using RetrieveMemoryData_correct [OF assms] .
  then show ?thesis
    using same_blocks_simps(3) [OF r(3)] by (auto simp: fun_eq_iff)
qed

theorem retrieve_memory_correct_witness:
  "\<exists>ok buf' mm'. RetrieveMemoryData [0, 0] 0 0x1001 2 (sample_capture 0x1000 [0x70108000]) = Some (ok, buf', mm') \<and>
    captured_bytes (sample_capture 0x1000 [0x70108000]) 0 0x1001 2 = (if ok then Some buf' else None) \<and>
    captured mm' = captured (sample_capture 0x1000 [0x70108000]) \<and> mem_ok mm'"
  by (rule retrieve_memory_correct) (simp_all add: sample_mem_ok)

text \<open>
  C25. The largest contiguous size at an address is exact: that many bytes are captured from there on,
  and the next one is not. So a range is valid exactly when all of it is captured, and a client of
  unknown size is handed exactly these bytes.
\<close>

theorem contiguous_memory:
  assumes "blocks_ok mm"
  shows "contiguous mm s (unat va) (unat (GetMaxContiguousSize mm s va)) \<and>
    MemoryManager_IsValid mm s va n = (captured_bytes mm s va n \<noteq> None) \<and>
    GetMemoryOfUnknownSizeViaCallback collect_memory mm s va u =
      (True, u @ memory_slice mm s (unat va) (unat va + unat (GetMaxContiguousSize mm s va)))"
  using GetMaxContiguousSize_contiguous [OF assms] IsValid_captured [OF assms]
    unknown_size_collects [OF assms, of "[]" "m_memory_blocks mm" s va u]
  by (simp_all add: GetMemoryOfUnknownSizeViaCallback_def GetMaxContiguousSize_def)

theorem contiguous_memory_witness:
  "MemoryManager_IsValid (sample_capture 0x1000 [0x70108000, 1]) 0 0x1002 6 =
    (captured_bytes (sample_capture 0x1000 [0x70108000, 1]) 0 0x1002 6 \<noteq> None)"
  using contiguous_memory [of "sample_capture 0x1000 [0x70108000, 1]" 0 "0x1002" 6 "[]"]
    sample_mem_ok [of "0x1000" "[0x70108000, 1]"] by (simp add: mem_ok_def)

text \<open>
  C26. If overlapping blocks of one submit are re-captures of the same address, \<^verbatim>\<open>Finalize\<close> keeps for
  every submit and address the last of the largest blocks and nothing else, in order and without
  overlaps, so that reads are well defined afterwards; no assertion of a debug build fails.
\<close>

theorem finalize_memory:
  assumes "capture_ok (m_memory_blocks mm)" and "m_last_used_block_ptr mm = null_block"
  shows "\<exists>mm'. MemoryManager_Finalize debug True dup mm = Some mm' \<and> mem_ok mm' \<and>
    set (m_memory_blocks mm') = winners (m_memory_blocks mm)"
proof -
  obtain mm' where "MemoryManager_Finalize debug True dup mm = Some mm'" "blocks_ok mm'"
      "set (m_memory_blocks mm') = winners (m_memory_blocks mm)"
      "m_last_used_block_ptr mm' = moved (m_last_used_block_ptr mm)"
    using Finalize_same_submit [OF assms(1)] .
  then show ?thesis
    using assms(2) by (simp add: mem_ok_def ptr_ok_def moved_def)
qed

theorem finalize_memory_witness:
  "\<exists>mm'. MemoryManager_Finalize True True False (sample_capture 0x1000 [1, 2]) = Some mm' \<and> mem_ok mm' \<and>
    set (m_memory_blocks mm') = winners (m_memory_blocks (sample_capture 0x1000 [1, 2]))"
  by (rule finalize_memory)
    (simp_all add: sample_capture_def sample_block_def MemoryManager_new_def capture_ok_def block_ok_def
      blk_hi_def blk_lo_def le32_stream_def le32_bytes_def)

section \<open>Packets and registers\<close>

text \<open>
  The folding and table lookup of \<^verbatim>\<open>CalcParity\<close> is the odd parity bit over all 32 bits.
\<close>

theorem calc_parity_correct: "CalcParity val = (if odd (bits_set val) then 0 else 1)"
  by (rule CalcParity_eq)

text \<open>
  A packet of a known type has at least one and at most \<open>2^15\<close> dwords; one of an unknown type
  stops a debug build and counts as empty in a release build.
\<close>

theorem packet_size_bounds:
  "if known_type h then \<exists>n. GetPacketSize debug h = Some n \<and> 1 \<le> unat n \<and> unat n \<le> 2 ^ 15
   else GetPacketSize debug h = (if debug then None else Some 0)"
proof (cases "known_type h")
  case True
  then show ?thesis
    using GetPacketSize_known [of h debug] by metis
qed (simp add: GetPacketSize_unknown)

text \<open>
  C27. A type 4 packet whose words are captured, whose registers are in range and which does not end on
  the low half of a 64-bit register sets, in the register copies the enable mask selects, its
  consecutive registers to its words, and changes nothing else.
\<close>

theorem register_packet:
  assumes "mem_ok mm" and "header_type h = 4" and "capture_holds mm s (va + 4) (le32_stream ws)"
    and "length ws = unat (type4_count h)" and "unat (type4_offset h) + length ws \<le> kNumRegs"
    and "\<not> is_64_bit isa (type4_offset h + type4_count h - 1)"
  shows "\<exists>tr' mm'. EmulateStateTracker_OnPacket debug isa RetrieveMemoryData s va h tr mm = Some (True, tr', mm') \<and>
    same_modes tr tr' \<and>
    (\<forall>i p. reg_view tr' i p =
       (if i < kShaderEnableBitCount \<and> bit (m_enable_mask tr) i \<and>
           unat (type4_offset h) \<le> p \<and> p < unat (type4_offset h) + length ws
        then Some (ws ! (p - unat (type4_offset h))) else reg_view tr i p))"
  using OnPacket_type4 [OF assms, of debug tr] by (auto simp: view_writes_nth)

theorem register_packet_witness:
  "\<exists>tr' mm'. EmulateStateTracker_OnPacket True sample_isa RetrieveMemoryData 0 0x1000 0x40a9b402
       EmulateStateTracker_new (sample_capture 0x1000 [0x40a9b402, 5, 6]) = Some (True, tr', mm') \<and>
     reg_view tr' 1 0xa9b5 = Some 6"
proof -
  let ?mm = "sample_capture 0x1000 [0x40a9b402, 5, 6]"
  have t: "type4_offset 0x40a9b402 = 0xa9b4" "type4_count 0x40a9b402 = 2" "header_type 0x40a9b402 = 4"
    by (simp_all add: type4_offset_def type4_count_def header_type_def)
  have "capture_holds ?mm 0 (0x1000 + 4) (le32_stream [5, 6])"
    using sample_holds [of "0x1000" "[0x40a9b402, 5, 6]" 1] by simp
  from register_packet [of ?mm "0x40a9b402" 0 "0x1000" "[5, 6]" sample_isa True EmulateStateTracker_new, OF _ _ this]
  obtain tr' mm' where "EmulateStateTracker_OnPacket True sample_isa RetrieveMemoryData 0 0x1000 0x40a9b402
       EmulateStateTracker_new ?mm = Some (True, tr', mm')"
    and "\<forall>i p. reg_view tr' i p = (if i < kShaderEnableBitCount \<and> bit (m_enable_mask EmulateStateTracker_new) i \<and>
           0xa9b4 \<le> p \<and> p < 0xa9b4 + length [5, 6 :: u32]
        then Some ([5, 6] ! (p - 0xa9b4)) else reg_view EmulateStateTracker_new i p)"
    by (auto simp: t sample_mem_ok kNumRegs_def is_64_bit_def sample_isa_def)
  then show ?thesis
    by (auto simp: EmulateStateTracker_new_def kShaderEnableBitCount_def bit_numeral_rec)
qed

section \<open>Emulation\<close>

text \<open>
  C28. Emulating a submit keeps the emulator's state well formed, whatever the memory, the packets and
  the callbacks are: the stack has its five levels and the top is one of them, each queue stays within
  its bound with its index inside, and the submit index is kept. When it succeeds, the emulator is
  back at the primary ring, whose queue is the IBs of the submit that are not empty, in order, and all
  of them have been taken from it.
\<close>

theorem emulator_state_ok:
  assumes "ExecuteSubmit env s ibs c m = Some (b, es, c', m')"
  shows "es_ok es \<and> es_submit_index es = s \<and>
    (if b
     then es_top_of_stack es = kPrimaryRing \<and>
       (let ring = es_ib_stack es ! kPrimaryRing;
            queued = filter (\<lambda>ib. ib_size_in_dwords ib \<noteq> 0) ibs
        in map q_addr (stk_queue ring) = map ib_va_addr queued \<and>
           map q_size_in_dwords (stk_queue ring) = map ib_size_in_dwords queued \<and>
           map q_skip (stk_queue ring) = map ib_skip queued \<and>
           (\<forall>q \<in> set (stk_queue ring). q_type q = kNormal \<and> q_enable_mask q = 7) \<and>
           stk_queue_index ring = length queued)
     else True)"
proof -
  have "if b then es_top_of_stack es = kPrimaryRing \<and> ring_done es \<and> ring_queue es = submitted_ibs ibs else True"
    using ExecuteSubmit_ok [OF assms] by simp
  then show ?thesis
    using ExecuteSubmit_ok [OF assms]
    by (cases b) (auto simp: ring_done_def ring_queue_def submitted_ibs_def Let_def comp_def)
qed

theorem emulator_state_ok_witness:
  "\<exists>es c'. ExecuteSubmit (trace_env False sample_isa sample_retrieve (\<lambda>_ _ _ _. Some True)) 0 [sample_ib] [] () =
      Some (True, es, c', ()) \<and>
    map q_addr (stk_queue (es_ib_stack es ! kPrimaryRing)) = [0] \<and>
    stk_queue_index (es_ib_stack es ! kPrimaryRing) = 1 \<and> length c' = 3"
proof -
  let ?env = "trace_env False sample_isa sample_retrieve (\<lambda>_ _ _ _. Some True)"
  let ?log = "[ev_IbStart 0 0 sample_ib kNormal, ev_Packet 0 0 0 sample_packet_header,
      ev_IbEnd 0 0 (sample_ib\<lparr>ib_level := 0, ib_enable_mask := 0\<rparr>)]"
  obtain es where es: "ExecuteSubmit ?env 0 [sample_ib] [] () = Some (True, es, ?log, ())"
    using sample_emulation [of ?env "[]" "take 1 ?log" "take 2 ?log" ?log] by (auto simp: numeral_2_eq_2)
  from emulator_state_ok [OF es] es show ?thesis
    by (auto simp: Let_def sample_ib_def)
qed

text \<open>
  C29. Processing a whole capture leaves the tracker's enable mask and the stack of the outer masks as
  they were, whatever IBs are called, skipped or invalid, unless a CHAIN packet was emulated.
\<close>

theorem enable_masks_balanced:
  assumes "ProcessSubmits (base_env debug isa retrieve is_valid) submits cb m = Some (True, cb', m')"
    and "\<not> chained isa cb'"
  shows "m_enable_mask (m_state_tracker cb') = m_enable_mask (m_state_tracker cb) \<and>
    m_enable_mask_stack (m_state_tracker cb') = m_enable_mask_stack (m_state_tracker cb)"
  using process_submits_balanced [OF assms(1) [unfolded ProcessSubmits_def]] assms(2)
  by (simp add: cb_masks_def tracker_masks_def)

theorem enable_masks_balanced_witness:
  "\<exists>cb'. ProcessSubmits (base_env False sample_isa sample_retrieve (\<lambda>_ _ _ _. Some True)) [sample_submit]
       EmulateCallbacksBase_new () = Some (True, cb', ()) \<and>
     cb_events cb' = [ev_SubmitStart 0, ev_IbStart 0 0 sample_ib kNormal, ev_Packet 0 0 0 sample_packet_header,
       ev_IbEnd 0 0 (sample_ib\<lparr>ib_level := 0, ib_enable_mask := 0\<rparr>), ev_SubmitEnd 0] \<and>
     m_enable_mask (m_state_tracker cb') = 7 \<and> m_enable_mask_stack (m_state_tracker cb') = []"
proof -
  let ?env = "base_env False sample_isa sample_retrieve (\<lambda>_ _ _ _. Some True)"
  let ?left = "sample_ib\<lparr>ib_level := 0, ib_enable_mask := 0\<rparr>"
  let ?c0 = "log_event (ev_SubmitStart 0) EmulateCallbacksBase_new"
  let ?c1 = "log_event (ev_IbStart 0 0 sample_ib kNormal)
    (?c0\<lparr>m_state_tracker := PushEnableMask (ib_enable_mask sample_ib) (m_state_tracker ?c0)\<rparr>)"
  let ?c2 = "log_event (ev_Packet 0 0 0 sample_packet_header) ?c1"
  obtain tr where tr: "PopEnableMask (m_state_tracker ?c2) = Some tr"
    by (auto simp: PopEnableMask_def PushEnableMask_def log_event_def)
  let ?c3 = "log_event (ev_IbEnd 0 0 ?left) (?c2\<lparr>m_state_tracker := tr\<rparr>)"
  obtain es where "ExecuteSubmit ?env 0 [sample_ib] ?c0 () = Some (True, es, ?c3, ())"
    using sample_emulation [of ?env ?c0 ?c1 ?c2 ?c3] tr
    by (auto simp: EmulateCallbacksBase_OnIbStart_def EmulateCallbacksBase_OnPacket_def sample_tracker
        EmulateCallbacksBase_OnIbEnd_def log_event_def)
  then have run: "ProcessSubmits ?env [sample_submit] EmulateCallbacksBase_new () =
      Some (True, log_event (ev_SubmitEnd 0) ?c3, ())"
    by (simp add: ProcessSubmits_def sample_submit_def)
  moreover have "\<not> chained sample_isa (log_event (ev_SubmitEnd 0) ?c3)"
    by (simp add: chained_def emulated_def log_event_def EmulateCallbacksBase_new_def is_op_def sample_packet_header
        sample_isa_def)
  ultimately show ?thesis
    using enable_masks_balanced [OF run]
    by (auto simp: log_event_def EmulateCallbacksBase_new_def EmulateStateTracker_new_def kShaderEnableBitCount_def)
qed

text \<open>
  C30. An IB that starts with a packet of unknown type is never finished: a debug build stops at the
  assertion on its size, a release build stays at the packet for ever.
\<close>

theorem unknown_packet_never_returns:
  assumes "mem_ok mm" and "\<not> ib_skip ib"
    and "ib_va_addr ib + ucast (ib_size_in_dwords ib) * 4 > ib_va_addr ib"
    and "capture_holds mm s (ib_va_addr ib) (le32_bytes h)" and "\<not> known_type h"
    and "MemoryManager_IsValid mm s (ib_va_addr ib) (ucast (ib_size_in_dwords ib) * 4)"
  shows "ExecuteSubmit (trace_env debug isa RetrieveMemoryData capture_is_valid) s [ib] c mm = None"
  by (rule capture_data.ExecuteSubmit_unknown [OF assms(1-3) capture_holds_bytes [OF assms(4)] assms(5)])
    (simp add: capture_is_valid_def assms(6))

theorem unknown_packet_never_returns_witness:
  "ExecuteSubmit (trace_env False sample_isa RetrieveMemoryData capture_is_valid) 0
     [\<lparr>ib_va_addr = 0x1000, ib_size_in_dwords = 1, ib_level = 1, ib_enable_mask = 7, ib_skip = False\<rparr>] []
     (sample_capture 0x1000 [0x12345678]) = None"
proof (rule unknown_packet_never_returns [where h = "0x12345678"])
  have st: "le32_stream [0x12345678] = le32_bytes 0x12345678"
    by (simp add: le32_stream_def)
  then have h: "capture_holds (sample_capture 0x1000 [0x12345678]) 0 0x1000 (le32_bytes 0x12345678)"
    using sample_holds [of "0x1000" "[0x12345678]" 0] by simp
  then show "capture_holds (sample_capture 0x1000 [0x12345678]) 0
      (ib_va_addr \<lparr>ib_va_addr = 0x1000, ib_size_in_dwords = 1, ib_level = 1, ib_enable_mask = 7, ib_skip = False\<rparr>)
      (le32_bytes 0x12345678)"
    by simp
  show "MemoryManager_IsValid (sample_capture 0x1000 [0x12345678]) 0
     (ib_va_addr \<lparr>ib_va_addr = 0x1000, ib_size_in_dwords = 1, ib_level = 1, ib_enable_mask = 7, ib_skip = False\<rparr>)
     (ucast (ib_size_in_dwords \<lparr>ib_va_addr = 0x1000, ib_size_in_dwords = 1, ib_level = 1, ib_enable_mask = 7,
        ib_skip = False\<rparr>) * 4)"
    using h sample_mem_ok [of "0x1000" "[0x12345678]"]
    by (simp add: IsValid_captured mem_ok_def capture_holds_def)
qed (simp_all add: sample_mem_ok known_type_def header_type_def)

text \<open>
  C31. A submit whose IBs hold packets that jump nowhere is emulated to its end: the emulator returns
  true, and has called back, in order, for the start of every IB, each of its packets at its address,
  and its end; IBs to be skipped start and end without packets.
\<close>

theorem submit_linear:
  assumes "mem_ok mm" and "length ibs \<le> kMaxPendingIbs"
    and "\<forall>(ib, pks) \<in> set ibs. linear_ib isa mm s ib pks"
  shows "\<exists>es mm'. ExecuteSubmit (trace_env debug isa RetrieveMemoryData capture_is_valid) s (map fst ibs) [] mm =
    Some (True, es, submit_events s 0 ibs, mm')"
  using capture_data.ExecuteSubmit_linear [OF assms(1) _ assms(2), of isa s debug "[]"] assms(3) linear_ib_packets
  by fastforce

theorem submit_linear_witness:
  "\<exists>es mm'. ExecuteSubmit (trace_env True sample_isa RetrieveMemoryData capture_is_valid) 0
      [\<lparr>ib_va_addr = 0x1000, ib_size_in_dwords = 2, ib_level = 1, ib_enable_mask = 7, ib_skip = False\<rparr>] []
      (sample_capture 0x1000 [0x20000000, 0x20000001]) =
    Some (True, es,
      [ev_IbStart 0 0 \<lparr>ib_va_addr = 0x1000, ib_size_in_dwords = 2, ib_level = 1, ib_enable_mask = 7, ib_skip = False\<rparr> kNormal,
       ev_Packet 0 0 0x1000 0x20000000, ev_Packet 0 0 0x1004 0x20000001,
       ev_IbEnd 0 0 \<lparr>ib_va_addr = 0x1000, ib_size_in_dwords = 2, ib_level = 0, ib_enable_mask = 0, ib_skip = False\<rparr>],
      mm')"
proof -
  let ?ib = "\<lparr>ib_va_addr = 0x1000, ib_size_in_dwords = 2, ib_level = 1, ib_enable_mask = 7, ib_skip = False\<rparr>"
  let ?mm = "sample_capture 0x1000 [0x20000000, 0x20000001]"
  have "linear_ib sample_isa ?mm 0 ?ib [[0x20000000], [0x20000001]]"
    using sample_holds [of "0x1000" "[0x20000000, 0x20000001]" 0]
    by (simp add: linear_ib_def plain_packet_def valid_header_def header_type_def jump_op_def is_op_def GetPacketSize_def)
  then show ?thesis
    using submit_linear [of ?mm "[(?ib, [[0x20000000], [0x20000001]])]" sample_isa 0 True]
    by (simp add: sample_mem_ok kMaxPendingIbs_def ib_events_def)
qed

section \<open>GFXR captures\<close>

text \<open>
  C20. However the calls of several command buffers are interleaved in a capture, a command buffer that
  was begun and recorded render passes with draws is reported when it is submitted, in whichever entry
  and at whatever place of the submission: with exactly the block indices of its begin, its passes, its
  draws and the submission, and it is then forgotten. This is for captures in which the entries of each
  submission have equally many command buffers; the code bounds its loops over all entries by the count
  of the first one, so that with fewer in a later entry it reads past an array (see C21), and with more
  it does not see the rest.
\<close>

theorem recorded_buffer_dumped:
  assumes "\<forall>(i, call)\<in>set (ics @ [(q, submit)]). decoded_ok call \<and> same_counts call"
    and "calls_for cb ics = earlier @ recording b ps"
    and "hands_over cb submit"
    and "DumpEntry_IsComplete (recorded_entry b ps q)"
  shows "\<exists>c. process_calls (ics @ [(q, submit)]) consumer_new = Some c \<and>
    incomplete_dumps c cb = None \<and> recorded_entry b ps q \<in> set (complete_dump_entries c)"
proof -
  have ok: "decoded_ok submit" "same_counts submit" "kind_of submit = StepSubmit"
    using assms(1,3) by (cases submit; simp)+
  show ?thesis
  proof (rule recording_reported)
    show "\<forall>(i, call)\<in>set (ics @ [(q, submit)]). in_range call"
      using assms(1) same_counts_in_range by fastforce
    show "project_calls cb ics = earlier @ recording b ps"
      using assms(1,2) calls_for_project [of ics cb] by simp
    show "concerns cb submit"
      using submits_concerns [OF ok] assms(3) by simp
  qed (use ok assms(4) in simp_all)
qed

theorem recorded_buffer_dumped_witness:
  "\<exists>c. process_calls ([(1, vkBeginCommandBuffer 7), (2, vkBeginCommandBuffer 8), (3, vkCmdBeginRenderPass 7),
        (4, vkCmdDraw 7), (5, vkCmdDraw 8), (6, vkCmdEndRenderPass 7)] @
      [(9, vkQueueSubmit 2 [\<lparr>commandBufferCount = 1, command_buffer_ids = [8]\<rparr>,
             \<lparr>commandBufferCount = 1, command_buffer_ids = [7]\<rparr>])]) consumer_new = Some c \<and>
    incomplete_dumps c 7 = None \<and> recorded_entry 1 [(3, [4], 6)] 9 \<in> set (complete_dump_entries c)"
  by (rule recorded_buffer_dumped [where earlier = "[]"])
    (simp_all add: calls_for_def recording_def pass_calls_def
      recorded_entry_def DumpEntry_IsComplete_def DumpRenderPass_IsComplete_def)

text \<open>
  C21. Over a capture whose block indices increase, the program leaves the defined behaviour exactly when
  some submission has an entry with fewer command buffers than its first one. Otherwise it fails only if
  the output file does, and every entry it finds is complete and in order: the command buffer begins
  before its render passes, which do not overlap, every draw is inside one of them, and the submission
  is last. It writes the entries as found or, with \<^verbatim>\<open>--last_draw_only\<close>, each with the last draw of its
  command buffer only (not, as the help text has it, of each render pass).
\<close>

theorem dumped_entries_ordered:
  assumes "\<forall>(i, call)\<in>set ics. decoded_ok call" and "sorted_wrt (<) (map fst ics)"
  shows "if \<exists>(i, call)\<in>set ics. fewer_later call
    then gfxr_dump_resources_main 3 last_only (Some ics) True closes = None
    else \<exists>es. FindDumpableResources (Some ics) = Some (Some es) \<and>
      gfxr_dump_resources_main 3 last_only (Some ics) True closes =
        Some (if closes then 0 else 1,
          dump_json (if last_only then map (\<lambda>e. e\<lparr>draws := [last (draws e)]\<rparr>) es else es)) \<and>
      (\<forall>e\<in>set es. DumpEntry_IsComplete e \<and> entry_ordered e)"
proof (cases "\<exists>(i, call)\<in>set ics. fewer_later call")
  case True
  then have "\<exists>(i, call)\<in>set ics. \<not> in_range call"
    using assms(1) in_range_iff by fastforce
  with True dump_main_past show ?thesis by simp
next
  case False
  then have "\<forall>(i, call)\<in>set ics. in_range call"
    using assms(1) in_range_iff by fastforce
  with False dump_main_ok [OF _ assms(2)] show ?thesis
    unfolding last_draw_def [abs_def] by simp
qed

theorem dumped_entries_ordered_witness:
  "(\<exists>es. FindDumpableResources (Some [(1, vkBeginCommandBuffer 7), (2, vkCmdBeginRenderPass2KHR 7),
        (3, vkCmdDraw 7), (4, vkCmdDrawIndexed 7), (6, vkCmdEndRenderPass2KHR 7),
        (9, vkQueueSubmit 1 [\<lparr>commandBufferCount = 1, command_buffer_ids = [7]\<rparr>])]) = Some (Some es) \<and>
      (\<forall>e\<in>set es. DumpEntry_IsComplete e \<and> entry_ordered e)) \<and>
   gfxr_dump_resources_main 3 False
     (Some [(1, vkQueueSubmit 2 [\<lparr>commandBufferCount = 2, command_buffer_ids = [7, 8]\<rparr>,
        \<lparr>commandBufferCount = 1, command_buffer_ids = [9]\<rparr>])]) True True = None"
proof -
  have "\<exists>es. FindDumpableResources (Some [(1, vkBeginCommandBuffer 7), (2, vkCmdBeginRenderPass2KHR 7),
        (3, vkCmdDraw 7), (4, vkCmdDrawIndexed 7), (6, vkCmdEndRenderPass2KHR 7),
        (9, vkQueueSubmit 1 [\<lparr>commandBufferCount = 1, command_buffer_ids = [7]\<rparr>])]) = Some (Some es) \<and>
      (\<forall>e\<in>set es. DumpEntry_IsComplete e \<and> entry_ordered e)"
    using dumped_entries_ordered [of "[(1, vkBeginCommandBuffer 7), (2, vkCmdBeginRenderPass2KHR 7),
        (3, vkCmdDraw 7), (4, vkCmdDrawIndexed 7), (6, vkCmdEndRenderPass2KHR 7),
        (9, vkQueueSubmit 1 [\<lparr>commandBufferCount = 1, command_buffer_ids = [7]\<rparr>])]" True True]
    by (auto simp del: queue_submit_loop.simps)
  then show ?thesis
    using dumped_entries_ordered [of "[(1, vkQueueSubmit 2 [\<lparr>commandBufferCount = 2, command_buffer_ids = [7, 8]\<rparr>,
        \<lparr>commandBufferCount = 1, command_buffer_ids = [9]\<rparr>])]" False True]
    by simp
qed

text \<open>
  C22. Whatever is added, removed and cleared, the file that is written is the original one with each
  recorded modification at its place: before, instead of, or after its block, in the order of the
  secondary ids, and with the blocks that were marked for deletion left out.
\<close>

theorem edited_file_refines:
  assumes "offsets_ok orig offs" and "append_laws fwrite"
    and "M = fold (spec_edit (length offs)) es (\<lambda>_. None)" and "no_empty_blobs M"
    and "d = fold exec_edit es (snd (loaded_data offs (word_of_nat (length orig))))"
  shows "WriteGFXRFile fwrite (Some orig) True True True d = (True, Some (edited_file orig offs M))"
  using assms by (rule edited_file_written)

theorem edited_file_refines_witness:
  "WriteGFXRFile (\<lambda>f bytes. (True, f @ bytes)) (Some [10, 11, 12, 13]) True True True
      (fold exec_edit [EditAdd 0 0 None, EditAdd 1 (- 1) (Some [99]), EditAdd 5 0 None]
        (snd (loaded_data [1, 2] (word_of_nat (length [10::byte, 11, 12, 13]))))) =
    (True, Some (edited_file [10, 11, 12, 13] [1, 2]
      (fold (spec_edit (length [1::u64, 2]))
        [EditAdd 0 0 None, EditAdd 1 (- 1) (Some [99]), EditAdd 5 0 None] (\<lambda>_. None))))"
  by (rule edited_file_refines [OF _ _ refl _ refl])
    (simp_all add: offsets_ok_def append_laws_def no_empty_blobs_def)

text \<open>
  C23. A file whose modifications have all been undone is written back byte for byte: its header, and
  every block, copied in pieces of the size of the copy buffer.
\<close>

theorem unmodified_file_roundtrip:
  assumes "offsets_ok orig offs" and "append_laws fwrite"
    and "fold (spec_edit (length offs)) es (\<lambda>_. None) = (\<lambda>_. None)"
  shows "WriteGFXRFile fwrite (Some orig) True True True
    (fold exec_edit es (snd (loaded_data offs (word_of_nat (length orig))))) = (True, Some orig)"
  using assms by (rule unmodified_file_copied)

theorem unmodified_file_roundtrip_witness:
  "WriteGFXRFile (\<lambda>f bytes. (True, f @ bytes)) (Some [10, 11, 12, 13]) True True True
    (fold exec_edit [EditAdd 1 3 (Some [7]), EditRemove 1 3]
      (snd (loaded_data [1, 2] (word_of_nat (length [10::byte, 11, 12, 13]))))) = (True, Some [10, 11, 12, 13])"
  by (rule unmodified_file_roundtrip) (simp_all add: offsets_ok_def append_laws_def fun_eq_iff)

section \<open>Loading a capture\<close>

text \<open>
  C32. Loading an \<^verbatim>\<open>.rd\<close> file that consists of complete sections is the fold of their meaning: it
  returns at the first section that fails, with what was loaded before it, and finalizes the memory
  after the last one. Padding may stand before every section, but at the end of the file it makes the
  file corrupt. Of a section of unknown type only the header is skipped, and once the GPU id is known
  the bytes of a chip id are skipped only if their low half is no section type. All this holds however
  the archive library splits the file.
\<close>

theorem rd_file_sections:
  assumes "archive_laws env rest" and "fresh_laws env"
    and "secs_ok env (map snd pss) (rd_vars_new cd)"
    and "rest h = concat (map encode_sec pss) @ concat (replicate k padding)"
  shows "LoadAdrenoRdFile env name (Some h) cd =
    do {
      (r, v) \<leftarrow> sec_effects env (map snd pss) (rd_vars_new cd);
      case r of
        Some result \<Rightarrow> Some (result, capture v)
      | None \<Rightarrow>
          if k > 0 then Some (kCorruptData, capture v)
          else do {
            mm \<leftarrow> MemoryManager_Finalize (rd_debug env) True True (m_memory (capture v));
            Some (kSuccess, (capture v)\<lparr>m_memory := mm, m_cur_capture_file := name\<rparr>)
          }
    }"
  using assms by (rule rd_sections_loaded)

theorem rd_file_sections_witness:
  "LoadAdrenoRdFile memory_archive ''a.rd''
      (Some (encode_sec (2, SecGpuId 630) @ encode_sec (0, SecUnknown 77 8) @ encode_sec (1, SecChipId 99)))
      Pm4CaptureData_new =
    do {
      mm \<leftarrow> MemoryManager_Finalize True True True (m_memory (SetGPUID 630 Pm4CaptureData_new));
      Some (kSuccess, (SetGPUID 630 Pm4CaptureData_new)\<lparr>m_memory := mm, m_cur_capture_file := ''a.rd''\<rparr>)
    } \<and>
   LoadAdrenoRdFile memory_archive ''a.rd'' (Some (encode_sec (0, SecGpuId 630) @ padding)) Pm4CaptureData_new =
     Some (kCorruptData, SetGPUID 630 Pm4CaptureData_new) \<and>
   LoadAdrenoRdFile memory_archive ''a.rd''
      (Some (encode_sec (0, SecGpuId 630) @ encode_sec (0, SecGpuaddr 0x1000 4) @ encode_sec (0, SecBufferContents [1])))
      Pm4CaptureData_new = Some (kCorruptData, SetGPUID 630 Pm4CaptureData_new)"
proof -
  have known: "\<not> chip_wanted ((rd_vars_new Pm4CaptureData_new)\<lparr>capture := SetGPUID 630 Pm4CaptureData_new\<rparr>)"
    by (simp add: chip_wanted_def SetGPUID_def Let_def kGPUVariantNone_def)
  have debug: "rd_debug memory_archive"
    by (simp add: memory_archive_def)
  show ?thesis
    using rd_file_sections [OF memory_archive_laws,
        of "[(2, SecGpuId 630), (0, SecUnknown 77 8), (1, SecChipId 99)]" Pm4CaptureData_new _ 0 "''a.rd''", OF _ refl]
      rd_file_sections [OF memory_archive_laws, of "[(0, SecGpuId 630)]" Pm4CaptureData_new _ 1 "''a.rd''", OF _ refl]
      rd_file_sections [OF memory_archive_laws,
        of "[(0, SecGpuId 630), (0, SecGpuaddr 0x1000 4), (0, SecBufferContents [1])]" Pm4CaptureData_new _ 0 "''a.rd''", OF _ refl]
      known debug
    by (simp add: sec_fits_def rd_vars_new_def RD_CHIP_ID_def low_half_def)
qed

text \<open>
  C33. From the file to the emulator: a capture of submits with their buffers and command streams is
  loaded as these submits. Of the captured buffers, exactly those are kept that are at least as large as
  every earlier and larger than every later capture of the same address for the same submit; each of them
  can be read back from the memory with its content. A buffer that is not kept is superseded by a kept one
  of the same address and submit that is at least as large.
\<close>

theorem rd_capture_readable:
  assumes "archive_laws env rest" and "fresh_laws env" and "\<forall>f\<in>set fs. frame_ok f"
    and "ms = captured_blocks 0 fs" and "capture_ok ms"
    and "map snd pss = concat (map frame_secs fs)" and "rest h = concat (map encode_sec pss)"
  shows "\<exists>cd. LoadAdrenoRdFile env name (Some h) Pm4CaptureData_new = Some (kSuccess, cd) \<and>
    m_submits cd = map (frame_submit False) fs \<and>
    set (m_memory_blocks (m_memory cd)) = {ms ! i |i. kept_at ms i} \<and>
    (\<forall>i. kept_at ms i \<longrightarrow> (\<exists>mm'.
       RetrieveMemoryData (replicate (length (mb_data (ms ! i))) 0) (mb_submit_index (ms ! i)) (mb_va_addr (ms ! i))
         (ucast (mb_data_size (ms ! i))) (m_memory cd) = Some (True, mb_data (ms ! i), mm'))) \<and>
    (\<forall>b\<in>set ms. \<exists>i. kept_at ms i \<and> mb_submit_index (ms ! i) = mb_submit_index b \<and>
       mb_va_addr (ms ! i) = mb_va_addr b \<and> mb_data_size b \<le> mb_data_size (ms ! i))"
proof -
  obtain cd where cd: "LoadAdrenoRdFile env name (Some h) Pm4CaptureData_new = Some (kSuccess, cd)"
      "m_submits cd = map (frame_submit False) fs" "mem_ok (m_memory cd)"
      "set (m_memory_blocks (m_memory cd)) = {ms ! i |i. kept_at ms i}"
    using rd_capture_loads [OF assms(1-3) assms(5) [unfolded assms(4)] assms(6,7), of name]
    by (auto simp: winners_kept assms(4))
  have "\<exists>mm'. RetrieveMemoryData (replicate (length (mb_data (ms ! i))) 0) (mb_submit_index (ms ! i))
      (mb_va_addr (ms ! i)) (ucast (mb_data_size (ms ! i))) (m_memory cd) = Some (True, mb_data (ms ! i), mm')"
    if "kept_at ms i" for i
  proof (rule block_readable [OF cd(3)])
    show "ms ! i \<in> set (m_memory_blocks (m_memory cd))"
      using cd(4) that by blast
    have "ms ! i \<in> set ms"
      using that by (simp add: kept_at_def)
    then show "mb_data (ms ! i) \<noteq> []"
      using assms(5) by (simp add: capture_ok_def)
  qed simp
  moreover have "\<exists>i. kept_at ms i \<and> mb_submit_index (ms ! i) = mb_submit_index b \<and>
       mb_va_addr (ms ! i) = mb_va_addr b \<and> mb_data_size b \<le> mb_data_size (ms ! i)" if "b \<in> set ms" for b
    using kept_exists [OF that] by (auto simp: block_key_def)
  ultimately show ?thesis
    using cd by blast
qed

theorem rd_capture_readable_witness:
  "\<exists>cd mm'. LoadAdrenoRdFile memory_archive ''a.rd''
      (Some (concat (map encode_sec (map (Pair 1) (concat (map frame_secs sample_frames)))))) Pm4CaptureData_new =
        Some (kSuccess, cd) \<and>
    m_submits cd = map (frame_submit False) sample_frames \<and>
    RetrieveMemoryData (replicate 3 0) 1 0x1000 3 (m_memory cd) = Some (True, [8, 9, 10], mm')"
proof -
  let ?ms = "captured_blocks 0 sample_frames"
  have "\<forall>f\<in>set sample_frames. frame_ok f"
    by (simp add: sample_frames_def frame_ok_def)
  moreover have "capture_ok ?ms"
    by (simp add: sample_frames_def capture_ok_def captured_block_def block_ok_def apart_def
        blk_hi_def blk_lo_def)
  moreover have "map snd (map (Pair (1::nat)) (concat (map frame_secs sample_frames))) =
      concat (map frame_secs sample_frames)"
    by (simp add: comp_def)
  ultimately obtain cd where cd: "LoadAdrenoRdFile memory_archive ''a.rd''
      (Some (concat (map encode_sec (map (Pair 1) (concat (map frame_secs sample_frames)))))) Pm4CaptureData_new =
        Some (kSuccess, cd)" "m_submits cd = map (frame_submit False) sample_frames"
    and kept: "\<And>i. kept_at ?ms i \<Longrightarrow> (\<exists>mm'.
       RetrieveMemoryData (replicate (length (mb_data (?ms ! i))) 0) (mb_submit_index (?ms ! i)) (mb_va_addr (?ms ! i))
         (ucast (mb_data_size (?ms ! i))) (m_memory cd) = Some (True, mb_data (?ms ! i), mm'))"
    using rd_capture_readable [OF memory_archive_laws _ refl, of sample_frames _ _ "''a.rd''", OF _ _ _ refl]
    by blast
  have ms: "?ms = map2 captured_block [0, 1, 1, 1, 1]
      [(0x1000, [1, 2, 3, 4]), (0x1000, [5, 6]), (0x2000, [7]), (0x1000, [8, 9, 10]), (0x2000, [11])]"
    by (simp add: sample_frames_def)
  have "(\<forall>j<3. P j) \<longleftrightarrow> P 0 \<and> P 1 \<and> P 2" "(\<forall>j. 3 < j \<and> j < 5 \<and> Q j \<longrightarrow> P j) \<longleftrightarrow> (Q 4 \<longrightarrow> P 4)"
    for P Q :: "nat \<Rightarrow> bool"
    by (auto simp: numeral_eq_Suc less_Suc_eq)
  then have "kept_at ?ms 3"
    unfolding kept_at_def ms by (simp add: captured_block_def block_key_def)
  have replicate_3: "replicate 3 (0 :: byte) = [0, 0, 0]"
    by (simp add: numeral_eq_Suc)
  from kept [OF \<open>kept_at ?ms 3\<close>] cd show ?thesis
    unfolding ms replicate_3 by (auto simp: captured_block_def)
qed



text \<open>
  C35. Where a .dive file ends inside a block decides what becomes of it: within the first sixteen bytes,
  the header of the block, the end passes for the regular one and the file loads as if it had stopped
  before; so does an end inside a block of a later revision, which is skipped by its size. Behind the
  header of any other block the file is corrupt, and what stood before the block stays. (Vulkan metadata
  has no body for the loader.)
\<close>

theorem dive_file_cut_short:
  assumes "\<forall>b\<in>set bs. block_fits h b" and "block_fits h b" and "\<not> incompatible_version h"
    and "asserts_hold debug (bs @ [b]) Pm4CaptureData_new" and "j < length (encode_block b)"
  shows "if j < sizeof_BlockInfo \<or> is_later b
    then LoadDiveFile debug name (Some (dive_file h bs @ take j (encode_block b))) Pm4CaptureData_new =
         LoadDiveFile debug name (Some (dive_file h bs)) Pm4CaptureData_new
    else \<exists>cd. LoadDiveFile debug name (Some (dive_file h bs @ take j (encode_block b))) Pm4CaptureData_new =
           Some (kCorruptData, cd) \<and>
         m_submits cd = file_submits bs \<and> m_memory_blocks (m_memory cd) = file_memory 0 bs"
  by (rule dive_file_cut [OF assms])

theorem dive_file_cut_short_witness:
  "\<exists>cd. LoadDiveFile True ''a.dive''
      (Some (dive_file sample_header [DMemory 0x1000 [1, 2, 3]] @ take 20 (encode_block (DMemory 0x2000 [4, 5]))))
      Pm4CaptureData_new = Some (kCorruptData, cd) \<and>
    m_submits cd = [] \<and> length (m_memory_blocks (m_memory cd)) = 1"
  using dive_file_cut_short [of "[DMemory 0x1000 [1, 2, 3]]" sample_header "DMemory 0x2000 [4, 5]" True 20 "''a.dive''"]
  by (simp add: incompatible_version_def sample_header_def kCaptureMajorVersion_def kCaptureMinorVersion_def
      kMaxMemAllocSize_def sizeof_BlockInfo_def encode_block_def asserts_hold_def at_most_one_def)
    (metis One_nat_def length_Cons list.size(3))

section \<open>The command hierarchy\<close>

text \<open>
  C36. Dive's own growable array is a list. A program over several vectors uses every constructor, both
  assignments, and every operation that changes a vector. Where the program asks for nothing that the
  operations do not allow (\<open>op_fits\<close>: sizes stay below \<open>2^32\<close>, the range of the index of the loops; an element
  of the vector itself is appended only while there is room, for otherwise it is read from freed memory;
  elements that are not plain data are copied only onto existing elements, for memory without objects is
  assigned otherwise), it is defined, and every vector then holds what the same program on lists holds:
  the capacity, the size, emptiness, the first, the last and each element are those of the list. The list has
  an undetermined element wherever \<^verbatim>\<open>resize\<close> without a value has grown a vector of a trivially constructible
  type, which any value may stand for.
\<close>

theorem vector_refines_list:
  assumes "ops_fit T ps (\<lambda>_. (0, []))"
  shows "\<exists>s. run_ops T ps (\<lambda>_. Vector_new) = Some s \<and>
    (\<forall>i. let (c, xs) = run_contents T ps (\<lambda>_. (0, [])) i; v = s i in
       unat (v_reserved v) = c \<and> unat (v_size v) = length xs \<and> (vector_empty v \<longleftrightarrow> xs = []) \<and>
       (\<forall>k. unat k < length xs \<longrightarrow>
          (\<exists>b. at_index debug k v = Some b \<and> (\<forall>x. xs ! unat k = Some x \<longrightarrow> b = Live x))) \<and>
       (xs \<noteq> [] \<longrightarrow>
          (\<exists>b. vector_front v = Some b \<and> (\<forall>x. hd xs = Some x \<longrightarrow> b = Live x)) \<and>
          (\<exists>b. vector_back v = Some b \<and> (\<forall>x. last xs = Some x \<longrightarrow> b = Live x))))"
proof -
  have eq: "holds_value b x \<longleftrightarrow> (\<forall>y. x = Some y \<longrightarrow> b = Live y)" for b :: "'a cell" and x
    by (simp add: holds_value_def split: option.split)
  show ?thesis
    using run_ops_reads [OF assms, of debug] unfolding reads_as_def eq Let_def by (simp only: split_def)
qed

theorem vector_refines_list_witness:
  "\<exists>s :: nat vectors. run_ops \<lparr>trivially_constructible = True, trivially_copyable = True, default_value = 0\<rparr>
      [Op_of_list 0 [4, 5], Op_push_back 0 (Elsewhere 6), Op_push_back 0 (Within 1), Op_copy 1 0, Op_resize 1 6,
       Op_move 2 0, Op_pop_back 2, Op_assign_copy 0 2, Op_resize_with 2 5 7] (\<lambda>_. Vector_new) = Some s \<and>
    unat (v_size (s 0)) = 3 \<and> unat (v_size (s 1)) = 6 \<and> unat (v_reserved (s 1)) = 8 \<and>
    at_index True 3 (s 1) = Some (Live 5) \<and> (\<exists>b. at_index True 5 (s 1) = Some b) \<and>
    vector_front (s 2) = Some (Live 4) \<and> vector_back (s 2) = Some (Live 7) \<and> vector_empty (s 3)"
proof -
  let ?T = "\<lparr>trivially_constructible = True, trivially_copyable = True, default_value = 0 :: nat\<rparr>"
  let ?ps = "[Op_of_list 0 [4, 5], Op_push_back 0 (Elsewhere 6), Op_push_back 0 (Within 1), Op_copy 1 0, Op_resize 1 6,
      Op_move 2 0, Op_pop_back 2, Op_assign_copy 0 2, Op_resize_with 2 5 7] :: nat vector_op list"
  have power: "next_power 2 = 2" "next_power 3 = 4" "next_power 4 = 4" "next_power 5 = 8" "next_power 6 = 8"
    using next_power_eq [of 2 1] next_power_eq [of 3 2] next_power_eq [of 4 2] next_power_eq [of 5 3]
      next_power_eq [of 6 3] by simp_all
  moreover have "next_power (Suc (Suc 0)) = 2" "next_power (Suc (Suc (Suc 0))) = 4"
      "next_power (Suc (Suc (Suc (Suc 0)))) = 4"
    using next_power_eq [of 2 1] next_power_eq [of 3 2] next_power_eq [of 4 2]
    by (simp_all add: eval_nat_numeral)
  ultimately have power: "next_power 2 = 2" "next_power 3 = 4" "next_power 4 = 4" "next_power 5 = 8" "next_power 6 = 8"
      "next_power (Suc (Suc 0)) = 2" "next_power (Suc (Suc (Suc 0))) = 4"
      "next_power (Suc (Suc (Suc (Suc 0)))) = 4"
    by simp_all
  have two: "replicate 2 x = [x, x]" for x :: "nat option"
    by (simp add: numeral_2_eq_2)
  have fit: "ops_fit ?T ?ps (\<lambda>_. (0, []))"
    by (simp add: power grown_def resized_def fill_def)
  have run: "run_contents ?T ?ps (\<lambda>_. (0, [])) 0 = (4, [Some 4, Some 5, Some 6])"
      "run_contents ?T ?ps (\<lambda>_. (0, [])) 1 = (8, [Some 4, Some 5, Some 6, Some 5, None, None])"
      "run_contents ?T ?ps (\<lambda>_. (0, [])) 2 = (8, [Some 4, Some 5, Some 6, Some 7, Some 7])"
      "run_contents ?T ?ps (\<lambda>_. (0, [])) 3 = (0, [])"
    by (simp_all add: power two grown_def resized_def fill_def)
  obtain s where s: "run_ops ?T ?ps (\<lambda>_. Vector_new) = Some s" and
    all: "\<And>i. let (c, xs) = run_contents ?T ?ps (\<lambda>_. (0, [])) i; v = s i in
       unat (v_reserved v) = c \<and> unat (v_size v) = length xs \<and> (vector_empty v \<longleftrightarrow> xs = []) \<and>
       (\<forall>k. unat k < length xs \<longrightarrow>
          (\<exists>b. at_index True k v = Some b \<and> (\<forall>x. xs ! unat k = Some x \<longrightarrow> b = Live x))) \<and>
       (xs \<noteq> [] \<longrightarrow>
          (\<exists>b. vector_front v = Some b \<and> (\<forall>x. hd xs = Some x \<longrightarrow> b = Live x)) \<and>
          (\<exists>b. vector_back v = Some b \<and> (\<forall>x. last xs = Some x \<longrightarrow> b = Live x)))"
    using vector_refines_list [OF fit, of True] by blast
  have "at_index True 3 (s 1) = Some (Live 5) \<and> (\<exists>b. at_index True 5 (s 1) = Some b)"
    using all [of 1] unfolding run Let_def by (auto dest: spec [of _ 3] spec [of _ 5])
  then show ?thesis
    using s all [of 0, unfolded run] all [of 1, unfolded run] all [of 2, unfolded run] all [of 3, unfolded run]
    by (auto simp: Let_def)
qed

text \<open>
  A topology built from the lists of children of a forest answers every query as these lists do, every
  node knows its parent and its place among its siblings, and \<^verbatim>\<open>GetNextNodeIndex\<close> walks the tree below the
  root in depth-first order, each node once, and then ends.
\<close>

theorem hierarchy_walk:
  assumes "forest cs" and "cs \<noteq> []" and "length shared = length cs"
  shows "\<exists>t. create_topology debug cs shared starts ends roots SharedNodeTopology_new = Some t \<and>
    successively (\<lambda>a b. GetNextNodeIndex debug a t = Some b) (preorder cs kRootNodeIndex @ [UINT64_MAX]) \<and>
    distinct (preorder cs kRootNodeIndex) \<and>
    (\<forall>i<length cs. GetNumChildren i t = Some (length (cs ! i)) \<and>
      (\<forall>k<length (cs ! i). GetChildNodeIndex debug i k t = Some (cs ! i ! k) \<and>
        GetParentNodeIndex (cs ! i ! k) t = Some i \<and> GetChildIndex (cs ! i ! k) t = Some k))"
proof -
  obtain t where t: "create_topology debug cs shared starts ends roots SharedNodeTopology_new = Some t"
      "represents (length cs) cs t"
    using create_topology_correct [OF assms(1,3)] by metis
  have "kRootNodeIndex < length cs"
    using assms(2) by (simp add: kRootNodeIndex_def)
  then show ?thesis
    using t walk_root [OF assms(1) t(2) assms(2)] preorder_distinct [OF assms(1)]
      GetNumChildren_represents [OF t(2)] GetChildNodeIndex_represents [OF t(2)]
      parent_represents [OF assms(1) t(2)]
    by blast
qed

theorem hierarchy_walk_witness:
  "\<exists>t. create_topology True [[1, 3], [2], [], []] [[], [], [], []] [] [] [] SharedNodeTopology_new = Some t \<and>
    successively (\<lambda>a b. GetNextNodeIndex True a t = Some b) [0, 1, 2, 3, UINT64_MAX]"
proof -
  have f: "forest [[1, 3], [2], [], []]"
    by (auto simp: forest_def less_Suc_eq numeral_eq_Suc)
  have "preorder [[1, 3], [2], [], []] kRootNodeIndex = [0, 1, 2, 3]"
    by (simp add: kRootNodeIndex_def preorder.simps)
  then show ?thesis
    using hierarchy_walk [OF f, of "[[], [], [], []]" True "[]" "[]" "[]"] by auto
qed

text \<open>
  C37. A hierarchy that was built is complete: in both topologies the walk from the root is depth first, meets each
  node once and ends, it meets every submit and IB (or every submit, pass, event and present), and the
  queries of children, parents and places among siblings agree.
\<close>

theorem hierarchy_complete:
  assumes "CreateTrees env retrieve is_valid submits flat CommandHierarchyCreator_new m = Some (True, cr, m')"
  shows "successively (\<lambda>a b. GetNextNodeIndex debug a (h_topology cr t) = Some b)
      (preorder (h_children cr t) kRootNodeIndex @ [UINT64_MAX]) \<and>
    distinct (preorder (h_children cr t) kRootNodeIndex) \<and>
    (\<forall>i T. GetNodeType i (h_nodes cr) = Some T \<and> T \<in> placed_types t \<longrightarrow>
      i \<in> set (preorder (h_children cr t) kRootNodeIndex)) \<and>
    (\<forall>i<num_nodes cr. GetNumChildren i (h_topology cr t) = Some (length (h_children cr t ! i)) \<and>
      (\<forall>k<length (h_children cr t ! i).
        GetChildNodeIndex debug i k (h_topology cr t) = Some (h_children cr t ! i ! k) \<and>
        GetParentNodeIndex (h_children cr t ! i ! k) (h_topology cr t) = Some i \<and>
        GetChildIndex (h_children cr t ! i ! k) (h_topology cr t) = Some k))"
proof -
  note b = CreateTrees_built [OF assms]
  have rep: "represents (length (h_children cr t)) (h_children cr t) (h_topology cr t)"
    and cs: "forest (h_children cr t)" "0 < length (h_children cr t)" "length (h_children cr t) = num_nodes cr"
    using b(1) b(6) [of t] by (simp_all add: tree_ok_def)
  then have ne: "h_children cr t \<noteq> []"
    by auto
  have "i \<in> set (preorder (h_children cr t) kRootNodeIndex)"
    if "GetNodeType i (h_nodes cr) = Some T" "T \<in> placed_types t" for i T
    using placed_walk [OF b(1,2) that(2), of i] that(1)
    by (auto simp: GetNodeType_def vec_at_def type_at_def num_nodes_def kRootNodeIndex_def split: if_splits)
  moreover have "kRootNodeIndex < length (h_children cr t)"
    using cs(2) by (simp add: kRootNodeIndex_def)
  ultimately show ?thesis
    using walk_root [OF cs(1) rep ne] preorder_distinct [OF cs(1)] GetNumChildren_represents [OF rep]
      GetChildNodeIndex_represents [OF rep] parent_represents [OF cs(1) rep] cs(3)
    by simp
qed

theorem hierarchy_complete_witness:
  "\<exists>cr. CreateTrees sample_env sample_retrieve (\<lambda>_ _ _ _. Some True) [sample_submit] False
      CommandHierarchyCreator_new () = Some (True, cr, ()) \<and>
    GetNextNodeIndex True 0 (h_topology cr kAllEventTopology) = Some 1 \<and>
    GetNextNodeIndex True 1 (h_topology cr kAllEventTopology) = Some 4 \<and>
    GetNextNodeIndex True 4 (h_topology cr kAllEventTopology) = Some UINT64_MAX \<and>
    GetParentNodeIndex 4 (h_topology cr kAllEventTopology) = Some 1"
proof -
  obtain cr where r: "CreateTrees sample_env sample_retrieve (\<lambda>_ _ _ _. Some True) [sample_submit] False
      CommandHierarchyCreator_new () = Some (True, cr, ())"
    and v: "m_node_type (h_nodes cr) = [kRootNode, kSubmitNode, kIbNode, kPacketNode, kEventNode]"
      "h_children cr kAllEventTopology = [[1], [4], [], [], []]"
    by (rule sample_run)
  have pre: "preorder [[1], [4], [], [], []] kRootNodeIndex = [0, 1, 4]"
    by code_simp
  note p = hierarchy_complete [OF r, of True kAllEventTopology, unfolded v pre]
  have "GetParentNodeIndex 4 (h_topology cr kAllEventTopology) = Some 1"
    using p [THEN conjunct2, THEN conjunct2, THEN conjunct2, THEN spec, of 1] by (simp add: num_nodes_def v)
  then show ?thesis
    using r p [THEN conjunct1] by simp
qed

text \<open>
  C38. The events of a hierarchy are numbered in the order in which they were found: the list of event nodes has
  exactly the nodes of that type, in increasing order; the event at place \<open>k\<close> has the id \<open>k\<close> and the index
  \<open>k + 1\<close>, and a node that is no event has the index 0. This holds also for a hierarchy left incomplete.
\<close>

theorem events_numbered:
  assumes "CreateTrees env retrieve is_valid submits flat CommandHierarchyCreator_new m = Some (ok, cr, m')"
  shows "sorted_wrt (<) (m_event_node_indices (h_nodes cr)) \<and>
    set (m_event_node_indices (h_nodes cr)) = {i. GetNodeType i (h_nodes cr) = Some kEventNode} \<and>
    (\<forall>k<length (m_event_node_indices (h_nodes cr)).
      GetEventIndex (m_event_node_indices (h_nodes cr) ! k) (h_nodes cr) = k + 1 \<and>
      GetEventNodeId debug (m_event_node_indices (h_nodes cr) ! k) (h_nodes cr) = Some (word_of_nat k)) \<and>
    (\<forall>i. GetNodeType i (h_nodes cr) \<noteq> Some kEventNode \<longrightarrow> GetEventIndex i (h_nodes cr) = 0)"
proof -
  note b = CreateTrees_built(1,3) [OF assms]
  have idx: "m_event_node_indices (h_nodes cr) = nodes_of kEventNode cr"
    using b(2) by (simp add: events_ok_def)
  then have "set (m_event_node_indices (h_nodes cr)) = {i. GetNodeType i (h_nodes cr) = Some kEventNode}"
    by (auto simp: nodes_of_def GetNodeType_def vec_at_def num_nodes_def split: if_splits)
  moreover have "sorted_wrt (<) (m_event_node_indices (h_nodes cr))"
    by (simp add: idx nodes_of_def sorted_wrt_filter)
  ultimately show ?thesis
    using event_queries(1,2) [OF b] GetEventIndex_none by auto
qed

theorem events_numbered_witness:
  "\<exists>cr. CreateTrees sample_env sample_retrieve (\<lambda>_ _ _ _. Some True) [sample_submit] False
      CommandHierarchyCreator_new () = Some (True, cr, ()) \<and>
    GetEventIndex 4 (h_nodes cr) = 1 \<and> GetEventNodeId True 4 (h_nodes cr) = Some 0 \<and> GetEventIndex 3 (h_nodes cr) = 0"
proof -
  obtain cr where r: "CreateTrees sample_env sample_retrieve (\<lambda>_ _ _ _. Some True) [sample_submit] False
      CommandHierarchyCreator_new () = Some (True, cr, ())"
    and v: "m_node_type (h_nodes cr) = [kRootNode, kSubmitNode, kIbNode, kPacketNode, kEventNode]"
      "m_event_node_indices (h_nodes cr) = [4]"
    by (rule sample_run)
  have "GetNodeType 3 (h_nodes cr) \<noteq> Some kEventNode"
    by (simp add: GetNodeType_def vec_at_def v)
  then show ?thesis
    using r events_numbered [OF r, of True] by (simp add: v)
qed

text \<open>
  C39. The packet nodes show, in order, the address and opcode of the packets of type 4 and 7 that the emulator
  reported, and of no others; and the IB nodes show the index, type, size and capture state of the IBs.
\<close>

theorem packets_shown:
  assumes "CreateTrees env retrieve is_valid submits flat CommandHierarchyCreator_new m = Some (ok, cr, m')"
  shows "map (\<lambda>i. (GetPacketNodeAddr debug i (h_nodes cr), GetPacketNodeOpcode debug i (h_nodes cr)))
      (nodes_of kPacketNode cr) =
    map (map_prod Some Some) (concat (map shown_packet (cb_events (h_base cr)))) \<and>
    map (\<lambda>i. (GetIbNodeIndex debug i (h_nodes cr), GetIbNodeType debug i (h_nodes cr),
        GetIbNodeSizeInDwords debug i (h_nodes cr), GetIbNodeIsFullyCaptured debug i (h_nodes cr)))
      (nodes_of kIbNode cr) =
    map (\<lambda>(i, type, n, b). (Some i, type, Some n, Some b)) (concat (map shown_ib (cb_events (h_base cr))))"
  using packet_queries ib_queries CreateTrees_built(1,4) [OF assms] by blast

theorem packets_shown_witness:
  "\<exists>cr. CreateTrees sample_env sample_retrieve (\<lambda>_ _ _ _. Some True) [sample_submit] False
      CommandHierarchyCreator_new () = Some (True, cr, ()) \<and>
    map (\<lambda>i. (GetPacketNodeAddr True i (h_nodes cr), GetPacketNodeOpcode True i (h_nodes cr))) (nodes_of kPacketNode cr) =
      [(Some 0, Some 0x26)] \<and>
    map (\<lambda>i. GetIbNodeSizeInDwords True i (h_nodes cr)) (nodes_of kIbNode cr) = [Some 1]"
proof -
  obtain cr where r: "CreateTrees sample_env sample_retrieve (\<lambda>_ _ _ _. Some True) [sample_submit] False
      CommandHierarchyCreator_new () = Some (True, cr, ())"
    and e: "cb_events (h_base cr) = [ev_IbStart 0 0 sample_ib kNormal, ev_Packet 0 0 0 sample_packet_header,
      ev_IbEnd 0 0 (sample_ib\<lparr>ib_level := 0, ib_enable_mask := 0\<rparr>)]"
    by (rule sample_run)
  note p = packets_shown [OF r, of True, unfolded e]
  have "map (fst \<circ> snd \<circ> snd) (map (\<lambda>i. (GetIbNodeIndex True i (h_nodes cr), GetIbNodeType True i (h_nodes cr),
        GetIbNodeSizeInDwords True i (h_nodes cr), GetIbNodeIsFullyCaptured True i (h_nodes cr))) (nodes_of kIbNode cr)) = [Some 1]"
    unfolding p [THEN conjunct2] by (simp add: sample_ib_def)
  then show ?thesis
    using r p [THEN conjunct1] by (simp add: sample_packet_header o_def)
qed

text \<open>
  C40. No IB node has the type \<^verbatim>\<open>kChain\<close>: the emulator starts an IB that was chained to with the type of the IB
  before, so the branches of the creator that flatten and pop CHAIN IBs are never taken.
\<close>

theorem no_chain_nodes:
  assumes "CreateTrees env retrieve is_valid submits flat CommandHierarchyCreator_new m = Some (ok, cr, m')"
    and "GetNodeType i (h_nodes cr) = Some kIbNode"
  shows "GetIbNodeType debug i (h_nodes cr) \<noteq> Some kChain"
proof
  assume chain: "GetIbNodeType debug i (h_nodes cr) = Some kChain"
  note b = CreateTrees_built(1,4,5) [OF assms(1)]
  let ?view = "\<lambda>i. (GetIbNodeIndex debug i (h_nodes cr), GetIbNodeType debug i (h_nodes cr),
      GetIbNodeSizeInDwords debug i (h_nodes cr), GetIbNodeIsFullyCaptured debug i (h_nodes cr))"
  have "i \<in> set (nodes_of kIbNode cr)"
    using assms(2) by (auto simp: nodes_of_def GetNodeType_def vec_at_def num_nodes_def split: if_splits)
  then have "?view i \<in> set (map ?view (nodes_of kIbNode cr))"
    by simp
  then show False
    using chain no_chain_shown [OF b(3)] unfolding ib_queries [OF b(1,2)] by auto
qed

theorem no_chain_nodes_witness:
  "\<exists>cr. CreateTrees sample_env sample_retrieve (\<lambda>_ _ _ _. Some True) [sample_submit] False
      CommandHierarchyCreator_new () = Some (True, cr, ()) \<and>
    GetNodeType 2 (h_nodes cr) = Some kIbNode \<and> GetIbNodeType True 2 (h_nodes cr) \<noteq> Some kChain"
proof -
  obtain cr where r: "CreateTrees sample_env sample_retrieve (\<lambda>_ _ _ _. Some True) [sample_submit] False
      CommandHierarchyCreator_new () = Some (True, cr, ())"
    and "m_node_type (h_nodes cr) = [kRootNode, kSubmitNode, kIbNode, kPacketNode, kEventNode]"
    by (rule sample_run)
  then have t: "GetNodeType 2 (h_nodes cr) = Some kIbNode"
    by (simp add: GetNodeType_def vec_at_def)
  show ?thesis
    using r t no_chain_nodes [OF r t] by blast
qed

end
